(* ===== verification/Prelude.thy ===== *)
theory Prelude
  imports Main "HOL-Library.Word"
begin

text \<open>
  Shared material of the development: results of fallible code as sums, the bit-list
  helpers behind frame packing, decimal and hexadecimal rendering, the JSON value type
  the tools emit and read, and the generic lemmas about them. Python integers are
  \<open>int\<close>, with \<open>push_bit\<close> for \<open><<\<close>, \<open>drop_bit\<close> for \<open>>>\<close> and \<open>AND\<close>, \<open>OR\<close>,
  \<open>XOR\<close> for the bitwise operators; their meaning on negative integers is the one
  of Python (two's complement without a width).
\<close>

unbundle bit_operations_syntax

named_theorems res_simps "results of fallible computations"
named_theorems bit_lists "lists of bits and the integers they spell"

section \<open>Fallible computations\<close>

text \<open>\<open>Inl e\<close> is a raised exception \<open>e\<close>, \<open>Inr x\<close> a normal return of \<open>x\<close>.\<close>

fun res_bind :: "'e + 'a \<Rightarrow> ('a \<Rightarrow> 'e + 'b) \<Rightarrow> 'e + 'b" where
  "res_bind (Inl e) f = Inl e"
| "res_bind (Inr x) f = f x"

definition require :: "bool \<Rightarrow> 'e \<Rightarrow> 'e + unit" where
  "require c e = (if c then Inr () else Inl e)"

fun res_map :: "('a \<Rightarrow> 'e + 'b) \<Rightarrow> 'a list \<Rightarrow> 'e + 'b list" where
  "res_map f [] = Inr []"
| "res_map f (x # xs) =
     (case f x of Inl e \<Rightarrow> Inl e
      | Inr y \<Rightarrow> (case res_map f xs of Inl e \<Rightarrow> Inl e | Inr ys \<Rightarrow> Inr (y # ys)))"

fun res_iter :: "('a \<Rightarrow> 'e + unit) \<Rightarrow> 'a list \<Rightarrow> 'e + unit" where
  "res_iter f [] = Inr ()"
| "res_iter f (x # xs) = (case f x of Inl e \<Rightarrow> Inl e | Inr _ \<Rightarrow> res_iter f xs)"

definition is_ok :: "'e + 'a \<Rightarrow> bool" where
  "is_ok r = (case r of Inl _ \<Rightarrow> False | Inr _ \<Rightarrow> True)"

lemma is_ok_simps [simp]: "is_ok (Inr x)" "\<not> is_ok (Inl e)"
  by (simp_all add: is_ok_def)

lemma is_ok_iff: "is_ok r \<longleftrightarrow> (\<exists>x. r = Inr x)"
  by (cases r) simp_all

lemma res_bind_Inr_iff [res_simps]:
  "res_bind m f = Inr y \<longleftrightarrow> (\<exists>x. m = Inr x \<and> f x = Inr y)"
  by (cases m) auto

lemma res_bind_Inl_iff [res_simps]:
  "res_bind m f = Inl e \<longleftrightarrow> m = Inl e \<or> (\<exists>x. m = Inr x \<and> f x = Inl e)"
  by (cases m) auto

lemma require_Inr_iff [res_simps]: "require c e = Inr u \<longleftrightarrow> c"
  by (simp add: require_def)

lemma require_Inl_iff [res_simps]: "require c e = Inl e' \<longleftrightarrow> \<not> c \<and> e = e'"
  by (auto simp: require_def)

lemma require_simps [simp]: "require True e = Inr ()" "require False e = Inl e"
  by (simp_all add: require_def)

lemma res_map_Inr_iff:
  "res_map f xs = Inr ys \<longleftrightarrow> list_all2 (\<lambda>x y. f x = Inr y) xs ys"
proof (induction xs arbitrary: ys)
  case Nil
  then show ?case by (cases ys) auto
next
  case (Cons x xs)
  then show ?case
    by (cases ys) (auto split: sum.splits simp flip: Cons.IH)
qed

lemma res_map_Cons_Inr:
  "res_map f (x # xs) = Inr zs \<longleftrightarrow> (\<exists>y ys. f x = Inr y \<and> res_map f xs = Inr ys \<and> zs = y # ys)"
  by (auto split: sum.splits)

lemma res_map_length: "res_map f xs = Inr ys \<Longrightarrow> length ys = length xs"
  by (auto simp: res_map_Inr_iff dest: list_all2_lengthD)

lemma res_map_append:
  "res_map f (xs @ ys) =
     (case res_map f xs of Inl e \<Rightarrow> Inl e
      | Inr as \<Rightarrow> (case res_map f ys of Inl e \<Rightarrow> Inl e | Inr bs \<Rightarrow> Inr (as @ bs)))"
  by (induction xs) (auto split: sum.splits)

lemma res_map_total: "(\<And>x. x \<in> set xs \<Longrightarrow> f x = Inr (g x)) \<Longrightarrow> res_map f xs = Inr (map g xs)"
  by (induction xs) auto

lemma res_map_Inl:
  "res_map f xs = Inl e \<Longrightarrow> \<exists>x \<in> set xs. f x = Inl e"
  by (induction xs) (auto split: sum.splits)

lemma res_map_ok_iff: "is_ok (res_map f xs) \<longleftrightarrow> (\<forall>x \<in> set xs. is_ok (f x))"
  by (induction xs) (auto split: sum.splits)

lemma res_iter_Inr_iff [res_simps]:
  "res_iter f xs = Inr u \<longleftrightarrow> (\<forall>x \<in> set xs. f x = Inr ())"
  by (induction xs) (auto split: sum.splits)

lemma res_iter_Inl:
  "res_iter f xs = Inl e \<Longrightarrow> \<exists>x \<in> set xs. f x = Inl e"
  by (induction xs) (auto split: sum.splits)

section \<open>Chunks of a list\<close>

function chunks :: "nat \<Rightarrow> 'a list \<Rightarrow> 'a list list" where
  "chunks n xs = (if n = 0 \<or> xs = [] then [] else take n xs # chunks n (drop n xs))"
  by pat_completeness auto
termination
  by (relation "measure (\<lambda>(n, xs). length xs)") auto

declare chunks.simps [simp del]

lemma chunks_Nil [simp]: "chunks n [] = []"
  by (simp add: chunks.simps)

lemma chunks_unfold: "0 < n \<Longrightarrow> xs \<noteq> [] \<Longrightarrow> chunks n xs = take n xs # chunks n (drop n xs)"
  by (simp add: chunks.simps [of n xs])

lemma concat_chunks: "0 < n \<Longrightarrow> concat (chunks n xs) = xs"
proof (induction n xs rule: chunks.induct)
  case (1 n xs)
  show ?case
  proof (cases "xs = []")
    case False
    with 1 show ?thesis by (simp add: chunks_unfold)
  qed simp
qed

lemma chunks_lengths:
  "0 < n \<Longrightarrow> n dvd length xs \<Longrightarrow> ys \<in> set (chunks n xs) \<Longrightarrow> length ys = n"
proof (induction n xs rule: chunks.induct)
  case (1 n xs)
  show ?case
  proof (cases "xs = []")
    case False
    with 1(3) have le: "n \<le> length xs" by (auto dest: dvd_imp_le)
    with 1(3) have "n dvd length (drop n xs)" by (simp add: dvd_diff_nat)
    with 1 False le show ?thesis by (auto simp: chunks_unfold)
  qed (use 1 in simp)
qed

lemma length_chunks: "0 < n \<Longrightarrow> n dvd length xs \<Longrightarrow> length (chunks n xs) = length xs div n"
proof (induction n xs rule: chunks.induct)
  case (1 n xs)
  show ?case
  proof (cases "xs = []")
    case False
    with 1(3) have le: "n \<le> length xs" by (auto dest: dvd_imp_le)
    with 1(3) have "n dvd length (drop n xs)" by (simp add: dvd_diff_nat)
    with 1 False have "length (chunks n (drop n xs)) = length (drop n xs) div n" by simp
    with 1 False le show ?thesis by (simp add: chunks_unfold le_div_geq)
  qed simp
qed

lemma chunks_append:
  assumes "0 < n" and "n dvd length xs"
  shows "chunks n (xs @ ys) = chunks n xs @ chunks n ys"
  using assms
proof (induction n xs rule: chunks.induct)
  case (1 n xs)
  show ?case
  proof (cases "xs = []")
    case False
    with 1(3) have le: "n \<le> length xs" by (auto dest: dvd_imp_le)
    with 1(3) have "n dvd length (drop n xs)" by (simp add: dvd_diff_nat)
    with 1 False le show ?thesis by (simp add: chunks_unfold)
  qed simp
qed

lemma chunks_concat:
  "0 < n \<Longrightarrow> \<forall>xs \<in> set xss. length xs = n \<Longrightarrow> chunks n (concat xss) = xss"
proof (induction xss)
  case Nil
  then show ?case by simp
next
  case (Cons xs xss)
  then have "xs \<noteq> []" by auto
  with Cons show ?case by (simp add: chunks_append chunks_unfold)
qed

section \<open>Integers as lists of bits\<close>

text \<open>\<open>(v >> b) & 1\<close>\<close>

definition bit_at :: "int \<Rightarrow> nat \<Rightarrow> int" where
  "bit_at v b = drop_bit b v AND 1"

text \<open>\<open>w |= (b & 1) << i\<close> over a list of bits, from position \<open>i\<close> on.\<close>

fun or_bits :: "nat \<Rightarrow> int list \<Rightarrow> int \<Rightarrow> int" where
  "or_bits i [] w = w"
| "or_bits i (b # bs) w = or_bits (Suc i) bs (w OR push_bit i (b AND 1))"

definition bits_ok :: "int list \<Rightarrow> bool" where
  "bits_ok bs = list_all (\<lambda>b. b = 0 \<or> b = 1) bs"

lemma bit_at_of_bool: "bit_at v b = of_bool (bit v b)"
  by (simp add: bit_at_def and_one_eq bit_iff_odd_drop_bit mod_2_eq_odd)

lemma bit_at_eq_1 [simp]: "bit_at v b = 1 \<longleftrightarrow> bit v b"
  by (simp add: bit_at_of_bool)

lemma bit_at_eq_0 [simp]: "bit_at v b = 0 \<longleftrightarrow> \<not> bit v b"
  by (simp add: bit_at_of_bool)

lemma bits_ok_simps [simp]:
  "bits_ok []" "bits_ok (b # bs) \<longleftrightarrow> (b = 0 \<or> b = 1) \<and> bits_ok bs"
  "bits_ok (xs @ ys) \<longleftrightarrow> bits_ok xs \<and> bits_ok ys"
  "bits_ok (replicate n 0)"
  by (auto simp: bits_ok_def list_all_iff)

lemma bits_ok_bit_at [simp, bit_lists]: "bits_ok (map (bit_at v) ns)"
  by (induction ns) (auto simp: bit_at_of_bool)

lemma bits_ok_concat [bit_lists]: "bits_ok (concat bss) \<longleftrightarrow> (\<forall>bs \<in> set bss. bits_ok bs)"
  by (induction bss) auto

lemma bits_ok_take_drop: "bits_ok bs \<Longrightarrow> bits_ok (take n bs)" "bits_ok bs \<Longrightarrow> bits_ok (drop n bs)"
  by (auto simp: bits_ok_def list_all_iff dest: in_set_takeD in_set_dropD)

lemma bits_ok_nth: "bits_ok bs \<Longrightarrow> k < length bs \<Longrightarrow> bs ! k = of_bool (bs ! k = 1)"
  by (auto simp: bits_ok_def list_all_length)

lemma bit_single: "bit (push_bit k 1 :: int) n \<longleftrightarrow> n = k"
  by (simp only: bit_push_bit_iff_int bit_1_iff) auto

lemma and_single: "m AND push_bit n 1 = 0 \<longleftrightarrow> \<not> bit (m :: int) n"
  using and_exp_eq_0_iff_not_bit [of m n] by (simp add: push_bit_eq_mult)

lemma and_255: "v AND 0xFF = take_bit 8 (v :: int)"
  by (simp add: take_bit_eq_mask mask_eq_exp_minus_1)

lemma and_FFFF_take: "v AND 0xFFFF = take_bit 16 (v :: int)"
  by (simp add: take_bit_eq_mask mask_eq_exp_minus_1)

lemma and_FFFFFFFF_take: "v AND 0xFFFFFFFF = take_bit 32 (v :: int)"
  by (simp add: take_bit_eq_mask mask_eq_exp_minus_1)

lemma bit_or_bits [bit_lists]:
  "bit (or_bits i bs w) k \<longleftrightarrow> bit w k \<or> (i \<le> k \<and> k < i + length bs \<and> odd (bs ! (k - i)))"
proof (induction bs arbitrary: i w k)
  case Nil
  then show ?case by auto
next
  case (Cons b bs)
  consider "k < i" | "k = i" | "i < k" by linarith
  then show ?case
  proof cases
    case 3
    then have "k - i = Suc (k - Suc i)" by simp
    with 3 Cons show ?thesis
      by (auto simp: bit_simps bit_1_iff)
  qed (auto simp: Cons bit_simps bit_0)
qed

lemma or_bits_append: "or_bits i (xs @ ys) w = or_bits (i + length xs) ys (or_bits i xs w)"
  by (induction xs arbitrary: i w) auto

lemma or_bits_bit_at [bit_lists]: "or_bits 0 (map (bit_at v) [0..<n]) 0 = take_bit n v"
  by (rule bit_eqI) (auto simp: bit_or_bits bit_take_bit_iff bit_at_of_bool)

lemma or_bits_range: "or_bits 0 bs 0 \<ge> 0 \<and> or_bits 0 bs 0 < 2 ^ length bs"
proof -
  have "take_bit (length bs) (or_bits 0 bs 0) = or_bits 0 bs 0"
    by (rule bit_eqI) (auto simp: bit_or_bits bit_take_bit_iff)
  then show ?thesis by (metis take_bit_int_less_exp take_bit_nonnegative)
qed

lemma bit_at_or_bits:
  "bits_ok bs \<Longrightarrow> map (bit_at (or_bits 0 bs 0)) [0..<length bs] = bs"
  by (rule nth_equalityI) (auto simp: bit_at_of_bool bit_or_bits bits_ok_def list_all_length)

section \<open>Bit length\<close>

text \<open>\<open>int.bit_length()\<close>: the number of bits of the absolute value.\<close>

fun nat_bit_length :: "nat \<Rightarrow> nat" where
  "nat_bit_length n = (if n = 0 then 0 else Suc (nat_bit_length (n div 2)))"

declare nat_bit_length.simps [simp del]

definition bit_length :: "int \<Rightarrow> nat" where
  "bit_length v = nat_bit_length (nat \<bar>v\<bar>)"

lemma nat_bit_length_bound: "n < 2 ^ nat_bit_length n"
proof (induction n rule: nat_bit_length.induct)
  case (1 n)
  show ?case
  proof (cases "n = 0")
    case False
    with 1 have "n div 2 < 2 ^ nat_bit_length (n div 2)" by simp
    then have "n < 2 * 2 ^ nat_bit_length (n div 2)" by linarith
    with False show ?thesis by (simp add: nat_bit_length.simps [of n])
  qed (simp add: nat_bit_length.simps)
qed

lemma bit_length_bound: "0 \<le> v \<Longrightarrow> v < 2 ^ bit_length v"
  using nat_bit_length_bound [of "nat \<bar>v\<bar>"] by (simp add: bit_length_def nat_less_iff)

section \<open>Decimal numerals\<close>

definition digit_char :: "nat \<Rightarrow> char" where
  "digit_char d = char_of (48 + d)"

fun nat_str :: "nat \<Rightarrow> string" where
  "nat_str n = (if n < 10 then [digit_char n] else nat_str (n div 10) @ [digit_char (n mod 10)])"

declare nat_str.simps [simp del]

definition str_nat :: "string \<Rightarrow> nat" where
  "str_nat s = foldl (\<lambda>a c. a * 10 + (of_char c - 48)) 0 s"

definition is_digit :: "char \<Rightarrow> bool" where
  "is_digit c \<longleftrightarrow> 48 \<le> (of_char c :: nat) \<and> (of_char c :: nat) \<le> 57"

lemma of_digit_char: "d < 10 \<Longrightarrow> (of_char (digit_char d) :: nat) = 48 + d"
  by (simp add: digit_char_def take_bit_eq_mod)

lemma str_nat_nat_str [simp]: "str_nat (nat_str n) = n"
proof (induction n rule: nat_str.induct)
  case (1 n)
  show ?case
  proof (cases "n < 10")
    case True
    then show ?thesis by (simp add: nat_str.simps [of n] str_nat_def of_digit_char)
  next
    case False
    with 1 show ?thesis
      by (simp add: nat_str.simps [of n] str_nat_def of_digit_char)
  qed
qed

lemma nat_str_inject [simp]: "nat_str m = nat_str n \<longleftrightarrow> m = n"
  by (metis str_nat_nat_str)

lemma nat_str_nonempty [simp]: "nat_str n \<noteq> []"
  by (subst nat_str.simps) simp

lemma nat_str_digits: "\<forall>c \<in> set (nat_str n). is_digit c"
proof (induction n rule: nat_str.induct)
  case (1 n)
  have d: "m < 10 \<Longrightarrow> is_digit (digit_char m)" for m
    by (simp add: is_digit_def of_digit_char)
  show ?case
  proof (cases "n < 10")
    case True
    then show ?thesis by (simp add: nat_str.simps [of n] d)
  next
    case False
    with 1 show ?thesis by (auto simp: nat_str.simps [of n] d)
  qed
qed

section \<open>JSON values\<close>

text \<open>
  Objects keep their keys in insertion order, as a Python dict does; the lookup takes the
  first binding.
\<close>

datatype json =
  JNull
| JBool bool
| JInt int
| JStr string
| JList "json list"
| JObj "(string \<times> json) list"

definition jget :: "(string \<times> json) list \<Rightarrow> string \<Rightarrow> json option" where
  "jget obj k = map_of obj k"

end
