(* ===== verification/Emri.thy ===== *)
theory Emri
  imports Prelude
begin

text \<open>
  The EMRI register constants of ethereal-tools/tools/emri_constants.py: word offsets,
  command codes, daemon states, error codes and bit positions, each with the value the
  Python module gives it. They are input abbreviations of integer numerals, so the other
  theories use the source's names and the simplifier sees the numbers.
\<close>

subsection \<open>Magic / ABI\<close>

abbreviation (input) EMRI_MAGIC :: int where "EMRI_MAGIC \<equiv> 0x45544852"

abbreviation (input) EMRI_ABI_VERSION :: int where "EMRI_ABI_VERSION \<equiv> 0x0"

subsection \<open>Register word-offsets (spec sec 2)\<close>

abbreviation (input) R_MAGIC :: int where "R_MAGIC \<equiv> 0x0"

abbreviation (input) R_ABI_VERSION :: int where "R_ABI_VERSION \<equiv> 0x1"

abbreviation (input) R_CAPABILITIES :: int where "R_CAPABILITIES \<equiv> 0x2"

abbreviation (input) R_PLATFORM_ID :: int where "R_PLATFORM_ID \<equiv> 0x3"

abbreviation (input) R_NUM_REGIONS :: int where "R_NUM_REGIONS \<equiv> 0x4"

abbreviation (input) R_REGION_INFO :: int where "R_REGION_INFO \<equiv> 0x5"

abbreviation (input) R_REGION_SEL :: int where "R_REGION_SEL \<equiv> 0x6"

abbreviation (input) R_OCC_CMD :: int where "R_OCC_CMD \<equiv> 0x8"

abbreviation (input) R_OCC_WDATA :: int where "R_OCC_WDATA \<equiv> 0x9"

abbreviation (input) R_OCC_STATUS :: int where "R_OCC_STATUS \<equiv> 0xA"

abbreviation (input) R_OCC_FRAME_ADDR :: int where "R_OCC_FRAME_ADDR \<equiv> 0xB"

abbreviation (input) R_OCC_WORD_COUNT :: int where "R_OCC_WORD_COUNT \<equiv> 0xC"

abbreviation (input) R_OCC_DECODE :: int where "R_OCC_DECODE \<equiv> 0xD"

abbreviation (input) R_OCC_EXPECT_CRC :: int where "R_OCC_EXPECT_CRC \<equiv> 0xE"

abbreviation (input) R_OCC_CRC_RESULT :: int where "R_OCC_CRC_RESULT \<equiv> 0xF"

abbreviation (input) R_SESSION_CMD :: int where "R_SESSION_CMD \<equiv> 0x10"

abbreviation (input) R_SESSION_STATUS :: int where "R_SESSION_STATUS \<equiv> 0x11"

abbreviation (input) R_RX_BUF_CTRL :: int where "R_RX_BUF_CTRL \<equiv> 0x12"

abbreviation (input) R_HEALTH_STATUS :: int where "R_HEALTH_STATUS \<equiv> 0x20"

abbreviation (input) R_MON_TEMP :: int where "R_MON_TEMP \<equiv> 0x30"

abbreviation (input) R_MON_VCCINT :: int where "R_MON_VCCINT \<equiv> 0x31"

abbreviation (input) R_MON_RECFG_COUNT :: int where "R_MON_RECFG_COUNT \<equiv> 0x32"

abbreviation (input) R_MON_WDT_COUNT :: int where "R_MON_WDT_COUNT \<equiv> 0x33"

abbreviation (input) R_MON_ANOM_STATUS :: int where "R_MON_ANOM_STATUS \<equiv> 0x34"

abbreviation (input) R_MON_ANOM_WINDOW :: int where "R_MON_ANOM_WINDOW \<equiv> 0x35"

abbreviation (input) R_MON_ANOM_THRESH :: int where "R_MON_ANOM_THRESH \<equiv> 0x36"

abbreviation (input) R_MON_NOTIFY :: int where "R_MON_NOTIFY \<equiv> 0x37"

subsection \<open>EFP command block (spec sec 3.2, v0.2)\<close>

abbreviation (input) R_EFP_CMD :: int where "R_EFP_CMD \<equiv> 0x13"

abbreviation (input) R_EFP_REGION :: int where "R_EFP_REGION \<equiv> 0x14"

abbreviation (input) R_EFP_IMG_WORDS :: int where "R_EFP_IMG_WORDS \<equiv> 0x15"

abbreviation (input) R_EFP_STATUS :: int where "R_EFP_STATUS \<equiv> 0x16"

abbreviation (input) R_EFP_ERR :: int where "R_EFP_ERR \<equiv> 0x17"

abbreviation (input) R_EFP_IMG_COLS :: int where "R_EFP_IMG_COLS \<equiv> 0x21"

abbreviation (input) R_CAP_DECL_IO :: int where "R_CAP_DECL_IO \<equiv> 0x22"

abbreviation (input) R_CAP_DECL_SVC :: int where "R_CAP_DECL_SVC \<equiv> 0x23"

abbreviation (input) R_CAP_STATUS :: int where "R_CAP_STATUS \<equiv> 0x24"

abbreviation (input) R_CTX_CMD :: int where "R_CTX_CMD \<equiv> 0x26"

abbreviation (input) R_CTX_WORDS :: int where "R_CTX_WORDS \<equiv> 0x27"

abbreviation (input) R_CTX_STATUS :: int where "R_CTX_STATUS \<equiv> 0x28"

abbreviation (input) CTX_CMD_SAVE :: int where "CTX_CMD_SAVE \<equiv> 0x1"

abbreviation (input) CTX_CMD_RESTORE :: int where "CTX_CMD_RESTORE \<equiv> 0x3"

abbreviation (input) CTX_STATUS_DONE :: int where "CTX_STATUS_DONE \<equiv> 1"

abbreviation (input) CTX_STATUS_BUSY :: int where "CTX_STATUS_BUSY \<equiv> 2"

abbreviation (input) CTX_STATUS_ERR :: int where "CTX_STATUS_ERR \<equiv> 4"

abbreviation (input) R_IMG_DIGEST :: int where "R_IMG_DIGEST \<equiv> 0x18"

abbreviation (input) R_IMG_SIG :: int where "R_IMG_SIG \<equiv> 0x50"

abbreviation (input) IMG_DIGEST_WORDS :: nat where "IMG_DIGEST_WORDS \<equiv> 8"

abbreviation (input) IMG_SIG_WORDS :: nat where "IMG_SIG_WORDS \<equiv> 16"

abbreviation (input) EFP_CMD_NOP :: int where "EFP_CMD_NOP \<equiv> 0"

abbreviation (input) EFP_CMD_RUN :: int where "EFP_CMD_RUN \<equiv> 1"

abbreviation (input) EFP_CMD_STOP :: int where "EFP_CMD_STOP \<equiv> 2"

abbreviation (input) EFP_CMD_RESTART :: int where "EFP_CMD_RESTART \<equiv> 3"

abbreviation (input) EFP_CMD_ABORT :: int where "EFP_CMD_ABORT \<equiv> 4"

abbreviation (input) EFP_CMD_RUN_PACKED :: int where "EFP_CMD_RUN_PACKED \<equiv> 5"

abbreviation (input) EFP_CMD_FWUPDATE :: int where "EFP_CMD_FWUPDATE \<equiv> 6"

abbreviation (input) EFP_CMD_REBOOT :: int where "EFP_CMD_REBOOT \<equiv> 7"

abbreviation (input) EFP_CMD_CTX_SAVE :: int where "EFP_CMD_CTX_SAVE \<equiv> 8"

abbreviation (input) EFP_CMD_CTX_RESTORE :: int where "EFP_CMD_CTX_RESTORE \<equiv> 9"

abbreviation (input) EFP_REGION_AUTO :: int where "EFP_REGION_AUTO \<equiv> 0xFF"

abbreviation (input) EFP_S_IDLE :: int where "EFP_S_IDLE \<equiv> 0"

abbreviation (input) EFP_S_VERIFY :: int where "EFP_S_VERIFY \<equiv> 1"

abbreviation (input) EFP_S_ALLOC :: int where "EFP_S_ALLOC \<equiv> 2"

abbreviation (input) EFP_S_BLANK :: int where "EFP_S_BLANK \<equiv> 3"

abbreviation (input) EFP_S_LOAD :: int where "EFP_S_LOAD \<equiv> 4"

abbreviation (input) EFP_S_READBACK :: int where "EFP_S_READBACK \<equiv> 5"

abbreviation (input) EFP_S_RUNNING :: int where "EFP_S_RUNNING \<equiv> 6"

abbreviation (input) EFP_S_ERROR :: int where "EFP_S_ERROR \<equiv> 7"

abbreviation (input) EFP_S_STOPPED :: int where "EFP_S_STOPPED \<equiv> 8"

abbreviation (input) EFP_S_PAUSED :: int where "EFP_S_PAUSED \<equiv> 9"

abbreviation (input) EFP_ERR_NONE :: int where "EFP_ERR_NONE \<equiv> 0"

abbreviation (input) EFP_ERR_BAD_SIG :: int where "EFP_ERR_BAD_SIG \<equiv> 1"

abbreviation (input) EFP_ERR_REGION_FULL :: int where "EFP_ERR_REGION_FULL \<equiv> 2"

abbreviation (input) EFP_ERR_REGION_LOCKED :: int where "EFP_ERR_REGION_LOCKED \<equiv> 3"

abbreviation (input) EFP_ERR_OCC_CRC :: int where "EFP_ERR_OCC_CRC \<equiv> 4"

abbreviation (input) EFP_ERR_OCC_REJECT :: int where "EFP_ERR_OCC_REJECT \<equiv> 5"

abbreviation (input) EFP_ERR_BAD_CMD :: int where "EFP_ERR_BAD_CMD \<equiv> 6"

abbreviation (input) EFP_ERR_IMG_LEN_MISMATCH :: int where "EFP_ERR_IMG_LEN_MISMATCH \<equiv> 7"

abbreviation (input) EFP_ERR_CRC_TRANSPORT :: int where "EFP_ERR_CRC_TRANSPORT \<equiv> 8"

abbreviation (input) EFP_ERR_WATCHDOG_TIMEOUT :: int where "EFP_ERR_WATCHDOG_TIMEOUT \<equiv> 9"

abbreviation (input) EFP_ERR_FWUPDATE :: int where "EFP_ERR_FWUPDATE \<equiv> 10"

abbreviation (input) EFP_ERR_CAPABILITY_DENIED :: int where "EFP_ERR_CAPABILITY_DENIED \<equiv> 11"

abbreviation (input) EFP_ERR_RATE_LIMITED :: int where "EFP_ERR_RATE_LIMITED \<equiv> 12"

abbreviation (input) EFP_ERR_CTX_ERROR :: int where "EFP_ERR_CTX_ERROR \<equiv> 13"

subsection \<open>Event-log ring (spec sec 3.4, v0.4)\<close>

abbreviation (input) R_EVT_LOG_CTRL :: int where "R_EVT_LOG_CTRL \<equiv> 0x38"

abbreviation (input) R_EVT_LOG_DATA :: int where "R_EVT_LOG_DATA \<equiv> 0x39"

abbreviation (input) EVT_LOG_DEPTH :: nat where "EVT_LOG_DEPTH \<equiv> 16"

abbreviation (input) EVT_LOG_CLEAR :: int where "EVT_LOG_CLEAR \<equiv> 0x10000"

abbreviation (input) EVT_CODE_WATCHDOG_TIMEOUT :: int where "EVT_CODE_WATCHDOG_TIMEOUT \<equiv> 1"

abbreviation (input) EVT_CODE_HB_MISMATCH :: int where "EVT_CODE_HB_MISMATCH \<equiv> 2"

abbreviation (input) EVT_CODE_SLOT_CHANGE :: int where "EVT_CODE_SLOT_CHANGE \<equiv> 3"

abbreviation (input) EVT_CODE_POLICY_DENIED :: int where "EVT_CODE_POLICY_DENIED \<equiv> 4"

abbreviation (input) EVT_CODE_RATE_LIMITED :: int where "EVT_CODE_RATE_LIMITED \<equiv> 5"

subsection \<open>CAPABILITIES bits\<close>

abbreviation (input) CAPB_HAS_BMC :: nat where "CAPB_HAS_BMC \<equiv> 0"

abbreviation (input) CAPB_HAS_DMA :: nat where "CAPB_HAS_DMA \<equiv> 1"

abbreviation (input) CAPB_HAS_I2C_MON :: nat where "CAPB_HAS_I2C_MON \<equiv> 2"

abbreviation (input) CAPB_HAS_TRNG :: nat where "CAPB_HAS_TRNG \<equiv> 3"

abbreviation (input) CAPB_HAS_JTAG_DBG :: nat where "CAPB_HAS_JTAG_DBG \<equiv> 4"

subsection \<open>Capability-declaration gate bit layout (spec sec 3.7, v0.6)\<close>

abbreviation (input) CAP_DECL_BITS :: nat where "CAP_DECL_BITS \<equiv> 32"

abbreviation (input) CAP_STATUS_CHECKED :: nat where "CAP_STATUS_CHECKED \<equiv> 0"

abbreviation (input) CAP_STATUS_DENIED :: nat where "CAP_STATUS_DENIED \<equiv> 1"

abbreviation (input) CAP_STATUS_THROTTLED :: nat where "CAP_STATUS_THROTTLED \<equiv> 2"

abbreviation (input) CAP_STATUS_DENIED_IO_LO :: nat where "CAP_STATUS_DENIED_IO_LO \<equiv> 8"

subsection \<open>Anomaly monitor encodings (spec sec 3.8, v0.6)\<close>

abbreviation (input) MON_ANOM_THROTTLE_MASK :: int where "MON_ANOM_THROTTLE_MASK \<equiv> 0xFF"

abbreviation (input) MON_ANOM_FLAG_LO :: nat where "MON_ANOM_FLAG_LO \<equiv> 8"

abbreviation (input) MON_ANOM_WINDOW_DEFAULT :: int where "MON_ANOM_WINDOW_DEFAULT \<equiv> 0x1000"

abbreviation (input) MON_ANOM_THRESH_DEFAULT :: int where "MON_ANOM_THRESH_DEFAULT \<equiv> 0x80010"

abbreviation (input) MON_NOTIFY_WDT_LO :: nat where "MON_NOTIFY_WDT_LO \<equiv> 8"

subsection \<open>OCCCMD bitfield (spec sec 3)\<close>

abbreviation (input) OCC_CMD_CMD_W :: nat where "OCC_CMD_CMD_W \<equiv> 2"

abbreviation (input) OCC_CMD_REG_W :: nat where "OCC_CMD_REG_W \<equiv> 4"

abbreviation (input) OCC_CMD_START :: nat where "OCC_CMD_START \<equiv> 8"

subsection \<open>OCC opcodes (must match occtop)\<close>

abbreviation (input) OCC_NOP :: int where "OCC_NOP \<equiv> 0"

abbreviation (input) OCC_WRITE :: int where "OCC_WRITE \<equiv> 1"

abbreviation (input) OCC_READBACK :: int where "OCC_READBACK \<equiv> 2"

abbreviation (input) OCC_BLANK :: int where "OCC_BLANK \<equiv> 3"

subsection \<open>OCC status encoding (must match occtop statuso)\<close>

abbreviation (input) OCC_S_IDLE :: int where "OCC_S_IDLE \<equiv> 0"

abbreviation (input) OCC_S_BUSY :: int where "OCC_S_BUSY \<equiv> 1"

abbreviation (input) OCC_S_DONE :: int where "OCC_S_DONE \<equiv> 2"

abbreviation (input) OCC_S_ERROR :: int where "OCC_S_ERROR \<equiv> 3"

abbreviation (input) OCC_S_LOCKED :: int where "OCC_S_LOCKED \<equiv> 4"

abbreviation (input) OCC_S_NEEDS_BLANK :: int where "OCC_S_NEEDS_BLANK \<equiv> 5"

subsection \<open>OCCSTATUS register bit layout (spec sec 4)\<close>

abbreviation (input) OCC_STATUS_DONE_FLAG :: nat where "OCC_STATUS_DONE_FLAG \<equiv> 3"

abbreviation (input) OCC_STATUS_DONE_CODE_LO :: nat where "OCC_STATUS_DONE_CODE_LO \<equiv> 4"

abbreviation (input) OCC_DONE_DONE :: int where "OCC_DONE_DONE \<equiv> 0"

abbreviation (input) OCC_DONE_ERROR :: int where "OCC_DONE_ERROR \<equiv> 1"

abbreviation (input) OCC_DONE_NEEDS_BLANK :: int where "OCC_DONE_NEEDS_BLANK \<equiv> 2"

abbreviation (input) OCC_DONE_LOCKED :: int where "OCC_DONE_LOCKED \<equiv> 3"

subsection \<open>EFP-SPI operation opcodes (spec sec 7)\<close>

abbreviation (input) SPI_OP_RD :: int where "SPI_OP_RD \<equiv> 0"

abbreviation (input) SPI_OP_WR :: int where "SPI_OP_WR \<equiv> 1"

abbreviation (input) SPI_OP_BLOCK_RD :: int where "SPI_OP_BLOCK_RD \<equiv> 2"

abbreviation (input) SPI_OP_OCC_PUSH :: int where "SPI_OP_OCC_PUSH \<equiv> 3"

subsection \<open>EFP-SPI response status bytes\<close>

abbreviation (input) SPI_STAT_OK :: int where "SPI_STAT_OK \<equiv> 0x0"

abbreviation (input) SPI_STAT_BAD_OP :: int where "SPI_STAT_BAD_OP \<equiv> 0x1"

abbreviation (input) SPI_STAT_BAD_ADDR :: int where "SPI_STAT_BAD_ADDR \<equiv> 0x2"

abbreviation (input) SPI_STAT_BUSY :: int where "SPI_STAT_BUSY \<equiv> 0x3"

abbreviation (input) SPI_STAT_CRC_ERR :: int where "SPI_STAT_CRC_ERR \<equiv> 0x4"

abbreviation (input) SPI_STAT_NOT_READY :: int where "SPI_STAT_NOT_READY \<equiv> 0xFF"

abbreviation (input) R_SPI_CRC :: int where "R_SPI_CRC \<equiv> 0x3F"

section \<open>The register file\<close>

text \<open>The single-word registers of the map, in the order of the source.\<close>

definition emri_registers :: "int list" where
  "emri_registers =
    [R_MAGIC, R_ABI_VERSION, R_CAPABILITIES, R_PLATFORM_ID, R_NUM_REGIONS,
     R_REGION_INFO, R_REGION_SEL, R_OCC_CMD, R_OCC_WDATA, R_OCC_STATUS,
     R_OCC_FRAME_ADDR, R_OCC_WORD_COUNT, R_OCC_DECODE, R_OCC_EXPECT_CRC, R_OCC_CRC_RESULT,
     R_SESSION_CMD, R_SESSION_STATUS, R_RX_BUF_CTRL, R_HEALTH_STATUS, R_MON_TEMP,
     R_MON_VCCINT, R_MON_RECFG_COUNT, R_MON_WDT_COUNT, R_MON_ANOM_STATUS, R_MON_ANOM_WINDOW,
     R_MON_ANOM_THRESH, R_MON_NOTIFY, R_EFP_CMD, R_EFP_REGION, R_EFP_IMG_WORDS,
     R_EFP_STATUS, R_EFP_ERR, R_EFP_IMG_COLS, R_CAP_DECL_IO, R_CAP_DECL_SVC,
     R_CAP_STATUS, R_CTX_CMD, R_CTX_WORDS, R_CTX_STATUS, R_EVT_LOG_CTRL,
     R_EVT_LOG_DATA, R_SPI_CRC]"

text \<open>The two multi-word staging windows: base offset and number of words.\<close>

definition window :: "int \<Rightarrow> nat \<Rightarrow> int list" where
  "window base n = map (\<lambda>i. base + int i) [0..<n]"

text \<open>No two registers of the EMRI map share a word offset: the 42 single-word
  registers and the words of the digest and signature windows are pairwise distinct, and
  all of them lie below 0x60.\<close>

theorem emri_map_disjoint:
  "distinct (emri_registers @ window R_IMG_DIGEST IMG_DIGEST_WORDS @ window R_IMG_SIG IMG_SIG_WORDS)
   \<and> list_all (\<lambda>r. 0 \<le> r \<and> r < 0x60)
       (emri_registers @ window R_IMG_DIGEST IMG_DIGEST_WORDS @ window R_IMG_SIG IMG_SIG_WORDS)"
  by code_simp

end
