(* ===== verification/Crc.thy ===== *)
theory Crc
  imports Prelude
begin

text \<open>
  CRC-16/CCITT-FALSE as ethereal-tools/tools/frame_map.py computes it over 32-bit words,
  and what it detects. The register is a byte-driven automaton whose step is injective in
  the register and in the byte; the locale below states that contract and derives that a
  single changed input byte always changes the final register.
\<close>

section \<open>The checksum\<close>

definition crc_bit :: "int \<Rightarrow> int" where
  "crc_bit crc = (if crc AND 0x8000 \<noteq> 0 then (push_bit 1 crc XOR 0x1021) AND 0xFFFF
                  else push_bit 1 crc AND 0xFFFF)"

fun crc_bits :: "nat \<Rightarrow> int \<Rightarrow> int" where
  "crc_bits 0 crc = crc"
| "crc_bits (Suc n) crc = crc_bits n (crc_bit crc)"

definition crc_byte :: "int \<Rightarrow> int \<Rightarrow> int" where
  "crc_byte crc b = crc_bits 8 (crc XOR push_bit 8 b)"

text \<open>The four bytes of a word, big endian: \<open>[(w >> s) & 0xFF for s in (24, 16, 8, 0)]\<close>.\<close>

definition word_bytes_be :: "int \<Rightarrow> int list" where
  "word_bytes_be w = map (\<lambda>s. drop_bit s w AND 0xFF) [24, 16, 8, 0]"

definition crc16 :: "int list \<Rightarrow> int" where
  "crc16 words = foldl crc_byte 0xFFFF (concat (map word_bytes_be words)) AND 0xFFFF"

section \<open>Byte-driven automata with an injective step\<close>

locale injective_register =
  fixes step :: "'s \<Rightarrow> 'b \<Rightarrow> 's"
    and states :: "'s set"
    and bytes :: "'b set"
  assumes step_closed: "s \<in> states \<Longrightarrow> b \<in> bytes \<Longrightarrow> step s b \<in> states"
    and state_inj: "s \<in> states \<Longrightarrow> t \<in> states \<Longrightarrow> b \<in> bytes \<Longrightarrow> step s b = step t b \<Longrightarrow> s = t"
    and byte_inj: "s \<in> states \<Longrightarrow> a \<in> bytes \<Longrightarrow> b \<in> bytes \<Longrightarrow> step s a = step s b \<Longrightarrow> a = b"
begin

lemma run_closed: "s \<in> states \<Longrightarrow> set bs \<subseteq> bytes \<Longrightarrow> foldl step s bs \<in> states"
proof (induction bs arbitrary: s)
  case (Cons b bs)
  from Cons.prems have "step s b \<in> states" by (intro step_closed) auto
  with Cons show ?case by simp
qed simp

lemma run_state_inj:
  "s \<in> states \<Longrightarrow> t \<in> states \<Longrightarrow> set bs \<subseteq> bytes \<Longrightarrow> foldl step s bs = foldl step t bs \<Longrightarrow> s = t"
proof (induction bs arbitrary: s t)
  case (Cons b bs)
  from Cons.prems have "step s b = step t b"
    by (rule_tac Cons.IH) (auto intro: step_closed)
  with Cons.prems show ?case by (auto intro: state_inj)
qed simp

lemma one_byte_changed:
  assumes "s \<in> states" and "set xs \<subseteq> bytes" and "set ys \<subseteq> bytes"
    and "a \<in> bytes" and "b \<in> bytes" and "a \<noteq> b"
  shows "foldl step s (xs @ a # ys) \<noteq> foldl step s (xs @ b # ys)"
proof
  assume eq: "foldl step s (xs @ a # ys) = foldl step s (xs @ b # ys)"
  let ?s = "foldl step s xs"
  have s: "?s \<in> states" using assms by (simp add: run_closed)
  from eq have "foldl step (step ?s a) ys = foldl step (step ?s b) ys" by simp
  with s assms have "step ?s a = step ?s b"
    by (meson run_state_inj step_closed)
  with s assms show False by (meson byte_inj)
qed

end

section \<open>The CRC step is injective\<close>

lemma bit_crc_bit:
  "bit (crc_bit c) n \<longleftrightarrow>
     n < 16 \<and> ((0 < n \<and> bit c (n - 1)) \<noteq> (bit c 15 \<and> bit (0x1021 :: int) n))"
proof -
  have "c AND 0x8000 \<noteq> 0 \<longleftrightarrow> bit c 15"
    using and_exp_eq_0_iff_not_bit [of c 15] by simp
  moreover have "bit (0xFFFF :: int) n \<longleftrightarrow> n < 16"
  proof -
    have "(0xFFFF :: int) = mask 16" by (simp add: mask_eq_exp_minus_1)
    then show ?thesis by (simp only: bit_mask_iff) simp
  qed
  moreover have "bit (push_bit 1 c) n \<longleftrightarrow> 0 < n \<and> bit c (n - 1)"
    by (auto simp only: bit_push_bit_iff_int)
  ultimately show ?thesis
    unfolding crc_bit_def by (auto simp only: bit_and_iff bit_xor_iff if_distrib [of "\<lambda>x. bit x n"] split: if_splits)
qed

lemma crc_range_iff: "0 \<le> c \<and> c < 65536 \<longleftrightarrow> take_bit 16 c = (c :: int)"
  by (auto simp: take_bit_int_eq_self_iff)

lemma crc_bit_range: "0 \<le> crc_bit c \<and> crc_bit c < 65536"
  by (simp add: crc_range_iff) (rule bit_eqI, auto simp: bit_take_bit_iff bit_crc_bit)

lemma crc_bit_inj:
  assumes a: "0 \<le> a" "a < 65536" and b: "0 \<le> b" "b < 65536" and eq: "crc_bit a = crc_bit b"
  shows "a = b"
proof -
  have eqb: "bit (crc_bit a) n = bit (crc_bit b) n" for n by (simp add: eq)
  have zero: "bit (crc_bit c) 0 = bit c 15" for c
    by (subst bit_crc_bit) simp
  have top: "bit a 15 = bit b 15"
    using eqb [of 0] by (simp only: zero)
  have low: "bit a n = bit b n" if "n < 15" for n
    using eqb [of "Suc n"] that top by (auto simp: bit_crc_bit)
  have "bit (take_bit 16 a) n = bit (take_bit 16 b) n" for n
    using top low [of n] by (auto simp: bit_take_bit_iff less_Suc_eq numeral_nat)
  then have "take_bit 16 a = take_bit 16 b" by (auto intro: bit_eqI)
  with a b show ?thesis by (simp add: take_bit_int_eq_self)
qed

lemma crc_bits_range: "0 \<le> c \<Longrightarrow> c < 65536 \<Longrightarrow> 0 \<le> crc_bits n c \<and> crc_bits n c < 65536"
proof (induction n arbitrary: c)
  case (Suc n)
  then show ?case using crc_bit_range [of c] by simp
qed simp

lemma crc_bits_inj:
  "0 \<le> a \<Longrightarrow> a < 65536 \<Longrightarrow> 0 \<le> b \<Longrightarrow> b < 65536 \<Longrightarrow> crc_bits n a = crc_bits n b \<Longrightarrow> a = b"
proof (induction n arbitrary: a b)
  case (Suc n)
  have "crc_bit a = crc_bit b"
    using Suc crc_bit_range [of a] crc_bit_range [of b] by simp
  with Suc.prems show ?case by (simp add: crc_bit_inj)
qed simp

lemma xor_byte_range:
  assumes "0 \<le> c" "c < 65536" "0 \<le> b" "b < 256"
  shows "0 \<le> c XOR push_bit 8 b \<and> c XOR push_bit 8 b < (65536 :: int)"
proof -
  have "0 \<le> push_bit 8 b" and "push_bit 8 b < 65536"
    using assms by (simp_all add: push_bit_eq_mult)
  then have "take_bit 16 c = c" and "take_bit 16 (push_bit 8 b) = push_bit 8 b"
    using assms by (simp_all add: take_bit_int_eq_self)
  then have "take_bit 16 (c XOR push_bit 8 b) = c XOR push_bit 8 b"
    by (simp only: take_bit_xor)
  then show ?thesis by (simp only: crc_range_iff)
qed

lemma crc_byte_eqD:
  assumes "0 \<le> s" "s < 65536" "0 \<le> a" "a < 256" "0 \<le> t" "t < 65536" "0 \<le> b" "b < 256"
    and "crc_byte s a = crc_byte t b"
  shows "s XOR push_bit 8 a = t XOR push_bit 8 b"
proof -
  have "0 \<le> s XOR push_bit 8 a" "s XOR push_bit 8 a < 65536"
    "0 \<le> t XOR push_bit 8 b" "t XOR push_bit 8 b < 65536"
    using xor_byte_range [of s a] xor_byte_range [of t b] assms by blast+
  with assms(9) show ?thesis unfolding crc_byte_def by (rule_tac crc_bits_inj)
qed

interpretation crc: injective_register crc_byte "{0..<65536}" "{0..<256}"
proof
  fix s b :: int
  assume "s \<in> {0..<65536}" "b \<in> {0..<256}"
  then show "crc_byte s b \<in> {0..<65536}"
    using xor_byte_range [of s b] crc_bits_range [of "s XOR push_bit 8 b" 8]
    unfolding crc_byte_def atLeastLessThan_iff by blast
next
  fix s t b :: int
  assume "s \<in> {0..<65536}" "t \<in> {0..<65536}" "b \<in> {0..<256}" "crc_byte s b = crc_byte t b"
  then have "s XOR push_bit 8 b = t XOR push_bit 8 b"
    by (intro crc_byte_eqD) simp_all
  then show "s = t" by (metis xor.assoc xor.comm_neutral xor_self_eq)
next
  fix s a b :: int
  assume "s \<in> {0..<65536}" "a \<in> {0..<256}" "b \<in> {0..<256}" "crc_byte s a = crc_byte s b"
  then have "s XOR push_bit 8 a = s XOR push_bit 8 b"
    by (intro crc_byte_eqD) simp_all
  then have "push_bit 8 a = push_bit 8 b" by (metis xor.assoc xor.left_neutral xor_self_eq)
  then show "a = b" by (simp add: push_bit_eq_mult)
qed

section \<open>The checksum of a list of words\<close>

lemma byte_range: "0 \<le> v AND 0xFF \<and> v AND 0xFF < (256 :: int)"
proof -
  have "v AND 0xFF = take_bit 8 v" by (simp add: take_bit_eq_mask mask_eq_exp_minus_1)
  then show ?thesis using take_bit_int_less_exp [of 8 v] by simp
qed

lemma word_bytes_range: "set (word_bytes_be w) \<subseteq> {0..<256}"
  by (auto simp: word_bytes_be_def byte_range)

lemma words_bytes_range: "set (concat (map word_bytes_be ws)) \<subseteq> {0..<256}"
  using word_bytes_range by fastforce

lemma crc_foldl_range:
  "set bs \<subseteq> {0..<256} \<Longrightarrow> 0 \<le> foldl crc_byte 0xFFFF bs \<and> foldl crc_byte 0xFFFF bs < 65536"
  using crc.run_closed [of "0xFFFF" bs] by simp

lemma and_FFFF: "0 \<le> c \<Longrightarrow> c < 65536 \<Longrightarrow> c AND 0xFFFF = (c :: int)"
  using take_bit_int_eq_self [of c 16] by (simp add: take_bit_eq_mask mask_eq_exp_minus_1)

lemma crc16_foldl: "crc16 ws = foldl crc_byte 0xFFFF (concat (map word_bytes_be ws))"
  unfolding crc16_def
  by (rule and_FFFF) (use crc_foldl_range [OF words_bytes_range] in blast)+

lemma crc16_range: "0 \<le> crc16 ws \<and> crc16 ws < 65536"
  by (simp only: crc16_foldl crc_foldl_range words_bytes_range)

lemma crc16_one_byte:
  assumes "word_bytes_be w = xs @ a # ys" and "word_bytes_be w' = xs @ b # ys" and "a \<noteq> b"
  shows "crc16 (us @ w # vs) \<noteq> crc16 (us @ w' # vs)"
proof -
  let ?l = "concat (map word_bytes_be us) @ xs"
  let ?r = "ys @ concat (map word_bytes_be vs)"
  have "foldl crc_byte 0xFFFF (?l @ a # ?r) \<noteq> foldl crc_byte 0xFFFF (?l @ b # ?r)"
    using word_bytes_range [of w] word_bytes_range [of w'] assms words_bytes_range [of us]
      words_bytes_range [of vs]
    by (intro crc.one_byte_changed) auto
  with assms show ?thesis by (simp add: crc16_foldl)
qed

text \<open>Flipping any one of the low 32 bits of one word changes the checksum.\<close>

lemma byte_xor_bit:
  "drop_bit s (w XOR push_bit k 1) AND 0xFF =
     (drop_bit s w AND 0xFF) XOR (if s \<le> k \<and> k < s + 8 then push_bit (k - s) 1 else 0 :: int)"
proof -
  have m: "(0xFF :: int) = mask 8" by (simp add: mask_eq_exp_minus_1)
  show ?thesis
    unfolding m by (rule bit_eqI) (auto simp: bit_simps)
qed

lemma crc16_bit_flip:
  assumes "k < 32"
  shows "crc16 (us @ w # vs) \<noteq> crc16 (us @ (w XOR push_bit k 1) # vs)"
proof -
  let ?b = "\<lambda>s w. drop_bit s w AND 0xFF :: int"
  have nz: "x \<noteq> x XOR 2 ^ n" for x :: int and n
  proof
    assume "x = x XOR 2 ^ n"
    then have "x XOR x = x XOR (x XOR 2 ^ n)" by simp
    then show False by (simp only: xor.assoc [symmetric] xor_self_eq xor.left_neutral) simp
  qed
  have bytes: "word_bytes_be v = [?b 24 v, ?b 16 v, ?b 8 v, ?b 0 v]" for v
    by (simp add: word_bytes_be_def)
  from assms consider "k < 8" | "8 \<le> k" "k < 16" | "16 \<le> k" "k < 24" | "24 \<le> k" "k < 32"
    by linarith
  then show ?thesis
  proof cases
    case 1
    then show ?thesis
      using nz [of "w AND 0xFF" k]
      by (intro crc16_one_byte [of _ "[?b 24 w, ?b 16 w, ?b 8 w]" "?b 0 w" "[]"])
        (simp_all only: bytes byte_xor_bit, simp_all)
  next
    case 2
    then show ?thesis
      using nz [of "drop_bit 8 w AND 0xFF" "k - 8"]
      by (intro crc16_one_byte [of _ "[?b 24 w, ?b 16 w]" "?b 8 w" "[?b 0 w]"])
        (simp_all only: bytes byte_xor_bit, simp_all)
  next
    case 3
    then show ?thesis
      using nz [of "drop_bit 16 w AND 0xFF" "k - 16"]
      by (intro crc16_one_byte [of _ "[?b 24 w]" "?b 16 w" "[?b 8 w, ?b 0 w]"])
        (simp_all only: bytes byte_xor_bit, simp_all)
  next
    case 4
    then show ?thesis
      using nz [of "drop_bit 24 w AND 0xFF" "k - 24"]
      by (intro crc16_one_byte [of _ "[]" "?b 24 w" "[?b 16 w, ?b 8 w, ?b 0 w]"])
        (simp_all only: bytes byte_xor_bit, simp_all)
  qed
qed

lemma crc16_update_bit:
  assumes "i < length ws" and "k < 32"
  shows "crc16 (ws[i := ws ! i XOR push_bit k 1]) \<noteq> crc16 ws"
proof -
  from assms(1) have "ws = take i ws @ ws ! i # drop (Suc i) ws" by (simp add: id_take_nth_drop)
  moreover from assms(1) have "ws[i := x] = take i ws @ x # drop (Suc i) ws" for x
    by (simp add: upd_conv_take_nth_drop)
  ultimately show ?thesis using crc16_bit_flip [OF assms(2)] by metis
qed

end
