(* ===== verification/Frame_Map.thy ===== *)
theory Frame_Map
  imports Crc
begin

text \<open>
  The frame layout of ethereal-tools/tools/frame_map.py: tile types with their config
  points, the \<open>FrameMap\<close> class, packing of a column of tile configurations into 32-bit
  words with a CRC16 tail word, and the inverse. Sizes and indexes are \<open>nat\<close> (the
  descriptor check of fabric_gen.py rejects the others), config values and words are
  \<open>int\<close>. A Python dict from point names to values is a map.
\<close>

abbreviation (input) WORD_W :: nat where "WORD_W \<equiv> 32"
abbreviation (input) CRC_W :: nat where "CRC_W \<equiv> 16"

datatype frame_err =
  LayoutShape nat nat
| TileCount nat nat
| PointRange string int nat
| FrameLength nat nat
| CrcMismatch int int
| BadTileCode int
| IndexErr
| ZeroDivision

section \<open>Config points and tile types\<close>

record config_point =
  cp_name :: string
  cp_width :: nat

record tile_type =
  tt_name :: string
  tt_points :: "config_point list"

definition point :: "string \<Rightarrow> nat \<Rightarrow> config_point" where
  "point n w = \<lparr>cp_name = n, cp_width = w\<rparr>"

definition points_width :: "config_point list \<Rightarrow> nat" where
  "points_width pts = sum_list (map cp_width pts)"

definition tile_type_width :: "tile_type \<Rightarrow> nat" where
  "tile_type_width t = points_width (tt_points t)"

definition clb_tile_type :: "nat \<Rightarrow> nat \<Rightarrow> nat \<Rightarrow> tile_type" where
  "clb_tile_type n k sel_w =
     \<lparr>tt_name = ''clb_t'',
      tt_points = map (\<lambda>i. point (''elut'' @ nat_str i) 20) [0..<n]
        @ map (\<lambda>i. point (''iib_mux'' @ nat_str i) sel_w) [0..<n * k]\<rparr>"

definition sb_tile_type :: "nat \<Rightarrow> nat \<Rightarrow> tile_type" where
  "sb_tile_type w n_inj =
     \<lparr>tt_name = ''switch_box'',
      tt_points =
        concat (map (\<lambda>d. map (\<lambda>t. point (''mux_'' @ d @ ''_'' @ nat_str t) 2) [0..<w])
                  [''n'', ''s'', ''e'', ''w''])
        @ map (\<lambda>j. point (''inj_en_'' @ nat_str j) 1) [0..<n_inj]
        @ map (\<lambda>j. point (''inj_dir_'' @ nat_str j) 2) [0..<n_inj]\<rparr>"

text \<open>\<open>max(1, (4 * W // CB_DIV - 1).bit_length())\<close>; a zero divisor raises.\<close>

definition cb_sel_width :: "nat \<Rightarrow> nat \<Rightarrow> nat" where
  "cb_sel_width w cb_div = max 1 (bit_length (4 * int w div int cb_div - 1))"

definition cb_tile_type :: "nat \<Rightarrow> nat \<Rightarrow> nat \<Rightarrow> frame_err + tile_type" where
  "cb_tile_type w n_cb cb_div =
     (if cb_div = 0 then Inl ZeroDivision
      else Inr \<lparr>tt_name = ''connection_block'',
                tt_points = map (\<lambda>i. point (''cb_sel_'' @ nat_str i) (cb_sel_width w cb_div))
                              [0..<n_cb]\<rparr>)"

definition mem_tile_type :: "int \<Rightarrow> tile_type" where
  "mem_tile_type aw =
     \<lparr>tt_name = ''mem_t'',
      tt_points = [point ''mem_mode'' 16, point ''mem_vbus_ctrl'' 22, point ''mem_vd_i'' 32]\<rparr>"

definition dsp_tile_type :: tile_type where
  "dsp_tile_type =
     \<lparr>tt_name = ''dsp_t'',
      tt_points = [point ''dsp_mode'' 24, point ''dsp_va'' 27, point ''dsp_vb'' 18,
                   point ''dsp_ven'' 1, point ''dsp_vcasc'' 48]\<rparr>"

abbreviation (input) TT_CLB :: int where "TT_CLB \<equiv> 0"
abbreviation (input) TT_MEM :: int where "TT_MEM \<equiv> 1"
abbreviation (input) TT_DSP :: int where "TT_DSP \<equiv> 2"

section \<open>The frame map\<close>

record frame_map =
  fm_R :: nat
  fm_C :: nat
  fm_W :: nat
  fm_N :: nat
  fm_K :: nat
  fm_EXT_IN :: nat
  fm_sel_w :: nat
  fm_n_regions :: nat
  fm_MEM_AW :: int
  fm_CB_DIV :: nat
  fm_layout :: "int list list option"
  fm_clb :: tile_type
  fm_sb :: tile_type
  fm_cblock :: tile_type
  fm_mem :: tile_type
  fm_dsp :: tile_type

text \<open>The constructor: derived tile types, then the shape check of \<open>TILE_LAYOUT\<close>.\<close>

definition frame_map_init ::
  "nat \<Rightarrow> nat \<Rightarrow> nat \<Rightarrow> nat \<Rightarrow> nat \<Rightarrow> nat \<Rightarrow> nat \<Rightarrow> nat \<Rightarrow> int \<Rightarrow> nat \<Rightarrow> int list list option
    \<Rightarrow> frame_err + frame_map" where
  "frame_map_init r c w n k ext_in sel_w n_regions mem_aw cb_div layout =
     res_bind (cb_tile_type w ext_in cb_div) (\<lambda>cb.
       if (case layout of None \<Rightarrow> False
           | Some cols \<Rightarrow> length cols \<noteq> c \<or> (\<exists>col \<in> set cols. length col \<noteq> r))
       then Inl (LayoutShape c r)
       else Inr \<lparr>fm_R = r, fm_C = c, fm_W = w, fm_N = n, fm_K = k, fm_EXT_IN = ext_in,
                 fm_sel_w = sel_w, fm_n_regions = n_regions, fm_MEM_AW = mem_aw,
                 fm_CB_DIV = cb_div, fm_layout = layout,
                 fm_clb = clb_tile_type n k sel_w, fm_sb = sb_tile_type w n, fm_cblock = cb,
                 fm_mem = mem_tile_type mem_aw, fm_dsp = dsp_tile_type\<rparr>)"

definition tile_type_at :: "frame_map \<Rightarrow> nat \<Rightarrow> nat \<Rightarrow> frame_err + int" where
  "tile_type_at fm col row =
     (case fm_layout fm of None \<Rightarrow> Inr TT_CLB
      | Some cols \<Rightarrow>
          if col < length cols \<and> row < length (cols ! col) then Inr (cols ! col ! row)
          else Inl IndexErr)"

definition tile_points_at :: "frame_map \<Rightarrow> nat \<Rightarrow> nat \<Rightarrow> frame_err + config_point list" where
  "tile_points_at fm col row =
     res_bind (tile_type_at fm col row) (\<lambda>tt.
       res_bind (if tt = TT_CLB then Inr (fm_clb fm)
                 else if tt = TT_MEM then Inr (fm_mem fm)
                 else if tt = TT_DSP then Inr (fm_dsp fm)
                 else Inl (BadTileCode tt)) (\<lambda>logic.
         Inr (tt_points (fm_cblock fm) @ tt_points (fm_sb fm) @ tt_points logic)))"

definition column_points :: "frame_map \<Rightarrow> nat \<Rightarrow> frame_err + config_point list list" where
  "column_points fm col = res_map (tile_points_at fm col) [0..<fm_R fm]"

definition column_bits_at :: "frame_map \<Rightarrow> nat \<Rightarrow> frame_err + nat" where
  "column_bits_at fm col =
     res_bind (column_points fm col) (\<lambda>ptss. Inr (sum_list (map points_width ptss)))"

definition words_for :: "nat \<Rightarrow> nat" where
  "words_for bits = (bits + WORD_W - 1) div WORD_W"

definition column_data_words :: "frame_map \<Rightarrow> nat \<Rightarrow> frame_err + nat" where
  "column_data_words fm col = res_bind (column_bits_at fm col) (\<lambda>n. Inr (words_for n))"

definition tile_width :: "frame_map \<Rightarrow> nat" where
  "tile_width fm =
     tile_type_width (fm_clb fm) + tile_type_width (fm_sb fm) + tile_type_width (fm_cblock fm)"

definition column_bits :: "frame_map \<Rightarrow> nat" where
  "column_bits fm = fm_R fm * tile_width fm"

definition data_words_per_frame :: "frame_map \<Rightarrow> nat" where
  "data_words_per_frame fm = words_for (column_bits fm)"

definition words_per_frame :: "frame_map \<Rightarrow> nat" where
  "words_per_frame fm = data_words_per_frame fm + 1"

definition frame_addr :: "int \<Rightarrow> int \<Rightarrow> int" where
  "frame_addr region col = push_bit 12 (region AND 0xF) OR push_bit 8 (col AND 0xF)"

definition tile_points :: "frame_map \<Rightarrow> config_point list" where
  "tile_points fm = tt_points (fm_clb fm) @ tt_points (fm_sb fm) @ tt_points (fm_cblock fm)"

section \<open>Packing\<close>

type_synonym tile_cfg = "string \<rightharpoonup> int"

text \<open>\<open>int(tcfg.get(p.name, 0))\<close>\<close>

definition point_value :: "tile_cfg \<Rightarrow> config_point \<Rightarrow> int" where
  "point_value tcfg p = (case tcfg (cp_name p) of None \<Rightarrow> 0 | Some v \<Rightarrow> v)"

definition emit_point :: "tile_cfg \<Rightarrow> config_point \<Rightarrow> frame_err + int list" where
  "emit_point tcfg p =
     (let v = point_value tcfg p
      in if 0 \<le> v \<and> v < push_bit (cp_width p) 1
         then Inr (map (bit_at v) [0..<cp_width p])
         else Inl (PointRange (cp_name p) v (cp_width p)))"

definition emit_tile :: "config_point list \<Rightarrow> tile_cfg \<Rightarrow> frame_err + int list" where
  "emit_tile pts tcfg = res_bind (res_map (emit_point tcfg) pts) (\<lambda>bss. Inr (concat bss))"

text \<open>\<open>while len(bits) % WORD_W: bits.append(0)\<close>\<close>

function pad_bits :: "int list \<Rightarrow> int list" where
  "pad_bits bits = (if length bits mod WORD_W = 0 then bits else pad_bits (bits @ [0]))"
  by pat_completeness auto
termination
  by (relation "measure (\<lambda>bits. (WORD_W - length bits mod WORD_W) mod WORD_W)")
    (auto simp: mod_Suc)

declare pad_bits.simps [simp del]

definition pack_bits :: "int list \<Rightarrow> int" where
  "pack_bits bits = or_bits 0 bits 0"

definition finish_frame :: "int list \<Rightarrow> int list" where
  "finish_frame bits =
     (let words = map pack_bits (chunks WORD_W (pad_bits bits))
      in words @ [crc16 words AND (push_bit CRC_W 1 - 1)])"

definition pack :: "frame_map \<Rightarrow> tile_cfg list \<Rightarrow> frame_err + int list" where
  "pack fm cfg =
     (if length cfg \<noteq> fm_R fm then Inl (TileCount (fm_R fm) (length cfg))
      else res_bind (res_map (emit_tile (tile_points fm)) cfg) (\<lambda>bss.
             Inr (finish_frame (concat bss))))"

definition pack_column :: "frame_map \<Rightarrow> nat \<Rightarrow> tile_cfg list \<Rightarrow> frame_err + int list" where
  "pack_column fm col cfg =
     (if length cfg \<noteq> fm_R fm then Inl (TileCount (fm_R fm) (length cfg))
      else res_bind
             (res_map (\<lambda>(row, t). res_bind (tile_points_at fm col row) (\<lambda>pts. emit_tile pts t))
                (zip [0..<length cfg] cfg)) (\<lambda>bss.
             Inr (finish_frame (concat bss))))"

definition blank_frame :: "frame_map \<Rightarrow> frame_err + int list" where
  "blank_frame fm = pack fm (map (\<lambda>_. Map.empty) [0..<fm_R fm])"

definition blank_column :: "frame_map \<Rightarrow> nat \<Rightarrow> frame_err + int list" where
  "blank_column fm col = pack_column fm col (map (\<lambda>_. Map.empty) [0..<fm_R fm])"

section \<open>Unpacking\<close>

definition word_bits :: "int \<Rightarrow> int list" where
  "word_bits w = map (bit_at w) [0..<WORD_W]"

text \<open>The length and CRC checks, then the data bits.\<close>

definition check_frame :: "nat \<Rightarrow> int list \<Rightarrow> frame_err + int list" where
  "check_frame n words =
     (if length words \<noteq> n then Inl (FrameLength n (length words))
      else
        let data = butlast words; tail = last words;
            expected = crc16 data AND (push_bit CRC_W 1 - 1)
        in if expected \<noteq> tail AND (push_bit CRC_W 1 - 1)
           then Inl (CrcMismatch (tail AND 0xFFFF) expected)
           else Inr (concat (map word_bits data)))"

text \<open>\<open>v = 0; for b in range(p.width): v |= bits[i + b] << b\<close>, an out-of-range read raising.\<close>

fun read_bits :: "int list \<Rightarrow> nat \<Rightarrow> nat \<Rightarrow> nat \<Rightarrow> int \<Rightarrow> frame_err + int" where
  "read_bits bits i b 0 v = Inr v"
| "read_bits bits i b (Suc n) v =
     (if i + b < length bits
      then read_bits bits i (Suc b) n (v OR push_bit b (bits ! (i + b)))
      else Inl IndexErr)"

fun read_tile ::
  "int list \<Rightarrow> config_point list \<Rightarrow> nat \<Rightarrow> tile_cfg \<Rightarrow> frame_err + tile_cfg \<times> nat" where
  "read_tile bits [] i tcfg = Inr (tcfg, i)"
| "read_tile bits (p # pts) i tcfg =
     res_bind (read_bits bits i 0 (cp_width p) 0) (\<lambda>v.
       read_tile bits pts (i + cp_width p) (tcfg(cp_name p \<mapsto> v)))"

fun read_tiles :: "int list \<Rightarrow> config_point list list \<Rightarrow> nat \<Rightarrow> frame_err + tile_cfg list" where
  "read_tiles bits [] i = Inr []"
| "read_tiles bits (pts # ptss) i =
     res_bind (read_tile bits pts i Map.empty) (\<lambda>(tcfg, i').
       res_bind (read_tiles bits ptss i') (\<lambda>rest. Inr (tcfg # rest)))"

definition unpack :: "frame_map \<Rightarrow> int list \<Rightarrow> frame_err + tile_cfg list" where
  "unpack fm words =
     res_bind (check_frame (words_per_frame fm) words) (\<lambda>bits.
       read_tiles bits (map (\<lambda>_. tile_points fm) [0..<fm_R fm]) 0)"

definition unpack_column :: "frame_map \<Rightarrow> nat \<Rightarrow> int list \<Rightarrow> frame_err + tile_cfg list" where
  "unpack_column fm col words =
     res_bind (column_data_words fm col) (\<lambda>n.
       res_bind (check_frame (n + 1) words) (\<lambda>bits.
         res_bind (column_points fm col) (\<lambda>ptss. read_tiles bits ptss 0)))"


section \<open>The JSON description\<close>

text \<open>\<open>to_json\<close>: the layout as bitgen, OCC and readback read it; the heterogeneous part is
  emitted only when a layout is given.\<close>

definition point_json :: "config_point \<Rightarrow> json" where
  "point_json p = JObj [(''name'', JStr (cp_name p)), (''width'', JInt (int (cp_width p)))]"

definition params_json :: "frame_map \<Rightarrow> json" where
  "params_json fm = JObj [(''R'', JInt (int (fm_R fm))), (''C'', JInt (int (fm_C fm))),
     (''W'', JInt (int (fm_W fm))), (''N'', JInt (int (fm_N fm))), (''K'', JInt (int (fm_K fm))),
     (''EXT_IN'', JInt (int (fm_EXT_IN fm))), (''sel_w'', JInt (int (fm_sel_w fm))),
     (''n_regions'', JInt (int (fm_n_regions fm))), (''MEM_AW'', JInt (fm_MEM_AW fm)),
     (''CB_DIV'', JInt (int (fm_CB_DIV fm)))]"

definition to_json :: "frame_map \<Rightarrow> frame_err + json" where
  "to_json fm =
    (let base =
       [(''version'', JStr ''0.2''), (''params'', params_json fm),
        (''tile_width_bits'', JInt (int (tile_width fm))),
        (''column_bits'', JInt (int (column_bits fm))),
        (''data_words_per_frame'', JInt (int (data_words_per_frame fm))),
        (''words_per_frame'', JInt (int (words_per_frame fm))),
        (''tile_points'', JList (map point_json (tile_points fm))),
        (''frame_addr_format'', JObj [(''region'', JStr ''[15:12]''), (''col'', JStr ''[11:8]''),
           (''word'', JStr ''[7:0]'')]),
        (''crc'', JObj [(''algorithm'', JStr ''CRC-16/CCITT-FALSE''), (''tail_word'', JBool True),
           (''field'', JStr ''[15:0]'')])]
     in case fm_layout fm of
          None \<Rightarrow> Inr (JObj base)
        | Some cols \<Rightarrow>
            res_bind (res_map (column_data_words fm) [0..<fm_C fm]) (\<lambda>ws.
              Inr (JObj (base @
                [(''heterogeneous'', JObj
                   [(''tile_type_codes'', JObj [(''0'', JStr ''clb_t''), (''1'', JStr ''mem_t''),
                      (''2'', JStr ''dsp_t'')]),
                    (''tile_layout'', JList (map (\<lambda>col. JList (map JInt col)) cols)),
                    (''logic_points'', JObj
                       [(''clb_t'', JList (map point_json (tt_points (fm_clb fm)))),
                        (''mem_t'', JList (map point_json (tt_points (fm_mem fm)))),
                        (''dsp_t'', JList (map point_json (tt_points (fm_dsp fm))))]),
                    (''per_column_data_words'', JList (map (\<lambda>n. JInt (int n)) ws))])]))))"

end
