(* ===== verification/Frame_Codec.thy ===== *)
theory Frame_Codec
  imports Frame_Map
begin

text \<open>
  Correctness of the frame packer: packing and unpacking are inverse up to the explicit
  defaults, packing fails exactly on a wrong tile count or an out-of-range value, frames
  have the advertised length and 32-bit words, and a corrupted frame is refused.
\<close>

section \<open>What a tile configuration means\<close>

definition tile_ok :: "config_point list \<Rightarrow> tile_cfg \<Rightarrow> bool" where
  "tile_ok pts t = (\<forall>p \<in> set pts. 0 \<le> point_value t p \<and> point_value t p < 2 ^ cp_width p)"

definition tile_bits :: "config_point list \<Rightarrow> tile_cfg \<Rightarrow> int list" where
  "tile_bits pts t = concat (map (\<lambda>p. map (bit_at (point_value t p)) [0..<cp_width p]) pts)"

text \<open>The tile configuration with every config point present, at its default 0 if absent.\<close>

definition normal_tile :: "config_point list \<Rightarrow> tile_cfg \<Rightarrow> tile_cfg" where
  "normal_tile pts t =
     (\<lambda>n. if n \<in> set (map cp_name pts) then Some (case t n of None \<Rightarrow> 0 | Some v \<Rightarrow> v) else None)"

lemma emit_point_iff:
  "emit_point t p = Inr bs \<longleftrightarrow>
     0 \<le> point_value t p \<and> point_value t p < 2 ^ cp_width p
     \<and> bs = map (bit_at (point_value t p)) [0..<cp_width p]"
  by (auto simp: emit_point_def Let_def push_bit_eq_mult)

lemma emit_tile_iff: "emit_tile pts t = Inr bs \<longleftrightarrow> tile_ok pts t \<and> bs = tile_bits pts t"
proof -
  have "res_map (emit_point t) pts = Inr bss \<longleftrightarrow>
      tile_ok pts t \<and> bss = map (\<lambda>p. map (bit_at (point_value t p)) [0..<cp_width p]) pts" for bss
    unfolding res_map_Inr_iff
    by (induction pts arbitrary: bss)
      (auto simp: tile_ok_def emit_point_iff list_all2_Cons1)
  then show ?thesis by (auto simp: emit_tile_def tile_bits_def res_simps)
qed

lemma length_tile_bits [simp]: "length (tile_bits pts t) = points_width pts"
  by (induction pts) (auto simp: tile_bits_def points_width_def)

lemma bits_ok_tile_bits [simp]: "bits_ok (tile_bits pts t)"
  by (auto simp: tile_bits_def bits_ok_concat)

lemma tile_bits_simps [simp]:
  "tile_bits [] t = []"
  "tile_bits (p # pts) t = map (bit_at (point_value t p)) [0..<cp_width p] @ tile_bits pts t"
  by (simp_all add: tile_bits_def)

lemma tile_ok_simps [simp]:
  "tile_ok [] t"
  "tile_ok (p # pts) t \<longleftrightarrow>
     0 \<le> point_value t p \<and> point_value t p < 2 ^ cp_width p \<and> tile_ok pts t"
  by (auto simp: tile_ok_def)

section \<open>Padding and words\<close>

lemma pad_bits_eq: "\<exists>n. pad_bits bs = bs @ replicate n 0 \<and> n < 32 \<and> 32 dvd length bs + n"
proof (induction bs rule: pad_bits.induct)
  case (1 bs)
  show ?case
  proof (cases "length bs mod 32 = 0")
    case True
    then show ?thesis
      by (intro exI [of _ 0]) (auto simp: pad_bits.simps [of bs])
  next
    case False
    with 1 obtain n where n: "pad_bits (bs @ [0]) = (bs @ [0]) @ replicate n 0" "n < 32"
      "32 dvd length (bs @ [0]) + n" by blast
    have "Suc n < 32"
    proof (rule ccontr)
      assume "\<not> Suc n < 32"
      with n(2) have "n = 31" by simp
      with n(3) have "32 dvd length bs" by (simp add: dvd_def) presburger
      with False show False by auto
    qed
    with n False show ?thesis
      by (intro exI [of _ "Suc n"]) (auto simp: pad_bits.simps [of bs])
  qed
qed

lemma length_pad_bits: "length (pad_bits bs) = 32 * words_for (length bs)"
proof -
  obtain n where "pad_bits bs = bs @ replicate n 0" "n < 32" "32 dvd length bs + n"
    using pad_bits_eq by blast
  then show ?thesis by (auto simp: words_for_def dvd_def)
qed

lemma bits_ok_pad_bits: "bits_ok bs \<Longrightarrow> bits_ok (pad_bits bs)"
  using pad_bits_eq [of bs] by auto

lemma pack_bits_range: "length bs = 32 \<Longrightarrow> 0 \<le> pack_bits bs \<and> pack_bits bs < 2 ^ 32"
  using or_bits_range [of bs] by (simp add: pack_bits_def)

lemma word_bits_pack_bits: "length bs = 32 \<Longrightarrow> bits_ok bs \<Longrightarrow> word_bits (pack_bits bs) = bs"
  using bit_at_or_bits [of bs] by (simp add: word_bits_def pack_bits_def)

lemma words_bits_roundtrip:
  assumes "bits_ok bs" and "32 dvd length bs"
  shows "concat (map word_bits (map pack_bits (chunks 32 bs))) = bs"
proof -
  have "word_bits (pack_bits c) = c" if "c \<in> set (chunks 32 bs)" for c
  proof -
    from that have "length c = 32" using chunks_lengths [of 32 bs c] assms(2) by simp
    moreover have "bits_ok c"
      using concat_chunks [of 32 bs] bits_ok_concat [of "chunks 32 bs"] assms(1) that by simp
    ultimately show ?thesis by (rule word_bits_pack_bits)
  qed
  then have "map word_bits (map pack_bits (chunks 32 bs)) = chunks 32 bs"
    by (simp add: map_idI)
  then show ?thesis by (simp add: concat_chunks)
qed

lemma crc_tail: "crc16 ws AND (push_bit CRC_W 1 - 1) = crc16 ws"
  using crc16_range [of ws] and_FFFF [of "crc16 ws"] by simp

lemma crc_tail_num [simp]: "crc16 ws AND 65535 = crc16 ws"
  using crc_tail by simp

lemma check_finish_frame:
  assumes "bits_ok bs" and "n = words_for (length bs) + 1"
  shows "check_frame n (finish_frame bs) = Inr (pad_bits bs)"
proof -
  have "32 dvd length (pad_bits bs)" by (simp add: length_pad_bits)
  moreover from this have "length (chunks 32 (pad_bits bs)) = words_for (length bs)"
    by (simp add: length_chunks length_pad_bits)
  ultimately show ?thesis
    using assms words_bits_roundtrip [of "pad_bits bs"]
    by (simp add: check_frame_def finish_frame_def Let_def crc_tail bits_ok_pad_bits)
qed

lemma length_finish_frame: "length (finish_frame bs) = words_for (length bs) + 1"
proof -
  have "32 dvd length (pad_bits bs)" by (simp add: length_pad_bits)
  then show ?thesis by (simp add: finish_frame_def Let_def length_chunks length_pad_bits)
qed

lemma finish_frame_words: "\<forall>w \<in> set (finish_frame bs). 0 \<le> w \<and> w < 2 ^ 32"
proof -
  have "32 dvd length (pad_bits bs)" by (simp add: length_pad_bits)
  then have "0 \<le> pack_bits c \<and> pack_bits c < 2 ^ 32" if "c \<in> set (chunks 32 (pad_bits bs))" for c
    using chunks_lengths [of 32 "pad_bits bs" c] that pack_bits_range [of c] by simp
  moreover have "0 \<le> crc16 ws \<and> crc16 ws < 2 ^ 32" for ws using crc16_range [of ws] by simp
  ultimately show ?thesis unfolding finish_frame_def Let_def crc_tail by auto
qed

section \<open>Reading tiles back\<close>

lemma read_bits_eq:
  "i + b + n \<le> length bits \<Longrightarrow> bits_ok bits \<Longrightarrow>
     read_bits bits i b n v = Inr (or_bits b (take n (drop (i + b) bits)) v)"
proof (induction n arbitrary: b v)
  case (Suc n)
  then have lt: "i + b < length bits" by simp
  then have "take (Suc n) (drop (i + b) bits) = bits ! (i + b) # take n (drop (Suc (i + b)) bits)"
    by (simp add: Cons_nth_drop_Suc [symmetric])
  moreover have "bits ! (i + b) AND 1 = bits ! (i + b)"
    using Suc.prems(2) lt by (auto simp: bits_ok_def list_all_length)
  ultimately show ?case using Suc by simp
qed simp

lemma read_tile_eq:
  assumes "tile_ok pts t" and "bits_ok pre" and "bits_ok post"
  shows "read_tile (pre @ tile_bits pts t @ post) pts (length pre) m =
           Inr (foldl (\<lambda>m p. m(cp_name p \<mapsto> point_value t p)) m pts, length pre + points_width pts)"
  using assms
proof (induction pts arbitrary: pre m)
  case Nil
  then show ?case by (simp add: points_width_def)
next
  case (Cons p pts)
  let ?v = "point_value t p"
  let ?bs = "map (bit_at ?v) [0..<cp_width p]"
  let ?bits = "pre @ tile_bits (p # pts) t @ post"
  have "take_bit (cp_width p) ?v = ?v" using Cons.prems by (simp add: take_bit_int_eq_self)
  moreover have "read_bits ?bits (length pre) 0 (cp_width p) 0 = Inr (or_bits 0 ?bs 0)"
    using Cons.prems by (subst read_bits_eq) auto
  ultimately have "read_bits ?bits (length pre) 0 (cp_width p) 0 = Inr ?v"
    by (simp add: or_bits_bit_at)
  moreover have "read_tile ((pre @ ?bs) @ tile_bits pts t @ post) pts (length (pre @ ?bs))
      (m(cp_name p \<mapsto> ?v)) = Inr (foldl (\<lambda>m p. m(cp_name p \<mapsto> point_value t p))
        (m(cp_name p \<mapsto> ?v)) pts, length (pre @ ?bs) + points_width pts)"
    using Cons.prems by (intro Cons.IH) auto
  ultimately show ?case by (simp add: points_width_def add.assoc del: fun_upd_apply)
qed

lemma foldl_point_values:
  "foldl (\<lambda>m p. m(cp_name p \<mapsto> point_value t p)) m pts =
     (\<lambda>n. if n \<in> set (map cp_name pts) then Some (case t n of None \<Rightarrow> 0 | Some v \<Rightarrow> v) else m n)"
proof (induction pts arbitrary: m)
  case (Cons p pts)
  then show ?case by (auto simp: point_value_def fun_eq_iff)
qed simp

lemma read_tiles_eq:
  assumes "list_all2 tile_ok ptss ts" and "bits_ok pre" and "bits_ok post"
  shows "read_tiles (pre @ concat (map2 tile_bits ptss ts) @ post) ptss (length pre) =
           Inr (map2 normal_tile ptss ts)"
  using assms(1,2)
proof (induction ptss ts arbitrary: pre rule: list_all2_induct)
  case Nil
  then show ?case by simp
next
  case (Cons pts ptss t ts)
  let ?rest = "concat (map2 tile_bits ptss ts)"
  have rest: "bits_ok ?rest" by (auto simp: bits_ok_concat set_zip)
  with Cons assms(3) have "read_tile (pre @ tile_bits pts t @ ?rest @ post) pts (length pre) Map.empty
      = Inr (normal_tile pts t, length pre + points_width pts)"
    by (subst read_tile_eq) (auto simp: foldl_point_values normal_tile_def)
  moreover have "read_tiles ((pre @ tile_bits pts t) @ ?rest @ post) ptss
      (length (pre @ tile_bits pts t)) = Inr (map2 normal_tile ptss ts)"
    using Cons.prems by (intro Cons.IH) simp
  ultimately show ?case by simp
qed

lemma read_tiles_padded:
  assumes "list_all2 tile_ok ptss ts"
  shows "read_tiles (pad_bits (concat (map2 tile_bits ptss ts))) ptss 0 =
           Inr (map2 normal_tile ptss ts)"
proof -
  obtain n where "pad_bits (concat (map2 tile_bits ptss ts)) =
      concat (map2 tile_bits ptss ts) @ replicate n 0" using pad_bits_eq by blast
  then show ?thesis using read_tiles_eq [OF assms, of "[]" "replicate n 0"] by simp
qed


section \<open>Codecs\<close>

text \<open>
  What users of a packer rely on: unpacking a packed value gives its normal form, and the
  normal form packs to the same words. The clients pack one value per column.
\<close>

locale frame_codec =
  fixes enc :: "'c \<Rightarrow> 'e + 'w"
    and dec :: "'w \<Rightarrow> 'e + 'c"
    and norm :: "'c \<Rightarrow> 'c"
  assumes dec_enc: "enc c = Inr w \<Longrightarrow> dec w = Inr (norm c)"
    and enc_norm: "enc c = Inr w \<Longrightarrow> enc (norm c) = Inr w"
begin

lemma dec_enc_norm: "enc c = Inr w \<Longrightarrow> dec w = Inr (norm (norm c))"
  using dec_enc enc_norm by blast

lemma enc_eqD: "enc c = Inr w \<Longrightarrow> enc d = Inr w \<Longrightarrow> norm c = norm d"
  using dec_enc [of c w] dec_enc [of d w] by simp

lemma all_columns:
  "res_map enc cs = Inr ws \<Longrightarrow> res_map dec ws = Inr (map norm cs)"
  unfolding res_map_Inr_iff by (induction cs ws rule: list_all2_induct) (auto simp: dec_enc)

end

section \<open>The homogeneous packer\<close>

lemma map2_const: "length xs = n \<Longrightarrow> map2 f (map (\<lambda>_. c) [0..<n]) xs = map (f c) xs"
  by (rule nth_equalityI) auto

lemma res_map_emit_tile:
  "res_map (emit_tile pts) cfg = Inr bss \<longleftrightarrow> (\<forall>t \<in> set cfg. tile_ok pts t) \<and> bss = map (tile_bits pts) cfg"
  unfolding res_map_Inr_iff
  by (induction cfg arbitrary: bss) (auto simp: emit_tile_iff list_all2_Cons1)

lemma pack_Inr_iff:
  "pack fm cfg = Inr ws \<longleftrightarrow>
     length cfg = fm_R fm \<and> (\<forall>t \<in> set cfg. tile_ok (tile_points fm) t)
     \<and> ws = finish_frame (concat (map (tile_bits (tile_points fm)) cfg))"
  by (auto simp: pack_def res_simps res_map_emit_tile)

lemma points_width_append: "points_width (xs @ ys) = points_width xs + points_width ys"
  by (simp add: points_width_def)

lemma points_width_tile_points: "points_width (tile_points fm) = tile_width fm"
  by (simp add: tile_points_def tile_width_def tile_type_width_def points_width_append)

lemma length_homog_bits:
  "length cfg = fm_R fm \<Longrightarrow>
     length (concat (map (tile_bits (tile_points fm)) cfg)) = column_bits fm"
proof -
  have "length (concat (map (tile_bits pts) cfg)) = length cfg * points_width pts" for pts
    by (induction cfg) auto
  then show "length cfg = fm_R fm \<Longrightarrow> ?thesis"
    by (simp add: column_bits_def points_width_tile_points)
qed

lemma tile_ok_normal: "tile_ok pts (normal_tile pts t) \<longleftrightarrow> tile_ok pts t"
  by (auto simp: tile_ok_def normal_tile_def point_value_def)

lemma tile_bits_normal: "tile_bits pts (normal_tile pts t) = tile_bits pts t"
proof -
  have "point_value (normal_tile pts t) p = point_value t p" if "p \<in> set pts" for p
    using that by (auto simp: normal_tile_def point_value_def)
  then show ?thesis unfolding tile_bits_def by (auto intro!: arg_cong [of _ _ concat])
qed

lemma unpack_pack_homog:
  assumes "pack fm cfg = Inr ws"
  shows "unpack fm ws = Inr (map (normal_tile (tile_points fm)) cfg)"
proof -
  let ?pts = "tile_points fm"
  let ?ptss = "map (\<lambda>_. ?pts) [0..<fm_R fm]"
  from assms have len: "length cfg = fm_R fm" and ok: "\<forall>t \<in> set cfg. tile_ok ?pts t"
    and ws: "ws = finish_frame (concat (map (tile_bits ?pts) cfg))"
    by (simp_all add: pack_Inr_iff)
  have "check_frame (words_per_frame fm) ws = Inr (pad_bits (concat (map2 tile_bits ?ptss cfg)))"
    unfolding ws map2_const [OF len]
    by (rule check_finish_frame)
      (auto simp: bits_ok_concat words_per_frame_def data_words_per_frame_def length_homog_bits [OF len])
  moreover have "list_all2 tile_ok ?ptss cfg"
    using ok len by (auto simp: list_all2_conv_all_nth)
  ultimately show ?thesis
    using read_tiles_padded [of ?ptss cfg] by (simp add: unpack_def map2_const [OF len])
qed

interpretation homog: frame_codec "pack fm" "unpack fm" "map (normal_tile (tile_points fm))" for fm
proof
  fix c w assume "pack fm c = Inr w"
  then show "unpack fm w = Inr (map (normal_tile (tile_points fm)) c)" by (rule unpack_pack_homog)
next
  fix c w assume "pack fm c = Inr w"
  then show "pack fm (map (normal_tile (tile_points fm)) c) = Inr w"
    by (auto simp: pack_Inr_iff tile_ok_normal tile_bits_normal o_def)
qed

section \<open>The layout-aware packer\<close>

lemma map2_zip_points:
  "length ptss = length cfg \<Longrightarrow> (\<forall>i < length cfg. f (i + k) = Inr (ptss ! i)) \<Longrightarrow>
     res_map (\<lambda>(row, t). res_bind (f row) (\<lambda>pts. emit_tile pts t)) (zip [k..<k + length cfg] cfg)
     = res_map (\<lambda>(pts, t). emit_tile pts t) (zip ptss cfg)"
proof (induction ptss cfg arbitrary: k rule: list_induct2)
  case (Cons pts ptss t cfg)
  from Cons.prems have "f k = Inr pts" by force
  moreover have "res_map (\<lambda>(row, t). res_bind (f row) (\<lambda>pts. emit_tile pts t))
      (zip [Suc k..<Suc k + length cfg] cfg) = res_map (\<lambda>(pts, t). emit_tile pts t) (zip ptss cfg)"
    using Cons.prems by (intro Cons.IH) force
  moreover have "[k..<k + length (t # cfg)] = k # [Suc k..<Suc k + length cfg]"
    using upt_conv_Cons [of k "k + length (t # cfg)"] by (simp del: upt_Suc)
  ultimately show ?case by (simp split: sum.splits del: upt_Suc)
qed simp

lemma res_map_emit_rows:
  "length ptss = length cfg \<Longrightarrow>
     res_map (\<lambda>(pts, t). emit_tile pts t) (zip ptss cfg) = Inr bss \<longleftrightarrow>
     list_all2 tile_ok ptss cfg \<and> bss = map2 tile_bits ptss cfg"
proof (induction ptss cfg arbitrary: bss rule: list_induct2)
  case (Cons pts ptss t cfg)
  show ?case
    by (auto simp: res_map_Cons_Inr Cons.IH emit_tile_iff simp del: res_map.simps)
qed auto

lemma column_points_Inr:
  "column_points fm col = Inr ptss \<Longrightarrow>
     length ptss = fm_R fm \<and> (\<forall>i < fm_R fm. tile_points_at fm col i = Inr (ptss ! i))"
  by (auto simp: column_points_def res_map_Inr_iff list_all2_conv_all_nth)

lemma pack_column_points:
  assumes "pack_column fm col cfg = Inr ws"
  shows "\<exists>ptss. column_points fm col = Inr ptss"
proof -
  from assms obtain bss where len: "length cfg = fm_R fm" and
    "res_map (\<lambda>(row, t). res_bind (tile_points_at fm col row) (\<lambda>pts. emit_tile pts t))
       (zip [0..<length cfg] cfg) = Inr bss"
    by (auto simp: pack_column_def res_simps split: if_splits)
  then have "\<forall>i < length cfg. \<exists>pts. tile_points_at fm col i = Inr pts"
    by (fastforce simp: res_map_Inr_iff list_all2_conv_all_nth res_simps)
  then have "\<forall>i \<in> set [0..<fm_R fm]. is_ok (tile_points_at fm col i)"
    using len by (auto simp: is_ok_iff)
  then show ?thesis
    unfolding column_points_def is_ok_iff [symmetric] res_map_ok_iff .
qed

lemma pack_column_Inr_iff:
  assumes "column_points fm col = Inr ptss"
  shows "pack_column fm col cfg = Inr ws \<longleftrightarrow>
     length cfg = fm_R fm \<and> list_all2 tile_ok ptss cfg
     \<and> ws = finish_frame (concat (map2 tile_bits ptss cfg))"
proof (cases "length cfg = fm_R fm")
  case True
  with column_points_Inr [OF assms] have "length ptss = length cfg"
    and "\<forall>i < length cfg. tile_points_at fm col (i + 0) = Inr (ptss ! i)" by simp_all
  then show ?thesis
    using map2_zip_points [of ptss cfg "tile_points_at fm col" 0] True
    by (auto simp: pack_column_def res_simps res_map_emit_rows)
qed (simp add: pack_column_def)

lemma length_rows_bits:
  "length ptss = length cfg \<Longrightarrow>
     length (concat (map2 tile_bits ptss cfg)) = sum_list (map points_width ptss)"
  by (induction ptss cfg rule: list_induct2) auto

definition normal_column :: "frame_map \<Rightarrow> nat \<Rightarrow> tile_cfg list \<Rightarrow> tile_cfg list" where
  "normal_column fm col cfg =
     (case column_points fm col of Inl _ \<Rightarrow> cfg | Inr ptss \<Rightarrow> map2 normal_tile ptss cfg)"

lemma unpack_pack_column:
  assumes "pack_column fm col cfg = Inr ws"
  shows "unpack_column fm col ws = Inr (normal_column fm col cfg)"
proof -
  from pack_column_points [OF assms] obtain ptss where pts: "column_points fm col = Inr ptss" ..
  with assms have len: "length cfg = fm_R fm" and ok: "list_all2 tile_ok ptss cfg"
    and ws: "ws = finish_frame (concat (map2 tile_bits ptss cfg))"
    by (simp_all add: pack_column_Inr_iff)
  let ?n = "words_for (sum_list (map points_width ptss))"
  from pts len have "length ptss = length cfg" by (simp add: column_points_Inr)
  then have "check_frame (?n + 1) ws = Inr (pad_bits (concat (map2 tile_bits ptss cfg)))"
    unfolding ws
    by (intro check_finish_frame) (auto simp: bits_ok_concat set_zip length_rows_bits)
  moreover have "column_data_words fm col = Inr ?n"
    by (simp add: column_data_words_def column_bits_at_def pts)
  ultimately show ?thesis
    using read_tiles_padded [OF ok] by (simp add: unpack_column_def pts normal_column_def)
qed

lemma normal_rows:
  "length ptss = length cfg \<Longrightarrow>
     map2 tile_bits ptss (map2 normal_tile ptss cfg) = map2 tile_bits ptss cfg
     \<and> list_all2 tile_ok ptss (map2 normal_tile ptss cfg) = list_all2 tile_ok ptss cfg"
  by (induction ptss cfg rule: list_induct2) (auto simp: tile_ok_normal tile_bits_normal)

interpretation het: frame_codec "pack_column fm col" "unpack_column fm col" "normal_column fm col"
  for fm col
proof
  fix c w assume "pack_column fm col c = Inr w"
  then show "unpack_column fm col w = Inr (normal_column fm col c)" by (rule unpack_pack_column)
next
  fix c w assume p: "pack_column fm col c = Inr w"
  from pack_column_points [OF this] obtain ptss where pts: "column_points fm col = Inr ptss" ..
  with p have len: "length ptss = length c"
    using column_points_Inr [OF pts] by (simp add: pack_column_Inr_iff)
  from p pts show "pack_column fm col (normal_column fm col c) = Inr w"
    using normal_rows [OF len] len by (simp add: pack_column_Inr_iff normal_column_def)
qed


section \<open>Shape of a frame and its checksum\<close>

lemma finish_frame_last: "last (finish_frame bs) = crc16 (butlast (finish_frame bs))"
  by (simp add: finish_frame_def Let_def)

lemma check_frame_flip_data:
  assumes "length ws = n" and "last ws = crc16 (butlast ws)" and "i < length ws - 1" and "k < 32"
  shows "\<exists>s e. check_frame n (ws[i := ws ! i XOR push_bit k 1]) = Inl (CrcMismatch s e)"
proof -
  let ?ws = "ws[i := ws ! i XOR push_bit k 1]"
  have i: "i < length (butlast ws)" using assms(3) by simp
  have "ws \<noteq> []" using assms(3) by auto
  then have last: "last ?ws = last ws" using assms(3) by (simp add: last_list_update)
  have "butlast ?ws = (butlast ws)[i := butlast ws ! i XOR push_bit k 1]"
    using assms(3) by (simp add: butlast_list_update nth_butlast)
  then have "crc16 (butlast ?ws) \<noteq> crc16 (butlast ws)"
    using crc16_update_bit [OF i assms(4)] by simp
  then have "crc16 (butlast ?ws) AND (push_bit CRC_W 1 - 1) \<noteq> last ?ws AND (push_bit CRC_W 1 - 1)"
    by (simp only: last assms(2) crc_tail) simp
  with assms(1) show ?thesis by (simp add: check_frame_def Let_def)
qed

lemma check_frame_flip_tail:
  assumes "length ws = n" and "ws \<noteq> []" and "last ws = crc16 (butlast ws)" and "k < 16"
  shows "\<exists>s e. check_frame n (ws[length ws - 1 := last ws XOR push_bit k 1]) = Inl (CrcMismatch s e)"
proof -
  let ?c = "crc16 (butlast ws)"
  let ?ws = "ws[length ws - 1 := last ws XOR push_bit k 1]"
  have upd: "butlast ?ws = butlast ws" "last ?ws = ?c XOR push_bit k 1"
    using assms(2,3) by (simp_all add: butlast_list_update last_list_update)
  have m: "(push_bit CRC_W 1 - 1 :: int) = mask 16" by (simp add: mask_eq_exp_minus_1)
  have "bit (?c AND mask 16) k \<noteq> bit ((?c XOR push_bit k 1) AND mask 16) k"
    using assms(4) by (simp add: bit_simps)
  then have "?c AND (push_bit CRC_W 1 - 1) \<noteq> (?c XOR push_bit k 1) AND (push_bit CRC_W 1 - 1)"
    unfolding m by metis
  with assms(1) upd show ?thesis by (simp add: check_frame_def Let_def)
qed

lemma check_finish_frame_flip:
  assumes "n = words_for (length bs) + 1" and "i < n" and "k < (if i = n - 1 then 16 else 32)"
  shows "\<exists>s e. check_frame n ((finish_frame bs)[i := finish_frame bs ! i XOR push_bit k 1])
           = Inl (CrcMismatch s e)"
proof (cases "i = n - 1")
  case True
  have ne: "finish_frame bs \<noteq> []" by (simp add: finish_frame_def Let_def)
  have "finish_frame bs ! i = last (finish_frame bs)" "i = length (finish_frame bs) - 1"
    using True assms(1) ne by (simp_all add: length_finish_frame last_conv_nth)
  then show ?thesis
    using check_frame_flip_tail [of "finish_frame bs" n k] ne assms True
    by (simp add: length_finish_frame finish_frame_last)
next
  case False
  with assms show ?thesis
    by (intro check_frame_flip_data) (auto simp: length_finish_frame finish_frame_last)
qed

text \<open>The upper half of the tail word is masked away before the comparison.\<close>

lemma check_frame_upper_tail:
  assumes "ws \<noteq> []" and "16 \<le> k"
  shows "check_frame n (ws[length ws - 1 := last ws XOR push_bit k 1]) = check_frame n ws"
proof -
  let ?ws = "ws[length ws - 1 := last ws XOR push_bit k 1]"
  have upd: "butlast ?ws = butlast ws" "last ?ws = last ws XOR push_bit k 1"
    using assms(1) by (simp_all add: butlast_list_update last_list_update)
  have m: "(push_bit CRC_W 1 - 1 :: int) = mask 16" "(0xFFFF :: int) = mask 16" by (simp_all add: mask_eq_exp_minus_1)
  have same: "(last ws XOR push_bit k 1) AND mask 16 = last ws AND mask 16"
  proof (rule bit_eqI)
    fix j
    show "bit ((last ws XOR push_bit k 1) AND mask 16) j = bit (last ws AND mask 16) j"
      using assms(2) bit_single [of k j] by (auto simp: bit_and_iff bit_xor_iff bit_mask_iff simp del: push_bit_of_1)
  qed
  show ?thesis unfolding check_frame_def Let_def upd m same by simp
qed

section \<open>Distinct point names\<close>

lemma distinct_prefixed: "distinct (map (\<lambda>i. pre @ nat_str i) [0..<n])"
  by (simp add: distinct_map inj_on_def)

lemma names_clb: "map cp_name (tt_points (clb_tile_type n k s)) =
    map (\<lambda>i. ''elut'' @ nat_str i) [0..<n] @ map (\<lambda>i. ''iib_mux'' @ nat_str i) [0..<n * k]"
  by (simp add: clb_tile_type_def point_def o_def)

lemma names_sb: "map cp_name (tt_points (sb_tile_type w j)) =
    map (\<lambda>i. ''mux_n_'' @ nat_str i) [0..<w] @ map (\<lambda>i. ''mux_s_'' @ nat_str i) [0..<w]
    @ map (\<lambda>i. ''mux_e_'' @ nat_str i) [0..<w] @ map (\<lambda>i. ''mux_w_'' @ nat_str i) [0..<w]
    @ map (\<lambda>i. ''inj_en_'' @ nat_str i) [0..<j] @ map (\<lambda>i. ''inj_dir_'' @ nat_str i) [0..<j]"
  by (simp add: sb_tile_type_def point_def o_def)

lemma names_cb: "cb_tile_type w n d = Inr t \<Longrightarrow>
    map cp_name (tt_points t) = map (\<lambda>i. ''cb_sel_'' @ nat_str i) [0..<n]"
  by (auto simp: cb_tile_type_def point_def o_def split: if_splits)

lemma distinct_interconnect_names:
  "distinct (map (\<lambda>i. ''elut'' @ nat_str i) [0..<n] @ map (\<lambda>i. ''iib_mux'' @ nat_str i) [0..<m]
     @ map (\<lambda>i. ''mux_n_'' @ nat_str i) [0..<w] @ map (\<lambda>i. ''mux_s_'' @ nat_str i) [0..<w]
     @ map (\<lambda>i. ''mux_e_'' @ nat_str i) [0..<w] @ map (\<lambda>i. ''mux_w_'' @ nat_str i) [0..<w]
     @ map (\<lambda>i. ''inj_en_'' @ nat_str i) [0..<j] @ map (\<lambda>i. ''inj_dir_'' @ nat_str i) [0..<j]
     @ map (\<lambda>i. ''cb_sel_'' @ nat_str i) [0..<c])"
  by (simp only: distinct_append distinct_prefixed set_append) auto

lemma frame_map_init_Inr:
  "frame_map_init r c w n k ext_in sel_w nr aw cbd layout = Inr fm \<Longrightarrow>
     fm_clb fm = clb_tile_type n k sel_w \<and> fm_sb fm = sb_tile_type w n
     \<and> cb_tile_type w ext_in cbd = Inr (fm_cblock fm)
     \<and> fm_mem fm = mem_tile_type aw \<and> fm_dsp fm = dsp_tile_type
     \<and> fm_R fm = r \<and> fm_C fm = c \<and> fm_layout fm = layout \<and> fm_W fm = w \<and> fm_N fm = n
     \<and> fm_K fm = k \<and> fm_EXT_IN fm = ext_in \<and> fm_sel_w fm = sel_w
     \<and> fm_n_regions fm = nr \<and> fm_MEM_AW fm = aw \<and> fm_CB_DIV fm = cbd"
  by (auto simp: frame_map_init_def res_simps split: if_splits)

lemma init_names_distinct:
  assumes "frame_map_init r c w n k ext_in sel_w nr aw cb_div layout = Inr fm"
  shows "distinct (map cp_name (tile_points fm))"
proof -
  note fm = frame_map_init_Inr [OF assms]
  then have cb: "cb_tile_type w ext_in cb_div = Inr (fm_cblock fm)" by blast
  have "distinct (map cp_name (tt_points (clb_tile_type n k sel_w))
      @ map cp_name (tt_points (sb_tile_type w n)) @ map cp_name (tt_points (fm_cblock fm)))"
    unfolding names_clb names_sb names_cb [OF cb] append_assoc
    by (rule distinct_interconnect_names)
  then show ?thesis using fm by (simp only: tile_points_def map_append)
qed

section \<open>A small fabric\<close>

text \<open>The smallest fabric: one tile, one track, one eLUT, used by the witnesses.\<close>

definition tiny_map :: frame_map where
  "tiny_map = \<lparr>fm_R = 1, fm_C = 1, fm_W = 1, fm_N = 1, fm_K = 1, fm_EXT_IN = 1, fm_sel_w = 5,
     fm_n_regions = 1, fm_MEM_AW = 11, fm_CB_DIV = 2, fm_layout = Some [[1]],
     fm_clb = clb_tile_type 1 1 5, fm_sb = sb_tile_type 1 1,
     fm_cblock = \<lparr>tt_name = ''connection_block'', tt_points = [point ''cb_sel_0'' 1]\<rparr>,
     fm_mem = mem_tile_type 11, fm_dsp = dsp_tile_type\<rparr>"

definition tiny_cfg :: tile_cfg where
  "tiny_cfg = [''elut0'' \<mapsto> 0x12345, ''inj_dir_0'' \<mapsto> 2]"

definition tiny_mem_cfg :: tile_cfg where
  "tiny_mem_cfg = [''mem_mode'' \<mapsto> 7, ''cb_sel_0'' \<mapsto> 1]"

end
