(* ===== verification/Frame_Props.thy ===== *)
theory Frame_Props
  imports Frame_Codec
begin

text \<open>
  The properties of the frame map: round trips of both packers, when packing succeeds,
  the shape of a frame, detection of a flipped bit, the blank frame and the point names.
\<close>

text \<open>C5: unpacking a packed column returns the configuration that was packed, with every
  point of every tile present and absent points at their default 0.\<close>

theorem frame_roundtrip:
  assumes "pack fm cfg = Inr ws"
  shows "unpack fm ws = Inr (map (normal_tile (tile_points fm)) cfg)"
  using assms by (rule homog.dec_enc)

lemma tiny_pack: "pack tiny_map [tiny_cfg] = Inr [74565, 8, 49536]"
  by code_simp

theorem frame_roundtrip_witness:
  "\<exists>ws. pack tiny_map [tiny_cfg] = Inr ws
        \<and> unpack tiny_map ws = Inr [normal_tile (tile_points tiny_map) tiny_cfg]"
  using tiny_pack frame_roundtrip [OF tiny_pack] by simp

text \<open>The layout-aware packer round-trips too: for every column of a heterogeneous
  layout, unpack_column inverts pack_column up to the defaults of that column's points.\<close>

theorem column_roundtrip:
  assumes "pack_column fm col cfg = Inr ws"
  shows "unpack_column fm col ws = Inr (normal_column fm col cfg)"
  using assms by (rule het.dec_enc)

lemma tiny_pack_column: "pack_column tiny_map 0 [tiny_mem_cfg] = Inr [28673, 0, 0, 45147]"
  by code_simp

theorem column_roundtrip_witness:
  "unpack_column tiny_map 0 [28673, 0, 0, 45147] = Inr (normal_column tiny_map 0 [tiny_mem_cfg])"
  using column_roundtrip [OF tiny_pack_column] .

text \<open>C19: flip one of the 32 bits of one word of a packed frame. When it is a bit of a data word or one of
  the 16 low bits of the tail word, which are the stored CRC, unpack raises the CRC mismatch. When
  it is one of the 16 upper bits of the tail word, unpack does not see it and returns the packed
  configuration, since it masks the tail before it compares.\<close>

theorem frame_corruption_detected:
  assumes "pack fm cfg = Inr ws" and "i < length ws" and "k < 32"
  shows "if i = length ws - 1 \<and> 16 \<le> k
    then unpack fm (ws[i := ws ! i XOR push_bit k 1]) = Inr (map (normal_tile (tile_points fm)) cfg)
    else \<exists>s e. unpack fm (ws[i := ws ! i XOR push_bit k 1]) = Inl (CrcMismatch s e)"
proof (cases "i = length ws - 1 \<and> 16 \<le> k")
  case True
  from assms(2) have ne: "ws \<noteq> []" by auto
  with True have "ws[i := ws ! i XOR push_bit k 1] = ws[length ws - 1 := last ws XOR push_bit k 1]" by (simp add: last_conv_nth)
  with check_frame_upper_tail [OF ne, of k] True have "unpack fm (ws[i := ws ! i XOR push_bit k 1]) = unpack fm ws"
    by (simp add: unpack_def)
  with True homog.dec_enc [OF assms(1)] show ?thesis by simp
next
  case False
  let ?bs = "concat (map (tile_bits (tile_points fm)) cfg)"
  from assms(1) have ws: "ws = finish_frame ?bs" and len: "length cfg = fm_R fm"
    by (simp_all add: pack_Inr_iff)
  have n: "words_per_frame fm = words_for (length ?bs) + 1"
    using length_homog_bits [OF len] by (simp add: words_per_frame_def data_words_per_frame_def)
  have "length ws = words_per_frame fm" by (simp add: ws n length_finish_frame)
  with assms(2,3) False have "i < words_per_frame fm" "k < (if i = words_per_frame fm - 1 then 16 else 32)" by auto
  from check_finish_frame_flip [OF n this] obtain s e where
    "check_frame (words_per_frame fm) (ws[i := ws ! i XOR push_bit k 1]) = Inl (CrcMismatch s e)" unfolding ws by blast
  then have "unpack fm (ws[i := ws ! i XOR push_bit k 1]) = Inl (CrcMismatch s e)" by (simp add: unpack_def)
  then show ?thesis unfolding if_not_P [OF False] by blast
qed

theorem frame_corruption_detected_witness:
  "(\<exists>s e. unpack tiny_map [74565, 8 XOR push_bit 5 1, 49536] = Inl (CrcMismatch s e))
     \<and> (\<exists>s e. unpack tiny_map [74565, 8, 49536 XOR push_bit 3 1] = Inl (CrcMismatch s e))
     \<and> unpack tiny_map [74565, 8, 49536 XOR push_bit 20 1] = Inr [normal_tile (tile_points tiny_map) tiny_cfg]"
  using frame_corruption_detected [OF tiny_pack, of 1 5] frame_corruption_detected [OF tiny_pack, of 2 3]
    frame_corruption_detected [OF tiny_pack, of 2 20] by simp

text \<open>C21: packing succeeds exactly when there is one configuration per row and every value
  fits its point; otherwise it raises.\<close>

theorem pack_succeeds_iff:
  "is_ok (pack fm cfg) \<longleftrightarrow>
     length cfg = fm_R fm
     \<and> (\<forall>t \<in> set cfg. \<forall>p \<in> set (tile_points fm).
           0 \<le> point_value t p \<and> point_value t p < 2 ^ cp_width p)"
  by (auto simp: is_ok_iff pack_Inr_iff tile_ok_def)

theorem pack_succeeds_iff_witness:
  "is_ok (pack tiny_map [tiny_cfg]) \<and> \<not> is_ok (pack tiny_map [[''elut0'' \<mapsto> 2 ^ 20]])"
proof -
  have "point ''elut0'' 20 \<in> set (tile_points tiny_map)" by code_simp
  then have "\<not> (\<forall>p \<in> set (tile_points tiny_map).
      0 \<le> point_value [''elut0'' \<mapsto> 2 ^ 20] p \<and> point_value [''elut0'' \<mapsto> 2 ^ 20] p < 2 ^ cp_width p)"
    by (intro notI) (drule (1) bspec, simp add: point_def point_value_def)
  then have "\<not> is_ok (pack tiny_map [[''elut0'' \<mapsto> 2 ^ 20]])"
    unfolding pack_succeeds_iff by simp
  then show ?thesis by (simp add: tiny_pack)
qed

text \<open>A packed frame has words_per_frame words, each of 32 bits, and its last word is
  the CRC of the data words.\<close>

theorem frame_shape:
  assumes "pack fm cfg = Inr ws"
  shows "length ws = words_per_frame fm \<and> (\<forall>w \<in> set ws. 0 \<le> w \<and> w < 2 ^ 32)
         \<and> last ws = crc16 (butlast ws)"
proof -
  let ?bs = "concat (map (tile_bits (tile_points fm)) cfg)"
  from assms have ws: "ws = finish_frame ?bs" and len: "length cfg = fm_R fm"
    by (simp_all add: pack_Inr_iff)
  show ?thesis
    using length_homog_bits [OF len] finish_frame_words finish_frame_last
    by (simp add: ws length_finish_frame words_per_frame_def data_words_per_frame_def)
qed

theorem frame_shape_witness: "words_per_frame tiny_map = 3 \<and> last [74565, 8, 49536] = crc16 [74565, 8]"
  using frame_shape [OF tiny_pack] by simp

section \<open>The blank frame\<close>

lemma tile_ok_blank: "tile_ok pts Map.empty"
  by (induction pts) (auto simp: point_value_def)

lemma tile_bits_blank: "tile_bits pts Map.empty = replicate (points_width pts) 0"
proof -
  have "bit_at 0 = (\<lambda>_. 0)" by (simp add: fun_eq_iff bit_at_of_bool)
  then show ?thesis
    by (induction pts)
      (auto simp: point_value_def points_width_def replicate_add map_replicate_const)
qed

lemma pack_bits_zero: "pack_bits (replicate n 0) = 0"
  unfolding pack_bits_def by (rule bit_eqI) (auto simp: bit_or_bits)

lemma chunks_zero: "map pack_bits (chunks 32 (replicate (32 * n) 0)) = replicate n 0"
proof (induction n)
  case (Suc n)
  have "replicate (32 * Suc n) 0 = replicate 32 (0::int) @ replicate (32 * n) 0"
    by (simp add: replicate_add [symmetric])
  then have "chunks 32 (replicate (32 * Suc n) 0) =
      chunks 32 (replicate 32 (0::int)) @ chunks 32 (replicate (32 * n) 0)"
    by (simp only: chunks_append) (rule chunks_append, simp_all)
  moreover have "chunks 32 (replicate 32 (0::int)) = [replicate 32 0]"
    by (subst chunks_unfold) (auto simp: numeral_eq_Suc)
  ultimately show ?case using Suc by (simp add: pack_bits_zero)
qed simp

text \<open>The blank frame always packs, and it is all zeros followed by its CRC.\<close>

theorem blank_frame_quiescent:
  "blank_frame fm =
     (let zeros = replicate (data_words_per_frame fm) 0 in Inr (zeros @ [crc16 zeros]))"
proof -
  let ?cfg = "map (\<lambda>_. Map.empty) [0..<fm_R fm] :: tile_cfg list"
  let ?bs = "concat (map (tile_bits (tile_points fm)) ?cfg)"
  have rep: "concat (replicate n (replicate m (0::int))) = replicate (n * m) 0" for n m
    by (induction n) (auto simp: replicate_add)
  have "?bs = replicate (column_bits fm) 0"
    using length_homog_bits [of ?cfg fm]
    by (simp add: tile_bits_blank map_replicate_const o_def rep column_bits_def points_width_tile_points)
  moreover obtain n where "pad_bits ?bs = ?bs @ replicate n 0" using pad_bits_eq by blast
  ultimately have "pad_bits ?bs = replicate (32 * data_words_per_frame fm) 0"
    using length_pad_bits [of ?bs] by (simp add: data_words_per_frame_def replicate_add [symmetric])
  then have "finish_frame ?bs = replicate (data_words_per_frame fm) 0
      @ [crc16 (replicate (data_words_per_frame fm) 0)]"
    by (simp add: finish_frame_def Let_def chunks_zero)
  moreover have "pack fm ?cfg = Inr (finish_frame ?bs)"
    by (simp add: pack_Inr_iff tile_ok_blank)
  ultimately show ?thesis by (simp add: blank_frame_def Let_def)
qed

text \<open>The config points of a tile have distinct names, so a configuration dict has one
  entry per point and no two points share a value.\<close>

theorem point_names_distinct:
  assumes "frame_map_init r c w n k ext_in sel_w nr aw cb_div layout = Inr fm"
  shows "distinct (map cp_name (tile_points fm))"
  using assms by (rule init_names_distinct)

theorem point_names_distinct_witness: "distinct (map cp_name (tile_points tiny_map))"
proof -
  have "frame_map_init 1 1 1 1 1 1 5 1 11 2 (Some [[1]]) = Inr tiny_map" by code_simp
  then show ?thesis by (rule point_names_distinct)
qed

text \<open>The two packers lay out an all-CLB tile differently (CLB, SB, CB against CB, SB, CLB),
  so a homogeneous column packed by one is not readable by the other.\<close>

definition tiny_homog :: frame_map where
  "tiny_homog = tiny_map\<lparr>fm_layout := None\<rparr>"

theorem packers_disagree:
  "\<exists>ws vs. pack tiny_homog [tiny_cfg] = Inr ws \<and> pack_column tiny_homog 0 [tiny_cfg] = Inr vs
     \<and> ws \<noteq> vs"
proof -
  have "pack tiny_homog [tiny_cfg] \<noteq> pack_column tiny_homog 0 [tiny_cfg]"
    and "is_ok (pack tiny_homog [tiny_cfg])" and "is_ok (pack_column tiny_homog 0 [tiny_cfg])"
    by code_simp+
  then show ?thesis by (auto simp: is_ok_iff)
qed

end
