(* ===== verification/Fabric_Gen.thy ===== *)
theory Fabric_Gen
  imports Frame_Codec
begin

text \<open>
  ethereal-tools/tools/fabric_gen.py: a fabric descriptor is validated and turned into a
  frame map and a manifest. The descriptor's integer keys arrive as a map from names to
  integers; file reading, YAML/JSON parsing and the output files are not modelled. The
  self check draws random values in the source; here the draws are an argument.
\<close>

datatype gen_err =
  FieldNotPositive string int
| SelWidthRange int
| ColumnCount int
| RowCount int
| UnknownTileName string
| GenFrame frame_err

definition DEFAULTS :: "(string \<times> int) list" where
  "DEFAULTS = [(''R'', 4), (''C'', 4), (''W'', 12), (''N'', 8), (''K'', 4), (''EXT_IN'', 18),
     (''sel_w'', 5), (''n_regions'', 1), (''CB_DIV'', 2)]"

definition INT_KEYS :: "string list" where
  "INT_KEYS = [''R'', ''C'', ''W'', ''N'', ''K'', ''EXT_IN'', ''sel_w'', ''n_regions'', ''CB_DIV'']"

definition name_to_code :: "string \<Rightarrow> gen_err + int" where
  "name_to_code t =
     (if t = ''clb_t'' then Inr TT_CLB
      else if t = ''mem_t'' then Inr TT_MEM
      else if t = ''dsp_t'' then Inr TT_DSP
      else Inl (UnknownTileName t))"

record fabric_gen =
  fg_key :: "string \<Rightarrow> int"
  fg_MEM_AW :: int
  fg_tile_types :: "string list list option"
  fg_fm :: frame_map

text \<open>The loop over \<open>INT_KEYS\<close>: the first non-positive field is refused.\<close>

definition check_keys :: "(string \<Rightarrow> int) \<Rightarrow> gen_err + unit" where
  "check_keys v = res_iter (\<lambda>k. require (0 < v k) (FieldNotPositive k (v k))) INT_KEYS"

definition layout_of :: "int \<Rightarrow> int \<Rightarrow> string list list \<Rightarrow> gen_err + int list list" where
  "layout_of r c types =
     (if int (length types) \<noteq> c then Inl (ColumnCount c)
      else res_map (\<lambda>col. if int (length col) \<noteq> r then Inl (RowCount r)
                          else res_map name_to_code col) types)"

definition layout_option :: "int \<Rightarrow> int \<Rightarrow> string list list option \<Rightarrow> gen_err + int list list option"
where
  "layout_option r c types =
     (case types of None \<Rightarrow> Inr None
      | Some ts \<Rightarrow> res_bind (layout_of r c ts) (\<lambda>l. Inr (Some l)))"

definition lift_frame :: "frame_err + 'a \<Rightarrow> gen_err + 'a" where
  "lift_frame r = (case r of Inl e \<Rightarrow> Inl (GenFrame e) | Inr x \<Rightarrow> Inr x)"

definition fabric_gen_init ::
  "(string \<Rightarrow> int) \<Rightarrow> int \<Rightarrow> string list list option \<Rightarrow> gen_err + fabric_gen" where
  "fabric_gen_init v mem_aw types =
     res_bind (check_keys v) (\<lambda>_.
     res_bind (require (\<not> (v ''sel_w'' \<le> 0 \<or> v ''sel_w'' > 8)) (SelWidthRange (v ''sel_w''))) (\<lambda>_.
     res_bind (layout_option (v ''R'') (v ''C'') types) (\<lambda>layout.
     res_bind (lift_frame (frame_map_init (nat (v ''R'')) (nat (v ''C'')) (nat (v ''W''))
         (nat (v ''N'')) (nat (v ''K'')) (nat (v ''EXT_IN'')) (nat (v ''sel_w''))
         (nat (v ''n_regions'')) mem_aw (nat (v ''CB_DIV'')) layout)) (\<lambda>fm.
     Inr \<lparr>fg_key = v, fg_MEM_AW = mem_aw, fg_tile_types = types, fg_fm = fm\<rparr>))))"

text \<open>\<open>int(d.get(k, DEFAULTS[k]))\<close> for the integer keys, then the optional keys.\<close>

definition descriptor_key :: "(string \<rightharpoonup> int) \<Rightarrow> string \<Rightarrow> int" where
  "descriptor_key d k =
     (case d k of Some v \<Rightarrow> v
      | None \<Rightarrow> (case map_of DEFAULTS k of Some v \<Rightarrow> v | None \<Rightarrow> 0))"

definition from_descriptor ::
  "(string \<rightharpoonup> int) \<Rightarrow> string list list option \<Rightarrow> gen_err + fabric_gen" where
  "from_descriptor d types =
     fabric_gen_init (descriptor_key d)
       (case d ''MEM_AW'' of None \<Rightarrow> 11 | Some v \<Rightarrow> v) types"

section \<open>Derived geometry\<close>

definition n_tiles :: "fabric_gen \<Rightarrow> int" where
  "n_tiles g = fg_key g ''R'' * fg_key g ''C''"

definition tile_config_bits :: "fabric_gen \<Rightarrow> int" where
  "tile_config_bits g = int (tile_width (fg_fm g))"

definition total_config_bits :: "fabric_gen \<Rightarrow> int" where
  "total_config_bits g = n_tiles g * tile_config_bits g"

definition frames_per_region :: "fabric_gen \<Rightarrow> int" where
  "frames_per_region g = fg_key g ''C''"

definition total_frames :: "fabric_gen \<Rightarrow> int" where
  "total_frames g = frames_per_region g * fg_key g ''n_regions''"

definition total_words :: "fabric_gen \<Rightarrow> int" where
  "total_words g = total_frames g * int (words_per_frame (fg_fm g))"

definition total_bytes :: "fabric_gen \<Rightarrow> int" where
  "total_bytes g = total_words g * 4"

section \<open>The manifest\<close>

text \<open>The row-major packing of the tile types, one byte per tile.\<close>

definition type_byte :: "string list list \<Rightarrow> nat \<Rightarrow> nat \<Rightarrow> int" where
  "type_byte types r c =
     (case name_to_code (types ! c ! r) of Inr code \<Rightarrow> code | Inl _ \<Rightarrow> 0)"

definition tile_type_packed :: "nat \<Rightarrow> nat \<Rightarrow> string list list \<Rightarrow> int" where
  "tile_type_packed nr nc types =
     foldl (\<lambda>acc (r, c). acc OR push_bit ((r * nc + c) * 8) (type_byte types r c)) 0
       (List.product [0..<nr] [0..<nc])"

definition key_params :: "fabric_gen \<Rightarrow> string list \<Rightarrow> (string \<times> json) list" where
  "key_params g ks = map (\<lambda>k. (k, JInt (fg_key g k))) ks"

definition manifest :: "fabric_gen \<Rightarrow> gen_err + json" where
  "manifest g =
    (let inst = [''R'', ''C'', ''W'', ''N'', ''K'', ''EXT_IN''];
         name = ''fabric_'' @ nat_str (nat (fg_key g ''R'')) @ ''x'' @ nat_str (nat (fg_key g ''C''))
                  @ ''_W'' @ nat_str (nat (fg_key g ''W''));
         geometry = JObj
           [(''n_tiles'', JInt (n_tiles g)), (''tile_config_bits'', JInt (tile_config_bits g)),
            (''total_config_bits'', JInt (total_config_bits g)),
            (''frames_per_region'', JInt (frames_per_region g)),
            (''total_frames'', JInt (total_frames g)),
            (''words_per_frame'', JInt (int (words_per_frame (fg_fm g)))),
            (''data_words_per_frame'', JInt (int (data_words_per_frame (fg_fm g)))),
            (''total_words'', JInt (total_words g)), (''total_bytes'', JInt (total_bytes g))];
         instantiation = (\<lambda>extra. JObj [(''module'', JStr ''fabric_top''),
            (''params'', JObj (key_params g inst @ extra)),
            (''note'', JStr ''fabric_top is parameterized; pass these params (no bespoke RTL gen needed in v0).'')]);
         head = [(''name'', JStr name), (''params'', JObj (key_params g INT_KEYS)),
                 (''geometry'', geometry)]
     in case fg_tile_types g of
          None \<Rightarrow> Inr (JObj (head @ [(''instantiation'', instantiation [])]))
        | Some types \<Rightarrow>
            let packed = JInt (tile_type_packed (fm_R (fg_fm g)) (fm_C (fg_fm g)) types) in
            res_bind (lift_frame (res_map (column_data_words (fg_fm g)) [0..<fm_C (fg_fm g)])) (\<lambda>ws.
            res_bind (lift_frame (res_map (column_bits_at (fg_fm g)) [0..<fm_C (fg_fm g)])) (\<lambda>bs.
              Inr (JObj (head @
                [(''instantiation'', instantiation [(''TILE_TYPE'', packed)]),
                 (''heterogeneous'', JObj
                   [(''tile_types'', JList (map (\<lambda>col. JList (map JStr col)) types)),
                    (''tile_type_packed'', packed),
                    (''per_column_data_words'', JList (map (\<lambda>n. JInt (int n)) ws)),
                    (''per_column_bits'', JList (map (\<lambda>n. JInt (int n)) bs)),
                    (''note'', JStr ''heterogeneous tiles (C02): MEM_T/DSP_T config via cfg unit 2'')])])))))"

section \<open>The self check\<close>

text \<open>\<open>{p.name: random.getrandbits(p.width) for p in pts}\<close> for every row; the draws are
  given by trial, column, row and point index.\<close>

definition drawn_tile :: "(nat \<Rightarrow> nat \<Rightarrow> int) \<Rightarrow> config_point list \<Rightarrow> tile_cfg" where
  "drawn_tile draw pts =
     foldl (\<lambda>m (i, p). m(cp_name p \<mapsto> draw i (cp_width p))) Map.empty (enumerate 0 pts)"

definition trial_ok :: "frame_map \<Rightarrow> (nat \<Rightarrow> nat \<Rightarrow> nat \<Rightarrow> int) \<Rightarrow> bool" where
  "trial_ok fm draw =
     (let cfg = map (\<lambda>row. drawn_tile (draw row) (tile_points fm)) [0..<fm_R fm]
      in case res_bind (pack fm cfg) (unpack fm) of
           Inl _ \<Rightarrow> False | Inr cfg' \<Rightarrow> cfg' = cfg)"

definition self_check ::
  "fabric_gen \<Rightarrow> nat \<Rightarrow> (nat \<Rightarrow> nat \<Rightarrow> nat \<Rightarrow> nat \<Rightarrow> nat \<Rightarrow> int) \<Rightarrow> bool" where
  "self_check g n_trials draw =
     list_all (\<lambda>t. list_all (\<lambda>c. trial_ok (fg_fm g) (draw t c)) [0..<nat (fg_key g ''C'')])
       [0..<n_trials]"

end
