(* ===== verification/Fabric_Props.thy ===== *)
theory Fabric_Props
  imports Fabric_Gen
begin

text \<open>
  The generator's promises: which descriptors are accepted, that the manifest of an
  accepted descriptor can always be emitted, that the packed tile types read back lane by
  lane, and that the randomized self check cannot fail.
\<close>

section \<open>Which descriptors are accepted\<close>

definition types_ok :: "int \<Rightarrow> int \<Rightarrow> string list list \<Rightarrow> bool" where
  "types_ok r c types \<longleftrightarrow> int (length types) = c
     \<and> (\<forall>col \<in> set types. int (length col) = r
          \<and> (\<forall>t \<in> set col. t \<in> {''clb_t'', ''mem_t'', ''dsp_t''}))"

lemma name_to_code_ok: "is_ok (name_to_code t) \<longleftrightarrow> t \<in> {''clb_t'', ''mem_t'', ''dsp_t''}"
  by (auto simp: name_to_code_def)

lemma name_to_code_range: "name_to_code t = Inr k \<Longrightarrow> k \<in> {TT_CLB, TT_MEM, TT_DSP}"
  by (auto simp: name_to_code_def split: if_splits)

lemma layout_of_ok: "is_ok (layout_of r c types) \<longleftrightarrow> types_ok r c types"
  by (auto simp: layout_of_def types_ok_def res_map_ok_iff name_to_code_ok split: if_splits)

lemma layout_of_Inr:
  assumes "layout_of r c types = Inr lay"
  shows "int (length lay) = c"
    and "\<forall>col \<in> set lay. int (length col) = r \<and> set col \<subseteq> {TT_CLB, TT_MEM, TT_DSP}"
proof -
  let ?f = "\<lambda>col. if int (length col) \<noteq> r then Inl (RowCount r) else res_map name_to_code col"
  from assms have len: "int (length types) = c" and l: "list_all2 (\<lambda>x y. ?f x = Inr y) types lay"
    by (auto simp: layout_of_def res_map_Inr_iff split: if_splits)
  then show "int (length lay) = c" by (auto dest: list_all2_lengthD)
  have row: "int (length y) = r \<and> set y \<subseteq> {TT_CLB, TT_MEM, TT_DSP}" if f: "?f x = Inr y" for x y
  proof -
    from f have "int (length x) = r" and "list_all2 (\<lambda>t k. name_to_code t = Inr k) x y"
      by (auto simp: res_map_Inr_iff split: if_splits)
    then show ?thesis
      by (auto simp: list_all2_conv_all_nth in_set_conv_nth dest!: name_to_code_range)
  qed
  show "\<forall>col \<in> set lay. int (length col) = r \<and> set col \<subseteq> {TT_CLB, TT_MEM, TT_DSP}"
  proof
    fix col assume "col \<in> set lay"
    with l obtain x where "?f x = Inr col"
      by (auto simp: list_all2_conv_all_nth in_set_conv_nth)
    then show "int (length col) = r \<and> set col \<subseteq> {TT_CLB, TT_MEM, TT_DSP}" by (rule row)
  qed
qed

lemma lift_frame_simps [simp]:
  "lift_frame (Inr x) = Inr x" "lift_frame (Inl e) = Inl (GenFrame e)"
  "lift_frame r = Inr x \<longleftrightarrow> r = Inr x" "is_ok (lift_frame r) \<longleftrightarrow> is_ok r"
  by (auto simp: lift_frame_def split: sum.splits)

lemma check_keys_ok: "check_keys v = Inr u \<longleftrightarrow> (\<forall>k \<in> set INT_KEYS. 0 < v k)"
  by (simp add: check_keys_def res_simps)

definition layout_shape :: "nat \<Rightarrow> nat \<Rightarrow> int list list option \<Rightarrow> bool" where
  "layout_shape c r layout = (case layout of None \<Rightarrow> True
     | Some cols \<Rightarrow> length cols = c
         \<and> (\<forall>col \<in> set cols. length col = r \<and> set col \<subseteq> {TT_CLB, TT_MEM, TT_DSP}))"

lemma layout_option_shape:
  assumes "layout_option r c types = Inr layout" and "0 < r" and "0 < c"
  shows "layout_shape (nat c) (nat r) layout"
proof (cases types)
  case None
  with assms show ?thesis by (simp add: layout_option_def layout_shape_def)
next
  case (Some ts)
  with assms obtain l where l: "layout = Some l" "layout_of r c ts = Inr l"
    by (auto simp: layout_option_def res_simps)
  have "length l = nat c" using layout_of_Inr(1) [OF l(2)] by linarith
  moreover have "length col = nat r" if "col \<in> set l" for col
    using layout_of_Inr(2) [OF l(2)] that by force
  ultimately show ?thesis using l layout_of_Inr(2) [OF l(2)] by (simp add: layout_shape_def)
qed

lemma frame_map_init_ok:
  assumes "0 < cb_div" and "layout_shape c r layout"
  shows "is_ok (frame_map_init r c w n k e s nr aw cb_div layout)"
  using assms by (auto simp: frame_map_init_def cb_tile_type_def layout_shape_def split: option.splits)

lemma init_layout_iff:
  assumes "\<forall>k \<in> set INT_KEYS. 0 < v k" and "v ''sel_w'' \<le> 8"
  shows "is_ok (fabric_gen_init v aw types) \<longleftrightarrow> is_ok (layout_option (v ''R'') (v ''C'') types)"
proof (cases "layout_option (v ''R'') (v ''C'') types")
  case (Inr layout)
  have pos: "0 < v ''R''" "0 < v ''C''" "0 < v ''CB_DIV''" "0 < v ''sel_w''"
    using assms(1) by (simp_all add: INT_KEYS_def)
  have "is_ok (frame_map_init (nat (v ''R'')) (nat (v ''C'')) (nat (v ''W''))
         (nat (v ''N'')) (nat (v ''K'')) (nat (v ''EXT_IN'')) (nat (v ''sel_w''))
         (nat (v ''n_regions'')) aw (nat (v ''CB_DIV'')) layout)"
    by (rule frame_map_init_ok [OF _ layout_option_shape [OF Inr pos(1,2)]]) (use pos in simp)
  then show ?thesis
    using assms pos Inr by (auto simp: fabric_gen_init_def is_ok_iff check_keys_ok res_simps)
qed (use assms in \<open>auto simp: fabric_gen_init_def is_ok_iff res_simps\<close>)

text \<open>A descriptor is accepted exactly when every integer field is positive, the IIB
  select is at most 8 bits wide, and the tile types (if given) form C columns of R known
  type names; every other descriptor is refused.\<close>

theorem fabric_accepts_iff:
  "is_ok (fabric_gen_init v aw types) \<longleftrightarrow>
     (\<forall>k \<in> set INT_KEYS. 0 < v k) \<and> v ''sel_w'' \<le> 8
     \<and> (case types of None \<Rightarrow> True | Some ts \<Rightarrow> types_ok (v ''R'') (v ''C'') ts)"
proof (cases "(\<forall>k \<in> set INT_KEYS. 0 < v k) \<and> v ''sel_w'' \<le> 8")
  case True
  then have "is_ok (fabric_gen_init v aw types) \<longleftrightarrow> is_ok (layout_option (v ''R'') (v ''C'') types)"
    using init_layout_iff by blast
  with True show ?thesis
    using layout_of_ok [of "v ''R''" "v ''C''"]
    by (auto simp: layout_option_def is_ok_iff res_simps split: option.splits)
next
  case False
  then have "\<not> is_ok (fabric_gen_init v aw types)"
    by (auto simp: fabric_gen_init_def is_ok_iff check_keys_ok res_simps)
  with False show ?thesis by blast
qed

definition small_fabric :: "string \<Rightarrow> int" where
  "small_fabric = (\<lambda>k. if k = ''C'' then 2 else 1)"

theorem fabric_accepts_iff_witness:
  "is_ok (fabric_gen_init small_fabric 11 (Some [[''clb_t''], [''mem_t'']]))
   \<and> \<not> is_ok (fabric_gen_init small_fabric 11 (Some [[''clb_t'']]))"
  unfolding fabric_accepts_iff by (simp add: small_fabric_def INT_KEYS_def types_ok_def)

section \<open>The manifest of an accepted descriptor\<close>

lemma fabric_gen_init_Inr:
  assumes "fabric_gen_init v aw types = Inr g"
  obtains layout where "layout_option (v ''R'') (v ''C'') types = Inr layout"
    and "frame_map_init (nat (v ''R'')) (nat (v ''C'')) (nat (v ''W''))
         (nat (v ''N'')) (nat (v ''K'')) (nat (v ''EXT_IN'')) (nat (v ''sel_w''))
         (nat (v ''n_regions'')) aw (nat (v ''CB_DIV'')) layout = Inr (fg_fm g)"
    and "fg_key g = v" and "fg_tile_types g = types" and "\<forall>k \<in> set INT_KEYS. 0 < v k"
proof -
  from assms have "\<forall>k \<in> set INT_KEYS. 0 < v k"
    by (auto simp: fabric_gen_init_def res_simps check_keys_ok)
  moreover from assms obtain layout fm where "layout_option (v ''R'') (v ''C'') types = Inr layout"
    and "frame_map_init (nat (v ''R'')) (nat (v ''C'')) (nat (v ''W''))
         (nat (v ''N'')) (nat (v ''K'')) (nat (v ''EXT_IN'')) (nat (v ''sel_w''))
         (nat (v ''n_regions'')) aw (nat (v ''CB_DIV'')) layout = Inr fm"
    and "g = \<lparr>fg_key = v, fg_MEM_AW = aw, fg_tile_types = types, fg_fm = fm\<rparr>"
    by (auto simp: fabric_gen_init_def res_simps)
  ultimately show ?thesis using that by simp
qed

lemma tile_points_at_ok:
  assumes "layout_shape (fm_C fm) (fm_R fm) (fm_layout fm)" and "col < fm_C fm" and "row < fm_R fm"
  shows "is_ok (tile_points_at fm col row)"
proof (cases "fm_layout fm")
  case (Some cols)
  with assms have col: "col < length cols" "cols ! col \<in> set cols" by (simp_all add: layout_shape_def)
  with Some assms have row: "row < length (cols ! col)" "set (cols ! col) \<subseteq> {TT_CLB, TT_MEM, TT_DSP}"
    by (simp_all add: layout_shape_def)
  then have "cols ! col ! row \<in> {TT_CLB, TT_MEM, TT_DSP}" using nth_mem by blast
  with Some col row show ?thesis by (auto simp: tile_points_at_def tile_type_at_def)
qed (simp add: tile_points_at_def tile_type_at_def)

lemma fabric_columns_ok:
  assumes "fabric_gen_init v aw types = Inr g" and "col < fm_C (fg_fm g)"
  shows "is_ok (column_bits_at (fg_fm g) col)" and "is_ok (column_data_words (fg_fm g) col)"
proof -
  from assms(1) obtain layout where lay: "layout_option (v ''R'') (v ''C'') types = Inr layout"
    and fm: "frame_map_init (nat (v ''R'')) (nat (v ''C'')) (nat (v ''W''))
         (nat (v ''N'')) (nat (v ''K'')) (nat (v ''EXT_IN'')) (nat (v ''sel_w''))
         (nat (v ''n_regions'')) aw (nat (v ''CB_DIV'')) layout = Inr (fg_fm g)"
    and pos: "\<forall>k \<in> set INT_KEYS. 0 < v k"
    by (rule fabric_gen_init_Inr)
  have "0 < v ''R''" "0 < v ''C''" using pos by (simp_all add: INT_KEYS_def)
  then have "is_ok (tile_points_at (fg_fm g) col row)" if "row < fm_R (fg_fm g)" for row
    using layout_option_shape [OF lay] frame_map_init_Inr [OF fm] assms(2) that
    by (intro tile_points_at_ok) simp_all
  then have "is_ok (column_points (fg_fm g) col)"
    by (simp add: column_points_def res_map_ok_iff)
  then show "is_ok (column_bits_at (fg_fm g) col)"
    by (auto simp: column_bits_at_def is_ok_iff res_simps)
  then show "is_ok (column_data_words (fg_fm g) col)"
    by (auto simp: column_data_words_def is_ok_iff res_simps)
qed

text \<open>Once a descriptor is accepted, its manifest and its frame map can be emitted: no
  column of the layout raises while its length is computed.\<close>

theorem manifest_total:
  assumes "fabric_gen_init v aw types = Inr g"
  shows "is_ok (manifest g) \<and> is_ok (to_json (fg_fm g))"
proof -
  let ?fm = "fg_fm g"
  have "is_ok (res_map (column_bits_at ?fm) [0..<fm_C ?fm])"
    and "is_ok (res_map (column_data_words ?fm) [0..<fm_C ?fm])"
    using fabric_columns_ok [OF assms] by (simp_all add: res_map_ok_iff)
  then show ?thesis
    by (auto simp: manifest_def to_json_def Let_def is_ok_iff res_simps split: option.splits)
qed

definition small_gen :: fabric_gen where
  "small_gen = (case fabric_gen_init small_fabric 11 (Some [[''clb_t''], [''mem_t'']]) of
     Inr g \<Rightarrow> g | Inl _ \<Rightarrow> undefined)"

lemma small_gen: "fabric_gen_init small_fabric 11 (Some [[''clb_t''], [''mem_t'']]) = Inr small_gen"
proof -
  have "is_ok (fabric_gen_init small_fabric 11 (Some [[''clb_t''], [''mem_t'']]))"
    using init_layout_iff [of small_fabric 11 "Some [[''clb_t''], [''mem_t'']]"]
    by (simp add: small_fabric_def INT_KEYS_def layout_option_def layout_of_def name_to_code_def)
  then show ?thesis by (auto simp: is_ok_iff small_gen_def)
qed

theorem manifest_total_witness: "is_ok (manifest small_gen)"
  using manifest_total [OF small_gen] ..

section \<open>The packed tile types\<close>

lemma type_byte_range: "0 \<le> type_byte types r c \<and> type_byte types r c < 2 ^ 8"
  by (simp add: type_byte_def name_to_code_def)

lemma bit_foldl_or:
  "bit (foldl (\<lambda>acc x. acc OR g x) w xs) n \<longleftrightarrow> bit w n \<or> (\<exists>x \<in> set xs. bit (g x) n)" for w :: int
  by (induction xs arbitrary: w) (auto simp: bit_or_iff)

lemma lane_index:
  assumes "c < nc" and "c' < nc" and "r * nc + c = r' * nc + (c' :: nat)"
  shows "r = r' \<and> c = c'"
proof -
  have "r = (r * nc + c) div nc" "c = (r * nc + c) mod nc" using assms(1) by simp_all
  moreover have "r' = (r' * nc + c') div nc" "c' = (r' * nc + c') mod nc" using assms(2) by simp_all
  ultimately show ?thesis using assms(3) by metis
qed

lemma lane_eq: "(j :: nat) * 8 \<le> i * 8 + n \<Longrightarrow> n < 8 \<Longrightarrow> i * 8 + n - j * 8 < 8 \<Longrightarrow> j = i"
  by presburger

lemma bit_byte: "0 \<le> (v :: int) \<Longrightarrow> v < 2 ^ 8 \<Longrightarrow> bit v n \<Longrightarrow> n < 8"
  by (metis bit_take_bit_iff take_bit_int_eq_self)

text \<open>The packed TILE_TYPE parameter holds one byte per tile in row-major order: the byte
  at entry r*C+c is the code of the tile in column c, row r, whatever the other tiles are.\<close>

theorem tile_type_packed_lane:
  assumes "r < nr" and "c < nc"
  shows "take_bit 8 (drop_bit ((r * nc + c) * 8) (tile_type_packed nr nc types))
         = type_byte types r c"
proof (rule bit_eqI)
  fix n
  let ?i = "(r * nc + c) * 8"
  have packed: "bit (tile_type_packed nr nc types) k \<longleftrightarrow>
      (\<exists>r' < nr. \<exists>c' < nc. bit (push_bit ((r' * nc + c') * 8) (type_byte types r' c')) k)" for k
    by (simp add: tile_type_packed_def case_prod_unfold bit_foldl_or Bex_def lessThan_atLeast0)
  have lane: "bit (push_bit ((r' * nc + c') * 8) (type_byte types r' c')) (?i + n) \<longleftrightarrow>
      r' = r \<and> c' = c \<and> bit (type_byte types r c) n" if "n < 8" and "c' < nc" for r' c'
  proof
    let ?j = "(r' * nc + c') * 8"
    assume "bit (push_bit ?j (type_byte types r' c')) (?i + n)"
    then have le: "?j \<le> ?i + n" and b: "bit (type_byte types r' c') (?i + n - ?j)"
      by (simp_all add: bit_push_bit_iff_int)
    from b have "?i + n - ?j < 8" using type_byte_range bit_byte by blast
    with le that have "r' * nc + c' = r * nc + c" by (intro lane_eq)
    with lane_index [OF that(2) assms(2)] b show "r' = r \<and> c' = c \<and> bit (type_byte types r c) n"
      by auto
  qed (simp add: bit_push_bit_iff_int)
  show "bit (take_bit 8 (drop_bit ?i (tile_type_packed nr nc types))) n \<longleftrightarrow>
      bit (type_byte types r c) n"
  proof (cases "n < 8")
    case True
    have "bit (take_bit 8 (drop_bit ?i (tile_type_packed nr nc types))) n
        \<longleftrightarrow> bit (tile_type_packed nr nc types) (?i + n)"
      using True by (simp add: bit_take_bit_iff bit_drop_bit_eq)
    also have "\<dots> \<longleftrightarrow> bit (type_byte types r c) n"
      unfolding packed using lane True assms by auto
    finally show ?thesis .
  next
    case False
    then show ?thesis using type_byte_range [of types r c] bit_byte by (auto simp: bit_take_bit_iff)
  qed
qed

theorem tile_type_packed_lane_witness:
  "take_bit 8 (drop_bit 8 (tile_type_packed 1 2 [[''clb_t''], [''dsp_t'']])) = 2"
  using tile_type_packed_lane [of 0 1 1 2 "[[''clb_t''], [''dsp_t'']]"]
  by (simp add: type_byte_def name_to_code_def)

section \<open>The self check\<close>

lemma drawn_fold:
  assumes "distinct (map cp_name pts)" and "\<And>i p. 0 \<le> f i p \<and> f i p < 2 ^ cp_width p"
  shows "(\<forall>p \<in> set pts. \<exists>v. foldl (\<lambda>m (i, p). m(cp_name p \<mapsto> f i p)) m (enumerate k pts) (cp_name p) = Some v
            \<and> 0 \<le> v \<and> v < (2 :: int) ^ cp_width p)
         \<and> (\<forall>n. n \<notin> cp_name ` set pts \<longrightarrow>
              foldl (\<lambda>m (i, p). m(cp_name p \<mapsto> f i p)) m (enumerate k pts) n = m n)"
  using assms(1)
proof (induction pts arbitrary: k m)
  case (Cons p pts)
  let ?g = "\<lambda>m (i, p). m(cp_name p \<mapsto> f i p)"
  let ?m = "m(cp_name p \<mapsto> f k p)"
  have ih: "(\<forall>q \<in> set pts. \<exists>v. foldl ?g ?m (enumerate (Suc k) pts) (cp_name q) = Some v
            \<and> 0 \<le> v \<and> v < 2 ^ cp_width q)
      \<and> (\<forall>n. n \<notin> cp_name ` set pts \<longrightarrow> foldl ?g ?m (enumerate (Suc k) pts) n = ?m n)"
    by (rule Cons.IH) (use Cons.prems in simp)
  from Cons.prems have np: "cp_name p \<notin> cp_name ` set pts" by simp
  have step: "foldl ?g m (enumerate k (p # pts)) = foldl ?g ?m (enumerate (Suc k) pts)" by simp
  define r where "r = foldl ?g ?m (enumerate (Suc k) pts)"
  have rest: "\<forall>q \<in> set pts. \<exists>v. r (cp_name q) = Some v \<and> 0 \<le> v \<and> v < 2 ^ cp_width q"
    and out: "\<forall>n. n \<notin> cp_name ` set pts \<longrightarrow> r n = ?m n"
    using ih unfolding r_def by blast+
  from out np have "r (cp_name p) = Some (f k p)" by simp
  with rest out assms(2) show ?case unfolding step r_def [symmetric] by auto
qed simp

lemma drawn_tile_ok:
  assumes "distinct (map cp_name pts)" and "\<And>i w. 0 \<le> draw i w \<and> draw i w < 2 ^ w"
  shows "tile_ok pts (drawn_tile draw pts)"
    and "normal_tile pts (drawn_tile draw pts) = drawn_tile draw pts"
proof -
  have "(\<forall>p \<in> set pts. \<exists>v. drawn_tile draw pts (cp_name p) = Some v \<and> 0 \<le> v \<and> v < 2 ^ cp_width p)
        \<and> (\<forall>n. n \<notin> cp_name ` set pts \<longrightarrow> drawn_tile draw pts n = None)"
    unfolding drawn_tile_def by (rule drawn_fold) (use assms in auto)
  then have in_names: "p \<in> set pts \<Longrightarrow> \<exists>v. drawn_tile draw pts (cp_name p) = Some v \<and> 0 \<le> v \<and> v < 2 ^ cp_width p"
    and out: "n \<notin> cp_name ` set pts \<Longrightarrow> drawn_tile draw pts n = None" for p n by blast+
  show "tile_ok pts (drawn_tile draw pts)"
    using in_names by (fastforce simp: tile_ok_def point_value_def)
  show "normal_tile pts (drawn_tile draw pts) = drawn_tile draw pts"
  proof
    fix n
    show "normal_tile pts (drawn_tile draw pts) n = drawn_tile draw pts n"
    proof (cases "n \<in> cp_name ` set pts")
      case True
      with in_names obtain v where "drawn_tile draw pts n = Some v" by blast
      with True show ?thesis by (simp add: normal_tile_def)
    qed (simp add: normal_tile_def out)
  qed
qed

lemma trial_passes:
  assumes "distinct (map cp_name (tile_points fm))"
    and "\<And>row i w. 0 \<le> draw row i w \<and> draw row i w < 2 ^ w"
  shows "trial_ok fm draw"
proof -
  let ?t = "\<lambda>row. drawn_tile (draw row) (tile_points fm)"
  let ?cfg = "map ?t [0..<fm_R fm]"
  have t: "tile_ok (tile_points fm) (?t row)" "normal_tile (tile_points fm) (?t row) = ?t row" for row
    using drawn_tile_ok [OF assms(1), of "draw row"] assms(2) by simp_all
  then have "pack fm ?cfg = Inr (finish_frame (concat (map (tile_bits (tile_points fm)) ?cfg)))"
    by (simp add: pack_Inr_iff)
  moreover from this have "unpack fm (finish_frame (concat (map (tile_bits (tile_points fm)) ?cfg))) = Inr ?cfg"
    using homog.dec_enc t by (simp add: o_def)
  ultimately show ?thesis by (simp add: trial_ok_def Let_def)
qed

text \<open>For every accepted descriptor the randomized self check passes whatever values are
  drawn, as long as each draw fits its point's width (which getrandbits promises).\<close>

theorem self_check_passes:
  assumes "fabric_gen_init v aw types = Inr g"
    and "\<And>t c row i w. 0 \<le> draw t c row i w \<and> draw t c row i w < 2 ^ w"
  shows "self_check g n_trials draw"
proof -
  have "distinct (map cp_name (tile_points (fg_fm g)))"
    by (rule fabric_gen_init_Inr [OF assms(1)]) (rule init_names_distinct)
  then have "trial_ok (fg_fm g) (draw t c)" for t c
    using assms(2) by (rule trial_passes)
  then show ?thesis by (simp add: self_check_def list_all_iff)
qed

theorem self_check_passes_witness: "self_check small_gen 8 (\<lambda>t c row i w. 2 ^ w - 1)"
  by (rule self_check_passes [OF small_gen]) simp

end
