(* ===== verification/Capcheck.thy ===== *)
theory Capcheck
  imports Prelude
begin

text \<open>
  ethereal-runtime/security/capcheck.py: the capability declaration of an image. A parsed
  YAML document is a \<open>yval\<close>; the YAML parser itself is third-party code and an argument
  \<open>safe_load\<close>, \<open>None\<close> standing for its YAMLError. Messages are not modelled: an error says
  which check failed and on which entry.
\<close>

section \<open>Values, vocabulary and errors\<close>

datatype yval =
  YNull
| YBool bool
| YInt int
| YStr string
| YOther string
| YList "yval list"
| YMap "(yval \<times> yval) list"

definition IO_DIRS :: "string list" where "IO_DIRS = [''in'', ''out'', ''inout'']"
definition SVC_ACCESS :: "string list" where "SVC_ACCESS = [''r'', ''w'', ''rw'']"

definition TOP_LEVEL_KEYS :: "string list" where "TOP_LEVEL_KEYS = [''io'', ''services'']"
definition IO_ENTRY_KEYS :: "string list" where "IO_ENTRY_KEYS = [''group'', ''dir'']"
definition SVC_ENTRY_KEYS :: "string list" where "SVC_ENTRY_KEYS = [''name'', ''access'']"

abbreviation (input) SIM_ALLOWED_IO_MASK :: int where "SIM_ALLOWED_IO_MASK \<equiv> 0xFF"
abbreviation (input) SIM_ALLOWED_SVC_MASK :: int where "SIM_ALLOWED_SVC_MASK \<equiv> 0xFF"

definition SIM_SERVICE_INDEX :: "(string \<times> nat) list" where
  "SIM_SERVICE_INDEX =
     [(''spi0'', 0), (''i2c0'', 1), (''uart0'', 2), (''pwm0'', 3), (''qei0'', 4)]"

abbreviation (input) CAP_DECL_BITS :: int where "CAP_DECL_BITS \<equiv> 32"
abbreviation (input) CAP_STATUS_CHECKED :: nat where "CAP_STATUS_CHECKED \<equiv> 0"
abbreviation (input) CAP_STATUS_DENIED :: nat where "CAP_STATUS_DENIED \<equiv> 1"
abbreviation (input) CAP_STATUS_THROTTLED :: nat where "CAP_STATUS_THROTTLED \<equiv> 2"
abbreviation (input) CAP_STATUS_DENIED_IO_SHIFT :: nat where "CAP_STATUS_DENIED_IO_SHIFT \<equiv> 8"
abbreviation (input) CAP_STATUS_DENIED_IO_MASK :: int where "CAP_STATUS_DENIED_IO_MASK \<equiv> 0xFF"

record io_decl =
  io_group :: int
  io_dir :: string

record svc_decl =
  svc_name :: string
  svc_access :: string

record capabilities =
  caps_io :: "io_decl list"
  caps_services :: "svc_decl list"

record cap_status =
  cs_checked :: bool
  cs_denied :: bool
  cs_throttled :: bool
  cs_denied_io :: int

definition empty_caps :: capabilities where
  "empty_caps = \<lparr>caps_io = [], caps_services = []\<rparr>"

text \<open>\<open>CapabilitySchemaError\<close> with the failed check, and \<open>CapabilityDenied\<close> with the
  offending declaration.\<close>

datatype schema_fault =
  NotAMapping
| NotAList
| UnknownKeys
| MissingKeys
| GroupNotInt
| GroupNegative
| BadDir
| BadName
| BadAccess
| DuplicateGroup int
| DuplicateName string
| InvalidYaml

datatype cap_error =
  SchemaError schema_fault
| DeniedIo io_decl
| DeniedSvc svc_decl

section \<open>Stage 1: parsing and schema\<close>

definition as_mapping :: "yval \<Rightarrow> cap_error + (yval \<times> yval) list" where
  "as_mapping v = (case v of YMap m \<Rightarrow> Inr m | _ \<Rightarrow> Inl (SchemaError NotAMapping))"

definition as_list :: "yval \<Rightarrow> cap_error + yval list" where
  "as_list v = (case v of YList xs \<Rightarrow> Inr xs | _ \<Rightarrow> Inl (SchemaError NotAList))"

text \<open>\<open>str(k) not in allowed\<close>: no rendering of a key that is not a string is an allowed
  key.\<close>

definition key_allowed :: "string list \<Rightarrow> yval \<Rightarrow> bool" where
  "key_allowed allowed k = (case k of YStr s \<Rightarrow> s \<in> set allowed | _ \<Rightarrow> False)"

definition reject_unknown :: "(yval \<times> yval) list \<Rightarrow> string list \<Rightarrow> cap_error + unit" where
  "reject_unknown m allowed =
     require (list_all (\<lambda>(k, _). key_allowed allowed k) m) (SchemaError UnknownKeys)"

definition require_keys :: "(yval \<times> yval) list \<Rightarrow> string list \<Rightarrow> cap_error + unit" where
  "require_keys m required =
     require (list_all (\<lambda>k. map_of m (YStr k) \<noteq> None) required) (SchemaError MissingKeys)"

definition field :: "(yval \<times> yval) list \<Rightarrow> string \<Rightarrow> yval" where
  "field m k = (case map_of m (YStr k) of Some v \<Rightarrow> v | None \<Rightarrow> YNull)"

definition parse_io_entry :: "yval \<Rightarrow> cap_error + io_decl" where
  "parse_io_entry entry =
     res_bind (as_mapping entry) (\<lambda>m.
     res_bind (reject_unknown m IO_ENTRY_KEYS) (\<lambda>_.
     res_bind (require_keys m [''group'', ''dir'']) (\<lambda>_.
     res_bind (case field m ''group'' of YInt g \<Rightarrow> Inr g | _ \<Rightarrow> Inl (SchemaError GroupNotInt)) (\<lambda>g.
     res_bind (require (\<not> g < 0) (SchemaError GroupNegative)) (\<lambda>_.
     res_bind (case field m ''dir'' of
                 YStr d \<Rightarrow> if d \<in> set IO_DIRS then Inr d else Inl (SchemaError BadDir)
               | _ \<Rightarrow> Inl (SchemaError BadDir)) (\<lambda>d.
     Inr \<lparr>io_group = g, io_dir = d\<rparr>))))))"

definition parse_svc_entry :: "yval \<Rightarrow> cap_error + svc_decl" where
  "parse_svc_entry entry =
     res_bind (as_mapping entry) (\<lambda>m.
     res_bind (reject_unknown m SVC_ENTRY_KEYS) (\<lambda>_.
     res_bind (require_keys m [''name'', ''access'']) (\<lambda>_.
     res_bind (case field m ''name'' of
                 YStr n \<Rightarrow> if n \<noteq> [] then Inr n else Inl (SchemaError BadName)
               | _ \<Rightarrow> Inl (SchemaError BadName)) (\<lambda>n.
     res_bind (case field m ''access'' of
                 YStr a \<Rightarrow> if a \<in> set SVC_ACCESS then Inr a else Inl (SchemaError BadAccess)
               | _ \<Rightarrow> Inl (SchemaError BadAccess)) (\<lambda>a.
     Inr \<lparr>svc_name = n, svc_access = a\<rparr>)))))"

fun check_io :: "int set \<Rightarrow> io_decl list \<Rightarrow> cap_error + unit" where
  "check_io seen [] = Inr ()"
| "check_io seen (d # ds) =
     (if io_group d < 0 then Inl (SchemaError GroupNegative)
      else if io_dir d \<notin> set IO_DIRS then Inl (SchemaError BadDir)
      else if io_group d \<in> seen then Inl (SchemaError (DuplicateGroup (io_group d)))
      else check_io (insert (io_group d) seen) ds)"

fun check_services :: "string set \<Rightarrow> svc_decl list \<Rightarrow> cap_error + unit" where
  "check_services seen [] = Inr ()"
| "check_services seen (d # ds) =
     (if svc_name d = [] then Inl (SchemaError BadName)
      else if svc_access d \<notin> set SVC_ACCESS then Inl (SchemaError BadAccess)
      else if svc_name d \<in> seen then Inl (SchemaError (DuplicateName (svc_name d)))
      else check_services (insert (svc_name d) seen) ds)"

definition validate_schema :: "capabilities \<Rightarrow> cap_error + unit" where
  "validate_schema caps =
     res_bind (check_io {} (caps_io caps)) (\<lambda>_. check_services {} (caps_services caps))"

definition parse_document :: "yval \<Rightarrow> cap_error + capabilities" where
  "parse_document doc =
     res_bind (as_mapping doc) (\<lambda>m.
     res_bind (reject_unknown m TOP_LEVEL_KEYS) (\<lambda>_.
     res_bind (require_keys m [''io'', ''services'']) (\<lambda>_.
     res_bind (as_list (field m ''io'')) (\<lambda>ios.
     res_bind (res_map parse_io_entry ios) (\<lambda>io.
     res_bind (as_list (field m ''services'')) (\<lambda>svcs.
     res_bind (res_map parse_svc_entry svcs) (\<lambda>services.
     Inr \<lparr>caps_io = io, caps_services = services\<rparr>)))))))"

text \<open>\<open>path_or_text\<close>: a path, with the file's text or its absence, or the text itself.\<close>

datatype cap_source = CapPath "string option" | CapText string

definition load_text :: "(string \<Rightarrow> yval option) \<Rightarrow> string \<Rightarrow> cap_error + capabilities" where
  "load_text safe_load text =
     (case safe_load text of
        None \<Rightarrow> Inl (SchemaError InvalidYaml)
      | Some doc \<Rightarrow>
          res_bind (parse_document doc) (\<lambda>caps.
          res_bind (validate_schema caps) (\<lambda>_. Inr caps)))"

definition load_capabilities ::
  "(string \<Rightarrow> yval option) \<Rightarrow> cap_source \<Rightarrow> cap_error + capabilities" where
  "load_capabilities safe_load src =
     (case src of
        CapPath None \<Rightarrow> Inr empty_caps
      | CapPath (Some text) \<Rightarrow> load_text safe_load text
      | CapText text \<Rightarrow> load_text safe_load text)"

section \<open>Stage 2: grantability\<close>

definition grant_io :: "int \<Rightarrow> io_decl \<Rightarrow> cap_error + unit" where
  "grant_io io_mask d =
     (let in_range = 0 \<le> io_group d \<and> io_group d < CAP_DECL_BITS
      in if \<not> in_range \<or> io_mask AND push_bit (nat (io_group d)) 1 = 0
         then Inl (DeniedIo d) else Inr ())"

definition grant_svc :: "int \<Rightarrow> svc_decl \<Rightarrow> cap_error + unit" where
  "grant_svc svc_mask d =
     (case map_of SIM_SERVICE_INDEX (svc_name d) of
        None \<Rightarrow> Inl (DeniedSvc d)
      | Some proxy \<Rightarrow>
          if svc_mask AND push_bit proxy 1 = 0 then Inl (DeniedSvc d) else Inr ())"

definition validate_grantable :: "capabilities \<Rightarrow> int \<Rightarrow> int \<Rightarrow> cap_error + unit" where
  "validate_grantable caps io_mask svc_mask =
     res_bind (res_iter (grant_io io_mask) (caps_io caps)) (\<lambda>_.
       res_iter (grant_svc svc_mask) (caps_services caps))"

definition validate_grantable_sim :: "capabilities \<Rightarrow> cap_error + unit" where
  "validate_grantable_sim caps = validate_grantable caps SIM_ALLOWED_IO_MASK SIM_ALLOWED_SVC_MASK"

definition load_and_check ::
  "(string \<Rightarrow> yval option) \<Rightarrow> cap_source \<Rightarrow> int \<Rightarrow> int \<Rightarrow> cap_error + capabilities" where
  "load_and_check safe_load src io_mask svc_mask =
     res_bind (load_capabilities safe_load src) (\<lambda>caps.
     res_bind (validate_grantable caps io_mask svc_mask) (\<lambda>_. Inr caps))"

section \<open>The register encoding\<close>

fun io_bitmap :: "io_decl list \<Rightarrow> int \<Rightarrow> cap_error + int" where
  "io_bitmap [] acc = Inr acc"
| "io_bitmap (d # ds) acc =
     (if \<not> (0 \<le> io_group d \<and> io_group d < CAP_DECL_BITS) then Inl (DeniedIo d)
      else io_bitmap ds (acc OR push_bit (nat (io_group d)) 1))"

fun svc_bitmap :: "svc_decl list \<Rightarrow> int \<Rightarrow> cap_error + int" where
  "svc_bitmap [] acc = Inr acc"
| "svc_bitmap (d # ds) acc =
     (case map_of SIM_SERVICE_INDEX (svc_name d) of
        None \<Rightarrow> Inl (DeniedSvc d)
      | Some proxy \<Rightarrow> svc_bitmap ds (acc OR push_bit proxy 1))"

definition to_emri_bitmaps :: "capabilities \<Rightarrow> cap_error + int \<times> int" where
  "to_emri_bitmaps caps =
     res_bind (io_bitmap (caps_io caps) 0) (\<lambda>decl_io.
     res_bind (svc_bitmap (caps_services caps) 0) (\<lambda>decl_svc.
     Inr (decl_io AND 0xFFFFFFFF, decl_svc AND 0xFFFFFFFF)))"

definition cap_status_decode :: "int \<Rightarrow> cap_status" where
  "cap_status_decode w =
     \<lparr>cs_checked = (w AND push_bit CAP_STATUS_CHECKED 1 \<noteq> 0),
      cs_denied = (w AND push_bit CAP_STATUS_DENIED 1 \<noteq> 0),
      cs_throttled = (w AND push_bit CAP_STATUS_THROTTLED 1 \<noteq> 0),
      cs_denied_io = drop_bit CAP_STATUS_DENIED_IO_SHIFT w AND CAP_STATUS_DENIED_IO_MASK\<rparr>"

definition cap_status_encode :: "cap_status \<Rightarrow> int" where
  "cap_status_encode s =
     (let w = (0 :: int);
          w = (if cs_checked s then w OR push_bit CAP_STATUS_CHECKED 1 else w);
          w = (if cs_denied s then w OR push_bit CAP_STATUS_DENIED 1 else w);
          w = (if cs_throttled s then w OR push_bit CAP_STATUS_THROTTLED 1 else w)
      in w OR push_bit CAP_STATUS_DENIED_IO_SHIFT (cs_denied_io s AND CAP_STATUS_DENIED_IO_MASK))"

end
