(* ===== verification/Capcheck_Props.thy ===== *)
theory Capcheck_Props
  imports Capcheck
begin

text \<open>
  The capability gate: the schema check accepts exactly the well-formed declarations,
  whatever is loaded is well formed, a granted declaration encodes to bitmaps inside the
  platform masks whose bits are exactly the declared ones, and the status word round trips.
\<close>

section \<open>The schema\<close>

definition io_ok :: "io_decl \<Rightarrow> bool" where
  "io_ok d \<longleftrightarrow> 0 \<le> io_group d \<and> io_dir d \<in> set IO_DIRS"

definition svc_ok :: "svc_decl \<Rightarrow> bool" where
  "svc_ok d \<longleftrightarrow> svc_name d \<noteq> [] \<and> svc_access d \<in> set SVC_ACCESS"

text \<open>What the v0 schema promises: typed entries, each group and each service at most once.\<close>

definition caps_ok :: "capabilities \<Rightarrow> bool" where
  "caps_ok caps \<longleftrightarrow>
     list_all io_ok (caps_io caps) \<and> distinct (map io_group (caps_io caps))
     \<and> list_all svc_ok (caps_services caps) \<and> distinct (map svc_name (caps_services caps))"

lemma check_io_iff:
  "check_io seen ds = Inr () \<longleftrightarrow>
     list_all io_ok ds \<and> distinct (map io_group ds) \<and> seen \<inter> io_group ` set ds = {}"
  by (induction ds arbitrary: seen) (auto simp: io_ok_def)

lemma check_services_iff:
  "check_services seen ds = Inr () \<longleftrightarrow>
     list_all svc_ok ds \<and> distinct (map svc_name ds) \<and> seen \<inter> svc_name ` set ds = {}"
  by (induction ds arbitrary: seen) (auto simp: svc_ok_def)

lemma validate_schema_iff: "validate_schema caps = Inr () \<longleftrightarrow> caps_ok caps"
  by (auto simp: validate_schema_def caps_ok_def res_simps check_io_iff check_services_iff)

lemma load_capabilities_Inr:
  "load_capabilities safe_load src = Inr caps \<Longrightarrow>
     caps = empty_caps \<or> (\<exists>doc. parse_document doc = Inr caps \<and> validate_schema caps = Inr ())"
  by (auto simp: load_capabilities_def load_text_def res_simps split: cap_source.splits option.splits)

text \<open>Whatever YAML the parser returns, a declaration that is loaded satisfies the schema:
  every group is non-negative with a known direction, every service has a name and a known
  access, and no group and no service is declared twice.\<close>

theorem loaded_caps_ok:
  assumes "load_capabilities safe_load src = Inr caps"
  shows "caps_ok caps"
  using load_capabilities_Inr [OF assms]
  by (auto simp: validate_schema_iff caps_ok_def empty_caps_def)

definition sample_doc :: yval where
  "sample_doc = YMap
     [(YStr ''io'', YList [YMap [(YStr ''group'', YInt 2), (YStr ''dir'', YStr ''inout'')]]),
      (YStr ''services'', YList [YMap [(YStr ''name'', YStr ''uart0''), (YStr ''access'', YStr ''rw'')]])]"

definition sample_caps :: capabilities where
  "sample_caps = \<lparr>caps_io = [\<lparr>io_group = 2, io_dir = ''inout''\<rparr>],
     caps_services = [\<lparr>svc_name = ''uart0'', svc_access = ''rw''\<rparr>]\<rparr>"

lemma load_sample: "load_capabilities (\<lambda>_. Some sample_doc) (CapText ''x'') = Inr sample_caps"
  by code_simp

theorem loaded_caps_ok_witness: "caps_ok sample_caps"
  using loaded_caps_ok [OF load_sample] .

section \<open>Rendering a declaration\<close>

text \<open>The document a well-formed declaration is written as.\<close>

definition io_doc :: "io_decl \<Rightarrow> yval" where
  "io_doc d = YMap [(YStr ''group'', YInt (io_group d)), (YStr ''dir'', YStr (io_dir d))]"

definition svc_doc :: "svc_decl \<Rightarrow> yval" where
  "svc_doc d = YMap [(YStr ''name'', YStr (svc_name d)), (YStr ''access'', YStr (svc_access d))]"

definition caps_doc :: "capabilities \<Rightarrow> yval" where
  "caps_doc caps = YMap [(YStr ''io'', YList (map io_doc (caps_io caps))),
     (YStr ''services'', YList (map svc_doc (caps_services caps)))]"

lemmas document_defs = as_mapping_def as_list_def reject_unknown_def require_keys_def
  key_allowed_def field_def

lemma parse_io_doc: "io_ok d \<Longrightarrow> parse_io_entry (io_doc d) = Inr d"
  by (simp add: parse_io_entry_def io_doc_def document_defs IO_ENTRY_KEYS_def io_ok_def)

lemma parse_svc_doc: "svc_ok d \<Longrightarrow> parse_svc_entry (svc_doc d) = Inr d"
  by (simp add: parse_svc_entry_def svc_doc_def document_defs SVC_ENTRY_KEYS_def svc_ok_def)

lemma parse_all:
  "list_all ok ds \<Longrightarrow> (\<And>d. ok d \<Longrightarrow> p (f d) = Inr d) \<Longrightarrow> res_map p (map f ds) = Inr ds"
  by (induction ds) auto

text \<open>C22: every well-formed declaration can be expressed: parsing and checking the document
  it is written as gives the declaration back.\<close>

theorem declaration_roundtrip:
  assumes "caps_ok caps" and "safe_load text = Some (caps_doc caps)"
  shows "load_capabilities safe_load (CapText text) = Inr caps"
proof -
  from assms(1) have io: "res_map parse_io_entry (map io_doc (caps_io caps)) = Inr (caps_io caps)"
    and svc: "res_map parse_svc_entry (map svc_doc (caps_services caps)) = Inr (caps_services caps)"
    unfolding caps_ok_def by (auto intro!: parse_all [where ok = io_ok] parse_all [where ok = svc_ok]
      parse_io_doc parse_svc_doc)
  have "parse_document (caps_doc caps) = Inr caps"
    unfolding parse_document_def caps_doc_def by (simp add: document_defs TOP_LEVEL_KEYS_def io svc)
  moreover have "validate_schema caps = Inr ()" using assms(1) by (simp add: validate_schema_iff)
  ultimately show ?thesis using assms(2) by (simp add: load_capabilities_def load_text_def)
qed

theorem declaration_roundtrip_witness:
  "load_capabilities (\<lambda>_. Some (caps_doc sample_caps)) (CapText []) = Inr sample_caps"
  by (rule declaration_roundtrip) (simp_all add: caps_ok_def io_ok_def svc_ok_def sample_caps_def
    IO_DIRS_def SVC_ACCESS_def)

section \<open>Grants and bitmaps\<close>

lemma grant_io_iff:
  "grant_io m d = Inr () \<longleftrightarrow> 0 \<le> io_group d \<and> io_group d < 32 \<and> bit m (nat (io_group d))"
  unfolding grant_io_def and_single by auto

lemma grant_svc_iff:
  "grant_svc m d = Inr () \<longleftrightarrow> (\<exists>k. map_of SIM_SERVICE_INDEX (svc_name d) = Some k \<and> bit m k)"
  unfolding grant_svc_def and_single by (auto split: option.splits)

lemma grant_service_indexes: "map_of SIM_SERVICE_INDEX n = Some k \<Longrightarrow> k < 5"
  by (auto simp: SIM_SERVICE_INDEX_def split: if_splits)

lemma io_bitmap_bits:
  "io_bitmap ds acc = Inr w \<Longrightarrow>
     bit w n \<longleftrightarrow> bit acc n \<or> (n < 32 \<and> int n \<in> io_group ` set ds)"
proof (induction ds arbitrary: acc)
  case (Cons d ds)
  then have d: "0 \<le> io_group d" "io_group d < 32"
    and "io_bitmap ds (acc OR push_bit (nat (io_group d)) 1) = Inr w"
    by (simp_all split: if_splits)
  with Cons.IH have "bit w n \<longleftrightarrow> bit (acc OR push_bit (nat (io_group d)) 1) n
      \<or> (n < 32 \<and> int n \<in> io_group ` set ds)" by blast
  moreover have "bit (push_bit (nat (io_group d)) 1 :: int) n \<longleftrightarrow> int n = io_group d"
    using d by (auto simp: bit_simps)
  ultimately show ?case using d by (auto simp: bit_or_iff)
qed simp

lemma io_bitmap_ok:
  "is_ok (io_bitmap ds acc) \<longleftrightarrow> (\<forall>d \<in> set ds. 0 \<le> io_group d \<and> io_group d < 32)"
  by (induction ds arbitrary: acc) auto

lemma svc_bitmap_bits:
  "svc_bitmap ds acc = Inr w \<Longrightarrow>
     bit w n \<longleftrightarrow> bit acc n \<or> (\<exists>d \<in> set ds. map_of SIM_SERVICE_INDEX (svc_name d) = Some n)"
proof (induction ds arbitrary: acc)
  case (Cons d ds)
  then obtain k where k: "map_of SIM_SERVICE_INDEX (svc_name d) = Some k"
    and "svc_bitmap ds (acc OR push_bit k 1) = Inr w"
    by (auto split: option.splits)
  with Cons.IH have "bit w n \<longleftrightarrow> bit (acc OR push_bit k 1) n
      \<or> (\<exists>d \<in> set ds. map_of SIM_SERVICE_INDEX (svc_name d) = Some n)" by blast
  moreover have "bit (push_bit k 1 :: int) n \<longleftrightarrow> k = n" by (auto simp: bit_simps)
  ultimately show ?case using k by (auto simp: bit_or_iff)
qed simp

lemma svc_bitmap_ok:
  "is_ok (svc_bitmap ds acc) \<longleftrightarrow>
     (\<forall>d \<in> set ds. map_of SIM_SERVICE_INDEX (svc_name d) \<noteq> None)"
  by (induction ds arbitrary: acc) (auto split: option.splits)

lemma bitmaps_bits:
  assumes "to_emri_bitmaps caps = Inr (io, svc)"
  shows "bit io n \<longleftrightarrow> n < 32 \<and> int n \<in> io_group ` set (caps_io caps)"
    and "bit svc n \<longleftrightarrow> (\<exists>d \<in> set (caps_services caps). map_of SIM_SERVICE_INDEX (svc_name d) = Some n)"
proof -
  from assms obtain a b where a: "io_bitmap (caps_io caps) 0 = Inr a" "io = take_bit 32 a"
    and b: "svc_bitmap (caps_services caps) 0 = Inr b" "svc = take_bit 32 b"
    by (auto simp: to_emri_bitmaps_def res_simps and_FFFFFFFF_take)
  show "bit io n \<longleftrightarrow> n < 32 \<and> int n \<in> io_group ` set (caps_io caps)"
    using io_bitmap_bits [OF a(1)] by (auto simp: a(2) bit_take_bit_iff)
  show "bit svc n \<longleftrightarrow> (\<exists>d \<in> set (caps_services caps). map_of SIM_SERVICE_INDEX (svc_name d) = Some n)"
    using svc_bitmap_bits [OF b(1)] grant_service_indexes
    by (auto simp: b(2) bit_take_bit_iff) fastforce
qed

text \<open>The bitmaps are exact: bit g of CAP_DECL_IO is set just when pin group g is
  declared, and bit k of CAP_DECL_SVC just when a service with proxy index k is.\<close>

theorem bitmaps_exact:
  assumes "to_emri_bitmaps caps = Inr (io, svc)"
  shows "(bit io g \<longleftrightarrow> g < 32 \<and> int g \<in> io_group ` set (caps_io caps))
         \<and> (bit svc k \<longleftrightarrow>
              (\<exists>d \<in> set (caps_services caps). map_of SIM_SERVICE_INDEX (svc_name d) = Some k))"
  using bitmaps_bits [OF assms] by simp

lemma sample_bitmaps: "to_emri_bitmaps sample_caps = Inr (4, 4)"
  by code_simp

theorem bitmaps_exact_witness: "bit (4 :: int) 2 \<longleftrightarrow> 2 \<in> io_group ` set (caps_io sample_caps)"
  using bitmaps_exact [OF sample_bitmaps, of 2] by simp

lemma granted_within:
  assumes "validate_grantable caps io_mask svc_mask = Inr ()"
  shows "\<exists>io svc. to_emri_bitmaps caps = Inr (io, svc)
           \<and> io AND io_mask = io \<and> svc AND svc_mask = svc
           \<and> 0 \<le> io \<and> io < 2 ^ 32 \<and> 0 \<le> svc \<and> svc < 2 ^ 32"
proof -
  from assms have io: "\<forall>d \<in> set (caps_io caps). 0 \<le> io_group d \<and> io_group d < 32
        \<and> bit io_mask (nat (io_group d))"
    and svc: "\<forall>d \<in> set (caps_services caps). \<exists>k.
        map_of SIM_SERVICE_INDEX (svc_name d) = Some k \<and> bit svc_mask k"
    by (simp_all add: validate_grantable_def res_simps grant_io_iff grant_svc_iff)
  then have "is_ok (io_bitmap (caps_io caps) 0)" and "is_ok (svc_bitmap (caps_services caps) 0)"
    by (auto simp: io_bitmap_ok svc_bitmap_ok)
  then obtain a b where "io_bitmap (caps_io caps) 0 = Inr a" "svc_bitmap (caps_services caps) 0 = Inr b"
    by (auto simp: is_ok_iff)
  then have bm: "to_emri_bitmaps caps = Inr (take_bit 32 a, take_bit 32 b)"
    by (simp add: to_emri_bitmaps_def and_FFFFFFFF_take)
  have "bit io_mask n" if "bit (take_bit 32 a) n" for n
  proof -
    from that bitmaps_bits(1) [OF bm] obtain d where "d \<in> set (caps_io caps)" "int n = io_group d"
      by auto
    with io show ?thesis by (metis nat_int)
  qed
  then have "take_bit 32 a AND io_mask = take_bit 32 a"
    by (intro bit_eqI) (auto simp: bit_and_iff)
  moreover have "take_bit 32 b AND svc_mask = take_bit 32 b"
    using bitmaps_bits(2) [OF bm] svc by (intro bit_eqI) (force simp: bit_and_iff)
  ultimately show ?thesis
    using bm take_bit_int_less_exp [of 32 a] take_bit_int_less_exp [of 32 b] by auto
qed

text \<open>C20: a declaration the pre-flight grants always encodes, and both bitmaps lie inside the
  platform masks and inside 32 bits, so the device's own subset check on the staged words
  cannot refuse it.\<close>

theorem granted_bitmaps_within_masks:
  assumes "validate_grantable caps io_mask svc_mask = Inr ()"
  shows "\<exists>io svc. to_emri_bitmaps caps = Inr (io, svc)
           \<and> io AND io_mask = io \<and> svc AND svc_mask = svc
           \<and> 0 \<le> io \<and> io < 2 ^ 32 \<and> 0 \<le> svc \<and> svc < 2 ^ 32"
  using assms by (rule granted_within)

theorem granted_bitmaps_within_masks_witness:
  "\<exists>io svc. to_emri_bitmaps sample_caps = Inr (io, svc) \<and> io AND 0xFF = io \<and> svc AND 0xFF = svc"
proof -
  have "validate_grantable sample_caps 0xFF 0xFF = Inr ()" by code_simp
  from granted_bitmaps_within_masks [OF this] show ?thesis by blast
qed

text \<open>The gate is exact: the pre-flight passes precisely when every declared group is one
  of the platform's 32 and every declared service is known, with their mask bits set;
  nothing else is granted.\<close>

lemma grantable_iff:
  "validate_grantable caps io_mask svc_mask = Inr () \<longleftrightarrow>
     (\<forall>d \<in> set (caps_io caps). 0 \<le> io_group d \<and> io_group d < 32
         \<and> bit io_mask (nat (io_group d)))
     \<and> (\<forall>d \<in> set (caps_services caps). \<exists>k.
          map_of SIM_SERVICE_INDEX (svc_name d) = Some k \<and> bit svc_mask k)"
  by (simp add: validate_grantable_def res_simps grant_io_iff grant_svc_iff)

section \<open>The status word\<close>

lemma bit_encode:
  "bit (cap_status_encode s) n \<longleftrightarrow>
     n = 0 \<and> cs_checked s \<or> n = 1 \<and> cs_denied s \<or> n = 2 \<and> cs_throttled s
     \<or> 8 \<le> n \<and> n < 16 \<and> bit (cs_denied_io s) (n - 8)"
  unfolding cap_status_encode_def Let_def and_255
  by (cases "cs_checked s"; cases "cs_denied s"; cases "cs_throttled s";
    simp only: if_True if_False bit_or_iff bit_single;
    auto simp: bit_push_bit_iff_int bit_take_bit_iff)

text \<open>Encoding after decoding keeps exactly the defined bits of a CAP_STATUS word
  (bits 0 to 2 and 15 to 8), and decoding after encoding gives the status back with the
  denied mask reduced to its eight bits.\<close>

theorem cap_status_roundtrip:
  "cap_status_encode (cap_status_decode w) = w AND 0xFF07
   \<and> cap_status_decode (cap_status_encode s) = s\<lparr>cs_denied_io := take_bit 8 (cs_denied_io s)\<rparr>"
proof
  have k: "(0xFF07 :: int) = push_bit 8 (mask 8) OR mask 3"
    by (simp add: mask_eq_exp_minus_1 push_bit_eq_mult)
  have dec: "cap_status_decode v = \<lparr>cs_checked = bit v 0, cs_denied = bit v 1,
      cs_throttled = bit v 2, cs_denied_io = take_bit 8 (drop_bit 8 v)\<rparr>" for v
    unfolding cap_status_decode_def and_single and_255 by simp
  show "cap_status_encode (cap_status_decode w) = w AND 0xFF07"
    unfolding dec
  proof (rule bit_eqI)
    fix n
    have "bit (0xFF07 :: int) n \<longleftrightarrow> 8 \<le> n \<and> n < 16 \<or> n < 3"
      unfolding k by (auto simp only: bit_or_iff bit_push_bit_iff_int bit_mask_iff) simp_all
    moreover have "n < 3 \<longleftrightarrow> n = 0 \<or> n = 1 \<or> n = 2" by auto
    ultimately show "bit (cap_status_encode \<lparr>cs_checked = bit w 0, cs_denied = bit w 1,
        cs_throttled = bit w 2, cs_denied_io = take_bit 8 (drop_bit 8 w)\<rparr>) n = bit (w AND 0xFF07) n"
      unfolding bit_encode bit_and_iff by (auto simp: bit_take_bit_iff bit_drop_bit_eq)
  qed
  have "take_bit 8 (drop_bit 8 (cap_status_encode s)) = take_bit 8 (cs_denied_io s)"
    by (rule bit_eqI) (auto simp: bit_take_bit_iff bit_drop_bit_eq bit_encode)
  then show "cap_status_decode (cap_status_encode s) = s\<lparr>cs_denied_io := take_bit 8 (cs_denied_io s)\<rparr>"
    unfolding dec by (simp add: bit_encode)
qed

end
