(* ===== verification/Efp_Wire.thy ===== *)
theory Efp_Wire
  imports Emri Crc
begin

text \<open>
  The lower half of ethereal-tools/tools/efp_client.py: OCC frame addresses, the 7-byte
  EFP-SPI frames with their transport CRC, the packing of byte blobs into 32-bit words, and
  the operations of a session. Bytes objects are lists of integers in 0..255. The comment
  of an operation is only printed and left out.
\<close>

section \<open>Errors, names and status decoding\<close>

datatype efp_err =
  FrameTooLong int
| SpiAddrRange int
| BlobLength nat
| DigestLength nat
| SigLength nat
| WordCountRange int
| RegionRange int
| BitmapRange
| BadCommandCode int
| NoFrameWords
| NoColumns
| ColumnLength nat nat
| ColumnCountRange nat
| NotInLoad
| ReadCheck int int int int
| PollTimeout int int int

abbreviation (input) EFP_STATUS_STATE_MASK :: int where "EFP_STATUS_STATE_MASK \<equiv> 0x0F"
abbreviation (input) EFP_STATUS_BUSY :: int where "EFP_STATUS_BUSY \<equiv> 0x10"
abbreviation (input) EFP_STATUS_DONE :: int where "EFP_STATUS_DONE \<equiv> 0x20"
abbreviation (input) EFP_STATUS_ALL :: int where "EFP_STATUS_ALL \<equiv> 0x3F"
abbreviation (input) OCC_STATUS_DONE_FLAG_MASK :: int where "OCC_STATUS_DONE_FLAG_MASK \<equiv> 0x08"

definition EFP_STATE_NAMES :: "(int \<times> string) list" where
  "EFP_STATE_NAMES =
     [(EFP_S_IDLE, ''IDLE''), (EFP_S_VERIFY, ''VERIFY''), (EFP_S_ALLOC, ''ALLOC''),
      (EFP_S_BLANK, ''BLANK''), (EFP_S_LOAD, ''LOAD''), (EFP_S_READBACK, ''READBACK''),
      (EFP_S_RUNNING, ''RUNNING''), (EFP_S_ERROR, ''ERROR''), (EFP_S_STOPPED, ''STOPPED'')]"

definition EFP_ERR_NAMES :: "(int \<times> string) list" where
  "EFP_ERR_NAMES =
     [(EFP_ERR_NONE, ''none''), (EFP_ERR_BAD_SIG, ''bad_sig''),
      (EFP_ERR_REGION_FULL, ''region_full''), (EFP_ERR_REGION_LOCKED, ''region_locked''),
      (EFP_ERR_OCC_CRC, ''occ_crc''), (EFP_ERR_OCC_REJECT, ''occ_reject''),
      (EFP_ERR_BAD_CMD, ''bad_cmd''), (EFP_ERR_IMG_LEN_MISMATCH, ''img_len_mismatch''),
      (EFP_ERR_CRC_TRANSPORT, ''crc_transport''), (EFP_ERR_WATCHDOG_TIMEOUT, ''watchdog_timeout''),
      (EFP_ERR_FWUPDATE, ''fwupdate''), (EFP_ERR_CAPABILITY_DENIED, ''capability_denied''),
      (EFP_ERR_RATE_LIMITED, ''rate_limited'')]"

definition SPI_STATUS_NAMES :: "(int \<times> string) list" where
  "SPI_STATUS_NAMES =
     [(SPI_STAT_OK, ''OK''), (SPI_STAT_BAD_OP, ''BAD_OP''), (SPI_STAT_BAD_ADDR, ''BAD_ADDR''),
      (SPI_STAT_BUSY, ''BUSY''), (SPI_STAT_CRC_ERR, ''CRC_ERR''),
      (SPI_STAT_NOT_READY, ''NOT_READY'')]"

text \<open>\<open>NAMES.get(k, f"unknown({k})")\<close>\<close>

definition name_of :: "(int \<times> string) list \<Rightarrow> int \<Rightarrow> string" where
  "name_of names k =
     (case map_of names k of Some n \<Rightarrow> n | None \<Rightarrow> ''unknown('' @ nat_str (nat k) @ '')'')"

definition decode_state :: "int \<Rightarrow> string" where
  "decode_state s = name_of EFP_STATE_NAMES (s AND 0xF)"

definition decode_err :: "int \<Rightarrow> string" where
  "decode_err c = name_of EFP_ERR_NAMES (c AND 0xFF)"

definition decode_spi_status :: "int \<Rightarrow> string" where
  "decode_spi_status c = name_of SPI_STATUS_NAMES (c AND 0xFF)"

section \<open>OCC frame addresses\<close>

abbreviation (input) OCC_FRAME_WINDOW_WORDS :: int where "OCC_FRAME_WINDOW_WORDS \<equiv> 0x100"

definition region_frame_base :: "int \<Rightarrow> int" where
  "region_frame_base region = push_bit 12 (region AND 0xF)"

definition column_frame_base :: "int \<Rightarrow> int \<Rightarrow> int" where
  "column_frame_base region col = region_frame_base region OR push_bit 8 (col AND 0xF)"

definition column_frame_range :: "int \<Rightarrow> int \<Rightarrow> int \<Rightarrow> efp_err + int list" where
  "column_frame_range region col words =
     (if \<not> (0 \<le> words \<and> words \<le> OCC_FRAME_WINDOW_WORDS) then Inl (FrameTooLong words)
      else let base = column_frame_base region col in Inr [base..base + words - 1])"

section \<open>Bytes and words\<close>

text \<open>\<open>to_bytes(4, "big")\<close>, \<open>to_bytes(4, "little")\<close> and \<open>int.from_bytes(_, "little")\<close>
  for values that fit.\<close>

definition to_bytes_big :: "int \<Rightarrow> int list" where
  "to_bytes_big w = map (\<lambda>s. drop_bit s w AND 0xFF) [24, 16, 8, 0]"

definition to_bytes_little :: "int \<Rightarrow> int list" where
  "to_bytes_little w = map (\<lambda>s. drop_bit s w AND 0xFF) [0, 8, 16, 24]"

fun from_bytes_little :: "int list \<Rightarrow> int" where
  "from_bytes_little [] = 0"
| "from_bytes_little (b # bs) = b + 256 * from_bytes_little bs"

definition words_from_bytes :: "int list \<Rightarrow> efp_err + int list" where
  "words_from_bytes blob =
     (if length blob mod 4 \<noteq> 0 then Inl (BlobLength (length blob))
      else Inr (map (\<lambda>i. from_bytes_little (take 4 (drop (4 * i) blob))) [0..<length blob div 4]))"

text \<open>\<open>digest.hex().encode("utf-8")\<close>: two lowercase hexadecimal ASCII digits per byte.\<close>

definition hex_ascii :: "int \<Rightarrow> int" where
  "hex_ascii d = (if d < 10 then 48 + d else 87 + d)"

definition hex_bytes :: "int list \<Rightarrow> int list" where
  "hex_bytes bs = concat (map (\<lambda>b. [hex_ascii (b div 16), hex_ascii (b mod 16)]) bs)"

text \<open>The Ed25519 primitive of the third-party package is the argument \<open>ed\<close> (public key,
  signature, message); an exception of it is the answer False.\<close>

type_synonym ed25519 = "int list \<Rightarrow> int list \<Rightarrow> int list \<Rightarrow> bool"

definition verify_raw_ed25519 :: "ed25519 \<Rightarrow> int list \<Rightarrow> int list \<Rightarrow> int list \<Rightarrow> bool" where
  "verify_raw_ed25519 ed raw_pk digest32 sig64 = ed raw_pk sig64 (hex_bytes digest32)"

section \<open>Operations\<close>

datatype op =
  OpWrite int int
| OpRead int int int
| OpPoll int int int
| OpStream int "int list"

section \<open>EFP-SPI frames\<close>

abbreviation (input) SPI_FRAME_LEN :: nat where "SPI_FRAME_LEN \<equiv> 7"

definition spi_frame :: "int \<Rightarrow> int \<Rightarrow> int \<Rightarrow> efp_err + int list" where
  "spi_frame opc addr data =
     (if \<not> (0 \<le> addr \<and> addr \<le> 0xFFFF) then Inl (SpiAddrRange addr)
      else Inr ([opc AND 0xFF, drop_bit 8 addr AND 0xFF, addr AND 0xFF]
                @ to_bytes_big (data AND 0xFFFFFFFF)))"

definition crc16_bytes_from :: "int list \<Rightarrow> int \<Rightarrow> int" where
  "crc16_bytes_from blob crc = foldl crc_byte crc blob AND 0xFFFF"

definition crc16_bytes :: "int list \<Rightarrow> int" where
  "crc16_bytes blob = crc16_bytes_from blob 0xFFFF"

definition crc16_words :: "int list \<Rightarrow> int" where
  "crc16_words words = crc16_bytes (concat (map (\<lambda>w. to_bytes_big (w AND 0xFFFFFFFF)) words))"

text \<open>The words of every stream up to the next doorbell write.\<close>

fun stream_words_ahead :: "op list \<Rightarrow> int list" where
  "stream_words_ahead [] = []"
| "stream_words_ahead (OpWrite addr data # rest) =
     (if addr = R_EFP_CMD then [] else stream_words_ahead rest)"
| "stream_words_ahead (OpStream addr words # rest) = words @ stream_words_ahead rest"
| "stream_words_ahead (OpRead addr m v # rest) = stream_words_ahead rest"
| "stream_words_ahead (OpPoll addr m v # rest) = stream_words_ahead rest"

text \<open>The transport CRC latch that precedes a run or run_packed doorbell.\<close>

definition latch_frames :: "op \<Rightarrow> op list \<Rightarrow> efp_err + int list list" where
  "latch_frames p rest =
     (case p of
        OpWrite addr data \<Rightarrow>
          if addr = R_EFP_CMD \<and> (data = EFP_CMD_RUN \<or> data = EFP_CMD_RUN_PACKED)
             \<and> stream_words_ahead rest \<noteq> []
          then res_map (spi_frame SPI_OP_WR R_SPI_CRC) [crc16_words (stream_words_ahead rest)]
          else Inr []
      | _ \<Rightarrow> Inr [])"

definition op_frames :: "op \<Rightarrow> efp_err + int list list" where
  "op_frames p =
     (case p of
        OpWrite addr data \<Rightarrow>
          res_map (spi_frame (if addr = R_OCC_WDATA then SPI_OP_OCC_PUSH else SPI_OP_WR) addr) [data]
      | OpStream addr words \<Rightarrow> res_map (spi_frame SPI_OP_OCC_PUSH R_OCC_WDATA) words
      | OpRead addr m v \<Rightarrow> res_map (spi_frame SPI_OP_RD addr) [0]
      | OpPoll addr m v \<Rightarrow> res_map (spi_frame SPI_OP_RD addr) [0])"

fun to_spi_frames :: "op list \<Rightarrow> efp_err + int list list" where
  "to_spi_frames [] = Inr []"
| "to_spi_frames (p # rest) =
     res_bind (latch_frames p rest) (\<lambda>latch.
     res_bind (op_frames p) (\<lambda>own.
     res_bind (to_spi_frames rest) (\<lambda>fs. Inr (latch @ own @ fs))))"

end
