(* ===== verification/Efp_Session.thy ===== *)
theory Efp_Session
  imports Efp_Wire
begin

text \<open>
  \<open>EfpSession\<close> of efp_client.py: the builder of the ordered operation lists that drive the
  daemon. A session is its list of operations; every method takes the session and returns
  it extended, or raises.
\<close>

type_synonym session = "op list"

section \<open>Emitters\<close>

definition s_write :: "int \<Rightarrow> int \<Rightarrow> session \<Rightarrow> session" where
  "s_write addr data s = s @ [OpWrite addr data]"

definition s_read :: "int \<Rightarrow> int \<Rightarrow> int \<Rightarrow> session \<Rightarrow> session" where
  "s_read addr m v s = s @ [OpRead addr m v]"

definition s_poll :: "int \<Rightarrow> int \<Rightarrow> int \<Rightarrow> session \<Rightarrow> session" where
  "s_poll addr m v s = s @ [OpPoll addr m v]"

definition s_writes :: "int \<Rightarrow> int list \<Rightarrow> session \<Rightarrow> session" where
  "s_writes base ws s = foldl (\<lambda>s (i, w). s_write (base + int i) w s) s (enumerate 0 ws)"

section \<open>Primitives\<close>

definition stage_image :: "int list \<Rightarrow> int list \<Rightarrow> int \<Rightarrow> int \<Rightarrow> session \<Rightarrow> efp_err + session" where
  "stage_image digest32 sig64 words region s =
     res_bind (require (length digest32 = 4 * IMG_DIGEST_WORDS) (DigestLength (length digest32))) (\<lambda>_.
     res_bind (require (length sig64 = 4 * IMG_SIG_WORDS) (SigLength (length sig64))) (\<lambda>_.
     res_bind (require (0 < words \<and> words \<le> 0xFFFF) (WordCountRange words)) (\<lambda>_.
     res_bind (require (0 \<le> region \<and> region \<le> 0xFF) (RegionRange region)) (\<lambda>_.
     res_bind (words_from_bytes digest32) (\<lambda>dw.
     res_bind (words_from_bytes sig64) (\<lambda>sw.
     let s = s_writes R_IMG_DIGEST dw s;
         s = s_writes R_IMG_SIG sw s;
         s = s_write R_EFP_IMG_WORDS words s
     in Inr (s_write R_EFP_REGION region s)))))))"

definition poll_status :: "int \<Rightarrow> int \<Rightarrow> session \<Rightarrow> session" where
  "poll_status m v s = s_poll R_EFP_STATUS m v s"

definition stage_capabilities :: "int \<Rightarrow> int \<Rightarrow> session \<Rightarrow> efp_err + session" where
  "stage_capabilities decl_io decl_svc s =
     (if \<not> (0 \<le> decl_io \<and> decl_io \<le> 0xFFFFFFFF) \<or> \<not> (0 \<le> decl_svc \<and> decl_svc \<le> 0xFFFFFFFF)
      then Inl BitmapRange
      else Inr (s_write R_CAP_DECL_SVC decl_svc (s_write R_CAP_DECL_IO decl_io s)))"

definition s_cmd :: "int \<Rightarrow> session \<Rightarrow> efp_err + session" where
  "s_cmd code s =
     (if \<not> (0 \<le> code \<and> code \<le> EFP_CMD_RUN_PACKED) then Inl (BadCommandCode code)
      else Inr (s_write R_EFP_CMD code (poll_status EFP_STATUS_BUSY 0 s)))"

definition s_stream :: "int list \<Rightarrow> session \<Rightarrow> efp_err + session" where
  "s_stream words s =
     (if words = [] then Inl NoFrameWords else Inr (s @ [OpStream R_OCC_WDATA words]))"

section \<open>Composite sessions\<close>

definition cmd_and_wait :: "int \<Rightarrow> int \<Rightarrow> bool \<Rightarrow> session \<Rightarrow> efp_err + session" where
  "cmd_and_wait code expect_state expect_done s =
     res_bind (s_cmd code s) (\<lambda>s.
     let s = poll_status (EFP_STATUS_STATE_MASK OR EFP_STATUS_BUSY) expect_state s;
         want = expect_state OR (if expect_done then EFP_STATUS_DONE else 0);
         s = s_read R_EFP_STATUS EFP_STATUS_ALL want s
     in Inr (s_read R_EFP_ERR 0xFF EFP_ERR_NONE s))"

text \<open>The final operations of every deploy: wait for RUNNING, check status and error.\<close>

definition expect_running :: "session \<Rightarrow> session" where
  "expect_running s =
     (let s = poll_status (EFP_STATUS_STATE_MASK OR EFP_STATUS_BUSY) EFP_S_RUNNING s;
          s = s_read R_EFP_STATUS EFP_STATUS_ALL (EFP_S_RUNNING OR EFP_STATUS_DONE) s
      in s_read R_EFP_ERR 0xFF EFP_ERR_NONE s)"

definition s_run ::
  "int list \<Rightarrow> int list \<Rightarrow> int list \<Rightarrow> int \<Rightarrow> int \<Rightarrow> int \<Rightarrow> session \<Rightarrow> efp_err + session" where
  "s_run digest32 sig64 frame_words region decl_io decl_svc s =
     res_bind (stage_image digest32 sig64 (int (length frame_words)) region s) (\<lambda>s.
     res_bind (stage_capabilities decl_io decl_svc s) (\<lambda>s.
     res_bind (s_cmd EFP_CMD_RUN s) (\<lambda>s.
     res_bind (s_stream frame_words (poll_status EFP_STATUS_STATE_MASK EFP_S_LOAD s)) (\<lambda>s.
     Inr (expect_running s)))))"

text \<open>The per-column handshake of run_packed.\<close>

definition s_column :: "nat \<Rightarrow> int list \<Rightarrow> session \<Rightarrow> efp_err + session" where
  "s_column c col_words s =
     (let s = (if c > 0
               then s_poll R_OCC_STATUS OCC_STATUS_DONE_FLAG_MASK 0
                      (s_poll R_OCC_STATUS OCC_STATUS_DONE_FLAG_MASK OCC_STATUS_DONE_FLAG_MASK s)
               else s)
      in s_stream col_words (poll_status EFP_STATUS_STATE_MASK EFP_S_LOAD s))"

fun s_columns :: "nat \<Rightarrow> int list list \<Rightarrow> session \<Rightarrow> efp_err + session" where
  "s_columns c [] s = Inr s"
| "s_columns c (col # cols) s = res_bind (s_column c col s) (s_columns (Suc c) cols)"

definition s_run_packed ::
  "int list \<Rightarrow> int list \<Rightarrow> int list list \<Rightarrow> int \<Rightarrow> int \<Rightarrow> int \<Rightarrow> session \<Rightarrow> efp_err + session" where
  "s_run_packed digest32 sig64 columns region decl_io decl_svc s =
     (if columns = [] then Inl NoColumns
      else let words = length (hd columns) in
      res_bind (res_iter (\<lambda>(c, col). require (length col = words) (ColumnLength c (length col)))
                  (enumerate 0 columns)) (\<lambda>_.
      res_bind (require (0 < length columns \<and> length columns \<le> 0xFF)
                  (ColumnCountRange (length columns))) (\<lambda>_.
      res_bind (stage_image digest32 sig64 (int words) region s) (\<lambda>s.
      res_bind (stage_capabilities decl_io decl_svc
                  (s_write R_EFP_IMG_COLS (int (length columns)) s)) (\<lambda>s.
      res_bind (s_cmd EFP_CMD_RUN_PACKED s) (\<lambda>s.
      res_bind (s_columns 0 columns s) (\<lambda>s.
      Inr (expect_running s))))))))"

definition s_stop :: "int \<Rightarrow> session \<Rightarrow> efp_err + session" where
  "s_stop region s =
     (if \<not> (0 \<le> region \<and> region < EFP_REGION_AUTO) then Inl (RegionRange region)
      else cmd_and_wait EFP_CMD_STOP EFP_S_STOPPED False (s_write R_EFP_REGION region s))"

definition s_restart :: "int list \<Rightarrow> session \<Rightarrow> efp_err + session" where
  "s_restart frame_words s =
     res_bind (s_cmd EFP_CMD_RESTART s) (\<lambda>s.
     res_bind (s_stream frame_words (poll_status EFP_STATUS_STATE_MASK EFP_S_LOAD s)) (\<lambda>s.
     Inr (expect_running s)))"

definition s_abort :: "session \<Rightarrow> efp_err + session" where
  "s_abort s = cmd_and_wait EFP_CMD_ABORT EFP_S_IDLE False s"

definition s_ps :: "nat \<Rightarrow> session \<Rightarrow> session" where
  "s_ps num_regions s =
     foldl (\<lambda>s i. s_read R_REGION_INFO 0 0 (s_write R_REGION_SEL (int i) s))
       (s_read R_EFP_ERR 0 0 (s_read R_EFP_STATUS 0 0 s)) [0..<num_regions]"

end
