(* ===== verification/Efp_Daemon.thy ===== *)
theory Efp_Daemon
  imports Efp_Wire
begin

text \<open>
  \<open>EfpDaemonModel\<close> and \<open>execute_ops\<close> of efp_client.py: the daemon's EFP register block, its
  command state machine, and the execution of an operation list against it. A dict is a
  map; the attributes the source creates late (\<open>_cmd\<close>, \<open>_run_region\<close>) are fields whose
  initial value is the default the code reads, or is never read. The Ed25519 primitive is
  the argument \<open>ed\<close>.
\<close>

section \<open>The state\<close>

abbreviation (input) REGION_FREE :: int where "REGION_FREE \<equiv> 0"
abbreviation (input) REGION_RUNNING :: int where "REGION_RUNNING \<equiv> 1"

record daemon =
  d_trusted_pk :: "int list option"
  d_num_regions :: nat
  d_has_bmc :: bool
  d_platform_id :: int
  d_region_infos :: "int \<rightharpoonup> int"
  d_regs :: "int \<rightharpoonup> int"
  d_state :: int
  d_busy :: bool
  d_done :: int
  d_err :: int
  d_regions :: "int list"
  d_region_words :: "int list"
  d_last_region :: nat
  d_last_words :: int
  d_staged :: bool
  d_streamed :: int
  d_squelch :: bool
  d_occ_done_flag :: bool
  d_cols :: int
  d_col :: int
  d_occ_frame_addr :: int
  d_col_addrs :: "int list"
  d_cmd :: int
  d_run_region :: nat

definition daemon_init :: "int list option \<Rightarrow> nat \<Rightarrow> bool \<Rightarrow> daemon" where
  "daemon_init pk n bmc =
     \<lparr>d_trusted_pk = pk, d_num_regions = n, d_has_bmc = bmc, d_platform_id = 0,
      d_region_infos = [0 \<mapsto> 0x02020010, 1 \<mapsto> 0x02020010], d_regs = Map.empty,
      d_state = EFP_S_IDLE, d_busy = False, d_done = 0, d_err = EFP_ERR_NONE,
      d_regions = replicate n REGION_FREE, d_region_words = replicate n 0,
      d_last_region = 0, d_last_words = 0, d_staged = False, d_streamed = 0,
      d_squelch = False, d_occ_done_flag = False, d_cols = 0, d_col = 0,
      d_occ_frame_addr = 0, d_col_addrs = [], d_cmd = EFP_CMD_NOP, d_run_region = 0\<rparr>"

text \<open>\<open>self._regs.get(addr, 0)\<close>\<close>

definition reg :: "daemon \<Rightarrow> int \<Rightarrow> int" where
  "reg m addr = (case d_regs m addr of None \<Rightarrow> 0 | Some v \<Rightarrow> v)"

definition set_reg :: "int \<Rightarrow> int \<Rightarrow> daemon \<Rightarrow> daemon" where
  "set_reg addr v m = m\<lparr>d_regs := (d_regs m)(addr \<mapsto> v)\<rparr>"

section \<open>The register face\<close>

definition d_read :: "daemon \<Rightarrow> int \<Rightarrow> int" where
  "d_read m addr =
     (if addr = R_MAGIC then EMRI_MAGIC
      else if addr = R_CAPABILITIES then (if d_has_bmc m then push_bit CAPB_HAS_BMC 1 else 0)
      else if addr = R_PLATFORM_ID then d_platform_id m
      else if addr = R_HEALTH_STATUS
        then sum_list (map (\<lambda>i. push_bit (8 * i) 1) [0..<d_num_regions m])
      else if addr = R_REGION_INFO
        then (case d_region_infos m (reg m R_REGION_SEL AND 0xFF) of None \<Rightarrow> 0 | Some v \<Rightarrow> v)
      else if addr = R_EFP_STATUS
        then d_state m OR push_bit 4 (of_bool (d_busy m)) OR push_bit 5 (d_done m)
      else if addr = R_EFP_ERR then d_err m
      else if addr = R_OCC_STATUS then push_bit 3 (of_bool (d_occ_done_flag m))
      else if addr = R_NUM_REGIONS then int (d_num_regions m)
      else reg m addr)"

definition d_finish :: "int \<Rightarrow> int \<Rightarrow> daemon \<Rightarrow> daemon" where
  "d_finish state dn m =
     (let m = m\<lparr>d_state := state, d_done := dn\<rparr>;
          m = (if d_squelch m \<and> d_err m = EFP_ERR_NONE then m\<lparr>d_err := EFP_ERR_BAD_CMD\<rparr> else m)
      in m\<lparr>d_busy := False\<rparr>)"

definition d_fail :: "int \<Rightarrow> daemon \<Rightarrow> daemon" where
  "d_fail err m =
     (let m = m\<lparr>d_err := err, d_state := EFP_S_ERROR\<rparr> in d_finish EFP_S_ERROR (d_done m) m)"

definition d_push :: "int \<Rightarrow> daemon \<Rightarrow> efp_err + daemon" where
  "d_push data m =
     (if d_state m \<noteq> EFP_S_LOAD \<or> \<not> d_busy m then Inl NotInLoad
      else Inr (m\<lparr>d_streamed := d_streamed m + 1\<rparr>))"

definition d_accept :: "int \<Rightarrow> daemon \<Rightarrow> daemon" where
  "d_accept code m =
     (let m = m\<lparr>d_busy := True, d_done := 0, d_err := EFP_ERR_NONE, d_squelch := False,
                d_cmd := code\<rparr>
      in if code = EFP_CMD_RUN \<or> code = EFP_CMD_RUN_PACKED then m\<lparr>d_state := EFP_S_VERIFY\<rparr>
         else if code = EFP_CMD_STOP then m\<lparr>d_state := EFP_S_IDLE\<rparr>
         else if code = EFP_CMD_RESTART \<or> code = EFP_CMD_ABORT then m\<lparr>d_state := EFP_S_IDLE\<rparr>
         else d_fail EFP_ERR_BAD_CMD m)"

definition d_write :: "int \<Rightarrow> int \<Rightarrow> daemon \<Rightarrow> efp_err + daemon" where
  "d_write addr data m =
     (if addr = R_EFP_CMD then
        let code = data AND 0xFF in
        if code = EFP_CMD_NOP then Inr m
        else if d_busy m then Inr (m\<lparr>d_squelch := True\<rparr>)
        else Inr (d_accept code m)
      else if addr = R_OCC_WDATA then d_push data m
      else Inr (set_reg addr (data AND 0xFFFFFFFF) m))"

section \<open>Staged metadata\<close>

definition staged_blob :: "int \<Rightarrow> nat \<Rightarrow> daemon \<Rightarrow> int list" where
  "staged_blob base nwords m =
     concat (map (\<lambda>i. to_bytes_little (reg m (base + int i))) [0..<nwords])"

definition arm_column_frame :: "nat \<Rightarrow> int \<Rightarrow> int \<Rightarrow> daemon \<Rightarrow> daemon" where
  "arm_column_frame region col words m =
     (let addr = column_frame_base (int region) col;
          m = m\<lparr>d_occ_frame_addr := addr, d_col_addrs := d_col_addrs m @ [addr]\<rparr>;
          m = set_reg R_OCC_FRAME_ADDR addr m
      in set_reg R_OCC_WORD_COUNT (words AND 0xFFFF) m)"

definition verify_staged :: "ed25519 \<Rightarrow> daemon \<Rightarrow> bool" where
  "verify_staged ed m =
     (let digest = staged_blob R_IMG_DIGEST IMG_DIGEST_WORDS m;
          sig = staged_blob R_IMG_SIG IMG_SIG_WORDS m
      in if sig = replicate (4 * IMG_SIG_WORDS) 0 then False
         else case d_trusted_pk m of None \<Rightarrow> True | Some pk \<Rightarrow> verify_raw_ed25519 ed pk digest sig)"

text \<open>The first free region for auto allocation; the selected region if it is free.
  \<open>None\<close> is the source's -1.\<close>

definition d_alloc :: "int \<Rightarrow> daemon \<Rightarrow> nat option" where
  "d_alloc sel m =
     (if sel = EFP_REGION_AUTO
      then find (\<lambda>i. d_regions m ! i = REGION_FREE) [0..<d_num_regions m]
      else if int (d_num_regions m) \<le> sel \<or> d_regions m ! nat sel \<noteq> REGION_FREE then None
      else Some (nat sel))"

section \<open>The state machine\<close>

text \<open>The staged word and column counts, and the common end of a deploy.\<close>

definition img_words :: "daemon \<Rightarrow> int" where
  "img_words m = reg m R_EFP_IMG_WORDS AND 0xFFFF"

definition img_cols :: "daemon \<Rightarrow> int" where
  "img_cols m = reg m R_EFP_IMG_COLS AND 0xFF"

definition region_sel :: "daemon \<Rightarrow> int" where
  "region_sel m = reg m R_EFP_REGION AND 0xFF"

definition set_running :: "int \<Rightarrow> daemon \<Rightarrow> daemon" where
  "set_running words m =
     (let region = d_run_region m
      in d_finish EFP_S_RUNNING 1
           (m\<lparr>d_regions := (d_regions m)[region := REGION_RUNNING],
              d_region_words := (d_region_words m)[region := words],
              d_last_region := region, d_last_words := words, d_staged := True\<rparr>))"

definition tick_run :: "ed25519 \<Rightarrow> int \<Rightarrow> daemon \<Rightarrow> daemon" where
  "tick_run ed sel m =
     (let words = img_words m in
      if d_state m = EFP_S_VERIFY then
        (if words = 0 then d_fail EFP_ERR_IMG_LEN_MISMATCH m
         else if \<not> verify_staged ed m then d_fail EFP_ERR_BAD_SIG m
         else m\<lparr>d_state := EFP_S_ALLOC\<rparr>)
      else if d_state m = EFP_S_ALLOC then
        (case d_alloc sel m of
           None \<Rightarrow> d_fail EFP_ERR_REGION_FULL m
         | Some region \<Rightarrow> m\<lparr>d_run_region := region, d_state := EFP_S_BLANK\<rparr>)
      else if d_state m = EFP_S_BLANK then m\<lparr>d_streamed := 0, d_state := EFP_S_LOAD\<rparr>
      else if d_state m = EFP_S_LOAD then
        (if words \<le> d_streamed m then m\<lparr>d_state := EFP_S_READBACK\<rparr> else m)
      else if d_state m = EFP_S_READBACK then set_running words m
      else m)"

definition tick_packed_blank :: "int \<Rightarrow> daemon \<Rightarrow> daemon" where
  "tick_packed_blank words m =
     (let m = arm_column_frame (d_run_region m) (d_col m) words m;
          m = m\<lparr>d_occ_done_flag := True, d_col := d_col m + 1\<rparr>
      in if d_cols m \<le> d_col m then
           let m = m\<lparr>d_col := 0, d_streamed := 0, d_occ_done_flag := False\<rparr>;
               m = arm_column_frame (d_run_region m) (d_col m) words m
           in m\<lparr>d_state := EFP_S_LOAD\<rparr>
         else m)"

definition tick_packed_load :: "int \<Rightarrow> daemon \<Rightarrow> daemon" where
  "tick_packed_load words m =
     (if d_occ_done_flag m then
        let m = m\<lparr>d_col := d_col m + 1\<rparr>
        in if d_cols m \<le> d_col m then m\<lparr>d_col := 0, d_state := EFP_S_READBACK\<rparr>
           else let m = m\<lparr>d_occ_done_flag := False\<rparr>
                in arm_column_frame (d_run_region m) (d_col m) words m
      else if (d_col m + 1) * words \<le> d_streamed m then m\<lparr>d_occ_done_flag := True\<rparr>
      else m)"

definition tick_packed_readback :: "int \<Rightarrow> daemon \<Rightarrow> daemon" where
  "tick_packed_readback words m =
     (let m = arm_column_frame (d_run_region m) (d_col m) words m;
          m = m\<lparr>d_occ_done_flag := True, d_col := d_col m + 1\<rparr>
      in if d_cols m \<le> d_col m then set_running words m else m)"

definition tick_run_packed :: "ed25519 \<Rightarrow> int \<Rightarrow> daemon \<Rightarrow> daemon" where
  "tick_run_packed ed sel m =
     (let words = img_words m; cols = img_cols m in
      if d_state m = EFP_S_VERIFY then
        (if words = 0 \<or> cols = 0 then d_fail EFP_ERR_IMG_LEN_MISMATCH m
         else if \<not> verify_staged ed m then d_fail EFP_ERR_BAD_SIG m
         else m\<lparr>d_state := EFP_S_ALLOC\<rparr>)
      else if d_state m = EFP_S_ALLOC then
        (case d_alloc sel m of
           None \<Rightarrow> d_fail EFP_ERR_REGION_FULL m
         | Some region \<Rightarrow>
             if int (d_num_regions m) < int region + cols then d_fail EFP_ERR_IMG_LEN_MISMATCH m
             else m\<lparr>d_run_region := region, d_cols := cols, d_col := 0, d_col_addrs := [],
                    d_state := EFP_S_BLANK\<rparr>)
      else if d_state m = EFP_S_BLANK then tick_packed_blank words m
      else if d_state m = EFP_S_LOAD then tick_packed_load words m
      else if d_state m = EFP_S_READBACK then tick_packed_readback words m
      else m)"

definition free_region :: "nat \<Rightarrow> daemon \<Rightarrow> daemon" where
  "free_region r m =
     m\<lparr>d_regions := (d_regions m)[r := REGION_FREE], d_region_words := (d_region_words m)[r := 0]\<rparr>"

definition tick_stop :: "daemon \<Rightarrow> daemon" where
  "tick_stop m =
     (let sel = region_sel m in
      if int (d_num_regions m) \<le> sel then d_fail EFP_ERR_BAD_CMD m
      else if d_state m = EFP_S_IDLE then m\<lparr>d_state := EFP_S_BLANK\<rparr>
      else d_finish EFP_S_STOPPED 0 (free_region (nat sel) m))"

definition tick_restart :: "daemon \<Rightarrow> daemon" where
  "tick_restart m =
     (if \<not> d_staged m then d_fail EFP_ERR_BAD_CMD m
      else let region = d_last_region m in
        if d_state m = EFP_S_IDLE then (free_region region m)\<lparr>d_state := EFP_S_BLANK\<rparr>
        else if d_state m = EFP_S_BLANK then
          (if img_words m \<noteq> d_last_words m then d_fail EFP_ERR_IMG_LEN_MISMATCH m
           else set_reg R_EFP_REGION (int region)
                  (m\<lparr>d_state := EFP_S_VERIFY, d_cmd := EFP_CMD_RUN\<rparr>))
        else m)"

definition tick_abort :: "daemon \<Rightarrow> daemon" where
  "tick_abort m =
     d_finish EFP_S_IDLE 0 (foldl (\<lambda>m i. free_region i m) m [0..<d_num_regions m])"

definition d_tick :: "ed25519 \<Rightarrow> daemon \<Rightarrow> daemon" where
  "d_tick ed m =
     (if \<not> d_busy m then m
      else if d_cmd m = EFP_CMD_RUN then tick_run ed (region_sel m) m
      else if d_cmd m = EFP_CMD_RUN_PACKED then tick_run_packed ed (region_sel m) m
      else if d_cmd m = EFP_CMD_STOP then tick_stop m
      else if d_cmd m = EFP_CMD_RESTART then tick_restart m
      else if d_cmd m = EFP_CMD_ABORT then tick_abort m
      else m)"

section \<open>Executing an operation list\<close>

text \<open>The outcome is the values read, or the raised error, with the state the daemon is
  left in; a raise stops the list where it happens.\<close>

fun exec_stream :: "int \<Rightarrow> int list \<Rightarrow> daemon \<Rightarrow> (efp_err + unit) \<times> daemon" where
  "exec_stream addr [] m = (Inr (), m)"
| "exec_stream addr (w # ws) m =
     (case d_write addr w m of Inl e \<Rightarrow> (Inl e, m) | Inr m' \<Rightarrow> exec_stream addr ws m')"

fun exec_poll :: "ed25519 \<Rightarrow> nat \<Rightarrow> int \<Rightarrow> int \<Rightarrow> int \<Rightarrow> daemon \<Rightarrow> (efp_err + unit) \<times> daemon" where
  "exec_poll ed 0 addr msk v m = (Inl (PollTimeout addr msk v), m)"
| "exec_poll ed (Suc n) addr msk v m =
     (if d_read m addr AND msk = v then (Inr (), m) else exec_poll ed n addr msk v (d_tick ed m))"

definition exec_op :: "ed25519 \<Rightarrow> nat \<Rightarrow> op \<Rightarrow> daemon \<Rightarrow> (efp_err + int list) \<times> daemon" where
  "exec_op ed limit p m =
     (case p of
        OpWrite addr data \<Rightarrow>
          (case d_write addr data m of Inl e \<Rightarrow> (Inl e, m) | Inr m' \<Rightarrow> (Inr [], m'))
      | OpStream addr words \<Rightarrow>
          (case exec_stream addr words m of (Inl e, m') \<Rightarrow> (Inl e, m') | (Inr _, m') \<Rightarrow> (Inr [], m'))
      | OpRead addr msk v \<Rightarrow>
          (let x = d_read m addr
           in if msk \<noteq> 0 \<and> x AND msk \<noteq> v then (Inl (ReadCheck addr x msk v), m) else (Inr [x], m))
      | OpPoll addr msk v \<Rightarrow>
          (case exec_poll ed limit addr msk v m of
             (Inl e, m') \<Rightarrow> (Inl e, m') | (Inr _, m') \<Rightarrow> (Inr [], m')))"

fun execute_ops :: "ed25519 \<Rightarrow> nat \<Rightarrow> op list \<Rightarrow> daemon \<Rightarrow> (efp_err + int list) \<times> daemon" where
  "execute_ops ed limit [] m = (Inr [], m)"
| "execute_ops ed limit (p # ps) m =
     (case exec_op ed limit p m of
        (Inl e, m') \<Rightarrow> (Inl e, m')
      | (Inr xs, m') \<Rightarrow>
          (case execute_ops ed limit ps m' of
             (Inl e, m'') \<Rightarrow> (Inl e, m'') | (Inr ys, m'') \<Rightarrow> (Inr (xs @ ys), m'')))"

end
