(* ===== verification/Efp_Lemmas.thy ===== *)
theory Efp_Lemmas
  imports Efp_Session Efp_Daemon
begin

text \<open>
  Facts about the EFP client shared by its properties: byte blobs and words, the frame
  addresses, what a list of register writes does to the daemon, and how polls and streams
  run.
\<close>

section \<open>Blobs and words\<close>

definition bytes_ok :: "int list \<Rightarrow> bool" where
  "bytes_ok bs = list_all (\<lambda>b. 0 \<le> b \<and> b < 256) bs"

lemma bytes_ok_simps [simp]:
  "bytes_ok []" "bytes_ok (b # bs) \<longleftrightarrow> 0 \<le> b \<and> b < 256 \<and> bytes_ok bs"
  "bytes_ok (xs @ ys) \<longleftrightarrow> bytes_ok xs \<and> bytes_ok ys"
  by (auto simp: bytes_ok_def)

lemma byte_of: "drop_bit s w AND 0xFF = (w div 2 ^ s) mod (256 :: int)"
  by (simp add: and_255 take_bit_eq_mod drop_bit_eq_div)

lemma low_byte: "0 \<le> a \<Longrightarrow> a < 256 \<Longrightarrow> (a + 256 * x) mod 256 = (a :: int) \<and> (a + 256 * x) div 256 = x"
  by simp

lemma word4_bytes:
  assumes "0 \<le> a" "a < 256" "0 \<le> b" "b < 256" "0 \<le> c" "c < 256" "0 \<le> d" "d < (256 :: int)"
  shows "to_bytes_little (from_bytes_little [a, b, c, d]) = [a, b, c, d]"
    and "0 \<le> from_bytes_little [a, b, c, d] \<and> from_bytes_little [a, b, c, d] < 2 ^ 32"
proof -
  let ?w = "a + 256 * (b + 256 * (c + 256 * d))"
  have d1: "?w div 256 = b + 256 * (c + 256 * d)" and m1: "?w mod 256 = a"
    using low_byte assms(1,2) by blast+
  have d2: "?w div 65536 = c + 256 * d"
  proof -
    have "?w div (256 * 256) = ?w div 256 div 256" by (rule zdiv_zmult2_eq) simp
    also have "\<dots> = c + 256 * d" using low_byte assms(3,4) d1 by presburger
    finally show ?thesis by simp
  qed
  have d3: "?w div 16777216 = d"
  proof -
    have "?w div (65536 * 256) = ?w div 65536 div 256" by (rule zdiv_zmult2_eq) simp
    also have "\<dots> = d" using low_byte assms(5,6) d2 by presburger
    finally show ?thesis by simp
  qed
  show "to_bytes_little (from_bytes_little [a, b, c, d]) = [a, b, c, d]"
  proof -
    have "from_bytes_little [a, b, c, d] = ?w" by simp
    moreover have "to_bytes_little ?w = [?w mod 256, ?w div 256 mod 256, ?w div 65536 mod 256,
        ?w div 16777216 mod 256]"
      unfolding to_bytes_little_def byte_of by simp
    moreover have "(b + 256 * (c + 256 * d)) mod 256 = b" "(c + 256 * d) mod 256 = c" "d mod 256 = d"
      using low_byte assms by (blast, blast, simp)
    ultimately show ?thesis using m1 d1 d2 d3 by presburger
  qed
  show "0 \<le> from_bytes_little [a, b, c, d] \<and> from_bytes_little [a, b, c, d] < 2 ^ 32"
    using assms by simp
qed

definition words_of :: "int list \<Rightarrow> int list" where
  "words_of blob = map (\<lambda>i. from_bytes_little (take 4 (drop (4 * i) blob))) [0..<length blob div 4]"

lemma words_of_Nil [simp]: "words_of [] = []"
  by (simp add: words_of_def)

lemma words_of_step:
  "words_of (a # b # c # d # bs) = from_bytes_little [a, b, c, d] # words_of bs"
proof -
  have "[0..<Suc n] = 0 # map Suc [0..<n]" for n by (simp add: upt_conv_Cons map_Suc_upt del: upt_Suc)
  moreover have "length (a # b # c # d # bs) div 4 = Suc (length bs div 4)" by simp
  moreover have "drop (4 + k) (a # b # c # d # bs) = drop k bs" for k
    by (simp add: drop_drop [symmetric] add.commute [of 4] del: drop_drop)
  ultimately show ?thesis by (simp add: words_of_def del: upt_Suc)
qed

lemma length_words_of [simp]: "length (words_of blob) = length blob div 4"
  by (simp add: words_of_def)

lemma words_from_bytes_Inr:
  "words_from_bytes blob = Inr ws \<longleftrightarrow> 4 dvd length blob \<and> ws = words_of blob"
  by (auto simp: words_from_bytes_def words_of_def dvd_eq_mod_eq_0)

fun by_four :: "'a list \<Rightarrow> bool" where
  "by_four [] = True"
| "by_four (a # b # c # d # bs) = by_four bs"
| "by_four _ = True"

lemma words_of_bytes:
  "bytes_ok blob \<Longrightarrow> 4 dvd length blob \<Longrightarrow>
     concat (map to_bytes_little (words_of blob)) = blob
     \<and> list_all (\<lambda>w. 0 \<le> w \<and> w < 2 ^ 32) (words_of blob)"
proof (induction blob rule: by_four.induct)
  case (2 a b c d bs)
  then have "4 dvd length bs" by (simp add: dvd_eq_mod_eq_0)
  with 2 show ?case using word4_bytes [of a b c d] by (simp add: words_of_step)
qed (auto simp: dvd_eq_mod_eq_0)

section \<open>Register writes\<close>

text \<open>Writes that only store: neither the doorbell nor the OCC data port.\<close>

definition plain_writes :: "(int \<times> int) list \<Rightarrow> op list" where
  "plain_writes l = map (\<lambda>(a, d). OpWrite a d) l"

definition stores :: "(int \<times> int) list \<Rightarrow> daemon \<Rightarrow> daemon" where
  "stores l m = foldl (\<lambda>m (a, d). set_reg a (d AND 0xFFFFFFFF) m) m l"

lemma plain_writes_simps [simp]:
  "plain_writes [] = []" "plain_writes ((a, d) # l) = OpWrite a d # plain_writes l"
  "plain_writes (l @ k) = plain_writes l @ plain_writes k"
  by (simp_all add: plain_writes_def)

lemma exec_write:
  "execute_ops ed limit (OpWrite a d # ps) m =
     (case d_write a d m of Inl e \<Rightarrow> (Inl e, m) | Inr m' \<Rightarrow> execute_ops ed limit ps m')"
  by (auto simp: exec_op_def split: sum.splits prod.splits)

lemma execute_plain_writes:
  "\<forall>(a, d) \<in> set l. a \<noteq> R_EFP_CMD \<and> a \<noteq> R_OCC_WDATA \<Longrightarrow>
     execute_ops ed limit (plain_writes l @ ps) m = execute_ops ed limit ps (stores l m)"
proof (induction l arbitrary: m)
  case (Cons x l)
  obtain a d where x: "x = (a, d)" by (cases x)
  with Cons.prems have "d_write a d m = Inr (set_reg a (d AND 0xFFFFFFFF) m)"
    by (simp add: d_write_def)
  with Cons x show ?case by (simp add: exec_write stores_def del: execute_ops.simps)
qed (simp add: stores_def)

lemma stores_eq:
  "stores l m = m\<lparr>d_regs := d_regs m ++ map_of (rev (map (\<lambda>(a, d). (a, d AND 0xFFFFFFFF)) l))\<rparr>"
proof (induction l arbitrary: m)
  case (Cons x l)
  then show ?case
    by (cases x) (simp add: stores_def set_reg_def map_add_assoc fun_upd_def map_add_def fun_eq_iff split: option.splits)
qed (simp add: stores_def)

lemma reg_stores:
  assumes "distinct (map fst l)" and "(a, d) \<in> set l" and "0 \<le> d" and "d < 2 ^ 32"
  shows "reg (stores l m) a = d"
proof -
  let ?l = "map (\<lambda>(a, d). (a, d AND 0xFFFFFFFF)) l"
  have "d AND 0xFFFFFFFF = d"
    using assms(3,4) by (simp add: and_FFFFFFFF_take take_bit_int_eq_self)
  with assms(2) have "(a, d) \<in> set ?l" by force
  moreover have "distinct (map fst ?l)" using assms(1) by (simp add: o_def case_prod_unfold)
  ultimately have "map_of (rev ?l) a = Some d"
    by (intro map_of_is_SomeI) (simp_all only: rev_map [symmetric] distinct_rev set_rev)
  then show ?thesis by (simp add: stores_eq reg_def map_add_Some_iff)
qed

lemma stores_other:
  "a \<notin> fst ` set l \<Longrightarrow> reg (stores l m) a = reg m a"
proof (induction l arbitrary: m)
  case (Cons x l)
  then show ?case by (cases x) (auto simp: stores_def set_reg_def reg_def)
qed (simp add: stores_def)

lemma stores_fields [simp]:
  "d_trusted_pk (stores l m) = d_trusted_pk m" "d_num_regions (stores l m) = d_num_regions m"
  "d_state (stores l m) = d_state m" "d_busy (stores l m) = d_busy m"
  "d_regions (stores l m) = d_regions m" "d_region_words (stores l m) = d_region_words m"
  "d_squelch (stores l m) = d_squelch m" "d_done (stores l m) = d_done m"
  "d_err (stores l m) = d_err m" "d_staged (stores l m) = d_staged m"
  "d_last_region (stores l m) = d_last_region m" "d_last_words (stores l m) = d_last_words m"
  by (simp_all add: stores_eq)

lemma d_alloc_stores [simp]: "d_alloc sel (stores l m) = d_alloc sel m"
  by (simp add: d_alloc_def)

section \<open>The staging sequence\<close>

text \<open>The register writes of \<open>stage_image\<close> and of \<open>stage_capabilities\<close>.\<close>

definition window_writes :: "int \<Rightarrow> int list \<Rightarrow> (int \<times> int) list" where
  "window_writes base ws = map (\<lambda>(i, w). (base + int i, w)) (enumerate 0 ws)"

definition image_writes :: "int list \<Rightarrow> int list \<Rightarrow> int \<Rightarrow> int \<Rightarrow> (int \<times> int) list" where
  "image_writes digest32 sig64 words region =
     window_writes R_IMG_DIGEST (words_of digest32) @ window_writes R_IMG_SIG (words_of sig64)
     @ [(R_EFP_IMG_WORDS, words), (R_EFP_REGION, region)]"

definition cap_writes :: "int \<Rightarrow> int \<Rightarrow> (int \<times> int) list" where
  "cap_writes decl_io decl_svc = [(R_CAP_DECL_IO, decl_io), (R_CAP_DECL_SVC, decl_svc)]"

lemma s_writes_eq: "s_writes base ws s = s @ plain_writes (window_writes base ws)"
proof -
  have "foldl (\<lambda>s (i, w). s_write (base + int i) w s) s xs
      = s @ plain_writes (map (\<lambda>(i, w). (base + int i, w)) xs)" for xs
    by (induction xs arbitrary: s) (auto simp: s_write_def)
  then show ?thesis by (simp add: s_writes_def window_writes_def)
qed

lemma stage_image_Inr:
  "stage_image digest32 sig64 words region s = Inr t \<longleftrightarrow>
     length digest32 = 32 \<and> length sig64 = 64 \<and> 0 < words \<and> words \<le> 0xFFFF
     \<and> 0 \<le> region \<and> region \<le> 0xFF
     \<and> t = s @ plain_writes (image_writes digest32 sig64 words region)"
  by (auto simp: stage_image_def res_simps words_from_bytes_Inr Let_def s_writes_eq s_write_def
      image_writes_def)

lemma stage_capabilities_Inr:
  "stage_capabilities decl_io decl_svc s = Inr t \<longleftrightarrow>
     0 \<le> decl_io \<and> decl_io < 2 ^ 32 \<and> 0 \<le> decl_svc \<and> decl_svc < 2 ^ 32
     \<and> t = s @ plain_writes (cap_writes decl_io decl_svc)"
  by (auto simp: stage_capabilities_def s_write_def cap_writes_def)

lemma fst_window_writes: "map fst (window_writes base ws) = map (\<lambda>i. base + int i) [0..<length ws]"
proof -
  have "map fst (map (\<lambda>(i, w). (base + int i, w)) xs) = map (\<lambda>i. base + int i) (map fst xs)"
    for xs :: "(nat \<times> int) list" by (induction xs) auto
  from this [of "enumerate 0 ws"] show ?thesis by (simp only: window_writes_def map_fst_enumerate add_0)
qed

lemma in_window_writes: "i < length ws \<Longrightarrow> (base + int i, ws ! i) \<in> set (window_writes base ws)"
  by (force simp: window_writes_def in_set_enumerate_eq)

lemma window_addresses: "a \<in> fst ` set (window_writes base ws) \<longleftrightarrow> base \<le> a \<and> a < base + int (length ws)"
proof -
  have "fst ` set (window_writes base ws) = set (map (\<lambda>i. base + int i) [0..<length ws])"
    by (simp only: fst_window_writes [symmetric] set_map)
  moreover have "(\<exists>i < n. a = base + int i) \<longleftrightarrow> base \<le> a \<and> a < base + int n" for n
    by (metis add_left_mono add_less_cancel_left le_add_same_cancel1 nonneg_int_cases of_nat_0_le_iff
        of_nat_less_iff zle_iff_zadd)
  moreover have "a \<in> set (map (\<lambda>i. base + int i) [0..<n]) \<longleftrightarrow> (\<exists>i < n. a = base + int i)" for n
    by (simp add: image_iff Bex_def)
  ultimately show ?thesis by blast
qed

lemma image_writes_distinct:
  assumes "length digest32 = 32" and "length sig64 = 64"
  shows "distinct (map fst (image_writes digest32 sig64 words region))"
proof -
  have "map fst (image_writes digest32 sig64 words region)
      = map (\<lambda>i. 24 + int i) [0..<8] @ map (\<lambda>i. 80 + int i) [0..<16] @ [0x15, 0x14]"
    using assms by (simp add: image_writes_def fst_window_writes del: upt_Suc)
  moreover have "(\<lambda>x. 24 + int x) ` {0..<8} \<inter> (\<lambda>x. 80 + int x) ` {0..<16} = {}" by auto
  ultimately show ?thesis by (auto simp: distinct_map inj_on_def image_iff)
qed

text \<open>A staged window reads back as the bytes it was built from.\<close>

lemma staged_blob_eq:
  assumes "\<forall>i < n. reg m (base + int i) = ws ! i" and "length ws = n"
  shows "staged_blob base n m = concat (map to_bytes_little ws)"
proof -
  have "map (\<lambda>i. to_bytes_little (reg m (base + int i))) [0..<n] = map to_bytes_little ws"
    using assms by (intro nth_equalityI) auto
  then show ?thesis by (simp add: staged_blob_def)
qed

lemma staged_blob_window:
  assumes "distinct (map fst l)" and "set (window_writes base (words_of blob)) \<subseteq> set l"
    and "bytes_ok blob" and "length blob = 4 * n"
  shows "staged_blob base n (stores l m) = blob"
proof -
  have "reg (stores l m) (base + int i) = words_of blob ! i" if "i < n" for i
  proof (rule reg_stores [OF assms(1)])
    have len: "i < length (words_of blob)" using that assms(4) by simp
    then show "(base + int i, words_of blob ! i) \<in> set l"
      using in_window_writes assms(2) by blast
    show "0 \<le> words_of blob ! i" "words_of blob ! i < 2 ^ 32"
      using words_of_bytes [of blob] assms(3,4) len by (auto simp: list_all_length)
  qed
  then have "staged_blob base n (stores l m) = concat (map to_bytes_little (words_of blob))"
    using assms(4) by (intro staged_blob_eq) auto
  then show ?thesis using words_of_bytes [of blob] assms(3,4) by simp
qed

end
