(* ===== verification/Efp_Run.thy ===== *)
theory Efp_Run
  imports Efp_Lemmas
begin

text \<open>
  Sessions executed end to end against the daemon: what the run, stop and abort operation
  lists of \<open>EfpSession\<close> do to an idle daemon, including the refusal of a bad signature.
\<close>

section \<open>Polls, reads and streams\<close>

lemma poll_hit:
  "0 < limit \<Longrightarrow> d_read m addr AND msk = v \<Longrightarrow> exec_poll ed limit addr msk v m = (Inr (), m)"
  by (cases limit) simp_all

lemma poll_miss:
  "0 < limit \<Longrightarrow> d_read m addr AND msk \<noteq> v \<Longrightarrow>
     exec_poll ed limit addr msk v m = exec_poll ed (limit - 1) addr msk v (d_tick ed m)"
  by (cases limit) simp_all

lemma poll_never:
  assumes "d_tick ed m = m" and "d_read m addr AND msk \<noteq> v"
  shows "exec_poll ed limit addr msk v m = (Inl (PollTimeout addr msk v), m)"
  using assms by (induction limit) simp_all

lemma exec_poll_op:
  "execute_ops ed limit (OpPoll addr msk v # ps) m =
     (case exec_poll ed limit addr msk v m of
        (Inl e, m') \<Rightarrow> (Inl e, m') | (Inr _, m') \<Rightarrow> execute_ops ed limit ps m')"
  by (auto simp: exec_op_def split: sum.splits prod.splits)

lemma exec_read_op:
  "msk \<noteq> 0 \<Longrightarrow> d_read m addr AND msk = v \<Longrightarrow>
     execute_ops ed limit (OpRead addr msk v # ps) m =
       (case execute_ops ed limit ps m of
          (Inl e, m') \<Rightarrow> (Inl e, m') | (Inr ys, m') \<Rightarrow> (Inr (d_read m addr # ys), m'))"
  by (auto simp: exec_op_def split: sum.splits prod.splits)

lemma exec_stream_load:
  "d_state m = EFP_S_LOAD \<Longrightarrow> d_busy m \<Longrightarrow>
     exec_stream R_OCC_WDATA ws m = (Inr (), m\<lparr>d_streamed := d_streamed m + int (length ws)\<rparr>)"
  by (induction ws arbitrary: m) (auto simp: d_write_def d_push_def algebra_simps)

lemma exec_stream_op:
  "d_state m = EFP_S_LOAD \<Longrightarrow> d_busy m \<Longrightarrow>
     execute_ops ed limit (OpStream R_OCC_WDATA ws # ps) m
       = execute_ops ed limit ps (m\<lparr>d_streamed := d_streamed m + int (length ws)\<rparr>)"
  by (simp add: exec_op_def exec_stream_load split: sum.splits prod.splits)

text \<open>The status and error registers, and what reads depend on.\<close>

lemma read_status: "d_read m R_EFP_STATUS = d_state m OR push_bit 4 (of_bool (d_busy m)) OR push_bit 5 (d_done m)"
  and read_err: "d_read m R_EFP_ERR = d_err m"
  and read_occ: "d_read m R_OCC_STATUS = push_bit 3 (of_bool (d_occ_done_flag m))"
  by (simp_all add: d_read_def)

lemma reg_cong: "d_regs m = d_regs m' \<Longrightarrow> reg m = reg m'"
  by (simp add: reg_def fun_eq_iff)

lemma verify_staged_cong:
  "d_regs m = d_regs m' \<Longrightarrow> d_trusted_pk m = d_trusted_pk m' \<Longrightarrow>
     verify_staged ed m = verify_staged ed m'"
  unfolding verify_staged_def staged_blob_def by (drule reg_cong) (simp only:)

lemma d_alloc_cong:
  "d_regions m = d_regions m' \<Longrightarrow> d_num_regions m = d_num_regions m' \<Longrightarrow> d_alloc sel m = d_alloc sel m'"
  by (simp add: d_alloc_def)

lemma idle_status:
  assumes "\<not> d_busy m" and "d_done m \<in> {0, 1}" and "d_state m \<in> {0..15}"
  shows "d_read m R_EFP_STATUS AND 0x10 = 0"
proof -
  have "take_bit 4 (d_state m) = d_state m" using assms(3) by (simp add: take_bit_int_eq_self)
  then have "\<not> bit (d_state m) 4" by (metis bit_take_bit_iff less_irrefl)
  moreover have "\<not> bit (push_bit 5 (d_done m)) 4" by (simp add: bit_push_bit_iff_int)
  ultimately have "\<not> bit (d_read m R_EFP_STATUS) 4" by (simp add: read_status assms(1) bit_or_iff)
  then show ?thesis using and_single [of "d_read m R_EFP_STATUS" 4] by simp
qed

section \<open>The run session\<close>

text \<open>The operations after the staging writes.\<close>

definition deploy_ops :: "int list \<Rightarrow> op list" where
  "deploy_ops fw =
     [OpPoll R_EFP_STATUS 0x10 0, OpWrite R_EFP_CMD EFP_CMD_RUN,
      OpPoll R_EFP_STATUS 0x0F EFP_S_LOAD, OpStream R_OCC_WDATA fw,
      OpPoll R_EFP_STATUS 0x1F EFP_S_RUNNING, OpRead R_EFP_STATUS 0x3F 0x26,
      OpRead R_EFP_ERR 0xFF EFP_ERR_NONE]"

lemma s_run_Inr:
  "s_run digest32 sig64 fw region decl_io decl_svc [] = Inr ops \<longleftrightarrow>
     length digest32 = 32 \<and> length sig64 = 64 \<and> fw \<noteq> [] \<and> length fw \<le> 0xFFFF
     \<and> 0 \<le> region \<and> region \<le> 0xFF
     \<and> 0 \<le> decl_io \<and> decl_io < 2 ^ 32 \<and> 0 \<le> decl_svc \<and> decl_svc < 2 ^ 32
     \<and> ops = plain_writes (image_writes digest32 sig64 (int (length fw)) region
                 @ cap_writes decl_io decl_svc) @ deploy_ops fw"
  by (auto simp: s_run_def res_simps stage_image_Inr stage_capabilities_Inr s_cmd_def s_stream_def
      expect_running_def poll_status_def s_poll_def s_read_def s_write_def deploy_ops_def Let_def)

text \<open>An accepted run command, in each of its phases.\<close>

definition accepted :: "int \<Rightarrow> int \<Rightarrow> daemon \<Rightarrow> daemon" where
  "accepted code state m =
     m\<lparr>d_busy := True, d_done := 0, d_err := EFP_ERR_NONE, d_squelch := False,
       d_cmd := code, d_state := state\<rparr>"

lemma accepted_simps [simp]:
  "d_busy (accepted c s m)" "d_done (accepted c s m) = 0" "d_err (accepted c s m) = EFP_ERR_NONE"
  "\<not> d_squelch (accepted c s m)" "d_cmd (accepted c s m) = c" "d_state (accepted c s m) = s"
  "d_regs (accepted c s m) = d_regs m" "d_regions (accepted c s m) = d_regions m"
  "d_region_words (accepted c s m) = d_region_words m" "d_num_regions (accepted c s m) = d_num_regions m"
  "d_trusted_pk (accepted c s m) = d_trusted_pk m" "d_streamed (accepted c s m) = d_streamed m"
  "(accepted c s m)\<lparr>d_state := t\<rparr> = accepted c t m"
  by (simp_all add: accepted_def)

lemma doorbell_run:
  "\<not> d_busy m \<Longrightarrow> d_write R_EFP_CMD EFP_CMD_RUN m = Inr (accepted EFP_CMD_RUN EFP_S_VERIFY m)"
  by (simp add: d_write_def d_accept_def accepted_def Let_def)

lemma run_to_load:
  assumes "\<not> d_busy m" and "img_words m \<noteq> 0" and "verify_staged ed m"
    and "d_alloc (region_sel m) m = Some r" and "4 \<le> limit"
  shows "exec_poll ed limit R_EFP_STATUS 0x0F EFP_S_LOAD (accepted EFP_CMD_RUN EFP_S_VERIFY m)
    = (Inr (), (accepted EFP_CMD_RUN EFP_S_LOAD m)\<lparr>d_run_region := r, d_streamed := 0\<rparr>)"
proof -
  let ?a = "accepted EFP_CMD_RUN"
  have v: "verify_staged ed (?a EFP_S_VERIFY m)"
    using assms(3) verify_staged_cong [of "?a EFP_S_VERIFY m" m] by (simp add: accepted_def)
  have al: "d_alloc (region_sel (?a EFP_S_ALLOC m)) (?a EFP_S_ALLOC m) = Some r"
    using assms(4) d_alloc_cong [of "?a EFP_S_ALLOC m" m] by (simp add: accepted_def region_sel_def reg_def)
  have t1: "d_tick ed (?a EFP_S_VERIFY m) = ?a EFP_S_ALLOC m"
    using assms(2) v by (simp add: d_tick_def tick_run_def accepted_def img_words_def reg_def)
  have t2: "d_tick ed (?a EFP_S_ALLOC m) = (?a EFP_S_BLANK m)\<lparr>d_run_region := r\<rparr>"
    using al by (simp add: d_tick_def tick_run_def accepted_def)
  have t3: "d_tick ed ((?a EFP_S_BLANK m)\<lparr>d_run_region := r\<rparr>)
      = (?a EFP_S_LOAD m)\<lparr>d_run_region := r, d_streamed := 0\<rparr>"
    by (simp add: d_tick_def tick_run_def accepted_def)
  show ?thesis
    using assms(5)
    by (subst poll_miss, simp, simp add: read_status accepted_def, subst t1,
        subst poll_miss, simp, simp add: read_status accepted_def, subst t2,
        subst poll_miss, simp, simp add: read_status accepted_def, subst t3,
        intro poll_hit) (simp_all add: read_status accepted_def)
qed

text \<open>The state a finished deploy leaves.\<close>

definition deployed :: "int \<Rightarrow> nat \<Rightarrow> int \<Rightarrow> daemon \<Rightarrow> daemon" where
  "deployed words r n m =
     (accepted EFP_CMD_RUN EFP_S_RUNNING m)
       \<lparr>d_busy := False, d_done := 1, d_run_region := r, d_streamed := n,
        d_regions := (d_regions m)[r := REGION_RUNNING],
        d_region_words := (d_region_words m)[r := words],
        d_last_region := r, d_last_words := words, d_staged := True\<rparr>"

lemma load_ticks:
  fixes r :: nat
  assumes "img_words m = n"
  defines "l \<equiv> \<lambda>s. (accepted EFP_CMD_RUN s m)\<lparr>d_run_region := r, d_streamed := n\<rparr>"
  shows "d_tick ed (l EFP_S_LOAD) = l EFP_S_READBACK"
    and "d_tick ed (l EFP_S_READBACK) = deployed n r n m"
proof -
  have w: "img_words (l s) = n" for s
    using assms(1) by (simp add: l_def img_words_def reg_def accepted_def)
  show "d_tick ed (l EFP_S_LOAD) = l EFP_S_READBACK"
    using w unfolding l_def
    by (simp add: d_tick_def tick_run_def, simp add: accepted_def)
  show "d_tick ed (l EFP_S_READBACK) = deployed n r n m"
    using w unfolding l_def
    by (simp add: d_tick_def tick_run_def set_running_def d_finish_def Let_def,
        simp add: accepted_def deployed_def)
qed

lemma load_to_running:
  assumes "img_words m = n" and "3 \<le> limit"
  shows "exec_poll ed limit R_EFP_STATUS 0x1F EFP_S_RUNNING
      ((accepted EFP_CMD_RUN EFP_S_LOAD m)\<lparr>d_run_region := r, d_streamed := n\<rparr>)
    = (Inr (), deployed n r n m)"
  using assms(2)
  by (subst poll_miss, simp, simp add: read_status accepted_def, subst load_ticks(1) [OF assms(1)],
      subst poll_miss, simp, simp add: read_status accepted_def, subst load_ticks(2) [OF assms(1)],
      intro poll_hit) (simp_all add: read_status accepted_def deployed_def)

lemma deploy_ops_run:
  assumes idle: "\<not> d_busy m" "d_done m \<in> {0, 1}" "d_state m \<in> {0..15}"
    and words: "img_words m = int (length fw)" "fw \<noteq> []"
    and ok: "verify_staged ed m" "d_alloc (region_sel m) m = Some r" "4 \<le> limit"
  shows "execute_ops ed limit (deploy_ops fw) m
    = (Inr [0x26, 0], deployed (int (length fw)) r (int (length fw)) m)"
proof -
  let ?n = "int (length fw)"
  note b0 = idle_status [OF idle]
  let ?load = "(accepted EFP_CMD_RUN EFP_S_LOAD m)\<lparr>d_run_region := r, d_streamed := 0\<rparr>"
  have st: "d_state ?load = EFP_S_LOAD" "d_busy ?load" by (simp_all add: accepted_def)
  have "0 < limit" "3 \<le> limit" using ok(3) by simp_all
  note hit = poll_hit [OF this(1) b0] and running = load_to_running [OF words(1) this(2)]
  have "img_words m \<noteq> 0" using words by simp
  note load = run_to_load [OF idle(1) this ok(1,2,3)]
  have done1: "d_read (deployed ?n r ?n m) R_EFP_STATUS = 0x26"
    and err: "d_read (deployed ?n r ?n m) R_EFP_ERR = 0"
    by (simp_all add: read_status read_err deployed_def accepted_def)
  have str: "?load\<lparr>d_streamed := d_streamed ?load + ?n\<rparr>
      = (accepted EFP_CMD_RUN EFP_S_LOAD m)\<lparr>d_run_region := r, d_streamed := ?n\<rparr>" by simp
  have s1: "execute_ops ed limit (OpStream R_OCC_WDATA fw # ps) ?load
      = execute_ops ed limit ps ((accepted EFP_CMD_RUN EFP_S_LOAD m)\<lparr>d_run_region := r, d_streamed := ?n\<rparr>)" for ps
    using exec_stream_op [OF st] str by simp
  show ?thesis
    unfolding deploy_ops_def exec_poll_op hit exec_write doorbell_run [OF idle(1)] sum.case prod.case load s1
      running
    by (simp add: exec_read_op done1 err del: execute_ops.simps)
      (simp add: done1 err)
qed

text \<open>What an idle daemon is: not busy, a state code in its nibble and a one-bit done flag.\<close>

definition idle :: "daemon \<Rightarrow> bool" where
  "idle m \<longleftrightarrow> \<not> d_busy m \<and> d_done m \<in> {0, 1} \<and> d_state m \<in> {0..15}"

text \<open>The signature check the daemon will make of the staged bytes.\<close>

definition accepts :: "ed25519 \<Rightarrow> daemon \<Rightarrow> int list \<Rightarrow> int list \<Rightarrow> bool" where
  "accepts ed m digest32 sig64 \<longleftrightarrow> sig64 \<noteq> replicate 64 0
     \<and> (case d_trusted_pk m of None \<Rightarrow> True | Some pk \<Rightarrow> verify_raw_ed25519 ed pk digest32 sig64)"

lemma staged_image:
  fixes decl_io decl_svc :: int
  assumes "length digest32 = 32" and "length sig64 = 64" and "bytes_ok digest32" and "bytes_ok sig64"
    and "0 < n" "n \<le> 0xFFFF" and "0 \<le> region" "region \<le> 0xFF"
  defines "l \<equiv> image_writes digest32 sig64 n region @ cap_writes decl_io decl_svc"
  shows "verify_staged ed (stores l m) = accepts ed m digest32 sig64"
    and "img_words (stores l m) = n" and "region_sel (stores l m) = region"
    and "\<forall>(a, d) \<in> set l. a \<noteq> R_EFP_CMD \<and> a \<noteq> R_OCC_WDATA"
proof -
  have caps: "a \<notin> fst ` set (cap_writes decl_io decl_svc)" if "a \<in> fst ` set (image_writes digest32 sig64 n region)" for a
    using that assms(1,2) by (auto simp: image_writes_def cap_writes_def image_Un window_addresses)
  have dist: "distinct (map fst l)"
    using image_writes_distinct [OF assms(1,2), of n region] caps
    by (auto simp: l_def cap_writes_def)
  have dig: "staged_blob R_IMG_DIGEST IMG_DIGEST_WORDS (stores l m) = digest32"
    by (rule staged_blob_window [OF dist _ assms(3)]) (use assms(1) in \<open>auto simp: l_def image_writes_def\<close>)
  have sig: "staged_blob R_IMG_SIG IMG_SIG_WORDS (stores l m) = sig64"
    by (rule staged_blob_window [OF dist _ assms(4)]) (use assms(2) in \<open>auto simp: l_def image_writes_def\<close>)
  show "verify_staged ed (stores l m) = accepts ed m digest32 sig64"
    unfolding verify_staged_def dig sig by (simp add: accepts_def)
  have "reg (stores l m) R_EFP_IMG_WORDS = n"
    using assms(5,6) by (intro reg_stores [OF dist]) (auto simp: l_def image_writes_def)
  then show "img_words (stores l m) = n"
    using assms(5,6) by (simp add: img_words_def and_FFFF_take take_bit_int_eq_self)
  have "reg (stores l m) R_EFP_REGION = region"
    using assms(7,8) by (intro reg_stores [OF dist]) (auto simp: l_def image_writes_def)
  then show "region_sel (stores l m) = region"
    using assms(7,8) by (simp add: region_sel_def and_255 take_bit_int_eq_self)
  have "a \<notin> {R_EFP_CMD, R_OCC_WDATA}" if "a \<in> fst ` set l" for a
    using that assms(1,2) by (auto simp: l_def image_writes_def cap_writes_def image_Un window_addresses)
  then show "\<forall>(a, d) \<in> set l. a \<noteq> R_EFP_CMD \<and> a \<noteq> R_OCC_WDATA" by force
qed

lemma run_session_result:
  assumes "s_run digest32 sig64 fw region decl_io decl_svc [] = Inr ops"
    and "bytes_ok digest32" and "bytes_ok sig64"
    and "idle m" and "accepts ed m digest32 sig64" and "d_alloc region m = Some r"
    and "4 \<le> limit"
  shows "\<exists>m'. execute_ops ed limit ops m = (Inr [0x26, 0], m')
    \<and> d_state m' = EFP_S_RUNNING \<and> \<not> d_busy m' \<and> d_err m' = EFP_ERR_NONE
    \<and> d_regions m' = (d_regions m)[r := REGION_RUNNING]
    \<and> d_region_words m' = (d_region_words m)[r := int (length fw)]"
proof -
  let ?l = "image_writes digest32 sig64 (int (length fw)) region @ cap_writes decl_io decl_svc"
  from assms(1) have len: "length digest32 = 32" "length sig64 = 64" "fw \<noteq> []" "length fw \<le> 0xFFFF"
    "0 \<le> region" "region \<le> 0xFF" and ops: "ops = plain_writes ?l @ deploy_ops fw"
    by (simp_all add: s_run_Inr)
  from len have n: "0 < int (length fw)" "int (length fw) \<le> 0xFFFF" by simp_all
  note st = staged_image [OF len(1,2) assms(2,3) n len(5,6), where decl_io = decl_io and decl_svc = decl_svc]
  have "execute_ops ed limit ops m = execute_ops ed limit (deploy_ops fw) (stores ?l m)"
    unfolding ops by (rule execute_plain_writes [OF st(4)])
  also have "\<dots> = (Inr [0x26, 0], deployed (int (length fw)) r (int (length fw)) (stores ?l m))"
    using assms st len by (intro deploy_ops_run) (auto simp: idle_def)
  finally show ?thesis by (simp add: deployed_def accepted_def)
qed

text \<open>C17: on an idle daemon, the complete run session of a signed image that fits the session's
  checks deploys it: every poll is answered within four reads, no operation raises, the two
  final reads are RUNNING with done set and no error, and the chosen region is RUNNING with
  the image's word count while the other regions are untouched.\<close>

theorem run_session_deploys:
  assumes "s_run digest32 sig64 fw region decl_io decl_svc [] = Inr ops"
    and "bytes_ok digest32" and "bytes_ok sig64"
    and "idle m" and "accepts ed m digest32 sig64" and "d_alloc region m = Some r"
    and "4 \<le> limit"
  shows "\<exists>m'. execute_ops ed limit ops m = (Inr [0x26, 0], m')
    \<and> d_state m' = EFP_S_RUNNING \<and> \<not> d_busy m' \<and> d_err m' = EFP_ERR_NONE
    \<and> d_regions m' = (d_regions m)[r := REGION_RUNNING]
    \<and> d_region_words m' = (d_region_words m)[r := int (length fw)]"
  using assms by (rule run_session_result)

definition demo_ed :: ed25519 where
  "demo_ed pk sig msg \<longleftrightarrow> sig = pk @ pk \<and> length msg = 64"

definition demo_daemon :: daemon where
  "demo_daemon = daemon_init (Some (replicate 32 9)) 2 True"

lemma demo_session:
  "\<exists>ops. s_run (replicate 32 7) (replicate 64 s) [1, 2, 3] 0xFF 1 0 [] = Inr ops"
  by (simp add: s_run_Inr)

lemma demo_alloc: "d_alloc 0xFF demo_daemon = Some 0"
  by code_simp

lemma demo_idle: "idle demo_daemon"
  by (simp add: idle_def demo_daemon_def daemon_init_def)

lemma demo_accepts: "accepts demo_ed demo_daemon (replicate 32 7) (replicate 64 9)"
  by code_simp

theorem run_session_deploys_witness:
  "\<exists>ops m'. execute_ops demo_ed 4 ops demo_daemon = (Inr [0x26, 0], m') \<and> d_regions m' = [1, 0]"
proof -
  obtain ops where ops: "s_run (replicate 32 7) (replicate 64 9) [1, 2, 3] 0xFF 1 0 [] = Inr ops"
    using demo_session by blast
  have "bytes_ok (replicate 32 7)" "bytes_ok (replicate 64 9)" by (simp_all add: bytes_ok_def list_all_iff)
  from run_session_deploys [OF ops this demo_idle demo_accepts demo_alloc, of 4]
  show ?thesis by (auto simp: demo_daemon_def daemon_init_def numeral_2_eq_2)
qed

section \<open>Refused deploys\<close>

definition failed :: "int \<Rightarrow> daemon \<Rightarrow> daemon" where
  "failed err m = (accepted EFP_CMD_RUN EFP_S_ERROR m)\<lparr>d_busy := False, d_err := err\<rparr>"

lemma fail_accepted: "err \<noteq> 0 \<Longrightarrow> d_fail err (accepted EFP_CMD_RUN s m) = failed err m"
  by (simp add: d_fail_def d_finish_def failed_def Let_def) (simp add: accepted_def)

lemma failed_poll:
  "exec_poll ed limit R_EFP_STATUS 0x0F EFP_S_LOAD (failed err m)
     = (Inl (PollTimeout R_EFP_STATUS 0x0F EFP_S_LOAD), failed err m)"
  by (rule poll_never) (simp_all add: d_tick_def failed_def read_status)

lemma refused_poll:
  assumes "img_words m \<noteq> 0" and "\<not> verify_staged ed m \<or> d_alloc (region_sel m) m = None"
    and "2 \<le> limit"
  shows "exec_poll ed limit R_EFP_STATUS 0x0F EFP_S_LOAD (accepted EFP_CMD_RUN EFP_S_VERIFY m)
    = (Inl (PollTimeout R_EFP_STATUS 0x0F EFP_S_LOAD),
       failed (if verify_staged ed m then EFP_ERR_REGION_FULL else EFP_ERR_BAD_SIG) m)"
proof -
  let ?a = "accepted EFP_CMD_RUN"
  have v: "verify_staged ed (?a EFP_S_VERIFY m) = verify_staged ed m"
    by (rule verify_staged_cong) simp_all
  have w: "img_words (?a EFP_S_VERIFY m) \<noteq> 0" using assms(1) by (simp add: img_words_def reg_def)
  have al: "d_alloc (region_sel (?a EFP_S_ALLOC m)) (?a EFP_S_ALLOC m) = d_alloc (region_sel m) m"
    using d_alloc_cong [of "?a EFP_S_ALLOC m" m] by (simp add: region_sel_def reg_def)
  have p1: "exec_poll ed limit R_EFP_STATUS 0x0F EFP_S_LOAD (?a EFP_S_VERIFY m)
      = exec_poll ed (limit - 1) R_EFP_STATUS 0x0F EFP_S_LOAD (d_tick ed (?a EFP_S_VERIFY m))"
    using assms(3) by (intro poll_miss) (simp_all add: read_status)
  show ?thesis
  proof (cases "verify_staged ed m")
    case False
    then have "d_tick ed (?a EFP_S_VERIFY m) = failed EFP_ERR_BAD_SIG m"
      using w by (simp add: d_tick_def tick_run_def v fail_accepted Let_def)
    with p1 False show ?thesis by (simp add: failed_poll)
  next
    case True
    with assms(2) have none: "d_alloc (region_sel m) m = None" by simp
    from True have t1: "d_tick ed (?a EFP_S_VERIFY m) = ?a EFP_S_ALLOC m"
      using w by (simp add: d_tick_def tick_run_def v Let_def)
    have t2: "d_tick ed (?a EFP_S_ALLOC m) = failed EFP_ERR_REGION_FULL m"
      using none by (simp add: d_tick_def tick_run_def al fail_accepted Let_def)
    have "exec_poll ed (limit - 1) R_EFP_STATUS 0x0F EFP_S_LOAD (?a EFP_S_ALLOC m)
        = exec_poll ed (limit - 1 - 1) R_EFP_STATUS 0x0F EFP_S_LOAD (d_tick ed (?a EFP_S_ALLOC m))"
      using assms(3) by (intro poll_miss) (simp_all add: read_status)
    with p1 True show ?thesis by (simp add: t1 t2 failed_poll)
  qed
qed

text \<open>C23: a run session whose image the daemon does not accept, or for which no region is
  free, never reaches LOAD: the host's wait for LOAD times out before a frame word is sent,
  the daemon is in ERROR with BAD_SIG or REGION_FULL, and no region changes.\<close>

theorem run_session_refused:
  assumes "s_run digest32 sig64 fw region decl_io decl_svc [] = Inr ops"
    and "bytes_ok digest32" and "bytes_ok sig64" and "idle m"
    and "\<not> accepts ed m digest32 sig64 \<or> d_alloc region m = None" and "2 \<le> limit"
  shows "\<exists>m'. execute_ops ed limit ops m
        = (Inl (PollTimeout R_EFP_STATUS EFP_STATUS_STATE_MASK EFP_S_LOAD), m')
    \<and> d_state m' = EFP_S_ERROR \<and> \<not> d_busy m'
    \<and> d_err m' = (if accepts ed m digest32 sig64 then EFP_ERR_REGION_FULL else EFP_ERR_BAD_SIG)
    \<and> d_regions m' = d_regions m \<and> d_region_words m' = d_region_words m"
proof -
  let ?l = "image_writes digest32 sig64 (int (length fw)) region @ cap_writes decl_io decl_svc"
  let ?m = "stores ?l m"
  from assms(1) have len: "length digest32 = 32" "length sig64 = 64" "fw \<noteq> []" "length fw \<le> 0xFFFF"
    "0 \<le> region" "region \<le> 0xFF" and ops: "ops = plain_writes ?l @ deploy_ops fw"
    by (simp_all add: s_run_Inr)
  from len have n: "0 < int (length fw)" "int (length fw) \<le> 0xFFFF" by simp_all
  note st = staged_image [OF len(1,2) assms(2,3) n len(5,6), where decl_io = decl_io and decl_svc = decl_svc]
  have run: "execute_ops ed limit ops m = execute_ops ed limit (deploy_ops fw) ?m"
    unfolding ops by (rule execute_plain_writes [OF st(4)])
  have id: "\<not> d_busy ?m" "d_done ?m \<in> {0, 1}" "d_state ?m \<in> {0..15}"
    using assms(4) by (simp_all add: idle_def)
  have "0 < limit" using assms(6) by simp
  note hit = poll_hit [OF this idle_status [OF id]]
  have w: "img_words ?m \<noteq> 0" using st(2) n by simp
  have "\<not> verify_staged ed ?m \<or> d_alloc (region_sel ?m) ?m = None"
    using assms(5) by (simp add: st(1,3))
  note ref = refused_poll [OF w this assms(6)]
  have "execute_ops ed limit (deploy_ops fw) ?m
      = (Inl (PollTimeout R_EFP_STATUS EFP_STATUS_STATE_MASK EFP_S_LOAD),
         failed (if verify_staged ed ?m then EFP_ERR_REGION_FULL else EFP_ERR_BAD_SIG) ?m)"
    unfolding deploy_ops_def exec_poll_op hit exec_write doorbell_run [OF id(1)] sum.case prod.case ref
    by simp
  then show ?thesis unfolding run st(1) by (simp add: failed_def)
qed

theorem run_session_refused_witness:
  "\<exists>ops m'. execute_ops demo_ed 2 ops demo_daemon = (Inl (PollTimeout R_EFP_STATUS 0x0F EFP_S_LOAD), m')
     \<and> d_err m' = EFP_ERR_BAD_SIG \<and> d_regions m' = [0, 0]"
proof -
  obtain ops where ops: "s_run (replicate 32 7) (replicate 64 8) [1, 2, 3] 0xFF 1 0 [] = Inr ops"
    using demo_session by blast
  have b: "bytes_ok (replicate 32 7)" "bytes_ok (replicate 64 8)" by (simp_all add: bytes_ok_def list_all_iff)
  have "\<not> accepts demo_ed demo_daemon (replicate 32 7) (replicate 64 8)" by code_simp
  with run_session_refused [OF ops b demo_idle, of demo_ed 2]
  show ?thesis by (auto simp: demo_daemon_def daemon_init_def numeral_2_eq_2)
qed

end
