(* ===== verification/Efp_Control.thy ===== *)
theory Efp_Control
  imports Efp_Run
begin

text \<open>
  The control commands of the daemon (stop, abort, the busy squelch) and its safety
  invariant over every interleaving of host writes and ticks: a region runs only after a
  signature check that passed.
\<close>

section \<open>Stop and abort sessions\<close>

lemma s_stop_Inr:
  "s_stop region [] = Inr ops \<longleftrightarrow> 0 \<le> region \<and> region < 0xFF
     \<and> ops = [OpWrite R_EFP_REGION region, OpPoll R_EFP_STATUS 0x10 0,
              OpWrite R_EFP_CMD EFP_CMD_STOP, OpPoll R_EFP_STATUS 0x1F EFP_S_STOPPED,
              OpRead R_EFP_STATUS 0x3F 8, OpRead R_EFP_ERR 0xFF 0]"
  by (auto simp: s_stop_def cmd_and_wait_def s_cmd_def poll_status_def s_poll_def s_read_def
      s_write_def Let_def)

lemma s_abort_eq:
  "s_abort [] = Inr [OpPoll R_EFP_STATUS 0x10 0, OpWrite R_EFP_CMD EFP_CMD_ABORT,
     OpPoll R_EFP_STATUS 0x1F EFP_S_IDLE, OpRead R_EFP_STATUS 0x3F 0, OpRead R_EFP_ERR 0xFF 0]"
  by (simp add: s_abort_def cmd_and_wait_def s_cmd_def poll_status_def s_poll_def s_read_def
      s_write_def Let_def)

lemma doorbell_stop:
  "\<not> d_busy m \<Longrightarrow> d_write R_EFP_CMD EFP_CMD_STOP m = Inr (accepted EFP_CMD_STOP EFP_S_IDLE m)"
  "\<not> d_busy m \<Longrightarrow> d_write R_EFP_CMD EFP_CMD_ABORT m = Inr (accepted EFP_CMD_ABORT EFP_S_IDLE m)"
  by (simp_all add: d_write_def d_accept_def accepted_def Let_def)

definition stopped :: "int \<Rightarrow> int \<Rightarrow> daemon \<Rightarrow> daemon" where
  "stopped code s m = (accepted code s m)\<lparr>d_busy := False\<rparr>"

lemma stopped_simps [simp]:
  "d_regions (stopped c s m) = d_regions m" "d_region_words (stopped c s m) = d_region_words m"
  "d_state (stopped c s m) = s" "\<not> d_busy (stopped c s m)" "d_err (stopped c s m) = 0"
  "d_done (stopped c s m) = 0"
  by (simp_all add: stopped_def)

lemma free_region_simps [simp]:
  "d_regions (free_region r m) = (d_regions m)[r := REGION_FREE]"
  "d_region_words (free_region r m) = (d_region_words m)[r := 0]"
  by (simp_all add: free_region_def)

lemma stop_poll:
  assumes "region_sel m < int (d_num_regions m)" and "3 \<le> limit"
  shows "exec_poll ed limit R_EFP_STATUS 0x1F EFP_S_STOPPED (accepted EFP_CMD_STOP EFP_S_IDLE m)
    = (Inr (), stopped EFP_CMD_STOP EFP_S_STOPPED (free_region (nat (region_sel m)) m))"
proof -
  let ?a = "accepted EFP_CMD_STOP"
  have sel: "region_sel (?a s m) = region_sel m" for s by (simp add: region_sel_def reg_def)
  have t1: "d_tick ed (?a EFP_S_IDLE m) = ?a EFP_S_BLANK m"
    using assms(1) by (simp add: d_tick_def tick_stop_def sel Let_def)
  have t2: "d_tick ed (?a EFP_S_BLANK m)
      = stopped EFP_CMD_STOP EFP_S_STOPPED (free_region (nat (region_sel m)) m)"
    using assms(1)
    by (simp add: d_tick_def tick_stop_def sel d_finish_def Let_def,
        simp add: accepted_def stopped_def free_region_def)
  show ?thesis
    using assms(2)
    by (subst poll_miss, simp, simp add: read_status, subst t1,
        subst poll_miss, simp, simp add: read_status, subst t2,
        intro poll_hit) (simp_all add: read_status)
qed

text \<open>Stopping a region of an idle daemon always succeeds: the session ends in STOPPED with
  no error, that region is FREE with no words and every other region keeps its state, so a
  stopped region can be allocated again.\<close>

theorem stop_session_frees:
  assumes "s_stop (int r) [] = Inr ops" and "idle m" and "r < d_num_regions m" and "3 \<le> limit"
  shows "\<exists>m'. execute_ops ed limit ops m = (Inr [8, 0], m')
    \<and> d_state m' = EFP_S_STOPPED \<and> \<not> d_busy m'
    \<and> d_regions m' = (d_regions m)[r := REGION_FREE]
    \<and> d_region_words m' = (d_region_words m)[r := 0]"
proof -
  let ?m = "set_reg R_EFP_REGION (int r) m"
  from assms(1) have r: "r < 255" by (simp add: s_stop_Inr)
  have ops: "ops = OpWrite R_EFP_REGION (int r) # OpPoll R_EFP_STATUS 0x10 0
      # OpWrite R_EFP_CMD EFP_CMD_STOP # OpPoll R_EFP_STATUS 0x1F EFP_S_STOPPED
      # [OpRead R_EFP_STATUS 0x3F 8, OpRead R_EFP_ERR 0xFF 0]"
    using assms(1) by (simp add: s_stop_Inr)
  have w: "d_write R_EFP_REGION (int r) m = Inr ?m"
    using r by (simp add: d_write_def and_FFFFFFFF_take take_bit_int_eq_self)
  have id: "\<not> d_busy ?m" "d_done ?m \<in> {0, 1}" "d_state ?m \<in> {0..15}"
    using assms(2) by (simp_all add: idle_def set_reg_def)
  have sel: "region_sel ?m = int r"
    using r by (simp add: region_sel_def reg_def set_reg_def and_255 take_bit_int_eq_self)
  have "0 < limit" using assms(4) by simp
  note hit = poll_hit [OF this idle_status [OF id]]
  have "region_sel ?m < int (d_num_regions ?m)" using assms(3) by (simp add: sel) (simp add: set_reg_def)
  note st = stop_poll [OF this assms(4)]
  let ?f = "stopped EFP_CMD_STOP EFP_S_STOPPED (free_region (nat (region_sel ?m)) ?m)"
  have rd: "d_read ?f R_EFP_STATUS = 8" "d_read ?f R_EFP_ERR = 0"
    by (simp_all add: read_status read_err)
  have "execute_ops ed limit ops m = (Inr [8, 0], ?f)"
    unfolding ops exec_write w sum.case exec_poll_op hit prod.case doorbell_stop(1) [OF id(1)] st
    by (simp add: exec_read_op rd del: execute_ops.simps) (simp add: rd)
  then show ?thesis by (simp add: sel) (simp add: set_reg_def)
qed

theorem stop_session_frees_witness:
  "\<exists>ops m'. execute_ops demo_ed 3 ops (demo_daemon\<lparr>d_regions := [1, 1]\<rparr>) = (Inr [8, 0], m')
     \<and> d_regions m' = [1, 0]"
proof -
  obtain ops where ops: "s_stop (int 1) [] = Inr ops" by (simp add: s_stop_Inr)
  have "idle (demo_daemon\<lparr>d_regions := [1, 1]\<rparr>)" using demo_idle by (simp add: idle_def)
  from stop_session_frees [OF ops this, of 3 demo_ed] show ?thesis
    by (auto simp: demo_daemon_def daemon_init_def)
qed

lemma clear_list: "k \<le> length l \<Longrightarrow> foldl (\<lambda>l i. l[i := 0]) l [0..<k] = replicate k 0 @ drop k l"
proof (induction k)
  case (Suc k)
  then have "foldl (\<lambda>l i. l[i := 0]) l [0..<Suc k] = (replicate k 0 @ drop k l)[k := 0]" by simp
  also have "\<dots> = replicate k 0 @ 0 # drop (Suc k) l"
    using Suc.prems by (simp add: list_update_append Cons_nth_drop_Suc [symmetric])
  finally show ?case by (simp add: replicate_append_same [symmetric])
qed simp

lemma free_all:
  "foldl (\<lambda>m i. free_region i m) m is
     = m\<lparr>d_regions := foldl (\<lambda>l i. l[i := 0]) (d_regions m) is,
         d_region_words := foldl (\<lambda>l i. l[i := 0]) (d_region_words m) is\<rparr>"
  by (induction "is" arbitrary: m) (simp_all add: free_region_def)

text \<open>The region tables have one entry per region; every operation keeps them that way.\<close>

definition well_formed :: "daemon \<Rightarrow> bool" where
  "well_formed m \<longleftrightarrow> length (d_regions m) = d_num_regions m
     \<and> length (d_region_words m) = d_num_regions m"

text \<open>An abort session on an idle daemon frees every region and leaves the daemon in
  IDLE with no error.\<close>

theorem abort_session_frees_all:
  assumes "s_abort [] = Inr ops" and "idle m" and "well_formed m" and "2 \<le> limit"
  shows "\<exists>m'. execute_ops ed limit ops m = (Inr [0, 0], m')
    \<and> d_state m' = EFP_S_IDLE \<and> \<not> d_busy m' \<and> d_regions m' = replicate (d_num_regions m) REGION_FREE
    \<and> d_region_words m' = replicate (d_num_regions m) 0"
proof -
  let ?n = "d_num_regions m"
  have ops: "ops = OpPoll R_EFP_STATUS 0x10 0 # OpWrite R_EFP_CMD EFP_CMD_ABORT
      # OpPoll R_EFP_STATUS 0x1F EFP_S_IDLE # [OpRead R_EFP_STATUS 0x3F 0, OpRead R_EFP_ERR 0xFF 0]"
    using assms(1) by (simp add: s_abort_eq)
  have id: "\<not> d_busy m" "d_done m \<in> {0, 1}" "d_state m \<in> {0..15}"
    using assms(2) by (simp_all add: idle_def)
  have "0 < limit" using assms(4) by simp
  note hit = poll_hit [OF this idle_status [OF id]]
  let ?f = "stopped EFP_CMD_ABORT EFP_S_IDLE
      (m\<lparr>d_regions := replicate ?n 0, d_region_words := replicate ?n 0\<rparr>)"
  have "d_tick ed (accepted EFP_CMD_ABORT EFP_S_IDLE m) = ?f"
    using assms(3)
    by (simp add: d_tick_def tick_abort_def free_all clear_list well_formed_def d_finish_def Let_def,
        simp add: accepted_def stopped_def)
  note t1 = this
  have st: "exec_poll ed limit R_EFP_STATUS 0x1F EFP_S_IDLE (accepted EFP_CMD_ABORT EFP_S_IDLE m) = (Inr (), ?f)"
    using assms(4)
    by (subst poll_miss, simp, simp add: read_status, subst t1, intro poll_hit) (simp_all add: read_status)
  have rd: "d_read ?f R_EFP_STATUS = 0" "d_read ?f R_EFP_ERR = 0" by (simp_all add: read_status read_err)
  have "execute_ops ed limit ops m = (Inr [0, 0], ?f)"
    unfolding ops exec_write exec_poll_op hit sum.case prod.case doorbell_stop(2) [OF id(1)] st
    by (simp add: exec_read_op rd del: execute_ops.simps) (simp add: rd)
  then show ?thesis by simp
qed

theorem abort_session_frees_all_witness:
  "\<exists>ops m'. execute_ops demo_ed 2 ops (demo_daemon\<lparr>d_regions := [1, 1]\<rparr>) = (Inr [0, 0], m')
     \<and> d_regions m' = [0, 0]"
proof -
  have "idle (demo_daemon\<lparr>d_regions := [1, 1]\<rparr>)" "well_formed (demo_daemon\<lparr>d_regions := [1, 1]\<rparr>)"
    using demo_idle by (simp_all add: idle_def well_formed_def demo_daemon_def daemon_init_def)
  from abort_session_frees_all [OF s_abort_eq this, of 2 demo_ed] obtain ops m'
    where "execute_ops demo_ed 2 ops (demo_daemon\<lparr>d_regions := [1, 1]\<rparr>) = (Inr [0, 0], m')"
      and "d_regions m' = replicate (d_num_regions (demo_daemon\<lparr>d_regions := [1, 1]\<rparr>)) 0"
    by (auto simp del: execute_ops.simps)
  moreover from this(2) have "d_regions m' = [0, 0]"
    by (simp add: demo_daemon_def daemon_init_def numeral_2_eq_2)
  ultimately show ?thesis by blast
qed

section \<open>A doorbell while busy\<close>

text \<open>A doorbell write while a command is executing never starts another command: the
  running command's code, state and progress are unchanged, and when that command finishes
  without an error of its own, it reports BAD_CMD and is no longer busy.\<close>

theorem busy_doorbell_squelched:
  assumes "d_busy m" and "d_write R_EFP_CMD data m = Inr m'" and "data AND 0xFF \<noteq> EFP_CMD_NOP"
  shows "m' = m\<lparr>d_squelch := True\<rparr>
    \<and> (d_err m' = EFP_ERR_NONE \<longrightarrow> d_err (d_finish st dn m') = EFP_ERR_BAD_CMD \<and> \<not> d_busy (d_finish st dn m'))"
  using assms by (auto simp: d_write_def d_finish_def Let_def)

theorem busy_doorbell_squelched_witness:
  "d_write R_EFP_CMD 2 (demo_daemon\<lparr>d_busy := True\<rparr>)
     = Inr (demo_daemon\<lparr>d_busy := True, d_squelch := True\<rparr>)"
proof -
  have w: "d_write R_EFP_CMD 2 (demo_daemon\<lparr>d_busy := True\<rparr>)
      = Inr ((demo_daemon\<lparr>d_busy := True\<rparr>)\<lparr>d_squelch := True\<rparr>)" by (simp add: d_write_def)
  show ?thesis using w busy_doorbell_squelched [OF _ w] by simp
qed

section \<open>No region runs unverified\<close>

text \<open>Every interleaving of host writes and daemon ticks. The first list holds the daemon's
  states at the ticks since the last accepted doorbell.\<close>

definition rings :: "int \<Rightarrow> int \<Rightarrow> daemon \<Rightarrow> bool" where
  "rings addr data m \<longleftrightarrow> addr = R_EFP_CMD \<and> \<not> d_busy m \<and> data AND 0xFF \<noteq> EFP_CMD_NOP"

inductive history :: "ed25519 \<Rightarrow> daemon \<Rightarrow> daemon list \<Rightarrow> daemon \<Rightarrow> bool" for ed boot where
  start: "history ed boot [] boot"
| host: "history ed boot vs m \<Longrightarrow> d_write addr data m = Inr m' \<Longrightarrow>
    history ed boot (if rings addr data m then [] else vs) m'"
| tick: "history ed boot vs m \<Longrightarrow> history ed boot (m # vs) (d_tick ed m)"

text \<open>A tick at which the staged image passed the check of a run command.\<close>

definition verified :: "ed25519 \<Rightarrow> daemon \<Rightarrow> bool" where
  "verified ed v \<longleftrightarrow> d_busy v \<and> d_state v = EFP_S_VERIFY \<and> verify_staged ed v \<and> img_words v \<noteq> 0"

definition past_verify :: "daemon \<Rightarrow> bool" where
  "past_verify m \<longleftrightarrow> d_busy m \<and> d_cmd m \<in> {EFP_CMD_RUN, EFP_CMD_RUN_PACKED}
     \<and> d_state m \<in> {EFP_S_ALLOC, EFP_S_BLANK, EFP_S_LOAD, EFP_S_READBACK}"

lemma fail_not_past [simp]: "\<not> past_verify (d_fail e m)" "\<not> past_verify (d_finish s d m)"
  by (simp_all add: past_verify_def d_fail_def d_finish_def Let_def)

lemma fail_regions [simp]:
  "d_regions (d_fail e m) = d_regions m" "d_regions (d_finish s d m) = d_regions m"
  "d_num_regions (d_fail e m) = d_num_regions m" "d_num_regions (d_finish s d m) = d_num_regions m"
  "d_region_words (d_fail e m) = d_region_words m" "d_region_words (d_finish s d m) = d_region_words m"
  by (simp_all add: d_fail_def d_finish_def Let_def)

lemma arm_fields [simp]:
  "d_regions (arm_column_frame r c w m) = d_regions m" "d_state (arm_column_frame r c w m) = d_state m"
  "d_busy (arm_column_frame r c w m) = d_busy m" "d_cmd (arm_column_frame r c w m) = d_cmd m"
  "d_cols (arm_column_frame r c w m) = d_cols m" "d_col (arm_column_frame r c w m) = d_col m"
  "d_run_region (arm_column_frame r c w m) = d_run_region m"
  "d_num_regions (arm_column_frame r c w m) = d_num_regions m"
  "d_region_words (arm_column_frame r c w m) = d_region_words m"
  by (simp_all add: arm_column_frame_def set_reg_def Let_def)

lemma write_keeps:
  assumes "d_write addr data m = Inr m'"
  shows "d_regions m' = d_regions m"
    and "past_verify m' \<Longrightarrow> past_verify m \<and> \<not> rings addr data m"
  using assms
  by (auto simp: d_write_def d_push_def d_accept_def set_reg_def past_verify_def rings_def Let_def
      d_fail_def d_finish_def split: if_splits)

lemmas tick_defs = d_tick_def tick_run_def tick_run_packed_def tick_packed_blank_def
  tick_packed_load_def tick_packed_readback_def tick_stop_def tick_restart_def tick_abort_def

lemma past_verify_tick:
  "d_busy m \<Longrightarrow> d_cmd m = EFP_CMD_RUN \<Longrightarrow> past_verify (tick_run ed sel m) \<Longrightarrow>
     past_verify m \<or> verified ed m"
  "d_busy m \<Longrightarrow> d_cmd m = EFP_CMD_RUN_PACKED \<Longrightarrow> past_verify (tick_run_packed ed sel m) \<Longrightarrow>
     past_verify m \<or> verified ed m"
  "d_cmd m = EFP_CMD_STOP \<Longrightarrow> \<not> past_verify (tick_stop m)"
  "d_cmd m = EFP_CMD_RESTART \<Longrightarrow> \<not> past_verify (tick_restart m)"
  "\<not> past_verify (tick_abort m)"
proof -
  show "past_verify m \<or> verified ed m"
    if "d_busy m" "d_cmd m = EFP_CMD_RUN" "past_verify (tick_run ed sel m)"
    using that(3) unfolding tick_run_def set_running_def Let_def
    by (cases "d_state m = EFP_S_VERIFY")
      (simp_all add: that(1,2) past_verify_def [of m] verified_def split: if_splits)
  show "past_verify m \<or> verified ed m"
    if "d_busy m" "d_cmd m = EFP_CMD_RUN_PACKED" "past_verify (tick_run_packed ed sel m)"
    using that(3) unfolding tick_run_packed_def Let_def
    by (cases "d_state m = EFP_S_VERIFY")
      (simp_all add: that(1,2) past_verify_def [of m] verified_def split: if_splits)
  show "\<not> past_verify (tick_stop m)" if "d_cmd m = EFP_CMD_STOP"
    using that by (simp add: tick_stop_def Let_def) (simp add: past_verify_def)
  show "\<not> past_verify (tick_restart m)" if "d_cmd m = EFP_CMD_RESTART"
    using that by (simp add: tick_restart_def Let_def) (simp add: past_verify_def free_region_def set_reg_def)
  show "\<not> past_verify (tick_abort m)" by (simp add: tick_abort_def)
qed

lemma tick_past_verify:
  "past_verify (d_tick ed m) \<Longrightarrow> past_verify m \<or> verified ed m"
  unfolding d_tick_def
  by (simp split: if_splits add: past_verify_tick(3-5)) (auto dest: past_verify_tick(1,2))

lemma history_verified:
  "history ed boot vs m \<Longrightarrow> \<not> d_busy boot \<Longrightarrow> past_verify m \<Longrightarrow> \<exists>v \<in> set vs. verified ed v"
proof (induction rule: history.induct)
  case start
  then show ?case by (simp add: past_verify_def)
next
  case (host vs m addr data m')
  then show ?case using write_keeps(2) [of addr data m m'] by auto
next
  case (tick vs m)
  then show ?case using tick_past_verify [of ed m] by auto
qed

lemma nth_update_eq_1: "(xs[i := v]) ! r = (1 :: int) \<Longrightarrow> xs ! r \<noteq> 1 \<Longrightarrow> v = 1"
  by (metis nth_list_update_eq nth_list_update_neq list_update_beyond not_le)

lemma clear_nth: "foldl (\<lambda>l i. l[i := (0 :: int)]) l is ! r = 1 \<Longrightarrow> l ! r = 1"
proof (induction "is" arbitrary: l)
  case (Cons i js)
  then have "l[i := 0] ! r = 1" by simp
  then show ?case using nth_update_eq_1 by fastforce
qed simp

lemma starts_region_tick:
  assumes "d_regions m ! r \<noteq> REGION_RUNNING"
  shows "d_busy m \<Longrightarrow> d_cmd m = EFP_CMD_RUN \<Longrightarrow> d_regions (tick_run ed sel m) ! r = REGION_RUNNING \<Longrightarrow>
     past_verify m"
    and "d_busy m \<Longrightarrow> d_cmd m = EFP_CMD_RUN_PACKED \<Longrightarrow> d_regions (tick_run_packed ed sel m) ! r = REGION_RUNNING \<Longrightarrow>
     past_verify m"
    and "d_regions (tick_stop m) ! r \<noteq> REGION_RUNNING"
    and "d_regions (tick_restart m) ! r \<noteq> REGION_RUNNING"
    and "d_regions (tick_abort m) ! r \<noteq> REGION_RUNNING"
proof -
  show "past_verify m"
    if "d_busy m" "d_cmd m = EFP_CMD_RUN" "d_regions (tick_run ed sel m) ! r = REGION_RUNNING"
    using that assms unfolding tick_run_def Let_def
    by (cases "past_verify m") (auto simp: past_verify_def split: if_splits option.splits)
  show "past_verify m"
    if "d_busy m" "d_cmd m = EFP_CMD_RUN_PACKED" "d_regions (tick_run_packed ed sel m) ! r = REGION_RUNNING"
    using that assms unfolding tick_run_packed_def Let_def
    by (cases "past_verify m") (auto simp: past_verify_def split: if_splits option.splits)
  have z: "xs ! r \<noteq> 1 \<Longrightarrow> xs[i := 0] ! r \<noteq> (1 :: int)" for xs i
    using nth_update_eq_1 [of xs i 0 r] by auto
  show "d_regions (tick_stop m) ! r \<noteq> REGION_RUNNING"
    using assms z by (simp add: tick_stop_def Let_def)
  show "d_regions (tick_restart m) ! r \<noteq> REGION_RUNNING"
    using assms z by (simp add: tick_restart_def Let_def set_reg_def)
  show "d_regions (tick_abort m) ! r \<noteq> REGION_RUNNING"
    using assms clear_nth by (auto simp: tick_abort_def free_all)
qed

lemma tick_starts_region:
  "d_regions m ! r \<noteq> REGION_RUNNING \<Longrightarrow> d_regions (d_tick ed m) ! r = REGION_RUNNING \<Longrightarrow> past_verify m"
  unfolding d_tick_def
  by (simp split: if_splits add: starts_region_tick(3-5)) (auto dest: starts_region_tick(1,2))

text \<open>C4: whatever the host writes and whenever the daemon runs, a host write never changes the
  region table, and a tick can turn a region to RUNNING only if, since the doorbell of the
  command being executed, the daemon checked the staged image in VERIFY and the check
  passed with a non-zero word count.\<close>

theorem region_runs_only_verified:
  assumes "history ed (daemon_init pk n bmc) vs m"
  shows "(d_write addr data m = Inr m' \<longrightarrow> d_regions m' = d_regions m)
    \<and> (d_regions m ! r \<noteq> REGION_RUNNING \<and> d_regions (d_tick ed m) ! r = REGION_RUNNING
         \<longrightarrow> (\<exists>v \<in> set vs. verified ed v))"
proof (intro conjI impI)
  show "d_regions m' = d_regions m" if "d_write addr data m = Inr m'"
    using write_keeps(1) [OF that] .
  assume "d_regions m ! r \<noteq> REGION_RUNNING \<and> d_regions (d_tick ed m) ! r = REGION_RUNNING"
  then have "past_verify m" using tick_starts_region by blast
  then show "\<exists>v \<in> set vs. verified ed v"
    using history_verified [OF assms] by (simp add: daemon_init_def)
qed

text \<open>Executing operations is one such interleaving.\<close>

lemma history_stream:
  "history ed boot vs m \<Longrightarrow> \<exists>vs'. history ed boot vs' (snd (exec_stream addr ws m))"
proof (induction ws arbitrary: vs m)
  case (Cons w ws)
  show ?case
  proof (cases "d_write addr w m")
    case (Inr m')
    from history.host [OF Cons.prems this] Inr show ?thesis by (simp only: exec_stream.simps sum.case) (rule Cons.IH)
  qed (use Cons in auto)
qed auto

lemma history_poll:
  "history ed boot vs m \<Longrightarrow> \<exists>vs'. history ed boot vs' (snd (exec_poll ed limit addr msk v m))"
proof (induction limit arbitrary: vs m)
  case (Suc n)
  from history.tick [OF Suc.prems] have "\<exists>vs'. history ed boot vs' (snd (exec_poll ed n addr msk v (d_tick ed m)))"
    by (rule Suc.IH)
  then show ?case using Suc.prems by auto
qed auto

lemma history_exec:
  "history ed boot vs m \<Longrightarrow> \<exists>vs'. history ed boot vs' (snd (execute_ops ed limit ops m))"
proof (induction ops arbitrary: vs m)
  case (Cons p ps)
  have "\<exists>vs'. history ed boot vs' (snd (exec_op ed limit p m))"
  proof (cases p)
    case (OpWrite addr data)
    show ?thesis
    proof (cases "d_write addr data m")
      case (Inr m')
      from history.host [OF Cons.prems this] Inr OpWrite show ?thesis by (auto simp: exec_op_def)
    qed (use Cons.prems OpWrite in \<open>auto simp: exec_op_def\<close>)
  next
    case (OpStream addr ws)
    from history_stream [OF Cons.prems, of addr ws] OpStream show ?thesis
      by (auto simp: exec_op_def split: prod.splits sum.splits)
  next
    case (OpPoll addr msk v)
    from history_poll [OF Cons.prems, of limit addr msk v] OpPoll show ?thesis
      by (auto simp: exec_op_def split: prod.splits sum.splits)
  qed (use Cons.prems in \<open>auto simp: exec_op_def Let_def\<close>)
  then obtain vs' where "history ed boot vs' (snd (exec_op ed limit p m))" by blast
  from Cons.IH [OF this] \<open>history ed boot vs' (snd (exec_op ed limit p m))\<close> show ?case
    by (cases "exec_op ed limit p m"; cases "fst (exec_op ed limit p m)")
      (auto split: sum.splits prod.splits)
qed auto

definition demo_writes :: "(int \<times> int) list" where
  "demo_writes = image_writes (replicate 32 7) (replicate 64 9) 2 1 @ cap_writes 0 0"

definition demo_readback :: "int \<Rightarrow> daemon" where
  "demo_readback s = (accepted EFP_CMD_RUN s (stores demo_writes demo_daemon))
     \<lparr>d_run_region := 1, d_streamed := 2\<rparr>"

lemma demo_readback:
  "\<exists>vs. history demo_ed demo_daemon vs (demo_readback EFP_S_READBACK)"
  "d_tick demo_ed (demo_readback EFP_S_READBACK) = deployed 2 1 2 (stores demo_writes demo_daemon)"
proof -
  let ?m = "stores demo_writes demo_daemon"
  have b: "bytes_ok (replicate 32 7)" "bytes_ok (replicate 64 9)"
    by (simp_all add: bytes_ok_def list_all_iff)
  have st: "verify_staged demo_ed ?m = accepts demo_ed demo_daemon (replicate 32 7) (replicate 64 9)"
    "img_words ?m = 2" "region_sel ?m = 1" "\<forall>(a, d) \<in> set demo_writes. a \<noteq> R_EFP_CMD \<and> a \<noteq> R_OCC_WDATA"
    unfolding demo_writes_def by (rule staged_image; simp add: b)+
  have id: "\<not> d_busy ?m" by (simp add: demo_daemon_def daemon_init_def)
  have al: "d_alloc (region_sel ?m) ?m = Some 1"
    unfolding st(3) d_alloc_stores by code_simp
  have v: "verify_staged demo_ed ?m" unfolding st(1) by (rule demo_accepts)
  have w: "img_words ?m \<noteq> 0" by (simp add: st(2))
  have l: "(4 :: nat) \<le> 4" by simp
  let ?load = "(accepted EFP_CMD_RUN EFP_S_LOAD ?m)\<lparr>d_run_region := 1, d_streamed := 0\<rparr>"
  have "execute_ops demo_ed 4 (plain_writes demo_writes @ [OpWrite R_EFP_CMD EFP_CMD_RUN,
      OpPoll R_EFP_STATUS 0x0F EFP_S_LOAD, OpStream R_OCC_WDATA [5, 6]]) demo_daemon
    = (Inr [], demo_readback EFP_S_LOAD)"
    unfolding execute_plain_writes [OF st(4)] exec_write doorbell_run [OF id] sum.case exec_poll_op
      run_to_load [OF id w v al l] prod.case
    by (subst exec_stream_op) (simp_all add: demo_readback_def)
  then have "\<exists>vs. history demo_ed demo_daemon vs (demo_readback EFP_S_LOAD)"
    using history_exec [OF history.start] by (metis snd_conv)
  then show "\<exists>vs. history demo_ed demo_daemon vs (demo_readback EFP_S_READBACK)"
    using history.tick load_ticks(1) [OF st(2)] unfolding demo_readback_def by metis
  show "d_tick demo_ed (demo_readback EFP_S_READBACK) = deployed 2 1 2 ?m"
    unfolding demo_readback_def by (rule load_ticks(2) [OF st(2)])
qed

theorem region_runs_only_verified_witness:
  "\<exists>vs m. history demo_ed demo_daemon vs m \<and> d_regions m ! 1 \<noteq> REGION_RUNNING
     \<and> d_regions (d_tick demo_ed m) ! 1 = REGION_RUNNING \<and> (\<exists>v. v \<in> set vs \<and> verified demo_ed v)"
proof -
  let ?m = "demo_readback EFP_S_READBACK"
  obtain vs where h: "history demo_ed demo_daemon vs ?m" using demo_readback(1) by blast
  have r: "d_regions ?m ! 1 \<noteq> REGION_RUNNING" "d_regions (d_tick demo_ed ?m) ! 1 = REGION_RUNNING"
    unfolding demo_readback(2)
    by (simp_all add: demo_readback_def deployed_def demo_daemon_def daemon_init_def numeral_2_eq_2)
  have "\<exists>v \<in> set vs. verified demo_ed v"
    using region_runs_only_verified [of demo_ed "Some (replicate 32 9)" 2 True vs ?m] h r
    by (simp add: demo_daemon_def)
  with h r show ?thesis by blast
qed

end
