(* ===== verification/Efp_Frames.thy ===== *)
theory Efp_Frames
  imports Efp_Run
begin

text \<open>
  The wire: transport CRC against the frame CRC, the 7-byte frames, the order of the
  frames of a deploy, and the disjoint per-column address windows.
\<close>

section \<open>Transport CRC\<close>

lemma word_bytes_low: "to_bytes_big (w AND 0xFFFFFFFF) = word_bytes_be w"
proof -
  have b: "drop_bit s (w AND 0xFFFFFFFF) AND 0xFF = drop_bit s w AND 0xFF" if "s \<le> 24" for s
    unfolding and_255 and_FFFFFFFF_take using that
    by (intro bit_eqI) (auto simp: bit_take_bit_iff bit_drop_bit_eq)
  have "(24 :: nat) \<le> 24" "(16 :: nat) \<le> 24" "(8 :: nat) \<le> 24" "(0 :: nat) \<le> 24" by simp_all
  then show ?thesis
    unfolding to_bytes_big_def word_bytes_be_def list.map by (simp only: b)
qed

text \<open>The CRC the host latches over the streamed words is the CRC of the frame map, so for a
  packed frame's data words it equals the frame's own CRC tail word.\<close>

theorem transport_crc_is_frame_crc: "crc16_words ws = crc16 ws"
  unfolding crc16_words_def crc16_bytes_def crc16_bytes_from_def crc16_def word_bytes_low ..

section \<open>The 7-byte frames\<close>

text \<open>What the device reads from a frame: opcode, big-endian address and data.\<close>

fun from_bytes_big :: "int list \<Rightarrow> int" where
  "from_bytes_big bs = foldl (\<lambda>a b. a * 256 + b) 0 bs"

definition spi_decode :: "int list \<Rightarrow> int \<times> int \<times> int" where
  "spi_decode f = (f ! 0, from_bytes_big (take 2 (drop 1 f)), from_bytes_big (drop 3 f))"

lemma split_mod: "0 \<le> m \<Longrightarrow> (w :: int) mod (256 * m) = 256 * (w div 256 mod m) + w mod 256"
  by (rule zmod_zmult2_eq)

lemma horner:
  "x2 = 256 * a + b \<Longrightarrow> x1 = 256 * x2 + c \<Longrightarrow> x0 = 256 * x1 + d \<Longrightarrow>
     (((0 * 256 + a) * 256 + b) * 256 + c) * 256 + d = (x0 :: int)"
  by simp

lemma decode_data: "from_bytes_big (to_bytes_big w) = w mod 2 ^ 32"
proof -
  have d: "w div 256 div 256 = w div 65536" "w div 65536 div 256 = w div 16777216"
    by (simp_all add: zdiv_zmult2_eq [symmetric])
  have n: "(256 :: int) * 256 = 65536" "(256 :: int) * 65536 = 16777216"
    "(256 :: int) * 16777216 = 4294967296" and p: "(0 :: int) \<le> 256" "(0 :: int) \<le> 65536" "(0 :: int) \<le> 16777216"
    by simp_all
  note 1 = split_mod [OF p(1), of "w div 65536", unfolded n d]
    and 2 = split_mod [OF p(2), of "w div 256", unfolded n d]
    and 3 = split_mod [OF p(3), of w, unfolded n]
  have 4: "to_bytes_big w = [w div 16777216 mod 256, w div 65536 mod 256, w div 256 mod 256, w mod 256]"
    unfolding to_bytes_big_def byte_of by simp
  have "(2 :: int) ^ 32 = 4294967296" by simp
  then show ?thesis
    unfolding 4 from_bytes_big.simps foldl.simps using horner [OF 1 2 3] by (simp only:)
qed

lemma spi_frame_Inr:
  "spi_frame opc addr data = Inr f \<longleftrightarrow> 0 \<le> addr \<and> addr \<le> 0xFFFF
     \<and> f = [opc AND 0xFF, drop_bit 8 addr AND 0xFF, addr AND 0xFF] @ to_bytes_big (data AND 0xFFFFFFFF)"
  by (auto simp: spi_frame_def)

lemma bytes_ok_big: "bytes_ok (to_bytes_big w)"
  by (auto simp: bytes_ok_def list_all_iff to_bytes_big_def byte_range)

text \<open>A wire frame is seven bytes, and what the device decodes from it is the opcode's byte,
  the address that was given and the data truncated to 32 bits.\<close>

theorem spi_frame_roundtrip:
  assumes "spi_frame opc addr data = Inr f"
  shows "length f = SPI_FRAME_LEN \<and> bytes_ok f
    \<and> spi_decode f = (take_bit 8 opc, addr, take_bit 32 data)"
proof -
  from assms have addr: "0 \<le> addr" "addr \<le> 0xFFFF" and f: "f = [opc AND 0xFF, drop_bit 8 addr AND 0xFF,
      addr AND 0xFF] @ to_bytes_big (data AND 0xFFFFFFFF)" by (simp_all add: spi_frame_Inr)
  have len: "length (to_bytes_big w) = 4" for w by (simp add: to_bytes_big_def)
  have "256 * (addr div 256 mod 256) + addr mod 256 = addr"
    using addr split_mod [of 256 addr] by simp
  then have a: "from_bytes_big [drop_bit 8 addr AND 0xFF, addr AND 0xFF] = addr"
    by (simp add: and_255 take_bit_eq_mod drop_bit_eq_div)
  have d: "from_bytes_big (to_bytes_big (data AND 0xFFFFFFFF)) = take_bit 32 data"
    by (simp only: decode_data and_FFFFFFFF_take) (simp add: take_bit_eq_mod)
  show ?thesis
    using a d byte_range [of opc] byte_range [of "drop_bit 8 addr"] byte_range [of addr] bytes_ok_big
    by (simp add: f len spi_decode_def and_255 take_bit_eq_mod del: from_bytes_big.simps)
qed

theorem spi_frame_roundtrip_witness: "spi_decode [1, 0, 19, 0, 0, 0, 5] = (1, 19, 5)"
proof -
  have "spi_frame SPI_OP_WR R_EFP_CMD 5 = Inr [1, 0, 19, 0, 0, 0, 5]" by code_simp
  from spi_frame_roundtrip [OF this] show ?thesis by simp
qed

section \<open>The frames of a deploy\<close>

definition frame_of :: "int \<Rightarrow> int \<Rightarrow> int \<Rightarrow> int list" where
  "frame_of opc addr data = [opc AND 0xFF, drop_bit 8 addr AND 0xFF, addr AND 0xFF]
     @ to_bytes_big (data AND 0xFFFFFFFF)"

lemma spi_frame_ok: "0 \<le> addr \<Longrightarrow> addr \<le> 0xFFFF \<Longrightarrow> spi_frame opc addr data = Inr (frame_of opc addr data)"
  by (simp add: spi_frame_def frame_of_def)

lemma frames_plain_writes:
  assumes "\<forall>(a, d) \<in> set l. 0 \<le> a \<and> a \<le> 0xFFFF \<and> a \<noteq> R_EFP_CMD \<and> a \<noteq> R_OCC_WDATA"
  shows "to_spi_frames (plain_writes l @ ps)
    = res_bind (to_spi_frames ps) (\<lambda>fs. Inr (map (\<lambda>(a, d). frame_of SPI_OP_WR a d) l @ fs))"
  using assms
proof (induction l)
  case (Cons x l)
  obtain a d where x: "x = (a, d)" by (cases x)
  with Cons.prems have a: "0 \<le> a" "a \<le> 0xFFFF" "a \<noteq> R_EFP_CMD" "a \<noteq> R_OCC_WDATA" by auto
  from Cons have ih: "to_spi_frames (plain_writes l @ ps)
    = res_bind (to_spi_frames ps) (\<lambda>fs. Inr (map (\<lambda>(a, d). frame_of SPI_OP_WR a d) l @ fs))" by simp
  have "latch_frames (OpWrite a d) (plain_writes l @ ps) = Inr []" using a by (simp add: latch_frames_def)
  moreover have "op_frames (OpWrite a d) = Inr [frame_of SPI_OP_WR a d]"
    using a by (simp add: op_frames_def spi_frame_ok)
  ultimately show ?case using x ih by (cases "to_spi_frames ps") simp_all
qed (cases "to_spi_frames ps"; simp)

lemma frames_stream:
  "res_map (spi_frame SPI_OP_OCC_PUSH R_OCC_WDATA) ws
     = Inr (map (frame_of SPI_OP_OCC_PUSH R_OCC_WDATA) ws)"
  by (rule res_map_total) (simp add: spi_frame_ok)

lemma frames_deploy:
  assumes "fw \<noteq> []"
  shows "to_spi_frames (deploy_ops fw) = Inr ([frame_of SPI_OP_RD R_EFP_STATUS 0,
      frame_of SPI_OP_WR R_SPI_CRC (crc16_words fw), frame_of SPI_OP_WR R_EFP_CMD EFP_CMD_RUN,
      frame_of SPI_OP_RD R_EFP_STATUS 0] @ map (frame_of SPI_OP_OCC_PUSH R_OCC_WDATA) fw
      @ [frame_of SPI_OP_RD R_EFP_STATUS 0, frame_of SPI_OP_RD R_EFP_STATUS 0, frame_of SPI_OP_RD R_EFP_ERR 0])"
  using assms by (simp add: deploy_ops_def latch_frames_def op_frames_def spi_frame_ok frames_stream)

text \<open>The wire order of a run session: every frame can be built, the CRC latch carries the
  CRC of exactly the streamed words and is sent immediately before the run doorbell, and all
  pushes of frame words come after the doorbell, in order and once each.\<close>

theorem run_wire_order:
  assumes "s_run digest32 sig64 fw region decl_io decl_svc [] = Inr ops"
  shows "\<exists>staging post. to_spi_frames ops = Inr (staging
      @ [frame_of SPI_OP_WR R_SPI_CRC (crc16 fw), frame_of SPI_OP_WR R_EFP_CMD EFP_CMD_RUN]
      @ [frame_of SPI_OP_RD R_EFP_STATUS 0] @ map (frame_of SPI_OP_OCC_PUSH R_OCC_WDATA) fw @ post)
    \<and> list_all (\<lambda>f. f ! 0 \<noteq> SPI_OP_OCC_PUSH) (staging @ post)"
proof -
  let ?l = "image_writes digest32 sig64 (int (length fw)) region @ cap_writes decl_io decl_svc"
  from assms have len: "length digest32 = 32" "length sig64 = 64" "fw \<noteq> []"
    and ops: "ops = plain_writes ?l @ deploy_ops fw" by (simp_all add: s_run_Inr)
  have "0 \<le> a \<and> a \<le> 0xFFFF \<and> a \<noteq> R_EFP_CMD \<and> a \<noteq> R_OCC_WDATA" if "a \<in> fst ` set ?l" for a
    using that len by (auto simp: image_writes_def cap_writes_def image_Un window_addresses)
  then have addrs: "\<forall>(a, d) \<in> set ?l. 0 \<le> a \<and> a \<le> 0xFFFF \<and> a \<noteq> R_EFP_CMD \<and> a \<noteq> R_OCC_WDATA"
    by force
  let ?st = "map (\<lambda>(a, d). frame_of SPI_OP_WR a d) ?l @ [frame_of SPI_OP_RD R_EFP_STATUS 0]"
  let ?post = "[frame_of SPI_OP_RD R_EFP_STATUS 0, frame_of SPI_OP_RD R_EFP_STATUS 0,
      frame_of SPI_OP_RD R_EFP_ERR 0]"
  have frames: "to_spi_frames ops = Inr (?st
      @ [frame_of SPI_OP_WR R_SPI_CRC (crc16 fw), frame_of SPI_OP_WR R_EFP_CMD EFP_CMD_RUN]
      @ [frame_of SPI_OP_RD R_EFP_STATUS 0] @ map (frame_of SPI_OP_OCC_PUSH R_OCC_WDATA) fw @ ?post)"
    unfolding ops frames_plain_writes [OF addrs] frames_deploy [OF len(3)]
      crc16_words_def crc16_bytes_def crc16_bytes_from_def crc16_def word_bytes_low
    by simp
  have "list_all (\<lambda>f. f ! 0 \<noteq> SPI_OP_OCC_PUSH) (?st @ ?post)"
    by (auto simp: list_all_iff frame_of_def)
  with frames show ?thesis by blast
qed

theorem run_wire_order_witness:
  "\<exists>ops staging post. to_spi_frames ops = Inr (staging
      @ [frame_of SPI_OP_WR R_SPI_CRC (crc16 [1, 2, 3]), frame_of SPI_OP_WR R_EFP_CMD EFP_CMD_RUN]
      @ [frame_of SPI_OP_RD R_EFP_STATUS 0] @ map (frame_of SPI_OP_OCC_PUSH R_OCC_WDATA) [1, 2, 3] @ post)"
proof -
  obtain ops where "s_run (replicate 32 7) (replicate 64 8) [1, 2, 3] 0xFF 1 0 [] = Inr ops"
    using demo_session by blast
  from run_wire_order [OF this] show ?thesis by blast
qed

section \<open>Column windows\<close>

lemma nibble: "0 \<le> x \<Longrightarrow> x < 16 \<Longrightarrow> x AND 0xF = (x :: int)"
  using take_bit_int_eq_self [of x 4] by (simp add: take_bit_eq_mask mask_eq_exp_minus_1)

lemma or_disjoint: "0 \<le> b \<Longrightarrow> b < 2 ^ n \<Longrightarrow> push_bit n a OR b = push_bit n a + (b :: int)"
  by (rule disjunctive_add [symmetric]) (metis bit_push_bit_iff_int bit_take_bit_iff not_le take_bit_int_eq_self)

lemma column_base:
  assumes "0 \<le> r" "r < 16" "0 \<le> c" "c < 16"
  shows "column_frame_base r c = r * 4096 + c * 256"
proof -
  have "column_frame_base r c = push_bit 12 r OR push_bit 8 c"
    using assms by (simp only: column_frame_base_def region_frame_base_def nibble)
  also have "\<dots> = push_bit 12 r + push_bit 8 c"
    using assms by (intro or_disjoint) (simp_all add: push_bit_eq_mult)
  finally show ?thesis by (simp add: push_bit_eq_mult)
qed

lemma same_window:
  assumes "r * 4096 + c * 256 \<le> z" "z < r * 4096 + c * 256 + 256"
    and "r' * 4096 + c' * 256 \<le> z" "z < r' * 4096 + c' * 256 + (256 :: int)"
    and "0 \<le> c" "c < 16" "0 \<le> c'" "c' < 16"
  shows "r = r' \<and> c = c'"
proof -
  have w: "b * 256 \<le> z \<Longrightarrow> z < b * 256 + 256 \<Longrightarrow> z div 256 = b" for b
    by (rule int_div_pos_eq [of _ _ _ "z - b * 256"]) linarith+
  have "z div 256 = r * 16 + c" "z div 256 = r' * 16 + c'" using assms by (intro w; simp)+
  then have eq: "r * 16 + c = r' * 16 + c'" by simp
  have "(r * 16 + c) div 16 = r" "(r' * 16 + c') div 16 = r'" using assms by simp_all
  with eq show ?thesis by simp
qed

text \<open>The frames of two different columns never share an OCC address: for region and column
  numbers below 16, two accepted frame ranges overlap only if region and column agree, and a
  frame is refused exactly when it is longer than the 256-word window.\<close>

theorem column_windows_disjoint:
  assumes "r \<in> {0..15}" "c \<in> {0..15}" "r' \<in> {0..15}" "c' \<in> {0..15}"
  shows "(is_ok (column_frame_range r c n) \<longleftrightarrow> 0 \<le> n \<and> n \<le> 256)
    \<and> (column_frame_range r c n = Inr xs \<and> column_frame_range r' c' n' = Inr ys
         \<and> set xs \<inter> set ys \<noteq> {} \<longrightarrow> r = r' \<and> c = c')"
proof (intro conjI impI)
  show "is_ok (column_frame_range r c n) \<longleftrightarrow> 0 \<le> n \<and> n \<le> 256"
    by (simp add: column_frame_range_def Let_def)
  assume a: "column_frame_range r c n = Inr xs \<and> column_frame_range r' c' n' = Inr ys
      \<and> set xs \<inter> set ys \<noteq> {}"
  let ?b = "r * 4096 + c * 256" and ?b' = "r' * 4096 + c' * 256"
  have "column_frame_base r c = ?b" "column_frame_base r' c' = ?b'"
    using assms by (simp_all add: column_base)
  with a have "set xs = {?b..?b + n - 1}" "n \<le> 256" "set ys = {?b'..?b' + n' - 1}" "n' \<le> 256"
    by (auto simp: column_frame_range_def Let_def split: if_splits)
  moreover from a obtain z where "z \<in> set xs" "z \<in> set ys" by blast
  ultimately have "?b \<le> z" "z < ?b + 256" "?b' \<le> z" "z < ?b' + 256" by simp_all
  then have "r = r' \<and> c = c'" using assms by (intro same_window [of r c z]) simp_all
  then show "r = r'" and "c = c'" by simp_all
qed

theorem column_windows_disjoint_witness:
  "is_ok (column_frame_range 1 2 68) \<and> \<not> is_ok (column_frame_range 1 2 257)"
  using column_windows_disjoint [of 1 2 1 3 68 _ 0] column_windows_disjoint [of 1 2 1 3 257 _ 0] by simp

end
