(* ===== verification/Sha256.thy ===== *)
theory Sha256
  imports Prelude
begin

text \<open>
  SHA-256, the digest the image tool takes from Python's hashlib (FIPS 180-4): padding, the
  message schedule, the 64 rounds on 32-bit words, and the hexadecimal rendering of the
  digest. Bytes are integers in 0..255.
\<close>

type_synonym w32 = "32 word"

definition sha_k :: "w32 list" where
  "sha_k =
     [0x428A2F98, 0x71374491, 0xB5C0FBCF, 0xE9B5DBA5, 0x3956C25B, 0x59F111F1,
      0x923F82A4, 0xAB1C5ED5, 0xD807AA98, 0x12835B01, 0x243185BE, 0x550C7DC3,
      0x72BE5D74, 0x80DEB1FE, 0x9BDC06A7, 0xC19BF174, 0xE49B69C1, 0xEFBE4786,
      0x0FC19DC6, 0x240CA1CC, 0x2DE92C6F, 0x4A7484AA, 0x5CB0A9DC, 0x76F988DA,
      0x983E5152, 0xA831C66D, 0xB00327C8, 0xBF597FC7, 0xC6E00BF3, 0xD5A79147,
      0x06CA6351, 0x14292967, 0x27B70A85, 0x2E1B2138, 0x4D2C6DFC, 0x53380D13,
      0x650A7354, 0x766A0ABB, 0x81C2C92E, 0x92722C85, 0xA2BFE8A1, 0xA81A664B,
      0xC24B8B70, 0xC76C51A3, 0xD192E819, 0xD6990624, 0xF40E3585, 0x106AA070,
      0x19A4C116, 0x1E376C08, 0x2748774C, 0x34B0BCB5, 0x391C0CB3, 0x4ED8AA4A,
      0x5B9CCA4F, 0x682E6FF3, 0x748F82EE, 0x78A5636F, 0x84C87814, 0x8CC70208,
      0x90BEFFFA, 0xA4506CEB, 0xBEF9A3F7, 0xC67178F2]"

definition sha_h0 :: "w32 list" where
  "sha_h0 =
     [0x6A09E667, 0xBB67AE85, 0x3C6EF372, 0xA54FF53A, 0x510E527F, 0x9B05688C,
      0x1F83D9AB, 0x5BE0CD19]"

section \<open>Padding and parsing\<close>

definition be_bytes :: "nat \<Rightarrow> int \<Rightarrow> int list" where
  "be_bytes n v = map (\<lambda>i. drop_bit (8 * (n - 1 - i)) v AND 0xFF) [0..<n]"

definition sha_pad :: "int list \<Rightarrow> int list" where
  "sha_pad msg =
     msg @ [0x80] @ replicate ((119 - length msg mod 64) mod 64) 0 @ be_bytes 8 (8 * int (length msg))"

definition be_word :: "int list \<Rightarrow> w32" where
  "be_word bs = foldl (\<lambda>a b. push_bit 8 a OR word_of_int b) 0 bs"

section \<open>The compression function\<close>

definition rotr :: "nat \<Rightarrow> w32 \<Rightarrow> w32" where
  "rotr n x = drop_bit n x OR push_bit (32 - n) x"

definition sha_ch :: "w32 \<Rightarrow> w32 \<Rightarrow> w32 \<Rightarrow> w32" where
  "sha_ch x y z = (x AND y) XOR (NOT x AND z)"

definition sha_maj :: "w32 \<Rightarrow> w32 \<Rightarrow> w32 \<Rightarrow> w32" where
  "sha_maj x y z = (x AND y) XOR (x AND z) XOR (y AND z)"

text \<open>The schedule is built with the newest word first.\<close>

fun sha_extend :: "nat \<Rightarrow> w32 list \<Rightarrow> w32 list" where
  "sha_extend 0 ws = ws"
| "sha_extend (Suc n) ws =
     (let w15 = ws ! 14; w2 = ws ! 1;
          s0 = rotr 7 w15 XOR rotr 18 w15 XOR drop_bit 3 w15;
          s1 = rotr 17 w2 XOR rotr 19 w2 XOR drop_bit 10 w2
      in sha_extend n ((ws ! 15 + s0 + ws ! 6 + s1) # ws))"

definition sha_schedule :: "int list \<Rightarrow> w32 list" where
  "sha_schedule block = rev (sha_extend 48 (rev (map be_word (chunks 4 block))))"

fun sha_round :: "w32 list \<Rightarrow> w32 \<times> w32 \<Rightarrow> w32 list" where
  "sha_round [a, b, c, d, e, f, g, h] (k, w) =
     (let s1 = rotr 6 e XOR rotr 11 e XOR rotr 25 e;
          t1 = h + s1 + sha_ch e f g + k + w;
          s0 = rotr 2 a XOR rotr 13 a XOR rotr 22 a;
          t2 = s0 + sha_maj a b c
      in [t1 + t2, a, b, c, d + t1, e, f, g])"
| "sha_round hs kw = hs"

definition sha_block :: "w32 list \<Rightarrow> int list \<Rightarrow> w32 list" where
  "sha_block hs block = map2 (+) hs (foldl sha_round hs (zip sha_k (sha_schedule block)))"

definition sha256 :: "int list \<Rightarrow> int list" where
  "sha256 msg = concat (map (\<lambda>w. be_bytes 4 (uint w)) (foldl sha_block sha_h0 (chunks 64 (sha_pad msg))))"

section \<open>Hexadecimal\<close>

definition hex_char :: "int \<Rightarrow> char" where
  "hex_char d = char_of (nat (if d < 10 then 48 + d else 87 + d))"

text \<open>\<open>bytes.hex()\<close>\<close>

definition to_hex :: "int list \<Rightarrow> string" where
  "to_hex bs = concat (map (\<lambda>b. [hex_char (b div 16), hex_char (b mod 16)]) bs)"

definition hex_value :: "char \<Rightarrow> int option" where
  "hex_value c =
     (let n = of_char c :: int in
      if 48 \<le> n \<and> n \<le> 57 then Some (n - 48)
      else if 97 \<le> n \<and> n \<le> 102 then Some (n - 87)
      else if 65 \<le> n \<and> n \<le> 70 then Some (n - 55)
      else None)"

definition is_space :: "char \<Rightarrow> bool" where
  "is_space c \<longleftrightarrow> (of_char c :: int) \<in> {9, 10, 11, 12, 13, 32}"

text \<open>\<open>bytes.fromhex(s)\<close>: pairs of digits, with ASCII whitespace between pairs; \<open>None\<close> is
  its ValueError.\<close>

fun fromhex :: "string \<Rightarrow> int list option" where
  "fromhex [] = Some []"
| "fromhex [c] = (if is_space c then Some [] else None)"
| "fromhex (c # d # s) =
     (if is_space c then fromhex (d # s)
      else case (hex_value c, hex_value d) of
             (Some x, Some y) \<Rightarrow> map_option ((#) (16 * x + y)) (fromhex s)
           | _ \<Rightarrow> None)"

definition sha256_hex :: "int list \<Rightarrow> string" where
  "sha256_hex msg = to_hex (sha256 msg)"

section \<open>Facts\<close>

lemma sha_round_length: "length hs = 8 \<Longrightarrow> length (sha_round hs kw) = 8"
  by (cases kw; induction hs kw rule: sha_round.induct) (auto simp: Let_def)

lemma sha_rounds_length: "length hs = 8 \<Longrightarrow> length (foldl sha_round hs kws) = 8"
  by (induction kws arbitrary: hs) (auto simp: sha_round_length)

lemma sha_blocks_length: "length hs = 8 \<Longrightarrow> length (foldl sha_block hs bs) = 8"
  by (induction bs arbitrary: hs) (auto simp: sha_block_def sha_rounds_length)

lemma length_sha256 [simp]: "length (sha256 msg) = 32"
proof -
  have "length (foldl sha_block sha_h0 (chunks 64 (sha_pad msg))) = 8"
    by (rule sha_blocks_length) (simp add: sha_h0_def)
  moreover have "length (concat (map (\<lambda>w. be_bytes 4 (uint w)) ws)) = 4 * length ws" for ws :: "w32 list"
    by (induction ws) (auto simp: be_bytes_def)
  ultimately show ?thesis by (simp add: sha256_def)
qed

lemma sha256_bytes: "b \<in> set (sha256 msg) \<Longrightarrow> 0 \<le> b \<and> b < 256"
  by (auto simp: sha256_def be_bytes_def and_255 take_bit_nonnegative intro: order.strict_trans2 [OF take_bit_int_less_exp])

lemma hex_digits: "list_all (\<lambda>d. hex_value (hex_char d) = Some d \<and> \<not> is_space (hex_char d)) [0..15]"
  by code_simp

lemma hex_digit: "0 \<le> d \<Longrightarrow> d < 16 \<Longrightarrow> hex_value (hex_char d) = Some d \<and> \<not> is_space (hex_char d)"
  using hex_digits by (auto simp: list_all_iff)

lemma fromhex_to_hex: "\<forall>b \<in> set bs. 0 \<le> b \<and> b < 256 \<Longrightarrow> fromhex (to_hex bs) = Some bs"
proof (induction bs)
  case (Cons b bs)
  then have "0 \<le> b div 16" "b div 16 < 16" "0 \<le> b mod 16" "b mod 16 < 16" by auto
  with Cons show ?case by (simp add: to_hex_def hex_digit)
qed (simp add: to_hex_def)

lemma to_hex_inject:
  "\<forall>b \<in> set xs. 0 \<le> b \<and> b < 256 \<Longrightarrow> \<forall>b \<in> set ys. 0 \<le> b \<and> b < 256 \<Longrightarrow> to_hex xs = to_hex ys \<Longrightarrow> xs = ys"
  using fromhex_to_hex by (metis option.inject)

end
