(* ===== verification/Ethimg.thy ===== *)
theory Ethimg
  imports Sha256 Capcheck "HOL-Library.AList" "HOL-Library.List_Lexorder" "HOL-Library.Char_ord"
begin

text \<open>
  ethereal-tools/tools/ethimg.py: the manifest of a .eth image, packing and verification.
  An archive is the list of its tar entries (name, and content of a regular file); a Python
  dict is an association list in insertion order, updated with \<open>AList.update\<close>. The YAML
  package and the Ed25519 package are third-party: the record \<open>ext\<close> holds what the code
  calls of them. SHA-256 is computed by theory \<open>Sha256\<close>.
\<close>

section \<open>What the code calls of other packages\<close>

text \<open>\<open>x_emit\<close> renders a document whose mappings are already sorted; \<open>safe_dump(_,
  sort_keys=True)\<close> is \<open>x_emit\<close> after \<open>sort_doc\<close>. \<open>x_str\<close> is \<open>str()\<close> of a value that is
  not a string, \<open>x_decode\<close> the UTF-8 decoder, \<open>x_load_pub\<close> a PEM public key as its raw
  bytes (\<open>None\<close> raises), \<open>x_ed\<close> the Ed25519 check; \<open>x_sign\<close>, \<open>x_pub_of\<close> and \<open>x_fingerprint\<close>
  are what \<open>pack\<close> needs of a private key.\<close>

record ext =
  x_emit :: "yval \<Rightarrow> int list"
  x_parse :: "int list \<Rightarrow> yval option"
  x_parse_text :: "string \<Rightarrow> yval option"
  x_str :: "yval \<Rightarrow> string"
  x_decode :: "int list \<Rightarrow> string option"
  x_load_pub :: "int list \<Rightarrow> int list option"
  x_ed :: "int list \<Rightarrow> int list \<Rightarrow> int list \<Rightarrow> bool"
  x_sign :: "int list \<Rightarrow> int list \<Rightarrow> int list"
  x_pub_of :: "int list \<Rightarrow> int list"
  x_fingerprint :: "int list \<Rightarrow> string"

datatype eth_err =
  MissingManifest
| YamlError
| AttributeErr
| KeyErr string
| BadSchema
| MissingMember string
| MemberDigest string
| Undeclared string
| ManifestDigest
| CapNotUtf8
| CapSchema cap_error
| Unsigned
| SigAlgo
| NoTrustedKeys
| BadPem
| SigUntrusted
| NotADirectory
| NoTargetsDir
| NoFrames

abbreviation (input) SCHEMA :: string where "SCHEMA \<equiv> ''ethereal.logic.v0.1''"
abbreviation (input) DIGEST_ALGO :: string where "DIGEST_ALGO \<equiv> ''sha256''"
abbreviation (input) MANIFEST_NAME :: string where "MANIFEST_NAME \<equiv> ''manifest.yaml''"
abbreviation (input) TARGETS_DIR :: string where "TARGETS_DIR \<equiv> ''targets''"

definition OPTIONAL_MEMBERS :: "string list" where
  "OPTIONAL_MEMBERS = [''interface.yaml'', ''capabilities.yaml'', ''resources.yaml'', ''health.yaml'']"

section \<open>Sorted documents\<close>

definition key_text :: "yval \<Rightarrow> string" where
  "key_text k = (case k of YStr s \<Rightarrow> s | _ \<Rightarrow> [])"

text \<open>The sorting of \<open>safe_dump(sort_keys=True)\<close>, at every level; all keys are strings.\<close>

fun sort_doc :: "yval \<Rightarrow> yval" where
  "sort_doc (YMap m) = YMap (sort_key (\<lambda>kv. key_text (fst kv)) (map (\<lambda>(k, v). (k, sort_doc v)) m))"
| "sort_doc (YList xs) = YList (map sort_doc xs)"
| "sort_doc v = v"

definition safe_dump :: "ext \<Rightarrow> yval \<Rightarrow> int list" where
  "safe_dump x d = x_emit x (sort_doc d)"

section \<open>Manifests\<close>

record manifest =
  m_name :: string
  m_version :: string
  m_target :: string
  m_author :: string
  m_created :: string
  m_members :: "(string \<times> string) list"
  m_digest :: string
  m_signature :: "(yval \<times> yval) list option"

definition str_map :: "(string \<times> string) list \<Rightarrow> yval" where
  "str_map l = YMap (map (\<lambda>(k, v). (YStr k, YStr v)) l)"

definition to_dict :: "manifest \<Rightarrow> (yval \<times> yval) list" where
  "to_dict m =
     [(YStr ''schema'', YStr SCHEMA), (YStr ''name'', YStr (m_name m)),
      (YStr ''version'', YStr (m_version m)), (YStr ''target'', YStr (m_target m)),
      (YStr ''author'', YStr (m_author m)), (YStr ''created'', YStr (m_created m)),
      (YStr ''digest_algo'', YStr DIGEST_ALGO), (YStr ''members'', str_map (m_members m)),
      (YStr ''manifest_digest'', YStr (m_digest m))]
     @ (case m_signature m of None \<Rightarrow> [] | Some s \<Rightarrow> [(YStr ''signature'', YMap s)])"

text \<open>\<open>str(v)\<close>\<close>

definition py_str :: "ext \<Rightarrow> yval \<Rightarrow> string" where
  "py_str x v = (case v of YStr s \<Rightarrow> s | _ \<Rightarrow> x_str x v)"

definition need :: "(yval \<times> yval) list \<Rightarrow> string \<Rightarrow> eth_err + yval" where
  "need d k = (case map_of d (YStr k) of Some v \<Rightarrow> Inr v | None \<Rightarrow> Inl (KeyErr k))"

definition get_or :: "(yval \<times> yval) list \<Rightarrow> string \<Rightarrow> yval \<Rightarrow> yval" where
  "get_or d k dflt = (case map_of d (YStr k) of Some v \<Rightarrow> v | None \<Rightarrow> dflt)"

definition starts_with :: "string \<Rightarrow> string \<Rightarrow> bool" where
  "starts_with s p \<longleftrightarrow> take (length p) s = p"

definition check_schema :: "(yval \<times> yval) list \<Rightarrow> eth_err + unit" where
  "check_schema d =
     (case get_or d ''schema'' (YStr []) of
        YStr s \<Rightarrow> require (starts_with s ''ethereal.logic.'') BadSchema
      | _ \<Rightarrow> Inl AttributeErr)"

text \<open>\<open>{str(k): str(v) for k, v in d.get("members", {}).items()}\<close>\<close>

definition members_of :: "ext \<Rightarrow> (yval \<times> yval) list \<Rightarrow> eth_err + (string \<times> string) list" where
  "members_of x d =
     (case get_or d ''members'' (YMap []) of
        YMap l \<Rightarrow> Inr (foldl (\<lambda>acc (k, v). AList.update (py_str x k) (py_str x v) acc) [] l)
      | _ \<Rightarrow> Inl AttributeErr)"

text \<open>A signature that is not a mapping fails at its first use; the model raises here.\<close>

definition signature_of :: "(yval \<times> yval) list \<Rightarrow> eth_err + (yval \<times> yval) list option" where
  "signature_of d =
     (case get_or d ''signature'' YNull of
        YNull \<Rightarrow> Inr None | YMap s \<Rightarrow> Inr (Some s) | _ \<Rightarrow> Inl AttributeErr)"

definition from_dict :: "ext \<Rightarrow> (yval \<times> yval) list \<Rightarrow> eth_err + manifest" where
  "from_dict x d =
     res_bind (check_schema d) (\<lambda>_.
     res_bind (need d ''name'') (\<lambda>name.
     res_bind (need d ''version'') (\<lambda>version.
     res_bind (need d ''target'') (\<lambda>target.
     res_bind (members_of x d) (\<lambda>members.
     res_bind (signature_of d) (\<lambda>sig.
     Inr \<lparr>m_name = py_str x name, m_version = py_str x version, m_target = py_str x target,
          m_author = py_str x (get_or d ''author'' (YStr [])),
          m_created = py_str x (get_or d ''created'' (YStr [])),
          m_members = members, m_digest = py_str x (get_or d ''manifest_digest'' (YStr [])),
          m_signature = sig\<rparr>))))))"

definition manifest_digest :: "ext \<Rightarrow> (yval \<times> yval) list \<Rightarrow> string" where
  "manifest_digest x d =
     sha256_hex (safe_dump x (YMap (filter
       (\<lambda>(k, v). k \<noteq> YStr ''signature'' \<and> k \<noteq> YStr ''manifest_digest'') d)))"

section \<open>Archives\<close>

type_synonym archive = "(string \<times> int list option) list"

text \<open>\<open>extractfile(n)\<close>: the last entry of that name.\<close>

definition extractfile :: "archive \<Rightarrow> string \<Rightarrow> int list option" where
  "extractfile a n = (case map_of (rev a) n of Some c \<Rightarrow> c | None \<Rightarrow> None)"

definition falsy :: "yval \<Rightarrow> bool" where
  "falsy v \<longleftrightarrow> v \<in> {YNull, YBool False, YInt 0, YStr [], YList [], YMap []}"

text \<open>\<open>Manifest.from_dict(yaml.safe_load(data) or {})\<close>\<close>

definition parse_manifest :: "ext \<Rightarrow> int list \<Rightarrow> eth_err + manifest" where
  "parse_manifest x data =
     (case x_parse x data of
        None \<Rightarrow> Inl YamlError
      | Some d \<Rightarrow>
          if falsy d then from_dict x []
          else (case d of YMap m \<Rightarrow> from_dict x m | _ \<Rightarrow> Inl AttributeErr))"

definition read_members :: "ext \<Rightarrow> archive \<Rightarrow> eth_err + manifest \<times> (string \<times> int list) list" where
  "read_members x a =
     (if MANIFEST_NAME \<notin> fst ` set a then Inl MissingManifest
      else case extractfile a MANIFEST_NAME of
          None \<Rightarrow> Inl AttributeErr
        | Some data \<Rightarrow>
            res_bind (parse_manifest x data) (\<lambda>man.
            Inr (man, foldl (\<lambda>ms n. if n = MANIFEST_NAME then ms
                    else case extractfile a n of None \<Rightarrow> ms | Some c \<Rightarrow> AList.update n c ms)
                  [] (map fst a))))"

definition check_capabilities :: "ext \<Rightarrow> (string \<times> int list) list \<Rightarrow> eth_err + unit" where
  "check_capabilities x members =
     (case map_of members ''capabilities.yaml'' of
        None \<Rightarrow> Inr ()
      | Some blob \<Rightarrow>
          (case x_decode x blob of
             None \<Rightarrow> Inl CapNotUtf8
           | Some text \<Rightarrow>
               (case load_capabilities (x_parse_text x) (CapText text) of
                  Inl e \<Rightarrow> Inl (CapSchema e) | Inr _ \<Rightarrow> Inr ())))"

section \<open>Verification\<close>

definition check_member :: "(string \<times> int list) list \<Rightarrow> string \<times> string \<Rightarrow> eth_err + unit" where
  "check_member members = (\<lambda>(name, dig).
     (case map_of members name of
        None \<Rightarrow> Inl (MissingMember name)
      | Some c \<Rightarrow> require (sha256_hex c = dig) (MemberDigest name)))"

text \<open>Steps 1 to 3 of \<open>verify\<close>, shared with \<open>load_image\<close>.\<close>

definition check_integrity :: "ext \<Rightarrow> manifest \<Rightarrow> (string \<times> int list) list \<Rightarrow> eth_err + unit" where
  "check_integrity x man members =
     res_bind (res_iter (check_member members) (m_members man)) (\<lambda>_.
     res_bind (res_iter (\<lambda>(n, _). require (map_of (m_members man) n \<noteq> None) (Undeclared n)) members) (\<lambda>_.
     require (manifest_digest x (to_dict man) = m_digest man) ManifestDigest))"

definition ascii_bytes :: "string \<Rightarrow> int list" where
  "ascii_bytes s = map of_char s"

text \<open>\<open>_verify_sig\<close>; an unreadable PEM key raises outside its try block.\<close>

definition verify_sig :: "ext \<Rightarrow> int list \<Rightarrow> string \<Rightarrow> yval \<Rightarrow> eth_err + bool" where
  "verify_sig x pub_pem digest_hex sig =
     (case x_load_pub x pub_pem of
        None \<Rightarrow> Inl BadPem
      | Some pk \<Rightarrow>
          Inr (case sig of
                 YStr s \<Rightarrow> (case fromhex s of None \<Rightarrow> False
                            | Some sb \<Rightarrow> x_ed x pk sb (ascii_bytes digest_hex))
               | _ \<Rightarrow> False))"

fun try_keys :: "ext \<Rightarrow> int list list \<Rightarrow> manifest \<Rightarrow> yval \<Rightarrow> eth_err + manifest" where
  "try_keys x [] man sig = Inl SigUntrusted"
| "try_keys x (k # ks) man sig =
     res_bind (verify_sig x k (m_digest man) sig) (\<lambda>ok.
       if ok then Inr man else try_keys x ks man sig)"

definition check_signature :: "ext \<Rightarrow> manifest \<Rightarrow> int list list option \<Rightarrow> bool \<Rightarrow> eth_err + manifest" where
  "check_signature x man trusted allow_unsigned =
     (case m_signature man of
        None \<Rightarrow> if allow_unsigned then Inr man else Inl Unsigned
      | Some sig \<Rightarrow>
          if get_or sig ''algo'' YNull \<noteq> YStr ''ed25519'' then Inl SigAlgo
          else (case trusted of
                  None \<Rightarrow> Inl NoTrustedKeys
                | Some ks \<Rightarrow> try_keys x ks man (get_or sig ''value'' (YStr []))))"

definition verify :: "ext \<Rightarrow> archive \<Rightarrow> int list list option \<Rightarrow> bool \<Rightarrow> eth_err + manifest" where
  "verify x a trusted allow_unsigned =
     res_bind (read_members x a) (\<lambda>(man, members).
     res_bind (check_integrity x man members) (\<lambda>_.
     res_bind (check_capabilities x members) (\<lambda>_.
     check_signature x man trusted allow_unsigned)))"

section \<open>Packing\<close>

text \<open>A source directory: its name, the files under targets/ (\<open>None\<close> when that directory is
  missing) and the optional members present.\<close>

record source_dir =
  sd_name :: string
  sd_targets :: "(string \<times> int list) list option"
  sd_optional :: "(string \<times> int list) list"

definition ends_with :: "string \<Rightarrow> string \<Rightarrow> bool" where
  "ends_with s p \<longleftrightarrow> length p \<le> length s \<and> drop (length s - length p) s = p"

definition glob :: "string \<Rightarrow> (string \<times> int list) list \<Rightarrow> (string \<times> int list) list" where
  "glob suffix files = sort_key fst (filter (\<lambda>(n, _). ends_with n suffix) files)"

text \<open>\<open>Path(name).stem\<close> of a name ending in .frames\<close>

definition stem :: "string \<Rightarrow> string" where
  "stem n = (if length n > 7 then take (length n - 7) n else n)"

definition default_optional :: "string \<Rightarrow> string \<Rightarrow> yval" where
  "default_optional target m =
     (if m = ''interface.yaml'' then
        YMap [(YStr ''ebi_abi'', YStr ''v0''), (YStr ''io_needs'', YList []),
              (YStr ''interrupts'', YList []), (YStr ''clock_mhz'', YInt 100)]
      else if m = ''capabilities.yaml'' then YMap [(YStr ''io'', YList []), (YStr ''services'', YList [])]
      else if m = ''resources.yaml'' then
        YMap [(YStr ''elut'', YInt 0), (YStr ''mem_t'', YInt 0), (YStr ''dsp_t'', YInt 0),
              (YStr ''target'', YStr target)]
      else YMap [(YStr ''watchdog_ms'', YInt 0), (YStr ''restart_policy'', YStr ''never'')])"

definition target_name :: "string \<Rightarrow> string" where
  "target_name n = TARGETS_DIR @ ''/'' @ n"

definition gather_members :: "ext \<Rightarrow> source_dir \<Rightarrow> (string \<times> int list) list \<Rightarrow> string \<Rightarrow> (string \<times> int list) list" where
  "gather_members x sd files target =
     (let ms = foldl (\<lambda>ms (n, c). AList.update (target_name n) c ms) [] (glob ''.frames'' files);
          ms = foldl (\<lambda>ms (n, c). AList.update (target_name n) c ms) ms (glob ''.meta.json'' files)
      in foldl (\<lambda>ms m. AList.update m
             (case map_of (sd_optional sd) m of Some c \<Rightarrow> c
              | None \<Rightarrow> safe_dump x (default_optional target m)) ms) ms OPTIONAL_MEMBERS)"

definition sign_manifest :: "ext \<Rightarrow> int list option \<Rightarrow> manifest \<Rightarrow> manifest" where
  "sign_manifest x priv man =
     (case priv of None \<Rightarrow> man
      | Some k \<Rightarrow> man\<lparr>m_signature := Some
          [(YStr ''algo'', YStr ''ed25519''),
           (YStr ''key_fingerprint'', YStr (x_fingerprint x (x_pub_of x k))),
           (YStr ''value'', YStr (to_hex (x_sign x k (ascii_bytes (m_digest man)))))]\<rparr>)"

text \<open>The tar is written manifest first, then the members in name order. The optional
  arguments \<open>name\<close> and \<open>target\<close> default as in the source; \<open>created\<close> is the time stamp.\<close>

definition archive_of :: "ext \<Rightarrow> manifest \<Rightarrow> (string \<times> int list) list \<Rightarrow> archive" where
  "archive_of x man members =
     (MANIFEST_NAME, Some (safe_dump x (YMap (to_dict man))))
       # map (\<lambda>(n, c). (n, Some c)) (sort_key fst members)"

definition build_manifest ::
  "ext \<Rightarrow> string \<Rightarrow> string \<Rightarrow> string \<Rightarrow> string \<Rightarrow> string \<Rightarrow> (string \<times> int list) list \<Rightarrow> manifest" where
  "build_manifest x name version author target created members =
     (let man = \<lparr>m_name = name, m_version = version, m_target = target, m_author = author,
                 m_created = created, m_members = map (\<lambda>(n, c). (n, sha256_hex c)) members,
                 m_digest = [], m_signature = None\<rparr>
      in man\<lparr>m_digest := manifest_digest x (to_dict man)\<rparr>)"

definition pack_image ::
  "ext \<Rightarrow> source_dir option \<Rightarrow> string option \<Rightarrow> string \<Rightarrow> string \<Rightarrow> string option \<Rightarrow> int list option
     \<Rightarrow> string \<Rightarrow> eth_err + manifest \<times> archive" where
  "pack_image x src name version author target priv created =
     (case src of None \<Rightarrow> Inl NotADirectory
      | Some sd \<Rightarrow>
     (case sd_targets sd of None \<Rightarrow> Inl NoTargetsDir
      | Some files \<Rightarrow>
          if glob ''.frames'' files = [] then Inl NoFrames
          else
            let target = (case target of Some t \<Rightarrow> t | None \<Rightarrow> stem (fst (hd (glob ''.frames'' files))));
                members = gather_members x sd files target in
            res_bind (check_capabilities x members) (\<lambda>_.
              let name' = (case name of Some n \<Rightarrow> if n = [] then sd_name sd else n | None \<Rightarrow> sd_name sd);
                  man = sign_manifest x priv
                          (build_manifest x name' version author target created members)
              in Inr (man, archive_of x man members))))"

end
