(* ===== verification/Efp_Image.thy ===== *)
theory Efp_Image
  imports Ethimg Efp_Session
begin

text \<open>
  \<open>load_image\<close> and \<open>EfpClient\<close> of efp_client.py: a .eth archive is checked on the host and
  turned into what the mailbox needs, and the client builds complete sessions from it.
\<close>

datatype img_err =
  ImgEth eth_err
| ImgCap cap_error
| CapsNotUtf8
| MissingFrames string
| FramesLength nat
| DigestHex
| UnsignedImage
| SigAlgoUnsupported
| SigHex
| ImgSigLength nat
| NoTrustedPk
| SigNotVerified
| ImgSession efp_err
| ColumnWordsRequired
| ColumnMultiple nat
| ImgRegion int
| ColumnsDoNotFit nat int

record staged_image =
  si_name :: string
  si_digest32 :: "int list"
  si_sig64 :: "int list"
  si_frame_words :: "int list"
  si_manifest_digest_hex :: string
  si_signed :: bool
  si_caps :: capabilities
  si_decl_io :: int
  si_decl_svc :: int

definition lift_eth :: "eth_err + 'a \<Rightarrow> img_err + 'a" where
  "lift_eth r = (case r of Inl e \<Rightarrow> Inl (ImgEth e) | Inr v \<Rightarrow> Inr v)"

definition lift_cap :: "cap_error + 'a \<Rightarrow> img_err + 'a" where
  "lift_cap r = (case r of Inl e \<Rightarrow> Inl (ImgCap e) | Inr v \<Rightarrow> Inr v)"

definition lift_session :: "efp_err + 'a \<Rightarrow> img_err + 'a" where
  "lift_session r = (case r of Inl e \<Rightarrow> Inl (ImgSession e) | Inr v \<Rightarrow> Inr v)"

text \<open>\<open>struct.unpack_from("<I", frames_bytes, i)[0] for i in range(0, len, 4)\<close>\<close>

definition frame_words_of :: "int list \<Rightarrow> int list" where
  "frame_words_of bs = map from_bytes_little (chunks 4 bs)"

definition load_frames :: "string \<Rightarrow> (string \<times> int list) list \<Rightarrow> img_err + int list" where
  "load_frames target members =
     (let name = ''targets/'' @ target @ ''.frames'' in
      case map_of members name of
        None \<Rightarrow> Inl (MissingFrames name)
      | Some bs \<Rightarrow>
          if length bs mod 4 \<noteq> 0 \<or> bs = [] then Inl (FramesLength (length bs))
          else Inr (frame_words_of bs))"

definition load_caps :: "ext \<Rightarrow> (string \<times> int list) list \<Rightarrow> img_err + capabilities" where
  "load_caps x members =
     (case map_of members ''capabilities.yaml'' of
        None \<Rightarrow> Inr empty_caps
      | Some blob \<Rightarrow>
          (case x_decode x blob of
             None \<Rightarrow> Inl CapsNotUtf8
           | Some text \<Rightarrow> lift_cap (load_capabilities (x_parse_text x) (CapText text))))"

text \<open>The trust gate: the signature bytes and whether the image is signed.\<close>

definition trust_gate ::
  "ext \<Rightarrow> manifest \<Rightarrow> int list \<Rightarrow> int list option \<Rightarrow> bool \<Rightarrow> img_err + int list \<times> bool" where
  "trust_gate x man digest32 trusted_pk allow_unsigned =
     (case m_signature man of
        None \<Rightarrow>
          if \<not> allow_unsigned then Inl UnsignedImage
          else Inr (replicate (4 * IMG_SIG_WORDS) 0, False)
      | Some sig \<Rightarrow>
          if get_or sig ''algo'' YNull \<noteq> YStr ''ed25519'' then Inl SigAlgoUnsupported
          else
            (case (case get_or sig ''value'' (YStr []) of YStr s \<Rightarrow> fromhex s | _ \<Rightarrow> None) of
               None \<Rightarrow> Inl SigHex
             | Some sig64 \<Rightarrow>
                 if length sig64 \<noteq> 4 * IMG_SIG_WORDS then Inl (ImgSigLength (length sig64))
                 else
                   (case trusted_pk of
                      None \<Rightarrow> if \<not> allow_unsigned then Inl NoTrustedPk else Inr (sig64, True)
                    | Some pk \<Rightarrow>
                        if verify_raw_ed25519 (x_ed x) pk digest32 sig64 then Inr (sig64, True)
                        else Inl SigNotVerified)))"

definition load_image ::
  "ext \<Rightarrow> archive \<Rightarrow> int list option \<Rightarrow> bool \<Rightarrow> int \<Rightarrow> int \<Rightarrow> img_err + staged_image" where
  "load_image x a trusted_pk allow_unsigned io_mask svc_mask =
     res_bind (lift_eth (read_members x a)) (\<lambda>(man, members).
     res_bind (lift_eth (check_integrity x man members)) (\<lambda>_.
     res_bind (load_frames (m_target man) members) (\<lambda>frame_words.
     res_bind (case fromhex (m_digest man) of None \<Rightarrow> Inl DigestHex | Some d \<Rightarrow> Inr d) (\<lambda>digest32.
     res_bind (load_caps x members) (\<lambda>caps.
     res_bind (trust_gate x man digest32 trusted_pk allow_unsigned) (\<lambda>(sig64, signed).
     res_bind (lift_cap (validate_grantable caps io_mask svc_mask)) (\<lambda>_.
     res_bind (lift_cap (to_emri_bitmaps caps)) (\<lambda>(decl_io, decl_svc).
     Inr \<lparr>si_name = m_name man, si_digest32 = digest32, si_sig64 = sig64,
          si_frame_words = frame_words, si_manifest_digest_hex = m_digest man,
          si_signed = signed, si_caps = caps, si_decl_io = decl_io, si_decl_svc = decl_svc\<rparr>))))))))"

section \<open>The client\<close>

text \<open>\<open>EfpClient\<close> has one field, the number of regions; its methods pass the default masks.\<close>

definition client_load :: "ext \<Rightarrow> archive \<Rightarrow> int list option \<Rightarrow> bool \<Rightarrow> img_err + staged_image" where
  "client_load x a trusted_pk allow_unsigned =
     load_image x a trusted_pk allow_unsigned SIM_ALLOWED_IO_MASK SIM_ALLOWED_SVC_MASK"

definition run_image ::
  "ext \<Rightarrow> archive \<Rightarrow> int \<Rightarrow> int list option \<Rightarrow> bool \<Rightarrow> img_err + session \<times> staged_image" where
  "run_image x a region trusted_pk allow_unsigned =
     res_bind (client_load x a trusted_pk allow_unsigned) (\<lambda>img.
     res_bind (lift_session (s_run (si_digest32 img) (si_sig64 img) (si_frame_words img) region
                 (si_decl_io img) (si_decl_svc img) [])) (\<lambda>ops.
     Inr (ops, img)))"

definition client_stop :: "int \<Rightarrow> img_err + session" where
  "client_stop region = lift_session (s_stop region [])"

definition client_restart ::
  "ext \<Rightarrow> archive \<Rightarrow> int list option \<Rightarrow> bool \<Rightarrow> img_err + session \<times> staged_image" where
  "client_restart x a trusted_pk allow_unsigned =
     res_bind (client_load x a trusted_pk allow_unsigned) (\<lambda>img.
     res_bind (lift_session (s_restart (si_frame_words img) [])) (\<lambda>ops. Inr (ops, img)))"

definition client_abort :: "img_err + session" where
  "client_abort = lift_session (s_abort [])"

definition client_ps :: "nat \<Rightarrow> session" where
  "client_ps num_regions = s_ps num_regions []"

text \<open>The three forms \<open>run_packed\<close> takes.\<close>

datatype packed_source =
  FromEth archive
| FromColumns "int list list"
| FromWords "int list"

definition split_columns :: "int list \<Rightarrow> int option \<Rightarrow> img_err + int list list" where
  "split_columns flat column_words =
     (case column_words of
        None \<Rightarrow> Inl ColumnWordsRequired
      | Some cw \<Rightarrow>
          if cw \<le> 0 then Inl ColumnWordsRequired
          else if int (length flat) mod cw \<noteq> 0 then Inl (ColumnMultiple (length flat))
          else Inr (chunks (nat cw) flat))"

definition check_fit :: "nat \<Rightarrow> int \<Rightarrow> int list list \<Rightarrow> img_err + unit" where
  "check_fit num_regions region columns =
     (let n = int num_regions; c = int (length columns) in
      if region \<noteq> EFP_REGION_AUTO \<and> \<not> (0 \<le> region \<and> region < n) then Inl (ImgRegion region)
      else require (\<not> (c > n \<or> region \<noteq> EFP_REGION_AUTO \<and> region + c > n))
             (ColumnsDoNotFit (length columns) region))"

definition run_packed ::
  "ext \<Rightarrow> nat \<Rightarrow> packed_source \<Rightarrow> int \<Rightarrow> int option \<Rightarrow> int list option \<Rightarrow> bool
     \<Rightarrow> img_err + session \<times> staged_image option" where
  "run_packed x num_regions src region column_words trusted_pk allow_unsigned =
     (case src of
        FromEth a \<Rightarrow>
          res_bind (client_load x a trusted_pk allow_unsigned) (\<lambda>img.
          res_bind (split_columns (si_frame_words img) column_words) (\<lambda>columns.
          res_bind (check_fit num_regions region columns) (\<lambda>_.
          res_bind (lift_session (s_run_packed (si_digest32 img) (si_sig64 img) columns region
                      (si_decl_io img) (si_decl_svc img) [])) (\<lambda>ops. Inr (ops, Some img)))))
      | _ \<Rightarrow>
          res_bind (case src of
                      FromColumns cols \<Rightarrow> if cols \<noteq> [] then Inr cols else split_columns [] column_words
                    | FromWords ws \<Rightarrow> split_columns ws column_words
                    | FromEth _ \<Rightarrow> Inr []) (\<lambda>columns.
          res_bind (check_fit num_regions region columns) (\<lambda>_.
          res_bind (lift_session (s_run_packed (replicate (4 * IMG_DIGEST_WORDS) 0)
                      (replicate (4 * IMG_SIG_WORDS) 0) columns region 0 0 [])) (\<lambda>ops. Inr (ops, None)))))"

end
