(* ===== verification/Ethimg_Props.thy ===== *)
theory Ethimg_Props
  imports Ethimg "HOL-Library.Countable"
begin

text \<open>
  The image format: verification is fail-closed and checks every member, two images that
  verify under the same manifest digest have the same content unless SHA-256 collides, and
  what the packer writes verifies.
\<close>

section \<open>Dictionaries and sorted documents\<close>

lemma map_of_filter_key:
  "map_of (filter (\<lambda>kv. f (fst kv) = f k) l) k = map_of l k"
  by (induction l) auto

lemma map_of_sort_key:
  fixes f :: "'k \<Rightarrow> 'o :: linorder"
  shows "map_of (sort_key (\<lambda>kv. f (fst kv)) l) k = map_of l k"
proof -
  have "map_of (sort_key (\<lambda>kv. f (fst kv)) l) k
      = map_of (filter (\<lambda>kv. f (fst kv) = f k) (sort_key (\<lambda>kv. f (fst kv)) l)) k"
    by (rule map_of_filter_key [symmetric])
  also have "\<dots> = map_of (filter (\<lambda>kv. f (fst kv) = f k) l) k"
    by (simp only: sort_key_stable)
  finally show ?thesis by (simp only: map_of_filter_key)
qed

lemma map_of_map_values: "map_of (map (\<lambda>(k, v). (k, f v)) l) k = map_option f (map_of l k)"
  by (induction l) auto

text \<open>The mapping inside a sorted document.\<close>

definition sorted_map :: "(yval \<times> yval) list \<Rightarrow> (yval \<times> yval) list" where
  "sorted_map m = sort_key (\<lambda>kv. key_text (fst kv)) (map (\<lambda>(k, v). (k, sort_doc v)) m)"

lemma sort_doc_map: "sort_doc (YMap m) = YMap (sorted_map m)"
  by (simp add: sorted_map_def)

lemma map_of_sorted_map: "map_of (sorted_map m) k = map_option sort_doc (map_of m k)"
  unfolding sorted_map_def map_of_sort_key map_of_map_values ..

lemma get_or_sorted: "get_or (sorted_map m) k dflt = (case map_of m (YStr k) of Some v \<Rightarrow> sort_doc v | None \<Rightarrow> dflt)"
  by (simp add: get_or_def map_of_sorted_map split: option.splits)

lemma dict_put_all:
  "distinct (map fst l) \<Longrightarrow> fst ` set l \<inter> fst ` set acc = {} \<Longrightarrow>
     foldl (\<lambda>acc (k, v). AList.update k v acc) acc l = acc @ l"
proof (induction l arbitrary: acc)
  case (Cons x l)
  obtain k v where x: "x = (k, v)" by (cases x)
  have fresh: "k \<notin> fst ` set acc \<Longrightarrow> AList.update k v acc = acc @ [(k, v)]" for acc
    by (induction acc) auto
  have "foldl (\<lambda>acc (k, v). AList.update k v acc) (acc @ [(k, v)]) l = (acc @ [(k, v)]) @ l"
    by (rule Cons.IH) (use Cons.prems x in auto)
  with Cons.prems x fresh show ?case by simp
qed simp

section \<open>The members read from an archive\<close>

lemma map_of_update: "map_of (AList.update k v l) n = (if n = k then Some v else map_of l n)"
  by (simp add: update_conv)

lemma members_lookup:
  "map_of (foldl (\<lambda>ms n. if n = MANIFEST_NAME then ms
        else case extractfile a n of None \<Rightarrow> ms | Some c \<Rightarrow> AList.update n c ms) acc ns) k
   = (if k \<in> set ns \<and> k \<noteq> MANIFEST_NAME \<and> extractfile a k \<noteq> None then extractfile a k else map_of acc k)"
  by (induction ns arbitrary: acc) (auto simp: map_of_update split: option.splits)

lemma extractfile_name: "extractfile a k \<noteq> None \<Longrightarrow> k \<in> set (map fst a)"
proof -
  assume "extractfile a k \<noteq> None"
  then obtain c where "map_of (rev a) k = Some c" by (auto simp: extractfile_def split: option.splits)
  from map_of_SomeD [OF this] show ?thesis by force
qed

lemma read_members_lookup:
  assumes "read_members x a = Inr (man, members)"
  shows "map_of members k = (if k = MANIFEST_NAME then None else extractfile a k)"
proof -
  from assms have "members = foldl (\<lambda>ms n. if n = MANIFEST_NAME then ms
        else case extractfile a n of None \<Rightarrow> ms | Some c \<Rightarrow> AList.update n c ms) [] (map fst a)"
    by (auto simp: read_members_def res_simps split: if_splits option.splits)
  moreover have "extractfile a k \<noteq> None \<Longrightarrow> k \<in> set (map fst a)" by (rule extractfile_name)
  ultimately show ?thesis
    by (cases "extractfile a k") (simp_all add: members_lookup)
qed

lemma check_integrity_Inr:
  assumes "check_integrity x man members = Inr ()"
  shows "\<And>n dig. (n, dig) \<in> set (m_members man) \<Longrightarrow> \<exists>c. map_of members n = Some c \<and> sha256_hex c = dig"
    and "\<And>n c. map_of members n = Some c \<Longrightarrow> map_of (m_members man) n = Some (sha256_hex c)"
    and "manifest_digest x (to_dict man) = m_digest man"
proof -
  from assms have all: "\<forall>nd \<in> set (m_members man). check_member members nd = Inr ()"
    and decl: "\<forall>nc \<in> set members. map_of (m_members man) (fst nc) \<noteq> None"
    and md: "manifest_digest x (to_dict man) = m_digest man"
    by (auto simp: check_integrity_def res_simps)
  show found: "\<exists>c. map_of members n = Some c \<and> sha256_hex c = dig" if "(n, dig) \<in> set (m_members man)" for n dig
    using all that by (fastforce simp: check_member_def require_def split: option.splits if_splits)
  show "map_of (m_members man) n = Some (sha256_hex c)" if "map_of members n = Some c" for n c
  proof -
    from that have "(n, c) \<in> set members" by (rule map_of_SomeD)
    with decl obtain dig where "map_of (m_members man) n = Some dig" by fastforce
    with found [OF map_of_SomeD [OF this]] that show ?thesis by simp
  qed
  show "manifest_digest x (to_dict man) = m_digest man" by (rule md)
qed

lemma try_keys_same: "try_keys x ks man s = Inr m \<Longrightarrow> m = man"
  by (induction ks) (auto simp: res_simps split: if_splits)

lemma check_signature_same: "check_signature x man trusted au = Inr m \<Longrightarrow> m = man"
  by (auto simp: check_signature_def dest: try_keys_same split: option.splits if_splits)

lemma verify_Inr:
  assumes "verify x a trusted au = Inr man"
  obtains members where "read_members x a = Inr (man, members)" and "check_integrity x man members = Inr ()"
    and "check_capabilities x members = Inr ()" and "check_signature x man trusted au = Inr man"
proof -
  from assms obtain m members where m: "read_members x a = Inr (m, members)"
    "check_integrity x m members = Inr ()" "check_capabilities x members = Inr ()"
    "check_signature x m trusted au = Inr man" by (auto simp: verify_def res_simps)
  moreover from this(4) have "man = m" by (rule check_signature_same)
  ultimately show ?thesis using that by simp
qed

section \<open>Fail-closed verification\<close>

lemma try_keys_Inr:
  "try_keys x ks man sig = Inr m \<Longrightarrow>
     \<exists>k \<in> set ks. \<exists>pk s sb. x_load_pub x k = Some pk \<and> sig = YStr s \<and> fromhex s = Some sb
        \<and> x_ed x pk sb (ascii_bytes (m_digest man))"
proof (induction ks)
  case (Cons k ks)
  from Cons.prems obtain ok where ok: "verify_sig x k (m_digest man) sig = Inr ok"
    and rest: "(if ok then Inr man else try_keys x ks man sig) = Inr m" by (auto simp: res_simps)
  show ?case
  proof (cases ok)
    case True
    with ok show ?thesis by (auto simp: verify_sig_def split: option.splits yval.splits)
  next
    case False
    with rest Cons.IH show ?thesis by auto
  qed
qed simp

text \<open>C8: an image that verifies without allow_unsigned is exactly what was signed: every file of
  the archive except the manifest is declared with its own SHA-256, every declared member is
  present, the manifest digest is the digest of the manifest's fields, and the signature over
  that digest checks under one of the trusted keys.\<close>

theorem verify_fail_closed:
  assumes "verify x a trusted False = Inr man"
  shows "(\<forall>n c. n \<noteq> MANIFEST_NAME \<and> extractfile a n = Some c \<longrightarrow> map_of (m_members man) n = Some (sha256_hex c))
    \<and> (\<forall>(n, dig) \<in> set (m_members man). \<exists>c. extractfile a n = Some c \<and> sha256_hex c = dig)
    \<and> m_digest man = manifest_digest x (to_dict man)
    \<and> (\<exists>sig ks k pk s sb. m_signature man = Some sig \<and> trusted = Some ks \<and> k \<in> set ks
         \<and> x_load_pub x k = Some pk \<and> get_or sig ''value'' (YStr []) = YStr s \<and> fromhex s = Some sb
         \<and> x_ed x pk sb (ascii_bytes (m_digest man)))"
proof (intro conjI)
  from assms obtain members where rd: "read_members x a = Inr (man, members)"
    and ci: "check_integrity x man members = Inr ()" and cs: "check_signature x man trusted False = Inr man"
    by (rule verify_Inr)
  note look = read_members_lookup [OF rd] and ok = check_integrity_Inr [OF ci]
  show "\<forall>n c. n \<noteq> MANIFEST_NAME \<and> extractfile a n = Some c \<longrightarrow> map_of (m_members man) n = Some (sha256_hex c)"
    using ok(2) by (simp add: look)
  show "\<forall>(n, dig) \<in> set (m_members man). \<exists>c. extractfile a n = Some c \<and> sha256_hex c = dig"
  proof clarify
    fix n dig assume "(n, dig) \<in> set (m_members man)"
    from ok(1) [OF this] obtain c where "(if n = MANIFEST_NAME then None else extractfile a n) = Some c"
      "sha256_hex c = dig" unfolding look by blast
    then show "\<exists>c. extractfile a n = Some c \<and> sha256_hex c = dig" by (cases "n = MANIFEST_NAME") simp_all
  qed
  show "m_digest man = manifest_digest x (to_dict man)" using ok(3) by simp
  from cs obtain sig ks where sig: "m_signature man = Some sig" "trusted = Some ks"
    and tk: "try_keys x ks man (get_or sig ''value'' (YStr [])) = Inr man"
    by (auto simp: check_signature_def split: option.splits if_splits)
  from sig try_keys_Inr [OF tk] show "\<exists>sig ks k pk s sb. m_signature man = Some sig \<and> trusted = Some ks \<and> k \<in> set ks
         \<and> x_load_pub x k = Some pk \<and> get_or sig ''value'' (YStr []) = YStr s \<and> fromhex s = Some sb
         \<and> x_ed x pk sb (ascii_bytes (m_digest man))" by blast
qed

section \<open>What the digest determines\<close>

text \<open>The documents a YAML dump reproduces: mappings with distinct string keys in order.\<close>

fun plain_doc :: "yval \<Rightarrow> bool" where
  "plain_doc (YMap m) \<longleftrightarrow> list_all (\<lambda>(k, v). k = YStr (key_text k) \<and> plain_doc v) m
     \<and> distinct (map fst m) \<and> sorted (map (\<lambda>kv. key_text (fst kv)) m)"
| "plain_doc (YList xs) \<longleftrightarrow> list_all plain_doc xs"
| "plain_doc (YOther s) \<longleftrightarrow> False"
| "plain_doc v \<longleftrightarrow> True"

text \<open>The documented behaviour of the YAML package: loading what was dumped gives it back.\<close>

definition yaml_ok :: "ext \<Rightarrow> bool" where
  "yaml_ok x \<longleftrightarrow> (\<forall>d. plain_doc d \<longrightarrow> x_parse x (x_emit x d) = Some d)"

lemma sha256_hex_eq: "sha256_hex u = sha256_hex v \<longleftrightarrow> sha256 u = sha256 v"
  using to_hex_inject sha256_bytes by (fastforce simp: sha256_hex_def)

text \<open>Two given byte strings that collide, and two files of one name that do\<close>

definition clash :: "int list \<Rightarrow> int list \<Rightarrow> bool" where
  "clash u v \<longleftrightarrow> u \<noteq> v \<and> sha256 u = sha256 v"

definition files_clash :: "int list option \<Rightarrow> int list option \<Rightarrow> bool" where
  "files_clash f g \<longleftrightarrow> (case (f, g) of (Some u, Some v) \<Rightarrow> clash u v | _ \<Rightarrow> False)"

lemma same_hash: "sha256_hex u = sha256_hex v \<Longrightarrow> u = v \<or> clash u v"
  by (auto simp: sha256_hex_eq clash_def)

lemma distinct_sort_fst: "distinct (map fst (sort_key f l)) \<longleftrightarrow> distinct (map fst l)"
  by (simp add: distinct_map)

lemma plain_sort_doc_map:
  assumes "list_all (\<lambda>(k, v). k = YStr (key_text k) \<and> plain_doc (sort_doc v)) m" and "distinct (map fst m)"
  shows "plain_doc (sort_doc (YMap m))"
proof -
  have "distinct (map fst (sorted_map m))"
  proof -
    have "distinct (map fst (map (\<lambda>(k, v). (k, sort_doc v)) m))"
      using assms(2) by (simp add: o_def case_prod_unfold)
    then show ?thesis unfolding sorted_map_def distinct_sort_fst .
  qed
  moreover have "sorted (map (\<lambda>kv. key_text (fst kv)) (sorted_map m))"
    unfolding sorted_map_def by (rule sorted_sort_key)
  moreover have "list_all (\<lambda>(k, v). k = YStr (key_text k) \<and> plain_doc v) (sorted_map m)"
    using assms(1) by (auto simp: sorted_map_def list_all_iff)
  ultimately show ?thesis unfolding sort_doc_map by simp
qed

lemma plain_str_map: "distinct (map fst l) \<Longrightarrow> plain_doc (sort_doc (str_map l))"
  unfolding str_map_def
  by (rule plain_sort_doc_map)
    (auto simp: list_all_iff key_text_def distinct_map inj_on_def case_prod_unfold)

text \<open>The fields the digest covers.\<close>

definition digest_fields :: "manifest \<Rightarrow> (yval \<times> yval) list" where
  "digest_fields man = filter (\<lambda>(k, v). k \<noteq> YStr ''signature'' \<and> k \<noteq> YStr ''manifest_digest'') (to_dict man)"

lemma digest_fields_eq:
  "digest_fields man =
     [(YStr ''schema'', YStr SCHEMA), (YStr ''name'', YStr (m_name man)),
      (YStr ''version'', YStr (m_version man)), (YStr ''target'', YStr (m_target man)),
      (YStr ''author'', YStr (m_author man)), (YStr ''created'', YStr (m_created man)),
      (YStr ''digest_algo'', YStr DIGEST_ALGO), (YStr ''members'', str_map (m_members man))]"
  by (simp add: digest_fields_def to_dict_def split: option.splits)

lemma manifest_digest_fields:
  "manifest_digest x (to_dict man) = sha256_hex (x_emit x (sort_doc (YMap (digest_fields man))))"
  by (simp add: manifest_digest_def safe_dump_def digest_fields_def)

text \<open>The bytes that are hashed for the manifest digest\<close>

definition digest_bytes :: "ext \<Rightarrow> manifest \<Rightarrow> int list" where
  "digest_bytes x man = safe_dump x (YMap (digest_fields man))"

lemma plain_digest_fields:
  "distinct (map fst (m_members man)) \<Longrightarrow> plain_doc (sort_doc (YMap (digest_fields man)))"
  unfolding digest_fields_eq
  by (rule plain_sort_doc_map) (simp_all add: key_text_def plain_str_map)

lemma same_sorted_lookup:
  "sort_doc (YMap m) = sort_doc (YMap m') \<Longrightarrow> map_option sort_doc (map_of m k) = map_option sort_doc (map_of m' k)"
  unfolding sort_doc_map by (metis map_of_sorted_map yval.inject(6))

lemma str_map_lookup: "map_of (map (\<lambda>(k, v). (YStr k, YStr v)) l) (YStr n) = map_option YStr (map_of l n)"
  by (induction l) auto

lemma same_members:
  assumes "sort_doc (str_map l) = sort_doc (str_map l')"
  shows "map_of l n = map_of l' n"
proof -
  have "map_option sort_doc (map_option YStr (map_of l n)) = map_option sort_doc (map_option YStr (map_of l' n))"
    using same_sorted_lookup [OF assms [unfolded str_map_def], of "YStr n"] by (simp only: str_map_lookup)
  then show ?thesis by (cases "map_of l n"; cases "map_of l' n") simp_all
qed

lemma from_dict_distinct:
  assumes "from_dict x d = Inr man"
  shows "distinct (map fst (m_members man))"
proof -
  have "distinct (map fst acc) \<Longrightarrow>
      distinct (map fst (foldl (\<lambda>acc (k, v). AList.update (py_str x k) (py_str x v) acc) acc l))"
    for acc and l :: "(yval \<times> yval) list"
    by (induction l arbitrary: acc) (auto simp: distinct_update)
  then show ?thesis using assms
    by (auto simp: from_dict_def members_of_def res_simps split: yval.splits)
qed

lemma read_members_distinct:
  "read_members x a = Inr (man, members) \<Longrightarrow> distinct (map fst (m_members man))"
  by (auto simp: read_members_def parse_manifest_def res_simps dest: from_dict_distinct
      split: if_splits option.splits yval.splits)

text \<open>C9: the signed digest determines the image. Take two archives that both verify with the same manifest
  digest. Either the dumps of their two manifests, without digest and signature, are themselves
  different and collide under SHA-256, or the manifests have the same name, version, target, author,
  time stamp and declared members. In that case every other file is in both archives with the same bytes or in
  neither, except a file whose two contents, as they stand in the two archives, are different and
  collide. The YAML package is assumed to load back what it dumped.\<close>

theorem digest_determines_image:
  assumes "yaml_ok x" and "verify x a trusted au = Inr man" and "verify x a' trusted' au' = Inr man'"
    and "m_digest man = m_digest man'"
  shows "clash (digest_bytes x man) (digest_bytes x man') \<or>
    m_name man = m_name man' \<and> m_version man = m_version man' \<and> m_target man = m_target man'
    \<and> m_author man = m_author man' \<and> m_created man = m_created man' \<and> map_of (m_members man) = map_of (m_members man')
    \<and> (\<forall>n. n = MANIFEST_NAME \<or> extractfile a n = extractfile a' n \<or> files_clash (extractfile a n) (extractfile a' n))"
proof (cases "clash (digest_bytes x man) (digest_bytes x man')")
  case False
  from assms(2) obtain ms where r: "read_members x a = Inr (man, ms)" "check_integrity x man ms = Inr ()"
    by (rule verify_Inr)
  from assms(3) obtain ms' where r': "read_members x a' = Inr (man', ms')" "check_integrity x man' ms' = Inr ()"
    by (rule verify_Inr)
  let ?d = "sort_doc (YMap (digest_fields man))" and ?d' = "sort_doc (YMap (digest_fields man'))"
  have bytes: "digest_bytes x man = x_emit x ?d" "digest_bytes x man' = x_emit x ?d'"
    by (simp_all add: digest_bytes_def safe_dump_def)
  have "sha256_hex (x_emit x ?d) = sha256_hex (x_emit x ?d')"
    using check_integrity_Inr(3) [OF r(2)] check_integrity_Inr(3) [OF r'(2)] assms(4)
    by (simp only: manifest_digest_fields)
  with False have "x_emit x ?d = x_emit x ?d'" unfolding bytes using same_hash by blast
  then have eq: "?d = ?d'"
    using assms(1) plain_digest_fields read_members_distinct [OF r(1)] read_members_distinct [OF r'(1)]
    unfolding yaml_ok_def by (metis option.inject)
  note look = same_sorted_lookup [OF eq, unfolded digest_fields_eq]
  have fields: "m_name man = m_name man'" "m_version man = m_version man'" "m_target man = m_target man'"
    "m_author man = m_author man'" "m_created man = m_created man'"
    "sort_doc (str_map (m_members man)) = sort_doc (str_map (m_members man'))"
    using look [of "YStr ''name''"] look [of "YStr ''version''"] look [of "YStr ''target''"]
      look [of "YStr ''author''"] look [of "YStr ''created''"] look [of "YStr ''members''"] by simp_all
  have decl: "map_of (m_members man) n = map_of (m_members man') n" for n
    using same_members [OF fields(6)] .
  have "extractfile a n = extractfile a' n \<or> files_clash (extractfile a n) (extractfile a' n)" if n: "n \<noteq> MANIFEST_NAME" for n
  proof -
    have ms: "map_of ms n = extractfile a n" "map_of ms' n = extractfile a' n"
      using read_members_lookup [OF r(1), of n] read_members_lookup [OF r'(1), of n] n by simp_all
    have hash: "map_of ms n = Some c \<Longrightarrow> map_of (m_members man) n = Some (sha256_hex c)"
      "map_of ms' n = Some c \<Longrightarrow> map_of (m_members man') n = Some (sha256_hex c)" for c
      using check_integrity_Inr(2) [OF r(2)] check_integrity_Inr(2) [OF r'(2)] by blast+
    have found: "map_of (m_members man) n = Some g \<Longrightarrow> map_of ms n \<noteq> None"
      "map_of (m_members man') n = Some g \<Longrightarrow> map_of ms' n \<noteq> None" for g
      using check_integrity_Inr(1) [OF r(2)] check_integrity_Inr(1) [OF r'(2)] map_of_SomeD by fastforce+
    show ?thesis
      using hash found decl [of n] same_hash unfolding ms files_clash_def
      by (cases "extractfile a n"; cases "extractfile a' n") fastforce+
  qed
  with fields decl show ?thesis by blast
qed simp

section \<open>What the packer writes verifies\<close>

lemma insort_map: "insort_key f (g x) (map g xs) = map g (insort_key (\<lambda>y. f (g y)) x xs)"
  by (induction xs) auto

lemma sort_map: "sort_key f (map g xs) = map g (sort_key (\<lambda>y. f (g y)) xs)"
  by (induction xs) (auto simp: insort_map)

lemma sorted_str_map:
  "sorted_map (map (\<lambda>(k, v). (YStr k, YStr v)) l) = map (\<lambda>(k, v). (YStr k, YStr v)) (sort_key fst l)"
proof -
  have "map (\<lambda>(k, v). (k, sort_doc v)) (map (\<lambda>(k, v). (YStr k, YStr v)) l)
      = map (\<lambda>(k, v). (YStr k, YStr v)) l" by (auto simp: case_prod_unfold)
  then show ?thesis
    unfolding sorted_map_def by (simp add: sort_map) (simp add: case_prod_unfold key_text_def)
qed

lemma sort_doc_str_map: "sort_doc (str_map l) = YMap (map (\<lambda>(k, v). (YStr k, YStr v)) (sort_key fst l))"
  unfolding str_map_def sort_doc_map sorted_str_map ..

lemma sort_sorted: "sort_key f (sort_key f l) = sort_key f l"
  by (rule sort_key_id_if_sorted) (rule sorted_sort_key)

text \<open>A manifest as it is read back: mappings in key order.\<close>

definition read_back :: "manifest \<Rightarrow> manifest" where
  "read_back man = man\<lparr>m_members := sort_key fst (m_members man),
     m_signature := map_option sorted_map (m_signature man)\<rparr>"

lemma members_read_back:
  assumes "distinct (map fst (m_members man))"
  shows "members_of x (sorted_map (to_dict man)) = Inr (sort_key fst (m_members man))"
proof -
  have "get_or (sorted_map (to_dict man)) ''members'' (YMap []) = sort_doc (str_map (m_members man))"
    by (simp add: get_or_sorted to_dict_def)
  moreover have "foldl (\<lambda>acc (k, v). AList.update (py_str x k) (py_str x v) acc) acc
      (map (\<lambda>(k, v). (YStr k, YStr v)) l) = foldl (\<lambda>acc (k, v). AList.update k v acc) acc l" for acc l
    by (induction l arbitrary: acc) (auto simp: py_str_def)
  ultimately show ?thesis
    using dict_put_all [of "sort_key fst (m_members man)" "[]"] assms
    by (simp add: members_of_def sort_doc_str_map distinct_map)
qed

lemma from_dict_to_dict:
  assumes "distinct (map fst (m_members man))"
  shows "from_dict x (sorted_map (to_dict man)) = Inr (read_back man)"
proof -
  note g = get_or_sorted [of "to_dict man"]
  have look: "map_of (to_dict man) (YStr ''schema'') = Some (YStr SCHEMA)"
    "map_of (to_dict man) (YStr ''name'') = Some (YStr (m_name man))"
    "map_of (to_dict man) (YStr ''version'') = Some (YStr (m_version man))"
    "map_of (to_dict man) (YStr ''target'') = Some (YStr (m_target man))"
    "map_of (to_dict man) (YStr ''author'') = Some (YStr (m_author man))"
    "map_of (to_dict man) (YStr ''created'') = Some (YStr (m_created man))"
    "map_of (to_dict man) (YStr ''manifest_digest'') = Some (YStr (m_digest man))"
    "map_of (to_dict man) (YStr ''signature'') = map_option YMap (m_signature man)"
    by (simp_all add: to_dict_def split: option.splits)
  have n: "need (sorted_map (to_dict man)) k = (case map_of (to_dict man) (YStr k) of
      Some v \<Rightarrow> Inr (sort_doc v) | None \<Rightarrow> Inl (KeyErr k))" for k
    by (simp add: need_def map_of_sorted_map split: option.splits)
  have sch: "check_schema (sorted_map (to_dict man)) = Inr ()"
    by (simp add: check_schema_def g look starts_with_def)
  have sg: "signature_of (sorted_map (to_dict man)) = Inr (map_option sorted_map (m_signature man))"
    by (cases "m_signature man") (simp_all add: signature_of_def g look sort_doc_map del: sort_doc.simps(1))
  show ?thesis
    by (simp add: from_dict_def sch sg members_read_back [OF assms] n g look py_str_def read_back_def)
qed

lemma digest_read_back: "manifest_digest x (to_dict (read_back man)) = manifest_digest x (to_dict man)"
proof -
  have "sort_doc (str_map (sort_key fst (m_members man))) = sort_doc (str_map (m_members man))"
    by (simp add: sort_doc_str_map sort_sorted)
  then have "sort_doc (YMap (digest_fields (read_back man))) = sort_doc (YMap (digest_fields man))"
    by (simp add: digest_fields_eq read_back_def)
  then show ?thesis by (simp only: manifest_digest_fields)
qed

lemma plain_to_dict:
  assumes "distinct (map fst (m_members man))"
    and "\<And>s. m_signature man = Some s \<Longrightarrow> plain_doc (sort_doc (YMap s))"
  shows "plain_doc (sort_doc (YMap (to_dict man)))"
  by (rule plain_sort_doc_map)
    (use assms plain_str_map in \<open>auto simp: to_dict_def key_text_def simp del: sort_doc.simps(1) split: option.splits\<close>)

lemma map_of_rev: "distinct (map fst l) \<Longrightarrow> map_of (rev l) = map_of l"
proof (induction l)
  case (Cons x l)
  then have "map_of l (fst x) = None" by (simp add: map_of_eq_None_iff)
  with Cons show ?case by (auto simp: fun_eq_iff map_add_def split: option.splits)
qed simp

lemma extractfile_distinct:
  "distinct (map fst a) \<Longrightarrow> extractfile a n = (case map_of a n of Some c \<Rightarrow> c | None \<Rightarrow> None)"
  by (simp add: extractfile_def map_of_rev)

text \<open>The archive of a manifest and its members, read back.\<close>

lemma read_archive:
  assumes "yaml_ok x" and "distinct (map fst members)" and "MANIFEST_NAME \<notin> fst ` set members"
    and "distinct (map fst (m_members man))"
    and "\<And>s. m_signature man = Some s \<Longrightarrow> plain_doc (sort_doc (YMap s))"
  shows "read_members x (archive_of x man members) = Inr (read_back man, sort_key fst members)"
proof -
  let ?a = "archive_of x man members" and ?ms = "sort_key fst members"
  have names: "map fst ?a = MANIFEST_NAME # map fst ?ms"
    by (simp add: archive_of_def o_def case_prod_unfold)
  have dist: "distinct (map fst ?a)"
    unfolding names using assms(2,3) by (simp add: distinct_sort_fst)
  have ex_m: "extractfile ?a MANIFEST_NAME = Some (safe_dump x (YMap (to_dict man)))"
    unfolding extractfile_distinct [OF dist] by (simp add: archive_of_def)
  have ex: "extractfile ?a n = Some c" if "(n, c) \<in> set ?ms" for n c
  proof -
    have "(n, Some c) \<in> set ?a" using that by (force simp: archive_of_def)
    with dist have "map_of ?a n = Some (Some c)" by simp
    then show ?thesis unfolding extractfile_distinct [OF dist] by simp
  qed
  let ?step = "\<lambda>ms n. if n = MANIFEST_NAME then ms
      else case extractfile ?a n of None \<Rightarrow> ms | Some c \<Rightarrow> AList.update n c ms"
  have "foldl ?step acc (map fst l) = foldl (\<lambda>acc (k, v). AList.update k v acc) acc l"
    if "set l \<subseteq> set ?ms" for acc l
    using that
  proof (induction l arbitrary: acc)
    case (Cons y l)
    obtain n c where y: "y = (n, c)" by (cases y)
    with Cons.prems ex have "extractfile ?a n = Some c" by simp
    moreover from Cons.prems y assms(3) have "n \<noteq> MANIFEST_NAME" by force
    ultimately show ?case using Cons y by simp
  qed simp
  from this [of ?ms "[]"] have "foldl ?step [] (map fst ?a) = ?ms"
    unfolding names using dict_put_all [of ?ms "[]"] assms(2) by (simp add: distinct_sort_fst)
  moreover have "x_parse x (safe_dump x (YMap (to_dict man))) = Some (sort_doc (YMap (to_dict man)))"
    using assms(1) plain_to_dict [OF assms(4,5)] by (simp add: yaml_ok_def safe_dump_def)
  moreover have "sorted_map (to_dict man) \<noteq> []"
  proof
    assume "sorted_map (to_dict man) = []"
    then have "map_of (to_dict man) (YStr ''name'') = None"
      using map_of_sorted_map [of "to_dict man" "YStr ''name''"] by simp
    then show False by (simp add: to_dict_def split: option.splits)
  qed
  moreover have "MANIFEST_NAME \<in> fst ` set ?a" by (simp add: archive_of_def)
  ultimately show ?thesis
    using names ex_m from_dict_to_dict [OF assms(4)]
    by (simp add: read_members_def parse_manifest_def sort_doc_map falsy_def del: sort_doc.simps(1))
qed

text \<open>The members the packer gathers have distinct names, none of them the manifest's.\<close>

lemma fst_update: "fst ` set (AList.update k v l) = insert k (fst ` set l)"
  by (induction l) auto

lemma gather_fold:
  "distinct (map fst acc) \<Longrightarrow> distinct (map fst (foldl (\<lambda>ms (n, c). AList.update (f n) (g n c) ms) acc l))
     \<and> fst ` set (foldl (\<lambda>ms (n, c). AList.update (f n) (g n c) ms) acc l) = fst ` set acc \<union> f ` fst ` set l"
proof (induction l arbitrary: acc)
  case (Cons y l)
  obtain n c where y: "y = (n, c)" by (cases y)
  from Cons.prems have "distinct (map fst (AList.update (f n) (g n c) acc))" by (rule distinct_update)
  from Cons.IH [OF this] y show ?case by (simp add: fst_update)
qed simp

lemma gather_opts:
  "distinct (map fst acc) \<Longrightarrow> distinct (map fst (foldl (\<lambda>ms m. AList.update m (h m) ms) acc l))
      \<and> fst ` set (foldl (\<lambda>ms m. AList.update m (h m) ms) acc l) = fst ` set acc \<union> set l"
proof (induction l arbitrary: acc)
  case (Cons m l)
  from Cons.prems have "distinct (map fst (AList.update m (h m) acc))" by (rule distinct_update)
  from Cons.IH [OF this] show ?case by (simp add: fst_update)
qed simp

lemma gather_members_names:
  "distinct (map fst (gather_members x sd files target))"
  "MANIFEST_NAME \<notin> fst ` set (gather_members x sd files target)"
proof -
  let ?t = "\<lambda>acc l. foldl (\<lambda>ms (n, c). AList.update (target_name n) c ms) acc l"
  let ?ms = "?t (?t [] (glob ''.frames'' files)) (glob ''.meta.json'' files)"
  have a: "distinct (map fst (?t [] l)) \<and> fst ` set (?t [] l) = target_name ` fst ` set l" for l
    using gather_fold [of "[]" target_name "\<lambda>n c. c" l] by simp
  have ms: "distinct (map fst ?ms)" "fst ` set ?ms \<subseteq> range target_name"
    using gather_fold [of "?t [] (glob ''.frames'' files)" target_name "\<lambda>n c. c" "glob ''.meta.json'' files"]
      a [of "glob ''.frames'' files"] by auto
  show "distinct (map fst (gather_members x sd files target))"
    unfolding gather_members_def Let_def by (rule gather_opts [OF ms(1), THEN conjunct1])
  have "MANIFEST_NAME \<notin> range target_name" by (auto simp: target_name_def)
  moreover have "MANIFEST_NAME \<notin> set OPTIONAL_MEMBERS" by (simp add: OPTIONAL_MEMBERS_def)
  ultimately show "MANIFEST_NAME \<notin> fst ` set (gather_members x sd files target)"
    unfolding gather_members_def Let_def gather_opts [OF ms(1), THEN conjunct2] using ms(2) by blast
qed

lemma map_of_sort_fst: "map_of (sort_key fst l) k = map_of l k" for l :: "(string \<times> 'v) list"
  using map_of_sort_key [of "\<lambda>k. k" l] by simp

lemma digest_fields_only:
  "m_name m = m_name m' \<Longrightarrow> m_version m = m_version m' \<Longrightarrow> m_target m = m_target m' \<Longrightarrow>
   m_author m = m_author m' \<Longrightarrow> m_created m = m_created m' \<Longrightarrow> m_members m = m_members m' \<Longrightarrow>
     manifest_digest x (to_dict m) = manifest_digest x (to_dict m')"
  by (simp add: manifest_digest_fields digest_fields_eq)

lemma build_manifest_digest:
  "m_digest (build_manifest x n v au t c ms)
     = manifest_digest x (to_dict (build_manifest x n v au t c ms))"
  by (simp add: build_manifest_def Let_def) (rule digest_fields_only; simp)

lemma sign_manifest_simps [simp]:
  "m_digest (sign_manifest x priv man) = m_digest man" "m_members (sign_manifest x priv man) = m_members man"
  "manifest_digest x (to_dict (sign_manifest x priv man)) = manifest_digest x (to_dict man)"
  by (auto simp: sign_manifest_def split: option.splits intro: digest_fields_only)

lemma packed_integrity:
  fixes members :: "(string \<times> int list) list"
  assumes "distinct (map fst members)" and "m_members man = map (\<lambda>(n, c). (n, sha256_hex c)) members"
    and "m_digest man = manifest_digest x (to_dict man)"
  shows "check_integrity x (read_back man) (sort_key fst members) = Inr ()"
proof -
  have "check_member (sort_key fst members) nd = Inr ()" if "nd \<in> set (m_members man)" for nd
  proof -
    from that obtain n c where nd: "nd = (n, sha256_hex c)" "(n, c) \<in> set members"
      by (auto simp: assms(2))
    with assms(1) have "map_of (sort_key fst members) n = Some c" by (simp add: map_of_sort_fst)
    with nd show ?thesis by (simp add: check_member_def)
  qed
  moreover have "map_of (sort_key fst (m_members man)) n \<noteq> None" if "(n, c) \<in> set members" for n c
  proof -
    have "n \<in> fst ` set (m_members man)" using that by (force simp: assms(2))
    then show ?thesis unfolding map_of_sort_fst by (simp add: map_of_eq_None_iff)
  qed
  ultimately show ?thesis
    using assms(3) digest_read_back [of x man]
    by (auto simp: check_integrity_def res_simps read_back_def)
qed

lemma signature_plain:
  "m_signature (sign_manifest x priv (build_manifest x n v au t c ms)) = Some s \<Longrightarrow>
     plain_doc (sort_doc (YMap s))"
  by (auto simp: sign_manifest_def build_manifest_def Let_def split: option.splits
      intro!: plain_sort_doc_map simp: key_text_def simp del: sort_doc.simps(1))

lemma packed_reads:
  assumes "yaml_ok x" and "pack_image x src name version author target (Some k) created = Inr (man, a)"
  obtains sd files t where
    "src = Some sd" and "sd_targets sd = Some files" and "glob ''.frames'' files \<noteq> []"
    and "t = (case target of Some t \<Rightarrow> t | None \<Rightarrow> stem (fst (hd (glob ''.frames'' files))))"
    and "m_target man = t" and "m_digest man = manifest_digest x (to_dict man)"
    and "read_members x a = Inr (read_back man, sort_key fst (gather_members x sd files t))"
    and "check_integrity x (read_back man) (sort_key fst (gather_members x sd files t)) = Inr ()"
    and "check_capabilities x (sort_key fst (gather_members x sd files t)) = Inr ()"
    and "m_signature (read_back man) = Some (sorted_map
      [(YStr ''algo'', YStr ''ed25519''),
       (YStr ''key_fingerprint'', YStr (x_fingerprint x (x_pub_of x k))),
       (YStr ''value'', YStr (to_hex (x_sign x k (ascii_bytes (m_digest man)))))])"
proof -
  from assms(2) obtain sd files t n where
    src: "src = Some sd" "sd_targets sd = Some files" "glob ''.frames'' files \<noteq> []"
      "t = (case target of Some t \<Rightarrow> t | None \<Rightarrow> stem (fst (hd (glob ''.frames'' files))))"
    and caps: "check_capabilities x (gather_members x sd files t) = Inr ()"
    and man: "man = sign_manifest x (Some k) (build_manifest x n version author t created (gather_members x sd files t))"
    and a: "a = archive_of x man (gather_members x sd files t)"
    by (auto simp: pack_image_def Let_def res_simps split: option.splits if_splits)
  let ?ms = "gather_members x sd files t"
  have mm: "m_members man = map (\<lambda>(n, c). (n, sha256_hex c)) ?ms" and mt: "m_target man = t"
    by (simp_all add: man sign_manifest_def build_manifest_def Let_def)
  have dm: "distinct (map fst (m_members man))"
    using gather_members_names(1) [of x sd files t] by (simp add: mm o_def case_prod_unfold)
  have dg: "m_digest man = manifest_digest x (to_dict man)"
    using build_manifest_digest by (simp add: man)
  have rd: "read_members x a = Inr (read_back man, sort_key fst ?ms)"
    unfolding a using signature_plain by (intro read_archive assms(1) gather_members_names dm) (simp add: man)
  have ci: "check_integrity x (read_back man) (sort_key fst ?ms) = Inr ()"
    by (rule packed_integrity [OF gather_members_names(1) mm dg])
  have cc: "check_capabilities x (sort_key fst ?ms) = Inr ()"
    using caps by (simp add: check_capabilities_def map_of_sort_fst)
  have sg: "m_signature (read_back man) = Some (sorted_map
      [(YStr ''algo'', YStr ''ed25519''),
       (YStr ''key_fingerprint'', YStr (x_fingerprint x (x_pub_of x k))),
       (YStr ''value'', YStr (to_hex (x_sign x k (ascii_bytes (m_digest man)))))])"
    by (simp add: read_back_def man sign_manifest_def)
  show thesis by (rule that [OF src mt dg rd ci cc sg])
qed

lemma packed_verifies:
  assumes "yaml_ok x" and "pack_image x src name version author target (Some k) created = Inr (man, a)"
    and "x_load_pub x pub = Some pk" and "\<And>msg. x_ed x pk (x_sign x k msg) msg"
    and "\<And>msg b. b \<in> set (x_sign x k msg) \<Longrightarrow> 0 \<le> b \<and> b < 256"
  shows "verify x a (Some [pub]) False = Inr (read_back man)"
proof -
  obtain sd files t where r: "read_members x a = Inr (read_back man, sort_key fst (gather_members x sd files t))"
    "check_integrity x (read_back man) (sort_key fst (gather_members x sd files t)) = Inr ()"
    "check_capabilities x (sort_key fst (gather_members x sd files t)) = Inr ()"
    and sg: "m_signature (read_back man) = Some (sorted_map
      [(YStr ''algo'', YStr ''ed25519''),
       (YStr ''key_fingerprint'', YStr (x_fingerprint x (x_pub_of x k))),
       (YStr ''value'', YStr (to_hex (x_sign x k (ascii_bytes (m_digest man)))))])"
    using packed_reads [OF assms(1,2)] by metis
  have "verify_sig x pub (m_digest man) (YStr (to_hex (x_sign x k (ascii_bytes (m_digest man))))) = Inr True"
    using assms(3,4,5) fromhex_to_hex by (simp add: verify_sig_def)
  then have "check_signature x (read_back man) (Some [pub]) False = Inr (read_back man)"
    unfolding check_signature_def sg by (simp add: get_or_sorted read_back_def)
  with r show ?thesis by (simp add: verify_def)
qed

section \<open>An instance of the outside packages\<close>

instance yval :: countable
  by countable_datatype

text \<open>A YAML package that writes documents as their numbers, and a signature scheme whose
  signature of every message is the key itself.\<close>

definition demo_ext :: ext where
  "demo_ext = \<lparr>x_emit = \<lambda>d. [int (to_nat d)],
     x_parse = \<lambda>bs. (case bs of [n] \<Rightarrow> Some (from_nat (nat n)) | _ \<Rightarrow> None),
     x_parse_text = \<lambda>_. Some (YMap [(YStr ''io'', YList []), (YStr ''services'', YList [])]),
     x_str = \<lambda>_. [], x_decode = \<lambda>_. Some [], x_load_pub = \<lambda>pem. Some pem,
     x_ed = \<lambda>pk sig msg. sig = pk, x_sign = \<lambda>k msg. k, x_pub_of = \<lambda>k. k, x_fingerprint = \<lambda>k. []\<rparr>"

definition demo_dir :: source_dir where
  "demo_dir = \<lparr>sd_name = ''demo'', sd_targets = Some [(''efab-1.0.frames'', [1, 0, 0, 0])],
     sd_optional = []\<rparr>"

lemma demo_yaml_ok: "yaml_ok demo_ext"
  by (simp add: yaml_ok_def demo_ext_def)

lemma demo_pack: "\<exists>man a. pack_image demo_ext (Some demo_dir) None ''1'' [] None (Some [7]) [] = Inr (man, a)"
proof -
  have "glob ''.frames'' [(''efab-1.0.frames'', [1, 0, 0, 0])] = [(''efab-1.0.frames'', [1, 0, 0, 0])]"
    by (simp add: glob_def ends_with_def)
  moreover have "check_capabilities demo_ext ms = Inr ()" for ms
  proof -
    have "load_capabilities (\<lambda>_. Some (YMap [(YStr ''io'', YList []), (YStr ''services'', YList [])]))
        (CapText []) = Inr empty_caps" by code_simp
    then show ?thesis by (simp add: check_capabilities_def demo_ext_def split: option.splits)
  qed
  ultimately show ?thesis by (simp add: pack_image_def demo_dir_def Let_def)
qed

text \<open>C24: what pack writes, verify accepts: an image packed and signed with a private key
  verifies under the matching public key, as the same manifest with its mappings in key
  order. The YAML package is assumed to load back what it dumped, and the Ed25519 package to
  accept its own signatures.\<close>

theorem packed_image_verifies:
  assumes "yaml_ok x" and "pack_image x src name version author target (Some k) created = Inr (man, a)"
    and "x_load_pub x pub = Some pk" and "\<And>msg. x_ed x pk (x_sign x k msg) msg"
    and "\<And>msg b. b \<in> set (x_sign x k msg) \<Longrightarrow> 0 \<le> b \<and> b < 256"
  shows "verify x a (Some [pub]) False = Inr (read_back man)"
  using assms by (rule packed_verifies)

theorem packed_image_verifies_witness:
  "\<exists>man a. pack_image demo_ext (Some demo_dir) None ''1'' [] None (Some [7]) [] = Inr (man, a)
     \<and> verify demo_ext a (Some [[7]]) False = Inr (read_back man)"
proof -
  obtain man a where p: "pack_image demo_ext (Some demo_dir) None ''1'' [] None (Some [7]) [] = Inr (man, a)"
    using demo_pack by blast
  from packed_image_verifies [OF demo_yaml_ok p, of "[7]" "[7]"] p
  show ?thesis by (auto simp: demo_ext_def)
qed

lemma demo_verifies: "\<exists>man a. verify demo_ext a (Some [[7]]) False = Inr man"
proof -
  obtain man a where "pack_image demo_ext (Some demo_dir) None ''1'' [] None (Some [7]) [] = Inr (man, a)"
    using demo_pack by blast
  from packed_verifies [OF demo_yaml_ok this, of "[7]" "[7]"]
  show ?thesis by (auto simp: demo_ext_def)
qed

theorem verify_fail_closed_witness:
  "\<exists>man a sig pk s sb. verify demo_ext a (Some [[7]]) False = Inr man \<and> m_signature man = Some sig
     \<and> get_or sig ''value'' (YStr []) = YStr s \<and> fromhex s = Some sb
     \<and> x_ed demo_ext pk sb (ascii_bytes (m_digest man))"
proof -
  obtain man a where v: "verify demo_ext a (Some [[7]]) False = Inr man" using demo_verifies by blast
  from verify_fail_closed [OF v] obtain sig pk s sb where "m_signature man = Some sig"
    "get_or sig ''value'' (YStr []) = YStr s" "fromhex s = Some sb"
    "x_ed demo_ext pk sb (ascii_bytes (m_digest man))" by (elim conjE exE) rule
  with v show ?thesis by (intro exI conjI)
qed

text \<open>One directory packed twice, signed with two keys: the manifests differ in the signature and have one
  digest, and the archives are told apart by the manifest file alone.\<close>

lemma demo_pack_keys:
  "\<exists>man a man' a'. pack_image demo_ext (Some demo_dir) None ''1'' [] None (Some [7]) [] = Inr (man, a)
     \<and> pack_image demo_ext (Some demo_dir) None ''1'' [] None (Some [9]) [] = Inr (man', a')
     \<and> m_digest man = m_digest man'"
proof -
  have "glob ''.frames'' [(''efab-1.0.frames'', [1, 0, 0, 0])] = [(''efab-1.0.frames'', [1, 0, 0, 0])]"
    by (simp add: glob_def ends_with_def)
  moreover have "check_capabilities demo_ext ms = Inr ()" for ms
  proof -
    have "load_capabilities (\<lambda>_. Some (YMap [(YStr ''io'', YList []), (YStr ''services'', YList [])]))
        (CapText []) = Inr empty_caps" by code_simp
    then show ?thesis by (simp add: check_capabilities_def demo_ext_def split: option.splits)
  qed
  ultimately show ?thesis by (simp add: pack_image_def demo_dir_def Let_def)
qed

lemma packed_signature:
  assumes "yaml_ok x" and "pack_image x src name version author target (Some k) created = Inr (man, a)"
  shows "get_or (the (m_signature (read_back man))) ''value'' YNull = YStr (to_hex (x_sign x k (ascii_bytes (m_digest man))))"
proof -
  have g: "get_or (sorted_map [(YStr ''algo'', YStr ''ed25519''), (YStr ''key_fingerprint'', YStr f), (YStr ''value'', YStr v)]) ''value'' YNull
      = YStr v" for f v by (simp add: get_or_sorted)
  show ?thesis by (rule packed_reads [OF assms]) (simp only: option.sel g)
qed

theorem digest_determines_image_witness:
  "\<exists>man a man' a'. verify demo_ext a (Some [[7]]) False = Inr man \<and> verify demo_ext a' (Some [[9]]) False = Inr man'
     \<and> m_signature man \<noteq> m_signature man' \<and> a \<noteq> a'
     \<and> (clash (digest_bytes demo_ext man) (digest_bytes demo_ext man') \<or> (\<forall>n. n = MANIFEST_NAME
         \<or> extractfile a n = extractfile a' n \<or> files_clash (extractfile a n) (extractfile a' n)))"
proof -
  obtain man a man' a' where p: "pack_image demo_ext (Some demo_dir) None ''1'' [] None (Some [7]) [] = Inr (man, a)"
    "pack_image demo_ext (Some demo_dir) None ''1'' [] None (Some [9]) [] = Inr (man', a')" "m_digest man = m_digest man'"
    using demo_pack_keys by blast
  have v: "verify demo_ext a (Some [[7]]) False = Inr (read_back man)" "verify demo_ext a' (Some [[9]]) False = Inr (read_back man')"
    using packed_verifies [OF demo_yaml_ok p(1), of "[7]" "[7]"] packed_verifies [OF demo_yaml_ok p(2), of "[9]" "[9]"]
    by (simp_all add: demo_ext_def)
  have keys: "x_sign demo_ext k msg = k" for k msg by (simp add: demo_ext_def)
  note sig = packed_signature [OF demo_yaml_ok p(1)] packed_signature [OF demo_yaml_ok p(2)]
  have "to_hex [7] \<noteq> to_hex [9]" by code_simp
  then have s: "m_signature (read_back man) \<noteq> m_signature (read_back man')" using sig unfolding keys by auto
  have "a \<noteq> a'"
  proof
    assume "a = a'"
    moreover obtain ms ms' where "read_members demo_ext a = Inr (read_back man, ms)" "read_members demo_ext a' = Inr (read_back man', ms')"
      using v by (metis verify_Inr)
    ultimately show False using s by simp
  qed
  moreover have "m_digest (read_back man) = m_digest (read_back man')" using p(3) by (simp add: read_back_def)
  from digest_determines_image [OF demo_yaml_ok v this] have "clash (digest_bytes demo_ext (read_back man)) (digest_bytes demo_ext (read_back man'))
      \<or> (\<forall>n. n = MANIFEST_NAME \<or> extractfile a n = extractfile a' n \<or> files_clash (extractfile a n) (extractfile a' n))" by blast
  ultimately show ?thesis using v s by blast
qed

section \<open>What the digest leaves out\<close>

text \<open>The schema string is read and checked but not kept: the digest is always computed with
  the tool's own schema, so a manifest that names another \<open>ethereal.logic.\<close> schema is the
  same manifest to the verifier.\<close>

theorem manifest_schema_not_covered:
  "from_dict x ((YStr ''schema'', YStr ''ethereal.logic.v9'') # d)
     = from_dict x ((YStr ''schema'', YStr SCHEMA) # d)"
  by (simp add: from_dict_def check_schema_def get_or_def need_def members_of_def signature_of_def
      starts_with_def)

end
