(* ===== verification/Efp_Image_Props.thy ===== *)
theory Efp_Image_Props
  imports Efp_Image Ethimg_Props Capcheck_Props Efp_Run
begin

text \<open>
  From a .eth archive to a running region: the host refuses everything that is not signed by
  the trusted key and granted by the platform, and what it accepts deploys on a daemon that
  trusts the same key.
\<close>

lemma lift_simps [simp]:
  "lift_eth r = Inr v \<longleftrightarrow> r = Inr v" "lift_cap q = Inr w \<longleftrightarrow> q = Inr w" "lift_session s = Inr u \<longleftrightarrow> s = Inr u"
  by (auto simp: lift_eth_def lift_cap_def lift_session_def split: sum.splits)

lemma trust_gate_Inr:
  assumes "trust_gate x man d (Some pk) False = Inr (sig64, b)"
  shows "b \<and> length sig64 = 64 \<and> verify_raw_ed25519 (x_ed x) pk d sig64
    \<and> (\<exists>sig s. m_signature man = Some sig \<and> get_or sig ''value'' (YStr []) = YStr s \<and> fromhex s = Some sig64
      \<and> get_or sig ''algo'' YNull = YStr ''ed25519'')"
  using assms
  by (auto simp: trust_gate_def split: option.splits if_splits yval.splits)

lemma fromhex_bytes: "fromhex s = Some bs \<Longrightarrow> bytes_ok bs"
proof (induction s arbitrary: bs rule: fromhex.induct)
  case (3 c d s)
  have rng: "hex_value u = Some v \<Longrightarrow> 0 \<le> v \<and> v < 16" for u v
    by (auto simp: hex_value_def Let_def split: if_splits)
  from 3 show ?case
    by (auto split: if_splits option.splits dest!: rng)
qed (auto split: if_splits)

lemma hex_bytes_to_hex:
  assumes "\<forall>b \<in> set bs. 0 \<le> b \<and> b < 256"
  shows "hex_bytes bs = ascii_bytes (to_hex bs)"
proof -
  have dig: "list_all (\<lambda>d. of_char (hex_char d) = hex_ascii d) [0..15]" by code_simp
  have "\<forall>d \<in> set [0..15]. of_char (hex_char d) = hex_ascii d"
    using dig unfolding list_all_iff .
  then have d: "of_char (hex_char d) = hex_ascii d" if "0 \<le> d" "d < 16" for d
    using that by (simp only: set_upto atLeastAtMost_iff) simp
  have "of_char (hex_char (b div 16)) = hex_ascii (b div 16)"
    "of_char (hex_char (b mod 16)) = hex_ascii (b mod 16)" if "0 \<le> b" "b < 256" for b
    using that by (auto intro!: d)
  with assms show ?thesis
    by (induction bs) (auto simp: hex_bytes_def ascii_bytes_def to_hex_def)
qed

text \<open>What an accepted image is made of.\<close>

lemma load_image_Inr:
  assumes "load_image x a (Some pk) False io_mask svc_mask = Inr img"
  obtains man members caps sig s where
    "read_members x a = Inr (man, members)" and "check_integrity x man members = Inr ()"
    and "m_digest man = to_hex (si_digest32 img)"
    and "si_digest32 img = sha256 (safe_dump x (YMap (digest_fields man)))"
    and "load_caps x members = Inr caps" and "validate_grantable caps io_mask svc_mask = Inr ()"
    and "to_emri_bitmaps caps = Inr (si_decl_io img, si_decl_svc img)"
    and "load_frames (m_target man) members = Inr (si_frame_words img)"
    and "m_signature man = Some sig" and "get_or sig ''algo'' YNull = YStr ''ed25519''"
    and "get_or sig ''value'' (YStr []) = YStr s" and "fromhex s = Some (si_sig64 img)"
    and "si_signed img" and "length (si_sig64 img) = 64"
    and "verify_raw_ed25519 (x_ed x) pk (si_digest32 img) (si_sig64 img)"
proof -
  from assms obtain man members d caps sg b io svc where
    rd: "read_members x a = Inr (man, members)" and ci: "check_integrity x man members = Inr ()"
    and d: "fromhex (m_digest man) = Some d" and tg: "trust_gate x man d (Some pk) False = Inr (sg, b)"
    and lc: "load_caps x members = Inr caps" and lf: "load_frames (m_target man) members = Inr (si_frame_words img)"
    and vg: "validate_grantable caps io_mask svc_mask = Inr ()" and bm: "to_emri_bitmaps caps = Inr (io, svc)"
    and img: "si_digest32 img = d" "si_sig64 img = sg" "si_signed img = b" "si_decl_io img = io" "si_decl_svc img = svc"
    by (auto simp: load_image_def res_simps split: option.splits)
  have hex: "m_digest man = to_hex (sha256 (safe_dump x (YMap (digest_fields man))))"
    using check_integrity_Inr(3) [OF ci]
    by (simp add: manifest_digest_fields safe_dump_def sha256_hex_def)
  have "fromhex (to_hex (sha256 (safe_dump x (YMap (digest_fields man)))))
      = Some (sha256 (safe_dump x (YMap (digest_fields man))))"
    using sha256_bytes by (intro fromhex_to_hex) blast
  with d hex have dig: "d = sha256 (safe_dump x (YMap (digest_fields man)))" by simp
  obtain sig s where "b" "length sg = 64" "verify_raw_ed25519 (x_ed x) pk d sg"
    "m_signature man = Some sig" "get_or sig ''algo'' YNull = YStr ''ed25519''"
    "get_or sig ''value'' (YStr []) = YStr s" "fromhex s = Some sg"
    using trust_gate_Inr [OF tg] by blast
  with that [OF rd ci] show thesis using img dig hex lc lf vg bm by simp
qed

text \<open>C10: load_image is fail-closed: with a trusted key and without allow_unsigned, an image is
  staged only if the archive passes every integrity check, the staged digest is the SHA-256
  of the manifest's fields, the staged 64-byte signature verifies over it, and the declared
  capabilities lie inside the platform masks.\<close>

theorem load_image_fail_closed:
  assumes "load_image x a (Some pk) False io_mask svc_mask = Inr img"
  shows "\<exists>man members. read_members x a = Inr (man, members) \<and> check_integrity x man members = Inr ()
    \<and> si_digest32 img = sha256 (safe_dump x (YMap (digest_fields man)))
    \<and> si_signed img \<and> length (si_sig64 img) = 64
    \<and> verify_raw_ed25519 (x_ed x) pk (si_digest32 img) (si_sig64 img)
    \<and> si_decl_io img AND io_mask = si_decl_io img \<and> si_decl_svc img AND svc_mask = si_decl_svc img"
proof -
  obtain man members caps sig s where r: "read_members x a = Inr (man, members)"
    "check_integrity x man members = Inr ()" "si_digest32 img = sha256 (safe_dump x (YMap (digest_fields man)))"
    and g: "validate_grantable caps io_mask svc_mask = Inr ()"
      "to_emri_bitmaps caps = Inr (si_decl_io img, si_decl_svc img)"
    and t: "si_signed img" "length (si_sig64 img) = 64"
      "verify_raw_ed25519 (x_ed x) pk (si_digest32 img) (si_sig64 img)"
    using load_image_Inr [OF assms] by metis
  from granted_within [OF g(1)] g(2) r t show ?thesis by (intro exI conjI) auto
qed

text \<open>C25: the host loader is at least as strict as the packer's verifier: whatever load_image
  accepts under a trusted raw key, ethimg.verify accepts when given that key as PEM, with the
  same manifest. The signed message is the same, the ASCII hexadecimal digest.\<close>

theorem load_image_implies_verify:
  assumes "load_image x a (Some pk) False io_mask svc_mask = Inr img" and "x_load_pub x pub = Some pk"
  shows "\<exists>man. verify x a (Some [pub]) False = Inr man \<and> m_digest man = to_hex (si_digest32 img)"
proof -
  obtain man members caps sig s where r: "read_members x a = Inr (man, members)"
    "check_integrity x man members = Inr ()" "m_digest man = to_hex (si_digest32 img)"
    "si_digest32 img = sha256 (safe_dump x (YMap (digest_fields man)))" "load_caps x members = Inr caps"
    "m_signature man = Some sig" "get_or sig ''algo'' YNull = YStr ''ed25519''"
    "get_or sig ''value'' (YStr []) = YStr s" "fromhex s = Some (si_sig64 img)"
    "verify_raw_ed25519 (x_ed x) pk (si_digest32 img) (si_sig64 img)"
    using load_image_Inr [OF assms(1)] by metis
  from r(5) have cc: "check_capabilities x members = Inr ()"
    by (auto simp: load_caps_def check_capabilities_def lift_cap_def split: option.splits sum.splits)
  have "\<forall>b \<in> set (si_digest32 img). 0 \<le> b \<and> b < 256" using sha256_bytes r(4) by simp
  then have "hex_bytes (si_digest32 img) = ascii_bytes (m_digest man)"
    by (simp add: hex_bytes_to_hex r(3))
  with r(10) have "verify_sig x pub (m_digest man) (YStr s) = Inr True"
    by (simp add: verify_sig_def assms(2) r(9) verify_raw_ed25519_def)
  with r cc show ?thesis by (simp add: verify_def check_signature_def)
qed

text \<open>C26: from the archive to the fabric: when run_image accepts an archive under the key the
  daemon trusts, executing its operations on an idle daemon with a free region for it deploys
  the archive's frame words there, every poll answered within four reads. The daemon treats
  an all-zero signature as unsigned, so the signature must not be all zero.\<close>

theorem run_image_deploys:
  assumes "run_image x a region (Some pk) False = Inr (ops, img)"
    and "si_sig64 img \<noteq> replicate 64 0"
    and "idle m" and "d_trusted_pk m = Some pk" and "d_alloc region m = Some r" and "4 \<le> limit"
  shows "\<exists>m'. execute_ops (x_ed x) limit ops m = (Inr [0x26, 0], m')
    \<and> d_state m' = EFP_S_RUNNING \<and> d_err m' = EFP_ERR_NONE
    \<and> d_regions m' = (d_regions m)[r := REGION_RUNNING]
    \<and> d_region_words m' = (d_region_words m)[r := int (length (si_frame_words img))]"
proof -
  from assms(1) have ld: "load_image x a (Some pk) False SIM_ALLOWED_IO_MASK SIM_ALLOWED_SVC_MASK = Inr img"
    and ops: "s_run (si_digest32 img) (si_sig64 img) (si_frame_words img) region (si_decl_io img) (si_decl_svc img) [] = Inr ops"
    by (auto simp: run_image_def client_load_def res_simps)
  obtain man members caps sig s where d: "si_digest32 img = sha256 (safe_dump x (YMap (digest_fields man)))"
    and s: "fromhex s = Some (si_sig64 img)"
    and v: "verify_raw_ed25519 (x_ed x) pk (si_digest32 img) (si_sig64 img)"
    using load_image_Inr [OF ld] by metis
  have "bytes_ok (si_digest32 img)" using sha256_bytes d by (auto simp: bytes_ok_def list_all_iff)
  moreover have "accepts (x_ed x) m (si_digest32 img) (si_sig64 img)"
    using assms(2,4) v by (simp add: accepts_def)
  ultimately show ?thesis
    using run_session_result [OF ops _ fromhex_bytes [OF s] assms(3) _ assms(5,6)] by blast
qed

section \<open>An archive packed, loaded and deployed\<close>

abbreviation (input) demo_key :: "int list" where
  "demo_key \<equiv> replicate 64 7"

definition demo_platform :: daemon where
  "demo_platform = daemon_init (Some demo_key) 2 True"

lemma demo_caps: "load_capabilities (\<lambda>_. Some (YMap [(YStr ''io'', YList []), (YStr ''services'', YList [])]))
    (CapText []) = Inr empty_caps"
  by code_simp

lemma demo_granted: "validate_grantable empty_caps SIM_ALLOWED_IO_MASK SIM_ALLOWED_SVC_MASK = Inr ()"
  "to_emri_bitmaps empty_caps = Inr (0, 0)"
  by code_simp+

lemma demo_glob: "glob ''.frames'' [(''efab-1.0.frames'', [1, 0, 0, 0])] = [(''efab-1.0.frames'', [1, 0, 0, 0])]"
  "glob ''.meta.json'' [(''efab-1.0.frames'', [1, 0, 0, 0 :: int])] = []"
  by (simp_all add: glob_def ends_with_def)

lemma demo_image_loads:
  "\<exists>a img. load_image demo_ext a (Some demo_key) False SIM_ALLOWED_IO_MASK SIM_ALLOWED_SVC_MASK = Inr img
     \<and> si_sig64 img = demo_key \<and> si_frame_words img = [1] \<and> si_decl_io img = 0 \<and> si_decl_svc img = 0"
proof -
  have caps: "check_capabilities demo_ext ms = Inr ()" "load_caps demo_ext ms = Inr empty_caps" for ms
    using demo_caps
    by (simp_all add: check_capabilities_def load_caps_def lift_cap_def demo_ext_def split: option.splits)
  obtain man a where p: "pack_image demo_ext (Some demo_dir) None ''1'' [] None (Some demo_key) [] = Inr (man, a)"
    by (simp add: pack_image_def demo_dir_def Let_def caps(1) demo_glob)
  obtain sd files t where f: "Some demo_dir = Some sd" "sd_targets sd = Some files"
      "t = (case None of Some t \<Rightarrow> t | None \<Rightarrow> stem (fst (hd (glob ''.frames'' files))))" "m_target man = t"
    and dg: "m_digest man = manifest_digest demo_ext (to_dict man)"
    and rd: "read_members demo_ext a = Inr (read_back man, sort_key fst (gather_members demo_ext sd files t))"
    and ci: "check_integrity demo_ext (read_back man) (sort_key fst (gather_members demo_ext sd files t)) = Inr ()"
    and sg: "m_signature (read_back man) = Some (sorted_map
      [(YStr ''algo'', YStr ''ed25519''),
       (YStr ''key_fingerprint'', YStr (x_fingerprint demo_ext (x_pub_of demo_ext demo_key))),
       (YStr ''value'', YStr (to_hex (x_sign demo_ext demo_key (ascii_bytes (m_digest man)))))])"
    using packed_reads [OF demo_yaml_ok p] by metis
  from f have f': "sd = demo_dir" "files = [(''efab-1.0.frames'', [1, 0, 0, 0])]" "t = ''efab-1.0''"
    by (auto simp: demo_dir_def demo_glob stem_def)
  have "map_of (gather_members demo_ext sd files t) ''targets/efab-1.0.frames'' = Some [1, 0, 0, 0]"
    by (simp add: gather_members_def f' demo_glob Let_def OPTIONAL_MEMBERS_def update_conv target_name_def)
  then have "load_frames (m_target (read_back man)) (sort_key fst (gather_members demo_ext sd files t)) = Inr [1]"
    by (simp add: load_frames_def read_back_def f(4) f'(3) map_of_sort_fst frame_words_of_def chunks.simps
       )
  moreover have "fromhex (m_digest (read_back man)) = Some (sha256 (safe_dump demo_ext (YMap (digest_fields man))))"
    using sha256_bytes fromhex_to_hex
    by (simp add: read_back_def dg manifest_digest_fields safe_dump_def sha256_hex_def)
  moreover have "trust_gate demo_ext (read_back man) d (Some demo_key) False = Inr (demo_key, True)" for d
    using fromhex_to_hex [of demo_key]
    by (simp add: trust_gate_def sg get_or_sorted verify_raw_ed25519_def demo_ext_def)
  ultimately show ?thesis
    using rd ci caps demo_granted
    by (intro exI [of _ a]) (simp add: load_image_def lift_eth_def lift_cap_def)
qed

theorem load_image_fail_closed_witness:
  "\<exists>a img. load_image demo_ext a (Some demo_key) False SIM_ALLOWED_IO_MASK SIM_ALLOWED_SVC_MASK = Inr img
     \<and> verify_raw_ed25519 (x_ed demo_ext) demo_key (si_digest32 img) (si_sig64 img)"
proof -
  obtain a img where l: "load_image demo_ext a (Some demo_key) False SIM_ALLOWED_IO_MASK SIM_ALLOWED_SVC_MASK = Inr img"
    using demo_image_loads by blast
  from load_image_fail_closed [OF l] l show ?thesis by blast
qed

theorem load_image_implies_verify_witness:
  "\<exists>a man. verify demo_ext a (Some [demo_key]) False = Inr man"
proof -
  obtain a img where l: "load_image demo_ext a (Some demo_key) False SIM_ALLOWED_IO_MASK SIM_ALLOWED_SVC_MASK = Inr img"
    using demo_image_loads by blast
  have "x_load_pub demo_ext demo_key = Some demo_key" by (simp add: demo_ext_def)
  from load_image_implies_verify [OF l this] show ?thesis by blast
qed

lemma demo_free: "d_alloc 0xFF demo_platform = Some 0"
  by code_simp

theorem run_image_deploys_witness:
  "\<exists>a ops img m'. run_image demo_ext a 0xFF (Some demo_key) False = Inr (ops, img)
     \<and> execute_ops (x_ed demo_ext) 4 ops demo_platform = (Inr [0x26, 0], m') \<and> d_regions m' = [1, 0]"
proof -
  obtain a img where l: "load_image demo_ext a (Some demo_key) False SIM_ALLOWED_IO_MASK SIM_ALLOWED_SVC_MASK = Inr img"
    and i: "si_sig64 img = demo_key" "si_frame_words img = [1]" "si_decl_io img = 0" "si_decl_svc img = 0"
    using demo_image_loads by blast
  obtain man members caps sig s where "si_digest32 img = sha256 (safe_dump demo_ext (YMap (digest_fields man)))"
    using load_image_Inr [OF l] by metis
  then have "length (si_digest32 img) = 32" by simp
  then obtain ops where
    "s_run (si_digest32 img) (si_sig64 img) (si_frame_words img) 0xFF (si_decl_io img) (si_decl_svc img) [] = Inr ops"
    by (auto simp: s_run_Inr i)
  with l have r: "run_image demo_ext a 0xFF (Some demo_key) False = Inr (ops, img)"
    by (simp add: run_image_def client_load_def lift_session_def)
  have "si_sig64 img \<noteq> replicate 64 0" "idle demo_platform" "d_trusted_pk demo_platform = Some demo_key"
    by (simp_all add: i idle_def demo_platform_def daemon_init_def)
  from run_image_deploys [OF r this demo_free, of 4] r show ?thesis
    by (auto simp: demo_platform_def daemon_init_def numeral_2_eq_2)
qed

end
