(* ===== verification/Rv_Commit.thy ===== *)
theory Rv_Commit
  imports Prelude
begin

text \<open>
  The \<open>Commit\<close> record of ethereal-shell/verif/eth_rv/rv_trace.py: one retired instruction,
  with the checks of its constructor and the copies with one field replaced. A frozen
  dataclass value is a record; constructing one is \<open>mk_commit\<close> of the record of its
  arguments, and \<open>replace\<close> of the standard library constructs again.
\<close>

definition XLEN :: nat where "XLEN = 64"
definition REG_BITS :: nat where "REG_BITS = 5"
definition FFLAGS_BITS :: nat where "FFLAGS_BITS = 5"
definition FRM_BITS :: nat where "FRM_BITS = 3"

record commit =
  c_cycle :: int
  c_pc :: int
  c_rd :: "int option"
  c_value :: "int option"
  c_insn :: "int option"
  c_mem_addr :: "int option"
  c_mem_wdata :: "int option"
  c_mem_rmask :: "int option"
  c_mem_wmask :: "int option"
  c_rd_is_fp :: bool
  c_fflags :: "int option"
  c_frm :: "int option"

datatype commit_err =
  CycleBelowOne int
| WordRange string int nat
| ValueWithoutRd
| RegisterRange int
| MissingValue
| MemWithoutAddr string
| MaskRange string int
| LoadAndStore int int
| NoLanes

definition check_word :: "int \<Rightarrow> string \<Rightarrow> nat \<Rightarrow> commit_err + unit" where
  "check_word v what bits = require (0 \<le> v \<and> v < push_bit bits 1) (WordRange what v bits)"

definition check_opt :: "int option \<Rightarrow> string \<Rightarrow> nat \<Rightarrow> commit_err + unit" where
  "check_opt v what bits = (case v of None \<Rightarrow> Inr () | Some w \<Rightarrow> check_word w what bits)"

text \<open>The register part: a write to x0 is dropped, one to f0 is kept.\<close>

definition check_rd :: "commit \<Rightarrow> commit_err + commit" where
  "check_rd c =
     (case c_rd c of
        None \<Rightarrow> if c_value c \<noteq> None then Inl ValueWithoutRd else Inr c
      | Some rd \<Rightarrow>
          if \<not> (0 \<le> rd \<and> rd < push_bit REG_BITS 1) then Inl (RegisterRange rd)
          else if rd = 0 \<and> \<not> c_rd_is_fp c then Inr (c\<lparr>c_rd := None, c_value := None\<rparr>)
          else (case c_value c of
                  None \<Rightarrow> Inl MissingValue
                | Some v \<Rightarrow> res_bind (check_word v ''value'' XLEN) (\<lambda>_. Inr c)))"

definition check_mask :: "int option \<Rightarrow> string \<Rightarrow> commit_err + unit" where
  "check_mask m what =
     (case m of None \<Rightarrow> Inr ()
      | Some v \<Rightarrow> require (0 \<le> v \<and> v < push_bit 8 1) (MaskRange what v))"

definition check_masks :: "int option \<Rightarrow> int option \<Rightarrow> commit_err + unit" where
  "check_masks rmask wmask =
     (case (rmask, wmask) of
        (Some r, Some w) \<Rightarrow>
          if r \<noteq> 0 \<and> w \<noteq> 0 then Inl (LoadAndStore r w)
          else require (r OR w \<noteq> 0) NoLanes
      | _ \<Rightarrow> Inr ())"

definition check_mem :: "commit \<Rightarrow> commit_err + unit" where
  "check_mem c =
     (case c_mem_addr c of
        None \<Rightarrow>
          res_bind (require (c_mem_wdata c = None) (MemWithoutAddr ''mem_wdata'')) (\<lambda>_.
          res_bind (require (c_mem_rmask c = None) (MemWithoutAddr ''mem_rmask'')) (\<lambda>_.
          require (c_mem_wmask c = None) (MemWithoutAddr ''mem_wmask'')))
      | Some addr \<Rightarrow>
          res_bind (check_word addr ''mem_addr'' XLEN) (\<lambda>_.
          res_bind (check_opt (c_mem_wdata c) ''mem_wdata'' XLEN) (\<lambda>_.
          res_bind (check_mask (c_mem_rmask c) ''mem_rmask'') (\<lambda>_.
          res_bind (check_mask (c_mem_wmask c) ''mem_wmask'') (\<lambda>_.
          check_masks (c_mem_rmask c) (c_mem_wmask c))))))"

text \<open>\<open>Commit(...)\<close> with its \<open>__post_init__\<close>\<close>

definition mk_commit :: "commit \<Rightarrow> commit_err + commit" where
  "mk_commit c =
     res_bind (require (1 \<le> c_cycle c) (CycleBelowOne (c_cycle c))) (\<lambda>_.
     res_bind (check_word (c_pc c) ''pc'' XLEN) (\<lambda>_.
     res_bind (check_opt (c_insn c) ''insn'' 32) (\<lambda>_.
     res_bind (check_rd c) (\<lambda>c.
     res_bind (check_opt (c_fflags c) ''fflags'' FFLAGS_BITS) (\<lambda>_.
     res_bind (check_opt (c_frm c) ''frm'' FRM_BITS) (\<lambda>_.
     res_bind (check_mem c) (\<lambda>_. Inr c)))))))"

section \<open>What a commit reports\<close>

definition has_mem_access :: "commit \<Rightarrow> bool" where
  "has_mem_access c \<longleftrightarrow> c_mem_addr c \<noteq> None"

definition has_mem_masks :: "commit \<Rightarrow> bool" where
  "has_mem_masks c \<longleftrightarrow> c_mem_rmask c \<noteq> None \<or> c_mem_wmask c \<noteq> None"

definition has_fp_info :: "commit \<Rightarrow> bool" where
  "has_fp_info c \<longleftrightarrow> c_rd_is_fp c \<or> c_fflags c \<noteq> None \<or> c_frm c \<noteq> None"

definition writes_register :: "commit \<Rightarrow> bool" where
  "writes_register c \<longleftrightarrow> c_rd c \<noteq> None"

definition stream_has_mem_info :: "commit list \<Rightarrow> bool" where
  "stream_has_mem_info cs \<longleftrightarrow> list_ex has_mem_access cs"

definition stream_has_fp_info :: "commit list \<Rightarrow> bool" where
  "stream_has_fp_info cs \<longleftrightarrow> list_ex has_fp_info cs"

section \<open>Copies with one field replaced\<close>

definition with_value :: "int \<Rightarrow> commit \<Rightarrow> commit_err + commit" where
  "with_value v c = (if c_rd c = None then Inr c else mk_commit (c\<lparr>c_value := Some v\<rparr>))"

definition with_pc :: "int \<Rightarrow> commit \<Rightarrow> commit_err + commit" where
  "with_pc pc c = mk_commit (c\<lparr>c_pc := pc\<rparr>)"

definition with_rd :: "int \<Rightarrow> commit \<Rightarrow> commit_err + commit" where
  "with_rd rd c =
     (if rd = 0 then mk_commit (c\<lparr>c_rd := None, c_value := None, c_rd_is_fp := False\<rparr>)
      else mk_commit (c\<lparr>c_rd := Some rd,
             c_value := Some (case c_value c of None \<Rightarrow> 0 | Some v \<Rightarrow> v)\<rparr>))"

definition with_cycle :: "int \<Rightarrow> commit \<Rightarrow> commit_err + commit" where
  "with_cycle cycle c = mk_commit (c\<lparr>c_cycle := cycle\<rparr>)"

definition with_mem_addr :: "int \<Rightarrow> commit \<Rightarrow> commit_err + commit" where
  "with_mem_addr addr c = mk_commit (c\<lparr>c_mem_addr := Some addr\<rparr>)"

definition with_mem_wdata :: "int \<Rightarrow> commit \<Rightarrow> commit_err + commit" where
  "with_mem_wdata wdata c =
     (if c_mem_addr c = None then Inr c else mk_commit (c\<lparr>c_mem_wdata := Some wdata\<rparr>))"

definition with_mem_rmask :: "int \<Rightarrow> commit \<Rightarrow> commit_err + commit" where
  "with_mem_rmask m c =
     (if c_mem_addr c = None then Inr c
      else mk_commit (c\<lparr>c_mem_rmask := Some m, c_mem_wmask := None\<rparr>))"

definition with_mem_wmask :: "int \<Rightarrow> commit \<Rightarrow> commit_err + commit" where
  "with_mem_wmask m c =
     (if c_mem_addr c = None then Inr c
      else mk_commit (c\<lparr>c_mem_wmask := Some m, c_mem_rmask := None\<rparr>))"

section \<open>Well-formed commits\<close>

text \<open>What the constructor guarantees of every commit it builds.\<close>

definition in_word :: "nat \<Rightarrow> int \<Rightarrow> bool" where
  "in_word n v \<longleftrightarrow> 0 \<le> v \<and> v < 2 ^ n"

definition commit_ok :: "commit \<Rightarrow> bool" where
  "commit_ok c \<longleftrightarrow> 1 \<le> c_cycle c \<and> in_word 64 (c_pc c) \<and> pred_option (in_word 32) (c_insn c)
     \<and> (c_rd c = None \<longleftrightarrow> c_value c = None) \<and> pred_option (in_word 5) (c_rd c)
     \<and> pred_option (in_word 64) (c_value c) \<and> (c_rd c = Some 0 \<longrightarrow> c_rd_is_fp c)
     \<and> pred_option (in_word 5) (c_fflags c) \<and> pred_option (in_word 3) (c_frm c)
     \<and> (c_mem_addr c = None \<longrightarrow> c_mem_wdata c = None \<and> c_mem_rmask c = None \<and> c_mem_wmask c = None)
     \<and> pred_option (in_word 64) (c_mem_addr c) \<and> pred_option (in_word 64) (c_mem_wdata c)
     \<and> pred_option (in_word 8) (c_mem_rmask c) \<and> pred_option (in_word 8) (c_mem_wmask c)
     \<and> (\<forall>r w. c_mem_rmask c = Some r \<and> c_mem_wmask c = Some w \<longrightarrow> (r = 0) \<noteq> (w = 0))"

named_theorems commit_simps "the checks of the constructor"

lemma check_word_Inr [commit_simps]: "check_word v what n = Inr u \<longleftrightarrow> in_word n v"
  by (simp add: check_word_def in_word_def require_Inr_iff push_bit_eq_mult)

lemma check_opt_Inr [commit_simps]: "check_opt v what n = Inr u \<longleftrightarrow> pred_option (in_word n) v"
  by (cases v) (simp_all add: check_opt_def commit_simps)

lemma check_mask_Inr [commit_simps]: "check_mask v what = Inr u \<longleftrightarrow> pred_option (in_word 8) v"
  by (cases v) (simp_all add: check_mask_def require_Inr_iff in_word_def)

lemma check_masks_Inr [commit_simps]:
  "check_masks rm wm = Inr u \<longleftrightarrow> (\<forall>r w. rm = Some r \<and> wm = Some w \<longrightarrow> (r = 0) \<noteq> (w = 0))"
  by (cases rm; cases wm) (auto simp: check_masks_def require_Inr_iff)

lemma check_mem_Inr [commit_simps]:
  "check_mem c = Inr u \<longleftrightarrow>
     (c_mem_addr c = None \<longrightarrow> c_mem_wdata c = None \<and> c_mem_rmask c = None \<and> c_mem_wmask c = None)
     \<and> pred_option (in_word 64) (c_mem_addr c) \<and> (c_mem_addr c \<noteq> None \<longrightarrow>
         pred_option (in_word 64) (c_mem_wdata c) \<and> pred_option (in_word 8) (c_mem_rmask c)
         \<and> pred_option (in_word 8) (c_mem_wmask c)
         \<and> (\<forall>r w. c_mem_rmask c = Some r \<and> c_mem_wmask c = Some w \<longrightarrow> (r = 0) \<noteq> (w = 0)))"
  by (cases "c_mem_addr c") (auto simp: check_mem_def res_simps commit_simps XLEN_def)

lemma check_rd_Inr [commit_simps]:
  "check_rd c = Inr c' \<longleftrightarrow> pred_option (in_word 5) (c_rd c) \<and> (c_rd c = None \<longrightarrow> c_value c = None)
     \<and> (if c_rd c = Some 0 \<and> \<not> c_rd_is_fp c then c' = c\<lparr>c_rd := None, c_value := None\<rparr>
        else c' = c \<and> (c_rd c \<noteq> None \<longrightarrow> (\<exists>v. c_value c = Some v \<and> in_word 64 v)))"
  by (auto simp: check_rd_def res_simps commit_simps XLEN_def REG_BITS_def in_word_def split: option.splits)

lemma mk_commit_ok: "mk_commit c = Inr c' \<Longrightarrow> commit_ok c'"
  by (auto simp: mk_commit_def res_simps commit_simps commit_ok_def XLEN_def FFLAGS_BITS_def FRM_BITS_def
      split: if_splits)

lemma mk_commit_id: "commit_ok c \<Longrightarrow> mk_commit c = Inr c"
  by (auto simp: mk_commit_def res_simps commit_simps commit_ok_def XLEN_def FFLAGS_BITS_def FRM_BITS_def)

end
