(* ===== verification/Py_Text.thy ===== *)
theory Py_Text
  imports Prelude
begin

text \<open>
  The operations of Python's \<open>str\<close> and \<open>int\<close> that the readers of trace files and netlists
  use. Text is a list of characters of the first 256 code points; white space, line breaks,
  case and digits are those of Python on that range.
\<close>

section \<open>Python strings\<close>

definition code :: "char \<Rightarrow> nat" where
  "code c = of_char c"

text \<open>\<open>str.isspace\<close> and the boundaries of \<open>str.splitlines\<close>\<close>

definition is_space :: "char \<Rightarrow> bool" where
  "is_space c \<longleftrightarrow> (9 \<le> code c \<and> code c \<le> 13) \<or> (28 \<le> code c \<and> code c \<le> 32) \<or> code c = 133 \<or> code c = 160"

definition is_line_break :: "char \<Rightarrow> bool" where
  "is_line_break c \<longleftrightarrow> (10 \<le> code c \<and> code c \<le> 13) \<or> (28 \<le> code c \<and> code c \<le> 30) \<or> code c = 133"

definition lower_char :: "char \<Rightarrow> char" where
  "lower_char c =
     (if (65 \<le> code c \<and> code c \<le> 90) \<or> (192 \<le> code c \<and> code c \<le> 222 \<and> code c \<noteq> 215)
      then char_of (code c + 32) else c)"

definition lower :: "string \<Rightarrow> string" where
  "lower s = map lower_char s"

definition strip :: "string \<Rightarrow> string" where
  "strip s = rev (dropWhile is_space (rev (dropWhile is_space s)))"

lemma split_ws_smaller:
  "dropWhile is_space s = c # t \<Longrightarrow> length (dropWhile (\<lambda>c. \<not> is_space c) (c # t)) < length s"
proof -
  assume d: "dropWhile is_space s = c # t"
  then have "\<not> is_space c" by (metis hd_dropWhile list.sel(1) list.distinct(1))
  then have "length (dropWhile (\<lambda>c. \<not> is_space c) (c # t)) < length (c # t)"
    using length_dropWhile_le [of "\<lambda>c. \<not> is_space c" t] by simp
  also have "\<dots> \<le> length s" using length_dropWhile_le [of is_space s] by (simp add: d)
  finally show ?thesis .
qed

function split_ws :: "string \<Rightarrow> string list" where
  "split_ws s =
     (case dropWhile is_space s of
        [] \<Rightarrow> []
      | c # t \<Rightarrow> takeWhile (\<lambda>c. \<not> is_space c) (c # t) # split_ws (dropWhile (\<lambda>c. \<not> is_space c) (c # t)))"
  by pat_completeness auto

termination
  by (relation "measure length") (simp_all only: wf_measure in_measure split_ws_smaller)

declare split_ws.simps [simp del]

fun splitlines_from :: "string \<Rightarrow> string \<Rightarrow> string list" where
  "splitlines_from cur [] = (if cur = [] then [] else [rev cur])"
| "splitlines_from cur (c # s) =
     (if code c = 13 \<and> s \<noteq> [] \<and> code (hd s) = 10 then rev cur # splitlines_from [] (tl s)
      else if is_line_break c then rev cur # splitlines_from [] s
      else splitlines_from (c # cur) s)"

definition splitlines :: "string \<Rightarrow> string list" where
  "splitlines s = splitlines_from [] s"

text \<open>\<open>str.isdigit\<close> holds of the superscript digits too, which \<open>int\<close> refuses.\<close>

definition is_digit_py :: "char \<Rightarrow> bool" where
  "is_digit_py c \<longleftrightarrow> (48 \<le> code c \<and> code c \<le> 57) \<or> code c \<in> {178, 179, 185}"

definition digit_val :: "nat \<Rightarrow> char \<Rightarrow> nat option" where
  "digit_val b c =
     (let v = (if 48 \<le> code c \<and> code c \<le> 57 then code c - 48
               else if 97 \<le> code c \<and> code c \<le> 102 then code c - 87
               else if 65 \<le> code c \<and> code c \<le> 70 then code c - 55 else 16)
      in if v < b then Some v else None)"

text \<open>\<open>int(text, base)\<close>: single underscores are allowed between digits.\<close>

fun py_digits :: "nat \<Rightarrow> int \<Rightarrow> string \<Rightarrow> int option" where
  "py_digits b acc [] = Some acc"
| "py_digits b acc (c # s) =
     (if c = CHR ''_''
      then (case s of [] \<Rightarrow> None
            | d # _ \<Rightarrow> if digit_val b d = None then None else py_digits b acc s)
      else (case digit_val b c of None \<Rightarrow> None | Some v \<Rightarrow> py_digits b (acc * int b + int v) s))"

definition py_nat :: "nat \<Rightarrow> string \<Rightarrow> int option" where
  "py_nat b s =
     (case s of [] \<Rightarrow> None | c # _ \<Rightarrow> if digit_val b c = None then None else py_digits b 0 s)"

definition py_int10 :: "string \<Rightarrow> int option" where
  "py_int10 s =
     (case s of
        [] \<Rightarrow> None
      | c # t \<Rightarrow>
          if c = CHR ''-'' then map_option uminus (py_nat 10 t)
          else if c = CHR ''+'' then py_nat 10 t
          else py_nat 10 s)"

text \<open>\<open>int(text, 16)\<close> of a text that starts with \<open>0x\<close>; one underscore may follow the prefix.\<close>

definition py_int16 :: "string \<Rightarrow> int option" where
  "py_int16 s =
     (let t = drop 2 s in
      py_nat 16 (if t \<noteq> [] \<and> hd t = CHR ''_'' then tl t else t))"

definition prefixed :: "string \<Rightarrow> string \<Rightarrow> bool" where
  "prefixed p s \<longleftrightarrow> take (length p) s = p"

definition py_int_auto :: "string \<Rightarrow> int option" where
  "py_int_auto s = (if prefixed ''0x'' s then py_int16 s else py_int10 s)"

text \<open>\<open>f"{v:0{w}x}"\<close> of a number that is not negative\<close>

definition hex_char :: "nat \<Rightarrow> char" where
  "hex_char d = char_of (if d < 10 then 48 + d else 87 + d)"

function hex_str :: "int \<Rightarrow> string" where
  "hex_str n = (if n < 16 then [hex_char (nat n)] else hex_str (n div 16) @ [hex_char (nat (n mod 16))])"
  by pat_completeness auto
termination
  by (relation "measure nat") auto

declare hex_str.simps [simp del]

definition hex_pad :: "nat \<Rightarrow> int \<Rightarrow> string" where
  "hex_pad w v = (let h = hex_str v in replicate (w - length h) CHR ''0'' @ h)"

definition hex0x :: "nat \<Rightarrow> int \<Rightarrow> string" where
  "hex0x w v = ''0x'' @ hex_pad w v"

fun join :: "string \<Rightarrow> string list \<Rightarrow> string" where
  "join sep [] = []"
| "join sep [s] = s"
| "join sep (s # t # ss) = s @ sep @ join sep (t # ss)"

end
