(* ===== verification/Rv_Text.thy ===== *)
theory Rv_Text
  imports Rv_Commit Py_Text
begin

text \<open>
  The trace text of ethereal-shell/verif/eth_rv/rv_trace.py: register and number fields,
  \<open>Commit.format_line\<close>, \<open>parse_trace\<close>, \<open>format_trace\<close> and \<open>is_canonical_trace\<close>.
  The string operations are those of \<open>Py_Text\<close>. The source label of the error messages is
  left out.
\<close>

section \<open>Fields\<close>

datatype text_err =
  NotANumber string
| WordErr commit_err
| RegOutOfRange string
| NotARegister string
| UnknownKeyed string
| RepeatedKeyed string
| MemWidth nat
| MemDataWithoutAddr
| FieldCount nat
| CycleBelow1 int
| CycleBackwards int int
| ExplicitCycleExpected
| ValueWithoutReg string

definition NO_WRITE :: string where "NO_WRITE = ''-''"

definition ABI_NAMES :: "(string \<times> int) list" where
  "ABI_NAMES =
     [(''zero'', 0), (''ra'', 1), (''sp'', 2), (''gp'', 3), (''tp'', 4), (''t0'', 5), (''t1'', 6),
      (''t2'', 7), (''s0'', 8), (''fp'', 8), (''s1'', 9), (''a0'', 10), (''a1'', 11), (''a2'', 12),
      (''a3'', 13), (''a4'', 14), (''a5'', 15), (''a6'', 16), (''a7'', 17), (''s2'', 18), (''s3'', 19),
      (''s4'', 20), (''s5'', 21), (''s6'', 22), (''s7'', 23), (''s8'', 24), (''s9'', 25), (''s10'', 26),
      (''s11'', 27), (''t3'', 28), (''t4'', 29), (''t5'', 30), (''t6'', 31)]"

definition KEYED_BITS :: "(string \<times> nat) list" where
  "KEYED_BITS = [(''fflags'', FFLAGS_BITS), (''frm'', FRM_BITS)]"

definition format_reg :: "int option \<Rightarrow> bool \<Rightarrow> string" where
  "format_reg rd fp =
     (case rd of None \<Rightarrow> NO_WRITE
      | Some r \<Rightarrow> (if fp then ''f'' else ''x'') @ (if r < 0 then ''-'' else []) @ nat_str (nat \<bar>r\<bar>))"

text \<open>The loop over the two register classes: a prefix whose rest is not a digit string falls
  through to the next class, and then to the error.\<close>

definition parse_class :: "string \<Rightarrow> string \<Rightarrow> (text_err + int) option" where
  "parse_class text prefix =
     (let digits = strip (drop 1 text) in
      if prefixed prefix text \<and> digits \<noteq> [] \<and> list_all is_digit_py digits then
        Some (case py_int10 digits of
                None \<Rightarrow> Inl (NotANumber digits)
              | Some i \<Rightarrow> if 0 \<le> i \<and> i < push_bit REG_BITS 1 then Inr i else Inl (RegOutOfRange text))
      else None)"

definition parse_reg_field :: "string \<Rightarrow> text_err + int option \<times> bool" where
  "parse_reg_field token =
     (let text = lower (strip token) in
      if text = NO_WRITE then Inr (None, False)
      else case map_of ABI_NAMES text of
        Some i \<Rightarrow> Inr (Some i, False)
      | None \<Rightarrow>
          (case parse_class text ''x'' of
             Some r \<Rightarrow> res_bind r (\<lambda>i. Inr (Some i, False))
           | None \<Rightarrow>
               (case parse_class text ''f'' of
                  Some r \<Rightarrow> res_bind r (\<lambda>i. Inr (Some i, True))
                | None \<Rightarrow> Inl (NotARegister token))))"

definition parse_reg :: "string \<Rightarrow> text_err + int option" where
  "parse_reg token = res_bind (parse_reg_field token) (\<lambda>(i, _). Inr i)"

definition is_reg_token :: "string \<Rightarrow> bool" where
  "is_reg_token token = is_ok (parse_reg_field token)"

definition lift_word :: "commit_err + 'a \<Rightarrow> text_err + 'a" where
  "lift_word r = (case r of Inl e \<Rightarrow> Inl (WordErr e) | Inr v \<Rightarrow> Inr v)"

definition parse_word :: "string \<Rightarrow> nat \<Rightarrow> text_err + int" where
  "parse_word token bits =
     (case py_int_auto (lower (strip token)) of
        None \<Rightarrow> Inl (NotANumber token)
      | Some v \<Rightarrow> res_bind (lift_word (check_word v ''value'' bits)) (\<lambda>_. Inr v))"

definition parse_opt :: "string \<Rightarrow> nat \<Rightarrow> text_err + int option" where
  "parse_opt token bits =
     (if strip token = NO_WRITE then Inr None else res_bind (parse_word token bits) (\<lambda>v. Inr (Some v)))"

section \<open>Writing a line\<close>

definition value_text :: "commit \<Rightarrow> string" where
  "value_text c = (case c_value c of None \<Rightarrow> NO_WRITE | Some v \<Rightarrow> hex0x 16 v)"

definition opt_text :: "nat \<Rightarrow> int option \<Rightarrow> string" where
  "opt_text w v = (case v of None \<Rightarrow> NO_WRITE | Some v \<Rightarrow> hex0x w v)"

definition mem_text :: "commit \<Rightarrow> string option" where
  "mem_text c =
     (if \<not> has_mem_access c \<and> \<not> has_mem_masks c then None
      else if \<not> has_mem_masks c then
        Some (opt_text 16 (c_mem_addr c) @ '' '' @ opt_text 16 (c_mem_wdata c))
      else
        Some (opt_text 16 (c_mem_addr c) @ '' '' @ opt_text 16 (c_mem_wdata c) @ '' ''
              @ opt_text 2 (c_mem_rmask c) @ '' '' @ opt_text 2 (c_mem_wmask c)))"

definition keyed_text :: "commit \<Rightarrow> string option" where
  "keyed_text c =
     (let tokens = (case c_fflags c of None \<Rightarrow> [] | Some v \<Rightarrow> [''fflags='' @ hex0x 2 v])
                 @ (case c_frm c of None \<Rightarrow> [] | Some v \<Rightarrow> [''frm='' @ hex0x 2 v])
      in if tokens = [] then None else Some (join '' '' tokens))"

definition int_str :: "int \<Rightarrow> string" where
  "int_str v = (if v < 0 then ''-'' @ nat_str (nat (- v)) else nat_str (nat v))"

definition reg_name :: "commit \<Rightarrow> string" where
  "reg_name c = format_reg (c_rd c) (c_rd_is_fp c)"

definition format_line :: "commit \<Rightarrow> string" where
  "format_line c =
     join '' ''
       ([int_str (c_cycle c) @ '' '' @ hex0x 16 (c_pc c) @ '' '' @ reg_name c @ '' '' @ value_text c]
        @ (case mem_text c of None \<Rightarrow> [] | Some t \<Rightarrow> [t])
        @ (case keyed_text c of None \<Rightarrow> [] | Some t \<Rightarrow> [t]))"

section \<open>Reading a trace\<close>

fun keyed_loop :: "(string \<times> int) list \<Rightarrow> string list \<Rightarrow> text_err + (string \<times> int) list" where
  "keyed_loop found [] = Inr found"
| "keyed_loop found (token # ts) =
     (let name = takeWhile (\<lambda>c. c \<noteq> CHR ''='') token;
          text = tl (dropWhile (\<lambda>c. c \<noteq> CHR ''='') token);
          key = lower (strip name) in
      case map_of KEYED_BITS key of
        None \<Rightarrow> Inl (UnknownKeyed token)
      | Some bits \<Rightarrow>
          if map_of found key \<noteq> None then Inl (RepeatedKeyed key)
          else res_bind (parse_word text bits) (\<lambda>v. keyed_loop ((key, v) # found) ts))"

definition keyed_fields :: "string list \<Rightarrow> text_err + int option \<times> int option" where
  "keyed_fields tokens =
     res_bind (keyed_loop [] tokens) (\<lambda>found. Inr (map_of found ''fflags'', map_of found ''frm''))"

type_synonym mem_fields_result = "int option \<times> int option \<times> int option \<times> int option"

definition mem_fields :: "string list \<Rightarrow> text_err + mem_fields_result" where
  "mem_fields tokens =
     (if tokens = [] then Inr (None, None, None, None)
      else if length tokens \<noteq> 2 \<and> length tokens \<noteq> 4 then Inl (MemWidth (length tokens))
      else res_bind (res_map (\<lambda>(i, t). parse_opt t (if 2 \<le> i then 8 else XLEN)) (enumerate 0 tokens)) (\<lambda>parsed.
        if parsed ! 0 = None \<and> list_ex (\<lambda>v. v \<noteq> None) (drop 1 parsed) then Inl MemDataWithoutAddr
        else if length parsed = 2 then Inr (parsed ! 0, parsed ! 1, None, None)
        else Inr (parsed ! 0, parsed ! 1, parsed ! 2, parsed ! 3)))"

text \<open>The cycle of a line, from its fields, the number of commits so far and the last cycle.\<close>

definition line_cycle :: "bool \<Rightarrow> nat \<Rightarrow> int \<Rightarrow> string list \<Rightarrow> text_err + int" where
  "line_cycle implicit_cycle n last_cycle fs =
     (if 4 \<le> length fs then
        res_bind (parse_word (fs ! 0) XLEN) (\<lambda>cycle.
          if cycle < 1 then Inl (CycleBelow1 cycle)
          else if cycle < last_cycle then Inl (CycleBackwards cycle last_cycle)
          else Inr cycle)
      else if \<not> implicit_cycle then Inl ExplicitCycleExpected
      else Inr (int n + 1))"

definition parse_fields :: "bool \<Rightarrow> nat \<Rightarrow> int \<Rightarrow> string list \<Rightarrow> string list \<Rightarrow> text_err + commit" where
  "parse_fields implicit_cycle n last_cycle fs keyed =
     res_bind (line_cycle implicit_cycle n last_cycle fs) (\<lambda>cycle.
     let at = (if 4 \<le> length fs then 1 else 0);
         pc_token = fs ! at; rd_token = fs ! (at + 1); value_token = fs ! (at + 2) in
     if \<not> is_reg_token rd_token then Inl (NotARegister rd_token)
     else
       res_bind (parse_word pc_token XLEN) (\<lambda>pc.
       res_bind (parse_reg_field rd_token) (\<lambda>(rd, rd_is_fp).
       res_bind (parse_opt value_token XLEN) (\<lambda>value.
       res_bind (mem_fields (if 6 \<le> length fs then drop 4 fs else [])) (\<lambda>(addr, wdata, rmask, wmask).
       res_bind (keyed_fields keyed) (\<lambda>(fflags, frm).
       if rd = None \<and> value \<noteq> None then Inl (ValueWithoutReg value_token)
       else lift_word (mk_commit
         \<lparr>c_cycle = cycle, c_pc = pc, c_rd = rd, c_value = value, c_insn = None,
          c_mem_addr = addr, c_mem_wdata = wdata, c_mem_rmask = rmask, c_mem_wmask = wmask,
          c_rd_is_fp = rd_is_fp, c_fflags = fflags, c_frm = frm\<rparr>)))))))"

text \<open>One line: nothing for a blank or comment line.\<close>

definition parse_line :: "bool \<Rightarrow> nat \<Rightarrow> int \<Rightarrow> string \<Rightarrow> text_err + commit option" where
  "parse_line implicit_cycle n last_cycle raw =
     (let line = strip (takeWhile (\<lambda>c. c \<noteq> CHR ''#'') raw) in
      if line = [] then Inr None
      else
        let tokens = split_ws line;
            keyed = filter (\<lambda>t. CHR ''='' \<in> set t) tokens;
            fs = filter (\<lambda>t. CHR ''='' \<notin> set t) tokens in
        if length fs \<notin> {3, 4, 6, 8} then Inl (FieldCount (length fs))
        else res_bind (parse_fields implicit_cycle n last_cycle fs keyed) (\<lambda>c. Inr (Some c)))"

text \<open>The loop over the lines, with the line number of the error. The last cycle is the cycle
  of the last commit: an explicit one or the ordinal.\<close>

fun parse_lines :: "bool \<Rightarrow> nat \<Rightarrow> commit list \<Rightarrow> int \<Rightarrow> string list \<Rightarrow> (nat \<times> text_err) + commit list" where
  "parse_lines implicit_cycle lineno commits last_cycle [] = Inr commits"
| "parse_lines implicit_cycle lineno commits last_cycle (raw # lines) =
     (case parse_line implicit_cycle (length commits) last_cycle raw of
        Inl e \<Rightarrow> Inl (lineno, e)
      | Inr None \<Rightarrow> parse_lines implicit_cycle (Suc lineno) commits last_cycle lines
      | Inr (Some c) \<Rightarrow> parse_lines implicit_cycle (Suc lineno) (commits @ [c]) (c_cycle c) lines)"

definition parse_trace :: "bool \<Rightarrow> string \<Rightarrow> (nat \<times> text_err) + commit list" where
  "parse_trace implicit_cycle text = parse_lines implicit_cycle 1 [] 0 (splitlines text)"

section \<open>Writing a trace\<close>

definition TRACE_HEADER_V1 :: string where "TRACE_HEADER_V1 = ''# rv_difftest trace v1''"
definition TRACE_HEADER_V2 :: string where "TRACE_HEADER_V2 = ''# rv_difftest trace v2''"

definition trace_header :: "commit list \<Rightarrow> string option \<Rightarrow> string option \<Rightarrow> string list" where
  "trace_header stream generator note =
     [if stream_has_fp_info stream then TRACE_HEADER_V2 else TRACE_HEADER_V1]
     @ (case generator of None \<Rightarrow> [] | Some g \<Rightarrow> [''# generator: '' @ g])
     @ [''# fields: cycle pc rd value [mem_addr mem_wdata [mem_rmask mem_wmask]] '' @ ''[fflags=0x.. frm=0x..]'',
        ''# '' @ NO_WRITE @ '' in rd = retired without an architectural register write; ''
          @ ''f<d> = a floating-point register write (f0 included)'',
        ''# '' @ NO_WRITE @ '' in mem_addr = no memory access; '' @ NO_WRITE @ '' in mem_wdata = a load; ''
          @ NO_WRITE @ '' masks = the producer does not report byte lanes'',
        ''# keyed fflags=/frm= (after the memory suffix) = the FP control state this ''
          @ ''instruction wrote (5 / 3 bits)'']
     @ (case note of None \<Rightarrow> [] | Some t \<Rightarrow> map (\<lambda>line. ''# '' @ line) (splitlines t))"

definition format_trace :: "commit list \<Rightarrow> string option \<Rightarrow> string option \<Rightarrow> string" where
  "format_trace stream generator note =
     join [CHR 0x0A] (trace_header stream generator note @ map format_line stream) @ [CHR 0x0A]"

fun canonical_lines :: "string list \<Rightarrow> bool" where
  "canonical_lines [] = False"
| "canonical_lines (raw # lines) =
     (if strip raw = [] then canonical_lines lines
      else prefixed TRACE_HEADER_V1 raw \<or> prefixed TRACE_HEADER_V2 raw)"

definition is_canonical_trace :: "string \<Rightarrow> bool" where
  "is_canonical_trace text = canonical_lines (splitlines text)"

end
