(* ===== verification/Rv_Spike.thy ===== *)
theory Rv_Spike
  imports Rv_Text
begin

text \<open>
  The golden side of the DiffTest harness, ethereal-shell/verif/eth_rv/rv_spike.py: the
  stopping store, the reader of Spike's commit log and the loader of a captured golden
  stream (\<open>load_golden\<close> of rv_difftest.py). The regular expressions of the source are written
  out as scanners: their parts never overlap, so greedy matching is exact, except for the
  optional data of a \<open>mem\<close> field, where giving it back is modelled. Running Spike is I/O.
\<close>

section \<open>The stopping store\<close>

record stop_store =
  s_addr :: int
  s_value :: "int option"

definition stop_matches :: "stop_store \<Rightarrow> int option \<Rightarrow> int option \<Rightarrow> bool" where
  "stop_matches stop mem_addr mem_wdata =
     (if mem_addr \<noteq> Some (s_addr stop) \<or> mem_wdata = None then False
      else s_value stop = None \<or> mem_wdata = s_value stop)"

definition stop_describe :: "stop_store \<Rightarrow> string" where
  "stop_describe stop =
     ''store@0x'' @ hex_str (s_addr stop)
       @ (case s_value stop of None \<Rightarrow> [] | Some v \<Rightarrow> ''=0x'' @ hex_str v)"

definition is_dec :: "char \<Rightarrow> bool" where
  "is_dec c \<longleftrightarrow> 48 \<le> code c \<and> code c \<le> 57"

definition is_hex :: "char \<Rightarrow> bool" where
  "is_hex c \<longleftrightarrow> is_dec c \<or> (97 \<le> code c \<and> code c \<le> 102) \<or> (65 \<le> code c \<and> code c \<le> 70)"

definition num :: "nat \<Rightarrow> string \<Rightarrow> int" where
  "num b s = (case py_nat b s of None \<Rightarrow> 0 | Some v \<Rightarrow> v)"

definition hex_literal :: "string \<Rightarrow> bool" where
  "hex_literal s \<longleftrightarrow> (prefixed ''0x'' s \<or> prefixed ''0X'' s) \<and> drop 2 s \<noteq> [] \<and> list_all is_hex (drop 2 s)"

definition dec_literal :: "string \<Rightarrow> bool" where
  "dec_literal s \<longleftrightarrow> s \<noteq> [] \<and> list_all is_dec s"

definition int_literal :: "string \<Rightarrow> int" where
  "int_literal s = (if prefixed ''0x'' (lower (take 2 s)) then num 16 (drop 2 s) else num 10 s)"

datatype stop_err = StopForm string

text \<open>\<open>ADDR[:VALUE]\<close>\<close>

definition parse_stop_store :: "string \<Rightarrow> stop_err + stop_store" where
  "parse_stop_store spec =
     (let s = strip spec; literal = (\<lambda>t. hex_literal t \<or> dec_literal t);
          addr = takeWhile (\<lambda>c. c \<noteq> CHR '':'') s; rest = dropWhile (\<lambda>c. c \<noteq> CHR '':'') s in
      if literal addr \<and> rest = [] then Inr \<lparr>s_addr = int_literal addr, s_value = None\<rparr>
      else if literal addr \<and> literal (tl rest) then
        Inr \<lparr>s_addr = int_literal addr, s_value = Some (int_literal (tl rest))\<rparr>
      else Inl (StopForm spec))"

text \<open>The commits up to and including the stopping store, or \<open>None\<close> when it is not reached.\<close>

fun cut_at_stop :: "stop_store \<Rightarrow> commit list \<Rightarrow> commit list option" where
  "cut_at_stop stop [] = None"
| "cut_at_stop stop (c # cs) =
     (if stop_matches stop (c_mem_addr c) (c_mem_wdata c) then Some [c]
      else map_option (\<lambda>kept. c # kept) (cut_at_stop stop cs))"

datatype golden_err =
  GoldenText "nat \<times> text_err"
| StopNotReached stop_store
| TwoIntRegs nat
| TwoFpRegs nat
| BothClasses nat
| TwoAccesses nat
| ManyAccesses nat nat
| RepeatedCsr nat string
| GoldenCommit commit_err
| NeedElf
| UnknownKindOfTrace

definition truncate_at_stop :: "commit list \<Rightarrow> stop_store option \<Rightarrow> golden_err + commit list" where
  "truncate_at_stop commits stop =
     (case stop of
        None \<Rightarrow> Inr commits
      | Some s \<Rightarrow> (case cut_at_stop s commits of Some kept \<Rightarrow> Inr kept | None \<Rightarrow> Inl (StopNotReached s)))"

section \<open>Scanners\<close>

text \<open>\<open>\w\<close>: letters, digits, numeric characters and the underscore.\<close>

definition is_word_char :: "char \<Rightarrow> bool" where
  "is_word_char c =
     (if code c < 128 then
        is_dec c \<or> (65 \<le> code c \<and> code c \<le> 90) \<or> code c = 95 \<or> (97 \<le> code c \<and> code c \<le> 122)
      else
        code c \<in> {170, 178, 179, 181, 185, 186, 188, 189, 190}
        \<or> (192 \<le> code c \<and> code c \<noteq> 215 \<and> code c \<noteq> 247))"

definition word_ends :: "string \<Rightarrow> bool" where
  "word_ends s \<longleftrightarrow> s = [] \<or> \<not> is_word_char (hd s)"

definition eat :: "string \<Rightarrow> string \<Rightarrow> string option" where
  "eat p s = (if prefixed p s then Some (drop (length p) s) else None)"

definition eat1 :: "(char \<Rightarrow> bool) \<Rightarrow> string \<Rightarrow> (string \<times> string) option" where
  "eat1 P s = (if takeWhile P s = [] then None else Some (takeWhile P s, dropWhile P s))"

text \<open>\<open>\s+0x<hex>\<close>\<close>

definition eat_hex :: "string \<Rightarrow> (string \<times> string) option" where
  "eat_hex s = Option.bind (eat1 is_space s) (\<lambda>(_, s). Option.bind (eat ''0x'' s) (eat1 is_hex))"

text \<open>The line of one retired instruction: pc, instruction word and the rest.\<close>

definition commit_re :: "string \<Rightarrow> (string \<times> string \<times> string) option" where
  "commit_re s =
     Option.bind (eat ''core'' s) (\<lambda>s.
     Option.bind (eat1 is_dec (dropWhile is_space s)) (\<lambda>(_, s).
     Option.bind (eat '':'' s) (\<lambda>s.
     Option.bind (eat1 is_dec (dropWhile is_space s)) (\<lambda>(_, s).
     Option.bind (eat_hex s) (\<lambda>(pc, s).
     Option.bind (eat1 is_space s) (\<lambda>(_, s).
     Option.bind (eat ''(0x'' s) (\<lambda>s.
     Option.bind (eat1 is_hex s) (\<lambda>(insn, s).
     Option.bind (eat '')'' s) (\<lambda>rest. Some (pc, insn, rest))))))))))"

definition reg_re :: "string \<Rightarrow> string \<Rightarrow> ((int \<times> int) \<times> string) option" where
  "reg_re letter s =
     Option.bind (eat letter s) (\<lambda>s.
     Option.bind (eat1 is_dec s) (\<lambda>(rd, s).
     Option.bind (eat_hex s) (\<lambda>(v, s).
     if word_ends s then Some ((num 10 rd, num 16 v), s) else None)))"

definition csr_re :: "string \<Rightarrow> ((string \<times> int) \<times> string) option" where
  "csr_re s =
     Option.bind (eat ''c'' s) (\<lambda>s.
     Option.bind (eat1 is_dec s) (\<lambda>(_, s).
     Option.bind (eat ''_'' s) (\<lambda>s.
     Option.bind (eat1 (\<lambda>c. is_dec c \<or> (97 \<le> code c \<and> code c \<le> 122)) s) (\<lambda>(name, s).
     Option.bind (eat_hex s) (\<lambda>(v, s). Some ((name, num 16 v), s))))))"

definition mem_re :: "string \<Rightarrow> ((int \<times> int option) \<times> string) option" where
  "mem_re s =
     Option.bind (eat ''mem'' s) (\<lambda>s.
     Option.bind (eat_hex s) (\<lambda>(addr, s).
     case eat_hex s of
       Some (d, t) \<Rightarrow>
         if word_ends t then Some ((num 16 addr, Some (num 16 d)), t)
         else if word_ends s then Some ((num 16 addr, None), s) else None
     | None \<Rightarrow> if word_ends s then Some ((num 16 addr, None), s) else None))"

text \<open>\<open>finditer\<close> of a pattern that starts at a word boundary and ends in a word character.\<close>

function scan :: "(string \<Rightarrow> ('a \<times> string) option) \<Rightarrow> bool \<Rightarrow> string \<Rightarrow> 'a list" where
  "scan m in_a_word [] = []"
| "scan m in_a_word (c # s) =
     (case (if in_a_word then None else m (c # s)) of
        Some (a, rest) \<Rightarrow> if length rest \<le> length s then a # scan m True rest else []
      | None \<Rightarrow> scan m (is_word_char c) s)"
  by pat_completeness auto
termination
  by (relation "measure (\<lambda>(m, w, s). length s)") (auto split: if_splits)

section \<open>One line\<close>

definition FP_CSR_NAMES :: "string list" where
  "FP_CSR_NAMES = [''fflags'', ''frm'']"

fun fp_csrs :: "nat \<Rightarrow> (string \<times> int) list \<Rightarrow> (string \<times> int) list \<Rightarrow> golden_err + (string \<times> int) list" where
  "fp_csrs lineno keyed [] = Inr keyed"
| "fp_csrs lineno keyed ((name, v) # ms) =
     (if name \<notin> set FP_CSR_NAMES then fp_csrs lineno keyed ms
      else if map_of keyed name \<noteq> None then Inl (RepeatedCsr (lineno + 1) name)
      else fp_csrs lineno ((name, v) # keyed) ms)"

text \<open>The access a line reports: none, one, or the write of a read-then-write at one address.\<close>

definition one_access :: "nat \<Rightarrow> (int \<times> int option) list \<Rightarrow> golden_err + int option \<times> int option" where
  "one_access lineno mems =
     (case mems of
        [] \<Rightarrow> Inr (None, None)
      | [(addr, data)] \<Rightarrow> Inr (Some addr, data)
      | [(read_addr, read_data), (write_addr, write_data)] \<Rightarrow>
          if read_data \<noteq> None \<or> write_data = None \<or> read_addr \<noteq> write_addr then Inl (TwoAccesses (lineno + 1))
          else Inr (Some write_addr, write_data)
      | _ \<Rightarrow> Inl (ManyAccesses (lineno + 1) (length mems)))"

definition lift_golden :: "commit_err + 'a \<Rightarrow> golden_err + 'a" where
  "lift_golden r = (case r of Inl e \<Rightarrow> Inl (GoldenCommit e) | Inr v \<Rightarrow> Inr v)"

definition spike_commit :: "nat \<Rightarrow> nat \<Rightarrow> int \<Rightarrow> int \<Rightarrow> string \<Rightarrow> golden_err + commit" where
  "spike_commit lineno index pc insn rest =
     (let xs = filter (\<lambda>(r, _). r \<noteq> 0) (scan (reg_re ''x'') False rest);
          fs = scan (reg_re ''f'') False rest in
      if 1 < length xs then Inl (TwoIntRegs (lineno + 1))
      else if 1 < length fs then Inl (TwoFpRegs (lineno + 1))
      else if xs \<noteq> [] \<and> fs \<noteq> [] then Inl (BothClasses (lineno + 1))
      else
        let w = (case fs @ xs of [] \<Rightarrow> None | r # _ \<Rightarrow> Some r) in
        res_bind (one_access lineno (scan mem_re False rest)) (\<lambda>(mem_addr, mem_wdata).
        res_bind (fp_csrs lineno [] (scan csr_re False rest)) (\<lambda>keyed.
        lift_golden (mk_commit
          \<lparr>c_cycle = int index + 1, c_pc = pc, c_rd = map_option fst w, c_value = map_option snd w,
           c_insn = Some insn, c_mem_addr = mem_addr, c_mem_wdata = mem_wdata, c_mem_rmask = None,
           c_mem_wmask = None, c_rd_is_fp = (fs \<noteq> []), c_fflags = map_of keyed ''fflags'',
           c_frm = map_of keyed ''frm''\<rparr>))))"

definition writes_stop :: "string \<Rightarrow> stop_store \<Rightarrow> bool" where
  "writes_stop rest stop =
     list_ex (\<lambda>(addr, data). data \<noteq> None \<and> stop_matches stop (Some addr) data) (scan mem_re False rest)"

section \<open>The log\<close>

text \<open>The commits of the golden stream with their 0-based line numbers: from the entry point to
  the stopping store.\<close>

fun spike_lines :: "stop_store option \<Rightarrow> int option \<Rightarrow> nat \<Rightarrow> nat \<Rightarrow> string list \<Rightarrow> golden_err + (nat \<times> commit) list" where
  "spike_lines stop entry lineno index [] = Inr []"
| "spike_lines stop entry lineno index (raw # lines) =
     (case commit_re raw of
        None \<Rightarrow> spike_lines stop entry (Suc lineno) index lines
      | Some (pc_text, insn_text, rest) \<Rightarrow>
          if entry \<noteq> None \<and> entry \<noteq> Some (num 16 pc_text) then spike_lines stop entry (Suc lineno) index lines
          else
            case spike_commit lineno index (num 16 pc_text) (num 16 insn_text) rest of
              Inl e \<Rightarrow> Inl e
            | Inr c \<Rightarrow>
                if (case stop of None \<Rightarrow> False | Some s \<Rightarrow> writes_stop rest s) then Inr [(lineno, c)]
                else (case spike_lines stop None (Suc lineno) (Suc index) lines of
                        Inl e \<Rightarrow> Inl e
                      | Inr cs \<Rightarrow> Inr ((lineno, c) # cs)))"

definition iter_spike_commits ::
  "string \<Rightarrow> stop_store option \<Rightarrow> int option \<Rightarrow> golden_err + (nat \<times> commit) list" where
  "iter_spike_commits text stop entry = spike_lines stop entry 0 0 (splitlines text)"

definition normalize_spike_log :: "string \<Rightarrow> stop_store option \<Rightarrow> int option \<Rightarrow> golden_err + commit list" where
  "normalize_spike_log text stop entry =
     res_bind (iter_spike_commits text stop entry) (\<lambda>ps.
       let commits = map snd ps in
       case stop of
         None \<Rightarrow> Inr commits
       | Some s \<Rightarrow>
           if commits \<noteq> [] \<and> stop_matches s (c_mem_addr (last commits)) (c_mem_wdata (last commits))
           then Inr commits else Inl (StopNotReached s))"

definition last_golden_line :: "string \<Rightarrow> stop_store option \<Rightarrow> int option \<Rightarrow> golden_err + int" where
  "last_golden_line text stop entry =
     res_bind (iter_spike_commits text stop entry) (\<lambda>ps. Inr (foldl (\<lambda>l (lineno, _). int lineno) (-1) ps))"

definition is_spike_log :: "string \<Rightarrow> bool" where
  "is_spike_log text = list_ex (\<lambda>line. commit_re line \<noteq> None) (splitlines text)"

section \<open>A captured golden stream\<close>

text \<open>The image of \<open>--elf\<close> is given by its mailbox address and its entry point.\<close>

definition load_golden :: "string \<Rightarrow> (int \<times> int) option \<Rightarrow> stop_store option \<Rightarrow> golden_err + commit list" where
  "load_golden text elf stop =
     (if is_canonical_trace text then
        (case parse_trace True text of
           Inl e \<Rightarrow> Inl (GoldenText e)
         | Inr commits \<Rightarrow> truncate_at_stop commits stop)
      else if is_spike_log text then
        (case elf of
           None \<Rightarrow> Inl NeedElf
         | Some (tohost, entry) \<Rightarrow>
             normalize_spike_log text
               (Some (case stop of None \<Rightarrow> \<lparr>s_addr = tohost, s_value = None\<rparr> | Some s \<Rightarrow> s)) (Some entry))
      else Inl UnknownKindOfTrace)"

end
