(* ===== verification/Rv_Diff.thy ===== *)
theory Rv_Diff
  imports Rv_Text
begin

text \<open>
  The comparator of ethereal-shell/verif/eth_rv/rv_difftest.py: \<open>first_divergence\<close> with its
  memory, mask and floating-point checks, and the report of a divergence.
\<close>

section \<open>Divergences\<close>

datatype kind =
  KIND_PC | KIND_RD | KIND_VALUE | KIND_CYCLE | KIND_MEM_ADDR | KIND_MEM_WDATA | KIND_MEM_MASK
| KIND_FP_CLASS | KIND_FFLAGS | KIND_FRM | KIND_TRUNCATED | KIND_EXTRA

fun kind_text :: "kind \<Rightarrow> string" where
  "kind_text KIND_PC = ''pc_mismatch''"
| "kind_text KIND_RD = ''rd_mismatch''"
| "kind_text KIND_VALUE = ''value_mismatch''"
| "kind_text KIND_CYCLE = ''cycle_mismatch''"
| "kind_text KIND_MEM_ADDR = ''mem_addr_mismatch''"
| "kind_text KIND_MEM_WDATA = ''mem_wdata_mismatch''"
| "kind_text KIND_MEM_MASK = ''mem_mask_mismatch''"
| "kind_text KIND_FP_CLASS = ''fp_class_mismatch''"
| "kind_text KIND_FFLAGS = ''fflags_mismatch''"
| "kind_text KIND_FRM = ''frm_mismatch''"
| "kind_text KIND_TRUNCATED = ''dut_trace_truncated''"
| "kind_text KIND_EXTRA = ''dut_trace_extra_commits''"

record divergence =
  d_index :: nat
  d_kind :: kind
  d_cycle :: int
  d_pc :: int
  d_rd :: "int option"
  d_golden :: "commit option"
  d_dut :: "commit option"
  d_detail :: string

definition render :: "commit option \<Rightarrow> string" where
  "render c = (case c of None \<Rightarrow> ''<stream ended>'' | Some c \<Rightarrow> format_line c)"

text \<open>The report of a divergence; the register carries the class of either side.\<close>

definition divergence_lines :: "string \<Rightarrow> string \<Rightarrow> divergence \<Rightarrow> string list" where
  "divergence_lines golden_label dut_label x =
     (let side = (\<lambda>c. case c of None \<Rightarrow> False | Some c \<Rightarrow> c_rd_is_fp c);
          is_fp = (side (d_dut x) \<or> side (d_golden x)) in
      [''DIVERGENCE ('' @ kind_text (d_kind x) @ '') at commit #'' @ nat_str (d_index x) @ '' (cycle ''
         @ int_str (d_cycle x) @ ''): pc='' @ hex0x 16 (d_pc x) @ '' rd='' @ format_reg (d_rd x) is_fp,
       ''  golden ['' @ golden_label @ '']: '' @ render (d_golden x),
       ''  dut    ['' @ dut_label @ '']: '' @ render (d_dut x),
       ''  detail: '' @ d_detail x])"

definition mem_access_text :: "commit \<Rightarrow> string" where
  "mem_access_text c =
     (case c_mem_addr c of
        None \<Rightarrow> ''no memory access''
      | Some a \<Rightarrow> ''addr='' @ hex0x 16 a @ '' ''
          @ (case c_mem_wdata c of None \<Rightarrow> ''load'' | Some d \<Rightarrow> ''store data='' @ hex0x 16 d))"

text \<open>What most divergences report: the cycle, pc and register of the DUT commit.\<close>

definition diverge :: "nat \<Rightarrow> kind \<Rightarrow> commit \<Rightarrow> commit \<Rightarrow> string \<Rightarrow> divergence" where
  "diverge index k golden dut detail =
     \<lparr>d_index = index, d_kind = k, d_cycle = c_cycle dut, d_pc = c_pc dut, d_rd = c_rd dut,
      d_golden = Some golden, d_dut = Some dut, d_detail = detail\<rparr>"

section \<open>Memory\<close>

definition lane_mask_is_consistent :: "int \<Rightarrow> int \<Rightarrow> bool" where
  "lane_mask_is_consistent m addr =
     (let offset = nat (addr AND 7) in
      if m AND (push_bit offset 1 - 1) \<noteq> 0 then False
      else let shifted = drop_bit offset m in shifted \<noteq> 0 \<and> shifted AND (shifted + 1) = 0)"

text \<open>Python's truth of an optional integer, and \<open>x or 0\<close>.\<close>

definition truthy :: "int option \<Rightarrow> bool" where
  "truthy v = (case v of None \<Rightarrow> False | Some i \<Rightarrow> i \<noteq> 0)"

definition or_zero :: "int option \<Rightarrow> int" where
  "or_zero v = (case v of None \<Rightarrow> 0 | Some i \<Rightarrow> i)"

definition py_opt :: "int option \<Rightarrow> string" where
  "py_opt v = (case v of None \<Rightarrow> ''None'' | Some i \<Rightarrow> int_str i)"

definition bad_mask :: "int \<Rightarrow> int option \<Rightarrow> bool" where
  "bad_mask addr m = (truthy m \<and> \<not> lane_mask_is_consistent (or_zero m) addr)"

definition bad_mask_text :: "string \<Rightarrow> int option \<Rightarrow> int \<Rightarrow> string" where
  "bad_mask_text name m addr =
     ''dut '' @ name @ ''='' @ hex0x 2 (or_zero m) @ '' is not a contiguous run of lanes starting at addr[2:0]=''
       @ int_str (addr AND 7)"

definition mask_divergence :: "nat \<Rightarrow> commit \<Rightarrow> commit \<Rightarrow> divergence option" where
  "mask_divergence index golden dut =
     (let fail = (\<lambda>detail. Some (diverge index KIND_MEM_MASK golden dut detail));
          addr = or_zero (c_mem_addr dut);
          rmask = c_mem_rmask dut; wmask = c_mem_wmask dut in
      if \<not> has_mem_masks dut then None
      else if bad_mask addr rmask then fail (bad_mask_text ''rmask'' rmask addr)
      else if bad_mask addr wmask then fail (bad_mask_text ''wmask'' wmask addr)
      else if c_mem_wdata golden = None \<and> \<not> truthy rmask then
        fail (''golden retires a load here, dut reports rmask='' @ hex0x 2 (or_zero rmask)
              @ '' (wmask='' @ hex0x 2 (or_zero wmask) @ '')'')
      else if c_mem_wdata golden \<noteq> None \<and> \<not> truthy wmask then
        fail (''golden retires a store here, dut reports wmask='' @ hex0x 2 (or_zero wmask)
              @ '' (rmask='' @ hex0x 2 (or_zero rmask) @ '')'')
      else if has_mem_masks golden \<and> has_mem_masks dut
           \<and> (c_mem_rmask golden \<noteq> rmask \<or> c_mem_wmask golden \<noteq> wmask) then
        fail (''mask mismatch: golden rmask='' @ py_opt (c_mem_rmask golden) @ '' wmask='' @ py_opt (c_mem_wmask golden)
              @ '' != dut rmask='' @ py_opt rmask @ '' wmask='' @ py_opt wmask)
      else None)"

definition data_text :: "int option \<Rightarrow> string" where
  "data_text v = (case v of None \<Rightarrow> ''load'' | Some d \<Rightarrow> hex0x 16 d)"

definition mem_divergence :: "nat \<Rightarrow> commit \<Rightarrow> commit \<Rightarrow> divergence option" where
  "mem_divergence index golden dut =
     (if c_mem_addr golden \<noteq> c_mem_addr dut then
        Some (diverge index KIND_MEM_ADDR golden dut
          (case (c_mem_addr golden, c_mem_addr dut) of
             (_, None) \<Rightarrow> ''golden retires a memory access here, dut reports none ('' @ mem_access_text golden @ '')''
           | (None, Some _) \<Rightarrow> ''dut retires a memory access here, golden reports none ('' @ mem_access_text dut @ '')''
           | (Some g, Some d) \<Rightarrow>
               ''memory address mismatch: golden '' @ hex0x 16 g @ '' != dut '' @ hex0x 16 d))
      else if c_mem_addr dut = None then None
      else if c_mem_wdata golden \<noteq> c_mem_wdata dut then
        Some (diverge index KIND_MEM_WDATA golden dut
          (''memory write data mismatch: golden '' @ data_text (c_mem_wdata golden)
           @ '' != dut '' @ data_text (c_mem_wdata dut)))
      else mask_divergence index golden dut)"

section \<open>Floating-point state\<close>

definition reg_class_text :: "commit \<Rightarrow> string" where
  "reg_class_text c = format_reg (c_rd c) (c_rd_is_fp c)"

definition fp_state_text :: "int option \<Rightarrow> string" where
  "fp_state_text v = (case v of None \<Rightarrow> ''not written'' | Some i \<Rightarrow> hex0x 2 i)"

definition fp_divergence :: "nat \<Rightarrow> commit \<Rightarrow> commit \<Rightarrow> divergence option" where
  "fp_divergence index golden dut =
     (if c_fflags golden \<noteq> c_fflags dut then
        Some (diverge index KIND_FFLAGS golden dut
          (''fflags mismatch: golden '' @ fp_state_text (c_fflags golden) @ '' != dut '' @ fp_state_text (c_fflags dut)))
      else if c_frm golden \<noteq> c_frm dut then
        Some (diverge index KIND_FRM golden dut
          (''frm mismatch: golden '' @ fp_state_text (c_frm golden) @ '' != dut '' @ fp_state_text (c_frm dut)))
      else None)"

section \<open>The first divergence\<close>

record checks =
  check_cycle :: bool
  check_mem_stream :: bool
  check_fp :: bool

text \<open>The checks of one pair of commits, in the order of the code.\<close>

definition commit_divergence :: "checks \<Rightarrow> nat \<Rightarrow> commit \<Rightarrow> commit \<Rightarrow> divergence option" where
  "commit_divergence opts index golden dut =
     (if check_cycle opts \<and> c_cycle golden \<noteq> c_cycle dut then
        Some ((diverge index KIND_CYCLE golden dut
                (''cycle mismatch: golden '' @ int_str (c_cycle golden) @ '' != dut '' @ int_str (c_cycle dut)))
              \<lparr>d_pc := c_pc golden, d_rd := c_rd golden\<rparr>)
      else if c_pc golden \<noteq> c_pc dut then
        Some ((diverge index KIND_PC golden dut
                (''pc mismatch: golden '' @ hex0x 16 (c_pc golden) @ '' != dut '' @ hex0x 16 (c_pc dut)
                 @ '' (divergent control flow)''))
              \<lparr>d_rd := c_rd golden\<rparr>)
      else if check_fp opts \<and> c_rd_is_fp golden \<noteq> c_rd_is_fp dut then
        Some (diverge index KIND_FP_CLASS golden dut
          (''register class mismatch at pc '' @ hex0x 16 (c_pc dut) @ '': golden writes '' @ reg_class_text golden
           @ '', dut writes '' @ reg_class_text dut))
      else if c_rd golden \<noteq> c_rd dut then
        Some (diverge index KIND_RD golden dut
          (''register mismatch at pc '' @ hex0x 16 (c_pc dut) @ '': golden writes '' @ format_reg (c_rd golden) False
           @ '', dut writes '' @ format_reg (c_rd dut) False))
      else if c_value golden \<noteq> c_value dut then
        Some (diverge index KIND_VALUE golden dut
          (''value mismatch: golden '' @ value_text golden @ '' != dut '' @ value_text dut))
      else
        case (if check_mem_stream opts then mem_divergence index golden dut else None) of
          Some x \<Rightarrow> Some x
        | None \<Rightarrow> (if check_fp opts then fp_divergence index golden dut else None))"

definition extra_commits :: "nat \<Rightarrow> commit \<Rightarrow> commit list \<Rightarrow> divergence" where
  "extra_commits index dut rest =
     \<lparr>d_index = index, d_kind = KIND_EXTRA, d_cycle = c_cycle dut, d_pc = c_pc dut, d_rd = c_rd dut,
      d_golden = None, d_dut = Some dut,
      d_detail = ''DUT retired '' @ nat_str (length rest + 1) @ '' extra commit(s); the golden stream ended here''\<rparr>"

definition truncated :: "nat \<Rightarrow> commit \<Rightarrow> commit list \<Rightarrow> divergence" where
  "truncated index golden rest =
     \<lparr>d_index = index, d_kind = KIND_TRUNCATED, d_cycle = c_cycle golden, d_pc = c_pc golden, d_rd = c_rd golden,
      d_golden = Some golden, d_dut = None,
      d_detail = ''DUT stream ended after '' @ nat_str index @ '' commit(s); golden ('' @ nat_str (length rest + 1)
        @ '' more) continues''\<rparr>"

definition within :: "int option \<Rightarrow> nat \<Rightarrow> bool" where
  "within max_commits index = (case max_commits of None \<Rightarrow> True | Some m \<Rightarrow> int index < m)"

fun divergence_from :: "checks \<Rightarrow> int option \<Rightarrow> nat \<Rightarrow> commit list \<Rightarrow> commit list \<Rightarrow> divergence option" where
  "divergence_from opts m index [] [] = None"
| "divergence_from opts m index [] (d # ds) =
     (if within m index then Some (extra_commits index d ds) else None)"
| "divergence_from opts m index (g # gs) [] =
     (if within m index then Some (truncated index g gs) else None)"
| "divergence_from opts m index (g # gs) (d # ds) =
     (if within m index then
        case commit_divergence opts index g d of
          Some x \<Rightarrow> Some x
        | None \<Rightarrow> divergence_from opts m (Suc index) gs ds
      else None)"

definition first_divergence ::
  "checks \<Rightarrow> int option \<Rightarrow> commit list \<Rightarrow> commit list \<Rightarrow> divergence option" where
  "first_divergence opts max_commits golden dut = divergence_from opts max_commits 0 golden dut"

text \<open>The part of \<open>main\<close> after both streams are loaded: which records are compared, and the
  exit status.\<close>

definition EXIT_MATCH :: int where "EXIT_MATCH = 0"
definition EXIT_DIVERGED :: int where "EXIT_DIVERGED = 1"
definition EXIT_ERROR :: int where "EXIT_ERROR = 2"

definition compare_streams :: "bool \<Rightarrow> int option \<Rightarrow> commit list \<Rightarrow> commit list \<Rightarrow> divergence option" where
  "compare_streams no_cycle_check max_commits golden dut =
     first_divergence
       \<lparr>check_cycle = \<not> no_cycle_check,
        check_mem_stream = stream_has_mem_info golden \<and> stream_has_mem_info dut,
        check_fp = stream_has_fp_info golden \<and> stream_has_fp_info dut\<rparr>
       max_commits golden dut"

definition exit_status :: "divergence option \<Rightarrow> int" where
  "exit_status x = (case x of None \<Rightarrow> EXIT_MATCH | Some _ \<Rightarrow> EXIT_DIVERGED)"

end
