(* ===== verification/Rv_Dut.thy ===== *)
theory Rv_Dut
  imports Rv_Spike Rv_Diff
begin

text \<open>
  The DUT side of the DiffTest harness, ethereal-shell/verif/eth_rv/rv_dut.py: the
  specification of a DUT, the commits a callback yields, and fault injection. Reading files
  and importing modules is I/O: what a source yields is an argument.
\<close>

section \<open>Specifications\<close>

datatype dut_err =
  CallbackForm
| UnknownSpec
| YieldedType
| CallbackText "nat \<times> text_err"
| InjectForm
| InjectField string
| InjectIndex string
| InjectNegative int
| InjectNotRegister string
| InjectDash
| InjectNotNumber string
| InjectMask string
| InjectBits string nat

datatype dut =
  TextDumpDUT string
| ModelDUT string int
| CallbackDUT string string "string list"

definition PREFIX_DUMP :: string where "PREFIX_DUMP = ''dump:''"
definition PREFIX_MODEL :: string where "PREFIX_MODEL = ''model:''"
definition PREFIX_CALLBACK :: string where "PREFIX_CALLBACK = ''callback:''"

text \<open>\<open>rpartition(":")\<close>: the parts around the last colon; no colon leaves all in the last part.\<close>

definition before_last_colon :: "string \<Rightarrow> string" where
  "before_last_colon s = rev (tl (dropWhile (\<lambda>c. c \<noteq> CHR '':'') (rev s)))"

definition after_last_colon :: "string \<Rightarrow> string" where
  "after_last_colon s = rev (takeWhile (\<lambda>c. c \<noteq> CHR '':'') (rev s))"

definition load_dut :: "string \<Rightarrow> string list \<Rightarrow> int \<Rightarrow> dut_err + dut" where
  "load_dut spec path_dirs max_commits =
     (if prefixed PREFIX_DUMP spec then Inr (TextDumpDUT (drop (length PREFIX_DUMP) spec))
      else if prefixed PREFIX_MODEL spec then Inr (ModelDUT (drop (length PREFIX_MODEL) spec) max_commits)
      else if prefixed PREFIX_CALLBACK spec then
        (let rest = drop (length PREFIX_CALLBACK) spec;
             module = before_last_colon rest; func = after_last_colon rest in
         if CHR '':'' \<notin> set rest \<or> module = [] \<or> func = [] then Inl CallbackForm
         else Inr (CallbackDUT module func path_dirs))
      else Inl UnknownSpec)"

fun dut_describe :: "dut \<Rightarrow> string" where
  "dut_describe (TextDumpDUT path) = ''dump:'' @ path"
| "dut_describe (ModelDUT path _) = ''model:'' @ path"
| "dut_describe (CallbackDUT module func _) = ''callback:'' @ module @ '':'' @ func"

section \<open>What a callback yields\<close>

datatype produced = PCommit commit | PText string | POther

fun coerce_loop :: "string list \<Rightarrow> commit list \<Rightarrow> produced list \<Rightarrow> dut_err + string list \<times> commit list" where
  "coerce_loop lines commits [] = Inr (lines, commits)"
| "coerce_loop lines commits (PCommit c # ps) = coerce_loop lines (commits @ [c]) ps"
| "coerce_loop lines commits (PText t # ps) = coerce_loop (lines @ [t]) commits ps"
| "coerce_loop lines commits (POther # ps) = Inl YieldedType"

definition coerce_commits :: "produced list \<Rightarrow> dut_err + commit list" where
  "coerce_commits ps =
     res_bind (coerce_loop [] [] ps) (\<lambda>(lines, commits).
       if lines = [] then Inr commits
       else case parse_trace True (join [CHR 0x0A] lines) of
              Inl e \<Rightarrow> Inl (CallbackText e)
            | Inr parsed \<Rightarrow> Inr (commits @ parsed))"

section \<open>Fault injection\<close>

datatype field =
  F_pc | F_rd | F_value | F_cycle | F_mem_addr | F_mem_wdata | F_mem_rmask | F_mem_wmask | F_fflags | F_frm

definition INJECTION_FIELDS :: "(string \<times> field) list" where
  "INJECTION_FIELDS =
     [(''pc'', F_pc), (''rd'', F_rd), (''value'', F_value), (''cycle'', F_cycle), (''mem_addr'', F_mem_addr),
      (''mem_wdata'', F_mem_wdata), (''mem_rmask'', F_mem_rmask), (''mem_wmask'', F_mem_wmask),
      (''fflags'', F_fflags), (''frm'', F_frm)]"

definition MEM_MASK_FIELDS :: "field list" where "MEM_MASK_FIELDS = [F_mem_rmask, F_mem_wmask]"

definition FP_FIELDS :: "(field \<times> nat) list" where "FP_FIELDS = [(F_fflags, 5), (F_frm, 3)]"

record injection =
  i_index :: int
  i_field :: field
  i_value :: int

definition parse_field_value :: "field \<Rightarrow> string \<Rightarrow> dut_err + int" where
  "parse_field_value f text =
     (let token = lower (strip text) in
      if f = F_rd then
        (case parse_reg token of
           Inl _ \<Rightarrow> Inl (InjectNotRegister text)
         | Inr None \<Rightarrow> Inl InjectDash
         | Inr (Some r) \<Rightarrow> Inr r)
      else
        case py_int_auto token of
          None \<Rightarrow> Inl (InjectNotNumber text)
        | Some v \<Rightarrow>
            if f \<in> set MEM_MASK_FIELDS \<and> \<not> (0 \<le> v \<and> v < 256) then Inl (InjectMask text)
            else case map_of FP_FIELDS f of
              Some bits \<Rightarrow> if 0 \<le> v \<and> v < push_bit bits 1 then Inr v else Inl (InjectBits text bits)
            | None \<Rightarrow> Inr v)"

text \<open>\<open>INDEX:FIELD=VALUE\<close>\<close>

definition parse_injection :: "string \<Rightarrow> dut_err + injection" where
  "parse_injection spec =
     (let index_text = takeWhile (\<lambda>c. c \<noteq> CHR '':'') spec;
          rest = tl (dropWhile (\<lambda>c. c \<noteq> CHR '':'') spec);
          field_text = takeWhile (\<lambda>c. c \<noteq> CHR ''='') rest;
          value_text = tl (dropWhile (\<lambda>c. c \<noteq> CHR ''='') rest) in
      if CHR '':'' \<notin> set spec \<or> CHR ''='' \<notin> set rest then Inl InjectForm
      else case map_of INJECTION_FIELDS (lower (strip field_text)) of
        None \<Rightarrow> Inl (InjectField field_text)
      | Some f \<Rightarrow>
          (case py_int10 (strip index_text) of
             None \<Rightarrow> Inl (InjectIndex index_text)
           | Some index \<Rightarrow>
               if index < 0 then Inl (InjectNegative index)
               else res_bind (parse_field_value f value_text) (\<lambda>v.
                 Inr \<lparr>i_index = index, i_field = f, i_value = v\<rparr>)))"

definition apply_injection :: "injection \<Rightarrow> commit \<Rightarrow> commit_err + commit" where
  "apply_injection fault c =
     (let v = i_value fault;
          with_access = (if c_mem_addr c = None then mk_commit (c\<lparr>c_mem_addr := Some (c_pc c)\<rparr>) else Inr c) in
      case i_field fault of
        F_pc \<Rightarrow> with_pc v c
      | F_value \<Rightarrow> with_value v c
      | F_rd \<Rightarrow> with_rd v c
      | F_cycle \<Rightarrow> with_cycle v c
      | F_fflags \<Rightarrow> mk_commit (c\<lparr>c_fflags := Some v\<rparr>)
      | F_frm \<Rightarrow> mk_commit (c\<lparr>c_frm := Some v\<rparr>)
      | F_mem_addr \<Rightarrow> mk_commit (c\<lparr>c_mem_addr := Some v\<rparr>)
      | F_mem_wdata \<Rightarrow> res_bind with_access (\<lambda>c. mk_commit (c\<lparr>c_mem_wdata := Some v\<rparr>))
      | F_mem_rmask \<Rightarrow> res_bind with_access (\<lambda>c. mk_commit (c\<lparr>c_mem_rmask := Some v, c_mem_wmask := None\<rparr>))
      | F_mem_wmask \<Rightarrow> res_bind with_access (\<lambda>c. mk_commit (c\<lparr>c_mem_wmask := Some v, c_mem_rmask := None\<rparr>)))"

fun apply_injections :: "nat \<Rightarrow> injection list \<Rightarrow> commit \<Rightarrow> commit_err + commit" where
  "apply_injections index [] c = Inr c"
| "apply_injections index (fault # injs) c =
     (if i_index fault \<noteq> int index then apply_injections index injs c
      else res_bind (apply_injection fault c) (apply_injections index injs))"

text \<open>The commits of an \<open>InjectedDUT\<close>, and its label.\<close>

definition injected_commits :: "injection list \<Rightarrow> commit list \<Rightarrow> commit_err + commit list" where
  "injected_commits injs cs = res_map (\<lambda>(i, c). apply_injections i injs c) (enumerate 0 cs)"

definition field_name :: "field \<Rightarrow> string" where
  "field_name f = (case map_of (map prod.swap INJECTION_FIELDS) f of None \<Rightarrow> [] | Some n \<Rightarrow> n)"

definition injected_describe :: "string \<Rightarrow> injection list \<Rightarrow> string" where
  "injected_describe source injs =
     source @ '' +inject[''
       @ join '' '' (map (\<lambda>i. int_str (i_index i) @ '':'' @ field_name (i_field i) @ ''=''
            @ (if i_value i < 0 then ''-'' else []) @ ''0x'' @ hex_str \<bar>i_value i\<bar>) injs)
       @ '']''"

section \<open>A run of the harness\<close>

text \<open>The DUT stream is produced lazily and cut at the stopping store: commits after it are
  never injected. \<open>Inl\<close> is the exception of a commit, \<open>None\<close> a stream without the store.\<close>

fun cut_injected ::
  "injection list \<Rightarrow> stop_store option \<Rightarrow> nat \<Rightarrow> commit list \<Rightarrow> commit_err + commit list option" where
  "cut_injected injs stop i [] = Inr (if stop = None then Some [] else None)"
| "cut_injected injs stop i (c # cs) =
     res_bind (apply_injections i injs c) (\<lambda>c'.
       if (case stop of None \<Rightarrow> False | Some s \<Rightarrow> stop_matches s (c_mem_addr c') (c_mem_wdata c')) then Inr (Some [c'])
       else res_bind (cut_injected injs stop (Suc i) cs) (\<lambda>r. Inr (map_option (\<lambda>kept. c' # kept) r)))"

text \<open>\<open>main\<close> from the loaded streams on: the status of the process, or \<open>None\<close> when the plain
  exception of a commit escapes, which \<open>main\<close> does not catch.\<close>

definition run_difftest ::
  "bool \<Rightarrow> int option \<Rightarrow> stop_store option \<Rightarrow> injection list \<Rightarrow> golden_err + commit list \<Rightarrow>
   dut_err + commit list \<Rightarrow> int option" where
  "run_difftest no_cycle_check max_commits stop injs golden dut =
     (case golden of
        Inl (GoldenCommit _) \<Rightarrow> None
      | Inl _ \<Rightarrow> Some EXIT_ERROR
      | Inr g \<Rightarrow>
          (case dut of
             Inl _ \<Rightarrow> Some EXIT_ERROR
           | Inr d \<Rightarrow>
               (case cut_injected injs stop 0 d of
                  Inl _ \<Rightarrow> None
                | Inr None \<Rightarrow> Some EXIT_ERROR
                | Inr (Some d') \<Rightarrow> Some (exit_status (compare_streams no_cycle_check max_commits g d')))))"

end
