(* ===== verification/Rv_Text_Lemmas.thy ===== *)
theory Rv_Text_Lemmas
  imports Rv_Text
begin

text \<open>
  Lemmas of the trace text: tokens survive joining and splitting, numbers and registers
  survive rendering and parsing.
\<close>

section \<open>Tokens and lines\<close>

text \<open>The characters that occur in the fields of a written line.\<close>

definition graphic :: "char \<Rightarrow> bool" where
  "graphic c \<longleftrightarrow> 33 \<le> code c \<and> code c \<le> 126 \<and> code c \<noteq> 35"

definition token :: "string \<Rightarrow> bool" where
  "token t \<longleftrightarrow> t \<noteq> [] \<and> list_all graphic t"

lemma graphic_simps [simp]:
  "graphic c \<Longrightarrow> \<not> is_space c" "graphic c \<Longrightarrow> \<not> is_line_break c" "graphic c \<Longrightarrow> c \<noteq> CHR ''#''"
  "graphic c \<Longrightarrow> code c \<noteq> 13"
  by (auto simp: graphic_def is_space_def is_line_break_def code_def)

lemma space_simps [simp]: "is_space CHR '' ''" "\<not> is_line_break CHR '' ''" "code CHR '' '' \<noteq> 13"
  by (simp_all add: is_space_def is_line_break_def code_def)

lemma dropWhile_none: "list_all (\<lambda>c. \<not> P c) s \<Longrightarrow> dropWhile P s = s"
  by (cases s) auto

lemma strip_edges: "s \<noteq> [] \<Longrightarrow> \<not> is_space (hd s) \<Longrightarrow> \<not> is_space (last s) \<Longrightarrow> strip s = s"
proof -
  assume s: "s \<noteq> []" "\<not> is_space (hd s)" "\<not> is_space (last s)"
  then have "dropWhile is_space s = s" by (cases s) auto
  moreover have "dropWhile is_space (rev s) = rev s"
    using s by (cases s rule: rev_cases) auto
  ultimately show ?thesis by (simp add: strip_def)
qed

lemma token_edges: "token t \<Longrightarrow> t \<noteq> [] \<and> \<not> is_space (hd t) \<and> \<not> is_space (last t)"
  by (auto simp: token_def list_all_iff)

lemma strip_token [simp]: "token t \<Longrightarrow> strip t = t"
  using token_edges by (simp add: strip_edges)

lemma join_edges:
  "ts \<noteq> [] \<Longrightarrow> list_all token ts \<Longrightarrow> join '' '' ts \<noteq> [] \<and> hd (join '' '' ts) = hd (hd ts)
     \<and> last (join '' '' ts) = last (last ts)"
  by (induction "'' ''" ts rule: join.induct) (auto simp: token_def)

lemma strip_join: "ts \<noteq> [] \<Longrightarrow> list_all token ts \<Longrightarrow> strip (join '' '' ts) = join '' '' ts"
  using join_edges [of ts] token_edges
  by (intro strip_edges) (auto simp: list_all_iff)

lemma join_chars: "list_all token ts \<Longrightarrow> c \<in> set (join '' '' ts) \<Longrightarrow> c = CHR '' '' \<or> graphic c"
  by (induction "'' ''" ts rule: join.induct) (auto simp: token_def list_all_iff)

lemma uncommented_join: "list_all token ts \<Longrightarrow> takeWhile (\<lambda>c. c \<noteq> CHR ''#'') (join '' '' ts) = join '' '' ts"
  using join_chars [of ts "CHR ''#''"] graphic_simps(3) [of "CHR ''#''"] by (auto simp: takeWhile_eq_all_conv)

lemma split_ws_token: "token t \<Longrightarrow> split_ws (t @ s) = (t @ takeWhile (\<lambda>c. \<not> is_space c) s) # split_ws (dropWhile (\<lambda>c. \<not> is_space c) s)"
proof -
  assume t: "token t"
  have "dropWhile is_space (t @ s) = t @ s" using token_edges [OF t] by (cases t) auto
  moreover have "takeWhile (\<lambda>c. \<not> is_space c) (t @ s) = t @ takeWhile (\<lambda>c. \<not> is_space c) s"
    using t by (intro takeWhile_append2) (auto simp: token_def list_all_iff)
  moreover have "dropWhile (\<lambda>c. \<not> is_space c) (t @ s) = dropWhile (\<lambda>c. \<not> is_space c) s"
    using t by (intro dropWhile_append2) (auto simp: token_def list_all_iff)
  ultimately show ?thesis
    using token_edges [OF t] by (subst split_ws.simps) (cases t; simp)
qed

lemma split_ws_space: "split_ws (CHR '' '' # s) = split_ws s"
  by (subst (1 2) split_ws.simps) simp

lemma split_join: "list_all token ts \<Longrightarrow> split_ws (join '' '' ts) = ts"
proof (induction "'' ''" ts rule: join.induct)
  case 1
  then show ?case by (simp add: split_ws.simps)
next
  case (2 s)
  then have "split_ws (s @ []) = [s]"
    using split_ws_token [of s "[]"] split_ws.simps [of "[]"] by simp
  then show ?case by simp
next
  case (3 s t ss)
  then show ?case by (simp add: split_ws_token split_ws_space)
qed

lemma splitlines_line:
  "list_all (\<lambda>c. \<not> is_line_break c) l \<Longrightarrow>
     splitlines_from cur (l @ CHR 0x0A # s) = (rev cur @ l) # splitlines_from [] s"
proof (induction l arbitrary: cur)
  case Nil
  then show ?case by (simp add: is_line_break_def code_def)
next
  case (Cons c l)
  then have "code c \<noteq> 13" by (auto simp: is_line_break_def)
  with Cons show ?case by simp
qed

lemma splitlines_join:
  "ls \<noteq> [] \<Longrightarrow> \<forall>l \<in> set ls. list_all (\<lambda>c. \<not> is_line_break c) l \<Longrightarrow>
     splitlines (join [CHR 0x0A] ls @ [CHR 0x0A]) = ls"
  unfolding splitlines_def
  by (induction "[CHR 0x0A]" ls rule: join.induct) (simp_all add: splitlines_line)

lemma splitlines_no_break:
  "l \<in> set (splitlines_from cur s) \<Longrightarrow> list_all (\<lambda>c. \<not> is_line_break c) cur \<Longrightarrow>
     list_all (\<lambda>c. \<not> is_line_break c) l"
  by (induction cur s rule: splitlines_from.induct) (auto split: if_splits)

section \<open>Numbers\<close>

lemma digit_val_underscore: "b \<le> 16 \<Longrightarrow> digit_val b CHR ''_'' = None"
  by (simp add: digit_val_def code_def)

lemma py_digits_append:
  assumes "b \<le> 16" and "\<forall>c \<in> set s. digit_val b c \<noteq> None"
  shows "py_digits b acc (s @ t) = Option.bind (py_digits b acc s) (\<lambda>a. py_digits b a t)"
  using assms(2)
proof (induction s arbitrary: acc)
  case (Cons c s)
  moreover have "c \<noteq> CHR ''_''" using Cons.prems digit_val_underscore [OF assms(1)] by auto
  ultimately show ?case by auto
qed simp

lemma code_hex_char: "d < 16 \<Longrightarrow> code (hex_char d) = (if d < 10 then 48 + d else 87 + d)"
  by (simp add: code_def hex_char_def take_bit_eq_mod)

lemma code_digit_char: "d < 10 \<Longrightarrow> code (digit_char d) = 48 + d"
  by (simp add: code_def of_digit_char)

lemma code_neq: "code c \<noteq> code d \<Longrightarrow> c \<noteq> d"
  by auto

lemma hex_char_val: "d < 16 \<Longrightarrow> digit_val 16 (hex_char d) = Some d \<and> graphic (hex_char d)
    \<and> lower_char (hex_char d) = hex_char d \<and> hex_char d \<noteq> CHR ''_'' \<and> hex_char d \<noteq> CHR ''=''"
proof -
  assume d: "d < 16"
  note k = code_hex_char [OF d]
  have "hex_char d \<noteq> CHR ''_''" "hex_char d \<noteq> CHR ''=''"
    by (rule code_neq, use d in \<open>simp add: k\<close>, simp add: code_def)+
  with d show ?thesis by (simp add: k digit_val_def Let_def graphic_def lower_char_def)
qed

lemma digit_char_val: "d < 10 \<Longrightarrow> digit_val 10 (digit_char d) = Some d \<and> graphic (digit_char d)
    \<and> lower_char (digit_char d) = digit_char d
    \<and> digit_char d \<notin> {CHR ''_'', CHR ''='', CHR ''+'', CHR ''-'', CHR ''x''}"
proof -
  assume d: "d < 10"
  note k = code_digit_char [OF d]
  have "digit_char d \<noteq> c" if "\<not> (48 \<le> code c \<and> code c \<le> 57)" for c
    by (rule code_neq) (use d that in \<open>auto simp: k\<close>)
  then have "digit_char d \<notin> {CHR ''_'', CHR ''='', CHR ''+'', CHR ''-'', CHR ''x''}"
    by (simp add: code_def)
  with d show ?thesis by (simp add: k digit_val_def Let_def graphic_def lower_char_def)
qed

text \<open>The characters of a rendered number.\<close>

lemma hex_str_step: "\<not> n < 16 \<Longrightarrow> hex_str n = hex_str (n div 16) @ [hex_char (nat (n mod 16))]"
  by (subst hex_str.simps) simp

lemma hex_str_chars: "0 \<le> n \<Longrightarrow> c \<in> set (hex_str n) \<Longrightarrow> \<exists>d < 16. c = hex_char d"
proof (induction n rule: hex_str.induct)
  case (1 n)
  show ?case
  proof (cases "n < 16")
    case True
    with 1 show ?thesis by (auto simp: hex_str.simps [of n] intro: exI [of _ "nat n"])
  next
    case False
    have "nat (n mod 16) < 16" by (simp add: nat_less_iff)
    moreover have "c \<in> set (hex_str (n div 16)) \<or> c = hex_char (nat (n mod 16))"
      using 1(3) hex_str_step [OF False] by auto
    ultimately show ?thesis using 1(1,2) False by auto
  qed
qed

lemma py_hex_str: "0 \<le> n \<Longrightarrow> py_digits 16 0 (hex_str n) = Some n"
proof (induction n rule: hex_str.induct)
  case (1 n)
  show ?case
  proof (cases "n < 16")
    case True
    with 1 show ?thesis using hex_char_val [of "nat n"] by (simp add: hex_str.simps [of n])
  next
    case False
    then have "0 \<le> n div 16" by simp
    then have "py_digits 16 0 (hex_str (n div 16) @ [hex_char (nat (n mod 16))]) = Some n"
      using 1 False hex_char_val [of "nat (n mod 16)"] hex_str_chars [of "n div 16"] hex_char_val
      by (subst py_digits_append) (auto simp: nat_less_iff mult_div_mod_eq)
    with hex_str_step [OF False] show ?thesis by simp
  qed
qed

lemma hex_pad_chars: "0 \<le> v \<Longrightarrow> c \<in> set (hex_pad w v) \<Longrightarrow> \<exists>d < 16. c = hex_char d"
proof -
  assume v: "0 \<le> v" and c: "c \<in> set (hex_pad w v)"
  have "CHR ''0'' = hex_char 0" by code_simp
  moreover have "c = CHR ''0'' \<or> c \<in> set (hex_str v)" using c by (auto simp: hex_pad_def Let_def)
  moreover have "(0 :: nat) < 16" by simp
  ultimately show ?thesis using hex_str_chars [OF v] by blast
qed

lemma hex_str_nonempty [simp]: "hex_str n \<noteq> []"
  by (subst hex_str.simps) simp

lemma py_hex_pad: "0 \<le> v \<Longrightarrow> py_nat 16 (hex_pad w v) = Some v"
proof -
  assume v: "0 \<le> v"
  have z: "digit_val 16 CHR ''0'' = Some 0" by code_simp
  have "py_digits 16 0 (replicate k CHR ''0'') = Some 0" for k by (induction k) (simp_all add: z)
  then have "py_digits 16 0 (hex_pad w v) = Some v"
    using py_hex_str [OF v] by (simp add: hex_pad_def Let_def py_digits_append z)
  moreover obtain c t where ct: "hex_pad w v = c # t"
    by (cases "hex_pad w v") (simp_all add: hex_pad_def Let_def)
  moreover have "digit_val 16 c \<noteq> None"
    using hex_pad_chars [OF v, of c w] hex_char_val by (auto simp: ct)
  ultimately show ?thesis by (simp add: py_nat_def)
qed

lemma hex0x_token: "0 \<le> v \<Longrightarrow> token (hex0x w v) \<and> CHR ''='' \<notin> set (hex0x w v) \<and> lower (hex0x w v) = hex0x w v"
proof -
  assume v: "0 \<le> v"
  have x: "graphic CHR ''0''" "graphic CHR ''x''" "lower_char CHR ''0'' = CHR ''0''" "lower_char CHR ''x'' = CHR ''x''"
    by code_simp+
  have "graphic c \<and> c \<noteq> CHR ''='' \<and> lower_char c = c" if "c \<in> set (hex_pad w v)" for c
    using hex_pad_chars [OF v that] hex_char_val by auto
  with x show ?thesis by (auto simp: hex0x_def token_def list_all_iff lower_def map_idI)
qed

lemma parse_hex0x: "in_word bits v \<Longrightarrow> parse_word (hex0x w v) bits = Inr v"
proof -
  assume w: "in_word bits v"
  then have v: "0 \<le> v" by (simp add: in_word_def)
  obtain c t where ct: "hex_pad w v = c # t"
    by (cases "hex_pad w v") (simp_all add: hex_pad_def Let_def)
  have "c \<noteq> CHR ''_''" using hex_pad_chars [OF v, of c w] hex_char_val by (auto simp: ct)
  then have "py_int_auto (hex0x w v) = Some v"
    using py_hex_pad [OF v, of w] by (simp add: py_int_auto_def prefixed_def hex0x_def py_int16_def ct)
  moreover have "check_word v ''value'' bits = Inr ()" using w check_word_Inr by auto
  ultimately show ?thesis
    using hex0x_token [OF v, of w] by (simp add: parse_word_def lift_word_def)
qed

lemma nat_str_step: "\<not> n < 10 \<Longrightarrow> nat_str n = nat_str (n div 10) @ [digit_char (n mod 10)]"
  by (subst nat_str.simps) simp

lemma nat_str_chars: "c \<in> set (nat_str n) \<Longrightarrow> \<exists>d < 10. c = digit_char d"
proof (induction n rule: nat_str.induct)
  case (1 n)
  show ?case
  proof (cases "n < 10")
    case True
    with 1 show ?thesis by (auto simp: nat_str.simps [of n])
  next
    case False
    then have "c \<in> set (nat_str (n div 10)) \<or> c = digit_char (n mod 10)"
      using 1(2) nat_str_step [OF False] by auto
    moreover have "n mod 10 < 10" by simp
    ultimately show ?thesis using 1(1) False by blast
  qed
qed

lemma py_nat_str: "py_digits 10 0 (nat_str n) = Some (int n)"
proof (induction n rule: nat_str.induct)
  case (1 n)
  show ?case
  proof (cases "n < 10")
    case True
    then show ?thesis using digit_char_val [of n] by (simp add: nat_str.simps [of n])
  next
    case False
    then have "py_digits 10 0 (nat_str (n div 10) @ [digit_char (n mod 10)]) = Some (int n)"
      using 1 digit_char_val [of "n mod 10"] nat_str_chars [of _ "n div 10"] digit_char_val
      by (subst py_digits_append) (auto simp: zdiv_int zmod_int)
    with nat_str_step [OF False] show ?thesis by simp
  qed
qed

lemma int_str_token: "0 \<le> n \<Longrightarrow> token (int_str n) \<and> CHR ''='' \<notin> set (int_str n) \<and> lower (int_str n) = int_str n"
proof -
  assume n: "0 \<le> n"
  have "graphic c \<and> c \<noteq> CHR ''='' \<and> lower_char c = c" if "c \<in> set (nat_str (nat n))" for c
    using nat_str_chars [OF that] digit_char_val by auto
  with n show ?thesis by (auto simp: int_str_def token_def list_all_iff lower_def map_idI)
qed

lemma parse_int_str: "in_word bits n \<Longrightarrow> parse_word (int_str n) bits = Inr n"
proof -
  assume w: "in_word bits n"
  then have n: "0 \<le> n" by (simp add: in_word_def)
  obtain c t where ct: "nat_str (nat n) = c # t" by (cases "nat_str (nat n)") simp_all
  have c: "c \<notin> {CHR ''+'', CHR ''-''}" "digit_val 10 c \<noteq> None"
    using nat_str_chars [of c "nat n"] digit_char_val by (auto simp: ct)
  have "CHR ''x'' \<notin> set (nat_str (nat n))" using nat_str_chars digit_char_val by fastforce
  then have "\<not> prefixed ''0x'' (c # t)"
    unfolding ct by (cases t) (auto simp: prefixed_def)
  then have "py_int_auto (int_str n) = Some n"
    using c py_nat_str [of "nat n"] n by (simp add: py_int_auto_def int_str_def ct py_int10_def py_nat_def)
  moreover have "check_word n ''value'' bits = Inr ()" using w check_word_Inr by auto
  ultimately show ?thesis
    using int_str_token [OF n] by (simp add: parse_word_def lift_word_def)
qed

section \<open>Registers and optional fields\<close>

lemma py_int10_nat_str: "py_int10 (nat_str n) = Some (int n)"
proof -
  obtain c t where ct: "nat_str n = c # t" by (cases "nat_str n") simp_all
  have "c \<notin> {CHR ''+'', CHR ''-''}" "digit_val 10 c \<noteq> None"
    using nat_str_chars [of c n] digit_char_val by (auto simp: ct)
  then show ?thesis using py_nat_str [of n] by (simp add: ct py_int10_def py_nat_def)
qed

lemma nat_str_token: "token (nat_str n) \<and> CHR ''='' \<notin> set (nat_str n) \<and> lower (nat_str n) = nat_str n
    \<and> list_all is_digit_py (nat_str n)"
proof -
  have "graphic c \<and> c \<noteq> CHR ''='' \<and> lower_char c = c \<and> is_digit_py c" if "c \<in> set (nat_str n)" for c
    using nat_str_chars [OF that] digit_char_val by (auto simp: is_digit_py_def code_digit_char)
  then show ?thesis by (auto simp: token_def list_all_iff lower_def map_idI)
qed

text \<open>No ABI name is a class letter followed by digits.\<close>

lemma not_abi: "c \<in> {CHR ''x'', CHR ''f''} \<Longrightarrow> map_of ABI_NAMES (c # nat_str n) = None"
proof -
  assume c: "c \<in> {CHR ''x'', CHR ''f''}"
  have "\<not> is_digit_py CHR ''p''" by (simp add: is_digit_py_def code_def)
  then have p: "nat_str n \<noteq> ''p''" using nat_str_token [of n] by auto
  have "list_all (\<lambda>k. hd k \<noteq> CHR ''x'' \<and> (hd k = CHR ''f'' \<longrightarrow> k = ''fp'')) (map fst ABI_NAMES)"
    by code_simp
  then have "k \<in> set (map fst ABI_NAMES) \<Longrightarrow> hd k \<noteq> CHR ''x'' \<and> (hd k = CHR ''f'' \<longrightarrow> k = ''fp'')" for k
    unfolding list_all_iff by blast
  from this [of "c # nat_str n"] have "c # nat_str n \<notin> set (map fst ABI_NAMES)" using c p by auto
  then show ?thesis by (simp add: map_of_eq_None_iff)
qed

lemma reg_roundtrip:
  assumes "in_word 5 r"
  shows "token (format_reg (Some r) fp) \<and> CHR ''='' \<notin> set (format_reg (Some r) fp)
     \<and> parse_reg_field (format_reg (Some r) fp) = Inr (Some r, fp)"
proof -
  define c where "c = (if fp then CHR ''f'' else CHR ''x'')"
  have r: "0 \<le> r" "r < push_bit REG_BITS 1" using assms by (simp_all add: in_word_def REG_BITS_def)
  have t: "format_reg (Some r) fp = c # nat_str (nat r)"
    using r(1) by (simp add: format_reg_def c_def)
  have c: "graphic c" "lower_char c = c" "c \<noteq> CHR ''=''" "c \<in> {CHR ''x'', CHR ''f''}"
    by (simp_all add: c_def graphic_def code_def lower_char_def)
  note n = nat_str_token [of "nat r"]
  have tok: "token (c # nat_str (nat r))" using n c by (simp add: token_def)
  have "parse_class (c # nat_str (nat r)) [c] = Some (Inr r)"
    using n r by (simp add: parse_class_def Let_def prefixed_def py_int10_nat_str)
  moreover have "fp \<Longrightarrow> parse_class (c # nat_str (nat r)) ''x'' = None"
    by (simp add: parse_class_def Let_def prefixed_def c_def)
  ultimately have "parse_reg_field (c # nat_str (nat r)) = Inr (Some r, fp)"
    using tok n c not_abi [OF c(4), of "nat r"]
    by (cases fp) (simp_all add: parse_reg_field_def Let_def lower_def NO_WRITE_def c_def)
  with tok c n show ?thesis unfolding t by auto
qed

lemma dash: "token NO_WRITE" "CHR ''='' \<notin> set NO_WRITE" "parse_reg_field NO_WRITE = Inr (None, False)"
  by (simp_all add: NO_WRITE_def token_def graphic_def code_def strip_def is_space_def parse_reg_field_def
      lower_def lower_char_def)

lemma opt_text_token: "pred_option (in_word n) v \<Longrightarrow> token (opt_text w v) \<and> CHR ''='' \<notin> set (opt_text w v)"
  using hex0x_token [of _ w] dash by (cases v) (auto simp: opt_text_def in_word_def)

lemma parse_opt_text: "pred_option (in_word n) v \<Longrightarrow> parse_opt (opt_text w v) n = Inr v"
proof (cases v)
  case (Some x)
  moreover assume "pred_option (in_word n) v"
  ultimately show ?thesis
    using hex0x_token [of x w] parse_hex0x [of n x w]
    by (auto simp: opt_text_def parse_opt_def in_word_def hex0x_def NO_WRITE_def)
qed (simp add: opt_text_def parse_opt_def dash)

end
