(* ===== verification/Rv_Text_Props.thy ===== *)
theory Rv_Text_Props
  imports Rv_Text_Lemmas
begin

text \<open>
  The theorems of the trace text: what is written is read back, and what is read is a
  well-formed stream that survives being written again.
\<close>

section \<open>A written line\<close>

definition mem_tokens :: "commit \<Rightarrow> string list" where
  "mem_tokens c =
     (if \<not> has_mem_access c \<and> \<not> has_mem_masks c then []
      else [opt_text 16 (c_mem_addr c), opt_text 16 (c_mem_wdata c)]
        @ (if has_mem_masks c then [opt_text 2 (c_mem_rmask c), opt_text 2 (c_mem_wmask c)] else []))"

definition keyed_tokens :: "commit \<Rightarrow> string list" where
  "keyed_tokens c =
     (case c_fflags c of None \<Rightarrow> [] | Some v \<Rightarrow> [''fflags='' @ hex0x 2 v])
     @ (case c_frm c of None \<Rightarrow> [] | Some v \<Rightarrow> [''frm='' @ hex0x 2 v])"

definition core_tokens :: "commit \<Rightarrow> string list" where
  "core_tokens c = [int_str (c_cycle c), hex0x 16 (c_pc c), reg_name c, value_text c]"

text \<open>What \<open>format_line\<close> and \<open>parse_line\<close> keep: the trace format has no field for the
  instruction word, and no register class without a register.\<close>

definition writable :: "commit \<Rightarrow> bool" where
  "writable c \<longleftrightarrow> commit_ok c \<and> c_cycle c < 2 ^ 64 \<and> c_insn c = None \<and> (c_rd c = None \<longrightarrow> \<not> c_rd_is_fp c)"

lemma join_append: "xs \<noteq> [] \<Longrightarrow> ys \<noteq> [] \<Longrightarrow> join sep (xs @ ys) = join sep xs @ sep @ join sep ys"
proof (induction sep xs rule: join.induct)
  case (2 sep s)
  then show ?case by (cases ys) simp_all
qed simp_all

lemma join_concat:
  "xss \<noteq> [] \<Longrightarrow> \<forall>xs \<in> set xss. xs \<noteq> [] \<Longrightarrow> join sep (map (join sep) xss) = join sep (concat xss)"
  by (induction "xss" rule: induct_list012) (simp_all add: join_append)

lemma mem_text_tokens: "mem_text c = (if mem_tokens c = [] then None else Some (join '' '' (mem_tokens c)))"
  by (simp add: mem_text_def mem_tokens_def)

lemma keyed_text_tokens: "keyed_text c = (if keyed_tokens c = [] then None else Some (join '' '' (keyed_tokens c)))"
  by (simp add: keyed_text_def keyed_tokens_def Let_def)

lemma format_line_tokens: "format_line c = join '' '' (core_tokens c @ mem_tokens c @ keyed_tokens c)"
proof -
  let ?rest = "filter (\<lambda>ts. ts \<noteq> []) [mem_tokens c, keyed_tokens c]"
  have "format_line c = join '' '' (map (join '' '') (core_tokens c # ?rest))"
    by (simp add: format_line_def mem_text_tokens keyed_text_tokens core_tokens_def)
  also have "\<dots> = join '' '' (concat (core_tokens c # ?rest))"
    by (rule join_concat) (simp_all add: core_tokens_def)
  finally show ?thesis by (simp split: if_splits)
qed

lemma core_ok:
  assumes "writable c"
  shows "list_all (\<lambda>t. token t \<and> CHR ''='' \<notin> set t) (core_tokens c)"
    and "parse_reg_field (reg_name c) = Inr (c_rd c, c_rd_is_fp c)"
    and "parse_opt (value_text c) 64 = Inr (c_value c)"
proof -
  from assms have w: "0 \<le> c_cycle c" "0 \<le> c_pc c" "pred_option (in_word 5) (c_rd c)"
    "pred_option (in_word 64) (c_value c)" "c_rd c = None \<longrightarrow> \<not> c_rd_is_fp c"
    by (auto simp: writable_def commit_ok_def in_word_def)
  have v: "value_text c = opt_text 16 (c_value c)" by (simp add: value_text_def opt_text_def)
  have reg: "token (reg_name c) \<and> CHR ''='' \<notin> set (reg_name c)
      \<and> parse_reg_field (reg_name c) = Inr (c_rd c, c_rd_is_fp c)"
  proof (cases "c_rd c")
    case None
    then show ?thesis using dash w(5) by (simp add: reg_name_def format_reg_def)
  next
    case (Some r)
    with w(3) show ?thesis using reg_roundtrip [of r "c_rd_is_fp c"] by (simp add: reg_name_def)
  qed
  then show "parse_reg_field (reg_name c) = Inr (c_rd c, c_rd_is_fp c)" by simp
  show "parse_opt (value_text c) 64 = Inr (c_value c)" using parse_opt_text [OF w(4)] v by simp
  show "list_all (\<lambda>t. token t \<and> CHR ''='' \<notin> set t) (core_tokens c)"
    using reg int_str_token [OF w(1)] hex0x_token [OF w(2), of 16] opt_text_token [OF w(4), of 16]
    by (simp add: core_tokens_def v)
qed

lemma mem_ok:
  assumes "commit_ok c"
  shows "list_all (\<lambda>t. token t \<and> CHR ''='' \<notin> set t) (mem_tokens c)"
    and "mem_fields (mem_tokens c) = Inr (c_mem_addr c, c_mem_wdata c, c_mem_rmask c, c_mem_wmask c)"
    and "length (mem_tokens c) \<in> {0, 2, 4}"
proof -
  from assms have w: "pred_option (in_word 64) (c_mem_addr c)" "pred_option (in_word 64) (c_mem_wdata c)"
    "pred_option (in_word 8) (c_mem_rmask c)" "pred_option (in_word 8) (c_mem_wmask c)"
    and n: "c_mem_addr c = None \<Longrightarrow> c_mem_wdata c = None \<and> c_mem_rmask c = None \<and> c_mem_wmask c = None"
    by (auto simp: commit_ok_def)
  note t = w [THEN opt_text_token] and p = w [THEN parse_opt_text]
  show "list_all (\<lambda>t. token t \<and> CHR ''='' \<notin> set t) (mem_tokens c)"
    using t(1,2) [of 16] t(3,4) [of 2] by (simp add: mem_tokens_def)
  show "mem_fields (mem_tokens c) = Inr (c_mem_addr c, c_mem_wdata c, c_mem_rmask c, c_mem_wmask c)"
    using n p by (auto simp: mem_fields_def mem_tokens_def has_mem_access_def has_mem_masks_def XLEN_def)
  show "length (mem_tokens c) \<in> {0, 2, 4}" by (simp add: mem_tokens_def)
qed

lemma keyed_loop_token:
  assumes "map_of KEYED_BITS key = Some bits" and "token key" and "lower key = key" and "CHR ''='' \<notin> set key"
    and "in_word bits v" and "map_of found key = None"
  shows "keyed_loop found ((key @ CHR ''='' # hex0x 2 v) # ts) = keyed_loop ((key, v) # found) ts"
proof -
  have "takeWhile (\<lambda>c. c \<noteq> CHR ''='') (key @ CHR ''='' # hex0x 2 v) = key"
    "dropWhile (\<lambda>c. c \<noteq> CHR ''='') (key @ CHR ''='' # hex0x 2 v) = CHR ''='' # hex0x 2 v"
    using assms(4) by (auto simp: takeWhile_append dropWhile_append)
  with assms show ?thesis by (simp add: parse_hex0x)
qed

lemma keyed_ok:
  assumes "commit_ok c"
  shows "list_all (\<lambda>t. token t \<and> CHR ''='' \<in> set t) (keyed_tokens c)"
    and "keyed_fields (keyed_tokens c) = Inr (c_fflags c, c_frm c)"
proof -
  from assms have w: "pred_option (in_word 5) (c_fflags c)" "pred_option (in_word 3) (c_frm c)"
    by (auto simp: commit_ok_def)
  have k: "token ''fflags''" "lower ''fflags'' = ''fflags''" "token ''frm''" "lower ''frm'' = ''frm''"
    "graphic CHR ''=''"
    by (simp_all add: token_def graphic_def code_def lower_def lower_char_def)
  have fl: "keyed_loop [] (((''fflags'' @ ''='') @ hex0x 2 v) # ts) = keyed_loop [(''fflags'', v)] ts"
    if "in_word 5 v" for v ts
    using keyed_loop_token [of "''fflags''" 5 v "[]" ts] that k by (simp add: KEYED_BITS_def FFLAGS_BITS_def)
  have fr: "keyed_loop found (((''frm'' @ ''='') @ hex0x 2 v) # ts) = keyed_loop ((''frm'', v) # found) ts"
    if "in_word 3 v" "map_of found ''frm'' = None" for v found ts
    using keyed_loop_token [of "''frm''" 3 v found ts] that k by (simp add: KEYED_BITS_def FRM_BITS_def)
  show "keyed_fields (keyed_tokens c) = Inr (c_fflags c, c_frm c)"
    using w fl fr by (cases "c_fflags c"; cases "c_frm c") (simp_all add: keyed_fields_def keyed_tokens_def)
  show "list_all (\<lambda>t. token t \<and> CHR ''='' \<in> set t) (keyed_tokens c)"
    using w k hex0x_token [of _ 2]
    by (cases "c_fflags c"; cases "c_frm c") (auto simp: keyed_tokens_def token_def in_word_def)
qed

lemma format_line_tokens_ok: "writable c \<Longrightarrow> list_all token (core_tokens c @ mem_tokens c @ keyed_tokens c)"
  using core_ok(1) [of c] mem_ok(1) [of c] keyed_ok(1) [of c] by (auto simp: list_all_iff writable_def)

lemma parse_format_line:
  assumes "writable c" and "lc \<le> c_cycle c"
  shows "parse_line imp n lc (format_line c) = Inr (Some c)"
proof -
  let ?ts = "core_tokens c @ mem_tokens c @ keyed_tokens c"
  from assms(1) have ok: "commit_ok c" and cy: "in_word 64 (c_cycle c)" "1 \<le> c_cycle c"
    by (auto simp: writable_def commit_ok_def in_word_def)
  note tok = format_line_tokens_ok [OF assms(1)] and core = core_ok [OF assms(1)]
  have ne: "core_tokens c \<noteq> []" by (simp add: core_tokens_def)
  have line: "strip (takeWhile (\<lambda>c. c \<noteq> CHR ''#'') (format_line c)) = format_line c"
    unfolding format_line_tokens uncommented_join [OF tok] using ne tok by (intro strip_join) simp_all
  have nonempty: "format_line c \<noteq> []"
    unfolding format_line_tokens using join_edges [OF _ tok] ne by blast
  have split: "split_ws (format_line c) = ?ts"
    unfolding format_line_tokens by (rule split_join [OF tok])
  have keyed: "filter (\<lambda>t. CHR ''='' \<in> set t) ?ts = keyed_tokens c"
    using core(1) mem_ok(1) [OF ok] keyed_ok(1) [OF ok] by (simp add: filter_empty_conv list_all_iff)
  have fs: "filter (\<lambda>t. CHR ''='' \<notin> set t) ?ts = core_tokens c @ mem_tokens c"
    using core(1) mem_ok(1) [OF ok] keyed_ok(1) [OF ok] by (simp add: filter_empty_conv list_all_iff)
  have len: "length (core_tokens c @ mem_tokens c) \<in> {3, 4, 6, 8}"
    using mem_ok(3) [OF ok] by (auto simp: core_tokens_def)
  have cyc: "line_cycle imp n lc (core_tokens c @ mem_tokens c) = Inr (c_cycle c)"
    using cy assms(2) by (simp add: line_cycle_def core_tokens_def parse_int_str XLEN_def)
  have mem: "(if 6 \<le> length (core_tokens c @ mem_tokens c) then drop 4 (core_tokens c @ mem_tokens c) else [])
      = mem_tokens c"
    using mem_ok(3) [OF ok] by (auto simp: core_tokens_def)
  have pc: "parse_word (hex0x 16 (c_pc c)) XLEN = Inr (c_pc c)"
    using ok by (simp add: parse_hex0x XLEN_def commit_ok_def)
  have rv: "\<not> (c_rd c = None \<and> c_value c \<noteq> None)"
    using ok by (cases "c_value c") (simp_all add: commit_ok_def)
  have nth: "(core_tokens c @ mem_tokens c) ! 1 = hex0x 16 (c_pc c)"
    "(core_tokens c @ mem_tokens c) ! (1 + 1) = reg_name c" "(core_tokens c @ mem_tokens c) ! (1 + 2) = value_text c"
    "4 \<le> length (core_tokens c @ mem_tokens c)"
    by (simp_all add: core_tokens_def)
  have insn: "c_insn c = None" using assms(1) by (simp add: writable_def)
  have reg: "is_reg_token (reg_name c)" by (simp add: is_reg_token_def core(2))
  have val: "parse_opt (value_text c) XLEN = Inr (c_value c)" using core(3) by (simp add: XLEN_def)
  have mk: "lift_word (mk_commit
      \<lparr>c_cycle = c_cycle c, c_pc = c_pc c, c_rd = c_rd c, c_value = c_value c, c_insn = None,
       c_mem_addr = c_mem_addr c, c_mem_wdata = c_mem_wdata c, c_mem_rmask = c_mem_rmask c,
       c_mem_wmask = c_mem_wmask c, c_rd_is_fp = c_rd_is_fp c, c_fflags = c_fflags c, c_frm = c_frm c\<rparr>) = Inr c"
    using mk_commit_id [OF ok] insn by (cases c) (simp add: lift_word_def)
  have "parse_fields imp n lc (core_tokens c @ mem_tokens c) (keyed_tokens c) = Inr c"
    unfolding parse_fields_def Let_def cyc res_bind.simps if_P [OF nth(4)] nth(1-3) mem pc core(2) val
      mem_ok(2) [OF ok] keyed_ok(2) [OF ok] prod.case
    using rv reg mk by simp
  then show ?thesis
    unfolding parse_line_def Let_def line split keyed fs using nonempty len by simp
qed

section \<open>A written trace\<close>

lemma parse_body:
  assumes "list_all writable cs" and "sorted (map c_cycle cs)" and "cs \<noteq> [] \<Longrightarrow> lc \<le> c_cycle (hd cs)"
  shows "parse_lines imp k done lc (map format_line cs) = Inr (done @ cs)"
  using assms
proof (induction cs arbitrary: k "done" lc)
  case (Cons c cs)
  have "cs \<noteq> [] \<Longrightarrow> c_cycle c \<le> c_cycle (hd cs)" using Cons.prems(2) by (cases cs) simp_all
  with Cons show ?case by (simp add: parse_format_line)
qed simp

lemma parse_comments:
  "list_all (\<lambda>l. hd l = CHR ''#'' \<and> l \<noteq> []) ls \<Longrightarrow>
     parse_lines imp k done lc (ls @ rest) = parse_lines imp (k + length ls) done lc rest"
proof (induction ls arbitrary: k)
  case (Cons l ls)
  then have "takeWhile (\<lambda>c. c \<noteq> CHR ''#'') l = []" by (cases l) auto
  then have "parse_line imp (length done) lc l = Inr None" by (simp add: parse_line_def strip_def)
  with Cons show ?case by simp
qed simp

lemma line_no_break: "writable c \<Longrightarrow> list_all (\<lambda>c. \<not> is_line_break c) (format_line c)"
  unfolding list_all_iff format_line_tokens
  using join_chars [OF format_line_tokens_ok] space_simps(2) graphic_simps(2) by metis

definition plain :: "string \<Rightarrow> bool" where
  "plain s \<longleftrightarrow> list_all (\<lambda>c. \<not> is_line_break c) s"

lemma plain_splitlines: "l \<in> set (splitlines s) \<Longrightarrow> plain l"
  unfolding plain_def splitlines_def by (erule splitlines_no_break) simp

lemma header_parts:
  "l \<in> set (trace_header cs gen nt) \<Longrightarrow>
     l \<in> set (trace_header cs None None) \<or> (\<exists>g. gen = Some g \<and> l = ''# generator: '' @ g)
     \<or> (\<exists>t m. nt = Some t \<and> m \<in> set (splitlines t) \<and> l = ''# '' @ m)"
  unfolding trace_header_def by (cases gen; cases nt) auto

lemma header_literals: "list_all (\<lambda>l. plain l \<and> l \<noteq> [] \<and> hd l = CHR ''#'') (trace_header cs None None)"
  by (simp add: trace_header_def plain_def is_line_break_def code_def NO_WRITE_def TRACE_HEADER_V1_def
      TRACE_HEADER_V2_def)

lemma header_lines:
  assumes "pred_option plain gen" and "l \<in> set (trace_header cs gen nt)"
  shows "plain l \<and> l \<noteq> [] \<and> hd l = CHR ''#''"
  using header_parts [OF assms(2)]
proof (elim disjE exE conjE)
  assume "l \<in> set (trace_header cs None None)"
  with header_literals show ?thesis unfolding list_all_iff by blast
next
  fix g assume "gen = Some g" "l = ''# generator: '' @ g"
  with assms(1) show ?thesis by (simp add: plain_def is_line_break_def code_def)
next
  fix t m assume "m \<in> set (splitlines t)" "l = ''# '' @ m"
  then show ?thesis using plain_splitlines [of m t] by (simp add: plain_def is_line_break_def code_def)
qed

lemma splitlines_format:
  assumes "list_all writable cs" and "pred_option plain gen"
  shows "splitlines (format_trace cs gen nt) = trace_header cs gen nt @ map format_line cs"
  unfolding format_trace_def
proof (rule splitlines_join)
  show "trace_header cs gen nt @ map format_line cs \<noteq> []" by (simp add: trace_header_def)
  show "\<forall>l \<in> set (trace_header cs gen nt @ map format_line cs). list_all (\<lambda>c. \<not> is_line_break c) l"
    using header_lines [OF assms(2)] assms(1) line_no_break by (auto simp: plain_def list_all_iff)
qed


section \<open>A trace that was read\<close>

lemma parse_word_Inr: "parse_word t n = Inr v \<Longrightarrow> in_word n v"
  by (auto simp: parse_word_def lift_word_def res_simps commit_simps split: option.splits sum.splits)

lemma parse_reg_class: "parse_reg_field t = Inr (None, fp) \<Longrightarrow> \<not> fp"
  by (auto simp: parse_reg_field_def Let_def res_simps split: if_splits option.splits)

lemma mk_commit_fields:
  "mk_commit c = Inr c' \<Longrightarrow> c_cycle c' = c_cycle c \<and> c_insn c' = c_insn c \<and> c_rd_is_fp c' = c_rd_is_fp c
     \<and> (c_rd c' = c_rd c \<or> c_rd c' = None \<and> \<not> c_rd_is_fp c)"
  by (auto simp: mk_commit_def res_simps check_rd_Inr split: if_splits)

lemma parse_line_facts:
  assumes "parse_line imp n lc raw = Inr (Some c)"
  shows "commit_ok c" and "\<not> imp \<Longrightarrow> writable c \<and> lc \<le> c_cycle c"
proof -
  from assms obtain fs keyed where p: "parse_fields imp n lc fs keyed = Inr c"
    by (auto simp: parse_line_def Let_def res_simps split: if_splits)
  have lift: "lift_word r = Inr v \<Longrightarrow> r = Inr v" for r :: "commit_err + commit" and v
    by (auto simp: lift_word_def split: sum.splits)
  obtain cycle tok pc rd v fp a1 a2 a3 a4 fl fm where cyc: "line_cycle imp n lc fs = Inr cycle"
    and reg: "parse_reg_field tok = Inr (rd, fp)"
    and mk: "mk_commit \<lparr>c_cycle = cycle, c_pc = pc, c_rd = rd, c_value = v, c_insn = None, c_mem_addr = a1,
      c_mem_wdata = a2, c_mem_rmask = a3, c_mem_wmask = a4, c_rd_is_fp = fp, c_fflags = fl, c_frm = fm\<rparr> = Inr c"
    using p unfolding parse_fields_def Let_def
    by (auto simp: res_simps dest!: lift split: if_splits)
  show ok: "commit_ok c" using mk by (rule mk_commit_ok)
  note f = mk_commit_fields [OF mk]
  assume "\<not> imp"
  with cyc have "in_word 64 cycle \<and> lc \<le> cycle"
    by (auto simp: line_cycle_def res_simps XLEN_def dest: parse_word_Inr split: if_splits)
  with f parse_reg_class [of tok fp] reg ok show "writable c \<and> lc \<le> c_cycle c" by (auto simp: writable_def in_word_def)
qed

lemma parse_lines_facts:
  "parse_lines imp k done lc ls = Inr cs \<Longrightarrow> list_all commit_ok done \<Longrightarrow> list_all commit_ok cs
     \<and> (\<not> imp \<and> list_all writable done \<and> sorted (map c_cycle done) \<and> (\<forall>c \<in> set done. c_cycle c \<le> lc) \<longrightarrow>
        list_all writable cs \<and> sorted (map c_cycle cs))"
proof (induction imp k "done" lc ls rule: parse_lines.induct)
  case (2 imp k "done" lc raw ls)
  from 2(3) obtain oc where line: "parse_line imp (length done) lc raw = Inr oc"
    by (auto split: sum.splits)
  show ?case
  proof (cases oc)
    case None
    with line 2 show ?thesis by auto
  next
    case (Some c)
    note f = parse_line_facts [OF line [unfolded Some]]
    have le: "\<forall>d \<in> set done. c_cycle d \<le> c_cycle c" if "\<not> imp" "\<forall>d \<in> set done. c_cycle d \<le> lc"
      using f(2) [OF that(1)] that(2) by fastforce
    have "list_all commit_ok (done @ [c])" using 2(4) f(1) by simp
    with 2(2) [OF line Some] 2(3) line Some have ih: "list_all commit_ok cs
      \<and> (\<not> imp \<and> list_all writable (done @ [c]) \<and> sorted (map c_cycle (done @ [c]))
         \<and> (\<forall>d \<in> set (done @ [c]). c_cycle d \<le> c_cycle c) \<longrightarrow> list_all writable cs \<and> sorted (map c_cycle cs))"
      by simp
    then show ?thesis using f(2) le by (auto simp: sorted_append)
  qed
qed auto

section \<open>Properties\<close>

lemma parse_format:
  assumes "list_all writable cs" and "sorted (map c_cycle cs)" and "pred_option plain gen"
  shows "parse_trace imp (format_trace cs gen nt) = Inr cs"
proof -
  have "parse_lines imp k [] 0 (map format_line cs) = Inr cs" for k
    using parse_body [OF assms(1,2), of 0 imp k "[]"] assms(1)
    by (cases cs) (simp_all add: writable_def commit_ok_def)
  moreover have "list_all (\<lambda>l. hd l = CHR ''#'' \<and> l \<noteq> []) (trace_header cs gen nt)"
    using header_lines [OF assms(3)] by (auto simp: list_all_iff)
  ultimately show ?thesis
    unfolding parse_trace_def splitlines_format [OF assms(1,3)] by (simp add: parse_comments)
qed

lemma format_canonical:
  assumes "list_all writable cs" and "pred_option plain gen"
  shows "is_canonical_trace (format_trace cs gen nt)"
  unfolding is_canonical_trace_def splitlines_format [OF assms]
  by (simp add: trace_header_def prefixed_def strip_def TRACE_HEADER_V1_def TRACE_HEADER_V2_def is_space_def code_def)

text \<open>C31: a stream of writable commits in cycle order is read back from its canonical text
  exactly as it was, in both cycle modes, and the text is recognised as canonical. The note
  may be any text; the generator label is one line.\<close>

theorem trace_text_roundtrip:
  assumes "list_all writable cs" and "sorted (map c_cycle cs)" and "pred_option plain gen"
  shows "parse_trace imp (format_trace cs gen nt) = Inr cs \<and> is_canonical_trace (format_trace cs gen nt)"
  using parse_format [OF assms] format_canonical [OF assms(1,3)] by simp

text \<open>Whatever text is accepted, every commit read from it satisfies the checks of the
  constructor; when explicit cycles are demanded the cycles are in order, and writing the
  stream again and reading it gives the same stream.\<close>

theorem read_trace_normalises:
  assumes "parse_trace imp text = Inr cs"
  shows "list_all commit_ok cs \<and> (\<not> imp \<longrightarrow> sorted (map c_cycle cs)
    \<and> parse_trace False (format_trace cs None nt) = Inr cs)"
  using parse_lines_facts [OF assms [unfolded parse_trace_def]] parse_format [of cs None False nt] by simp

section \<open>Instances\<close>

text \<open>An \<open>fadd.d\<close> that raises NX, and a byte store.\<close>

definition demo_stream :: "commit list" where
  "demo_stream =
     [\<lparr>c_cycle = 1, c_pc = 0x80000000, c_rd = Some 0, c_value = Some 0x3ff0000000000000, c_insn = None,
       c_mem_addr = None, c_mem_wdata = None, c_mem_rmask = None, c_mem_wmask = None,
       c_rd_is_fp = True, c_fflags = Some 1, c_frm = None\<rparr>,
      \<lparr>c_cycle = 3, c_pc = 0x80000004, c_rd = None, c_value = None, c_insn = None,
       c_mem_addr = Some 0x80001003, c_mem_wdata = Some 0x34, c_mem_rmask = Some 0, c_mem_wmask = Some 8,
       c_rd_is_fp = False, c_fflags = None, c_frm = None\<rparr>]"

lemma demo_writable: "list_all writable demo_stream \<and> sorted (map c_cycle demo_stream)"
  by (simp add: demo_stream_def writable_def commit_ok_def in_word_def)

theorem trace_text_roundtrip_witness:
  "parse_trace False (format_trace demo_stream (Some ''spike'') None) = Inr demo_stream"
  using trace_text_roundtrip [of demo_stream "Some ''spike''" False None] demo_writable
  by (simp add: plain_def is_line_break_def code_def)

lemma demo_text: "is_ok (parse_trace False ''1 0x10 a5 0x_F
2 20 - -'')"
  by code_simp

theorem read_trace_normalises_witness:
  "\<exists>cs. parse_trace False ''1 0x10 a5 0x_F
2 20 - -'' = Inr cs \<and> sorted (map c_cycle cs) \<and> parse_trace False (format_trace cs None None) = Inr cs"
proof -
  obtain cs where cs: "parse_trace False ''1 0x10 a5 0x_F
2 20 - -'' = Inr cs"
    using demo_text by (auto simp: is_ok_iff)
  with read_trace_normalises [OF cs, of None] show ?thesis by blast
qed

end
