(* ===== verification/Rv_Diff_Props.thy ===== *)
theory Rv_Diff_Props
  imports Rv_Diff Rv_Text_Props
begin

text \<open>
  What the comparator decides: an independent definition of two commits agreeing, and the
  proof that the comparator reports exactly the first pair that does not.
\<close>

section \<open>When two commits agree\<close>

text \<open>The byte lanes an access of some size reaches from the offset of its address.\<close>

definition lanes :: "int \<Rightarrow> int \<Rightarrow> bool" where
  "lanes m addr \<longleftrightarrow> (\<exists>n > 0. m = push_bit (nat (addr AND 7)) (2 ^ n - 1))"

text \<open>The masks of a DUT commit fit the golden access: every reported direction is a run of
  lanes from the offset, the direction is the golden one, and reported golden masks are equal.\<close>

definition fits :: "int option \<Rightarrow> int \<Rightarrow> bool" where
  "fits v addr \<longleftrightarrow> (\<forall>m. v = Some m \<and> m \<noteq> 0 \<longrightarrow> lanes m addr)"

definition reported :: "int option \<Rightarrow> bool" where
  "reported v \<longleftrightarrow> (\<exists>m. v = Some m \<and> m \<noteq> 0)"

definition masks_fit :: "commit \<Rightarrow> commit \<Rightarrow> bool" where
  "masks_fit golden dut \<longleftrightarrow>
     (has_mem_masks dut \<longrightarrow>
        fits (c_mem_rmask dut) (the (c_mem_addr dut)) \<and> fits (c_mem_wmask dut) (the (c_mem_addr dut))
        \<and> reported (if c_mem_wdata golden = None then c_mem_rmask dut else c_mem_wmask dut)
        \<and> (has_mem_masks golden \<longrightarrow> c_mem_rmask golden = c_mem_rmask dut \<and> c_mem_wmask golden = c_mem_wmask dut))"

definition mem_agree :: "commit \<Rightarrow> commit \<Rightarrow> bool" where
  "mem_agree golden dut \<longleftrightarrow>
     c_mem_addr golden = c_mem_addr dut
     \<and> (c_mem_addr dut \<noteq> None \<longrightarrow> c_mem_wdata golden = c_mem_wdata dut \<and> masks_fit golden dut)"

definition agree :: "checks \<Rightarrow> commit \<Rightarrow> commit \<Rightarrow> bool" where
  "agree opts golden dut \<longleftrightarrow>
     (check_cycle opts \<longrightarrow> c_cycle golden = c_cycle dut) \<and> c_pc golden = c_pc dut
     \<and> c_rd golden = c_rd dut \<and> c_value golden = c_value dut
     \<and> (check_mem_stream opts \<longrightarrow> mem_agree golden dut)
     \<and> (check_fp opts \<longrightarrow> c_rd_is_fp golden = c_rd_is_fp dut \<and> c_fflags golden = c_fflags dut
        \<and> c_frm golden = c_frm dut)"

section \<open>Lane masks\<close>

lemma ones_and_succ: "0 \<le> (m :: int) \<Longrightarrow> m AND (m + 1) = 0 \<longleftrightarrow> (\<exists>n. m = 2 ^ n - 1)"
proof (induction "nat m" arbitrary: m rule: less_induct)
  case less
  consider (z) "m = 0" | (e) k where "m = 2 * k" "0 < k" | (o1) k where "m = 2 * k + 1" "0 \<le> k"
  proof (cases "even m")
    case True
    then obtain k where "m = 2 * k" by blast
    then show thesis using that less.prems by (cases "k = 0") auto
  next
    case False
    then obtain k where "m = 2 * k + 1" by (blast elim: oddE)
    then show thesis using that(3) less.prems by auto
  qed
  then show ?case
  proof cases
    case z
    then show ?thesis by (auto intro: exI [of _ 0])
  next
    case e
    have "m AND (m + 1) = 2 * k" unfolding e(1) by (subst and_int_rec) simp
    moreover have "2 * k \<noteq> 2 ^ n - 1" for n
      using e(2) by (cases n) (auto, presburger)
    ultimately show ?thesis using e by auto
  next
    case o1
    have eq: "m AND (m + 1) = 2 * (k AND (k + 1))" unfolding o1(1) by (subst and_int_rec) (simp add: add.commute)
    have "nat k < nat m" using o1 by simp
    from less.hyps [OF this o1(2)] have ih: "k AND (k + 1) = 0 \<longleftrightarrow> (\<exists>n. k = 2 ^ n - 1)" .
    have "(\<exists>n. k = 2 ^ n - 1) \<longleftrightarrow> (\<exists>n. m = 2 ^ n - 1)"
    proof
      assume "\<exists>n. k = 2 ^ n - 1"
      then obtain n where "k = 2 ^ n - 1" by blast
      then have "m = 2 ^ Suc n - 1" using o1(1) by simp
      then show "\<exists>n. m = 2 ^ n - 1" by blast
    next
      assume "\<exists>n. m = 2 ^ n - 1"
      then obtain n where n: "m = 2 ^ n - 1" by blast
      with o1 have "n \<noteq> 0" by (cases n) auto
      then obtain j where "n = Suc j" by (cases n) simp_all
      with n o1(1) show "\<exists>n. k = 2 ^ n - 1" by (auto intro: exI [of _ j])
    qed
    with eq ih show ?thesis by simp
  qed
qed

lemma consistent_lanes: "0 \<le> m \<Longrightarrow> lane_mask_is_consistent m a \<longleftrightarrow> lanes m a"
proof -
  assume m: "0 \<le> m"
  define k where "k = nat (a AND 7)"
  define s where "s = drop_bit k m"
  have low: "m AND (push_bit k 1 - 1) = take_bit k m"
    by (simp add: take_bit_eq_mask mask_eq_exp_minus_1)
  have s: "0 \<le> s" using m by (simp add: s_def)
  have split: "take_bit k m = 0 \<longleftrightarrow> m = push_bit k s"
    using bits_ident [of k m] by (auto simp: s_def)
  have undo: "drop_bit k (push_bit k (2 ^ n - 1 :: int)) = 2 ^ n - 1" for n
    by (simp add: push_bit_eq_mult drop_bit_eq_div)
  have pos: "(2 ^ n - 1 :: int) \<noteq> 0 \<longleftrightarrow> 0 < n" for n
  proof (cases n)
    case (Suc k)
    then have "(1 :: int) < 2 ^ n" by (intro one_less_power) simp_all
    with Suc show ?thesis by simp
  qed simp
  have ones: "s \<noteq> 0 \<and> s AND (s + 1) = 0 \<longleftrightarrow> (\<exists>n > 0. s = 2 ^ n - 1)"
    unfolding ones_and_succ [OF s] by (metis pos)
  have "lane_mask_is_consistent m a \<longleftrightarrow> m = push_bit k s \<and> (\<exists>n > 0. s = 2 ^ n - 1)"
    unfolding lane_mask_is_consistent_def Let_def k_def [symmetric] low s_def [symmetric]
    using split ones by auto
  also have "\<dots> \<longleftrightarrow> lanes m a"
    unfolding lanes_def k_def [symmetric] using undo by (auto simp: s_def)
  finally show ?thesis .
qed

section \<open>The checks of one pair\<close>

lemma bad_mask_iff: "pred_option (in_word 8) v \<Longrightarrow> bad_mask a v \<longleftrightarrow> \<not> fits v a"
  using consistent_lanes by (cases v) (auto simp: bad_mask_def truthy_def or_zero_def in_word_def fits_def)

lemma truthy_iff: "truthy v \<longleftrightarrow> reported v"
  by (cases v) (simp_all add: truthy_def reported_def)

lemma chain_None:
  "(if b then Some x else y) = None \<longleftrightarrow> \<not> b \<and> y = None"
  "(if b then None else y) = None \<longleftrightarrow> b \<or> y = None"
  "(case y of Some z \<Rightarrow> Some z | None \<Rightarrow> z') = None \<longleftrightarrow> y = None \<and> z' = None"
  by (simp_all split: option.split)

lemma mask_divergence_None:
  assumes "commit_ok dut" and "c_mem_addr dut = Some a"
  shows "mask_divergence i golden dut = None \<longleftrightarrow> masks_fit golden dut"
proof -
  have r: "pred_option (in_word 8) (c_mem_rmask dut)" and w: "pred_option (in_word 8) (c_mem_wmask dut)"
    using assms(1) by (simp_all add: commit_ok_def)
  have addr: "or_zero (c_mem_addr dut) = a" "the (c_mem_addr dut) = a" by (simp_all add: assms(2) or_zero_def)
  show ?thesis
    unfolding mask_divergence_def Let_def addr masks_fit_def truthy_iff bad_mask_iff [OF r] bad_mask_iff [OF w]
      chain_None
    by (cases "c_mem_wdata golden = None") auto
qed

lemma commit_divergence_None:
  assumes "commit_ok dut"
  shows "commit_divergence opts i golden dut = None \<longleftrightarrow> agree opts golden dut"
proof -
  have mem: "mem_divergence i golden dut = None \<longleftrightarrow> mem_agree golden dut"
    using mask_divergence_None [OF assms] by (auto simp: mem_divergence_def mem_agree_def)
  have fp: "fp_divergence i golden dut = None \<longleftrightarrow> c_fflags golden = c_fflags dut \<and> c_frm golden = c_frm dut"
    by (simp add: fp_divergence_def)
  show ?thesis
    unfolding commit_divergence_def agree_def chain_None using mem fp by auto
qed

section \<open>The whole comparison\<close>

text \<open>The commits that a budget leaves to compare, from an index on.\<close>

definition upto_budget :: "int option \<Rightarrow> nat \<Rightarrow> 'a list \<Rightarrow> 'a list" where
  "upto_budget m i xs = (case m of None \<Rightarrow> xs | Some k \<Rightarrow> take (nat (k - int i)) xs)"

lemma upto_budget_simps [simp]:
  "upto_budget m i [] = []"
  "upto_budget m i (x # xs) = (if within m i then x # upto_budget m (Suc i) xs else [])"
proof -
  have "nat (k - int i) = Suc (nat (k - int (Suc i)))" if "int i < k" for k using that by simp
  then show "upto_budget m i (x # xs) = (if within m i then x # upto_budget m (Suc i) xs else [])"
    by (auto simp: upto_budget_def within_def split: option.split)
qed (simp add: upto_budget_def split: option.split)

lemma divergence_from_None:
  "list_all commit_ok ds \<Longrightarrow> divergence_from opts m i gs ds = None
     \<longleftrightarrow> list_all2 (agree opts) (upto_budget m i gs) (upto_budget m i ds)"
  by (induction opts m i gs ds rule: divergence_from.induct)
    (auto simp: chain_None commit_divergence_None)

text \<open>What a kind says of the pair it is reported for.\<close>

fun differs :: "kind \<Rightarrow> commit \<Rightarrow> commit \<Rightarrow> bool" where
  "differs KIND_CYCLE g d \<longleftrightarrow> c_cycle g \<noteq> c_cycle d"
| "differs KIND_PC g d \<longleftrightarrow> c_pc g \<noteq> c_pc d"
| "differs KIND_RD g d \<longleftrightarrow> c_rd g \<noteq> c_rd d"
| "differs KIND_VALUE g d \<longleftrightarrow> c_value g \<noteq> c_value d"
| "differs KIND_FP_CLASS g d \<longleftrightarrow> c_rd_is_fp g \<noteq> c_rd_is_fp d"
| "differs KIND_FFLAGS g d \<longleftrightarrow> c_fflags g \<noteq> c_fflags d"
| "differs KIND_FRM g d \<longleftrightarrow> c_frm g \<noteq> c_frm d"
| "differs KIND_MEM_ADDR g d \<longleftrightarrow> c_mem_addr g \<noteq> c_mem_addr d"
| "differs KIND_MEM_WDATA g d \<longleftrightarrow> c_mem_addr g = c_mem_addr d \<and> c_mem_wdata g \<noteq> c_mem_wdata d"
| "differs KIND_MEM_MASK g d \<longleftrightarrow> c_mem_addr g = c_mem_addr d \<and> c_mem_wdata g = c_mem_wdata d \<and> \<not> masks_fit g d"
| "differs _ g d \<longleftrightarrow> False"

lemma diverge_simps [simp]:
  "d_index (diverge i k g d t) = i" "d_kind (diverge i k g d t) = k"
  "d_golden (diverge i k g d t) = Some g" "d_dut (diverge i k g d t) = Some d"
  by (simp_all add: diverge_def)

definition sound_for :: "nat \<Rightarrow> commit \<Rightarrow> commit \<Rightarrow> divergence \<Rightarrow> bool" where
  "sound_for i g d x \<longleftrightarrow> d_index x = i \<and> d_golden x = Some g \<and> d_dut x = Some d \<and> differs (d_kind x) g d"

lemma if_Some: "(if b then Some x else y) = Some z \<Longrightarrow> (b \<Longrightarrow> x = z \<Longrightarrow> P) \<Longrightarrow> (y = Some z \<Longrightarrow> P) \<Longrightarrow> P"
  by (simp split: if_split_asm)

lemma mask_divergence_Some:
  assumes "commit_ok d" and "c_mem_addr d \<noteq> None" and "c_mem_addr g = c_mem_addr d" and "c_mem_wdata g = c_mem_wdata d"
    and "mask_divergence i g d = Some x"
  shows "sound_for i g d x"
proof -
  have "\<not> masks_fit g d" using assms(1,2,5) mask_divergence_None [of d _ i g] by fastforce
  moreover from assms(5) have "\<exists>t. x = diverge i KIND_MEM_MASK g d t"
    unfolding mask_divergence_def Let_def by (auto split: if_split_asm)
  ultimately show ?thesis using assms(3,4) by (auto simp: sound_for_def)
qed

lemma commit_divergence_Some:
  assumes "commit_ok d" and "commit_divergence opts i g d = Some x"
  shows "sound_for i g d x"
proof -
  have mem: "sound_for i g d x" if m: "mem_divergence i g d = Some x"
  proof (cases "c_mem_addr g = c_mem_addr d \<and> c_mem_addr d \<noteq> None \<and> c_mem_wdata g = c_mem_wdata d")
    case True
    with m have "mask_divergence i g d = Some x" by (auto simp: mem_divergence_def)
    with True show ?thesis using mask_divergence_Some [OF assms(1), of g i x] by simp
  next
    case False
    with m show ?thesis by (auto simp: mem_divergence_def sound_for_def split: if_split_asm)
  qed
  have fp: "fp_divergence i g d = Some x \<Longrightarrow> sound_for i g d x"
    unfolding fp_divergence_def by (auto elim!: if_Some simp: sound_for_def)
  from assms(2) show ?thesis
    unfolding commit_divergence_def
    by (elim if_Some) (auto simp: sound_for_def [symmetric] dest: mem fp split: option.splits if_split_asm,
        auto simp: sound_for_def)
qed

lemma divergence_from_Some:
  assumes "divergence_from opts m i gs ds = Some x" and "list_all commit_ok ds"
  shows "\<exists>j. d_index x = i + j \<and> list_all2 (agree opts) (take j gs) (take j ds)
    \<and> (if j < length gs \<and> j < length ds then sound_for (i + j) (gs ! j) (ds ! j) x \<and> \<not> agree opts (gs ! j) (ds ! j)
        else if j < length ds then j = length gs \<and> d_kind x = KIND_EXTRA
        else j < length gs \<and> j = length ds \<and> d_kind x = KIND_TRUNCATED)"
  using assms
proof (induction opts m i gs ds rule: divergence_from.induct)
  case (4 opts m i g gs d ds)
  from 4(2,3) have w: "within m i" and ok: "commit_ok d" "list_all commit_ok ds" by (auto split: if_splits)
  show ?case
  proof (cases "commit_divergence opts i g d")
    case (Some y)
    with 4(2) w have "commit_divergence opts i g d = Some x" by simp
    moreover from this have "\<not> agree opts g d" using commit_divergence_None [OF ok(1), of opts i g] by simp
    ultimately show ?thesis using commit_divergence_Some [OF ok(1)]
      by (intro exI [of _ 0]) (simp add: sound_for_def)
  next
    case None
    with 4(2) w have "divergence_from opts m (Suc i) gs ds = Some x" by simp
    from 4(1) [OF w None this ok(2)] obtain j where j: "d_index x = Suc i + j"
      "list_all2 (agree opts) (take j gs) (take j ds)"
      "if j < length gs \<and> j < length ds then sound_for (Suc i + j) (gs ! j) (ds ! j) x \<and> \<not> agree opts (gs ! j) (ds ! j)
        else if j < length ds then j = length gs \<and> d_kind x = KIND_EXTRA
        else j < length gs \<and> j = length ds \<and> d_kind x = KIND_TRUNCATED" by blast
    moreover have "agree opts g d" using None commit_divergence_None [OF ok(1), of opts i g] by simp
    ultimately have "d_index x = i + Suc j \<and> list_all2 (agree opts) (take (Suc j) (g # gs)) (take (Suc j) (d # ds))"
      by simp
    with j(3) show ?thesis by (intro exI [of _ "Suc j"]) (simp only: length_Cons Suc_less_eq nth_Cons_Suc add_Suc_shift nat.inject simp_thms)
  qed
qed (auto simp: extra_commits_def truncated_def intro!: exI [of _ 0] split: if_splits)

section \<open>Properties\<close>

text \<open>C11: the comparator reports no divergence exactly when the two streams, cut at the commit
  budget, have the same length and agree pairwise: pc, register and value always, the cycle,
  the memory record with its lane masks and the floating-point state when they are checked.\<close>

theorem match_iff_agree:
  assumes "list_all commit_ok dut"
  shows "first_divergence opts m golden dut = None
    \<longleftrightarrow> list_all2 (agree opts) (upto_budget m 0 golden) (upto_budget m 0 dut)"
  by (simp add: first_divergence_def divergence_from_None [OF assms])

text \<open>A reported divergence is the first one and is described truthfully: all commits before
  its index agree, and at the index either one stream has ended, or the two reported commits
  are those of the streams, do not agree, and differ in the field the kind names.\<close>

theorem first_divergence_is_first:
  assumes "first_divergence opts m golden dut = Some x" and "list_all commit_ok dut"
  shows "list_all2 (agree opts) (take (d_index x) golden) (take (d_index x) dut)
    \<and> (if d_index x < length golden \<and> d_index x < length dut
        then sound_for (d_index x) (golden ! d_index x) (dut ! d_index x) x
          \<and> \<not> agree opts (golden ! d_index x) (dut ! d_index x)
        else if d_index x < length dut then d_index x = length golden \<and> d_kind x = KIND_EXTRA
        else d_index x < length golden \<and> d_index x = length dut \<and> d_kind x = KIND_TRUNCATED)"
  using divergence_from_Some [OF assms(1) [unfolded first_divergence_def] assms(2)] by auto

section \<open>Instances\<close>

lemma demo_stream_ok: "list_all commit_ok demo_stream"
  using demo_writable by (auto simp: list_all_iff writable_def)

theorem match_iff_agree_witness:
  "first_divergence \<lparr>check_cycle = True, check_mem_stream = True, check_fp = True\<rparr> (Some 1) demo_stream demo_stream = None"
  using match_iff_agree [OF demo_stream_ok, of "\<lparr>check_cycle = True, check_mem_stream = True, check_fp = True\<rparr>" "Some 1" demo_stream]
  by (simp add: demo_stream_def agree_def mem_agree_def within_def)

theorem first_divergence_is_first_witness:
  "\<exists>x. first_divergence \<lparr>check_cycle = True, check_mem_stream = False, check_fp = True\<rparr> None
      (take 1 demo_stream) demo_stream = Some x \<and> d_index x = 1 \<and> d_kind x = KIND_EXTRA"
proof -
  let ?o = "\<lparr>check_cycle = True, check_mem_stream = False, check_fp = True\<rparr>"
  obtain x where x: "first_divergence ?o None (take 1 demo_stream) demo_stream = Some x"
    by (simp add: demo_stream_def first_divergence_def commit_divergence_def within_def fp_divergence_def)
  from x have "d_index x = 1"
    by (auto simp: demo_stream_def first_divergence_def commit_divergence_def within_def fp_divergence_def extra_commits_def)
  moreover have "length demo_stream = 2" by (simp add: demo_stream_def)
  ultimately show ?thesis
    using first_divergence_is_first [OF x demo_stream_ok] x by simp
qed

end
