(* ===== verification/Rv_Spike_Props.thy ===== *)
theory Rv_Spike_Props
  imports Rv_Spike Rv_Text_Props
begin

text \<open>
  The golden stream: stopping inside the log reader is stopping in the comparator, and the
  stream has the shape the comparison relies on.
\<close>

section \<open>One line\<close>

lemma mk_commit_mem:
  "mk_commit c = Inr c' \<Longrightarrow> c_mem_addr c' = c_mem_addr c \<and> c_mem_wdata c' = c_mem_wdata c
     \<and> c_mem_rmask c' = c_mem_rmask c \<and> c_mem_wmask c' = c_mem_wmask c \<and> c_pc c' = c_pc c"
  by (auto simp: mk_commit_def res_simps check_rd_Inr split: if_splits)

lemma one_access_stop:
  assumes "one_access l mems = Inr (a, d)"
  shows "list_ex (\<lambda>(addr, data). data \<noteq> None \<and> stop_matches s (Some addr) data) mems \<longleftrightarrow> stop_matches s a d"
proof -
  consider "mems = []" | x dx where "mems = [(x, dx)]" | x dx y dy where "mems = [(x, dx), (y, dy)]"
    | x y z zs where "mems = x # y # z # zs"
    by (metis list.exhaust surj_pair)
  then show ?thesis
  proof cases
    case 4
    with assms show ?thesis by (simp add: one_access_def split: prod.splits)
  qed (use assms in \<open>auto simp: one_access_def stop_matches_def split: if_splits\<close>)
qed

lemma spike_commit_facts:
  assumes "spike_commit l i pc insn rest = Inr c"
  shows "commit_ok c" and "c_cycle c = int i + 1" and "c_pc c = pc" and "c_insn c = Some insn"
    and "\<not> has_mem_masks c" and "writes_stop rest s \<longleftrightarrow> stop_matches s (c_mem_addr c) (c_mem_wdata c)"
proof -
  obtain a d rd v fp fl fm where acc: "one_access l (scan mem_re False rest) = Inr (a, d)"
    and mk: "mk_commit \<lparr>c_cycle = int i + 1, c_pc = pc, c_rd = rd, c_value = v, c_insn = Some insn, c_mem_addr = a,
      c_mem_wdata = d, c_mem_rmask = None, c_mem_wmask = None, c_rd_is_fp = fp, c_fflags = fl, c_frm = fm\<rparr> = Inr c"
  proof -
    have lift: "lift_golden r = Inr w \<Longrightarrow> r = Inr w" for r :: "commit_err + commit" and w
      by (auto simp: lift_golden_def split: sum.splits)
    show thesis using assms that
      unfolding spike_commit_def Let_def
      by (auto simp: res_simps dest!: lift split: if_split_asm)
  qed
  note f = mk_commit_fields [OF mk] and m = mk_commit_mem [OF mk]
  show "commit_ok c" by (rule mk_commit_ok [OF mk])
  show "c_cycle c = int i + 1" "c_pc c = pc" "c_insn c = Some insn" "\<not> has_mem_masks c"
    using f m by (simp_all add: has_mem_masks_def)
  show "writes_stop rest s \<longleftrightarrow> stop_matches s (c_mem_addr c) (c_mem_wdata c)"
    using one_access_stop [OF acc, of s] m by (simp add: writes_stop_def)
qed

section \<open>The whole log\<close>

fun cut_pairs :: "stop_store \<Rightarrow> (nat \<times> commit) list \<Rightarrow> (nat \<times> commit) list" where
  "cut_pairs s [] = []"
| "cut_pairs s ((l, c) # ps) =
     (l, c) # (if stop_matches s (c_mem_addr c) (c_mem_wdata c) then [] else cut_pairs s ps)"

lemma spike_lines_stop:
  "spike_lines None e l i ls = Inr ps \<Longrightarrow> spike_lines (Some s) e l i ls = Inr (cut_pairs s ps)"
proof (induction ls arbitrary: e l i ps)
  case (Cons raw ls)
  show ?case
  proof (cases "commit_re raw")
    case None
    with Cons show ?thesis by simp
  next
    case (Some q)
    obtain pc insn rest where q: "commit_re raw = Some (pc, insn, rest)" using Some by (cases q) simp
    show ?thesis
    proof (cases "e \<noteq> None \<and> e \<noteq> Some (num 16 pc)")
      case True
      with Cons q show ?thesis by simp
    next
      case False
      then obtain c rs where c: "spike_commit l i (num 16 pc) (num 16 insn) rest = Inr c"
        and rs: "spike_lines None None (Suc l) (Suc i) ls = Inr rs" and ps: "ps = (l, c) # rs"
        using Cons.prems q by (auto split: sum.splits if_splits)
      have "spike_lines (Some s) e l i (raw # ls) =
          (if stop_matches s (c_mem_addr c) (c_mem_wdata c) then Inr [(l, c)] else Inr ((l, c) # cut_pairs s rs))"
        using False q c Cons.IH [OF rs] spike_commit_facts(6) [OF c, of s] by auto
      then show ?thesis by (simp add: ps)
    qed
  qed
qed simp

lemma cut_pairs_cut:
  "case cut_at_stop s (map snd ps) of
     Some kept \<Rightarrow> map snd (cut_pairs s ps) = kept \<and> kept \<noteq> []
       \<and> stop_matches s (c_mem_addr (last kept)) (c_mem_wdata (last kept))
   | None \<Rightarrow> cut_pairs s ps = ps \<and> (\<forall>c \<in> snd ` set ps. \<not> stop_matches s (c_mem_addr c) (c_mem_wdata c))"
proof (induction s ps rule: cut_pairs.induct)
  case (2 s l c ps)
  then show ?case by (cases "cut_at_stop s (map snd ps)") auto
qed simp

lemma spike_lines_shape:
  "spike_lines stop e l i ls = Inr ps \<Longrightarrow>
     list_all (\<lambda>c. commit_ok c \<and> \<not> has_mem_masks c \<and> c_insn c \<noteq> None) (map snd ps)
     \<and> map c_cycle (map snd ps) = map (\<lambda>k. int k + 1) [i..<i + length ps]
     \<and> (\<forall>p. e = Some p \<and> ps \<noteq> [] \<longrightarrow> c_pc (snd (hd ps)) = p)"
proof (induction ls arbitrary: e l i ps)
  case (Cons raw ls)
  show ?case
  proof (cases "commit_re raw")
    case None
    with Cons show ?thesis by simp
  next
    case (Some q)
    obtain pc insn rest where q: "commit_re raw = Some (pc, insn, rest)" using Some by (cases q) simp
    show ?thesis
    proof (cases "e \<noteq> None \<and> e \<noteq> Some (num 16 pc)")
      case True
      with Cons q show ?thesis by simp
    next
      case False
      then obtain c rs where c: "spike_commit l i (num 16 pc) (num 16 insn) rest = Inr c" and ps: "ps = (l, c) # rs"
        and rs: "rs = [] \<or> spike_lines stop None (Suc l) (Suc i) ls = Inr rs"
        using Cons.prems q by (auto split: sum.splits if_splits option.splits)
      note f = spike_commit_facts [OF c]
      have "list_all (\<lambda>c. commit_ok c \<and> \<not> has_mem_masks c \<and> c_insn c \<noteq> None) (map snd rs)
          \<and> map c_cycle (map snd rs) = map (\<lambda>k. int k + 1) [Suc i..<Suc i + length rs]"
        using rs Cons.IH by fastforce
      moreover have "[i..<i + length ps] = i # [Suc i..<Suc i + length rs]"
        unfolding ps by (subst upt_rec) (simp del: upt_Suc)
      ultimately show ?thesis using f(1-5) False by (auto simp: ps)
    qed
  qed
qed simp

section \<open>Properties\<close>

text \<open>C32: stopping inside the log reader and cutting the finished stream are the same event: when
  the whole log is readable, reading it up to the stopping store gives exactly what
  \<open>truncate_at_stop\<close> makes of the whole stream, including the error when the store is never
  retired. The golden and the DUT stream therefore end at the same architectural event.\<close>

theorem stop_in_log_is_truncation:
  assumes "normalize_spike_log text None entry = Inr cs"
  shows "normalize_spike_log text (Some s) entry = truncate_at_stop cs (Some s)"
proof -
  from assms obtain ps where ps: "iter_spike_commits text None entry = Inr ps" and cs: "cs = map snd ps"
    by (auto simp: normalize_spike_log_def res_simps)
  have it: "iter_spike_commits text (Some s) entry = Inr (cut_pairs s ps)"
    using spike_lines_stop [OF ps [unfolded iter_spike_commits_def]] by (simp add: iter_spike_commits_def)
  show ?thesis
  proof (cases "cut_at_stop s cs")
    case None
    with cut_pairs_cut [of s ps] have "cut_pairs s ps = ps"
      and no: "\<forall>c \<in> set cs. \<not> stop_matches s (c_mem_addr c) (c_mem_wdata c)" by (simp_all add: cs)
    moreover from no have "cs \<noteq> [] \<Longrightarrow> \<not> stop_matches s (c_mem_addr (last cs)) (c_mem_wdata (last cs))" by simp
    ultimately show ?thesis
      using None it by (auto simp: normalize_spike_log_def truncate_at_stop_def Let_def cs)
  next
    case (Some kept)
    with cut_pairs_cut [of s ps] it show ?thesis
      by (auto simp: normalize_spike_log_def truncate_at_stop_def cs Let_def)
  qed
qed

text \<open>C33: every golden stream read from a log consists of commits the constructor accepts, with
  the retirement ordinals 1, 2, ... as cycles and no lane masks; it starts at the entry point
  that was given and, with a stopping store, ends at it.\<close>

theorem golden_stream_shape:
  assumes "normalize_spike_log text stop entry = Inr cs"
  shows "list_all (\<lambda>c. commit_ok c \<and> \<not> has_mem_masks c) cs
    \<and> map c_cycle cs = map (\<lambda>k. int k + 1) [0..<length cs]
    \<and> (\<forall>p. entry = Some p \<and> cs \<noteq> [] \<longrightarrow> c_pc (hd cs) = p)
    \<and> (\<forall>s. stop = Some s \<longrightarrow> cs \<noteq> [] \<and> stop_matches s (c_mem_addr (last cs)) (c_mem_wdata (last cs)))"
proof -
  from assms obtain ps where ps: "spike_lines stop entry 0 0 (splitlines text) = Inr ps" and cs: "cs = map snd ps"
    and stop: "\<forall>s. stop = Some s \<longrightarrow> cs \<noteq> [] \<and> stop_matches s (c_mem_addr (last cs)) (c_mem_wdata (last cs))"
    by (auto simp: normalize_spike_log_def iter_spike_commits_def res_simps Let_def split: option.splits if_splits)
  from spike_lines_shape [OF ps] stop show ?thesis
    by (auto simp: cs list_all_iff hd_map)
qed

section \<open>Instances\<close>

text \<open>A boot ROM instruction, a load and the store to the mailbox.\<close>

definition demo_log :: string where
  "demo_log = ''core 0: 3 0x10 (0x297) x5 0x10
core 0: 3 0x80 (0x13) x1 0x0 mem 0x90
core 0: 3 0x84 (0x23) mem 0x98 0x1''"

lemma demo_log_reads:
  "(case normalize_spike_log demo_log None (Some 0x80) of Inr cs \<Rightarrow> length cs = 2 | _ \<Rightarrow> False)"
  by code_simp

theorem stop_in_log_is_truncation_witness:
  "\<exists>cs. normalize_spike_log demo_log None (Some 0x80) = Inr cs
     \<and> normalize_spike_log demo_log (Some \<lparr>s_addr = 0x98, s_value = None\<rparr>) (Some 0x80)
       = truncate_at_stop cs (Some \<lparr>s_addr = 0x98, s_value = None\<rparr>)"
proof -
  obtain cs where "normalize_spike_log demo_log None (Some 0x80) = Inr cs"
    using demo_log_reads by (auto split: sum.splits)
  with stop_in_log_is_truncation [OF this] show ?thesis by blast
qed

theorem golden_stream_shape_witness:
  "\<exists>cs. normalize_spike_log demo_log None (Some 0x80) = Inr cs \<and> map c_cycle cs = [1, 2]
     \<and> c_pc (hd cs) = 0x80"
proof -
  obtain cs where cs: "normalize_spike_log demo_log None (Some 0x80) = Inr cs" "length cs = 2"
    using demo_log_reads by (auto split: sum.splits)
  then have "cs \<noteq> []" by auto
  with golden_stream_shape [OF cs(1)] cs show ?thesis by (auto simp: numeral_2_eq_2)
qed

text \<open>The register name of the module's own example of a commit line has a space, which the
  scanner does not accept: the write is dropped.\<close>

lemma documented_line_loses_write:
  "(case spike_lines None None 0 0
      [''core   0: 3 0x0000000080000000 (0x00000297) x 5  0x80001000''] of
     Inr [(_, c)] \<Rightarrow> c_rd c = None | _ \<Rightarrow> False)"
  by code_simp

end
