(* ===== verification/Rv_Memory.thy ===== *)
theory Rv_Memory
  imports Prelude
begin

text \<open>
  \<open>SparseMemory\<close> of ethereal-shell/verif/eth_rv/rv_model.py: byte memory in 4 KiB pages that
  are allocated at the first write. A page table is a map from page numbers to byte lists.
  The client of the pages (little-endian accesses of several bytes) is proved once, over the
  laws of a byte store.
\<close>

section \<open>Definitions\<close>

definition MASK64 :: int where "MASK64 = push_bit 64 1 - 1"
definition MASK32 :: int where "MASK32 = push_bit 32 1 - 1"
definition PAGE_BITS :: nat where "PAGE_BITS = 12"
definition PAGE_SIZE :: int where "PAGE_SIZE = push_bit PAGE_BITS 1"
definition PAGE_MASK :: int where "PAGE_MASK = PAGE_SIZE - 1"

type_synonym pages = "int \<Rightarrow> int list option"

definition page_index :: "int \<Rightarrow> int" where
  "page_index addr = drop_bit PAGE_BITS (addr AND MASK64)"

definition page_offset :: "int \<Rightarrow> nat" where
  "page_offset addr = nat (addr AND PAGE_MASK)"

definition page_for_read :: "pages \<Rightarrow> int \<Rightarrow> int list option" where
  "page_for_read m addr = m (page_index addr)"

definition page_for_write :: "pages \<Rightarrow> int \<Rightarrow> int list" where
  "page_for_write m addr =
     (case m (page_index addr) of None \<Rightarrow> replicate (nat PAGE_SIZE) 0 | Some p \<Rightarrow> p)"

definition get_byte :: "pages \<Rightarrow> int \<Rightarrow> int" where
  "get_byte m addr = (case page_for_read m addr of None \<Rightarrow> 0 | Some p \<Rightarrow> p ! page_offset addr)"

definition put_byte :: "pages \<Rightarrow> int \<Rightarrow> int \<Rightarrow> pages" where
  "put_byte m addr b =
     m(page_index addr \<mapsto> (page_for_write m addr)[page_offset addr := b])"

text \<open>Little-endian accesses, over any byte store.\<close>

definition read_le :: "('m \<Rightarrow> int \<Rightarrow> int) \<Rightarrow> 'm \<Rightarrow> int \<Rightarrow> nat \<Rightarrow> int" where
  "read_le get m addr n =
     foldl (\<lambda>value i. value OR push_bit (8 * i) (get m (addr + int i))) 0 [0..<n]"

definition write_le :: "('m \<Rightarrow> int \<Rightarrow> int \<Rightarrow> 'm) \<Rightarrow> 'm \<Rightarrow> int \<Rightarrow> nat \<Rightarrow> int \<Rightarrow> 'm" where
  "write_le put m addr n value =
     foldl (\<lambda>m i. put m (addr + int i) (drop_bit (8 * i) value AND 0xFF)) m [0..<n]"

definition mem_empty :: pages where
  "mem_empty = (\<lambda>_. None)"

definition mem_read :: "pages \<Rightarrow> int \<Rightarrow> nat \<Rightarrow> int" where
  "mem_read m addr n = read_le get_byte m addr n"

definition mem_write :: "pages \<Rightarrow> int \<Rightarrow> nat \<Rightarrow> int \<Rightarrow> pages" where
  "mem_write m addr n value = write_le put_byte m addr n value"

definition mem_load :: "pages \<Rightarrow> int \<Rightarrow> int list \<Rightarrow> pages" where
  "mem_load m addr data = foldl (\<lambda>m (i, b). put_byte m (addr + int i) b) m (enumerate 0 data)"

text \<open>Every page has its full length and holds bytes.\<close>

definition byte_ok :: "int \<Rightarrow> bool" where
  "byte_ok b \<longleftrightarrow> 0 \<le> b \<and> b < 256"

definition mem_ok :: "pages \<Rightarrow> bool" where
  "mem_ok m \<longleftrightarrow> (\<forall>p \<in> ran m. length p = nat PAGE_SIZE \<and> list_all byte_ok p)"

section \<open>Masks\<close>

lemma and_MASK64 [simp]: "v AND MASK64 = take_bit 64 v"
  by (simp add: MASK64_def take_bit_eq_mask mask_eq_exp_minus_1)

lemma and_MASK32 [simp]: "v AND MASK32 = take_bit 32 v"
  by (simp add: MASK32_def take_bit_eq_mask mask_eq_exp_minus_1)

lemma and_PAGE_MASK: "v AND PAGE_MASK = take_bit 12 v"
  by (simp add: PAGE_MASK_def PAGE_SIZE_def PAGE_BITS_def take_bit_eq_mask mask_eq_exp_minus_1)

lemma page_offset_less: "page_offset a < nat PAGE_SIZE"
  using take_bit_int_less_exp [of 12 a] take_bit_nonnegative [of 12 a]
  unfolding page_offset_def and_PAGE_MASK PAGE_SIZE_def PAGE_BITS_def by (simp add: nat_less_iff)

lemma page_address: "page_index a = page_index c \<and> page_offset a = page_offset c \<longleftrightarrow> take_bit 64 a = take_bit 64 c"
proof
  assume eq: "page_index a = page_index c \<and> page_offset a = page_offset c"
  then have "drop_bit 12 (take_bit 64 a) = drop_bit 12 (take_bit 64 c)"
    by (simp add: page_index_def PAGE_BITS_def)
  moreover from eq have "take_bit 12 (take_bit 64 a) = take_bit 12 (take_bit 64 c)"
    by (simp add: page_offset_def and_PAGE_MASK eq_nat_nat_iff)
  ultimately show "take_bit 64 a = take_bit 64 c"
    using bits_ident [of 12 "take_bit 64 a"] bits_ident [of 12 "take_bit 64 c"] by simp
next
  assume eq: "take_bit 64 a = take_bit 64 c"
  then have "take_bit 12 (take_bit 64 a) = take_bit 12 (take_bit 64 c)" by simp
  then have "take_bit 12 a = take_bit 12 c" by simp
  with eq show "page_index a = page_index c \<and> page_offset a = page_offset c"
    by (simp add: page_index_def page_offset_def and_PAGE_MASK)
qed

section \<open>The contract of a byte store\<close>

locale byte_store =
  fixes get :: "'m \<Rightarrow> int \<Rightarrow> int"
    and put :: "'m \<Rightarrow> int \<Rightarrow> int \<Rightarrow> 'm"
    and ok :: "'m \<Rightarrow> bool"
  assumes get_put: "ok m \<Longrightarrow> get (put m a b) c = (if take_bit 64 c = take_bit 64 a then b else get m c)"
    and ok_put: "ok m \<Longrightarrow> byte_ok b \<Longrightarrow> ok (put m a b)"
    and get_ok: "ok m \<Longrightarrow> byte_ok (get m a)"
begin

lemma byte_of_ok: "byte_ok (v AND 0xFF)"
  by (simp add: byte_ok_def and_255 order.strict_trans2 [OF take_bit_int_less_exp])

lemma write_Suc: "write_le put m a (Suc n) v = put (write_le put m a n v) (a + int n) (drop_bit (8 * n) v AND 0xFF)"
  by (simp add: write_le_def)

lemma write_0: "write_le put m a 0 v = m"
  by (simp add: write_le_def)

lemma ok_write: "ok m \<Longrightarrow> ok (write_le put m a n v)"
  by (induction n) (simp_all add: write_0 write_Suc ok_put byte_of_ok)

text \<open>A written byte is found again at every address equal to its own modulo 2^64; the other
  bytes keep their value. Accesses of at most 2^64 bytes do not overlap themselves.\<close>

lemma same_byte: "i < j \<Longrightarrow> int j - int i < 2 ^ 64 \<Longrightarrow> take_bit 64 (a + int i) \<noteq> take_bit 64 (a + int j)"
proof
  assume "i < j" "int j - int i < 2 ^ 64" "take_bit 64 (a + int i) = take_bit 64 (a + int j)"
  then have "(2 ^ 64 :: int) dvd (a + int j) - (a + int i)"
    by (metis mod_eq_dvd_iff take_bit_eq_mod)
  then have "2 ^ 64 dvd int j - int i" by simp
  with \<open>i < j\<close> \<open>int j - int i < 2 ^ 64\<close> show False using zdvd_not_zless by fastforce
qed

lemma get_write_in:
  assumes "ok m" and "i < n" and "int n \<le> 2 ^ 64"
  shows "get (write_le put m a n v) (a + int i) = drop_bit (8 * i) v AND 0xFF"
  using assms(2,3)
proof (induction n)
  case (Suc n)
  show ?case
  proof (cases "i = n")
    case True
    then show ?thesis by (simp add: write_Suc get_put ok_write assms(1))
  next
    case False
    with Suc.prems have "i < n" by simp
    moreover have "take_bit 64 (a + int i) \<noteq> take_bit 64 (a + int n)"
      using same_byte [OF \<open>i < n\<close>] Suc.prems by simp
    ultimately show ?thesis using Suc by (simp add: write_Suc get_put ok_write assms(1))
  qed
qed simp

lemma get_write_out:
  assumes "ok m" and "\<And>i. i < n \<Longrightarrow> take_bit 64 c \<noteq> take_bit 64 (a + int i)"
  shows "get (write_le put m a n v) c = get m c"
  using assms(2) by (induction n) (simp_all add: write_0 write_Suc get_put ok_write assms(1))

lemma read_Suc: "read_le get m a (Suc n) = read_le get m a n OR push_bit (8 * n) (get m (a + int n))"
  by (simp add: read_le_def)

lemma read_bytes:
  assumes "ok m" and "\<And>i. i < n \<Longrightarrow> get m (a + int i) = drop_bit (8 * i) v AND 0xFF"
  shows "read_le get m a n = take_bit (8 * n) v"
  using assms(2)
proof (induction n)
  case (Suc n)
  then have "read_le get m a (Suc n) = take_bit (8 * n) v OR push_bit (8 * n) (take_bit 8 (drop_bit (8 * n) v))"
    by (simp add: read_Suc and_255)
  also have "\<dots> = take_bit (8 * Suc n) v"
    by (rule bit_eqI) (auto simp: bit_simps)
  finally show ?case .
qed (simp add: read_le_def)

lemma read_write:
  assumes "ok m" and "int n \<le> 2 ^ 64"
  shows "read_le get (write_le put m a n v) a n = take_bit (8 * n) v"
  using assms ok_write get_write_in by (intro read_bytes) simp_all

lemma read_range: "ok m \<Longrightarrow> 0 \<le> read_le get m a n \<and> read_le get m a n < 2 ^ (8 * n)"
proof (induction n)
  case (Suc n)
  let ?b = "get m (a + int n)"
  have b: "0 \<le> ?b" "?b < 2 ^ 8" using get_ok [OF Suc.prems, of "a + int n"] by (simp_all add: byte_ok_def)
  then have "take_bit 8 ?b = ?b" by (simp add: take_bit_int_eq_self)
  then have hi: "take_bit (8 * Suc n) (push_bit (8 * n) ?b) = push_bit (8 * n) ?b"
    by (simp add: take_bit_push_bit)
  have "(2 :: int) ^ (8 * n) \<le> 2 ^ (8 * Suc n)" by (rule power_increasing) simp_all
  from order.strict_trans2 [OF _ this] have "read_le get m a n < 2 ^ (8 * Suc n)"
    using Suc by blast
  with Suc have "take_bit (8 * Suc n) (read_le get m a n) = read_le get m a n"
    by (intro take_bit_int_eq_self) auto
  with hi have "take_bit (8 * Suc n) (read_le get m a (Suc n)) = read_le get m a (Suc n)"
    unfolding read_Suc take_bit_or by simp
  then show ?case
    using take_bit_int_less_exp [of "8 * Suc n" "read_le get m a (Suc n)"]
      take_bit_nonnegative [of "8 * Suc n" "read_le get m a (Suc n)"] by simp
qed (simp add: read_le_def)

lemma read_cong: "(\<And>i. i < n \<Longrightarrow> get m (a + int i) = get m' (a + int i)) \<Longrightarrow> read_le get m a n = read_le get m' a n"
  by (induction n) (simp_all add: read_Suc, simp add: read_le_def)

end

section \<open>The pages are a byte store\<close>

lemma page_for_write_ok: "mem_ok m \<Longrightarrow> length (page_for_write m a) = nat PAGE_SIZE \<and> list_all byte_ok (page_for_write m a)"
  by (auto simp: page_for_write_def mem_ok_def ran_def list_all_iff byte_ok_def split: option.splits)

lemma get_put_byte:
  assumes "mem_ok m"
  shows "get_byte (put_byte m a b) c = (if take_bit 64 c = take_bit 64 a then b else get_byte m c)"
proof (cases "page_index c = page_index a")
  case True
  have pg: "page_for_write m c = page_for_write m a" by (simp add: page_for_write_def True)
  have len: "page_offset a < length (page_for_write m a)"
    using page_offset_less page_for_write_ok [OF assms] by simp
  have old: "get_byte m c = page_for_write m a ! page_offset c"
    using page_offset_less [of c] by (simp add: get_byte_def page_for_read_def page_for_write_def True split: option.splits)
  have "get_byte (put_byte m a b) c = (page_for_write m a)[page_offset a := b] ! page_offset c"
    by (simp add: get_byte_def page_for_read_def put_byte_def True)
  also have "\<dots> = (if page_offset c = page_offset a then b else get_byte m c)"
    using len old by (auto simp: nth_list_update)
  finally show ?thesis using True page_address [of c a] by auto
next
  case False
  then have "take_bit 64 c \<noteq> take_bit 64 a" using page_address [of c a] by auto
  with False show ?thesis by (simp add: get_byte_def page_for_read_def put_byte_def)
qed

lemma mem_ok_put: "mem_ok m \<Longrightarrow> byte_ok b \<Longrightarrow> mem_ok (put_byte m a b)"
proof -
  assume m: "mem_ok m" and b: "byte_ok b"
  note p = page_for_write_ok [OF m, of a]
  have "list_all byte_ok ((page_for_write m a)[page_offset a := b])"
    using p b set_update_subset_insert [of "page_for_write m a"] by (auto simp: list_all_iff)
  with p m show ?thesis
    by (auto simp: mem_ok_def put_byte_def ran_def)
qed

lemma get_byte_ok: "mem_ok m \<Longrightarrow> byte_ok (get_byte m a)"
  using page_offset_less [of a]
  by (auto simp: get_byte_def page_for_read_def mem_ok_def ran_def list_all_length byte_ok_def split: option.splits)

interpretation pg: byte_store get_byte put_byte mem_ok
  by unfold_locales (simp_all add: get_put_byte mem_ok_put get_byte_ok)

lemma mem_ok_empty [simp]: "mem_ok mem_empty"
  by (simp add: mem_ok_def mem_empty_def)

lemma mem_ok_write: "mem_ok m \<Longrightarrow> mem_ok (mem_write m a n v)"
  by (simp add: mem_write_def pg.ok_write)

lemma mem_read_range: "mem_ok m \<Longrightarrow> 0 \<le> mem_read m a n \<and> mem_read m a n < 2 ^ (8 * n)"
  by (simp add: mem_read_def pg.read_range)

lemma mem_ok_load: "mem_ok m \<Longrightarrow> list_all byte_ok data \<Longrightarrow> mem_ok (mem_load m a data)"
proof -
  have "mem_ok m \<Longrightarrow> list_all byte_ok data \<Longrightarrow> mem_ok (foldl (\<lambda>m (i, b). put_byte m (a + int i) b) m (enumerate k data))" for k
    by (induction data arbitrary: m k) (simp_all add: mem_ok_put)
  then show "mem_ok m \<Longrightarrow> list_all byte_ok data \<Longrightarrow> mem_ok (mem_load m a data)"
    by (simp add: mem_load_def)
qed

text \<open>Reading the word at the same address gives the value written; reading any other address
  range that shares no byte with it, modulo 2^64, gives what was there.\<close>

lemma mem_read_write_same: "mem_ok m \<Longrightarrow> int n \<le> 2 ^ 64 \<Longrightarrow> mem_read (mem_write m a n v) a n = take_bit (8 * n) v"
  by (simp add: mem_read_def mem_write_def pg.read_write)

lemma mem_read_write_other:
  assumes "mem_ok m" and "\<And>i j. i < n \<Longrightarrow> j < k \<Longrightarrow> take_bit 64 (c + int j) \<noteq> take_bit 64 (a + int i)"
  shows "mem_read (mem_write m a n v) c k = mem_read m c k"
  unfolding mem_read_def mem_write_def
  using assms by (intro pg.read_cong pg.get_write_out) simp_all

end
