(* ===== verification/Rv_Exec.thy ===== *)
theory Rv_Exec
  imports Rv_Memory Rv_Commit
begin

text \<open>
  \<open>Rv64ImcModel\<close> of ethereal-shell/verif/eth_rv/rv_model.py: an RV64IMC interpreter over
  Python integers. Every \<open>_exec\<close> method is a function of the machine and the instruction
  word that gives the register write, the next program counter and the machine after the
  memory access, or the exception raised.
\<close>

section \<open>State\<close>

record rv =
  rv_x :: "int list"
  rv_pc :: int
  rv_mem :: pages
  rv_cycle :: int
  rv_halt :: bool
  rv_acc :: "(int \<times> nat \<times> int option) option"
  rv_tohost :: int
  rv_max :: int

datatype rv_err =
  Unsupported string int
| UnsupportedStore int
| CommitErr commit_err
| RunAway int

type_synonym writeback = "int option \<times> int option \<times> int"

abbreviation xreg :: "rv \<Rightarrow> int \<Rightarrow> int" where
  "xreg s r \<equiv> rv_x s ! nat r"

section \<open>Bit fields\<close>

definition sext :: "int \<Rightarrow> nat \<Rightarrow> int" where
  "sext value bits =
     (let sign = push_bit (bits - 1) 1; v = value AND (push_bit bits 1 - 1) in
      if v AND sign \<noteq> 0 then v - push_bit bits 1 else v)"

definition signed32 :: "int \<Rightarrow> int" where
  "signed32 v = sext (v AND MASK32) 32"

definition ibit :: "int \<Rightarrow> nat \<Rightarrow> int" where
  "ibit insn i = drop_bit i insn AND 1"

definition f_opcode :: "int \<Rightarrow> int" where "f_opcode insn = insn AND 0x7F"
definition f_rd :: "int \<Rightarrow> int" where "f_rd insn = drop_bit 7 insn AND 0x1F"
definition f_funct3 :: "int \<Rightarrow> int" where "f_funct3 insn = drop_bit 12 insn AND 0x7"
definition f_rs1 :: "int \<Rightarrow> int" where "f_rs1 insn = drop_bit 15 insn AND 0x1F"
definition f_rs2 :: "int \<Rightarrow> int" where "f_rs2 insn = drop_bit 20 insn AND 0x1F"
definition f_funct7 :: "int \<Rightarrow> int" where "f_funct7 insn = drop_bit 25 insn AND 0x7F"

definition imm_i :: "int \<Rightarrow> int" where
  "imm_i insn = sext (drop_bit 20 insn) 12"

definition imm_s :: "int \<Rightarrow> int" where
  "imm_s insn = sext (push_bit 5 (drop_bit 25 insn) OR (drop_bit 7 insn AND 0x1F)) 12"

definition imm_b :: "int \<Rightarrow> int" where
  "imm_b insn =
     sext (push_bit 12 (ibit insn 31) OR push_bit 11 (ibit insn 7)
       OR push_bit 5 (drop_bit 25 insn AND 0x3F) OR push_bit 1 (drop_bit 8 insn AND 0xF)) 13"

definition imm_j :: "int \<Rightarrow> int" where
  "imm_j insn =
     sext (push_bit 20 (ibit insn 31) OR push_bit 12 (drop_bit 12 insn AND 0xFF)
       OR push_bit 11 (ibit insn 20) OR push_bit 1 (drop_bit 21 insn AND 0x3FF)) 21"

definition imm_u :: "int \<Rightarrow> int" where
  "imm_u insn = sext (insn AND 0xFFFFF000) 32"

section \<open>Memory accesses\<close>

definition rv_load :: "int \<Rightarrow> nat \<Rightarrow> bool \<Rightarrow> rv \<Rightarrow> int \<times> rv" where
  "rv_load addr n sx s =
     (let value = mem_read (rv_mem s) addr n in
      (if sx then sext value (n * 8) else value, s\<lparr>rv_acc := Some (addr, n, None)\<rparr>))"

definition rv_store :: "int \<Rightarrow> nat \<Rightarrow> int \<Rightarrow> rv \<Rightarrow> rv" where
  "rv_store addr n value s =
     (let v = value AND (push_bit (n * 8) 1 - 1);
          mem = mem_write (rv_mem s) addr n v;
          s = s\<lparr>rv_acc := Some (addr, n, Some v), rv_mem := mem\<rparr>
      in if addr \<le> rv_tohost s \<and> rv_tohost s < addr + int n \<and> mem_read mem (rv_tohost s) 8 \<noteq> 0
         then s\<lparr>rv_halt := True\<rparr> else s)"

section \<open>Arithmetic\<close>

definition py_div :: "int \<Rightarrow> int \<Rightarrow> int \<times> int" where
  "py_div dividend divisor =
     (if divisor = 0 then (-1, dividend)
      else let q = \<bar>dividend\<bar> div \<bar>divisor\<bar>;
               q = (if (dividend < 0) \<noteq> (divisor < 0) then - q else q)
           in (q, dividend - q * divisor))"

definition op_imm :: "rv \<Rightarrow> int \<Rightarrow> int \<Rightarrow> int \<Rightarrow> int \<Rightarrow> int \<Rightarrow> rv_err + int" where
  "op_imm s insn funct3 funct7 rs1 pc =
     (let lhs = xreg s rs1; imm = imm_i insn; shamt = nat (drop_bit 20 insn AND 0x3F) in
      if funct3 = 0 then Inr ((lhs + imm) AND MASK64)
      else if funct3 = 1 then
        (if drop_bit 1 funct7 \<noteq> 0 then Inl (Unsupported ''slli'' pc)
         else Inr (push_bit shamt lhs AND MASK64))
      else if funct3 = 2 then Inr (of_bool (sext lhs 64 < imm))
      else if funct3 = 3 then Inr (of_bool (lhs < imm AND MASK64))
      else if funct3 = 4 then Inr (lhs XOR (imm AND MASK64))
      else if funct3 = 5 then
        (if drop_bit 1 funct7 = 16 then Inr (drop_bit shamt (sext lhs 64) AND MASK64)
         else if drop_bit 1 funct7 = 0 then Inr (drop_bit shamt lhs)
         else Inl (Unsupported ''srli/srai'' pc))
      else if funct3 = 6 then Inr (lhs OR (imm AND MASK64))
      else if funct3 = 7 then Inr (lhs AND (imm AND MASK64))
      else Inl (Unsupported ''op-imm'' pc))"

definition op_imm_32 :: "rv \<Rightarrow> int \<Rightarrow> int \<Rightarrow> int \<Rightarrow> int \<Rightarrow> int \<Rightarrow> rv_err + int" where
  "op_imm_32 s insn funct3 funct7 rs1 pc =
     (let lhs = xreg s rs1; shamt = nat (drop_bit 20 insn AND 0x1F) in
      if funct3 = 0 then Inr (sext ((lhs + imm_i insn) AND MASK32) 32 AND MASK64)
      else if funct3 = 1 then
        (if funct7 \<noteq> 0 then Inl (Unsupported ''slliw'' pc)
         else Inr (sext (push_bit shamt lhs AND MASK32) 32 AND MASK64))
      else if funct3 = 5 \<and> funct7 = 32 then
        Inr (sext (drop_bit shamt (signed32 lhs) AND MASK32) 32 AND MASK64)
      else if funct3 = 5 \<and> funct7 = 0 then
        Inr (sext (drop_bit shamt (lhs AND MASK32)) 32 AND MASK64)
      else Inl (Unsupported ''op-imm-32'' pc))"

definition m_op :: "int \<Rightarrow> int \<Rightarrow> int \<Rightarrow> int \<Rightarrow> rv_err + int" where
  "m_op funct3 lhs rhs pc =
     (if funct3 = 0 then Inr (lhs * rhs AND MASK64)
      else if funct3 = 1 then Inr (drop_bit 64 (sext lhs 64 * sext rhs 64) AND MASK64)
      else if funct3 = 2 then Inr (drop_bit 64 (sext lhs 64 * rhs) AND MASK64)
      else if funct3 = 3 then Inr (drop_bit 64 (lhs * rhs) AND MASK64)
      else if funct3 = 4 \<or> funct3 = 6 then
        (let (quotient, remainder) = py_div (sext lhs 64) (sext rhs 64) in
         Inr ((if funct3 = 4 then quotient else remainder) AND MASK64))
      else if funct3 = 5 \<or> funct3 = 7 then
        (let (quotient, remainder) = py_div lhs rhs in
         Inr ((if funct3 = 5 then quotient else remainder) AND MASK64))
      else Inl (Unsupported ''m-extension'' pc))"

definition m_op_32 :: "int \<Rightarrow> int \<Rightarrow> int \<Rightarrow> int \<Rightarrow> rv_err + int" where
  "m_op_32 funct3 lhs rhs pc =
     (let lhs32 = signed32 lhs; rhs32 = signed32 rhs in
      if funct3 = 0 then Inr (sext (lhs * rhs AND MASK32) 32 AND MASK64)
      else if funct3 = 4 \<or> funct3 = 6 then
        (let (quotient, remainder) = py_div lhs32 rhs32 in
         Inr (sext ((if funct3 = 4 then quotient else remainder) AND MASK32) 32 AND MASK64))
      else if funct3 = 5 \<or> funct3 = 7 then
        (let (quotient, remainder) = py_div (lhs AND MASK32) (rhs AND MASK32) in
         Inr (sext ((if funct3 = 5 then quotient else remainder) AND MASK32) 32 AND MASK64))
      else Inl (Unsupported ''m-extension-32'' pc))"

definition op_rr :: "rv \<Rightarrow> int \<Rightarrow> int \<Rightarrow> int \<Rightarrow> int \<Rightarrow> int \<Rightarrow> rv_err + int" where
  "op_rr s funct3 funct7 rs1 rs2 pc =
     (let lhs = xreg s rs1; rhs = xreg s rs2; shamt = nat (rhs AND 0x3F) in
      if funct7 = 1 then m_op funct3 lhs rhs pc
      else if funct7 \<noteq> 0 \<and> funct7 \<noteq> 32 then Inl (Unsupported ''op'' pc)
      else if funct3 = 0 then
        Inr (if funct7 = 0 then (lhs + rhs) AND MASK64 else (lhs - rhs) AND MASK64)
      else if funct3 = 1 then
        (if funct7 \<noteq> 0 then Inl (Unsupported ''sll'' pc) else Inr (push_bit shamt lhs AND MASK64))
      else if funct3 = 2 then Inr (of_bool (sext lhs 64 < sext rhs 64))
      else if funct3 = 3 then Inr (of_bool (lhs < rhs))
      else if funct3 = 4 then Inr (lhs XOR rhs)
      else if funct3 = 5 then
        Inr (if funct7 \<noteq> 0 then drop_bit shamt (sext lhs 64) AND MASK64 else drop_bit shamt lhs)
      else if funct3 = 6 then Inr (lhs OR rhs)
      else if funct3 = 7 then Inr (lhs AND rhs)
      else Inl (Unsupported ''op'' pc))"

definition op_rr_32 :: "rv \<Rightarrow> int \<Rightarrow> int \<Rightarrow> int \<Rightarrow> int \<Rightarrow> int \<Rightarrow> rv_err + int" where
  "op_rr_32 s funct3 funct7 rs1 rs2 pc =
     (let lhs = xreg s rs1; rhs = xreg s rs2; shamt = nat (rhs AND 0x1F);
          done = (\<lambda>result. Inr (sext result 32 AND MASK64)) in
      if funct7 = 1 then m_op_32 funct3 lhs rhs pc
      else if funct7 \<noteq> 0 \<and> funct7 \<noteq> 32 then Inl (Unsupported ''op-32'' pc)
      else if funct3 = 0 then
        done (if funct7 = 0 then (lhs + rhs) AND MASK32 else (lhs - rhs) AND MASK32)
      else if funct3 = 1 then
        (if funct7 \<noteq> 0 then Inl (Unsupported ''sllw'' pc) else done (push_bit shamt lhs AND MASK32))
      else if funct3 = 5 then
        done (if funct7 \<noteq> 0 then drop_bit shamt (signed32 lhs) AND MASK32
              else drop_bit shamt (lhs AND MASK32))
      else Inl (Unsupported ''op-32'' pc))"

definition branch_taken :: "int \<Rightarrow> int \<Rightarrow> int \<Rightarrow> int \<Rightarrow> rv_err + bool" where
  "branch_taken funct3 lhs rhs pc =
     (let slt = sext lhs 64 < sext rhs 64; sltu = lhs < rhs in
      if funct3 = 0 then Inr (lhs = rhs)
      else if funct3 = 1 then Inr (lhs \<noteq> rhs)
      else if funct3 = 4 then Inr slt
      else if funct3 = 5 then Inr (\<not> slt)
      else if funct3 = 6 then Inr sltu
      else if funct3 = 7 then Inr (\<not> sltu)
      else Inl (Unsupported ''branch'' pc))"

section \<open>32-bit encodings\<close>

definition load_size :: "int \<Rightarrow> (nat \<times> bool) option" where
  "load_size funct3 =
     map_of [(0, (1, True)), (1, (2, True)), (2, (4, True)), (3, (8, False)),
             (4, (1, False)), (5, (2, False)), (6, (4, False))] funct3"

definition store_size :: "int \<Rightarrow> nat option" where
  "store_size funct3 = map_of [(0, 1), (1, 2), (2, 4), (3, 8)] funct3"

definition load_instr :: "rv \<Rightarrow> int \<Rightarrow> int \<Rightarrow> int \<Rightarrow> int \<Rightarrow> int \<Rightarrow> rv_err + writeback \<times> rv" where
  "load_instr s insn funct3 rd rs1 pc =
     (case load_size funct3 of
        None \<Rightarrow> Inl (Unsupported ''load'' pc)
      | Some (n, sx) \<Rightarrow>
          (case rv_load ((xreg s rs1 + imm_i insn) AND MASK64) n sx s of
             (value, s') \<Rightarrow> Inr ((Some rd, Some value, (pc + 4) AND MASK64), s')))"

definition exec_store :: "rv \<Rightarrow> int \<Rightarrow> int \<Rightarrow> int \<Rightarrow> int \<Rightarrow> rv_err + rv" where
  "exec_store s funct3 insn rs1 rs2 =
     (case store_size funct3 of
        None \<Rightarrow> Inl (UnsupportedStore funct3)
      | Some n \<Rightarrow> Inr (rv_store ((xreg s rs1 + imm_s insn) AND MASK64) n (xreg s rs2) s))"

definition wb_value :: "int \<Rightarrow> int \<Rightarrow> rv \<Rightarrow> rv_err + int \<Rightarrow> rv_err + writeback \<times> rv" where
  "wb_value rd next_pc s r = res_bind r (\<lambda>v. Inr ((Some rd, Some v, next_pc), s))"

definition exec_32 :: "rv \<Rightarrow> int \<Rightarrow> int \<Rightarrow> rv_err + writeback \<times> rv" where
  "exec_32 s insn pc =
     (let opcode = f_opcode insn; rd = f_rd insn; funct3 = f_funct3 insn; rs1 = f_rs1 insn;
          rs2 = f_rs2 insn; funct7 = f_funct7 insn; next_pc = (pc + 4) AND MASK64 in
      if opcode = 0x37 then Inr ((Some rd, Some (imm_u insn), next_pc), s)
      else if opcode = 0x17 then Inr ((Some rd, Some ((pc + imm_u insn) AND MASK64), next_pc), s)
      else if opcode = 0x6F then Inr ((Some rd, Some next_pc, (pc + imm_j insn) AND MASK64), s)
      else if opcode = 0x67 then
        (if funct3 \<noteq> 0 then Inl (Unsupported ''jalr'' pc)
         else Inr ((Some rd, Some next_pc, ((xreg s rs1 + imm_i insn) AND MASK64) AND NOT 1), s))
      else if opcode = 0x63 then
        res_bind (branch_taken funct3 (xreg s rs1) (xreg s rs2) pc) (\<lambda>taken.
          Inr ((None, None, if taken then (pc + imm_b insn) AND MASK64 else next_pc), s))
      else if opcode = 0x03 then load_instr s insn funct3 rd rs1 pc
      else if opcode = 0x23 then
        res_bind (exec_store s funct3 insn rs1 rs2) (\<lambda>s. Inr ((None, None, next_pc), s))
      else if opcode = 0x13 then wb_value rd next_pc s (op_imm s insn funct3 funct7 rs1 pc)
      else if opcode = 0x1B then wb_value rd next_pc s (op_imm_32 s insn funct3 funct7 rs1 pc)
      else if opcode = 0x33 then wb_value rd next_pc s (op_rr s funct3 funct7 rs1 rs2 pc)
      else if opcode = 0x3B then wb_value rd next_pc s (op_rr_32 s funct3 funct7 rs1 rs2 pc)
      else if opcode = 0x0F then Inr ((None, None, next_pc), s)
      else if opcode = 0x73 then Inl (Unsupported ''system'' pc)
      else Inl (Unsupported ''opcode'' pc))"

section \<open>16-bit encodings\<close>

definition c_lw_imm :: "int \<Rightarrow> int" where
  "c_lw_imm insn = push_bit 6 (ibit insn 5) OR push_bit 3 (drop_bit 10 insn AND 7) OR push_bit 2 (ibit insn 6)"

definition c_ld_imm :: "int \<Rightarrow> int" where
  "c_ld_imm insn = push_bit 3 (drop_bit 10 insn AND 7) OR push_bit 6 (drop_bit 5 insn AND 3)"

definition c_j_imm :: "int \<Rightarrow> int" where
  "c_j_imm insn =
     sext (push_bit 11 (ibit insn 12) OR push_bit 4 (ibit insn 11) OR push_bit 9 (ibit insn 10)
       OR push_bit 8 (ibit insn 9) OR push_bit 10 (ibit insn 8) OR push_bit 6 (ibit insn 7)
       OR push_bit 7 (ibit insn 6) OR push_bit 3 (ibit insn 5) OR push_bit 2 (ibit insn 4)
       OR push_bit 1 (ibit insn 3) OR push_bit 5 (ibit insn 2)) 12"

definition c_b_imm :: "int \<Rightarrow> int" where
  "c_b_imm insn =
     sext (push_bit 8 (ibit insn 12) OR push_bit 3 (drop_bit 10 insn AND 3)
       OR push_bit 6 (drop_bit 5 insn AND 3) OR push_bit 1 (drop_bit 3 insn AND 3)
       OR push_bit 5 (ibit insn 2)) 9"

definition c_addi4spn_imm :: "int \<Rightarrow> int" where
  "c_addi4spn_imm insn =
     (drop_bit 7 insn AND 0x30) OR (drop_bit 1 insn AND 0x3C0) OR (drop_bit 4 insn AND 0x04)
       OR (drop_bit 2 insn AND 0x08)"

definition c_addi16sp_imm :: "int \<Rightarrow> int" where
  "c_addi16sp_imm insn =
     push_bit 9 (ibit insn 12) OR push_bit 4 (ibit insn 6) OR push_bit 7 (drop_bit 3 insn AND 3)
       OR push_bit 6 (ibit insn 5) OR push_bit 5 (ibit insn 2)"

definition c_imm6 :: "int \<Rightarrow> int" where
  "c_imm6 insn = sext (push_bit 5 (ibit insn 12) OR (drop_bit 2 insn AND 0x1F)) 6"

definition c_shamt :: "int \<Rightarrow> nat" where
  "c_shamt insn = nat (push_bit 5 (ibit insn 12) OR (drop_bit 2 insn AND 0x1F))"

definition exec_c0 :: "rv \<Rightarrow> int \<Rightarrow> int \<Rightarrow> int \<Rightarrow> int \<Rightarrow> int \<Rightarrow> rv_err + writeback \<times> rv" where
  "exec_c0 s insn funct3 prime_rd prime_rs1 pc =
     (let next_pc = (pc + 2) AND MASK64;
          lw = (xreg s prime_rs1 + c_lw_imm insn) AND MASK64;
          ld = (xreg s prime_rs1 + c_ld_imm insn) AND MASK64 in
      if funct3 = 0 then
        (let imm = c_addi4spn_imm insn in
         if imm = 0 then Inl (Unsupported ''c.addi4spn'' pc)
         else Inr ((Some prime_rd, Some ((xreg s 2 + imm) AND MASK64), next_pc), s))
      else if funct3 = 2 then
        (case rv_load lw 4 True s of (v, s') \<Rightarrow> Inr ((Some prime_rd, Some v, next_pc), s'))
      else if funct3 = 3 then
        (case rv_load ld 8 False s of (v, s') \<Rightarrow> Inr ((Some prime_rd, Some v, next_pc), s'))
      else if funct3 = 6 then Inr ((None, None, next_pc), rv_store lw 4 (xreg s prime_rd) s)
      else if funct3 = 7 then Inr ((None, None, next_pc), rv_store ld 8 (xreg s prime_rd) s)
      else Inl (Unsupported ''compressed quadrant-0'' pc))"

definition exec_c1_alu :: "rv \<Rightarrow> int \<Rightarrow> int \<Rightarrow> int \<Rightarrow> int \<Rightarrow> rv_err + writeback \<times> rv" where
  "exec_c1_alu s insn prime_rd imm6 pc =
     (let next_pc = (pc + 2) AND MASK64; funct2 = drop_bit 10 insn AND 3;
          prime_rs2 = 8 + (drop_bit 2 insn AND 7); lhs = xreg s prime_rd; rhs = xreg s prime_rs2;
          word = ibit insn 12; sub = drop_bit 5 insn AND 3;
          wb = (\<lambda>v. Inr ((Some prime_rd, Some v, next_pc), s)) in
      if funct2 = 0 then wb (drop_bit (c_shamt insn) lhs)
      else if funct2 = 1 then wb (drop_bit (c_shamt insn) (sext lhs 64) AND MASK64)
      else if funct2 = 2 then wb (lhs AND (imm6 AND MASK64))
      else if word = 0 then
        (if sub = 0 then wb ((lhs - rhs) AND MASK64)
         else if sub = 1 then wb (lhs XOR rhs)
         else if sub = 2 then wb (lhs OR rhs)
         else wb (lhs AND rhs))
      else if sub = 0 then wb (sext ((lhs - rhs) AND MASK32) 32 AND MASK64)
      else if sub = 1 then wb (sext ((lhs + rhs) AND MASK32) 32 AND MASK64)
      else Inl (Unsupported ''compressed alu'' pc))"

definition exec_c1 :: "rv \<Rightarrow> int \<Rightarrow> int \<Rightarrow> int \<Rightarrow> int \<Rightarrow> int \<Rightarrow> rv_err + writeback \<times> rv" where
  "exec_c1 s insn funct3 rd next_pc pc =
     (let prime_rd = 8 + (drop_bit 7 insn AND 7); imm6 = c_imm6 insn in
      if funct3 = 0 then Inr ((Some rd, Some ((xreg s rd + imm6) AND MASK64), next_pc), s)
      else if funct3 = 1 then
        (if rd = 0 then Inl (Unsupported ''c.addiw'' pc)
         else Inr ((Some rd, Some (sext ((xreg s rd + imm6) AND MASK32) 32 AND MASK64), next_pc), s))
      else if funct3 = 2 then Inr ((Some rd, Some (imm6 AND MASK64), next_pc), s)
      else if funct3 = 3 then
        (if rd = 2 then
           Inr ((Some rd, Some ((xreg s 2 + sext (c_addi16sp_imm insn) 10) AND MASK64), next_pc), s)
         else Inr ((Some rd, Some (push_bit 12 imm6 AND MASK64), next_pc), s))
      else if funct3 = 4 then exec_c1_alu s insn prime_rd imm6 pc
      else if funct3 = 5 \<or> funct3 = 6 \<or> funct3 = 7 then
        (let offset = (if funct3 = 5 then c_j_imm insn else c_b_imm insn);
             taken = (if funct3 = 6 then xreg s prime_rd = 0
                      else if funct3 = 7 then xreg s prime_rd \<noteq> 0 else funct3 = 5)
         in Inr ((None, None, if taken then (pc + offset) AND MASK64 else next_pc), s))
      else Inl (Unsupported ''compressed quadrant-1'' pc))"

definition c_lwsp_imm :: "int \<Rightarrow> int" where
  "c_lwsp_imm insn = push_bit 5 (ibit insn 12) OR push_bit 2 (drop_bit 4 insn AND 7) OR push_bit 6 (drop_bit 2 insn AND 3)"

definition c_ldsp_imm :: "int \<Rightarrow> int" where
  "c_ldsp_imm insn = push_bit 5 (ibit insn 12) OR push_bit 3 (drop_bit 5 insn AND 3) OR push_bit 6 (drop_bit 2 insn AND 7)"

definition c_swsp_imm :: "int \<Rightarrow> int" where
  "c_swsp_imm insn = push_bit 2 (drop_bit 9 insn AND 0xF) OR push_bit 6 (drop_bit 7 insn AND 3)"

definition c_sdsp_imm :: "int \<Rightarrow> int" where
  "c_sdsp_imm insn = push_bit 3 (drop_bit 10 insn AND 7) OR push_bit 6 (drop_bit 7 insn AND 7)"

definition exec_c2 :: "rv \<Rightarrow> int \<Rightarrow> int \<Rightarrow> int \<Rightarrow> int \<Rightarrow> int \<Rightarrow> int \<Rightarrow> rv_err + writeback \<times> rv" where
  "exec_c2 s insn funct3 rd rs2 next_pc pc =
     (if funct3 = 0 then Inr ((Some rd, Some (push_bit (c_shamt insn) (xreg s rd) AND MASK64), next_pc), s)
      else if funct3 = 2 then
        (if rd = 0 then Inl (Unsupported ''c.lwsp'' pc)
         else case rv_load ((xreg s 2 + c_lwsp_imm insn) AND MASK64) 4 True s of
                (v, s') \<Rightarrow> Inr ((Some rd, Some v, next_pc), s'))
      else if funct3 = 3 then
        (if rd = 0 then Inl (Unsupported ''c.ldsp'' pc)
         else case rv_load ((xreg s 2 + c_ldsp_imm insn) AND MASK64) 8 False s of
                (v, s') \<Rightarrow> Inr ((Some rd, Some v, next_pc), s'))
      else if funct3 = 4 then
        (if ibit insn 12 \<noteq> 0 then
           (if rs2 = 0 \<and> rd = 0 then Inl (Unsupported ''c.ebreak'' pc)
            else if rs2 = 0 then Inr ((Some 1, Some next_pc, xreg s rd AND MASK64), s)
            else Inr ((Some rd, Some ((xreg s rd + xreg s rs2) AND MASK64), next_pc), s))
         else if rs2 = 0 then
           (if rd = 0 then Inl (Unsupported ''c.jr'' pc)
            else Inr ((None, None, xreg s rd AND MASK64), s))
         else Inr ((Some rd, Some (xreg s rs2), next_pc), s))
      else if funct3 = 6 then
        Inr ((None, None, next_pc), rv_store ((xreg s 2 + c_swsp_imm insn) AND MASK64) 4 (xreg s rs2) s)
      else if funct3 = 7 then
        Inr ((None, None, next_pc), rv_store ((xreg s 2 + c_sdsp_imm insn) AND MASK64) 8 (xreg s rs2) s)
      else Inl (Unsupported ''compressed quadrant-2'' pc))"

definition exec_compressed :: "rv \<Rightarrow> int \<Rightarrow> int \<Rightarrow> rv_err + writeback \<times> rv" where
  "exec_compressed s insn pc =
     (let quadrant = insn AND 3; funct3 = drop_bit 13 insn AND 7; next_pc = (pc + 2) AND MASK64;
          rd = drop_bit 7 insn AND 0x1F; rs2 = drop_bit 2 insn AND 0x1F;
          prime_rd = 8 + (drop_bit 2 insn AND 7); prime_rs1 = 8 + (drop_bit 7 insn AND 7) in
      if quadrant = 0 then exec_c0 s insn funct3 prime_rd prime_rs1 pc
      else if quadrant = 1 then exec_c1 s insn funct3 rd next_pc pc
      else if quadrant = 2 then exec_c2 s insn funct3 rd rs2 next_pc pc
      else Inl (Unsupported ''compressed quadrant 3'' pc))"

section \<open>Steps and runs\<close>

definition lane_mask :: "nat \<Rightarrow> int \<Rightarrow> int" where
  "lane_mask n addr = push_bit (nat (addr AND 7)) (push_bit n 1 - 1)"

definition with_mem_access :: "commit \<Rightarrow> (int \<times> nat \<times> int option) option \<Rightarrow> commit_err + commit" where
  "with_mem_access c acc =
     (case acc of
        None \<Rightarrow> Inr c
      | Some (addr, n, None) \<Rightarrow>
          mk_commit (c\<lparr>c_mem_addr := Some addr, c_mem_rmask := Some (lane_mask n addr), c_mem_wmask := Some 0\<rparr>)
      | Some (addr, n, Some d) \<Rightarrow>
          mk_commit (c\<lparr>c_mem_addr := Some addr, c_mem_wdata := Some d, c_mem_rmask := Some 0,
                       c_mem_wmask := Some (lane_mask n addr)\<rparr>))"

definition lift_commit :: "commit_err + 'a \<Rightarrow> rv_err + 'a" where
  "lift_commit r = (case r of Inl e \<Rightarrow> Inl (CommitErr e) | Inr v \<Rightarrow> Inr v)"

definition plain_commit :: "int \<Rightarrow> int \<Rightarrow> int option \<Rightarrow> int option \<Rightarrow> int \<Rightarrow> commit" where
  "plain_commit cycle pc rd value insn =
     \<lparr>c_cycle = cycle, c_pc = pc, c_rd = rd, c_value = value, c_insn = Some insn,
      c_mem_addr = None, c_mem_wdata = None, c_mem_rmask = None, c_mem_wmask = None,
      c_rd_is_fp = False, c_fflags = None, c_frm = None\<rparr>"

text \<open>Fetch: the instruction word, and whether it is compressed.\<close>

definition fetch :: "rv \<Rightarrow> int \<times> bool" where
  "fetch s =
     (let half = mem_read (rv_mem s) (rv_pc s) 2 in
      if half AND 3 \<noteq> 3 then (half, True) else (mem_read (rv_mem s) (rv_pc s) 4, False))"

definition exec_fetched :: "rv \<Rightarrow> rv_err + writeback \<times> rv" where
  "exec_fetched s =
     (let (insn, compressed) = fetch s; s = s\<lparr>rv_acc := None\<rparr> in
      if compressed then exec_compressed s insn (rv_pc s) else exec_32 s insn (rv_pc s))"

text \<open>The register write: values are truncated, a write to x0 is dropped.\<close>

definition write_back :: "writeback \<Rightarrow> rv \<Rightarrow> int option \<times> int option \<times> rv" where
  "write_back wb s =
     (case wb of
        (None, value, next_pc) \<Rightarrow> (None, value, s\<lparr>rv_pc := next_pc\<rparr>)
      | (Some rd, value, next_pc) \<Rightarrow>
          let v = (case value of None \<Rightarrow> 0 | Some v \<Rightarrow> v AND MASK64) in
          if rd = 0 then (None, None, s\<lparr>rv_pc := next_pc\<rparr>)
          else (Some rd, Some v, s\<lparr>rv_x := (rv_x s)[nat rd := v], rv_pc := next_pc\<rparr>))"

definition rv_step :: "rv \<Rightarrow> rv_err + commit \<times> rv" where
  "rv_step s =
     res_bind (exec_fetched s) (\<lambda>(wb, s1).
       let (rd, value, s2) = write_back wb s1; s3 = s2\<lparr>rv_cycle := rv_cycle s2 + 1\<rparr> in
       res_bind (lift_commit (mk_commit (plain_commit (rv_cycle s3) (rv_pc s) rd value (fst (fetch s))))) (\<lambda>c.
       res_bind (lift_commit (with_mem_access c (rv_acc s3))) (\<lambda>c. Inr (c, s3))))"

text \<open>Every step counts one commit and keeps the budget and the mailbox address, which is why
  the loop of \<open>run\<close> ends.\<close>

lemma rv_store_fixed [simp]:
  "rv_cycle (rv_store a n v s) = rv_cycle s" "rv_max (rv_store a n v s) = rv_max s"
  "rv_tohost (rv_store a n v s) = rv_tohost s" "rv_x (rv_store a n v s) = rv_x s"
  "rv_pc (rv_store a n v s) = rv_pc s"
  by (simp_all add: rv_store_def Let_def)

lemma rv_load_fixed [simp]:
  "rv_load a n sx s = (v, s') \<Longrightarrow>
     rv_cycle s' = rv_cycle s \<and> rv_max s' = rv_max s \<and> rv_tohost s' = rv_tohost s \<and> rv_x s' = rv_x s
     \<and> rv_pc s' = rv_pc s \<and> rv_mem s' = rv_mem s \<and> rv_halt s' = rv_halt s \<and> rv_acc s' = Some (a, n, None)"
  by (auto simp: rv_load_def Let_def)

text \<open>An instruction leaves the machine as it is, or makes one load or one store.\<close>

inductive accessed :: "rv \<Rightarrow> rv \<Rightarrow> bool" for s where
  none: "accessed s s"
| load: "rv_load a n sx s = (v, s') \<Longrightarrow> n \<in> {1, 2, 4, 8} \<Longrightarrow> 0 \<le> a \<Longrightarrow> a < 2 ^ 64 \<Longrightarrow> accessed s s'"
| store: "n \<in> {1, 2, 4, 8} \<Longrightarrow> 0 \<le> a \<Longrightarrow> a < 2 ^ 64 \<Longrightarrow> accessed s (rv_store a n v s)"

lemma access_load: "rv_load (take_bit 64 a) n sx s = (v, s') \<Longrightarrow> n \<in> {1, 2, 4, 8} \<Longrightarrow> accessed s s'"
  by (rule accessed.load) (assumption, assumption, rule take_bit_nonnegative, rule take_bit_int_less_exp)

lemma access_store: "n \<in> {1, 2, 4, 8} \<Longrightarrow> accessed s (rv_store (take_bit 64 a) n v s)"
  by (rule accessed.store) (assumption, rule take_bit_nonnegative, rule take_bit_int_less_exp)

text \<open>Branch by branch, forgetting the conditions.\<close>

lemma if_elim: "(if b then x else y) = z \<Longrightarrow> (x = z \<Longrightarrow> P) \<Longrightarrow> (y = z \<Longrightarrow> P) \<Longrightarrow> P"
  by (simp split: if_split_asm)

lemma accessed_value: "wb_value rd np s r = Inr (wb, s') \<Longrightarrow> accessed s s'"
  by (auto simp: wb_value_def res_simps intro: accessed.none)

lemma load_sizes: "load_size f = Some (n, sx) \<Longrightarrow> n \<in> {1, 2, 4, 8}"
  by (auto simp: load_size_def split: if_splits)

lemma store_sizes: "store_size f = Some n \<Longrightarrow> n \<in> {1, 2, 4, 8}"
  by (auto simp: store_size_def split: if_splits)

lemma accessed_load_instr: "load_instr s insn f rd rs1 pc = Inr (wb, s') \<Longrightarrow> accessed s s'"
  unfolding load_instr_def and_MASK64
  by (auto simp del: insert_iff dest!: load_sizes intro: access_load split: option.splits prod.splits)

lemma accessed_store: "exec_store s f insn rs1 rs2 = Inr s' \<Longrightarrow> accessed s s'"
  unfolding exec_store_def and_MASK64
  by (auto simp del: insert_iff dest!: store_sizes intro: access_store split: option.splits)

lemma accessed_32: "exec_32 s insn pc = Inr (wb, s') \<Longrightarrow> accessed s s'"
  unfolding exec_32_def Let_def
  by (elim if_elim)
    (auto simp: res_simps intro: accessed.none dest: accessed_value accessed_load_instr accessed_store)

lemma accessed_c0: "exec_c0 s insn f a b pc = Inr (wb, s') \<Longrightarrow> accessed s s'"
  unfolding exec_c0_def Let_def and_MASK64
  by (elim if_elim) (auto split: prod.splits intro: accessed.none access_load access_store)

lemma accessed_c1: "exec_c1 s insn f a b pc = Inr (wb, s') \<Longrightarrow> accessed s s'"
proof -
  have alu: "exec_c1_alu s insn a b pc = Inr (wb, s') \<Longrightarrow> s' = s" for a b
    unfolding exec_c1_alu_def Let_def by (elim if_elim) auto
  show "exec_c1 s insn f a b pc = Inr (wb, s') \<Longrightarrow> accessed s s'"
    unfolding exec_c1_def Let_def
    by (elim if_elim) (auto dest!: alu intro: accessed.none)
qed

lemma accessed_c2: "exec_c2 s insn f a b n pc = Inr (wb, s') \<Longrightarrow> accessed s s'"
  unfolding exec_c2_def and_MASK64
  by (elim if_elim) (auto split: prod.splits intro: accessed.none access_load access_store)

lemma accessed_fetched: "exec_fetched s = Inr (wb, s') \<Longrightarrow> accessed (s\<lparr>rv_acc := None\<rparr>) s'"
  unfolding exec_fetched_def exec_compressed_def Let_def
  by (auto split: prod.splits elim!: if_elim dest: accessed_32 accessed_c0 accessed_c1 accessed_c2)

lemma accessed_frame:
  "accessed s s' \<Longrightarrow> rv_cycle s' = rv_cycle s \<and> rv_max s' = rv_max s \<and> rv_tohost s' = rv_tohost s
     \<and> rv_x s' = rv_x s \<and> rv_pc s' = rv_pc s"
  by (induction rule: accessed.induct) auto

lemma rv_step_Inr:
  assumes "rv_step s = Inr (c, s')"
  obtains wb s1 rd v s2 c0 where "exec_fetched s = Inr (wb, s1)" and "write_back wb s1 = (rd, v, s2)"
    and "s' = s2\<lparr>rv_cycle := rv_cycle s2 + 1\<rparr>"
    and "mk_commit (plain_commit (rv_cycle s') (rv_pc s) rd v (fst (fetch s))) = Inr c0"
    and "with_mem_access c0 (rv_acc s') = Inr c"
proof -
  from assms obtain wb s1 where ex: "exec_fetched s = Inr (wb, s1)"
    by (auto simp: rv_step_def res_simps)
  obtain rd v s2 where wb: "write_back wb s1 = (rd, v, s2)" by (cases "write_back wb s1")
  from assms obtain c0 where c0: "lift_commit (mk_commit (plain_commit (rv_cycle s') (rv_pc s) rd v (fst (fetch s)))) = Inr c0"
    "lift_commit (with_mem_access c0 (rv_acc s')) = Inr c" and s': "s' = s2\<lparr>rv_cycle := rv_cycle s2 + 1\<rparr>"
    by (auto simp: rv_step_def ex wb Let_def res_simps)
  have lift: "lift_commit r = Inr x \<Longrightarrow> r = Inr x" for r :: "commit_err + commit" and x
    by (auto simp: lift_commit_def split: sum.splits)
  show thesis by (rule that [OF ex wb s' lift [OF c0(1)] lift [OF c0(2)]])
qed

lemma rv_step_cycle: "rv_step s = Inr (c, s') \<Longrightarrow> rv_cycle s' = rv_cycle s + 1 \<and> rv_max s' = rv_max s"
proof (erule rv_step_Inr)
  fix wb s1 rd v s2 assume ex: "exec_fetched s = Inr (wb, s1)" and wb: "write_back wb s1 = (rd, v, s2)"
    and s': "s' = s2\<lparr>rv_cycle := rv_cycle s2 + 1\<rparr>"
  from accessed_frame [OF accessed_fetched [OF ex]] have "rv_cycle s1 = rv_cycle s" "rv_max s1 = rv_max s" by simp_all
  moreover from wb have "rv_cycle s2 = rv_cycle s1 \<and> rv_max s2 = rv_max s1"
    by (auto simp: write_back_def Let_def split: prod.splits option.splits if_splits)
  ultimately show ?thesis by (simp add: s')
qed

text \<open>The generator \<open>run\<close>: the commits it yields, and the exception that ends it or the machine
  at its end.\<close>

function rv_run :: "rv \<Rightarrow> commit list \<times> (rv_err + rv)" where
  "rv_run s =
     (if \<not> rv_halt s \<and> rv_cycle s < rv_max s then
        (case rv_step s of
           Inl e \<Rightarrow> ([], Inl e)
         | Inr (c, s') \<Rightarrow> (case rv_run s' of (cs, r) \<Rightarrow> (c # cs, r)))
      else if rv_halt s then ([], Inr s)
      else ([], Inl (RunAway (rv_pc s))))"
  by pat_completeness auto
termination
  by (relation "measure (\<lambda>s. nat (rv_max s - rv_cycle s))") (auto dest!: rv_step_cycle)

declare rv_run.simps [simp del]

definition rv_trace :: "rv \<Rightarrow> rv_err + commit list" where
  "rv_trace s = (case rv_run s of (cs, Inl e) \<Rightarrow> Inl e | (cs, Inr _) \<Rightarrow> Inr cs)"

text \<open>\<open>__init__\<close>: registers at zero, the segments loaded, the mailbox cleared.\<close>

definition rv_init :: "int \<Rightarrow> int \<Rightarrow> (int \<times> int list) list \<Rightarrow> int \<Rightarrow> rv" where
  "rv_init entry tohost segments max_commits =
     \<lparr>rv_x = replicate 32 0, rv_pc = entry,
      rv_mem = mem_write (foldl (\<lambda>m (addr, data). mem_load m addr data) mem_empty segments) tohost 8 0,
      rv_cycle = 0, rv_halt = False, rv_acc = None, rv_tohost = tohost, rv_max = max_commits\<rparr>"

end
