(* ===== verification/Rv_Run.thy ===== *)
theory Rv_Run
  imports Rv_Exec
begin

text \<open>
  Steps and runs of the interpreter: the machine invariant, what a commit says of the step
  that produced it, and how a run ends.
\<close>

section \<open>The machine invariant\<close>

definition rv_ok :: "rv \<Rightarrow> bool" where
  "rv_ok s \<longleftrightarrow> length (rv_x s) = 32 \<and> rv_x s ! 0 = 0 \<and> list_all (in_word 64) (rv_x s)
     \<and> in_word 64 (rv_pc s) \<and> mem_ok (rv_mem s) \<and> 0 \<le> rv_cycle s"

lemma in_word_take_bit [simp]: "in_word n (take_bit n v)"
  by (simp add: in_word_def)

lemma in_word_0 [simp]: "in_word n 0"
  by (simp add: in_word_def)

lemma rv_store_mem: "rv_mem (rv_store a n v s) = mem_write (rv_mem s) a n (v AND (push_bit (n * 8) 1 - 1))"
  by (simp add: rv_store_def Let_def)

lemma accessed_ok: "accessed s s' \<Longrightarrow> rv_ok s \<Longrightarrow> rv_ok s'"
proof (induction rule: accessed.induct)
  case (load a n sx v s')
  then show ?case using rv_load_fixed [OF load(1)] by (simp add: rv_ok_def)
next
  case (store n a v)
  then show ?case by (simp add: rv_ok_def rv_store_mem mem_ok_write)
qed

text \<open>Where the next instruction is: every branch of the interpreter masks it.\<close>

lemma next_c1_alu: "exec_c1_alu s insn r i pc = Inr ((rd, v, np), s') \<Longrightarrow> in_word 64 np"
  unfolding exec_c1_alu_def Let_def by (elim if_elim) auto

lemma and_not_1: "in_word 64 v \<Longrightarrow> in_word 64 (v AND - 2)"
  using AND_lower [of v "- 2"] AND_upper1 [of v "- 2"] by (auto simp: in_word_def)

lemma next_32: "exec_32 s insn pc = Inr ((rd, v, np), s') \<Longrightarrow> in_word 64 np"
  unfolding exec_32_def Let_def
  by (elim if_elim)
    (auto simp: res_simps wb_value_def load_instr_def and_not_1 split: option.splits prod.splits)

lemma next_c0: "exec_c0 s insn f a b pc = Inr ((rd, v, np), s') \<Longrightarrow> in_word 64 np"
  unfolding exec_c0_def Let_def by (elim if_elim) (auto split: prod.splits)

lemma next_c1: "exec_c1 s insn f a b pc = Inr ((rd, v, np), s') \<Longrightarrow> in_word 64 b \<Longrightarrow> in_word 64 np"
  unfolding exec_c1_def Let_def by (elim if_elim) (auto dest: next_c1_alu)

lemma next_c2: "exec_c2 s insn f a b n pc = Inr ((rd, v, np), s') \<Longrightarrow> in_word 64 n \<Longrightarrow> in_word 64 np"
  unfolding exec_c2_def by (elim if_elim) (auto split: prod.splits)

lemma next_fetched: "exec_fetched s = Inr ((rd, v, np), s') \<Longrightarrow> in_word 64 np"
  unfolding exec_fetched_def exec_compressed_def Let_def
  by (auto split: prod.splits elim!: if_elim dest: next_32 next_c0 next_c1 next_c2)

text \<open>Destination registers are register numbers.\<close>

lemma field5: "0 \<le> v AND 0x1F \<and> v AND 0x1F < (32 :: int)"
  using AND_upper2 [of "0x1F" v] AND_lower [of "0x1F :: int" v] by (simp add: and.commute)

lemma field3: "0 \<le> v AND 7 \<and> v AND 7 < (8 :: int)"
  using AND_upper2 [of 7 v] by (simp add: and.commute)

definition reg_ok :: "int option \<Rightarrow> bool" where
  "reg_ok rd \<longleftrightarrow> pred_option (\<lambda>r. 0 \<le> r \<and> r < 32) rd"

lemma reg_ok_simps [simp]: "reg_ok None" "reg_ok (Some r) \<longleftrightarrow> 0 \<le> r \<and> r < 32"
  by (simp_all add: reg_ok_def)

lemma rd_32: "exec_32 s insn pc = Inr ((rd, v, np), s') \<Longrightarrow> reg_ok rd"
  unfolding exec_32_def Let_def f_rd_def
  by (elim if_elim)
    (auto simp: res_simps wb_value_def load_instr_def field5 split: option.splits prod.splits)

lemma rd_c0: "exec_c0 s insn f a b pc = Inr ((rd, v, np), s') \<Longrightarrow> reg_ok (Some a) \<Longrightarrow> reg_ok rd"
  unfolding exec_c0_def Let_def by (elim if_elim) (auto split: prod.splits)

lemma rd_c1_alu: "exec_c1_alu s insn a i pc = Inr ((rd, v, np), s') \<Longrightarrow> rd = Some a"
  unfolding exec_c1_alu_def Let_def by (elim if_elim) auto

lemma rd_c1: "exec_c1 s insn f a n pc = Inr ((rd, v, np), s') \<Longrightarrow> reg_ok (Some a) \<Longrightarrow> reg_ok rd"
  using field3 [of "drop_bit 7 insn"] unfolding exec_c1_def Let_def
  by (elim if_elim) (auto dest!: rd_c1_alu)

lemma rd_c2: "exec_c2 s insn f a b n pc = Inr ((rd, v, np), s') \<Longrightarrow> reg_ok (Some a) \<Longrightarrow> reg_ok rd"
  unfolding exec_c2_def by (elim if_elim) (auto split: prod.splits)

lemma rd_fetched: "exec_fetched s = Inr ((rd, v, np), s') \<Longrightarrow> reg_ok rd"
proof -
  assume e: "exec_fetched s = Inr ((rd, v, np), s')"
  obtain insn c where f: "fetch s = (insn, c)" by (cases "fetch s")
  have a: "reg_ok (Some (8 + (drop_bit 2 insn AND 7)))" using field3 [of "drop_bit 2 insn"] by simp
  have b: "reg_ok (Some (drop_bit 7 insn AND 0x1F))" using field5 [of "drop_bit 7 insn"] by simp
  from e f a b show ?thesis
    unfolding exec_fetched_def exec_compressed_def Let_def
    by (auto elim!: if_elim dest: rd_32 rd_c0 rd_c1 rd_c2)
qed

lemma fetched_no_value: "exec_fetched s = Inr ((None, v, np), s') \<Longrightarrow> v = None"
proof -
  have alu: "exec_c1_alu t i r k pc = Inr ((None, v, np), s') \<Longrightarrow> v = None" for t i r k pc
    by (auto dest: rd_c1_alu)
  have c: "exec_32 t i pc = Inr ((None, v, np), s') \<Longrightarrow> v = None"
    "exec_c0 t i f a b pc = Inr ((None, v, np), s') \<Longrightarrow> v = None"
    "exec_c1 t i f a n pc = Inr ((None, v, np), s') \<Longrightarrow> v = None"
    "exec_c2 t i f a b n pc = Inr ((None, v, np), s') \<Longrightarrow> v = None" for t i f a b n pc
    unfolding exec_32_def exec_c0_def exec_c1_def exec_c2_def Let_def
    by (elim if_elim; auto simp: res_simps wb_value_def load_instr_def split: option.splits prod.splits dest: alu)+
  assume "exec_fetched s = Inr ((None, v, np), s')"
  then show ?thesis
    unfolding exec_fetched_def exec_compressed_def Let_def
    by (auto split: prod.splits elim!: if_elim dest: c)
qed

lemma write_back_ok:
  assumes "write_back (rd, v, np) s = (rd', v', s')" and "rv_ok s" and "reg_ok rd" and "in_word 64 np"
  shows "rv_ok s'" and "rv_pc s' = np"
    and "rv_x s' = (case rd' of None \<Rightarrow> rv_x s | Some r \<Rightarrow> (rv_x s)[nat r := the v'])"
    and "rd' \<noteq> None \<Longrightarrow> (\<exists>r w. rd' = Some r \<and> 0 < r \<and> r < 32 \<and> v' = Some w \<and> in_word 64 w)"
    and "rv_mem s' = rv_mem s" and "rv_acc s' = rv_acc s" and "rv_halt s' = rv_halt s"
    and "rv_tohost s' = rv_tohost s"
proof -
  have upd: "rv_x s \<noteq> [] \<and> (rv_x s)[nat r := w] ! 0 = 0 \<and> list_all (in_word 64) ((rv_x s)[nat r := w])"
    if "0 < r" "in_word 64 w" for r w
  proof -
    have "set ((rv_x s)[nat r := w]) \<subseteq> insert w (set (rv_x s))" by (rule set_update_subset_insert)
    then show ?thesis using that assms(2) by (auto simp: rv_ok_def list_all_iff)
  qed
  show "rv_ok s'" and "rv_pc s' = np"
    and "rv_x s' = (case rd' of None \<Rightarrow> rv_x s | Some r \<Rightarrow> (rv_x s)[nat r := the v'])"
    and "rd' \<noteq> None \<Longrightarrow> (\<exists>r w. rd' = Some r \<and> 0 < r \<and> r < 32 \<and> v' = Some w \<and> in_word 64 w)"
    and "rv_mem s' = rv_mem s" and "rv_acc s' = rv_acc s" and "rv_halt s' = rv_halt s"
    and "rv_tohost s' = rv_tohost s"
    using assms upd
    by (auto simp: write_back_def Let_def rv_ok_def split: option.splits if_splits)
qed

section \<open>Commits\<close>

lemma mk_commit_plain:
  assumes "mk_commit (plain_commit n pc rd v insn) = Inr c" and "rd \<noteq> Some 0"
  shows "c = plain_commit n pc rd v insn"
  using assms
  by (auto simp: mk_commit_def res_simps commit_simps plain_commit_def split: if_splits)

lemma mk_commit_same: "mk_commit c = Inr c' \<Longrightarrow> c_rd c \<noteq> Some 0 \<Longrightarrow> c' = c"
  by (auto simp: mk_commit_def res_simps commit_simps split: if_splits)

lemma with_mem_access_eq:
  assumes "with_mem_access c acc = Inr c'" and "c_rd c \<noteq> Some 0"
  shows "c' = (case acc of None \<Rightarrow> c
      | Some (addr, n, None) \<Rightarrow>
          c\<lparr>c_mem_addr := Some addr, c_mem_rmask := Some (lane_mask n addr), c_mem_wmask := Some 0\<rparr>
      | Some (addr, n, Some d) \<Rightarrow>
          c\<lparr>c_mem_addr := Some addr, c_mem_wdata := Some d, c_mem_rmask := Some 0,
             c_mem_wmask := Some (lane_mask n addr)\<rparr>)"
  using assms
  by (auto simp: with_mem_access_def split: option.splits prod.splits dest!: mk_commit_same)

text \<open>One step, in full: what it does to the machine and what its commit records.\<close>

definition commit_of :: "rv \<Rightarrow> rv \<Rightarrow> int option \<Rightarrow> int option \<Rightarrow> commit" where
  "commit_of s s' rd v =
     (let c = plain_commit (rv_cycle s') (rv_pc s) rd v (fst (fetch s)) in
      case rv_acc s' of None \<Rightarrow> c
      | Some (addr, n, None) \<Rightarrow>
          c\<lparr>c_mem_addr := Some addr, c_mem_rmask := Some (lane_mask n addr), c_mem_wmask := Some 0\<rparr>
      | Some (addr, n, Some d) \<Rightarrow>
          c\<lparr>c_mem_addr := Some addr, c_mem_wdata := Some d, c_mem_rmask := Some 0,
             c_mem_wmask := Some (lane_mask n addr)\<rparr>)"

lemma rv_step_facts:
  assumes "rv_step s = Inr (c, s')" and "rv_ok s"
  obtains wb s1 rd v s2 where "exec_fetched s = Inr (wb, s1)" and "write_back wb s1 = (rd, v, s2)"
    and "s' = s2\<lparr>rv_cycle := rv_cycle s2 + 1\<rparr>" and "rv_cycle s2 = rv_cycle s"
    and "accessed (s\<lparr>rv_acc := None\<rparr>) s1" and "rv_ok s'"
    and "rv_mem s' = rv_mem s1" and "rv_acc s' = rv_acc s1" and "rv_halt s' = rv_halt s1"
    and "rv_tohost s' = rv_tohost s"
    and "rv_x s' = (case rd of None \<Rightarrow> rv_x s | Some r \<Rightarrow> (rv_x s)[nat r := the v])"
    and "rd \<noteq> Some 0" and "rd = None \<longleftrightarrow> v = None" and "c = commit_of s s' rd v" and "commit_ok c"
proof -
  obtain wb s1 rd v s2 c0 where e: "exec_fetched s = Inr (wb, s1)" and w: "write_back wb s1 = (rd, v, s2)"
    and s': "s' = s2\<lparr>rv_cycle := rv_cycle s2 + 1\<rparr>"
    and c0: "mk_commit (plain_commit (rv_cycle s') (rv_pc s) rd v (fst (fetch s))) = Inr c0"
    and c: "with_mem_access c0 (rv_acc s') = Inr c"
    using rv_step_Inr [OF assms(1)] by metis
  obtain r u np where wb: "wb = (r, u, np)" by (cases wb)
  note acc = accessed_fetched [OF e]
  have ok1: "rv_ok s1" by (rule accessed_ok [OF acc]) (use assms(2) in \<open>simp add: rv_ok_def\<close>)
  note k = write_back_ok [OF w [unfolded wb] ok1 rd_fetched [OF e [unfolded wb]] next_fetched [OF e [unfolded wb]]]
  have ok': "rv_ok s'" using k(1) by (simp add: s' rv_ok_def)
  have rd0: "rd \<noteq> Some 0" using k(4) by auto
  have rdv: "rd = None \<longleftrightarrow> v = None"
    using w wb k(4) fetched_no_value e by (auto simp: write_back_def Let_def split: option.splits if_splits)
  have c0eq: "c0 = plain_commit (rv_cycle s') (rv_pc s) rd v (fst (fetch s))"
    by (rule mk_commit_plain [OF c0 rd0])
  have "c_rd c0 \<noteq> Some 0" using rd0 by (simp add: c0eq plain_commit_def)
  from with_mem_access_eq [OF c this] have ceq: "c = commit_of s s' rd v"
    by (simp add: commit_of_def c0eq Let_def split: option.splits prod.splits)
  have "commit_ok c"
  proof (cases "rv_acc s'")
    case None
    then show ?thesis using c c0 mk_commit_ok by (auto simp: with_mem_access_def)
  next
    case (Some q)
    then show ?thesis using c by (auto simp: with_mem_access_def split: prod.splits option.splits dest: mk_commit_ok)
  qed
  moreover have "rv_cycle s2 = rv_cycle s"
    using rv_step_cycle [OF assms(1)] by (simp add: s')
  ultimately show thesis
    using that [OF e w s' _ acc ok' _ _ _ _ _ rd0 rdv ceq] k accessed_frame [OF acc]
    by (simp add: s' split: option.splits)
qed

text \<open>What the commit of a step says, applied to the state before it.\<close>

definition replay_size :: "int \<Rightarrow> int \<Rightarrow> nat" where
  "replay_size lanes addr = bit_length (drop_bit (nat (addr AND 7)) lanes)"

definition replay :: "int list \<times> pages \<Rightarrow> commit \<Rightarrow> int list \<times> pages" where
  "replay = (\<lambda>(x, m) c.
     (case c_rd c of None \<Rightarrow> x | Some r \<Rightarrow> x[nat r := the (c_value c)],
      case (c_mem_addr c, c_mem_wdata c, c_mem_wmask c) of
        (Some addr, Some d, Some wmask) \<Rightarrow> mem_write m addr (replay_size wmask addr) d
      | _ \<Rightarrow> m))"

lemma nat_bit_length_mask: "nat_bit_length (2 ^ n - 1) = n"
proof (induction n)
  case (Suc n)
  have "(1 :: nat) \<le> 2 ^ n" by simp
  then have nz: "(2 :: nat) ^ Suc n - 1 \<noteq> 0" and half: "((2 :: nat) ^ Suc n - 1) div 2 = 2 ^ n - 1"
    unfolding power_Suc by linarith+
  show ?case by (subst nat_bit_length.simps) (simp only: nz half Suc if_False)
qed (simp add: nat_bit_length.simps)

lemma replay_lane_mask: "replay_size (lane_mask n addr) addr = n"
proof -
  have "nat (2 ^ n - 1) = 2 ^ n - 1" by (simp add: nat_diff_distrib nat_power_eq)
  moreover have "drop_bit k (push_bit k (2 ^ n - 1)) = (2 ^ n - 1 :: int)" for k
    by (simp add: push_bit_eq_mult drop_bit_eq_div)
  ultimately show ?thesis
    by (simp add: replay_size_def lane_mask_def bit_length_def nat_bit_length_mask [simplified])
qed

lemma commit_of_simps:
  "c_rd (commit_of s s' rd v) = rd" "c_value (commit_of s s' rd v) = v" "c_cycle (commit_of s s' rd v) = rv_cycle s'"
  "c_pc (commit_of s s' rd v) = rv_pc s"
  "rv_acc s' = None \<Longrightarrow> c_mem_addr (commit_of s s' rd v) = None"
  "rv_acc s' = Some (a, n, None) \<Longrightarrow> c_mem_wdata (commit_of s s' rd v) = None"
  "rv_acc s' = Some (a, n, Some d) \<Longrightarrow> c_mem_addr (commit_of s s' rd v) = Some a
     \<and> c_mem_wdata (commit_of s s' rd v) = Some d \<and> c_mem_wmask (commit_of s s' rd v) = Some (lane_mask n a)"
  by (auto simp: commit_of_def plain_commit_def Let_def split: option.splits prod.splits)

lemma replay_step:
  assumes "rv_step s = Inr (c, s')" and "rv_ok s"
  shows "replay (rv_x s, rv_mem s) c = (rv_x s', rv_mem s')"
proof -
  obtain s1 rd v where a: "accessed (s\<lparr>rv_acc := None\<rparr>) s1" and m: "rv_mem s' = rv_mem s1" "rv_acc s' = rv_acc s1"
    and x: "rv_x s' = (case rd of None \<Rightarrow> rv_x s | Some r \<Rightarrow> (rv_x s)[nat r := the v])"
    and c: "c = commit_of s s' rd v"
    using rv_step_facts [OF assms] by metis
  from a show ?thesis
  proof cases
    case none
    then have "rv_acc s' = None" "rv_mem s' = rv_mem s" by (simp_all add: m)
    then show ?thesis by (simp add: c x replay_def commit_of_simps split: option.split)
  next
    case (load ad n sx w)
    then have "rv_acc s' = Some (ad, n, None)" "rv_mem s' = rv_mem s"
      using rv_load_fixed [OF load(1)] by (simp_all add: m)
    then show ?thesis by (simp add: c x replay_def commit_of_simps split: option.split)
  next
    case (store n ad w)
    let ?d = "w AND (push_bit (n * 8) 1 - 1)"
    from store have "rv_acc s' = Some (ad, n, Some ?d)" "rv_mem s' = mem_write (rv_mem s) ad n ?d"
      by (simp_all add: m rv_store_mem) (simp add: rv_store_def Let_def)
    then show ?thesis by (simp add: c x replay_def commit_of_simps replay_lane_mask split: option.split)
  qed
qed

text \<open>The exceptions of an instruction are all UnsupportedInstruction.\<close>

definition unsupported :: "rv_err \<Rightarrow> bool" where
  "unsupported e \<longleftrightarrow> (\<exists>t p. e = Unsupported t p) \<or> (\<exists>f. e = UnsupportedStore f)"

lemma unsupported_simps [simp]: "unsupported (Unsupported t p)" "unsupported (UnsupportedStore f)"
  by (simp_all add: unsupported_def)

lemma unsupported_alu:
  "op_imm s insn f g r pc = Inl e \<Longrightarrow> unsupported e" "op_imm_32 s insn f g r pc = Inl e \<Longrightarrow> unsupported e"
  "m_op f a b pc = Inl e \<Longrightarrow> unsupported e" "m_op_32 f a b pc = Inl e \<Longrightarrow> unsupported e"
  "branch_taken f a b pc = Inl e \<Longrightarrow> unsupported e"
  unfolding op_imm_def op_imm_32_def m_op_def m_op_32_def branch_taken_def Let_def
  by (elim if_elim; auto split: prod.splits)+

lemma unsupported_rr:
  "op_rr s f g r r' pc = Inl e \<Longrightarrow> unsupported e" "op_rr_32 s f g r r' pc = Inl e \<Longrightarrow> unsupported e"
  unfolding op_rr_def op_rr_32_def Let_def
  by (elim if_elim; auto dest: unsupported_alu)+

lemma unsupported_exec:
  "exec_32 s insn pc = Inl e \<Longrightarrow> unsupported e" "exec_c0 s insn f a b pc = Inl e \<Longrightarrow> unsupported e"
  "exec_c1_alu s insn a b pc = Inl e \<Longrightarrow> unsupported e"
  "exec_c2 s insn f a b n pc = Inl e \<Longrightarrow> unsupported e"
  unfolding exec_32_def exec_c0_def exec_c1_alu_def exec_c2_def Let_def load_instr_def exec_store_def wb_value_def
  by (elim if_elim; auto simp: res_simps split: prod.splits option.splits dest: unsupported_alu unsupported_rr)+

lemma unsupported_fetched: "exec_fetched s = Inl e \<Longrightarrow> unsupported e"
proof -
  have c1: "exec_c1 s insn f a b pc = Inl e \<Longrightarrow> unsupported e" for s insn f a b pc
    unfolding exec_c1_def Let_def by (elim if_elim) (auto dest: unsupported_exec)
  assume "exec_fetched s = Inl e"
  then show ?thesis
    unfolding exec_fetched_def exec_compressed_def Let_def
    by (auto split: prod.splits elim!: if_elim dest: unsupported_exec c1)
qed

lemma step_not_runaway: "rv_step s \<noteq> Inl (RunAway pc)"
  by (auto simp: rv_step_def Let_def lift_commit_def res_simps unsupported_def
      dest!: unsupported_fetched split: prod.splits sum.splits)

section \<open>Runs\<close>

text \<open>The shape of a run, from the recursion of the generator.\<close>

lemma run_facts:
  assumes "rv_run s = (cs, r)" and "rv_ok s"
  shows "list_all commit_ok cs \<and> map c_cycle cs = map (\<lambda>i. rv_cycle s + 1 + int i) [0..<length cs]
    \<and> (rv_cycle s \<le> rv_max s \<longrightarrow> int (length cs) \<le> rv_max s - rv_cycle s)
    \<and> (\<forall>t. r = Inr t \<longrightarrow> rv_ok t \<and> rv_halt t \<and> foldl replay (rv_x s, rv_mem s) cs = (rv_x t, rv_mem t))
    \<and> (\<forall>pc. r = Inl (RunAway pc) \<longrightarrow> rv_cycle s \<le> rv_max s \<longrightarrow> int (length cs) = rv_max s - rv_cycle s)"
  using assms
proof (induction s arbitrary: cs r rule: rv_run.induct)
  case (1 s)
  show ?case
  proof (cases "\<not> rv_halt s \<and> rv_cycle s < rv_max s")
    case False
    then show ?thesis using "1.prems" by (subst (asm) rv_run.simps) (auto split: if_split_asm)
  next
    case True
    show ?thesis
    proof (cases "rv_step s")
      case (Inl e)
      then have "e \<noteq> RunAway pc" for pc using step_not_runaway [of s pc] by auto
      with Inl True "1.prems" show ?thesis by (subst (asm) rv_run.simps) auto
    next
      case (Inr p)
      obtain c s' where p: "p = (c, s')" by (cases p)
      obtain cs' where r': "rv_run s' = (cs', r)" and cs: "cs = c # cs'"
        using True Inr p "1.prems" by (subst (asm) (2) rv_run.simps) (auto split: prod.splits)
      note step = Inr [unfolded p]
      have ok': "rv_ok s'" "commit_ok c" and cc: "c_cycle c = rv_cycle s'"
        using rv_step_facts [OF step "1.prems"(2)] commit_of_simps(3) by metis+
      have cyc: "rv_cycle s' = rv_cycle s + 1" "rv_max s' = rv_max s" using rv_step_cycle [OF step] by simp_all
      note ih = "1.IH" [OF True Inr p [symmetric] r' ok'(1)]
      have "map (\<lambda>i. rv_cycle s' + 1 + int i) [0..<n] = map (\<lambda>i. rv_cycle s + 1 + int i) [1..<Suc n]" for n
        by (rule nth_equalityI) (simp_all add: cyc(1) del: upt_Suc)
      then have "map c_cycle cs = map (\<lambda>i. rv_cycle s + 1 + int i) [0..<length cs]"
        using ih cc cyc unfolding cs by (simp add: upt_conv_Cons del: upt_Suc)
      moreover have "foldl replay (rv_x s, rv_mem s) cs = foldl replay (rv_x s', rv_mem s') cs'"
        by (simp add: cs replay_step [OF step "1.prems"(2)])
      ultimately show ?thesis using ih ok' cyc True by (simp add: cs)
    qed
  qed
qed

end
