(* ===== verification/Rv_Isa.thy ===== *)
theory Rv_Isa
  imports Rv_Run "HOL-Library.Signed_Division" "HOL-Library.Word"
begin

text \<open>
  The integer and multiply/divide instructions of the RISC-V unprivileged manual as functions
  on machine words, and the proof that the interpreter's Python-integer arithmetic computes
  them. The reference is written for every word length: RV64 uses it at 64 bits, the W forms
  at 32 bits followed by a sign extension.
\<close>

section \<open>Reference\<close>

datatype alu_op =
  A_ADD | A_SUB | A_SLL | A_SLT | A_SLTU | A_XOR | A_SRL | A_SRA | A_OR | A_AND
| A_MUL | A_MULH | A_MULHSU | A_MULHU | A_DIV | A_DIVU | A_REM | A_REMU

definition isa_shift :: "'a::len word \<Rightarrow> nat" where
  "isa_shift (b :: 'a word) = nat (uint b mod int LENGTH('a))"

fun isa_alu :: "alu_op \<Rightarrow> 'a::len word \<Rightarrow> 'a word \<Rightarrow> 'a word" where
  "isa_alu A_ADD a b = a + b"
| "isa_alu A_SUB a b = a - b"
| "isa_alu A_SLL a b = push_bit (isa_shift b) a"
| "isa_alu A_SLT a b = of_bool (sint a < sint b)"
| "isa_alu A_SLTU a b = of_bool (a < b)"
| "isa_alu A_XOR a b = a XOR b"
| "isa_alu A_SRL a b = drop_bit (isa_shift b) a"
| "isa_alu A_SRA a b = signed_drop_bit (isa_shift b) a"
| "isa_alu A_OR a b = a OR b"
| "isa_alu A_AND a b = a AND b"
| "isa_alu A_MUL a b = a * b"
| "isa_alu A_MULH (a :: 'a word) b = word_of_int (sint a * sint b div 2 ^ LENGTH('a))"
| "isa_alu A_MULHSU (a :: 'a word) b = word_of_int (sint a * uint b div 2 ^ LENGTH('a))"
| "isa_alu A_MULHU (a :: 'a word) b = word_of_int (uint a * uint b div 2 ^ LENGTH('a))"
| "isa_alu A_DIV a b = (if b = 0 then - 1 else word_of_int (sint a sdiv sint b))"
| "isa_alu A_DIVU a b = (if b = 0 then - 1 else a div b)"
| "isa_alu A_REM a b = (if b = 0 then a else word_of_int (sint a smod sint b))"
| "isa_alu A_REMU a b = (if b = 0 then a else a mod b)"

text \<open>The W forms: the operation on the low halves, sign-extended.\<close>

definition isa_alu_w :: "alu_op \<Rightarrow> 64 word \<Rightarrow> 64 word \<Rightarrow> 64 word" where
  "isa_alu_w op a b = scast (isa_alu op (ucast a :: 32 word) (ucast b))"

text \<open>The encodings of OP and OP-32: (funct7, funct3).\<close>

definition op_table :: "((int \<times> int) \<times> alu_op) list" where
  "op_table =
     [((0, 0), A_ADD), ((32, 0), A_SUB), ((0, 1), A_SLL), ((0, 2), A_SLT), ((0, 3), A_SLTU),
      ((0, 4), A_XOR), ((0, 5), A_SRL), ((32, 5), A_SRA), ((0, 6), A_OR), ((0, 7), A_AND),
      ((1, 0), A_MUL), ((1, 1), A_MULH), ((1, 2), A_MULHSU), ((1, 3), A_MULHU),
      ((1, 4), A_DIV), ((1, 5), A_DIVU), ((1, 6), A_REM), ((1, 7), A_REMU)]"

definition op_w_table :: "((int \<times> int) \<times> alu_op) list" where
  "op_w_table =
     [((0, 0), A_ADD), ((32, 0), A_SUB), ((0, 1), A_SLL), ((0, 5), A_SRL), ((32, 5), A_SRA),
      ((1, 0), A_MUL), ((1, 4), A_DIV), ((1, 5), A_DIVU), ((1, 6), A_REM), ((1, 7), A_REMU)]"

section \<open>Integers and words\<close>

named_theorems int_word "operations on the integer value of a word"

lemma sext_eq: "0 < n \<Longrightarrow> sext v n = signed_take_bit (n - 1) v"
proof -
  assume "0 < n"
  then obtain k where n: "n = Suc k" by (cases n) auto
  have m: "v AND (push_bit n 1 - 1) = take_bit n v"
    by (simp add: take_bit_eq_mask mask_eq_exp_minus_1)
  have b: "take_bit n v AND push_bit k 1 \<noteq> 0 \<longleftrightarrow> bit v k"
    using and_single [of "take_bit n v" k] by (simp add: bit_take_bit_iff n)
  have "sext v n = (if take_bit n v AND push_bit k 1 \<noteq> 0 then take_bit n v - push_bit n 1 else take_bit n v)"
    unfolding sext_def Let_def m by (simp only: n diff_Suc_1)
  also have "\<dots> = signed_take_bit k v"
    unfolding b using signed_take_bit_eq_take_bit_minus [of k v]
    by (simp add: n push_bit_eq_mult del: take_bit_Suc)
  finally show ?thesis by (simp add: n)
qed

lemma take_uint: "take_bit LENGTH('a) (uint w) = uint w" for w :: "'a::len word"
  by (rule take_bit_int_eq_self) simp_all

lemma take_uint_64: "take_bit 64 (uint w) = uint w" for w :: "64 word"
  using take_uint [of w] by simp

lemma sint_64 [int_word]: "signed_take_bit 63 (uint a) = sint (a :: 64 word)"
  by (simp add: sint_uint)

lemma sint_32 [int_word]: "signed_take_bit 31 (uint a) = sint (a :: 32 word)"
  by (simp add: sint_uint)

lemma sext_64 [int_word]: "sext (uint a) 64 = sint (a :: 64 word)"
  by (simp add: sext_eq sint_64)

text \<open>The low half of a register.\<close>

lemma low_half: "take_bit 32 (uint a) = uint (ucast a :: 32 word)" for a :: "64 word"
  by (simp add: unsigned_ucast_eq)

lemma signed32_low: "signed32 (uint a) = sint (ucast a :: 32 word)" for a :: "64 word"
  by (simp add: signed32_def sext_eq low_half sint_32)

lemma sext_32 [int_word]: "sext (uint w) 32 = sint (w :: 32 word)"
  by (simp add: sext_eq sint_32)

lemma done32: "take_bit 64 (sext (uint w) 32) = uint (scast w :: 64 word)" for w :: "32 word"
  unfolding sext_32 scast_eq uint_word_of_int_eq by simp

section \<open>Division\<close>

text \<open>The interpreter's division truncates, as the signed division of the library does.\<close>

lemma py_div_sdiv:
  "b \<noteq> 0 \<Longrightarrow> py_div a b = (a sdiv b, a smod b)"
proof -
  assume b: "b \<noteq> 0"
  have "fst (py_div a b) = a sdiv b"
    using b by (auto simp: py_div_def Let_def signed_divide_int_def sgn_if)
  moreover have "snd (py_div a b) = a - fst (py_div a b) * b"
    using b by (simp add: py_div_def Let_def)
  ultimately show ?thesis
    using minus_sdiv_mult_eq_smod [of a b] by (cases "py_div a b") simp
qed

lemma py_div_0: "py_div a 0 = (- 1, a)"
  by (simp add: py_div_def)

lemma py_div_nonneg: "0 \<le> a \<Longrightarrow> 0 < b \<Longrightarrow> py_div a b = (a div b, a mod b)"
  by (simp add: py_div_def Let_def minus_div_mult_eq_mod)

lemma word_zero_ints: "sint b = 0 \<longleftrightarrow> b = 0" "uint b = 0 \<longleftrightarrow> b = 0" for b :: "'a::len word"
  by (simp_all add: unsigned_eq_0_iff signed_eq_0_iff)

section \<open>The operations on a register's integer\<close>

lemma shift_64: "nat (take_bit 6 (uint b)) = isa_shift (b :: 64 word)"
  by (simp add: isa_shift_def take_bit_eq_mod)

lemma shift_32: "nat (take_bit 5 (uint b)) = isa_shift (ucast b :: 32 word)" for b :: "64 word"
proof -
  have "take_bit 32 (uint b) mod 32 = take_bit 5 (take_bit 32 (uint b))" by (simp only: take_bit_eq_mod) simp
  then show ?thesis by (simp add: isa_shift_def unsigned_ucast_eq)
qed

lemma and_3F: "v AND 0x3F = take_bit 6 (v :: int)" and and_1F: "v AND 0x1F = take_bit 5 (v :: int)"
  by (simp_all add: take_bit_eq_mask mask_eq_exp_minus_1)

text \<open>Each line is the code's integer expression for one operation.\<close>

lemma int_alu_64:
  fixes a b :: "64 word"
  shows "take_bit 64 (uint a + uint b) = uint (isa_alu A_ADD a b)"
    and "take_bit 64 (uint a - uint b) = uint (isa_alu A_SUB a b)"
    and "take_bit 64 (push_bit (isa_shift b) (uint a)) = uint (isa_alu A_SLL a b)"
    and "of_bool (sint a < sint b) = uint (isa_alu A_SLT a b)"
    and "of_bool (uint a < uint b) = uint (isa_alu A_SLTU a b)"
    and "uint a XOR uint b = uint (isa_alu A_XOR a b)"
    and "drop_bit (isa_shift b) (uint a) = uint (isa_alu A_SRL a b)"
    and "take_bit 64 (drop_bit (isa_shift b) (sint a)) = uint (isa_alu A_SRA a b)"
    and "uint a OR uint b = uint (isa_alu A_OR a b)"
    and "uint a AND uint b = uint (isa_alu A_AND a b)"
proof -
  show "take_bit 64 (uint a + uint b) = uint (isa_alu A_ADD a b)"
    "take_bit 64 (uint a - uint b) = uint (isa_alu A_SUB a b)"
    by (simp_all add: uint_word_ariths take_bit_eq_mod)
  show "drop_bit (isa_shift b) (uint a) = uint (isa_alu A_SRL a b)"
    by (simp add: unsigned_drop_bit_eq take_uint_64)
  show "take_bit 64 (drop_bit (isa_shift b) (sint a)) = uint (isa_alu A_SRA a b)"
    by (simp add: uint_sint sint_signed_drop_bit_eq)
qed (simp_all add: unsigned_push_bit_eq word_less_def unsigned_or_eq unsigned_and_eq unsigned_xor_eq)

lemma int_mul_64:
  fixes a b :: "64 word"
  shows "take_bit 64 (uint a * uint b) = uint (isa_alu A_MUL a b)"
    and "take_bit 64 (drop_bit 64 (sint a * sint b)) = uint (isa_alu A_MULH a b)"
    and "take_bit 64 (drop_bit 64 (sint a * uint b)) = uint (isa_alu A_MULHSU a b)"
    and "take_bit 64 (drop_bit 64 (uint a * uint b)) = uint (isa_alu A_MULHU a b)"
proof -
  show "take_bit 64 (uint a * uint b) = uint (isa_alu A_MUL a b)"
    by (simp add: uint_word_ariths take_bit_eq_mod)
qed (simp_all only: isa_alu.simps uint_word_of_int_eq drop_bit_eq_div len_num0 len_num1 len_bit0 len_bit1, simp_all)

lemma uint_minus_1: "uint (- 1 :: 'a::len word) = take_bit LENGTH('a) (- 1)"
  by (simp only: unsigned_minus_1_eq_mask mask_eq_take_bit_minus_one)

lemma int_div:
  fixes a b :: "'a::len word"
  shows "take_bit LENGTH('a) (fst (py_div (sint a) (sint b))) = uint (isa_alu A_DIV a b)"
    and "take_bit LENGTH('a) (snd (py_div (sint a) (sint b))) = uint (isa_alu A_REM a b)"
    and "take_bit LENGTH('a) (fst (py_div (uint a) (uint b))) = uint (isa_alu A_DIVU a b)"
    and "take_bit LENGTH('a) (snd (py_div (uint a) (uint b))) = uint (isa_alu A_REMU a b)"
proof -
  have pos: "b \<noteq> 0 \<Longrightarrow> 0 < uint b" by (metis word_zero_ints(2) order_le_less uint_ge_0)
  have ab: "take_bit LENGTH('a) (uint a div uint b) = uint a div uint b"
    "take_bit LENGTH('a) (uint a mod uint b) = uint a mod uint b"
    by (simp_all add: take_uint flip: uint_div_distrib uint_mod_distrib)
  show "take_bit LENGTH('a) (fst (py_div (sint a) (sint b))) = uint (isa_alu A_DIV a b)"
    "take_bit LENGTH('a) (snd (py_div (sint a) (sint b))) = uint (isa_alu A_REM a b)"
    by (cases "b = 0"; simp add: py_div_0 py_div_sdiv word_zero_ints uint_minus_1 uint_word_of_int_eq flip: uint_sint)+
  show "take_bit LENGTH('a) (fst (py_div (uint a) (uint b))) = uint (isa_alu A_DIVU a b)"
    "take_bit LENGTH('a) (snd (py_div (uint a) (uint b))) = uint (isa_alu A_REMU a b)"
    using pos ab
    by (cases "b = 0"; simp add: py_div_0 py_div_nonneg uint_minus_1 uint_div_distrib uint_mod_distrib)+
qed

text \<open>The W forms: the code works on the 64-bit integers and truncates.\<close>

lemma int_alu_32:
  fixes a b :: "64 word"
  defines "la \<equiv> (ucast a :: 32 word)" and "lb \<equiv> (ucast b :: 32 word)"
  shows "take_bit 32 (uint a + uint b) = uint (isa_alu A_ADD la lb)"
    and "take_bit 32 (uint a - uint b) = uint (isa_alu A_SUB la lb)"
    and "take_bit 32 (push_bit (isa_shift lb) (uint a)) = uint (isa_alu A_SLL la lb)"
    and "take_bit 32 (drop_bit (isa_shift lb) (take_bit 32 (uint a))) = uint (isa_alu A_SRL la lb)"
    and "take_bit 32 (drop_bit (isa_shift lb) (sint la)) = uint (isa_alu A_SRA la lb)"
    and "take_bit 32 (uint a * uint b) = uint (isa_alu A_MUL la lb)"
proof -
  have la: "uint la = take_bit 32 (uint a)" and lb: "uint lb = take_bit 32 (uint b)"
    by (simp_all add: la_def lb_def low_half)
  show "take_bit 32 (uint a + uint b) = uint (isa_alu A_ADD la lb)"
    "take_bit 32 (uint a - uint b) = uint (isa_alu A_SUB la lb)"
    "take_bit 32 (uint a * uint b) = uint (isa_alu A_MUL la lb)"
    by (simp_all add: uint_word_ariths la lb take_bit_eq_mod mod_simps)
  show "take_bit 32 (push_bit (isa_shift lb) (uint a)) = uint (isa_alu A_SLL la lb)"
    by (simp add: unsigned_push_bit_eq la take_bit_push_bit)
  have "take_bit 32 (uint la) = uint la" using take_uint [of la] by simp
  then show "take_bit 32 (drop_bit (isa_shift lb) (take_bit 32 (uint a))) = uint (isa_alu A_SRL la lb)"
    using take_uint [of "drop_bit (isa_shift lb) la"] by (simp add: unsigned_drop_bit_eq la)
  show "take_bit 32 (drop_bit (isa_shift lb) (sint la)) = uint (isa_alu A_SRA la lb)"
    by (simp add: uint_sint sint_signed_drop_bit_eq)
qed

lemma sext_take: "sext (take_bit 32 v) 32 = sext v 32"
  by (simp add: sext_eq signed_take_bit_take_bit)

lemma int_div_32:
  fixes a b :: "32 word"
  shows "take_bit 32 (fst (py_div (sint a) (sint b))) = uint (isa_alu A_DIV a b)"
    and "take_bit 32 (snd (py_div (sint a) (sint b))) = uint (isa_alu A_REM a b)"
    and "take_bit 32 (fst (py_div (uint a) (uint b))) = uint (isa_alu A_DIVU a b)"
    and "take_bit 32 (snd (py_div (uint a) (uint b))) = uint (isa_alu A_REMU a b)"
  using int_div [of a b] by simp_all

lemma int_div_64:
  fixes a b :: "64 word"
  shows "take_bit 64 (fst (py_div (sint a) (sint b))) = uint (isa_alu A_DIV a b)"
    and "take_bit 64 (snd (py_div (sint a) (sint b))) = uint (isa_alu A_REM a b)"
    and "take_bit 64 (fst (py_div (uint a) (uint b))) = uint (isa_alu A_DIVU a b)"
    and "take_bit 64 (snd (py_div (uint a) (uint b))) = uint (isa_alu A_REMU a b)"
  using int_div [of a b] by simp_all

section \<open>The interpreter computes the reference\<close>

lemma m_op_isa:
  fixes a b :: "64 word"
  assumes "map_of op_table (1, f3) = Some op"
  shows "m_op f3 (uint a) (uint b) pc = Inr (uint (isa_alu op a b))"
  using assms
  by (auto simp: op_table_def m_op_def case_prod_unfold int_word int_mul_64 int_div_64
      simp del: isa_alu.simps split: if_splits)

lemma op_rr_isa:
  fixes a b :: "64 word"
  assumes "xreg s rs1 = uint a" and "xreg s rs2 = uint b" and "map_of op_table (f7, f3) = Some op"
  shows "op_rr s f3 f7 rs1 rs2 pc = Inr (uint (isa_alu op a b))"
proof (cases "f7 = 1")
  case True
  with assms show ?thesis using m_op_isa [of f3 op] by (simp add: op_rr_def Let_def)
next
  case False
  with assms show ?thesis
    by (auto simp: op_table_def op_rr_def Let_def and_3F shift_64 sext_64 int_alu_64
        simp del: isa_alu.simps split: if_splits)
qed

lemma m_op_32_isa:
  fixes a b :: "64 word"
  assumes "map_of op_w_table (1, f3) = Some op"
  shows "m_op_32 f3 (uint a) (uint b) pc = Inr (uint (isa_alu_w op a b))"
  using assms
  by (auto simp: op_w_table_def m_op_32_def case_prod_unfold isa_alu_w_def signed32_low low_half Let_def
      int_alu_32 int_div_32 done32 simp del: isa_alu.simps split: if_splits)

lemma op_rr_32_isa:
  fixes a b :: "64 word"
  assumes "xreg s rs1 = uint a" and "xreg s rs2 = uint b" and "map_of op_w_table (f7, f3) = Some op"
  shows "op_rr_32 s f3 f7 rs1 rs2 pc = Inr (uint (isa_alu_w op a b))"
proof (cases "f7 = 1")
  case True
  with assms show ?thesis using m_op_32_isa [of f3 op] by (simp add: op_rr_32_def Let_def)
next
  case False
  have srl: "take_bit 64 (sext (drop_bit (isa_shift (ucast b :: 32 word)) (take_bit 32 (uint a))) 32)
      = uint (scast (isa_alu A_SRL (ucast a :: 32 word) (ucast b)) :: 64 word)"
    using done32 [of "isa_alu A_SRL (ucast a) (ucast b)"] by (simp only: sext_take flip: int_alu_32(4))
  from assms False srl show ?thesis
    by (auto simp: op_w_table_def op_rr_32_def Let_def and_1F shift_32 signed32_low isa_alu_w_def
        int_alu_32 done32 simp del: isa_alu.simps split: if_splits)
qed

text \<open>Register-immediate instructions: the same operations on the sign-extended immediate; the
  shifts take their amount from the immediate's low bits.\<close>

definition imm_op :: "int \<Rightarrow> alu_op option" where
  "imm_op f3 = map_of [(0, A_ADD), (2, A_SLT), (3, A_SLTU), (4, A_XOR), (6, A_OR), (7, A_AND)] f3"

definition shift_op :: "int \<Rightarrow> int \<Rightarrow> alu_op option" where
  "shift_op f3 hi = map_of [((1, 0), A_SLL), ((5, 0), A_SRL), ((5, 16), A_SRA)] (f3, hi)"

lemma uint_imm: "uint (word_of_int v :: 64 word) = take_bit 64 v"
  by (simp add: uint_word_of_int_eq)

lemma sint_imm: "sint (word_of_int (imm_i insn) :: 64 word) = imm_i insn"
proof -
  have "signed_take_bit 63 (imm_i insn) = imm_i insn"
    unfolding imm_i_def by (simp add: sext_eq)
  then show ?thesis by (simp add: sint_sbintrunc')
qed

lemma op_imm_isa:
  fixes a :: "64 word"
  assumes "xreg s rs1 = uint a" and "imm_op f3 = Some op"
  shows "op_imm s insn f3 f7 rs1 pc = Inr (uint (isa_alu op a (word_of_int (imm_i insn))))"
proof -
  let ?b = "word_of_int (imm_i insn) :: 64 word"
  have add: "take_bit 64 (uint a + imm_i insn) = uint (isa_alu A_ADD a ?b)"
    unfolding int_alu_64(1) [symmetric] by (simp add: uint_imm take_bit_eq_mod mod_simps)
  have lt: "uint a < take_bit 64 (imm_i insn) \<longleftrightarrow> uint a < uint ?b" "sint a < imm_i insn \<longleftrightarrow> sint a < sint ?b"
    by (simp_all add: uint_imm sint_imm)
  from assms show ?thesis
    by (auto simp: imm_op_def op_imm_def Let_def sext_64 add lt uint_imm [symmetric, of "imm_i insn"] int_alu_64 [of a ?b]
        simp del: isa_alu.simps split: if_splits)
qed

lemma op_imm_shift_isa:
  fixes a :: "64 word"
  assumes "xreg s rs1 = uint a" and "shift_op f3 (drop_bit 1 f7) = Some op"
  shows "op_imm s insn f3 f7 rs1 pc = Inr (uint (isa_alu op a (word_of_int (take_bit 6 (drop_bit 20 insn)))))"
proof -
  have "take_bit 6 (drop_bit 20 insn) = uint (word_of_int (take_bit 6 (drop_bit 20 insn)) :: 64 word)"
    by (simp add: uint_imm)
  then have sh: "nat (take_bit 6 (drop_bit 20 insn)) = isa_shift (word_of_int (take_bit 6 (drop_bit 20 insn)) :: 64 word)"
    by (metis shift_64 take_bit_take_bit min.idem)
  from assms show ?thesis
    by (auto simp: shift_op_def op_imm_def Let_def and_3F sh sext_64 int_alu_64 simp del: isa_alu.simps
        split: if_splits)
qed

lemma op_imm_32_isa:
  fixes a :: "64 word"
  assumes "xreg s rs1 = uint a"
  shows "op_imm_32 s insn 0 f7 rs1 pc = Inr (uint (isa_alu_w A_ADD a (word_of_int (imm_i insn))))"
proof -
  let ?b = "word_of_int (imm_i insn) :: 64 word"
  have "take_bit 32 (uint a + imm_i insn) = take_bit 32 (uint a + uint ?b)"
    using take_bit_add [of 32 "uint a" "uint ?b"] take_bit_add [of 32 "uint a" "imm_i insn"]
    by (simp add: uint_imm)
  with assms show ?thesis
    by (simp add: op_imm_32_def Let_def isa_alu_w_def int_alu_32 done32 del: isa_alu.simps)
qed

lemma op_imm_32_shift_isa:
  fixes a :: "64 word"
  assumes "xreg s rs1 = uint a"
    and "map_of [((1, 0), A_SLL), ((5, 0), A_SRL), ((5, 32), A_SRA)] (f3, f7) = Some op"
  shows "op_imm_32 s insn f3 f7 rs1 pc = Inr (uint (isa_alu_w op a (word_of_int (take_bit 5 (drop_bit 20 insn)))))"
proof -
  let ?b = "word_of_int (take_bit 5 (drop_bit 20 insn)) :: 64 word"
  have "take_bit 5 (drop_bit 20 insn) = uint ?b"
    by (simp add: uint_imm)
  then have sh: "nat (take_bit 5 (drop_bit 20 insn)) = isa_shift (ucast ?b :: 32 word)"
    by (metis shift_32 take_bit_take_bit min.idem)
  have srl: "take_bit 64 (sext (drop_bit (isa_shift (ucast ?b :: 32 word)) (take_bit 32 (uint a))) 32)
      = uint (scast (isa_alu A_SRL (ucast a :: 32 word) (ucast ?b)) :: 64 word)"
    using done32 [of "isa_alu A_SRL (ucast a) (ucast ?b)"] by (simp only: sext_take flip: int_alu_32(4))
  from assms srl show ?thesis
    by (auto simp: op_imm_32_def Let_def and_1F sh signed32_low isa_alu_w_def
        int_alu_32 done32 simp del: isa_alu.simps split: if_splits)
qed

text \<open>Branch conditions.\<close>

definition isa_branch :: "int \<Rightarrow> 64 word \<Rightarrow> 64 word \<Rightarrow> bool option" where
  "isa_branch f3 a b =
     map_of [(0, a = b), (1, a \<noteq> b), (4, sint a < sint b), (5, sint b \<le> sint a), (6, a < b), (7, b \<le> a)] f3"

lemma branch_isa: "isa_branch f3 a b = Some t \<Longrightarrow> branch_taken f3 (uint a) (uint b) pc = Inr t"
  by (auto simp: isa_branch_def branch_taken_def Let_def sext_64 word_less_def word_le_def word_uint_eq_iff
      split: if_splits)

end
