(* ===== verification/Rv_Decode.thy ===== *)
theory Rv_Decode
  imports Rv_Isa
begin

text \<open>
  The RV64IMC instruction set as an abstract machine: instructions as a datatype, what each
  does to the registers and memory, and the decoders for 32-bit and 16-bit encodings. The
  interpreter is shown to implement it. Reserved encodings decode to nothing.
\<close>

section \<open>Instructions and their effect\<close>

datatype instr =
  I_LUI int int
| I_AUIPC int int
| I_JAL int int
| I_JALR int int int
| I_BRANCH int int int int
| I_LOAD int int int int
| I_STORE int int int int
| I_OPI alu_op int int int
| I_OPIW alu_op int int int
| I_OP alu_op int int int
| I_OPW alu_op int int int
| I_FENCE

definition wreg :: "rv \<Rightarrow> int \<Rightarrow> 64 word" where
  "wreg s r = word_of_int (xreg s r)"

definition set_to :: "int \<Rightarrow> 64 word \<Rightarrow> int \<Rightarrow> rv \<Rightarrow> writeback \<times> rv" where
  "set_to rd v np s = ((Some rd, Some (uint v), np), s)"

text \<open>\<open>len\<close> is the length of the encoding in bytes.\<close>

fun isa_exec :: "instr \<Rightarrow> int \<Rightarrow> rv \<Rightarrow> int \<Rightarrow> (writeback \<times> rv) option" where
  "isa_exec (I_LUI rd imm) len s pc = Some (set_to rd (word_of_int imm) (take_bit 64 (pc + len)) s)"
| "isa_exec (I_AUIPC rd imm) len s pc =
     Some (set_to rd (word_of_int (pc + imm)) (take_bit 64 (pc + len)) s)"
| "isa_exec (I_JAL rd off) len s pc =
     Some (set_to rd (word_of_int (pc + len)) (take_bit 64 (pc + off)) s)"
| "isa_exec (I_JALR rd rs1 imm) len s pc =
     Some (set_to rd (word_of_int (pc + len)) (uint ((wreg s rs1 + word_of_int imm) AND NOT 1)) s)"
| "isa_exec (I_BRANCH f3 rs1 rs2 off) len s pc =
     map_option (\<lambda>taken. ((None, None, take_bit 64 (if taken then pc + off else pc + len)), s))
       (isa_branch f3 (wreg s rs1) (wreg s rs2))"
| "isa_exec (I_LOAD f3 rd rs1 imm) len s pc =
     map_option (\<lambda>(n, sx). case rv_load (uint (wreg s rs1 + word_of_int imm)) n sx s of
         (v, s') \<Rightarrow> set_to rd (word_of_int v) (take_bit 64 (pc + len)) s')
       (load_size f3)"
| "isa_exec (I_STORE f3 rs1 rs2 imm) len s pc =
     map_option (\<lambda>n. ((None, None, take_bit 64 (pc + len)),
           rv_store (uint (wreg s rs1 + word_of_int imm)) n (uint (wreg s rs2)) s))
       (store_size f3)"
| "isa_exec (I_OPI op rd rs1 imm) len s pc =
     Some (set_to rd (isa_alu op (wreg s rs1) (word_of_int imm)) (take_bit 64 (pc + len)) s)"
| "isa_exec (I_OPIW op rd rs1 imm) len s pc =
     Some (set_to rd (isa_alu_w op (wreg s rs1) (word_of_int imm)) (take_bit 64 (pc + len)) s)"
| "isa_exec (I_OP op rd rs1 rs2) len s pc =
     Some (set_to rd (isa_alu op (wreg s rs1) (wreg s rs2)) (take_bit 64 (pc + len)) s)"
| "isa_exec (I_OPW op rd rs1 rs2) len s pc =
     Some (set_to rd (isa_alu_w op (wreg s rs1) (wreg s rs2)) (take_bit 64 (pc + len)) s)"
| "isa_exec I_FENCE len s pc = Some ((None, None, take_bit 64 (pc + len)), s)"

section \<open>32-bit encodings\<close>

definition decode32 :: "int \<Rightarrow> instr option" where
  "decode32 insn =
     (let opcode = f_opcode insn; rd = f_rd insn; f3 = f_funct3 insn; rs1 = f_rs1 insn;
          rs2 = f_rs2 insn; f7 = f_funct7 insn in
      if opcode = 0x37 then Some (I_LUI rd (imm_u insn))
      else if opcode = 0x17 then Some (I_AUIPC rd (imm_u insn))
      else if opcode = 0x6F then Some (I_JAL rd (imm_j insn))
      else if opcode = 0x67 then (if f3 = 0 then Some (I_JALR rd rs1 (imm_i insn)) else None)
      else if opcode = 0x63 then
        (if f3 \<in> {0, 1, 4, 5, 6, 7} then Some (I_BRANCH f3 rs1 rs2 (imm_b insn)) else None)
      else if opcode = 0x03 then
        (if f3 < 7 then Some (I_LOAD f3 rd rs1 (imm_i insn)) else None)
      else if opcode = 0x23 then
        (if f3 < 4 then Some (I_STORE f3 rs1 rs2 (imm_s insn)) else None)
      else if opcode = 0x13 then
        (case imm_op f3 of
           Some op \<Rightarrow> Some (I_OPI op rd rs1 (imm_i insn))
         | None \<Rightarrow> map_option (\<lambda>op. I_OPI op rd rs1 (take_bit 6 (drop_bit 20 insn)))
                     (shift_op f3 (drop_bit 1 f7)))
      else if opcode = 0x1B then
        (if f3 = 0 then Some (I_OPIW A_ADD rd rs1 (imm_i insn))
         else map_option (\<lambda>op. I_OPIW op rd rs1 (take_bit 5 (drop_bit 20 insn)))
                (map_of [((1, 0), A_SLL), ((5, 0), A_SRL), ((5, 32), A_SRA)] (f3, f7)))
      else if opcode = 0x33 then map_option (\<lambda>op. I_OP op rd rs1 rs2) (map_of op_table (f7, f3))
      else if opcode = 0x3B then map_option (\<lambda>op. I_OPW op rd rs1 rs2) (map_of op_w_table (f7, f3))
      else if opcode = 0x0F then Some I_FENCE
      else None)"

section \<open>16-bit encodings\<close>

definition decode_c1_alu :: "int \<Rightarrow> instr option" where
  "decode_c1_alu insn =
     (let f2 = drop_bit 10 insn AND 3; sub = drop_bit 5 insn AND 3;
          rd = 8 + (drop_bit 7 insn AND 7); rs2 = 8 + (drop_bit 2 insn AND 7) in
      if f2 = 0 then Some (I_OPI A_SRL rd rd (int (c_shamt insn)))
      else if f2 = 1 then Some (I_OPI A_SRA rd rd (int (c_shamt insn)))
      else if f2 = 2 then Some (I_OPI A_AND rd rd (c_imm6 insn))
      else if ibit insn 12 = 0 then
        Some (I_OP (if sub = 0 then A_SUB else if sub = 1 then A_XOR else if sub = 2 then A_OR else A_AND) rd rd rs2)
      else if sub = 0 then Some (I_OPW A_SUB rd rd rs2)
      else if sub = 1 then Some (I_OPW A_ADD rd rd rs2)
      else None)"

definition decode16 :: "int \<Rightarrow> instr option" where
  "decode16 insn =
     (let quadrant = insn AND 3; f3 = drop_bit 13 insn AND 7; rd = drop_bit 7 insn AND 0x1F;
          rs2 = drop_bit 2 insn AND 0x1F; rs2' = 8 + (drop_bit 2 insn AND 7);
          rs1' = 8 + (drop_bit 7 insn AND 7) in
      if quadrant = 0 then
        (if f3 = 0 \<and> c_addi4spn_imm insn \<noteq> 0 then Some (I_OPI A_ADD rs2' 2 (c_addi4spn_imm insn))
         else if f3 = 2 then Some (I_LOAD 2 rs2' rs1' (c_lw_imm insn))
         else if f3 = 3 then Some (I_LOAD 3 rs2' rs1' (c_ld_imm insn))
         else if f3 = 6 then Some (I_STORE 2 rs1' rs2' (c_lw_imm insn))
         else if f3 = 7 then Some (I_STORE 3 rs1' rs2' (c_ld_imm insn))
         else None)
      else if quadrant = 1 then
        (if f3 = 0 then Some (I_OPI A_ADD rd rd (c_imm6 insn))
         else if f3 = 1 \<and> rd \<noteq> 0 then Some (I_OPIW A_ADD rd rd (c_imm6 insn))
         else if f3 = 2 then Some (I_OPI A_ADD rd 0 (c_imm6 insn))
         else if f3 = 3 \<and> rd = 2 \<and> c_addi16sp_imm insn \<noteq> 0 then
           Some (I_OPI A_ADD 2 2 (sext (c_addi16sp_imm insn) 10))
         else if f3 = 3 \<and> rd \<noteq> 2 \<and> c_imm6 insn \<noteq> 0 then Some (I_LUI rd (push_bit 12 (c_imm6 insn)))
         else if f3 = 4 then decode_c1_alu insn
         else if f3 = 5 then Some (I_JAL 0 (c_j_imm insn))
         else if f3 = 6 then Some (I_BRANCH 0 rs1' 0 (c_b_imm insn))
         else if f3 = 7 then Some (I_BRANCH 1 rs1' 0 (c_b_imm insn))
         else None)
      else if quadrant = 2 then
        (if f3 = 0 then Some (I_OPI A_SLL rd rd (int (c_shamt insn)))
         else if f3 = 2 \<and> rd \<noteq> 0 then Some (I_LOAD 2 rd 2 (c_lwsp_imm insn))
         else if f3 = 3 \<and> rd \<noteq> 0 then Some (I_LOAD 3 rd 2 (c_ldsp_imm insn))
         else if f3 = 4 \<and> rs2 \<noteq> 0 then
           Some (I_OP A_ADD rd (if ibit insn 12 \<noteq> 0 then rd else 0) rs2)
         else if f3 = 4 \<and> rd \<noteq> 0 then Some (I_JALR (if ibit insn 12 \<noteq> 0 then 1 else 0) rd 0)
         else if f3 = 6 then Some (I_STORE 2 2 rs2 (c_swsp_imm insn))
         else if f3 = 7 then Some (I_STORE 3 2 rs2 (c_sdsp_imm insn))
         else None)
      else None)"

section \<open>The interpreter implements them\<close>

text \<open>The architectural effect of an outcome: after the register write.\<close>

definition effect :: "writeback \<times> rv \<Rightarrow> int option \<times> int option \<times> rv" where
  "effect = (\<lambda>(wb, s). write_back wb s)"

definition effect_of :: "rv_err + writeback \<times> rv \<Rightarrow> (int option \<times> int option \<times> rv) option" where
  "effect_of r = (case r of Inl _ \<Rightarrow> None | Inr q \<Rightarrow> Some (effect q))"

lemma effect_of_Inr [simp]: "effect_of (Inr q) = Some (effect q)"
  by (simp add: effect_of_def)

lemma effect_value: "effect ((Some rd, Some v, np), s) = effect (set_to rd (word_of_int v) np s)"
  by (simp add: effect_def set_to_def write_back_def Let_def uint_word_of_int_eq take_bit_take_bit)

lemma effect_uint: "effect ((Some rd, Some (uint w), np), s) = effect (set_to rd w np s)"
  by (simp add: set_to_def)

lemma xreg_uint: "rv_ok s \<Longrightarrow> 0 \<le> r \<Longrightarrow> r < 32 \<Longrightarrow> xreg s r = uint (wreg s r)"
  by (auto simp: rv_ok_def wreg_def uint_word_of_int_eq list_all_length in_word_def
      intro!: take_bit_int_eq_self [symmetric])

lemma address: "take_bit 64 (uint w + imm) = uint (w + word_of_int imm)" for w :: "64 word"
  by (simp add: uint_word_ariths uint_word_of_int_eq take_bit_eq_mod mod_simps)

lemma clear_bit_0: "uint w AND NOT 1 = uint (w AND NOT 1)" for w :: "64 word"
proof (rule bit_eqI)
  fix n
  have "bit (uint w AND NOT 1) n \<longleftrightarrow> (n < 64 \<and> bit w n) \<and> n \<noteq> 0"
    by (simp only: bit_and_iff bit_not_iff_eq bit_1_iff bit_uint_iff possible_bit_int) simp
  moreover have "bit (uint (w AND NOT 1)) n \<longleftrightarrow> n < 64 \<and> bit w n \<and> n \<noteq> 0"
    by (simp only: bit_and_iff bit_not_iff bit_1_iff bit_uint_iff possible_bit_word) auto
  ultimately show "bit (uint w AND NOT 1) n = bit (uint (w AND NOT 1)) n" by simp
qed

lemma word_of_take [simp]: "word_of_int (take_bit 64 v) = (word_of_int v :: 64 word)"
  by (simp add: of_int_eq_iff word_uint_eq_iff uint_word_of_int_eq)

lemma fields: "0 \<le> f_rd i \<and> f_rd i < 32" "0 \<le> f_rs1 i \<and> f_rs1 i < 32" "0 \<le> f_rs2 i \<and> f_rs2 i < 32"
  "0 \<le> f_funct3 i \<and> f_funct3 i < 8"
  using field5 field3 by (simp_all add: f_rd_def f_rs1_def f_rs2_def f_funct3_def)

lemma if_cases: "(if b then x else y) = z \<Longrightarrow> (b \<Longrightarrow> x = z \<Longrightarrow> P) \<Longrightarrow> (\<not> b \<Longrightarrow> y = z \<Longrightarrow> P) \<Longrightarrow> P"
  by (simp split: if_split_asm)

lemma load_size_less: "0 \<le> f3 \<Longrightarrow> f3 < 7 \<Longrightarrow> \<exists>n sx. load_size f3 = Some (n, sx)"
proof -
  assume "0 \<le> f3" "f3 < 7"
  then have "f3 \<in> {0, 1, 2, 3, 4, 5, 6}" by auto
  then show ?thesis by (auto simp: load_size_def)
qed

lemma store_size_less: "0 \<le> f3 \<Longrightarrow> f3 < 4 \<Longrightarrow> \<exists>n. store_size f3 = Some n"
proof -
  assume "0 \<le> f3" "f3 < 4"
  then have "f3 \<in> {0, 1, 2, 3}" by auto
  then show ?thesis by (auto simp: store_size_def)
qed

lemma branch_some: "f3 \<in> {0, 1, 4, 5, 6, 7} \<Longrightarrow> \<exists>t. isa_branch f3 a b = Some t"
  by (auto simp: isa_branch_def)

definition implements :: "rv_err + writeback \<times> rv \<Rightarrow> (writeback \<times> rv) option \<Rightarrow> bool" where
  "implements r q \<longleftrightarrow> (\<exists>p. q = Some p \<and> effect_of r = Some (effect p))"

lemma implements_set: "implements (Inr ((Some rd, Some v, np), s)) (Some (set_to rd w np s)) \<longleftrightarrow>
    effect (set_to rd (word_of_int v) np s) = effect (set_to rd w np s)"
  by (simp add: implements_def effect_value)

lemma implements_same: "implements (Inr p) (Some p)"
  by (simp add: implements_def)

lemma implements_wb: "implements (wb_value rd np s (Inr (uint w))) (Some (set_to rd w np s))"
  by (simp add: implements_def wb_value_def effect_uint)

lemma load_implements:
  assumes "rv_ok s" and "0 \<le> rs1" "rs1 < 32" and "0 \<le> f3" "f3 < 7"
  shows "implements (load_instr s insn f3 rd rs1 pc) (isa_exec (I_LOAD f3 rd rs1 (imm_i insn)) 4 s pc)"
proof -
  obtain n sx where f: "load_size f3 = Some (n, sx)" using load_size_less assms(4,5) by blast
  have a: "take_bit 64 (xreg s rs1 + imm_i insn) = uint (wreg s rs1 + word_of_int (imm_i insn))"
    using xreg_uint [OF assms(1-3)] address by simp
  show ?thesis
    by (cases "rv_load (uint (wreg s rs1 + word_of_int (imm_i insn))) n sx s")
      (simp add: load_instr_def f a implements_set)
qed

lemma store_implements:
  assumes "rv_ok s" and "0 \<le> rs1" "rs1 < 32" "0 \<le> rs2" "rs2 < 32" and "0 \<le> f3" "f3 < 4"
  shows "implements (res_bind (exec_store s f3 insn rs1 rs2) (\<lambda>s. Inr ((None, None, take_bit 64 (pc + 4)), s)))
    (isa_exec (I_STORE f3 rs1 rs2 (imm_s insn)) 4 s pc)"
proof -
  obtain n where f: "store_size f3 = Some n" using store_size_less assms(6,7) by blast
  have a: "take_bit 64 (xreg s rs1 + imm_s insn) = uint (wreg s rs1 + word_of_int (imm_s insn))"
    using xreg_uint [OF assms(1-3)] address by simp
  show ?thesis
    using xreg_uint [OF assms(1,4,5)] by (simp add: exec_store_def f a implements_def)
qed

lemma branch_implements:
  assumes "rv_ok s" and "0 \<le> rs1" "rs1 < 32" "0 \<le> rs2" "rs2 < 32" and "f3 \<in> {0, 1, 4, 5, 6, 7}"
  shows "implements (res_bind (branch_taken f3 (xreg s rs1) (xreg s rs2) pc) (\<lambda>taken.
          Inr ((None, None, if taken then take_bit 64 (pc + off) else take_bit 64 (pc + len)), s)))
    (isa_exec (I_BRANCH f3 rs1 rs2 off) len s pc)"
proof -
  obtain t where "isa_branch f3 (wreg s rs1) (wreg s rs2) = Some t" using branch_some [OF assms(6)] by blast
  with branch_isa [OF this, of pc] show ?thesis
    using xreg_uint [OF assms(1-3)] xreg_uint [OF assms(1,4,5)] by (simp add: implements_def)
qed

lemma exec_32_implements:
  assumes ok: "rv_ok s" and "decode32 insn = Some i"
  shows "implements (exec_32 s insn pc) (isa_exec i 4 s pc)"
proof -
  note fl = fields [of insn]
  note r1 = xreg_uint [OF ok, of "f_rs1 insn"] and r2 = xreg_uint [OF ok, of "f_rs2 insn"]
  have op: "implements (wb_value rd np s r) (Some (set_to rd w np s))" if "r = Inr (uint w)" for rd np r w
    unfolding that by (rule implements_wb)
  from assms(2) show ?thesis
    unfolding decode32_def Let_def
  proof (elim if_cases)
    assume o: "f_opcode insn = 0x67" and f3: "f_funct3 insn = 0"
      and i: "Some (I_JALR (f_rd insn) (f_rs1 insn) (imm_i insn)) = Some i"
    have a: "take_bit 64 (xreg s (f_rs1 insn) + imm_i insn) AND NOT 1
        = uint ((wreg s (f_rs1 insn) + word_of_int (imm_i insn)) AND NOT 1)"
      using r1 fl address clear_bit_0 by simp
    have "exec_32 s insn pc = Inr ((Some (f_rd insn), Some (take_bit 64 (pc + 4)),
        take_bit 64 (xreg s (f_rs1 insn) + imm_i insn) AND NOT 1), s)"
      unfolding exec_32_def Let_def by (simp only: o f3 and_MASK64) simp
    then show ?thesis using i a by (auto simp only: isa_exec.simps option.inject implements_set word_of_take)
  next
    assume o: "f_opcode insn = 0x13" and i: "(case imm_op (f_funct3 insn) of
         Some op \<Rightarrow> Some (I_OPI op (f_rd insn) (f_rs1 insn) (imm_i insn))
       | None \<Rightarrow> map_option (\<lambda>op. I_OPI op (f_rd insn) (f_rs1 insn) (take_bit 6 (drop_bit 20 insn)))
                   (shift_op (f_funct3 insn) (drop_bit 1 (f_funct7 insn)))) = Some i"
    have e: "exec_32 s insn pc = wb_value (f_rd insn) (take_bit 64 (pc + 4)) s
        (op_imm s insn (f_funct3 insn) (f_funct7 insn) (f_rs1 insn) pc)"
      by (simp add: exec_32_def Let_def o)
    show ?thesis
      using i r1 fl op_imm_isa op_imm_shift_isa unfolding e
      by (auto split: option.splits intro!: op)
  next
    assume o: "f_opcode insn = 0x63" and f: "f_funct3 insn \<in> {0, 1, 4, 5, 6, 7}"
      and i: "Some (I_BRANCH (f_funct3 insn) (f_rs1 insn) (f_rs2 insn) (imm_b insn)) = Some i"
    have "exec_32 s insn pc = res_bind (branch_taken (f_funct3 insn) (xreg s (f_rs1 insn)) (xreg s (f_rs2 insn)) pc)
        (\<lambda>taken. Inr ((None, None, if taken then take_bit 64 (pc + imm_b insn) else take_bit 64 (pc + 4)), s))"
      unfolding exec_32_def Let_def and_MASK64 by (simp only: o) simp
    with branch_implements [OF ok _ _ _ _ f] fl i show ?thesis by auto
  next
    assume o: "f_opcode insn = 0x03" and f: "f_funct3 insn < 7"
      and i: "Some (I_LOAD (f_funct3 insn) (f_rd insn) (f_rs1 insn) (imm_i insn)) = Some i"
    have "exec_32 s insn pc = load_instr s insn (f_funct3 insn) (f_rd insn) (f_rs1 insn) pc"
      by (simp add: exec_32_def Let_def o)
    with load_implements [OF ok _ _ _ f] fl i show ?thesis by auto
  next
    assume o: "f_opcode insn = 0x23" and f: "f_funct3 insn < 4"
      and i: "Some (I_STORE (f_funct3 insn) (f_rs1 insn) (f_rs2 insn) (imm_s insn)) = Some i"
    have "exec_32 s insn pc = res_bind (exec_store s (f_funct3 insn) insn (f_rs1 insn) (f_rs2 insn))
        (\<lambda>s. Inr ((None, None, take_bit 64 (pc + 4)), s))"
      by (simp add: exec_32_def Let_def o)
    with store_implements [OF ok _ _ _ _ _ f] fl i show ?thesis by auto
  next
    assume o: "f_opcode insn = 0x1B" and f: "f_funct3 insn = 0"
      and i: "Some (I_OPIW A_ADD (f_rd insn) (f_rs1 insn) (imm_i insn)) = Some i"
    have e: "exec_32 s insn pc = wb_value (f_rd insn) (take_bit 64 (pc + 4)) s
        (op_imm_32 s insn 0 (f_funct7 insn) (f_rs1 insn) pc)"
      by (simp add: exec_32_def Let_def o f)
    show ?thesis using i r1 fl op_imm_32_isa unfolding e by (auto intro!: op)
  next
    assume o: "f_opcode insn = 0x1B" and i: "map_option
          (\<lambda>op. I_OPIW op (f_rd insn) (f_rs1 insn) (take_bit 5 (drop_bit 20 insn)))
          (map_of [((1, 0), A_SLL), ((5, 0), A_SRL), ((5, 32), A_SRA)] (f_funct3 insn, f_funct7 insn)) = Some i"
    have e: "exec_32 s insn pc = wb_value (f_rd insn) (take_bit 64 (pc + 4)) s
        (op_imm_32 s insn (f_funct3 insn) (f_funct7 insn) (f_rs1 insn) pc)"
      by (simp add: exec_32_def Let_def o)
    from i obtain q where q: "map_of [((1, 0), A_SLL), ((5, 0), A_SRL), ((5, 32), A_SRA)] (f_funct3 insn, f_funct7 insn) = Some q"
      and i': "i = I_OPIW q (f_rd insn) (f_rs1 insn) (take_bit 5 (drop_bit 20 insn))" by blast
    have "op_imm_32 s insn (f_funct3 insn) (f_funct7 insn) (f_rs1 insn) pc
        = Inr (uint (isa_alu_w q (wreg s (f_rs1 insn)) (word_of_int (take_bit 5 (drop_bit 20 insn)))))"
      using op_imm_32_shift_isa [OF _ q] r1 fl by blast
    then show ?thesis unfolding e i' isa_exec.simps by (rule op)
  next
    assume o: "f_opcode insn = 0x33"
      and i: "map_option (\<lambda>op. I_OP op (f_rd insn) (f_rs1 insn) (f_rs2 insn))
        (map_of op_table (f_funct7 insn, f_funct3 insn)) = Some i"
    have e: "exec_32 s insn pc = wb_value (f_rd insn) (take_bit 64 (pc + 4)) s
        (op_rr s (f_funct3 insn) (f_funct7 insn) (f_rs1 insn) (f_rs2 insn) pc)"
      by (simp add: exec_32_def Let_def o)
    show ?thesis using i r1 r2 fl op_rr_isa unfolding e by (auto intro!: op)
  next
    assume o: "f_opcode insn = 0x3B"
      and i: "map_option (\<lambda>op. I_OPW op (f_rd insn) (f_rs1 insn) (f_rs2 insn))
        (map_of op_w_table (f_funct7 insn, f_funct3 insn)) = Some i"
    have e: "exec_32 s insn pc = wb_value (f_rd insn) (take_bit 64 (pc + 4)) s
        (op_rr_32 s (f_funct3 insn) (f_funct7 insn) (f_rs1 insn) (f_rs2 insn) pc)"
      by (simp add: exec_32_def Let_def o)
    show ?thesis using i r1 r2 fl op_rr_32_isa unfolding e by (auto intro!: op)
  qed (use fl r1 r2 in \<open>auto simp: exec_32_def Let_def implements_set implements_same\<close>)
qed

end
