(* ===== verification/Rv_Compressed.thy ===== *)
theory Rv_Compressed
  imports Rv_Decode
begin

text \<open>
  The compressed instructions: each 16-bit encoding has the effect of the instruction it
  stands for, except that c.jr and c.jalr keep bit 0 of the jump target.
\<close>

lemma x0_zero: "rv_ok s \<Longrightarrow> xreg s 0 = 0" "rv_ok s \<Longrightarrow> wreg s 0 = 0"
  by (simp_all add: rv_ok_def wreg_def)

lemma fields16: "0 \<le> 8 + (i AND 7) \<and> 8 + (i AND 7) < (32 :: int)" "0 \<le> i AND 0x1F \<and> i AND 0x1F < (32 :: int)"
  using field3 [of i] field5 [of i] by auto

lemma addiw_int:
  "take_bit 64 (sext (take_bit 32 (uint a + imm)) 32) = uint (isa_alu_w A_ADD a (word_of_int imm))" for a :: "64 word"
proof -
  let ?b = "word_of_int imm :: 64 word"
  have "take_bit 32 (uint a + imm) = take_bit 32 (uint a + uint ?b)"
    using take_bit_add [of 32 "uint a" "uint ?b"] take_bit_add [of 32 "uint a" imm]
    by (simp add: uint_imm)
  then show ?thesis by (simp add: isa_alu_w_def int_alu_32 done32 del: isa_alu.simps)
qed

lemma shamt_less: "c_shamt insn < 64"
proof -
  have a: "0 \<le> ibit insn 12 \<and> ibit insn 12 < 2 ^ 1"
    using take_bit_nonnegative [of 1 "drop_bit 12 insn"] take_bit_int_less_exp [of 1 "drop_bit 12 insn"]
    by (simp add: ibit_def and_one_eq flip: take_bit_eq_mod)
  have "take_bit 6 (push_bit 5 (ibit insn 12) OR (drop_bit 2 insn AND 0x1F))
      = push_bit 5 (ibit insn 12) OR (drop_bit 2 insn AND 0x1F)"
  proof -
    have "take_bit 1 (ibit insn 12) = ibit insn 12" using a by (intro take_bit_int_eq_self) simp_all
    then show ?thesis by (simp add: take_bit_or take_bit_push_bit and_1F)
  qed
  then have "push_bit 5 (ibit insn 12) OR (drop_bit 2 insn AND 0x1F) < 2 ^ 6"
    by (metis take_bit_int_less_exp)
  then show ?thesis by (simp add: c_shamt_def nat_less_iff)
qed

lemma isa_shift_int: "k < 64 \<Longrightarrow> isa_shift (word_of_int (int k) :: 64 word) = k"
proof -
  assume "k < 64"
  then have "take_bit 64 (int k) = int k" by (intro take_bit_int_eq_self) simp_all
  then have "uint (word_of_int (int k) :: 64 word) = int k" by (simp only: uint_word_of_int_eq) simp
  with \<open>k < 64\<close> show ?thesis by (simp only: isa_shift_def) simp
qed

lemma shift_int:
  fixes a :: "64 word"
  assumes "k < 64"
  shows "take_bit 64 (push_bit k (uint a)) = uint (isa_alu A_SLL a (word_of_int (int k)))"
    and "drop_bit k (uint a) = uint (isa_alu A_SRL a (word_of_int (int k)))"
    and "take_bit 64 (drop_bit k (sint a)) = uint (isa_alu A_SRA a (word_of_int (int k)))"
  using int_alu_64(3,7,8) [of "word_of_int (int k)" a] isa_shift_int [OF assms]
  by simp_all

lemma implements_uint: "implements (Inr ((Some rd, Some (uint w), np), s)) (Some (set_to rd w np s))"
  by (simp add: implements_def effect_uint)

lemma implements_uintI: "v = uint w \<Longrightarrow> implements (Inr ((Some rd, Some v, np), s)) (Some (set_to rd w np s))"
  by (simp add: implements_uint)

lemma implements_valueI:
  "word_of_int v = w \<Longrightarrow> implements (Inr ((Some rd, Some v, np), s)) (Some (set_to rd w np s))"
  by (auto simp: implements_set)

lemma implements_jump: "implements (Inr ((None, None, np), s)) (Some (set_to 0 w np s))"
  by (simp add: implements_def effect_def set_to_def write_back_def Let_def)

lemma load_c:
  assumes "rv_ok s" and "0 \<le> r" "r < 32" and "load_size f3 = Some (n, sx)"
  shows "implements (case rv_load (take_bit 64 (xreg s r + imm)) n sx s of
            (v, s') \<Rightarrow> Inr ((Some rd, Some v, take_bit 64 (pc + 2)), s'))
    (isa_exec (I_LOAD f3 rd r imm) 2 s pc)"
  using xreg_uint [OF assms(1-3)] assms(4) address [of "wreg s r" imm]
  by (auto simp: implements_set split: prod.splits)

lemma store_c:
  assumes "rv_ok s" and "0 \<le> r" "r < 32" "0 \<le> r2" "r2 < 32" and "store_size f3 = Some n"
  shows "implements (Inr ((None, None, take_bit 64 (pc + 2)), rv_store (take_bit 64 (xreg s r + imm)) n (xreg s r2) s))
    (isa_exec (I_STORE f3 r r2 imm) 2 s pc)"
  using xreg_uint [OF assms(1-3)] xreg_uint [OF assms(1,4,5)] assms(6) address [of "wreg s r" imm]
  by (simp add: implements_same)

lemma sizes: "load_size 2 = Some (4, True)" "load_size 3 = Some (8, False)" "store_size 2 = Some 4" "store_size 3 = Some 8"
  by (simp_all add: load_size_def store_size_def)

lemma add_c:
  assumes "rv_ok s" and "0 \<le> r" "r < 32"
  shows "implements (Inr ((Some rd, Some (take_bit 64 (xreg s r + imm)), np), s))
     (Some (set_to rd (wreg s r + word_of_int imm) np s))"
  using xreg_uint [OF assms] by (intro implements_uintI) (simp add: address)

lemma quadrant_0:
  assumes ok: "rv_ok s" and r: "0 \<le> a" "a < 32" "0 \<le> b" "b < 32"
    and i: "(if f3 = 0 \<and> c_addi4spn_imm insn \<noteq> 0 then Some (I_OPI A_ADD a 2 (c_addi4spn_imm insn))
         else if f3 = 2 then Some (I_LOAD 2 a b (c_lw_imm insn))
         else if f3 = 3 then Some (I_LOAD 3 a b (c_ld_imm insn))
         else if f3 = 6 then Some (I_STORE 2 b a (c_lw_imm insn))
         else if f3 = 7 then Some (I_STORE 3 b a (c_ld_imm insn)) else None) = Some i"
  shows "implements (exec_c0 s insn f3 a b pc) (isa_exec i 2 s pc)"
  using i load_c [OF ok r(3,4) sizes(1)] load_c [OF ok r(3,4) sizes(2)]
    store_c [OF ok r(3,4,1,2) sizes(3)] store_c [OF ok r(3,4,1,2) sizes(4)] add_c [OF ok, of 2]
  by (elim if_cases) (auto simp: exec_c0_def Let_def simp del: isa_exec.simps(6,7))

lemma quadrant_1_alu:
  assumes ok: "rv_ok s" and i: "decode_c1_alu insn = Some i"
  shows "implements (exec_c1_alu s insn (8 + (drop_bit 7 insn AND 7)) (c_imm6 insn) pc) (isa_exec i 2 s pc)"
proof -
  let ?r = "8 + (drop_bit 7 insn AND 7)" and ?r2 = "8 + (drop_bit 2 insn AND 7)"
  have a: "xreg s ?r = uint (wreg s ?r)" and b: "xreg s ?r2 = uint (wreg s ?r2)"
    using xreg_uint [OF ok] fields16 by blast+
  note sh = shift_int [OF shamt_less]
  have "uint w AND take_bit 64 (c_imm6 insn) = uint (isa_alu A_AND w (word_of_int (c_imm6 insn)))" for w :: "64 word"
    using int_alu_64(10) [of w "word_of_int (c_imm6 insn)"] by (simp add: uint_imm)
  with i show ?thesis
    unfolding decode_c1_alu_def exec_c1_alu_def Let_def a b sext_64
    by (elim if_cases)
      (auto intro!: implements_uintI simp: sh int_alu_64 int_alu_32 done32 isa_alu_w_def simp del: isa_alu.simps)
qed

lemma li_c: "rv_ok s \<Longrightarrow> implements (Inr ((Some rd, Some (take_bit 64 imm), np), s))
     (Some (set_to rd (isa_alu A_ADD (wreg s 0) (word_of_int imm)) np s))"
  by (simp add: implements_set x0_zero)

lemma branch_zero:
  assumes ok: "rv_ok s" and r: "0 \<le> r" "r < 32"
  shows "implements (Inr ((None, None, if xreg s r = 0 then take_bit 64 (pc + off) else take_bit 64 (pc + 2)), s))
      (isa_exec (I_BRANCH 0 r 0 off) 2 s pc)"
    and "implements (Inr ((None, None, if xreg s r \<noteq> 0 then take_bit 64 (pc + off) else take_bit 64 (pc + 2)), s))
      (isa_exec (I_BRANCH 1 r 0 off) 2 s pc)"
  using xreg_uint [OF assms] x0_zero [OF ok]
  by (simp_all add: isa_branch_def implements_def word_zero_ints)

lemma quadrant_1:
  assumes ok: "rv_ok s" and rd: "0 \<le> rd" "rd < 32" and r: "r' = 8 + (drop_bit 7 insn AND 7)"
    and i: "(if f3 = 0 then Some (I_OPI A_ADD rd rd (c_imm6 insn))
         else if f3 = 1 \<and> rd \<noteq> 0 then Some (I_OPIW A_ADD rd rd (c_imm6 insn))
         else if f3 = 2 then Some (I_OPI A_ADD rd 0 (c_imm6 insn))
         else if f3 = 3 \<and> rd = 2 \<and> c_addi16sp_imm insn \<noteq> 0 then
           Some (I_OPI A_ADD 2 2 (sext (c_addi16sp_imm insn) 10))
         else if f3 = 3 \<and> rd \<noteq> 2 \<and> c_imm6 insn \<noteq> 0 then Some (I_LUI rd (push_bit 12 (c_imm6 insn)))
         else if f3 = 4 then decode_c1_alu insn
         else if f3 = 5 then Some (I_JAL 0 (c_j_imm insn))
         else if f3 = 6 then Some (I_BRANCH 0 r' 0 (c_b_imm insn))
         else if f3 = 7 then Some (I_BRANCH 1 r' 0 (c_b_imm insn)) else None) = Some i"
  shows "implements (exec_c1 s insn f3 rd (take_bit 64 (pc + 2)) pc) (isa_exec i 2 s pc)"
proof -
  have r': "0 \<le> r'" "r' < 32" using r fields16(1) [of "drop_bit 7 insn"] by simp_all
  note add = add_c [OF ok rd, of rd "c_imm6 insn"] and add2 = add_c [OF ok, of 2 2]
  have addiw: "implements (Inr ((Some rd, Some (take_bit 64 (sext (take_bit 32 (xreg s rd + c_imm6 insn)) 32)), np), s))
     (Some (set_to rd (isa_alu_w A_ADD (wreg s rd) (word_of_int (c_imm6 insn))) np s))" for np
    using xreg_uint [OF ok rd] by (intro implements_uintI) (simp add: addiw_int)
  show ?thesis
    using i add addiw add2 li_c [OF ok, of rd "c_imm6 insn"] quadrant_1_alu [OF ok, of insn i pc]
      branch_zero [OF ok r', of pc "c_b_imm insn"]
    unfolding exec_c1_def Let_def and_MASK64 and_MASK32 r [symmetric]
    by (elim if_cases) (auto simp: implements_set implements_jump simp del: isa_exec.simps(5))
qed

text \<open>A jump through a register whose value is even: clearing bit 0 changes nothing.\<close>

lemma even_target: "even (uint w) \<Longrightarrow> w AND NOT 1 = w" for w :: "64 word"
proof -
  assume e: "even (uint w)"
  have "uint w AND NOT 1 = uint w"
  proof (rule bit_eqI)
    fix n
    have "bit (uint w AND NOT 1) n \<longleftrightarrow> bit (uint w) n \<and> n \<noteq> 0"
      by (simp only: bit_and_iff bit_not_iff_eq bit_1_iff possible_bit_int) simp
    then show "bit (uint w AND NOT 1) n \<longleftrightarrow> bit (uint w) n"
      using e by (cases n) (simp_all add: bit_0)
  qed
  then show ?thesis using clear_bit_0 [of w] by (simp add: word_uint_eq_iff)
qed

lemma quadrant_2:
  assumes ok: "rv_ok s" and rd: "0 \<le> rd" "rd < 32" and r2: "0 \<le> rs2" "rs2 < 32"
    and i: "(if f3 = 0 then Some (I_OPI A_SLL rd rd (int (c_shamt insn)))
         else if f3 = 2 \<and> rd \<noteq> 0 then Some (I_LOAD 2 rd 2 (c_lwsp_imm insn))
         else if f3 = 3 \<and> rd \<noteq> 0 then Some (I_LOAD 3 rd 2 (c_ldsp_imm insn))
         else if f3 = 4 \<and> rs2 \<noteq> 0 then
           Some (I_OP A_ADD rd (if ibit insn 12 \<noteq> 0 then rd else 0) rs2)
         else if f3 = 4 \<and> rd \<noteq> 0 then Some (I_JALR (if ibit insn 12 \<noteq> 0 then 1 else 0) rd 0)
         else if f3 = 6 then Some (I_STORE 2 2 rs2 (c_swsp_imm insn))
         else if f3 = 7 then Some (I_STORE 3 2 rs2 (c_sdsp_imm insn)) else None) = Some i"
    and even: "\<And>d r imm. i = I_JALR d r imm \<Longrightarrow> even (xreg s r)"
  shows "implements (exec_c2 s insn f3 rd rs2 (take_bit 64 (pc + 2)) pc) (isa_exec i 2 s pc)"
proof -
  note a = xreg_uint [OF ok rd] and b = xreg_uint [OF ok r2]
  have two: "0 \<le> (2 :: int)" "(2 :: int) < 32" by simp_all
  have sll: "implements (Inr ((Some rd, Some (take_bit 64 (push_bit (c_shamt insn) (xreg s rd))), np), s))
     (Some (set_to rd (isa_alu A_SLL (wreg s rd) (word_of_int (int (c_shamt insn)))) np s))" for np
    using a shift_int(1) [OF shamt_less] by (intro implements_uintI) simp
  have jr: "implements (Inr ((None, None, take_bit 64 (xreg s rd)), s)) (isa_exec (I_JALR 0 rd 0) 2 s pc)"
    "implements (Inr ((Some 1, Some (take_bit 64 (pc + 2)), take_bit 64 (xreg s rd)), s)) (isa_exec (I_JALR 1 rd 0) 2 s pc)"
    if "even (xreg s rd)"
  proof -
    have "wreg s rd AND NOT 1 = wreg s rd" using that a even_target by simp
    then show "implements (Inr ((None, None, take_bit 64 (xreg s rd)), s)) (isa_exec (I_JALR 0 rd 0) 2 s pc)"
      "implements (Inr ((Some 1, Some (take_bit 64 (pc + 2)), take_bit 64 (xreg s rd)), s)) (isa_exec (I_JALR 1 rd 0) 2 s pc)"
      using a by (simp_all only: isa_exec.simps, simp_all add: implements_jump implements_set take_uint_64)
  qed
  show ?thesis
    using i sll load_c [OF ok two sizes(1)] load_c [OF ok two sizes(2)]
      store_c [OF ok two r2 sizes(3)] store_c [OF ok two r2 sizes(4)] jr even a b x0_zero [OF ok]
    unfolding exec_c2_def and_MASK64
    by (elim if_cases)
      (auto simp: implements_set address simp del: isa_exec.simps(4,6,7) split: if_splits)
qed

lemma exec_compressed_implements:
  assumes ok: "rv_ok s" and i: "decode16 insn = Some i"
    and even: "\<And>d r imm. i = I_JALR d r imm \<Longrightarrow> even (xreg s r)"
  shows "implements (exec_compressed s insn pc) (isa_exec i 2 s pc)"
proof -
  let ?rd = "drop_bit 7 insn AND 0x1F" and ?rs2 = "drop_bit 2 insn AND 0x1F"
    and ?a = "8 + (drop_bit 2 insn AND 7)" and ?b = "8 + (drop_bit 7 insn AND 7)" and ?f3 = "drop_bit 13 insn AND 7"
  have rd: "0 \<le> ?rd" "?rd < 32" "0 \<le> ?rs2" "?rs2 < 32" "0 \<le> ?a" "?a < 32" "0 \<le> ?b" "?b < 32"
    using fields16 by blast+
  from i show ?thesis
    unfolding decode16_def Let_def
  proof (elim if_cases [of "insn AND 3 = 0"] if_cases [of "insn AND 3 = 1"] if_cases [of "insn AND 3 = 2"])
    assume q: "insn AND 3 = 0"
    assume i: "(if ?f3 = 0 \<and> c_addi4spn_imm insn \<noteq> 0 then Some (I_OPI A_ADD ?a 2 (c_addi4spn_imm insn))
         else if ?f3 = 2 then Some (I_LOAD 2 ?a ?b (c_lw_imm insn))
         else if ?f3 = 3 then Some (I_LOAD 3 ?a ?b (c_ld_imm insn))
         else if ?f3 = 6 then Some (I_STORE 2 ?b ?a (c_lw_imm insn))
         else if ?f3 = 7 then Some (I_STORE 3 ?b ?a (c_ld_imm insn)) else None) = Some i"
    from quadrant_0 [OF ok rd(5-8) i] q show ?thesis by (simp add: exec_compressed_def Let_def)
  next
    assume q: "insn AND 3 = 1"
    assume i: "(if ?f3 = 0 then Some (I_OPI A_ADD ?rd ?rd (c_imm6 insn))
         else if ?f3 = 1 \<and> ?rd \<noteq> 0 then Some (I_OPIW A_ADD ?rd ?rd (c_imm6 insn))
         else if ?f3 = 2 then Some (I_OPI A_ADD ?rd 0 (c_imm6 insn))
         else if ?f3 = 3 \<and> ?rd = 2 \<and> c_addi16sp_imm insn \<noteq> 0 then
           Some (I_OPI A_ADD 2 2 (sext (c_addi16sp_imm insn) 10))
         else if ?f3 = 3 \<and> ?rd \<noteq> 2 \<and> c_imm6 insn \<noteq> 0 then Some (I_LUI ?rd (push_bit 12 (c_imm6 insn)))
         else if ?f3 = 4 then decode_c1_alu insn
         else if ?f3 = 5 then Some (I_JAL 0 (c_j_imm insn))
         else if ?f3 = 6 then Some (I_BRANCH 0 ?b 0 (c_b_imm insn))
         else if ?f3 = 7 then Some (I_BRANCH 1 ?b 0 (c_b_imm insn)) else None) = Some i"
    from quadrant_1 [OF ok rd(1,2) refl i] q show ?thesis by (simp add: exec_compressed_def Let_def)
  next
    assume q: "insn AND 3 = 2"
    assume i: "(if ?f3 = 0 then Some (I_OPI A_SLL ?rd ?rd (int (c_shamt insn)))
         else if ?f3 = 2 \<and> ?rd \<noteq> 0 then Some (I_LOAD 2 ?rd 2 (c_lwsp_imm insn))
         else if ?f3 = 3 \<and> ?rd \<noteq> 0 then Some (I_LOAD 3 ?rd 2 (c_ldsp_imm insn))
         else if ?f3 = 4 \<and> ?rs2 \<noteq> 0 then
           Some (I_OP A_ADD ?rd (if ibit insn 12 \<noteq> 0 then ?rd else 0) ?rs2)
         else if ?f3 = 4 \<and> ?rd \<noteq> 0 then Some (I_JALR (if ibit insn 12 \<noteq> 0 then 1 else 0) ?rd 0)
         else if ?f3 = 6 then Some (I_STORE 2 2 ?rs2 (c_swsp_imm insn))
         else if ?f3 = 7 then Some (I_STORE 3 2 ?rs2 (c_sdsp_imm insn)) else None) = Some i"
    from quadrant_2 [OF ok rd(1-4) i even] q show ?thesis by (simp add: exec_compressed_def Let_def)
  qed simp
qed

end
