(* ===== verification/Rv_Props.thy ===== *)
theory Rv_Props
  imports Rv_Compressed
begin

text \<open>
  The theorems of the example core: it refines the instruction set, keeps its invariant,
  terminates, and its commit trace determines the registers and the memory.
\<close>

section \<open>A concrete machine\<close>

text \<open>At 0x1000 \<open>addi x5, x0, 7\<close>, at 0x1004 \<open>c.sw x9, 0(x8)\<close> with x8 the mailbox address and
  x9 = 1.\<close>

definition demo_page :: "int list" where
  "demo_page = [0x93, 0x02, 0x70, 0x00, 0x04, 0xC0] @ replicate 4090 0"

definition demo_core :: "int \<Rightarrow> rv" where
  "demo_core pc =
     \<lparr>rv_x = [0, 0, 0, 0, 0, 0, 0, 0, 0x2000, 1] @ replicate 22 0, rv_pc = pc,
      rv_mem = [1 \<mapsto> demo_page], rv_cycle = 0, rv_halt = False, rv_acc = None,
      rv_tohost = 0x2000, rv_max = 8\<rparr>"

lemma demo_ok: "in_word 64 pc \<Longrightarrow> rv_ok (demo_core pc)"
proof -
  have "list_all byte_ok demo_page" "length demo_page = 4096"
    by (simp_all add: demo_page_def byte_ok_def list_all_iff)
  then have "mem_ok [1 \<mapsto> demo_page]" by (simp add: mem_ok_def PAGE_SIZE_def PAGE_BITS_def)
  moreover assume "in_word 64 pc"
  ultimately show ?thesis by (simp add: rv_ok_def demo_core_def list_all_iff in_word_def)
qed

lemma demo_addi: "is_ok (rv_step (demo_core 0x1000))"
  by code_simp

lemma demo_store: "(case rv_step (demo_core 0x1004) of Inr (c, s) \<Rightarrow> rv_halt s \<and> c_mem_wdata c = Some 1 | _ \<Rightarrow> False)"
  by code_simp

text \<open>Machines built by the constructor are well formed.\<close>

lemma rv_init_ok:
  assumes "in_word 64 entry" and "\<forall>(a, data) \<in> set segments. list_all byte_ok data"
  shows "rv_ok (rv_init entry tohost segments budget)"
proof -
  have "mem_ok m \<Longrightarrow> mem_ok (foldl (\<lambda>m (addr, data). mem_load m addr data) m segments)" for m
    using assms(2) by (induction segments arbitrary: m) (auto simp: mem_ok_load)
  with assms(1) show ?thesis
    by (simp add: rv_ok_def rv_init_def mem_ok_write list_all_iff)
qed

section \<open>Refinement of the instruction set\<close>

definition step_decode :: "rv \<Rightarrow> (instr \<times> int) option" where
  "step_decode s =
     (case fetch s of (insn, compressed) \<Rightarrow>
        if compressed then map_option (\<lambda>i. (i, 2)) (decode16 insn)
        else map_option (\<lambda>i. (i, 4)) (decode32 insn))"

lemma fetched_implements:
  assumes ok: "rv_ok s" and d: "step_decode s = Some (i, len)"
    and even: "\<forall>d r imm. i = I_JALR d r imm \<and> len = 2 \<longrightarrow> even (xreg s r)"
  shows "implements (exec_fetched s) (isa_exec i len (s\<lparr>rv_acc := None\<rparr>) (rv_pc s))"
proof -
  obtain insn c where f: "fetch s = (insn, c)" by (cases "fetch s")
  have ok': "rv_ok (s\<lparr>rv_acc := None\<rparr>)" using ok by (simp add: rv_ok_def)
  show ?thesis
  proof (cases c)
    case True
    with d f have i: "decode16 insn = Some i" "len = 2" by (auto simp: step_decode_def)
    show ?thesis
      using exec_compressed_implements [OF ok' i(1), of "rv_pc s"] even i
      by (simp add: exec_fetched_def f True Let_def)
  next
    case False
    with d f have i: "decode32 insn = Some i" "len = 4" by (auto simp: step_decode_def)
    show ?thesis
      using exec_32_implements [OF ok' i(1), of "rv_pc s"] i
      by (simp add: exec_fetched_def f False Let_def)
  qed
qed

text \<open>C3: the interpreter refines the RV64IMC instruction set: a step on a fetched word that
  decodes has exactly the effect of the instruction it decodes to on the registers, the
  memory and the program counter, and its commit reports that register write. The words of a
  compressed jump through a register are covered when the register's value is even.\<close>

theorem step_refines_isa:
  assumes "rv_ok s" and "step_decode s = Some (i, len)"
    and "\<forall>d r imm. i = I_JALR d r imm \<and> len = 2 \<longrightarrow> even (xreg s r)"
    and "rv_step s = Inr (c, s')"
  shows "\<exists>q t. isa_exec i len (s\<lparr>rv_acc := None\<rparr>) (rv_pc s) = Some q
    \<and> effect q = (c_rd c, c_value c, t) \<and> s' = t\<lparr>rv_cycle := rv_cycle s + 1\<rparr>"
proof -
  obtain q where q: "isa_exec i len (s\<lparr>rv_acc := None\<rparr>) (rv_pc s) = Some q"
    and e: "effect_of (exec_fetched s) = Some (effect q)"
    using fetched_implements [OF assms(1-3)] by (auto simp: implements_def)
  obtain wb s1 rd v s2 where x: "exec_fetched s = Inr (wb, s1)" and w: "write_back wb s1 = (rd, v, s2)"
    and s': "s' = s2\<lparr>rv_cycle := rv_cycle s2 + 1\<rparr>" "rv_cycle s2 = rv_cycle s" and c: "c = commit_of s s' rd v"
    using rv_step_facts [OF assms(4,1)] by metis
  from e x w have "effect q = (rd, v, s2)" by (simp add: effect_def)
  with q show ?thesis by (auto simp: c commit_of_simps s')
qed

text \<open>C18: every step keeps the machine well formed (32 registers of 64 bits, x0 zero, a 64-bit
  program counter, byte pages) and its commit satisfies the checks of the trace format.\<close>

theorem step_preserves_machine:
  assumes "rv_step s = Inr (c, s')" and "rv_ok s"
  shows "rv_ok s' \<and> commit_ok c \<and> c_pc c = rv_pc s \<and> c_cycle c = rv_cycle s + 1"
proof -
  obtain rd v where "rv_ok s'" "commit_ok c" "c = commit_of s s' rd v"
    using rv_step_facts [OF assms] by metis
  with rv_step_cycle [OF assms(1)] show ?thesis by (simp add: commit_of_simps)
qed

text \<open>C27: the commit trace is complete: from any well-formed machine, replaying the register and
  memory writes of the commits of a finished run, in order, gives exactly the final registers
  and memory.\<close>

theorem trace_replays:
  assumes "rv_run s = (cs, Inr t)" and "rv_ok s"
  shows "foldl replay (rv_x s, rv_mem s) cs = (rv_x t, rv_mem t) \<and> rv_halt t"
  using run_facts [OF assms] by blast

text \<open>C28: a run ends within its commit budget: the commits carry the cycles that follow the
  machine's, there are at most as many as the budget allows, and a run ends normally only
  after the store to the mailbox, or with the budget error only after the whole budget.\<close>

theorem run_ends_in_budget:
  assumes "rv_run s = (cs, r)" and "rv_ok s" and "rv_cycle s \<le> rv_max s"
  shows "map c_cycle cs = map (\<lambda>i. rv_cycle s + 1 + int i) [0..<length cs]
    \<and> int (length cs) \<le> rv_max s - rv_cycle s \<and> list_all commit_ok cs
    \<and> (case r of Inr t \<Rightarrow> rv_halt t
       | Inl (RunAway pc) \<Rightarrow> int (length cs) = rv_max s - rv_cycle s
       | Inl _ \<Rightarrow> True)"
  using run_facts [OF assms(1,2)] assms(3) by (auto split: sum.splits rv_err.splits)

text \<open>C29: loads see stores: a load of the bytes a store has just written gives the value
  truncated to the access size, sign-extended for the signed loads, also across pages and
  across the top of the address space; a load that shares no byte with the store gives what
  it gave before.\<close>

theorem load_after_store:
  assumes "mem_ok (rv_mem s)" and "n \<in> {1, 2, 4, 8}"
  shows "fst (rv_load addr n sx (rv_store addr n v s))
      = (if sx then sext v (n * 8) else take_bit (n * 8) v)
    \<and> ((\<forall>i < n. \<forall>j < k. take_bit 64 (a' + int j) \<noteq> take_bit 64 (addr + int i)) \<longrightarrow>
       fst (rv_load a' k sx' (rv_store addr n v s)) = fst (rv_load a' k sx' s))"
proof -
  let ?v = "v AND (push_bit (n * 8) 1 - 1)"
  have m: "?v = take_bit (n * 8) v"
    by (simp add: take_bit_eq_mask mask_eq_exp_minus_1)
  have n: "0 < n" "int n \<le> 2 ^ 64" using assms(2) by auto
  have sx: "sext (take_bit (n * 8) v) (n * 8) = sext v (n * 8)"
    using assms(2) by (auto simp: sext_eq signed_take_bit_take_bit)
  have same: "mem_read (rv_mem (rv_store addr n v s)) addr n = take_bit (n * 8) v"
    unfolding rv_store_mem mem_read_write_same [OF assms(1) n(2)] m by (simp add: mult.commute)
  have other: "mem_read (rv_mem (rv_store addr n v s)) a' k = mem_read (rv_mem s) a' k"
    if "\<forall>i < n. \<forall>j < k. take_bit 64 (a' + int j) \<noteq> take_bit 64 (addr + int i)"
    unfolding rv_store_mem by (rule mem_read_write_other [OF assms(1)]) (use that in blast)
  have "fst (rv_load a' k sx' (rv_store addr n v s)) = fst (rv_load a' k sx' s)"
    if "\<forall>i < n. \<forall>j < k. take_bit 64 (a' + int j) \<noteq> take_bit 64 (addr + int i)"
    unfolding rv_load_def Let_def fst_conv other [OF that] ..
  moreover have "fst (rv_load addr n sx (rv_store addr n v s))
      = (if sx then sext v (n * 8) else take_bit (n * 8) v)"
    unfolding rv_load_def Let_def fst_conv same sx ..
  ultimately show ?thesis by blast
qed

section \<open>What the interpreter does otherwise\<close>

lemma lane_mask_8: "0 < n \<Longrightarrow> in_word 8 (lane_mask n addr) \<longleftrightarrow> nat (addr AND 7) + n \<le> 8"
proof -
  assume n: "0 < n"
  let ?k = "nat (addr AND 7)"
  have eq: "lane_mask n addr = (2 ^ n - 1) * 2 ^ ?k" by (simp add: lane_mask_def push_bit_eq_mult)
  have lo: "0 \<le> (2 ^ n - 1) * (2 :: int) ^ ?k" by simp
  show ?thesis
  proof
    assume "nat (addr AND 7) + n \<le> 8"
    then have "(2 :: int) ^ n * 2 ^ ?k \<le> 2 ^ 8"
      unfolding power_add [symmetric] by (intro power_increasing) simp_all
    moreover have "(2 ^ n - 1) * (2 :: int) ^ ?k < 2 ^ n * 2 ^ ?k" by simp
    ultimately show "in_word 8 (lane_mask n addr)" unfolding in_word_def eq using lo by linarith
  next
    assume m: "in_word 8 (lane_mask n addr)"
    show "nat (addr AND 7) + n \<le> 8"
    proof (rule ccontr)
      assume "\<not> nat (addr AND 7) + n \<le> 8"
      then have "(2 :: int) ^ 8 \<le> 2 ^ ((n - 1) + ?k)" using n by (intro power_increasing) simp_all
      also have "\<dots> = 2 ^ (n - 1) * 2 ^ ?k" by (simp add: power_add)
      also have "\<dots> \<le> (2 ^ n - 1) * 2 ^ ?k"
        using n by (intro mult_right_mono) (cases n, simp_all)
      finally show False using m unfolding in_word_def eq by simp
    qed
  qed
qed

lemma lane_mask_nonzero: "0 < n \<Longrightarrow> lane_mask n addr \<noteq> 0"
  by (cases n) (simp_all add: lane_mask_def push_bit_eq_mult, presburger)

lemma fetch_word: "rv_ok s \<Longrightarrow> in_word 32 (fst (fetch s))"
  using mem_read_range [of "rv_mem s" "rv_pc s" 2] mem_read_range [of "rv_mem s" "rv_pc s" 4]
  by (auto simp: fetch_def Let_def rv_ok_def in_word_def)

text \<open>The access of an executed instruction.\<close>

lemma accessed_acc:
  assumes "accessed s s'" and "rv_acc s = None" and "rv_acc s' = Some (a, n, d)"
  shows "n \<in> {1, 2, 4, 8} \<and> in_word 64 a \<and> pred_option (in_word 64) d"
  using assms
proof cases
  case (store k b v)
  have "take_bit (k * 8) v < 2 ^ 64"
  proof -
    have "k * 8 \<le> 64" using store(2) by auto
    then have "(2 :: int) ^ (k * 8) \<le> 2 ^ 64" by (intro power_increasing) simp_all
    with take_bit_int_less_exp show ?thesis by (rule order.strict_trans2)
  qed
  with store assms show ?thesis
    by (auto simp: rv_store_def Let_def in_word_def take_bit_eq_mask [symmetric] mask_eq_exp_minus_1 [symmetric]
        split: if_splits)
next
  case (load a' n' sx v)
  with assms rv_load_fixed [OF load(1)] show ?thesis by (auto simp: in_word_def)
qed (use assms in auto)

text \<open>C30: a step raises exactly when the instruction is not supported or its memory access leaves
  the aligned 8-byte window of its address: the lane mask of such an access has more than
  eight bits and the commit constructor refuses it.\<close>

theorem step_succeeds_iff:
  assumes "rv_ok s"
  shows "is_ok (rv_step s) \<longleftrightarrow> (\<exists>wb s1. exec_fetched s = Inr (wb, s1)
    \<and> (case rv_acc s1 of None \<Rightarrow> True | Some (a, n, d) \<Rightarrow> nat (a AND 7) + n \<le> 8))"
proof (cases "exec_fetched s")
  case (Inl e)
  then show ?thesis by (simp add: rv_step_def)
next
  case (Inr p)
  obtain r u np s1 where p: "p = ((r, u, np), s1)" by (cases p) auto
  note x = Inr [unfolded p]
  obtain rd v s2 where w: "write_back (r, u, np) s1 = (rd, v, s2)" by (cases "write_back (r, u, np) s1")
  note acc = accessed_fetched [OF x]
  have ok1: "rv_ok s1" by (rule accessed_ok [OF acc]) (use assms in \<open>simp add: rv_ok_def\<close>)
  note k = write_back_ok [OF w ok1 rd_fetched [OF x] next_fetched [OF x]]
  have rdv: "rd = None \<longleftrightarrow> v = None"
    using w k(4) fetched_no_value x by (auto simp: write_back_def Let_def split: option.splits if_splits)
  let ?c = "plain_commit (rv_cycle s2 + 1) (rv_pc s) rd v (fst (fetch s))"
  have ok: "commit_ok ?c"
    using k(1,4) rdv fetch_word [OF assms] assms
    by (cases rd) (auto simp: commit_ok_def plain_commit_def rv_ok_def in_word_def)
  have step: "is_ok (rv_step s) \<longleftrightarrow> is_ok (with_mem_access ?c (rv_acc s1))"
    using k(6)
    by (auto simp: rv_step_def x w Let_def mk_commit_id [OF ok] lift_commit_def is_ok_iff split: sum.splits)
  have "is_ok (with_mem_access ?c (rv_acc s1)) \<longleftrightarrow>
      (case rv_acc s1 of None \<Rightarrow> True | Some (a, n, d) \<Rightarrow> nat (a AND 7) + n \<le> 8)"
  proof (cases "rv_acc s1")
    case (Some q)
    obtain a n d where q: "q = (a, n, d)" by (cases q)
    have f: "n \<in> {1, 2, 4, 8}" "in_word 64 a" "pred_option (in_word 64) d"
      using accessed_acc [OF acc _ Some [unfolded q]] by simp_all
    have mk: "is_ok (mk_commit c) \<longleftrightarrow> commit_ok c" if "c_rd c \<noteq> Some 0" for c
      using that mk_commit_same mk_commit_ok mk_commit_id by (metis is_ok_iff)
    from f(1) have n: "0 < n" by auto
    have "rd \<noteq> Some 0" using k(4) by auto
    with ok f show ?thesis
      using lane_mask_8 [OF n, of a] lane_mask_nonzero [OF n, of a]
      by (cases d) (auto simp: Some q with_mem_access_def mk plain_commit_def commit_ok_def in_word_def)
  qed (simp add: with_mem_access_def)
  with step x p show ?thesis by simp
qed

text \<open>The compressed jumps through a register keep bit 0 of the register in the program
  counter, unlike JALR, which clears it.\<close>

lemma c_jr_keeps_bit_0:
  assumes "rv_ok s" and "drop_bit 7 insn AND 0x1F = r" and "r \<noteq> 0"
    and "insn AND 3 = 2" and "drop_bit 13 insn AND 7 = 4" and "drop_bit 2 insn AND 0x1F = 0"
  shows "\<exists>rd v. exec_compressed s insn pc = Inr ((rd, v, xreg s r), s)"
proof -
  have "take_bit 64 (xreg s r) = xreg s r"
    using xreg_uint [OF assms(1), of r] fields16(2) [of "drop_bit 7 insn"] assms(2) by (simp add: take_uint_64)
  with assms show ?thesis by (simp add: exec_compressed_def exec_c2_def Let_def)
qed

text \<open>With funct7 = 0x20 the reserved encodings of slt, sltu, xor, or and and are executed
  like the defined ones instead of being refused.\<close>

lemma reserved_op_executes:
  "f3 \<in> {2, 3, 4, 6, 7} \<Longrightarrow> op_rr s f3 32 rs1 rs2 pc = op_rr s f3 0 rs1 rs2 pc
     \<and> is_ok (op_rr s f3 32 rs1 rs2 pc) \<and> map_of op_table (32, f3) = None"
  by (auto simp: op_rr_def Let_def op_table_def)

section \<open>Instances\<close>

lemma demo_decode: "step_decode (demo_core 0x1000) = Some (I_OPI A_ADD 5 0 7, 4)"
  by code_simp

lemma demo_wf: "rv_ok (demo_core 0x1000)" "rv_ok (demo_core 0x1004)"
  by (simp_all add: demo_ok in_word_def)

theorem step_refines_isa_witness:
  "\<exists>c s'. rv_step (demo_core 0x1000) = Inr (c, s') \<and> c_rd c = Some 5 \<and> c_value c = Some 7
     \<and> rv_x s' ! 5 = 7 \<and> rv_pc s' = 0x1004"
proof -
  obtain c s' where st: "rv_step (demo_core 0x1000) = Inr (c, s')"
    using demo_addi by (auto simp: is_ok_iff)
  have "wreg ((demo_core 0x1000)\<lparr>rv_acc := None\<rparr>) 0 = 0" by (simp add: wreg_def demo_core_def)
  with step_refines_isa [OF demo_wf(1) demo_decode _ st] st show ?thesis
    by (auto simp: effect_def set_to_def write_back_def Let_def demo_core_def)
qed

theorem step_preserves_machine_witness:
  "\<exists>c s'. rv_step (demo_core 0x1000) = Inr (c, s') \<and> rv_ok s' \<and> c_pc c = 0x1000"
proof -
  obtain c s' where st: "rv_step (demo_core 0x1000) = Inr (c, s')"
    using demo_addi by (auto simp: is_ok_iff)
  from step_preserves_machine [OF st demo_wf(1)] st show ?thesis by (auto simp: demo_core_def)
qed

lemma demo_run: "\<exists>c t. rv_run (demo_core 0x1004) = ([c], Inr t) \<and> c_mem_wdata c = Some 1"
proof -
  obtain c s' where st: "rv_step (demo_core 0x1004) = Inr (c, s')" "rv_halt s'" "c_mem_wdata c = Some 1"
    using demo_store by (auto split: sum.splits prod.splits)
  have "rv_run s' = ([], Inr s')" using st by (subst rv_run.simps) simp
  moreover have "\<not> rv_halt (demo_core 0x1004)" "rv_cycle (demo_core 0x1004) < rv_max (demo_core 0x1004)"
    by (simp_all add: demo_core_def)
  ultimately show ?thesis using st by (subst rv_run.simps) simp
qed

theorem trace_replays_witness:
  "\<exists>c t. rv_run (demo_core 0x1004) = ([c], Inr t) \<and> c_mem_wdata c = Some 1
     \<and> replay (rv_x (demo_core 0x1004), rv_mem (demo_core 0x1004)) c = (rv_x t, rv_mem t)"
proof -
  obtain c t where r: "rv_run (demo_core 0x1004) = ([c], Inr t)" "c_mem_wdata c = Some 1" using demo_run by blast
  from trace_replays [OF r(1) demo_wf(2)] r show ?thesis by auto
qed

theorem run_ends_in_budget_witness:
  "\<exists>c t. rv_run (demo_core 0x1004) = ([c], Inr t) \<and> c_cycle c = 1 \<and> rv_halt t"
proof -
  obtain c t where r: "rv_run (demo_core 0x1004) = ([c], Inr t)" using demo_run by blast
  have "rv_cycle (demo_core 0x1004) \<le> rv_max (demo_core 0x1004)" by (simp add: demo_core_def)
  from run_ends_in_budget [OF r demo_wf(2) this] r show ?thesis by (auto simp: demo_core_def)
qed

theorem load_after_store_witness:
  "fst (rv_load 0x1FFE 4 True (rv_store 0x1FFE 4 0x80000000 (demo_core 0x1000))) = - 0x80000000"
proof -
  have "mem_ok (rv_mem (demo_core 0x1000))" using demo_wf(1) by (simp add: rv_ok_def)
  moreover have "sext 0x80000000 (4 * 8) = - 0x80000000" by code_simp
  ultimately show ?thesis using load_after_store [of "demo_core 0x1000" 4 "0x1FFE" True "0x80000000"] by simp
qed

theorem step_succeeds_iff_witness:
  "\<exists>wb s1. exec_fetched (demo_core 0x1000) = Inr (wb, s1)"
  using step_succeeds_iff [OF demo_wf(1)] demo_addi by blast

lemma c_jr_keeps_bit_0_instance:
  "\<exists>rd v. exec_compressed (demo_core 0x1000) 0x8482 0x1000 = Inr ((rd, v, 1), demo_core 0x1000)"
  using c_jr_keeps_bit_0 [OF demo_wf(1), of "0x8482" 9 "0x1000"] by (simp add: demo_core_def)

lemma reserved_op_executes_instance:
  "is_ok (op_rr (demo_core 0) 2 32 8 9 0)"
  using reserved_op_executes [of 2 "demo_core 0" 8 9 0] by blast

end
