(* ===== verification/Rv_Dut_Props.thy ===== *)
theory Rv_Dut_Props
  imports Rv_Dut Rv_Diff_Props Rv_Spike_Props Rv_Props
begin

text \<open>
  The harness as a whole: a captured trace of the example core matches a new run, and an
  injected fault is found at the commit it was injected into.
\<close>

section \<open>The core against its own captured trace\<close>

text \<open>The trace text has no instruction words.\<close>

definition erase :: "commit \<Rightarrow> commit" where
  "erase c = c\<lparr>c_insn := None\<rparr>"

lemma erase_simps [simp]:
  "c_cycle (erase c) = c_cycle c" "c_pc (erase c) = c_pc c" "c_rd (erase c) = c_rd c" "c_value (erase c) = c_value c"
  "c_mem_addr (erase c) = c_mem_addr c" "c_mem_wdata (erase c) = c_mem_wdata c"
  "c_mem_rmask (erase c) = c_mem_rmask c" "c_mem_wmask (erase c) = c_mem_wmask c"
  "c_rd_is_fp (erase c) = c_rd_is_fp c" "c_fflags (erase c) = c_fflags c" "c_frm (erase c) = c_frm c"
  "c_insn (erase c) = None"
  by (simp_all add: erase_def)

lemma format_erase: "format_trace (map erase cs) gen nt = format_trace cs gen nt"
proof -
  have "format_line (erase c) = format_line c" for c
    by (simp add: format_line_def reg_name_def value_text_def mem_text_def keyed_text_def
        has_mem_access_def has_mem_masks_def)
  moreover have "stream_has_fp_info (map erase cs) = stream_has_fp_info cs"
    by (simp add: stream_has_fp_info_def list_ex_iff has_fp_info_def)
  moreover from calculation(1) have "map format_line (map erase cs) = map format_line cs" by simp
  ultimately show ?thesis unfolding format_trace_def trace_header_def by (simp only:)
qed

text \<open>What the comparator asks of a commit of the core: no floating-point state, and masks that
  fit its own access.\<close>

definition core_commit :: "commit \<Rightarrow> bool" where
  "core_commit c \<longleftrightarrow> \<not> has_fp_info c \<and> (c_mem_addr c \<noteq> None \<longrightarrow> masks_fit c c)"

lemma lane_mask_lanes: "0 < n \<Longrightarrow> lanes (lane_mask n a) a"
  by (auto simp: lanes_def lane_mask_def push_bit_eq_mult)

lemma step_core_commit:
  assumes "rv_step s = Inr (c, s')" and "rv_ok s"
  shows "core_commit c"
proof -
  obtain s1 rd v where acc: "accessed (s\<lparr>rv_acc := None\<rparr>) s1" and eq: "rv_acc s' = rv_acc s1"
    and c: "c = commit_of s s' rd v"
    using rv_step_facts [OF assms] by metis
  show ?thesis
  proof (cases "rv_acc s'")
    case None
    then show ?thesis
      by (simp add: c commit_of_def Let_def core_commit_def has_fp_info_def plain_commit_def)
  next
    case (Some q)
    obtain a n d where q: "q = (a, n, d)" by (cases q)
    have "n \<in> {1, 2, 4, 8}" using accessed_acc [OF acc, of a n d] eq Some q by simp
    then have n: "0 < n" by auto
    note l = lane_mask_lanes [OF n, of a] lane_mask_nonzero [OF n, of a]
    show ?thesis
      using l by (cases d) (simp_all add: c commit_of_def Let_def Some q core_commit_def has_fp_info_def
          plain_commit_def masks_fit_def has_mem_masks_def fits_def reported_def)
  qed
qed

lemma run_core_commits:
  assumes "rv_run s = (cs, r)" and "rv_ok s"
  shows "list_all core_commit cs"
  using assms
proof (induction s arbitrary: cs r rule: rv_run.induct)
  case (1 s)
  show ?case
  proof (cases "\<not> rv_halt s \<and> rv_cycle s < rv_max s")
    case False
    then show ?thesis using "1.prems" by (subst (asm) rv_run.simps) (auto split: if_split_asm)
  next
    case True
    show ?thesis
    proof (cases "rv_step s")
      case (Inl e)
      with True "1.prems" show ?thesis by (subst (asm) rv_run.simps) auto
    next
      case (Inr p)
      obtain c s' where p: "p = (c, s')" by (cases p)
      obtain cs' where r': "rv_run s' = (cs', r)" and cs: "cs = c # cs'"
        using True Inr p "1.prems" by (subst (asm) (2) rv_run.simps) (auto split: prod.splits)
      note step = Inr [unfolded p]
      have "rv_ok s'" using rv_step_facts [OF step "1.prems"(2)] by metis
      with "1.IH" [OF True Inr p [symmetric] r'] step_core_commit [OF step "1.prems"(2)]
      show ?thesis by (simp add: cs)
    qed
  qed
qed

lemma erase_agrees: "core_commit c \<Longrightarrow> agree opts (erase c) c"
  by (auto simp: core_commit_def agree_def mem_agree_def masks_fit_def has_mem_masks_def)

lemma upto_budget_map: "upto_budget m i (map f xs) = map f (upto_budget m i xs)"
  by (simp add: upto_budget_def take_map split: option.split)

lemma set_upto_budget: "x \<in> set (upto_budget m i xs) \<Longrightarrow> x \<in> set xs"
  by (auto simp: upto_budget_def split: option.splits dest: in_set_takeD)

lemma no_injection: "cut_injected [] None i cs = Inr (Some cs)"
  by (induction cs arbitrary: i) simp_all

text \<open>C34: for every finished run of the example core, the text of its trace, captured as the golden
  stream and compared with a new run of the same program, matches: the harness exits with 0,
  with or without the cycle check and for every commit budget.\<close>

theorem captured_trace_matches:
  assumes "rv_run s = (cs, Inr t)" and "rv_ok s" and "rv_cycle s \<le> rv_max s" and "rv_max s < 2 ^ 64"
    and "pred_option plain gen"
  shows "run_difftest no_cycle_check max_commits None []
      (load_golden (format_trace cs gen nt) elf None) (Inr cs) = Some EXIT_MATCH"
proof -
  note run = run_facts [OF assms(1,2)] and core = run_core_commits [OF assms(1,2)]
  from run have cyc: "map c_cycle cs = map (\<lambda>i. rv_cycle s + 1 + int i) [0..<length cs]"
    and len: "int (length cs) \<le> rv_max s - rv_cycle s" and ok: "list_all commit_ok cs"
    using assms(3) by simp_all
  have small: "c_cycle c < 2 ^ 64" if "c \<in> set cs" for c
  proof -
    from that have "c_cycle c \<in> set (map c_cycle cs)" by simp
    then obtain i where "i < length cs" "c_cycle c = rv_cycle s + 1 + int i" unfolding cyc by auto
    with len assms(4) show ?thesis by linarith
  qed
  have w: "list_all writable (map erase cs)"
    using ok core small
    by (auto simp: list_all_iff writable_def commit_ok_def core_commit_def has_fp_info_def)
  have "map c_cycle (map erase cs) = map c_cycle cs" by simp
  then have srt: "sorted (map c_cycle (map erase cs))"
    unfolding cyc by (simp add: sorted_iff_nth_mono)
  have "format_trace cs gen nt = format_trace (map erase cs) gen nt" by (simp add: format_erase)
  then have golden: "load_golden (format_trace cs gen nt) elf None = Inr (map erase cs)"
    using parse_format [OF w srt assms(5)] format_canonical [OF w assms(5)]
    by (simp add: load_golden_def truncate_at_stop_def)
  have "compare_streams no_cycle_check max_commits (map erase cs) cs = None"
  proof -
    have "\<forall>c \<in> set cs. agree opts (erase c) c" for opts
      using core erase_agrees by (auto simp: list_all_iff)
    then have "list_all2 (agree opts) (upto_budget max_commits 0 (map erase cs)) (upto_budget max_commits 0 cs)" for opts
      unfolding upto_budget_map list_all2_map1
      by (intro list_all2_all_nthI) (auto dest!: nth_mem set_upto_budget)
    then show ?thesis
      by (simp add: compare_streams_def first_divergence_def divergence_from_None [OF ok])
  qed
  then show ?thesis by (simp add: run_difftest_def golden no_injection exit_status_def)
qed

section \<open>Injected faults\<close>

lemma mk_commit_keeps: "mk_commit c = Inr c' \<Longrightarrow> (c_rd c = Some 0 \<longrightarrow> c_rd_is_fp c) \<Longrightarrow> c' = c"
  by (auto simp: mk_commit_def res_simps commit_simps split: if_splits)

lemma injected_eq:
  assumes "commit_ok c" and "apply_injection fault c = Inr c'" and "i_value fault = v"
  defines "b \<equiv> (if c_mem_addr c = None then c\<lparr>c_mem_addr := Some (c_pc c)\<rparr> else c)"
  shows "c' = (case i_field fault of
      F_pc \<Rightarrow> c\<lparr>c_pc := v\<rparr>
    | F_value \<Rightarrow> (if c_rd c = None then c else c\<lparr>c_value := Some v\<rparr>)
    | F_rd \<Rightarrow> (if v = 0 then c\<lparr>c_rd := None, c_value := None, c_rd_is_fp := False\<rparr>
              else c\<lparr>c_rd := Some v, c_value := Some (case c_value c of None \<Rightarrow> 0 | Some x \<Rightarrow> x)\<rparr>)
    | F_cycle \<Rightarrow> c\<lparr>c_cycle := v\<rparr>
    | F_fflags \<Rightarrow> c\<lparr>c_fflags := Some v\<rparr>
    | F_frm \<Rightarrow> c\<lparr>c_frm := Some v\<rparr>
    | F_mem_addr \<Rightarrow> c\<lparr>c_mem_addr := Some v\<rparr>
    | F_mem_wdata \<Rightarrow> b\<lparr>c_mem_wdata := Some v\<rparr>
    | F_mem_rmask \<Rightarrow> b\<lparr>c_mem_rmask := Some v, c_mem_wmask := None\<rparr>
    | F_mem_wmask \<Rightarrow> b\<lparr>c_mem_wmask := Some v, c_mem_rmask := None\<rparr>)"
proof -
  have fp: "c_rd c = Some 0 \<longrightarrow> c_rd_is_fp c" using assms(1) by (simp add: commit_ok_def)
  have acc: "c1 = b"
    if "(if c_mem_addr c = None then mk_commit (c\<lparr>c_mem_addr := Some (c_pc c)\<rparr>) else Inr c) = Inr c1" for c1
  proof (cases "c_mem_addr c = None")
    case True
    with that have "mk_commit (c\<lparr>c_mem_addr := Some (c_pc c)\<rparr>) = Inr c1" by simp
    from mk_commit_keeps [OF this] fp True show ?thesis by (simp add: b_def)
  qed (use that in \<open>auto simp: b_def\<close>)
  have fpb: "c_rd b = Some 0 \<longrightarrow> c_rd_is_fp b" using fp by (simp add: b_def)
  show ?thesis
  proof (cases "i_field fault \<in> {F_mem_wdata, F_mem_rmask, F_mem_wmask}")
    case True
    from assms(2,3) True obtain f where m: "mk_commit (f b) = Inr c'"
      and f: "f = (case i_field fault of F_mem_wdata \<Rightarrow> (\<lambda>c. c\<lparr>c_mem_wdata := Some v\<rparr>)
        | F_mem_rmask \<Rightarrow> (\<lambda>c. c\<lparr>c_mem_rmask := Some v, c_mem_wmask := None\<rparr>)
        | _ \<Rightarrow> (\<lambda>c. c\<lparr>c_mem_wmask := Some v, c_mem_rmask := None\<rparr>))"
      unfolding apply_injection_def Let_def by (cases "i_field fault") (auto simp only: res_bind_Inr_iff field.case dest!: acc)
    have "c_rd (f b) = Some 0 \<longrightarrow> c_rd_is_fp (f b)" using True fpb by (auto simp: f)
    from mk_commit_keeps [OF m this] True show ?thesis by (auto simp: f)
  next
    case False
    then show ?thesis
      using assms(2,3) fp
      by (cases "i_field fault")
        (auto simp: apply_injection_def Let_def with_pc_def with_value_def with_rd_def with_cycle_def
          split: if_splits dest: mk_commit_keeps)
  qed
qed

text \<open>When a fault changes something the comparison looks at. A value fault needs a register
  write, a mask fault a golden record with masks (or no access at all, which it invents).\<close>

definition visible :: "checks \<Rightarrow> field \<Rightarrow> int \<Rightarrow> commit \<Rightarrow> bool" where
  "visible opts f v c =
     (case f of
        F_pc \<Rightarrow> v \<noteq> c_pc c
      | F_value \<Rightarrow> c_rd c \<noteq> None \<and> c_value c \<noteq> Some v
      | F_rd \<Rightarrow> (if v = 0 then c_rd c \<noteq> None else c_rd c \<noteq> Some v)
      | F_cycle \<Rightarrow> check_cycle opts \<and> v \<noteq> c_cycle c
      | F_fflags \<Rightarrow> check_fp opts \<and> c_fflags c \<noteq> Some v
      | F_frm \<Rightarrow> check_fp opts \<and> c_frm c \<noteq> Some v
      | F_mem_addr \<Rightarrow> check_mem_stream opts \<and> c_mem_addr c \<noteq> Some v
      | F_mem_wdata \<Rightarrow> check_mem_stream opts \<and> (c_mem_addr c = None \<or> c_mem_wdata c \<noteq> Some v)
      | F_mem_rmask \<Rightarrow> check_mem_stream opts
          \<and> (c_mem_addr c = None \<or> has_mem_masks c \<and> (c_mem_rmask c, c_mem_wmask c) \<noteq> (Some v, None))
      | F_mem_wmask \<Rightarrow> check_mem_stream opts
          \<and> (c_mem_addr c = None \<or> has_mem_masks c \<and> (c_mem_rmask c, c_mem_wmask c) \<noteq> (None, Some v)))"

lemma visible_disagrees:
  assumes "commit_ok c" and "apply_injection fault c = Inr c'" and "visible opts (i_field fault) (i_value fault) c"
  shows "\<not> agree opts c c'"
  using injected_eq [OF assms(1,2) refl] assms(3)
  by (cases "i_field fault"; cases "c_mem_addr c")
    (auto simp: visible_def agree_def mem_agree_def masks_fit_def has_mem_masks_def split: if_splits)

lemma apply_injection_ok: "apply_injection fault c = Inr c' \<Longrightarrow> commit_ok c \<Longrightarrow> commit_ok c'"
  by (cases "i_field fault")
    (auto simp: apply_injection_def Let_def with_pc_def with_value_def with_rd_def with_cycle_def res_simps
      split: if_splits dest: mk_commit_ok)

lemma injected_one:
  assumes "injected_commits [fault] cs = Inr ds" and "list_all commit_ok cs"
  shows "length ds = length cs" and "list_all commit_ok ds"
    and "j < length cs \<Longrightarrow> i_index fault = int j \<Longrightarrow> apply_injection fault (cs ! j) = Inr (ds ! j)"
    and "j < length cs \<Longrightarrow> i_index fault \<noteq> int j \<Longrightarrow> ds ! j = cs ! j"
proof -
  have all: "list_all2 (\<lambda>(i, c) d. apply_injections i [fault] c = Inr d) (enumerate 0 cs) ds"
    using assms(1) unfolding injected_commits_def res_map_Inr_iff
    by (rule list_all2_mono) (auto split: prod.splits)
  then show len: "length ds = length cs" by (auto dest: list_all2_lengthD)
  have nth: "apply_injections j [fault] (cs ! j) = Inr (ds ! j)" if "j < length cs" for j
    using list_all2_nthD [OF all, of j] that by (simp add: nth_enumerate_eq)
  show app: "apply_injection fault (cs ! j) = Inr (ds ! j)" if "j < length cs" "i_index fault = int j" for j
    using nth [OF that(1)] that(2) by (cases "apply_injection fault (cs ! j)") simp_all
  show same: "ds ! j = cs ! j" if "j < length cs" "i_index fault \<noteq> int j" for j
    using nth [OF that(1)] that(2) by simp
  have "commit_ok (ds ! j)" if "j < length cs" for j
    using app [OF that] same [OF that] assms(2) that apply_injection_ok
    by (cases "i_index fault = int j") (auto simp: list_all_length)
  then show "list_all commit_ok ds" by (simp add: list_all_length len)
qed

text \<open>C35: the negative control of the harness works: take any stream that agrees with itself under
  the checks and inject one fault into it. If the fault changes something the comparison looks
  at, the comparator reports a divergence, and at the very commit the fault was injected into.\<close>

theorem injected_fault_found:
  assumes "list_all commit_ok cs" and "list_all (\<lambda>c. agree opts c c) cs" and "injected_commits [fault] cs = Inr ds"
    and "i_index fault = int i" and "i < length cs" and "visible opts (i_field fault) (i_value fault) (cs ! i)"
  shows "\<exists>x. first_divergence opts None cs ds = Some x \<and> d_index x = i"
proof -
  note one = injected_one [OF assms(3,1)]
  have bad: "\<not> agree opts (cs ! i) (ds ! i)"
    using visible_disagrees [OF _ one(3) [OF assms(5,4)] assms(6)] assms(1,5) by (simp add: list_all_length)
  then have "\<not> list_all2 (agree opts) (upto_budget None 0 cs) (upto_budget None 0 ds)"
    using assms(5) one(1) by (auto simp: upto_budget_def dest: list_all2_nthD)
  then obtain x where x: "first_divergence opts None cs ds = Some x"
    using divergence_from_None [OF one(2), of opts None 0 cs] by (auto simp: first_divergence_def)
  from divergence_from_Some [OF x [unfolded first_divergence_def] one(2)]
  obtain j where whole: "d_index x = 0 + j \<and> list_all2 (agree opts) (take j cs) (take j ds)
    \<and> (if j < length cs \<and> j < length ds then sound_for (0 + j) (cs ! j) (ds ! j) x \<and> \<not> agree opts (cs ! j) (ds ! j)
        else if j < length ds then j = length cs \<and> d_kind x = KIND_EXTRA
        else j < length cs \<and> j = length ds \<and> d_kind x = KIND_TRUNCATED)" ..
  note j = conjunct1 [OF whole, unfolded add_0] and c = conjunct2 [OF conjunct2 [OF whole]]
  have len: "j < length cs"
  proof (rule ccontr)
    assume n: "\<not> j < length cs"
    from c show False unfolding one(1) using n by (simp only: simp_thms if_False)
  qed
  from c have at: "\<not> agree opts (cs ! j) (ds ! j)" unfolding one(1) using len by (simp only: simp_thms if_True)
  have "j = i"
  proof (rule ccontr)
    assume "j \<noteq> i"
    then have "ds ! j = cs ! j" using one(4) [OF len] assms(4) by simp
    with at len assms(2) show False by (simp add: list_all_length)
  qed
  with x j show ?thesis by blast
qed

text \<open>A value fault on a commit that writes no register does nothing, although the message for a
  dash register recommends it.\<close>

lemma value_injection_silent: "c_rd c = None \<Longrightarrow> i_field fault = F_value \<Longrightarrow> apply_injection fault c = Inr c"
  by (simp add: apply_injection_def Let_def with_value_def)

text \<open>A callback that yields both records and text does not keep their order.\<close>

lemma coerce_reorders:
  "(case coerce_commits [PText ''0x10 - -'', PCommit (plain_commit 7 0x20 None None 0)] of
     Inr [a, b] \<Rightarrow> c_pc a = 0x20 \<and> c_pc b = 0x10 | _ \<Rightarrow> False)"
  by code_simp

section \<open>Instances\<close>

theorem captured_trace_matches_witness:
  "\<exists>c t. rv_run (demo_core 0x1004) = ([c], Inr t)
     \<and> run_difftest False None None [] (load_golden (format_trace [c] None None) None None) (Inr [c]) = Some 0"
proof -
  obtain c t where r: "rv_run (demo_core 0x1004) = ([c], Inr t)" using demo_run by blast
  have "rv_cycle (demo_core 0x1004) \<le> rv_max (demo_core 0x1004)" "rv_max (demo_core 0x1004) < 2 ^ 64"
    by (simp_all add: demo_core_def)
  from captured_trace_matches [OF r demo_wf(2) this, of None False None None None] r
  show ?thesis by (auto simp: EXIT_MATCH_def)
qed

definition demo_checks :: checks where
  "demo_checks = \<lparr>check_cycle = True, check_mem_stream = True, check_fp = True\<rparr>"

lemma demo_self: "list_all (\<lambda>c. agree demo_checks c c) demo_stream"
proof -
  have "lanes 8 0x80001003" unfolding lanes_def by (intro exI [of _ 1]) (simp add: push_bit_eq_mult)
  then show ?thesis
    by (simp add: demo_stream_def agree_def mem_agree_def masks_fit_def has_mem_masks_def fits_def reported_def)
qed

theorem injected_fault_found_witness:
  "\<exists>fault ds x. parse_injection ''1:mem_wdata=0x35'' = Inr fault \<and> injected_commits [fault] demo_stream = Inr ds
     \<and> first_divergence demo_checks None demo_stream ds = Some x \<and> d_index x = 1"
proof -
  define fault where "fault = \<lparr>i_index = 1, i_field = F_mem_wdata, i_value = 0x35\<rparr>"
  have p: "parse_injection ''1:mem_wdata=0x35'' = Inr fault" unfolding fault_def by code_simp
  have "is_ok (injected_commits [fault] demo_stream)" unfolding fault_def demo_stream_def by code_simp
  then obtain ds where ds: "injected_commits [fault] demo_stream = Inr ds" by (auto simp: is_ok_iff)
  from injected_fault_found [OF demo_stream_ok demo_self ds, of 1] p ds show ?thesis
    by (auto simp: fault_def demo_stream_def visible_def demo_checks_def)
qed

end
