(* ===== verification/Bitgen_Db.thy ===== *)
theory Bitgen_Db
  imports Prelude "HOL-Library.AList" "HOL-Library.Product_Lexorder" "HOL-Library.List_Lexorder"
    "HOL-Library.Char_ord"
begin

text \<open>
  The config database of ethereal-tools/tools/mapper/bitgen/bitgen_db.py: its data, the eLUT
  word, the input-mux selects, the truth tables of a BLIF cover and their physical pin
  order, and the solver that assigns the external nets of a cluster to pin classes. A Python
  dict is an association list in insertion order where the code iterates over it
  (\<open>AList.update\<close> is the assignment to a key), a map where it is only looked up. Truth
  tables, selects and config words are \<open>int\<close>, indexes are \<open>nat\<close>.
\<close>

abbreviation (input) CLB_N :: nat where "CLB_N \<equiv> 8"
abbreviation (input) CLB_K :: nat where "CLB_K \<equiv> 4"
abbreviation (input) CLB_EXT_IN :: nat where "CLB_EXT_IN \<equiv> 18"
abbreviation (input) IIB_EXT_FLAG :: int where "IIB_EXT_FLAG \<equiv> 16"
abbreviation (input) IIB_SEL_MAX :: int where "IIB_SEL_MAX \<equiv> IIB_EXT_FLAG OR 8"

datatype bitgen_err =
  ClbIndex int
| R2Parity int nat nat
| FleIndex int
| UnknownKind string
| OutOfRange
| KeyErr
| NotANumberErr string
| AssertErr
| Infeasible
| PathSyntaxErr

section \<open>Data\<close>

record elut_config =
  ec_tt :: int
  ec_ff_en :: bool
  ec_ff_rst_en :: bool
  ec_ff_rst_val :: bool
  ec_out_inv :: bool

record tile_logic =
  tl_eluts :: "(nat \<times> elut_config) list"
  tl_iib_mux :: "nat \<times> nat \<rightharpoonup> int"
  tl_inputs :: "(nat \<times> string option) list"
  tl_outputs :: "(nat \<times> string option) list"

definition empty_tile :: tile_logic where
  "empty_tile = \<lparr>tl_eluts = [], tl_iib_mux = Map.empty, tl_inputs = [], tl_outputs = []\<rparr>"

record macc_cell =
  mc_a :: "string list"
  mc_b :: "string list"
  mc_y :: "string list"
  mc_tile :: "int \<times> int"

record fabric_db =
  db_tiles :: "((int \<times> int) \<times> tile_logic) list"
  db_inputs :: "string list"
  db_outputs :: "string list"
  db_po_aliases :: "(string \<times> string) list"
  db_macc :: "((int \<times> int) \<times> macc_cell) list"

text \<open>\<open>d.get(k)\<close> of a dict whose values may be \<open>None\<close>\<close>

definition get_opt :: "('k \<times> 'v option) list \<Rightarrow> 'k \<Rightarrow> 'v option" where
  "get_opt d k = (case map_of d k of None \<Rightarrow> None | Some v \<Rightarrow> v)"

section \<open>The eLUT word and the input-mux select\<close>

definition elut_cfg_word :: "elut_config \<Rightarrow> int" where
  "elut_cfg_word ec =
     (let word = push_bit 4 (ec_tt ec AND 0xFFFF);
          word = word OR push_bit 3 (if ec_ff_en ec then 1 else 0);
          word = word OR push_bit 2 (if ec_ff_rst_en ec then 1 else 0);
          word = word OR push_bit 1 (if ec_ff_rst_val ec then 1 else 0);
          word = word OR push_bit 0 (if ec_out_inv ec then 1 else 0)
      in word AND 0xFFFFF)"

definition elut_from_word :: "int \<Rightarrow> elut_config" where
  "elut_from_word word =
     (let w = word AND 0xFFFFF in
      \<lparr>ec_tt = drop_bit 4 w AND 0xFFFF, ec_ff_en = (bit_at w 3 = 1), ec_ff_rst_en = (bit_at w 2 = 1),
       ec_ff_rst_val = (bit_at w 1 = 1), ec_out_inv = (w AND 1 = 1)\<rparr>)"

definition iib_sel_for :: "nat \<Rightarrow> nat \<Rightarrow> string \<times> int \<Rightarrow> bitgen_err + int" where
  "iib_sel_for gi gk source =
     (case source of (kind, idx) \<Rightarrow>
        if kind = ''clb.I'' then
          if \<not> (0 \<le> idx \<and> idx < int CLB_EXT_IN) then Inl (ClbIndex idx)
          else if idx mod 2 \<noteq> int gk mod 2 then Inl (R2Parity idx gi gk)
          else Inr (IIB_EXT_FLAG OR idx div 2)
        else if kind = ''fle'' then
          if \<not> (0 \<le> idx \<and> idx < int CLB_N) then Inl (FleIndex idx)
          else Inr idx
        else Inl (UnknownKind kind))"

definition iib_decode :: "int \<Rightarrow> nat \<Rightarrow> string \<times> int" where
  "iib_decode sel gk =
     (let sel = sel AND 0x1F in
      if sel AND IIB_EXT_FLAG \<noteq> 0 then (''clb.I'', push_bit 1 (sel AND 0xF) OR (int gk AND 1))
      else (''fle'', sel AND 7))"

section \<open>Truth tables\<close>

text \<open>\<open>tt = 0; for p in range(n): if f(p): tt |= 1 << p\<close>\<close>

definition set_where :: "(nat \<Rightarrow> bool) \<Rightarrow> nat \<Rightarrow> int" where
  "set_where f n = foldl (\<lambda>tt p. if f p then tt OR push_bit p 1 else tt) 0 [0..<n]"

text \<open>\<open>{inp: (combo >> (n - 1 - k)) & 1 for k, inp in enumerate(input_list)}\<close>: the last
  position of a repeated input wins.\<close>

definition assignment :: "string list \<Rightarrow> nat \<Rightarrow> string \<rightharpoonup> int" where
  "assignment input_list combo =
     (let n = length input_list in
      map_of (rev (zip input_list (map (\<lambda>k. bit_at (int combo) (n - 1 - k)) [0..<n]))))"

fun spec_matches :: "string list \<Rightarrow> (string \<rightharpoonup> int) \<Rightarrow> nat \<Rightarrow> string \<Rightarrow> bitgen_err + bool" where
  "spec_matches input_list a k [] = Inr True"
| "spec_matches input_list a k (ch # spec) =
     (if ch = CHR ''-'' then spec_matches input_list a (Suc k) spec
      else if length input_list \<le> k then Inl OutOfRange
      else case a (input_list ! k) of
             None \<Rightarrow> Inl KeyErr
           | Some b \<Rightarrow>
               if ch = CHR ''0'' \<and> b \<noteq> 0 then Inr False
               else if ch = CHR ''1'' \<and> b \<noteq> 1 then Inr False
               else spec_matches input_list a (Suc k) spec)"

fun cube_onset :: "string list \<Rightarrow> (string \<times> int) list \<Rightarrow> (string \<rightharpoonup> int) \<Rightarrow> bitgen_err + bool" where
  "cube_onset input_list [] a = Inr False"
| "cube_onset input_list ((spec, val) # cubes) a =
     (if val \<noteq> 1 then cube_onset input_list cubes a
      else res_bind (spec_matches input_list a 0 spec) (\<lambda>ok.
             if ok then Inr True else cube_onset input_list cubes a))"

definition blif_names_to_logical_tt :: "string list \<Rightarrow> (string \<times> int) list \<Rightarrow> bitgen_err + int" where
  "blif_names_to_logical_tt input_list cubes =
     (let n = length input_list in
      res_bind (res_map (\<lambda>combo. cube_onset input_list cubes (assignment input_list combo)) [0..<2 ^ n])
        (\<lambda>bs. Inr (set_where (\<lambda>combo. bs ! combo) (2 ^ n))))"

text \<open>\<open>pin_bit p gk\<close> is the value on physical pin \<open>gk\<close> in the physical index \<open>p\<close>. The lists of
  logical bits start at zero and are written pin by pin; a position outside the list raises.\<close>

definition pin_bit :: "nat \<Rightarrow> nat \<Rightarrow> int" where
  "pin_bit p gk = bit_at (int p) gk"

definition permuted_index :: "nat list \<Rightarrow> nat \<Rightarrow> int" where
  "permuted_index phys_to_log p =
     (let lb = foldl (\<lambda>lb gk. lb[phys_to_log ! gk := pin_bit p gk]) (replicate 4 0) [0..<4]
      in push_bit 3 (lb ! 0) OR push_bit 2 (lb ! 1) OR push_bit 1 (lb ! 2) OR lb ! 3)"

definition permute_tt :: "int \<Rightarrow> nat list \<Rightarrow> bitgen_err + int" where
  "permute_tt logical_tt phys_to_log =
     (if length phys_to_log < 4 \<or> list_ex (\<lambda>pos. 4 \<le> pos) (take 4 phys_to_log) then Inl OutOfRange
      else Inr (set_where (\<lambda>p. bit_at logical_tt (nat (permuted_index phys_to_log p)) \<noteq> 0) 16))"

definition expanded_bits :: "nat \<Rightarrow> nat option list \<Rightarrow> nat \<Rightarrow> int list" where
  "expanded_bits n pin_logpos p =
     foldl (\<lambda>lb gk. case pin_logpos ! gk of None \<Rightarrow> lb | Some pos \<Rightarrow> lb[pos := pin_bit p gk])
       (replicate n 0) [0..<4]"

definition expanded_index :: "nat \<Rightarrow> nat option list \<Rightarrow> nat \<Rightarrow> int" where
  "expanded_index n pin_logpos p =
     foldl (\<lambda>idx pos. idx OR push_bit (n - 1 - pos) (expanded_bits n pin_logpos p ! pos)) 0 [0..<n]"

definition expand_logical_tt :: "int \<Rightarrow> nat \<Rightarrow> nat option list \<Rightarrow> bitgen_err + int" where
  "expand_logical_tt logical_tt n pin_logpos =
     (if length pin_logpos < 4
        \<or> list_ex (\<lambda>q. case q of None \<Rightarrow> False | Some pos \<Rightarrow> n \<le> pos) (take 4 pin_logpos)
      then Inl OutOfRange
      else Inr (set_where (\<lambda>p. bit_at logical_tt (nat (expanded_index n pin_logpos p)) \<noteq> 0) 16))"

section \<open>Pin classes of the external nets\<close>

text \<open>\<open>_iib_class_options\<close>: the recursion with the nets of each class counted in \<open>n0\<close> and \<open>n1\<close>.\<close>

fun class_options :: "nat \<Rightarrow> nat \<Rightarrow> nat \<Rightarrow> string list \<Rightarrow> (string \<times> nat) list list" where
  "class_options slots n0 n1 [] = [[]]"
| "class_options slots n0 n1 (net # nets) =
     (if n0 < slots then map ((#) (net, 0)) (class_options slots (Suc n0) n1 nets) else [])
     @ (if n1 < slots then map ((#) (net, 1)) (class_options slots n0 (Suc n1) nets) else [])"

definition iib_class_options :: "string list \<Rightarrow> nat \<Rightarrow> (string \<times> nat) list list" where
  "iib_class_options nets slots = class_options slots 0 0 nets"

text \<open>The variables that the backtracking updates in place.\<close>

record iib_state =
  net_classes :: "(string \<times> nat set) list"
  budget :: "int list"
  assign :: "nat \<times> string \<rightharpoonup> nat"

text \<open>The walk over one option: \<open>None\<close> is \<open>ok = False\<close>, otherwise the new (net, class) pairs.\<close>

fun option_deltas ::
  "iib_state \<Rightarrow> int list \<Rightarrow> (string \<times> nat) list \<Rightarrow> (string \<times> nat) list \<Rightarrow> (string \<times> nat) list option" where
  "option_deltas st pending deltas [] = Some deltas"
| "option_deltas st pending deltas ((net, c) # opt) =
     (case map_of (net_classes st) net of
        None \<Rightarrow>
          if budget st ! c - pending ! c < 1 then None
          else option_deltas st (pending[c := pending ! c + 1]) (deltas @ [(net, c)]) opt
      | Some cs \<Rightarrow>
          if c \<in> cs then option_deltas st pending deltas opt
          else if budget st ! c - pending ! c < 1 \<or> 2 \<le> card cs then None
          else option_deltas st (pending[c := pending ! c + 1]) (deltas @ [(net, c)]) opt)"

definition hold_pin :: "iib_state \<Rightarrow> string \<times> nat \<Rightarrow> iib_state" where
  "hold_pin st = (\<lambda>(net, c).
     st\<lparr>net_classes := AList.update net
          (insert c (case map_of (net_classes st) net of None \<Rightarrow> {} | Some cs \<Rightarrow> cs)) (net_classes st),
        budget := (budget st)[c := budget st ! c - 1]\<rparr>)"

definition take_option :: "nat \<Rightarrow> (string \<times> nat) list \<Rightarrow> (string \<times> nat) list \<Rightarrow> iib_state \<Rightarrow> iib_state" where
  "take_option gi opt deltas st =
     (let st1 = foldl hold_pin st deltas in
      st1\<lparr>assign := foldl (\<lambda>a (net, c). a((gi, net) \<mapsto> c)) (assign st1) opt\<rparr>)"

fun forget_assign :: "nat \<Rightarrow> (string \<times> nat) list \<Rightarrow> (nat \<times> string \<rightharpoonup> nat) \<Rightarrow> bitgen_err + (nat \<times> string \<rightharpoonup> nat)" where
  "forget_assign gi [] a = Inr a"
| "forget_assign gi ((net, c) # opt) a =
     (if a (gi, net) = None then Inl KeyErr else forget_assign gi opt (a((gi, net) := None)))"

fun release_pins :: "(string \<times> nat) list \<Rightarrow> iib_state \<Rightarrow> bitgen_err + iib_state" where
  "release_pins [] st = Inr st"
| "release_pins ((net, c) # deltas) st =
     (case map_of (net_classes st) net of
        None \<Rightarrow> Inl KeyErr
      | Some s \<Rightarrow>
          let s' = s - {c} in
          release_pins deltas
            (st\<lparr>budget := (budget st)[c := budget st ! c + 1],
                net_classes := (if s' = {} then AList.delete net (net_classes st)
                                else AList.update net s' (net_classes st))\<rparr>))"

definition undo_option :: "nat \<Rightarrow> (string \<times> nat) list \<Rightarrow> (string \<times> nat) list \<Rightarrow> iib_state \<Rightarrow> bitgen_err + iib_state" where
  "undo_option gi opt deltas st =
     res_bind (forget_assign gi opt (assign st)) (\<lambda>a. release_pins (rev deltas) (st\<lparr>assign := a\<rparr>))"

fun try_options ::
  "(iib_state \<Rightarrow> bitgen_err + bool \<times> iib_state) \<Rightarrow> nat \<Rightarrow> (string \<times> nat) list list \<Rightarrow> iib_state
     \<Rightarrow> bitgen_err + bool \<times> iib_state" where
  "try_options next_lut gi [] st = Inr (False, st)"
| "try_options next_lut gi (opt # opts) st =
     (case option_deltas st [0, 0] [] opt of
        None \<Rightarrow> try_options next_lut gi opts st
      | Some deltas \<Rightarrow>
          res_bind (next_lut (take_option gi opt deltas st)) (\<lambda>(found, st').
            if found then Inr (True, st')
            else res_bind (undo_option gi opt deltas st') (try_options next_lut gi opts)))"

fun backtrack :: "nat \<Rightarrow> (nat \<times> string list) list \<Rightarrow> iib_state \<Rightarrow> bitgen_err + bool \<times> iib_state" where
  "backtrack slots [] st = Inr (True, st)"
| "backtrack slots ((gi, nets) # luts) st =
     try_options (backtrack slots luts) gi (iib_class_options nets slots) st"

definition solve_iib_classes ::
  "(nat \<times> string list) list \<Rightarrow> nat \<Rightarrow> nat
     \<Rightarrow> bitgen_err + ((nat \<times> string \<rightharpoonup> nat) \<times> (string \<times> nat set) list) option" where
  "solve_iib_classes lut_ext pin_budget slots =
     (let luts = sort_key (\<lambda>(gi, nets). (length nets, gi)) lut_ext in
      res_bind (backtrack slots luts
          \<lparr>net_classes = [], budget = [int pin_budget, int pin_budget], assign = Map.empty\<rparr>)
        (\<lambda>(found, st). Inr (if found then Some (assign st, net_classes st) else None)))"

text \<open>\<open>_iib_pins_of\<close>: the nets of each class, sorted, on the pins of its parity.\<close>

definition iib_pins_of :: "(string \<times> nat set) list \<Rightarrow> ((string \<times> nat) \<times> nat) list" where
  "iib_pins_of ncs =
     concat (map (\<lambda>c. map (\<lambda>(n_pin, net). ((net, c), c + 2 * n_pin))
                        (enumerate 0 (sort (map fst (filter (\<lambda>(net, cs). c \<in> cs) ncs)))))
       [0, 1])"

section \<open>The pins of one LUT\<close>

type_synonym pin_entry = "string \<times> nat \<times> string"

definition class_of_ext :: "nat \<Rightarrow> (nat \<times> string \<rightharpoonup> nat) \<Rightarrow> (string \<times> nat) list \<Rightarrow> bitgen_err + (string \<times> nat) list" where
  "class_of_ext gi classes ext_nets =
     res_map (\<lambda>(net, pos). case classes (gi, net) of None \<Rightarrow> Inl KeyErr | Some c \<Rightarrow> Inr (net, c)) ext_nets"

fun place_ext ::
  "((string \<times> nat) \<times> nat) list \<Rightarrow> nat \<Rightarrow> (nat \<times> string) list \<Rightarrow> pin_entry option list
     \<Rightarrow> bitgen_err + pin_entry option list" where
  "place_ext pins c [] gk_map = Inr gk_map"
| "place_ext pins c ((gk, net) # rest) gk_map =
     (case map_of pins (net, c) of
        None \<Rightarrow> Inl KeyErr
      | Some pin \<Rightarrow> place_ext pins c rest (gk_map[gk := Some (''clb.I'', pin, net)]))"

definition place_class ::
  "((string \<times> nat) \<times> nat) list \<Rightarrow> (string \<times> nat) list \<Rightarrow> nat \<Rightarrow> nat list \<Rightarrow> pin_entry option list
     \<Rightarrow> bitgen_err + pin_entry option list" where
  "place_class pins netcs c slot_pair gk_map =
     (let nets_c = sort (map fst (filter (\<lambda>(net, c'). c' = c) netcs)) in
      if length slot_pair < length nets_c then Inl AssertErr
      else place_ext pins c (zip slot_pair nets_c) gk_map)"

definition assign_lut_gk ::
  "nat \<Rightarrow> (string \<times> nat) list \<Rightarrow> (string \<times> nat \<times> nat) list \<Rightarrow> (nat \<times> string \<rightharpoonup> nat)
     \<Rightarrow> ((string \<times> nat) \<times> nat) list \<Rightarrow> bitgen_err + pin_entry option list" where
  "assign_lut_gk gi ext_nets fb_nets classes pins =
     res_bind (class_of_ext gi classes ext_nets) (\<lambda>netcs.
     res_bind (place_class pins netcs 0 [0, 2] (replicate CLB_K None)) (\<lambda>m0.
     res_bind (place_class pins netcs 1 [1, 3] m0) (\<lambda>m1.
       let free = filter (\<lambda>gk. m1 ! gk = None) [0..<CLB_K];
           fb_sorted = sort_key (\<lambda>(net, j, pos). (j, net)) fb_nets
       in if length free < length fb_sorted then Inl AssertErr
          else Inr (foldl (\<lambda>m (gk, net, j, pos). m[gk := Some (''fle'', j, net)]) m1 (zip free fb_sorted)))))"

section \<open>Dicts\<close>

text \<open>Assignment to a new key appends.\<close>

lemma update_new: "k \<notin> fst ` set al \<Longrightarrow> AList.update k v al = al @ [(k, v)]"
  by (induction al) auto

end
