(* ===== verification/Bitgen_Net.thy ===== *)
theory Bitgen_Net
  imports Bitgen_Db Py_Text
begin

text \<open>
  The netlist side of ethereal-tools/tools/mapper/bitgen/bitgen_db.py: the BLIF and placement
  readers, the packed netlist as an XML tree, the classes of nets joined by buffers, and the
  database built from them. The XML tree is the one \<open>ElementTree\<close> gives; a file is its text.
\<close>

section \<open>BLIF and placement\<close>

text \<open>The lines of a file opened in text mode\<close>

fun file_lines_from :: "string \<Rightarrow> string \<Rightarrow> string list" where
  "file_lines_from cur [] = (if cur = [] then [] else [rev cur])"
| "file_lines_from cur (c # s) =
     (if code c = 13 \<and> s \<noteq> [] \<and> code (hd s) = 10 then rev cur # file_lines_from [] (tl s)
      else if code c = 13 \<or> code c = 10 then rev cur # file_lines_from [] s
      else file_lines_from (c # cur) s)"

definition file_lines :: "string \<Rightarrow> string list" where
  "file_lines s = file_lines_from [] s"

type_synonym cover = "string list \<times> (string \<times> int) list"

record blif_state =
  b_names :: "(string \<times> cover) list"
  b_inputs :: "string list"
  b_outputs :: "string list"
  b_cur_out :: "string option"
  b_cur_inputs :: "string list"
  b_cur_cubes :: "(string \<times> int) list"

definition blif_flush :: "blif_state \<Rightarrow> blif_state" where
  "blif_flush st =
     (case b_cur_out st of None \<Rightarrow> st
      | Some out \<Rightarrow> st\<lparr>b_names := AList.update out (b_cur_inputs st, b_cur_cubes st) (b_names st)\<rparr>)"

definition to_int :: "string \<Rightarrow> bitgen_err + int" where
  "to_int s = (case py_int10 s of None \<Rightarrow> Inl (NotANumberErr s) | Some v \<Rightarrow> Inr v)"

definition blif_line :: "blif_state \<Rightarrow> string \<Rightarrow> bitgen_err + blif_state" where
  "blif_line st raw =
     (let line = strip raw; parts = split_ws line in
      if line = [] then Inr st
      else if prefixed ''.names'' line then
        Inr ((blif_flush st)\<lparr>b_cur_inputs := butlast (tl parts), b_cur_out := Some (last parts), b_cur_cubes := []\<rparr>)
      else if prefixed ''.inputs'' line then Inr (st\<lparr>b_inputs := tl parts\<rparr>)
      else if prefixed ''.outputs'' line then Inr (st\<lparr>b_outputs := tl parts\<rparr>)
      else if prefixed ''.'' line then Inr st
      else if b_cur_out st = None then Inr st
      else (case parts of
              [spec, val] \<Rightarrow> res_bind (to_int val) (\<lambda>v. Inr (st\<lparr>b_cur_cubes := b_cur_cubes st @ [(spec, v)]\<rparr>))
            | [val] \<Rightarrow> res_bind (to_int val) (\<lambda>v. Inr (st\<lparr>b_cur_cubes := b_cur_cubes st @ [([], v)]\<rparr>))
            | _ \<Rightarrow> Inr st))"

fun blif_lines :: "string list \<Rightarrow> blif_state \<Rightarrow> bitgen_err + blif_state" where
  "blif_lines [] st = Inr st"
| "blif_lines (l # ls) st = res_bind (blif_line st l) (blif_lines ls)"

definition parse_blif :: "string \<Rightarrow> bitgen_err + (string \<times> cover) list \<times> string list \<times> string list" where
  "parse_blif text =
     res_bind (blif_lines (file_lines text)
         \<lparr>b_names = [], b_inputs = [], b_outputs = [], b_cur_out = None, b_cur_inputs = [], b_cur_cubes = []\<rparr>)
       (\<lambda>st. Inr (b_names (blif_flush st), b_inputs st, b_outputs st))"

definition place_line :: "(string \<times> int \<times> int) list \<Rightarrow> string \<Rightarrow> (string \<times> int \<times> int) list" where
  "place_line pos raw =
     (let line = strip raw; parts = split_ws line in
      if line = [] \<or> prefixed ''#'' line \<or> prefixed ''Netlist_File'' line \<or> prefixed ''Array size'' line then pos
      else if 3 \<le> length parts \<and> map_of pos (parts ! 0) = None then
        (case py_int10 (parts ! 1) of None \<Rightarrow> pos
         | Some x \<Rightarrow> (case py_int10 (parts ! 2) of None \<Rightarrow> pos
                      | Some y \<Rightarrow> AList.update (parts ! 0) (x, y) pos))
      else pos)"

definition parse_place :: "string \<Rightarrow> (string \<times> int \<times> int) list" where
  "parse_place text = foldl place_line [] (file_lines text)"

section \<open>The packed netlist\<close>

datatype xml = Elem (el_tag: string) (el_attrs: "(string \<times> string) list") (el_text: "string option") (el_kids: "xml list")

definition el_get :: "xml \<Rightarrow> string \<Rightarrow> string option" where
  "el_get e k = map_of (el_attrs e) k"

definition el_get_or :: "xml \<Rightarrow> string \<Rightarrow> string \<Rightarrow> string" where
  "el_get_or e k d = (case el_get e k of None \<Rightarrow> d | Some v \<Rightarrow> v)"

text \<open>The elements below an element in document order, and the three shapes of path that
  \<open>find\<close> is called with.\<close>

fun descendants :: "xml \<Rightarrow> xml list" where
  "descendants (Elem t a x kids) = concat (map (\<lambda>e. e # descendants e) kids)"

definition is_block :: "string \<Rightarrow> xml \<Rightarrow> bool" where
  "is_block inst e \<longleftrightarrow> el_tag e = ''block'' \<and> el_get e ''instance'' = Some inst"

definition find_below :: "string \<Rightarrow> xml \<Rightarrow> xml option" where
  "find_below inst e = List.find (is_block inst) (descendants e)"

definition find_child :: "string \<Rightarrow> xml \<Rightarrow> xml option" where
  "find_child inst e = List.find (is_block inst) (el_kids e)"

definition find_port :: "string \<Rightarrow> string \<Rightarrow> xml \<Rightarrow> xml option" where
  "find_port direction port e =
     List.find (\<lambda>p. el_tag p = ''port'' \<and> el_get p ''name'' = Some port)
       (concat (map el_kids (filter (\<lambda>d. el_tag d = direction) (el_kids e))))"

text \<open>\<open>el.text.strip()\<close> of a port with a text\<close>

definition port_text :: "xml option \<Rightarrow> string option" where
  "port_text p =
     (case p of None \<Rightarrow> None
      | Some e \<Rightarrow> (case el_text e of None \<Rightarrow> None | Some t \<Rightarrow> if t = [] then None else Some (strip t)))"

text \<open>\<open>re.search(r"fle\[(\d+)\]")\<close> and the full matches of the hard-cell names\<close>

definition is_dec_digit :: "char \<Rightarrow> bool" where
  "is_dec_digit c \<longleftrightarrow> 48 \<le> code c \<and> code c \<le> 57"

definition bracket_index :: "string \<Rightarrow> string \<Rightarrow> nat option" where
  "bracket_index pre s =
     (if prefixed pre s then
        (let t = drop (length pre) s; ds = takeWhile is_dec_digit t; u = dropWhile is_dec_digit t
         in if ds \<noteq> [] \<and> prefixed '']'' u then Some (str_nat ds) else None)
      else None)"

fun fle_index :: "string \<Rightarrow> nat option" where
  "fle_index [] = None"
| "fle_index (c # s) =
     (case bracket_index ''fle['' (c # s) of Some n \<Rightarrow> Some n | None \<Rightarrow> fle_index s)"

definition hard_cell_name :: "string \<Rightarrow> string \<Rightarrow> bool" where
  "hard_cell_name pre s \<longleftrightarrow> bracket_index pre s \<noteq> None
     \<and> drop 1 (dropWhile is_dec_digit (drop (length pre) s)) = []"

definition fle_ff_used :: "xml \<Rightarrow> bool" where
  "fle_ff_used fl =
     (case find_child ''ble4[0]'' fl of None \<Rightarrow> False
      | Some ble4 \<Rightarrow> (case find_child ''ff[0]'' ble4 of None \<Rightarrow> False
                      | Some ff \<Rightarrow> el_get ff ''name'' \<noteq> Some ''open''))"

definition fle_out_net :: "xml \<Rightarrow> string option" where
  "fle_out_net fl =
     (let outnet = (case find_below ''lut[0]'' fl of None \<Rightarrow> None
                    | Some lut \<Rightarrow> port_text (find_port ''outputs'' ''out'' lut))
      in if fle_ff_used fl then
           (case find_below ''ff[0]'' fl of None \<Rightarrow> outnet
            | Some ff \<Rightarrow> (case port_text (find_port ''outputs'' ''Q'' ff) of None \<Rightarrow> outnet | Some q \<Rightarrow> Some q))
         else outnet)"

definition is_fle :: "xml \<Rightarrow> bool" where
  "is_fle fl \<longleftrightarrow> prefixed ''fle['' (el_get_or fl ''instance'' []) \<and> el_get fl ''mode'' = Some ''n1_lut4''"

definition tile_output_nets :: "xml \<Rightarrow> string set" where
  "tile_output_nets clb = set (List.map_filter fle_out_net (filter is_fle (el_kids clb)))"

section \<open>Nets joined by buffers\<close>

text \<open>
  Loops over the parent links may in principle not end: the outer option is \<open>None\<close> then. A
  missing key raises.
\<close>

definition lp_bind :: "('e + 'a) option \<Rightarrow> ('a \<Rightarrow> ('e + 'b) option) \<Rightarrow> ('e + 'b) option" where
  "lp_bind m f = (case m of None \<Rightarrow> None | Some (Inl e) \<Rightarrow> Some (Inl e) | Some (Inr x) \<Rightarrow> f x)"

type_synonym links = "(string \<times> string) list"

partial_function (option) uf_root :: "links \<Rightarrow> string \<Rightarrow> (bitgen_err + string) option" where
  "uf_root parent root =
     (case map_of parent root of None \<Rightarrow> Some (Inl KeyErr)
      | Some p \<Rightarrow> if p = root then Some (Inr root) else uf_root parent p)"

partial_function (option) uf_compress :: "links \<Rightarrow> string \<Rightarrow> string \<Rightarrow> (bitgen_err + links) option" where
  "uf_compress parent root x =
     (case map_of parent x of None \<Rightarrow> Some (Inl KeyErr)
      | Some p \<Rightarrow> if p = root then Some (Inr parent) else uf_compress (AList.update x root parent) root p)"

definition uf_default :: "links \<Rightarrow> string \<Rightarrow> links" where
  "uf_default parent x = (if map_of parent x = None then AList.update x x parent else parent)"

definition uf_find :: "links \<Rightarrow> string \<Rightarrow> (bitgen_err + string \<times> links) option" where
  "uf_find parent x =
     (let parent = uf_default parent x in
      lp_bind (uf_root parent x) (\<lambda>root.
      lp_bind (uf_compress parent root x) (\<lambda>parent. Some (Inr (root, parent)))))"

definition is_buffer :: "cover \<Rightarrow> bool" where
  "is_buffer c \<longleftrightarrow> length (fst c) = 1 \<and> snd c = [(''1'', 1)]"

fun uf_union :: "(string \<times> cover) list \<Rightarrow> links \<Rightarrow> (bitgen_err + links) option" where
  "uf_union [] parent = Some (Inr parent)"
| "uf_union ((out, cov) # names) parent =
     (if is_buffer cov then
        lp_bind (uf_find parent out) (\<lambda>(ra, parent).
        lp_bind (uf_find parent (hd (fst cov))) (\<lambda>(rb, parent).
          uf_union names (if ra \<noteq> rb then AList.update (max ra rb) (min ra rb) parent else parent)))
      else uf_union names parent)"

fun uf_classes :: "string list \<Rightarrow> links \<Rightarrow> (string \<times> string list) list \<Rightarrow> (bitgen_err + (string \<times> string list) list) option" where
  "uf_classes [] parent classes = Some (Inr classes)"
| "uf_classes (net # nets) parent classes =
     lp_bind (uf_find parent net) (\<lambda>(root, parent).
       uf_classes nets parent
         (AList.update root ((case map_of classes root of None \<Rightarrow> [] | Some ms \<Rightarrow> ms) @ [net]) classes))"

definition buffer_classes :: "(string \<times> cover) list \<Rightarrow> (bitgen_err + (string \<rightharpoonup> string list)) option" where
  "buffer_classes names =
     lp_bind (uf_union names []) (\<lambda>parent.
     lp_bind (uf_classes (map fst parent) parent []) (\<lambda>classes.
       Some (Inr (foldl (\<lambda>d ms. foldl (\<lambda>d net. d(net \<mapsto> sort ms)) d ms) Map.empty (map snd classes)))))"

section \<open>A cluster tile\<close>

record demand =
  d_ext :: "(string \<times> nat) list"
  d_fb :: "(string \<times> nat \<times> nat) list"
  d_inputs :: "string list"
  d_tt :: "int option"

definition fles_of :: "xml \<Rightarrow> bitgen_err + (nat \<times> xml) list" where
  "fles_of clb =
     res_map (\<lambda>fl. case fle_index (el_get_or fl ''instance'' []) of None \<Rightarrow> Inl AssertErr | Some gi \<Rightarrow> Inr (gi, fl))
       (filter is_fle (el_kids clb))"

definition fle_outputs :: "(nat \<times> xml) list \<Rightarrow> (nat \<times> string option) list" where
  "fle_outputs fles =
     foldl (\<lambda>outs (gi, fl). AList.update gi (fle_out_net fl) outs) (map (\<lambda>k. (k, None)) [0..<CLB_N]) fles"

definition fb_of_net :: "(nat \<times> string option) list \<Rightarrow> (string \<rightharpoonup> nat)" where
  "fb_of_net outs = foldl (\<lambda>d (j, net). case net of None \<Rightarrow> d | Some n \<Rightarrow> d(n \<mapsto> j)) Map.empty outs"

text \<open>The cover of a LUT: by the name of its leaf block, else by its output net.\<close>

definition lut_cover :: "(string \<times> cover) list \<Rightarrow> (nat \<times> string option) list \<Rightarrow> nat \<Rightarrow> xml \<Rightarrow> cover option" where
  "lut_cover names outs gi fl =
     (let func_net = (case find_below ''lut[0]'' fl of None \<Rightarrow> None | Some lut \<Rightarrow> el_get lut ''name'');
          key = (case func_net of None \<Rightarrow> get_opt outs gi
                 | Some n \<Rightarrow> if map_of names n = None then get_opt outs gi else Some n)
      in case key of None \<Rightarrow> None | Some k \<Rightarrow> map_of names k)"

definition add_demand :: "(string \<Rightarrow> string) \<Rightarrow> (string \<rightharpoonup> nat) \<Rightarrow> demand \<Rightarrow> nat \<times> string \<Rightarrow> demand" where
  "add_demand canon fb dem = (\<lambda>(pos, net).
     let net = canon net in
     case fb net of
       Some j \<Rightarrow> dem\<lparr>d_fb := AList.update net (j, pos) (d_fb dem)\<rparr>
     | None \<Rightarrow> dem\<lparr>d_ext := AList.update net pos (d_ext dem)\<rparr>)"

definition no_demand :: demand where
  "no_demand = \<lparr>d_ext = [], d_fb = [], d_inputs = [], d_tt = None\<rparr>"

definition lut_demand ::
  "(string \<times> cover) list \<Rightarrow> (string \<Rightarrow> string) \<Rightarrow> (nat \<times> string option) list \<Rightarrow> (nat \<times> xml) \<Rightarrow> bitgen_err + nat \<times> demand" where
  "lut_demand names canon outs = (\<lambda>(gi, fl).
     case lut_cover names outs gi fl of
       None \<Rightarrow> Inr (gi, no_demand)
     | Some (input_list, cubes) \<Rightarrow>
         res_bind (blif_names_to_logical_tt input_list cubes) (\<lambda>tt.
           Inr (gi, foldl (add_demand canon (fb_of_net outs))
                      (no_demand\<lparr>d_inputs := input_list, d_tt := Some tt\<rparr>) (enumerate 0 input_list))))"

definition demands_of :: "(nat \<times> demand) list \<Rightarrow> (nat \<times> demand) list" where
  "demands_of ds = foldl (\<lambda>dems (gi, d). AList.update gi d dems) [] ds"

definition lut_ext_of :: "(nat \<times> demand) list \<Rightarrow> (nat \<times> string list) list" where
  "lut_ext_of demands =
     map (\<lambda>(gi, d). (gi, sort (map fst (d_ext d)))) (filter (\<lambda>(gi, d). d_ext d \<noteq> []) demands)"

definition cluster_inputs_of :: "((string \<times> nat) \<times> nat) list \<Rightarrow> (nat \<times> string option) list" where
  "cluster_inputs_of pins =
     foldl (\<lambda>ins ((net, c), pin). AList.update pin (Some net) ins) (map (\<lambda>k. (k, None)) [0..<CLB_EXT_IN])
       (sort_key snd pins)"

fun configure_pins ::
  "nat \<Rightarrow> demand \<Rightarrow> nat \<Rightarrow> pin_entry option list \<Rightarrow> (nat \<times> nat \<rightharpoonup> int) \<Rightarrow> nat option list
     \<Rightarrow> bitgen_err + (nat \<times> nat \<rightharpoonup> int) \<times> nat option list" where
  "configure_pins gi dem gk [] mux logpos = Inr (mux, logpos)"
| "configure_pins gi dem gk (None # entries) mux logpos =
     configure_pins gi dem (Suc gk) entries (mux((gi, gk) \<mapsto> 0)) logpos"
| "configure_pins gi dem gk (Some (kind, idx, net) # entries) mux logpos =
     res_bind (iib_sel_for gi gk (kind, int idx)) (\<lambda>sel.
       case (case map_of (d_ext dem) net of Some pos \<Rightarrow> Some pos
             | None \<Rightarrow> map_option snd (map_of (d_fb dem) net)) of
         None \<Rightarrow> Inl KeyErr
       | Some pos \<Rightarrow> configure_pins gi dem (Suc gk) entries (mux((gi, gk) \<mapsto> sel)) (logpos[gk := Some pos]))"

definition phys_tt_of :: "demand \<Rightarrow> nat option list \<Rightarrow> bitgen_err + int" where
  "phys_tt_of dem pin_logpos =
     (case d_tt dem of None \<Rightarrow> Inr 0
      | Some tt \<Rightarrow>
          let n_in = length (d_inputs dem) in
          if n_in = CLB_K then
            (if None \<in> set pin_logpos then Inl AssertErr else permute_tt tt (map the pin_logpos))
          else expand_logical_tt tt n_in pin_logpos)"

definition new_elut :: "int \<Rightarrow> bool \<Rightarrow> elut_config" where
  "new_elut tt ff_en =
     \<lparr>ec_tt = tt, ec_ff_en = ff_en, ec_ff_rst_en = False, ec_ff_rst_val = False, ec_out_inv = False\<rparr>"

fun configure_luts ::
  "(nat \<times> demand) list \<Rightarrow> (nat \<times> string \<rightharpoonup> nat) \<Rightarrow> ((string \<times> nat) \<times> nat) list \<Rightarrow> (nat \<times> xml) list
     \<Rightarrow> tile_logic \<Rightarrow> bitgen_err + tile_logic" where
  "configure_luts demands classes pins [] tile = Inr tile"
| "configure_luts demands classes pins ((gi, fl) # fles) tile =
     (case map_of demands gi of
        None \<Rightarrow> Inl KeyErr
      | Some dem \<Rightarrow>
          res_bind (assign_lut_gk gi (d_ext dem) (d_fb dem) classes pins) (\<lambda>gk_map.
          res_bind (configure_pins gi dem 0 gk_map (tl_iib_mux tile) (replicate CLB_K None)) (\<lambda>(mux, logpos).
          res_bind (phys_tt_of dem logpos) (\<lambda>tt.
            configure_luts demands classes pins fles
              (tile\<lparr>tl_iib_mux := mux,
                    tl_eluts := AList.update gi (new_elut tt (fle_ff_used fl)) (tl_eluts tile)\<rparr>)))))"

definition build_tile :: "(string \<times> cover) list \<Rightarrow> (string \<Rightarrow> string) \<Rightarrow> xml \<Rightarrow> bitgen_err + tile_logic" where
  "build_tile names canon clb =
     res_bind (fles_of clb) (\<lambda>fles.
     let outs = fle_outputs fles in
     res_bind (res_map (lut_demand names canon outs) fles) (\<lambda>ds.
     let demands = demands_of ds in
     res_bind (solve_iib_classes (lut_ext_of demands) (CLB_EXT_IN div 2) (CLB_K div 2)) (\<lambda>solved.
     case solved of
       None \<Rightarrow> Inl Infeasible
     | Some (classes, ncs) \<Rightarrow>
         let pins = iib_pins_of ncs in
         configure_luts demands classes pins fles
           \<lparr>tl_eluts = [], tl_iib_mux = Map.empty, tl_inputs = cluster_inputs_of pins, tl_outputs = outs\<rparr>)))"

section \<open>Hard cells and the database\<close>

definition port_nets :: "xml \<Rightarrow> string \<Rightarrow> string \<Rightarrow> string list" where
  "port_nets block port direction =
     (case find_port direction port block of None \<Rightarrow> []
      | Some el \<Rightarrow> (case el_text el of None \<Rightarrow> [] | Some t \<Rightarrow> filter (\<lambda>tok. tok \<noteq> ''open'') (split_ws t)))"

definition or_else :: "'a list \<Rightarrow> 'a list \<Rightarrow> 'a list" where
  "or_else xs ys = (if xs \<noteq> [] then xs else ys)"

definition leaf_nets :: "xml option \<Rightarrow> string \<Rightarrow> string \<Rightarrow> string list" where
  "leaf_nets leaf port direction = (case leaf of None \<Rightarrow> [] | Some l \<Rightarrow> port_nets l port direction)"

definition parse_macc :: "xml \<Rightarrow> int \<times> int \<Rightarrow> macc_cell" where
  "parse_macc block tile =
     (let leaf = find_below ''mult_27x18_slice[0]'' block in
      \<lparr>mc_a = or_else (port_nets block ''a'' ''inputs'') (leaf_nets leaf ''A'' ''inputs''),
       mc_b = or_else (port_nets block ''b'' ''inputs'') (leaf_nets leaf ''B'' ''inputs''),
       mc_y = or_else (leaf_nets leaf ''Y'' ''outputs'') (port_nets block ''out'' ''outputs''),
       mc_tile = tile\<rparr>)"

text \<open>The path that \<open>_parse_mem\<close> builds uses \<open>contains(...)\<close>, which \<open>ElementTree\<close> rejects when the
  path is compiled, whatever the block holds.\<close>

definition parse_mem :: "xml \<Rightarrow> int \<times> int \<Rightarrow> bitgen_err + unit" where
  "parse_mem block tile = Inl PathSyntaxErr"

definition is_clb :: "xml \<Rightarrow> bool" where
  "is_clb e \<longleftrightarrow> prefixed ''clb['' (el_get_or e ''instance'' []) \<and> el_get e ''mode'' = Some ''default''"

definition canon_net :: "string set \<Rightarrow> string set \<Rightarrow> (string \<rightharpoonup> string list) \<Rightarrow> string \<Rightarrow> string" where
  "canon_net driven pi_set classes net =
     (if net \<in> driven \<or> net \<in> pi_set then net
      else case classes net of None \<Rightarrow> net
           | Some members \<Rightarrow>
               (case List.find (\<lambda>m. m \<in> pi_set) members of Some m \<Rightarrow> m
                | None \<Rightarrow> (case List.find (\<lambda>m. m \<in> driven) members of Some m \<Rightarrow> m | None \<Rightarrow> net)))"

definition po_aliases_of :: "string set \<Rightarrow> (string \<rightharpoonup> string list) \<Rightarrow> string list \<Rightarrow> (string \<times> string) list" where
  "po_aliases_of driven classes primary_out =
     foldl (\<lambda>al p.
       if p \<in> driven then al
       else case List.find (\<lambda>m. m \<in> driven) (case classes p of None \<Rightarrow> [] | Some ms \<Rightarrow> ms) of
              None \<Rightarrow> al | Some m \<Rightarrow> AList.update p m al) [] primary_out"

fun add_blocks ::
  "(string \<times> cover) list \<Rightarrow> (string \<Rightarrow> string) \<Rightarrow> (string \<times> int \<times> int) list \<Rightarrow> xml list \<Rightarrow> fabric_db
     \<Rightarrow> bitgen_err + fabric_db" where
  "add_blocks names canon cluster_pos [] db = Inr db"
| "add_blocks names canon cluster_pos (e # es) db =
     (let inst = el_get_or e ''instance'' [];
          pos = (case el_get e ''name'' of None \<Rightarrow> None | Some n \<Rightarrow> map_of cluster_pos n)
      in if is_clb e then
           (case pos of None \<Rightarrow> add_blocks names canon cluster_pos es db
            | Some p \<Rightarrow> res_bind (build_tile names canon e) (\<lambda>tile.
                add_blocks names canon cluster_pos es (db\<lparr>db_tiles := AList.update p tile (db_tiles db)\<rparr>)))
         else if hard_cell_name ''mult_27x18['' inst then
           (case pos of None \<Rightarrow> add_blocks names canon cluster_pos es db
            | Some p \<Rightarrow> add_blocks names canon cluster_pos es
                (db\<lparr>db_macc := AList.update p (parse_macc e p) (db_macc db)\<rparr>))
         else if hard_cell_name ''mem_2Kx32['' inst then
           (case pos of None \<Rightarrow> add_blocks names canon cluster_pos es db
            | Some p \<Rightarrow> res_bind (parse_mem e p) (\<lambda>_. add_blocks names canon cluster_pos es db))
         else add_blocks names canon cluster_pos es db)"

definition build_db :: "xml \<Rightarrow> string \<Rightarrow> string \<Rightarrow> (bitgen_err + fabric_db) option" where
  "build_db root place_text blif_text =
     (case parse_blif blif_text of
        Inl e \<Rightarrow> Some (Inl e)
      | Inr (names, primary_in, primary_out) \<Rightarrow>
          let cluster_pos = parse_place place_text;
              driven = \<Union> (set (map tile_output_nets (filter is_clb (el_kids root))));
              pi_set = set primary_in
          in lp_bind (buffer_classes names) (\<lambda>classes.
               Some (add_blocks names (canon_net driven pi_set classes) cluster_pos (el_kids root)
                 \<lparr>db_tiles = [], db_inputs = primary_in, db_outputs = primary_out,
                  db_po_aliases = po_aliases_of driven classes primary_out, db_macc = []\<rparr>)))"

end
