(* ===== verification/Bitgen_Sim.thy ===== *)
theory Bitgen_Sim
  imports Bitgen_Db
begin

text \<open>
  The two evaluators of a tile: \<open>simulate_tile\<close> of bitgen_sim.py over net values, and
  \<open>clb_eval_bits\<close> and \<open>clb_ff_next\<close> of fabric_sim.py over the bits of the cluster inputs
  (both under ethereal-tools/tools/mapper/bitgen). A sweep evaluates the eLUTs in the order of
  the tile's dict and sees the outputs already updated in the same sweep; sweeps repeat while
  an output changes, a bounded number of times.
\<close>

section \<open>One eLUT\<close>

text \<open>\<open>vin |= (bit & 1) << gk\<close> over the pins\<close>

definition lut_vin :: "(nat \<Rightarrow> int) \<Rightarrow> int" where
  "lut_vin pin = foldl (\<lambda>vin gk. vin OR push_bit gk (pin gk AND 1)) 0 [0..<CLB_K]"

definition sel_of :: "tile_logic \<Rightarrow> nat \<Rightarrow> nat \<Rightarrow> int" where
  "sel_of tile gi gk = (case tl_iib_mux tile (gi, gk) of None \<Rightarrow> 0 | Some sel \<Rightarrow> sel)"

text \<open>The register or the table, then the output stage\<close>

definition elut_value :: "(nat \<rightharpoonup> int) \<Rightarrow> nat \<Rightarrow> elut_config \<Rightarrow> int \<Rightarrow> int" where
  "elut_value ff_state gi ec vin =
     (let muxed = (if ec_ff_en ec
                   then (case ff_state gi of None \<Rightarrow> (if ec_ff_rst_val ec then 1 else 0) | Some b \<Rightarrow> b) AND 1
                   else bit_at (ec_tt ec) (nat vin))
      in muxed XOR (if ec_out_inv ec then 1 else 0))"

definition net_pin :: "tile_logic \<Rightarrow> (string \<rightharpoonup> int) \<Rightarrow> (nat \<rightharpoonup> int) \<Rightarrow> nat \<Rightarrow> nat \<Rightarrow> int" where
  "net_pin tile input_bits clb gi gk =
     (case iib_decode (sel_of tile gi gk) gk of (kind, idx) \<Rightarrow>
        if kind = ''clb.I'' then
          (let net = (if idx < int (length (tl_inputs tile)) then get_opt (tl_inputs tile) (nat idx) else None)
           in case net of None \<Rightarrow> 0
              | Some n \<Rightarrow> (case input_bits n of None \<Rightarrow> 0 | Some b \<Rightarrow> b))
        else (case clb (nat idx) of None \<Rightarrow> 0 | Some b \<Rightarrow> b))"

definition elut_out :: "tile_logic \<Rightarrow> (string \<rightharpoonup> int) \<Rightarrow> (nat \<rightharpoonup> int) \<Rightarrow> (nat \<rightharpoonup> int) \<Rightarrow> nat \<Rightarrow> elut_config \<Rightarrow> int" where
  "elut_out tile input_bits ff_state clb gi ec =
     elut_value ff_state gi ec (lut_vin (net_pin tile input_bits clb gi))"

section \<open>Sweeps\<close>

type_synonym 'c evaluator = "'c \<Rightarrow> nat \<Rightarrow> elut_config \<Rightarrow> int"

fun sweep :: "(nat \<rightharpoonup> int) evaluator \<Rightarrow> (nat \<times> elut_config) list \<Rightarrow> (nat \<rightharpoonup> int) \<times> bool \<Rightarrow> (nat \<rightharpoonup> int) \<times> bool" where
  "sweep f [] s = s"
| "sweep f ((gi, ec) # es) (clb, changed) =
     (let out = f clb gi ec in
      if clb gi \<noteq> Some out then sweep f es (clb(gi \<mapsto> out), True) else sweep f es (clb, changed))"

fun settle :: "(nat \<rightharpoonup> int) evaluator \<Rightarrow> (nat \<times> elut_config) list \<Rightarrow> nat \<Rightarrow> (nat \<rightharpoonup> int) \<Rightarrow> (nat \<rightharpoonup> int)" where
  "settle f es 0 clb = clb"
| "settle f es (Suc iters) clb =
     (case sweep f es (clb, False) of (clb', changed) \<Rightarrow> if changed then settle f es iters clb' else clb')"

definition seed_outputs :: "tile_logic \<Rightarrow> (nat \<rightharpoonup> int) \<Rightarrow> (nat \<rightharpoonup> int)" where
  "seed_outputs tile ff_state =
     foldl (\<lambda>clb (gi, ec). if ec_ff_en ec then (case ff_state gi of None \<Rightarrow> clb | Some b \<Rightarrow> clb(gi \<mapsto> b AND 1)) else clb)
       (\<lambda>gi. if gi < CLB_N then Some 0 else None) (tl_eluts tile)"

definition settled :: "tile_logic \<Rightarrow> (string \<rightharpoonup> int) \<Rightarrow> (nat \<rightharpoonup> int) \<Rightarrow> nat \<Rightarrow> (nat \<rightharpoonup> int)" where
  "settled tile input_bits ff_state max_iters =
     settle (elut_out tile input_bits ff_state) (tl_eluts tile) max_iters (seed_outputs tile ff_state)"

fun driven_nets :: "(nat \<rightharpoonup> int) \<Rightarrow> (nat \<times> string option) list \<Rightarrow> (string \<rightharpoonup> int) \<Rightarrow> bitgen_err + (string \<rightharpoonup> int)" where
  "driven_nets clb [] d = Inr d"
| "driven_nets clb ((gi, net) # outs) d =
     (case net of None \<Rightarrow> driven_nets clb outs d
      | Some n \<Rightarrow> (case clb gi of None \<Rightarrow> Inl KeyErr | Some b \<Rightarrow> driven_nets clb outs (d(n \<mapsto> b))))"

definition simulate_tile ::
  "tile_logic \<Rightarrow> (string \<rightharpoonup> int) \<Rightarrow> (nat \<rightharpoonup> int) \<Rightarrow> nat \<Rightarrow> bitgen_err + (string \<rightharpoonup> int)" where
  "simulate_tile tile input_bits ff_state max_iters =
     driven_nets (settled tile input_bits ff_state max_iters) (tl_outputs tile) Map.empty"

section \<open>The bit-level evaluator\<close>

text \<open>An index outside the list of input or output bits raises.\<close>

definition pool_bit :: "tile_logic \<Rightarrow> int list \<Rightarrow> int list \<Rightarrow> nat \<Rightarrow> nat \<Rightarrow> bitgen_err + int" where
  "pool_bit tile clb_in clb_out gi gk =
     (case iib_decode (sel_of tile gi gk) gk of (kind, idx) \<Rightarrow>
        if kind = ''clb.I'' then
          (if idx < int CLB_EXT_IN then
             (if nat idx < length clb_in then Inr (clb_in ! nat idx AND 1) else Inl OutOfRange)
           else Inr 0)
        else if nat idx < length clb_out then Inr (clb_out ! nat idx AND 1) else Inl OutOfRange)"

definition pool_vin :: "tile_logic \<Rightarrow> int list \<Rightarrow> int list \<Rightarrow> nat \<Rightarrow> bitgen_err + int" where
  "pool_vin tile clb_in clb_out gi =
     res_bind (res_map (pool_bit tile clb_in clb_out gi) [0..<CLB_K]) (\<lambda>bs.
       Inr (foldl (\<lambda>vin gk. vin OR push_bit gk (bs ! gk)) 0 [0..<CLB_K]))"

definition bits_out :: "tile_logic \<Rightarrow> int list \<Rightarrow> (nat \<rightharpoonup> int) \<Rightarrow> int list \<Rightarrow> nat \<Rightarrow> elut_config \<Rightarrow> bitgen_err + int" where
  "bits_out tile clb_in ff_state clb_out gi ec =
     res_bind (pool_vin tile clb_in clb_out gi) (\<lambda>vin. Inr (elut_value ff_state gi ec vin))"

fun sweep_bits ::
  "(int list \<Rightarrow> nat \<Rightarrow> elut_config \<Rightarrow> bitgen_err + int) \<Rightarrow> (nat \<times> elut_config) list \<Rightarrow> int list \<Rightarrow> bool
     \<Rightarrow> bitgen_err + int list \<times> bool" where
  "sweep_bits f [] clb_out changed = Inr (clb_out, changed)"
| "sweep_bits f ((gi, ec) # es) clb_out changed =
     res_bind (f clb_out gi ec) (\<lambda>out.
       if length clb_out \<le> gi then Inl OutOfRange
       else if clb_out ! gi \<noteq> out then sweep_bits f es (clb_out[gi := out]) True
       else sweep_bits f es clb_out changed)"

fun settle_bits ::
  "(int list \<Rightarrow> nat \<Rightarrow> elut_config \<Rightarrow> bitgen_err + int) \<Rightarrow> (nat \<times> elut_config) list \<Rightarrow> nat \<Rightarrow> int list
     \<Rightarrow> bitgen_err + int list" where
  "settle_bits f es 0 clb_out = Inr clb_out"
| "settle_bits f es (Suc iters) clb_out =
     res_bind (sweep_bits f es clb_out False) (\<lambda>(clb_out, changed).
       if changed then settle_bits f es iters clb_out else Inr clb_out)"

fun seed_bits :: "(nat \<rightharpoonup> int) \<Rightarrow> (nat \<times> elut_config) list \<Rightarrow> int list \<Rightarrow> bitgen_err + int list" where
  "seed_bits ff_state [] clb_out = Inr clb_out"
| "seed_bits ff_state ((gi, ec) # es) clb_out =
     (if ec_ff_en ec then
        (case ff_state gi of None \<Rightarrow> seed_bits ff_state es clb_out
         | Some b \<Rightarrow> if length clb_out \<le> gi then Inl OutOfRange
                     else seed_bits ff_state es (clb_out[gi := b AND 1]))
      else seed_bits ff_state es clb_out)"

definition clb_eval_bits :: "tile_logic \<Rightarrow> int list \<Rightarrow> (nat \<rightharpoonup> int) \<Rightarrow> bitgen_err + int list" where
  "clb_eval_bits tile clb_in ff_state =
     res_bind (seed_bits ff_state (tl_eluts tile) (replicate CLB_N 0)) (\<lambda>clb_out.
       settle_bits (bits_out tile clb_in ff_state) (tl_eluts tile) (CLB_N + 2) clb_out)"

definition clb_ff_next :: "tile_logic \<Rightarrow> int list \<Rightarrow> int list \<Rightarrow> bitgen_err + (nat \<times> int) list" where
  "clb_ff_next tile clb_in clb_out =
     res_bind (res_map (\<lambda>(gi, ec). res_bind (pool_vin tile clb_in clb_out gi) (\<lambda>vin. Inr (gi, bit_at (ec_tt ec) (nat vin))))
         (filter (\<lambda>(gi, ec). ec_ff_en ec) (tl_eluts tile)))
       (\<lambda>nxt. Inr (foldl (\<lambda>d (gi, b). AList.update gi b d) [] nxt))"

end
