(* ===== verification/Bitgen_Pack.thy ===== *)
theory Bitgen_Pack
  imports Bitgen_Net Bitgen_Sim Frame_Codec
begin

text \<open>
  Packing the config database into the frames of the fabric and back
  (ethereal-tools/tools/mapper/bitgen/bitgen_pack.py): the config points of a tile, with or
  without its routing, one frame per column of the bounding box of the tiles. Frames carry no net
  names, so a database read back has none.
\<close>

datatype pack_err =
  NoTiles
| FrameCount nat nat
| FrameErr frame_err
| BadDir string
| MissingPoint string
| DoesNotFit int int nat nat

definition lift_frame :: "frame_err + 'a \<Rightarrow> pack_err + 'a" where
  "lift_frame r = (case r of Inl e \<Rightarrow> Inl (FrameErr e) | Inr x \<Rightarrow> Inr x)"

section \<open>Names of config points\<close>

definition elut_pt :: "nat \<Rightarrow> string" where "elut_pt i = ''elut'' @ nat_str i"
definition iib_pt :: "nat \<Rightarrow> string" where "iib_pt m = ''iib_mux'' @ nat_str m"
definition mux_pt :: "string \<Rightarrow> nat \<Rightarrow> string" where "mux_pt d t = ''mux_'' @ d @ ''_'' @ nat_str t"
definition inj_en_pt :: "nat \<Rightarrow> string" where "inj_en_pt j = ''inj_en_'' @ nat_str j"
definition inj_dir_pt :: "nat \<Rightarrow> string" where "inj_dir_pt j = ''inj_dir_'' @ nat_str j"
definition cb_pt :: "nat \<Rightarrow> string" where "cb_pt i = ''cb_sel_'' @ nat_str i"

definition point_or_0 :: "tile_cfg \<Rightarrow> string \<Rightarrow> int" where
  "point_or_0 cfg n = (case cfg n of None \<Rightarrow> 0 | Some v \<Rightarrow> v)"

section \<open>The grid\<close>

definition db_grid_bounds :: "fabric_db \<Rightarrow> pack_err + int \<times> int \<times> int \<times> int" where
  "db_grid_bounds db =
     (if db_tiles db = [] then Inl NoTiles
      else let xs = map (fst \<circ> fst) (db_tiles db); ys = map (snd \<circ> fst) (db_tiles db)
           in Inr (Min (set xs), Min (set ys), Max (set xs), Max (set ys)))"

text \<open>\<open>FrameMap(R=rows, C=cols, W=12, N=N, K=K, EXT_IN=EXT_IN)\<close> with the other fields at their defaults\<close>

definition clb_frame_map :: "nat \<Rightarrow> nat \<Rightarrow> frame_err + frame_map" where
  "clb_frame_map rows cols = frame_map_init rows cols 12 CLB_N CLB_K CLB_EXT_IN 5 1 11 2 None"

section \<open>The logic of a tile\<close>

definition tile_to_config_points :: "nat \<Rightarrow> nat \<Rightarrow> tile_logic \<Rightarrow> tile_cfg" where
  "tile_to_config_points n k tile =
     (let cfg = foldl (\<lambda>cfg i. cfg(elut_pt i \<mapsto>
                  (case map_of (tl_eluts tile) i of None \<Rightarrow> 0 | Some ec \<Rightarrow> elut_cfg_word ec))) Map.empty [0..<n]
      in foldl (\<lambda>cfg m. cfg(iib_pt m \<mapsto> sel_of tile (m div k) (m mod k))) cfg [0..<n * k])"

definition config_points_to_tile :: "nat \<Rightarrow> nat \<Rightarrow> tile_cfg \<Rightarrow> tile_logic" where
  "config_points_to_tile n k cfg =
     (let tile = foldl (\<lambda>tile i. let w = point_or_0 cfg (elut_pt i) in
                    if w \<noteq> 0 then tile\<lparr>tl_eluts := AList.update i (elut_from_word w) (tl_eluts tile)\<rparr> else tile)
                  empty_tile [0..<n]
      in foldl (\<lambda>tile m. let sel = point_or_0 cfg (iib_pt m) in
             if sel \<noteq> 0 then tile\<lparr>tl_iib_mux := (tl_iib_mux tile)((m div k, m mod k) \<mapsto> sel)\<rparr> else tile)
           tile [0..<n * k])"

section \<open>The database and its frames\<close>

text \<open>One frame per column; the tile at a point of the grid is looked up, a missing one is blank.\<close>

definition pack_grid :: "frame_map \<Rightarrow> nat \<Rightarrow> nat \<Rightarrow> (nat \<Rightarrow> nat \<Rightarrow> pack_err + tile_cfg) \<Rightarrow> pack_err + int list list" where
  "pack_grid fm rows cols cfg_at =
     res_map (\<lambda>c. res_bind (res_map (cfg_at c) [0..<rows]) (\<lambda>col. lift_frame (pack fm col))) [0..<cols]"

definition db_to_frames :: "fabric_db \<Rightarrow> pack_err + int list list \<times> frame_map" where
  "db_to_frames db =
     res_bind (db_grid_bounds db) (\<lambda>(min_x, min_y, max_x, max_y).
     let rows = nat (max_y - min_y + 1); cols = nat (max_x - min_x + 1) in
     res_bind (lift_frame (clb_frame_map rows cols)) (\<lambda>fm.
     res_bind (pack_grid fm rows cols (\<lambda>c r.
         Inr (case map_of (db_tiles db) (int c + min_x, int r + min_y) of
                None \<Rightarrow> Map.empty | Some tile \<Rightarrow> tile_to_config_points CLB_N CLB_K tile)))
       (\<lambda>frames. Inr (frames, fm))))"

definition unpack_frames :: "int list list \<Rightarrow> frame_map \<Rightarrow> pack_err + tile_cfg list list" where
  "unpack_frames frames fm =
     (if length frames \<noteq> fm_C fm then Inl (FrameCount (fm_C fm) (length frames))
      else res_map (\<lambda>frame. lift_frame (unpack fm frame)) frames)"

text \<open>\<open>for c, col in enumerate(cols): for r, x in enumerate(col): d[key c r] = f x\<close>\<close>

definition tabulate :: "(nat \<Rightarrow> nat \<Rightarrow> 'k) \<Rightarrow> ('a \<Rightarrow> 'v) \<Rightarrow> 'a list list \<Rightarrow> ('k \<times> 'v) list" where
  "tabulate key f cols =
     foldl (\<lambda>d (c, col). foldl (\<lambda>d (r, x). AList.update (key c r) (f x) d) d (enumerate 0 col)) [] (enumerate 0 cols)"

definition empty_db :: fabric_db where
  "empty_db = \<lparr>db_tiles = [], db_inputs = [], db_outputs = [], db_po_aliases = [], db_macc = []\<rparr>"

definition frames_to_db :: "int list list \<Rightarrow> frame_map \<Rightarrow> int \<Rightarrow> int \<Rightarrow> pack_err + fabric_db" where
  "frames_to_db frames fm min_x min_y =
     res_bind (unpack_frames frames fm) (\<lambda>cols.
       Inr (empty_db\<lparr>db_tiles := tabulate (\<lambda>c r. (int c + min_x, int r + min_y))
                                  (config_points_to_tile (fm_N fm) (fm_K fm)) cols\<rparr>))"

section \<open>Routing\<close>

record tile_route =
  tr_sb_sel :: "((string \<times> nat) \<times> int) list"
  tr_inject :: "(nat \<times> string) list"
  tr_cb_sel :: "(nat \<times> int) list"

definition empty_route :: tile_route where
  "empty_route = \<lparr>tr_sb_sel = [], tr_inject = [], tr_cb_sel = []\<rparr>"

definition dir_chars :: "string list" where
  "dir_chars = [''n'', ''s'', ''e'', ''w'']"

definition dir_idx :: "string \<rightharpoonup> int" where
  "dir_idx = map_of [(''n'', 0), (''s'', 1), (''e'', 2), (''w'', 3)]"

fun inject_points :: "(nat \<times> string) list \<Rightarrow> tile_cfg \<Rightarrow> pack_err + tile_cfg" where
  "inject_points [] cfg = Inr cfg"
| "inject_points ((j, d) # injs) cfg =
     (case dir_idx d of None \<Rightarrow> Inl (BadDir d)
      | Some v \<Rightarrow> inject_points injs ((cfg(inj_en_pt j \<mapsto> 1))(inj_dir_pt j \<mapsto> v)))"

definition tile_to_full_points :: "nat \<Rightarrow> nat \<Rightarrow> tile_logic \<Rightarrow> tile_route option \<Rightarrow> pack_err + tile_cfg" where
  "tile_to_full_points n k tile rt =
     (let cfg = tile_to_config_points n k tile in
      case rt of None \<Rightarrow> Inr cfg
      | Some rt \<Rightarrow>
          res_bind (inject_points (tr_inject rt)
              (foldl (\<lambda>cfg ((d, t), sel). cfg(mux_pt d t \<mapsto> sel)) cfg (tr_sb_sel rt)))
            (\<lambda>cfg. Inr (foldl (\<lambda>cfg (i, ksub). cfg(cb_pt i \<mapsto> ksub)) cfg (tr_cb_sel rt))))"

text \<open>The points of a cell of the grid: the tile with its routing, either of the two alone, or blank\<close>

type_synonym routes = "((int \<times> int) \<times> tile_route) list"

definition full_at :: "fabric_db \<Rightarrow> routes \<Rightarrow> int \<Rightarrow> int \<Rightarrow> nat \<Rightarrow> nat \<Rightarrow> pack_err + tile_cfg" where
  "full_at db routes x0 y0 c r =
     (let rt = map_of routes (int r, int c) in
      case map_of (db_tiles db) (int c + x0, int r + y0) of
        Some tile \<Rightarrow> tile_to_full_points CLB_N CLB_K tile rt
      | None \<Rightarrow> if rt \<noteq> None then tile_to_full_points CLB_N CLB_K empty_tile rt else Inr Map.empty)"

definition full_to_frames :: "fabric_db \<Rightarrow> routes \<Rightarrow> pack_err + int list list \<times> frame_map" where
  "full_to_frames db routes =
     res_bind (db_grid_bounds db) (\<lambda>(min_x, min_y, max_x, max_y).
     let rows = nat (max_y - min_y + 1); cols = nat (max_x - min_x + 1) in
     res_bind (lift_frame (clb_frame_map rows cols)) (\<lambda>fm.
     res_bind (pack_grid fm rows cols (full_at db routes min_x min_y)) (\<lambda>frames. Inr (frames, fm))))"

definition add_sb_sel :: "tile_cfg \<Rightarrow> tile_route \<Rightarrow> string \<times> nat \<Rightarrow> tile_route" where
  "add_sb_sel cfg tr = (\<lambda>(d, t).
     let sel = point_or_0 cfg (mux_pt d t) in
     if sel \<noteq> 0 then tr\<lparr>tr_sb_sel := AList.update (d, t) sel (tr_sb_sel tr)\<rparr> else tr)"

fun read_injects :: "tile_cfg \<Rightarrow> nat list \<Rightarrow> tile_route \<Rightarrow> pack_err + tile_route" where
  "read_injects cfg [] tr = Inr tr"
| "read_injects cfg (j # js) tr =
     (if point_or_0 cfg (inj_en_pt j) \<noteq> 0 then
        (case cfg (inj_dir_pt j) of None \<Rightarrow> Inl (MissingPoint (inj_dir_pt j))
         | Some v \<Rightarrow>
             let at = (if v < 0 then v + int (length dir_chars) else v) in
             if 0 \<le> at \<and> at < int (length dir_chars)
             then read_injects cfg js (tr\<lparr>tr_inject := AList.update j (dir_chars ! nat at) (tr_inject tr)\<rparr>)
             else Inl (FrameErr IndexErr))
      else read_injects cfg js tr)"

definition add_cb_sel :: "tile_cfg \<Rightarrow> tile_route \<Rightarrow> nat \<Rightarrow> tile_route" where
  "add_cb_sel cfg tr i =
     (let k = point_or_0 cfg (cb_pt i) in
      if k \<noteq> 0 then tr\<lparr>tr_cb_sel := AList.update i k (tr_cb_sel tr)\<rparr> else tr)"

definition route_of_points :: "frame_map \<Rightarrow> tile_cfg \<Rightarrow> pack_err + tile_route" where
  "route_of_points fm cfg =
     (let tr = foldl (add_sb_sel cfg) empty_route (concat (map (\<lambda>d. map (Pair d) [0..<fm_W fm]) dir_chars)) in
      res_bind (read_injects cfg [0..<fm_N fm] tr) (\<lambda>tr.
        Inr (foldl (add_cb_sel cfg) tr [0..<fm_EXT_IN fm])))"

text \<open>The frames are unpacked and read one after the other, so an error of an earlier frame
  comes first.\<close>

definition frames_to_route :: "int list list \<Rightarrow> frame_map \<Rightarrow> pack_err + routes" where
  "frames_to_route frames fm =
     (if length frames \<noteq> fm_C fm then Inl (FrameCount (fm_C fm) (length frames))
      else res_bind (res_map (\<lambda>frame. res_bind (lift_frame (unpack fm frame)) (res_map (route_of_points fm))) frames)
        (\<lambda>cols. Inr (tabulate (\<lambda>c r. (int r, int c)) (\<lambda>tr. tr) cols)))"

section \<open>Frames of a target descriptor\<close>

text \<open>\<open>pack_target_frames\<close> and \<open>unpack_attached\<close> of demo_images.py: the frames of a whole fabric, the
  placed box at its origin, and the database read back with the net names of the first put on again.\<close>

definition pack_target_frames :: "fabric_db \<Rightarrow> routes \<Rightarrow> frame_map \<Rightarrow> pack_err + int list list \<times> (int \<times> int)" where
  "pack_target_frames db routes fm =
     res_bind (db_grid_bounds db) (\<lambda>(min_x, min_y, max_x, max_y).
       if int (fm_C fm) < max_x - min_x + 1 \<or> int (fm_R fm) < max_y - min_y + 1
       then Inl (DoesNotFit (max_x - min_x + 1) (max_y - min_y + 1) (fm_R fm) (fm_C fm))
       else res_bind (pack_grid fm (fm_R fm) (fm_C fm) (full_at db routes min_x min_y))
              (\<lambda>frames. Inr (frames, (min_x, min_y))))"

definition attach_nets :: "int \<times> int \<Rightarrow> ((int \<times> int) \<times> tile_logic) list \<Rightarrow> (int \<times> int) \<times> tile_logic
    \<Rightarrow> ((int \<times> int) \<times> tile_logic) list" where
  "attach_nets offset tiles = (\<lambda>((x, y), src).
     let p = (x - fst offset, y - snd offset) in
     case map_of tiles p of None \<Rightarrow> tiles
     | Some dst \<Rightarrow> AList.update p (dst\<lparr>tl_inputs := tl_inputs src, tl_outputs := tl_outputs src\<rparr>) tiles)"

definition unpack_attached ::
  "int list list \<Rightarrow> frame_map \<Rightarrow> fabric_db \<Rightarrow> int \<times> int \<Rightarrow> pack_err + fabric_db \<times> routes" where
  "unpack_attached frames fm db offset =
     res_bind (frames_to_db frames fm 0 0) (\<lambda>db2.
     res_bind (frames_to_route frames fm) (\<lambda>rc2.
       Inr (db2\<lparr>db_inputs := db_inputs db, db_outputs := db_outputs db, db_po_aliases := db_po_aliases db,
                db_tiles := foldl (attach_nets offset) (db_tiles db2) (db_tiles db)\<rparr>, rc2)))"

end
