(* ===== verification/Fabric_Switch.thy ===== *)
theory Fabric_Switch
  imports Bitgen_Pack
begin

text \<open>
  The switch box and the connection block of a fabric tile, as the reference models of
  ethereal-fabric/tests/interconnect/sb_model.py and cb_model.py have them: the configuration
  and the evaluation that fabric_sim.py uses. Tracks are masks, bit \<open>t\<close> for track \<open>t\<close>.
\<close>

datatype fab_err =
  ValueErr string
| NoDbTiles
| RouteOutside int int
| ReservedIndex int
| FabIndexErr
| TileErr bitgen_err

definition lift_tile :: "bitgen_err + 'a \<Rightarrow> fab_err + 'a" where
  "lift_tile r = (case r of Inl e \<Rightarrow> Inl (TileErr e) | Inr x \<Rightarrow> Inr x)"

section \<open>Directions\<close>

definition DIRS :: "string list" where
  "DIRS = [''n'', ''s'', ''e'', ''w'']"

definition DIR_IDX :: "string \<rightharpoonup> nat" where
  "DIR_IDX = map_of [(''n'', 0), (''s'', 1), (''e'', 2), (''w'', 3)]"

definition SOURCES :: "string \<rightharpoonup> string list" where
  "SOURCES = map_of [(''n'', [''s'', ''e'', ''w'']), (''s'', [''n'', ''e'', ''w'']),
                     (''e'', [''n'', ''s'', ''w'']), (''w'', [''n'', ''s'', ''e''])]"

text \<open>The input track on side \<open>src_dir\<close> that feeds track \<open>t\<close> of side \<open>out_dir\<close>, for \<open>t < W\<close>\<close>

definition wilton_track :: "string \<Rightarrow> string \<Rightarrow> nat \<Rightarrow> nat \<Rightarrow> nat" where
  "wilton_track out_dir src_dir t W =
     (if out_dir = ''n'' then
        (if src_dir = ''s'' then t else if src_dir = ''e'' then (t + 1) mod W else (W - t) mod W)
      else if out_dir = ''s'' then
        (if src_dir = ''n'' then t else if src_dir = ''e'' then (2 * W - 2 - t) mod W else (t + W - 1) mod W)
      else if out_dir = ''e'' then
        (if src_dir = ''n'' then (t + W - 1) mod W else if src_dir = ''s'' then (2 * W - 2 - t) mod W else t)
      else
        (if src_dir = ''n'' then (W - t) mod W else if src_dir = ''s'' then (t + W - 1) mod W else t))"

section \<open>The switch box\<close>

text \<open>The keys of \<open>sb_inject\<close> are the enabled injections and its values their directions:
  the code adds to and removes from \<open>inject_en\<close> and \<open>inject_dir\<close> together.\<close>

record switch_box =
  sb_W :: nat
  sb_NINJ :: nat
  sb_sel :: "((nat \<times> nat) \<times> int) list"
  sb_inject :: "(nat \<times> nat) list"

definition switch_box_init :: "nat \<Rightarrow> nat \<Rightarrow> fab_err + switch_box" where
  "switch_box_init W N_INJ =
     (if W < 1 then Inl (ValueErr ''W must be >= 1'')
      else if \<not> N_INJ \<le> W then Inl (ValueErr ''N_INJ must satisfy 0 <= N_INJ <= W'')
      else Inr \<lparr>sb_W = W, sb_NINJ = N_INJ, sb_sel = [], sb_inject = []\<rparr>)"

definition sb_route :: "string \<Rightarrow> nat \<Rightarrow> int \<Rightarrow> switch_box \<Rightarrow> fab_err + switch_box" where
  "sb_route direction track sel sb =
     (case DIR_IDX direction of None \<Rightarrow> Inl (ValueErr ''direction'')
      | Some d \<Rightarrow>
          if \<not> track < sb_W sb then Inl (ValueErr ''track out of range'')
          else Inr (sb\<lparr>sb_sel := AList.update (d, track) (sel AND 3) (sb_sel sb)\<rparr>))"

text \<open>\<open>inject(track, True, direction)\<close>, the only way fabric_sim.py calls it\<close>

definition sb_inject_on :: "nat \<Rightarrow> string \<Rightarrow> switch_box \<Rightarrow> fab_err + switch_box" where
  "sb_inject_on track direction sb =
     (if \<not> track < sb_NINJ sb then Inl (ValueErr ''track out of range'')
      else case DIR_IDX direction of None \<Rightarrow> Inl (ValueErr ''direction'')
      | Some d \<Rightarrow> Inr (sb\<lparr>sb_inject := AList.update track d (sb_inject sb)\<rparr>))"

definition injected :: "switch_box \<Rightarrow> nat \<Rightarrow> nat \<Rightarrow> bool" where
  "injected sb d_idx t \<longleftrightarrow> t < sb_NINJ sb \<and> map_of (sb_inject sb) t = Some d_idx"

type_synonym masks = "string \<Rightarrow> int"

definition drive_sel :: "switch_box \<Rightarrow> masks \<Rightarrow> masks \<Rightarrow> (nat \<times> nat) \<times> int \<Rightarrow> masks" where
  "drive_sel sb ins out = (\<lambda>((d_idx, t), sel).
     if sel = 0 \<or> injected sb d_idx t then out
     else let d = DIRS ! d_idx; src = the (SOURCES d) ! nat (sel - 1); src_t = wilton_track d src t (sb_W sb)
          in if bit_at (ins src) src_t \<noteq> 0 then out(d := out d OR push_bit t 1) else out)"

definition drive_inject :: "int \<Rightarrow> masks \<Rightarrow> nat \<times> nat \<Rightarrow> masks" where
  "drive_inject clb out = (\<lambda>(j, d_idx).
     let d = DIRS ! d_idx
     in if bit_at clb j \<noteq> 0 then out(d := out d OR push_bit j 1) else out(d := out d AND NOT (push_bit j 1)))"

definition sb_outputs :: "switch_box \<Rightarrow> masks \<Rightarrow> int \<Rightarrow> masks" where
  "sb_outputs sb ins clb_out =
     foldl (drive_inject clb_out) (foldl (drive_sel sb ins) (\<lambda>_. 0) (sb_sel sb)) (sb_inject sb)"

section \<open>The connection block\<close>

record conn_block =
  cb_W :: nat
  cb_NCB :: nat
  cb_DIV :: nat
  cb_sel :: "int list"

definition conn_block_init :: "nat \<Rightarrow> nat \<Rightarrow> nat \<Rightarrow> fab_err + conn_block" where
  "conn_block_init W N_CB DIV =
     (if W < 1 then Inl (ValueErr ''W must be >= 1'')
      else if N_CB < 1 then Inl (ValueErr ''N_CB must be >= 1'')
      else if DIV < 1 \<or> 4 * W mod DIV \<noteq> 0 then Inl (ValueErr ''CB_DIV must be >= 1 and divide 4*W'')
      else Inr \<lparr>cb_W = W, cb_NCB = N_CB, cb_DIV = DIV, cb_sel = replicate N_CB 0\<rparr>)"

definition cb_NSUB :: "conn_block \<Rightarrow> nat" where
  "cb_NSUB cb = 4 * cb_W cb div cb_DIV cb"

definition cb_TW :: "conn_block \<Rightarrow> nat" where
  "cb_TW cb = max 1 (nat_bit_length (cb_NSUB cb - 1))"

definition cb_AW :: "conn_block \<Rightarrow> nat" where
  "cb_AW cb = max 1 (nat_bit_length (cb_NCB cb - 1))"

definition cb_configure :: "int \<Rightarrow> int \<Rightarrow> conn_block \<Rightarrow> fab_err + conn_block" where
  "cb_configure addr data cb =
     (let a = addr AND (push_bit (cb_AW cb) 1 - 1);
          k = data AND (push_bit (cb_TW cb) 1 - 1)
      in if int (cb_NSUB cb) \<le> k then Inl (ReservedIndex k)
         else if 0 \<le> a \<and> a < int (cb_NCB cb) then Inr (cb\<lparr>cb_sel := (cb_sel cb)[nat a := k]\<rparr>)
         else Inr cb)"

definition pool_index :: "conn_block \<Rightarrow> nat \<Rightarrow> int \<Rightarrow> int" where
  "pool_index cb i k = int i mod int (cb_DIV cb) + int (cb_DIV cb) * k"

definition track_index :: "string \<Rightarrow> nat \<Rightarrow> nat \<Rightarrow> fab_err + nat" where
  "track_index direction t W =
     (if direction = ''n'' then Inr (0 + t)
      else if direction = ''s'' then Inr (W + t)
      else if direction = ''e'' then Inr (2 * W + t)
      else if direction = ''w'' then Inr (3 * W + t)
      else Inl (ValueErr ''direction''))"

text \<open>\<open>clb_in(out_n, out_s, out_e, out_w)\<close>: bit \<open>p\<close> of the pool is track \<open>p\<close>.\<close>

definition cb_clb_in :: "conn_block \<Rightarrow> masks \<Rightarrow> int list" where
  "cb_clb_in cb out =
     (let W = cb_W cb;
          pool = push_bit (3 * W) (out ''w'') OR push_bit (2 * W) (out ''e'') OR push_bit W (out ''s'') OR out ''n''
      in map (\<lambda>i. bit_at pool (nat (pool_index cb i (cb_sel cb ! i)))) [0..<cb_NCB cb])"

section \<open>What the boxes put out\<close>

lemma dir_cases: "(d :: nat) < 4 \<Longrightarrow> P 0 \<Longrightarrow> P 1 \<Longrightarrow> P 2 \<Longrightarrow> P 3 \<Longrightarrow> P d"
proof -
  assume "d < 4" and p: "P 0" "P 1" "P 2" "P 3"
  then consider "d = 0" | "d = 1" | "d = 2" | "d = 3" by linarith
  then show "P d" by cases (simp_all only: p)
qed

lemma DIR_IDX_DIRS: "d < 4 \<Longrightarrow> DIR_IDX (DIRS ! d) = Some d"
  by (erule dir_cases) (simp_all add: DIRS_def DIR_IDX_def)

lemma DIRS_inj: "d < 4 \<Longrightarrow> d' < 4 \<Longrightarrow> DIRS ! d = DIRS ! d' \<longleftrightarrow> d = d'"
  using DIR_IDX_DIRS by (metis option.inject)

lemma DIR_IDX_Some: "DIR_IDX D = Some d \<Longrightarrow> d < 4 \<and> D = DIRS ! d"
  by (auto simp: DIR_IDX_def DIRS_def split: if_splits)

lemma length_DIRS [simp]: "length DIRS = 4"
  by (simp add: DIRS_def)

lemma in_DIRS: "D \<in> set DIRS \<longleftrightarrow> (\<exists>d. DIR_IDX D = Some d)"
  by (auto simp: DIR_IDX_def DIRS_def)

definition switch_box_ok :: "switch_box \<Rightarrow> bool" where
  "switch_box_ok sb \<longleftrightarrow>
     1 \<le> sb_W sb \<and> sb_NINJ sb \<le> sb_W sb
     \<and> distinct (map fst (sb_sel sb)) \<and> distinct (map fst (sb_inject sb))
     \<and> list_all (\<lambda>((d, t), sel). d < 4 \<and> t < sb_W sb \<and> 0 \<le> sel \<and> sel < 4) (sb_sel sb)
     \<and> list_all (\<lambda>(j, d). j < sb_NINJ sb \<and> d < 4) (sb_inject sb)"

lemma and_3_range: "0 \<le> (v AND 3 :: int)" "(v AND 3 :: int) < 4"
proof -
  have "v AND 3 = take_bit 2 v" by (simp add: take_bit_eq_mask mask_eq_exp_minus_1)
  then show "0 \<le> v AND 3" "v AND 3 < 4" by (simp_all add: take_bit_int_less_exp [of 2 v, simplified])
qed

lemma list_all_update:
  "list_all P xs \<Longrightarrow> P (k, v) \<Longrightarrow> list_all P (AList.update k v xs)"
  by (induction xs) auto

lemma switch_box_init_ok: "switch_box_init W N = Inr sb \<Longrightarrow> switch_box_ok sb \<and> sb = \<lparr>sb_W = W, sb_NINJ = N, sb_sel = [], sb_inject = []\<rparr>"
  by (auto simp: switch_box_init_def switch_box_ok_def split: if_splits)

lemma sb_route_ok:
  assumes "switch_box_ok sb" and "sb_route D t sel sb = Inr sb'"
  shows "switch_box_ok sb'"
proof -
  from assms(2) obtain d where d: "DIR_IDX D = Some d" "t < sb_W sb"
    and sb': "sb' = sb\<lparr>sb_sel := AList.update (d, t) (sel AND 3) (sb_sel sb)\<rparr>"
    by (auto simp: sb_route_def split: option.splits if_splits)
  from assms(1) have "list_all (\<lambda>((d, t), sel). d < 4 \<and> t < sb_W sb \<and> 0 \<le> sel \<and> sel < 4) (sb_sel sb)"
    by (simp only: switch_box_ok_def)
  from list_all_update [OF this, of "(d, t)" "sel AND 3"] d(2) DIR_IDX_Some [OF d(1)] and_3_range [of sel]
  have "list_all (\<lambda>((d, t), sel). d < 4 \<and> t < sb_W sb \<and> 0 \<le> sel \<and> sel < 4) (sb_sel sb')"
    by (simp add: sb')
  with assms(1) show ?thesis by (simp add: switch_box_ok_def sb' distinct_update)
qed

lemma sb_inject_on_ok:
  assumes "switch_box_ok sb" and "sb_inject_on t D sb = Inr sb'"
  shows "switch_box_ok sb'"
proof -
  from assms(2) obtain d where d: "DIR_IDX D = Some d" "t < sb_NINJ sb"
    and sb': "sb' = sb\<lparr>sb_inject := AList.update t d (sb_inject sb)\<rparr>"
    by (auto simp: sb_inject_on_def split: option.splits if_splits)
  from assms(1) have "list_all (\<lambda>(j, d). j < sb_NINJ sb \<and> d < 4) (sb_inject sb)"
    by (simp only: switch_box_ok_def)
  from list_all_update [OF this, of t d] d(2) DIR_IDX_Some [OF d(1)]
  have "list_all (\<lambda>(j, d). j < sb_NINJ sb \<and> d < 4) (sb_inject sb')" by (simp add: sb')
  with assms(1) show ?thesis by (simp add: switch_box_ok_def sb' distinct_update)
qed

text \<open>The folds over the two dicts, one side and one track at a time\<close>

definition sel_bit :: "switch_box \<Rightarrow> masks \<Rightarrow> nat \<Rightarrow> nat \<Rightarrow> int \<Rightarrow> bool" where
  "sel_bit sb ins d t sel \<longleftrightarrow>
     sel \<noteq> 0 \<and> \<not> injected sb d t
     \<and> bit (ins (the (SOURCES (DIRS ! d)) ! nat (sel - 1)))
           (wilton_track (DIRS ! d) (the (SOURCES (DIRS ! d)) ! nat (sel - 1)) t (sb_W sb))"

lemma drive_sel_bit:
  assumes "d < 4" and "d' < 4"
  shows "bit (drive_sel sb ins out ((d', t'), sel) (DIRS ! d)) t
    \<longleftrightarrow> bit (out (DIRS ! d)) t \<or> (d' = d \<and> t' = t \<and> sel_bit sb ins d t sel)"
  using DIRS_inj [OF assms]
  by (auto simp: drive_sel_def sel_bit_def Let_def bit_or_int_iff bit_single simp del: push_bit_of_1)

lemma fold_sel_bit:
  "d < 4 \<Longrightarrow> list_all (\<lambda>((d, t), sel). d < 4) xs \<Longrightarrow>
    bit (foldl (drive_sel sb ins) out xs (DIRS ! d)) t
      \<longleftrightarrow> bit (out (DIRS ! d)) t \<or> (\<exists>sel. ((d, t), sel) \<in> set xs \<and> sel_bit sb ins d t sel)"
proof (induction xs arbitrary: out)
  case Nil
  then show ?case by simp
next
  case (Cons x xs)
  obtain d' t' sel where x: "x = ((d', t'), sel)" by (metis prod.exhaust)
  from Cons.prems x have d': "d' < 4" by simp
  show ?case using Cons drive_sel_bit [OF Cons.prems(1) d'] by (auto simp: x)
qed

lemma drive_inject_bit:
  assumes "d < 4" and "d' < 4"
  shows "bit (drive_inject clb out (j, d') (DIRS ! d)) t
    \<longleftrightarrow> (if d' = d \<and> j = t then bit clb t else bit (out (DIRS ! d)) t)"
  using DIRS_inj [OF assms]
  by (auto simp: drive_inject_def Let_def bit_or_int_iff bit_and_int_iff bit_not_int_iff bit_single simp del: push_bit_of_1)

lemma fold_inject_bit:
  "d < 4 \<Longrightarrow> list_all (\<lambda>(j, d). d < 4) xs \<Longrightarrow> distinct (map fst xs) \<Longrightarrow>
    bit (foldl (drive_inject clb) out xs (DIRS ! d)) t
      \<longleftrightarrow> (if (t, d) \<in> set xs then bit clb t else bit (out (DIRS ! d)) t)"
proof (induction xs arbitrary: out)
  case Nil
  then show ?case by simp
next
  case (Cons x xs)
  obtain j d' where x: "x = (j, d')" by (metis prod.exhaust)
  from Cons.prems x have d': "d' < 4" by simp
  show ?case using Cons drive_inject_bit [OF Cons.prems(1) d'] by (auto simp: x)
qed

text \<open>\<open>outputs\<close>: a track is the injected CLB output, or else what its select picks, or else 0.\<close>

lemma sb_outputs_bit:
  assumes ok: "switch_box_ok sb" and d: "d < 4"
  shows "bit (sb_outputs sb ins clb (DIRS ! d)) t \<longleftrightarrow>
    (if injected sb d t then bit clb t
     else case map_of (sb_sel sb) (d, t) of None \<Rightarrow> False | Some sel \<Rightarrow> sel_bit sb ins d t sel)"
proof -
  from ok have di: "distinct (map fst (sb_inject sb))" and ds: "distinct (map fst (sb_sel sb))"
    and inj: "list_all (\<lambda>(j, d). j < sb_NINJ sb \<and> d < 4) (sb_inject sb)"
    and sel: "list_all (\<lambda>((d, t), sel). d < 4) (sb_sel sb)" "list_all (\<lambda>(j, d). d < 4) (sb_inject sb)"
    by (auto simp: switch_box_ok_def list_all_iff)
  have i: "injected sb d t \<longleftrightarrow> (t, d) \<in> set (sb_inject sb)"
    using inj di by (auto simp: injected_def list_all_iff)
  have s: "(\<exists>sel. ((d, t), sel) \<in> set (sb_sel sb) \<and> sel_bit sb ins d t sel)
      \<longleftrightarrow> (case map_of (sb_sel sb) (d, t) of None \<Rightarrow> False | Some sel \<Rightarrow> sel_bit sb ins d t sel)"
    by (cases "map_of (sb_sel sb) (d, t)") (auto simp flip: map_of_eq_Some_iff [OF ds])
  show ?thesis
    unfolding sb_outputs_def fold_inject_bit [OF d sel(2) di] fold_sel_bit [OF d sel(1)] i s by simp
qed

text \<open>A select below the number of subsets, for an existing input, is stored as it is.\<close>

lemma mask_small:
  assumes "n \<le> m" shows "int n AND (push_bit (max 1 (nat_bit_length m)) 1 - 1) = int n"
proof -
  let ?b = "max 1 (nat_bit_length m)"
  have "m < 2 ^ nat_bit_length m" by (rule nat_bit_length_bound)
  also have "\<dots> \<le> 2 ^ ?b" by (intro power_increasing) auto
  finally have "int n < 2 ^ ?b" using assms by (metis le_less_trans of_nat_less_iff of_nat_numeral of_nat_power)
  then have "take_bit ?b (int n) = int n" by (intro take_bit_int_eq_self) simp_all
  then show ?thesis by (simp add: take_bit_eq_mask mask_eq_exp_minus_1 push_bit_eq_mult)
qed

lemma cb_configure_stores:
  assumes "i < cb_NCB cb" and "k < cb_NSUB cb"
  shows "cb_configure (int i) (int k) cb = Inr (cb\<lparr>cb_sel := (cb_sel cb)[i := int k]\<rparr>)"
proof -
  have "int i AND (push_bit (cb_AW cb) 1 - 1) = int i" "int k AND (push_bit (cb_TW cb) 1 - 1) = int k"
    unfolding cb_AW_def cb_TW_def by (rule mask_small, use assms in linarith)+
  with assms show ?thesis by (simp add: cb_configure_def Let_def)
qed

end
