(* ===== verification/Fabric_Sim.thy ===== *)
theory Fabric_Sim
  imports Fabric_Switch
begin

text \<open>
  The fabric simulator of ethereal-tools/tools/mapper/bitgen/fabric_sim.py: \<open>FabricSim\<close> with its
  construction from a database and routes, \<open>evaluate\<close>, \<open>tick\<close> and \<open>simulate_fabric\<close>. The four
  grids \<open>out_n\<close>, \<open>out_s\<close>, \<open>out_e\<close>, \<open>out_w\<close> of the code are one grid of masks by side;
  a pass visits the tiles row by row and sees the masks already updated in the same pass.
\<close>

section \<open>The simulator\<close>

record tile_models =
  tm_sb :: switch_box
  tm_cb :: conn_block
  tm_logic :: "tile_logic option"

record fabric_sim =
  fs_db :: fabric_db
  fs_rc :: routes
  fs_min :: "int \<times> int"
  fs_W :: nat
  fs_N :: nat
  fs_EXT_IN :: nat
  fs_R :: nat
  fs_C :: nat
  fs_tiles :: "tile_models list list"
  fs_po_taps :: "(int \<times> int \<times> nat \<times> string) list"
  fs_last_iters :: nat
  fs_converged :: bool
  fs_last_ff_next :: "((nat \<times> nat \<times> nat) \<times> int) list"

text \<open>The loop that fails at the first error, over a state\<close>

fun res_fold :: "('a \<Rightarrow> 's \<Rightarrow> 'e + 's) \<Rightarrow> 'a list \<Rightarrow> 's \<Rightarrow> 'e + 's" where
  "res_fold f [] s = Inr s"
| "res_fold f (x # xs) s = res_bind (f x s) (res_fold f xs)"

definition configure_tile :: "tile_route \<Rightarrow> tile_models \<Rightarrow> fab_err + tile_models" where
  "configure_tile tr tm =
     res_bind (res_fold (\<lambda>((dd, t), sel). sb_route dd t sel) (tr_sb_sel tr) (tm_sb tm)) (\<lambda>sb.
     res_bind (res_fold (\<lambda>(j, d). sb_inject_on j d) (tr_inject tr) sb) (\<lambda>sb.
     res_bind (res_fold (\<lambda>(i, k). cb_configure (int i) k) (tr_cb_sel tr) (tm_cb tm)) (\<lambda>cb.
       Inr (tm\<lparr>tm_sb := sb, tm_cb := cb\<rparr>))))"

definition grid_update :: "nat \<Rightarrow> nat \<Rightarrow> 'a \<Rightarrow> 'a list list \<Rightarrow> 'a list list" where
  "grid_update r c x grid = grid[r := (grid ! r)[c := x]]"

definition configure_route ::
  "nat \<Rightarrow> nat \<Rightarrow> (int \<times> int) \<times> tile_route \<Rightarrow> tile_models list list \<Rightarrow> fab_err + tile_models list list" where
  "configure_route R C = (\<lambda>((r, c), tr) tiles.
     if \<not> (0 \<le> r \<and> r < int R \<and> 0 \<le> c \<and> c < int C) then Inl (RouteOutside r c)
     else res_bind (configure_tile tr (tiles ! nat r ! nat c)) (\<lambda>tm. Inr (grid_update (nat r) (nat c) tm tiles)))"

definition attach_logic ::
  "nat \<Rightarrow> nat \<Rightarrow> int \<times> int \<Rightarrow> tile_models list list \<Rightarrow> (int \<times> int) \<times> tile_logic \<Rightarrow> tile_models list list" where
  "attach_logic R C corner tiles = (\<lambda>((x, y), logic).
     let r = y - snd corner; c = x - fst corner in
     if 0 \<le> r \<and> r < int R \<and> 0 \<le> c \<and> c < int C
     then grid_update (nat r) (nat c) ((tiles ! nat r ! nat c)\<lparr>tm_logic := Some logic\<rparr>) tiles else tiles)"

text \<open>\<open>{alias: po for po, alias in po_aliases.items()}\<close>: of two outputs with one alias the later one stays.\<close>

definition alias_of :: "fabric_db \<Rightarrow> string \<rightharpoonup> string" where
  "alias_of db = foldl (\<lambda>d (po, alias). d(alias \<mapsto> po)) Map.empty (db_po_aliases db)"

fun output_taps :: "fabric_db \<Rightarrow> int \<Rightarrow> int \<Rightarrow> (nat \<times> string option) list \<Rightarrow> (int \<times> int \<times> nat \<times> string) list" where
  "output_taps db r c [] = []"
| "output_taps db r c ((gi, net) # outs) =
     (case net of None \<Rightarrow> output_taps db r c outs
      | Some n \<Rightarrow>
          if n \<in> set (db_outputs db) then (r, c, gi, n) # output_taps db r c outs
          else (case alias_of db n of None \<Rightarrow> output_taps db r c outs
                | Some po \<Rightarrow> (r, c, gi, po) # output_taps db r c outs))"

definition po_taps_of :: "fabric_db \<Rightarrow> int \<times> int \<Rightarrow> (int \<times> int \<times> nat \<times> string) list" where
  "po_taps_of db corner =
     concat (map (\<lambda>((x, y), tile). output_taps db (y - snd corner) (x - fst corner) (tl_outputs tile)) (db_tiles db))"

definition blank_tiles :: "nat \<Rightarrow> nat \<Rightarrow> nat \<Rightarrow> nat \<Rightarrow> nat \<Rightarrow> fab_err + tile_models list list" where
  "blank_tiles R C W N ext_in =
     res_map (\<lambda>_. res_map (\<lambda>_.
         res_bind (switch_box_init W N) (\<lambda>sb. res_bind (conn_block_init W ext_in 2) (\<lambda>cb.
           Inr \<lparr>tm_sb = sb, tm_cb = cb, tm_logic = None\<rparr>))) [0..<C]) [0..<R]"

definition fabric_sim_init ::
  "fabric_db \<Rightarrow> routes \<Rightarrow> int \<Rightarrow> int \<Rightarrow> nat \<Rightarrow> nat \<Rightarrow> nat \<Rightarrow> fab_err + fabric_sim" where
  "fabric_sim_init db rc min_x min_y W N ext_in =
     (if db_tiles db = [] then Inl NoDbTiles
      else let xs = map (fst \<circ> fst) (db_tiles db); ys = map (snd \<circ> fst) (db_tiles db);
               R = nat (Max (set ys) - min_y + 1); C = nat (Max (set xs) - min_x + 1) in
      res_bind (blank_tiles R C W N ext_in) (\<lambda>tiles.
      res_bind (res_fold (configure_route R C) rc tiles) (\<lambda>tiles.
        Inr \<lparr>fs_db = db, fs_rc = rc, fs_min = (min_x, min_y), fs_W = W, fs_N = N, fs_EXT_IN = ext_in, fs_R = R, fs_C = C,
             fs_tiles = foldl (attach_logic R C (min_x, min_y)) tiles (db_tiles db),
             fs_po_taps = po_taps_of db (min_x, min_y), fs_last_iters = 0, fs_converged = False, fs_last_ff_next = []\<rparr>)))"

section \<open>One tile of a pass\<close>

type_synonym mask4 = "int \<times> int \<times> int \<times> int"

fun side :: "mask4 \<Rightarrow> string \<Rightarrow> int" where
  "side (n, s, e, w) d = (if d = ''n'' then n else if d = ''s'' then s else if d = ''e'' then e else w)"

definition sides :: "masks \<Rightarrow> mask4" where
  "sides f = (f ''n'', f ''s'', f ''e'', f ''w'')"

record pass_state =
  ps_out :: "mask4 list list"
  ps_clb :: "int list list list"
  ps_io :: "((nat \<times> nat) \<times> int list \<times> int list) list"
  ps_changed :: bool

definition gather :: "fabric_sim \<Rightarrow> mask4 list list \<Rightarrow> nat \<Rightarrow> nat \<Rightarrow> masks" where
  "gather sim out r c = (\<lambda>d.
     if d = ''n'' then (if r > 0 then side (out ! (r - 1) ! c) ''s'' else 0)
     else if d = ''s'' then (if r + 1 < fs_R sim then side (out ! (r + 1) ! c) ''n'' else 0)
     else if d = ''e'' then (if c + 1 < fs_C sim then side (out ! r ! (c + 1)) ''w'' else 0)
     else (if c > 0 then side (out ! r ! (c - 1)) ''e'' else 0))"

text \<open>The cluster inputs that carry a given primary input are overridden.\<close>

fun inject_inputs :: "tile_logic \<Rightarrow> (string \<rightharpoonup> int) \<Rightarrow> nat list \<Rightarrow> int list \<Rightarrow> int list" where
  "inject_inputs tile pi_values [] bits = bits"
| "inject_inputs tile pi_values (i # is) bits =
     (case get_opt (tl_inputs tile) i of None \<Rightarrow> inject_inputs tile pi_values is bits
      | Some net \<Rightarrow>
          (case pi_values net of None \<Rightarrow> inject_inputs tile pi_values is bits
           | Some b \<Rightarrow> inject_inputs tile pi_values is (bits[i := b AND 1])))"

text \<open>\<open>for j in range(N): packed |= (bits[j] & 1) << j\<close>\<close>

definition pack_outputs :: "nat \<Rightarrow> int list \<Rightarrow> fab_err + int" where
  "pack_outputs N bits =
     (if length bits < N then Inl FabIndexErr
      else Inr (foldl (\<lambda>packed j. packed OR push_bit j (bits ! j AND 1)) 0 [0..<N]))"

definition tile_ff :: "((nat \<times> nat \<times> nat) \<times> int) list \<Rightarrow> nat \<Rightarrow> nat \<Rightarrow> (nat \<rightharpoonup> int)" where
  "tile_ff ff r c = foldl (\<lambda>d ((r', c', gi), b). if r' = r \<and> c' = c then d(gi \<mapsto> b AND 1) else d) Map.empty ff"

definition eval_clb ::
  "fabric_sim \<Rightarrow> (string \<rightharpoonup> int) \<Rightarrow> ((nat \<times> nat \<times> nat) \<times> int) list option \<Rightarrow> nat \<times> nat \<Rightarrow> pass_state \<Rightarrow> fab_err + int \<times> pass_state" where
  "eval_clb sim pi_values ff = (\<lambda>(r, c) s.
     let tm = fs_tiles sim ! r ! c in
     case tm_logic tm of None \<Rightarrow> Inr (0, s)
     | Some tile \<Rightarrow>
         let bits = inject_inputs tile pi_values [0..<fs_EXT_IN sim] (cb_clb_in (tm_cb tm) (side (ps_out s ! r ! c))) in
         res_bind (lift_tile (clb_eval_bits tile bits (tile_ff (case ff of None \<Rightarrow> [] | Some f \<Rightarrow> f) r c))) (\<lambda>out_bits.
         res_bind (pack_outputs (fs_N sim) out_bits) (\<lambda>packed.
           let s = s\<lparr>ps_clb := grid_update r c out_bits (ps_clb s)\<rparr> in
           Inr (packed, case ff of None \<Rightarrow> s | Some _ \<Rightarrow> s\<lparr>ps_io := AList.update (r, c) (bits, out_bits) (ps_io s)\<rparr>))))"

definition visit_tile ::
  "fabric_sim \<Rightarrow> (string \<rightharpoonup> int) \<Rightarrow> ((nat \<times> nat \<times> nat) \<times> int) list option \<Rightarrow> nat \<times> nat \<Rightarrow> pass_state \<Rightarrow> fab_err + pass_state" where
  "visit_tile sim pi_values ff = (\<lambda>(r, c) s.
     let ins = gather sim (ps_out s) r c in
     res_bind (eval_clb sim pi_values ff (r, c) s) (\<lambda>(packed, s).
       let new = sides (sb_outputs (tm_sb (fs_tiles sim ! r ! c)) ins packed) in
       if new \<noteq> ps_out s ! r ! c
       then Inr (s\<lparr>ps_out := grid_update r c new (ps_out s), ps_changed := True\<rparr>) else Inr s))"

definition cells :: "fabric_sim \<Rightarrow> (nat \<times> nat) list" where
  "cells sim = concat (map (\<lambda>r. map (Pair r) [0..<fs_C sim]) [0..<fs_R sim])"

section \<open>Passes to a fixpoint\<close>

text \<open>The passes done, whether the last one changed nothing, and the state\<close>

fun passes ::
  "fabric_sim \<Rightarrow> (string \<rightharpoonup> int) \<Rightarrow> ((nat \<times> nat \<times> nat) \<times> int) list option \<Rightarrow> nat \<Rightarrow> nat \<Rightarrow> pass_state
     \<Rightarrow> fab_err + nat \<times> bool \<times> pass_state" where
  "passes sim pi_values ff 0 iters s = Inr (iters, False, s)"
| "passes sim pi_values ff (Suc fuel) iters s =
     res_bind (res_fold (visit_tile sim pi_values ff) (cells sim) (s\<lparr>ps_changed := False\<rparr>)) (\<lambda>s.
       if ps_changed s then passes sim pi_values ff fuel (iters + 1) s else Inr (iters + 1, True, s))"

definition start_state :: "fabric_sim \<Rightarrow> pass_state" where
  "start_state sim =
     \<lparr>ps_out = replicate (fs_R sim) (replicate (fs_C sim) (0, 0, 0, 0)),
      ps_clb = replicate (fs_R sim) (replicate (fs_C sim) (replicate (fs_N sim) 0)), ps_io = [], ps_changed = False\<rparr>"

fun captured ::
  "fabric_sim \<Rightarrow> ((nat \<times> nat) \<times> int list \<times> int list) list \<Rightarrow> ((nat \<times> nat \<times> nat) \<times> int) list
     \<Rightarrow> fab_err + ((nat \<times> nat \<times> nat) \<times> int) list" where
  "captured sim [] d = Inr d"
| "captured sim (((r, c), in_bits, out_bits) # io) d =
     (case tm_logic (fs_tiles sim ! r ! c) of None \<Rightarrow> captured sim io d
      | Some tile \<Rightarrow> res_bind (lift_tile (clb_ff_next tile in_bits out_bits)) (\<lambda>nxt.
          captured sim io (foldl (\<lambda>d (gi, b). AList.update (r, c, gi) b d) d nxt)))"

text \<open>\<open>xs[i]\<close> with the negative indexes of Python\<close>

definition py_nth :: "'a list \<Rightarrow> int \<Rightarrow> fab_err + 'a" where
  "py_nth xs i =
     (let k = (if i < 0 then i + int (length xs) else i) in
      if 0 \<le> k \<and> k < int (length xs) then Inr (xs ! nat k) else Inl FabIndexErr)"

definition read_tap :: "int list list list \<Rightarrow> int \<times> int \<times> nat \<times> string \<Rightarrow> (string \<times> int) list \<Rightarrow> fab_err + (string \<times> int) list" where
  "read_tap grid = (\<lambda>(r, c, gi, net) result.
     res_bind (py_nth grid r) (\<lambda>row. res_bind (py_nth row c) (\<lambda>bits. res_bind (py_nth bits (int gi)) (\<lambda>b.
       Inr (AList.update net (b AND 1) result)))))"

definition evaluate ::
  "fabric_sim \<Rightarrow> (string \<rightharpoonup> int) \<Rightarrow> nat \<Rightarrow> ((nat \<times> nat \<times> nat) \<times> int) list option \<Rightarrow> fab_err + (string \<times> int) list \<times> fabric_sim" where
  "evaluate sim pi_values max_iters ff =
     res_bind (passes sim pi_values ff max_iters 0 (start_state sim)) (\<lambda>(iters, converged, s).
     res_bind (case ff of None \<Rightarrow> Inr [] | Some _ \<Rightarrow> captured sim (ps_io s) []) (\<lambda>nxt.
     res_bind (res_fold (read_tap (ps_clb s)) (fs_po_taps sim) []) (\<lambda>result.
       Inr (result, sim\<lparr>fs_last_iters := iters, fs_converged := converged, fs_last_ff_next := nxt\<rparr>))))"

definition tick ::
  "fabric_sim \<Rightarrow> (string \<rightharpoonup> int) \<Rightarrow> ((nat \<times> nat \<times> nat) \<times> int) list \<Rightarrow> nat
     \<Rightarrow> fab_err + ((string \<times> int) list \<times> ((nat \<times> nat \<times> nat) \<times> int) list) \<times> fabric_sim" where
  "tick sim pi_values ff max_iters =
     res_bind (evaluate sim pi_values max_iters (Some ff)) (\<lambda>(_, sim).
     let nxt = fs_last_ff_next sim in
     res_bind (evaluate sim pi_values max_iters (Some nxt)) (\<lambda>(po, sim). Inr ((po, nxt), sim)))"

definition simulate_fabric ::
  "fabric_db \<Rightarrow> routes \<Rightarrow> (string \<rightharpoonup> int) \<Rightarrow> int \<Rightarrow> int \<Rightarrow> nat \<Rightarrow> nat \<Rightarrow> nat \<Rightarrow> nat \<Rightarrow> fab_err + (string \<times> int) list" where
  "simulate_fabric db rc pi_values min_x min_y W N ext_in max_iters =
     res_bind (fabric_sim_init db rc min_x min_y W N ext_in) (\<lambda>sim.
     res_bind (evaluate sim pi_values max_iters None) (\<lambda>(po, _). Inr po))"

end
