(* ===== verification/Route_Graph.thy ===== *)
theory Route_Graph
  imports Fabric_Switch
begin

text \<open>
  The routing problem of ethereal-tools/tools/mapper/bitgen/bitgen_route.py: the nets of a
  database with their drivers and sinks, and the graph of all routable resources. A node tuple
  \<open>(r, c, kind, ...)\<close> of the code is a constructor with the same fields.
\<close>

datatype node =
  Out int int string nat
| In int int string nat
| ClbOut int int nat
| ClbIn int int nat

datatype meta =
  Chan
| Sb string nat string
| Inj nat string
| Cb nat string nat

type_synonym edge = "node \<times> node \<times> meta"

section \<open>Nets\<close>

datatype net_kind = InterCluster | PrimaryIn | PrimaryOut

record route_net_t =
  nt_name :: string
  nt_driver :: "node option"
  nt_sinks :: "node list"
  nt_kind :: net_kind
  nt_n_drivers :: nat

text \<open>\<open>d[net].append(node)\<close> for the named nets of a dict of the tile\<close>

fun collect :: "(nat \<Rightarrow> node) \<Rightarrow> (nat \<times> string option) list \<Rightarrow> (string \<Rightarrow> node list) \<Rightarrow> (string \<Rightarrow> node list)" where
  "collect mk [] d = d"
| "collect mk ((i, net) # nets) d =
     (case net of None \<Rightarrow> collect mk nets d | Some n \<Rightarrow> collect mk nets (d(n := d n @ [mk i])))"

definition net_drivers :: "fabric_db \<Rightarrow> int \<Rightarrow> int \<Rightarrow> string \<Rightarrow> node list" where
  "net_drivers db min_x min_y =
     foldl (\<lambda>d ((x, y), tile). collect (ClbOut (y - min_y) (x - min_x)) (tl_outputs tile) d) (\<lambda>_. []) (db_tiles db)"

definition net_sinks :: "fabric_db \<Rightarrow> int \<Rightarrow> int \<Rightarrow> string \<Rightarrow> node list" where
  "net_sinks db min_x min_y =
     foldl (\<lambda>d ((x, y), tile). collect (ClbIn (y - min_y) (x - min_x)) (tl_inputs tile) d) (\<lambda>_. []) (db_tiles db)"

definition named_nets :: "(nat \<times> string option) list \<Rightarrow> string list" where
  "named_nets nets = concat (map (\<lambda>(_, net). case net of None \<Rightarrow> [] | Some n \<Rightarrow> [n]) nets)"

definition net_names :: "fabric_db \<Rightarrow> string list" where
  "net_names db = sort (remdups (concat (map (\<lambda>(_, tile). named_nets (tl_outputs tile) @ named_nets (tl_inputs tile)) (db_tiles db))))"

definition mk_net :: "node list \<Rightarrow> node list \<Rightarrow> string \<Rightarrow> route_net_t" where
  "mk_net dlist slist name =
     \<lparr>nt_name = name, nt_driver = (case dlist of [] \<Rightarrow> None | n # _ \<Rightarrow> Some n), nt_sinks = slist,
      nt_kind = (if dlist \<noteq> [] \<and> slist \<noteq> [] then InterCluster else if slist \<noteq> [] then PrimaryIn else PrimaryOut),
      nt_n_drivers = length dlist\<rparr>"

definition extract_nets :: "fabric_db \<Rightarrow> int \<Rightarrow> int \<Rightarrow> route_net_t list" where
  "extract_nets db min_x min_y =
     (let drivers = net_drivers db min_x min_y; sinks = net_sinks db min_x min_y in
      map (\<lambda>name. mk_net (drivers name) (sinks name) name) (net_names db))"

section \<open>The possibility graph\<close>

text \<open>\<open>CHAN_MAP\<close> of fabric_model.py: an output side, the step to the neighbour, its input side\<close>

definition CHAN_MAP :: "(string \<times> (int \<times> int) \<times> string) list" where
  "CHAN_MAP = [(''n'', (-1, 0), ''s''), (''s'', (1, 0), ''n''), (''e'', (0, 1), ''w''), (''w'', (0, -1), ''e'')]"

definition CB_DIV :: nat where
  "CB_DIV = 2"

definition chan_edges :: "nat \<Rightarrow> nat \<Rightarrow> nat \<Rightarrow> int \<Rightarrow> int \<Rightarrow> edge list" where
  "chan_edges R C W r c = concat (map (\<lambda>(od, (dr, dc), ind).
     let nr = r + dr; nc = c + dc in
     if 0 \<le> nr \<and> nr < int R \<and> 0 \<le> nc \<and> nc < int C
     then map (\<lambda>t. (Out r c od t, In nr nc ind t, Chan)) [0..<W] else []) CHAN_MAP)"

definition sb_edges :: "nat \<Rightarrow> int \<Rightarrow> int \<Rightarrow> edge list" where
  "sb_edges W r c = concat (map (\<lambda>dd. concat (map (\<lambda>sd.
     if sd = dd then [] else map (\<lambda>t. (In r c sd (wilton_track dd sd t W), Out r c dd t, Sb dd t sd)) [0..<W]) DIRS)) DIRS)"

definition inj_edges :: "nat \<Rightarrow> int \<Rightarrow> int \<Rightarrow> edge list" where
  "inj_edges N_INJ r c = concat (map (\<lambda>j. map (\<lambda>d. (ClbOut r c j, Out r c d j, Inj j d)) DIRS) [0..<N_INJ])"

text \<open>The indexes of the set \<open>sinks_by_tile[(r, c)]\<close> are taken in increasing order. The order of the
  edges to the sinks of a tile has no effect: no edge leaves a sink, so it is never on the way to
  another node.\<close>

definition sinks_of_tile :: "node list \<Rightarrow> int \<Rightarrow> int \<Rightarrow> nat list" where
  "sinks_of_tile sinks r c = sort (remdups (concat (map (\<lambda>n. case n of
     ClbIn r' c' i \<Rightarrow> if r' = r \<and> c' = c then [i] else [] | _ \<Rightarrow> []) sinks)))"

definition cb_edges :: "nat \<Rightarrow> node list \<Rightarrow> int \<Rightarrow> int \<Rightarrow> edge list" where
  "cb_edges W sinks r c = concat (map (\<lambda>i. concat (map (\<lambda>d. concat (map (\<lambda>t.
     let p = the (DIR_IDX d) * W + t in
     if p mod CB_DIV \<noteq> i mod CB_DIV then [] else [(Out r c d t, ClbIn r c i, Cb i d t)]) [0..<W])) DIRS))
     (sinks_of_tile sinks r c))"

text \<open>Every edge in the order of the calls of \<open>add\<close>; \<open>adj[u]\<close> lists those that leave \<open>u\<close>.\<close>

definition possibility_graph :: "nat \<Rightarrow> nat \<Rightarrow> nat \<Rightarrow> nat \<Rightarrow> node list \<Rightarrow> edge list" where
  "possibility_graph R C W N_INJ sinks =
     concat (map (\<lambda>r. concat (map (\<lambda>c.
       chan_edges R C W (int r) (int c) @ sb_edges W (int r) (int c) @ inj_edges N_INJ (int r) (int c)
       @ cb_edges W sinks (int r) (int c)) [0..<C])) [0..<R])"

definition adj_of :: "edge list \<Rightarrow> node \<Rightarrow> (node \<times> meta) list" where
  "adj_of edges u = map snd (filter (\<lambda>e. fst e = u) edges)"

end
