(* ===== verification/Route_Find.thy ===== *)
theory Route_Find
  imports Route_Graph
begin

text \<open>
  The router of bitgen_route.py: the shortest-path search, the routing of one net, the negotiated
  congestion loop and the config of the tiles. Costs are sums of ones and of products of
  counters, whole numbers that a Python float holds exactly, and are \<open>nat\<close> here; \<open>inf\<close> is a missing
  value. A loop that the code gives no bound is a \<open>partial_function\<close>, \<open>None\<close> if it does not end.
\<close>

section \<open>The priority queue\<close>

text \<open>\<open>heapq\<close> on tuples \<open>(cost, counter, node)\<close>: the queue is kept sorted; two entries never have
  one counter, so nodes are not compared.\<close>

type_synonym pq_entry = "nat \<times> nat \<times> node"

definition pq_before :: "pq_entry \<Rightarrow> pq_entry \<Rightarrow> bool" where
  "pq_before x y \<longleftrightarrow> fst x < fst y \<or> (fst x = fst y \<and> fst (snd x) < fst (snd y))"

fun heappush :: "pq_entry \<Rightarrow> pq_entry list \<Rightarrow> pq_entry list" where
  "heappush x [] = [x]"
| "heappush x (y # ys) = (if pq_before x y then x # y # ys else y # heappush x ys)"

section \<open>Shortest paths\<close>

record search =
  se_dist :: "node \<rightharpoonup> nat"
  se_prev :: "node \<rightharpoonup> node \<times> meta"
  se_counter :: nat
  se_pq :: "pq_entry list"

definition edge_cost :: "(node \<Rightarrow> nat) \<Rightarrow> (node \<Rightarrow> nat) \<Rightarrow> node \<Rightarrow> nat" where
  "edge_cost hist present_occ v = 1 + hist v * present_occ v"

definition relax :: "(node \<Rightarrow> nat) \<Rightarrow> node \<Rightarrow> nat \<Rightarrow> search \<Rightarrow> node \<times> meta \<Rightarrow> search" where
  "relax cost u d s = (\<lambda>(v, m).
     let nd = d + cost v in
     if (case se_dist s v of None \<Rightarrow> True | Some x \<Rightarrow> nd < x)
     then s\<lparr>se_dist := (se_dist s)(v \<mapsto> nd), se_prev := (se_prev s)(v \<mapsto> (u, m)),
            se_pq := heappush (nd, se_counter s, v) (se_pq s), se_counter := se_counter s + 1\<rparr>
     else s)"

definition search_step :: "(node \<Rightarrow> (node \<times> meta) list) \<Rightarrow> (node \<Rightarrow> nat) \<Rightarrow> search \<Rightarrow> search" where
  "search_step adj cost s =
     (case se_pq s of [] \<Rightarrow> s
      | (d, _, u) # pq \<Rightarrow>
          let s = s\<lparr>se_pq := pq\<rparr> in
          if (case se_dist s u of None \<Rightarrow> False | Some x \<Rightarrow> x < d) then s
          else foldl (relax cost u d) s (adj u))"

partial_function (option) search_loop :: "(node \<Rightarrow> (node \<times> meta) list) \<Rightarrow> (node \<Rightarrow> nat) \<Rightarrow> search \<Rightarrow> search option" where
  "search_loop adj cost s = (if se_pq s = [] then Some s else search_loop adj cost (search_step adj cost s))"

declare search_loop.simps [code]

definition search_start :: "node \<Rightarrow> search" where
  "search_start src = \<lparr>se_dist = [src \<mapsto> 0], se_prev = Map.empty, se_counter = 1, se_pq = [(0, 0, src)]\<rparr>"

definition dijkstra ::
  "(node \<Rightarrow> (node \<times> meta) list) \<Rightarrow> node \<Rightarrow> (node \<Rightarrow> nat) \<Rightarrow> (node \<Rightarrow> nat) \<Rightarrow> ((node \<rightharpoonup> nat) \<times> (node \<rightharpoonup> node \<times> meta)) option" where
  "dijkstra adj src hist present_occ =
     (case search_loop adj (edge_cost hist present_occ) (search_start src) of None \<Rightarrow> None
      | Some s \<Rightarrow> Some (se_dist s, se_prev s))"

section \<open>One net\<close>

text \<open>The walk from a sink back to the exit: whether it got there, and the edges and nodes added\<close>

partial_function (option) walk_back ::
  "node \<Rightarrow> (node \<rightharpoonup> node \<times> meta) \<Rightarrow> node \<Rightarrow> edge list \<Rightarrow> node list \<Rightarrow> (bool \<times> edge list \<times> node list) option" where
  "walk_back exit_node prev cur edges nodes =
     (if cur = exit_node then Some (True, edges, nodes)
      else case prev cur of None \<Rightarrow> Some (False, edges, nodes)
      | Some (pu, m) \<Rightarrow> walk_back exit_node prev pu (edges @ [(pu, cur, m)]) (List.insert pu nodes))"

declare walk_back.simps [code]

fun walk_sinks ::
  "node \<Rightarrow> (node \<rightharpoonup> node \<times> meta) \<Rightarrow> node list \<Rightarrow> edge list \<Rightarrow> node list \<Rightarrow> (bool \<times> edge list \<times> node list) option" where
  "walk_sinks exit_node prev [] edges nodes = Some (True, edges, nodes)"
| "walk_sinks exit_node prev (sink # sinks) edges nodes =
     (case walk_back exit_node prev sink edges nodes of None \<Rightarrow> None
      | Some (ok, edges, nodes) \<Rightarrow>
          let nodes = List.insert sink nodes in
          if \<not> ok then Some (False, edges, nodes) else walk_sinks exit_node prev sinks edges nodes)"

type_synonym routed = "edge list \<times> node list"

fun try_exits ::
  "(node \<Rightarrow> (node \<times> meta) list) \<Rightarrow> (node \<Rightarrow> nat) \<Rightarrow> (node \<Rightarrow> nat) \<Rightarrow> node \<Rightarrow> int \<Rightarrow> int \<Rightarrow> nat \<Rightarrow> node list \<Rightarrow> string list
     \<Rightarrow> (nat \<times> routed) option \<Rightarrow> (nat \<times> routed) option option" where
  "try_exits adj hist occ driver r c j sinks [] best = Some best"
| "try_exits adj hist occ driver r c j sinks (d # ds) best =
     (let exit_node = Out r c d j in
      case dijkstra adj exit_node hist occ of None \<Rightarrow> None
      | Some (dist, prev) \<Rightarrow>
          if \<not> list_all (\<lambda>s. dist s \<noteq> None) sinks then try_exits adj hist occ driver r c j sinks ds best
          else let total = sum_list (map (\<lambda>s. the (dist s)) sinks) in
            if (case best of None \<Rightarrow> False | Some (b, _) \<Rightarrow> b \<le> total) then try_exits adj hist occ driver r c j sinks ds best
            else case walk_sinks exit_node prev sinks [(driver, exit_node, Inj j d)] (List.insert exit_node [driver]) of
                None \<Rightarrow> None
              | Some (ok, edges, nodes) \<Rightarrow>
                  try_exits adj hist occ driver r c j sinks ds (if ok then Some (total, edges, nodes) else best))"

definition route_net ::
  "route_net_t \<Rightarrow> (node \<Rightarrow> (node \<times> meta) list) \<Rightarrow> (node \<Rightarrow> nat) \<Rightarrow> (node \<Rightarrow> nat) \<Rightarrow> nat \<Rightarrow> routed option option" where
  "route_net net adj hist present_occ N_INJ =
     (case nt_driver net of
        Some (ClbOut r c j) \<Rightarrow>
          if \<not> j < N_INJ then Some None
          else (case try_exits adj hist present_occ (ClbOut r c j) r c j (nt_sinks net) DIRS None of
                  None \<Rightarrow> None
                | Some None \<Rightarrow> Some None
                | Some (Some (_, res)) \<Rightarrow> Some (Some res))
      | _ \<Rightarrow> Some None)"

section \<open>Negotiated congestion\<close>

type_synonym net_edges = "(string \<times> edge list) list"

text \<open>\<open>present_occ\<close> is the dict of the counts; a missing node has none.\<close>

type_synonym occupancy = "(node \<times> nat) list"

definition occ_at :: "occupancy \<Rightarrow> node \<Rightarrow> nat" where
  "occ_at occ n = (case map_of occ n of None \<Rightarrow> 0 | Some k \<Rightarrow> k)"

definition occupy :: "node list \<Rightarrow> occupancy \<Rightarrow> occupancy" where
  "occupy nodes occ = foldl (\<lambda>occ n. AList.update n (occ_at occ n + 1) occ) occ nodes"

fun route_nets ::
  "route_net_t list \<Rightarrow> (node \<Rightarrow> (node \<times> meta) list) \<Rightarrow> (node \<Rightarrow> nat) \<Rightarrow> nat \<Rightarrow> occupancy \<Rightarrow> net_edges \<Rightarrow> (occupancy \<times> net_edges) option" where
  "route_nets [] adj hist N_INJ occ routed = Some (occ, routed)"
| "route_nets (n # ns) adj hist N_INJ occ routed =
     (case route_net n adj hist (occ_at occ) N_INJ of None \<Rightarrow> None
      | Some None \<Rightarrow> route_nets ns adj hist N_INJ occ routed
      | Some (Some (edges, nodes)) \<Rightarrow>
          route_nets ns adj hist N_INJ (occupy nodes occ) (AList.update (nt_name n) edges routed))"

definition over_used :: "occupancy \<Rightarrow> node list" where
  "over_used occ = map fst (filter (\<lambda>(_, k). 1 < k) occ)"

record pf_result =
  pf_converged :: bool
  pf_iters :: nat
  pf_overuse :: nat
  pf_edges :: net_edges

text \<open>\<open>shuffle it\<close> is the permutation that the seeded generator gives in iteration \<open>it\<close>.\<close>

fun pathfinder_loop ::
  "(nat \<Rightarrow> route_net_t list \<Rightarrow> route_net_t list) \<Rightarrow> route_net_t list \<Rightarrow> (node \<Rightarrow> (node \<times> meta) list) \<Rightarrow> nat
     \<Rightarrow> nat \<Rightarrow> nat \<Rightarrow> (node \<Rightarrow> nat) \<Rightarrow> pf_result \<Rightarrow> pf_result option" where
  "pathfinder_loop shuffle active adj N_INJ it 0 hist res = Some res"
| "pathfinder_loop shuffle active adj N_INJ it (Suc left) hist res =
     (case route_nets (shuffle it active) adj hist N_INJ [] [] of None \<Rightarrow> None
      | Some (occ, routed) \<Rightarrow>
          let over = over_used occ in
          if over = [] then Some \<lparr>pf_converged = True, pf_iters = it, pf_overuse = 0, pf_edges = routed\<rparr>
          else pathfinder_loop shuffle active adj N_INJ (it + 1) left
                 (\<lambda>n. if n \<in> set over then hist n + 1 else hist n)
                 \<lparr>pf_converged = False, pf_iters = it, pf_overuse = length over, pf_edges = routed\<rparr>)"

definition run_pathfinder ::
  "(nat \<Rightarrow> route_net_t list \<Rightarrow> route_net_t list) \<Rightarrow> route_net_t list \<Rightarrow> (node \<Rightarrow> (node \<times> meta) list) \<Rightarrow> nat \<Rightarrow> nat \<Rightarrow> pf_result option" where
  "run_pathfinder shuffle active adj max_iters N_INJ =
     pathfinder_loop shuffle active adj N_INJ 1 max_iters (\<lambda>_. 0)
       \<lparr>pf_converged = False, pf_iters = 0, pf_overuse = 0, pf_edges = []\<rparr>"

section \<open>The config of the tiles\<close>

text \<open>\<open>sources(dst_dir).index(src_dir) + 1\<close>\<close>

fun index_from :: "nat \<Rightarrow> 'a \<Rightarrow> 'a list \<Rightarrow> nat option" where
  "index_from k x [] = None"
| "index_from k x (y # ys) = (if y = x then Some k else index_from (Suc k) x ys)"

definition src_to_sel :: "string \<Rightarrow> string \<Rightarrow> fab_err + int" where
  "src_to_sel dst_dir src_dir =
     (case Option.bind (SOURCES dst_dir) (index_from 0 src_dir) of None \<Rightarrow> Inl (ValueErr ''direction'')
      | Some k \<Rightarrow> Inr (int k + 1))"

fun node_tile :: "node \<Rightarrow> int \<times> int" where
  "node_tile (Out r c d t) = (r, c)"
| "node_tile (In r c d t) = (r, c)"
| "node_tile (ClbOut r c j) = (r, c)"
| "node_tile (ClbIn r c i) = (r, c)"

fun configure_edge :: "nat \<Rightarrow> meta \<Rightarrow> tile_route \<Rightarrow> fab_err + tile_route" where
  "configure_edge W Chan tr = Inr tr"
| "configure_edge W (Sb dd t sd) tr =
     res_bind (src_to_sel dd sd) (\<lambda>sel. Inr (tr\<lparr>tr_sb_sel := AList.update (dd, t) sel (tr_sb_sel tr)\<rparr>))"
| "configure_edge W (Inj j d) tr = Inr (tr\<lparr>tr_inject := AList.update j d (tr_inject tr)\<rparr>)"
| "configure_edge W (Cb i d t) tr =
     res_bind (track_index d t W) (\<lambda>p. Inr (tr\<lparr>tr_cb_sel := AList.update i (int (p div CB_DIV)) (tr_cb_sel tr)\<rparr>))"

text \<open>\<open>tiles.setdefault(p, TileRoute())\<close> and the update of the entry\<close>

fun populate :: "nat \<Rightarrow> edge list \<Rightarrow> routes \<Rightarrow> fab_err + routes" where
  "populate W [] tiles = Inr tiles"
| "populate W ((_, v, m) # es) tiles =
     (let p = node_tile v; tr = (case map_of tiles p of None \<Rightarrow> empty_route | Some tr \<Rightarrow> tr) in
      res_bind (configure_edge W m tr) (\<lambda>tr. populate W es (AList.update p tr tiles)))"

definition populate_tiles :: "net_edges \<Rightarrow> nat \<Rightarrow> routes \<Rightarrow> fab_err + routes" where
  "populate_tiles routed W tiles = populate W (concat (map snd routed)) tiles"

section \<open>The router\<close>

datatype unrouted_reason =
  MultiDriver nat
| CannotInject nat nat
| UnreachableSinks "node list"
| NotConverged nat nat

record route_config =
  rc_tiles :: routes
  rc_n_nets :: nat
  rc_n_routed :: nat
  rc_n_iters :: nat
  rc_n_overuse_final :: nat
  rc_converged :: bool
  rc_unrouted :: "(string \<times> unrouted_reason) list"
  rc_n_primary_in :: nat
  rc_n_primary_out :: nat
  rc_grid_dims :: "nat \<times> nat \<times> nat \<times> nat \<times> nat"

definition driver_index :: "route_net_t \<Rightarrow> nat" where
  "driver_index n = (case nt_driver n of Some (ClbOut r c j) \<Rightarrow> j | _ \<Rightarrow> 0)"

definition preflight_reason :: "nat \<Rightarrow> route_net_t \<Rightarrow> unrouted_reason option" where
  "preflight_reason N_INJ n =
     (if 1 < nt_n_drivers n then Some (MultiDriver (nt_n_drivers n))
      else if \<not> driver_index n < N_INJ then Some (CannotInject (driver_index n) N_INJ) else None)"

text \<open>Each routable net from its driver, at no cost but the steps\<close>

fun reach_check ::
  "(node \<Rightarrow> (node \<times> meta) list) \<Rightarrow> route_net_t list \<Rightarrow> (route_net_t list \<times> (string \<times> unrouted_reason) list) option" where
  "reach_check adj [] = Some ([], [])"
| "reach_check adj (n # ns) =
     (case dijkstra adj (the (nt_driver n)) (\<lambda>_. 0) (\<lambda>_. 0) of None \<Rightarrow> None
      | Some (dist, _) \<Rightarrow>
          (case reach_check adj ns of None \<Rightarrow> None
           | Some (active, unrouted) \<Rightarrow>
               if list_all (\<lambda>s. dist s \<noteq> None) (nt_sinks n) then Some (n # active, unrouted)
               else Some (active, (nt_name n, UnreachableSinks (filter (\<lambda>s. dist s = None) (nt_sinks n))) # unrouted)))"

datatype route_err = RoutePack pack_err | RouteFab fab_err

definition route_start :: "route_net_t list \<Rightarrow> nat \<times> nat \<times> nat \<times> nat \<times> nat \<Rightarrow> route_config" where
  "route_start nets dims =
     \<lparr>rc_tiles = [], rc_n_nets = length (filter (\<lambda>n. nt_kind n = InterCluster) nets), rc_n_routed = 0, rc_n_iters = 0,
      rc_n_overuse_final = 0, rc_converged = False, rc_unrouted = [],
      rc_n_primary_in = length (filter (\<lambda>n. nt_kind n = PrimaryIn) nets),
      rc_n_primary_out = length (filter (\<lambda>n. nt_kind n = PrimaryOut) nets), rc_grid_dims = dims\<rparr>"

definition finish_route ::
  "route_config \<Rightarrow> route_net_t list \<Rightarrow> pf_result \<Rightarrow> nat \<Rightarrow> nat \<Rightarrow> route_err + route_config" where
  "finish_route rc active pf max_iters W =
     (let names = (if pf_converged pf then map fst (pf_edges pf) else []);
          lost = (if pf_converged pf then []
                  else map (\<lambda>n. (nt_name n, NotConverged max_iters (pf_overuse pf))) (filter (\<lambda>n. nt_name n \<notin> set names) active))
      in case populate_tiles (pf_edges pf) W (rc_tiles rc) of
           Inl e \<Rightarrow> Inl (RouteFab e)
         | Inr tiles \<Rightarrow>
             Inr (rc\<lparr>rc_converged := pf_converged pf, rc_n_iters := pf_iters pf, rc_n_overuse_final := pf_overuse pf,
                     rc_unrouted := rc_unrouted rc @ lost, rc_n_routed := length names, rc_tiles := tiles\<rparr>))"

definition route ::
  "(nat \<Rightarrow> route_net_t list \<Rightarrow> route_net_t list) \<Rightarrow> fabric_db \<Rightarrow> nat \<Rightarrow> nat \<Rightarrow> nat \<Rightarrow> nat \<Rightarrow> (route_err + route_config) option" where
  "route shuffle db max_iters W N_INJ EXT_IN =
     (case db_grid_bounds db of Inl e \<Rightarrow> Some (Inl (RoutePack e))
      | Inr (min_x, min_y, max_x, max_y) \<Rightarrow>
          let R = nat (max_y - min_y + 1); C = nat (max_x - min_x + 1);
              nets = extract_nets db min_x min_y;
              inter = filter (\<lambda>n. nt_kind n = InterCluster) nets;
              rc = route_start nets (R, C, W, N_INJ, EXT_IN);
              rc = rc\<lparr>rc_unrouted := concat (map (\<lambda>n. case preflight_reason N_INJ n of None \<Rightarrow> [] | Some why \<Rightarrow> [(nt_name n, why)]) inter)\<rparr>;
              routable = filter (\<lambda>n. preflight_reason N_INJ n = None) inter
          in if routable = [] then Some (Inr (rc\<lparr>rc_converged := True\<rparr>))
             else let adj = adj_of (possibility_graph R C W N_INJ (concat (map nt_sinks routable))) in
               case reach_check adj routable of None \<Rightarrow> None
               | Some (active, unreachable) \<Rightarrow>
                   case run_pathfinder shuffle active adj max_iters N_INJ of None \<Rightarrow> None
                   | Some pf \<Rightarrow> Some (finish_route (rc\<lparr>rc_unrouted := rc_unrouted rc @ unreachable\<rparr>) active pf max_iters W))"

end
