(* ===== verification/Route_Paths.thy ===== *)
theory Route_Paths
  imports Route_Find
begin

text \<open>
  The shortest-path search of the router ends and is exact: a locale states what the search needs
  of a graph, its lemmas are proved there once, and the locale is interpreted on the
  edge lists of the router with their congestion costs.
\<close>

section \<open>The queue\<close>

lemma set_heappush [simp]: "set (heappush x xs) = insert x (set xs)"
  by (induction xs) auto

lemma length_heappush [simp]: "length (heappush x xs) = Suc (length xs)"
  by (induction xs) auto

section \<open>Graphs to search\<close>

text \<open>The costs of the paths from a source\<close>

inductive path_cost :: "(node \<Rightarrow> (node \<times> meta) list) \<Rightarrow> (node \<Rightarrow> nat) \<Rightarrow> node \<Rightarrow> node \<Rightarrow> nat \<Rightarrow> bool"
  for adj :: "node \<Rightarrow> (node \<times> meta) list" and cost :: "node \<Rightarrow> nat" and src :: node
where
  start: "path_cost adj cost src src 0"
| step: "path_cost adj cost src u c \<Longrightarrow> (v, m) \<in> set (adj u) \<Longrightarrow> path_cost adj cost src v (c + cost v)"

locale search_graph =
  fixes adj :: "node \<Rightarrow> (node \<times> meta) list" and cost :: "node \<Rightarrow> nat" and src :: node and nodes :: "node set"
  assumes finite_nodes: "finite nodes" and src_node: "src \<in> nodes"
    and closed: "(v, m) \<in> set (adj u) \<Longrightarrow> v \<in> nodes" and cost_pos: "0 < cost v"
begin

text \<open>What holds between two steps of the search\<close>

definition tree_ok :: "search \<Rightarrow> bool" where
  "tree_ok s \<longleftrightarrow> se_dist s src = Some 0 \<and> se_prev s src = None
     \<and> dom (se_dist s) \<subseteq> nodes \<and> dom (se_prev s) = dom (se_dist s) - {src}
     \<and> (\<forall>v u m. se_prev s v = Some (u, m) \<longrightarrow> (v, m) \<in> set (adj u)
          \<and> (\<exists>du dv. se_dist s u = Some du \<and> se_dist s v = Some dv \<and> du + cost v \<le> dv))
     \<and> (\<forall>v d. se_dist s v = Some d \<longrightarrow> (\<exists>c \<le> d. path_cost adj cost src v c))
     \<and> (\<forall>(d, k, u) \<in> set (se_pq s). \<exists>x \<le> d. se_dist s u = Some x)"

lemma tree_link:
  assumes "tree_ok s" and "se_prev s v = Some (u, m)"
  obtains du dv where "(v, m) \<in> set (adj u)" and "se_dist s u = Some du" and "se_dist s v = Some dv" and "du + cost v \<le> dv"
  using assms unfolding tree_ok_def by blast

lemma tree_queued:
  assumes "tree_ok s" and "(d, k, u) \<in> set (se_pq s)"
  obtains x where "x \<le> d" and "se_dist s u = Some x"
proof -
  from assms(1) have "\<forall>(d, k, u) \<in> set (se_pq s). \<exists>x \<le> d. se_dist s u = Some x" 
    unfolding tree_ok_def by (elim conjE)
  from bspec [OF this assms(2)] that show thesis by auto
qed

definition relaxed :: "search \<Rightarrow> node \<Rightarrow> node \<times> meta \<Rightarrow> bool" where
  "relaxed s u = (\<lambda>(v, m). \<forall>x. se_dist s u = Some x \<longrightarrow> (\<exists>y \<le> x + cost v. se_dist s v = Some y))"

definition settled_node :: "search \<Rightarrow> node \<Rightarrow> bool" where
  "settled_node s u \<longleftrightarrow> (\<forall>x. se_dist s u = Some x \<longrightarrow> (\<exists>k. (x, k, u) \<in> set (se_pq s))) \<or> (\<forall>e \<in> set (adj u). relaxed s u e)"

lemma relax_cases:
  obtains (keep) "relax cost u d s (v, m) = s" "\<exists>x \<le> d + cost v. se_dist s v = Some x"
  | (better) "relax cost u d s (v, m) = s\<lparr>se_dist := (se_dist s)(v \<mapsto> d + cost v), se_prev := (se_prev s)(v \<mapsto> (u, m)),
        se_pq := heappush (d + cost v, se_counter s, v) (se_pq s), se_counter := se_counter s + 1\<rparr>"
      "\<And>x. se_dist s v = Some x \<Longrightarrow> d + cost v < x"
proof (cases "se_dist s v")
  case None
  then show thesis by (intro better) (simp_all add: relax_def Let_def)
next
  case (Some x)
  then show thesis
    by (cases "d + cost v < x") (auto simp: relax_def Let_def intro: better keep)
qed

lemma relax_ok:
  assumes ok: "tree_ok s" and u: "se_dist s u = Some d" and e: "(v, m) \<in> set (adj u)"
  shows "tree_ok (relax cost u d s (v, m))" and "se_dist (relax cost u d s (v, m)) u = Some d"
proof -
  have "tree_ok (relax cost u d s (v, m)) \<and> se_dist (relax cost u d s (v, m)) u = Some d"
  proof (cases rule: relax_cases [of u d s v m])
    case keep
    with ok u show ?thesis by simp
  next
    case better
    let ?s = "relax cost u d s (v, m)"
    have nv: "v \<noteq> src" using better(2) ok by (auto simp: tree_ok_def)
    have nu: "v \<noteq> u" using better(2) u cost_pos [of v] by auto
    have dist: "se_dist ?s = (se_dist s)(v \<mapsto> d + cost v)" and prev: "se_prev ?s = (se_prev s)(v \<mapsto> (u, m))"
      and pq: "set (se_pq ?s) = insert (d + cost v, se_counter s, v) (set (se_pq s))" using better(1) by simp_all
    have lower: "\<exists>y \<le> x. se_dist ?s w = Some y" if "se_dist s w = Some x" for w x
      using that better(2) by (cases "w = v") (auto simp: dist intro: less_imp_le)
    have "tree_ok ?s"
      unfolding tree_ok_def
    proof (intro conjI allI impI ballI)
      show "se_dist ?s src = Some 0" "se_prev ?s src = None" using ok nv by (simp_all add: dist prev tree_ok_def)
      show "dom (se_dist ?s) \<subseteq> nodes" using ok closed [OF e] by (auto simp: dist tree_ok_def)
      show "dom (se_prev ?s) = dom (se_dist ?s) - {src}" using ok nv by (auto simp: dist prev tree_ok_def)
    next
      fix w a b assume p: "se_prev ?s w = Some (a, b)"
      show "(w, b) \<in> set (adj a)" using p e ok by (cases "w = v") (auto simp: prev tree_ok_def)
      show "\<exists>du dv. se_dist ?s a = Some du \<and> se_dist ?s w = Some dv \<and> du + cost w \<le> dv"
      proof (cases "w = v")
        case True
        with p have ab: "a = u" "b = m" by (simp_all add: prev)
        show ?thesis unfolding ab(1) True dist using nu u by simp
      next
        case False
        with p have "se_prev s w = Some (a, b)" by (simp add: prev)
        with ok obtain da dw where "se_dist s a = Some da" "se_dist s w = Some dw" "da + cost w \<le> dw"
          by (rule tree_link)
        with lower [of a da] False show ?thesis by (auto simp: dist)
      qed
    next
      fix w x assume w: "se_dist ?s w = Some x"
      show "\<exists>c \<le> x. path_cost adj cost src w c"
      proof (cases "w = v")
        case True
        from ok u obtain c where "c \<le> d" "path_cost adj cost src u c" unfolding tree_ok_def by blast
        with path_cost.step [where adj = adj and u = u, OF _ e] w True show ?thesis by (intro exI [of _ "c + cost v"]) (auto simp: dist)
      next
        case False
        with w ok show ?thesis by (auto simp: dist tree_ok_def)
      qed
    next
      fix q assume q: "q \<in> set (se_pq ?s)"
      obtain x k w where qq: "q = (x, k, w)" by (metis prod.exhaust)
      show "case q of (x, k, w) \<Rightarrow> \<exists>y \<le> x. se_dist ?s w = Some y"
      proof (cases "q \<in> set (se_pq s)")
        case True
        with ok have "(x, k, w) \<in> set (se_pq s)" by (simp add: qq)
        with ok obtain y where "y \<le> x" "se_dist s w = Some y" by (rule tree_queued)
        moreover from lower [OF this(2)] obtain z where "z \<le> y" "se_dist ?s w = Some z" by blast
        ultimately have "z \<le> x \<and> se_dist ?s w = Some z" by simp
        then show ?thesis unfolding qq by blast
      next
        case False
        with q qq show ?thesis by (auto simp: pq dist)
      qed
    qed
    with nu u show ?thesis by (simp add: dist)
  qed
  then show "tree_ok (relax cost u d s (v, m))" and "se_dist (relax cost u d s (v, m)) u = Some d" by blast+
qed

text \<open>Relaxing an edge keeps what is relaxed and settled, and relaxes the edge.\<close>

lemma relax_relaxes:
  assumes ok: "tree_ok s" and u: "se_dist s u = Some d" and e: "(v, m) \<in> set (adj u)"
  shows "relaxed (relax cost u d s (v, m)) u (v, m)"
    and "relaxed s u e' \<Longrightarrow> relaxed (relax cost u d s (v, m)) u e'"
    and "w \<noteq> u \<Longrightarrow> settled_node s w \<Longrightarrow> settled_node (relax cost u d s (v, m)) w"
proof -
  let ?s = "relax cost u d s (v, m)"
  have lower: "\<exists>y \<le> x. se_dist ?s w = Some y" if "se_dist s w = Some x" for w x
    using that by (cases rule: relax_cases [of u d s v m]) (auto simp: less_imp_le)
  have same: "se_dist ?s u = Some d" by (rule relax_ok(2) [OF ok u e])
  show "relaxed ?s u (v, m)"
    using same by (cases rule: relax_cases [of u d s v m]) (auto simp: relaxed_def)
  show "relaxed ?s u e'" if "relaxed s u e'"
  proof -
    obtain v' m' where e': "e' = (v', m')" by (cases e')
    from that u obtain y where y: "y \<le> d + cost v'" "se_dist s v' = Some y" by (auto simp: relaxed_def e')
    from lower [OF y(2)] obtain z where "z \<le> y" "se_dist ?s v' = Some z" by blast
    with y same show ?thesis by (auto simp: relaxed_def e')
  qed
  show "settled_node ?s w" if w: "w \<noteq> u" and st: "settled_node s w"
  proof (cases rule: relax_cases [of u d s v m])
    case keep
    with st show ?thesis by simp
  next
    case better
    show ?thesis
    proof (cases "w = v")
      case True
      then show ?thesis using better(1) by (auto simp: settled_node_def)
    next
      case False
      then have dw: "se_dist ?s w = se_dist s w" using better(1) by simp
      from st consider "\<forall>x. se_dist s w = Some x \<longrightarrow> (\<exists>k. (x, k, w) \<in> set (se_pq s))" | "\<forall>e \<in> set (adj w). relaxed s w e"
        unfolding settled_node_def by blast
      then show ?thesis
      proof cases
        case 1
        then have "\<forall>x. se_dist ?s w = Some x \<longrightarrow> (\<exists>k. (x, k, w) \<in> set (se_pq ?s))" using better(1) dw by auto
        then show ?thesis by (simp add: settled_node_def)
      next
        case 2
        have "relaxed ?s w e" if "e \<in> set (adj w)" for e
        proof -
          obtain v' m' where e': "e = (v', m')" by (cases e)
          have "\<exists>z \<le> x + cost v'. se_dist ?s v' = Some z" if x: "se_dist s w = Some x" for x
          proof -
            from 2 \<open>e \<in> set (adj w)\<close> x obtain y where y: "y \<le> x + cost v'" "se_dist s v' = Some y"
              unfolding relaxed_def e' by blast
            from lower [OF y(2)] obtain z where "z \<le> y" "se_dist ?s v' = Some z" by blast
            with y(1) show ?thesis by (intro exI [of _ z]) simp
          qed
          with dw show ?thesis unfolding relaxed_def e' by (simp only: prod.case) blast
        qed
        then show ?thesis by (simp add: settled_node_def)
      qed
    qed
  qed
qed

lemma fold_relax:
  assumes "tree_ok s" and "se_dist s u = Some d" and "set es \<subseteq> set (adj u)" and "\<forall>w. w \<noteq> u \<longrightarrow> settled_node s w"
    and "\<forall>e \<in> set done_es. relaxed s u e"
  shows "tree_ok (foldl (relax cost u d) s es) \<and> se_dist (foldl (relax cost u d) s es) u = Some d
    \<and> (\<forall>w. w \<noteq> u \<longrightarrow> settled_node (foldl (relax cost u d) s es) w)
    \<and> (\<forall>e \<in> set done_es \<union> set es. relaxed (foldl (relax cost u d) s es) u e)"
  using assms
proof (induction es arbitrary: s done_es)
  case Nil
  then show ?case by simp
next
  case (Cons e es)
  obtain v m where e: "e = (v, m)" by (cases e)
  with Cons.prems(3) have in_adj: "(v, m) \<in> set (adj u)" by simp
  note ok = relax_ok [OF Cons.prems(1,2) in_adj] and rel = relax_relaxes [OF Cons.prems(1,2) in_adj]
  have "\<forall>e' \<in> set (e # done_es). relaxed (relax cost u d s (v, m)) u e'"
    using rel(1,2) Cons.prems(5) e by simp
  with Cons.IH [OF ok(1,2) _ _ this] Cons.prems(3,4) rel(3) e show ?case by auto
qed

text \<open>Weight: the nodes without a distance, then the distances\<close>

definition weight :: "search \<Rightarrow> nat \<times> nat" where
  "weight s = (card (nodes - dom (se_dist s)), \<Sum>v \<in> nodes. case se_dist s v of None \<Rightarrow> 0 | Some x \<Rightarrow> x)"

lemma relax_weight:
  assumes "(v, m) \<in> set (adj u)"
  shows "relax cost u d s (v, m) = s \<or> (weight (relax cost u d s (v, m)), weight s) \<in> less_than <*lex*> less_than"
proof (cases rule: relax_cases [of u d s v m])
  case keep
  then show ?thesis by simp
next
  case better
  let ?s = "relax cost u d s (v, m)"
  have v: "v \<in> nodes" by (rule closed [OF assms])
  have dist: "se_dist ?s = (se_dist s)(v \<mapsto> d + cost v)" using better(1) by simp
  show ?thesis
  proof (cases "se_dist s v")
    case None
    then have "nodes - dom (se_dist ?s) \<subset> nodes - dom (se_dist s)" using v by (auto simp: dist)
    then have "card (nodes - dom (se_dist ?s)) < card (nodes - dom (se_dist s))"
      using finite_nodes by (intro psubset_card_mono) auto
    then show ?thesis by (simp add: weight_def)
  next
    case (Some x)
    then have same: "nodes - dom (se_dist ?s) = nodes - dom (se_dist s)" by (auto simp: dist)
    have "(\<Sum>w \<in> nodes. case se_dist ?s w of None \<Rightarrow> 0 | Some x \<Rightarrow> x) < (\<Sum>w \<in> nodes. case se_dist s w of None \<Rightarrow> 0 | Some x \<Rightarrow> x)"
    proof (rule sum_strict_mono_ex1)
      show "finite nodes" by (rule finite_nodes)
      show "\<forall>w \<in> nodes. (case se_dist ?s w of None \<Rightarrow> 0 | Some x \<Rightarrow> x) \<le> (case se_dist s w of None \<Rightarrow> 0 | Some x \<Rightarrow> x)"
        using Some better(2) [OF Some] by (auto simp: dist)
      show "\<exists>w \<in> nodes. (case se_dist ?s w of None \<Rightarrow> 0 | Some x \<Rightarrow> x) < (case se_dist s w of None \<Rightarrow> 0 | Some x \<Rightarrow> x)"
        using v Some better(2) [OF Some] by (intro bexI [of _ v]) (simp_all add: dist)
    qed
    then show ?thesis by (simp add: weight_def same)
  qed
qed

lemma fold_weight:
  "set es \<subseteq> set (adj u) \<Longrightarrow>
    foldl (relax cost u d) s es = s \<or> (weight (foldl (relax cost u d) s es), weight s) \<in> less_than <*lex*> less_than"
proof (induction es arbitrary: s)
  case Nil
  then show ?case by simp
next
  case (Cons e es)
  have tr: "trans (less_than <*lex*> less_than)" by (simp add: trans_less_than)
  obtain v m where e: "e = (v, m)" by (cases e)
  with Cons.prems have "(v, m) \<in> set (adj u)" and "set es \<subseteq> set (adj u)" by simp_all
  from relax_weight [OF this(1), of d s] Cons.IH [OF this(2), of "relax cost u d s e"]
  consider "relax cost u d s e = s" | "foldl (relax cost u d) s (e # es) = relax cost u d s e"
      "(weight (relax cost u d s e), weight s) \<in> less_than <*lex*> less_than"
    | "(weight (foldl (relax cost u d) s (e # es)), weight (relax cost u d s e)) \<in> less_than <*lex*> less_than"
      "(weight (relax cost u d s e), weight s) \<in> less_than <*lex*> less_than"
    unfolding e foldl_Cons by metis
  then show ?case
  proof cases
    case 1
    with Cons.IH [OF \<open>set es \<subseteq> set (adj u)\<close>, of s] show ?thesis unfolding foldl_Cons by (simp only:)
  next
    case 2
    then show ?thesis by (simp only:) simp
  next
    case 3
    then show ?thesis by (intro disjI2) (rule transD [OF tr])
  qed
qed

definition search_ok :: "search \<Rightarrow> bool" where
  "search_ok s \<longleftrightarrow> tree_ok s \<and> (\<forall>w. settled_node s w)"

lemma search_start_ok: "search_ok (search_start src)"
  using src_node path_cost.start by (auto simp: search_ok_def search_start_def tree_ok_def settled_node_def relaxed_def)

lemma search_step_ok:
  assumes ok: "search_ok s" and pq: "se_pq s = (d, k, u) # pq"
  shows "search_ok (search_step adj cost s)"
proof -
  let ?s0 = "s\<lparr>se_pq := pq\<rparr>"
  from ok have t: "tree_ok s" and st: "\<And>w. settled_node s w" by (simp_all add: search_ok_def)
  have t0: "tree_ok ?s0" using t pq by (auto simp: tree_ok_def)
  have "(d, k, u) \<in> set (se_pq s)" by (simp add: pq)
  with t obtain x where x: "x \<le> d" "se_dist s u = Some x" by (rule tree_queued)
  have others: "settled_node ?s0 w" if "w \<noteq> u" for w
    using st [of w] that pq by (auto simp: settled_node_def relaxed_def)
  show ?thesis
  proof (cases "x < d")
    case True
    have "settled_node ?s0 u" using st [of u] x True pq by (auto simp: settled_node_def relaxed_def)
    with others t0 have "search_ok ?s0" unfolding search_ok_def by metis
    with True x pq show ?thesis by (simp add: search_step_def)
  next
    case False
    with x have du: "se_dist ?s0 u = Some d" by simp
    have "search_step adj cost s = foldl (relax cost u d) ?s0 (adj u)"
      using False x by (simp add: search_step_def pq Let_def)
    moreover have "tree_ok (foldl (relax cost u d) ?s0 (adj u))
        \<and> (\<forall>w. w \<noteq> u \<longrightarrow> settled_node (foldl (relax cost u d) ?s0 (adj u)) w)
        \<and> (\<forall>e \<in> set (adj u). relaxed (foldl (relax cost u d) ?s0 (adj u)) u e)"
      using fold_relax [OF t0 du, of "adj u" "[]"] others by auto
    ultimately show ?thesis unfolding search_ok_def settled_node_def by metis
  qed
qed

definition search_order :: "(search \<times> search) set" where
  "search_order = inv_image ((less_than <*lex*> less_than) <*lex*> less_than) (\<lambda>s. (weight s, length (se_pq s)))"

lemma wf_search_order: "wf search_order"
  unfolding search_order_def by (intro wf_inv_image wf_lex_prod wf_less_than)

lemma search_step_order:
  assumes "se_pq s \<noteq> []" shows "(search_step adj cost s, s) \<in> search_order"
proof -
  obtain d k u pq where pq: "se_pq s = (d, k, u) # pq" using assms by (metis list.exhaust prod.exhaust)
  let ?s0 = "s\<lparr>se_pq := pq\<rparr>"
  have w: "weight ?s0 = weight s" by (simp add: weight_def)
  have "search_step adj cost s = ?s0 \<or> search_step adj cost s = foldl (relax cost u d) ?s0 (adj u)"
    by (simp add: search_step_def pq Let_def)
  with fold_weight [of "adj u" u d ?s0] w pq show ?thesis by (auto simp: search_order_def)
qed

lemma search_ends: "search_ok s \<Longrightarrow> \<exists>s'. search_loop adj cost s = Some s' \<and> search_ok s' \<and> se_pq s' = []"
proof (induction s rule: wf_induct_rule [OF wf_search_order])
  case (1 s)
  show ?case
  proof (cases "se_pq s")
    case Nil
    with 1 show ?thesis by (subst search_loop.simps) simp
  next
    case (Cons e pq)
    obtain d k u where e: "e = (d, k, u)" by (metis prod.exhaust)
    from 1(1) [OF search_step_order search_step_ok [OF 1(2)]] Cons e
    show ?thesis by (subst search_loop.simps) simp
  qed
qed

text \<open>At the end the distances are those of the cheapest paths, and the links are a tree of them.\<close>

lemma settled_reaches:
  assumes ok: "search_ok s" and pq: "se_pq s = []"
  shows "path_cost adj cost src v c \<Longrightarrow> \<exists>d \<le> c. se_dist s v = Some d"
proof (induction rule: path_cost.induct)
  case start
  from ok show ?case by (simp add: search_ok_def tree_ok_def)
next
  case (step u c v m)
  from ok pq have "settled_node s u" by (simp add: search_ok_def)
  with step pq show ?case by (fastforce simp: settled_node_def relaxed_def)
qed

lemma search_exact:
  obtains s where "search_loop adj cost (search_start src) = Some s"
    and "\<And>v d. se_dist s v = Some d \<longleftrightarrow> path_cost adj cost src v d \<and> (\<forall>c. path_cost adj cost src v c \<longrightarrow> d \<le> c)"
    and "\<And>v. se_dist s v = None \<longleftrightarrow> (\<nexists>c. path_cost adj cost src v c)"
    and "\<And>v. v \<noteq> src \<Longrightarrow> se_dist s v \<noteq> None \<Longrightarrow> \<exists>u m du dv. se_prev s v = Some (u, m) \<and> (v, m) \<in> set (adj u)
          \<and> se_dist s u = Some du \<and> se_dist s v = Some dv \<and> du < dv"
proof -
  from search_ends [OF search_start_ok] obtain s where l: "search_loop adj cost (search_start src) = Some s"
    and ok: "search_ok s" and pq: "se_pq s = []" by blast
  from ok have t: "tree_ok s" by (simp add: search_ok_def)
  note low = settled_reaches [OF ok pq]
  have cheap: "path_cost adj cost src v d \<and> (\<forall>c. path_cost adj cost src v c \<longrightarrow> d \<le> c)" if d: "se_dist s v = Some d" for v d
  proof -
    from t d obtain c where c: "c \<le> d" "path_cost adj cost src v c" unfolding tree_ok_def by blast
    have min: "d \<le> c'" if "path_cost adj cost src v c'" for c' using low [OF that] d by auto
    with c have "c = d" using le_antisym by blast
    with c min show ?thesis by blast
  qed
  show thesis
  proof (rule that [OF l])
    fix v d
    show "se_dist s v = Some d \<longleftrightarrow> path_cost adj cost src v d \<and> (\<forall>c. path_cost adj cost src v c \<longrightarrow> d \<le> c)"
    proof
      assume "path_cost adj cost src v d \<and> (\<forall>c. path_cost adj cost src v c \<longrightarrow> d \<le> c)"
      then obtain d' where "d' \<le> d" "se_dist s v = Some d'" "d \<le> d'" using low cheap by blast
      then show "se_dist s v = Some d" by simp
    qed (rule cheap)
    show "se_dist s v = None \<longleftrightarrow> (\<nexists>c. path_cost adj cost src v c)"
      using low cheap by (metis not_Some_eq option.distinct(1))
  next
    fix v assume v: "v \<noteq> src" and d: "se_dist s v \<noteq> None"
    from t have "dom (se_prev s) = dom (se_dist s) - {src}" by (simp add: tree_ok_def)
    with v d obtain u m where p: "se_prev s v = Some (u, m)" by (metis (no_types) Diff_iff domD domIff singletonD surj_pair)
    with t obtain du dv where "(v, m) \<in> set (adj u)" "se_dist s u = Some du" "se_dist s v = Some dv" "du + cost v \<le> dv"
      by (rule tree_link)
    with p cost_pos [of v] show "\<exists>u m du dv. se_prev s v = Some (u, m) \<and> (v, m) \<in> set (adj u)
          \<and> se_dist s u = Some du \<and> se_dist s v = Some dv \<and> du < dv"
      by (intro exI conjI) (assumption | simp)+
  qed
qed

end

section \<open>The graphs of the router\<close>

text \<open>Any list of edges is a finite graph, and a congestion cost is at least one step.\<close>

interpretation fabric: search_graph "adj_of edges" "edge_cost hist occ" src "insert src (fst ` snd ` set edges)"
  for edges hist occ src
  by unfold_locales (force simp: adj_of_def edge_cost_def)+

end
