(* ===== verification/Route_Nets.thy ===== *)
theory Route_Nets
  imports Route_Paths
begin

text \<open>
  What the router makes of a net: a tree of edges with one exit from its driver, in which
  every node is entered once and every sink is reached; and what a converged iteration makes of all
  nets: trees without a common node.
\<close>

section \<open>Trees of edges\<close>

definition links :: "edge list \<Rightarrow> (node \<times> node) set" where
  "links es = {(u, v). \<exists>m. (u, v, m) \<in> set es}"

lemma links_mono: "set es \<subseteq> set fs \<Longrightarrow> links es \<subseteq> links fs"
  by (auto simp: links_def)

definition single_target :: "edge list \<Rightarrow> bool" where
  "single_target es \<longleftrightarrow> (\<forall>u v m u' m'. (u, v, m) \<in> set es \<longrightarrow> (u', v, m') \<in> set es \<longrightarrow> u = u' \<and> m = m')"

definition touches :: "node list \<Rightarrow> edge list \<Rightarrow> bool" where
  "touches nodes es \<longleftrightarrow> (\<forall>(u, v, m) \<in> set es. u \<in> set nodes \<and> v \<in> set nodes)"

definition net_tree :: "edge list \<Rightarrow> node \<Rightarrow> int \<Rightarrow> int \<Rightarrow> nat \<Rightarrow> node list \<Rightarrow> edge list \<Rightarrow> node list \<Rightarrow> bool" where
  "net_tree graph driver r c j sinks es nodes \<longleftrightarrow>
     single_target es \<and> touches nodes es \<and> distinct nodes
     \<and> (\<exists>d \<in> set DIRS. (driver, Out r c d j, Inj j d) \<in> set es
          \<and> (\<forall>e \<in> set es. e = (driver, Out r c d j, Inj j d)
               \<or> (e \<in> set graph \<and> (Out r c d j, fst e) \<in> (links es)\<^sup>*))
          \<and> (\<forall>(u, v, m) \<in> set es. (driver, v) \<in> (links es)\<^sup>*)
          \<and> (\<forall>s \<in> set sinks. (driver, s) \<in> (links es)\<^sup>*))"

section \<open>Walking back\<close>

text \<open>The search result as the walk uses it: links to cheaper nodes\<close>

definition back_links :: "edge list \<Rightarrow> node \<Rightarrow> (node \<rightharpoonup> nat) \<Rightarrow> (node \<rightharpoonup> node \<times> meta) \<Rightarrow> bool" where
  "back_links graph exit_node dist prev \<longleftrightarrow>
     (\<forall>v. v \<noteq> exit_node \<longrightarrow> dist v \<noteq> None \<longrightarrow> (\<exists>u m du dv. prev v = Some (u, m) \<and> (u, v, m) \<in> set graph
        \<and> dist u = Some du \<and> dist v = Some dv \<and> du < dv))"

lemma adj_of_edge: "(v, m) \<in> set (adj_of graph u) \<longleftrightarrow> (u, v, m) \<in> set graph"
  by (force simp: adj_of_def)

lemma dijkstra_back_links:
  obtains dist prev where "dijkstra (adj_of graph) src hist occ = Some (dist, prev)" and "back_links graph src dist prev"
    and "\<And>v d. dist v = Some d \<longleftrightarrow> path_cost (adj_of graph) (edge_cost hist occ) src v d
        \<and> (\<forall>c. path_cost (adj_of graph) (edge_cost hist occ) src v c \<longrightarrow> d \<le> c)"
    and "\<And>v. dist v = None \<longleftrightarrow> (\<nexists>c. path_cost (adj_of graph) (edge_cost hist occ) src v c)"
proof (rule fabric.search_exact [of graph hist occ src])
  fix s assume l: "search_loop (adj_of graph) (edge_cost hist occ) (search_start src) = Some s"
    and d: "\<And>v d. se_dist s v = Some d \<longleftrightarrow> path_cost (adj_of graph) (edge_cost hist occ) src v d
        \<and> (\<forall>c. path_cost (adj_of graph) (edge_cost hist occ) src v c \<longrightarrow> d \<le> c)"
    and n: "\<And>v. se_dist s v = None \<longleftrightarrow> (\<nexists>c. path_cost (adj_of graph) (edge_cost hist occ) src v c)"
    and p: "\<And>v. v \<noteq> src \<Longrightarrow> se_dist s v \<noteq> None \<Longrightarrow> \<exists>u m du dv. se_prev s v = Some (u, m) \<and> (v, m) \<in> set (adj_of graph u)
          \<and> se_dist s u = Some du \<and> se_dist s v = Some dv \<and> du < dv"
  have "back_links graph src (se_dist s) (se_prev s)"
    unfolding back_links_def adj_of_edge [symmetric] using p by blast
  with l d n show thesis by (intro that [of "se_dist s" "se_prev s"]) (simp_all add: dijkstra_def)
qed

text \<open>The edges found so far by walks from sinks to the exit\<close>

definition walked :: "edge list \<Rightarrow> edge \<Rightarrow> node \<Rightarrow> (node \<rightharpoonup> node \<times> meta) \<Rightarrow> edge list \<Rightarrow> node list \<Rightarrow> bool" where
  "walked graph first exit_node prev es nodes \<longleftrightarrow>
     first \<in> set es \<and> fst (snd first) = exit_node \<and> distinct nodes \<and> exit_node \<in> set nodes \<and> fst first \<in> set nodes
     \<and> (\<forall>(u, v, m) \<in> set es. u \<in> set nodes \<and> ((u, v, m) = first \<or> (v \<noteq> exit_node \<and> prev v = Some (u, m) \<and> (u, v, m) \<in> set graph
           \<and> (exit_node, u) \<in> (links es)\<^sup>*)))"

lemma walked_first:
  assumes "walked graph first exit_node prev es nodes"
  shows "first \<in> set es" and "fst (snd first) = exit_node" and "distinct nodes" and "exit_node \<in> set nodes" and "fst first \<in> set nodes"
  using assms by (simp_all add: walked_def)

lemma walked_edge:
  assumes "walked graph first exit_node prev es nodes" and "(u, v, m) \<in> set es"
  shows "u \<in> set nodes \<and> ((u, v, m) = first \<or> (v \<noteq> exit_node \<and> prev v = Some (u, m) \<and> (u, v, m) \<in> set graph
    \<and> (exit_node, u) \<in> (links es)\<^sup>*))"
proof -
  from assms(1) have "\<forall>(u, v, m) \<in> set es. u \<in> set nodes \<and> ((u, v, m) = first \<or> (v \<noteq> exit_node \<and> prev v = Some (u, m)
      \<and> (u, v, m) \<in> set graph \<and> (exit_node, u) \<in> (links es)\<^sup>*))" by (simp add: walked_def)
  from bspec [OF this assms(2)] show ?thesis by simp
qed

lemma walk_back_ok:
  assumes links: "back_links graph exit_node dist prev"
  shows "dist cur = Some x \<Longrightarrow> distinct nodes \<Longrightarrow>
    \<exists>es' nodes'. walk_back exit_node prev cur es nodes = Some (True, es @ es', nodes')
      \<and> set nodes' = set nodes \<union> fst ` set es' \<and> distinct nodes' \<and> (exit_node, cur) \<in> (links es')\<^sup>*
      \<and> (\<forall>(u, v, m) \<in> set es'. v \<noteq> exit_node \<and> prev v = Some (u, m) \<and> (u, v, m) \<in> set graph
           \<and> (v = cur \<or> v \<in> fst ` set es') \<and> (exit_node, u) \<in> (links es')\<^sup>*)"
proof (induction x arbitrary: cur es nodes rule: less_induct)
  case (less x)
  show ?case
  proof (cases "cur = exit_node")
    case True
    then show ?thesis using less.prems by (subst walk_back.simps) simp
  next
    case False
    with links less.prems(1) obtain u m du where p: "prev cur = Some (u, m)" and e: "(u, cur, m) \<in> set graph"
      and du: "dist u = Some du" "du < x" unfolding back_links_def by force
    let ?nodes = "List.insert u nodes"
    from less.IH [OF du(2,1), of ?nodes "es @ [(u, cur, m)]"] less.prems(2) obtain es' nodes' where
        w: "walk_back exit_node prev u (es @ [(u, cur, m)]) ?nodes = Some (True, (es @ [(u, cur, m)]) @ es', nodes')"
      and n: "set nodes' = set ?nodes \<union> fst ` set es'" "distinct nodes'"
      and r: "(exit_node, u) \<in> (links es')\<^sup>*"
      and all: "\<forall>(u', v, m) \<in> set es'. v \<noteq> exit_node \<and> prev v = Some (u', m) \<and> (u', v, m) \<in> set graph
           \<and> (v = u \<or> v \<in> fst ` set es') \<and> (exit_node, u') \<in> (links es')\<^sup>*"
      by (auto simp: distinct_insert)
    let ?es = "(u, cur, m) # es'"
    have sub: "(links es')\<^sup>* \<subseteq> (links ?es)\<^sup>*" by (intro rtrancl_mono links_mono) auto
    have "(u, cur) \<in> links ?es" by (auto simp: links_def)
    with r sub have rc: "(exit_node, cur) \<in> (links ?es)\<^sup>*" by (meson rtrancl.rtrancl_into_rtrancl subsetD)
    have "walk_back exit_node prev cur es nodes = Some (True, es @ ?es, nodes')"
      using False p w by (subst walk_back.simps) simp
    moreover have "set nodes' = set nodes \<union> fst ` set ?es" using n(1) by auto
    moreover have " \<forall>(u', v, m) \<in> set ?es. v \<noteq> exit_node \<and> prev v = Some (u', m) \<and> (u', v, m) \<in> set graph
           \<and> (v = cur \<or> v \<in> fst ` set ?es) \<and> (exit_node, u') \<in> (links ?es)\<^sup>*"
      using all sub False p e r by auto
    ultimately show ?thesis using n(2) rc by blast
  qed
qed

lemma walk_sinks_ok:
  assumes links: "back_links graph exit_node dist prev"
  shows "\<forall>s \<in> set sinks. dist s \<noteq> None \<Longrightarrow> walked graph first exit_node prev es nodes \<Longrightarrow> touches nodes es \<Longrightarrow>
    \<exists>es' nodes'. walk_sinks exit_node prev sinks es nodes = Some (True, es', nodes')
      \<and> walked graph first exit_node prev es' nodes' \<and> touches nodes' es' \<and> set es \<subseteq> set es'
      \<and> (\<forall>s \<in> set sinks. (exit_node, s) \<in> (links es')\<^sup>*)"
proof (induction sinks arbitrary: es nodes)
  case Nil
  then show ?case by auto
next
  case (Cons sink sinks)
  from Cons.prems(1) obtain x where x: "dist sink = Some x" by auto
  have dn: "distinct nodes" by (rule walked_first [OF Cons.prems(2)])
  from walk_back_ok [OF links x dn, of es] obtain es1 nodes1 where
      w: "walk_back exit_node prev sink es nodes = Some (True, es @ es1, nodes1)"
    and n: "set nodes1 = set nodes \<union> fst ` set es1" "distinct nodes1" and r: "(exit_node, sink) \<in> (links es1)\<^sup>*"
    and all: "\<forall>(u, v, m) \<in> set es1. v \<noteq> exit_node \<and> prev v = Some (u, m) \<and> (u, v, m) \<in> set graph
           \<and> (v = sink \<or> v \<in> fst ` set es1) \<and> (exit_node, u) \<in> (links es1)\<^sup>*" by blast
  have all1: "v \<noteq> exit_node \<and> prev v = Some (u, m) \<and> (u, v, m) \<in> set graph
      \<and> (v = sink \<or> v \<in> fst ` set es1) \<and> (exit_node, u) \<in> (links es1)\<^sup>*" if "(u, v, m) \<in> set es1" for u v m
    using bspec [OF all that] by simp
  let ?es = "es @ es1" and ?nodes = "List.insert sink nodes1"
  have sub: "(links es)\<^sup>* \<subseteq> (links ?es)\<^sup>*" "(links es1)\<^sup>* \<subseteq> (links ?es)\<^sup>*"
    by (intro rtrancl_mono links_mono; auto)+
  have wk: "walked graph first exit_node prev ?es ?nodes"
    unfolding walked_def
  proof (intro conjI)
    from walked_first [OF Cons.prems(2)] n show "first \<in> set ?es" "fst (snd first) = exit_node" "distinct ?nodes" "exit_node \<in> set ?nodes" "fst first \<in> set ?nodes"
      by (simp_all add: distinct_insert)
    have "u \<in> set ?nodes \<and> ((u, v, m) = first \<or> (v \<noteq> exit_node \<and> prev v = Some (u, m) \<and> (u, v, m) \<in> set graph
           \<and> (exit_node, u) \<in> (links ?es)\<^sup>*))" if e: "(u, v, m) \<in> set ?es" for u v m
    proof (cases "(u, v, m) \<in> set es")
      case True
      from walked_edge [OF Cons.prems(2) this] sub(1) n(1) show ?thesis by auto
    next
      case False
      with e have e1: "(u, v, m) \<in> set es1" by simp
      from all1 [OF this] sub(2) have "v \<noteq> exit_node \<and> prev v = Some (u, m) \<and> (u, v, m) \<in> set graph \<and> (exit_node, u) \<in> (links ?es)\<^sup>*"
        by blast
      moreover from e1 have "u \<in> fst ` set es1" by force
      ultimately show ?thesis using n(1) by auto
    qed
    then show "\<forall>(u, v, m) \<in> set ?es. u \<in> set ?nodes \<and> ((u, v, m) = first \<or> (v \<noteq> exit_node \<and> prev v = Some (u, m)
        \<and> (u, v, m) \<in> set graph \<and> (exit_node, u) \<in> (links ?es)\<^sup>*))" by (intro ballI) (simp only: prod.case split: prod.split, blast)
  qed
  have tch: "touches ?nodes ?es"
    unfolding touches_def
  proof (clarify)
    fix u v m assume e: "(u, v, m) \<in> set ?es"
    show "u \<in> set ?nodes \<and> v \<in> set ?nodes"
    proof (cases "(u, v, m) \<in> set es")
      case True
      with Cons.prems(3) n(1) show ?thesis by (auto simp: touches_def)
    next
      case False
      with e have "(u, v, m) \<in> set es1" by simp
      moreover from all1 [OF this] have "v = sink \<or> v \<in> fst ` set es1" by blast
      moreover have "u \<in> fst ` set es1" using \<open>(u, v, m) \<in> set es1\<close> by force
      ultimately show ?thesis using n(1) by auto
    qed
  qed
  from Cons.IH [OF _ wk tch] Cons.prems(1) obtain es' nodes' where
      ih: "walk_sinks exit_node prev sinks ?es ?nodes = Some (True, es', nodes')"
      "walked graph first exit_node prev es' nodes'" "touches nodes' es'" "set ?es \<subseteq> set es'"
      "\<forall>s \<in> set sinks. (exit_node, s) \<in> (links es')\<^sup>*" by auto
  have "(links ?es)\<^sup>* \<subseteq> (links es')\<^sup>*" by (intro rtrancl_mono links_mono ih(4))
  with r sub(2) have "(exit_node, sink) \<in> (links es')\<^sup>*" by blast
  with ih w show ?case by (auto simp: Let_def)
qed

lemma walked_tree:
  assumes w: "walked graph (driver, Out r c d j, Inj j d) (Out r c d j) prev es nodes" and t: "touches nodes es"
    and d: "d \<in> set DIRS" and s: "\<forall>s \<in> set sinks. (Out r c d j, s) \<in> (links es)\<^sup>*"
  shows "net_tree graph driver r c j sinks es nodes"
proof -
  let ?x = "Out r c d j" and ?e = "(driver, Out r c d j, Inj j d)"
  have e: "?e \<in> set es" by (rule walked_first [OF w])
  have all: "(u, v, m) \<in> set es \<Longrightarrow> (u, v, m) = ?e \<or> (v \<noteq> ?x \<and> prev v = Some (u, m) \<and> (u, v, m) \<in> set graph
      \<and> (?x, u) \<in> (links es)\<^sup>*)" for u v m using walked_edge [OF w] by blast
  have dx: "(driver, ?x) \<in> links es" using e by (auto simp: links_def)
  have from_driver: "(driver, v) \<in> (links es)\<^sup>*" if "(?x, v) \<in> (links es)\<^sup>*" for v
    using dx that by (rule converse_rtrancl_into_rtrancl)
  have "single_target es"
    unfolding single_target_def
  proof (intro allI impI)
    fix u v m u' m' assume "(u, v, m) \<in> set es" "(u', v, m') \<in> set es"
    from all [OF this(1)] all [OF this(2)] show "u = u' \<and> m = m'" by auto
  qed
  moreover have "distinct nodes" by (rule walked_first [OF w])
  moreover have "\<forall>f \<in> set es. f = ?e \<or> (f \<in> set graph \<and> (?x, fst f) \<in> (links es)\<^sup>*)" using all by force
  moreover have "\<forall>(u, v, m) \<in> set es. (driver, v) \<in> (links es)\<^sup>*"
  proof (clarify)
    fix u v m assume e: "(u, v, m) \<in> set es"
    then have "(u, v) \<in> links es" by (auto simp: links_def)
    with all [OF e] dx from_driver show "(driver, v) \<in> (links es)\<^sup>*" by (auto intro: rtrancl_into_rtrancl)
  qed
  moreover have "\<forall>s \<in> set sinks. (driver, s) \<in> (links es)\<^sup>*" using s from_driver by blast
  ultimately show ?thesis using t d e unfolding net_tree_def by blast
qed

section \<open>One net\<close>

definition exit_reaches :: "edge list \<Rightarrow> node \<Rightarrow> node list \<Rightarrow> bool" where
  "exit_reaches graph exit_node sinks \<longleftrightarrow> (\<forall>s \<in> set sinks. \<exists>c. path_cost (adj_of graph) (\<lambda>_. 1) exit_node s c)"

lemma path_cost_any: "path_cost adj cost src v c \<Longrightarrow> \<exists>c'. path_cost adj cost' src v c'"
  by (induction rule: path_cost.induct) (blast intro: path_cost.intros)+

lemma try_exits_ok:
  assumes "\<forall>t es nodes. best = Some (t, es, nodes) \<longrightarrow> net_tree graph driver r c j sinks es nodes" and "set ds \<subseteq> set DIRS"
  shows "\<exists>best'. try_exits (adj_of graph) hist occ driver r c j sinks ds best = Some best'
    \<and> (\<forall>t es nodes. best' = Some (t, es, nodes) \<longrightarrow> net_tree graph driver r c j sinks es nodes)
    \<and> (best' = None \<longleftrightarrow> best = None \<and> (\<forall>d \<in> set ds. \<not> exit_reaches graph (Out r c d j) sinks))"
  using assms
proof (induction ds arbitrary: best)
  case Nil
  then show ?case by simp
next
  case (Cons d ds)
  let ?x = "Out r c d j"
  obtain dist prev where dj: "dijkstra (adj_of graph) ?x hist occ = Some (dist, prev)" and bl: "back_links graph ?x dist prev"
    and none: "\<And>v. dist v = None \<longleftrightarrow> (\<nexists>c. path_cost (adj_of graph) (edge_cost hist occ) ?x v c)"
    by (rule dijkstra_back_links [of graph ?x hist occ]) (rule that; assumption)
  have reach: "exit_reaches graph ?x sinks \<longleftrightarrow> (\<forall>s \<in> set sinks. dist s \<noteq> None)"
    unfolding exit_reaches_def using none path_cost_any by metis
  note ih = Cons.IH [OF _ subset_trans [OF _ Cons.prems(2)]]
  show ?case
  proof (cases "\<forall>s \<in> set sinks. dist s \<noteq> None")
    case False
    then have "try_exits (adj_of graph) hist occ driver r c j sinks (d # ds) best
        = try_exits (adj_of graph) hist occ driver r c j sinks ds best" by (simp add: dj list_all_iff)
    with ih [OF Cons.prems(1)] False reach show ?thesis by auto
  next
    case True
    show ?thesis
    proof (cases "\<exists>b. best = Some b \<and> fst b \<le> sum_list (map (\<lambda>s. the (dist s)) sinks)")
      case better: True
      with True have "try_exits (adj_of graph) hist occ driver r c j sinks (d # ds) best
          = try_exits (adj_of graph) hist occ driver r c j sinks ds best" by (auto simp: dj list_all_iff Let_def)
      with ih [OF Cons.prems(1)] better show ?thesis by auto
    next
      case False
      let ?e = "(driver, ?x, Inj j d)" and ?n = "List.insert ?x [driver]"
      have w0: "walked graph ?e ?x prev [?e] ?n" "touches ?n [?e]" by (auto simp: walked_def touches_def)
      from walk_sinks_ok [OF bl True w0] obtain es nodes where
          w: "walk_sinks ?x prev sinks [?e] ?n = Some (True, es, nodes)" and wk: "walked graph ?e ?x prev es nodes"
        and tch: "touches nodes es" and s: "\<forall>s \<in> set sinks. (?x, s) \<in> (links es)\<^sup>*" by blast
      have tree: "net_tree graph driver r c j sinks es nodes"
        by (rule walked_tree [OF wk tch _ s]) (use Cons.prems(2) in simp)
      let ?b = "Some (sum_list (map (\<lambda>s. the (dist s)) sinks), es, nodes)"
      have "try_exits (adj_of graph) hist occ driver r c j sinks (d # ds) best
          = try_exits (adj_of graph) hist occ driver r c j sinks ds ?b"
        using False True w by (cases best) (auto simp: dj list_all_iff Let_def)
      with ih [of ?b] tree True reach show ?thesis by auto
    qed
  qed
qed

text \<open>A net with a driver that can be injected is routed when one exit reaches all its sinks.\<close>

definition can_route :: "edge list \<Rightarrow> nat \<Rightarrow> route_net_t \<Rightarrow> bool" where
  "can_route graph N_INJ net \<longleftrightarrow>
     (\<exists>r c j d. nt_driver net = Some (ClbOut r c j) \<and> j < N_INJ \<and> d \<in> set DIRS \<and> exit_reaches graph (Out r c d j) (nt_sinks net))"

definition routed_as :: "edge list \<Rightarrow> nat \<Rightarrow> route_net_t \<Rightarrow> routed \<Rightarrow> bool" where
  "routed_as graph N_INJ net = (\<lambda>(es, nodes).
     \<exists>r c j. nt_driver net = Some (ClbOut r c j) \<and> j < N_INJ \<and> net_tree graph (ClbOut r c j) r c j (nt_sinks net) es nodes)"

lemma route_net_ok:
  "\<exists>res. route_net net (adj_of graph) hist occ N_INJ = Some res
     \<and> (res = None \<longleftrightarrow> \<not> can_route graph N_INJ net)
     \<and> (\<forall>rt. res = Some rt \<longrightarrow> routed_as graph N_INJ net rt)"
proof (cases "\<exists>r c j. nt_driver net = Some (ClbOut r c j)")
  case False
  then show ?thesis by (auto simp: route_net_def can_route_def split: option.split node.split)
next
  case True
  then obtain r c j where d: "nt_driver net = Some (ClbOut r c j)" by blast
  from try_exits_ok [of None graph "ClbOut r c j" r c j "nt_sinks net" DIRS hist occ] obtain best where
      b: "try_exits (adj_of graph) hist occ (ClbOut r c j) r c j (nt_sinks net) DIRS None = Some best"
    and t: "\<forall>t es nodes. best = Some (t, es, nodes) \<longrightarrow> net_tree graph (ClbOut r c j) r c j (nt_sinks net) es nodes"
    and n: "best = None \<longleftrightarrow> (\<forall>d \<in> set DIRS. \<not> exit_reaches graph (Out r c d j) (nt_sinks net))" by auto
  show ?thesis
  proof (cases "j < N_INJ")
    case False
    with d show ?thesis by (auto simp: route_net_def can_route_def)
  next
    case True
    show ?thesis
    proof (cases best)
      case None
      with n d True b show ?thesis by (auto simp: route_net_def can_route_def)
    next
      case (Some x)
      obtain total es nodes where x: "x = (total, es, nodes)" by (metis prod.exhaust)
      with n d True b t Some show ?thesis by (auto simp: route_net_def can_route_def routed_as_def)
    qed
  qed
qed

lemma routed_asE:
  assumes "routed_as graph N_INJ net (es, nodes)"
  obtains r c j d where "nt_driver net = Some (ClbOut r c j)" and "j < N_INJ" and "d \<in> set DIRS"
    and "(ClbOut r c j, Out r c d j, Inj j d) \<in> set es"
    and "\<And>e. e \<in> set es \<Longrightarrow> e = (ClbOut r c j, Out r c d j, Inj j d) \<or> (e \<in> set graph \<and> (Out r c d j, fst e) \<in> (links es)\<^sup>*)"
    and "\<And>s. s \<in> set (nt_sinks net) \<Longrightarrow> (ClbOut r c j, s) \<in> (links es)\<^sup>*"
proof -
  from assms obtain r c j d where "nt_driver net = Some (ClbOut r c j)" "j < N_INJ" "d \<in> set DIRS"
      "(ClbOut r c j, Out r c d j, Inj j d) \<in> set es"
      and a: "\<forall>e \<in> set es. e = (ClbOut r c j, Out r c d j, Inj j d) \<or> (e \<in> set graph \<and> (Out r c d j, fst e) \<in> (links es)\<^sup>*)"
        "\<forall>s \<in> set (nt_sinks net). (ClbOut r c j, s) \<in> (links es)\<^sup>*"
    unfolding routed_as_def net_tree_def by auto
  with bspec [OF a(1)] bspec [OF a(2)] show thesis by (intro that)
qed

end
