(* ===== verification/Route_All.thy ===== *)
theory Route_All
  imports Route_Nets "HOL-Library.Multiset"
begin

text \<open>
  All nets of an iteration of the router and the congestion loop: the occupancy counts the nets that
  use a node, so a converged iteration leaves trees that share no node.
\<close>

section \<open>Occupancy\<close>

lemma occ_at_update: "occ_at (AList.update n k occ) x = (if x = n then k else occ_at occ x)"
  by (simp add: occ_at_def update_conv')

lemma occ_at_occupy: "distinct nodes \<Longrightarrow> occ_at (occupy nodes occ) x = occ_at occ x + of_bool (x \<in> set nodes)"
proof (induction nodes arbitrary: occ)
  case Nil
  then show ?case by (simp add: occupy_def)
next
  case (Cons n nodes)
  have "occupy (n # nodes) occ = occupy nodes (AList.update n (occ_at occ n + 1) occ)" by (simp add: occupy_def)
  with Cons show ?case by (auto simp: occ_at_update)
qed

lemma over_used_none: "over_used occ = [] \<Longrightarrow> occ_at occ x \<le> 1"
  by (auto simp: over_used_def occ_at_def filter_empty_conv split: option.split dest!: map_of_SomeD)

section \<open>An iteration\<close>

type_synonym routed_net = "route_net_t \<times> edge list \<times> node list"

definition users :: "routed_net list \<Rightarrow> node \<Rightarrow> routed_net list" where
  "users rn x = filter (\<lambda>(_, _, nodes). x \<in> set nodes) rn"

definition named_edges :: "routed_net list \<Rightarrow> net_edges" where
  "named_edges rn = map (\<lambda>(n, es, _). (nt_name n, es)) rn"

lemma route_nets_total: "\<exists>occ' routed'. route_nets ns (adj_of graph) hist N_INJ occ routed = Some (occ', routed')"
proof (induction ns arbitrary: occ routed)
  case Nil
  show ?case by simp
next
  case (Cons n ns)
  from route_net_ok [of n graph hist "occ_at occ" N_INJ] obtain res where
    "route_net n (adj_of graph) hist (occ_at occ) N_INJ = Some res" by blast
  with Cons.IH show ?case by (cases res) auto
qed

lemma route_nets_ok:
  "distinct (map nt_name ns) \<Longrightarrow> nt_name ` set ns \<inter> fst ` set routed = {} \<Longrightarrow>
    \<exists>occ' rn. route_nets ns (adj_of graph) hist N_INJ occ routed = Some (occ', routed @ named_edges rn)
      \<and> map fst rn = filter (can_route graph N_INJ) ns
      \<and> (\<forall>(n, rt) \<in> set rn. routed_as graph N_INJ n rt)
      \<and> (\<forall>x. occ_at occ' x = occ_at occ x + length (users rn x))"
proof (induction ns arbitrary: occ routed)
  case Nil
  show ?case by (intro exI [of _ occ] exI [of _ "[]"]) (simp add: users_def named_edges_def)
next
  case (Cons n ns)
  from route_net_ok [of n graph hist "occ_at occ" N_INJ] obtain res where
      r: "route_net n (adj_of graph) hist (occ_at occ) N_INJ = Some res"
    and none: "res = None \<longleftrightarrow> \<not> can_route graph N_INJ n"
    and some: "\<forall>rt. res = Some rt \<longrightarrow> routed_as graph N_INJ n rt" by blast
  show ?case
  proof (cases res)
    case None
    with Cons.IH [of routed occ] Cons.prems r none show ?thesis by auto
  next
    case (Some rt)
    obtain es nodes where rt: "rt = (es, nodes)" by (cases rt)
    with Some some have ra: "routed_as graph N_INJ n (es, nodes)" by blast
    then have d: "distinct nodes" by (auto simp: routed_as_def net_tree_def)
    let ?routed = "routed @ [(nt_name n, es)]"
    have "nt_name n \<notin> fst ` set routed" using Cons.prems(2) by auto
    then have upd: "AList.update (nt_name n) es routed = ?routed" by (rule update_new)
    have fresh: "nt_name ` set ns \<inter> fst ` set ?routed = {}" "distinct (map nt_name ns)" using Cons.prems by auto
    from Cons.IH [OF fresh(2,1), of "occupy nodes occ"] obtain occ' rn where
        ih: "route_nets ns (adj_of graph) hist N_INJ (occupy nodes occ) ?routed = Some (occ', ?routed @ named_edges rn)"
        "map fst rn = filter (can_route graph N_INJ) ns" "\<forall>(n, rt) \<in> set rn. routed_as graph N_INJ n rt"
      and occ: "\<And>x. occ_at occ' x = occ_at (occupy nodes occ) x + length (users rn x)" by blast
    let ?rn = "(n, es, nodes) # rn"
    have "route_nets (n # ns) (adj_of graph) hist N_INJ occ routed = Some (occ', routed @ named_edges ?rn)"
      using r Some rt upd ih(1) by (simp add: named_edges_def)
    moreover have "map fst ?rn = filter (can_route graph N_INJ) (n # ns)" using ih(2) none Some by simp
    moreover have "\<forall>(n, rt) \<in> set ?rn. routed_as graph N_INJ n rt" using ih(3) ra by simp
    moreover have "occ_at occ' x = occ_at occ x + length (users ?rn x)" for x
      by (simp add: occ occ_at_occupy [OF d] users_def)
    ultimately show ?thesis by blast
  qed
qed

section \<open>The congestion loop\<close>

definition clean_routing :: "edge list \<Rightarrow> nat \<Rightarrow> routed_net list \<Rightarrow> bool" where
  "clean_routing graph N_INJ rn \<longleftrightarrow>
     (\<forall>(n, rt) \<in> set rn. routed_as graph N_INJ n rt) \<and> (\<forall>x. length (users rn x) \<le> 1)"

lemma pathfinder_loop_total:
  "\<exists>pf. pathfinder_loop shuffle active (adj_of graph) N_INJ it left hist res = Some pf"
proof (induction left arbitrary: it hist res)
  case 0
  show ?case by simp
next
  case (Suc left)
  from route_nets_total [of "shuffle it active" graph hist N_INJ "[]" "[]"] obtain occ routed where
    "route_nets (shuffle it active) (adj_of graph) hist N_INJ [] [] = Some (occ, routed)" by blast
  with Suc show ?case by (simp add: Let_def)
qed

definition permutes_nets :: "(nat \<Rightarrow> route_net_t list \<Rightarrow> route_net_t list) \<Rightarrow> bool" where
  "permutes_nets shuffle \<longleftrightarrow> (\<forall>it ns. mset (shuffle it ns) = mset ns)"

lemma permutes_netsD:
  assumes "permutes_nets shuffle"
  shows "set (shuffle it ns) = set ns" and "distinct (map f (shuffle it ns)) = distinct (map f ns)"
    and "length (filter P (shuffle it ns)) = length (filter P ns)"
proof -
  have m: "mset (shuffle it ns) = mset ns" using assms by (simp add: permutes_nets_def)
  then show "set (shuffle it ns) = set ns" by (rule mset_eq_setD)
  have "mset (map f (shuffle it ns)) = mset (map f ns)" by (simp add: m)
  then show "distinct (map f (shuffle it ns)) = distinct (map f ns)" by (rule mset_eq_imp_distinct_iff)
  have "mset (filter P (shuffle it ns)) = mset (filter P ns)" by (simp add: m)
  then show "length (filter P (shuffle it ns)) = length (filter P ns)" by (rule mset_eq_length)
qed

lemma pathfinder_loop_clean:
  assumes perm: "permutes_nets shuffle" and names: "distinct (map nt_name active)"
  shows "pathfinder_loop shuffle active (adj_of graph) N_INJ it left hist res = Some pf \<Longrightarrow> pf_converged pf \<Longrightarrow> \<not> pf_converged res \<Longrightarrow>
    \<exists>rn it'. pf_edges pf = named_edges rn \<and> map fst rn = filter (can_route graph N_INJ) (shuffle it' active) \<and> clean_routing graph N_INJ rn"
proof (induction left arbitrary: it hist res)
  case 0
  then show ?case by auto
next
  case (Suc left)
  have "distinct (map nt_name (shuffle it active))" using names by (simp add: permutes_netsD(2) [OF perm])
  from route_nets_ok [OF this, of "[]" graph hist N_INJ "[]"] obtain occ rn where
      r: "route_nets (shuffle it active) (adj_of graph) hist N_INJ [] [] = Some (occ, named_edges rn)"
    and m: "map fst rn = filter (can_route graph N_INJ) (shuffle it active)"
    and ra: "\<forall>(n, rt) \<in> set rn. routed_as graph N_INJ n rt" and occ: "\<And>x. occ_at occ x = length (users rn x)"
    by (auto simp: occ_at_def)
  show ?case
  proof (cases "over_used occ = []")
    case True
    then have "length (users rn x) \<le> 1" for x using over_used_none [OF True, of x] by (simp add: occ)
    with ra have "clean_routing graph N_INJ rn" by (simp add: clean_routing_def)
    moreover have "pf_edges pf = named_edges rn" using Suc.prems(1) r True by (auto simp: Let_def)
    ultimately show ?thesis using m by blast
  next
    case False
    let ?res = "\<lparr>pf_converged = False, pf_iters = it, pf_overuse = length (over_used occ), pf_edges = named_edges rn\<rparr>"
    have "pathfinder_loop shuffle active (adj_of graph) N_INJ (it + 1) left
        (\<lambda>n. if n \<in> set (over_used occ) then hist n + 1 else hist n) ?res = Some pf"
      using Suc.prems(1) r False by (simp add: Let_def)
    moreover have "\<not> pf_converged ?res" by simp
    ultimately show ?thesis by (rule Suc.IH [OF _ Suc.prems(2)])
  qed
qed

section \<open>The edges of a clean routing\<close>

definition all_edges :: "routed_net list \<Rightarrow> edge list" where
  "all_edges rn = concat (map (fst \<circ> snd) rn)"

lemma all_edges_named: "concat (map snd (named_edges rn)) = all_edges rn"
  by (simp add: all_edges_def named_edges_def comp_def split_def)

lemma users_unique:
  assumes "length (users rn x) \<le> 1" and "(n, es, nodes) \<in> set rn" and "(n', es', nodes') \<in> set rn"
    and "x \<in> set nodes" and "x \<in> set nodes'"
  shows "n = n' \<and> es = es' \<and> nodes = nodes'"
proof -
  have "(n, es, nodes) \<in> set (users rn x)" "(n', es', nodes') \<in> set (users rn x)" using assms(2-5) by (auto simp: users_def)
  with assms(1) show ?thesis by (cases "users rn x" rule: remdups_adj.cases) auto
qed

text \<open>Every node is entered by one edge; a driver has one exit; every edge is an edge of the graph or an
  exit.\<close>

definition exit_edge :: "nat \<Rightarrow> edge \<Rightarrow> bool" where
  "exit_edge N_INJ e \<longleftrightarrow> (\<exists>r c d j. e = (ClbOut r c j, Out r c d j, Inj j d) \<and> d \<in> set DIRS \<and> j < N_INJ)"

lemma clean_edges:
  assumes clean: "clean_routing graph N_INJ rn"
  shows "single_target (all_edges rn)"
    and "e \<in> set (all_edges rn) \<Longrightarrow> exit_edge N_INJ e \<or> e \<in> set graph"
proof -
  from clean have ra: "\<And>n es nodes. (n, es, nodes) \<in> set rn \<Longrightarrow> routed_as graph N_INJ n (es, nodes)"
    and one: "\<And>x. length (users rn x) \<le> 1" by (auto simp: clean_routing_def)
  have of_net: "\<exists>n es nodes. (n, es, nodes) \<in> set rn \<and> e \<in> set es" if "e \<in> set (all_edges rn)" for e
    using that by (force simp: all_edges_def)
  have tree: "single_target es \<and> touches nodes es" if "(n, es, nodes) \<in> set rn" for n es nodes
    using ra [OF that] by (auto simp: routed_as_def net_tree_def)
  show "single_target (all_edges rn)"
    unfolding single_target_def
  proof (intro allI impI)
    fix u v m u' m' assume "(u, v, m) \<in> set (all_edges rn)" "(u', v, m') \<in> set (all_edges rn)"
    with of_net obtain n es nodes n' es' nodes' where a: "(n, es, nodes) \<in> set rn" "(u, v, m) \<in> set es"
      and b: "(n', es', nodes') \<in> set rn" "(u', v, m') \<in> set es'" by meson
    have "v \<in> set nodes" "v \<in> set nodes'" using tree [OF a(1)] tree [OF b(1)] a(2) b(2) by (auto simp: touches_def)
    with users_unique [OF one a(1) b(1)] have "es = es'" by blast
    with a b tree [OF a(1)] show "u = u' \<and> m = m'" unfolding single_target_def by blast
  qed
  show "exit_edge N_INJ e \<or> e \<in> set graph" if "e \<in> set (all_edges rn)"
  proof -
    from of_net [OF that] obtain n es nodes where n: "(n, es, nodes) \<in> set rn" "e \<in> set es" by blast
    obtain r c j d where d: "j < N_INJ" "d \<in> set DIRS"
        and all: "\<And>f. f \<in> set es \<Longrightarrow> f = (ClbOut r c j, Out r c d j, Inj j d) \<or> (f \<in> set graph \<and> (Out r c d j, fst f) \<in> (links es)\<^sup>*)"
      by (rule routed_asE [OF ra [OF n(1)]]) (rule that; assumption)
    from all [OF n(2)] d show ?thesis unfolding exit_edge_def by blast
  qed
qed

end
