(* ===== verification/Route_Config.thy ===== *)
theory Route_Config
  imports Route_All
begin

text \<open>
  The shape of the edges of the possibility graph and what \<open>_populate_tiles\<close> makes of edges in which
  every node is entered once: each select, injection and input select of a tile is that of the
  one edge that asks for it, and nothing else is set.
\<close>

section \<open>Edges of the graph\<close>

inductive routable_edge :: "nat \<Rightarrow> nat \<Rightarrow> nat \<Rightarrow> nat \<Rightarrow> edge \<Rightarrow> bool" for R C W N_INJ :: nat where
  chan: "(od, (dr, dc), ind) \<in> set CHAN_MAP \<Longrightarrow> r < R \<Longrightarrow> c < C \<Longrightarrow> 0 \<le> int r + dr \<Longrightarrow> int r + dr < int R
    \<Longrightarrow> 0 \<le> int c + dc \<Longrightarrow> int c + dc < int C \<Longrightarrow> t < W
    \<Longrightarrow> routable_edge R C W N_INJ (Out (int r) (int c) od t, In (int r + dr) (int c + dc) ind t, Chan)"
| sb: "dd \<in> set DIRS \<Longrightarrow> sd \<in> set DIRS \<Longrightarrow> sd \<noteq> dd \<Longrightarrow> r < R \<Longrightarrow> c < C \<Longrightarrow> t < W
    \<Longrightarrow> routable_edge R C W N_INJ (In (int r) (int c) sd (wilton_track dd sd t W), Out (int r) (int c) dd t, Sb dd t sd)"
| inj: "d \<in> set DIRS \<Longrightarrow> r < R \<Longrightarrow> c < C \<Longrightarrow> j < N_INJ
    \<Longrightarrow> routable_edge R C W N_INJ (ClbOut (int r) (int c) j, Out (int r) (int c) d j, Inj j d)"
| cb: "DIR_IDX d = Some k \<Longrightarrow> r < R \<Longrightarrow> c < C \<Longrightarrow> t < W \<Longrightarrow> (k * W + t) mod CB_DIV = i mod CB_DIV
    \<Longrightarrow> routable_edge R C W N_INJ (Out (int r) (int c) d t, ClbIn (int r) (int c) i, Cb i d t)"

inductive_cases routable_into_clb_out: "routable_edge R C W N (u, ClbOut r c j, m)"
inductive_cases routable_from_clb_out: "routable_edge R C W N (ClbOut r c j, v, m)"
inductive_cases routable_sb: "routable_edge R C W N (u, v, Sb dd t sd)"
inductive_cases routable_inj: "routable_edge R C W N (u, v, Inj j d)"
inductive_cases routable_cb: "routable_edge R C W N (u, v, Cb i d t)"

lemma possibility_graph_edges:
  assumes "e \<in> set (possibility_graph R C W N_INJ sinks)"
  shows "routable_edge R C W N_INJ e"
proof -
  from assms obtain r c where rc: "r < R" "c < C" and e: "e \<in> set (chan_edges R C W (int r) (int c)) \<or> e \<in> set (sb_edges W (int r) (int c))
      \<or> e \<in> set (inj_edges N_INJ (int r) (int c)) \<or> e \<in> set (cb_edges W sinks (int r) (int c))"
    by (auto simp: possibility_graph_def)
  from e consider "e \<in> set (chan_edges R C W (int r) (int c))" | "e \<in> set (sb_edges W (int r) (int c))"
    | "e \<in> set (inj_edges N_INJ (int r) (int c))" | "e \<in> set (cb_edges W sinks (int r) (int c))" by blast
  then show ?thesis
  proof cases
    case 1
    then obtain od dr dc ind t where "(od, (dr, dc), ind) \<in> set CHAN_MAP" "0 \<le> int r + dr" "int r + dr < int R" "0 \<le> int c + dc"
        "int c + dc < int C" "t < W" "e = (Out (int r) (int c) od t, In (int r + dr) (int c + dc) ind t, Chan)"
      by (auto simp: chan_edges_def Let_def split: if_splits)
    with rc show ?thesis by (auto intro: routable_edge.chan)
  next
    case 2
    with rc show ?thesis by (auto simp: sb_edges_def split: if_splits intro: routable_edge.sb)
  next
    case 3
    with rc show ?thesis by (auto simp: inj_edges_def intro: routable_edge.inj)
  next
    case 4
    then obtain i d t where d: "d \<in> set DIRS" and t: "t < W" "(the (DIR_IDX d) * W + t) mod CB_DIV = i mod CB_DIV"
        "e = (Out (int r) (int c) d t, ClbIn (int r) (int c) i, Cb i d t)"
      by (auto simp: cb_edges_def Let_def split: if_splits)
    from d obtain k where "DIR_IDX d = Some k" by (auto simp: in_DIRS)
    with rc t show ?thesis by (auto intro: routable_edge.cb)
  qed
qed

section \<open>The entries of a tile\<close>

datatype cfg_key = KSel string nat | KInj nat | KCb nat
datatype cfg_val = VNum int | VDir string

fun cfg_get :: "tile_route \<Rightarrow> cfg_key \<Rightarrow> cfg_val option" where
  "cfg_get tr (KSel dd t) = map_option VNum (map_of (tr_sb_sel tr) (dd, t))"
| "cfg_get tr (KInj j) = map_option VDir (map_of (tr_inject tr) j)"
| "cfg_get tr (KCb i) = map_option VNum (map_of (tr_cb_sel tr) i)"

definition cfg_at :: "routes \<Rightarrow> int \<times> int \<Rightarrow> cfg_key \<Rightarrow> cfg_val option" where
  "cfg_at tiles p k = (case map_of tiles p of None \<Rightarrow> None | Some tr \<Rightarrow> cfg_get tr k)"

fun edge_key :: "meta \<Rightarrow> cfg_key option" where
  "edge_key Chan = None"
| "edge_key (Sb dd t sd) = Some (KSel dd t)"
| "edge_key (Inj j d) = Some (KInj j)"
| "edge_key (Cb i d t) = Some (KCb i)"

definition source_sel :: "string \<Rightarrow> string \<Rightarrow> int" where
  "source_sel dd sd = int (the (index_from 0 sd (the (SOURCES dd)))) + 1"

fun edge_val :: "nat \<Rightarrow> meta \<Rightarrow> cfg_val" where
  "edge_val W Chan = VNum 0"
| "edge_val W (Sb dd t sd) = VNum (source_sel dd sd)"
| "edge_val W (Inj j d) = VDir d"
| "edge_val W (Cb i d t) = VNum (int ((the (DIR_IDX d) * W + t) div CB_DIV))"

definition route_dicts :: "tile_route \<Rightarrow> bool" where
  "route_dicts tr \<longleftrightarrow> distinct (map fst (tr_sb_sel tr)) \<and> distinct (map fst (tr_inject tr)) \<and> distinct (map fst (tr_cb_sel tr))"

lemma src_to_sel_ok:
  assumes "dd \<in> set DIRS" and "sd \<in> set DIRS" and "sd \<noteq> dd"
  shows "src_to_sel dd sd = Inr (source_sel dd sd)" and "1 \<le> source_sel dd sd \<and> source_sel dd sd \<le> 3"
    and "the (SOURCES dd) ! nat (source_sel dd sd - 1) = sd"
  using assms by (auto simp: DIRS_def src_to_sel_def SOURCES_def source_sel_def)

lemma track_index_ok: "DIR_IDX d = Some k \<Longrightarrow> track_index d t W = Inr (k * W + t)"
  by (auto simp: DIR_IDX_def track_index_def split: if_splits)

lemma map_of_alist_update: "map_of (AList.update k v al) k' = (if k' = k then Some v else map_of al k')"
  by (simp add: update_conv')

lemma configure_edge_ok:
  assumes "routable_edge R C W N_INJ (u, v, m)"
  shows "\<exists>tr'. configure_edge W m tr = Inr tr' \<and> (route_dicts tr \<longrightarrow> route_dicts tr')
    \<and> (\<forall>k. cfg_get tr' k = (if edge_key m = Some k then Some (edge_val W m) else cfg_get tr k))"
proof (cases m)
  case Chan
  then show ?thesis by simp
next
  case (Sb dd t sd)
  with assms have d: "dd \<in> set DIRS" "sd \<in> set DIRS" "sd \<noteq> dd" by (auto elim: routable_sb)
  let ?tr = "tr\<lparr>tr_sb_sel := AList.update (dd, t) (source_sel dd sd) (tr_sb_sel tr)\<rparr>"
  have "cfg_get ?tr k = (if edge_key m = Some k then Some (edge_val W m) else cfg_get tr k)" for k
    by (cases k) (auto simp: Sb map_of_alist_update)
  then show ?thesis by (simp add: Sb src_to_sel_ok(1) [OF d] route_dicts_def distinct_update)
next
  case (Inj j d)
  let ?tr = "tr\<lparr>tr_inject := AList.update j d (tr_inject tr)\<rparr>"
  have "cfg_get ?tr k = (if edge_key m = Some k then Some (edge_val W m) else cfg_get tr k)" for k
    by (cases k) (auto simp: Inj map_of_alist_update)
  then show ?thesis by (simp add: Inj route_dicts_def distinct_update)
next
  case (Cb i d t)
  with assms obtain k where d: "DIR_IDX d = Some k" by (auto elim: routable_cb)
  let ?tr = "tr\<lparr>tr_cb_sel := AList.update i (int ((k * W + t) div CB_DIV)) (tr_cb_sel tr)\<rparr>"
  have "cfg_get ?tr k' = (if edge_key m = Some k' then Some (edge_val W m) else cfg_get tr k')" for k'
    by (cases k') (auto simp: Cb map_of_alist_update d)
  then show ?thesis by (simp add: Cb track_index_ok [OF d] d route_dicts_def distinct_update)
qed

definition routes_dicts :: "routes \<Rightarrow> bool" where
  "routes_dicts tiles \<longleftrightarrow> distinct (map fst tiles) \<and> list_all (\<lambda>(p, tr). route_dicts tr) tiles"

lemma route_dicts_empty: "route_dicts empty_route"
  by (simp add: route_dicts_def empty_route_def)

lemma cfg_get_empty: "cfg_get empty_route k = None"
  by (cases k) (simp_all add: empty_route_def)

lemma populate_step:
  assumes e: "routable_edge R C W N_INJ (u, v, m)" and d: "routes_dicts tiles"
  obtains tiles' where "populate W ((u, v, m) # es) tiles = populate W es tiles'" and "routes_dicts tiles'"
    and "fst ` set tiles' = insert (node_tile v) (fst ` set tiles)"
    and "\<And>p k. cfg_at tiles' p k = (if p = node_tile v \<and> edge_key m = Some k then Some (edge_val W m) else cfg_at tiles p k)"
proof -
  let ?p = "node_tile v"
  define tr where "tr = (case map_of tiles ?p of None \<Rightarrow> empty_route | Some tr \<Rightarrow> tr)"
  have trd: "route_dicts tr"
    using d by (auto simp: tr_def routes_dicts_def list_all_iff route_dicts_empty split: option.split dest!: map_of_SomeD)
  have at: "cfg_get tr k = cfg_at tiles ?p k" for k
    by (simp add: tr_def cfg_at_def cfg_get_empty split: option.split)
  from configure_edge_ok [OF e, of tr] trd obtain tr' where c: "configure_edge W m tr = Inr tr'" and d': "route_dicts tr'"
    and g: "\<And>k. cfg_get tr' k = (if edge_key m = Some k then Some (edge_val W m) else cfg_get tr k)" by blast
  let ?tiles = "AList.update ?p tr' tiles"
  show thesis
  proof (rule that [of ?tiles])
    show "populate W ((u, v, m) # es) tiles = populate W es ?tiles" using c by (simp add: tr_def Let_def)
    show "routes_dicts ?tiles" using d d' by (simp add: routes_dicts_def distinct_update list_all_update)
    show "fst ` set ?tiles = insert ?p (fst ` set tiles)" by (induction tiles) auto
    show "cfg_at ?tiles p k = (if p = ?p \<and> edge_key m = Some k then Some (edge_val W m) else cfg_at tiles p k)" for p k
      by (cases "p = ?p") (simp_all add: cfg_at_def [of ?tiles] map_of_alist_update g at, simp add: cfg_at_def)
  qed
qed

text \<open>Edges that set one entry set it to one value.\<close>

definition agreeing :: "nat \<Rightarrow> edge list \<Rightarrow> bool" where
  "agreeing W es \<longleftrightarrow> (\<forall>u v m u' v' m'. (u, v, m) \<in> set es \<longrightarrow> (u', v', m') \<in> set es \<longrightarrow> node_tile v = node_tile v'
     \<longrightarrow> edge_key m = edge_key m' \<longrightarrow> edge_key m \<noteq> None \<longrightarrow> edge_val W m = edge_val W m')"

lemma populate_ok:
  "\<forall>e \<in> set es. routable_edge R C W N_INJ e \<Longrightarrow> agreeing W es \<Longrightarrow> routes_dicts tiles \<Longrightarrow>
    \<exists>tiles'. populate W es tiles = Inr tiles' \<and> routes_dicts tiles' \<and> fst ` set tiles' = fst ` set tiles \<union> node_tile ` fst ` snd ` set es
      \<and> (\<forall>u v m k. (u, v, m) \<in> set es \<longrightarrow> edge_key m = Some k \<longrightarrow> cfg_at tiles' (node_tile v) k = Some (edge_val W m))
      \<and> (\<forall>p k. (\<forall>(u, v, m) \<in> set es. node_tile v = p \<longrightarrow> edge_key m \<noteq> Some k) \<longrightarrow> cfg_at tiles' p k = cfg_at tiles p k)"
proof (induction es arbitrary: tiles)
  case Nil
  then show ?case by simp
next
  case (Cons e es)
  obtain u v m where e: "e = (u, v, m)" by (metis prod.exhaust)
  with Cons.prems(1) have r: "routable_edge R C W N_INJ (u, v, m)" and rs: "\<forall>e \<in> set es. routable_edge R C W N_INJ e" by auto
  have ag: "agreeing W es" using Cons.prems(2) unfolding agreeing_def by (meson list.set_intros(2))
  obtain tiles1 where p1: "populate W ((u, v, m) # es) tiles = populate W es tiles1" and d1: "routes_dicts tiles1"
    and k1: "fst ` set tiles1 = insert (node_tile v) (fst ` set tiles)"
    and at1: "\<And>p k. cfg_at tiles1 p k = (if p = node_tile v \<and> edge_key m = Some k then Some (edge_val W m) else cfg_at tiles p k)"
    by (rule populate_step [OF r Cons.prems(3), of es]) (rule that; assumption)
  from Cons.IH [OF rs ag d1] obtain tiles' where ih: "populate W es tiles1 = Inr tiles'" "routes_dicts tiles'"
      "fst ` set tiles' = fst ` set tiles1 \<union> node_tile ` fst ` snd ` set es"
    and set1: "\<And>u v m k. (u, v, m) \<in> set es \<Longrightarrow> edge_key m = Some k \<Longrightarrow> cfg_at tiles' (node_tile v) k = Some (edge_val W m)"
    and keep1: "\<And>p k. \<forall>(u, v, m) \<in> set es. node_tile v = p \<longrightarrow> edge_key m \<noteq> Some k \<Longrightarrow> cfg_at tiles' p k = cfg_at tiles1 p k"
    by meson
  have "cfg_at tiles' (node_tile v') k = Some (edge_val W m')" if e': "(u', v', m') \<in> set (e # es)" and k: "edge_key m' = Some k"
    for u' v' m' k
  proof (cases "(u', v', m') \<in> set es")
    case True
    then show ?thesis using k by (rule set1)
  next
    case False
    with e' e have eq: "u' = u" "v' = v" "m' = m" by auto
    show ?thesis
    proof (cases "\<forall>(u2, v2, m2) \<in> set es. node_tile v2 = node_tile v \<longrightarrow> edge_key m2 \<noteq> Some k")
      case True
      from keep1 [OF this] k show ?thesis by (simp add: eq at1)
    next
      case False
      then obtain u2 v2 m2 where e2: "(u2, v2, m2) \<in> set es" "node_tile v2 = node_tile v" "edge_key m2 = Some k" by auto
      have "edge_val W m2 = edge_val W m"
        using Cons.prems(2) e2 k eq e unfolding agreeing_def by (metis list.set_intros option.distinct(1))
      with set1 [OF e2(1,3)] e2(2) show ?thesis by (simp add: eq)
    qed
  qed
  moreover have "cfg_at tiles' p k = cfg_at tiles p k" if "\<forall>(u, v, m) \<in> set (e # es). node_tile v = p \<longrightarrow> edge_key m \<noteq> Some k" for p k
    using keep1 [of p k] that by (auto simp: at1 e)
  moreover have "fst ` set tiles' = fst ` set tiles \<union> node_tile ` fst ` snd ` set (e # es)" using ih(3) k1 e by auto
  ultimately show ?case using p1 ih(1,2) unfolding e by (intro exI [of _ tiles']) (simp only:, blast)
qed

section \<open>A clean routing\<close>

text \<open>In a clean routing a driver has one exit: a second edge out of it would be one of the tree of
  the same net, behind the exit, and no edge of the graph enters a driver.\<close>

lemma clean_exits:
  assumes clean: "clean_routing graph N_INJ rn" and g: "\<And>e. e \<in> set graph \<Longrightarrow> routable_edge R C W N_INJ e"
    and e: "(ClbOut r c j, v, m) \<in> set (all_edges rn)" and e': "(ClbOut r c j, v', m') \<in> set (all_edges rn)"
  shows "v = v' \<and> m = m'"
proof -
  from clean have ra: "\<And>n es nodes. (n, es, nodes) \<in> set rn \<Longrightarrow> routed_as graph N_INJ n (es, nodes)"
    and one: "\<And>x. length (users rn x) \<le> 1" by (auto simp: clean_routing_def)
  from e obtain n es nodes where n: "(n, es, nodes) \<in> set rn" "(ClbOut r c j, v, m) \<in> set es" by (force simp: all_edges_def)
  from e' obtain n' es' nodes' where n': "(n', es', nodes') \<in> set rn" "(ClbOut r c j, v', m') \<in> set es'" by (force simp: all_edges_def)
  have tch: "touches nodes es" "touches nodes' es'" using ra [OF n(1)] ra [OF n'(1)] by (auto simp: routed_as_def net_tree_def)
  then have "ClbOut r c j \<in> set nodes" "ClbOut r c j \<in> set nodes'" using n(2) n'(2) by (auto simp: touches_def)
  with users_unique [OF one n(1) n'(1)] have es: "es' = es" by blast
  obtain r0 c0 j0 d where
      all: "\<And>f. f \<in> set es \<Longrightarrow> f = (ClbOut r0 c0 j0, Out r0 c0 d j0, Inj j0 d) \<or> (f \<in> set graph \<and> (Out r0 c0 d j0, fst f) \<in> (links es)\<^sup>*)"
    by (rule routed_asE [OF ra [OF n(1)]]) (rule that; assumption)
  have no_entry: "u = ClbOut r0 c0 j0 \<and> x = Out r0 c0 d j0 \<or> (\<forall>a b k. x \<noteq> ClbOut a b k)" if l: "(u, x) \<in> links es" for u x
  proof -
    from l obtain m where "(u, x, m) \<in> set es" by (auto simp: links_def)
    from all [OF this] show ?thesis using g [of "(u, x, m)"] by (cases x) (auto elim: routable_into_clb_out)
  qed
  have far: "x \<noteq> ClbOut a b k" if "(Out r0 c0 d j0, x) \<in> (links es)\<^sup>*" for x a b k
    using that by (cases rule: rtranclE) (auto dest!: no_entry)
  have "f = (ClbOut r0 c0 j0, Out r0 c0 d j0, Inj j0 d)" if "f \<in> set es" "fst f = ClbOut r c j" for f
    using all [OF that(1)] far that(2) by metis
  from this [OF n(2)] this [of "(ClbOut r c j, v', m')"] n'(2) es show ?thesis by simp
qed

lemma routable_key:
  assumes "routable_edge R C W N_INJ (u, v, m)" and "edge_key m = Some k"
  shows "case k of KSel dd t \<Rightarrow> \<exists>r c. v = Out r c dd t | KCb i \<Rightarrow> \<exists>r c. v = ClbIn r c i
    | KInj j \<Rightarrow> \<exists>r c d. u = ClbOut r c j \<and> v = Out r c d j \<and> m = Inj j d"
  using assms by (cases m) (auto elim: routable_sb routable_inj routable_cb)

lemma clean_agreeing:
  assumes clean: "clean_routing graph N_INJ rn" and g: "\<And>e. e \<in> set graph \<Longrightarrow> routable_edge R C W N_INJ e"
    and es: "\<And>e. e \<in> set (all_edges rn) \<Longrightarrow> routable_edge R C W N_INJ e"
  shows "agreeing W (all_edges rn)"
  unfolding agreeing_def
proof (intro allI impI)
  fix u v m u' v' m' assume e: "(u, v, m) \<in> set (all_edges rn)" "(u', v', m') \<in> set (all_edges rn)"
    and tile: "node_tile v = node_tile v'" and key: "edge_key m = edge_key m'" "edge_key m \<noteq> None"
  then obtain k where k: "edge_key m = Some k" "edge_key m' = Some k" by auto
  note r = routable_key [OF es [OF e(1)] k(1)] routable_key [OF es [OF e(2)] k(2)]
  have "m = m'"
  proof (cases k)
    case (KInj j)
    with r tile obtain r c where "u = ClbOut r c j" "u' = ClbOut r c j" by auto
    with clean_exits [OF clean g] e show ?thesis by blast
  next
    case (KSel dd t)
    with r tile have "v = v'" by auto
    with clean_edges(1) [OF clean] e show ?thesis unfolding single_target_def by blast
  next
    case (KCb i)
    with r tile have "v = v'" by auto
    with clean_edges(1) [OF clean] e show ?thesis unfolding single_target_def by blast
  qed
  then show "edge_val W m = edge_val W m'" by simp
qed

end
