(* ===== verification/Bitgen_Frames.thy ===== *)
theory Bitgen_Frames
  imports Bitgen_Pack
begin

text \<open>
  Lemmas on the config points: the names are told apart, what each point of a tile carries, which
  tile is read back from the points, and the grid of frames.
\<close>

section \<open>Names\<close>

definition dirs :: "string set" where "dirs = {''n'', ''s'', ''e'', ''w''}"

lemma pt_inject [simp]:
  "elut_pt i = elut_pt i' \<longleftrightarrow> i = i'" "iib_pt m = iib_pt m' \<longleftrightarrow> m = m'" "cb_pt i = cb_pt i' \<longleftrightarrow> i = i'"
  "inj_en_pt j = inj_en_pt j' \<longleftrightarrow> j = j'" "inj_dir_pt j = inj_dir_pt j' \<longleftrightarrow> j = j'"
  by (simp_all add: elut_pt_def iib_pt_def cb_pt_def inj_en_pt_def inj_dir_pt_def)

lemma mux_pt_inject: "d \<in> dirs \<Longrightarrow> d' \<in> dirs \<Longrightarrow> mux_pt d t = mux_pt d' t' \<longleftrightarrow> d = d' \<and> t = t'"
  by (auto simp: mux_pt_def dirs_def)

lemma pt_distinct [simp]:
  "elut_pt i \<noteq> iib_pt m" "elut_pt i \<noteq> mux_pt d t" "elut_pt i \<noteq> inj_en_pt j" "elut_pt i \<noteq> inj_dir_pt j" "elut_pt i \<noteq> cb_pt i'"
  "iib_pt m \<noteq> elut_pt i" "iib_pt m \<noteq> mux_pt d t" "iib_pt m \<noteq> inj_en_pt j" "iib_pt m \<noteq> inj_dir_pt j" "iib_pt m \<noteq> cb_pt i'"
  "mux_pt d t \<noteq> elut_pt i" "mux_pt d t \<noteq> iib_pt m" "mux_pt d t \<noteq> inj_en_pt j" "mux_pt d t \<noteq> inj_dir_pt j" "mux_pt d t \<noteq> cb_pt i'"
  "inj_en_pt j \<noteq> elut_pt i" "inj_en_pt j \<noteq> iib_pt m" "inj_en_pt j \<noteq> mux_pt d t" "inj_en_pt j \<noteq> inj_dir_pt j'" "inj_en_pt j \<noteq> cb_pt i'"
  "inj_dir_pt j \<noteq> elut_pt i" "inj_dir_pt j \<noteq> iib_pt m" "inj_dir_pt j \<noteq> mux_pt d t" "inj_dir_pt j \<noteq> inj_en_pt j'" "inj_dir_pt j \<noteq> cb_pt i'"
  "cb_pt i' \<noteq> elut_pt i" "cb_pt i' \<noteq> iib_pt m" "cb_pt i' \<noteq> mux_pt d t" "cb_pt i' \<noteq> inj_en_pt j" "cb_pt i' \<noteq> inj_dir_pt j"
  by (simp_all add: elut_pt_def iib_pt_def mux_pt_def cb_pt_def inj_en_pt_def inj_dir_pt_def)

section \<open>Folds over maps\<close>

lemma foldl_upd_other: "x \<notin> f ` set xs \<Longrightarrow> foldl (\<lambda>c a. c(f a \<mapsto> g a)) c xs x = c x"
  by (induction xs arbitrary: c) auto

lemma foldl_upd_mem: "inj_on f (set xs) \<Longrightarrow> a \<in> set xs \<Longrightarrow> foldl (\<lambda>c a. c(f a \<mapsto> g a)) c xs (f a) = Some (g a)"
proof (induction xs arbitrary: c)
  case Nil
  then show ?case by simp
next
  case (Cons b xs)
  show ?case
  proof (cases "a \<in> set xs")
    case True
    with Cons show ?thesis by simp
  next
    case False
    with Cons.prems have "a = b" "f a \<notin> f ` set xs" by (auto dest: inj_onD)
    then show ?thesis using foldl_upd_other [of "f a" f xs g "c(f b \<mapsto> g b)"] by (simp del: fun_upd_apply) simp
  qed
qed

lemma map_of_foldl_update:
  "map_of (foldl (\<lambda>d a. AList.update (k a) (v a) d) d xs) x
     = (case map_of (rev (map (\<lambda>a. (k a, v a)) xs)) x of None \<Rightarrow> map_of d x | Some y \<Rightarrow> Some y)"
  by (induction xs arbitrary: d) (auto simp: update_conv' map_add_def split: option.splits)

lemma map_of_foldl_if:
  "map_of (foldl (\<lambda>d a. if P a then AList.update a (h a) d else d) d xs) k
     = (if k \<in> set xs \<and> P k then Some (h k) else map_of d k)"
  by (induction xs arbitrary: d) (auto simp: update_conv')

lemma map_of_unique: "(k, v) \<in> set xs \<Longrightarrow> (\<And>v'. (k, v') \<in> set xs \<Longrightarrow> v' = v) \<Longrightarrow> map_of xs k = Some v"
  by (metis map_of_SomeD weak_map_of_SomeI)

section \<open>The points of a tile\<close>

lemma config_points_elut:
  "i < n \<Longrightarrow> tile_to_config_points n k tile (elut_pt i)
     = Some (case map_of (tl_eluts tile) i of None \<Rightarrow> 0 | Some ec \<Rightarrow> elut_cfg_word ec)"
  unfolding tile_to_config_points_def Let_def
  by (subst foldl_upd_other, fastforce, rule foldl_upd_mem) (auto intro: inj_onI)

lemma config_points_iib:
  "m < n * k \<Longrightarrow> tile_to_config_points n k tile (iib_pt m) = Some (sel_of tile (m div k) (m mod k))"
  unfolding tile_to_config_points_def Let_def by (rule foldl_upd_mem) (auto intro: inj_onI)

lemma config_points_other:
  "x \<notin> elut_pt ` {..<n} \<Longrightarrow> x \<notin> iib_pt ` {..<n * k} \<Longrightarrow> tile_to_config_points n k tile x = None"
  unfolding tile_to_config_points_def Let_def by (subst foldl_upd_other, fastforce)+ simp

lemma config_points_routing:
  "tile_to_config_points n k tile (mux_pt d t) = None" "tile_to_config_points n k tile (inj_en_pt j) = None"
  "tile_to_config_points n k tile (inj_dir_pt j) = None" "tile_to_config_points n k tile (cb_pt i) = None"
  by (rule config_points_other; fastforce)+

section \<open>The tile read back\<close>

lemma read_eluts:
  fixes cfg :: tile_cfg and n :: nat
  defines "t \<equiv> foldl (\<lambda>tile i. let w = point_or_0 cfg (elut_pt i) in
             if w \<noteq> 0 then tile\<lparr>tl_eluts := AList.update i (elut_from_word w) (tl_eluts tile)\<rparr> else tile) empty_tile [0..<n]"
  shows "t = empty_tile\<lparr>tl_eluts := map (\<lambda>i. (i, elut_from_word (point_or_0 cfg (elut_pt i))))
      (filter (\<lambda>i. point_or_0 cfg (elut_pt i) \<noteq> 0) [0..<n])\<rparr>"
proof -
  have upd: "AList.update j v (map (\<lambda>i. (i, g i)) xs) = map (\<lambda>i. (i, g i)) xs @ [(j, v)]" if "j \<notin> set xs" for j v xs and g :: "nat \<Rightarrow> elut_config"
    using that by (induction xs) auto
  show ?thesis
    unfolding t_def by (induction n) (simp_all add: empty_tile_def Let_def upd)
qed

lemma read_mux:
  "foldl (\<lambda>tile m. let sel = g m in
             if sel \<noteq> 0 then tile\<lparr>tl_iib_mux := (tl_iib_mux tile)(h m \<mapsto> sel)\<rparr> else tile) tile xs
   = tile\<lparr>tl_iib_mux := foldl (\<lambda>c a. c(h a \<mapsto> g a)) (tl_iib_mux tile) (filter (\<lambda>m. g m \<noteq> 0) xs)\<rparr>"
  by (induction xs arbitrary: tile) (simp_all add: Let_def)

lemma read_tile_eluts:
  "tl_eluts (config_points_to_tile n k cfg) = map (\<lambda>i. (i, elut_from_word (point_or_0 cfg (elut_pt i))))
      (filter (\<lambda>i. point_or_0 cfg (elut_pt i) \<noteq> 0) [0..<n])"
  and read_tile_nets: "tl_inputs (config_points_to_tile n k cfg) = []" "tl_outputs (config_points_to_tile n k cfg) = []"
  unfolding config_points_to_tile_def Let_def [of "foldl _ empty_tile _"] read_eluts read_mux by (simp_all add: empty_tile_def)

lemma pin_number_inj: "inj_on (\<lambda>m. (m div k, m mod k)) (A :: nat set)"
  by (rule inj_onI) (metis Pair_inject div_mult_mod_eq)

lemma read_tile_sel:
  assumes "gi < n" and "gk < k"
  shows "sel_of (config_points_to_tile n k cfg) gi gk = point_or_0 cfg (iib_pt (gi * k + gk))"
proof -
  let ?m = "gi * k + gk" and ?g = "\<lambda>m. point_or_0 cfg (iib_pt m)"
  let ?ms = "filter (\<lambda>m. ?g m \<noteq> 0) [0..<n * k]"
  let ?mux = "foldl (\<lambda>c m. c((m div k, m mod k) \<mapsto> ?g m)) Map.empty ?ms"
  have "gi * k + gk < (gi + 1) * k" using assms(2) by simp
  also have "\<dots> \<le> n * k" using assms(1) by (intro mult_le_mono1) simp
  finally have m: "?m < n * k" .
  have dm: "?m div k = gi" "?m mod k = gk" using assms(2) by simp_all
  have mux: "tl_iib_mux (config_points_to_tile n k cfg) = ?mux"
    unfolding config_points_to_tile_def Let_def [of "foldl _ empty_tile _"] read_eluts read_mux by (simp add: empty_tile_def)
  show ?thesis
  proof (cases "?g ?m = 0")
    case True
    have "(gi, gk) \<notin> (\<lambda>m. (m div k, m mod k)) ` set ?ms"
    proof
      assume "(gi, gk) \<in> (\<lambda>m. (m div k, m mod k)) ` set ?ms"
      then obtain m' where m': "m' \<in> set ?ms" "m' div k = gi" "m' mod k = gk" by auto
      then have "?g m' \<noteq> 0" by simp
      moreover have "m' = ?m" using div_mult_mod_eq [of m' k] m'(2,3) by simp
      ultimately have "?g ?m \<noteq> 0" by simp
      with True show False by simp
    qed
    from foldl_upd_other [OF this, of ?g Map.empty] True show ?thesis by (simp add: sel_of_def mux)
  next
    case False
    with m have "?m \<in> set ?ms" by simp
    from foldl_upd_mem [OF pin_number_inj [where k = k] this, of ?g Map.empty]
    have "?mux (gi, gk) = Some (?g ?m)" unfolding dm .
    then show ?thesis by (simp add: sel_of_def mux)
  qed
qed

lemma read_tile_cong:
  assumes "\<And>i. i < n \<Longrightarrow> point_or_0 cfg (elut_pt i) = point_or_0 cfg' (elut_pt i)"
    and "\<And>m. m < n * k \<Longrightarrow> point_or_0 cfg (iib_pt m) = point_or_0 cfg' (iib_pt m)"
  shows "config_points_to_tile n k cfg = config_points_to_tile n k cfg'"
  unfolding config_points_to_tile_def Let_def
  by (intro foldl_cong refl) (simp_all add: assms)

text \<open>A tile after a trip through the frames: what is left of it\<close>

definition frame_tile :: "tile_logic \<Rightarrow> tile_logic" where
  "frame_tile tile = config_points_to_tile CLB_N CLB_K (tile_to_config_points CLB_N CLB_K tile)"

lemma frame_tile_sel: "gi < CLB_N \<Longrightarrow> gk < CLB_K \<Longrightarrow> sel_of (frame_tile tile) gi gk = sel_of tile gi gk"
proof -
  assume g: "gi < CLB_N" "gk < CLB_K"
  then have m: "gi * 4 + gk < 8 * 4" by simp
  from g have dm: "(gi * 4 + gk) div 4 = gi" "(gi * 4 + gk) mod 4 = gk" by simp_all
  show ?thesis
    unfolding frame_tile_def read_tile_sel [OF g] point_or_0_def config_points_iib [OF m] dm by simp
qed

lemma frame_tile_elut:
  "map_of (tl_eluts (frame_tile tile)) i =
     (if i < CLB_N then (case map_of (tl_eluts tile) i of None \<Rightarrow> None
        | Some ec \<Rightarrow> if elut_cfg_word ec = 0 then None else Some (elut_from_word (elut_cfg_word ec)))
      else None)"
proof -
  have m: "map_of (map (\<lambda>i. (i, g i)) xs) i = (if i \<in> set xs then Some (g i) else None)" for g :: "nat \<Rightarrow> elut_config" and xs
    by (induction xs) auto
  show ?thesis
    unfolding frame_tile_def read_tile_eluts m
    by (auto simp: point_or_0_def config_points_elut split: option.split)
qed

lemma frame_tile_keys: "distinct (map fst (tl_eluts (frame_tile tile)))"
  by (simp add: frame_tile_def read_tile_eluts comp_def)

section \<open>Points in range\<close>

definition in_width :: "nat \<Rightarrow> int \<Rightarrow> bool" where
  "in_width w v \<longleftrightarrow> 0 \<le> v \<and> v < 2 ^ w"

definition points_in_range :: "tile_cfg \<Rightarrow> bool" where
  "points_in_range cfg \<longleftrightarrow>
     (\<forall>i < 8. in_width 20 (point_or_0 cfg (elut_pt i))) \<and> (\<forall>m < 32. in_width 5 (point_or_0 cfg (iib_pt m)))
     \<and> (\<forall>d \<in> dirs. \<forall>t < 12. in_width 2 (point_or_0 cfg (mux_pt d t)))
     \<and> (\<forall>j < 8. in_width 1 (point_or_0 cfg (inj_en_pt j)) \<and> in_width 2 (point_or_0 cfg (inj_dir_pt j)))
     \<and> (\<forall>i < 18. in_width 5 (point_or_0 cfg (cb_pt i)))"

lemma clb_frame_map_fields:
  assumes "clb_frame_map rows cols = Inr fm"
  shows "fm_R fm = rows" "fm_C fm = cols" "fm_W fm = 12" "fm_N fm = 8" "fm_K fm = 4" "fm_EXT_IN fm = 18"
    and "tile_points fm = tt_points (clb_tile_type 8 4 5) @ tt_points (sb_tile_type 12 8)
      @ map (\<lambda>i. point (cb_pt i) 5) [0..<18]"
proof -
  note f = frame_map_init_Inr [OF assms [unfolded clb_frame_map_def]]
  have w: "cb_sel_width 12 2 = 5" by code_simp
  from f have "cb_tile_type 12 18 2 = Inr (fm_cblock fm)" by blast
  then have "tt_points (fm_cblock fm) = map (\<lambda>i. point (cb_pt i) 5) [0..<18]"
    by (auto simp: cb_tile_type_def w cb_pt_def dest!: sym [of "\<lparr>tt_name = _, tt_points = _\<rparr>"])
  with f show "tile_points fm = tt_points (clb_tile_type 8 4 5) @ tt_points (sb_tile_type 12 8)
      @ map (\<lambda>i. point (cb_pt i) 5) [0..<18]" by (simp only: tile_points_def)
qed (use frame_map_init_Inr [OF assms [unfolded clb_frame_map_def]] in simp_all)

lemma clb_points_set:
  "set (tt_points (clb_tile_type 8 4 5)) = (\<lambda>i. point (elut_pt i) 20) ` {..<8} \<union> (\<lambda>m. point (iib_pt m) 5) ` {..<32}"
  by (simp add: clb_tile_type_def elut_pt_def iib_pt_def atLeast0LessThan)

lemma sb_points_set:
  "set (tt_points (sb_tile_type 12 8)) = (\<Union>d \<in> dirs. (\<lambda>t. point (mux_pt d t) 2) ` {..<12})
     \<union> (\<lambda>j. point (inj_en_pt j) 1) ` {..<8} \<union> (\<lambda>j. point (inj_dir_pt j) 2) ` {..<8}"
  by (auto simp: sb_tile_type_def dirs_def mux_pt_def inj_en_pt_def inj_dir_pt_def atLeast0LessThan)

lemma point_fields [simp]: "cp_name (point n w) = n" "cp_width (point n w) = w"
  by (simp_all add: point_def)

lemma tile_ok_range:
  assumes "clb_frame_map rows cols = Inr fm"
  shows "tile_ok (tile_points fm) cfg \<longleftrightarrow> points_in_range cfg"
proof -
  have ok: "tile_ok pts cfg \<longleftrightarrow> (\<forall>p \<in> set pts. in_width (cp_width p) (point_or_0 cfg (cp_name p)))" for pts
    by (simp add: tile_ok_def point_value_def point_or_0_def in_width_def)
  have "tile_ok (xs @ ys) cfg \<longleftrightarrow> tile_ok xs cfg \<and> tile_ok ys cfg" for xs ys by (auto simp: tile_ok_def)
  moreover have "tile_ok (tt_points (clb_tile_type 8 4 5)) cfg \<longleftrightarrow>
      (\<forall>i < 8. in_width 20 (point_or_0 cfg (elut_pt i))) \<and> (\<forall>m < 32. in_width 5 (point_or_0 cfg (iib_pt m)))"
    unfolding ok clb_points_set by (simp add: ball_Un) (simp add: Ball_def)
  moreover have "tile_ok (tt_points (sb_tile_type 12 8)) cfg \<longleftrightarrow>
      (\<forall>d \<in> dirs. \<forall>t < 12. in_width 2 (point_or_0 cfg (mux_pt d t)))
      \<and> (\<forall>j < 8. in_width 1 (point_or_0 cfg (inj_en_pt j)) \<and> in_width 2 (point_or_0 cfg (inj_dir_pt j)))"
    unfolding ok sb_points_set by (auto simp: ball_Un)
  moreover have "tile_ok (map (\<lambda>i. point (cb_pt i) 5) [0..<18]) cfg \<longleftrightarrow> (\<forall>i < 18. in_width 5 (point_or_0 cfg (cb_pt i)))"
    unfolding ok by auto
  ultimately show ?thesis unfolding clb_frame_map_fields(7) [OF assms] points_in_range_def by (simp only: conj_assoc)
qed

lemma point_names:
  assumes "clb_frame_map rows cols = Inr fm"
  shows "i < 8 \<Longrightarrow> elut_pt i \<in> set (map cp_name (tile_points fm))" "m < 32 \<Longrightarrow> iib_pt m \<in> set (map cp_name (tile_points fm))"
    "d \<in> dirs \<Longrightarrow> t < 12 \<Longrightarrow> mux_pt d t \<in> set (map cp_name (tile_points fm))"
    "j < 8 \<Longrightarrow> inj_en_pt j \<in> set (map cp_name (tile_points fm))" "j < 8 \<Longrightarrow> inj_dir_pt j \<in> set (map cp_name (tile_points fm))"
    "i < 18 \<Longrightarrow> cb_pt i \<in> set (map cp_name (tile_points fm))"
proof -
  have s: "set (map cp_name (tile_points fm)) =
      cp_name ` set (tt_points (clb_tile_type 8 4 5)) \<union> cp_name ` set (tt_points (sb_tile_type 12 8)) \<union> cb_pt ` {..<18}"
    unfolding clb_frame_map_fields(7) [OF assms] by (simp add: atLeast0LessThan image_image Un_assoc image_Un)
  show "i < 8 \<Longrightarrow> elut_pt i \<in> set (map cp_name (tile_points fm))" "m < 32 \<Longrightarrow> iib_pt m \<in> set (map cp_name (tile_points fm))"
    "i < 18 \<Longrightarrow> cb_pt i \<in> set (map cp_name (tile_points fm))"
    unfolding s clb_points_set by (simp_all add: image_Un image_image)
  show "d \<in> dirs \<Longrightarrow> t < 12 \<Longrightarrow> mux_pt d t \<in> set (map cp_name (tile_points fm))"
    "j < 8 \<Longrightarrow> inj_en_pt j \<in> set (map cp_name (tile_points fm))" "j < 8 \<Longrightarrow> inj_dir_pt j \<in> set (map cp_name (tile_points fm))"
    unfolding s sb_points_set by (auto simp: image_Un image_image image_UN)
qed

lemma normal_point:
  "n \<in> set (map cp_name pts) \<Longrightarrow> normal_tile pts cfg n = Some (point_or_0 cfg n)"
  by (simp add: normal_tile_def point_or_0_def)

section \<open>The grid of frames\<close>

lemma lift_frame_Inr [simp]: "lift_frame r = Inr x \<longleftrightarrow> r = Inr x"
  by (simp add: lift_frame_def split: sum.split)

lemma pack_grid_Inr_iff:
  assumes fm: "clb_frame_map rows cols = Inr fm"
    and cells: "\<And>c r. c < cols \<Longrightarrow> r < rows \<Longrightarrow> cfg_at c r = Inr (cell c r)"
  shows "pack_grid fm rows cols cfg_at = Inr frames \<longleftrightarrow>
    length frames = cols \<and> (\<forall>c < cols. pack fm (map (cell c) [0..<rows]) = Inr (frames ! c))"
proof -
  have m: "res_map (cfg_at c) [0..<rows] = Inr (map (cell c) [0..<rows])" if "c < cols" for c
    by (rule res_map_total) (simp add: cells that)
  have "(res_bind (res_map (cfg_at c) [0..<rows]) (\<lambda>col. lift_frame (pack fm col)) = Inr ws)
      = (pack fm (map (cell c) [0..<rows]) = Inr ws)" if "c < cols" for c ws
    by (simp only: m [OF that] res_bind.simps lift_frame_Inr)
  then show ?thesis
    unfolding pack_grid_def res_map_Inr_iff by (auto simp only: list_all2_conv_all_nth length_upt nth_upt diff_zero add_0)
qed

lemma pack_grid_ok_iff:
  assumes fm: "clb_frame_map rows cols = Inr fm"
    and cells: "\<And>c r. c < cols \<Longrightarrow> r < rows \<Longrightarrow> cfg_at c r = Inr (cell c r)"
  shows "(\<exists>frames. pack_grid fm rows cols cfg_at = Inr frames) \<longleftrightarrow>
    (\<forall>c < cols. \<forall>r < rows. points_in_range (cell c r))"
proof -
  have p: "(\<exists>ws. pack fm (map (cell c) [0..<rows]) = Inr ws) \<longleftrightarrow> (\<forall>r < rows. points_in_range (cell c r))" for c
    by (auto simp: pack_Inr_iff clb_frame_map_fields(1) [OF fm] tile_ok_range [OF fm])
  show ?thesis
  proof
    assume "\<exists>frames. pack_grid fm rows cols cfg_at = Inr frames"
    then show "\<forall>c < cols. \<forall>r < rows. points_in_range (cell c r)"
      using p by (fastforce simp: pack_grid_Inr_iff [OF assms])
  next
    assume all: "\<forall>c < cols. \<forall>r < rows. points_in_range (cell c r)"
    let ?ws = "\<lambda>c. SOME ws. pack fm (map (cell c) [0..<rows]) = Inr ws"
    have "pack fm (map (cell c) [0..<rows]) = Inr (?ws c)" if "c < cols" for c
      using all p [of c] that by (metis (mono_tags, lifting) someI_ex)
    then show "\<exists>frames. pack_grid fm rows cols cfg_at = Inr frames"
      by (intro exI [of _ "map ?ws [0..<cols]"]) (simp add: pack_grid_Inr_iff [OF assms])
  qed
qed

lemma unpack_grid:
  assumes fm: "clb_frame_map rows cols = Inr fm"
    and cells: "\<And>c r. c < cols \<Longrightarrow> r < rows \<Longrightarrow> cfg_at c r = Inr (cell c r)"
    and packed: "pack_grid fm rows cols cfg_at = Inr frames"
  shows "length frames = fm_C fm"
    and "c < cols \<Longrightarrow> unpack fm (frames ! c) = Inr (map (\<lambda>r. normal_tile (tile_points fm) (cell c r)) [0..<rows])"
proof -
  from packed have p: "length frames = cols" "\<forall>c < cols. pack fm (map (cell c) [0..<rows]) = Inr (frames ! c)"
    by (simp_all add: pack_grid_Inr_iff [OF fm cells])
  then show "length frames = fm_C fm" by (simp add: clb_frame_map_fields(2) [OF fm])
  show "c < cols \<Longrightarrow> unpack fm (frames ! c) = Inr (map (\<lambda>r. normal_tile (tile_points fm) (cell c r)) [0..<rows])"
    using p(2) unpack_pack_homog [of fm "map (cell c) [0..<rows]" "frames ! c"] by (simp add: comp_def)
qed

lemma res_map_frames:
  assumes "length frames = cols" and "\<And>c. c < cols \<Longrightarrow> f (frames ! c) = Inr (g c)"
  shows "res_map f frames = Inr (map g [0..<cols])"
  using assms by (simp add: res_map_Inr_iff list_all2_conv_all_nth)

section \<open>Reading a grid\<close>

lemma tabulate_flat:
  "tabulate key f cols = foldl (\<lambda>d a. AList.update (fst a) (snd a) d) []
     (concat (map (\<lambda>(c, col). map (\<lambda>(r, x). (key c r, f x)) (enumerate 0 col)) (enumerate 0 cols)))"
proof -
  have inner: "foldl (\<lambda>d (r, x). AList.update (key c r) (f x) d) d xs
      = foldl (\<lambda>d a. AList.update (fst a) (snd a) d) d (map (\<lambda>(r, x). (key c r, f x)) xs)" for c d and xs
    by (induction xs arbitrary: d) auto
  have "foldl (\<lambda>d (c, col). foldl (\<lambda>d (r, x). AList.update (key c r) (f x) d) d (enumerate 0 col)) d zs
      = foldl (\<lambda>d a. AList.update (fst a) (snd a) d) d
          (concat (map (\<lambda>(c, col). map (\<lambda>(r, x). (key c r, f x)) (enumerate 0 col)) zs))" for d zs
    by (induction zs arbitrary: d) (auto simp: inner)
  then show ?thesis by (simp only: tabulate_def)
qed

lemma tabulate_lookup:
  assumes "\<And>c r c' r'. key c r = key c' r' \<Longrightarrow> c = c' \<and> r = r'"
  shows "c < length cols \<Longrightarrow> r < length (cols ! c) \<Longrightarrow> map_of (tabulate key f cols) (key c r) = Some (f (cols ! c ! r))"
    and "(\<And>c r. c < length cols \<Longrightarrow> r < length (cols ! c) \<Longrightarrow> key c r \<noteq> k) \<Longrightarrow> map_of (tabulate key f cols) k = None"
proof -
  let ?xs = "concat (map (\<lambda>(c, col). map (\<lambda>(r, x). (key c r, f x)) (enumerate 0 col)) (enumerate 0 cols))"
  have mem: "(k, v) \<in> set ?xs \<longleftrightarrow> (\<exists>c r. c < length cols \<and> r < length (cols ! c) \<and> k = key c r \<and> v = f (cols ! c ! r))" for k v
    by (force simp: in_set_enumerate_eq)
  have eq: "map_of (tabulate key f cols) k = map_of (rev ?xs) k" for k
    unfolding tabulate_flat map_of_foldl_update by (simp split: option.split)
  show "c < length cols \<Longrightarrow> r < length (cols ! c) \<Longrightarrow> map_of (tabulate key f cols) (key c r) = Some (f (cols ! c ! r))"
    unfolding eq
  proof (rule map_of_unique)
    assume "c < length cols" "r < length (cols ! c)"
    then show "(key c r, f (cols ! c ! r)) \<in> set (rev ?xs)" using mem by (simp del: set_concat) blast
  next
    fix v assume "(key c r, v) \<in> set (rev ?xs)"
    then obtain c' r' where "key c r = key c' r'" "v = f (cols ! c' ! r')" using mem by (auto simp del: set_concat)
    with assms [of c r c' r'] show "v = f (cols ! c ! r)" by simp
  qed
  show "(\<And>c r. c < length cols \<Longrightarrow> r < length (cols ! c) \<Longrightarrow> key c r \<noteq> k) \<Longrightarrow> map_of (tabulate key f cols) k = None"
    unfolding eq using mem by (force simp: map_of_eq_None_iff simp del: set_concat)
qed

end
