(* ===== verification/Bitgen_Grid.thy ===== *)
theory Bitgen_Grid
  imports Bitgen_Frames
begin

text \<open>
  Databases through frames: the grid covers every tile, the tiles are read back where they were,
  and the routing of a tile is read back up to entries that are zero.
\<close>

section \<open>The bounding box\<close>

lemma grid_bounds:
  assumes "db_grid_bounds db = Inr (x0, y0, x1, y1)"
  shows "db_tiles db \<noteq> []" and "x0 \<le> x1" and "y0 \<le> y1"
    and "map_of (db_tiles db) (x, y) = Some tile \<Longrightarrow> x0 \<le> x \<and> x \<le> x1 \<and> y0 \<le> y \<and> y \<le> y1"
proof -
  let ?xs = "set (map (fst \<circ> fst) (db_tiles db))" and ?ys = "set (map (snd \<circ> fst) (db_tiles db))"
  from assms have ne: "db_tiles db \<noteq> []" and b: "x0 = Min ?xs" "y0 = Min ?ys" "x1 = Max ?xs" "y1 = Max ?ys"
    by (auto simp: db_grid_bounds_def Let_def split: if_splits)
  show "db_tiles db \<noteq> []" by (rule ne)
  have box: "x0 \<le> fst (fst e) \<and> fst (fst e) \<le> x1 \<and> y0 \<le> snd (fst e) \<and> snd (fst e) \<le> y1" if "e \<in> set (db_tiles db)" for e
    unfolding b using that by (auto intro!: Min_le Max_ge)
  have "hd (db_tiles db) \<in> set (db_tiles db)" using ne by simp
  from box [OF this] show "x0 \<le> x1" "y0 \<le> y1" by linarith+
  show "map_of (db_tiles db) (x, y) = Some tile \<Longrightarrow> x0 \<le> x \<and> x \<le> x1 \<and> y0 \<le> y \<and> y \<le> y1"
    by (drule map_of_SomeD, drule box) simp
qed

lemma grid_bounds_ok: "db_tiles db \<noteq> [] \<Longrightarrow> \<exists>x0 y0 x1 y1. db_grid_bounds db = Inr (x0, y0, x1, y1)"
  by (simp add: db_grid_bounds_def Let_def)

lemma clb_frame_map_ok: "\<exists>fm. clb_frame_map rows cols = Inr fm"
  by (simp add: clb_frame_map_def frame_map_init_def cb_tile_type_def)

section \<open>The tiles of a grid of frames\<close>

definition logic_cell :: "fabric_db \<Rightarrow> int \<Rightarrow> int \<Rightarrow> nat \<Rightarrow> nat \<Rightarrow> tile_cfg" where
  "logic_cell db x0 y0 c r =
     (case map_of (db_tiles db) (int c + x0, int r + y0) of
        None \<Rightarrow> Map.empty | Some tile \<Rightarrow> tile_to_config_points CLB_N CLB_K tile)"

lemma config_points_range:
  "points_in_range (tile_to_config_points CLB_N CLB_K tile)
     \<longleftrightarrow> (\<forall>gi < CLB_N. \<forall>gk < CLB_K. 0 \<le> sel_of tile gi gk \<and> sel_of tile gi gk < 32)"
proof -
  let ?cfg = "tile_to_config_points 8 4 tile"
  have w: "in_width 20 (elut_cfg_word ec)" for ec
  proof -
    have "elut_cfg_word ec = take_bit 20 (elut_cfg_word ec)"
      unfolding elut_cfg_word_def Let_def by (simp add: take_bit_eq_mask mask_eq_exp_minus_1 and.assoc)
    then show ?thesis unfolding in_width_def by (metis take_bit_nonnegative take_bit_int_less_exp)
  qed
  have e: "in_width 20 (point_or_0 ?cfg (elut_pt i))" if "i < 8" for i
    using that w by (simp add: point_or_0_def config_points_elut in_width_def split: option.split)
  have z: "point_or_0 ?cfg (mux_pt d t) = 0" "point_or_0 ?cfg (inj_en_pt j) = 0" "point_or_0 ?cfg (inj_dir_pt j) = 0"
    "point_or_0 ?cfg (cb_pt i) = 0" for d t j i
    by (simp_all add: point_or_0_def config_points_routing)
  have "(\<forall>m < 32. in_width 5 (point_or_0 ?cfg (iib_pt m))) \<longleftrightarrow>
      (\<forall>gi < 8. \<forall>gk < 4. 0 \<le> sel_of tile gi gk \<and> sel_of tile gi gk < 32)" (is "?l = ?r")
  proof
    assume l: ?l
    show ?r
    proof (intro allI impI)
      fix gi gk :: nat assume "gi < 8" "gk < 4"
      then have "gi * 4 + gk < 32" "(gi * 4 + gk) div 4 = gi" "(gi * 4 + gk) mod 4 = gk" by simp_all
      with l [rule_format, of "gi * 4 + gk"] show "0 \<le> sel_of tile gi gk \<and> sel_of tile gi gk < 32"
        by (simp add: point_or_0_def config_points_iib in_width_def)
    qed
  next
    assume r: ?r
    show ?l
      using r by (simp add: point_or_0_def config_points_iib in_width_def)
  qed
  with e show ?thesis by (simp add: points_in_range_def z in_width_def)
qed

definition selects_fit :: "tile_logic \<Rightarrow> bool" where
  "selects_fit tile \<longleftrightarrow> (\<forall>gi < CLB_N. \<forall>gk < CLB_K. 0 \<le> sel_of tile gi gk \<and> sel_of tile gi gk < 32)"

lemma points_in_range_empty: "points_in_range Map.empty"
  by (simp add: points_in_range_def point_or_0_def in_width_def)

lemma read_normal_tile:
  assumes "clb_frame_map rows cols = Inr fm"
  shows "config_points_to_tile CLB_N CLB_K (normal_tile (tile_points fm) cfg) = config_points_to_tile CLB_N CLB_K cfg"
  by (rule read_tile_cong)
    (simp_all add: point_or_0_def normal_point [OF point_names(1) [OF assms]] normal_point [OF point_names(2) [OF assms]])

lemma read_empty: "config_points_to_tile n k Map.empty = empty_tile"
proof -
  have "foldl (\<lambda>t _. t) t xs = t" for t :: tile_logic and xs :: "nat list" by (induction xs) auto
  then show ?thesis by (simp add: config_points_to_tile_def point_or_0_def)
qed

lemma frames_to_db_grid:
  assumes fm: "clb_frame_map rows cols = Inr fm" and len: "length frames = fm_C fm"
    and unpacked: "\<And>c. c < cols \<Longrightarrow> unpack fm (frames ! c) = Inr (map (\<lambda>r. normal_tile (tile_points fm) (cell c r)) [0..<rows])"
  obtains db' where "frames_to_db frames fm x0 y0 = Inr db'"
    and "\<And>x y. map_of (db_tiles db') (x, y) =
      (if x0 \<le> x \<and> x < x0 + int cols \<and> y0 \<le> y \<and> y < y0 + int rows
       then Some (config_points_to_tile CLB_N CLB_K (cell (nat (x - x0)) (nat (y - y0)))) else None)"
proof -
  let ?key = "\<lambda>c r. (int c + x0, int r + y0)" and ?f = "config_points_to_tile CLB_N CLB_K"
  let ?grid = "map (\<lambda>c. map (\<lambda>r. normal_tile (tile_points fm) (cell c r)) [0..<rows]) [0..<cols]"
  let ?db = "empty_db\<lparr>db_tiles := tabulate ?key ?f ?grid\<rparr>"
  note fields = clb_frame_map_fields [OF fm]
  from len have l: "length frames = cols" by (simp add: fields)
  have "res_map (\<lambda>frame. lift_frame (unpack fm frame)) frames = Inr ?grid"
    by (rule res_map_frames [OF l]) (simp add: unpacked)
  then have "frames_to_db frames fm x0 y0 = Inr ?db"
    by (simp add: frames_to_db_def unpack_frames_def len fields)
  moreover have "map_of (db_tiles ?db) (x, y) =
      (if x0 \<le> x \<and> x < x0 + int cols \<and> y0 \<le> y \<and> y < y0 + int rows
       then Some (?f (cell (nat (x - x0)) (nat (y - y0)))) else None)" for x y
  proof (cases "x0 \<le> x \<and> x < x0 + int cols \<and> y0 \<le> y \<and> y < y0 + int rows")
    case True
    then have cr: "nat (x - x0) < cols" "nat (y - y0) < rows" "?key (nat (x - x0)) (nat (y - y0)) = (x, y)" by auto
    have "map_of (tabulate ?key ?f ?grid) (?key (nat (x - x0)) (nat (y - y0)))
        = Some (?f (?grid ! nat (x - x0) ! nat (y - y0)))"
      by (rule tabulate_lookup(1)) (use cr in auto)
    with True cr show ?thesis by (simp add: read_normal_tile [OF fm])
  next
    case False
    have "map_of (tabulate ?key ?f ?grid) (x, y) = None"
      by (rule tabulate_lookup(2)) (use False in auto)
    with False show ?thesis by auto
  qed
  ultimately show thesis by (rule that)
qed

lemma db_to_frames_grid:
  assumes "db_to_frames db = Inr (frames, fm)" and "db_grid_bounds db = Inr (x0, y0, x1, y1)"
  defines "rows \<equiv> nat (y1 - y0 + 1)" and "cols \<equiv> nat (x1 - x0 + 1)"
  shows "clb_frame_map rows cols = Inr fm"
    and "pack_grid fm rows cols (\<lambda>c r. Inr (logic_cell db x0 y0 c r)) = Inr frames"
  using assms by (auto simp: db_to_frames_def res_bind_Inr_iff Let_def logic_cell_def)

lemma logic_cells_fit:
  assumes "db_grid_bounds db = Inr (x0, y0, x1, y1)"
  defines "rows \<equiv> nat (y1 - y0 + 1)" and "cols \<equiv> nat (x1 - x0 + 1)"
  shows "(\<forall>c < cols. \<forall>r < rows. points_in_range (logic_cell db x0 y0 c r))
    \<longleftrightarrow> (\<forall>p tile. map_of (db_tiles db) p = Some tile \<longrightarrow> selects_fit tile)"
proof
  assume cells: "\<forall>c < cols. \<forall>r < rows. points_in_range (logic_cell db x0 y0 c r)"
  show "\<forall>p tile. map_of (db_tiles db) p = Some tile \<longrightarrow> selects_fit tile"
  proof (clarify)
    fix x y tile assume t: "map_of (db_tiles db) (x, y) = Some tile"
    from grid_bounds(4) [OF assms(1) t] have lt: "nat (x - x0) < cols" "nat (y - y0) < rows"
      and at: "int (nat (x - x0)) + x0 = x" "int (nat (y - y0)) + y0 = y" by (auto simp: rows_def cols_def)
    have "logic_cell db x0 y0 (nat (x - x0)) (nat (y - y0)) = tile_to_config_points CLB_N CLB_K tile"
      unfolding logic_cell_def at t by simp
    with cells lt have "points_in_range (tile_to_config_points CLB_N CLB_K tile)" by metis
    then show "selects_fit tile" by (simp only: config_points_range selects_fit_def)
  qed
next
  assume "\<forall>p tile. map_of (db_tiles db) p = Some tile \<longrightarrow> selects_fit tile"
  then show "\<forall>c < cols. \<forall>r < rows. points_in_range (logic_cell db x0 y0 c r)"
    by (auto simp: logic_cell_def config_points_range selects_fit_def points_in_range_empty split: option.split)
qed

lemma db_to_frames_cases:
  assumes b: "db_grid_bounds db = Inr (x0, y0, x1, y1)"
  defines "rows \<equiv> nat (y1 - y0 + 1)" and "cols \<equiv> nat (x1 - x0 + 1)"
  obtains (bad) e where "\<not> (\<forall>p tile. map_of (db_tiles db) p = Some tile \<longrightarrow> selects_fit tile)" "db_to_frames db = Inl e"
  | (packed) frames fm db' where "\<forall>p tile. map_of (db_tiles db) p = Some tile \<longrightarrow> selects_fit tile"
      "db_to_frames db = Inr (frames, fm)" "frames_to_db frames fm x0 y0 = Inr db'"
      "\<And>x y. map_of (db_tiles db') (x, y) = (if x0 \<le> x \<and> x < x0 + int cols \<and> y0 \<le> y \<and> y < y0 + int rows
       then Some (config_points_to_tile CLB_N CLB_K (logic_cell db x0 y0 (nat (x - x0)) (nat (y - y0)))) else None)"
proof -
  obtain fm where fm: "clb_frame_map rows cols = Inr fm" using clb_frame_map_ok by blast
  let ?at = "\<lambda>c r. Inr (logic_cell db x0 y0 c r) :: pack_err + tile_cfg"
  have run: "db_to_frames db = res_bind (pack_grid fm rows cols ?at) (\<lambda>frames. Inr (frames, fm))"
    using fm by (simp add: db_to_frames_def b rows_def cols_def Let_def lift_frame_def flip: logic_cell_def)
  have fit: "(\<exists>frames. pack_grid fm rows cols ?at = Inr frames)
      \<longleftrightarrow> (\<forall>p tile. map_of (db_tiles db) p = Some tile \<longrightarrow> selects_fit tile)"
    using pack_grid_ok_iff [OF fm, of ?at "logic_cell db x0 y0"] logic_cells_fit [OF b] by (simp add: rows_def cols_def)
  show thesis
  proof (cases "pack_grid fm rows cols ?at")
    case (Inl e)
    with fit run bad show thesis by auto
  next
    case (Inr frames)
    have len: "length frames = fm_C fm" using unpack_grid(1) [OF fm _ Inr, of "logic_cell db x0 y0"] by simp
    have un: "unpack fm (frames ! c) = Inr (map (\<lambda>r. normal_tile (tile_points fm) (logic_cell db x0 y0 c r)) [0..<rows])"
      if "c < cols" for c using unpack_grid(2) [OF fm _ Inr, of "logic_cell db x0 y0" c] that by simp
    obtain db' where db': "frames_to_db frames fm x0 y0 = Inr db'"
      "\<And>x y. map_of (db_tiles db') (x, y) = (if x0 \<le> x \<and> x < x0 + int cols \<and> y0 \<le> y \<and> y < y0 + int rows
       then Some (config_points_to_tile CLB_N CLB_K (logic_cell db x0 y0 (nat (x - x0)) (nat (y - y0)))) else None)"
      by (rule frames_to_db_grid [OF fm len un, of x0 y0]) (assumption, rule that)
    show thesis by (rule packed [OF _ _ db']) (use fit Inr run in auto)
  qed
qed

section \<open>Routing points\<close>

definition route_fits :: "tile_route \<Rightarrow> bool" where
  "route_fits rt \<longleftrightarrow>
     distinct (map fst (tr_sb_sel rt)) \<and> distinct (map fst (tr_inject rt)) \<and> distinct (map fst (tr_cb_sel rt))
     \<and> list_all (\<lambda>((d, t), sel). d \<in> set dir_chars \<and> t < 12 \<and> 0 \<le> sel \<and> sel < 4) (tr_sb_sel rt)
     \<and> list_all (\<lambda>(j, d). j < CLB_N \<and> d \<in> set dir_chars) (tr_inject rt)
     \<and> list_all (\<lambda>(i, k). i < CLB_EXT_IN \<and> 0 \<le> k \<and> k < 32) (tr_cb_sel rt)"

lemma dirs_eq: "dirs = set dir_chars" by (simp add: dirs_def dir_chars_def)

lemma dir_idx_chars: "d \<in> dirs \<Longrightarrow> \<exists>v. dir_idx d = Some v \<and> 0 \<le> v \<and> v < 4 \<and> dir_chars ! nat v = d"
  by (auto simp: dirs_def dir_idx_def dir_chars_def)

definition or_0 :: "int option \<Rightarrow> int" where
  "or_0 v = (case v of None \<Rightarrow> 0 | Some x \<Rightarrow> x)"

lemma foldl_points:
  assumes "distinct (map fst xs)" and "inj_on f (insert k (fst ` set xs))"
  shows "foldl (\<lambda>cfg (a, v). cfg(f a \<mapsto> v)) cfg xs (f k) = (case map_of xs k of None \<Rightarrow> cfg (f k) | Some v \<Rightarrow> Some v)"
  using assms
proof (induction xs arbitrary: cfg)
  case Nil
  then show ?case by simp
next
  case (Cons x xs)
  obtain a v where x: "x = (a, v)" by (cases x)
  have d: "distinct (map fst xs)" and inj: "inj_on f (insert k (fst ` set xs))"
    using Cons.prems by (auto simp: x intro: inj_on_subset)
  note ih = Cons.IH [OF d inj, of "cfg(f a \<mapsto> v)"]
  show ?case
  proof (cases "a = k")
    case True
    then have "map_of xs k = None" using Cons.prems(1) by (simp add: x map_of_eq_None_iff)
    with ih True show ?thesis by (simp add: x)
  next
    case False
    then have "f k \<noteq> f a" using Cons.prems(2) by (auto simp: x dest: inj_onD)
    with ih False show ?thesis by (simp add: x split: option.split)
  qed
qed

lemma foldl_points_other:
  "n \<notin> f ` fst ` set xs \<Longrightarrow> foldl (\<lambda>cfg (a, v). cfg(f a \<mapsto> v)) cfg xs n = cfg n"
  by (induction xs arbitrary: cfg) auto

lemma inject_points_ok:
  assumes "list_all (\<lambda>(j, d). j < CLB_N \<and> d \<in> set dir_chars) xs" and "distinct (map fst xs)"
  shows "\<exists>cfg'. inject_points xs cfg = Inr cfg'
    \<and> (\<forall>n. (\<forall>j. n \<noteq> inj_en_pt j \<and> n \<noteq> inj_dir_pt j) \<longrightarrow> cfg' n = cfg n)
    \<and> (\<forall>j. cfg' (inj_en_pt j) = (case map_of xs j of None \<Rightarrow> cfg (inj_en_pt j) | Some d \<Rightarrow> Some 1)
         \<and> cfg' (inj_dir_pt j) = (case map_of xs j of None \<Rightarrow> cfg (inj_dir_pt j) | Some d \<Rightarrow> dir_idx d))"
  using assms
proof (induction xs arbitrary: cfg)
  case Nil
  then show ?case by simp
next
  case (Cons x xs)
  obtain j d where x: "x = (j, d)" by (cases x)
  with Cons.prems have "d \<in> dirs" by (simp add: dirs_eq)
  with dir_idx_chars obtain v where v: "dir_idx d = Some v" by blast
  let ?cfg = "(cfg(inj_en_pt j \<mapsto> 1))(inj_dir_pt j \<mapsto> v)"
  have new: "map_of xs j = None" using Cons.prems(2) by (simp add: x map_of_eq_None_iff)
  have "list_all (\<lambda>(j, d). j < CLB_N \<and> d \<in> set dir_chars) xs" "distinct (map fst xs)" using Cons.prems by simp_all
  from Cons.IH [OF this, of ?cfg] obtain cfg' where c: "inject_points xs ?cfg = Inr cfg'"
    "\<forall>n. (\<forall>j. n \<noteq> inj_en_pt j \<and> n \<noteq> inj_dir_pt j) \<longrightarrow> cfg' n = ?cfg n"
    "\<forall>j. cfg' (inj_en_pt j) = (case map_of xs j of None \<Rightarrow> ?cfg (inj_en_pt j) | Some d \<Rightarrow> Some 1)
         \<and> cfg' (inj_dir_pt j) = (case map_of xs j of None \<Rightarrow> ?cfg (inj_dir_pt j) | Some d \<Rightarrow> dir_idx d)"
    by blast
  show ?case
    by (rule exI [of _ cfg']) (use c v new in \<open>auto simp: x split: option.split\<close>)
qed

text \<open>What the points of a tile with its routing carry\<close>

definition full_cell_ok :: "tile_logic \<Rightarrow> tile_route \<Rightarrow> tile_cfg \<Rightarrow> bool" where
  "full_cell_ok tile rt cfg \<longleftrightarrow>
     (\<forall>i. point_or_0 cfg (elut_pt i) = point_or_0 (tile_to_config_points CLB_N CLB_K tile) (elut_pt i))
     \<and> (\<forall>m. point_or_0 cfg (iib_pt m) = point_or_0 (tile_to_config_points CLB_N CLB_K tile) (iib_pt m))
     \<and> (\<forall>d \<in> dirs. \<forall>t. point_or_0 cfg (mux_pt d t) = or_0 (map_of (tr_sb_sel rt) (d, t)))
     \<and> (\<forall>j. point_or_0 cfg (inj_en_pt j) = (if map_of (tr_inject rt) j = None then 0 else 1)
          \<and> point_or_0 cfg (inj_dir_pt j) = or_0 (Option.bind (map_of (tr_inject rt) j) dir_idx))
     \<and> (\<forall>i. point_or_0 cfg (cb_pt i) = or_0 (map_of (tr_cb_sel rt) i))"

lemma full_points_ok:
  assumes "route_fits rt"
  shows "\<exists>cfg. tile_to_full_points CLB_N CLB_K tile (Some rt) = Inr cfg \<and> full_cell_ok tile rt cfg"
proof -
  let ?c0 = "tile_to_config_points CLB_N CLB_K tile"
  let ?c1 = "foldl (\<lambda>cfg ((d, t), sel). cfg(mux_pt d t \<mapsto> sel)) ?c0 (tr_sb_sel rt)"
  have c1: "?c1 = foldl (\<lambda>cfg (a, v). cfg(case_prod mux_pt a \<mapsto> v)) ?c0 (tr_sb_sel rt)"
    by (intro foldl_cong refl) auto
  have sub: "fst ` set (tr_sb_sel rt) \<subseteq> dirs \<times> UNIV"
    using assms by (auto simp: route_fits_def list_all_iff dirs_eq)
  have mux: "?c1 (mux_pt d t) = map_of (tr_sb_sel rt) (d, t)" if "d \<in> dirs" for d t
  proof -
    have "inj_on (case_prod mux_pt) (insert (d, t) (fst ` set (tr_sb_sel rt)))"
      by (rule inj_on_subset [of _ "dirs \<times> UNIV"]) (use sub that in \<open>auto intro!: inj_onI simp: mux_pt_inject\<close>)
    from foldl_points [OF _ this, of ?c0] assms show ?thesis
      unfolding c1 by (auto simp: route_fits_def config_points_routing split: option.split)
  qed
  have other1: "?c1 n = ?c0 n" if "\<And>d t. n \<noteq> mux_pt d t" for n
    unfolding c1 by (rule foldl_points_other) (use that in auto)
  have inj_ok: "list_all (\<lambda>(j, d). j < CLB_N \<and> d \<in> set dir_chars) (tr_inject rt)" "distinct (map fst (tr_inject rt))"
    using assms unfolding route_fits_def by blast+
  from inject_points_ok [OF this, of ?c1] obtain c2 where c2: "inject_points (tr_inject rt) ?c1 = Inr c2"
    and o2: "\<forall>n. (\<forall>j. n \<noteq> inj_en_pt j \<and> n \<noteq> inj_dir_pt j) \<longrightarrow> c2 n = ?c1 n"
    and i2: "\<forall>j. c2 (inj_en_pt j) = (case map_of (tr_inject rt) j of None \<Rightarrow> ?c1 (inj_en_pt j) | Some d \<Rightarrow> Some 1)
         \<and> c2 (inj_dir_pt j) = (case map_of (tr_inject rt) j of None \<Rightarrow> ?c1 (inj_dir_pt j) | Some d \<Rightarrow> dir_idx d)"
    by blast
  let ?c3 = "foldl (\<lambda>cfg (i, ksub). cfg(cb_pt i \<mapsto> ksub)) c2 (tr_cb_sel rt)"
  have other3: "?c3 n = c2 n" if "\<And>i. n \<noteq> cb_pt i" for n
    by (rule foldl_points_other) (use that in auto)
  have cb: "?c3 (cb_pt i) = map_of (tr_cb_sel rt) i" for i
  proof -
    have "inj_on cb_pt (insert i (fst ` set (tr_cb_sel rt)))" by (auto intro: inj_onI)
    moreover have "c2 (cb_pt i) = None" using o2 by (simp add: other1 config_points_routing)
    ultimately show ?thesis using foldl_points [of "tr_cb_sel rt" cb_pt i c2] assms
      by (auto simp: route_fits_def split: option.split)
  qed
  have logic: "?c3 (elut_pt i) = ?c0 (elut_pt i)" "?c3 (iib_pt m) = ?c0 (iib_pt m)" for i m
    using o2 by (simp_all add: other3 other1)
  have mux3: "point_or_0 ?c3 (mux_pt d t) = or_0 (map_of (tr_sb_sel rt) (d, t))" if "d \<in> dirs" for d t
    using o2 mux [OF that] by (simp add: point_or_0_def or_0_def other3)
  have inj3: "point_or_0 ?c3 (inj_en_pt j) = (if map_of (tr_inject rt) j = None then 0 else 1)"
    "point_or_0 ?c3 (inj_dir_pt j) = or_0 (Option.bind (map_of (tr_inject rt) j) dir_idx)" for j
    using i2 by (auto simp: point_or_0_def or_0_def other3 other1 config_points_routing split: option.split)
  have "full_cell_ok tile rt ?c3"
    unfolding full_cell_ok_def using logic mux3 inj3 cb by (simp add: point_or_0_def or_0_def)
  then show ?thesis by (simp add: tile_to_full_points_def c2)
qed

lemma full_cell_range:
  assumes rt: "route_fits rt" and cell: "full_cell_ok tile rt cfg" and sels: "selects_fit tile"
  shows "points_in_range cfg"
proof -
  have "points_in_range (tile_to_config_points CLB_N CLB_K tile)"
    using sels by (simp add: config_points_range selects_fit_def)
  then have logic: "\<forall>i < 8. in_width 20 (point_or_0 cfg (elut_pt i))" "\<forall>m < 32. in_width 5 (point_or_0 cfg (iib_pt m))"
    using cell by (simp_all add: points_in_range_def full_cell_ok_def)
  have sb: "in_width 2 (or_0 (map_of (tr_sb_sel rt) k))" for k
    using rt by (auto simp: route_fits_def list_all_iff or_0_def in_width_def split: option.split dest!: map_of_SomeD)
  have cb: "in_width 5 (or_0 (map_of (tr_cb_sel rt) i))" for i
    using rt by (auto simp: route_fits_def list_all_iff or_0_def in_width_def split: option.split dest!: map_of_SomeD)
  have dir: "in_width 2 (or_0 (Option.bind (map_of (tr_inject rt) j) dir_idx))" for j
    by (auto simp: or_0_def in_width_def dir_idx_def split: option.split bind_splits)
  from cell sb cb dir logic show ?thesis by (auto simp: points_in_range_def full_cell_ok_def in_width_def)
qed

section \<open>Routing read back\<close>

definition nonzero :: "int option \<Rightarrow> int option" where
  "nonzero v = (case v of None \<Rightarrow> None | Some x \<Rightarrow> if x = 0 then None else Some x)"

definition same_route :: "tile_route \<Rightarrow> tile_route \<Rightarrow> bool" where
  "same_route a b \<longleftrightarrow>
     (\<forall>k. map_of (tr_sb_sel a) k = nonzero (map_of (tr_sb_sel b) k))
     \<and> map_of (tr_inject a) = map_of (tr_inject b)
     \<and> (\<forall>i. map_of (tr_cb_sel a) i = nonzero (map_of (tr_cb_sel b) i))"

lemma read_sb_sels:
  "foldl (add_sb_sel cfg) tr ks = tr\<lparr>tr_sb_sel := foldl (\<lambda>d a. if point_or_0 cfg (case_prod mux_pt a) \<noteq> 0
      then AList.update a (point_or_0 cfg (case_prod mux_pt a)) d else d) (tr_sb_sel tr) ks\<rparr>"
  by (induction ks arbitrary: tr) (auto simp: add_sb_sel_def Let_def)

lemma read_cb_sels:
  "foldl (add_cb_sel cfg) tr ks = tr\<lparr>tr_cb_sel := foldl (\<lambda>d a. if point_or_0 cfg (cb_pt a) \<noteq> 0
      then AList.update a (point_or_0 cfg (cb_pt a)) d else d) (tr_cb_sel tr) ks\<rparr>"
  by (induction ks arbitrary: tr) (auto simp: add_cb_sel_def Let_def)

lemma read_injects_ok:
  assumes "\<And>j. j \<in> set js \<Longrightarrow> point_or_0 cfg (inj_en_pt j) \<noteq> 0 \<Longrightarrow> \<exists>v. cfg (inj_dir_pt j) = Some v \<and> 0 \<le> v \<and> v < 4"
  shows "read_injects cfg js tr = Inr (tr\<lparr>tr_inject := foldl (\<lambda>d j. if point_or_0 cfg (inj_en_pt j) \<noteq> 0
      then AList.update j (dir_chars ! nat (point_or_0 cfg (inj_dir_pt j))) d else d) (tr_inject tr) js\<rparr>)"
  using assms
proof (induction js arbitrary: tr)
  case Nil
  then show ?case by simp
next
  case (Cons j js)
  show ?case
  proof (cases "point_or_0 cfg (inj_en_pt j) = 0")
    case True
    with Cons show ?thesis by simp
  next
    case False
    with Cons.prems [of j] obtain v where v: "cfg (inj_dir_pt j) = Some v" "0 \<le> v" "v < 4" by auto
    then have at: "point_or_0 cfg (inj_dir_pt j) = v" by (simp add: point_or_0_def)
    have "length dir_chars = 4" by (simp add: dir_chars_def)
    with False v Cons.IH [of "tr\<lparr>tr_inject := AList.update j (dir_chars ! nat v) (tr_inject tr)\<rparr>"] Cons.prems
    show ?thesis by (simp add: at Let_def)
  qed
qed

lemma route_of_points_ok:
  assumes fm: "clb_frame_map rows cols = Inr fm" and rt: "route_fits rt" and cell: "full_cell_ok tile rt cfg"
  shows "\<exists>tr. route_of_points fm (normal_tile (tile_points fm) cfg) = Inr tr \<and> same_route tr rt"
proof -
  let ?cfg = "normal_tile (tile_points fm) cfg"
  note names = point_names [OF fm] and fields = clb_frame_map_fields [OF fm]
  have at: "point_or_0 ?cfg n = point_or_0 cfg n" "?cfg n = Some (point_or_0 cfg n)" if "n \<in> set (map cp_name (tile_points fm))" for n
    using normal_point [OF that] by (simp_all add: point_or_0_def)
  have keys: "map_of (tr_sb_sel rt) (d, t) \<noteq> None \<Longrightarrow> d \<in> dirs \<and> t < 12"
    "map_of (tr_inject rt) j \<noteq> None \<Longrightarrow> j < 8 \<and> the (map_of (tr_inject rt) j) \<in> dirs"
    "map_of (tr_cb_sel rt) i \<noteq> None \<Longrightarrow> i < 18" for d t j i
    using rt by (auto simp: route_fits_def list_all_iff dirs_eq dest!: map_of_SomeD)
  let ?ks = "concat (map (\<lambda>d. map (Pair d) [0..<12]) dir_chars)"
  have ks: "(d, t) \<in> set ?ks \<longleftrightarrow> d \<in> dirs \<and> t < 12" for d t by (auto simp: dirs_eq image_iff)
  let ?t1 = "foldl (add_sb_sel ?cfg) empty_route ?ks"
  have inj: "\<exists>v. ?cfg (inj_dir_pt j) = Some v \<and> 0 \<le> v \<and> v < 4"
    if j: "j \<in> set [0..<8]" and en: "point_or_0 ?cfg (inj_en_pt j) \<noteq> 0" for j
  proof -
    from j have j8: "j < 8" by simp
    with en cell at(1) [OF names(4)] obtain d where d: "map_of (tr_inject rt) j = Some d"
      by (auto simp: full_cell_ok_def split: if_splits)
    with keys(2) [of j] dir_idx_chars [of d] obtain v where "dir_idx d = Some v" "0 \<le> v" "v < 4" by auto
    with d cell j8 show ?thesis by (simp add: at(2) [OF names(5)] full_cell_ok_def or_0_def)
  qed
  note r2 = read_injects_ok [where js = "[0..<8]" and cfg = ?cfg, OF inj, where tr = ?t1]
  let ?t2 = "?t1\<lparr>tr_inject := foldl (\<lambda>d j. if point_or_0 ?cfg (inj_en_pt j) \<noteq> 0
      then AList.update j (dir_chars ! nat (point_or_0 ?cfg (inj_dir_pt j))) d else d) (tr_inject ?t1) [0..<8]\<rparr>"
  let ?t3 = "foldl (add_cb_sel ?cfg) ?t2 [0..<18]"
  have run: "route_of_points fm ?cfg = Inr ?t3"
    unfolding route_of_points_def fields(1-6) Let_def using r2 by simp
  have "map_of (tr_sb_sel ?t3) (d, t) = nonzero (map_of (tr_sb_sel rt) (d, t))" for d t
  proof -
    have "map_of (tr_sb_sel ?t3) (d, t) =
        (if (d \<in> dirs \<and> t < 12) \<and> point_or_0 ?cfg (mux_pt d t) \<noteq> 0 then Some (point_or_0 ?cfg (mux_pt d t)) else None)"
      by (simp only: read_cb_sels read_sb_sels tile_route.simps map_of_foldl_if ks prod.case empty_route_def map_of.simps)
    also have "\<dots> = nonzero (map_of (tr_sb_sel rt) (d, t))"
      using cell keys(1) [of d t] at(1) [OF names(3), of d t]
      by (auto simp: full_cell_ok_def nonzero_def or_0_def split: option.split)
    finally show ?thesis .
  qed
  moreover have "map_of (tr_inject ?t3) j = map_of (tr_inject rt) j" for j
  proof -
    have e: "tr_inject ?t1 = []" by (simp add: read_sb_sels empty_route_def)
    have "map_of (tr_inject ?t3) j = (if j \<in> set [0..<8] \<and> point_or_0 ?cfg (inj_en_pt j) \<noteq> 0
        then Some (dir_chars ! nat (point_or_0 ?cfg (inj_dir_pt j))) else None)"
      by (simp add: read_cb_sels map_of_foldl_if e)
    also have "\<dots> = map_of (tr_inject rt) j"
    proof (cases "map_of (tr_inject rt) j")
      case None
      with cell at(1) [OF names(4)] show ?thesis by (auto simp: full_cell_ok_def)
    next
      case (Some d)
      with keys(2) [of j] have j: "j < 8" "d \<in> dirs" by auto
      with dir_idx_chars [of d] obtain v where "dir_idx d = Some v" "0 \<le> v" "dir_chars ! nat v = d" by auto
      with Some j cell at(1) [OF names(4), of j] at(1) [OF names(5), of j] show ?thesis
        by (simp add: full_cell_ok_def or_0_def)
    qed
    finally show ?thesis .
  qed
  moreover have "map_of (tr_cb_sel ?t3) i = nonzero (map_of (tr_cb_sel rt) i)" for i
  proof -
    have e: "tr_cb_sel ?t2 = []" by (simp add: read_sb_sels empty_route_def)
    have "map_of (tr_cb_sel ?t3) i = (if i \<in> set [0..<18] \<and> point_or_0 ?cfg (cb_pt i) \<noteq> 0
        then Some (point_or_0 ?cfg (cb_pt i)) else None)"
      by (simp add: read_cb_sels [of _ ?t2] map_of_foldl_if e)
    also have "\<dots> = nonzero (map_of (tr_cb_sel rt) i)"
      using cell keys(3) [of i] at(1) [OF names(6), of i]
      by (auto simp: full_cell_ok_def nonzero_def or_0_def split: option.split)
    finally show ?thesis .
  qed
  ultimately have "same_route ?t3 rt" unfolding same_route_def by auto
  with run show ?thesis by blast
qed

section \<open>Full frames\<close>

lemma full_to_frames_grid:
  assumes "full_to_frames db routes = Inr (frames, fm)" and "db_grid_bounds db = Inr (x0, y0, x1, y1)"
  defines "rows \<equiv> nat (y1 - y0 + 1)" and "cols \<equiv> nat (x1 - x0 + 1)"
  shows "clb_frame_map rows cols = Inr fm" and "pack_grid fm rows cols (full_at db routes x0 y0) = Inr frames"
  using assms by (auto simp: full_to_frames_def res_bind_Inr_iff Let_def)

lemma route_fits_empty: "route_fits empty_route"
  by (simp add: route_fits_def empty_route_def)

lemma empty_config_points: "point_or_0 (tile_to_config_points CLB_N CLB_K empty_tile) (elut_pt i) = 0"
  "point_or_0 (tile_to_config_points CLB_N CLB_K empty_tile) (iib_pt m) = 0"
proof -
  have out: "elut_pt i \<notin> iib_pt ` A" "iib_pt m \<notin> elut_pt ` A"
    "\<not> i < 8 \<Longrightarrow> elut_pt i \<notin> elut_pt ` {..<8}" "\<not> m < 32 \<Longrightarrow> iib_pt m \<notin> iib_pt ` {..<32}" for A
    by (auto simp: image_iff)
  show "point_or_0 (tile_to_config_points 8 4 empty_tile) (elut_pt i) = 0"
    using config_points_other [of "elut_pt i" 8 4 empty_tile] out
    by (cases "i < 8") (auto simp: point_or_0_def config_points_elut empty_tile_def)
  show "point_or_0 (tile_to_config_points 8 4 empty_tile) (iib_pt m) = 0"
    using config_points_other [of "iib_pt m" 8 4 empty_tile] out
    by (cases "m < 32") (auto simp: point_or_0_def config_points_iib empty_tile_def sel_of_def)
qed

text \<open>A cell of the grid: the points it has, as a tile and as a route\<close>

lemma full_at_cases:
  fixes db x0 y0 routes
  assumes fits: "\<forall>p rt. map_of routes p = Some rt \<longrightarrow> route_fits rt"
  defines "tile \<equiv> \<lambda>c r. case map_of (db_tiles db) (int c + x0, int r + y0) of None \<Rightarrow> empty_tile | Some t \<Rightarrow> t"
    and "route \<equiv> \<lambda>c r. case map_of routes (int r, int c) of None \<Rightarrow> empty_route | Some rt \<Rightarrow> rt"
  shows "\<exists>cfg. full_at db routes x0 y0 c r = Inr cfg
    \<and> config_points_to_tile CLB_N CLB_K cfg = frame_tile (tile c r)
    \<and> (\<forall>rows cols fm. clb_frame_map rows cols = Inr fm \<longrightarrow>
         (\<exists>tr. route_of_points fm (normal_tile (tile_points fm) cfg) = Inr tr \<and> same_route tr (route c r)))
    \<and> (selects_fit (tile c r) \<longrightarrow> points_in_range cfg)"
proof -
  have routed: "\<exists>cfg. tile_to_full_points CLB_N CLB_K t (Some rt) = Inr cfg
      \<and> config_points_to_tile CLB_N CLB_K cfg = frame_tile t
      \<and> (\<forall>rows cols fm. clb_frame_map rows cols = Inr fm \<longrightarrow>
           (\<exists>tr. route_of_points fm (normal_tile (tile_points fm) cfg) = Inr tr \<and> same_route tr rt))
      \<and> (selects_fit t \<longrightarrow> points_in_range cfg)"
    if rt: "route_fits rt" for t rt
  proof -
    from full_points_ok [OF rt, of t] obtain cfg where c: "tile_to_full_points CLB_N CLB_K t (Some rt) = Inr cfg"
      and ok: "full_cell_ok t rt cfg" by blast
    have "config_points_to_tile CLB_N CLB_K cfg = frame_tile t"
      unfolding frame_tile_def by (rule read_tile_cong) (use ok in \<open>simp_all add: full_cell_ok_def\<close>)
    with c route_of_points_ok [OF _ rt ok] full_cell_range [OF rt ok] show ?thesis by blast
  qed
  have plain: "full_cell_ok t empty_route (tile_to_config_points CLB_N CLB_K t)" for t
    by (simp add: full_cell_ok_def empty_route_def or_0_def point_or_0_def config_points_routing)
  show ?thesis
  proof (cases "map_of routes (int r, int c)")
    case (Some rt)
    then have "full_at db routes x0 y0 c r = tile_to_full_points CLB_N CLB_K (tile c r) (Some rt)"
      by (simp add: full_at_def tile_def split: option.split)
    with routed [OF fits [rule_format, OF Some], of "tile c r"] Some show ?thesis by (simp add: route_def)
  next
    case None
    show ?thesis
    proof (cases "map_of (db_tiles db) (int c + x0, int r + y0)")
      case tile_at: (Some t)
      have "full_at db routes x0 y0 c r = Inr (tile_to_config_points CLB_N CLB_K t)"
        by (simp add: full_at_def None tile_at tile_to_full_points_def Let_def)
      with route_of_points_ok [OF _ route_fits_empty plain] full_cell_range [OF route_fits_empty plain] None tile_at
      show ?thesis by (simp add: route_def tile_def frame_tile_def)
    next
      case no_tile: None
      have cell: "full_at db routes x0 y0 c r = Inr Map.empty" by (simp add: full_at_def None no_tile)
      have z: "point_or_0 Map.empty n = 0" for n by (simp add: point_or_0_def)
      have blank: "full_cell_ok empty_tile empty_route Map.empty"
        unfolding full_cell_ok_def z empty_config_points by (simp add: empty_route_def or_0_def)
      have tile0: "config_points_to_tile CLB_N CLB_K Map.empty = frame_tile empty_tile"
        unfolding frame_tile_def by (rule read_tile_cong) (simp_all only: z empty_config_points)
      from cell tile0 route_of_points_ok [OF _ route_fits_empty blank] points_in_range_empty None no_tile
      show ?thesis by (simp add: route_def tile_def)
    qed
  qed
qed

end
