(* ===== verification/Route_Result.thy ===== *)
theory Route_Result
  imports Route_Config Bitgen_Grid
begin

text \<open>
  The whole router: the nets it extracts, that it always ends, and that a converged run which routed
  every net between clusters configures the tiles with clean trees for all of them.
\<close>

section \<open>Nets\<close>

lemma collect_eq: "collect mk nets d n = d n @ map (mk \<circ> fst) (filter (\<lambda>(i, net). net = Some n) nets)"
proof (induction nets arbitrary: d)
  case Nil
  then show ?case by simp
next
  case (Cons x nets)
  obtain i net where "x = (i, net)" by (cases x)
  with Cons.IH show ?case by (cases net) simp_all
qed

lemma fold_collect:
  "foldl (\<lambda>d ((x, y), tile). collect (mk x y) (nets tile) d) d tiles n
     = d n @ concat (map (\<lambda>((x, y), tile). map (mk x y \<circ> fst) (filter (\<lambda>(i, net). net = Some n) (nets tile))) tiles)"
  by (induction tiles arbitrary: d) (auto simp: collect_eq)

lemma net_drivers_eq:
  "net_drivers db x0 y0 n = concat (map (\<lambda>((x, y), tile).
     map (ClbOut (y - y0) (x - x0) \<circ> fst) (filter (\<lambda>(i, net). net = Some n) (tl_outputs tile))) (db_tiles db))"
  using fold_collect [of "\<lambda>x y. ClbOut (y - y0) (x - x0)" tl_outputs "\<lambda>_. []" "db_tiles db" n] by (simp add: net_drivers_def)

lemma net_sinks_eq:
  "net_sinks db x0 y0 n = concat (map (\<lambda>((x, y), tile).
     map (ClbIn (y - y0) (x - x0) \<circ> fst) (filter (\<lambda>(i, net). net = Some n) (tl_inputs tile))) (db_tiles db))"
  using fold_collect [of "\<lambda>x y. ClbIn (y - y0) (x - x0)" tl_inputs "\<lambda>_. []" "db_tiles db" n] by (simp add: net_sinks_def)

lemma in_tile_nodes:
  "v \<in> set (concat (map (\<lambda>((x, y), tile). map (mk x y \<circ> fst) (filter (\<lambda>(i, net). net = Some n) (nets tile))) tiles))
     \<longleftrightarrow> (\<exists>x y tile i. ((x, y), tile) \<in> set tiles \<and> (i, Some n) \<in> set (nets tile) \<and> v = mk x y i)"
proof (induction tiles)
  case Nil
  show ?case by simp
next
  case (Cons e tiles)
  obtain x y tile where e: "e = ((x, y), tile)" by (metis prod.exhaust)
  have "v \<in> set (map (mk x y \<circ> fst) (filter (\<lambda>(i, net). net = Some n) (nets tile))) \<longleftrightarrow> (\<exists>i. (i, Some n) \<in> set (nets tile) \<and> v = mk x y i)"
    by (auto simp: image_iff)
  then have "v \<in> set (concat (map (\<lambda>((x, y), tile). map (mk x y \<circ> fst) (filter (\<lambda>(i, net). net = Some n) (nets tile))) (e # tiles)))
      \<longleftrightarrow> (\<exists>i. (i, Some n) \<in> set (nets tile) \<and> v = mk x y i)
        \<or> (\<exists>x y tile i. ((x, y), tile) \<in> set tiles \<and> (i, Some n) \<in> set (nets tile) \<and> v = mk x y i)"
    by (simp only: e list.map prod.case concat.simps set_append Un_iff Cons.IH)
  also have "\<dots> \<longleftrightarrow> (\<exists>x y tile i. ((x, y), tile) \<in> set (e # tiles) \<and> (i, Some n) \<in> set (nets tile) \<and> v = mk x y i)"
    unfolding e by (simp only: list.set insert_iff prod.inject) blast
  finally show ?case .
qed

lemma in_drivers:
  "v \<in> set (net_drivers db x0 y0 n) \<longleftrightarrow>
     (\<exists>x y tile j. ((x, y), tile) \<in> set (db_tiles db) \<and> (j, Some n) \<in> set (tl_outputs tile) \<and> v = ClbOut (y - y0) (x - x0) j)"
  unfolding net_drivers_eq by (rule in_tile_nodes)

lemma in_sinks:
  "v \<in> set (net_sinks db x0 y0 n) \<longleftrightarrow>
     (\<exists>x y tile i. ((x, y), tile) \<in> set (db_tiles db) \<and> (i, Some n) \<in> set (tl_inputs tile) \<and> v = ClbIn (y - y0) (x - x0) i)"
  unfolding net_sinks_eq by (rule in_tile_nodes)

lemma in_named_nets: "n \<in> set (named_nets nets) \<longleftrightarrow> (\<exists>i. (i, Some n) \<in> set nets)"
proof (induction nets)
  case Nil
  show ?case by (simp add: named_nets_def)
next
  case (Cons x nets)
  obtain i net where x: "x = (i, net)" by (cases x)
  have "set (named_nets (x # nets)) = set_option net \<union> set (named_nets nets)"
    by (cases net) (simp_all add: named_nets_def x)
  with Cons x show ?case by auto
qed

lemma in_net_names: "n \<in> set (net_names db) \<longleftrightarrow> net_drivers db x0 y0 n \<noteq> [] \<or> net_sinks db x0 y0 n \<noteq> []"
proof -
  have "n \<in> set (net_names db) \<longleftrightarrow>
      (\<exists>e \<in> set (db_tiles db). n \<in> set (named_nets (tl_outputs (snd e))) \<or> n \<in> set (named_nets (tl_inputs (snd e))))"
    by (simp add: net_names_def split_def)
  also have "\<dots> \<longleftrightarrow> (\<exists>x y tile. ((x, y), tile) \<in> set (db_tiles db) \<and> (\<exists>j. (j, Some n) \<in> set (tl_outputs tile)))
      \<or> (\<exists>x y tile. ((x, y), tile) \<in> set (db_tiles db) \<and> (\<exists>i. (i, Some n) \<in> set (tl_inputs tile)))"
    unfolding in_named_nets by (metis prod.collapse snd_conv)
  also have "\<dots> \<longleftrightarrow> (\<exists>v. v \<in> set (net_drivers db x0 y0 n)) \<or> (\<exists>v. v \<in> set (net_sinks db x0 y0 n))"
    unfolding in_drivers in_sinks by blast
  finally show ?thesis by (simp add: ex_in_conv)
qed

lemma mk_net_simps [simp]:
  "nt_name (mk_net dl sl n) = n" "nt_sinks (mk_net dl sl n) = sl" "nt_n_drivers (mk_net dl sl n) = length dl"
  "nt_driver (mk_net dl sl n) = (case dl of [] \<Rightarrow> None | v # _ \<Rightarrow> Some v)"
  by (simp_all add: mk_net_def)

lemma mk_net_inter [simp]: "nt_kind (mk_net dl sl n) = InterCluster \<longleftrightarrow> dl \<noteq> [] \<and> sl \<noteq> []"
  by (auto simp: mk_net_def)

lemma extract_names: "map nt_name (extract_nets db x0 y0) = net_names db"
  by (simp add: extract_nets_def Let_def comp_def)

lemma distinct_names: "distinct (map nt_name (extract_nets db x0 y0))"
  unfolding extract_names by (simp add: net_names_def)

lemma extract_net:
  "n \<in> set (extract_nets db x0 y0) \<longleftrightarrow>
     nt_name n \<in> set (net_names db) \<and> n = mk_net (net_drivers db x0 y0 (nt_name n)) (net_sinks db x0 y0 (nt_name n)) (nt_name n)"
  by (auto simp: extract_nets_def Let_def image_iff)

definition inter_nets :: "fabric_db \<Rightarrow> int \<Rightarrow> int \<Rightarrow> route_net_t list" where
  "inter_nets db x0 y0 = filter (\<lambda>n. nt_kind n = InterCluster) (extract_nets db x0 y0)"

text \<open>A net with a driver and a sink is one of the nets to route.\<close>

lemma inter_netI:
  assumes "net_drivers db x0 y0 n \<noteq> []" and "net_sinks db x0 y0 n \<noteq> []"
  shows "mk_net (net_drivers db x0 y0 n) (net_sinks db x0 y0 n) n \<in> set (inter_nets db x0 y0)"
  using assms in_net_names [of n db x0 y0] by (simp add: inter_nets_def extract_net)

section \<open>The checks before the loop\<close>

definition reached :: "edge list \<Rightarrow> route_net_t \<Rightarrow> bool" where
  "reached graph n \<longleftrightarrow> exit_reaches graph (the (nt_driver n)) (nt_sinks n)"

lemma reach_check_ok:
  "\<exists>unreachable. reach_check (adj_of graph) ns = Some (filter (reached graph) ns, unreachable)
     \<and> map fst unreachable = map nt_name (filter (\<lambda>n. \<not> reached graph n) ns)"
proof (induction ns)
  case Nil
  show ?case by simp
next
  case (Cons n ns)
  obtain dist prev where d: "dijkstra (adj_of graph) (the (nt_driver n)) (\<lambda>_. 0) (\<lambda>_. 0) = Some (dist, prev)"
    and none: "\<And>v. dist v = None \<longleftrightarrow> (\<nexists>c. path_cost (adj_of graph) (edge_cost (\<lambda>_. 0) (\<lambda>_. 0)) (the (nt_driver n)) v c)"
    by (rule dijkstra_back_links [of graph "the (nt_driver n)" "\<lambda>_. 0" "\<lambda>_. 0"]) (rule that; assumption)
  have "reached graph n \<longleftrightarrow> list_all (\<lambda>s. dist s \<noteq> None) (nt_sinks n)"
    unfolding reached_def exit_reaches_def list_all_iff using none path_cost_any by metis
  with Cons d show ?case by auto
qed

section \<open>The result\<close>

lemma populate_total:
  "\<forall>e \<in> set es. exit_edge N_INJ e \<or> routable_edge R C W N_INJ e \<Longrightarrow> \<exists>tiles'. populate W es tiles = Inr tiles'"
proof (induction es arbitrary: tiles)
  case Nil
  show ?case by simp
next
  case (Cons e es)
  obtain u v m where e: "e = (u, v, m)" by (metis prod.exhaust)
  have "\<exists>tr'. configure_edge W m tr = Inr tr'" for tr
    using Cons.prems e configure_edge_ok [of R C W N_INJ u v m tr] by (auto simp: exit_edge_def)
  with Cons e show ?case by (metis (no_types, lifting) list.set_intros(2) populate.simps(2) res_bind.simps(2))
qed

lemma exit_or_routable:
  assumes "clean_routing graph N_INJ rn" and "\<And>e. e \<in> set graph \<Longrightarrow> routable_edge R C W N_INJ e" and "e \<in> set (all_edges rn)"
  shows "exit_edge N_INJ e \<or> routable_edge R C W N_INJ e"
  using clean_edges(2) [OF assms(1,3)] assms(2) by blast

text \<open>The edges that an iteration leaves are of the graph or exits, clean or not.\<close>

definition sound_edges :: "edge list \<Rightarrow> nat \<Rightarrow> net_edges \<Rightarrow> bool" where
  "sound_edges graph N_INJ routed \<longleftrightarrow> (\<forall>e \<in> set (concat (map snd routed)). exit_edge N_INJ e \<or> e \<in> set graph)"

lemma routed_as_edges: "routed_as graph N_INJ n (es, nodes) \<Longrightarrow> e \<in> set es \<Longrightarrow> exit_edge N_INJ e \<or> e \<in> set graph"
proof -
  assume ra: "routed_as graph N_INJ n (es, nodes)" and e: "e \<in> set es"
  obtain r c j d where d: "j < N_INJ" "d \<in> set DIRS"
    and all: "\<And>f. f \<in> set es \<Longrightarrow> f = (ClbOut r c j, Out r c d j, Inj j d) \<or> (f \<in> set graph \<and> (Out r c d j, fst f) \<in> (links es)\<^sup>*)"
    by (rule routed_asE [OF ra]) (rule that; assumption)
  from all [OF e] d show ?thesis unfolding exit_edge_def by blast
qed

lemma sound_update:
  assumes "sound_edges graph N_INJ routed" and "\<forall>e \<in> set es. exit_edge N_INJ e \<or> e \<in> set graph"
  shows "sound_edges graph N_INJ (AList.update n es routed)"
proof -
  have "set (AList.update n es routed) \<subseteq> insert (n, es) (set routed)" by (induction routed) auto
  with assms show ?thesis unfolding sound_edges_def by fastforce
qed

lemma route_nets_sound:
  "route_nets ns (adj_of graph) hist N_INJ occ routed = Some (occ', routed') \<Longrightarrow> sound_edges graph N_INJ routed
     \<Longrightarrow> sound_edges graph N_INJ routed'"
proof (induction ns arbitrary: occ routed)
  case Nil
  then show ?case by simp
next
  case (Cons n ns)
  from route_net_ok [of n graph hist "occ_at occ" N_INJ] obtain res where
      r: "route_net n (adj_of graph) hist (occ_at occ) N_INJ = Some res"
    and some: "\<forall>rt. res = Some rt \<longrightarrow> routed_as graph N_INJ n rt" by blast
  show ?case
  proof (cases res)
    case None
    with Cons r show ?thesis by auto
  next
    case (Some rt)
    obtain es nodes where rt: "rt = (es, nodes)" by (cases rt)
    with Some some have "\<forall>e \<in> set es. exit_edge N_INJ e \<or> e \<in> set graph" using routed_as_edges by blast
    from sound_update [OF Cons.prems(2) this] Cons.IH Cons.prems(1) r Some rt show ?thesis by simp
  qed
qed

lemma pathfinder_loop_sound:
  "pathfinder_loop shuffle active (adj_of graph) N_INJ it left hist res = Some pf \<Longrightarrow> sound_edges graph N_INJ (pf_edges res)
     \<Longrightarrow> sound_edges graph N_INJ (pf_edges pf)"
proof (induction left arbitrary: it hist res)
  case 0
  then show ?case by simp
next
  case (Suc left)
  from route_nets_total [of "shuffle it active" graph hist N_INJ "[]" "[]"] obtain occ routed where
    r: "route_nets (shuffle it active) (adj_of graph) hist N_INJ [] [] = Some (occ, routed)" by blast
  from route_nets_sound [OF r] have "sound_edges graph N_INJ routed" by (simp add: sound_edges_def)
  with Suc r show ?case by (auto simp: Let_def split: if_splits)
qed

section \<open>The router ends\<close>

lemma run_pathfinder_total: "\<exists>pf. run_pathfinder shuffle active (adj_of graph) max_iters N_INJ = Some pf \<and> sound_edges graph N_INJ (pf_edges pf)"
proof -
  obtain pf where "run_pathfinder shuffle active (adj_of graph) max_iters N_INJ = Some pf"
    unfolding run_pathfinder_def using pathfinder_loop_total by blast
  moreover from pathfinder_loop_sound [OF this [unfolded run_pathfinder_def]] have "sound_edges graph N_INJ (pf_edges pf)"
    by (simp add: sound_edges_def)
  ultimately show ?thesis by blast
qed

text \<open>What the last steps put in the result\<close>

lemma finish_route_eq:
  assumes "populate_tiles (pf_edges pf) W (rc_tiles rc) = Inr tiles"
  obtains rc' where "finish_route rc active pf m W = Inr rc'" and "rc_tiles rc' = tiles" and "rc_converged rc' = pf_converged pf"
    and "rc_n_routed rc' = (if pf_converged pf then length (pf_edges pf) else 0)" and "rc_n_nets rc' = rc_n_nets rc"
    and "map fst (rc_unrouted rc') = map fst (rc_unrouted rc) @ (if pf_converged pf then [] else map nt_name active)"
  using assms by (cases "pf_converged pf") (simp_all add: finish_route_def Let_def comp_def)

text \<open>The parts of a run, for a database with tiles\<close>

definition routable_nets :: "fabric_db \<Rightarrow> int \<Rightarrow> int \<Rightarrow> nat \<Rightarrow> route_net_t list" where
  "routable_nets db x0 y0 N_INJ = filter (\<lambda>n. preflight_reason N_INJ n = None) (inter_nets db x0 y0)"

definition route_graph :: "fabric_db \<Rightarrow> int \<times> int \<times> int \<times> int \<Rightarrow> nat \<Rightarrow> nat \<Rightarrow> edge list" where
  "route_graph db = (\<lambda>(x0, y0, x1, y1) W N_INJ.
     possibility_graph (nat (y1 - y0 + 1)) (nat (x1 - x0 + 1)) W N_INJ (concat (map nt_sinks (routable_nets db x0 y0 N_INJ))))"

lemma reason_names:
  "map fst (concat (map (\<lambda>n. case preflight_reason N_INJ n of None \<Rightarrow> [] | Some why \<Rightarrow> [(nt_name n, why)]) ns))
     = map nt_name (filter (\<lambda>n. preflight_reason N_INJ n \<noteq> None) ns)"
  by (induction ns) (auto split: option.split)

lemma route_cases:
  assumes box: "db_grid_bounds db = Inr (x0, y0, x1, y1)"
  obtains (none) rc where "route shuffle db max_iters W N_INJ EXT_IN = Some (Inr rc)" and "routable_nets db x0 y0 N_INJ = []"
      and "rc_tiles rc = []" and "rc_converged rc" and "rc_n_routed rc = 0" and "rc_n_nets rc = length (inter_nets db x0 y0)"
      and "map fst (rc_unrouted rc) = map nt_name (filter (\<lambda>n. preflight_reason N_INJ n \<noteq> None) (inter_nets db x0 y0))"
  | (run) rc pf where "route shuffle db max_iters W N_INJ EXT_IN = Some (Inr rc)"
      and "run_pathfinder shuffle (filter (reached (route_graph db (x0, y0, x1, y1) W N_INJ)) (routable_nets db x0 y0 N_INJ))
             (adj_of (route_graph db (x0, y0, x1, y1) W N_INJ)) max_iters N_INJ = Some pf"
      and "populate_tiles (pf_edges pf) W [] = Inr (rc_tiles rc)" and "rc_converged rc = pf_converged pf"
      and "rc_n_routed rc = (if pf_converged pf then length (pf_edges pf) else 0)" and "rc_n_nets rc = length (inter_nets db x0 y0)"
      and "map fst (rc_unrouted rc) = map nt_name (filter (\<lambda>n. preflight_reason N_INJ n \<noteq> None) (inter_nets db x0 y0))
             @ map nt_name (filter (\<lambda>n. \<not> reached (route_graph db (x0, y0, x1, y1) W N_INJ) n) (routable_nets db x0 y0 N_INJ))
             @ (if pf_converged pf then [] else map nt_name (filter (reached (route_graph db (x0, y0, x1, y1) W N_INJ)) (routable_nets db x0 y0 N_INJ)))"
proof -
  let ?R = "nat (y1 - y0 + 1)" and ?C = "nat (x1 - x0 + 1)"
  let ?graph = "route_graph db (x0, y0, x1, y1) W N_INJ" and ?routable = "routable_nets db x0 y0 N_INJ"
  let ?rc0 = "(route_start (extract_nets db x0 y0) (?R, ?C, W, N_INJ, EXT_IN))\<lparr>rc_unrouted :=
      concat (map (\<lambda>n. case preflight_reason N_INJ n of None \<Rightarrow> [] | Some why \<Rightarrow> [(nt_name n, why)]) (inter_nets db x0 y0))\<rparr>"
  have pre: "map fst (rc_unrouted ?rc0) = map nt_name (filter (\<lambda>n. preflight_reason N_INJ n \<noteq> None) (inter_nets db x0 y0))"
    by (simp add: reason_names)
  have start: "rc_tiles ?rc0 = []" "rc_n_routed ?rc0 = 0" "rc_n_nets ?rc0 = length (inter_nets db x0 y0)"
    by (simp_all add: route_start_def inter_nets_def)
  have eq: "route shuffle db max_iters W N_INJ EXT_IN =
      (if ?routable = [] then Some (Inr (?rc0\<lparr>rc_converged := True\<rparr>))
       else case reach_check (adj_of ?graph) ?routable of None \<Rightarrow> None
         | Some (active, unreachable) \<Rightarrow>
             case run_pathfinder shuffle active (adj_of ?graph) max_iters N_INJ of None \<Rightarrow> None
             | Some pf \<Rightarrow> Some (finish_route (?rc0\<lparr>rc_unrouted := rc_unrouted ?rc0 @ unreachable\<rparr>) active pf max_iters W))"
    by (simp only: route_def box sum.case prod.case Let_def routable_nets_def route_graph_def inter_nets_def)
  show thesis
  proof (cases "?routable = []")
    case True
    with none [of "?rc0\<lparr>rc_converged := True\<rparr>"] eq pre start show thesis by simp
  next
    case False
    let ?active = "filter (reached ?graph) ?routable"
    from reach_check_ok [of ?graph ?routable] obtain unreachable where
        rch: "reach_check (adj_of ?graph) ?routable = Some (?active, unreachable)"
      and u: "map fst unreachable = map nt_name (filter (\<lambda>n. \<not> reached ?graph n) ?routable)" by blast
    from run_pathfinder_total [of shuffle ?active ?graph max_iters N_INJ] obtain pf where
        pf: "run_pathfinder shuffle ?active (adj_of ?graph) max_iters N_INJ = Some pf" and snd: "sound_edges ?graph N_INJ (pf_edges pf)" by blast
    have "\<forall>e \<in> set (concat (map snd (pf_edges pf))). exit_edge N_INJ e \<or> routable_edge ?R ?C W N_INJ e"
      using snd possibility_graph_edges unfolding sound_edges_def route_graph_def by fastforce
    from populate_total [OF this, of "[]"] obtain tiles where t: "populate_tiles (pf_edges pf) W [] = Inr tiles"
      by (auto simp: populate_tiles_def)
    from t start(1) have t': "populate_tiles (pf_edges pf) W (rc_tiles (?rc0\<lparr>rc_unrouted := rc_unrouted ?rc0 @ unreachable\<rparr>)) = Inr tiles"
      by simp
    obtain rc where fin: "finish_route (?rc0\<lparr>rc_unrouted := rc_unrouted ?rc0 @ unreachable\<rparr>) ?active pf max_iters W = Inr rc"
      and rc: "rc_tiles rc = tiles" "rc_converged rc = pf_converged pf"
        "rc_n_routed rc = (if pf_converged pf then length (pf_edges pf) else 0)" "rc_n_nets rc = rc_n_nets ?rc0"
        "map fst (rc_unrouted rc) = map fst (rc_unrouted ?rc0 @ unreachable) @ (if pf_converged pf then [] else map nt_name ?active)"
      by (rule finish_route_eq [OF t', of ?active max_iters]) (rule that; simp)
    from eq False rch pf fin have "route shuffle db max_iters W N_INJ EXT_IN = Some (Inr rc)" by simp
    from run [OF this pf _ rc(2,3)] rc t start u pre show thesis by simp
  qed
qed

lemma route_total: "\<exists>res. route shuffle db max_iters W N_INJ EXT_IN = Some res \<and> (res = Inl (RoutePack NoTiles) \<longleftrightarrow> db_tiles db = []) \<and> (db_tiles db \<noteq> [] \<longrightarrow> (\<exists>rc. res = Inr rc))"
proof (cases "db_tiles db = []")
  case True
  then show ?thesis by (simp add: route_def db_grid_bounds_def)
next
  case False
  then obtain x0 y0 x1 y1 where box: "db_grid_bounds db = Inr (x0, y0, x1, y1)" using grid_bounds_ok by blast
  from False show ?thesis
    by (cases rule: route_cases [OF box, of shuffle max_iters W N_INJ EXT_IN]) auto
qed

section \<open>A converged run\<close>

lemma filter_length_all: "length (filter P xs) = length xs \<Longrightarrow> filter P xs = xs"
  by (metis filter_True length_filter_less less_irrefl)

lemma routable_inter: "set (routable_nets db x0 y0 N_INJ) \<subseteq> set (inter_nets db x0 y0)"
  by (auto simp: routable_nets_def)

text \<open>The nets of a converged run are routed without conflict; when their number is that of the nets
  between clusters, they are those nets.\<close>

lemma route_clean:
  assumes perm: "permutes_nets shuffle" and box: "db_grid_bounds db = Inr (x0, y0, x1, y1)"
    and run: "route shuffle db max_iters W N_INJ EXT_IN = Some (Inr rc)" and conv: "rc_converged rc"
  obtains rn where "clean_routing (route_graph db (x0, y0, x1, y1) W N_INJ) N_INJ rn"
    and "populate W (all_edges rn) [] = Inr (rc_tiles rc)" and "rc_n_routed rc = length rn"
    and "fst ` set rn = set (filter (can_route (route_graph db (x0, y0, x1, y1) W N_INJ) N_INJ)
           (filter (reached (route_graph db (x0, y0, x1, y1) W N_INJ)) (routable_nets db x0 y0 N_INJ)))"
    and "fst ` set rn \<subseteq> set (inter_nets db x0 y0)"
    and "rc_n_routed rc = rc_n_nets rc \<Longrightarrow> fst ` set rn = set (inter_nets db x0 y0)"
proof (cases rule: route_cases [OF box, of shuffle max_iters W N_INJ EXT_IN])
  case (1 rc')
  with run have rc: "rc' = rc" by simp
  have "clean_routing (route_graph db (x0, y0, x1, y1) W N_INJ) N_INJ []" by (simp add: clean_routing_def users_def)
  with 1 show thesis unfolding rc by (intro that [of "[]"]) (simp_all add: all_edges_def)
next
  case (2 rc' pf)
  let ?graph = "route_graph db (x0, y0, x1, y1) W N_INJ"
  let ?routable = "routable_nets db x0 y0 N_INJ"
  let ?active = "filter (reached ?graph) ?routable"
  from 2(1) run have rc: "rc' = rc" by simp
  with 2 conv have pfc: "pf_converged pf" by simp
  have names: "distinct (map nt_name ?active)"
    unfolding routable_nets_def inter_nets_def by (intro distinct_map_filter distinct_names)
  from pathfinder_loop_clean [OF perm names 2(2) [unfolded run_pathfinder_def] pfc] obtain rn it where
      e: "pf_edges pf = named_edges rn" and m: "map fst rn = filter (can_route ?graph N_INJ) (shuffle it ?active)"
    and clean: "clean_routing ?graph N_INJ rn" by auto
  have n: "rc_n_routed rc = length rn" using 2 rc pfc e by (simp add: named_edges_def)
  have sh: "set (shuffle it ?active) = set ?active" by (rule permutes_netsD(1) [OF perm])
  have "set (map fst rn) \<subseteq> set ?active" unfolding m using sh by auto
  moreover have which: "fst ` set rn = set (filter (can_route ?graph N_INJ) ?active)"
    unfolding set_map [symmetric] m using sh by auto
  ultimately have sub: "fst ` set rn \<subseteq> set (inter_nets db x0 y0)" using routable_inter by force
  have all: "fst ` set rn = set (inter_nets db x0 y0)" if full: "rc_n_routed rc = rc_n_nets rc"
  proof -
    let ?inter = "inter_nets db x0 y0"
    have "length rn = length (map fst rn)" by simp
    also have "\<dots> = length (filter (can_route ?graph N_INJ) ?active)" unfolding m by (rule permutes_netsD(3) [OF perm])
    finally have l1: "length (filter (can_route ?graph N_INJ) ?active) = length ?inter" using full n 2 rc by simp
    have le: "length (filter (can_route ?graph N_INJ) ?active) \<le> length ?active" "length ?active \<le> length ?routable"
        "length ?routable \<le> length ?inter"
      by (simp_all only: routable_nets_def length_filter_le)
    with l1 have l: "length (filter (can_route ?graph N_INJ) ?active) = length ?active" "length ?active = length ?routable"
        "length ?routable = length ?inter" by linarith+
    from l(3) have "?routable = ?inter" unfolding routable_nets_def by (rule filter_length_all)
    with filter_length_all [OF l(2)] have "?active = ?inter" by simp
    moreover have "\<forall>n \<in> set ?active. can_route ?graph N_INJ n"
      using filter_length_all [OF l(1)] by (simp only: filter_id_conv)
    then have "map fst rn = shuffle it ?active" unfolding m using sh by simp
    ultimately have "set (map fst rn) = set ?inter" using sh by simp
    then show ?thesis by simp
  qed
  show thesis
    by (rule that [OF clean _ n which sub all]) (use 2 rc in \<open>simp_all add: populate_tiles_def e all_edges_named\<close>)
qed

text \<open>All its edges are of the shapes of the graph: the exits leave tiles of the grid.\<close>

lemma inter_driver:
  assumes box: "db_grid_bounds db = Inr (x0, y0, x1, y1)" and n: "n \<in> set (inter_nets db x0 y0)"
    and d: "nt_driver n = Some (ClbOut r c j)"
  obtains x y tile where "((x, y), tile) \<in> set (db_tiles db)" and "(j, Some (nt_name n)) \<in> set (tl_outputs tile)"
    and "r = y - y0" and "c = x - x0"
proof -
  from n have e: "n = mk_net (net_drivers db x0 y0 (nt_name n)) (net_sinks db x0 y0 (nt_name n)) (nt_name n)"
    by (simp add: inter_nets_def extract_net)
  have "nt_driver n = (case net_drivers db x0 y0 (nt_name n) of [] \<Rightarrow> None | v # _ \<Rightarrow> Some v)"
    by (subst e) simp
  with d have "ClbOut r c j \<in> set (net_drivers db x0 y0 (nt_name n))" by (auto split: list.splits)
  then show thesis unfolding in_drivers using that by auto
qed

lemma grid_member:
  assumes box: "db_grid_bounds db = Inr (x0, y0, x1, y1)" and e: "((x, y), tile) \<in> set (db_tiles db)"
  shows "x0 \<le> x" and "x \<le> x1" and "y0 \<le> y" and "y \<le> y1"
proof -
  from e obtain t where "map_of (db_tiles db) (x, y) = Some t" by (metis weak_map_of_SomeI)
  from grid_bounds(4) [OF box this] show "x0 \<le> x" "x \<le> x1" "y0 \<le> y" "y \<le> y1" by auto
qed

lemma clean_edges_routable:
  assumes box: "db_grid_bounds db = Inr (x0, y0, x1, y1)"
    and clean: "clean_routing (route_graph db (x0, y0, x1, y1) W N_INJ) N_INJ rn"
    and nets: "fst ` set rn \<subseteq> set (inter_nets db x0 y0)" and e: "e \<in> set (all_edges rn)"
  shows "routable_edge (nat (y1 - y0 + 1)) (nat (x1 - x0 + 1)) W N_INJ e"
proof -
  let ?graph = "route_graph db (x0, y0, x1, y1) W N_INJ" and ?R = "nat (y1 - y0 + 1)" and ?C = "nat (x1 - x0 + 1)"
  from e obtain n es nodes where n: "(n, es, nodes) \<in> set rn" "e \<in> set es" by (force simp: all_edges_def)
  with clean have ra: "routed_as ?graph N_INJ n (es, nodes)" by (auto simp: clean_routing_def)
  obtain r c j d where dr: "nt_driver n = Some (ClbOut r c j)" "j < N_INJ" "d \<in> set DIRS"
    and all: "\<And>e. e \<in> set es \<Longrightarrow> e = (ClbOut r c j, Out r c d j, Inj j d) \<or> (e \<in> set ?graph \<and> (Out r c d j, fst e) \<in> (links es)\<^sup>*)"
    by (rule routed_asE [OF ra]) (rule that; assumption)
  from nets n(1) have "n \<in> set (inter_nets db x0 y0)" by force
  then obtain x y tile where t: "((x, y), tile) \<in> set (db_tiles db)" "r = y - y0" "c = x - x0"
    by (rule inter_driver [OF box _ dr(1)])
  from grid_member [OF box t(1)] t(2,3) have "0 \<le> r" "nat r < ?R" "0 \<le> c" "nat c < ?C" by auto
  with routable_edge.inj [OF dr(3), of "nat r" ?R "nat c" ?C j N_INJ W] dr(2)
  have "routable_edge ?R ?C W N_INJ (ClbOut r c j, Out r c d j, Inj j d)" by simp
  with all [OF n(2)] show ?thesis by (auto simp: route_graph_def dest: possibility_graph_edges)
qed

end
