(* ===== verification/Fabric_Config.thy ===== *)
theory Fabric_Config
  imports Fabric_Sim Route_Result
begin

text \<open>
  The simulator built from the routes of the router: every tile of the grid holds the selects,
  injections and input selects of the routes and the logic of the database, and nothing else.
\<close>

section \<open>Grids\<close>

definition grid :: "nat \<Rightarrow> nat \<Rightarrow> 'a list list \<Rightarrow> bool" where
  "grid R C g \<longleftrightarrow> length g = R \<and> list_all (\<lambda>row. length row = C) g"

lemma gridD: "grid R C g \<Longrightarrow> length g = R" "grid R C g \<Longrightarrow> r < R \<Longrightarrow> length (g ! r) = C"
  by (auto simp: grid_def list_all_length)

lemma grid_update_grid: "grid R C g \<Longrightarrow> grid R C (grid_update r c x g)"
  by (cases "r < R") (auto simp: grid_def grid_update_def list_all_length nth_list_update)

lemma grid_update_nth:
  assumes "grid R C g" and "r < R" and "c < C"
  shows "grid_update r' c' x g ! r ! c = (if r' = r \<and> c' = c then x else g ! r ! c)"
proof (cases "r' = r")
  case True
  with gridD [OF assms(1)] assms(2,3) show ?thesis by (auto simp: grid_update_def nth_list_update)
next
  case False
  then show ?thesis by (simp add: grid_update_def)
qed

lemma grid_update_other: "r \<noteq> r' \<or> c \<noteq> c' \<Longrightarrow> grid_update r' c' x g ! r ! c = g ! r ! c"
  by (cases "r' < length g"; cases "r = r'") (auto simp: grid_update_def list_update_beyond)

lemma grid_replicate: "grid R C (replicate R (replicate C x))"
  by (simp add: grid_def list_all_iff)

lemma res_fold_inv:
  assumes "res_fold f xs s = Inr s'" and "P s" and "\<And>x s s'. x \<in> set xs \<Longrightarrow> P s \<Longrightarrow> f x s = Inr s' \<Longrightarrow> P s'"
  shows "P s'"
  using assms
proof (induction xs arbitrary: s)
  case Nil
  then show ?case by simp
next
  case (Cons x xs)
  from Cons.prems(1) obtain s1 where "f x s = Inr s1" "res_fold f xs s1 = Inr s'" by (auto simp: res_bind_Inr_iff)
  with Cons show ?case by (meson list.set_intros)
qed

lemma case_option_self: "(case x of None \<Rightarrow> None | Some y \<Rightarrow> Some y) = x" "(case x of None \<Rightarrow> None | Some y \<Rightarrow> f y) = Option.bind x f"
  by (cases x; simp)+

section \<open>One tile\<close>

text \<open>The entries that a tile of width \<open>W\<close> with \<open>N\<close> injectors and \<open>ext\<close> inputs stores as they are\<close>

definition tile_fits :: "nat \<Rightarrow> nat \<Rightarrow> nat \<Rightarrow> tile_route \<Rightarrow> bool" where
  "tile_fits W N ext tr \<longleftrightarrow> route_dicts tr
     \<and> list_all (\<lambda>((dd, t), sel). dd \<in> set DIRS \<and> t < W \<and> 0 \<le> sel \<and> sel < 4) (tr_sb_sel tr)
     \<and> list_all (\<lambda>(j, d). j < N \<and> d \<in> set DIRS) (tr_inject tr)
     \<and> list_all (\<lambda>(i, k). i < ext \<and> 0 \<le> k \<and> k < 2 * int W) (tr_cb_sel tr)"

definition tile_shape :: "nat \<Rightarrow> nat \<Rightarrow> nat \<Rightarrow> tile_models \<Rightarrow> bool" where
  "tile_shape W N ext tm \<longleftrightarrow> switch_box_ok (tm_sb tm) \<and> sb_W (tm_sb tm) = W \<and> sb_NINJ (tm_sb tm) = N
     \<and> cb_W (tm_cb tm) = W \<and> cb_NCB (tm_cb tm) = ext \<and> Fabric_Switch.cb_DIV (tm_cb tm) = 2
     \<and> length (cb_sel (tm_cb tm)) = ext"

lemma and_3_small: "0 \<le> v \<Longrightarrow> v < 4 \<Longrightarrow> v AND 3 = (v :: int)"
proof -
  assume "0 \<le> v" "v < 4"
  then have "take_bit 2 v = v" by (intro take_bit_int_eq_self) simp_all
  then show ?thesis by (simp add: take_bit_eq_mask mask_eq_exp_minus_1)
qed

lemma route_fold:
  assumes "switch_box_ok sb" and "distinct (map fst al)"
    and "list_all (\<lambda>((dd, t), sel). dd \<in> set DIRS \<and> t < sb_W sb \<and> 0 \<le> sel \<and> sel < 4) al"
  shows "\<exists>sb'. res_fold (\<lambda>((dd, t), sel). sb_route dd t sel) al sb = Inr sb' \<and> switch_box_ok sb'
    \<and> sb_W sb' = sb_W sb \<and> sb_NINJ sb' = sb_NINJ sb \<and> sb_inject sb' = sb_inject sb
    \<and> (\<forall>d < 4. \<forall>t. map_of (sb_sel sb') (d, t) = (case map_of al (DIRS ! d, t) of None \<Rightarrow> map_of (sb_sel sb) (d, t) | Some s \<Rightarrow> Some s))"
  using assms
proof (induction al arbitrary: sb)
  case Nil
  then show ?case by simp
next
  case (Cons x al)
  obtain dd t sel where x: "x = ((dd, t), sel)" by (metis prod.exhaust)
  from Cons.prems(3) x obtain k where k: "DIR_IDX dd = Some k" "t < sb_W sb" "0 \<le> sel" "sel < 4" by (auto simp: in_DIRS)
  let ?sb = "sb\<lparr>sb_sel := AList.update (k, t) sel (sb_sel sb)\<rparr>"
  have r: "sb_route dd t sel sb = Inr ?sb" using k by (simp add: sb_route_def and_3_small)
  from sb_route_ok [OF Cons.prems(1) r] Cons.IH [of ?sb] Cons.prems obtain sb' where
      ih: "res_fold (\<lambda>((dd, t), sel). sb_route dd t sel) al ?sb = Inr sb'" "switch_box_ok sb'"
        "sb_W sb' = sb_W sb" "sb_NINJ sb' = sb_NINJ sb" "sb_inject sb' = sb_inject sb"
    and m: "\<And>d t'. d < 4 \<Longrightarrow> map_of (sb_sel sb') (d, t')
        = (case map_of al (DIRS ! d, t') of None \<Rightarrow> map_of (sb_sel ?sb) (d, t') | Some s \<Rightarrow> Some s)" by auto
  have new: "map_of al (dd, t) = None" using Cons.prems(2) x by (simp add: map_of_eq_None_iff)
  from DIR_IDX_Some [OF k(1)] have dd: "k < 4" "dd = DIRS ! k" by auto
  have "map_of (sb_sel sb') (d, t') = (case map_of (x # al) (DIRS ! d, t') of None \<Rightarrow> map_of (sb_sel sb) (d, t') | Some s \<Rightarrow> Some s)"
    if d: "d < 4" for d t'
    using new DIRS_inj [OF dd(1) d] by (auto simp: m [OF d] x dd(2) update_conv' split: option.split)
  with r ih show ?case by (simp add: x)
qed

lemma inject_fold:
  assumes "switch_box_ok sb" and "distinct (map fst al)" and "list_all (\<lambda>(j, d). j < sb_NINJ sb \<and> d \<in> set DIRS) al"
  shows "\<exists>sb'. res_fold (\<lambda>(j, d). sb_inject_on j d) al sb = Inr sb' \<and> switch_box_ok sb'
    \<and> sb_W sb' = sb_W sb \<and> sb_NINJ sb' = sb_NINJ sb \<and> sb_sel sb' = sb_sel sb
    \<and> (\<forall>j. map_of (sb_inject sb') j = (case map_of al j of None \<Rightarrow> map_of (sb_inject sb) j | Some d \<Rightarrow> DIR_IDX d))"
  using assms
proof (induction al arbitrary: sb)
  case Nil
  then show ?case by simp
next
  case (Cons x al)
  obtain j d where x: "x = (j, d)" by (cases x)
  from Cons.prems(3) x obtain k where k: "DIR_IDX d = Some k" "j < sb_NINJ sb" by (auto simp: in_DIRS)
  let ?sb = "sb\<lparr>sb_inject := AList.update j k (sb_inject sb)\<rparr>"
  have r: "sb_inject_on j d sb = Inr ?sb" using k by (simp add: sb_inject_on_def)
  from sb_inject_on_ok [OF Cons.prems(1) r] Cons.IH [of ?sb] Cons.prems obtain sb' where
      ih: "res_fold (\<lambda>(j, d). sb_inject_on j d) al ?sb = Inr sb'" "switch_box_ok sb'"
        "sb_W sb' = sb_W sb" "sb_NINJ sb' = sb_NINJ sb" "sb_sel sb' = sb_sel sb"
    and m: "\<And>j'. map_of (sb_inject sb') j' = (case map_of al j' of None \<Rightarrow> map_of (sb_inject ?sb) j' | Some d \<Rightarrow> DIR_IDX d)" by auto
  have new: "map_of al j = None" using Cons.prems(2) x by (simp add: map_of_eq_None_iff)
  have "map_of (sb_inject sb') j' = (case map_of (x # al) j' of None \<Rightarrow> map_of (sb_inject sb) j' | Some d \<Rightarrow> DIR_IDX d)" for j'
    using new k(1) by (auto simp: m x update_conv' split: option.split)
  with r ih show ?case by (simp add: x)
qed

lemma cb_fold:
  assumes "length (cb_sel cb) = cb_NCB cb" and "Fabric_Switch.cb_DIV cb = 2" and "distinct (map fst al)"
    and "list_all (\<lambda>(i, k). i < cb_NCB cb \<and> 0 \<le> k \<and> k < 2 * int (cb_W cb)) al"
  shows "\<exists>cb'. res_fold (\<lambda>(i, k). cb_configure (int i) k) al cb = Inr cb' \<and> length (cb_sel cb') = cb_NCB cb
    \<and> cb_W cb' = cb_W cb \<and> cb_NCB cb' = cb_NCB cb \<and> Fabric_Switch.cb_DIV cb' = 2
    \<and> (\<forall>i < cb_NCB cb. cb_sel cb' ! i = (case map_of al i of None \<Rightarrow> cb_sel cb ! i | Some k \<Rightarrow> k))"
  using assms
proof (induction al arbitrary: cb)
  case Nil
  then show ?case by simp
next
  case (Cons x al)
  obtain i k where x: "x = (i, k)" by (cases x)
  from Cons.prems(4) x have i: "i < cb_NCB cb" and k: "0 \<le> k" "nat k < cb_NSUB cb"
    using Cons.prems(2) by (auto simp: cb_NSUB_def)
  let ?cb = "cb\<lparr>cb_sel := (cb_sel cb)[i := k]\<rparr>"
  have r: "cb_configure (int i) k cb = Inr ?cb" using cb_configure_stores [OF i k(2)] k(1) by simp
  from Cons.IH [of ?cb] Cons.prems obtain cb' where
      ih: "res_fold (\<lambda>(i, k). cb_configure (int i) k) al ?cb = Inr cb'" "length (cb_sel cb') = cb_NCB cb"
        "cb_W cb' = cb_W cb" "cb_NCB cb' = cb_NCB cb" "Fabric_Switch.cb_DIV cb' = 2"
    and m: "\<And>i'. i' < cb_NCB cb \<Longrightarrow> cb_sel cb' ! i' = (case map_of al i' of None \<Rightarrow> cb_sel ?cb ! i' | Some k \<Rightarrow> k)" by auto
  have new: "map_of al i = None" using Cons.prems(3) x by (simp add: map_of_eq_None_iff)
  have "cb_sel cb' ! i' = (case map_of (x # al) i' of None \<Rightarrow> cb_sel cb ! i' | Some k \<Rightarrow> k)" if "i' < cb_NCB cb" for i'
    using new Cons.prems(1) that by (auto simp: m x nth_list_update split: option.split)
  with r ih show ?case by (simp add: x)
qed

text \<open>What the configuration of a tile from its routes means: by key, as \<open>cfg_get\<close> reads the routes\<close>

definition configured :: "nat \<Rightarrow> nat \<Rightarrow> nat \<Rightarrow> (cfg_key \<Rightarrow> cfg_val option) \<Rightarrow> tile_models \<Rightarrow> bool" where
  "configured W N ext cfg tm \<longleftrightarrow> tile_shape W N ext tm
     \<and> (\<forall>d < 4. \<forall>t. cfg (KSel (DIRS ! d) t) = map_option VNum (map_of (sb_sel (tm_sb tm)) (d, t)))
     \<and> (\<forall>j. cfg (KInj j) = map_option (\<lambda>d. VDir (DIRS ! d)) (map_of (sb_inject (tm_sb tm)) j))
     \<and> (\<forall>i < ext. cb_sel (tm_cb tm) ! i = (case cfg (KCb i) of Some (VNum k) \<Rightarrow> k | _ \<Rightarrow> 0))"

definition blank_tile :: "nat \<Rightarrow> nat \<Rightarrow> nat \<Rightarrow> tile_models" where
  "blank_tile W N ext =
     \<lparr>tm_sb = \<lparr>sb_W = W, sb_NINJ = N, sb_sel = [], sb_inject = []\<rparr>,
      tm_cb = \<lparr>cb_W = W, cb_NCB = ext, cb_DIV = 2, cb_sel = replicate ext 0\<rparr>, tm_logic = None\<rparr>"

lemma blank_shape: "1 \<le> W \<Longrightarrow> N \<le> W \<Longrightarrow> tile_shape W N ext (blank_tile W N ext)"
  by (simp add: tile_shape_def blank_tile_def switch_box_ok_def)

lemma blank_configured: "1 \<le> W \<Longrightarrow> N \<le> W \<Longrightarrow> configured W N ext (\<lambda>_. None) (blank_tile W N ext)"
  unfolding configured_def using blank_shape by (simp add: blank_tile_def)

lemma configure_tile_ok:
  assumes "1 \<le> W" and "N \<le> W" and fits: "tile_fits W N ext tr"
  shows "\<exists>tm. configure_tile tr (blank_tile W N ext) = Inr tm \<and> configured W N ext (cfg_get tr) tm \<and> tm_logic tm = None"
proof -
  let ?tm = "blank_tile W N ext"
  from fits have d: "distinct (map fst (tr_sb_sel tr))" "distinct (map fst (tr_inject tr))" "distinct (map fst (tr_cb_sel tr))"
    and f: "list_all (\<lambda>((dd, t), sel). dd \<in> set DIRS \<and> t < W \<and> 0 \<le> sel \<and> sel < 4) (tr_sb_sel tr)"
      "list_all (\<lambda>(j, d). j < N \<and> d \<in> set DIRS) (tr_inject tr)"
      "list_all (\<lambda>(i, k). i < ext \<and> 0 \<le> k \<and> k < 2 * int W) (tr_cb_sel tr)"
    by (simp_all add: tile_fits_def route_dicts_def)
  have ok: "switch_box_ok (tm_sb ?tm)" and w: "sb_W (tm_sb ?tm) = W" "sb_NINJ (tm_sb ?tm) = N" "sb_sel (tm_sb ?tm) = []"
      "sb_inject (tm_sb ?tm) = []"
    using assms(1,2) by (simp_all add: blank_tile_def switch_box_ok_def)
  have c: "length (cb_sel (tm_cb ?tm)) = cb_NCB (tm_cb ?tm)" "Fabric_Switch.cb_DIV (tm_cb ?tm) = 2" "cb_NCB (tm_cb ?tm) = ext"
      "cb_W (tm_cb ?tm) = W" "cb_sel (tm_cb ?tm) = replicate ext 0"
    by (simp_all add: blank_tile_def)
  have "\<exists>sb. res_fold (\<lambda>((dd, t), sel). sb_route dd t sel) (tr_sb_sel tr) (tm_sb ?tm) = Inr sb \<and> switch_box_ok sb \<and> sb_W sb = W
      \<and> sb_NINJ sb = N \<and> sb_inject sb = [] \<and> (\<forall>d < 4. \<forall>t. map_of (sb_sel sb) (d, t) = map_of (tr_sb_sel tr) (DIRS ! d, t))"
    using route_fold [OF ok d(1), unfolded w, OF f(1), unfolded map_of.simps case_option_self(1)] .
  then obtain sb where
      s: "res_fold (\<lambda>((dd, t), sel). sb_route dd t sel) (tr_sb_sel tr) (tm_sb ?tm) = Inr sb" "switch_box_ok sb" "sb_W sb = W"
        "sb_NINJ sb = N" "sb_inject sb = []"
    and sm: "\<forall>d < 4. \<forall>t. map_of (sb_sel sb) (d, t) = map_of (tr_sb_sel tr) (DIRS ! d, t)"
    by (elim exE conjE) (rule that; assumption)
  have "\<exists>sb'. res_fold (\<lambda>(j, d). sb_inject_on j d) (tr_inject tr) sb = Inr sb' \<and> switch_box_ok sb' \<and> sb_W sb' = W
      \<and> sb_NINJ sb' = N \<and> sb_sel sb' = sb_sel sb \<and> (\<forall>j. map_of (sb_inject sb') j = Option.bind (map_of (tr_inject tr) j) DIR_IDX)"
    using inject_fold [OF s(2) d(2), unfolded s, OF f(2), unfolded map_of.simps case_option_self(2)] .
  then obtain sb' where
      s': "res_fold (\<lambda>(j, d). sb_inject_on j d) (tr_inject tr) sb = Inr sb'" "switch_box_ok sb'" "sb_W sb' = W"
        "sb_NINJ sb' = N" "sb_sel sb' = sb_sel sb"
    and im: "\<forall>j. map_of (sb_inject sb') j = Option.bind (map_of (tr_inject tr) j) DIR_IDX"
    by (elim exE conjE) (rule that; assumption)
  from cb_fold [OF c(1,2) d(3), unfolded c(3,4), OF f(3)] obtain cb where
      cb: "res_fold (\<lambda>(i, k). cb_configure (int i) k) (tr_cb_sel tr) (tm_cb ?tm) = Inr cb" "length (cb_sel cb) = ext" "cb_W cb = W"
        "cb_NCB cb = ext" "Fabric_Switch.cb_DIV cb = 2"
    and cm: "\<forall>i < ext. cb_sel cb ! i = (case map_of (tr_cb_sel tr) i of None \<Rightarrow> cb_sel (tm_cb ?tm) ! i | Some k \<Rightarrow> k)"
    by (elim exE conjE) (rule that; assumption)
  let ?tm' = "?tm\<lparr>tm_sb := sb', tm_cb := cb\<rparr>"
  have "tile_shape W N ext ?tm'" using s' cb by (simp add: tile_shape_def)
  moreover have "cfg_get tr (KInj j) = map_option (\<lambda>d. VDir (DIRS ! d)) (map_of (sb_inject sb') j)" for j
  proof (cases "map_of (tr_inject tr) j")
    case None
    then show ?thesis by (simp add: im)
  next
    case (Some D)
    with f(2) obtain k where "DIR_IDX D = Some k" by (auto simp: list_all_iff in_DIRS dest!: map_of_SomeD)
    with Some DIR_IDX_Some show ?thesis by (simp add: im)
  qed
  moreover have "cfg_get tr (KSel (DIRS ! d) t) = map_option VNum (map_of (sb_sel sb') (d, t))" if "d < 4" for d t
    using sm that by (simp add: s')
  moreover have "cb_sel cb ! i = (case cfg_get tr (KCb i) of Some (VNum k) \<Rightarrow> k | _ \<Rightarrow> 0)" if "i < ext" for i
    using cm that by (simp add: c(5) split: option.split)
  ultimately have "configured W N ext (cfg_get tr) ?tm'" by (simp add: configured_def)
  moreover have "configure_tile tr ?tm = Inr ?tm'" by (simp add: configure_tile_def s s' cb)
  moreover have "tm_logic ?tm' = None" by (simp add: blank_tile_def)
  ultimately show ?thesis by blast
qed

section \<open>The grid\<close>

definition in_grid :: "nat \<Rightarrow> nat \<Rightarrow> int \<times> int \<Rightarrow> bool" where
  "in_grid R C p \<longleftrightarrow> 0 \<le> fst p \<and> fst p < int R \<and> 0 \<le> snd p \<and> snd p < int C"

lemma in_gridE:
  assumes "in_grid R C p"
  obtains r c where "p = (int r, int c)" and "r < R" and "c < C"
proof -
  from assms have "p = (int (nat (fst p)), int (nat (snd p)))" "nat (fst p) < R" "nat (snd p) < C"
    by (auto simp: in_grid_def prod_eq_iff)
  then show thesis by (rule that)
qed

definition cell_done :: "nat \<Rightarrow> nat \<Rightarrow> nat \<Rightarrow> tile_route option \<Rightarrow> tile_models \<Rightarrow> tile_models \<Rightarrow> bool" where
  "cell_done W N ext rt old new \<longleftrightarrow>
     (case rt of None \<Rightarrow> new = old | Some tr \<Rightarrow> configured W N ext (cfg_get tr) new \<and> tm_logic new = None)"

lemma configure_routes:
  assumes "1 \<le> W" and "N \<le> W"
  shows "distinct (map fst rs) \<Longrightarrow> list_all (\<lambda>(p, tr). in_grid R C p \<and> tile_fits W N ext tr) rs \<Longrightarrow> grid R C tiles \<Longrightarrow>
     (\<And>r c. (int r, int c) \<in> fst ` set rs \<Longrightarrow> tiles ! r ! c = blank_tile W N ext) \<Longrightarrow>
     \<exists>tiles'. res_fold (configure_route R C) rs tiles = Inr tiles' \<and> grid R C tiles'
       \<and> (\<forall>r < R. \<forall>c < C. cell_done W N ext (map_of rs (int r, int c)) (tiles ! r ! c) (tiles' ! r ! c))"
proof (induction rs arbitrary: tiles)
  case Nil
  then show ?case by (simp add: cell_done_def)
next
  case (Cons e rs)
  obtain p tr where e: "e = (p, tr)" by (cases e)
  from Cons.prems(2) e have p: "in_grid R C p" and fits: "tile_fits W N ext tr" by simp_all
  from p obtain r c where rc: "p = (int r, int c)" "r < R" "c < C" by (rule in_gridE)
  have blank: "tiles ! r ! c = blank_tile W N ext" by (rule Cons.prems(4)) (simp add: e rc)
  from configure_tile_ok [OF assms fits] obtain tm where tm: "configure_tile tr (blank_tile W N ext) = Inr tm"
    and tmc: "configured W N ext (cfg_get tr) tm" "tm_logic tm = None" by blast
  let ?tiles = "grid_update r c tm tiles"
  have step: "configure_route R C e tiles = Inr ?tiles" using rc tm blank by (simp add: configure_route_def e)
  have g: "grid R C ?tiles" by (rule grid_update_grid [OF Cons.prems(3)])
  have new: "(int r, int c) \<notin> fst ` set rs" using Cons.prems(1) by (simp add: e rc)
  have other: "?tiles ! r' ! c' = tiles ! r' ! c'" if "r' \<noteq> r \<or> c' \<noteq> c" for r' c'
    using that by (rule grid_update_other)
  have "?tiles ! r' ! c' = blank_tile W N ext" if q: "(int r', int c') \<in> fst ` set rs" for r' c'
  proof -
    have "r' \<noteq> r \<or> c' \<noteq> c" using new q by auto
    moreover have "tiles ! r' ! c' = blank_tile W N ext" by (rule Cons.prems(4)) (use q in auto)
    ultimately show ?thesis by (simp add: other)
  qed
  with Cons.IH [OF _ _ g] Cons.prems(1,2) obtain tiles' where
      ih: "res_fold (configure_route R C) rs ?tiles = Inr tiles'" "grid R C tiles'"
    and at: "\<And>r' c'. r' < R \<Longrightarrow> c' < C \<Longrightarrow> cell_done W N ext (map_of rs (int r', int c')) (?tiles ! r' ! c') (tiles' ! r' ! c')"
    by (auto simp: e)
  have "cell_done W N ext (map_of (e # rs) (int r', int c')) (tiles ! r' ! c') (tiles' ! r' ! c')" if "r' < R" "c' < C" for r' c'
  proof (cases "r' = r \<and> c' = c")
    case True
    have "map_of rs (int r, int c) = None" using new by (simp add: map_of_eq_None_iff)
    with at [OF that] True rc tmc grid_update_nth [OF Cons.prems(3) rc(2,3), of r c tm] show ?thesis
      by (simp add: cell_done_def e)
  next
    case False
    then have "?tiles ! r' ! c' = tiles ! r' ! c'" by (intro other) blast
    moreover have "map_of (e # rs) (int r', int c') = map_of rs (int r', int c')" using False by (auto simp: e rc)
    ultimately show ?thesis using at [OF that] by simp
  qed
  with step ih show ?case by auto
qed

lemma attach_all:
  "distinct (map fst db) \<Longrightarrow> grid R C tiles \<Longrightarrow>
    grid R C (foldl (attach_logic R C (x0, y0)) tiles db)
    \<and> (\<forall>r < R. \<forall>c < C. foldl (attach_logic R C (x0, y0)) tiles db ! r ! c
        = (case map_of db (int c + x0, int r + y0) of None \<Rightarrow> tiles ! r ! c | Some logic \<Rightarrow> (tiles ! r ! c)\<lparr>tm_logic := Some logic\<rparr>))"
proof (induction db arbitrary: tiles)
  case Nil
  then show ?case by simp
next
  case (Cons e db)
  obtain x y logic where e: "e = ((x, y), logic)" by (metis prod.exhaust)
  let ?tiles = "attach_logic R C (x0, y0) tiles e"
  have g: "grid R C ?tiles" using Cons.prems(2) by (simp add: attach_logic_def e Let_def grid_update_grid)
  have new: "map_of db (x, y) = None" using Cons.prems(1) by (simp add: e map_of_eq_None_iff)
  have "?tiles ! r ! c = (if x = int c + x0 \<and> y = int r + y0 then (tiles ! r ! c)\<lparr>tm_logic := Some logic\<rparr> else tiles ! r ! c)"
    if "r < R" "c < C" for r c
  proof -
    have "nat (y - y0) = r \<and> nat (x - x0) = c \<longleftrightarrow> x = int c + x0 \<and> y = int r + y0" if "0 \<le> y - y0" "0 \<le> x - x0"
      using that by auto
    then show ?thesis using that grid_update_nth [OF Cons.prems(2) that] by (auto simp: attach_logic_def e Let_def)
  qed
  with Cons.IH [OF _ g] Cons.prems(1) new show ?case by (auto simp: e split: option.split)
qed

lemma blank_tiles_ok:
  assumes "1 \<le> W" and "N \<le> W" and "1 \<le> ext"
  shows "blank_tiles R C W N ext = Inr (replicate R (replicate C (blank_tile W N ext)))"
proof -
  have const: "res_map (\<lambda>_. Inr x) [0..<n] = (Inr (replicate n x) :: 'e + 'a list)" for x n
  proof -
    have "res_map (\<lambda>_. Inr x) ks = (Inr (replicate (length ks) x) :: 'e + 'a list)" for ks :: "nat list"
      by (induction ks) simp_all
    from this [of "[0..<n]"] show ?thesis by simp
  qed
  have "switch_box_init W N = Inr (tm_sb (blank_tile W N ext))" "conn_block_init W ext 2 = Inr (tm_cb (blank_tile W N ext))"
    using assms by (simp_all add: switch_box_init_def conn_block_init_def blank_tile_def)
  then show ?thesis by (simp add: blank_tiles_def const) (simp add: blank_tile_def)
qed

section \<open>The simulator of a routing\<close>

lemma routable_in_grid:
  assumes "routable_edge R C W N (u, v, m)"
  shows "in_grid R C (node_tile v)" and "in_grid R C (node_tile u)"
  using assms by (cases; simp add: in_grid_def)+

text \<open>What the tiles of a clean set of edges hold: every edge has its entry, every entry comes from an edge.\<close>

lemma populated:
  assumes es: "\<forall>e \<in> set es. routable_edge R C W N e" and ag: "agreeing W es" and pop: "populate W es [] = Inr tiles"
  shows "routes_dicts tiles" and "\<And>p. p \<in> fst ` set tiles \<Longrightarrow> in_grid R C p"
    and "\<And>u v m k. (u, v, m) \<in> set es \<Longrightarrow> edge_key m = Some k \<Longrightarrow> cfg_at tiles (node_tile v) k = Some (edge_val W m)"
    and "\<And>p k x. cfg_at tiles p k = Some x \<Longrightarrow> \<exists>u v m. (u, v, m) \<in> set es \<and> node_tile v = p \<and> edge_key m = Some k \<and> x = edge_val W m"
proof -
  have "routes_dicts []" by (simp add: routes_dicts_def)
  from populate_ok [OF es ag this] pop have all: "routes_dicts tiles \<and> fst ` set tiles = node_tile ` fst ` snd ` set es
      \<and> (\<forall>u v m k. (u, v, m) \<in> set es \<longrightarrow> edge_key m = Some k \<longrightarrow> cfg_at tiles (node_tile v) k = Some (edge_val W m))
      \<and> (\<forall>p k. (\<forall>(u, v, m) \<in> set es. node_tile v = p \<longrightarrow> edge_key m \<noteq> Some k) \<longrightarrow> cfg_at tiles p k = cfg_at [] p k)"
    by (simp only: sum.inject simp_thms ex_simps) simp
  then have d: "routes_dicts tiles" and k: "fst ` set tiles = node_tile ` fst ` snd ` set es"
    and set: "\<And>u v m k. (u, v, m) \<in> set es \<Longrightarrow> edge_key m = Some k \<Longrightarrow> cfg_at tiles (node_tile v) k = Some (edge_val W m)"
    and keep: "\<And>p k. \<forall>(u, v, m) \<in> set es. node_tile v = p \<longrightarrow> edge_key m \<noteq> Some k \<Longrightarrow> cfg_at tiles p k = cfg_at [] p k"
    by meson+
  show "routes_dicts tiles" by (rule d)
  show "in_grid R C p" if "p \<in> fst ` set tiles" for p
  proof -
    from that obtain e where "e \<in> set es" "p = node_tile (fst (snd e))" unfolding k by blast
    moreover obtain u v m where "e = (u, v, m)" by (metis prod.exhaust)
    ultimately have e: "(u, v, m) \<in> set es" "p = node_tile v" by simp_all
    have "routable_edge R C W N (u, v, m)" by (rule bspec [OF es e(1)])
    from routable_in_grid(1) [OF this] e show ?thesis by simp
  qed
  show "\<And>u v m k. (u, v, m) \<in> set es \<Longrightarrow> edge_key m = Some k \<Longrightarrow> cfg_at tiles (node_tile v) k = Some (edge_val W m)"
    by (rule set)
  show "\<exists>u v m. (u, v, m) \<in> set es \<and> node_tile v = p \<and> edge_key m = Some k \<and> x = edge_val W m"
    if x: "cfg_at tiles p k = Some x" for p k x
  proof (rule ccontr)
    assume no: "\<nexists>u v m. (u, v, m) \<in> set es \<and> node_tile v = p \<and> edge_key m = Some k \<and> x = edge_val W m"
    have "\<forall>(u, v, m) \<in> set es. node_tile v = p \<longrightarrow> edge_key m \<noteq> Some k"
    proof (intro ballI, clarify)
      fix u v m assume e: "(u, v, m) \<in> set es" "p = node_tile v" "edge_key m = Some k"
      with set [OF e(1,3)] x no show False by auto
    qed
    from keep [OF this] x show False by (simp add: cfg_at_def)
  qed
qed

definition sinks_below :: "nat \<Rightarrow> edge list \<Rightarrow> bool" where
  "sinks_below ext es \<longleftrightarrow> (\<forall>u r c i m. (u, ClbIn r c i, m) \<in> set es \<longrightarrow> i < ext)"

lemma subset_index:
  assumes "DIR_IDX d = Some k" and "t < W"
  shows "(k * W + t) div CB_DIV < 2 * W"
proof -
  from DIR_IDX_Some [OF assms(1)] have "k * W \<le> 3 * W" by (intro mult_le_mono1) simp
  with assms(2) have "k * W + t < 2 * W * 2" by linarith
  then show ?thesis unfolding CB_DIV_def by (rule less_mult_imp_div_less)
qed

lemma populated_fits:
  assumes es: "\<forall>e \<in> set es. routable_edge R C W N e" and ag: "agreeing W es" and pop: "populate W es [] = Inr tiles"
    and sinks: "sinks_below ext es" and tr: "(p, tr) \<in> set tiles"
  shows "tile_fits W N ext tr"
proof -
  note pd = populated [OF es ag pop]
  have rd: "route_dicts tr" using pd(1) tr by (auto simp: routes_dicts_def list_all_iff)
  have "map_of tiles p = Some tr" using pd(1) tr by (simp add: routes_dicts_def)
  then have at: "cfg_at tiles p k = cfg_get tr k" for k by (simp add: cfg_at_def)
  have edge: "\<exists>u v m. routable_edge R C W N (u, v, m) \<and> (u, v, m) \<in> set es \<and> edge_key m = Some k \<and> x = edge_val W m"
    if "cfg_get tr k = Some x" for k x
    using pd(4) [of p k x] that es by (auto simp: at)
  have "dd \<in> set DIRS \<and> t < W \<and> 0 \<le> sel \<and> sel < 4" if "((dd, t), sel) \<in> set (tr_sb_sel tr)" for dd t sel
  proof -
    from that rd have "cfg_get tr (KSel dd t) = Some (VNum sel)" by (simp add: route_dicts_def)
    from edge [OF this] obtain u v m where r: "routable_edge R C W N (u, v, m)" and m: "edge_key m = Some (KSel dd t)" "VNum sel = edge_val W m"
      by blast
    then obtain sd where "m = Sb dd t sd" by (cases m) auto
    with r m show ?thesis using src_to_sel_ok(2) by (fastforce elim: routable_sb)
  qed
  moreover have "j < N \<and> d \<in> set DIRS" if "(j, d) \<in> set (tr_inject tr)" for j d
  proof -
    from that rd have "cfg_get tr (KInj j) = Some (VDir d)" by (simp add: route_dicts_def)
    from edge [OF this] obtain u v m where r: "routable_edge R C W N (u, v, m)" and m: "edge_key m = Some (KInj j)" "VDir d = edge_val W m"
      by blast
    then have "m = Inj j d" by (cases m) auto
    with r show ?thesis by (auto elim: routable_inj)
  qed
  moreover have "i < ext \<and> 0 \<le> k \<and> k < 2 * int W" if "(i, k) \<in> set (tr_cb_sel tr)" for i k
  proof -
    from that rd have "cfg_get tr (KCb i) = Some (VNum k)" by (simp add: route_dicts_def)
    from edge [OF this] obtain u v m where r: "routable_edge R C W N (u, v, m)" and e: "(u, v, m) \<in> set es"
      and m: "edge_key m = Some (KCb i)" "VNum k = edge_val W m" by blast
    then obtain d t where mc: "m = Cb i d t" by (cases m) auto
    with r obtain kk r c where kk: "DIR_IDX d = Some kk" "t < W" and v: "v = ClbIn r c i" by (auto elim: routable_cb)
    have "i < ext" using sinks e v unfolding sinks_below_def by blast
    moreover have "k = int ((kk * W + t) div CB_DIV)" using m mc kk by simp
    moreover have "int ((kk * W + t) div CB_DIV) < int (2 * W)" unfolding of_nat_less_iff by (rule subset_index [OF kk])
    ultimately show ?thesis by simp
  qed
  ultimately show ?thesis using rd by (auto simp: tile_fits_def list_all_iff)
qed

definition built_sim :: "fabric_db \<Rightarrow> routes \<Rightarrow> int \<times> int \<Rightarrow> nat \<Rightarrow> nat \<Rightarrow> nat \<Rightarrow> nat \<Rightarrow> nat \<Rightarrow> fabric_sim \<Rightarrow> bool" where
  "built_sim db tiles corner R C W N ext sim \<longleftrightarrow>
     fs_W sim = W \<and> fs_N sim = N \<and> fs_EXT_IN sim = ext \<and> fs_R sim = R \<and> fs_C sim = C \<and> fs_po_taps sim = po_taps_of db corner
     \<and> (\<forall>r < R. \<forall>c < C. configured W N ext (cfg_at tiles (int r, int c)) (fs_tiles sim ! r ! c)
          \<and> tm_logic (fs_tiles sim ! r ! c) = map_of (db_tiles db) (int c + fst corner, int r + snd corner))"

lemma cfg_at_None: "map_of tiles p = None \<Longrightarrow> cfg_at tiles p = (\<lambda>_. None)"
  and cfg_at_Some: "map_of tiles p = Some tr \<Longrightarrow> cfg_at tiles p = cfg_get tr"
  by (simp_all add: cfg_at_def fun_eq_iff)

lemma configured_logic: "configured W N ext cfg tm \<Longrightarrow> configured W N ext cfg (tm\<lparr>tm_logic := l\<rparr>)"
  by (simp add: configured_def tile_shape_def)

lemma fabric_sim_built:
  assumes box: "db_grid_bounds db = Inr (x0, y0, x1, y1)" and dist: "distinct (map fst (db_tiles db))"
    and dims: "1 \<le> W" "N \<le> W" "1 \<le> ext"
    and R: "R = nat (y1 - y0 + 1)" and C: "C = nat (x1 - x0 + 1)"
    and es: "\<forall>e \<in> set es. routable_edge R C W N e" and ag: "agreeing W es" and pop: "populate W es [] = Inr tiles"
    and sinks: "sinks_below ext es"
  shows "\<exists>sim. fabric_sim_init db tiles x0 y0 W N ext = Inr sim \<and> built_sim db tiles (x0, y0) R C W N ext sim"
proof -
  from box have ne: "db_tiles db \<noteq> []" and
    b: "y1 = Max (set (map (snd \<circ> fst) (db_tiles db)))" "x1 = Max (set (map (fst \<circ> fst) (db_tiles db)))"
    by (auto simp: db_grid_bounds_def Let_def split: if_splits)
  let ?blank = "replicate R (replicate C (blank_tile W N ext))"
  note pd = populated [OF es ag pop]
  have d: "distinct (map fst tiles)" using pd(1) by (simp add: routes_dicts_def)
  have fits: "list_all (\<lambda>(p, tr). in_grid R C p \<and> tile_fits W N ext tr) tiles"
    unfolding list_all_iff using pd(2) populated_fits [OF es ag pop sinks] by force
  have blank: "?blank ! r ! c = blank_tile W N ext" if "(int r, int c) \<in> fst ` set tiles" for r c
    using pd(2) [OF that] by (simp add: in_grid_def)
  from configure_routes [OF dims(1,2) d fits grid_replicate blank] obtain tiles1 where
      c1: "res_fold (configure_route R C) tiles ?blank = Inr tiles1" and g1: "grid R C tiles1"
    and at1: "\<And>r c. r < R \<Longrightarrow> c < C \<Longrightarrow> cell_done W N ext (map_of tiles (int r, int c)) (?blank ! r ! c) (tiles1 ! r ! c)"
    by blast
  let ?tiles = "foldl (attach_logic R C (x0, y0)) tiles1 (db_tiles db)"
  let ?sim = "\<lparr>fs_db = db, fs_rc = tiles, fs_min = (x0, y0), fs_W = W, fs_N = N, fs_EXT_IN = ext, fs_R = R, fs_C = C,
      fs_tiles = ?tiles, fs_po_taps = po_taps_of db (x0, y0), fs_last_iters = 0, fs_converged = False, fs_last_ff_next = []\<rparr>"
  have "fabric_sim_init db tiles x0 y0 W N ext = Inr ?sim"
    using ne c1 by (simp add: fabric_sim_init_def blank_tiles_ok [OF dims] R C b Let_def)
  moreover have "configured W N ext (cfg_at tiles (int r, int c)) (?tiles ! r ! c)
      \<and> tm_logic (?tiles ! r ! c) = map_of (db_tiles db) (int c + x0, int r + y0)" if rc: "r < R" "c < C" for r c
  proof -
    have one: "configured W N ext (cfg_at tiles (int r, int c)) (tiles1 ! r ! c) \<and> tm_logic (tiles1 ! r ! c) = None"
    proof (cases "map_of tiles (int r, int c)")
      case None
      with at1 [OF rc] have "tiles1 ! r ! c = blank_tile W N ext" using rc by (simp add: cell_done_def)
      moreover have "tm_logic (blank_tile W N ext) = None" by (simp add: blank_tile_def)
      ultimately show ?thesis using blank_configured [OF dims(1,2)] by (simp add: cfg_at_None [OF None])
    next
      case (Some tr)
      with at1 [OF rc] show ?thesis by (simp add: cell_done_def cfg_at_Some)
    qed
    have "?tiles ! r ! c = (case map_of (db_tiles db) (int c + x0, int r + y0) of None \<Rightarrow> tiles1 ! r ! c
        | Some logic \<Rightarrow> (tiles1 ! r ! c)\<lparr>tm_logic := Some logic\<rparr>)"
      using attach_all [OF dist g1, of x0 y0] rc by blast
    with one configured_logic show ?thesis by (simp split: option.split)
  qed
  ultimately show ?thesis by (intro exI [of _ ?sim]) (simp add: built_sim_def)
qed

end
