(* ===== verification/Fabric_Fix.thy ===== *)
theory Fabric_Fix
  imports Fabric_Config
begin

text \<open>
  What the fabric simulator has found when its passes converge: every tile puts out what its switch
  box makes of the tracks of its neighbours and of the outputs its cluster computes from the final
  tracks. From this, every edge of a routing carries the value of its source.
\<close>

section \<open>A pass that changes nothing\<close>

definition ff_of :: "((nat \<times> nat \<times> nat) \<times> int) list option \<Rightarrow> nat \<Rightarrow> nat \<Rightarrow> (nat \<rightharpoonup> int)" where
  "ff_of ff r c = tile_ff (case ff of None \<Rightarrow> [] | Some f \<Rightarrow> f) r c"

definition cluster_pins :: "fabric_sim \<Rightarrow> mask4 list list \<Rightarrow> nat \<Rightarrow> nat \<Rightarrow> int list" where
  "cluster_pins sim out r c = cb_clb_in (tm_cb (fs_tiles sim ! r ! c)) (side (out ! r ! c))"

text \<open>The output bits of a tile and the mask the switch box takes from them\<close>

definition clb_ok_at ::
  "fabric_sim \<Rightarrow> (string \<rightharpoonup> int) \<Rightarrow> ((nat \<times> nat \<times> nat) \<times> int) list option \<Rightarrow> mask4 list list \<Rightarrow> nat \<Rightarrow> nat \<Rightarrow> int list \<Rightarrow> int \<Rightarrow> bool" where
  "clb_ok_at sim pi_values ff out r c bits packed \<longleftrightarrow>
     (case tm_logic (fs_tiles sim ! r ! c) of None \<Rightarrow> packed = 0
      | Some tile \<Rightarrow>
          clb_eval_bits tile (inject_inputs tile pi_values [0..<fs_EXT_IN sim] (cluster_pins sim out r c)) (ff_of ff r c) = Inr bits
          \<and> pack_outputs (fs_N sim) bits = Inr packed)"

definition settled_cell ::
  "fabric_sim \<Rightarrow> (string \<rightharpoonup> int) \<Rightarrow> ((nat \<times> nat \<times> nat) \<times> int) list option \<Rightarrow> mask4 list list \<Rightarrow> int list list list \<Rightarrow> nat \<Rightarrow> nat \<Rightarrow> bool" where
  "settled_cell sim pi_values ff out clb r c \<longleftrightarrow>
     (\<exists>packed. clb_ok_at sim pi_values ff out r c (clb ! r ! c) packed
        \<and> out ! r ! c = sides (sb_outputs (tm_sb (fs_tiles sim ! r ! c)) (gather sim out r c) packed))"

definition shaped :: "fabric_sim \<Rightarrow> pass_state \<Rightarrow> bool" where
  "shaped sim s \<longleftrightarrow> grid (fs_R sim) (fs_C sim) (ps_out s) \<and> grid (fs_R sim) (fs_C sim) (ps_clb s)"

lemma eval_clb_ok:
  assumes "eval_clb sim pi_values ff (r, c) s = Inr (packed, s')" and "shaped sim s" and "r < fs_R sim" and "c < fs_C sim"
  shows "shaped sim s'" and "ps_out s' = ps_out s" and "ps_changed s' = ps_changed s"
    and "clb_ok_at sim pi_values ff (ps_out s) r c (ps_clb s' ! r ! c) packed"
    and "\<And>r' c'. r' \<noteq> r \<or> c' \<noteq> c \<Longrightarrow> ps_clb s' ! r' ! c' = ps_clb s ! r' ! c'"
proof -
  let ?tm = "fs_tiles sim ! r ! c"
  have "shaped sim s' \<and> ps_out s' = ps_out s \<and> ps_changed s' = ps_changed s
    \<and> clb_ok_at sim pi_values ff (ps_out s) r c (ps_clb s' ! r ! c) packed
    \<and> (\<forall>r' c'. r' \<noteq> r \<or> c' \<noteq> c \<longrightarrow> ps_clb s' ! r' ! c' = ps_clb s ! r' ! c')"
  proof (cases "tm_logic ?tm")
    case None
    with assms(1,2) show ?thesis by (simp add: eval_clb_def clb_ok_at_def)
  next
    case (Some tile)
    let ?bits = "inject_inputs tile pi_values [0..<fs_EXT_IN sim] (cluster_pins sim (ps_out s) r c)"
    from assms(1) Some obtain out_bits where
        e: "clb_eval_bits tile ?bits (ff_of ff r c) = Inr out_bits" "pack_outputs (fs_N sim) out_bits = Inr packed"
      and s': "s' = (case ff of None \<Rightarrow> s\<lparr>ps_clb := grid_update r c out_bits (ps_clb s)\<rparr>
          | Some _ \<Rightarrow> s\<lparr>ps_clb := grid_update r c out_bits (ps_clb s), ps_io := AList.update (r, c) (?bits, out_bits) (ps_io s)\<rparr>)"
      by (auto simp: eval_clb_def Let_def cluster_pins_def ff_of_def lift_tile_def res_bind_Inr_iff split: sum.splits option.splits)
    have g: "grid (fs_R sim) (fs_C sim) (ps_clb s)" using assms(2) by (simp add: shaped_def)
    have clb: "ps_clb s' = grid_update r c out_bits (ps_clb s)" "ps_out s' = ps_out s" "ps_changed s' = ps_changed s"
      by (simp_all add: s' split: option.split)
    show ?thesis
      using assms(2) e grid_update_grid [OF g] grid_update_nth [OF g assms(3,4)] grid_update_other [of _ r _ c out_bits "ps_clb s"]
      by (simp add: clb shaped_def clb_ok_at_def Some)
  qed
  then show "shaped sim s'" and "ps_out s' = ps_out s" and "ps_changed s' = ps_changed s"
    and "clb_ok_at sim pi_values ff (ps_out s) r c (ps_clb s' ! r ! c) packed"
    and "\<And>r' c'. r' \<noteq> r \<or> c' \<noteq> c \<Longrightarrow> ps_clb s' ! r' ! c' = ps_clb s ! r' ! c'"
    by blast+
qed

lemma visit_tile_ok:
  assumes "visit_tile sim pi_values ff (r, c) s = Inr s'" and "shaped sim s" and "r < fs_R sim" and "c < fs_C sim"
  shows "shaped sim s'"
    and "\<not> ps_changed s' \<Longrightarrow> \<not> ps_changed s \<and> ps_out s' = ps_out s \<and> settled_cell sim pi_values ff (ps_out s) (ps_clb s') r c"
    and "\<And>r' c'. r' \<noteq> r \<or> c' \<noteq> c \<Longrightarrow> ps_clb s' ! r' ! c' = ps_clb s ! r' ! c'"
proof -
  from assms(1) obtain packed s1 where e: "eval_clb sim pi_values ff (r, c) s = Inr (packed, s1)"
    and s': "s' = (let new = sides (sb_outputs (tm_sb (fs_tiles sim ! r ! c)) (gather sim (ps_out s) r c) packed) in
       if new \<noteq> ps_out s1 ! r ! c then s1\<lparr>ps_out := grid_update r c new (ps_out s1), ps_changed := True\<rparr> else s1)"
    by (auto simp: visit_tile_def Let_def res_bind_Inr_iff split: if_splits)
  note ev = eval_clb_ok [OF e assms(2-4)]
  show "shaped sim s'" using ev(1) by (simp add: s' shaped_def Let_def grid_update_grid)
  show "\<not> ps_changed s \<and> ps_out s' = ps_out s \<and> settled_cell sim pi_values ff (ps_out s) (ps_clb s') r c" if "\<not> ps_changed s'"
    using that ev by (auto simp: s' Let_def settled_cell_def split: if_splits)
  show "ps_clb s' ! r' ! c' = ps_clb s ! r' ! c'" if "r' \<noteq> r \<or> c' \<noteq> c" for r' c'
    using ev(5) [OF that] by (simp add: s' Let_def)
qed

lemma settled_cell_cong:
  "clb ! r ! c = clb' ! r ! c \<Longrightarrow> settled_cell sim pi_values ff out clb r c = settled_cell sim pi_values ff out clb' r c"
  by (simp add: settled_cell_def)

lemma pass_ok:
  "res_fold (visit_tile sim pi_values ff) xs s = Inr s' \<Longrightarrow> shaped sim s \<Longrightarrow> distinct xs
     \<Longrightarrow> list_all (\<lambda>(r, c). r < fs_R sim \<and> c < fs_C sim) xs \<Longrightarrow>
     shaped sim s' \<and> (\<not> ps_changed s' \<longrightarrow> \<not> ps_changed s \<and> ps_out s' = ps_out s
       \<and> (\<forall>r c. (r, c) \<in> set xs \<longrightarrow> settled_cell sim pi_values ff (ps_out s) (ps_clb s') r c)
       \<and> (\<forall>r c. (r, c) \<notin> set xs \<longrightarrow> ps_clb s' ! r ! c = ps_clb s ! r ! c))"
proof (induction xs arbitrary: s)
  case Nil
  then show ?case by simp
next
  case (Cons x xs)
  obtain r c where x: "x = (r, c)" by (cases x)
  from Cons.prems(1) x obtain s1 where v: "visit_tile sim pi_values ff (r, c) s = Inr s1"
    and f: "res_fold (visit_tile sim pi_values ff) xs s1 = Inr s'" by (auto simp: res_bind_Inr_iff)
  from Cons.prems(4) x have rc: "r < fs_R sim" "c < fs_C sim" by simp_all
  note vt = visit_tile_ok [OF v Cons.prems(2) rc]
  have d: "distinct xs" "(r, c) \<notin> set xs" and l: "list_all (\<lambda>(r, c). r < fs_R sim \<and> c < fs_C sim) xs"
    using Cons.prems(3,4) by (simp_all add: x)
  from Cons.IH [OF f vt(1) d(1) l] have sh: "shaped sim s'"
    and ih: "\<not> ps_changed s' \<Longrightarrow> \<not> ps_changed s1" "\<not> ps_changed s' \<Longrightarrow> ps_out s' = ps_out s1"
      "\<And>r c. \<not> ps_changed s' \<Longrightarrow> (r, c) \<in> set xs \<Longrightarrow> settled_cell sim pi_values ff (ps_out s1) (ps_clb s') r c"
      "\<And>r c. \<not> ps_changed s' \<Longrightarrow> (r, c) \<notin> set xs \<Longrightarrow> ps_clb s' ! r ! c = ps_clb s1 ! r ! c" by blast+
  show ?case
  proof (intro conjI impI allI sh)
    assume nc: "\<not> ps_changed s'"
    note n1 = ih(1) [OF nc]
    from vt(2) [OF n1] have old: "\<not> ps_changed s" "ps_out s1 = ps_out s" and here: "settled_cell sim pi_values ff (ps_out s) (ps_clb s1) r c"
      by blast+
    show "\<not> ps_changed s" by (rule old(1))
    show "ps_out s' = ps_out s" by (simp only: ih(2) [OF nc] old(2))
    show "settled_cell sim pi_values ff (ps_out s) (ps_clb s') r' c'" if q: "(r', c') \<in> set (x # xs)" for r' c'
    proof (cases "(r', c') \<in> set xs")
      case True
      from ih(3) [OF nc this] show ?thesis by (simp only: old(2))
    next
      case False
      with q x have "r' = r" "c' = c" by auto
      with here settled_cell_cong [OF ih(4) [OF nc d(2)]] show ?thesis by simp
    qed
    show "ps_clb s' ! r' ! c' = ps_clb s ! r' ! c'" if q: "(r', c') \<notin> set (x # xs)" for r' c'
    proof -
      from q x have "(r', c') \<notin> set xs" and "r' \<noteq> r \<or> c' \<noteq> c" by auto
      with ih(4) [OF nc] vt(3) show ?thesis by simp
    qed
  qed
qed

lemma in_cells: "(r, c) \<in> set (cells sim) \<longleftrightarrow> r < fs_R sim \<and> c < fs_C sim"
  by (auto simp: cells_def image_iff)

lemma distinct_cells: "distinct (cells sim)"
proof -
  have "distinct (concat (map (\<lambda>r. map (Pair r) ys) xs))" if "distinct xs" "distinct ys" for xs ys :: "nat list"
    using that by (induction xs) (auto simp: distinct_map inj_on_def)
  then show ?thesis unfolding cells_def by simp
qed

lemma passes_settled:
  "passes sim pi_values ff fuel iters s = Inr (k, True, s') \<Longrightarrow> shaped sim s \<Longrightarrow>
    \<forall>r < fs_R sim. \<forall>c < fs_C sim. settled_cell sim pi_values ff (ps_out s') (ps_clb s') r c"
proof (induction fuel arbitrary: iters s)
  case 0
  then show ?case by simp
next
  case (Suc fuel)
  from Suc.prems(1) obtain s1 where
      f: "res_fold (visit_tile sim pi_values ff) (cells sim) (s\<lparr>ps_changed := False\<rparr>) = Inr s1"
    and rest: "(if ps_changed s1 then passes sim pi_values ff fuel (iters + 1) s1 else Inr (iters + 1, True, s1)) = Inr (k, True, s')"
    by (auto simp: res_bind_Inr_iff)
  have sh: "shaped sim (s\<lparr>ps_changed := False\<rparr>)" using Suc.prems(2) by (simp add: shaped_def)
  have l: "list_all (\<lambda>(r, c). r < fs_R sim \<and> c < fs_C sim) (cells sim)" by (auto simp: list_all_iff in_cells)
  note p = pass_ok [OF f sh distinct_cells l]
  show ?case
  proof (cases "ps_changed s1")
    case True
    from Suc.IH [of "iters + 1" s1] rest True p show ?thesis by simp
  next
    case False
    from rest False have s': "s' = s1" by simp
    from p False in_cells show ?thesis unfolding s' by simp
  qed
qed

section \<open>What a pass records of the clusters\<close>

text \<open>With register state, \<open>ps_io\<close> keeps the last inputs and outputs of every cluster, one entry for each.\<close>

definition io_shape :: "fabric_sim \<Rightarrow> pass_state \<Rightarrow> bool" where
  "io_shape sim s \<longleftrightarrow> distinct (map fst (ps_io s))
     \<and> list_all (\<lambda>((r, c), _). r < fs_R sim \<and> c < fs_C sim \<and> tm_logic (fs_tiles sim ! r ! c) \<noteq> None) (ps_io s)"

definition io_at :: "fabric_sim \<Rightarrow> (string \<rightharpoonup> int) \<Rightarrow> mask4 list list \<Rightarrow> int list list list \<Rightarrow> nat \<Rightarrow> nat \<Rightarrow> (int list \<times> int list) option" where
  "io_at sim pi_values out clb r c =
     (case tm_logic (fs_tiles sim ! r ! c) of None \<Rightarrow> None
      | Some tile \<Rightarrow> Some (inject_inputs tile pi_values [0..<fs_EXT_IN sim] (cluster_pins sim out r c), clb ! r ! c))"

lemma eval_clb_io:
  assumes "eval_clb sim pi_values (Some f) (r, c) s = Inr (packed, s')" and "shaped sim s" and "io_shape sim s"
    and "r < fs_R sim" and "c < fs_C sim"
  shows "io_shape sim s'" and "map_of (ps_io s') (r, c) = io_at sim pi_values (ps_out s) (ps_clb s') r c"
    and "p \<noteq> (r, c) \<Longrightarrow> map_of (ps_io s') p = map_of (ps_io s) p"
proof -
  let ?tm = "fs_tiles sim ! r ! c"
  have "io_shape sim s' \<and> map_of (ps_io s') (r, c) = io_at sim pi_values (ps_out s) (ps_clb s') r c
    \<and> (p \<noteq> (r, c) \<longrightarrow> map_of (ps_io s') p = map_of (ps_io s) p)"
  proof (cases "tm_logic ?tm")
    case None
    with assms(1) have "s' = s" by (simp add: eval_clb_def)
    moreover have "map_of (ps_io s) (r, c) = None"
    proof (rule ccontr)
      assume "map_of (ps_io s) (r, c) \<noteq> None"
      then obtain y where "((r, c), y) \<in> set (ps_io s)" by (auto dest: map_of_SomeD)
      with assms(3) None show False by (auto simp: io_shape_def list_all_iff)
    qed
    ultimately show ?thesis using assms(3) None by (simp add: io_at_def)
  next
    case (Some tile)
    let ?bits = "inject_inputs tile pi_values [0..<fs_EXT_IN sim] (cluster_pins sim (ps_out s) r c)"
    from assms(1) Some obtain out_bits where s':
        "s' = s\<lparr>ps_clb := grid_update r c out_bits (ps_clb s), ps_io := AList.update (r, c) (?bits, out_bits) (ps_io s)\<rparr>"
      by (auto simp: eval_clb_def Let_def cluster_pins_def lift_tile_def res_bind_Inr_iff split: sum.splits)
    have g: "grid (fs_R sim) (fs_C sim) (ps_clb s)" using assms(2) by (simp add: shaped_def)
    have "io_shape sim s'"
      using assms(3-5) Some by (simp add: s' io_shape_def distinct_update list_all_update)
    moreover have "map_of (ps_io s') (r, c) = io_at sim pi_values (ps_out s) (ps_clb s') r c"
      using grid_update_nth [OF g assms(4,5), of r c out_bits] Some by (simp add: s' io_at_def map_of_alist_update)
    moreover have "p \<noteq> (r, c) \<longrightarrow> map_of (ps_io s') p = map_of (ps_io s) p" by (simp add: s' map_of_alist_update)
    ultimately show ?thesis by blast
  qed
  then show "io_shape sim s'" and "map_of (ps_io s') (r, c) = io_at sim pi_values (ps_out s) (ps_clb s') r c"
    and "p \<noteq> (r, c) \<Longrightarrow> map_of (ps_io s') p = map_of (ps_io s) p" by blast+
qed

lemma visit_tile_io:
  assumes "visit_tile sim pi_values (Some f) (r, c) s = Inr s'" and "shaped sim s" and "io_shape sim s"
    and "r < fs_R sim" and "c < fs_C sim"
  shows "io_shape sim s'" and "map_of (ps_io s') (r, c) = io_at sim pi_values (ps_out s) (ps_clb s') r c"
    and "p \<noteq> (r, c) \<Longrightarrow> map_of (ps_io s') p = map_of (ps_io s) p"
proof -
  from assms(1) obtain packed s1 where e: "eval_clb sim pi_values (Some f) (r, c) s = Inr (packed, s1)"
    and s': "ps_io s' = ps_io s1" "ps_clb s' = ps_clb s1"
    by (auto simp: visit_tile_def Let_def res_bind_Inr_iff split: if_splits)
  note ev = eval_clb_io [OF e assms(2-5)]
  show "io_shape sim s'" using ev(1) by (simp add: io_shape_def s')
  show "map_of (ps_io s') (r, c) = io_at sim pi_values (ps_out s) (ps_clb s') r c" using ev(2) by (simp add: s')
  show "map_of (ps_io s') p = map_of (ps_io s) p" if "p \<noteq> (r, c)" using ev(3) [OF that] by (simp add: s')
qed

lemma pass_io:
  "res_fold (visit_tile sim pi_values (Some f)) xs s = Inr s' \<Longrightarrow> shaped sim s \<Longrightarrow> io_shape sim s \<Longrightarrow> distinct xs
     \<Longrightarrow> list_all (\<lambda>(r, c). r < fs_R sim \<and> c < fs_C sim) xs \<Longrightarrow>
     io_shape sim s' \<and> (\<not> ps_changed s' \<longrightarrow>
       (\<forall>r c. (r, c) \<in> set xs \<longrightarrow> map_of (ps_io s') (r, c) = io_at sim pi_values (ps_out s) (ps_clb s') r c)
       \<and> (\<forall>p. p \<notin> set xs \<longrightarrow> map_of (ps_io s') p = map_of (ps_io s) p))"
proof (induction xs arbitrary: s)
  case Nil
  then show ?case by simp
next
  case (Cons x xs)
  obtain r c where x: "x = (r, c)" by (cases x)
  from Cons.prems(1) x obtain s1 where v: "visit_tile sim pi_values (Some f) (r, c) s = Inr s1"
    and fo: "res_fold (visit_tile sim pi_values (Some f)) xs s1 = Inr s'" by (auto simp: res_bind_Inr_iff)
  from Cons.prems(5) x have rc: "r < fs_R sim" "c < fs_C sim" by simp_all
  note vt = visit_tile_ok [OF v Cons.prems(2) rc] and io = visit_tile_io [OF v Cons.prems(2,3) rc]
  have d: "distinct xs" "(r, c) \<notin> set xs" and l: "list_all (\<lambda>(r, c). r < fs_R sim \<and> c < fs_C sim) xs"
    using Cons.prems(4,5) by (simp_all add: x)
  from Cons.IH [OF fo vt(1) io(1) d(1) l] have sh: "io_shape sim s'"
    and ih: "\<And>r c. \<not> ps_changed s' \<Longrightarrow> (r, c) \<in> set xs \<Longrightarrow> map_of (ps_io s') (r, c) = io_at sim pi_values (ps_out s1) (ps_clb s') r c"
      "\<And>p. \<not> ps_changed s' \<Longrightarrow> p \<notin> set xs \<Longrightarrow> map_of (ps_io s') p = map_of (ps_io s1) p" by blast+
  from pass_ok [OF fo vt(1) d(1) l] have ps: "\<not> ps_changed s' \<Longrightarrow> \<not> ps_changed s1"
      "\<And>r c. \<not> ps_changed s' \<Longrightarrow> (r, c) \<notin> set xs \<Longrightarrow> ps_clb s' ! r ! c = ps_clb s1 ! r ! c" by blast+
  show ?case
  proof (intro conjI impI allI sh)
    fix r' c' assume nc: "\<not> ps_changed s'" and q: "(r', c') \<in> set (x # xs)"
    from vt(2) [OF ps(1) [OF nc]] have out: "ps_out s1 = ps_out s" by blast
    show "map_of (ps_io s') (r', c') = io_at sim pi_values (ps_out s) (ps_clb s') r' c'"
    proof (cases "(r', c') \<in> set xs")
      case True
      from ih(1) [OF nc this] show ?thesis by (simp only: out)
    next
      case False
      with q x have "r' = r" "c' = c" by auto
      with ih(2) [OF nc d(2)] io(2) ps(2) [OF nc d(2)] show ?thesis by (simp add: io_at_def split: option.split)
    qed
  next
    fix p assume nc: "\<not> ps_changed s'" and q: "p \<notin> set (x # xs)"
    then have "p \<notin> set xs" and "p \<noteq> (r, c)" by (auto simp: x)
    with ih(2) [OF nc] io(3) show "map_of (ps_io s') p = map_of (ps_io s) p" by simp
  qed
qed

lemma passes_io:
  "passes sim pi_values (Some f) fuel iters s = Inr (k, True, s') \<Longrightarrow> shaped sim s \<Longrightarrow> io_shape sim s \<Longrightarrow>
    io_shape sim s' \<and> (\<forall>r < fs_R sim. \<forall>c < fs_C sim. map_of (ps_io s') (r, c) = io_at sim pi_values (ps_out s') (ps_clb s') r c)"
proof (induction fuel arbitrary: iters s)
  case 0
  then show ?case by simp
next
  case (Suc fuel)
  from Suc.prems(1) obtain s1 where
      fo: "res_fold (visit_tile sim pi_values (Some f)) (cells sim) (s\<lparr>ps_changed := False\<rparr>) = Inr s1"
    and rest: "(if ps_changed s1 then passes sim pi_values (Some f) fuel (iters + 1) s1 else Inr (iters + 1, True, s1)) = Inr (k, True, s')"
    by (auto simp: res_bind_Inr_iff)
  have sh: "shaped sim (s\<lparr>ps_changed := False\<rparr>)" "io_shape sim (s\<lparr>ps_changed := False\<rparr>)"
    using Suc.prems(2,3) by (simp_all add: shaped_def io_shape_def)
  have l: "list_all (\<lambda>(r, c). r < fs_R sim \<and> c < fs_C sim) (cells sim)" by (auto simp: list_all_iff in_cells)
  note p = pass_ok [OF fo sh(1) distinct_cells l] and io = pass_io [OF fo sh distinct_cells l]
  show ?case
  proof (cases "ps_changed s1")
    case True
    from Suc.IH [of "iters + 1" s1] rest True p io show ?thesis by simp
  next
    case False
    from rest False have s': "s' = s1" by simp
    from p io False in_cells show ?thesis unfolding s' by simp
  qed
qed

lemma start_shaped: "shaped sim (start_state sim)" and start_io: "io_shape sim (start_state sim)"
  by (simp_all add: shaped_def io_shape_def start_state_def grid_replicate)

section \<open>Edges carry values\<close>

definition clb_packed :: "fabric_sim \<Rightarrow> int list list list \<Rightarrow> nat \<Rightarrow> nat \<Rightarrow> int" where
  "clb_packed sim clb r c =
     (case tm_logic (fs_tiles sim ! r ! c) of None \<Rightarrow> 0
      | Some _ \<Rightarrow> (case pack_outputs (fs_N sim) (clb ! r ! c) of Inl _ \<Rightarrow> 0 | Inr packed \<Rightarrow> packed))"

text \<open>The value of a node of the routing graph in a state of the simulator\<close>

fun node_val :: "fabric_sim \<Rightarrow> mask4 list list \<Rightarrow> int list list list \<Rightarrow> node \<Rightarrow> bool" where
  "node_val sim out clb (Out r c d t) = bit (side (out ! nat r ! nat c) d) t"
| "node_val sim out clb (In r c d t) = bit (gather sim out (nat r) (nat c) d) t"
| "node_val sim out clb (ClbOut r c j) = bit (clb_packed sim clb (nat r) (nat c)) j"
| "node_val sim out clb (ClbIn r c i) = odd (cluster_pins sim out (nat r) (nat c) ! i)"

lemma side_sides: "d \<in> set DIRS \<Longrightarrow> side (sides f) d = f d"
  by (auto simp: sides_def DIRS_def)

lemma settled_side:
  assumes "settled_cell sim pi_values ff out clb r c" and "d \<in> set DIRS"
  shows "side (out ! r ! c) d = sb_outputs (tm_sb (fs_tiles sim ! r ! c)) (gather sim out r c) (clb_packed sim clb r c) d"
proof -
  from assms(1) obtain packed where ok: "clb_ok_at sim pi_values ff out r c (clb ! r ! c) packed"
    and o: "out ! r ! c = sides (sb_outputs (tm_sb (fs_tiles sim ! r ! c)) (gather sim out r c) packed)"
    unfolding settled_cell_def by blast
  from ok have "packed = clb_packed sim clb r c" by (auto simp: clb_ok_at_def clb_packed_def split: option.splits)
  with o side_sides [OF assms(2)] show ?thesis by simp
qed

text \<open>A side has no bit above its tracks.\<close>

lemma side_below:
  assumes s: "settled_cell sim pi_values ff out clb r c" and conf: "configured W N ext cfg (fs_tiles sim ! r ! c)"
    and d: "d \<in> set DIRS" and t: "W \<le> t"
  shows "\<not> bit (side (out ! r ! c) d) t"
proof -
  let ?sb = "tm_sb (fs_tiles sim ! r ! c)"
  from conf have ok: "switch_box_ok ?sb" and w: "sb_W ?sb = W" by (simp_all add: configured_def tile_shape_def)
  from d obtain k where "DIR_IDX d = Some k" by (auto simp: in_DIRS)
  then have k: "k < 4" "d = DIRS ! k" by (auto dest: DIR_IDX_Some)
  have no: "map_of (sb_sel ?sb) (k, t) = None"
  proof (rule ccontr)
    assume "map_of (sb_sel ?sb) (k, t) \<noteq> None"
    then obtain sel where "((k, t), sel) \<in> set (sb_sel ?sb)" by (auto dest: map_of_SomeD)
    with ok w t show False by (auto simp: switch_box_ok_def list_all_iff)
  qed
  have "\<not> injected ?sb k t" using ok w t by (simp add: injected_def switch_box_ok_def)
  with no show ?thesis unfolding settled_side [OF s d] unfolding k(2) sb_outputs_bit [OF ok k(1)] by simp
qed

lemma pool_bit_at:
  assumes "\<And>d t. d \<in> set DIRS \<Longrightarrow> W \<le> t \<Longrightarrow> \<not> bit (f d) t" and "DIR_IDX D = Some k" and "t < W"
  shows "bit (push_bit (3 * W) (f ''w'') OR push_bit (2 * W) (f ''e'') OR push_bit W (f ''s'') OR f ''n'' :: int) (k * W + t)
    \<longleftrightarrow> bit (f D) t"
proof -
  have hi: "\<not> bit (f d) (n + t)" if "d \<in> set DIRS" "W \<le> n" for d n using assms(1) [OF that(1), of "n + t"] that(2) by simp
  have hi': "bit (f d) (n + t - m) = False" if "d \<in> set DIRS" "W + m \<le> n" for d n m
    using assms(1) [OF that(1), of "n + t - m"] that(2) by simp
  from DIR_IDX_Some [OF assms(2)] have k: "k < 4" "D = DIRS ! k" by auto
  then consider "k = 0" "D = ''n''" | "k = 1" "D = ''s''" | "k = 2" "D = ''e''" | "k = 3" "D = ''w''"
    by (auto simp: DIRS_def less_Suc_eq numeral_eq_Suc)
  then show ?thesis
    by cases (use assms(3) hi hi' [where m = W] hi' [where m = "2 * W"] in
      \<open>auto simp: bit_or_int_iff bit_push_bit_iff DIRS_def\<close>)
qed

text \<open>Edges of a routing in which every node is entered once, in the simulator built from it\<close>

lemma chan_carries:
  assumes "(od, (dr, dc), ind) \<in> set CHAN_MAP" and "r < fs_R sim" and "c < fs_C sim"
    and "0 \<le> int r + dr" and "int r + dr < int (fs_R sim)" and "0 \<le> int c + dc" and "int c + dc < int (fs_C sim)"
  shows "gather sim out (nat (int r + dr)) (nat (int c + dc)) ind = side (out ! r ! c) od"
proof -
  have up: "nat (int r - 1) = r - 1" if "1 \<le> r" for r using that by simp
  have down: "nat (int r + 1) = r + 1" for r by simp
  from assms(1) consider "od = ''n''" "dr = -1" "dc = 0" "ind = ''s''" | "od = ''s''" "dr = 1" "dc = 0" "ind = ''n''"
    | "od = ''e''" "dr = 0" "dc = 1" "ind = ''w''" | "od = ''w''" "dr = 0" "dc = -1" "ind = ''e''"
    by (auto simp: CHAN_MAP_def)
  then show ?thesis
    by cases (use assms(2-) up [of r] up [of c] down in \<open>simp_all add: gather_def\<close>)
qed

lemma edge_carries:
  assumes es: "\<forall>e \<in> set es. routable_edge R C W N e" and one: "single_target es"
    and ag: "agreeing W es" and pop: "populate W es [] = Inr tiles"
    and sim: "built_sim db tiles corner R C W N ext sim" and sinks: "sinks_below ext es"
    and settled: "\<And>r c. r < R \<Longrightarrow> c < C \<Longrightarrow> settled_cell sim pi_values ff out clb r c"
    and e: "(u, v, m) \<in> set es"
  shows "node_val sim out clb v = node_val sim out clb u"
proof -
  note pd = populated [OF es ag pop]
  have dims: "fs_R sim = R" "fs_C sim = C" and conf: "\<And>r c. r < R \<Longrightarrow> c < C \<Longrightarrow> configured W N ext (cfg_at tiles (int r, int c)) (fs_tiles sim ! r ! c)"
    using sim by (simp_all add: built_sim_def)
  have inj_src: "m = Inj t d" if i: "injected (tm_sb (fs_tiles sim ! r ! c)) k t" and rc: "r < R" "c < C" and k: "k < 4" "d = DIRS ! k"
      and v: "v = Out (int r) (int c) d t" for r c k t d
  proof -
    have "cfg_at tiles (int r, int c) (KInj t) = Some (VDir d)"
      using conf [OF rc] i by (simp add: configured_def injected_def k)
    from pd(4) [OF this] obtain u' v' m' where e': "(u', v', m') \<in> set es" "node_tile v' = (int r, int c)"
        and m': "edge_key m' = Some (KInj t)" "VDir d = edge_val W m'" by blast
    from m' have m'': "m' = Inj t d" by (cases m') auto
    have "routable_edge R C W N (u', v', Inj t d)" using bspec [OF es e'(1)] by (simp only: m'')
    then obtain r' c' where "v' = Out r' c' d t" by cases auto
    with e'(2) v have "v' = v" by simp
    with e'(1) e one m'' show ?thesis unfolding single_target_def by blast
  qed
  from bspec [OF es e] show ?thesis
  proof cases
    case (chan od dr dc ind r c t)
    with chan_carries [of od dr dc ind r sim c out] show ?thesis by (simp add: dims)
  next
    case (sb dd sd r c t)
    from sb(4) obtain k where dk: "DIR_IDX dd = Some k" by (auto simp: in_DIRS)
    then have k: "k < 4" "dd = DIRS ! k" by (auto dest: DIR_IDX_Some)
    let ?sb = "tm_sb (fs_tiles sim ! r ! c)"
    have ok: "switch_box_ok ?sb" "sb_W ?sb = W" using conf [OF sb(7,8)] by (simp_all add: configured_def tile_shape_def)
    have "\<not> injected ?sb k t" using inj_src [OF _ sb(7,8) k, of t] sb(2,3) by auto
    moreover have "map_of (sb_sel ?sb) (k, t) = Some (source_sel dd sd)"
    proof -
      have "cfg_at tiles (int r, int c) (KSel dd t) = Some (VNum (source_sel dd sd))" using pd(3) [OF e] sb(2,3) by simp
      with conf [OF sb(7,8)] k show ?thesis by (simp add: configured_def)
    qed
    moreover note src_to_sel_ok(2,3) [OF sb(4,5,6)]
    ultimately have "bit (sb_outputs ?sb (gather sim out r c) (clb_packed sim clb r c) dd) t = bit (gather sim out r c sd) (wilton_track dd sd t W)"
      unfolding k(2) sb_outputs_bit [OF ok(1) k(1)] by (simp add: sel_bit_def ok(2) flip: k(2))
    then show ?thesis by (simp add: sb(1,2) settled_side [OF settled [OF sb(7,8)] sb(4)])
  next
    case (inj d r c j)
    from inj(4) obtain k where "DIR_IDX d = Some k" by (auto simp: in_DIRS)
    then have k: "k < 4" "d = DIRS ! k" by (auto dest: DIR_IDX_Some)
    let ?sb = "tm_sb (fs_tiles sim ! r ! c)"
    have ok: "switch_box_ok ?sb" "sb_NINJ ?sb = N" using conf [OF inj(5,6)] by (simp_all add: configured_def tile_shape_def)
    have "cfg_at tiles (int r, int c) (KInj j) = Some (VDir d)" using pd(3) [OF e] inj(2,3) by simp
    with conf [OF inj(5,6)] obtain k' where k': "map_of (sb_inject ?sb) j = Some k'" "DIRS ! k' = d" by (auto simp: configured_def)
    from ok(1) k'(1) have "k' < 4" by (auto simp: switch_box_ok_def list_all_iff dest!: map_of_SomeD)
    with k k'(2) DIRS_inj have "k' = k" by metis
    with k' ok inj(7) have "injected ?sb k j" by (simp add: injected_def)
    then have "bit (sb_outputs ?sb (gather sim out r c) (clb_packed sim clb r c) d) j = bit (clb_packed sim clb r c) j"
      unfolding k(2) sb_outputs_bit [OF ok(1) k(1)] by simp
    then show ?thesis by (simp add: inj(1,2) settled_side [OF settled [OF inj(5,6)] inj(4)])
  next
    case (cb d k r c t i)
    let ?cb = "tm_cb (fs_tiles sim ! r ! c)"
    note cf = conf [OF cb(5,6)]
    have i: "i < ext" using sinks e cb(2) unfolding sinks_below_def by blast
    have shape: "cb_W ?cb = W" "cb_NCB ?cb = ext" "Fabric_Switch.cb_DIV ?cb = 2" using cf by (simp_all add: configured_def tile_shape_def)
    have "cfg_at tiles (int r, int c) (KCb i) = Some (VNum (int ((k * W + t) div CB_DIV)))" using pd(3) [OF e] cb(2,3,4) by simp
    with cf i have sel: "cb_sel ?cb ! i = int ((k * W + t) div 2)" by (simp add: configured_def CB_DIV_def)
    have "i mod 2 + 2 * ((k * W + t) div 2) = k * W + t" using cb(8) unfolding CB_DIV_def by presburger
    then have "int i mod 2 + 2 * int ((k * W + t) div 2) = int (k * W + t)" by (metis of_nat_add of_nat_mult of_nat_mod of_nat_numeral)
    then have p: "nat (pool_index ?cb i (cb_sel ?cb ! i)) = k * W + t" unfolding pool_index_def sel shape(3) by (simp only: of_nat_numeral nat_int)
    have low: "\<not> bit (side (out ! r ! c) d) t" if "d \<in> set DIRS" "W \<le> t" for d t
      by (rule side_below [OF settled [OF cb(5,6)] cf that])
    have "cluster_pins sim out r c ! i = of_bool (bit (side (out ! r ! c) d) t)"
      using i pool_bit_at [of W "side (out ! r ! c)", OF low cb(4,7)] by (simp add: cluster_pins_def cb_clb_in_def shape p bit_at_of_bool Let_def)
    then show ?thesis by (simp add: cb(1,2))
  qed
qed

lemma links_carry:
  assumes edge: "\<And>u v m. (u, v, m) \<in> set es \<Longrightarrow> val v = val u" and "(u, v) \<in> (links es)\<^sup>*"
  shows "val v = (val u :: bool)"
  using assms(2)
proof induction
  case base
  show ?case by simp
next
  case (step x y)
  then show ?case using edge by (auto simp: links_def)
qed

end
