(* ===== verification/Fabric_Deliver.thy ===== *)
theory Fabric_Deliver
  imports Fabric_Fix
begin

text \<open>
  The router and the simulator together: when every net is routed and the passes converge, the
  pins of every cluster carry the values of their nets.
\<close>

section \<open>What the code expects of a database\<close>

definition db_dicts :: "nat \<Rightarrow> fabric_db \<Rightarrow> bool" where
  "db_dicts ext db \<longleftrightarrow> distinct (map fst (db_tiles db))
     \<and> list_all (\<lambda>(_, tile). distinct (map fst (tl_inputs tile)) \<and> list_all (\<lambda>(i, _). i < ext) (tl_inputs tile)) (db_tiles db)"

definition single_drivers :: "fabric_db \<Rightarrow> int \<Rightarrow> int \<Rightarrow> bool" where
  "single_drivers db x0 y0 \<longleftrightarrow> list_all (\<lambda>n. length (net_drivers db x0 y0 n) \<le> 1) (net_names db)"

definition inputs_undriven :: "fabric_db \<Rightarrow> int \<Rightarrow> int \<Rightarrow> (string \<rightharpoonup> int) \<Rightarrow> bool" where
  "inputs_undriven db x0 y0 pi_values \<longleftrightarrow>
     list_all (\<lambda>n. pi_values n = None \<or> net_drivers db x0 y0 n = []) (net_names db)"

definition fully_routed :: "route_config \<Rightarrow> bool" where
  "fully_routed rc \<longleftrightarrow> rc_converged rc \<and> rc_n_routed rc = rc_n_nets rc"

lemma single_driver:
  assumes "single_drivers db x0 y0" and "v \<in> set (net_drivers db x0 y0 n)"
  shows "net_drivers db x0 y0 n = [v]"
proof -
  from assms(2) have "n \<in> set (net_names db)" by (auto simp: in_net_names [of n db x0 y0])
  with assms(1) have "length (net_drivers db x0 y0 n) \<le> 1" by (simp add: single_drivers_def list_all_iff)
  with assms(2) show ?thesis by (cases "net_drivers db x0 y0 n") auto
qed

lemma undriven:
  assumes "inputs_undriven db x0 y0 pi_values" and "net_drivers db x0 y0 n \<noteq> []"
  shows "pi_values n = None"
proof -
  from assms(2) have "n \<in> set (net_names db)" by (simp add: in_net_names [of n db x0 y0])
  with assms show ?thesis by (auto simp: inputs_undriven_def list_all_iff)
qed

section \<open>Pins and outputs of a cluster\<close>

lemma length_inject [simp]: "length (inject_inputs tile pi_values is bits) = length bits"
  by (induction "is" arbitrary: bits) (auto split: option.split)

lemma inject_nth:
  "i < length bits \<Longrightarrow> inject_inputs tile pi_values is bits ! i =
     (case Option.bind (get_opt (tl_inputs tile) i) pi_values of
        Some b \<Rightarrow> if i \<in> set is then b AND 1 else bits ! i | None \<Rightarrow> bits ! i)"
proof (induction "is" arbitrary: bits)
  case Nil
  then show ?case by (simp split: option.split)
next
  case (Cons k ks)
  show ?case
  proof (cases "Option.bind (get_opt (tl_inputs tile) k) pi_values")
    case None
    then have "inject_inputs tile pi_values (k # ks) bits = inject_inputs tile pi_values ks bits"
      by (auto split: option.split)
    with Cons.IH [OF Cons.prems] None show ?thesis by (cases "i = k") (auto split: option.split)
  next
    case (Some b)
    then have "inject_inputs tile pi_values (k # ks) bits = inject_inputs tile pi_values ks (bits[k := b AND 1])"
      by (auto split: option.split option.split_asm)
    moreover have "i < length (bits[k := b AND 1])" using Cons.prems by simp
    ultimately show ?thesis using Cons.IH Some Cons.prems by (cases "i = k") (auto split: option.split)
  qed
qed

lemma pack_bit:
  assumes "pack_outputs N bits = Inr packed"
  shows "bit packed j \<longleftrightarrow> j < N \<and> odd (bits ! j)"
proof -
  have s: "bit (push_bit g (b AND 1)) k \<longleftrightarrow> k = g \<and> odd b" for g k and b :: int
    using bit_single [of g k] by (cases "odd b") (simp_all add: and_one_eq mod_2_eq_odd del: push_bit_of_1)
  have "bit (foldl (\<lambda>packed j. packed OR push_bit j (bits ! j AND 1)) p js) j \<longleftrightarrow> bit p j \<or> (j \<in> set js \<and> odd (bits ! j))" for p js
  proof (induction js arbitrary: p)
    case Nil
    show ?case by simp
  next
    case (Cons k js)
    show ?case unfolding foldl.simps Cons.IH bit_or_iff s by auto
  qed
  from this [of 0 "[0..<N]"] assms show ?thesis by (simp add: pack_outputs_def split: if_splits)
qed

lemma length_pins:
  assumes "configured W N ext cfg (fs_tiles sim ! r ! c)"
  shows "length (cluster_pins sim out r c) = ext"
  using assms by (simp add: cluster_pins_def cb_clb_in_def configured_def tile_shape_def Let_def)

section \<open>The result of a converged evaluation\<close>

lemma evaluate_settled:
  assumes "evaluate sim pi_values fuel ff = Inr (result, sim')" and "fs_converged sim'"
  obtains out clb io where "\<And>r c. r < fs_R sim \<Longrightarrow> c < fs_C sim \<Longrightarrow> settled_cell sim pi_values ff out clb r c"
    and "res_fold (read_tap clb) (fs_po_taps sim) [] = Inr result"
    and "ff \<noteq> None \<Longrightarrow> captured sim io [] = Inr (fs_last_ff_next sim') \<and> distinct (map fst io)
      \<and> (\<forall>r < fs_R sim. \<forall>c < fs_C sim. map_of io (r, c) = io_at sim pi_values out clb r c)"
proof -
  from assms(1) obtain iters converged s nxt where
      p: "passes sim pi_values ff fuel 0 (start_state sim) = Inr (iters, converged, s)"
    and c: "(case ff of None \<Rightarrow> Inr [] | Some _ \<Rightarrow> captured sim (ps_io s) []) = Inr nxt"
    and r: "res_fold (read_tap (ps_clb s)) (fs_po_taps sim) [] = Inr result"
    and s': "sim' = sim\<lparr>fs_last_iters := iters, fs_converged := converged, fs_last_ff_next := nxt\<rparr>"
    by (auto simp: evaluate_def res_bind_Inr_iff)
  from assms(2) s' p have p': "passes sim pi_values ff fuel 0 (start_state sim) = Inr (iters, True, s)" by simp
  show thesis
  proof (rule that [OF _ r])
    from passes_settled [OF p' start_shaped] show
      "settled_cell sim pi_values ff (ps_out s) (ps_clb s) r c" if "r < fs_R sim" "c < fs_C sim" for r c
      using that by blast
  next
    assume "ff \<noteq> None"
    then obtain f where f: "ff = Some f" by blast
    from passes_io [OF p' [unfolded f] start_shaped start_io] c show
      "captured sim (ps_io s) [] = Inr (fs_last_ff_next sim') \<and> distinct (map fst (ps_io s))
       \<and> (\<forall>r < fs_R sim. \<forall>c < fs_C sim. map_of (ps_io s) (r, c) = io_at sim pi_values (ps_out s) (ps_clb s) r c)"
      by (simp add: f s' io_shape_def)
  qed
qed

text \<open>Each captured bit is the next bit of its register.\<close>

lemma ff_next_distinct: "clb_ff_next tile inb outb = Inr n \<Longrightarrow> distinct (map fst n)"
proof -
  have "distinct (map fst d) \<Longrightarrow> distinct (map fst (foldl (\<lambda>d (gi, b). AList.update gi b d) d xs))" for d xs :: "(nat \<times> int) list"
    by (induction xs arbitrary: d) (auto simp: distinct_update)
  from this [of "[]"] show "clb_ff_next tile inb outb = Inr n \<Longrightarrow> ?thesis" by (auto simp: clb_ff_next_def res_bind_Inr_iff)
qed

lemma capture_fold:
  "distinct (map fst n) \<Longrightarrow> map_of (foldl (\<lambda>d (gi, b). AList.update (r, c, gi) b d) d n) (r', c', gi) =
     (if (r', c') = (r, c) then (case map_of n gi of None \<Rightarrow> map_of d (r', c', gi) | Some b \<Rightarrow> Some b) else map_of d (r', c', gi))"
proof (induction n arbitrary: d)
  case Nil
  then show ?case by simp
next
  case (Cons x n)
  obtain g b where x: "x = (g, b)" by (cases x)
  with Cons.prems have "map_of n g = None" by (simp add: map_of_eq_None_iff)
  with Cons x show ?case by (auto simp: map_of_alist_update split: option.split)
qed

lemma captured_ok:
  "captured sim io d = Inr nxt \<Longrightarrow> distinct (map fst io) \<Longrightarrow>
     (\<forall>r c gi. (r, c) \<notin> fst ` set io \<longrightarrow> map_of nxt (r, c, gi) = map_of d (r, c, gi))
     \<and> (\<forall>r c inb outb tile. ((r, c), inb, outb) \<in> set io \<longrightarrow> tm_logic (fs_tiles sim ! r ! c) = Some tile \<longrightarrow>
          (\<exists>n. clb_ff_next tile inb outb = Inr n
             \<and> (\<forall>gi. map_of nxt (r, c, gi) = (case map_of n gi of None \<Rightarrow> map_of d (r, c, gi) | Some b \<Rightarrow> Some b))))"
proof (induction io arbitrary: d)
  case Nil
  then show ?case by simp
next
  case (Cons x io)
  obtain r c inb outb where x: "x = ((r, c), inb, outb)" by (metis prod.exhaust)
  show ?case
  proof (cases "tm_logic (fs_tiles sim ! r ! c)")
    case None
    with Cons.prems x have "captured sim io d = Inr nxt" by simp
    with Cons.IH [of d] Cons.prems(2) None show ?thesis by (auto simp: x)
  next
    case (Some tile)
    with Cons.prems(1) x obtain n where n: "clb_ff_next tile inb outb = Inr n"
      and rest: "captured sim io (foldl (\<lambda>d (gi, b). AList.update (r, c, gi) b d) d n) = Inr nxt"
      by (auto simp: res_bind_Inr_iff lift_tile_def split: sum.splits)
    have new: "(r, c) \<notin> fst ` set io" and dist: "distinct (map fst io)" using Cons.prems(2) by (auto simp: x)
    note f = capture_fold [OF ff_next_distinct [OF n], of r c d]
    from Cons.IH [OF rest dist] have out: "\<And>r' c' gi. (r', c') \<notin> fst ` set io \<Longrightarrow>
          map_of nxt (r', c', gi) = map_of (foldl (\<lambda>d (gi, b). AList.update (r, c, gi) b d) d n) (r', c', gi)"
      and ins: "\<And>r' c' inb' outb' tile'. ((r', c'), inb', outb') \<in> set io \<Longrightarrow> tm_logic (fs_tiles sim ! r' ! c') = Some tile' \<Longrightarrow>
          \<exists>n'. clb_ff_next tile' inb' outb' = Inr n' \<and> (\<forall>gi. map_of nxt (r', c', gi)
            = (case map_of n' gi of None \<Rightarrow> map_of (foldl (\<lambda>d (gi, b). AList.update (r, c, gi) b d) d n) (r', c', gi) | Some b \<Rightarrow> Some b))"
      by blast+
    show ?thesis
    proof (intro conjI allI impI)
      fix r' c' gi assume "(r', c') \<notin> fst ` set (x # io)"
      with out [of r' c' gi] show "map_of nxt (r', c', gi) = map_of d (r', c', gi)" by (auto simp: x f)
    next
      fix r' c' inb' outb' tile' assume m: "((r', c'), inb', outb') \<in> set (x # io)" and t: "tm_logic (fs_tiles sim ! r' ! c') = Some tile'"
      show "\<exists>n'. clb_ff_next tile' inb' outb' = Inr n'
          \<and> (\<forall>gi. map_of nxt (r', c', gi) = (case map_of n' gi of None \<Rightarrow> map_of d (r', c', gi) | Some b \<Rightarrow> Some b))"
      proof (cases "((r', c'), inb', outb') \<in> set io")
        case True
        with new have "(r', c') \<noteq> (r, c)" by force
        then have "map_of (foldl (\<lambda>d (gi, b). AList.update (r, c, gi) b d) d n) (r', c', gi) = map_of d (r', c', gi)" for gi
          unfolding f by (rule if_not_P)
        with ins [OF True t] show ?thesis by (simp only: cong: option.case_cong)
      next
        case False
        with m x have e: "r' = r" "c' = c" "inb' = inb" "outb' = outb" by auto
        with t Some have "tile' = tile" by simp
        with n out [OF new] show ?thesis unfolding e by (simp add: f)
      qed
    qed
  qed
qed

lemma py_nth_nat: "0 \<le> i \<Longrightarrow> py_nth xs i = (if nat i < length xs then Inr (xs ! nat i) else Inl FabIndexErr)"
  by (auto simp: py_nth_def Let_def)

text \<open>Every entry of the result was read at a tap.\<close>

lemma read_taps:
  assumes "res_fold (read_tap clb) taps [] = Inr result" and taps: "\<And>r c gi net. (r, c, gi, net) \<in> set taps \<Longrightarrow> 0 \<le> r \<and> 0 \<le> c"
    and "(po, b) \<in> set result"
  obtains r c gi where "(r, c, gi, po) \<in> set taps" and "b = clb ! nat r ! nat c ! gi AND 1"
proof -
  define Q where "Q e \<longleftrightarrow> (\<exists>r c gi. (r, c, gi, fst e) \<in> set taps \<and> snd e = clb ! nat r ! nat c ! gi AND 1)" for e
  have "\<forall>e \<in> set result. Q e"
  proof (rule res_fold_inv [OF assms(1), where P = "\<lambda>res. \<forall>e \<in> set res. Q e"])
    show "\<forall>e \<in> set []. Q e" by simp
    fix tap s s' assume t: "tap \<in> set taps" and s: "\<forall>e \<in> set s. Q e" and step: "read_tap clb tap s = Inr s'"
    obtain r c gi net where tap: "tap = (r, c, gi, net)" by (metis prod.exhaust)
    with t taps have "0 \<le> r" "0 \<le> c" by blast+
    with step tap have s': "s' = AList.update net (clb ! nat r ! nat c ! gi AND 1) s"
      by (auto simp: read_tap_def res_bind_Inr_iff py_nth_nat split: if_splits)
    have "set s' \<subseteq> insert (net, clb ! nat r ! nat c ! gi AND 1) (set s)" unfolding s' by (induction s) auto
    moreover have "Q (net, clb ! nat r ! nat c ! gi AND 1)" unfolding Q_def using t tap by auto
    ultimately show "\<forall>e \<in> set s'. Q e" using s by blast
  qed
  with assms(3) that show thesis by (auto simp: Q_def)
qed

lemma read_taps_all: "res_fold (read_tap clb) taps res = Inr result \<Longrightarrow> fst ` set res \<union> (snd \<circ> snd \<circ> snd) ` set taps \<subseteq> fst ` set result"
proof (induction taps arbitrary: res)
  case Nil
  then show ?case by simp
next
  case (Cons tap taps)
  obtain r c gi net where tap: "tap = (r, c, gi, net)" by (metis prod.exhaust)
  from Cons.prems obtain res1 where s: "read_tap clb tap res = Inr res1" and f: "res_fold (read_tap clb) taps res1 = Inr result"
    by (auto simp: res_bind_Inr_iff)
  from s obtain b where "res1 = AList.update net b res" by (auto simp: read_tap_def tap res_bind_Inr_iff)
  moreover have "fst ` set (AList.update net b res) = insert net (fst ` set res)" for b by (induction res) auto
  ultimately show ?case using Cons.IH [OF f] by (simp add: tap)
qed

lemma output_taps_has: "(gi, Some n) \<in> set outs \<Longrightarrow> n \<in> set (db_outputs db) \<Longrightarrow> (r, c, gi, n) \<in> set (output_taps db r c outs)"
proof (induction outs)
  case Nil
  then show ?case by simp
next
  case (Cons x outs)
  then show ?case by (cases x) (auto split: option.split)
qed

lemma output_taps_mem:
  "(r', c', gi, po) \<in> set (output_taps db r c outs) \<Longrightarrow>
     r' = r \<and> c' = c \<and> (\<exists>n. (gi, Some n) \<in> set outs \<and> (n = po \<and> po \<in> set (db_outputs db) \<or> alias_of db n = Some po))"
proof (induction outs)
  case Nil
  then show ?case by simp
next
  case (Cons x outs)
  then show ?case by (cases x) (auto split: option.splits if_splits)
qed

lemma tap_source:
  assumes "(r, c, gi, po) \<in> set (po_taps_of db (x0, y0))"
  obtains x y tile n where "((x, y), tile) \<in> set (db_tiles db)" and "r = y - y0" and "c = x - x0" and "(gi, Some n) \<in> set (tl_outputs tile)"
    and "n = po \<and> po \<in> set (db_outputs db) \<or> alias_of db n = Some po"
proof -
  from assms obtain x y tile where t: "((x, y), tile) \<in> set (db_tiles db)"
      "(r, c, gi, po) \<in> set (output_taps db (y - y0) (x - x0) (tl_outputs tile))"
    by (auto simp: po_taps_of_def)
  from output_taps_mem [OF t(2)] that t(1) show thesis by blast
qed

section \<open>Sinks\<close>

lemma sink_of_graph:
  assumes "(u, v, m) \<in> set (possibility_graph R C W N sinks)" and "\<exists>r c i. v = ClbIn r c i"
  shows "v \<in> set sinks"
proof -
  from assms(2) obtain r' c' i where v: "v = ClbIn r' c' i" by blast
  from assms(1) obtain r c where e: "(u, v, m) \<in> set (chan_edges R C W (int r) (int c)) \<or> (u, v, m) \<in> set (sb_edges W (int r) (int c))
      \<or> (u, v, m) \<in> set (inj_edges N (int r) (int c)) \<or> (u, v, m) \<in> set (cb_edges W sinks (int r) (int c))"
    by (auto simp: possibility_graph_def)
  have "(u, v, m) \<notin> set (chan_edges R C W (int r) (int c))" "(u, v, m) \<notin> set (sb_edges W (int r) (int c))"
      "(u, v, m) \<notin> set (inj_edges N (int r) (int c))"
    by (auto simp: v chan_edges_def sb_edges_def inj_edges_def Let_def split: if_splits)
  with e have "(u, v, m) \<in> set (cb_edges W sinks (int r) (int c))" by blast
  then have "v = ClbIn (int r) (int c) i" "i \<in> set (sinks_of_tile sinks (int r) (int c))"
    by (auto simp: v cb_edges_def Let_def split: if_splits)
  then show ?thesis by (auto simp: sinks_of_tile_def split: node.splits if_splits)
qed

text \<open>The routing of a database whose nets are all routed\<close>

lemma routed_edges:
  assumes perm: "permutes_nets shuffle" and box: "db_grid_bounds db = Inr (x0, y0, x1, y1)"
    and run: "route shuffle db max_iters W N ext = Some (Inr rc)" and full: "fully_routed rc"
  obtains es where "\<forall>e \<in> set es. routable_edge (nat (y1 - y0 + 1)) (nat (x1 - x0 + 1)) W N e" and "single_target es"
    and "agreeing W es" and "populate W es [] = Inr (rc_tiles rc)"
    and "\<And>u v m. (u, v, m) \<in> set es \<Longrightarrow> (\<exists>r c i. v = ClbIn r c i) \<Longrightarrow> \<exists>n. v \<in> set (net_sinks db x0 y0 n)"
    and "\<And>n r c j rest s. net_drivers db x0 y0 n = ClbOut r c j # rest \<Longrightarrow> s \<in> set (net_sinks db x0 y0 n)
      \<Longrightarrow> j < N \<and> (ClbOut r c j, s) \<in> (links es)\<^sup>*"
    and "\<And>u v m. (u, v, m) \<in> set es \<Longrightarrow> \<exists>n w. w \<in> set (net_drivers db x0 y0 n) \<and> (w, u) \<in> (links es)\<^sup>*"
proof -
  let ?graph = "route_graph db (x0, y0, x1, y1) W N" and ?R = "nat (y1 - y0 + 1)" and ?C = "nat (x1 - x0 + 1)"
  from full have conv: "rc_converged rc" and eq: "rc_n_routed rc = rc_n_nets rc" by (simp_all add: fully_routed_def)
  obtain rn where clean: "clean_routing ?graph N rn" and pop: "populate W (all_edges rn) [] = Inr (rc_tiles rc)"
    and "fst ` set rn = set (filter (can_route ?graph N) (filter (reached ?graph) (routable_nets db x0 y0 N)))"
    and sub: "fst ` set rn \<subseteq> set (inter_nets db x0 y0)"
    and all: "rc_n_routed rc = rc_n_nets rc \<Longrightarrow> fst ` set rn = set (inter_nets db x0 y0)"
    by (rule route_clean [OF perm box run conv]) (rule that; assumption)
  have es: "routable_edge ?R ?C W N e" if "e \<in> set (all_edges rn)" for e
    by (rule clean_edges_routable [OF box clean sub that])
  have g: "routable_edge ?R ?C W N e" if "e \<in> set ?graph" for e
    using that by (simp add: route_graph_def possibility_graph_edges)
  show thesis
  proof (rule that [of "all_edges rn"])
    show "\<forall>e \<in> set (all_edges rn). routable_edge ?R ?C W N e" using es by blast
    show "single_target (all_edges rn)" by (rule clean_edges(1) [OF clean])
    show "agreeing W (all_edges rn)" by (rule clean_agreeing [OF clean g es])
    show "populate W (all_edges rn) [] = Inr (rc_tiles rc)" by (rule pop)
  next
    fix u v m assume e: "(u, v, m) \<in> set (all_edges rn)" and v: "\<exists>r c i. v = ClbIn r c i"
    have "(u, v, m) \<in> set ?graph" using clean_edges(2) [OF clean e] v by (auto simp: exit_edge_def)
    then have "(u, v, m) \<in> set (possibility_graph ?R ?C W N (concat (map nt_sinks (routable_nets db x0 y0 N))))"
      by (simp add: route_graph_def)
    then have "v \<in> set (concat (map nt_sinks (routable_nets db x0 y0 N)))"
      using v by (rule sink_of_graph)
    then obtain n where n: "n \<in> set (routable_nets db x0 y0 N)" "v \<in> set (nt_sinks n)" by auto
    then have "n \<in> set (extract_nets db x0 y0)" by (simp add: routable_nets_def inter_nets_def)
    then have "nt_sinks n = net_sinks db x0 y0 (nt_name n)" using extract_net mk_net_simps(2) by metis
    with n(2) show "\<exists>n. v \<in> set (net_sinks db x0 y0 n)" by auto
  next
    fix n r c j rest s assume d: "net_drivers db x0 y0 n = ClbOut r c j # rest" and s: "s \<in> set (net_sinks db x0 y0 n)"
    let ?net = "mk_net (net_drivers db x0 y0 n) (net_sinks db x0 y0 n) n"
    have "?net \<in> set (inter_nets db x0 y0)" by (rule inter_netI) (use d s in auto)
    with all [OF eq] obtain es nodes where rn: "(?net, es, nodes) \<in> set rn" by force
    with clean have ra: "routed_as ?graph N ?net (es, nodes)" by (auto simp: clean_routing_def)
    obtain r' c' j' where dr: "nt_driver ?net = Some (ClbOut r' c' j')" "j' < N"
      and reach: "\<And>s. s \<in> set (nt_sinks ?net) \<Longrightarrow> (ClbOut r' c' j', s) \<in> (links es)\<^sup>*"
      by (rule routed_asE [OF ra]) (rule that; assumption)
    have same: "ClbOut r' c' j' = ClbOut r c j" using dr(1) d by simp
    have "links es \<subseteq> links (all_edges rn)" by (rule links_mono) (use rn in \<open>force simp: all_edges_def\<close>)
    then have "(links es)\<^sup>* \<subseteq> (links (all_edges rn))\<^sup>*" by (rule rtrancl_mono)
    with reach [of s] s same dr(2) show "j < N \<and> (ClbOut r c j, s) \<in> (links (all_edges rn))\<^sup>*" by auto
  next
    fix u v m assume "(u, v, m) \<in> set (all_edges rn)"
    then obtain n es nodes where n: "(n, es, nodes) \<in> set rn" "(u, v, m) \<in> set es" by (force simp: all_edges_def)
    with clean have ra: "routed_as ?graph N n (es, nodes)" by (auto simp: clean_routing_def)
    obtain r c j d where dr: "nt_driver n = Some (ClbOut r c j)" and first: "(ClbOut r c j, Out r c d j, Inj j d) \<in> set es"
      and each: "\<And>e. e \<in> set es \<Longrightarrow> e = (ClbOut r c j, Out r c d j, Inj j d) \<or> (e \<in> set ?graph \<and> (Out r c d j, fst e) \<in> (links es)\<^sup>*)"
      by (rule routed_asE [OF ra]) (rule that; assumption)
    have "(ClbOut r c j, u) \<in> (links es)\<^sup>*"
      using each [OF n(2)] first by (auto simp: links_def intro: converse_rtrancl_into_rtrancl)
    moreover have "links es \<subseteq> links (all_edges rn)" by (rule links_mono) (use n(1) in \<open>force simp: all_edges_def\<close>)
    then have "(links es)\<^sup>* \<subseteq> (links (all_edges rn))\<^sup>*" by (rule rtrancl_mono)
    moreover have "ClbOut r c j \<in> set (net_drivers db x0 y0 (nt_name n))"
    proof -
      from sub n(1) have "n \<in> set (inter_nets db x0 y0)" by force
      from inter_driver [OF box this dr] obtain x y tile where
        "((x, y), tile) \<in> set (db_tiles db)" "(j, Some (nt_name n)) \<in> set (tl_outputs tile)" "r = y - y0" "c = x - x0" .
      then show ?thesis unfolding in_drivers by blast
    qed
    ultimately show "\<exists>n w. w \<in> set (net_drivers db x0 y0 n) \<and> (w, u) \<in> (links (all_edges rn))\<^sup>*" by blast
  qed
qed

section \<open>Every pin carries its net\<close>

text \<open>One cluster under values \<open>v\<close> of the nets: some bits at its pins, equal to \<open>v\<close> at every pin whose net
  is driven or given, the outputs that \<open>clb_eval_bits\<close> computes from them, equal to \<open>v\<close> as well, and
  the register bits that \<open>clb_ff_next\<close> captures, when there are registers\<close>

definition cluster_carries ::
  "(string \<Rightarrow> bool) \<Rightarrow> (string \<Rightarrow> bool) \<Rightarrow> nat \<Rightarrow> tile_logic \<Rightarrow> (nat \<rightharpoonup> int) \<Rightarrow> (nat \<rightharpoonup> int) option \<Rightarrow> bool" where
  "cluster_carries v known ext tile ff nxt \<longleftrightarrow>
     (\<exists>bits outs. length bits = ext \<and> clb_eval_bits tile bits ff = Inr outs
        \<and> (\<forall>i n. (i, Some n) \<in> set (tl_inputs tile) \<longrightarrow> known n \<longrightarrow> odd (bits ! i) = v n)
        \<and> (\<forall>j n. (j, Some n) \<in> set (tl_outputs tile) \<longrightarrow> odd (outs ! j) = v n)
        \<and> (case nxt of None \<Rightarrow> True | Some m \<Rightarrow> \<exists>n. clb_ff_next tile bits outs = Inr n \<and> map_of n = m))"

definition next_of :: "((nat \<times> nat \<times> nat) \<times> int) list option \<Rightarrow> fabric_sim \<Rightarrow> nat \<Rightarrow> nat \<Rightarrow> (nat \<rightharpoonup> int) option" where
  "next_of ff sim r c = (case ff of None \<Rightarrow> None | Some _ \<Rightarrow> Some (\<lambda>gi. map_of (fs_last_ff_next sim) (r, c, gi)))"

definition delivered ::
  "fabric_db \<Rightarrow> int \<Rightarrow> int \<Rightarrow> nat \<Rightarrow> (string \<rightharpoonup> int) \<Rightarrow> ((nat \<times> nat \<times> nat) \<times> int) list option
     \<Rightarrow> (string \<times> int) list \<Rightarrow> fabric_sim \<Rightarrow> (string \<Rightarrow> bool) \<Rightarrow> bool" where
  "delivered db x0 y0 ext pi_values ff result sim v \<longleftrightarrow>
     (\<forall>n b. pi_values n = Some b \<longrightarrow> v n = odd b)
     \<and> (\<forall>x y tile. ((x, y), tile) \<in> set (db_tiles db) \<longrightarrow>
          cluster_carries v (\<lambda>n. pi_values n \<noteq> None \<or> net_drivers db x0 y0 n \<noteq> []) ext tile
            (ff_of ff (nat (y - y0)) (nat (x - x0))) (next_of ff sim (nat (y - y0)) (nat (x - x0))))
     \<and> (\<forall>po b. (po, b) \<in> set result \<longrightarrow>
          (\<exists>n. b = of_bool (v n) \<and> (n = po \<and> po \<in> set (db_outputs db) \<or> alias_of db n = Some po)))
     \<and> (\<forall>n. n \<in> set (db_outputs db) \<longrightarrow> net_drivers db x0 y0 n \<noteq> [] \<longrightarrow> n \<in> fst ` set result)"

text \<open>A simulator that differs only in what earlier evaluations left in it\<close>

definition after_runs :: "fabric_sim \<Rightarrow> fabric_sim \<Rightarrow> bool" where
  "after_runs sim0 sim \<longleftrightarrow> (\<exists>iters conv nxt. sim = sim0\<lparr>fs_last_iters := iters, fs_converged := conv, fs_last_ff_next := nxt\<rparr>)"

lemma after_runs_refl: "after_runs sim sim"
  unfolding after_runs_def by (intro exI [of _ "fs_last_iters sim"] exI [of _ "fs_converged sim"] exI [of _ "fs_last_ff_next sim"]) simp

lemma after_runs_evaluate:
  assumes "after_runs sim0 sim" and "evaluate sim pi_values fuel ff = Inr (result, sim')"
  shows "after_runs sim0 sim'"
proof -
  from assms(1) obtain i c n where s: "sim = sim0\<lparr>fs_last_iters := i, fs_converged := c, fs_last_ff_next := n\<rparr>"
    unfolding after_runs_def by blast
  from assms(2) obtain i' c' n' where "sim' = sim\<lparr>fs_last_iters := i', fs_converged := c', fs_last_ff_next := n'\<rparr>"
    by (auto simp: evaluate_def res_bind_Inr_iff)
  then have "sim' = sim0\<lparr>fs_last_iters := i', fs_converged := c', fs_last_ff_next := n'\<rparr>" by (simp add: s)
  then show ?thesis unfolding after_runs_def by blast
qed

lemma after_runs_built: "after_runs sim0 sim \<Longrightarrow> built_sim db tiles corner R C W N ext sim0 \<Longrightarrow> built_sim db tiles corner R C W N ext sim"
  by (auto simp: after_runs_def built_sim_def)

definition net_state :: "fabric_db \<Rightarrow> int \<Rightarrow> int \<Rightarrow> (string \<rightharpoonup> int) \<Rightarrow> int list list list \<Rightarrow> string \<Rightarrow> bool" where
  "net_state db x0 y0 pi_values clb n =
     (case pi_values n of Some b \<Rightarrow> odd b
      | None \<Rightarrow> (case net_drivers db x0 y0 n of ClbOut r c j # _ \<Rightarrow> odd (clb ! nat r ! nat c ! j) | _ \<Rightarrow> False))"

lemma db_dictsD:
  assumes "db_dicts ext db" and "((x, y), tile) \<in> set (db_tiles db)"
  shows "distinct (map fst (tl_inputs tile))" and "(i, net) \<in> set (tl_inputs tile) \<Longrightarrow> i < ext" and "map_of (db_tiles db) (x, y) = Some tile"
proof -
  from assms have "distinct (map fst (tl_inputs tile)) \<and> list_all (\<lambda>(i, _). i < ext) (tl_inputs tile)" "distinct (map fst (db_tiles db))"
    by (auto simp: db_dicts_def list_all_iff)
  with assms(2) show "distinct (map fst (tl_inputs tile))" "(i, net) \<in> set (tl_inputs tile) \<Longrightarrow> i < ext"
      "map_of (db_tiles db) (x, y) = Some tile"
    by (auto simp: list_all_iff)
qed

lemma built_cell:
  assumes "built_sim db tiles corner R C W N ext sim" and "r < R" and "c < C"
  shows "configured W N ext (cfg_at tiles (int r, int c)) (fs_tiles sim ! r ! c)"
    and "tm_logic (fs_tiles sim ! r ! c) = map_of (db_tiles db) (int c + fst corner, int r + snd corner)"
  using assms unfolding built_sim_def by blast+

lemma routed_fabric:
  assumes perm: "permutes_nets shuffle" and box: "db_grid_bounds db = Inr (x0, y0, x1, y1)"
    and run: "route shuffle db max_iters W N ext = Some (Inr rc)" and full: "fully_routed rc"
    and dicts: "db_dicts ext db" and single: "single_drivers db x0 y0" and dims: "1 \<le> W" "N \<le> W" "1 \<le> ext"
  shows "\<exists>sim. fabric_sim_init db (rc_tiles rc) x0 y0 W N ext = Inr sim
    \<and> (\<forall>sim1 pi_values fuel ff result sim'. after_runs sim sim1 \<longrightarrow> inputs_undriven db x0 y0 pi_values \<longrightarrow>
         evaluate sim1 pi_values fuel ff = Inr (result, sim') \<longrightarrow> fs_converged sim' \<longrightarrow>
         (\<exists>v. delivered db x0 y0 ext pi_values ff result sim' v))"
proof -
  let ?R = "nat (y1 - y0 + 1)" and ?C = "nat (x1 - x0 + 1)"
  obtain es where es: "\<forall>e \<in> set es. routable_edge ?R ?C W N e" and one: "single_target es" and ag: "agreeing W es"
    and pop: "populate W es [] = Inr (rc_tiles rc)"
    and sinks: "\<And>u v m. (u, v, m) \<in> set es \<Longrightarrow> (\<exists>r c i. v = ClbIn r c i) \<Longrightarrow> \<exists>n. v \<in> set (net_sinks db x0 y0 n)"
    and reach: "\<And>n r c j rest s. net_drivers db x0 y0 n = ClbOut r c j # rest \<Longrightarrow> s \<in> set (net_sinks db x0 y0 n)
      \<Longrightarrow> j < N \<and> (ClbOut r c j, s) \<in> (links es)\<^sup>*"
    by (rule routed_edges [OF perm box run full]) (rule that; assumption)
  have below: "sinks_below ext es"
    unfolding sinks_below_def
  proof (intro allI impI)
    fix u r c i m assume "(u, ClbIn r c i, m) \<in> set es"
    from sinks [OF this] obtain n where "ClbIn r c i \<in> set (net_sinks db x0 y0 n)" by blast
    then obtain x y tile where "((x, y), tile) \<in> set (db_tiles db)" "(i, Some n) \<in> set (tl_inputs tile)" by (auto simp: in_sinks)
    then show "i < ext" by (rule db_dictsD(2) [OF dicts])
  qed
  have dist: "distinct (map fst (db_tiles db))" using dicts by (simp add: db_dicts_def)
  from fabric_sim_built [OF box dist dims refl refl es ag pop below] obtain sim where
      init: "fabric_sim_init db (rc_tiles rc) x0 y0 W N ext = Inr sim"
    and built0: "built_sim db (rc_tiles rc) (x0, y0) ?R ?C W N ext sim" by blast
  have "\<exists>v. delivered db x0 y0 ext pi_values ff result sim' v"
    if runs: "after_runs sim0 sim" and built0: "built_sim db (rc_tiles rc) (x0, y0) ?R ?C W N ext sim0"
      and und: "inputs_undriven db x0 y0 pi_values" and ev: "evaluate sim pi_values fuel ff = Inr (result, sim')" and conv: "fs_converged sim'"
    for sim0 sim pi_values fuel ff result sim'
  proof -
    note built = after_runs_built [OF runs built0]
    obtain out clb io where st0: "\<And>r c. r < fs_R sim \<Longrightarrow> c < fs_C sim \<Longrightarrow> settled_cell sim pi_values ff out clb r c"
      and taps: "res_fold (read_tap clb) (fs_po_taps sim) [] = Inr result"
      and io: "ff \<noteq> None \<Longrightarrow> captured sim io [] = Inr (fs_last_ff_next sim') \<and> distinct (map fst io)
        \<and> (\<forall>r < fs_R sim. \<forall>c < fs_C sim. map_of io (r, c) = io_at sim pi_values out clb r c)"
      by (rule evaluate_settled [OF ev conv]) (rule that; assumption)
    have dimsim: "fs_R sim = ?R" "fs_C sim = ?C" "fs_N sim = N" "fs_EXT_IN sim = ext" "fs_po_taps sim = po_taps_of db (x0, y0)"
      using built by (simp_all add: built_sim_def)
    have st: "settled_cell sim pi_values ff out clb r c" if "r < ?R" "c < ?C" for r c using st0 that by (simp add: dimsim)
    let ?v = "net_state db x0 y0 pi_values clb"
    have cell: "nat (y - y0) < ?R \<and> nat (x - x0) < ?C \<and> y0 \<le> y \<and> x0 \<le> x
        \<and> tm_logic (fs_tiles sim ! nat (y - y0) ! nat (x - x0)) = Some tile
        \<and> configured W N ext (cfg_at (rc_tiles rc) (y - y0, x - x0)) (fs_tiles sim ! nat (y - y0) ! nat (x - x0))"
      if t: "((x, y), tile) \<in> set (db_tiles db)" for x y tile
    proof -
      from grid_member [OF box t] have g: "nat (y - y0) < ?R" "nat (x - x0) < ?C" "int (nat (y - y0)) = y - y0" "int (nat (x - x0)) = x - x0"
          "y0 \<le> y" "x0 \<le> x" by auto
      from built_cell [OF built g(1,2)] db_dictsD(3) [OF dicts t] g show ?thesis by simp
    qed
    have driven: "?v n = odd (clb ! nat (y - y0) ! nat (x - x0) ! j)"
      if t: "((x, y), tile) \<in> set (db_tiles db)" and j: "(j, Some n) \<in> set (tl_outputs tile)" for x y tile j n
    proof -
      from t j have "ClbOut (y - y0) (x - x0) j \<in> set (net_drivers db x0 y0 n)" by (auto simp: in_drivers)
      from single_driver [OF single this] have d: "net_drivers db x0 y0 n = [ClbOut (y - y0) (x - x0) j]" .
      moreover from undriven [OF und] d have "pi_values n = None" by simp
      ultimately show ?thesis by (simp add: net_state_def)
    qed
    have pin: "odd (cluster_pins sim out (nat (y - y0)) (nat (x - x0)) ! i) = ?v n"
      if t: "((x, y), tile) \<in> set (db_tiles db)" and i: "(i, Some n) \<in> set (tl_inputs tile)" and d: "net_drivers db x0 y0 n \<noteq> []" for x y tile i n
    proof -
      let ?s = "ClbIn (y - y0) (x - x0) i"
      from t i have s: "?s \<in> set (net_sinks db x0 y0 n)" by (auto simp: in_sinks)
      from d obtain w where "w \<in> set (net_drivers db x0 y0 n)" by (cases "net_drivers db x0 y0 n") auto
      then obtain x' y' tile' j where w: "((x', y'), tile') \<in> set (db_tiles db)" "(j, Some n) \<in> set (tl_outputs tile')"
        unfolding in_drivers by blast
      then have "ClbOut (y' - y0) (x' - x0) j \<in> set (net_drivers db x0 y0 n)" unfolding in_drivers by blast
      note dr = single_driver [OF single this]
      from reach [OF dr s] have jN: "j < N" and path: "(ClbOut (y' - y0) (x' - x0) j, ?s) \<in> (links es)\<^sup>*" by blast+
      have edge: "node_val sim out clb v = node_val sim out clb u" if "(u, v, m) \<in> set es" for u v m
        by (rule edge_carries [OF es one ag pop built below st that])
      have "node_val sim out clb ?s = node_val sim out clb (ClbOut (y' - y0) (x' - x0) j)"
        by (rule links_carry [of es "node_val sim out clb", OF edge path])
      moreover from st [of "nat (y' - y0)" "nat (x' - x0)"] cell [OF w(1)] obtain packed where
          "pack_outputs N (clb ! nat (y' - y0) ! nat (x' - x0)) = Inr packed"
        by (auto simp: settled_cell_def clb_ok_at_def dimsim)
      then have "bit (clb_packed sim clb (nat (y' - y0)) (nat (x' - x0))) j = odd (clb ! nat (y' - y0) ! nat (x' - x0) ! j)"
        using cell [OF w(1)] pack_bit jN by (simp add: clb_packed_def dimsim)
      ultimately show ?thesis by (simp add: driven [OF w(1,2)])
    qed
    have "cluster_carries ?v (\<lambda>n. pi_values n \<noteq> None \<or> net_drivers db x0 y0 n \<noteq> []) ext tile
        (ff_of ff (nat (y - y0)) (nat (x - x0))) (next_of ff sim' (nat (y - y0)) (nat (x - x0)))"
      if t: "((x, y), tile) \<in> set (db_tiles db)" for x y tile
    proof -
      let ?r = "nat (y - y0)" and ?c = "nat (x - x0)"
      let ?pins = "cluster_pins sim out ?r ?c"
      let ?bits = "inject_inputs tile pi_values [0..<ext] ?pins"
      note cl = cell [OF t]
      have len: "length ?pins = ext" using cl length_pins by blast
      from st [of ?r ?c] cl have e: "clb_eval_bits tile ?bits (ff_of ff ?r ?c) = Inr (clb ! ?r ! ?c)"
        by (auto simp: settled_cell_def clb_ok_at_def dimsim)
      have "odd (?bits ! i) = ?v n"
        if i: "(i, Some n) \<in> set (tl_inputs tile)" and k: "pi_values n \<noteq> None \<or> net_drivers db x0 y0 n \<noteq> []" for i n
      proof -
        from i db_dictsD(1) [OF dicts t] have net: "get_opt (tl_inputs tile) i = Some n" by (simp add: get_opt_def)
        have il: "i < length ?pins" using db_dictsD(2) [OF dicts t i] len by simp
        show ?thesis
        proof (cases "pi_values n")
          case None
          with k have "net_drivers db x0 y0 n \<noteq> []" by simp
          with pin [OF t i] inject_nth [OF il, of tile pi_values "[0..<ext]"] net None show ?thesis by simp
        next
          case (Some b)
          with inject_nth [OF il, of tile pi_values "[0..<ext]"] net il len show ?thesis
            by (simp add: net_state_def even_and_iff)
        qed
      qed
      moreover have "case next_of ff sim' ?r ?c of None \<Rightarrow> True | Some m \<Rightarrow> \<exists>n. clb_ff_next tile ?bits (clb ! ?r ! ?c) = Inr n \<and> map_of n = m"
      proof (cases ff)
        case None
        then show ?thesis by (simp add: next_of_def)
      next
        case (Some f)
        with io have cap: "captured sim io [] = Inr (fs_last_ff_next sim')" "distinct (map fst io)"
          and at: "\<forall>r < fs_R sim. \<forall>c < fs_C sim. map_of io (r, c) = io_at sim pi_values out clb r c" by blast+
        from at cl have "map_of io (?r, ?c) = Some (?bits, clb ! ?r ! ?c)" by (simp add: dimsim io_at_def)
        then have "((?r, ?c), ?bits, clb ! ?r ! ?c) \<in> set io" by (rule map_of_SomeD)
        moreover from cl have "tm_logic (fs_tiles sim ! ?r ! ?c) = Some tile" by blast
        ultimately obtain n where n: "clb_ff_next tile ?bits (clb ! ?r ! ?c) = Inr n"
          and m: "\<And>gi. map_of (fs_last_ff_next sim') (?r, ?c, gi) = (case map_of n gi of None \<Rightarrow> map_of [] (?r, ?c, gi) | Some b \<Rightarrow> Some b)"
          using captured_ok [OF cap] by meson
        have "map_of n = (\<lambda>gi. map_of (fs_last_ff_next sim') (?r, ?c, gi))" by (simp add: fun_eq_iff m [unfolded map_of.simps case_option_self(1)])
        with n Some show ?thesis by (simp add: next_of_def)
      qed
      ultimately show ?thesis
        unfolding cluster_carries_def using e len driven [OF t]
        by (intro exI [of _ ?bits] exI [of _ "clb ! ?r ! ?c"]) simp
    qed
    moreover have "\<exists>n. b = of_bool (?v n) \<and> (n = po \<and> po \<in> set (db_outputs db) \<or> alias_of db n = Some po)"
      if pb: "(po, b) \<in> set result" for po b
    proof -
      have pos: "0 \<le> r \<and> 0 \<le> c" if "(r, c, gi, net) \<in> set (po_taps_of db (x0, y0))" for r c gi net
        using that by (rule tap_source) (use grid_member [OF box] in fastforce)
      obtain r c gi where tap: "(r, c, gi, po) \<in> set (po_taps_of db (x0, y0))" and b: "b = clb ! nat r ! nat c ! gi AND 1"
        by (rule read_taps [OF taps [unfolded dimsim] _ pb]) (erule pos, rule that)
      from tap obtain x y tile n where t: "((x, y), tile) \<in> set (db_tiles db)" "r = y - y0" "c = x - x0" "(gi, Some n) \<in> set (tl_outputs tile)"
          and n: "n = po \<and> po \<in> set (db_outputs db) \<or> alias_of db n = Some po" by (rule tap_source)
      from driven [OF t(1,4)] b t(2,3) have "b = of_bool (?v n)" by (simp add: and_one_eq mod_2_eq_odd)
      with n show ?thesis by blast
    qed
    moreover have "?v n = odd b" if "pi_values n = Some b" for n b using that by (simp add: net_state_def)
    moreover have "n \<in> fst ` set result" if n: "n \<in> set (db_outputs db)" "net_drivers db x0 y0 n \<noteq> []" for n
    proof -
      from n(2) obtain w where "w \<in> set (net_drivers db x0 y0 n)" by (cases "net_drivers db x0 y0 n") auto
      then obtain x y tile j where t: "((x, y), tile) \<in> set (db_tiles db)" "(j, Some n) \<in> set (tl_outputs tile)"
        unfolding in_drivers by blast
      have "(y - y0, x - x0, j, n) \<in> set (po_taps_of db (x0, y0))"
        unfolding po_taps_of_def using output_taps_has [OF t(2) n(1), of "y - y0" "x - x0"] t(1) by force
      with read_taps_all [OF taps [unfolded dimsim]] show ?thesis by force
    qed
    ultimately show ?thesis unfolding delivered_def by blast
  qed
  with init built0 show ?thesis by blast
qed

end
