(* ===== verification/Bitgen_Solver.thy ===== *)
theory Bitgen_Solver
  imports Bitgen_Db "HOL-Library.Multiset"
begin

text \<open>
  The pin-class solver: its in-place updates and their undoing, and that the search is exact. A
  solution chooses a class for every external net of every LUT, at most \<open>slots\<close> nets of a
  LUT in one class and at most \<open>pin_budget\<close> nets of the tile in one class.
\<close>

section \<open>Solutions\<close>

type_synonym choice = "nat \<Rightarrow> string \<Rightarrow> nat"

definition class_nets :: "(nat \<times> string list) list \<Rightarrow> choice \<Rightarrow> nat \<Rightarrow> string set" where
  "class_nets luts cls c = {net. \<exists>gi nets. (gi, nets) \<in> set luts \<and> net \<in> set nets \<and> cls gi net = c}"

definition slots_ok :: "nat \<Rightarrow> (nat \<times> string list) list \<Rightarrow> choice \<Rightarrow> bool" where
  "slots_ok slots luts cls \<longleftrightarrow>
     (\<forall>(gi, nets) \<in> set luts.
        (\<forall>net \<in> set nets. cls gi net < 2)
        \<and> (\<forall>c < 2. card {net \<in> set nets. cls gi net = c} \<le> slots))"

definition lut_keys_ok :: "(nat \<times> string list) list \<Rightarrow> bool" where
  "lut_keys_ok luts \<longleftrightarrow> distinct (map fst luts) \<and> (\<forall>(gi, nets) \<in> set luts. distinct nets)"

definition chosen :: "(nat \<times> string list) list \<Rightarrow> choice \<Rightarrow> (nat \<times> string \<rightharpoonup> nat)" where
  "chosen luts cls = (\<lambda>(gi, net).
     if \<exists>nets. (gi, nets) \<in> set luts \<and> net \<in> set nets then Some (cls gi net) else None)"

section \<open>The state of the search\<close>

definition pinned :: "iib_state \<Rightarrow> nat \<Rightarrow> string set" where
  "pinned st c = {net. \<exists>cs. map_of (net_classes st) net = Some cs \<and> c \<in> cs}"

definition iib_ok :: "nat \<Rightarrow> iib_state \<Rightarrow> bool" where
  "iib_ok pb st \<longleftrightarrow>
     distinct (map fst (net_classes st))
     \<and> (\<forall>(net, cs) \<in> set (net_classes st). cs \<noteq> {} \<and> cs \<subseteq> {0, 1})
     \<and> budget st = [int pb - int (card (pinned st 0)), int pb - int (card (pinned st 1))]
     \<and> card (pinned st 0) \<le> pb \<and> card (pinned st 1) \<le> pb"

lemma less_2: "(c :: nat) < 2 \<longleftrightarrow> c = 0 \<or> c = 1"
  by auto

lemma finite_pinned [simp]: "finite (pinned st c)"
proof -
  have "pinned st c \<subseteq> fst ` set (net_classes st)"
    by (auto simp: pinned_def dest!: map_of_SomeD intro: rev_image_eqI)
  then show ?thesis by (rule finite_subset) simp
qed

lemma finite_class_nets [simp]: "finite (class_nets luts cls c)"
proof -
  have "class_nets luts cls c \<subseteq> (\<Union>(gi, nets) \<in> set luts. set nets)"
    by (auto simp: class_nets_def)
  then show ?thesis by (rule finite_subset) auto
qed

lemma iib_ok_budget: "iib_ok pb st \<Longrightarrow> c < 2 \<Longrightarrow> budget st ! c = int pb - int (card (pinned st c)) \<and> card (pinned st c) \<le> pb"
  by (auto simp: iib_ok_def less_2)

lemma iib_ok_length: "iib_ok pb st \<Longrightarrow> length (budget st) = 2"
  by (simp add: iib_ok_def)

lemma iib_ok_classes: "iib_ok pb st \<Longrightarrow> map_of (net_classes st) net = Some cs \<Longrightarrow> cs \<noteq> {} \<and> cs \<subseteq> {0, 1}"
  by (auto simp: iib_ok_def dest!: map_of_SomeD)

lemma other_class_free: "c \<notin> cs \<Longrightarrow> c < 2 \<Longrightarrow> cs \<subseteq> {0, 1::nat} \<Longrightarrow> card cs < (2::nat)"
proof -
  assume c: "c \<notin> cs" "c < 2" "cs \<subseteq> {0, 1::nat}"
  then have "cs \<subseteq> {1 - c}" by (auto simp: less_2)
  then have "card cs \<le> card {1 - c}" by (intro card_mono) auto
  then show ?thesis by simp
qed

section \<open>The walk over an option\<close>

definition of_class :: "nat \<Rightarrow> (string \<times> nat) list \<Rightarrow> nat" where
  "of_class c xs = length (filter (\<lambda>(net, c'). c' = c) xs)"

definition new_pins :: "iib_state \<Rightarrow> (string \<times> nat) list \<Rightarrow> (string \<times> nat) list" where
  "new_pins st opt = filter (\<lambda>(net, c). net \<notin> pinned st c) opt"

lemma of_class_simps [simp]:
  "of_class c [] = 0"
  "of_class c ((net, c') # xs) = (if c' = c then Suc (of_class c xs) else of_class c xs)"
  by (simp_all add: of_class_def)

lemma new_pins_simps [simp]:
  "new_pins st [] = []"
  "new_pins st ((net, c) # opt) = (if net \<in> pinned st c then new_pins st opt else (net, c) # new_pins st opt)"
  by (simp_all add: new_pins_def)

lemma option_deltas_eq:
  assumes "iib_ok pb st" and "\<forall>(net, c) \<in> set opt. c < 2"
    and "length pending = 2" and "\<forall>c < 2. pending ! c \<le> budget st ! c"
  shows "option_deltas st pending deltas opt =
    (if \<forall>c < 2. pending ! c + int (of_class c (new_pins st opt)) \<le> budget st ! c
     then Some (deltas @ new_pins st opt) else None)"
  using assms(2-)
proof (induction opt arbitrary: pending deltas)
  case Nil
  then show ?case by simp
next
  case (Cons nc opt)
  obtain net c where [simp]: "nc = (net, c)" by (cases nc)
  from Cons.prems have c2: "c < 2" and opt: "\<forall>(net, c) \<in> set opt. c < 2" by auto
  have len: "length (pending[c := pending ! c + 1]) = 2" using Cons.prems by simp
  show ?case
  proof (cases "net \<in> pinned st c")
    case True
    then obtain cs where "map_of (net_classes st) net = Some cs" "c \<in> cs" by (auto simp: pinned_def)
    with True Cons.IH [OF opt] Cons.prems show ?thesis by simp
  next
    case False
    have step: "option_deltas st pending deltas (nc # opt) =
        (if budget st ! c - pending ! c < 1 then None
         else option_deltas st (pending[c := pending ! c + 1]) (deltas @ [(net, c)]) opt)"
    proof (cases "map_of (net_classes st) net")
      case None
      then show ?thesis by simp
    next
      case (Some cs)
      then have "c \<notin> cs" using False by (auto simp: pinned_def)
      moreover have "card cs < 2"
        using other_class_free [OF \<open>c \<notin> cs\<close> c2] iib_ok_classes [OF assms(1) Some] by simp
      ultimately show ?thesis using Some by simp
    qed
    show ?thesis
    proof (cases "budget st ! c - pending ! c < 1")
      case True
      then have "\<not> pending ! c + int (of_class c (new_pins st (nc # opt))) \<le> budget st ! c"
        using False by simp
      with c2 step True show ?thesis by (simp only: if_True) auto
    next
      case ge: False
      have "\<forall>c' < 2. (pending[c := pending ! c + 1]) ! c' \<le> budget st ! c'"
        using Cons.prems ge c2 by (auto simp: nth_list_update)
      note ih = Cons.IH [OF opt len this]
      have "(\<forall>c' < 2. (pending[c := pending ! c + 1]) ! c' + int (of_class c' (new_pins st opt)) \<le> budget st ! c')
        \<longleftrightarrow> (\<forall>c' < 2. pending ! c' + int (of_class c' (new_pins st (nc # opt))) \<le> budget st ! c')"
        using False c2 Cons.prems(2) by (auto simp: nth_list_update algebra_simps)
      with ge False step ih show ?thesis by simp
    qed
  qed
qed

section \<open>Taking and undoing an option\<close>

lemma hold_pin_assign [simp]: "assign (hold_pin st nc) = assign st"
  by (cases nc) (simp add: hold_pin_def)

lemma holds_assign [simp]: "assign (foldl hold_pin st ncs) = assign st"
  by (induction ncs arbitrary: st) auto

lemma hold_pin_budget: "budget (hold_pin st (net, c)) = (budget st)[c := budget st ! c - 1]"
  by (simp add: hold_pin_def)

lemma pinned_hold:
  "pinned (hold_pin st (net, c)) c' = (if c' = c then insert net (pinned st c') else pinned st c')"
  by (auto simp: pinned_def hold_pin_def update_conv' split: option.splits if_splits)

lemma hold_pin_ok:
  assumes "iib_ok pb st" and "c < 2" and "net \<notin> pinned st c" and "1 \<le> budget st ! c"
  shows "iib_ok pb (hold_pin st (net, c))"
proof -
  let ?st = "hold_pin st (net, c)"
  have cards: "card (pinned ?st c') = (if c' = c then Suc (card (pinned st c')) else card (pinned st c'))" for c'
    using assms(3) by (simp add: pinned_hold)
  have d: "distinct (map fst (net_classes ?st))"
    using assms(1) by (simp add: hold_pin_def iib_ok_def distinct_update)
  moreover have "cs \<noteq> {} \<and> cs \<subseteq> {0, 1}" if "(n, cs) \<in> set (net_classes ?st)" for n cs
  proof -
    from that d have "map_of (net_classes ?st) n = Some cs" by simp
    then show ?thesis
      using assms(2) iib_ok_classes [OF assms(1)]
      by (auto simp: hold_pin_def update_conv' less_2 split: if_splits option.splits)
  qed
  moreover have "budget ?st = [int pb - int (card (pinned ?st 0)), int pb - int (card (pinned ?st 1))]"
    using assms(1,2) by (auto simp: cards less_2 iib_ok_def hold_pin_budget)
  moreover have "card (pinned ?st 0) \<le> pb" "card (pinned ?st 1) \<le> pb"
    using assms(1,2,4) by (auto simp: cards less_2 iib_ok_def)
  ultimately show ?thesis by (auto simp: iib_ok_def)
qed

lemma of_class_new_distinct:
  "distinct (map fst ncs) \<Longrightarrow> of_class c ncs = card {net. (net, c) \<in> set ncs}"
proof (induction ncs)
  case Nil
  then show ?case by simp
next
  case (Cons nc ncs)
  obtain net c' where [simp]: "nc = (net, c')" by (cases nc)
  have "finite {net. (net, c) \<in> set ncs}"
    by (rule finite_subset [of _ "fst ` set ncs"]) (auto intro: rev_image_eqI)
  moreover have "{n. (n, c) \<in> set (nc # ncs)} = (if c' = c then insert net {n. (n, c) \<in> set ncs} else {n. (n, c) \<in> set ncs})"
    by auto
  moreover have "(net, c) \<notin> set ncs" using Cons.prems by (auto intro: rev_image_eqI)
  ultimately show ?case using Cons by simp
qed

text \<open>Holding a list of new pins.\<close>

definition holdable :: "iib_state \<Rightarrow> (string \<times> nat) list \<Rightarrow> bool" where
  "holdable st ncs \<longleftrightarrow> distinct (map fst ncs)
     \<and> (\<forall>(net, c) \<in> set ncs. c < 2 \<and> net \<notin> pinned st c)
     \<and> (\<forall>c < 2. int (of_class c ncs) \<le> budget st ! c)"

lemma holdable_Cons:
  assumes "holdable st ((net, c) # ncs)" and "iib_ok pb st"
  shows "c < 2 \<and> net \<notin> pinned st c \<and> 1 \<le> budget st ! c \<and> holdable (hold_pin st (net, c)) ncs"
proof -
  from assms(1) have c: "c < 2" "net \<notin> pinned st c" by (auto simp: holdable_def)
  moreover have "int (Suc (of_class c ncs)) \<le> budget st ! c"
    using assms(1) c(1) by (auto simp: holdable_def)
  moreover have "budget (hold_pin st (net, c)) = (budget st)[c := budget st ! c - 1]"
    by (simp add: hold_pin_def)
  moreover have "(\<forall>c' < 2. int (of_class c' ncs) \<le> ((budget st)[c := budget st ! c - 1]) ! c')"
    using assms(1) c(1) iib_ok_length [OF assms(2)]
    by (auto simp: holdable_def nth_list_update split: if_splits)
  moreover have "\<forall>(n, c') \<in> set ncs. c' < 2 \<and> n \<notin> pinned (hold_pin st (net, c)) c'"
    using assms(1) by (auto simp: holdable_def pinned_hold intro: rev_image_eqI)
  ultimately show ?thesis using assms(1) by (auto simp: holdable_def)
qed

lemma holds_ok:
  "iib_ok pb st \<Longrightarrow> holdable st ncs \<Longrightarrow>
     iib_ok pb (foldl hold_pin st ncs)
     \<and> pinned (foldl hold_pin st ncs) c = pinned st c \<union> {net. (net, c) \<in> set ncs}"
proof (induction ncs arbitrary: st)
  case Nil
  then show ?case by simp
next
  case (Cons nc ncs)
  obtain net c' where [simp]: "nc = (net, c')" by (cases nc)
  from holdable_Cons [of st net c' ncs pb] Cons.prems
  have n: "c' < 2" "net \<notin> pinned st c'" "1 \<le> budget st ! c'" and h: "holdable (hold_pin st (net, c')) ncs"
    by auto
  from hold_pin_ok [OF Cons.prems(1) n] Cons.IH [OF _ h] show ?case
    by (auto simp: pinned_hold)
qed

lemma delete_update_new: "k \<notin> fst ` set al \<Longrightarrow> AList.delete k (AList.update k v al) = al"
  by (induction al) auto

lemma release_hold:
  assumes "iib_ok pb st" and "c < 2" and "net \<notin> pinned st c"
  shows "release_pins ((net, c) # ds) (hold_pin st (net, c)\<lparr>assign := a\<rparr>) = release_pins ds (st\<lparr>assign := a\<rparr>)"
proof (cases "map_of (net_classes st) net")
  case None
  then have "net \<notin> fst ` set (net_classes st)" by (simp add: map_of_eq_None_iff)
  then have "AList.delete net (AList.update net {c} (net_classes st)) = net_classes st"
    by (rule delete_update_new)
  with None assms(2) iib_ok_length [OF assms(1)] show ?thesis
    by (simp add: hold_pin_def update_conv')
next
  case (Some cs)
  then have "c \<notin> cs" using assms(3) by (auto simp: pinned_def)
  then have "insert c cs - {c} = cs" by auto
  moreover have "cs \<noteq> {}" using iib_ok_classes [OF assms(1) Some] by simp
  moreover have "AList.update net cs (net_classes st) = net_classes st" using Some by (rule update_triv)
  ultimately show ?thesis using Some assms(2) iib_ok_length [OF assms(1)]
    by (simp add: hold_pin_def update_conv')
qed

lemma release_holds:
  "iib_ok pb st \<Longrightarrow> holdable st ncs \<Longrightarrow>
     release_pins (rev ncs @ ds) (foldl hold_pin st ncs\<lparr>assign := a\<rparr>) = release_pins ds (st\<lparr>assign := a\<rparr>)"
proof (induction ncs arbitrary: st ds)
  case Nil
  then show ?case by simp
next
  case (Cons nc ncs)
  obtain net c where [simp]: "nc = (net, c)" by (cases nc)
  from holdable_Cons [of st net c ncs pb] Cons.prems
  have n: "c < 2" "net \<notin> pinned st c" "1 \<le> budget st ! c" and h: "holdable (hold_pin st (net, c)) ncs"
    by auto
  from Cons.IH [OF hold_pin_ok [OF Cons.prems(1) n] h, of "(net, c) # ds"]
  show ?case by (simp only: \<open>nc = (net, c)\<close> rev.simps append_assoc append.simps foldl.simps
      release_hold [OF Cons.prems(1) n(1,2)])
qed

lemma pinned_assign [simp]: "pinned (st\<lparr>assign := a\<rparr>) c = pinned st c"
  by (simp add: pinned_def)

lemma iib_ok_assign [simp]: "iib_ok pb (st\<lparr>assign := a\<rparr>) = iib_ok pb st"
  by (simp add: iib_ok_def)

definition record_option :: "nat \<Rightarrow> (string \<times> nat) list \<Rightarrow> (nat \<times> string \<rightharpoonup> nat) \<Rightarrow> (nat \<times> string \<rightharpoonup> nat)" where
  "record_option gi opt a = foldl (\<lambda>a (net, c). a((gi, net) \<mapsto> c)) a opt"

lemma record_option_simps:
  "record_option gi [] a = a"
  "record_option gi ((net, c) # opt) a = record_option gi opt (a((gi, net) := Some c))"
  by (simp_all only: record_option_def foldl.simps prod.case)

lemma record_option_other: "(\<And>c. gi' = gi \<Longrightarrow> net \<notin> fst ` set opt) \<Longrightarrow> record_option gi opt a (gi', net) = a (gi', net)"
  by (induction opt arbitrary: a) (auto simp: record_option_def)

lemma record_option_upd:
  "net \<notin> fst ` set opt \<Longrightarrow> record_option gi opt (a((gi, net) := v)) = (record_option gi opt a)((gi, net) := v)"
proof (induction opt arbitrary: a)
  case Nil
  then show ?case by (simp add: record_option_def)
next
  case (Cons nc opt)
  obtain n c where [simp]: "nc = (n, c)" by (cases nc)
  from Cons.prems have "(gi, net) \<noteq> (gi, n)" "net \<notin> fst ` set opt" by auto
  then have "a((gi, net) := v, (gi, n) := Some c) = a((gi, n) := Some c, (gi, net) := v)" by (metis fun_upd_twist)
  then show ?case
    by (simp only: \<open>nc = (n, c)\<close> record_option_simps Cons.IH [OF \<open>net \<notin> fst ` set opt\<close>])
qed

lemma forget_record:
  "distinct (map fst opt) \<Longrightarrow> \<forall>net \<in> fst ` set opt. a (gi, net) = None
    \<Longrightarrow> forget_assign gi opt (record_option gi opt a) = Inr a"
proof (induction opt arbitrary: a)
  case Nil
  then show ?case by (simp add: record_option_def)
next
  case (Cons nc opt)
  obtain net c where [simp]: "nc = (net, c)" by (cases nc)
  from Cons.prems have new: "net \<notin> fst ` set opt" by simp
  have eq: "record_option gi (nc # opt) a = (record_option gi opt a)((gi, net) := Some c)"
    by (simp only: \<open>nc = (net, c)\<close> record_option_simps record_option_upd [OF new])
  have "a (gi, net) = None" using Cons.prems by simp
  then have "a((gi, net) := None) = a" by (rule fun_upd_idem)
  with record_option_upd [OF new, of gi a None]
  have undone: "(record_option gi opt a)((gi, net) := None) = record_option gi opt a" by (simp only:)
  have "forget_assign gi (nc # opt) (record_option gi (nc # opt) a)
      = forget_assign gi opt ((record_option gi opt a)((gi, net) := None))"
    unfolding eq
    by (simp only: \<open>nc = (net, c)\<close> forget_assign.simps fun_upd_same option.distinct if_False fun_upd_upd)
  also have "\<dots> = Inr a"
    unfolding undone using Cons.prems by (intro Cons.IH) simp_all
  finally show ?case .
qed

lemma undo_take:
  assumes "iib_ok pb st" and "holdable st deltas" and "distinct (map fst opt)"
    and "\<forall>net \<in> fst ` set opt. assign st (gi, net) = None"
  shows "undo_option gi opt deltas (take_option gi opt deltas st) = Inr st"
  using forget_record [OF assms(3,4)] release_holds [OF assms(1,2), of "[]" "assign st"]
  by (simp add: undo_option_def take_option_def Let_def record_option_def)

section \<open>The options of a LUT\<close>

lemma class_options_iff:
  "n0 \<le> slots \<Longrightarrow> n1 \<le> slots \<Longrightarrow>
   opt \<in> set (class_options slots n0 n1 nets) \<longleftrightarrow>
     map fst opt = nets \<and> (\<forall>(net, c) \<in> set opt. c < 2)
     \<and> n0 + of_class 0 opt \<le> slots \<and> n1 + of_class 1 opt \<le> slots"
proof (induction nets arbitrary: n0 n1 opt)
  case Nil
  then show ?case by auto
next
  case (Cons net nets)
  show ?case
  proof (cases opt)
    case Nil
    then show ?thesis by (auto split: if_splits)
  next
    case (Cons nc opt')
    obtain n c where [simp]: "nc = (n, c)" by (cases nc)
    have "opt \<in> set (class_options slots n0 n1 (net # nets)) \<longleftrightarrow>
        n = net \<and> (c = 0 \<and> n0 < slots \<and> opt' \<in> set (class_options slots (Suc n0) n1 nets)
                  \<or> c = 1 \<and> n1 < slots \<and> opt' \<in> set (class_options slots n0 (Suc n1) nets))"
      using Cons by auto
    also have "\<dots> \<longleftrightarrow> n = net \<and>
        (c = 0 \<and> n0 < slots \<and> map fst opt' = nets \<and> (\<forall>(net, c) \<in> set opt'. c < 2)
           \<and> Suc n0 + of_class 0 opt' \<le> slots \<and> n1 + of_class 1 opt' \<le> slots
         \<or> c = 1 \<and> n1 < slots \<and> map fst opt' = nets \<and> (\<forall>(net, c) \<in> set opt'. c < 2)
           \<and> n0 + of_class 0 opt' \<le> slots \<and> Suc n1 + of_class 1 opt' \<le> slots)"
      using Cons.prems Cons.IH [of "Suc n0" n1] Cons.IH [of n0 "Suc n1"] by (simp add: Suc_le_eq cong: conj_cong)
    also have "\<dots> \<longleftrightarrow> map fst opt = net # nets \<and> (\<forall>(net, c) \<in> set opt. c < 2)
        \<and> n0 + of_class 0 opt \<le> slots \<and> n1 + of_class 1 opt \<le> slots"
      using Cons by (auto simp: less_2)
    finally show ?thesis .
  qed
qed

lemma iib_class_options_iff:
  "opt \<in> set (iib_class_options nets slots) \<longleftrightarrow>
     map fst opt = nets \<and> (\<forall>(net, c) \<in> set opt. c < 2) \<and> (\<forall>c < 2. of_class c opt \<le> slots)"
  by (auto simp: iib_class_options_def class_options_iff less_2)

section \<open>The search is exact\<close>

definition fresh :: "(nat \<times> string list) list \<Rightarrow> iib_state \<Rightarrow> bool" where
  "fresh luts st \<longleftrightarrow> (\<forall>gi \<in> fst ` set luts. \<forall>net. assign st (gi, net) = None)"

definition solved :: "nat \<Rightarrow> nat \<Rightarrow> (nat \<times> string list) list \<Rightarrow> iib_state \<Rightarrow> iib_state \<Rightarrow> bool" where
  "solved pb slots luts st st' \<longleftrightarrow> iib_ok pb st' \<and>
     (\<exists>cls. slots_ok slots luts cls \<and> (\<forall>c < 2. pinned st' c = pinned st c \<union> class_nets luts cls c)
        \<and> assign st' = assign st ++ chosen luts cls)"

definition extendable :: "nat \<Rightarrow> nat \<Rightarrow> (nat \<times> string list) list \<Rightarrow> (nat \<Rightarrow> string set) \<Rightarrow> bool" where
  "extendable pb slots luts P \<longleftrightarrow>
     (\<exists>cls. slots_ok slots luts cls \<and> (\<forall>c < 2. card (P c \<union> class_nets luts cls c) \<le> pb))"

text \<open>The outcome of an exact search: a solution, or none and the state as it was.\<close>

definition exact :: "nat \<Rightarrow> nat \<Rightarrow> (nat \<times> string list) list \<Rightarrow> iib_state \<Rightarrow> bitgen_err + bool \<times> iib_state \<Rightarrow> bool" where
  "exact pb slots luts st r \<longleftrightarrow>
     (\<exists>st'. r = Inr (True, st') \<and> solved pb slots luts st st')
     \<or> r = Inr (False, st) \<and> \<not> extendable pb slots luts (pinned st)"

definition opt_nets :: "(string \<times> nat) list \<Rightarrow> nat \<Rightarrow> string set" where
  "opt_nets opt c = {net. (net, c) \<in> set opt}"

definition is_option :: "nat \<Rightarrow> string list \<Rightarrow> (string \<times> nat) list \<Rightarrow> bool" where
  "is_option slots nets opt \<longleftrightarrow>
     map fst opt = nets \<and> (\<forall>(net, c) \<in> set opt. c < 2) \<and> (\<forall>c < 2. of_class c opt \<le> slots)"

lemma options_are: "opt \<in> set (iib_class_options nets slots) \<longleftrightarrow> is_option slots nets opt"
  unfolding is_option_def by (rule iib_class_options_iff)

lemma finite_opt_nets [simp]: "finite (opt_nets opt c)"
  by (rule finite_subset [of _ "fst ` set opt"]) (auto simp: opt_nets_def intro: rev_image_eqI)

lemma opt_nets_new: "pinned st c \<union> opt_nets (new_pins st opt) c = pinned st c \<union> opt_nets opt c"
  by (auto simp: opt_nets_def new_pins_def)

lemma distinct_new_pins: "distinct (map fst opt) \<Longrightarrow> distinct (map fst (new_pins st opt))"
  by (simp add: new_pins_def distinct_map_filter)

lemma of_class_new:
  assumes "distinct (map fst opt)"
  shows "card (pinned st c \<union> opt_nets opt c) = card (pinned st c) + of_class c (new_pins st opt)"
proof -
  have "of_class c (new_pins st opt) = card (opt_nets (new_pins st opt) c)"
    using of_class_new_distinct [OF distinct_new_pins [OF assms]] by (simp add: opt_nets_def)
  moreover have "pinned st c \<inter> opt_nets (new_pins st opt) c = {}"
    by (auto simp: opt_nets_def new_pins_def)
  moreover have "pinned st c \<union> opt_nets opt c = pinned st c \<union> opt_nets (new_pins st opt) c"
    by (rule opt_nets_new [symmetric])
  ultimately show ?thesis by (simp only: card_Un_disjoint [OF finite_pinned finite_opt_nets])
qed

text \<open>One option either fits the budgets, and is held, or exceeds one.\<close>

lemma option_deltas_exact:
  assumes "iib_ok pb st" and "is_option slots nets opt" and "distinct nets"
  shows "(\<exists>deltas. option_deltas st [0, 0] [] opt = Some deltas \<and> deltas = new_pins st opt \<and> holdable st deltas)
    \<or> option_deltas st [0, 0] [] opt = None \<and> (\<exists>c < 2. pb < card (pinned st c \<union> opt_nets opt c))"
proof -
  have opt: "\<forall>(net, c) \<in> set opt. c < 2" and d: "distinct (map fst opt)"
    using assms by (auto simp: is_option_def)
  have zero: "\<forall>c < 2. [0, 0::int] ! c = 0" by (auto simp: less_2)
  have b: "budget st ! c = int pb - int (card (pinned st c))" "card (pinned st c) \<le> pb" if "c < 2" for c
    using iib_ok_budget [OF assms(1) that] by auto
  have fits: "option_deltas st [0, 0] [] opt =
      (if \<forall>c < 2. [0, 0] ! c + int (of_class c (new_pins st opt)) \<le> budget st ! c
       then Some ([] @ new_pins st opt) else None)"
    by (rule option_deltas_eq [OF assms(1) opt]) (use zero b in auto)
  show ?thesis
  proof (cases "\<forall>c < 2. int (of_class c (new_pins st opt)) \<le> budget st ! c")
    case True
    then have "holdable st (new_pins st opt)"
      using opt distinct_new_pins [OF d] by (auto simp: holdable_def new_pins_def)
    with True fits zero show ?thesis by simp
  next
    case False
    then obtain c where c: "c < 2" "\<not> int (of_class c (new_pins st opt)) \<le> budget st ! c" by blast
    then have "pb < card (pinned st c \<union> opt_nets opt c)" using b [OF c(1)] of_class_new [OF d] by simp
    with c(1) False fits zero show ?thesis by auto
  qed
qed

lemma take_option_ok:
  assumes "iib_ok pb st" and "holdable st deltas" and "deltas = new_pins st opt"
  shows "iib_ok pb (take_option gi opt deltas st)"
    and "pinned (take_option gi opt deltas st) c = pinned st c \<union> opt_nets opt c"
    and "assign (take_option gi opt deltas st) = record_option gi opt (assign st)"
  using holds_ok [OF assms(1,2)] assms(3) opt_nets_new [of st c opt]
  by (simp_all add: take_option_def Let_def record_option_def opt_nets_def)

text \<open>A choice for a tile is an option of its first LUT with a choice for the others.\<close>

lemma slots_ok_Cons:
  "slots_ok slots ((gi, nets) # luts) cls \<longleftrightarrow>
     (\<forall>net \<in> set nets. cls gi net < 2) \<and> (\<forall>c < 2. card {net \<in> set nets. cls gi net = c} \<le> slots)
     \<and> slots_ok slots luts cls"
  by (simp add: slots_ok_def)

lemma class_nets_Cons:
  "class_nets ((gi, nets) # luts) cls c = {net \<in> set nets. cls gi net = c} \<union> class_nets luts cls c"
  by (auto simp: class_nets_def)

lemma slots_ok_cong:
  assumes "\<And>g. g \<in> fst ` set luts \<Longrightarrow> cls g = cls' g"
  shows "slots_ok slots luts cls = slots_ok slots luts cls'"
  unfolding slots_ok_def
proof (intro ball_cong refl)
  fix l assume "l \<in> set luts"
  then have "cls (fst l) = cls' (fst l)" by (intro assms) simp
  then show "(case l of (gi, nets) \<Rightarrow> (\<forall>net \<in> set nets. cls gi net < 2) \<and> (\<forall>c < 2. card {net \<in> set nets. cls gi net = c} \<le> slots))
    = (case l of (gi, nets) \<Rightarrow> (\<forall>net \<in> set nets. cls' gi net < 2) \<and> (\<forall>c < 2. card {net \<in> set nets. cls' gi net = c} \<le> slots))"
    by (cases l) simp
qed

lemma class_nets_cong:
  assumes "\<And>g. g \<in> fst ` set luts \<Longrightarrow> cls g = cls' g"
  shows "class_nets luts cls c = class_nets luts cls' c"
proof -
  have "(g, nets) \<in> set luts \<Longrightarrow> cls g = cls' g" for g nets
    by (rule assms) (auto intro: rev_image_eqI)
  then show ?thesis by (auto simp: class_nets_def) metis+
qed

lemma opt_nets_map: "opt_nets (map (\<lambda>n. (n, f n)) nets) c = {net \<in> set nets. f net = c}"
  by (auto simp: opt_nets_def)

lemma card_opt_nets: "distinct (map fst opt) \<Longrightarrow> card (opt_nets opt c) = of_class c opt"
  using of_class_new_distinct [of opt c] by (simp add: opt_nets_def)

lemma choice_split:
  assumes "slots_ok slots ((gi, nets) # luts) cls" and "distinct nets"
  defines "opt \<equiv> map (\<lambda>n. (n, cls gi n)) nets"
  shows "is_option slots nets opt" and "slots_ok slots luts cls"
    and "class_nets ((gi, nets) # luts) cls c = opt_nets opt c \<union> class_nets luts cls c"
proof -
  have m: "map fst opt = nets" by (simp add: opt_def comp_def)
  have "of_class c opt = card {net \<in> set nets. cls gi net = c}" for c
    using card_opt_nets [of opt c] assms(2) by (simp add: m) (simp add: opt_def opt_nets_map)
  with m assms(1) show "is_option slots nets opt" by (auto simp: is_option_def slots_ok_Cons opt_def)
  show "slots_ok slots luts cls" using assms(1) by (simp add: slots_ok_Cons)
  show "class_nets ((gi, nets) # luts) cls c = opt_nets opt c \<union> class_nets luts cls c"
    by (simp add: class_nets_Cons opt_def opt_nets_map)
qed

definition with_option :: "nat \<Rightarrow> (string \<times> nat) list \<Rightarrow> choice \<Rightarrow> choice" where
  "with_option gi opt cls = cls(gi := \<lambda>net. case map_of opt net of None \<Rightarrow> 0 | Some c \<Rightarrow> c)"

lemma with_option_nets:
  assumes "is_option slots nets opt" and "distinct nets"
  shows "{net \<in> set nets. with_option gi opt cls gi net = c} = opt_nets opt c"
    and "net \<in> set nets \<Longrightarrow> map_of opt net = Some (with_option gi opt cls gi net)"
proof -
  have m: "map fst opt = nets" and d: "distinct (map fst opt)" using assms by (auto simp: is_option_def)
  then have nets: "set nets = fst ` set opt" by (metis set_map)
  have some: "map_of opt net = Some (with_option gi opt cls gi net)" if "net \<in> set nets" for net
  proof -
    from that obtain c where "map_of opt net = Some c" unfolding nets by (metis map_of_eq_None_iff not_None_eq)
    then show ?thesis by (simp add: with_option_def)
  qed
  then show "net \<in> set nets \<Longrightarrow> map_of opt net = Some (with_option gi opt cls gi net)" .
  show "{net \<in> set nets. with_option gi opt cls gi net = c} = opt_nets opt c"
  proof (rule set_eqI)
    fix net
    have "(net, c) \<in> set opt \<longleftrightarrow> map_of opt net = Some c" using d by simp
    moreover have "(net, c) \<in> set opt \<Longrightarrow> net \<in> set nets" using nets by (auto intro: rev_image_eqI)
    ultimately show "net \<in> {net \<in> set nets. with_option gi opt cls gi net = c} \<longleftrightarrow> net \<in> opt_nets opt c"
      using some [of net] by (auto simp: opt_nets_def)
  qed
qed

lemma record_option_lookup:
  "distinct (map fst opt) \<Longrightarrow>
     record_option gi opt a (gi', net) = (if gi' = gi \<and> net \<in> fst ` set opt then map_of opt net else a (gi', net))"
proof (induction opt arbitrary: a)
  case Nil
  then show ?case by (simp add: record_option_simps)
next
  case (Cons nc opt)
  obtain n c where [simp]: "nc = (n, c)" by (cases nc)
  from Cons show ?case by (auto simp: record_option_simps)
qed

lemma choice_join:
  assumes "gi \<notin> fst ` set luts" and "is_option slots nets opt" and "distinct nets" and "slots_ok slots luts cls"
  defines "cls' \<equiv> with_option gi opt cls"
  shows "slots_ok slots ((gi, nets) # luts) cls'"
    and "class_nets ((gi, nets) # luts) cls' c = opt_nets opt c \<union> class_nets luts cls c"
    and "record_option gi opt a ++ chosen luts cls = a ++ chosen ((gi, nets) # luts) cls'"
proof -
  have m: "map fst opt = nets" and d: "distinct (map fst opt)" using assms(2,3) by (auto simp: is_option_def)
  have other: "g \<in> fst ` set luts \<Longrightarrow> cls' g = cls g" for g
    using assms(1) by (auto simp: cls'_def with_option_def)
  note here = with_option_nets [OF assms(2,3), where gi = gi and cls = cls, folded cls'_def]
  have "cls' gi net < 2" if "net \<in> set nets" for net
    using here(2) [OF that] assms(2) by (auto simp: is_option_def dest!: map_of_SomeD)
  moreover have "card {net \<in> set nets. cls' gi net = c} \<le> slots" if "c < 2" for c
    using that assms(2) card_opt_nets [OF d] by (simp add: here is_option_def)
  ultimately show "slots_ok slots ((gi, nets) # luts) cls'"
    using slots_ok_cong [OF other] assms(4) by (simp add: slots_ok_Cons)
  show "class_nets ((gi, nets) # luts) cls' c = opt_nets opt c \<union> class_nets luts cls c"
    using class_nets_cong [OF other] by (simp add: class_nets_Cons here)
  show "record_option gi opt a ++ chosen luts cls = a ++ chosen ((gi, nets) # luts) cls'"
  proof (rule ext, clarify)
    fix g net
    have look: "record_option gi opt a (g, net) = (if g = gi \<and> net \<in> set nets then map_of opt net else a (g, net))"
      using record_option_lookup [OF d] m by (metis set_map)
    show "(record_option gi opt a ++ chosen luts cls) (g, net) = (a ++ chosen ((gi, nets) # luts) cls') (g, net)"
    proof (cases "g = gi")
      case True
      have "chosen luts cls (g, net) = None"
        using assms(1) True by (auto simp: chosen_def intro: rev_image_eqI)
      moreover have "chosen ((gi, nets) # luts) cls' (g, net) = (if net \<in> set nets then Some (cls' gi net) else None)"
        using assms(1) True by (auto simp: chosen_def intro: rev_image_eqI)
      ultimately show ?thesis using True look here(2) [of net] by (simp add: map_add_def)
    next
      case False
      have "chosen ((gi, nets) # luts) cls' (g, net) = chosen luts cls (g, net)"
      proof -
        have "(g, nets) \<in> set luts \<Longrightarrow> cls' g = cls g" for nets by (rule other) (auto intro: rev_image_eqI)
        with False show ?thesis by (auto simp: chosen_def)
      qed
      with False look show ?thesis by (simp add: map_add_def split: option.split)
    qed
  qed
qed

text \<open>The loop over the options, above an exact search of the other LUTs.\<close>

lemma try_options_exact:
  assumes search: "\<And>st. iib_ok pb st \<Longrightarrow> fresh luts st \<Longrightarrow> exact pb slots luts st (next_lut st)"
    and gi: "gi \<notin> fst ` set luts" and nets: "distinct nets"
    and st: "iib_ok pb st" "fresh ((gi, nets) # luts) st"
    and opts: "\<forall>opt \<in> set opts. is_option slots nets opt"
  shows "(\<exists>st'. try_options next_lut gi opts st = Inr (True, st') \<and> solved pb slots ((gi, nets) # luts) st st')
    \<or> try_options next_lut gi opts st = Inr (False, st)
      \<and> (\<forall>opt \<in> set opts. \<not> extendable pb slots luts (\<lambda>c. pinned st c \<union> opt_nets opt c))"
  using opts
proof (induction opts)
  case Nil
  then show ?case by simp
next
  case (Cons opt opts)
  let ?r = "try_options next_lut gi (opt # opts) st"
  from Cons.prems have opt: "is_option slots nets opt" by simp
  then have d: "distinct (map fst opt)" using nets by (simp add: is_option_def)
  have "\<forall>opt \<in> set opts. is_option slots nets opt" using Cons.prems by simp
  note ih = Cons.IH [OF this]
  from option_deltas_exact [OF st(1) opt nets] show ?case
  proof (elim disjE exE conjE)
    fix deltas assume o: "option_deltas st [0, 0] [] opt = Some deltas"
      and new: "deltas = new_pins st opt" and h: "holdable st deltas"
    let ?st = "take_option gi opt deltas st"
    note took = take_option_ok [OF st(1) h new, of gi]
    have free: "\<forall>net \<in> fst ` set opt. assign st (gi, net) = None" using st(2) by (simp add: fresh_def)
    have "fresh luts ?st"
      unfolding fresh_def took(3)
    proof (intro ballI allI)
      fix g net assume g: "g \<in> fst ` set luts"
      with gi have "g \<noteq> gi" by blast
      then have "record_option gi opt (assign st) (g, net) = assign st (g, net)" by (simp add: record_option_other)
      with g st(2) show "record_option gi opt (assign st) (g, net) = None" by (auto simp: fresh_def)
    qed
    from search [OF took(1) this] consider
        (found) st' where "next_lut ?st = Inr (True, st')" "solved pb slots luts ?st st'"
      | (none) "next_lut ?st = Inr (False, ?st)" "\<not> extendable pb slots luts (pinned ?st)"
      unfolding exact_def by blast
    then show ?thesis
    proof cases
      case found
      then obtain cls where cls: "slots_ok slots luts cls" "iib_ok pb st'"
          "\<forall>c < 2. pinned st' c = pinned ?st c \<union> class_nets luts cls c" "assign st' = assign ?st ++ chosen luts cls"
        by (auto simp: solved_def)
      note join = choice_join [OF gi opt nets cls(1)]
      have "solved pb slots ((gi, nets) # luts) st st'"
        unfolding solved_def
      proof (intro conjI exI)
        show "iib_ok pb st'" by (rule cls(2))
        show "slots_ok slots ((gi, nets) # luts) (with_option gi opt cls)" by (rule join(1))
        show "\<forall>c < 2. pinned st' c = pinned st c \<union> class_nets ((gi, nets) # luts) (with_option gi opt cls) c"
          using cls(3) by (simp add: took(2) join(2) Un_assoc)
        show "assign st' = assign st ++ chosen ((gi, nets) # luts) (with_option gi opt cls)"
          by (simp only: cls(4) took(3) join(3))
      qed
      moreover have "?r = Inr (True, st')" using o found(1) by simp
      ultimately show ?thesis by blast
    next
      case none
      have "undo_option gi opt deltas ?st = Inr st" by (rule undo_take [OF st(1) h d free])
      then have "?r = try_options next_lut gi opts st" using o none(1) by simp
      moreover have "\<not> extendable pb slots luts (\<lambda>c. pinned st c \<union> opt_nets opt c)"
        using none(2) by (simp add: extendable_def took(2))
      ultimately show ?thesis using ih by auto
    qed
  next
    fix c :: nat
    assume o: "option_deltas st [0, 0] [] opt = None" and c: "c < 2" "pb < card (pinned st c \<union> opt_nets opt c)"
    have "card (pinned st c \<union> opt_nets opt c) \<le> card (pinned st c \<union> opt_nets opt c \<union> class_nets luts cls c)" for cls
      by (intro card_mono) auto
    with c have "\<not> extendable pb slots luts (\<lambda>c. pinned st c \<union> opt_nets opt c)"
      by (auto simp: extendable_def not_le intro: less_le_trans)
    moreover have "?r = try_options next_lut gi opts st" using o by simp
    ultimately show ?thesis using ih by auto
  qed
qed

lemma backtrack_exact:
  "lut_keys_ok luts \<Longrightarrow> iib_ok pb st \<Longrightarrow> fresh luts st \<Longrightarrow> exact pb slots luts st (backtrack slots luts st)"
proof (induction luts arbitrary: st)
  case Nil
  have "slots_ok slots [] cls" "class_nets [] cls c = {}" "chosen [] cls = Map.empty" for cls c
    by (auto simp: slots_ok_def class_nets_def chosen_def)
  with Nil.prems(2) show ?case by (simp add: exact_def solved_def)
next
  case (Cons l luts)
  obtain gi nets where [simp]: "l = (gi, nets)" by (cases l)
  from Cons.prems(1) have gi: "gi \<notin> fst ` set luts" and nets: "distinct nets" and luts: "lut_keys_ok luts"
    by (auto simp: lut_keys_ok_def)
  have "\<forall>opt \<in> set (iib_class_options nets slots). is_option slots nets opt"
    by (simp add: options_are)
  from try_options_exact [OF Cons.IH [OF luts] gi nets Cons.prems(2) Cons.prems(3) [unfolded \<open>l = (gi, nets)\<close>] this]
  consider (found) st' where "backtrack slots (l # luts) st = Inr (True, st')" "solved pb slots (l # luts) st st'"
    | (none) "backtrack slots (l # luts) st = Inr (False, st)"
      "\<forall>opt \<in> set (iib_class_options nets slots). \<not> extendable pb slots luts (\<lambda>c. pinned st c \<union> opt_nets opt c)"
    by auto
  then show ?case
  proof cases
    case none
    have "\<not> extendable pb slots (l # luts) (pinned st)"
    proof
      assume "extendable pb slots (l # luts) (pinned st)"
      then obtain cls where cls: "slots_ok slots ((gi, nets) # luts) cls"
          "\<forall>c < 2. card (pinned st c \<union> class_nets ((gi, nets) # luts) cls c) \<le> pb"
        by (auto simp: extendable_def)
      note split = choice_split [OF cls(1) nets]
      let ?opt = "map (\<lambda>n. (n, cls gi n)) nets"
      have "extendable pb slots luts (\<lambda>c. pinned st c \<union> opt_nets ?opt c)"
        unfolding extendable_def
        by (rule exI [of _ cls]) (use split(2) cls(2) in \<open>simp add: split(3) Un_assoc\<close>)
      moreover have "?opt \<in> set (iib_class_options nets slots)"
        using split(1) by (simp only: options_are)
      ultimately show False using none(2) by blast
    qed
    with none(1) show ?thesis by (simp add: exact_def)
  next
    case found
    then show ?thesis by (auto simp: exact_def)
  qed
qed

definition solution :: "nat \<Rightarrow> nat \<Rightarrow> (nat \<times> string list) list \<Rightarrow> choice \<Rightarrow> bool" where
  "solution pb slots luts cls \<longleftrightarrow> slots_ok slots luts cls \<and> (\<forall>c < 2. card (class_nets luts cls c) \<le> pb)"

definition classes_ok :: "(string \<times> nat set) list \<Rightarrow> bool" where
  "classes_ok ncs \<longleftrightarrow> distinct (map fst ncs) \<and> (\<forall>(net, cs) \<in> set ncs. cs \<noteq> {} \<and> cs \<subseteq> {0, 1})"

definition held :: "(string \<times> nat set) list \<Rightarrow> nat \<Rightarrow> string set" where
  "held ncs c = {net. \<exists>cs. map_of ncs net = Some cs \<and> c \<in> cs}"

lemma lut_keys_sort: "lut_keys_ok (sort_key f luts) = lut_keys_ok luts"
proof -
  have "mset (map fst (sort_key f luts)) = mset (map fst luts)" by simp
  then have "distinct (map fst (sort_key f luts)) = distinct (map fst luts)" by (rule mset_eq_imp_distinct_iff)
  then show ?thesis by (simp add: lut_keys_ok_def)
qed

lemma solution_sort: "solution pb slots (sort_key f luts) cls = solution pb slots luts cls"
  by (simp add: solution_def slots_ok_def class_nets_def)

lemma solve_cases:
  assumes "lut_keys_ok luts"
  obtains (none) "solve_iib_classes luts pb slots = Inr None" "\<nexists>cls. solution pb slots luts cls"
  | (some) cls ncs where "solve_iib_classes luts pb slots = Inr (Some (chosen luts cls, ncs))"
      "solution pb slots luts cls" "classes_ok ncs" "\<And>c. c < 2 \<Longrightarrow> held ncs c = class_nets luts cls c"
proof -
  let ?s = "sort_key (\<lambda>(gi, nets). (length nets, gi)) luts"
  let ?st = "\<lparr>net_classes = [], budget = [int pb, int pb], assign = Map.empty\<rparr>"
  have ok: "iib_ok pb ?st" "fresh ?s ?st" "pinned ?st = (\<lambda>c. {})"
    by (auto simp: iib_ok_def pinned_def fresh_def)
  from assms have "lut_keys_ok ?s" by (simp only: lut_keys_sort)
  from backtrack_exact [OF this ok(1,2), of slots]
  consider (f) st' where "backtrack slots ?s ?st = Inr (True, st')" "solved pb slots ?s ?st st'"
    | (n) "backtrack slots ?s ?st = Inr (False, ?st)" "\<not> extendable pb slots ?s (pinned ?st)"
    by (auto simp: exact_def)
  then show thesis
  proof cases
    case f
    then obtain cls where cls: "iib_ok pb st'" "slots_ok slots ?s cls" "\<forall>c < 2. pinned st' c = class_nets ?s cls c"
        "assign st' = chosen ?s cls"
      by (auto simp: solved_def ok(3))
    have "card (class_nets ?s cls c) \<le> pb" if "c < 2" for c
      using iib_ok_budget [OF cls(1) that] cls(3) that by simp
    with cls(2) have "solution pb slots ?s cls" by (simp add: solution_def)
    moreover have "classes_ok (net_classes st')" using cls(1) by (simp add: classes_ok_def iib_ok_def)
    moreover have "held (net_classes st') c = class_nets luts cls c" if "c < 2" for c
      using cls(3) that by (simp add: held_def pinned_def class_nets_def)
    moreover have "chosen ?s cls = chosen luts cls" by (simp add: chosen_def)
    ultimately show thesis
      using f(1) cls(4) some by (simp add: solve_iib_classes_def Let_def solution_sort)
  next
    case n
    then have "\<nexists>cls. solution pb slots ?s cls" by (simp add: extendable_def solution_def ok(3))
    with n(1) none show thesis by (simp add: solve_iib_classes_def Let_def solution_sort)
  qed
qed

section \<open>The cluster pins\<close>

definition nets_of_class :: "(string \<times> nat set) list \<Rightarrow> nat \<Rightarrow> string list" where
  "nets_of_class ncs c = sort (map fst (filter (\<lambda>(net, cs). c \<in> cs) ncs))"

lemma nets_of_class_props:
  assumes "classes_ok ncs"
  shows "distinct (nets_of_class ncs c)" and "set (nets_of_class ncs c) = held ncs c"
proof -
  from assms have d: "distinct (map fst ncs)" by (simp add: classes_ok_def)
  then show "distinct (nets_of_class ncs c)" by (simp add: nets_of_class_def distinct_map_filter)
  show "set (nets_of_class ncs c) = held ncs c"
    using d by (force simp: nets_of_class_def held_def dest: map_of_SomeD)
qed

definition class_pins :: "(string \<times> nat set) list \<Rightarrow> nat \<Rightarrow> ((string \<times> nat) \<times> nat) list" where
  "class_pins ncs c =
     map (\<lambda>i. ((nets_of_class ncs c ! i, c), c + 2 * i)) [0..<length (nets_of_class ncs c)]"

lemma map_enumerate: "map f (enumerate 0 xs) = map (\<lambda>i. f (i, xs ! i)) [0..<length xs]"
  by (rule nth_equalityI) (simp_all add: nth_enumerate_eq)

lemma pins_split: "iib_pins_of ncs = class_pins ncs 0 @ class_pins ncs 1"
  by (simp add: iib_pins_of_def class_pins_def map_enumerate flip: nets_of_class_def)

lemma pins_mem:
  "((net, c), pin) \<in> set (iib_pins_of ncs) \<longleftrightarrow>
     c < 2 \<and> (\<exists>i < length (nets_of_class ncs c). net = nets_of_class ncs c ! i \<and> pin = c + 2 * i)"
  by (auto simp: pins_split class_pins_def less_2)

lemma class_pins_keys: "map fst (class_pins ncs c) = map (\<lambda>net. (net, c)) (nets_of_class ncs c)"
  by (rule nth_equalityI) (simp_all add: class_pins_def)

lemma pins_keys: "classes_ok ncs \<Longrightarrow> distinct (map fst (iib_pins_of ncs))"
  by (auto simp: pins_split class_pins_keys distinct_map nets_of_class_props(1) intro!: inj_onI)

lemma pins_lookup:
  assumes "classes_ok ncs"
  shows "map_of (iib_pins_of ncs) (net, c) = Some pin \<longleftrightarrow>
     c < 2 \<and> (\<exists>i < length (nets_of_class ncs c). net = nets_of_class ncs c ! i \<and> pin = c + 2 * i)"
  using pins_keys [OF assms] by (simp add: pins_mem)

end
