(* ===== verification/Bitgen_Tt.thy ===== *)
theory Bitgen_Tt
  imports Bitgen_Db
begin

text \<open>
  Truth tables: the bits of a table built over a range, the function a BLIF cover denotes, and
  what the tables in logical and in physical pin order say about it.
\<close>

section \<open>Tables\<close>

lemma bit_two_power: "bit (2 ^ n :: int) k \<longleftrightarrow> k = n"
  using bit_single [of n k] by (simp add: push_bit_eq_mult)

lemma bit_set_where: "bit (set_where f n) p \<longleftrightarrow> p < n \<and> f p"
  by (induction n) (auto simp: set_where_def bit_or_iff bit_two_power less_Suc_eq)

lemma set_where_nonneg: "0 \<le> set_where f n"
  by (induction n) (simp_all add: set_where_def)

lemma set_where_eq_take: "take_bit n (set_where f n) = set_where f n"
  by (rule bit_eqI) (auto simp: bit_take_bit_iff bit_set_where)

lemma set_where_less: "set_where f n < 2 ^ n"
  using set_where_eq_take [of n f] by (metis take_bit_int_less_exp)

lemma set_where_cong: "(\<And>p. p < n \<Longrightarrow> f p = g p) \<Longrightarrow> set_where f n = set_where g n"
  by (rule bit_eqI) (auto simp: bit_set_where)

text \<open>The index that a logical valuation selects: position 0 is the most significant bit.\<close>

definition tt_index :: "nat \<Rightarrow> (nat \<Rightarrow> bool) \<Rightarrow> int" where
  "tt_index n lv = set_where (\<lambda>k. lv (n - 1 - k)) n"

lemma bit_tt_index: "bit (tt_index n lv) k \<longleftrightarrow> k < n \<and> lv (n - 1 - k)"
  by (simp add: tt_index_def bit_set_where)

lemma tt_index_nonneg [simp]: "0 \<le> tt_index n lv"
  by (simp add: tt_index_def set_where_nonneg)

lemma tt_index_nat: "nat (tt_index n lv) < 2 ^ n"
  using set_where_less [of "\<lambda>k. lv (n - 1 - k)" n]
  by (simp add: tt_index_def nat_less_iff set_where_nonneg)

lemma int_tt_index: "int (nat (tt_index n lv)) = tt_index n lv"
  by (simp add: tt_index_def set_where_nonneg)

section \<open>Covers\<close>

text \<open>The reference: a cover holds of a valuation of the nets when some cube with the value 1
  has every \<open>0\<close> and \<open>1\<close> in place.\<close>

definition cube_holds :: "string list \<Rightarrow> (string \<Rightarrow> bool) \<Rightarrow> string \<Rightarrow> bool" where
  "cube_holds il v spec \<longleftrightarrow>
     list_all (\<lambda>(net, ch). (ch = CHR ''0'' \<longrightarrow> \<not> v net) \<and> (ch = CHR ''1'' \<longrightarrow> v net)) (zip il spec)"

definition cover_holds :: "string list \<Rightarrow> (string \<times> int) list \<Rightarrow> (string \<Rightarrow> bool) \<Rightarrow> bool" where
  "cover_holds il cubes v \<longleftrightarrow> list_ex (\<lambda>(spec, val). val = 1 \<and> cube_holds il v spec) cubes"

lemma spec_matches_holds:
  assumes "\<And>k. k < length il \<Longrightarrow> a (il ! k) = Some (of_bool (v (il ! k)))"
    and "spec_matches il a k spec = Inr ok"
  shows "ok \<longleftrightarrow> cube_holds (drop k il) v spec"
  using assms(2)
proof (induction spec arbitrary: k)
  case Nil
  then show ?case by (simp add: cube_holds_def)
next
  case (Cons ch spec)
  show ?case
  proof (cases "k < length il")
    case True
    then have "drop k il = il ! k # drop (Suc k) il" by (simp add: Cons_nth_drop_Suc)
    with Cons.prems Cons.IH [of "Suc k"] assms(1) [OF True] True show ?thesis
      by (auto simp: cube_holds_def split: if_splits)
  next
    case False
    with Cons.prems have dash: "ch = CHR ''-''" "spec_matches il a (Suc k) spec = Inr ok"
      by (auto split: if_splits)
    from Cons.IH [OF this(2)] this False show ?thesis by (simp add: cube_holds_def)
  qed
qed

lemma cube_onset_holds:
  assumes "\<And>k. k < length il \<Longrightarrow> a (il ! k) = Some (of_bool (v (il ! k)))"
    and "cube_onset il cubes a = Inr on"
  shows "on \<longleftrightarrow> cover_holds il cubes v"
  using assms(2)
proof (induction cubes)
  case Nil
  then show ?case by (simp add: cover_holds_def)
next
  case (Cons cube cubes)
  obtain spec val where [simp]: "cube = (spec, val)" by (cases cube)
  show ?case
  proof (cases "val = 1")
    case False
    with Cons show ?thesis by (simp add: cover_holds_def)
  next
    case True
    with Cons.prems obtain ok where ok: "spec_matches il a 0 spec = Inr ok"
      and rest: "(if ok then Inr True else cube_onset il cubes a) = Inr on"
      by (auto simp: res_bind_Inr_iff)
    have "ok \<longleftrightarrow> cube_holds il v spec" using spec_matches_holds [OF assms(1) ok] by simp
    with True rest Cons.IH show ?thesis by (auto simp: cover_holds_def split: if_splits)
  qed
qed

lemma assignment_nth:
  assumes "distinct il" and "k < length il"
  shows "assignment il combo (il ! k) = Some (bit_at (int combo) (length il - 1 - k))"
proof -
  let ?ys = "map (\<lambda>k. bit_at (int combo) (length il - 1 - k)) [0..<length il]"
  have "distinct (map fst (rev (zip il ?ys)))" using assms(1) by (simp flip: rev_map)
  moreover have "(il ! k, ?ys ! k) \<in> set (rev (zip il ?ys))" using assms(2) by (auto simp: set_zip)
  ultimately have "map_of (rev (zip il ?ys)) (il ! k) = Some (?ys ! k)" by (rule map_of_is_SomeI)
  with assms(2) show ?thesis by (simp add: assignment_def Let_def)
qed

text \<open>The logical table read at the index of a valuation is the cover's value there.\<close>

lemma logical_tt_bit:
  assumes "blif_names_to_logical_tt il cubes = Inr tt" and "distinct il"
  shows "bit tt (nat (tt_index (length il) (\<lambda>k. v (il ! k)))) \<longleftrightarrow> cover_holds il cubes v"
proof -
  let ?n = "length il" and ?c = "nat (tt_index (length il) (\<lambda>k. v (il ! k)))"
  obtain bs where bs: "res_map (\<lambda>combo. cube_onset il cubes (assignment il combo)) [0..<2 ^ ?n] = Inr bs"
    and tt: "tt = set_where (\<lambda>combo. bs ! combo) (2 ^ ?n)"
    using assms(1) by (auto simp: blif_names_to_logical_tt_def Let_def res_bind_Inr_iff)
  have lt: "?c < 2 ^ ?n" by (rule tt_index_nat)
  have "\<forall>i < 2 ^ ?n. cube_onset il cubes (assignment il i) = Inr (bs ! i)"
    using bs by (auto simp: res_map_Inr_iff list_all2_conv_all_nth)
  with lt have "cube_onset il cubes (assignment il ?c) = Inr (bs ! ?c)" by blast
  moreover have "assignment il ?c (il ! k) = Some (of_bool (v (il ! k)))" if "k < ?n" for k
    using that assms(2) by (auto simp: assignment_nth bit_at_of_bool int_tt_index bit_tt_index)
  ultimately have "bs ! ?c \<longleftrightarrow> cover_holds il cubes v" by (intro cube_onset_holds)
  with lt tt show ?thesis by (simp add: bit_set_where)
qed

lemma logical_tt_range:
  "blif_names_to_logical_tt il cubes = Inr tt \<Longrightarrow> 0 \<le> tt \<and> tt < 2 ^ (2 ^ length il)"
  by (auto simp: blif_names_to_logical_tt_def Let_def res_bind_Inr_iff set_where_nonneg set_where_less)

section \<open>Physical pins\<close>

lemma upt4: "[0..<4] = [0, 1, 2, 3::nat]"
  by (simp add: upt_rec)

lemma pin_bit_of_bool: "pin_bit p gk = of_bool (bit (int p) gk)"
  by (simp add: pin_bit_def bit_at_of_bool)

text \<open>\<open>agrees p lp lv\<close>: each physical pin of the index \<open>p\<close> carries the value of its logical position.\<close>

definition agrees :: "nat \<Rightarrow> nat option list \<Rightarrow> (nat \<Rightarrow> bool) \<Rightarrow> bool" where
  "agrees p lp lv \<longleftrightarrow> (\<forall>gk < 4. \<forall>pos. lp ! gk = Some pos \<longrightarrow> bit (int p) gk = lv pos)"

lemma update_bits:
  assumes "\<And>gk pos. gk \<in> set gks \<Longrightarrow> lp ! gk = Some pos \<Longrightarrow> pin_bit p gk = of_bool (lv pos)"
    and "pos < length lb" and "lb ! pos = of_bool (lv pos) \<or> (\<exists>gk \<in> set gks. lp ! gk = Some pos)"
  shows "foldl (\<lambda>lb gk. case lp ! gk of None \<Rightarrow> lb | Some pos \<Rightarrow> lb[pos := pin_bit p gk]) lb gks ! pos
    = of_bool (lv pos)"
  using assms
proof (induction gks arbitrary: lb)
  case Nil
  then show ?case by simp
next
  case (Cons gk gks)
  show ?case
  proof (cases "lp ! gk")
    case None
    from Cons.prems(3) None have "lb ! pos = of_bool (lv pos) \<or> (\<exists>gk \<in> set gks. lp ! gk = Some pos)" by auto
    with Cons.prems(1,2) have "foldl (\<lambda>lb gk. case lp ! gk of None \<Rightarrow> lb | Some pos \<Rightarrow> lb[pos := pin_bit p gk])
        lb gks ! pos = of_bool (lv pos)"
      by (intro Cons.IH) auto
    with None show ?thesis by simp
  next
    case (Some q)
    then have q: "pin_bit p gk = of_bool (lv q)" using Cons.prems(1) [of gk q] by simp
    have "lb[q := pin_bit p gk] ! pos = of_bool (lv pos) \<or> (\<exists>gk \<in> set gks. lp ! gk = Some pos)"
      using Cons.prems(2,3) Some q by (cases "q = pos") auto
    with Some Cons.prems(1,2) have "foldl (\<lambda>lb gk. case lp ! gk of None \<Rightarrow> lb | Some pos \<Rightarrow> lb[pos := pin_bit p gk])
        (lb[q := pin_bit p gk]) gks ! pos = of_bool (lv pos)"
      by (intro Cons.IH) auto
    with Some show ?thesis by simp
  qed
qed

lemma expanded_bits_nth:
  assumes "agrees p lp lv" and "\<And>pos. pos < n \<Longrightarrow> Some pos \<in> set (take 4 lp)" and "4 \<le> length lp" and "pos < n"
  shows "expanded_bits n lp p ! pos = of_bool (lv pos)"
proof -
  have "\<exists>gk \<in> set [0..<4]. lp ! gk = Some pos"
    using assms(2) [OF assms(4)] assms(3) by (auto simp: in_set_conv_nth)
  then show ?thesis
    unfolding expanded_bits_def
    using assms(1,4) by (intro update_bits) (auto simp: agrees_def pin_bit_of_bool)
qed

lemma foldl_or_push:
  assumes "\<And>pos. pos < m \<Longrightarrow> f pos = (of_bool (lv pos) :: int)" and "m \<le> n"
  shows "bit (foldl (\<lambda>idx pos. idx OR push_bit (n - 1 - pos) (f pos)) 0 [0..<m]) k
    \<longleftrightarrow> (\<exists>pos < m. k = n - 1 - pos \<and> lv pos)"
  using assms
proof (induction m)
  case 0
  then show ?case by simp
next
  case (Suc m)
  have "bit (push_bit j (f m) :: int) k \<longleftrightarrow> k = j \<and> lv m" for j
    using Suc.prems(1) [of m] by (cases "lv m") (auto simp: bit_two_power)
  with Suc show ?case by (auto simp: bit_or_iff less_Suc_eq)
qed

lemma expanded_index_eq:
  assumes "agrees p lp lv" and "\<And>pos. pos < n \<Longrightarrow> Some pos \<in> set (take 4 lp)" and "4 \<le> length lp"
  shows "expanded_index n lp p = tt_index n lv"
proof (rule bit_eqI)
  fix k
  have "bit (expanded_index n lp p) k \<longleftrightarrow> (\<exists>pos < n. k = n - 1 - pos \<and> lv pos)"
    unfolding expanded_index_def
    by (rule foldl_or_push) (simp_all add: expanded_bits_nth [OF assms])
  also have "\<dots> \<longleftrightarrow> k < n \<and> lv (n - 1 - k)"
  proof
    assume "\<exists>pos < n. k = n - 1 - pos \<and> lv pos"
    then obtain pos where pos: "pos < n" "k = n - 1 - pos" "lv pos" by blast
    then have "pos = n - 1 - k" and "k < n" by linarith+
    with pos(3) show "k < n \<and> lv (n - 1 - k)" by simp
  next
    assume r: "k < n \<and> lv (n - 1 - k)"
    then have "n - 1 - k < n \<and> k = n - 1 - (n - 1 - k) \<and> lv (n - 1 - k)" by linarith
    then show "\<exists>pos < n. k = n - 1 - pos \<and> lv pos" by blast
  qed
  finally show "bit (expanded_index n lp p) k \<longleftrightarrow> bit (tt_index n lv) k" by (simp add: bit_tt_index)
qed

text \<open>Permuting is expanding with every pin in use.\<close>

lemma permuted_bits_expanded:
  assumes "length ps = 4"
  shows "foldl (\<lambda>lb gk. lb[ps ! gk := pin_bit p gk]) (replicate 4 0) [0..<4] = expanded_bits 4 (map Some ps) p"
  using assms by (simp add: expanded_bits_def upt4)

lemma length_expanded_bits [simp]: "length (expanded_bits n lp p) = n"
proof -
  have "length (foldl (\<lambda>lb gk. case lp ! gk of None \<Rightarrow> lb | Some pos \<Rightarrow> lb[pos := pin_bit p gk]) lb gks) = length lb" for lb gks
    by (induction gks arbitrary: lb) (auto split: option.split)
  then show ?thesis by (simp add: expanded_bits_def)
qed

lemma permuted_index_expanded:
  assumes "length ps = 4"
  shows "permuted_index ps p = expanded_index 4 (map Some ps) p"
  unfolding permuted_index_def expanded_index_def permuted_bits_expanded [OF assms] Let_def
  by (simp add: upt4 ac_simps)

end
