(* ===== verification/Bitgen_Pins.thy ===== *)
theory Bitgen_Pins
  imports Bitgen_Solver Bitgen_Tt Bitgen_Net Bitgen_Sim
begin

text \<open>
  From a solution of the pin classes to the physical pins of every LUT: \<open>assign_lut_gk\<close> puts every
  logical input on a pin that can reach it, the selects that are written decode to the source
  of that input, and the recorded logical positions are those of the inputs.
\<close>

section \<open>Selects and words\<close>

lemma low_bit: "(w AND 0xFFFFF) AND 1 = (1 :: int) \<longleftrightarrow> bit w 0"
proof -
  have "(w AND 0xFFFFF) AND 1 = w AND 1" by (simp add: and.assoc)
  then show ?thesis by (simp add: and_one_eq bit_0 odd_iff_mod_2_eq_one)
qed

lemma elut_from_cfg:
  "elut_from_word (elut_cfg_word ec) = ec\<lparr>ec_tt := take_bit 16 (ec_tt ec)\<rparr>"
proof -
  let ?w = "elut_cfg_word ec"
  have m: "v AND 0xFFFFF = take_bit 20 (v :: int)" for v
    by (simp add: take_bit_eq_mask mask_eq_exp_minus_1)
  have one: "bit (if b then 1 else 0 :: int) n \<longleftrightarrow> b \<and> n = 0" for b n by (auto simp: bit_1_iff)
  have w: "bit ?w n \<longleftrightarrow> n < 20 \<and> (4 \<le> n \<and> bit (ec_tt ec) (n - 4) \<or> n = 3 \<and> ec_ff_en ec \<or> n = 2 \<and> ec_ff_rst_en ec
      \<or> n = 1 \<and> ec_ff_rst_val ec \<or> n = 0 \<and> ec_out_inv ec)" for n
    unfolding elut_cfg_word_def Let_def m and_FFFF_take
    by (simp only: bit_take_bit_iff bit_or_iff bit_push_bit_iff_int one) (auto simp: bit_take_bit_iff)
  have "drop_bit 4 (?w AND 0xFFFFF) AND 0xFFFF = take_bit 16 (ec_tt ec)"
    unfolding m and_FFFF_take by (rule bit_eqI) (auto simp: bit_take_bit_iff bit_drop_bit_eq w)
  moreover have "bit_at (?w AND 0xFFFFF) n = 1 \<longleftrightarrow> bit ?w n" if "n < 20" for n
    unfolding m using that by (simp add: bit_take_bit_iff)
  moreover have "(?w AND 0xFFFFF) AND 1 = 1 \<longleftrightarrow> bit ?w 0"
    by (rule low_bit)
  ultimately have "drop_bit 4 (?w AND 0xFFFFF) AND 0xFFFF = take_bit 16 (ec_tt ec)" "bit_at (?w AND 0xFFFFF) 3 = 1 \<longleftrightarrow> ec_ff_en ec"
    "bit_at (?w AND 0xFFFFF) 2 = 1 \<longleftrightarrow> ec_ff_rst_en ec" "bit_at (?w AND 0xFFFFF) 1 = 1 \<longleftrightarrow> ec_ff_rst_val ec"
    "(?w AND 0xFFFFF) AND 1 = 1 \<longleftrightarrow> ec_out_inv ec"
    by (simp_all only: w) simp_all
  then show ?thesis unfolding elut_from_word_def Let_def by (simp only:) simp
qed

lemma elut_cfg_from: "elut_cfg_word (elut_from_word w) = take_bit 20 w"
proof (rule bit_eqI)
  fix n :: nat
  have m: "v AND 0xFFFFF = take_bit 20 (v :: int)" for v
    by (simp add: take_bit_eq_mask mask_eq_exp_minus_1)
  have one: "bit (if b then 1 else 0 :: int) n \<longleftrightarrow> b \<and> n = 0" for b n by (auto simp: bit_1_iff)
  have z: "take_bit 20 w AND 1 = 1 \<longleftrightarrow> bit w 0" by (simp only: low_bit flip: m)
  consider "n = 0" | "n = 1" | "n = 2" | "n = 3" | "4 \<le> n" by linarith
  then show "bit (elut_cfg_word (elut_from_word w)) n = bit (take_bit 20 w) n"
    unfolding elut_cfg_word_def elut_from_word_def Let_def m and_FFFF_take
    by cases (auto simp: bit_take_bit_iff bit_or_iff bit_push_bit_iff_int one bit_drop_bit_eq z bit_two_power [of 1, simplified])
qed


lemma iib_decode_parity: "iib_decode sel (gk mod 2) = iib_decode sel gk"
proof -
  have "int (gk mod 2) AND 1 = int gk AND 1" by (simp add: and_one_eq of_nat_mod)
  then show ?thesis by (simp only: iib_decode_def)
qed

lemma iib_decode_mask: "iib_decode (sel AND 0x1F) gk = iib_decode sel gk"
  by (simp only: iib_decode_def and.assoc and.idem)

definition decode_ok :: "string \<times> int \<Rightarrow> bool" where
  "decode_ok p \<longleftrightarrow> 0 \<le> snd p \<and> (if fst p = ''clb.I'' then snd p < 32 else fst p = ''fle'' \<and> snd p < 8)"

lemma iib_decode_bounds:
  "list_all (\<lambda>s. decode_ok (iib_decode s 0) \<and> decode_ok (iib_decode s 1)) [0..31]"
  by code_simp

lemma iib_decode_table:
  "list_all (\<lambda>i. iib_decode (16 OR i div 2) (nat (i mod 2)) = (''clb.I'', i)
     \<and> 0 \<le> 16 OR i div 2 \<and> 16 OR i div 2 \<le> IIB_SEL_MAX) [0..17]"
  "list_all (\<lambda>j. iib_decode j 0 = (''fle'', j) \<and> iib_decode j 1 = (''fle'', j) \<and> j \<le> IIB_SEL_MAX) [0..7]"
  by code_simp+

lemma iib_sel_ok:
  assumes "iib_sel_for gi gk (kind, idx) = Inr sel"
  shows "iib_decode sel gk = (kind, idx) \<and> 0 \<le> sel \<and> sel \<le> IIB_SEL_MAX"
proof -
  show ?thesis
  proof (cases "kind = ''clb.I''")
    case True
    from assms True have i: "0 \<le> idx" "idx < 18" and par: "idx mod 2 = int gk mod 2" and sel: "sel = 16 OR idx div 2"
      by (simp_all add: iib_sel_for_def split: if_split_asm)
    from i have "idx \<in> set [0..17]" by simp
    note row = bspec [OF iib_decode_table(1) [unfolded list_all_iff] this]
    note t = row [THEN conjunct1, folded sel] row [THEN conjunct2, THEN conjunct1, folded sel]
      row [THEN conjunct2, THEN conjunct2, folded sel]
    from par have "nat (idx mod 2) = gk mod 2" by (simp add: nat_mod_as_int)
    with t True show ?thesis by (simp only: iib_decode_parity)
  next
    case False
    from assms False have kind: "kind = ''fle''" and i: "0 \<le> idx" "idx < 8" and sel: "sel = idx"
      by (simp_all add: iib_sel_for_def split: if_split_asm)
    from i have "idx \<in> set [0..7]" by simp
    note row = bspec [OF iib_decode_table(2) [unfolded list_all_iff] this]
    note t = row [THEN conjunct1, folded sel] row [THEN conjunct2, THEN conjunct1, folded sel]
      row [THEN conjunct2, THEN conjunct2, folded sel]
    have "gk mod 2 = 0 \<or> gk mod 2 = 1" by presburger
    then have "iib_decode sel (gk mod 2) = (''fle'', sel)" by (elim disjE) (simp_all only: t)
    with t(3) kind i sel show ?thesis by (simp only: iib_decode_parity)
  qed
qed

lemma iib_decode_range: "decode_ok (iib_decode sel gk)"
proof -
  have "sel AND 0x1F \<in> set [0..31]"
    using and_nonnegative_int_iff [of sel 31] AND_upper2 [of 31 sel] by simp
  from bspec [OF iib_decode_bounds [unfolded list_all_iff] this]
  have both: "decode_ok (iib_decode (sel AND 0x1F) 0)" "decode_ok (iib_decode (sel AND 0x1F) 1)" by simp_all
  have "gk mod 2 = 0 \<or> gk mod 2 = 1" by presburger
  then have "decode_ok (iib_decode (sel AND 0x1F) (gk mod 2))"
    by (elim disjE) (simp_all only: both)
  then show ?thesis by (simp only: iib_decode_mask iib_decode_parity)
qed

section \<open>Filling slots\<close>

definition fill :: "(nat \<times> 'a) list \<Rightarrow> 'a option list \<Rightarrow> 'a option list" where
  "fill zs m = foldl (\<lambda>m (k, x). m[k := Some x]) m zs"

lemma length_fill [simp]: "length (fill zs m) = length m"
  by (induction zs arbitrary: m) (auto simp: fill_def)

lemma fill_append: "fill (xs @ ys) m = fill ys (fill xs m)"
  by (simp add: fill_def)

lemma fill_nth:
  "distinct (map fst zs) \<Longrightarrow> k < length m \<Longrightarrow>
     fill zs m ! k = (case map_of zs k of None \<Rightarrow> m ! k | Some x \<Rightarrow> Some x)"
proof (induction zs arbitrary: m)
  case Nil
  then show ?case by (simp add: fill_def)
next
  case (Cons z zs)
  obtain i x where [simp]: "z = (i, x)" by (cases z)
  have "fill (z # zs) m ! k = fill zs (m[i := Some x]) ! k" by (simp add: fill_def)
  also have "\<dots> = (case map_of zs k of None \<Rightarrow> m[i := Some x] ! k | Some x \<Rightarrow> Some x)"
    using Cons by simp
  finally have eq: "fill (z # zs) m ! k = (case map_of zs k of None \<Rightarrow> m[i := Some x] ! k | Some x \<Rightarrow> Some x)" .
  show ?case
  proof (cases "k = i")
    case True
    then have "map_of zs k = None" using Cons.prems(1) by (simp add: map_of_eq_None_iff)
    with eq True Cons.prems(2) show ?thesis by simp
  next
    case False
    then have "m[i := Some x] ! k = m ! k" by simp
    moreover have "map_of (z # zs) k = map_of zs k" using False by simp
    ultimately show ?thesis using eq by (simp only:)
  qed
qed

lemma fill_None_iff:
  "distinct (map fst zs) \<Longrightarrow> k < n \<Longrightarrow> fill zs (replicate n None) ! k = None \<longleftrightarrow> k \<notin> fst ` set zs"
proof -
  assume z: "distinct (map fst zs)" "k < n"
  from z have "fill zs (replicate n None) ! k = map_of zs k" by (simp add: fill_nth option.case_eq_if)
  then show ?thesis by (simp add: map_of_eq_None_iff)
qed

lemma fill_Some_iff:
  "distinct (map fst zs) \<Longrightarrow> k < n \<Longrightarrow> fill zs (replicate n None) ! k = Some x \<longleftrightarrow> (k, x) \<in> set zs"
proof -
  assume z: "distinct (map fst zs)" "k < n"
  from z have "fill zs (replicate n None) ! k = map_of zs k" by (simp add: fill_nth option.case_eq_if)
  with z(1) show ?thesis by simp
qed

text \<open>The free slots are those not filled.\<close>

lemma free_slots:
  assumes "distinct (map fst zs)" and "fst ` set zs \<subseteq> {..<n}"
  shows "filter (\<lambda>k. fill zs (replicate n None) ! k = None) [0..<n] = filter (\<lambda>k. k \<notin> fst ` set zs) [0..<n]"
    and "length (filter (\<lambda>k. k \<notin> fst ` set zs) [0..<n]) = n - length zs"
proof -
  show "filter (\<lambda>k. fill zs (replicate n None) ! k = None) [0..<n] = filter (\<lambda>k. k \<notin> fst ` set zs) [0..<n]"
    by (rule filter_cong) (auto simp: fill_None_iff [OF assms(1)])
  have "length (filter (\<lambda>k. k \<notin> fst ` set zs) [0..<n]) = card ({..<n} - fst ` set zs)"
    by (subst distinct_card [symmetric]) (auto intro!: arg_cong [where f = card])
  also have "\<dots> = n - card (fst ` set zs)" using assms(2) by (simp add: card_Diff_subset)
  also have "card (fst ` set zs) = length zs"
    using distinct_card [OF assms(1)] by simp
  finally show "length (filter (\<lambda>k. k \<notin> fst ` set zs) [0..<n]) = n - length zs" .
qed

section \<open>The pins of one LUT\<close>

text \<open>What the assignment of a LUT's pins relies on.\<close>

definition pins_given ::
  "nat \<Rightarrow> (string \<times> nat) list \<Rightarrow> (string \<times> nat \<times> nat) list \<Rightarrow> (nat \<times> string \<rightharpoonup> nat)
     \<Rightarrow> ((string \<times> nat) \<times> nat) list \<Rightarrow> (string \<Rightarrow> nat) \<Rightarrow> (string \<Rightarrow> nat) \<Rightarrow> bool" where
  "pins_given gi ext fb classes pins cl pin \<longleftrightarrow>
     distinct (map fst ext) \<and> length ext + length fb \<le> CLB_K
     \<and> (\<forall>net \<in> fst ` set ext. classes (gi, net) = Some (cl net) \<and> cl net < 2 \<and> map_of pins (net, cl net) = Some (pin net))
     \<and> (\<forall>c < 2. card {net \<in> fst ` set ext. cl net = c} \<le> 2)"

definition class_list :: "(string \<times> nat) list \<Rightarrow> (string \<Rightarrow> nat) \<Rightarrow> nat \<Rightarrow> string list" where
  "class_list ext cl c = sort (filter (\<lambda>net. cl net = c) (map fst ext))"

definition ext_entry :: "(string \<Rightarrow> nat) \<Rightarrow> nat \<times> string \<Rightarrow> nat \<times> pin_entry" where
  "ext_entry pin = (\<lambda>(gk, net). (gk, (''clb.I'', pin net, net)))"

definition fb_entry :: "nat \<times> string \<times> nat \<times> nat \<Rightarrow> nat \<times> pin_entry" where
  "fb_entry = (\<lambda>(gk, net, j, pos). (gk, (''fle'', j, net)))"

lemma class_of_ext_eq:
  assumes "\<forall>net \<in> fst ` set ext. classes (gi, net) = Some (cl net)"
  shows "class_of_ext gi classes ext = Inr (map (\<lambda>(net, pos). (net, cl net)) ext)"
  unfolding class_of_ext_def
  using assms by (intro res_map_total) (auto simp: split_def)

lemma place_ext_eq:
  assumes "\<forall>net \<in> set (map snd zs). map_of pins (net, c) = Some (pin net)"
  shows "place_ext pins c zs m = Inr (fill (map (ext_entry pin) zs) m)"
  using assms
proof (induction zs arbitrary: m)
  case Nil
  then show ?case by (simp add: fill_def)
next
  case (Cons z zs)
  obtain gk net where [simp]: "z = (gk, net)" by (cases z)
  from Cons show ?case by (simp add: fill_def ext_entry_def)
qed

lemma place_class_eq:
  assumes "netcs = map (\<lambda>(net, pos). (net, cl net)) ext"
    and "\<forall>net \<in> fst ` set ext. cl net = c \<longrightarrow> map_of pins (net, c) = Some (pin net)"
    and "length (class_list ext cl c) \<le> length slots"
  shows "place_class pins netcs c slots m =
    Inr (fill (map (ext_entry pin) (zip slots (class_list ext cl c))) m)"
proof -
  have l: "sort (map fst (filter (\<lambda>(net, c'). c' = c) netcs)) = class_list ext cl c"
    by (simp add: assms(1) class_list_def filter_map comp_def split_def)
  have "net \<in> set (map snd (zip slots (class_list ext cl c))) \<Longrightarrow> map_of pins (net, c) = Some (pin net)" for net
    using assms(2) by (auto simp: class_list_def dest!: set_zip_rightD)
  with assms(3) show ?thesis
    unfolding place_class_def l Let_def by (simp add: place_ext_eq)
qed

lemma class_list_props:
  assumes "distinct (map fst ext)"
  shows "length (class_list ext cl c) = card {net \<in> fst ` set ext. cl net = c}"
    and "set (class_list ext cl c) = {net \<in> fst ` set ext. cl net = c}"
proof -
  show s: "set (class_list ext cl c) = {net \<in> fst ` set ext. cl net = c}" by (auto simp: class_list_def)
  have "distinct (class_list ext cl c)" using assms by (simp add: class_list_def)
  from distinct_card [OF this] s show "length (class_list ext cl c) = card {net \<in> fst ` set ext. cl net = c}" by simp
qed

lemma class_list_lengths:
  assumes "\<forall>net \<in> fst ` set ext. cl net < 2"
  shows "length (class_list ext cl 0) + length (class_list ext cl 1) = length ext"
  using assms
  by (induction ext) (auto simp: class_list_def less_2)

text \<open>The physical pins, with every entry accounted for.\<close>

definition gk_map_ok ::
  "(string \<times> nat) list \<Rightarrow> (string \<times> nat \<times> nat) list \<Rightarrow> (string \<Rightarrow> nat) \<Rightarrow> (string \<Rightarrow> nat) \<Rightarrow> pin_entry option list \<Rightarrow> bool" where
  "gk_map_ok ext fb cl pin gk_map \<longleftrightarrow>
     length gk_map = CLB_K
     \<and> (\<forall>gk < CLB_K. \<forall>kind idx net. gk_map ! gk = Some (kind, idx, net) \<longrightarrow>
          kind = ''clb.I'' \<and> net \<in> fst ` set ext \<and> idx = pin net \<and> gk mod 2 = cl net
          \<or> kind = ''fle'' \<and> (\<exists>pos. (net, idx, pos) \<in> set fb))
     \<and> (\<forall>net \<in> fst ` set ext. \<exists>gk < CLB_K. gk_map ! gk = Some (''clb.I'', pin net, net))
     \<and> (\<forall>(net, j, pos) \<in> set fb. \<exists>gk < CLB_K. gk_map ! gk = Some (''fle'', j, net))"

lemma zip_slots:
  "length xs \<le> length ks \<Longrightarrow> set (map snd (zip ks xs)) = set xs"
  "distinct ks \<Longrightarrow> distinct (map fst (zip ks xs))"
  by (simp_all add: map_snd_zip_take map_fst_zip_take)

lemma ext_entries_keys: "map fst (map (ext_entry pin) zs) = map fst zs"
  by (simp add: ext_entry_def comp_def split_def)

lemma fb_entries_keys: "map fst (map fb_entry zs) = map fst zs"
  by (simp add: fb_entry_def comp_def split_def)

lemma assign_lut_gk_ok:
  assumes "pins_given gi ext fb classes pins cl pin"
  shows "\<exists>gk_map. assign_lut_gk gi ext fb classes pins = Inr gk_map \<and> gk_map_ok ext fb cl pin gk_map"
proof -
  from assms have d: "distinct (map fst ext)" and four: "length ext + length fb \<le> 4"
    and known: "\<forall>net \<in> fst ` set ext. classes (gi, net) = Some (cl net)" "\<forall>net \<in> fst ` set ext. cl net < 2"
      "\<forall>net \<in> fst ` set ext. map_of pins (net, cl net) = Some (pin net)"
    and two: "\<And>c. c < 2 \<Longrightarrow> card {net \<in> fst ` set ext. cl net = c} \<le> 2"
    by (auto simp: pins_given_def)
  let ?nets = "class_list ext cl"
  have len: "length (?nets 0) \<le> 2" "length (?nets 1) \<le> 2"
    using two [of 0] two [of 1] class_list_props(1) [OF d] by simp_all
  define z0 where "z0 = map (ext_entry pin) (zip [0, 2] (?nets 0))"
  define z1 where "z1 = map (ext_entry pin) (zip [1, 3] (?nets 1))"
  let ?netcs = "map (\<lambda>(net, pos). (net, cl net)) ext"
  have p: "place_class pins ?netcs 0 [0, 2] (replicate 4 None) = Inr (fill z0 (replicate 4 None))"
    "place_class pins ?netcs 1 [1, 3] (fill z0 (replicate 4 None)) = Inr (fill (z0 @ z1) (replicate 4 None))"
    unfolding z0_def z1_def fill_append
    by (intro place_class_eq; use len known(3) in auto)+
  have k0: "set (map fst z0) \<subseteq> {0, 2}" and k1: "set (map fst z1) \<subseteq> {1, 3}"
    unfolding z0_def z1_def ext_entries_keys by (auto dest: set_zip_leftD)
  have d0: "distinct (map fst z0)" and d1: "distinct (map fst z1)"
    unfolding z0_def z1_def ext_entries_keys by (auto intro: zip_slots(2))
  have "{0, 2} \<inter> {1, 3 :: nat} = {}" by simp
  with k0 k1 have "set (map fst z0) \<inter> set (map fst z1) = {}" by blast
  with d0 d1 have d01: "distinct (map fst (z0 @ z1))" by simp
  have k01: "fst ` set (z0 @ z1) \<subseteq> {..<4}" using k0 k1 by auto
  have l01: "length (z0 @ z1) = length ext"
    using class_list_lengths [OF known(2)] len by (simp add: z0_def z1_def)
  define frees where "frees = filter (\<lambda>k. k \<notin> fst ` set (z0 @ z1)) [0..<4]"
  define fbs where "fbs = sort_key (\<lambda>(net, j, pos). (j, net)) fb"
  define zf where "zf = map fb_entry (zip frees fbs)"
  note fs = free_slots [OF d01 k01, folded frees_def]
  have fits: "length fbs \<le> length frees" using fs(2) l01 four by (simp add: fbs_def)
  define gk_map where "gk_map = fill (z0 @ z1 @ zf) (replicate 4 None)"
  have loop: "foldl (\<lambda>m (gk, net, j, pos). m[gk := Some (''fle'', j, net)]) m zs = fill (map fb_entry zs) m" for m zs
    by (induction zs arbitrary: m) (auto simp: fill_def fb_entry_def)
  have eq: "assign_lut_gk gi ext fb classes pins = Inr gk_map"
    unfolding assign_lut_gk_def class_of_ext_eq [OF known(1)] res_bind.simps p Let_def fs(1) loop
    using fits by (simp add: gk_map_def fill_append zf_def fbs_def)
  have kf: "set (map fst zf) \<subseteq> set frees"
    unfolding zf_def fb_entries_keys by (auto dest: set_zip_leftD)
  have "distinct (map fst zf)"
    unfolding zf_def fb_entries_keys by (rule zip_slots(2)) (simp add: frees_def)
  moreover have "set (map fst (z0 @ z1)) \<inter> set (map fst zf) = {}" using kf by (auto simp: frees_def)
  ultimately have dall: "distinct (map fst (z0 @ z1 @ zf))" using d01 by auto
  have at: "gk_map ! gk = Some x \<longleftrightarrow> (gk, x) \<in> set (z0 @ z1 @ zf)" if "gk < 4" for gk x
    unfolding gk_map_def by (rule fill_Some_iff [OF dall that])
  have small: "gk < 4" if "(gk, x) \<in> set (z0 @ z1 @ zf)" for gk x
    using that k0 k1 kf by (force simp: frees_def)
  have ok: "gk_map_ok ext fb cl pin gk_map"
    unfolding gk_map_ok_def
  proof (intro conjI allI impI ballI)
    show "length gk_map = 4" by (simp add: gk_map_def)
  next
    fix gk kind idx net assume gk: "gk < 4" and "gk_map ! gk = Some (kind, idx, net)"
    then consider "(gk, kind, idx, net) \<in> set z0" | "(gk, kind, idx, net) \<in> set z1" | "(gk, kind, idx, net) \<in> set zf"
      using at by auto
    then show "kind = ''clb.I'' \<and> net \<in> fst ` set ext \<and> idx = pin net \<and> gk mod 2 = cl net
        \<or> kind = ''fle'' \<and> (\<exists>pos. (net, idx, pos) \<in> set fb)"
    proof cases
      case 1
      then have z: "(gk, net) \<in> set (zip [0, 2] (?nets 0))" and "kind = ''clb.I''" "idx = pin net"
        by (auto simp: z0_def ext_entry_def)
      moreover have "gk mod 2 = 0" using set_zip_leftD [OF z] by auto
      moreover have "net \<in> fst ` set ext" "cl net = 0"
        using set_zip_rightD [OF z] class_list_props(2) [OF d, of cl 0] by auto
      ultimately show ?thesis by simp
    next
      case 2
      then have z: "(gk, net) \<in> set (zip [1, 3] (?nets 1))" and "kind = ''clb.I''" "idx = pin net"
        by (auto simp: z1_def ext_entry_def)
      moreover have "gk mod 2 = 1" using set_zip_leftD [OF z] by auto
      moreover have "net \<in> fst ` set ext" "cl net = 1"
        using set_zip_rightD [OF z] class_list_props(2) [OF d, of cl 1] by auto
      ultimately show ?thesis by simp
    next
      case 3
      then obtain pos where z: "(gk, net, idx, pos) \<in> set (zip frees fbs)" and "kind = ''fle''"
        by (auto simp: zf_def fb_entry_def)
      moreover have "(net, idx, pos) \<in> set fb" using set_zip_rightD [OF z] by (simp add: fbs_def)
      ultimately show ?thesis by blast
    qed
  next
    fix net assume net: "net \<in> fst ` set ext"
    have "(\<exists>gk. (gk, net) \<in> set (zip [0, 2 :: nat] (?nets 0))) \<or> (\<exists>gk. (gk, net) \<in> set (zip [1, 3 :: nat] (?nets 1)))"
    proof -
      have "cl net = 0 \<or> cl net = 1" using known(2) net by (simp only: less_2)
      then have "net \<in> set (?nets 0) \<or> net \<in> set (?nets 1)"
        using net by (auto simp: class_list_props(2) [OF d])
      then have "net \<in> set (map snd (zip [0, 2 :: nat] (?nets 0))) \<or> net \<in> set (map snd (zip [1, 3 :: nat] (?nets 1)))"
        using len zip_slots(1) [of "?nets 0" "[0, 2 :: nat]"] zip_slots(1) [of "?nets 1" "[1, 3 :: nat]"] by simp
      then show ?thesis by auto
    qed
    then obtain gk where "(gk, ''clb.I'', pin net, net) \<in> set z0 \<or> (gk, ''clb.I'', pin net, net) \<in> set z1"
      by (force simp: z0_def z1_def ext_entry_def)
    then have "(gk, ''clb.I'', pin net, net) \<in> set (z0 @ z1 @ zf)" by auto
    then show "\<exists>gk < 4. gk_map ! gk = Some (''clb.I'', pin net, net)" using at small by blast
  next
    fix f assume f: "f \<in> set fb"
    obtain net j pos where [simp]: "f = (net, j, pos)" by (cases f)
    have "f \<in> set (map snd (zip frees fbs))" using f fits by (simp only: zip_slots(1)) (simp add: fbs_def)
    then obtain gk where "(gk, f) \<in> set (zip frees fbs)" by auto
    then have "(gk, ''fle'', j, net) \<in> set (z0 @ z1 @ zf)" by (force simp: zf_def fb_entry_def)
    then have "\<exists>gk < 4. gk_map ! gk = Some (''fle'', j, net)" using at small by blast
    then show "case f of (net, j, pos) \<Rightarrow> \<exists>gk < 4. gk_map ! gk = Some (''fle'', j, net)" by simp
  qed
  from eq ok show ?thesis by blast
qed

end
