(* ===== verification/Bitgen_Tile.thy ===== *)
theory Bitgen_Tile
  imports Bitgen_Pins
begin

text \<open>
  What \<open>_build_tile\<close> builds: for a netlist whose LUTs have at most four distinct inputs the only
  failure is an infeasible class assignment, and in a built tile every eLUT, evaluated through
  the input muxes that were written, computes its BLIF cover of the nets.
\<close>

section \<open>The demands of a LUT\<close>

definition ext_part :: "(string \<Rightarrow> string) \<Rightarrow> (string \<rightharpoonup> nat) \<Rightarrow> (nat \<times> string) list \<Rightarrow> (string \<times> nat) list" where
  "ext_part canon fb nil = map (\<lambda>(pos, net). (canon net, pos)) (filter (\<lambda>(pos, net). fb (canon net) = None) nil)"

definition fb_part :: "(string \<Rightarrow> string) \<Rightarrow> (string \<rightharpoonup> nat) \<Rightarrow> (nat \<times> string) list \<Rightarrow> (string \<times> nat \<times> nat) list" where
  "fb_part canon fb nil =
     map (\<lambda>(pos, net). (canon net, the (fb (canon net)), pos)) (filter (\<lambda>(pos, net). fb (canon net) \<noteq> None) nil)"

lemma foldl_add_demand:
  "distinct (map (canon \<circ> snd) nil) \<Longrightarrow>
     foldl (add_demand canon fb) (no_demand\<lparr>d_inputs := il, d_tt := tt\<rparr>) nil
     = \<lparr>d_ext = ext_part canon fb nil, d_fb = fb_part canon fb nil, d_inputs = il, d_tt = tt\<rparr>"
proof (induction nil rule: rev_induct)
  case Nil
  then show ?case by (simp add: no_demand_def ext_part_def fb_part_def)
next
  case (snoc x nil)
  obtain pos net where [simp]: "x = (pos, net)" by (cases x)
  from snoc.prems have new: "canon net \<notin> (canon \<circ> snd) ` set nil" by auto
  then have "canon net \<notin> fst ` set (ext_part canon fb nil)" "canon net \<notin> fst ` set (fb_part canon fb nil)"
    by (force simp: ext_part_def fb_part_def)+
  with snoc show ?case
    by (cases "fb (canon net)") (simp_all add: add_demand_def update_new ext_part_def fb_part_def)
qed

lemma canon_enumerate: "map (canon \<circ> snd) (enumerate 0 il) = map canon il"
  by (simp flip: map_map)

text \<open>The inputs of a LUT, all of them or only the external ones\<close>

definition cover_inputs :: "(string \<Rightarrow> string) \<Rightarrow> cover option \<Rightarrow> string list" where
  "cover_inputs canon cov = (case cov of None \<Rightarrow> [] | Some (il, cubes) \<Rightarrow> map canon il)"

definition cover_ok :: "(string \<Rightarrow> string) \<Rightarrow> cover option \<Rightarrow> bool" where
  "cover_ok canon cov \<longleftrightarrow>
     (case cov of None \<Rightarrow> True
      | Some (il, cubes) \<Rightarrow> distinct (map canon il) \<and> length il \<le> CLB_K
          \<and> list_all (\<lambda>(spec, val). length spec \<le> length il) cubes)"

definition ext_inputs :: "(string \<Rightarrow> string) \<Rightarrow> (string \<rightharpoonup> nat) \<Rightarrow> cover option \<Rightarrow> string list" where
  "ext_inputs canon fb cov = sort (filter (\<lambda>net. fb net = None) (cover_inputs canon cov))"

definition demand_of :: "(string \<Rightarrow> string) \<Rightarrow> (string \<rightharpoonup> nat) \<Rightarrow> cover option \<Rightarrow> int option \<Rightarrow> demand" where
  "demand_of canon fb cov tt =
     (case cov of None \<Rightarrow> no_demand
      | Some (il, cubes) \<Rightarrow> \<lparr>d_ext = ext_part canon fb (enumerate 0 il), d_fb = fb_part canon fb (enumerate 0 il),
                            d_inputs = il, d_tt = tt\<rparr>)"

lemma demand_of_props:
  assumes "cover_ok canon cov"
  shows "distinct (map fst (d_ext (demand_of canon fb cov tt)))"
    and "length (d_ext (demand_of canon fb cov tt)) + length (d_fb (demand_of canon fb cov tt)) \<le> CLB_K"
    and "sort (map fst (d_ext (demand_of canon fb cov tt))) = ext_inputs canon fb cov"
proof -
  let ?d = "demand_of canon fb cov tt"
  have "distinct (map fst (d_ext ?d)) \<and> length (d_ext ?d) + length (d_fb ?d) \<le> CLB_K
    \<and> map fst (d_ext ?d) = filter (\<lambda>net. fb net = None) (cover_inputs canon cov)"
  proof (cases cov)
    case None
    then show ?thesis by (simp add: demand_of_def no_demand_def cover_inputs_def)
  next
    case (Some c)
    obtain il cubes where c: "c = (il, cubes)" by (cases c)
    with Some assms have d: "distinct (map canon il)" and four: "length il \<le> CLB_K" by (auto simp: cover_ok_def)
    have "map fst (ext_part canon fb (enumerate 0 il)) = filter (\<lambda>net. fb net = None) (map (canon \<circ> snd) (enumerate 0 il))"
      by (simp add: ext_part_def filter_map comp_def split_def)
    then have keys: "map fst (ext_part canon fb (enumerate 0 il)) = filter (\<lambda>net. fb net = None) (map canon il)"
      by (simp only: canon_enumerate)
    have "length (ext_part canon fb (enumerate 0 il)) + length (fb_part canon fb (enumerate 0 il)) = length il"
      using sum_length_filter_compl [of "\<lambda>(pos, net). fb (canon net) = None" "enumerate 0 il"]
      by (simp add: ext_part_def fb_part_def split_def)
    with keys d four Some c show ?thesis by (simp add: demand_of_def cover_inputs_def)
  qed
  then have p: "distinct (map fst (d_ext ?d))" "length (d_ext ?d) + length (d_fb ?d) \<le> CLB_K"
    "map fst (d_ext ?d) = filter (\<lambda>net. fb net = None) (cover_inputs canon cov)" by blast+
  show "distinct (map fst (d_ext ?d))" by (rule p(1))
  show "length (d_ext ?d) + length (d_fb ?d) \<le> CLB_K" by (rule p(2))
  show "sort (map fst (d_ext ?d)) = ext_inputs canon fb cov" by (simp only: p(3) ext_inputs_def)
qed

text \<open>The position that is recorded for a net\<close>

definition pos_of :: "demand \<Rightarrow> string \<Rightarrow> nat option" where
  "pos_of dem net =
     (case map_of (d_ext dem) net of Some pos \<Rightarrow> Some pos | None \<Rightarrow> map_option snd (map_of (d_fb dem) net))"

lemma enumerate_mem: "(pos, net) \<in> set (enumerate 0 il) \<longleftrightarrow> pos < length il \<and> il ! pos = net"
  by (auto simp: in_set_enumerate_eq)

lemma parts_mem:
  "(net, pos) \<in> set (ext_part canon fb (enumerate 0 il)) \<longleftrightarrow>
     pos < length il \<and> canon (il ! pos) = net \<and> fb net = None"
  "(net, j, pos) \<in> set (fb_part canon fb (enumerate 0 il)) \<longleftrightarrow>
     pos < length il \<and> canon (il ! pos) = net \<and> fb net = Some j"
  by (force simp: ext_part_def fb_part_def enumerate_mem image_iff)+

lemma parts_keys:
  assumes "distinct (map canon il)"
  shows "distinct (map fst (ext_part canon fb (enumerate 0 il)))"
    and "distinct (map fst (fb_part canon fb (enumerate 0 il)))"
proof -
  have d: "distinct (map (canon \<circ> snd) (enumerate 0 il))" using assms by (simp only: canon_enumerate)
  then show "distinct (map fst (ext_part canon fb (enumerate 0 il)))"
    using distinct_map_filter [OF d] by (simp add: ext_part_def comp_def split_def)
  show "distinct (map fst (fb_part canon fb (enumerate 0 il)))"
    using distinct_map_filter [OF d] by (simp add: fb_part_def comp_def split_def)
qed

lemma pos_of_iff:
  assumes "distinct (map canon il)"
  shows "pos_of (demand_of canon fb (Some (il, cubes)) tt) net = Some pos \<longleftrightarrow> pos < length il \<and> canon (il ! pos) = net"
proof -
  let ?e = "ext_part canon fb (enumerate 0 il)" and ?f = "fb_part canon fb (enumerate 0 il)"
  have e: "map_of ?e net = Some p \<longleftrightarrow> p < length il \<and> canon (il ! p) = net \<and> fb net = None" for p
    using parts_keys(1) [OF assms] parts_mem(1) by (metis map_of_eq_Some_iff)
  have f: "map_of ?f net = Some (j, p) \<longleftrightarrow> p < length il \<and> canon (il ! p) = net \<and> fb net = Some j" for j p
    using parts_keys(2) [OF assms] parts_mem(2) by (metis map_of_eq_Some_iff)
  show ?thesis
  proof (cases "fb net")
    case None
    then have "map_of ?f net = None" using f by (metis option.distinct(1) not_None_eq surj_pair)
    with None e [of pos] show ?thesis by (auto simp: pos_of_def demand_of_def split: option.split)
  next
    case (Some j)
    then have "map_of ?e net = None" using e by (metis option.distinct(1) not_None_eq)
    moreover have "map_option snd (map_of ?f net) = Some pos \<longleftrightarrow> pos < length il \<and> canon (il ! pos) = net"
      using f Some by auto
    ultimately show ?thesis by (simp add: pos_of_def demand_of_def)
  qed
qed

section \<open>Writing the pins\<close>

lemma configure_pins_ok:
  assumes "\<And>i kind idx net. i < length entries \<Longrightarrow> entries ! i = Some (kind, idx, net) \<Longrightarrow>
      (\<exists>sel. iib_sel_for gi (gk + i) (kind, int idx) = Inr sel) \<and> pos_of dem net \<noteq> None"
    and "gk + length entries \<le> length logpos"
  shows "\<exists>mux' logpos'. configure_pins gi dem gk entries mux logpos = Inr (mux', logpos')
    \<and> length logpos' = length logpos
    \<and> (\<forall>i < length entries. case entries ! i of
         None \<Rightarrow> mux' (gi, gk + i) = Some 0 \<and> logpos' ! (gk + i) = logpos ! (gk + i)
       | Some (kind, idx, net) \<Rightarrow> (\<exists>sel. iib_sel_for gi (gk + i) (kind, int idx) = Inr sel \<and> mux' (gi, gk + i) = Some sel)
           \<and> logpos' ! (gk + i) = pos_of dem net)
    \<and> (\<forall>g k. g \<noteq> gi \<or> k < gk \<longrightarrow> mux' (g, k) = mux (g, k))
    \<and> (\<forall>k < gk. logpos' ! k = logpos ! k)"
  using assms
proof (induction entries arbitrary: gk mux logpos)
  case Nil
  then show ?case by simp
next
  case (Cons e entries)
  have rest: "\<And>i kind idx net. i < length entries \<Longrightarrow> entries ! i = Some (kind, idx, net) \<Longrightarrow>
      (\<exists>sel. iib_sel_for gi (Suc gk + i) (kind, int idx) = Inr sel) \<and> pos_of dem net \<noteq> None"
    using Cons.prems(1) [of "Suc _"] by fastforce
  obtain mux1 logpos1 where step: "configure_pins gi dem gk (e # entries) mux logpos
      = configure_pins gi dem (Suc gk) entries mux1 logpos1"
    and len: "length logpos1 = length logpos"
    and here: "case e of
         None \<Rightarrow> mux1 (gi, gk) = Some 0 \<and> logpos1 ! gk = logpos ! gk
       | Some (kind, idx, net) \<Rightarrow> (\<exists>sel. iib_sel_for gi gk (kind, int idx) = Inr sel \<and> mux1 (gi, gk) = Some sel)
           \<and> logpos1 ! gk = pos_of dem net"
    and other: "\<And>g k. g \<noteq> gi \<or> k \<noteq> gk \<Longrightarrow> mux1 (g, k) = mux (g, k)" "\<And>k. k \<noteq> gk \<Longrightarrow> logpos1 ! k = logpos ! k"
  proof (cases e)
    case None
    show ?thesis
      by (rule that [of "mux((gi, gk) \<mapsto> 0)" logpos]) (auto simp: None)
  next
    case (Some en)
    obtain kind idx net where [simp]: "en = (kind, idx, net)" by (cases en)
    from Cons.prems(1) [of 0 kind idx net] Some obtain sel pos
      where sel: "iib_sel_for gi gk (kind, int idx) = Inr sel" and pos: "pos_of dem net = Some pos" by auto
    show ?thesis
      by (rule that [of "mux((gi, gk) \<mapsto> sel)" "logpos[gk := Some pos]"])
        (use Cons.prems(2) in \<open>auto simp: Some sel pos [unfolded pos_of_def] pos nth_list_update\<close>)
  qed
  have bound: "Suc gk + length entries \<le> length logpos1" using Cons.prems(2) len by simp
  obtain mux' logpos' where ih: "configure_pins gi dem (Suc gk) entries mux1 logpos1 = Inr (mux', logpos')"
    "length logpos' = length logpos1"
    "\<forall>i < length entries. case entries ! i of
         None \<Rightarrow> mux' (gi, Suc gk + i) = Some 0 \<and> logpos' ! (Suc gk + i) = logpos1 ! (Suc gk + i)
       | Some (kind, idx, net) \<Rightarrow> (\<exists>sel. iib_sel_for gi (Suc gk + i) (kind, int idx) = Inr sel \<and> mux' (gi, Suc gk + i) = Some sel)
           \<and> logpos' ! (Suc gk + i) = pos_of dem net"
    "\<forall>g k. g \<noteq> gi \<or> k < Suc gk \<longrightarrow> mux' (g, k) = mux1 (g, k)" "\<forall>k < Suc gk. logpos' ! k = logpos1 ! k"
    using Cons.IH [OF rest bound, of mux1] by blast
  have "case (e # entries) ! i of
         None \<Rightarrow> mux' (gi, gk + i) = Some 0 \<and> logpos' ! (gk + i) = logpos ! (gk + i)
       | Some (kind, idx, net) \<Rightarrow> (\<exists>sel. iib_sel_for gi (gk + i) (kind, int idx) = Inr sel \<and> mux' (gi, gk + i) = Some sel)
           \<and> logpos' ! (gk + i) = pos_of dem net" if "i < length (e # entries)" for i
  proof (cases i)
    case 0
    with here ih(4,5) show ?thesis by (auto split: option.splits prod.splits)
  next
    case (Suc m)
    with that ih(3) have "case entries ! m of
         None \<Rightarrow> mux' (gi, Suc gk + m) = Some 0 \<and> logpos' ! (Suc gk + m) = logpos1 ! (Suc gk + m)
       | Some (kind, idx, net) \<Rightarrow> (\<exists>sel. iib_sel_for gi (Suc gk + m) (kind, int idx) = Inr sel \<and> mux' (gi, Suc gk + m) = Some sel)
           \<and> logpos' ! (Suc gk + m) = pos_of dem net" by simp
    with Suc other(2) [of "Suc gk + m"] show ?thesis by (auto split: option.splits prod.splits)
  qed
  with step ih(1,2,4,5) len other show ?case by (auto simp: less_Suc_eq)
qed

section \<open>The function of a LUT\<close>

text \<open>The value of a net for a tile: the output of the LUT of the tile that drives it, else the
  value given for it.\<close>

definition net_value :: "(string \<rightharpoonup> nat) \<Rightarrow> (string \<rightharpoonup> int) \<Rightarrow> (nat \<rightharpoonup> int) \<Rightarrow> string \<Rightarrow> int" where
  "net_value fb input_bits clb net =
     (case fb net of
        Some j \<Rightarrow> (case clb j of None \<Rightarrow> 0 | Some b \<Rightarrow> b)
      | None \<Rightarrow> (case input_bits net of None \<Rightarrow> 0 | Some b \<Rightarrow> b))"

lemma bit_lut_vin: "bit (lut_vin f) k \<longleftrightarrow> k < 4 \<and> odd (f k)"
proof -
  have s: "bit (push_bit g (f g AND 1)) k \<longleftrightarrow> k = g \<and> odd (f g)" for g
    using bit_single [of g k] by (cases "odd (f g)") (simp_all add: and_one_eq mod_2_eq_odd)
  have four: "k < 4 \<longleftrightarrow> k = 0 \<or> k = 1 \<or> k = 2 \<or> k = (3::nat)" by linarith
  show ?thesis
    unfolding lut_vin_def upt4 foldl.simps bit_or_iff s four by auto
qed

lemma lut_vin_range: "0 \<le> lut_vin f \<and> nat (lut_vin f) < 16"
proof -
  have t: "take_bit 4 (lut_vin f) = lut_vin f"
    by (rule bit_eqI) (auto simp: bit_take_bit_iff bit_lut_vin)
  then have "0 \<le> lut_vin f" "lut_vin f < 2 ^ 4"
    by (metis take_bit_nonnegative) (metis t take_bit_int_less_exp)
  then show ?thesis by (simp add: nat_less_iff)
qed

text \<open>What is known of the pins of a LUT once its map is made.\<close>

definition lut_pins_ok ::
  "demand \<Rightarrow> (string \<rightharpoonup> nat) \<Rightarrow> (string \<Rightarrow> nat) \<Rightarrow> (string \<Rightarrow> nat) \<Rightarrow> pin_entry option list \<Rightarrow> bool" where
  "lut_pins_ok dem fb cl pin gk_map \<longleftrightarrow>
     gk_map_ok (d_ext dem) (d_fb dem) cl pin gk_map
     \<and> (\<forall>net \<in> fst ` set (d_ext dem). pin net < CLB_EXT_IN \<and> pin net mod 2 = cl net)
     \<and> (\<forall>net j. fb net = Some j \<longrightarrow> j < CLB_N)"

lemma demand_parts:
  "d_ext (demand_of canon fb (Some (il, cubes)) tt) = ext_part canon fb (enumerate 0 il)"
  "d_fb (demand_of canon fb (Some (il, cubes)) tt) = fb_part canon fb (enumerate 0 il)"
  by (simp_all add: demand_of_def)

lemma gk_map_entryD:
  "gk_map_ok ext fb cl pin gk_map \<Longrightarrow> gk < 4 \<Longrightarrow> gk_map ! gk = Some (kind, idx, net) \<Longrightarrow>
     kind = ''clb.I'' \<and> net \<in> fst ` set ext \<and> idx = pin net \<and> gk mod 2 = cl net
     \<or> kind = ''fle'' \<and> (\<exists>pos. (net, idx, pos) \<in> set fb)"
  unfolding gk_map_ok_def by (elim conjE) (drule spec [of _ gk], drule mp, assumption, drule spec, drule spec, drule spec, erule mp)

lemma gk_map_extD: "gk_map_ok ext fb cl pin gk_map \<Longrightarrow> net \<in> fst ` set ext \<Longrightarrow>
    \<exists>gk < 4. gk_map ! gk = Some (''clb.I'', pin net, net)"
  unfolding gk_map_ok_def by (elim conjE) (erule bspec)

lemma gk_map_fbD:
  assumes "gk_map_ok ext fb cl pin gk_map" and "(net, j, pos) \<in> set fb"
  shows "\<exists>gk < 4. gk_map ! gk = Some (''fle'', j, net)"
proof -
  from assms(1) have "\<forall>(net, j, pos) \<in> set fb. \<exists>gk < 4. gk_map ! gk = Some (''fle'', j, net)"
    unfolding gk_map_ok_def by (elim conjE)
  from bspec [OF this assms(2)] show ?thesis by simp
qed

lemma lut_pins_map: "lut_pins_ok dem fb cl pin gk_map \<Longrightarrow> gk_map_ok (d_ext dem) (d_fb dem) cl pin gk_map"
  by (simp add: lut_pins_ok_def)

lemma entry_cases:
  assumes "lut_pins_ok (demand_of canon fb (Some (il, cubes)) tt) fb cl pin gk_map"
    and "gk < 4" and "gk_map ! gk = Some (kind, idx, net)"
  obtains (ext) "kind = ''clb.I''" "fb net = None" "net \<in> fst ` set (ext_part canon fb (enumerate 0 il))"
      "idx = pin net" "pin net < 18" "pin net mod 2 = gk mod 2"
  | (fle) "kind = ''fle''" "fb net = Some idx" "idx < 8"
proof -
  from gk_map_entryD [OF lut_pins_map [OF assms(1)] assms(2,3), unfolded demand_parts] consider
      "kind = ''clb.I''" "net \<in> fst ` set (ext_part canon fb (enumerate 0 il))" "idx = pin net" "gk mod 2 = cl net"
    | pos where "kind = ''fle''" "(net, idx, pos) \<in> set (fb_part canon fb (enumerate 0 il))"
    by blast
  then show thesis
  proof cases
    case 1
    then obtain pos where "(net, pos) \<in> set (ext_part canon fb (enumerate 0 il))" by auto
    then have "fb net = None" by (simp add: parts_mem)
    with 1 assms(1) show thesis by (intro ext) (auto simp: lut_pins_ok_def demand_of_def)
  next
    case 2
    then have "fb net = Some idx" by (simp add: parts_mem)
    with 2 assms(1) show thesis by (intro fle) (auto simp: lut_pins_ok_def)
  qed
qed

lemma entry_known:
  assumes "lut_pins_ok (demand_of canon fb (Some (il, cubes)) tt) fb cl pin gk_map"
    and "distinct (map canon il)" and "gk < 4" and "gk_map ! gk = Some (kind, idx, net)"
  shows "(\<exists>sel. iib_sel_for gi gk (kind, int idx) = Inr sel)"
    and "\<exists>pos < length il. canon (il ! pos) = net \<and> pos_of (demand_of canon fb (Some (il, cubes)) tt) net = Some pos"
proof -
  from assms(1,3,4) show "\<exists>sel. iib_sel_for gi gk (kind, int idx) = Inr sel"
  proof (cases rule: entry_cases)
    case ext
    then have "int idx mod 2 = int gk mod 2" by (metis of_nat_mod of_nat_numeral)
    with ext show ?thesis by (simp add: iib_sel_for_def)
  next
    case fle
    then show ?thesis by (simp add: iib_sel_for_def)
  qed
  have "\<exists>pos < length il. canon (il ! pos) = net"
    using gk_map_entryD [OF lut_pins_map [OF assms(1)] assms(3,4), unfolded demand_parts]
  proof (elim disjE conjE exE)
    assume "net \<in> fst ` set (ext_part canon fb (enumerate 0 il))"
    then obtain pos where "(net, pos) \<in> set (ext_part canon fb (enumerate 0 il))" by auto
    then show ?thesis by (auto simp: parts_mem)
  next
    fix pos assume "(net, idx, pos) \<in> set (fb_part canon fb (enumerate 0 il))"
    then show ?thesis by (auto simp: parts_mem)
  qed
  then show "\<exists>pos < length il. canon (il ! pos) = net \<and> pos_of (demand_of canon fb (Some (il, cubes)) tt) net = Some pos"
    using pos_of_iff [OF assms(2)] by blast
qed

text \<open>Every logical position is on some pin.\<close>

lemma position_on_pin:
  assumes "lut_pins_ok (demand_of canon fb (Some (il, cubes)) tt) fb cl pin gk_map" and "pos < length il"
  shows "\<exists>gk < 4. \<exists>kind idx. gk_map ! gk = Some (kind, idx, canon (il ! pos))"
proof (cases "fb (canon (il ! pos))")
  case None
  then have "(canon (il ! pos), pos) \<in> set (ext_part canon fb (enumerate 0 il))"
    using assms(2) by (simp add: parts_mem)
  then have "canon (il ! pos) \<in> fst ` set (ext_part canon fb (enumerate 0 il))" by (force intro: rev_image_eqI)
  from gk_map_extD [OF lut_pins_map [OF assms(1)], unfolded demand_parts, OF this] show ?thesis by blast
next
  case (Some j)
  then have "(canon (il ! pos), j, pos) \<in> set (fb_part canon fb (enumerate 0 il))"
    using assms(2) by (simp add: parts_mem)
  from gk_map_fbD [OF lut_pins_map [OF assms(1)], unfolded demand_parts, OF this] show ?thesis by blast
qed

text \<open>The recorded positions: \<open>logpos\<close> follows the map, pin by pin.\<close>

definition logpos_ok :: "demand \<Rightarrow> pin_entry option list \<Rightarrow> nat option list \<Rightarrow> bool" where
  "logpos_ok dem gk_map logpos \<longleftrightarrow> length logpos = CLB_K
     \<and> (\<forall>gk < CLB_K. logpos ! gk = (case gk_map ! gk of None \<Rightarrow> None | Some (kind, idx, net) \<Rightarrow> pos_of dem net))"

definition table_ok :: "string list \<Rightarrow> int \<Rightarrow> nat option list \<Rightarrow> int \<Rightarrow> bool" where
  "table_ok il tt logpos phys \<longleftrightarrow>
     phys = set_where (\<lambda>p. bit_at tt (nat (expanded_index (length il) logpos p)) \<noteq> 0) 16
     \<and> (\<forall>pos < length il. Some pos \<in> set (take 4 logpos))"

lemma phys_tt_ok:
  assumes "lut_pins_ok (demand_of canon fb (Some (il, cubes)) (Some tt)) fb cl pin gk_map"
    and "logpos_ok (demand_of canon fb (Some (il, cubes)) (Some tt)) gk_map logpos"
    and "distinct (map canon il)" and "length il \<le> 4"
  shows "\<exists>phys. phys_tt_of (demand_of canon fb (Some (il, cubes)) (Some tt)) logpos = Inr phys \<and> table_ok il tt logpos phys"
proof -
  let ?dem = "demand_of canon fb (Some (il, cubes)) (Some tt)"
  have len: "length logpos = 4" using assms(2) by (simp add: logpos_ok_def)
  have small: "pos < length il" if "logpos ! gk = Some pos" "gk < 4" for gk pos
  proof -
    from that assms(2) obtain kind idx net where "gk_map ! gk = Some (kind, idx, net)" "pos_of ?dem net = Some pos"
      by (auto simp: logpos_ok_def split: option.splits prod.splits)
    then show ?thesis using pos_of_iff [OF assms(3)] by blast
  qed
  have all: "Some pos \<in> set logpos" if pos: "pos < length il" for pos
  proof -
    from position_on_pin [OF assms(1) pos] obtain gk kind idx
      where gk: "gk < 4" "gk_map ! gk = Some (kind, idx, canon (il ! pos))" by blast
    then have "logpos ! gk = pos_of ?dem (canon (il ! pos))" using assms(2) by (simp add: logpos_ok_def)
    also have "\<dots> = Some pos" using pos pos_of_iff [OF assms(3)] by blast
    finally show ?thesis using gk(1) len by (metis nth_mem)
  qed
  have range: "\<forall>q \<in> set logpos. \<forall>pos. q = Some pos \<longrightarrow> pos < length il"
    using small len by (metis in_set_conv_nth)
  have dem: "d_tt ?dem = Some tt" "d_inputs ?dem = il" by (simp_all add: demand_of_def)
  show ?thesis
  proof (cases "length il = 4")
    case False
    have "\<not> list_ex (\<lambda>q. case q of None \<Rightarrow> False | Some pos \<Rightarrow> length il \<le> pos) (take 4 logpos)"
      using range len by (auto simp: list_ex_iff split: option.splits)
    with False dem len all show ?thesis
      by (simp add: phys_tt_of_def expand_logical_tt_def table_ok_def)
  next
    case True
    have "Some ` {..<4} \<subseteq> set logpos" using all True by auto
    moreover have "card (Some ` {..<4::nat}) = 4" by (simp add: card_image)
    moreover have "card (set logpos) \<le> 4" using card_length [of logpos] len by simp
    ultimately have "Some ` {..<4} = set logpos" by (intro card_seteq) auto
    then have full: "None \<notin> set logpos" by auto
    then have ps: "map Some (map the logpos) = logpos"
      by (intro nth_equalityI) (auto simp: in_set_conv_nth)
    have "\<not> list_ex (\<lambda>pos. 4 \<le> pos) (take 4 (map the logpos))"
    proof -
      have "the x < 4" if "x \<in> set logpos" for x
      proof -
        from that full have "x \<noteq> None" by metis
        then obtain pos where "x = Some pos" by blast
        with that range True show ?thesis by auto
      qed
      then show ?thesis using len by (auto simp: list_ex_iff not_le)
    qed
    moreover have "permuted_index (map the logpos) p = expanded_index 4 logpos p" for p
      using permuted_index_expanded [of "map the logpos" p] len by (simp only: ps length_map)
    ultimately show ?thesis using True dem full len all
      by (simp add: phys_tt_of_def permute_tt_def table_ok_def)
  qed
qed

definition row_ok :: "tile_logic \<Rightarrow> nat \<Rightarrow> pin_entry option list \<Rightarrow> bool" where
  "row_ok tile gi gk_map \<longleftrightarrow>
     (\<forall>gk < CLB_K. case gk_map ! gk of None \<Rightarrow> tl_iib_mux tile (gi, gk) = Some 0
        | Some (kind, idx, net) \<Rightarrow>
            \<exists>sel. iib_sel_for gi gk (kind, int idx) = Inr sel \<and> tl_iib_mux tile (gi, gk) = Some sel)"

definition inputs_ok :: "tile_logic \<Rightarrow> demand \<Rightarrow> (string \<Rightarrow> nat) \<Rightarrow> bool" where
  "inputs_ok tile dem pin \<longleftrightarrow> length (tl_inputs tile) = CLB_EXT_IN
     \<and> (\<forall>net \<in> fst ` set (d_ext dem). get_opt (tl_inputs tile) (pin net) = Some net)"

lemma net_pin_value:
  assumes "lut_pins_ok (demand_of canon fb (Some (il, cubes)) tt) fb cl pin gk_map"
    and "row_ok tile gi gk_map" and "inputs_ok tile (demand_of canon fb (Some (il, cubes)) tt) pin"
    and gk: "gk < 4" and entry: "gk_map ! gk = Some (kind, idx, net)"
  shows "net_pin tile input_bits clb gi gk = net_value fb input_bits clb net"
proof -
  have "case gk_map ! gk of None \<Rightarrow> tl_iib_mux tile (gi, gk) = Some 0
      | Some (kind, idx, net) \<Rightarrow>
          \<exists>sel. iib_sel_for gi gk (kind, int idx) = Inr sel \<and> tl_iib_mux tile (gi, gk) = Some sel"
    using assms(2) gk unfolding row_ok_def by blast
  with entry obtain sel where sel: "iib_sel_for gi gk (kind, int idx) = Inr sel"
    and mux: "tl_iib_mux tile (gi, gk) = Some sel" by auto
  from iib_sel_ok [OF sel] have dec: "iib_decode (sel_of tile gi gk) gk = (kind, int idx)" by (simp add: sel_of_def mux)
  from assms(1) gk entry show ?thesis
  proof (cases rule: entry_cases)
    case ext
    then have "get_opt (tl_inputs tile) idx = Some net" and "length (tl_inputs tile) = 18"
      using assms(3) by (auto simp: inputs_ok_def demand_parts)
    with ext dec show ?thesis by (simp add: net_pin_def net_value_def)
  next
    case fle
    with dec show ?thesis by (simp add: net_pin_def net_value_def)
  qed
qed

lemma lut_computes:
  assumes pins: "lut_pins_ok (demand_of canon fb (Some (il, cubes)) (Some tt)) fb cl pin gk_map"
    and logpos: "logpos_ok (demand_of canon fb (Some (il, cubes)) (Some tt)) gk_map logpos"
    and table: "table_ok il tt logpos phys"
    and tt: "blif_names_to_logical_tt il cubes = Inr tt" and d: "distinct (map canon il)"
    and row: "row_ok tile gi gk_map"
    and ins: "inputs_ok tile (demand_of canon fb (Some (il, cubes)) (Some tt)) pin"
  shows "bit_at phys (nat (lut_vin (net_pin tile input_bits clb gi)))
    = of_bool (cover_holds il cubes (\<lambda>net. odd (net_value fb input_bits clb (canon net))))"
proof -
  let ?p = "nat (lut_vin (net_pin tile input_bits clb gi))"
  let ?v = "\<lambda>net. odd (net_value fb input_bits clb (canon net))"
  have len: "length logpos = 4" using logpos by (simp add: logpos_ok_def)
  have "agrees ?p logpos (\<lambda>k. ?v (il ! k))"
    unfolding agrees_def
  proof (intro allI impI)
    fix gk pos assume gk: "gk < (4::nat)" and l: "logpos ! gk = Some pos"
    with logpos obtain kind idx net where e: "gk_map ! gk = Some (kind, idx, net)"
      and po: "pos_of (demand_of canon fb (Some (il, cubes)) (Some tt)) net = Some pos"
      by (auto simp: logpos_ok_def split: option.splits prod.splits)
    from po pos_of_iff [OF d] have "canon (il ! pos) = net" by blast
    moreover have "bit (int ?p) gk \<longleftrightarrow> odd (net_pin tile input_bits clb gi gk)"
      using gk lut_vin_range [of "net_pin tile input_bits clb gi"] by (simp add: bit_lut_vin)
    ultimately show "bit (int ?p) gk = ?v (il ! pos)"
      using net_pin_value [OF pins row ins gk e] by simp
  qed
  then have idx: "expanded_index (length il) logpos ?p = tt_index (length il) (\<lambda>k. ?v (il ! k))"
    using table len by (intro expanded_index_eq) (auto simp: table_ok_def)
  have "?p < 16" using lut_vin_range by blast
  then have "bit phys ?p \<longleftrightarrow> bit tt (nat (tt_index (length il) (\<lambda>k. ?v (il ! k))))"
    using table idx by (simp add: table_ok_def bit_set_where bit_at_of_bool)
  also have "\<dots> \<longleftrightarrow> cover_holds il cubes ?v"
    using logical_tt_bit [OF tt] d by (simp add: distinct_map)
  finally show ?thesis by (simp add: bit_at_of_bool)
qed

section \<open>The cluster inputs\<close>

lemma class_pins_values: "map snd (class_pins ncs c) = map (\<lambda>i. c + 2 * i) [0..<length (nets_of_class ncs c)]"
  by (rule nth_equalityI) (simp_all add: class_pins_def)

lemma pins_values: "distinct (map snd (iib_pins_of ncs))"
proof -
  have "set (map snd (class_pins ncs 0)) \<inter> set (map snd (class_pins ncs 1)) = {}"
    unfolding class_pins_values by (auto, presburger)
  moreover have "distinct (map snd (class_pins ncs c))" for c
    unfolding class_pins_values by (simp add: distinct_map inj_on_def)
  ultimately show ?thesis unfolding pins_split by simp
qed

lemma inputs_fold:
  "distinct (map snd zs) \<Longrightarrow> ((net, c), pin) \<in> set zs \<Longrightarrow>
     map_of (foldl (\<lambda>ins ((net, c), pin). AList.update pin (Some net) ins) ins zs) pin = Some (Some net)"
proof (induction zs rule: rev_induct)
  case Nil
  then show ?case by simp
next
  case (snoc z zs)
  obtain n c' p where [simp]: "z = ((n, c'), p)" by (metis surj_pair)
  from snoc.prems show ?case
  proof (cases "((net, c), pin) = z")
    case True
    then show ?thesis by (simp add: update_conv')
  next
    case False
    with snoc.prems have "((net, c), pin) \<in> set zs" "pin \<noteq> p" by (auto intro: rev_image_eqI)
    with snoc show ?thesis by (simp add: update_conv')
  qed
qed

lemma inputs_keys:
  "snd ` set zs \<subseteq> fst ` set ins \<Longrightarrow>
     map fst (foldl (\<lambda>ins ((net, c), pin). AList.update pin (Some net) ins) ins zs) = map fst ins"
proof (induction zs arbitrary: ins)
  case Nil
  then show ?case by simp
next
  case (Cons z zs)
  obtain n c' p where [simp]: "z = ((n, c'), p)" by (metis surj_pair)
  from Cons.prems have k: "map fst (AList.update p (Some n) ins) = map fst ins" by (simp add: update_keys)
  then have "fst ` set (AList.update p (Some n) ins) = fst ` set ins" by (metis set_map)
  with Cons k show ?case by simp
qed

lemma cluster_inputs_props:
  assumes "\<And>net c pin. ((net, c), pin) \<in> set (iib_pins_of ncs) \<Longrightarrow> pin < CLB_EXT_IN"
  shows "map fst (cluster_inputs_of (iib_pins_of ncs)) = [0..<CLB_EXT_IN]"
    and "((net, c), pin) \<in> set (iib_pins_of ncs) \<Longrightarrow> get_opt (cluster_inputs_of (iib_pins_of ncs)) pin = Some net"
proof -
  let ?zs = "sort_key snd (iib_pins_of ncs)"
  have "mset (map snd ?zs) = mset (map snd (iib_pins_of ncs))" by simp
  then have d: "distinct (map snd ?zs)" using pins_values mset_eq_imp_distinct_iff by blast
  show "map fst (cluster_inputs_of (iib_pins_of ncs)) = [0..<CLB_EXT_IN]"
    unfolding cluster_inputs_of_def
    by (subst inputs_keys) (use assms in \<open>auto simp: image_image comp_def\<close>)
  show "((net, c), pin) \<in> set (iib_pins_of ncs) \<Longrightarrow> get_opt (cluster_inputs_of (iib_pins_of ncs)) pin = Some net"
    unfolding cluster_inputs_of_def get_opt_def
    by (subst inputs_fold [OF d, of net c]) simp_all
qed

section \<open>All LUTs of a tile\<close>

definition lut_built ::
  "demand \<Rightarrow> nat \<Rightarrow> (nat \<times> string \<rightharpoonup> nat) \<Rightarrow> ((string \<times> nat) \<times> nat) list \<Rightarrow> tile_logic \<Rightarrow> int \<Rightarrow> bool" where
  "lut_built dem gi classes pins tile tt \<longleftrightarrow>
     (\<exists>gk_map logpos. assign_lut_gk gi (d_ext dem) (d_fb dem) classes pins = Inr gk_map
        \<and> logpos_ok dem gk_map logpos \<and> phys_tt_of dem logpos = Inr tt \<and> row_ok tile gi gk_map)"

definition lut_ready ::
  "demand \<Rightarrow> nat \<Rightarrow> (nat \<times> string \<rightharpoonup> nat) \<Rightarrow> ((string \<times> nat) \<times> nat) list \<Rightarrow> bool" where
  "lut_ready dem gi classes pins \<longleftrightarrow>
     (\<exists>gk_map. assign_lut_gk gi (d_ext dem) (d_fb dem) classes pins = Inr gk_map \<and> length gk_map = CLB_K
        \<and> (\<forall>gk < CLB_K. \<forall>kind idx net. gk_map ! gk = Some (kind, idx, net) \<longrightarrow>
              (\<exists>sel. iib_sel_for gi gk (kind, int idx) = Inr sel) \<and> pos_of dem net \<noteq> None)
        \<and> (\<forall>logpos. logpos_ok dem gk_map logpos \<longrightarrow> (\<exists>tt. phys_tt_of dem logpos = Inr tt)))"

lemma lut_built_mux:
  assumes "\<And>k. tl_iib_mux tile' (gi, k) = tl_iib_mux tile (gi, k)"
  shows "lut_built dem gi classes pins tile' tt = lut_built dem gi classes pins tile tt"
  by (simp only: lut_built_def row_ok_def assms)

lemma configure_luts_step:
  assumes "map_of demands gi = Some dem" and "lut_ready dem gi classes pins"
  shows "\<exists>tile' tt. configure_luts demands classes pins ((gi, fl) # fles) tile = configure_luts demands classes pins fles tile'
    \<and> tl_inputs tile' = tl_inputs tile \<and> tl_outputs tile' = tl_outputs tile
    \<and> tl_eluts tile' = AList.update gi (new_elut tt (fle_ff_used fl)) (tl_eluts tile)
    \<and> lut_built dem gi classes pins tile' tt
    \<and> (\<forall>g k. g \<noteq> gi \<longrightarrow> tl_iib_mux tile' (g, k) = tl_iib_mux tile (g, k))"
proof -
  obtain gk_map where assign: "assign_lut_gk gi (d_ext dem) (d_fb dem) classes pins = Inr gk_map"
    and len: "length gk_map = 4"
    and known: "\<And>gk kind idx net. gk < 4 \<Longrightarrow> gk_map ! gk = Some (kind, idx, net) \<Longrightarrow>
        (\<exists>sel. iib_sel_for gi gk (kind, int idx) = Inr sel) \<and> pos_of dem net \<noteq> None"
    and tts: "\<And>logpos. logpos_ok dem gk_map logpos \<Longrightarrow> \<exists>tt. phys_tt_of dem logpos = Inr tt"
    using assms(2) unfolding lut_ready_def by metis
  have entry: "\<And>i kind idx net. i < length gk_map \<Longrightarrow> gk_map ! i = Some (kind, idx, net) \<Longrightarrow>
      (\<exists>sel. iib_sel_for gi (0 + i) (kind, int idx) = Inr sel) \<and> pos_of dem net \<noteq> None"
    using known len by simp
  have bound: "0 + length gk_map \<le> length (replicate 4 (None :: nat option))" using len by simp
  from configure_pins_ok [OF entry bound, where mux = "tl_iib_mux tile", unfolded len length_replicate] obtain mux logpos where
      conf: "configure_pins gi dem 0 gk_map (tl_iib_mux tile) (replicate 4 None) = Inr (mux, logpos)"
    and l4: "length logpos = 4"
    and at: "\<forall>i < 4. case gk_map ! i of
         None \<Rightarrow> mux (gi, 0 + i) = Some 0 \<and> logpos ! (0 + i) = replicate 4 None ! (0 + i)
       | Some (kind, idx, net) \<Rightarrow> (\<exists>sel. iib_sel_for gi (0 + i) (kind, int idx) = Inr sel \<and> mux (gi, 0 + i) = Some sel)
           \<and> logpos ! (0 + i) = pos_of dem net"
    and others: "\<forall>g k. g \<noteq> gi \<or> k < 0 \<longrightarrow> mux (g, k) = tl_iib_mux tile (g, k)"
    by blast
  have lp: "logpos_ok dem gk_map logpos"
    unfolding logpos_ok_def
  proof (intro conjI allI impI)
    show "length logpos = 4" by (rule l4)
    fix gk assume "gk < (4::nat)"
    with at show "logpos ! gk = (case gk_map ! gk of None \<Rightarrow> None | Some (kind, idx, net) \<Rightarrow> pos_of dem net)"
      by (auto split: option.splits prod.splits dest!: spec [of _ gk])
  qed
  from tts [OF lp] obtain tt where tt: "phys_tt_of dem logpos = Inr tt" by blast
  let ?tile = "tile\<lparr>tl_iib_mux := mux, tl_eluts := AList.update gi (new_elut tt (fle_ff_used fl)) (tl_eluts tile)\<rparr>"
  have "row_ok ?tile gi gk_map"
    unfolding row_ok_def
  proof (intro allI impI)
    fix gk assume "gk < (4::nat)"
    with at show "case gk_map ! gk of None \<Rightarrow> tl_iib_mux ?tile (gi, gk) = Some 0
        | Some (kind, idx, net) \<Rightarrow>
            \<exists>sel. iib_sel_for gi gk (kind, int idx) = Inr sel \<and> tl_iib_mux ?tile (gi, gk) = Some sel"
      by (auto split: option.splits prod.splits dest!: spec [of _ gk])
  qed
  with assign lp tt have "lut_built dem gi classes pins ?tile tt" unfolding lut_built_def by blast
  moreover have "configure_luts demands classes pins ((gi, fl) # fles) tile = configure_luts demands classes pins fles ?tile"
    by (simp add: assms(1) assign conf tt)
  ultimately show ?thesis using others
    by (intro exI [of _ ?tile] exI [of _ tt]) simp
qed

lemma configure_luts_ok:
  assumes "\<forall>gi \<in> fst ` set fles. map_of demands gi = Some (dem gi) \<and> lut_ready (dem gi) gi classes pins"
    and "distinct (map fst fles)" and "fst ` set fles \<inter> fst ` set (tl_eluts tile) = {}"
  shows "\<exists>tile'. configure_luts demands classes pins fles tile = Inr tile'
    \<and> tl_inputs tile' = tl_inputs tile \<and> tl_outputs tile' = tl_outputs tile
    \<and> map fst (tl_eluts tile') = map fst (tl_eluts tile) @ map fst fles
    \<and> (\<forall>(gi, fl) \<in> set fles. \<exists>tt. map_of (tl_eluts tile') gi = Some (new_elut tt (fle_ff_used fl))
         \<and> lut_built (dem gi) gi classes pins tile' tt)
    \<and> (\<forall>g. g \<notin> fst ` set fles \<longrightarrow> map_of (tl_eluts tile') g = map_of (tl_eluts tile) g
         \<and> (\<forall>k. tl_iib_mux tile' (g, k) = tl_iib_mux tile (g, k)))"
  using assms
proof (induction fles arbitrary: tile)
  case Nil
  then show ?case by simp
next
  case (Cons f fles)
  obtain gi fl where f: "f = (gi, fl)" by (cases f)
  have "map_of demands gi = Some (dem gi)" "lut_ready (dem gi) gi classes pins" using Cons.prems(1) f by auto
  from configure_luts_step [OF this, of fl fles tile] obtain tile1 tt where
      step: "configure_luts demands classes pins (f # fles) tile = configure_luts demands classes pins fles tile1"
    and io: "tl_inputs tile1 = tl_inputs tile" "tl_outputs tile1 = tl_outputs tile"
    and el: "tl_eluts tile1 = AList.update gi (new_elut tt (fle_ff_used fl)) (tl_eluts tile)"
    and built: "lut_built (dem gi) gi classes pins tile1 tt"
    and oth: "\<And>g k. g \<noteq> gi \<Longrightarrow> tl_iib_mux tile1 (g, k) = tl_iib_mux tile (g, k)"
    unfolding f by blast
  have new: "gi \<notin> fst ` set (tl_eluts tile)" and gi: "gi \<notin> fst ` set fles" and d: "distinct (map fst fles)"
    using Cons.prems(2,3) f by auto
  have keys: "map fst (tl_eluts tile1) = map fst (tl_eluts tile) @ [gi]" using new by (simp add: el update_keys)
  then have "fst ` set (tl_eluts tile1) = insert gi (fst ` set (tl_eluts tile))" by (metis Un_insert_right list.simps(15) set_append set_map sup_bot_right empty_set)
  then have disj: "fst ` set fles \<inter> fst ` set (tl_eluts tile1) = {}" using Cons.prems(3) gi f by auto
  have ready: "\<forall>g \<in> fst ` set fles. map_of demands g = Some (dem g) \<and> lut_ready (dem g) g classes pins"
    using Cons.prems(1) by simp
  from Cons.IH [OF ready d disj] obtain tile' where
      ih: "configure_luts demands classes pins fles tile1 = Inr tile'"
        "tl_inputs tile' = tl_inputs tile1" "tl_outputs tile' = tl_outputs tile1"
        "map fst (tl_eluts tile') = map fst (tl_eluts tile1) @ map fst fles"
    and ends: "\<forall>(g, fl) \<in> set fles. \<exists>tt. map_of (tl_eluts tile') g = Some (new_elut tt (fle_ff_used fl))
         \<and> lut_built (dem g) g classes pins tile' tt"
    and keep: "\<forall>g. g \<notin> fst ` set fles \<longrightarrow> map_of (tl_eluts tile') g = map_of (tl_eluts tile1) g
         \<and> (\<forall>k. tl_iib_mux tile' (g, k) = tl_iib_mux tile1 (g, k))"
    by blast
  have "map_of (tl_eluts tile') gi = Some (new_elut tt (fle_ff_used fl))"
    using keep gi by (simp add: el update_conv')
  moreover have "lut_built (dem gi) gi classes pins tile' tt"
    using built keep gi by (subst lut_built_mux [of tile' gi tile1]) auto
  ultimately have "\<forall>(g, fl) \<in> set (f # fles). \<exists>tt. map_of (tl_eluts tile') g = Some (new_elut tt (fle_ff_used fl))
         \<and> lut_built (dem g) g classes pins tile' tt"
    using ends f by auto
  moreover have "\<forall>g. g \<notin> fst ` set (f # fles) \<longrightarrow> map_of (tl_eluts tile') g = map_of (tl_eluts tile) g
         \<and> (\<forall>k. tl_iib_mux tile' (g, k) = tl_iib_mux tile (g, k))"
    using keep f oth by (auto simp: el update_conv')
  ultimately show ?case using step ih io keys f by simp
qed

end
