(* ===== verification/Bitgen_Reads.thy ===== *)
theory Bitgen_Reads
  imports Bitgen_Tile
begin

text \<open>
  Which pins a truth table depends on. A table read at two pin vectors that agree on those pins has
  one value, and the table of a built LUT depends on pins that carry inputs of its cover only.
\<close>

definition reads_pin :: "int \<Rightarrow> nat \<Rightarrow> bool" where
  "reads_pin tt gk \<longleftrightarrow> list_ex (\<lambda>p. bit_at tt p \<noteq> bit_at tt (flip_bit gk p)) [0..<16]"

lemma not_reads_pin: "\<not> reads_pin tt gk \<Longrightarrow> p < 16 \<Longrightarrow> bit_at tt (flip_bit gk p) = bit_at tt p"
  by (auto simp: reads_pin_def list_ex_iff)

lemma bit_nat_vin: "bit (nat (lut_vin f)) k \<longleftrightarrow> k < 4 \<and> odd (f k)"
proof -
  have "int (nat (lut_vin f)) = lut_vin f" using lut_vin_range [of f] by simp
  then have "bit (nat (lut_vin f)) k \<longleftrightarrow> bit (lut_vin f) k" by (metis bit_of_nat_iff_bit)
  then show ?thesis by (simp only: bit_lut_vin)
qed

lemma unread_pin:
  assumes "\<And>k. k < 4 \<Longrightarrow> k \<noteq> gk \<Longrightarrow> odd (f k) = odd (g k)" and "reads_pin tt gk \<Longrightarrow> odd (f gk) = odd (g gk)"
  shows "bit_at tt (nat (lut_vin f)) = bit_at tt (nat (lut_vin g))"
proof (cases "odd (f gk) = odd (g gk)")
  case True
  then have same: "odd (f k) = odd (g k)" if "k < 4" for k using assms(1) [OF that] by (cases "k = gk") auto
  have "nat (lut_vin f) = nat (lut_vin g)" by (rule bit_eqI) (use same in \<open>auto simp: bit_nat_vin\<close>)
  then show ?thesis by simp
next
  case False
  with assms(2) have n: "\<not> reads_pin tt gk" by blast
  show ?thesis
  proof (cases "gk < 4")
    case True
    have "nat (lut_vin g) = flip_bit gk (nat (lut_vin f))"
      by (rule bit_eqI) (use assms(1) False True in \<open>auto simp: bit_nat_vin bit_flip_bit_iff\<close>)
    with not_reads_pin [OF n, of "nat (lut_vin f)"] lut_vin_range show ?thesis by simp
  next
    case False
    then have "nat (lut_vin f) = nat (lut_vin g)" by (intro bit_eqI) (use assms(1) in \<open>auto simp: bit_nat_vin\<close>)
    then show ?thesis by simp
  qed
qed

text \<open>Pin by pin, a vector is turned into the other.\<close>

lemma same_reads:
  assumes "\<And>gk. gk < 4 \<Longrightarrow> reads_pin tt gk \<Longrightarrow> odd (f gk) = odd (g gk)"
  shows "bit_at tt (nat (lut_vin f)) = bit_at tt (nat (lut_vin g))"
proof -
  have step: "bit_at tt (nat (lut_vin (\<lambda>k. if k < n then g k else f k))) = bit_at tt (nat (lut_vin f))" if "n \<le> 4" for n
    using that
  proof (induction n)
    case 0
    then show ?case by simp
  next
    case (Suc n)
    have "bit_at tt (nat (lut_vin (\<lambda>k. if k < Suc n then g k else f k))) = bit_at tt (nat (lut_vin (\<lambda>k. if k < n then g k else f k)))"
      by (rule unread_pin [where gk = n]) (use assms [of n] Suc.prems in auto)
    with Suc show ?case by simp
  qed
  have "nat (lut_vin (\<lambda>k. if k < 4 then g k else f k)) = nat (lut_vin g)" by (rule bit_eqI) (auto simp: bit_nat_vin)
  with step [of 4] show ?thesis by simp
qed

section \<open>The table of a built LUT\<close>

definition reads_cover :: "(string \<Rightarrow> string) \<Rightarrow> (string \<rightharpoonup> nat) \<Rightarrow> cover option \<Rightarrow> tile_logic \<Rightarrow> nat \<Rightarrow> elut_config \<Rightarrow> bool" where
  "reads_cover canon fb cov tile gi ec \<longleftrightarrow>
     (\<forall>gk < CLB_K. reads_pin (ec_tt ec) gk \<longrightarrow> (\<exists>net \<in> set (cover_inputs canon cov).
        case fb net of
          Some j \<Rightarrow> iib_decode (sel_of tile gi gk) gk = (''fle'', int j)
        | None \<Rightarrow> \<exists>i < CLB_EXT_IN. iib_decode (sel_of tile gi gk) gk = (''clb.I'', int i) \<and> get_opt (tl_inputs tile) i = Some net))"

lemma unused_pin:
  assumes "lp ! gk = None"
  shows "expanded_index n lp (flip_bit gk p) = expanded_index n lp p"
proof -
  have b: "pin_bit (flip_bit gk p) k = pin_bit p k" if "k \<noteq> gk" for k
    using that by (simp add: pin_bit_of_bool bit_of_nat_iff_bit bit_flip_bit_iff)
  have "foldl (\<lambda>lb k. case lp ! k of None \<Rightarrow> lb | Some pos \<Rightarrow> lb[pos := pin_bit (flip_bit gk p) k]) lb ks
      = foldl (\<lambda>lb k. case lp ! k of None \<Rightarrow> lb | Some pos \<Rightarrow> lb[pos := pin_bit p k]) lb ks" for lb ks
  proof (rule foldl_cong)
    fix a k assume "k \<in> set ks"
    show "(case lp ! k of None \<Rightarrow> a | Some pos \<Rightarrow> a[pos := pin_bit (flip_bit gk p) k])
        = (case lp ! k of None \<Rightarrow> a | Some pos \<Rightarrow> a[pos := pin_bit p k])"
      using assms b [of k] by (cases "k = gk") (simp_all split: option.split)
  qed simp_all
  then show ?thesis by (simp add: expanded_index_def expanded_bits_def)
qed

lemma table_reads:
  assumes "table_ok il tt lp phys" and "reads_pin phys gk" and "gk < 4"
  shows "lp ! gk \<noteq> None"
proof
  assume n: "lp ! gk = None"
  from assms(2) obtain p where p: "p < 16" "bit_at phys p \<noteq> bit_at phys (flip_bit gk p)"
    by (auto simp: reads_pin_def list_ex_iff)
  have "take_bit 4 (flip_bit gk p) = flip_bit gk p"
  proof (rule bit_eqI)
    fix k
    have "\<not> bit p k" if "4 \<le> k"
    proof -
      have "take_bit 4 p = p" using p(1) by (simp add: take_bit_nat_eq_self)
      with that show ?thesis by (metis bit_take_bit_iff not_less)
    qed
    with assms(3) show "bit (take_bit 4 (flip_bit gk p)) k \<longleftrightarrow> bit (flip_bit gk p) k"
      by (cases "k < 4") (auto simp: bit_take_bit_iff bit_flip_bit_iff)
  qed
  then have "flip_bit gk p < 16" using take_bit_nat_less_exp [of 4 "flip_bit gk p"] by simp
  with p assms(1) unused_pin [OF n, of "length il" p] show False by (simp add: table_ok_def bit_at_of_bool bit_set_where)
qed

lemma lut_reads:
  assumes pins: "lut_pins_ok (demand_of canon fb (Some (il, cubes)) (Some tt)) fb cl pin gk_map"
    and logpos: "logpos_ok (demand_of canon fb (Some (il, cubes)) (Some tt)) gk_map logpos"
    and table: "table_ok il tt logpos phys" and d: "distinct (map canon il)"
    and row: "row_ok tile gi gk_map"
    and ins: "inputs_ok tile (demand_of canon fb (Some (il, cubes)) (Some tt)) pin"
    and gk: "gk < 4" and reads: "reads_pin phys gk"
  shows "\<exists>net \<in> set (map canon il). case fb net of
          Some j \<Rightarrow> iib_decode (sel_of tile gi gk) gk = (''fle'', int j)
        | None \<Rightarrow> \<exists>i < CLB_EXT_IN. iib_decode (sel_of tile gi gk) gk = (''clb.I'', int i) \<and> get_opt (tl_inputs tile) i = Some net"
proof -
  from table_reads [OF table reads gk] obtain pos where "logpos ! gk = Some pos" by blast
  with logpos gk obtain kind idx net where e: "gk_map ! gk = Some (kind, idx, net)" by (auto simp: logpos_ok_def split: option.splits)
  from entry_known(2) [OF pins d gk e] have net: "net \<in> set (map canon il)" by (auto intro: rev_image_eqI)
  have "case gk_map ! gk of None \<Rightarrow> tl_iib_mux tile (gi, gk) = Some 0
      | Some (kind, idx, net) \<Rightarrow>
          \<exists>sel. iib_sel_for gi gk (kind, int idx) = Inr sel \<and> tl_iib_mux tile (gi, gk) = Some sel"
    using row gk unfolding row_ok_def by blast
  with e obtain sel where sel: "iib_sel_for gi gk (kind, int idx) = Inr sel" and mux: "tl_iib_mux tile (gi, gk) = Some sel" by auto
  from iib_sel_ok [OF sel] have dec: "iib_decode (sel_of tile gi gk) gk = (kind, int idx)" by (simp add: sel_of_def mux)
  from pins gk e show ?thesis
  proof (cases rule: entry_cases)
    case ext
    then have "get_opt (tl_inputs tile) idx = Some net" using ins by (auto simp: inputs_ok_def demand_parts)
    with ext dec net show ?thesis by (intro bexI [of _ net]) auto
  next
    case fle
    with dec net show ?thesis by (intro bexI [of _ net]) auto
  qed
qed

end
