(* ===== verification/Bitgen_Build.thy ===== *)
theory Bitgen_Build
  imports Bitgen_Reads
begin

text \<open>
  The whole of \<open>_build_tile\<close>: the pin classes, the demands and the configuration put together.
\<close>

section \<open>Well-formed tiles\<close>

definition tile_fb :: "(nat \<times> xml) list \<Rightarrow> (string \<rightharpoonup> nat)" where
  "tile_fb fles = fb_of_net (fle_outputs fles)"

definition tile_cover :: "(string \<times> cover) list \<Rightarrow> (nat \<times> xml) list \<Rightarrow> nat \<Rightarrow> xml \<Rightarrow> cover option" where
  "tile_cover names fles gi fl = lut_cover names (fle_outputs fles) gi fl"

definition clb_ok :: "(string \<times> cover) list \<Rightarrow> (string \<Rightarrow> string) \<Rightarrow> xml \<Rightarrow> (nat \<times> xml) list \<Rightarrow> bool" where
  "clb_ok names canon clb fles \<longleftrightarrow>
     fles_of clb = Inr fles \<and> distinct (map fst fles) \<and> list_all (\<lambda>(gi, fl). gi < CLB_N) fles
     \<and> list_all (\<lambda>(gi, fl). cover_ok canon (tile_cover names fles gi fl)) fles"

text \<open>The external nets that each LUT needs\<close>

definition tile_ext :: "(string \<times> cover) list \<Rightarrow> (string \<Rightarrow> string) \<Rightarrow> (nat \<times> xml) list \<Rightarrow> (nat \<times> string list) list" where
  "tile_ext names canon fles =
     filter (\<lambda>(gi, nets). nets \<noteq> [])
       (map (\<lambda>(gi, fl). (gi, ext_inputs canon (tile_fb fles) (tile_cover names fles gi fl))) fles)"

definition lut_function ::
  "(string \<Rightarrow> string) \<Rightarrow> (string \<rightharpoonup> nat) \<Rightarrow> cover option \<Rightarrow> (string \<rightharpoonup> int) \<Rightarrow> (nat \<rightharpoonup> int) \<Rightarrow> bool" where
  "lut_function canon fb cov input_bits clb =
     (case cov of None \<Rightarrow> False
      | Some (il, cubes) \<Rightarrow> cover_holds il cubes (\<lambda>net. odd (net_value fb input_bits clb (canon net))))"

lemma spec_matches_total:
  "k + length spec \<le> length il \<Longrightarrow> (\<And>i. i < length il \<Longrightarrow> a (il ! i) \<noteq> None) \<Longrightarrow> \<exists>ok. spec_matches il a k spec = Inr ok"
proof (induction spec arbitrary: k)
  case Nil
  show ?case by (intro exI) (rule spec_matches.simps)
next
  case (Cons ch spec)
  then have "\<exists>ok. spec_matches il a (Suc k) spec = Inr ok" by simp
  moreover obtain b where "a (il ! k) = Some b" using Cons.prems(1) Cons.prems(2) [of k] by auto
  ultimately show ?case using Cons.prems(1) by auto
qed

lemma cube_onset_total:
  "list_all (\<lambda>(spec, val). length spec \<le> length il) cubes \<Longrightarrow> (\<And>i. i < length il \<Longrightarrow> a (il ! i) \<noteq> None)
    \<Longrightarrow> \<exists>on. cube_onset il cubes a = Inr on"
proof (induction cubes)
  case Nil
  show ?case by (intro exI) (rule cube_onset.simps)
next
  case (Cons cube cubes)
  obtain spec val where [simp]: "cube = (spec, val)" by (cases cube)
  from Cons.prems spec_matches_total [of 0 spec il a] obtain ok where "spec_matches il a 0 spec = Inr ok" by auto
  with Cons show ?case by auto
qed

lemma logical_tt_total:
  assumes "distinct il" and "list_all (\<lambda>(spec, val). length spec \<le> length il) cubes"
  shows "\<exists>tt. blif_names_to_logical_tt il cubes = Inr tt"
proof -
  have "assignment il combo (il ! k) \<noteq> None" if "k < length il" for combo k
    using assignment_nth [OF assms(1) that] by simp
  then have "is_ok (cube_onset il cubes (assignment il combo))" for combo
    using cube_onset_total [OF assms(2), of "assignment il combo"] by (simp add: is_ok_iff)
  then have "is_ok (res_map (\<lambda>combo. cube_onset il cubes (assignment il combo)) [0..<2 ^ length il])"
    by (simp add: res_map_ok_iff)
  then obtain bs where "res_map (\<lambda>combo. cube_onset il cubes (assignment il combo)) [0..<2 ^ length il] = Inr bs"
    by (auto simp: is_ok_iff)
  then show ?thesis by (simp add: blif_names_to_logical_tt_def Let_def)
qed

definition cover_tt :: "cover option \<Rightarrow> int option" where
  "cover_tt cov =
     (case cov of None \<Rightarrow> None
      | Some (il, cubes) \<Rightarrow> (case blif_names_to_logical_tt il cubes of Inl e \<Rightarrow> None | Inr tt \<Rightarrow> Some tt))"

lemma cover_tt_ok:
  "cover_ok canon (Some (il, cubes)) \<Longrightarrow> \<exists>tt. blif_names_to_logical_tt il cubes = Inr tt \<and> cover_tt (Some (il, cubes)) = Some tt"
  using logical_tt_total [of il cubes] by (auto simp: cover_ok_def cover_tt_def distinct_map)

definition tile_demand :: "(string \<times> cover) list \<Rightarrow> (string \<Rightarrow> string) \<Rightarrow> (nat \<times> xml) list \<Rightarrow> nat \<Rightarrow> xml \<Rightarrow> demand" where
  "tile_demand names canon fles gi fl =
     (let cov = tile_cover names fles gi fl in demand_of canon (tile_fb fles) cov (cover_tt cov))"

lemma lut_demand_eq:
  assumes "cover_ok canon (tile_cover names fles gi fl)"
  shows "lut_demand names canon (fle_outputs fles) (gi, fl) = Inr (gi, tile_demand names canon fles gi fl)"
proof (cases "tile_cover names fles gi fl")
  case None
  then show ?thesis by (simp add: lut_demand_def tile_demand_def tile_cover_def demand_of_def)
next
  case (Some c)
  obtain il cubes where c: "c = (il, cubes)" by (cases c)
  with Some assms have ok: "cover_ok canon (Some (il, cubes))" by simp
  then have "distinct (map (canon \<circ> snd) (enumerate 0 il))"
    by (simp only: canon_enumerate) (simp add: cover_ok_def)
  from foldl_add_demand [OF this, where fb = "tile_fb fles"] cover_tt_ok [OF ok] Some c show ?thesis
    by (auto simp: lut_demand_def tile_demand_def tile_cover_def tile_fb_def demand_of_def)
qed

lemma demands_of_distinct: "distinct (map fst ds) \<Longrightarrow> demands_of ds = ds"
proof (induction ds rule: rev_induct)
  case Nil
  then show ?case by (simp add: demands_of_def)
next
  case (snoc d ds)
  obtain gi x where [simp]: "d = (gi, x)" by (cases d)
  from snoc show ?case by (simp add: demands_of_def update_new)
qed

lemma tile_demands:
  assumes "clb_ok names canon clb fles"
  defines "ds \<equiv> map (\<lambda>(gi, fl). (gi, tile_demand names canon fles gi fl)) fles"
  shows "res_map (lut_demand names canon (fle_outputs fles)) fles = Inr ds"
    and "demands_of ds = ds" and "lut_ext_of ds = tile_ext names canon fles"
    and "(gi, fl) \<in> set fles \<Longrightarrow> map_of ds gi = Some (tile_demand names canon fles gi fl)"
proof -
  from assms(1) have d: "distinct (map fst fles)"
    and ok: "\<And>gi fl. (gi, fl) \<in> set fles \<Longrightarrow> cover_ok canon (tile_cover names fles gi fl)"
    by (auto simp: clb_ok_def list_all_iff)
  show "res_map (lut_demand names canon (fle_outputs fles)) fles = Inr ds"
    unfolding ds_def using ok by (intro res_map_total) (auto simp: lut_demand_eq)
  have k: "map fst ds = map fst fles" by (simp add: ds_def comp_def split_def)
  have dk: "distinct (map fst ds)" using d by (simp only: k)
  then show "demands_of ds = ds" by (rule demands_of_distinct)
  show "(gi, fl) \<in> set fles \<Longrightarrow> map_of ds gi = Some (tile_demand names canon fles gi fl)"
    using dk by (rule map_of_is_SomeI) (auto simp: ds_def intro: rev_image_eqI)
  have e: "sort (map fst (d_ext (tile_demand names canon fles gi fl)))
      = ext_inputs canon (tile_fb fles) (tile_cover names fles gi fl)" if "(gi, fl) \<in> set fles" for gi fl
    using demand_of_props(3) [OF ok [OF that]] by (simp add: tile_demand_def Let_def)
  have ne: "d_ext (tile_demand names canon fles gi fl) \<noteq> []
      \<longleftrightarrow> ext_inputs canon (tile_fb fles) (tile_cover names fles gi fl) \<noteq> []" if "(gi, fl) \<in> set fles" for gi fl
    using e [OF that] by (metis length_0_conv length_map length_sort)
  show "lut_ext_of ds = tile_ext names canon fles"
    unfolding lut_ext_of_def tile_ext_def ds_def filter_map map_map
    by (rule map_cong) (auto intro!: filter_cong simp: e ne comp_def split_def dest: ne)
qed

section \<open>The drivers of a tile\<close>

lemma fle_outputs_keys: "fst ` set (fle_outputs fles) = {..<8} \<union> fst ` set fles"
proof -
  have "fst ` set (foldl (\<lambda>outs (gi, fl). AList.update gi (fle_out_net fl) outs) outs fles) = fst ` set outs \<union> fst ` set fles" for outs
  proof (induction fles arbitrary: outs)
    case Nil
    then show ?case by simp
  next
    case (Cons f fles)
    obtain gi fl where [simp]: "f = (gi, fl)" by (cases f)
    show ?case using Cons.IH by (simp add: dom_update)
  qed
  moreover have "fst ` set (map (\<lambda>k. (k, None :: string option)) [0..<8]) = {..<8 :: nat}" by (simp add: image_image atLeast0LessThan)
  ultimately show ?thesis by (simp only: fle_outputs_def)
qed

lemma fb_of_net_Some: "fb_of_net outs n = Some j \<Longrightarrow> (j, Some n) \<in> set outs"
proof -
  have "foldl (\<lambda>d (j, net). case net of None \<Rightarrow> d | Some n \<Rightarrow> d(n \<mapsto> j)) d outs n = Some j
    \<Longrightarrow> d n = Some j \<or> (j, Some n) \<in> set outs" for d
    by (induction outs arbitrary: d) (fastforce split: option.splits if_splits)+
  from this [of Map.empty] show "fb_of_net outs n = Some j \<Longrightarrow> (j, Some n) \<in> set outs" by (simp add: fb_of_net_def)
qed

lemma tile_fb_range: "list_all (\<lambda>(gi, fl). gi < CLB_N) fles \<Longrightarrow> tile_fb fles n = Some j \<Longrightarrow> j < CLB_N"
proof -
  assume a: "list_all (\<lambda>(gi, fl). gi < CLB_N) fles" "tile_fb fles n = Some j"
  then have "j \<in> fst ` set (fle_outputs fles)" by (force simp: tile_fb_def dest: fb_of_net_Some)
  with a(1) show ?thesis by (auto simp: fle_outputs_keys list_all_iff)
qed

section \<open>From the classes to the pins\<close>

definition pin_of :: "(string \<times> nat set) list \<Rightarrow> (string \<Rightarrow> nat) \<Rightarrow> string \<Rightarrow> nat" where
  "pin_of ncs cl net = the (map_of (iib_pins_of ncs) (net, cl net))"

lemma held_pin:
  assumes "classes_ok ncs" and "card (held ncs c) \<le> 9" and "c < 2" and "net \<in> held ncs c"
  shows "\<exists>pin. map_of (iib_pins_of ncs) (net, c) = Some pin \<and> pin < CLB_EXT_IN \<and> pin mod 2 = c"
proof -
  note n = nets_of_class_props [OF assms(1), of c]
  then have "length (nets_of_class ncs c) = card (held ncs c)" using distinct_card by fastforce
  moreover obtain i where i: "i < length (nets_of_class ncs c)" "net = nets_of_class ncs c ! i"
    using assms(4) n(2) by (metis in_set_conv_nth)
  ultimately have "i < 9" using assms(2) by simp
  moreover have "map_of (iib_pins_of ncs) (net, c) = Some (c + 2 * i)"
    using i assms(3) by (simp add: pins_lookup [OF assms(1)])
  ultimately show ?thesis using assms(3) by (auto simp: less_2)
qed

lemma tile_pins_given:
  assumes ok: "clb_ok names canon clb fles" and gi: "(gi, fl) \<in> set fles"
    and sol: "solution 9 2 (tile_ext names canon fles) cls" and ncs: "classes_ok ncs"
    and held: "\<And>c. c < 2 \<Longrightarrow> held ncs c = class_nets (tile_ext names canon fles) cls c"
  defines "dem \<equiv> tile_demand names canon fles gi fl"
  shows "pins_given gi (d_ext dem) (d_fb dem) (chosen (tile_ext names canon fles) cls) (iib_pins_of ncs) (cls gi) (pin_of ncs (cls gi))"
    and "net \<in> fst ` set (d_ext dem) \<Longrightarrow>
      map_of (iib_pins_of ncs) (net, cls gi net) = Some (pin_of ncs (cls gi) net)
      \<and> pin_of ncs (cls gi) net < CLB_EXT_IN \<and> pin_of ncs (cls gi) net mod 2 = cls gi net"
proof -
  let ?ext = "tile_ext names canon fles" and ?cov = "tile_cover names fles gi fl"
  have cov: "cover_ok canon ?cov" using ok gi by (auto simp: clb_ok_def list_all_iff)
  note props = demand_of_props [OF cov, where fb = "tile_fb fles" and tt = "cover_tt ?cov"]
  have dem: "dem = demand_of canon (tile_fb fles) ?cov (cover_tt ?cov)" by (simp add: dem_def tile_demand_def Let_def)
  let ?nets = "ext_inputs canon (tile_fb fles) ?cov"
  have keys: "set ?nets = fst ` set (d_ext dem)" using props(3) dem by (metis set_map set_sort)
  have entry: "?nets \<noteq> [] \<Longrightarrow> (gi, ?nets) \<in> set ?ext" using gi by (force simp: tile_ext_def)
  have at: "classes = Some (cls gi net) \<and> cls gi net < 2 \<and> map_of (iib_pins_of ncs) (net, cls gi net) = Some (pin_of ncs (cls gi) net)
      \<and> pin_of ncs (cls gi) net < CLB_EXT_IN \<and> pin_of ncs (cls gi) net mod 2 = cls gi net"
    if net: "net \<in> fst ` set (d_ext dem)" and classes: "classes = chosen ?ext cls (gi, net)" for net classes
  proof -
    from net keys have n: "net \<in> set ?nets" by simp
    then have e: "(gi, ?nets) \<in> set ?ext" by (intro entry) auto
    with sol n have lt: "cls gi net < 2" by (auto simp: solution_def slots_ok_def)
    from e n have "net \<in> class_nets ?ext cls (cls gi net)" by (auto simp: class_nets_def)
    with held [OF lt] have h: "net \<in> held ncs (cls gi net)" by simp
    have "card (held ncs (cls gi net)) \<le> 9" using sol lt held by (simp add: solution_def)
    from held_pin [OF ncs this lt h] have "map_of (iib_pins_of ncs) (net, cls gi net) = Some (pin_of ncs (cls gi) net)
      \<and> pin_of ncs (cls gi) net < CLB_EXT_IN \<and> pin_of ncs (cls gi) net mod 2 = cls gi net"
      by (auto simp: pin_of_def)
    moreover have "chosen ?ext cls (gi, net) = Some (cls gi net)" using e n by (auto simp: chosen_def)
    ultimately show ?thesis using lt classes by blast
  qed
  then show "net \<in> fst ` set (d_ext dem) \<Longrightarrow>
      map_of (iib_pins_of ncs) (net, cls gi net) = Some (pin_of ncs (cls gi) net)
      \<and> pin_of ncs (cls gi) net < CLB_EXT_IN \<and> pin_of ncs (cls gi) net mod 2 = cls gi net" by blast
  have "card {net \<in> fst ` set (d_ext dem). cls gi net = c} \<le> 2" if "c < 2" for c
  proof (cases "?nets = []")
    case True
    then have "{net \<in> fst ` set (d_ext dem). cls gi net = c} = {}" using keys by auto
    then show ?thesis by (simp only: card.empty)
  next
    case False
    then show ?thesis using sol that entry by (auto simp: solution_def slots_ok_def simp flip: keys)
  qed
  with at props(1,2) show "pins_given gi (d_ext dem) (d_fb dem) (chosen ?ext cls) (iib_pins_of ncs) (cls gi) (pin_of ncs (cls gi))"
    unfolding pins_given_def dem [symmetric] by blast
qed

lemma ready_pins:
  assumes "cover_ok canon cov" and dem: "dem = demand_of canon fb cov (cover_tt cov)"
    and given: "pins_given gi (d_ext dem) (d_fb dem) classes pins cl pin"
    and range: "\<forall>net \<in> fst ` set (d_ext dem). pin net < CLB_EXT_IN \<and> pin net mod 2 = cl net"
    and fb: "\<forall>net j. fb net = Some j \<longrightarrow> j < CLB_N"
  obtains gk_map where "assign_lut_gk gi (d_ext dem) (d_fb dem) classes pins = Inr gk_map"
    and "lut_pins_ok dem fb cl pin gk_map"
  using assign_lut_gk_ok [OF given] range fb that unfolding lut_pins_ok_def by blast

lemma ready:
  assumes cov: "cover_ok canon cov" and dem: "dem = demand_of canon fb cov (cover_tt cov)"
    and given: "pins_given gi (d_ext dem) (d_fb dem) classes pins cl pin"
    and range: "\<forall>net \<in> fst ` set (d_ext dem). pin net < CLB_EXT_IN \<and> pin net mod 2 = cl net"
    and fb: "\<forall>net j. fb net = Some j \<longrightarrow> j < CLB_N"
  shows "lut_ready dem gi classes pins"
proof -
  obtain gk_map where assign: "assign_lut_gk gi (d_ext dem) (d_fb dem) classes pins = Inr gk_map"
    and ok: "lut_pins_ok dem fb cl pin gk_map"
    using ready_pins [OF cov dem given range fb] by blast
  have len: "length gk_map = 4" using lut_pins_map [OF ok] unfolding gk_map_ok_def by blast
  show ?thesis
  proof (cases cov)
    case None
    then have e: "d_ext dem = []" "d_fb dem = []" "d_tt dem = None" by (simp_all add: dem demand_of_def no_demand_def)
    have "gk_map ! gk \<noteq> Some (kind, idx, net)" if "gk < 4" for gk kind idx net
      using gk_map_entryD [OF lut_pins_map [OF ok] that] e by auto
    moreover have "phys_tt_of dem logpos = Inr 0" for logpos by (simp add: phys_tt_of_def e)
    ultimately show ?thesis using assign len unfolding lut_ready_def by blast
  next
    case (Some c)
    obtain il cubes where c: "c = (il, cubes)" by (cases c)
    with Some cov have d: "distinct (map canon il)" and four: "length il \<le> 4" by (auto simp: cover_ok_def)
    from Some c cov cover_tt_ok obtain tt where "cover_tt cov = Some tt" by blast
    with Some c dem have dem': "dem = demand_of canon fb (Some (il, cubes)) (Some tt)" by simp
    show ?thesis
      unfolding lut_ready_def
    proof (rule exI [of _ gk_map], intro conjI allI impI)
      show "assign_lut_gk gi (d_ext dem) (d_fb dem) classes pins = Inr gk_map" by (rule assign)
      show "length gk_map = 4" by (rule len)
    next
      fix gk kind idx net assume "gk < (4::nat)" "gk_map ! gk = Some (kind, idx, net)"
      note known = entry_known [OF ok [unfolded dem'] d this, folded dem']
      show "\<exists>sel. iib_sel_for gi gk (kind, int idx) = Inr sel" by (rule known(1))
      show "pos_of dem net \<noteq> None" using known(2) by auto
    next
      fix logpos assume "logpos_ok dem gk_map logpos"
      from phys_tt_ok [OF ok [unfolded dem'] this [unfolded dem'] d four, folded dem']
      show "\<exists>tt. phys_tt_of dem logpos = Inr tt" by blast
    qed
  qed
qed

section \<open>The built tile\<close>

text \<open>What the configuration of one LUT amounts to: its table, read through the muxes of the tile,
  is its cover of the nets.\<close>

definition computes ::
  "(string \<Rightarrow> string) \<Rightarrow> (string \<rightharpoonup> nat) \<Rightarrow> cover option \<Rightarrow> tile_logic \<Rightarrow> nat \<Rightarrow> elut_config \<Rightarrow> bool" where
  "computes canon fb cov tile gi ec \<longleftrightarrow>
     (\<forall>input_bits clb. bit_at (ec_tt ec) (nat (lut_vin (net_pin tile input_bits clb gi)))
        = of_bool (lut_function canon fb cov input_bits clb))"

lemma built_computes:
  assumes cov: "cover_ok canon cov" and dem: "dem = demand_of canon fb cov (cover_tt cov)"
    and given: "pins_given gi (d_ext dem) (d_fb dem) classes pins cl pin"
    and range: "\<forall>net \<in> fst ` set (d_ext dem). pin net < CLB_EXT_IN \<and> pin net mod 2 = cl net"
    and fb: "\<forall>net j. fb net = Some j \<longrightarrow> j < CLB_N"
    and built: "lut_built dem gi classes pins tile tt" and ins: "inputs_ok tile dem pin"
  shows "computes canon fb cov tile gi (new_elut tt ff) \<and> reads_cover canon fb cov tile gi (new_elut tt ff)"
proof -
  obtain gk_map where assign: "assign_lut_gk gi (d_ext dem) (d_fb dem) classes pins = Inr gk_map"
    and ok: "lut_pins_ok dem fb cl pin gk_map"
    using ready_pins [OF cov dem given range fb] by blast
  from built assign obtain logpos where lp: "logpos_ok dem gk_map logpos" and tt: "phys_tt_of dem logpos = Inr tt"
    and row: "row_ok tile gi gk_map" unfolding lut_built_def by auto
  show ?thesis
  proof (cases cov)
    case None
    then have "d_tt dem = None" by (simp add: dem demand_of_def no_demand_def)
    with tt have "tt = 0" by (simp add: phys_tt_of_def)
    with None show ?thesis
      by (simp add: computes_def reads_cover_def reads_pin_def list_ex_iff new_elut_def lut_function_def bit_at_of_bool)
  next
    case (Some c)
    obtain il cubes where c: "c = (il, cubes)" by (cases c)
    with Some cov have d: "distinct (map canon il)" and four: "length il \<le> 4" by (auto simp: cover_ok_def)
    from Some c cov cover_tt_ok obtain ltt where l: "blif_names_to_logical_tt il cubes = Inr ltt" "cover_tt cov = Some ltt" by blast
    with Some c dem have dem': "dem = demand_of canon fb (Some (il, cubes)) (Some ltt)" by simp
    from phys_tt_ok [OF ok [unfolded dem'] lp [unfolded dem'] d four, folded dem'] tt
    have table: "table_ok il ltt logpos tt" by simp
    have "computes canon fb cov tile gi (new_elut tt ff)"
      using lut_computes [OF ok [unfolded dem'] lp [unfolded dem'] table l(1) d row ins [unfolded dem']] Some c
      by (simp add: computes_def new_elut_def lut_function_def)
    moreover have "reads_cover canon fb cov tile gi (new_elut tt ff)"
      unfolding reads_cover_def
    proof (intro allI impI)
      fix gk assume "gk < CLB_K" and "reads_pin (ec_tt (new_elut tt ff)) gk"
      then have "gk < 4" "reads_pin tt gk" by (simp_all add: new_elut_def)
      from lut_reads [OF ok [unfolded dem'] lp [unfolded dem'] table d row ins [unfolded dem'] this]
      show "\<exists>net \<in> set (cover_inputs canon cov). case fb net of
          Some j \<Rightarrow> iib_decode (sel_of tile gi gk) gk = (''fle'', int j)
        | None \<Rightarrow> \<exists>i < CLB_EXT_IN. iib_decode (sel_of tile gi gk) gk = (''clb.I'', int i) \<and> get_opt (tl_inputs tile) i = Some net"
        unfolding cover_inputs_def Some c by simp
    qed
    ultimately show ?thesis by blast
  qed
qed

lemma built_sels:
  assumes "lut_built dem gi classes pins tile tt" and "gk < CLB_K"
  shows "0 \<le> sel_of tile gi gk \<and> sel_of tile gi gk \<le> IIB_SEL_MAX"
proof -
  from assms(1) obtain gk_map where "row_ok tile gi gk_map" unfolding lut_built_def by blast
  with assms(2) have "case gk_map ! gk of None \<Rightarrow> tl_iib_mux tile (gi, gk) = Some 0
      | Some (kind, idx, net) \<Rightarrow> \<exists>sel. iib_sel_for gi gk (kind, int idx) = Inr sel \<and> tl_iib_mux tile (gi, gk) = Some sel"
    unfolding row_ok_def by blast
  then show ?thesis
    by (auto simp: sel_of_def split: option.splits prod.splits dest: iib_sel_ok)
qed

definition tile_built :: "(string \<times> cover) list \<Rightarrow> (string \<Rightarrow> string) \<Rightarrow> (nat \<times> xml) list \<Rightarrow> tile_logic \<Rightarrow> bool" where
  "tile_built names canon fles tile \<longleftrightarrow>
     map fst (tl_eluts tile) = map fst fles \<and> tl_outputs tile = fle_outputs fles
     \<and> length (tl_inputs tile) = CLB_EXT_IN
     \<and> (\<forall>gi gk. gk < CLB_K \<longrightarrow> 0 \<le> sel_of tile gi gk \<and> sel_of tile gi gk \<le> IIB_SEL_MAX)
     \<and> (\<forall>(gi, fl) \<in> set fles. \<exists>ec. map_of (tl_eluts tile) gi = Some ec \<and> ec_ff_en ec = fle_ff_used fl
          \<and> \<not> ec_out_inv ec \<and> \<not> ec_ff_rst_val ec
          \<and> computes canon (tile_fb fles) (tile_cover names fles gi fl) tile gi ec
          \<and> reads_cover canon (tile_fb fles) (tile_cover names fles gi fl) tile gi ec)"

text \<open>Naming more pins of a tile than the builder does changes nothing: its LUTs do not read them.\<close>

definition extends_inputs :: "(nat \<times> string option) list \<Rightarrow> (nat \<times> string option) list \<Rightarrow> bool" where
  "extends_inputs ins ins' \<longleftrightarrow> length ins' = length ins \<and> (\<forall>i n. get_opt ins i = Some n \<longrightarrow> get_opt ins' i = Some n)"

lemma build_tile_any_names:
  assumes ok: "clb_ok names canon clb fles"
  obtains (infeasible) "build_tile names canon clb = Inl Infeasible" "\<nexists>cls. solution 9 2 (tile_ext names canon fles) cls"
  | (built) tile where "build_tile names canon clb = Inr tile" "\<exists>cls. solution 9 2 (tile_ext names canon fles) cls"
      "map fst (tl_inputs tile) = [0..<CLB_EXT_IN]"
      "\<And>ins. extends_inputs (tl_inputs tile) ins \<Longrightarrow> tile_built names canon fles (tile\<lparr>tl_inputs := ins\<rparr>)"
proof -
  let ?ds = "map (\<lambda>(gi, fl). (gi, tile_demand names canon fles gi fl)) fles"
  let ?ext = "tile_ext names canon fles" and ?outs = "fle_outputs fles"
  from ok have fles: "fles_of clb = Inr fles" and d: "distinct (map fst fles)"
    and small: "list_all (\<lambda>(gi, fl). gi < CLB_N) fles"
    and covs: "\<And>gi fl. (gi, fl) \<in> set fles \<Longrightarrow> cover_ok canon (tile_cover names fles gi fl)"
    by (auto simp: clb_ok_def list_all_iff)
  have fb: "\<forall>net j. tile_fb fles net = Some j \<longrightarrow> j < CLB_N" using tile_fb_range [OF small] by blast
  note dems = tile_demands [OF ok]
  have sub: "distinct (map fst (filter P (map (\<lambda>(gi, fl). (gi, f gi fl)) fles)))" for P f
    using d by (intro distinct_map_filter) (simp add: comp_def split_def)
  have keys: "lut_keys_ok ?ext"
    unfolding lut_keys_ok_def
  proof
    show "distinct (map fst ?ext)" unfolding tile_ext_def by (rule sub)
    show "\<forall>(gi, nets) \<in> set ?ext. distinct nets"
    proof (clarify)
      fix gi nets assume "(gi, nets) \<in> set ?ext"
      then obtain fl where fl: "(gi, fl) \<in> set fles" and n: "nets = ext_inputs canon (tile_fb fles) (tile_cover names fles gi fl)"
        by (auto simp: tile_ext_def)
      from demand_of_props(1) [OF covs [OF fl], where fb = "tile_fb fles" and tt = None]
        demand_of_props(3) [OF covs [OF fl], where fb = "tile_fb fles" and tt = None]
      show "distinct nets" unfolding n by (metis distinct_sort)
    qed
  qed
  have start: "build_tile names canon clb =
      res_bind (solve_iib_classes ?ext 9 2) (\<lambda>solved.
        case solved of None \<Rightarrow> Inl Infeasible
        | Some (classes, ncs) \<Rightarrow>
            configure_luts ?ds classes (iib_pins_of ncs) fles
              \<lparr>tl_eluts = [], tl_iib_mux = Map.empty, tl_inputs = cluster_inputs_of (iib_pins_of ncs), tl_outputs = ?outs\<rparr>)"
    unfolding build_tile_def fles res_bind.simps Let_def dems(1,2,3) by simp
  from keys show thesis
  proof (cases rule: solve_cases [where pb = 9 and slots = 2])
    case none
    then show thesis using start infeasible by simp
  next
    case (some cls ncs)
    let ?pins = "iib_pins_of ncs" and ?classes = "chosen ?ext cls"
    let ?t0 = "\<lparr>tl_eluts = [], tl_iib_mux = Map.empty, tl_inputs = cluster_inputs_of ?pins, tl_outputs = ?outs\<rparr>"
    define dem where "dem gi = the (map_of ?ds gi)" for gi
    have dem: "map_of ?ds gi = Some (dem gi)" "dem gi = tile_demand names canon fles gi fl" if "(gi, fl) \<in> set fles" for gi fl
      using dems(4) [OF that] by (simp_all add: dem_def)
    have pg: "pins_given gi (d_ext (dem gi)) (d_fb (dem gi)) ?classes ?pins (cls gi) (pin_of ncs (cls gi))"
      and pr: "\<And>net. net \<in> fst ` set (d_ext (dem gi)) \<Longrightarrow>
        map_of ?pins (net, cls gi net) = Some (pin_of ncs (cls gi) net)
        \<and> pin_of ncs (cls gi) net < CLB_EXT_IN \<and> pin_of ncs (cls gi) net mod 2 = cls gi net"
      if "(gi, fl) \<in> set fles" for gi fl
      unfolding dem(2) [OF that]
      using tile_pins_given [OF ok that some(2,3,4)] by blast+
    have pr2: "\<forall>net \<in> fst ` set (d_ext (dem gi)). pin_of ncs (cls gi) net < CLB_EXT_IN \<and> pin_of ncs (cls gi) net mod 2 = cls gi net"
      if "(gi, fl) \<in> set fles" for gi fl
      using pr [OF that] by blast
    have de: "dem gi = demand_of canon (tile_fb fles) (tile_cover names fles gi fl) (cover_tt (tile_cover names fles gi fl))"
      if "(gi, fl) \<in> set fles" for gi fl
      by (simp add: dem(2) [OF that] tile_demand_def Let_def)
    have "\<forall>gi \<in> fst ` set fles. map_of ?ds gi = Some (dem gi) \<and> lut_ready (dem gi) gi ?classes ?pins"
    proof
      fix gi assume "gi \<in> fst ` set fles"
      then obtain fl where fl: "(gi, fl) \<in> set fles" by auto
      have "lut_ready (dem gi) gi ?classes ?pins"
        by (rule ready [OF covs [OF fl] de [OF fl] pg [OF fl] pr2 [OF fl] fb])
      with dem(1) [OF fl] show "map_of ?ds gi = Some (dem gi) \<and> lut_ready (dem gi) gi ?classes ?pins" by blast
    qed
    from configure_luts_ok [OF this d, of ?t0] obtain tile where
        t: "configure_luts ?ds ?classes ?pins fles ?t0 = Inr tile"
      and io: "tl_inputs tile = cluster_inputs_of ?pins" "tl_outputs tile = ?outs"
      and el: "map fst (tl_eluts tile) = map fst fles"
      and each: "\<forall>(gi, fl) \<in> set fles. \<exists>tt. map_of (tl_eluts tile) gi = Some (new_elut tt (fle_ff_used fl))
         \<and> lut_built (dem gi) gi ?classes ?pins tile tt"
      and none: "\<forall>g. g \<notin> fst ` set fles \<longrightarrow> (\<forall>k. tl_iib_mux tile (g, k) = None)"
      by auto
    have pins18: "pin < CLB_EXT_IN" if "((net, c), pin) \<in> set ?pins" for net c pin
    proof -
      from that have c: "c < 2" by (simp add: pins_mem)
      have look: "map_of ?pins (net, c) = Some pin" using that pins_keys [OF some(3)] by simp
      then have "net \<in> set (nets_of_class ncs c)" by (auto simp: pins_lookup [OF some(3)])
      then have h: "net \<in> held ncs c" by (simp add: nets_of_class_props(2) [OF some(3)])
      have "card (held ncs c) \<le> 9" using some(2) some(4) [OF c] c by (simp add: solution_def)
      from held_pin [OF some(3) this c h] look show ?thesis by auto
    qed
    note ci = cluster_inputs_props [of ncs, OF pins18]
    have len: "length (tl_inputs tile) = CLB_EXT_IN" using arg_cong [OF ci(1), where f = length] io(1) by simp
    have names18: "map fst (tl_inputs tile) = [0..<CLB_EXT_IN]" using ci(1) io(1) by simp
    have "tile_built names canon fles (tile\<lparr>tl_inputs := ins\<rparr>)" if ext: "extends_inputs (tl_inputs tile) ins" for ins
      unfolding tile_built_def
    proof (intro conjI ballI)
      let ?T = "tile\<lparr>tl_inputs := ins\<rparr>"
      have sel: "sel_of ?T = sel_of tile" by (simp add: fun_eq_iff sel_of_def)
      show "map fst (tl_eluts ?T) = map fst fles" using el by simp
      show "tl_outputs ?T = ?outs" using io(2) by simp
      show lenT: "length (tl_inputs ?T) = CLB_EXT_IN" using len ext by (simp add: extends_inputs_def)
      show "\<forall>gi gk. gk < CLB_K \<longrightarrow> 0 \<le> sel_of ?T gi gk \<and> sel_of ?T gi gk \<le> IIB_SEL_MAX"
        unfolding sel
      proof (intro allI impI)
        fix gi gk :: nat assume gk: "gk < 4"
        show "0 \<le> sel_of tile gi gk \<and> sel_of tile gi gk \<le> IIB_SEL_MAX"
        proof (cases "gi \<in> fst ` set fles")
          case True
          then obtain fl where "(gi, fl) \<in> set fles" by auto
          with each obtain tt where "lut_built (dem gi) gi ?classes ?pins tile tt" by blast
          from built_sels [OF this gk] show ?thesis .
        next
          case False
          with none show ?thesis by (simp add: sel_of_def)
        qed
      qed
      fix x assume x: "x \<in> set fles"
      obtain gi fl where xe: "x = (gi, fl)" by (cases x)
      with x have fl: "(gi, fl) \<in> set fles" by simp
      from each fl obtain tt where tt: "map_of (tl_eluts tile) gi = Some (new_elut tt (fle_ff_used fl))"
        and b: "lut_built (dem gi) gi ?classes ?pins tile tt" by blast
      have mux: "tl_iib_mux ?T = tl_iib_mux tile" by simp
      have b': "lut_built (dem gi) gi ?classes ?pins ?T tt" using b unfolding lut_built_def row_ok_def mux .
      have "inputs_ok ?T (dem gi) (pin_of ncs (cls gi))"
        unfolding inputs_ok_def
      proof (intro conjI ballI)
        show "length (tl_inputs ?T) = CLB_EXT_IN" by (rule lenT)
        fix net assume "net \<in> fst ` set (d_ext (dem gi))"
        from pr [OF fl this] have "((net, cls gi net), pin_of ncs (cls gi) net) \<in> set ?pins" by (metis map_of_SomeD)
        from ci(2) [OF _ this] have "get_opt (tl_inputs tile) (pin_of ncs (cls gi) net) = Some net" by (simp add: io(1))
        with ext show "get_opt (tl_inputs ?T) (pin_of ncs (cls gi) net) = Some net" by (simp add: extends_inputs_def)
      qed
      from built_computes [OF covs [OF fl] de [OF fl] pg [OF fl] pr2 [OF fl] fb b' this]
      have "computes canon (tile_fb fles) (tile_cover names fles gi fl) ?T gi (new_elut tt (fle_ff_used fl))"
        and "reads_cover canon (tile_fb fles) (tile_cover names fles gi fl) ?T gi (new_elut tt (fle_ff_used fl))" by blast+
      with tt show "case x of (gi, fl) \<Rightarrow> \<exists>ec. map_of (tl_eluts ?T) gi = Some ec \<and> ec_ff_en ec = fle_ff_used fl
          \<and> \<not> ec_out_inv ec \<and> \<not> ec_ff_rst_val ec
          \<and> computes canon (tile_fb fles) (tile_cover names fles gi fl) ?T gi ec
          \<and> reads_cover canon (tile_fb fles) (tile_cover names fles gi fl) ?T gi ec"
        by (auto simp: xe new_elut_def)
    qed
    moreover have "build_tile names canon clb = Inr tile" using start t some(1) by simp
    moreover have "\<exists>cls. solution 9 2 ?ext cls" using some(2) by blast
    ultimately show thesis using names18 by (intro built) (assumption | rule)+
  qed
qed

lemma extends_self: "extends_inputs ins ins"
  by (simp add: extends_inputs_def)

lemma build_tile_cases:
  assumes ok: "clb_ok names canon clb fles"
  obtains (infeasible) "build_tile names canon clb = Inl Infeasible" "\<nexists>cls. solution 9 2 (tile_ext names canon fles) cls"
  | (built) tile where "build_tile names canon clb = Inr tile" "\<exists>cls. solution 9 2 (tile_ext names canon fles) cls"
      "tile_built names canon fles tile"
proof (cases rule: build_tile_any_names [OF ok])
  case 1
  then show thesis by (rule infeasible)
next
  case (2 tile)
  from 2(4) [OF extends_self] have "tile_built names canon fles tile" by simp
  with 2(1,2) show thesis by (rule built)
qed

end
