(* ===== verification/Bitgen_Run.thy ===== *)
theory Bitgen_Run
  imports Bitgen_Build Bitgen_Settle
begin

text \<open>
  Running a built tile: under an order of its LUTs the sweeps of \<open>simulate_tile\<close> end in the one
  valuation of the driven nets that satisfies every LUT equation of the netlist, and the
  bit-level evaluator of fabric_sim.py goes through the same states.
\<close>

section \<open>A tile that implements its LUTs\<close>

text \<open>A LUT with no eLUT in the tile has the constant-zero function and no register.\<close>

definition tile_runs :: "(string \<times> cover) list \<Rightarrow> (string \<Rightarrow> string) \<Rightarrow> (nat \<times> xml) list \<Rightarrow> tile_logic \<Rightarrow> bool" where
  "tile_runs names canon fles tile \<longleftrightarrow>
     distinct (map fst (tl_eluts tile)) \<and> fst ` set (tl_eluts tile) \<subseteq> fst ` set fles
     \<and> tl_outputs tile = fle_outputs fles
     \<and> (\<forall>(gi, fl) \<in> set fles.
          case map_of (tl_eluts tile) gi of
            None \<Rightarrow> \<not> fle_ff_used fl
              \<and> (\<forall>input_bits clb. \<not> lut_function canon (tile_fb fles) (tile_cover names fles gi fl) input_bits clb)
          | Some ec \<Rightarrow> ec_ff_en ec = fle_ff_used fl \<and> \<not> ec_out_inv ec \<and> \<not> ec_ff_rst_val ec
              \<and> computes canon (tile_fb fles) (tile_cover names fles gi fl) tile gi ec)"

lemma tile_built_runs:
  assumes "tile_built names canon fles tile" and "distinct (map fst fles)"
  shows "tile_runs names canon fles tile"
proof -
  from assms(1) have k: "map fst (tl_eluts tile) = map fst fles" by (simp add: tile_built_def)
  then have "fst ` set (tl_eluts tile) = fst ` set fles" by (metis set_map)
  with assms k show ?thesis by (fastforce simp: tile_built_def tile_runs_def)
qed

text \<open>The value that a LUT puts out, from the netlist\<close>

definition lut_out ::
  "(string \<times> cover) list \<Rightarrow> (string \<Rightarrow> string) \<Rightarrow> (nat \<times> xml) list \<Rightarrow> (string \<rightharpoonup> int) \<Rightarrow> (nat \<rightharpoonup> int) \<Rightarrow> (nat \<rightharpoonup> int)
     \<Rightarrow> nat \<Rightarrow> xml \<Rightarrow> int" where
  "lut_out names canon fles input_bits ff_state clb gi fl =
     (if fle_ff_used fl then (case ff_state gi of None \<Rightarrow> 0 | Some b \<Rightarrow> b AND 1)
      else of_bool (lut_function canon (tile_fb fles) (tile_cover names fles gi fl) input_bits clb))"

lemma runs_elut_out:
  assumes runs: "tile_runs names canon fles tile" and gi: "(gi, fl) \<in> set fles" and ec: "map_of (tl_eluts tile) gi = Some ec"
  shows "elut_out tile input_bits ff_state clb gi ec = lut_out names canon fles input_bits ff_state clb gi fl"
proof -
  from runs gi have "case map_of (tl_eluts tile) gi of
            None \<Rightarrow> \<not> fle_ff_used fl
              \<and> (\<forall>input_bits clb. \<not> lut_function canon (tile_fb fles) (tile_cover names fles gi fl) input_bits clb)
          | Some ec \<Rightarrow> ec_ff_en ec = fle_ff_used fl \<and> \<not> ec_out_inv ec \<and> \<not> ec_ff_rst_val ec
              \<and> computes canon (tile_fb fles) (tile_cover names fles gi fl) tile gi ec"
    unfolding tile_runs_def by blast
  then have e: "ec_ff_en ec = fle_ff_used fl" "\<not> ec_out_inv ec" "\<not> ec_ff_rst_val ec"
    and c: "computes canon (tile_fb fles) (tile_cover names fles gi fl) tile gi ec"
    by (simp_all add: ec)
  from c have "bit_at (ec_tt ec) (nat (lut_vin (net_pin tile input_bits clb gi)))
      = of_bool (lut_function canon (tile_fb fles) (tile_cover names fles gi fl) input_bits clb)"
    unfolding computes_def by blast
  with e show ?thesis by (simp add: elut_out_def elut_value_def lut_out_def split: option.split)
qed

section \<open>Order\<close>

text \<open>\<open>lut_order\<close>: a LUT without a register reads LUTs of the tile of a lower rank only.\<close>

definition lut_order :: "(string \<times> cover) list \<Rightarrow> (string \<Rightarrow> string) \<Rightarrow> (nat \<times> xml) list \<Rightarrow> (nat \<Rightarrow> nat) \<Rightarrow> bool" where
  "lut_order names canon fles r \<longleftrightarrow>
     (\<forall>(gi, fl) \<in> set fles. \<not> fle_ff_used fl \<longrightarrow>
        list_all (\<lambda>m. case tile_fb fles m of None \<Rightarrow> True | Some j \<Rightarrow> r j < r gi)
          (cover_inputs canon (tile_cover names fles gi fl)))"

lemma cover_holds_cong: "(\<And>net. net \<in> set il \<Longrightarrow> v net = w net) \<Longrightarrow> cover_holds il cubes v = cover_holds il cubes w"
proof -
  assume "\<And>net. net \<in> set il \<Longrightarrow> v net = w net"
  then have "cube_holds il v spec = cube_holds il w spec" for spec
    unfolding cube_holds_def by (intro list_all_cong refl) (auto dest: set_zip_leftD)
  then show ?thesis by (simp add: cover_holds_def)
qed

lemma lut_function_cong:
  assumes "\<And>m. m \<in> set (cover_inputs canon cov) \<Longrightarrow> net_value fb ib clb m = net_value fb ib' clb' m"
  shows "lut_function canon fb cov ib clb = lut_function canon fb cov ib' clb'"
proof (cases cov)
  case None
  then show ?thesis by (simp add: lut_function_def)
next
  case (Some c)
  obtain il cubes where c: "c = (il, cubes)" by (cases c)
  have "cover_holds il cubes (\<lambda>net. odd (net_value fb ib clb (canon net)))
      = cover_holds il cubes (\<lambda>net. odd (net_value fb ib' clb' (canon net)))"
    by (rule cover_holds_cong) (use assms Some c in \<open>simp add: cover_inputs_def\<close>)
  with Some c show ?thesis by (simp add: lut_function_def)
qed

lemma lut_out_update:
  assumes order: "lut_order names canon fles r" and gi: "(gi, fl) \<in> set fles" and g: "r gi \<le> r g"
  shows "lut_out names canon fles ib ff (clb(g \<mapsto> out)) gi fl = lut_out names canon fles ib ff clb gi fl"
proof (cases "fle_ff_used fl")
  case True
  then show ?thesis by (simp add: lut_out_def)
next
  case False
  with order gi have low: "list_all (\<lambda>m. case tile_fb fles m of None \<Rightarrow> True | Some j \<Rightarrow> r j < r gi)
      (cover_inputs canon (tile_cover names fles gi fl))" unfolding lut_order_def by blast
  have "lut_function canon (tile_fb fles) (tile_cover names fles gi fl) ib (clb(g \<mapsto> out))
      = lut_function canon (tile_fb fles) (tile_cover names fles gi fl) ib clb"
  proof (rule lut_function_cong)
    fix m assume "m \<in> set (cover_inputs canon (tile_cover names fles gi fl))"
    with low g show "net_value (tile_fb fles) ib (clb(g \<mapsto> out)) m = net_value (tile_fb fles) ib clb m"
      by (force simp: list_all_iff net_value_def split: option.splits)
  qed
  then show ?thesis by (simp add: lut_out_def)
qed

lemma runs_ranked:
  assumes runs: "tile_runs names canon fles tile" and order: "lut_order names canon fles r"
  shows "ranked (elut_out tile input_bits ff_state) (tl_eluts tile) r"
  unfolding ranked_def
proof (clarify)
  fix gi ec clb g out
  assume e: "(gi, ec) \<in> set (tl_eluts tile)" and r: "r gi \<le> r (fst (g :: nat \<times> elut_config))"
  from runs have d: "distinct (map fst (tl_eluts tile))" and sub: "fst ` set (tl_eluts tile) \<subseteq> fst ` set fles"
    by (simp_all add: tile_runs_def)
  from e sub obtain fl where fl: "(gi, fl) \<in> set fles" by force
  from e d have ec: "map_of (tl_eluts tile) gi = Some ec" by simp
  show "elut_out tile input_bits ff_state (clb(fst g \<mapsto> out)) gi ec = elut_out tile input_bits ff_state clb gi ec"
    by (simp only: runs_elut_out [OF runs fl ec] lut_out_update [OF order fl r])
qed

section \<open>The settled outputs\<close>

lemma seed_other: "g \<notin> fst ` set (tl_eluts tile) \<Longrightarrow> seed_outputs tile ff g = (if g < CLB_N then Some 0 else None)"
proof -
  have "g \<notin> fst ` set es \<Longrightarrow> foldl (\<lambda>clb (gi, ec). if ec_ff_en ec then (case ff gi of None \<Rightarrow> clb | Some b \<Rightarrow> clb(gi \<mapsto> b AND 1)) else clb)
       clb es g = clb g" for clb and es :: "(nat \<times> elut_config) list"
    by (induction es arbitrary: clb) (auto split: option.split)
  then show "g \<notin> fst ` set (tl_eluts tile) \<Longrightarrow> ?thesis" by (simp add: seed_outputs_def)
qed

lemma settled_other: "g \<notin> fst ` set (tl_eluts tile) \<Longrightarrow> settled tile ib ff n g = (if g < CLB_N then Some 0 else None)"
  unfolding settled_def using settle_other seed_other by metis

lemma settled_defined: "g < CLB_N \<Longrightarrow> settled tile ib ff n g \<noteq> None"
  unfolding settled_def by (intro settle_defined seed_defined)

lemma settled_lut:
  assumes runs: "tile_runs names canon fles tile" and order: "lut_order names canon fles r"
    and small: "list_all (\<lambda>(gi, fl). gi < CLB_N) fles" and iters: "\<forall>gi \<in> fst ` set fles. r gi < n"
    and gi: "(gi, fl) \<in> set fles"
  shows "settled tile ib ff n gi = Some (lut_out names canon fles ib ff (settled tile ib ff n) gi fl)"
proof -
  from runs have d: "distinct (map fst (tl_eluts tile))" and sub: "fst ` set (tl_eluts tile) \<subseteq> fst ` set fles"
    by (simp_all add: tile_runs_def)
  have rest: "at_rest (elut_out tile ib ff) (tl_eluts tile) (settled tile ib ff n)"
    unfolding settled_def
    by (rule settle_reaches_rest [OF runs_ranked [OF runs order] d]) (use iters sub in blast)
  show ?thesis
  proof (cases "map_of (tl_eluts tile) gi")
    case (Some ec)
    then have "(gi, ec) \<in> set (tl_eluts tile)" by (rule map_of_SomeD)
    with rest have "settled tile ib ff n gi = Some (elut_out tile ib ff (settled tile ib ff n) gi ec)"
      unfolding at_rest_def by blast
    then show ?thesis by (simp only: runs_elut_out [OF runs gi Some])
  next
    case None
    then have out: "gi \<notin> fst ` set (tl_eluts tile)" by (simp add: map_of_eq_None_iff)
    have "gi < CLB_N" using small gi by (auto simp: list_all_iff)
    then have "settled tile ib ff n gi = Some 0" by (simp only: settled_other [OF out] if_True)
    moreover from runs gi have "case map_of (tl_eluts tile) gi of
            None \<Rightarrow> \<not> fle_ff_used fl
              \<and> (\<forall>input_bits clb. \<not> lut_function canon (tile_fb fles) (tile_cover names fles gi fl) input_bits clb)
          | Some ec \<Rightarrow> ec_ff_en ec = fle_ff_used fl \<and> \<not> ec_out_inv ec \<and> \<not> ec_ff_rst_val ec
              \<and> computes canon (tile_fb fles) (tile_cover names fles gi fl) tile gi ec"
      unfolding tile_runs_def by blast
    ultimately show ?thesis by (simp add: None lut_out_def)
  qed
qed

section \<open>The driven nets\<close>

lemma driven_nets_eq:
  assumes "\<forall>(gi, net) \<in> set outs. clb gi \<noteq> None" and "\<forall>n. d n = Option.bind (fb n) clb" and "\<forall>n j. fb n = Some j \<longrightarrow> clb j \<noteq> None"
  shows "driven_nets clb outs d
    = Inr (\<lambda>n. Option.bind (foldl (\<lambda>d (j, net). case net of None \<Rightarrow> d | Some n \<Rightarrow> d(n \<mapsto> j)) fb outs n) clb)"
  using assms
proof (induction outs arbitrary: d fb)
  case Nil
  then have "d = (\<lambda>n. Option.bind (fb n) clb)" by (intro ext) simp
  then show ?case by simp
next
  case (Cons e outs)
  obtain gi net where e: "e = (gi, net)" by (cases e)
  show ?case
  proof (cases net)
    case None
    with Cons e show ?thesis by simp
  next
    case (Some m)
    from Cons.prems(1) e obtain b where b: "clb gi = Some b" by auto
    have "driven_nets clb outs (d(m \<mapsto> b))
        = Inr (\<lambda>n. Option.bind (foldl (\<lambda>d (j, net). case net of None \<Rightarrow> d | Some n \<Rightarrow> d(n \<mapsto> j)) (fb(m \<mapsto> gi)) outs n) clb)"
      by (rule Cons.IH) (use Cons.prems b in auto)
    with e Some b show ?thesis by simp
  qed
qed

lemma simulate_runs:
  assumes runs: "tile_runs names canon fles tile" and small: "list_all (\<lambda>(gi, fl). gi < CLB_N) fles"
  shows "simulate_tile tile ib ff n = Inr (\<lambda>net. Option.bind (tile_fb fles net) (settled tile ib ff n))"
proof -
  from runs have o: "tl_outputs tile = fle_outputs fles" by (simp add: tile_runs_def)
  have "fst ` set (fle_outputs fles) \<subseteq> {..<CLB_N}"
    using small by (auto simp: fle_outputs_keys list_all_iff)
  then have "\<forall>(gi, net) \<in> set (fle_outputs fles). settled tile ib ff n gi \<noteq> None"
    by (intro ballI) (auto simp: settled_defined [simplified not_None_eq] dest!: subsetD [OF _ imageI])
  from driven_nets_eq [OF this, of Map.empty Map.empty] show ?thesis
    by (simp add: simulate_tile_def o tile_fb_def fb_of_net_def)
qed

text \<open>The valuation of the nets that a run shows, and the equations it has to satisfy\<close>

definition net_bit :: "(string \<rightharpoonup> int) \<Rightarrow> (string \<rightharpoonup> int) \<Rightarrow> string \<Rightarrow> bool" where
  "net_bit input_bits out net =
     odd (case out net of Some b \<Rightarrow> b | None \<Rightarrow> (case input_bits net of None \<Rightarrow> 0 | Some b \<Rightarrow> b))"

definition cover_bit :: "(string \<Rightarrow> string) \<Rightarrow> cover option \<Rightarrow> (string \<Rightarrow> bool) \<Rightarrow> bool" where
  "cover_bit canon cov v = (case cov of None \<Rightarrow> False | Some (il, cubes) \<Rightarrow> cover_holds il cubes (\<lambda>net. v (canon net)))"

definition solves ::
  "(string \<times> cover) list \<Rightarrow> (string \<Rightarrow> string) \<Rightarrow> (nat \<times> xml) list \<Rightarrow> (string \<rightharpoonup> int) \<Rightarrow> (nat \<rightharpoonup> int) \<Rightarrow> (string \<rightharpoonup> int) \<Rightarrow> bool" where
  "solves names canon fles input_bits ff_state out \<longleftrightarrow>
     (\<forall>(gi, fl) \<in> set fles. \<forall>net. tile_fb fles net = Some gi \<longrightarrow>
        out net = Some (if fle_ff_used fl then (case ff_state gi of None \<Rightarrow> 0 | Some b \<Rightarrow> b AND 1)
                        else of_bool (cover_bit canon (tile_cover names fles gi fl) (net_bit input_bits out))))"

lemma solvesD:
  "solves names canon fles input_bits ff_state out \<Longrightarrow> (gi, fl) \<in> set fles \<Longrightarrow> tile_fb fles net = Some gi \<Longrightarrow>
     out net = Some (if fle_ff_used fl then (case ff_state gi of None \<Rightarrow> 0 | Some b \<Rightarrow> b AND 1)
                     else of_bool (cover_bit canon (tile_cover names fles gi fl) (net_bit input_bits out)))"
  unfolding solves_def by blast

lemma lut_function_nets:
  assumes "\<And>net j. fb net = Some j \<Longrightarrow> clb j \<noteq> None"
  shows "lut_function canon fb cov ib clb = cover_bit canon cov (net_bit ib (\<lambda>net. Option.bind (fb net) clb))"
proof -
  have "odd (net_value fb ib clb net) = net_bit ib (\<lambda>net. Option.bind (fb net) clb) net" for net
    using assms [of net] by (auto simp: net_value_def net_bit_def split: option.split)
  then show ?thesis unfolding lut_function_def cover_bit_def by (simp only:)
qed

lemma runs_solves:
  assumes runs: "tile_runs names canon fles tile" and order: "lut_order names canon fles r"
    and small: "list_all (\<lambda>(gi, fl). gi < CLB_N) fles" and iters: "\<forall>gi \<in> fst ` set fles. r gi < n"
  shows "\<exists>out. simulate_tile tile ib ff n = Inr out \<and> solves names canon fles ib ff out"
proof -
  let ?clb = "settled tile ib ff n"
  let ?out = "\<lambda>net. Option.bind (tile_fb fles net) ?clb"
  have def: "?clb j \<noteq> None" if "tile_fb fles net = Some j" for net j
    using tile_fb_range [OF small that] by (rule settled_defined)
  have "solves names canon fles ib ff ?out"
    unfolding solves_def
  proof (clarify)
    fix gi fl net assume gi: "(gi, fl) \<in> set fles" and net: "tile_fb fles net = Some gi"
    have f: "lut_function canon (tile_fb fles) (tile_cover names fles gi fl) ib ?clb
        = cover_bit canon (tile_cover names fles gi fl) (net_bit ib ?out)"
      by (rule lut_function_nets) (rule def)
    show "?out net = Some (if fle_ff_used fl then (case ff gi of None \<Rightarrow> 0 | Some b \<Rightarrow> b AND 1)
        else of_bool (cover_bit canon (tile_cover names fles gi fl) (net_bit ib ?out)))"
      unfolding net Option.bind.simps settled_lut [OF runs order small iters gi, of ib ff] lut_out_def
        f by (rule refl)
  qed
  with simulate_runs [OF runs small] show ?thesis by blast
qed

end
