(* ===== verification/Bitgen_Bits.thy ===== *)
theory Bitgen_Bits
  imports Bitgen_Tile Bitgen_Settle
begin

text \<open>
  The bit-level evaluator of fabric_sim.py against the one over net values: with input bits that
  agree with the values of the input nets, every sweep of the one is a sweep of the other, no index is
  out of range, and the next register bits are the tables read at the settled outputs.
\<close>

definition inputs_match :: "tile_logic \<Rightarrow> (string \<rightharpoonup> int) \<Rightarrow> int list \<Rightarrow> bool" where
  "inputs_match tile input_bits clb_in \<longleftrightarrow>
     length clb_in = CLB_EXT_IN \<and> length (tl_inputs tile) = CLB_EXT_IN
     \<and> list_all (\<lambda>i. odd (clb_in ! i) =
          odd (case get_opt (tl_inputs tile) i of None \<Rightarrow> 0
               | Some net \<Rightarrow> (case input_bits net of None \<Rightarrow> 0 | Some b \<Rightarrow> b))) [0..<CLB_EXT_IN]"

definition same_outputs :: "(nat \<rightharpoonup> int) \<Rightarrow> int list \<Rightarrow> bool" where
  "same_outputs clb bs \<longleftrightarrow> length bs = CLB_N \<and> (\<forall>g < CLB_N. clb g = Some (bs ! g))"

lemma and_one_cong: "odd (a :: int) = odd b \<Longrightarrow> a AND 1 = b AND 1"
  by (simp add: and_one_eq mod_2_eq_odd)

lemma pool_bit_eq:
  assumes ins: "inputs_match tile ib clb_in" and same: "same_outputs clb bs"
  shows "pool_bit tile clb_in bs gi gk = Inr (net_pin tile ib clb gi gk AND 1)"
proof -
  obtain kind idx where dec: "iib_decode (sel_of tile gi gk) gk = (kind, idx)" by fastforce
  with iib_decode_range [of "sel_of tile gi gk" gk] have r: "0 \<le> idx" "kind \<noteq> ''clb.I'' \<Longrightarrow> idx < 8"
    by (auto simp: decode_ok_def split: if_splits)
  show ?thesis
  proof (cases "kind = ''clb.I''")
    case True
    show ?thesis
    proof (cases "idx < 18")
      case in18: True
      let ?v = "case get_opt (tl_inputs tile) (nat idx) of None \<Rightarrow> 0 :: int
               | Some net \<Rightarrow> (case ib net of None \<Rightarrow> 0 | Some b \<Rightarrow> b)"
      have "nat idx \<in> set [0..<18]" using in18 r(1) by simp
      with ins have "odd (clb_in ! nat idx) = odd ?v" unfolding inputs_match_def list_all_iff by blast
      from and_one_cong [OF this] have "clb_in ! nat idx AND 1 = ?v AND 1" .
      moreover have "length clb_in = 18" "length (tl_inputs tile) = 18" using ins by (simp_all add: inputs_match_def)
      ultimately show ?thesis
        using True in18 r(1) by (simp add: pool_bit_def net_pin_def dec nat_less_iff)
    next
      case False
      with True ins show ?thesis by (simp add: pool_bit_def net_pin_def dec inputs_match_def)
    qed
  next
    case False
    with r have "nat idx < 8" by (simp add: nat_less_iff)
    with same False show ?thesis by (simp add: pool_bit_def net_pin_def dec same_outputs_def)
  qed
qed

lemma pool_vin_eq:
  assumes "inputs_match tile ib clb_in" and "same_outputs clb bs"
  shows "pool_vin tile clb_in bs gi = Inr (lut_vin (net_pin tile ib clb gi))"
proof -
  have m: "res_map (pool_bit tile clb_in bs gi) [0..<4] = Inr (map (\<lambda>gk. net_pin tile ib clb gi gk AND 1) [0..<4])"
    by (rule res_map_total) (rule pool_bit_eq [OF assms])
  have "foldl (\<lambda>vin gk. vin OR push_bit gk (map (\<lambda>gk. net_pin tile ib clb gi gk AND 1) [0..<4] ! gk)) 0 [0..<4]
      = lut_vin (net_pin tile ib clb gi)"
    unfolding lut_vin_def by (rule foldl_cong) simp_all
  with m show ?thesis by (simp only: pool_vin_def res_bind.simps)
qed

lemma bits_out_eq:
  assumes "inputs_match tile ib clb_in" and "same_outputs clb bs"
  shows "bits_out tile clb_in ff bs gi ec = Inr (elut_out tile ib ff clb gi ec)"
  by (simp add: bits_out_def elut_out_def pool_vin_eq [OF assms])

lemma same_outputs_update:
  "same_outputs clb bs \<Longrightarrow> gi < CLB_N \<Longrightarrow> same_outputs (clb(gi \<mapsto> b)) (bs[gi := b])"
  by (auto simp: same_outputs_def nth_list_update)

lemma sweep_bits_eq:
  assumes ins: "inputs_match tile ib clb_in"
  shows "same_outputs clb bs \<Longrightarrow> \<forall>gi \<in> fst ` set es. gi < CLB_N \<Longrightarrow>
    \<exists>bs'. sweep_bits (bits_out tile clb_in ff) es bs c = Inr (bs', snd (sweep (elut_out tile ib ff) es (clb, c)))
      \<and> same_outputs (fst (sweep (elut_out tile ib ff) es (clb, c))) bs'"
proof (induction es arbitrary: clb bs c)
  case Nil
  then show ?case by simp
next
  case (Cons e es)
  obtain gi ec where e: "e = (gi, ec)" by (cases e)
  let ?out = "elut_out tile ib ff clb gi ec"
  have gi: "gi < 8" and rest: "\<forall>gi \<in> fst ` set es. gi < CLB_N" using Cons.prems(2) e by auto
  have at: "clb gi = Some (bs ! gi)" and len: "length bs = 8" using Cons.prems(1) gi by (auto simp: same_outputs_def)
  have step: "sweep_bits (bits_out tile clb_in ff) (e # es) bs c =
      (if bs ! gi \<noteq> ?out then sweep_bits (bits_out tile clb_in ff) es (bs[gi := ?out]) True
       else sweep_bits (bits_out tile clb_in ff) es bs c)"
    using gi len by (simp add: e bits_out_eq [OF ins Cons.prems(1)])
  show ?case
  proof (cases "bs ! gi = ?out")
    case True
    with Cons.IH [OF Cons.prems(1) rest, of c] step at show ?thesis by (simp add: e)
  next
    case False
    with Cons.IH [OF same_outputs_update [OF Cons.prems(1) gi] rest, of ?out True] step at show ?thesis
      by (simp add: e del: fun_upd_apply)
  qed
qed

lemma settle_bits_eq:
  assumes ins: "inputs_match tile ib clb_in"
  shows "same_outputs clb bs \<Longrightarrow> \<forall>gi \<in> fst ` set es. gi < CLB_N \<Longrightarrow>
    \<exists>bs'. settle_bits (bits_out tile clb_in ff) es n bs = Inr bs' \<and> same_outputs (settle (elut_out tile ib ff) es n clb) bs'"
proof (induction n arbitrary: clb bs)
  case 0
  then show ?case by simp
next
  case (Suc n)
  obtain clb' changed where s: "sweep (elut_out tile ib ff) es (clb, False) = (clb', changed)" by fastforce
  from sweep_bits_eq [OF ins Suc.prems, of ff False] s obtain bs' where
      b: "sweep_bits (bits_out tile clb_in ff) es bs False = Inr (bs', changed)" "same_outputs clb' bs'" by auto
  with Suc.IH [OF b(2) Suc.prems(2)] s show ?case by (cases changed) simp_all
qed

lemma seed_bits_eq:
  "same_outputs clb bs \<Longrightarrow> \<forall>gi \<in> fst ` set es. gi < CLB_N \<Longrightarrow>
    \<exists>bs'. seed_bits ff es bs = Inr bs' \<and> same_outputs
      (foldl (\<lambda>clb (gi, ec). if ec_ff_en ec then (case ff gi of None \<Rightarrow> clb | Some b \<Rightarrow> clb(gi \<mapsto> b AND 1)) else clb) clb es) bs'"
proof (induction es arbitrary: clb bs)
  case Nil
  then show ?case by simp
next
  case (Cons e es)
  obtain gi ec where e: "e = (gi, ec)" by (cases e)
  have gi: "gi < 8" and rest: "\<forall>gi \<in> fst ` set es. gi < CLB_N" using Cons.prems(2) e by auto
  have len: "length bs = 8" using Cons.prems(1) by (simp add: same_outputs_def)
  show ?case
  proof (cases "ec_ff_en ec \<and> ff gi \<noteq> None")
    case False
    with Cons.IH [OF Cons.prems(1) rest] show ?thesis by (auto simp: e)
  next
    case True
    then obtain b where b: "ff gi = Some b" by auto
    from Cons.IH [OF same_outputs_update [OF Cons.prems(1) gi] rest, of "b AND 1"] b True len gi show ?thesis
      by (simp add: e del: fun_upd_apply)
  qed
qed

lemma clb_eval_bits_eq:
  assumes "inputs_match tile ib clb_in" and "\<forall>gi \<in> fst ` set (tl_eluts tile). gi < CLB_N"
  shows "\<exists>bs. clb_eval_bits tile clb_in ff = Inr bs \<and> same_outputs (settled tile ib ff (CLB_N + 2)) bs"
proof -
  have zero: "same_outputs (\<lambda>gi. if gi < CLB_N then Some 0 else None) (replicate CLB_N 0)" by (simp add: same_outputs_def)
  from seed_bits_eq [OF zero assms(2), of ff] obtain bs where
      bs: "seed_bits ff (tl_eluts tile) (replicate CLB_N 0) = Inr bs" "same_outputs (seed_outputs tile ff) bs"
    unfolding seed_outputs_def by blast
  from settle_bits_eq [OF assms(1) bs(2) assms(2), of ff "CLB_N + 2"] show ?thesis
    unfolding clb_eval_bits_def settled_def by (simp only: bs(1) res_bind.simps)
qed

lemma foldl_update_map_of:
  "distinct (map fst xs) \<Longrightarrow> fst ` set xs \<inter> fst ` set d = {} \<Longrightarrow>
     foldl (\<lambda>d (gi, b). AList.update gi b d) d xs = d @ xs"
proof (induction xs arbitrary: d)
  case Nil
  then show ?case by simp
next
  case (Cons x xs)
  obtain gi b where [simp]: "x = (gi, b)" by (cases x)
  from Cons.prems have "AList.update gi b d = d @ [(gi, b)]" by (intro update_new) auto
  moreover have "fst ` set xs \<inter> fst ` set (d @ [(gi, b)]) = {}" using Cons.prems by auto
  ultimately show ?case using Cons by simp
qed

lemma clb_ff_next_eq:
  assumes ins: "inputs_match tile ib clb_in" and same: "same_outputs clb bs" and d: "distinct (map fst (tl_eluts tile))"
  shows "clb_ff_next tile clb_in bs
    = Inr (map (\<lambda>(gi, ec). (gi, bit_at (ec_tt ec) (nat (lut_vin (net_pin tile ib clb gi)))))
        (filter (\<lambda>(gi, ec). ec_ff_en ec) (tl_eluts tile)))"
proof -
  let ?es = "filter (\<lambda>(gi, ec). ec_ff_en ec) (tl_eluts tile)"
  let ?f = "\<lambda>(gi, ec). (gi, bit_at (ec_tt ec) (nat (lut_vin (net_pin tile ib clb gi))))"
  have m: "res_map (\<lambda>(gi, ec). res_bind (pool_vin tile clb_in bs gi) (\<lambda>vin. Inr (gi, bit_at (ec_tt ec) (nat vin)))) ?es
      = Inr (map ?f ?es)"
    by (rule res_map_total) (auto simp: pool_vin_eq [OF ins same])
  have "map fst (map ?f ?es) = map fst ?es" by (simp add: comp_def split_def)
  moreover have "distinct (map fst ?es)" using d by (rule distinct_map_filter)
  ultimately have "distinct (map fst (map ?f ?es))" by (simp only:)
  from foldl_update_map_of [OF this, of "[]"] show ?thesis
    by (simp only: clb_ff_next_def m res_bind.simps) simp
qed

end
