(* ===== verification/Bitgen_Next.thy ===== *)
theory Bitgen_Next
  imports Bitgen_Run Bitgen_Bits
begin

text \<open>
  The registers of a built tile: the bits that \<open>clb_ff_next\<close> captures are the covers of the registered
  LUTs at the settled nets.
\<close>

lemma map_of_filter_map:
  "distinct (map fst xs) \<Longrightarrow>
     map_of (map (\<lambda>(k, v). (k, f k v)) (filter (\<lambda>(k, v). P v) xs)) k =
       (case map_of xs k of None \<Rightarrow> None | Some v \<Rightarrow> if P v then Some (f k v) else None)"
proof (induction xs)
  case Nil
  then show ?case by simp
next
  case (Cons x xs)
  obtain a v where x: "x = (a, v)" by (cases x)
  from Cons.prems x have "map_of xs a = None" by (simp add: map_of_eq_None_iff)
  with Cons x show ?case by auto
qed

text \<open>The nets that a tile drives, from its settled outputs\<close>

definition driven_out :: "(nat \<times> xml) list \<Rightarrow> (nat \<rightharpoonup> int) \<Rightarrow> (string \<rightharpoonup> int)" where
  "driven_out fles clb = (\<lambda>net. Option.bind (tile_fb fles net) clb)"

lemma built_eluts:
  assumes "tile_built names canon fles tile" and "list_all (\<lambda>(gi, fl). gi < CLB_N) fles"
  shows "\<forall>gi \<in> fst ` set (tl_eluts tile). gi < CLB_N"
proof -
  from assms(1) have "map fst (tl_eluts tile) = map fst fles" by (simp add: tile_built_def)
  then have "fst ` set (tl_eluts tile) = fst ` set fles" by (metis set_map)
  with assms(2) show ?thesis by (auto simp: list_all_iff)
qed

lemma built_next_bits:
  assumes tb: "tile_built names canon fles tile" and d: "distinct (map fst fles)"
    and small: "list_all (\<lambda>(gi, fl). gi < CLB_N) fles"
    and ins: "inputs_match tile ib clb_in" and same: "same_outputs (settled tile ib ff n) bits"
  obtains nxt where "clb_ff_next tile clb_in bits = Inr nxt" and "distinct (map fst nxt)"
    and "\<And>gi fl. (gi, fl) \<in> set fles \<Longrightarrow> map_of nxt gi =
      (if fle_ff_used fl then Some (of_bool (cover_bit canon (tile_cover names fles gi fl) (net_bit ib (driven_out fles (settled tile ib ff n)))))
       else None)"
proof -
  let ?clb = "settled tile ib ff n"
  let ?out = "driven_out fles ?clb"
  let ?f = "\<lambda>gi ec. bit_at (ec_tt ec) (nat (lut_vin (net_pin tile ib ?clb gi)))"
  let ?nxt = "map (\<lambda>(gi, ec). (gi, ?f gi ec)) (filter (\<lambda>(gi, ec). ec_ff_en ec) (tl_eluts tile))"
  from tb have keys: "map fst (tl_eluts tile) = map fst fles" by (simp add: tile_built_def)
  have dk: "distinct (map fst (tl_eluts tile))" using d by (simp only: keys)
  show thesis
  proof (rule that [of ?nxt])
    show "clb_ff_next tile clb_in bits = Inr ?nxt" by (rule clb_ff_next_eq [OF ins same dk])
    have "map fst ?nxt = map fst (filter (\<lambda>(gi, ec). ec_ff_en ec) (tl_eluts tile))" by (simp add: comp_def split_def)
    then show "distinct (map fst ?nxt)" using distinct_map_filter [OF dk] by (simp only:)
    fix gi fl assume gi: "(gi, fl) \<in> set fles"
    from tb gi obtain ec where ec: "map_of (tl_eluts tile) gi = Some ec" "ec_ff_en ec = fle_ff_used fl"
      and c: "computes canon (tile_fb fles) (tile_cover names fles gi fl) tile gi ec"
      unfolding tile_built_def by blast
    have def: "?clb j \<noteq> None" if "tile_fb fles net = Some j" for net j
      using tile_fb_range [OF small that] by (rule settled_defined)
    have "?f gi ec = of_bool (cover_bit canon (tile_cover names fles gi fl) (net_bit ib ?out))"
      using c lut_function_nets [of "tile_fb fles" ?clb canon _ ib, OF def] unfolding computes_def driven_out_def by simp
    moreover have "map_of ?nxt gi = (if ec_ff_en ec then Some (?f gi ec) else None)"
      using map_of_filter_map [OF dk, of ?f ec_ff_en gi] by (simp add: ec(1))
    ultimately show "map_of ?nxt gi =
        (if fle_ff_used fl then Some (of_bool (cover_bit canon (tile_cover names fles gi fl) (net_bit ib ?out))) else None)"
      by (simp add: ec(2))
  qed
qed

end
