(* ===== verification/Fabric_Netlist.thy ===== *)
theory Fabric_Netlist
  imports Fabric_Deliver Bitgen_Next
begin

text \<open>
  From the netlist to the fabric: clusters built from their LUTs, placed, routed and simulated
  together compute one solution of all the LUT equations of the design.
\<close>

section \<open>The outputs of a cluster\<close>

lemma fb_of_net_mem: "fb_of_net outs n = Some j \<Longrightarrow> (j, Some n) \<in> set outs"
proof -
  have "foldl (\<lambda>d (j, net). case net of None \<Rightarrow> d | Some n \<Rightarrow> d(n \<mapsto> j)) d outs n = Some j \<Longrightarrow> d n = Some j \<or> (j, Some n) \<in> set outs" for d
    by (induction outs arbitrary: d) (fastforce split: option.splits if_splits)+
  from this [of Map.empty] show "fb_of_net outs n = Some j \<Longrightarrow> (j, Some n) \<in> set outs" by (simp add: fb_of_net_def)
qed

section \<open>Pins without a net\<close>

text \<open>An unnamed pin of the fabric carries whatever its select picks. With a fresh name for each of them, the
  bits at the pins are values of nets, and the tile still computes its LUTs.\<close>

definition name_pins :: "(nat \<Rightarrow> string) \<Rightarrow> (nat \<times> string option) list \<Rightarrow> (nat \<times> string option) list" where
  "name_pins f ins = map (\<lambda>(i, net). (i, case net of None \<Rightarrow> Some (f i) | Some n \<Rightarrow> Some n)) ins"

lemma map_of_name_pins:
  "map_of (name_pins f ins) i = map_option (\<lambda>net. case net of None \<Rightarrow> Some (f i) | Some n \<Rightarrow> Some n) (map_of ins i)"
  by (induction ins) (auto simp: name_pins_def split: option.split)

lemma name_pins_extends: "extends_inputs ins (name_pins f ins)"
proof -
  have "length (name_pins f ins) = length ins" by (simp add: name_pins_def)
  then show ?thesis by (auto simp: extends_inputs_def get_opt_def map_of_name_pins split: option.splits)
qed

lemma eval_names:
  "clb_eval_bits (tile\<lparr>tl_inputs := ins\<rparr>) = clb_eval_bits tile" "clb_ff_next (tile\<lparr>tl_inputs := ins\<rparr>) = clb_ff_next tile"
proof -
  let ?T = "tile\<lparr>tl_inputs := ins\<rparr>"
  have sel: "sel_of ?T = sel_of tile" by (simp add: fun_eq_iff sel_of_def)
  have "pool_bit ?T = pool_bit tile" by (intro ext) (simp add: pool_bit_def sel)
  then have vin: "pool_vin ?T = pool_vin tile" by (intro ext) (simp add: pool_vin_def)
  then have "bits_out ?T = bits_out tile" by (intro ext) (simp add: bits_out_def)
  then show "clb_eval_bits ?T = clb_eval_bits tile" by (intro ext) (simp add: clb_eval_bits_def)
  show "clb_ff_next ?T = clb_ff_next tile" by (intro ext) (simp add: clb_ff_next_def vin)
qed

lemma fresh_names:
  assumes "finite (S :: string set)"
  obtains f :: "nat \<Rightarrow> string" where "inj f" and "range f \<inter> S = {}"
proof -
  have "infinite (UNIV - S)" using assms by (intro Diff_infinite_finite infinite_UNIV_listI)
  then obtain f :: "nat \<Rightarrow> string" where "inj f" "range f \<subseteq> UNIV - S" by (meson infinite_countable_subset)
  then show thesis by (intro that [of f]) auto
qed

section \<open>The equations of one cluster\<close>

definition lut_equations ::
  "(string \<times> cover) list \<Rightarrow> (string \<Rightarrow> string) \<Rightarrow> (nat \<times> xml) list \<Rightarrow> (nat \<rightharpoonup> int) \<Rightarrow> (string \<Rightarrow> bool) \<Rightarrow> bool" where
  "lut_equations names canon fles ff v \<longleftrightarrow>
     (\<forall>(gi, fl) \<in> set fles. \<forall>net. tile_fb fles net = Some gi \<longrightarrow>
        v net = (if fle_ff_used fl then (case ff gi of None \<Rightarrow> False | Some b \<Rightarrow> odd b)
                 else cover_bit canon (tile_cover names fles gi fl) v))"

text \<open>The next register bits: the cover of every registered LUT, and nothing for the other LUTs\<close>

definition captures ::
  "(string \<times> cover) list \<Rightarrow> (string \<Rightarrow> string) \<Rightarrow> (nat \<times> xml) list \<Rightarrow> (string \<Rightarrow> bool) \<Rightarrow> (nat \<rightharpoonup> int) \<Rightarrow> bool" where
  "captures names canon fles v nxt \<longleftrightarrow>
     (\<forall>(gi, fl) \<in> set fles. nxt gi = (if fle_ff_used fl then Some (of_bool (cover_bit canon (tile_cover names fles gi fl) v)) else None))"

lemma cover_bit_cong:
  assumes "\<And>n. n \<in> set (cover_inputs canon cov) \<Longrightarrow> v n = w n"
  shows "cover_bit canon cov v = cover_bit canon cov w"
proof (cases cov)
  case None
  then show ?thesis by (simp add: cover_bit_def)
next
  case (Some c)
  obtain il cubes where c: "c = (il, cubes)" by (cases c)
  have "cover_holds il cubes (\<lambda>net. v (canon net)) = cover_holds il cubes (\<lambda>net. w (canon net))"
    by (rule cover_holds_cong) (use assms Some c in \<open>simp add: cover_inputs_def\<close>)
  with Some c show ?thesis by (simp add: cover_bit_def)
qed

lemma cluster_equations:
  assumes ok: "clb_ok names canon clb fles" and built: "build_tile names canon clb = Inr tile"
    and order: "lut_order names canon fles rank" and ranks: "\<forall>gi \<in> fst ` set fles. rank gi < CLB_N + 2"
    and carries: "cluster_carries v known CLB_EXT_IN tile ff nxt"
    and known: "\<And>i n. (i, Some n) \<in> set (tl_inputs tile) \<Longrightarrow> known n"
  shows "lut_equations names canon fles ff v \<and> (case nxt of None \<Rightarrow> True | Some m \<Rightarrow> captures names canon fles v m)"
proof -
  from carries obtain bits outs where len: "length bits = CLB_EXT_IN" and ev: "clb_eval_bits tile bits ff = Inr outs"
    and pins: "\<And>i n. (i, Some n) \<in> set (tl_inputs tile) \<Longrightarrow> known n \<Longrightarrow> odd (bits ! i) = v n"
    and drv: "\<And>j n. (j, Some n) \<in> set (tl_outputs tile) \<Longrightarrow> odd (outs ! j) = v n"
    and cap: "case nxt of None \<Rightarrow> True | Some m \<Rightarrow> \<exists>n. clb_ff_next tile bits outs = Inr n \<and> map_of n = m"
    unfolding cluster_carries_def by blast
  have small: "list_all (\<lambda>(gi, fl). gi < CLB_N) fles" and d: "distinct (map fst fles)"
    using ok by (simp_all add: clb_ok_def)
  let ?S = "(\<Union>(gi, fl) \<in> set fles. set (cover_inputs canon (tile_cover names fles gi fl))) \<union> (\<Union>(i, net) \<in> set (tl_inputs tile). set_option net)"
  have "finite ?S" by (auto split: prod.splits)
  then obtain f :: "nat \<Rightarrow> string" where f: "inj f" "range f \<inter> ?S = {}" by (rule fresh_names)
  let ?T = "tile\<lparr>tl_inputs := name_pins f (tl_inputs tile)\<rparr>"
  let ?ib = "\<lambda>n. if n \<in> range f then Some (bits ! inv f n) else Some (of_bool (v n) :: int)"
  have keys: "map fst (tl_inputs tile) = [0..<CLB_EXT_IN]" and tb: "tile_built names canon fles ?T"
    using ok by (cases rule: build_tile_any_names; use built name_pins_extends in auto)+
  have dk: "distinct (map fst (tl_inputs tile))" by (simp only: keys distinct_upt)
  have lenT: "length (tl_inputs ?T) = CLB_EXT_IN" using arg_cong [OF keys, of length] by (simp add: name_pins_def)
  have match: "inputs_match ?T ?ib bits"
    unfolding inputs_match_def
  proof (intro conjI len lenT)
    have "odd (bits ! i) = odd (case get_opt (tl_inputs ?T) i of None \<Rightarrow> 0 | Some net \<Rightarrow> (case ?ib net of None \<Rightarrow> 0 | Some b \<Rightarrow> b))"
      if i: "i < 18" for i
    proof -
      have "i \<in> set (map fst (tl_inputs tile))" by (simp only: keys set_upt) (use i in simp)
      then obtain net where m: "map_of (tl_inputs tile) i = Some net" by (auto simp: dk)
      then have mem: "(i, net) \<in> set (tl_inputs tile)" by (rule map_of_SomeD)
      show ?thesis
      proof (cases net)
        case None
        with m f(1) show ?thesis by (simp add: get_opt_def map_of_name_pins)
      next
        case (Some n)
        with mem have "n \<in> ?S" by force
        with f(2) have "n \<notin> range f" by blast
        with m Some pins [of i n] known [of i n] mem show ?thesis by (simp add: get_opt_def map_of_name_pins)
      qed
    qed
    then show "list_all (\<lambda>i. odd (bits ! i) = odd (case get_opt (tl_inputs ?T) i of None \<Rightarrow> 0
        | Some net \<Rightarrow> (case ?ib net of None \<Rightarrow> 0 | Some b \<Rightarrow> b))) [0..<CLB_EXT_IN]"
      unfolding list_all_iff by simp
  qed
  note k8 = built_eluts [OF tb small]
  have runs: "tile_runs names canon fles ?T" by (rule tile_built_runs [OF tb d])
  let ?clb = "settled ?T ?ib ff (CLB_N + 2)"
  let ?out = "\<lambda>net. Option.bind (tile_fb fles net) ?clb"
  from clb_eval_bits_eq [OF match k8, of ff] ev have same: "same_outputs ?clb outs" by (simp add: eval_names(1))
  have out: "?out net = Some (outs ! gi)" and vout: "odd (outs ! gi) = v net" if "tile_fb fles net = Some gi" for net gi
  proof -
    from tile_fb_range [OF small that] same that show "?out net = Some (outs ! gi)" by (simp add: same_outputs_def)
    have "(gi, Some net) \<in> set (fle_outputs fles)" using fb_of_net_mem that by (simp add: tile_fb_def)
    moreover have "tl_outputs tile = fle_outputs fles" using tb by (simp add: tile_built_def)
    ultimately show "odd (outs ! gi) = v net" using drv by metis
  qed
  have bit: "net_bit ?ib ?out n = v n" if "n \<notin> range f" for n
  proof (cases "tile_fb fles n")
    case None
    with that show ?thesis by (simp add: net_bit_def)
  next
    case (Some gi)
    from out [OF Some] vout [OF Some] show ?thesis by (simp add: net_bit_def)
  qed
  from runs_solves [OF runs order small ranks, of ?ib ff] simulate_runs [OF runs small, of ?ib ff "CLB_N + 2"]
  have sol: "solves names canon fles ?ib ff ?out" by simp
  have cover: "cover_bit canon (tile_cover names fles gi fl) (net_bit ?ib ?out) = cover_bit canon (tile_cover names fles gi fl) v"
    if gi: "(gi, fl) \<in> set fles" for gi fl
    by (rule cover_bit_cong, rule bit) (use f(2) gi in blast)
  have "v net = (if fle_ff_used fl then (case ff gi of None \<Rightarrow> False | Some b \<Rightarrow> odd b) else cover_bit canon (tile_cover names fles gi fl) v)"
    if gi: "(gi, fl) \<in> set fles" and fb: "tile_fb fles net = Some gi" for gi fl net
    using cover [OF gi] solvesD [OF sol gi fb] out [OF fb] vout [OF fb]
    by (auto simp: and_one_eq mod_2_eq_odd split: option.splits if_splits)
  then have eqs: "lut_equations names canon fles ff v" unfolding lut_equations_def by blast
  obtain n where n: "clb_ff_next ?T bits outs = Inr n"
    and covers: "\<And>gi fl. (gi, fl) \<in> set fles \<Longrightarrow> map_of n gi =
      (if fle_ff_used fl then Some (of_bool (cover_bit canon (tile_cover names fles gi fl) (net_bit ?ib (driven_out fles ?clb)))) else None)"
    by (rule built_next_bits [OF tb d small match same]) (rule that; assumption)
  have "captures names canon fles v (map_of n)"
    unfolding captures_def
  proof (clarify)
    fix gi fl assume gi: "(gi, fl) \<in> set fles"
    from covers [OF gi] cover [OF gi] show "map_of n gi =
        (if fle_ff_used fl then Some (of_bool (cover_bit canon (tile_cover names fles gi fl) v)) else None)"
      by (simp add: driven_out_def)
  qed
  with cap n have "case nxt of None \<Rightarrow> True | Some m \<Rightarrow> captures names canon fles v m"
    by (auto simp: eval_names(2) split: option.split)
  with eqs show ?thesis by blast
qed

section \<open>The design on the fabric\<close>

text \<open>A placed cluster, with its LUTs and an order of them, and the tile built from it\<close>

definition cluster_ready ::
  "(string \<times> cover) list \<Rightarrow> (string \<Rightarrow> string) \<Rightarrow> xml \<Rightarrow> (nat \<times> xml) list \<Rightarrow> (nat \<Rightarrow> nat) \<Rightarrow> tile_logic \<Rightarrow> bool" where
  "cluster_ready names canon clb fles rank tile \<longleftrightarrow>
     clb_ok names canon clb fles \<and> build_tile names canon clb = Inr tile \<and> lut_order names canon fles rank
     \<and> list_all (\<lambda>(gi, _). rank gi < CLB_N + 2) fles"

type_synonym placed_cluster = "(int \<times> int) \<times> xml \<times> (nat \<times> xml) list \<times> (nat \<Rightarrow> nat)"

definition design_ready :: "(string \<times> cover) list \<Rightarrow> (string \<Rightarrow> string) \<Rightarrow> placed_cluster list \<Rightarrow> fabric_db \<Rightarrow> bool" where
  "design_ready names canon clusters db \<longleftrightarrow>
     distinct (map fst clusters)
     \<and> list_all2 (\<lambda>(p, clb, fles, rank) (q, tile). q = p \<and> cluster_ready names canon clb fles rank tile) clusters (db_tiles db)"

text \<open>Every net has one source: it is driven by a cluster, or given as an input.\<close>

definition inputs_given :: "fabric_db \<Rightarrow> int \<Rightarrow> int \<Rightarrow> (string \<rightharpoonup> int) \<Rightarrow> bool" where
  "inputs_given db x0 y0 pi_values \<longleftrightarrow>
     list_all (\<lambda>n. (pi_values n = None) = (net_drivers db x0 y0 n \<noteq> [])) (net_names db)"

lemma ready_keys: "cluster_ready names canon clb fles rank tile \<Longrightarrow> map fst (tl_inputs tile) = [0..<CLB_EXT_IN]"
proof -
  assume r: "cluster_ready names canon clb fles rank tile"
  then have ok: "clb_ok names canon clb fles" and b: "build_tile names canon clb = Inr tile" by (simp_all add: cluster_ready_def)
  from ok show ?thesis by (cases rule: build_tile_any_names) (use b in auto)
qed

lemma design_tiles:
  assumes "design_ready names canon clusters db"
  shows "map fst (db_tiles db) = map fst clusters"
    and "((x, y), tile) \<in> set (db_tiles db) \<Longrightarrow> \<exists>clb fles rank. cluster_ready names canon clb fles rank tile"
    and "(p, clb, fles, rank) \<in> set clusters \<Longrightarrow> \<exists>tile. (p, tile) \<in> set (db_tiles db) \<and> cluster_ready names canon clb fles rank tile"
proof -
  from assms have a: "list_all2 (\<lambda>(p, clb, fles, rank) (q, tile). q = p \<and> cluster_ready names canon clb fles rank tile) clusters (db_tiles db)"
    by (simp add: design_ready_def)
  then show "map fst (db_tiles db) = map fst clusters" by (induction rule: list_all2_induct) auto
  from a show "((x, y), tile) \<in> set (db_tiles db) \<Longrightarrow> \<exists>clb fles rank. cluster_ready names canon clb fles rank tile"
    by (induction rule: list_all2_induct) auto
  from a show "(p, clb, fles, rank) \<in> set clusters \<Longrightarrow> \<exists>tile. (p, tile) \<in> set (db_tiles db) \<and> cluster_ready names canon clb fles rank tile"
    by (induction rule: list_all2_induct) auto
qed

lemma design_dicts: "design_ready names canon clusters db \<Longrightarrow> db_dicts CLB_EXT_IN db"
proof -
  assume r: "design_ready names canon clusters db"
  have k: "map fst (tl_inputs tile) = [0..<CLB_EXT_IN]" if "((x, y), tile) \<in> set (db_tiles db)" for x y tile
    using design_tiles(2) [OF r that] ready_keys by blast
  have d: "distinct (map fst (tl_inputs tile))" if "((x, y), tile) \<in> set (db_tiles db)" for x y tile
    unfolding k [OF that] by simp
  have i: "i < CLB_EXT_IN" if "((x, y), tile) \<in> set (db_tiles db)" "(i, net) \<in> set (tl_inputs tile)" for x y tile i net
  proof -
    have "i \<in> set (map fst (tl_inputs tile))" using that(2) by force
    then show ?thesis unfolding k [OF that(1)] by simp
  qed
  have "distinct (map fst (db_tiles db))" using r design_tiles(1) [OF r] by (simp add: design_ready_def)
  with d i show ?thesis unfolding db_dicts_def list_all_iff by auto
qed

lemma design_runs:
  assumes ready: "design_ready names canon clusters db" and given: "inputs_given db x0 y0 pi_values"
    and del: "delivered db x0 y0 CLB_EXT_IN pi_values ff result sim v" and c: "((x, y), clb, fles, rank) \<in> set clusters"
  shows "lut_equations names canon fles (ff_of ff (nat (y - y0)) (nat (x - x0))) v"
    and "ff \<noteq> None \<Longrightarrow> captures names canon fles v (\<lambda>gi. map_of (fs_last_ff_next sim) (nat (y - y0), nat (x - x0), gi))"
proof -
  from design_tiles(3) [OF ready c] obtain tile where t: "((x, y), tile) \<in> set (db_tiles db)"
    and r: "cluster_ready names canon clb fles rank tile" by blast
  from r have ok: "clb_ok names canon clb fles" "build_tile names canon clb = Inr tile" "lut_order names canon fles rank"
    and ranks: "\<forall>gi \<in> fst ` set fles. rank gi < CLB_N + 2" by (auto simp: cluster_ready_def list_all_iff)
  let ?known = "\<lambda>n. pi_values n \<noteq> None \<or> net_drivers db x0 y0 n \<noteq> []"
  have carries: "cluster_carries v ?known CLB_EXT_IN tile (ff_of ff (nat (y - y0)) (nat (x - x0)))
      (next_of ff sim (nat (y - y0)) (nat (x - x0)))"
    using del t unfolding delivered_def by blast
  have "?known n" if i: "(i, Some n) \<in> set (tl_inputs tile)" for i n
  proof -
    from t i have "net_sinks db x0 y0 n \<noteq> []" using in_sinks [of _ db x0 y0 n] by (metis empty_iff empty_set)
    then have "n \<in> set (net_names db)" by (simp add: in_net_names [of n db x0 y0])
    with given show ?thesis by (auto simp: inputs_given_def list_all_iff)
  qed
  from cluster_equations [OF ok ranks carries this]
  show "lut_equations names canon fles (ff_of ff (nat (y - y0)) (nat (x - x0))) v"
    and "ff \<noteq> None \<Longrightarrow> captures names canon fles v (\<lambda>gi. map_of (fs_last_ff_next sim) (nat (y - y0), nat (x - x0), gi))"
    by (auto simp: next_of_def)
qed

lemma given_undriven: "inputs_given db x0 y0 pi_values \<Longrightarrow> inputs_undriven db x0 y0 pi_values"
  by (auto simp: inputs_given_def inputs_undriven_def list_all_iff)

end
