(* ===== verification/Bitgen_Order.thy ===== *)
theory Bitgen_Order
  imports Bitgen_Bits Bitgen_Reads
begin

text \<open>
  A cluster without a combinational loop. When every table reads, of the outputs of the cluster, only
  those before its own in some order, the bit-level evaluator ends in the solution of the
  equations of its eLUTs, and an output depends only on the input bits that are read on the way to it.
\<close>

definition fb_ordered :: "tile_logic \<Rightarrow> (nat \<Rightarrow> nat) \<Rightarrow> bool" where
  "fb_ordered tile rk \<longleftrightarrow>
     (\<forall>(gi, ec) \<in> set (tl_eluts tile). \<not> ec_ff_en ec \<longrightarrow> (\<forall>gk < CLB_K. \<forall>j. reads_pin (ec_tt ec) gk \<longrightarrow>
        iib_decode (sel_of tile gi gk) gk = (''fle'', int j) \<longrightarrow> rk j < rk gi))"

definition eluts_ok :: "tile_logic \<Rightarrow> bool" where
  "eluts_ok tile \<longleftrightarrow> distinct (map fst (tl_eluts tile)) \<and> list_all (\<lambda>(gi, _). gi < CLB_N) (tl_eluts tile)"

text \<open>The bit at a pin, and the equations of the eLUTs\<close>

definition bit_pin :: "tile_logic \<Rightarrow> int list \<Rightarrow> int list \<Rightarrow> nat \<Rightarrow> nat \<Rightarrow> int" where
  "bit_pin tile inb bs gi gk =
     (case iib_decode (sel_of tile gi gk) gk of (kind, idx) \<Rightarrow>
        if kind = ''clb.I'' then (if idx < int CLB_EXT_IN then inb ! nat idx else 0) else bs ! nat idx)"

definition clb_solved :: "tile_logic \<Rightarrow> int list \<Rightarrow> (nat \<rightharpoonup> int) \<Rightarrow> int list \<Rightarrow> bool" where
  "clb_solved tile inb ff bs \<longleftrightarrow> length bs = CLB_N
     \<and> (\<forall>(gi, ec) \<in> set (tl_eluts tile). bs ! gi = elut_value ff gi ec (lut_vin (bit_pin tile inb bs gi)))
     \<and> (\<forall>g < CLB_N. g \<notin> fst ` set (tl_eluts tile) \<longrightarrow> bs ! g = 0)"

lemma fb_orderedD:
  "fb_ordered tile rk \<Longrightarrow> (gi, ec) \<in> set (tl_eluts tile) \<Longrightarrow> \<not> ec_ff_en ec \<Longrightarrow> gk < 4 \<Longrightarrow> reads_pin (ec_tt ec) gk \<Longrightarrow>
     iib_decode (sel_of tile gi gk) gk = (''fle'', int j) \<Longrightarrow> rk j < rk gi"
  unfolding fb_ordered_def by (drule (1) bspec) simp

lemma clb_solvedD:
  "clb_solved tile inb ff bs \<Longrightarrow> (gi, ec) \<in> set (tl_eluts tile) \<Longrightarrow> bs ! gi = elut_value ff gi ec (lut_vin (bit_pin tile inb bs gi))"
  unfolding clb_solved_def by (elim conjE) (drule (1) bspec, simp)

lemma elut_value_cong:
  assumes "\<And>gk. \<not> ec_ff_en ec \<Longrightarrow> gk < 4 \<Longrightarrow> reads_pin (ec_tt ec) gk \<Longrightarrow> odd (f gk) = odd (g gk)"
  shows "elut_value ff gi ec (lut_vin f) = elut_value ff gi ec (lut_vin g)"
proof (cases "ec_ff_en ec")
  case True
  then show ?thesis by (simp add: elut_value_def)
next
  case False
  from same_reads [OF assms [OF False]] show ?thesis by (simp add: elut_value_def False Let_def)
qed

text \<open>Every input pin gets a name of its own, so that the net-level evaluator can be used.\<close>

definition pin_name :: "nat \<Rightarrow> string" where
  "pin_name i = replicate i CHR ''p''"

definition pin_named :: "tile_logic \<Rightarrow> tile_logic" where
  "pin_named tile = tile\<lparr>tl_inputs := map (\<lambda>i. (i, Some (pin_name i))) [0..<CLB_EXT_IN]\<rparr>"

definition pin_bits :: "int list \<Rightarrow> string \<rightharpoonup> int" where
  "pin_bits inb n = Some (inb ! length n)"

lemma pin_named_opt: "i < 18 \<Longrightarrow> get_opt (tl_inputs (pin_named tile)) i = Some (pin_name i)"
proof -
  assume i: "i < 18"
  have "map_of (map (\<lambda>i. (i, Some (pin_name i))) [0..<18]) i = Some (Some (pin_name i))"
    using i by (intro map_of_is_SomeI) (auto simp: comp_def)
  then show ?thesis by (simp add: pin_named_def get_opt_def)
qed

lemma pin_named_match: "length inb = 18 \<Longrightarrow> inputs_match (pin_named tile) (pin_bits inb) inb"
  by (simp add: inputs_match_def list_all_iff pin_named_opt pin_bits_def pin_name_def) (simp add: pin_named_def)

lemma pin_named_same [simp]:
  "tl_eluts (pin_named tile) = tl_eluts tile" "tl_iib_mux (pin_named tile) = tl_iib_mux tile" "sel_of (pin_named tile) = sel_of tile"
  by (simp_all add: pin_named_def fun_eq_iff sel_of_def)

lemma pin_named_eval: "clb_eval_bits (pin_named tile) = clb_eval_bits tile"
proof -
  have "pool_bit (pin_named tile) = pool_bit tile" by (intro ext) (simp add: pool_bit_def)
  then have "pool_vin (pin_named tile) = pool_vin tile" by (intro ext) (simp add: pool_vin_def)
  then have "bits_out (pin_named tile) = bits_out tile" by (intro ext) (simp add: bits_out_def)
  then show ?thesis by (intro ext) (simp add: clb_eval_bits_def)
qed

lemma pin_named_net_pin:
  assumes "length inb = 18" and "same_outputs clb bs"
  shows "net_pin (pin_named tile) (pin_bits inb) clb gi gk = bit_pin tile inb bs gi gk"
proof -
  obtain kind idx where dec: "iib_decode (sel_of tile gi gk) gk = (kind, idx)" by fastforce
  with iib_decode_range [of "sel_of tile gi gk" gk] have r: "0 \<le> idx" "kind \<noteq> ''clb.I'' \<Longrightarrow> idx < 8"
    by (auto simp: decode_ok_def split: if_splits)
  have len: "length (tl_inputs (pin_named tile)) = 18" by (simp add: pin_named_def)
  show ?thesis
    using r pin_named_opt [of "nat idx" tile] assms(2)
    by (auto simp: net_pin_def bit_pin_def dec len pin_bits_def pin_name_def same_outputs_def nat_less_iff)
qed

text \<open>A rank may be as large as the order of a whole design; among eight outputs only the number of outputs
  before one counts.\<close>

definition place_of :: "'a set \<Rightarrow> ('a \<Rightarrow> nat) \<Rightarrow> 'a \<Rightarrow> nat" where
  "place_of G rk g = card {h \<in> G. rk h < rk g}"

lemma place_of_less: "finite G \<Longrightarrow> j \<in> G \<Longrightarrow> rk j < rk g \<Longrightarrow> place_of G rk j < place_of G rk g"
  unfolding place_of_def by (rule psubset_card_mono) (auto intro: less_trans)

lemma place_of_bound: "G \<subseteq> {..<n} \<Longrightarrow> place_of G rk g \<le> n"
proof -
  assume "G \<subseteq> {..<n}"
  then have "{h \<in> G. rk h < rk g} \<subseteq> {..<n}" by blast
  from card_mono [OF _ this] show ?thesis by (simp add: place_of_def)
qed

lemma clb_solution:
  assumes ok: "eluts_ok tile" and order: "fb_ordered tile rk" and len: "length inb = CLB_EXT_IN"
  shows "\<exists>bs. clb_eval_bits tile inb ff = Inr bs \<and> clb_solved tile inb ff bs"
proof -
  let ?T = "pin_named tile" and ?ib = "pin_bits inb"
  let ?G = "fst ` set (tl_eluts tile)"
  let ?f = "elut_out ?T ?ib ff"
  have small: "\<forall>gi \<in> ?G. gi < CLB_N" and d: "distinct (map fst (tl_eluts tile))" using ok by (auto simp: eluts_ok_def list_all_iff)
  have len18: "length inb = 18" using len by simp
  obtain bs where ev: "clb_eval_bits tile inb ff = Inr bs" and same: "same_outputs (settled ?T ?ib ff (CLB_N + 2)) bs"
    using clb_eval_bits_eq [OF pin_named_match [OF len18], of tile ff] small unfolding pin_named_same pin_named_eval by blast
  have "ranked ?f (tl_eluts tile) (place_of ?G rk)"
    unfolding ranked_def
  proof (clarify)
    fix gi ec clb g out ec' assume e: "(gi, ec) \<in> set (tl_eluts tile)" and g: "(g, ec') \<in> set (tl_eluts tile)"
      and r: "place_of ?G rk gi \<le> place_of ?G rk (fst (g, ec'))"
    have "elut_value ff gi ec (lut_vin (net_pin ?T ?ib (clb(g \<mapsto> out)) gi)) = elut_value ff gi ec (lut_vin (net_pin ?T ?ib clb gi))"
    proof (rule elut_value_cong)
      fix gk assume ff: "\<not> ec_ff_en ec" and gk: "gk < (4::nat)" and rd: "reads_pin (ec_tt ec) gk"
      obtain kind idx where dec: "iib_decode (sel_of tile gi gk) gk = (kind, idx)" by fastforce
      with iib_decode_range [of "sel_of tile gi gk" gk] have k: "0 \<le> idx" "kind \<noteq> ''clb.I'' \<Longrightarrow> kind = ''fle''"
        by (auto simp: decode_ok_def split: if_splits)
      have "nat idx \<noteq> g" if "kind \<noteq> ''clb.I''"
      proof
        assume "nat idx = g"
        with k that dec have "iib_decode (sel_of tile gi gk) gk = (''fle'', int g)" by auto
        from fb_orderedD [OF order e ff gk rd this] have "rk g < rk gi" .
        moreover have "g \<in> ?G" using g by force
        ultimately have "place_of ?G rk g < place_of ?G rk gi" by (intro place_of_less) simp_all
        with r show False by simp
      qed
      then show "odd (net_pin ?T ?ib (clb(g \<mapsto> out)) gi gk) = odd (net_pin ?T ?ib clb gi gk)" by (auto simp: net_pin_def dec)
    qed
    then show "?f (clb(fst (g, ec') \<mapsto> out)) gi ec = ?f clb gi ec" by (simp add: elut_out_def)
  qed
  moreover have "\<forall>gi \<in> ?G. place_of ?G rk gi < CLB_N + 2"
  proof
    fix gi
    have "?G \<subseteq> {..<CLB_N}" using small by blast
    from place_of_bound [OF this, of rk gi] show "place_of ?G rk gi < CLB_N + 2" by simp
  qed
  ultimately have rest: "at_rest ?f (tl_eluts tile) (settled ?T ?ib ff (CLB_N + 2))"
    unfolding settled_def pin_named_same using settle_reaches_rest [OF _ d] by blast
  have "bs ! gi = elut_value ff gi ec (lut_vin (bit_pin tile inb bs gi))" if e: "(gi, ec) \<in> set (tl_eluts tile)" for gi ec
  proof -
    have "gi < CLB_N" using small e by force
    with same have "settled ?T ?ib ff (CLB_N + 2) gi = Some (bs ! gi)" by (simp add: same_outputs_def)
    with rest e have "bs ! gi = ?f (settled ?T ?ib ff (CLB_N + 2)) gi ec" by (auto simp: at_rest_def)
    also have "\<dots> = elut_value ff gi ec (lut_vin (bit_pin tile inb bs gi))"
      unfolding elut_out_def
      by (rule arg_cong [where f = "\<lambda>p. elut_value ff gi ec (lut_vin p)"]) (intro ext pin_named_net_pin len18 same)
    finally show ?thesis .
  qed
  moreover have "bs ! g = 0" if "g < CLB_N" "g \<notin> ?G" for g
  proof -
    have "settled ?T ?ib ff (CLB_N + 2) g = seed_outputs ?T ff g"
      unfolding settled_def by (rule settle_other) (use that in simp)
    moreover have "g \<notin> fst ` set es \<Longrightarrow> foldl (\<lambda>clb (gi, ec). if ec_ff_en ec then (case ff gi of None \<Rightarrow> clb | Some b \<Rightarrow> clb(gi \<mapsto> b AND 1)) else clb)
       clb es g = clb g" for clb and es :: "(nat \<times> elut_config) list"
      by (induction es arbitrary: clb) (auto split: option.split)
    ultimately have "settled ?T ?ib ff (CLB_N + 2) g = Some 0" using that by (simp add: seed_outputs_def)
    with same that show ?thesis by (simp add: same_outputs_def)
  qed
  ultimately have "clb_solved tile inb ff bs" using same by (auto simp: clb_solved_def same_outputs_def)
  with ev show ?thesis by blast
qed

lemma solved_agree:
  assumes a: "clb_solved tile inb ff bs" and b: "clb_solved tile inb' ff bs'" and ok: "eluts_ok tile" and order: "fb_ordered tile rk"
    and pins: "\<And>gi ec gk i. (gi, ec) \<in> set (tl_eluts tile) \<Longrightarrow> \<not> ec_ff_en ec \<Longrightarrow> gk < CLB_K \<Longrightarrow> reads_pin (ec_tt ec) gk \<Longrightarrow>
      iib_decode (sel_of tile gi gk) gk = (''clb.I'', int i) \<Longrightarrow> i < CLB_EXT_IN \<Longrightarrow> rk gi \<le> k \<Longrightarrow> odd (inb ! i) = odd (inb' ! i)"
  shows "g < CLB_N \<Longrightarrow> rk g \<le> k \<Longrightarrow> bs ! g = bs' ! g"
proof (induction "rk g" arbitrary: g rule: less_induct)
  case less
  show ?case
  proof (cases "g \<in> fst ` set (tl_eluts tile)")
    case False
    with a b less.prems(1) show ?thesis by (simp add: clb_solved_def)
  next
    case True
    then obtain ec where e: "(g, ec) \<in> set (tl_eluts tile)" by auto
    have "elut_value ff g ec (lut_vin (bit_pin tile inb bs g)) = elut_value ff g ec (lut_vin (bit_pin tile inb' bs' g))"
    proof (rule elut_value_cong)
      fix gk assume ff: "\<not> ec_ff_en ec" and gk: "gk < (4::nat)" and rd: "reads_pin (ec_tt ec) gk"
      obtain kind idx where dec: "iib_decode (sel_of tile g gk) gk = (kind, idx)" by fastforce
      with iib_decode_range [of "sel_of tile g gk" gk] have k: "0 \<le> idx" "kind \<noteq> ''clb.I'' \<Longrightarrow> kind = ''fle'' \<and> idx < 8"
        by (auto simp: decode_ok_def split: if_splits)
      show "odd (bit_pin tile inb bs g gk) = odd (bit_pin tile inb' bs' g gk)"
      proof (cases "kind = ''clb.I''")
        case True
        have "odd (inb ! nat idx) = odd (inb' ! nat idx)" if "idx < 18"
          by (rule pins [OF e ff _ rd]) (use gk dec True k(1) that less.prems(2) in \<open>simp_all add: nat_less_iff\<close>)
        with True show ?thesis by (simp add: bit_pin_def dec)
      next
        case False
        with k dec have i: "iib_decode (sel_of tile g gk) gk = (''fle'', int (nat idx))" "nat idx < CLB_N" by (simp_all add: nat_less_iff)
        from fb_orderedD [OF order e ff gk rd this(1)] have "rk (nat idx) < rk g" .
        with less.hyps [OF this i(2)] less.prems(2) False show ?thesis by (simp add: bit_pin_def dec)
      qed
    qed
    with clb_solvedD [OF a e] clb_solvedD [OF b e] show ?thesis by simp
  qed
qed

text \<open>The next bits of the registers exist for bits of the right number.\<close>

lemma ff_next_total:
  assumes "length inb = CLB_EXT_IN" and "length bs = CLB_N"
  shows "\<exists>n. clb_ff_next tile inb bs = Inr n"
proof -
  have bits: "\<exists>b. pool_bit tile inb bs gi gk = Inr b" for gi gk
  proof -
    obtain kind idx where dec: "iib_decode (sel_of tile gi gk) gk = (kind, idx)" by fastforce
    with iib_decode_range [of "sel_of tile gi gk" gk] have r: "0 \<le> idx" "kind \<noteq> ''clb.I'' \<Longrightarrow> idx < 8"
      by (auto simp: decode_ok_def split: if_splits)
    with assms show ?thesis by (auto simp: pool_bit_def dec nat_less_iff)
  qed
  have vins: "\<exists>v. pool_vin tile inb bs gi = Inr v" for gi
  proof -
    have "is_ok (res_map (pool_bit tile inb bs gi) [0..<CLB_K])"
      unfolding res_map_ok_iff unfolding is_ok_iff using bits by blast
    then show ?thesis by (auto simp: pool_vin_def is_ok_iff)
  qed
  have "is_ok (res_map (\<lambda>(gi, ec). res_bind (pool_vin tile inb bs gi) (\<lambda>vin. Inr (gi, bit_at (ec_tt ec) (nat vin))))
      (filter (\<lambda>(gi, ec). ec_ff_en ec) (tl_eluts tile)))"
    unfolding res_map_ok_iff unfolding is_ok_iff
  proof
    fix e :: "nat \<times> elut_config"
    obtain gi ec where e: "e = (gi, ec)" by (cases e)
    obtain v where "pool_vin tile inb bs gi = Inr v" using vins by blast
    then show "\<exists>y. (case e of (gi, ec) \<Rightarrow> res_bind (pool_vin tile inb bs gi) (\<lambda>vin. Inr (gi, bit_at (ec_tt ec) (nat vin)))) = Inr y"
      by (simp add: e)
  qed
  then show ?thesis by (auto simp: clb_ff_next_def is_ok_iff)
qed

end
