(* ===== verification/Ranked_Iteration.thy ===== *)
theory Ranked_Iteration
  imports Main
begin

text \<open>
  Passes over a list of cells, each visit replacing the value of one cell by a function of all values.
  When what a cell gets, up to a rank, is decided by what the cells hold below that rank, and the
  ranks are bounded, there is one value of every cell that no visit changes, and every pass, in any order of visits,
  brings all cells to it by one more rank.
\<close>

locale ranked_iteration =
  fixes cells :: "'c list"
    and step :: "'c \<Rightarrow> ('c \<Rightarrow> 'v) \<Rightarrow> 'v"
    and low :: "'v \<Rightarrow> bool"
    and agree :: "nat \<Rightarrow> 'c \<Rightarrow> 'v \<Rightarrow> 'v \<Rightarrow> bool"
    and K :: nat
    and zero :: 'v
  assumes low_zero: "low zero"
    and low_step: "c \<in> set cells \<Longrightarrow> low (step c m)"
    and agree_0: "agree 0 c a b"
    and agree_Suc: "agree (Suc k) c a b \<Longrightarrow> agree k c a b"
    and agree_bound: "c \<in> set cells \<Longrightarrow> agree K c a b \<Longrightarrow> a = b"
    and step_agree: "(\<And>c'. c' \<in> set cells \<Longrightarrow> low (x c') \<and> low (y c') \<and> agree k c' (x c') (y c')) \<Longrightarrow> c \<in> set cells
      \<Longrightarrow> agree (Suc k) c (step c x) (step c y)"
begin

text \<open>All cells at once, from the start value\<close>

fun rounds :: "nat \<Rightarrow> 'c \<Rightarrow> 'v" where
  "rounds 0 = (\<lambda>_. zero)"
| "rounds (Suc k) = (\<lambda>c. step c (rounds k))"

definition solution :: "'c \<Rightarrow> 'v" where
  "solution = rounds K"

definition close :: "nat \<Rightarrow> ('c \<Rightarrow> 'v) \<Rightarrow> bool" where
  "close k m \<longleftrightarrow> (\<forall>c \<in> set cells. low (m c) \<and> agree k c (m c) (solution c))"

lemma low_rounds: "c \<in> set cells \<Longrightarrow> low (rounds k c)"
  by (cases k) (simp_all add: low_zero low_step)

lemma rounds_agree: "c \<in> set cells \<Longrightarrow> agree k c (rounds k c) (rounds (Suc k) c)"
proof (induction k arbitrary: c)
  case 0
  show ?case by (rule agree_0)
next
  case (Suc k)
  have "agree (Suc k) c (step c (rounds k)) (step c (rounds (Suc k)))"
    by (rule step_agree [OF _ Suc.prems]) (simp only: low_rounds Suc.IH simp_thms)
  then show ?case by simp
qed

lemma solution_stable: "c \<in> set cells \<Longrightarrow> step c solution = solution c"
  using agree_bound [OF _ rounds_agree [of c K]] by (simp add: solution_def)

lemma low_solution: "c \<in> set cells \<Longrightarrow> low (solution c)"
  by (simp add: solution_def low_rounds)

lemma agree_down: "agree k c a b \<Longrightarrow> j \<le> k \<Longrightarrow> agree j c a b"
  by (induction k) (auto simp: le_Suc_eq dest: agree_Suc)

lemma closeD: "close k m \<Longrightarrow> c \<in> set cells \<Longrightarrow> low (m c) \<and> low (solution c) \<and> agree k c (m c) (solution c)"
  by (simp add: close_def low_solution)

lemma close_0: "(\<And>c. c \<in> set cells \<Longrightarrow> low (m c)) \<Longrightarrow> close 0 m"
  by (simp add: close_def agree_0)

lemma step_close: "close k m \<Longrightarrow> c \<in> set cells \<Longrightarrow> agree (Suc k) c (step c m) (solution c)"
proof -
  assume m: "close k m" and c: "c \<in> set cells"
  have "agree (Suc k) c (step c m) (step c solution)" by (rule step_agree [OF closeD [OF m] c])
  then show ?thesis by (simp only: solution_stable [OF c])
qed

lemma visits_close:
  assumes "close k m" and "set xs \<subseteq> set cells" and "\<forall>c \<in> P. agree (Suc k) c (m c) (solution c)"
  shows "close k (foldl (\<lambda>m c. m(c := step c m)) m xs)
    \<and> (\<forall>c \<in> P \<union> set xs. agree (Suc k) c (foldl (\<lambda>m c. m(c := step c m)) m xs c) (solution c))"
  using assms
proof (induction xs arbitrary: m P)
  case Nil
  then show ?case by simp
next
  case (Cons x xs)
  let ?m = "m(x := step x m)"
  have x: "x \<in> set cells" using Cons.prems(2) by simp
  note at = step_close [OF Cons.prems(1) x]
  have cl: "close k ?m" using Cons.prems(1) low_step [OF x] agree_Suc [OF at] by (simp add: close_def)
  have ag: "\<forall>c \<in> insert x P. agree (Suc k) c (?m c) (solution c)" using at Cons.prems(3) by simp
  have xs: "set xs \<subseteq> set cells" using Cons.prems(2) by simp
  have P: "P \<union> set (x # xs) = insert x P \<union> set xs" by auto
  show ?case unfolding foldl.simps P by (rule Cons.IH [OF cl xs ag])
qed

lemma pass_close:
  assumes "close k m"
  shows "close (Suc k) (foldl (\<lambda>m c. m(c := step c m)) m cells)"
proof -
  from visits_close [OF assms subset_refl, of "{}"]
  have "close k (foldl (\<lambda>m c. m(c := step c m)) m cells)"
    "\<forall>c \<in> set cells. agree (Suc k) c (foldl (\<lambda>m c. m(c := step c m)) m cells c) (solution c)" by simp_all
  then show ?thesis by (simp add: close_def)
qed

lemma close_bound:
  assumes "close k m" and "K \<le> k" and "c \<in> set cells"
  shows "step c m = m c"
proof -
  have "agree K c (step c m) (solution c)" by (rule agree_down [OF step_close [OF assms(1,3)]]) (use assms(2) in simp)
  moreover have "agree K c (m c) (solution c)" using closeD [OF assms(1,3)] assms(2) agree_down by blast
  ultimately show ?thesis using agree_bound [OF assms(3)] by metis
qed

end

end
