(* ===== verification/Fabric_Order.thy ===== *)
theory Fabric_Order
  imports Fabric_Deliver Bitgen_Order Ranked_Iteration
begin

text \<open>
  A fabric without a combinational loop: its tracks and cluster outputs have ranks that grow along
  every select, injection and table in use. What a tile puts out, up to a rank, is decided by
  the tracks of lower ranks, so the passes of the simulator are an instance of the locale of ranked
  iterations.
\<close>

section \<open>What the simulator relies on\<close>

definition tile_ready :: "nat \<Rightarrow> nat \<Rightarrow> tile_models \<Rightarrow> bool" where
  "tile_ready W N tm \<longleftrightarrow> tile_shape W N CLB_EXT_IN tm \<and> list_all (\<lambda>k. 0 \<le> k \<and> k < 2 * int W) (cb_sel (tm_cb tm))
     \<and> (case tm_logic tm of None \<Rightarrow> True | Some tile \<Rightarrow> eluts_ok tile)"

definition tap_ready :: "fabric_sim \<Rightarrow> int \<times> int \<times> nat \<times> string \<Rightarrow> bool" where
  "tap_ready sim = (\<lambda>(r, c, gi, po). gi < CLB_N \<and> 0 \<le> r \<and> r < int (fs_R sim) \<and> 0 \<le> c \<and> c < int (fs_C sim)
     \<and> tm_logic (fs_tiles sim ! nat r ! nat c) \<noteq> None)"

definition sim_ready :: "fabric_sim \<Rightarrow> bool" where
  "sim_ready sim \<longleftrightarrow> fs_EXT_IN sim = CLB_EXT_IN \<and> fs_N sim \<le> CLB_N
     \<and> (\<forall>r < fs_R sim. \<forall>c < fs_C sim. tile_ready (fs_W sim) (fs_N sim) (fs_tiles sim ! r ! c))
     \<and> list_all (tap_ready sim) (fs_po_taps sim)"

lemma sim_readyD:
  assumes "sim_ready sim"
  shows "fs_EXT_IN sim = CLB_EXT_IN" and "fs_N sim \<le> CLB_N" and "list_all (tap_ready sim) (fs_po_taps sim)"
    and "r < fs_R sim \<Longrightarrow> c < fs_C sim \<Longrightarrow> tile_ready (fs_W sim) (fs_N sim) (fs_tiles sim ! r ! c)"
  using assms by (simp_all add: sim_ready_def)

lemma tile_readyD:
  assumes "tile_ready W N tm"
  shows "switch_box_ok (tm_sb tm)" and "sb_W (tm_sb tm) = W" and "sb_NINJ (tm_sb tm) = N" and "cb_W (tm_cb tm) = W"
    and "cb_NCB (tm_cb tm) = CLB_EXT_IN" and "Fabric_Switch.cb_DIV (tm_cb tm) = 2" and "1 \<le> W" and "N \<le> W"
    and "i < CLB_EXT_IN \<Longrightarrow> 0 \<le> cb_sel (tm_cb tm) ! i \<and> cb_sel (tm_cb tm) ! i < 2 * int W"
    and "tm_logic tm = Some tile \<Longrightarrow> eluts_ok tile"
proof -
  from assms have s: "tile_shape W N CLB_EXT_IN tm" and l: "list_all (\<lambda>k. 0 \<le> k \<and> k < 2 * int W) (cb_sel (tm_cb tm))"
    and e: "case tm_logic tm of None \<Rightarrow> True | Some tile \<Rightarrow> eluts_ok tile" by (simp_all add: tile_ready_def)
  from s show "switch_box_ok (tm_sb tm)" "sb_W (tm_sb tm) = W" "sb_NINJ (tm_sb tm) = N" "cb_W (tm_cb tm) = W"
    "cb_NCB (tm_cb tm) = CLB_EXT_IN" "Fabric_Switch.cb_DIV (tm_cb tm) = 2" by (simp_all add: tile_shape_def)
  then show "1 \<le> W" "N \<le> W" by (simp_all add: switch_box_ok_def)
  from s l show "i < CLB_EXT_IN \<Longrightarrow> 0 \<le> cb_sel (tm_cb tm) ! i \<and> cb_sel (tm_cb tm) ! i < 2 * int W"
    by (simp add: tile_shape_def list_all_length)
  from e show "tm_logic tm = Some tile \<Longrightarrow> eluts_ok tile" by simp
qed

section \<open>Ranks\<close>

text \<open>The side whose tracks arrive at a side of a tile, and the track of its own that an input select picks\<close>

definition feeder :: "fabric_sim \<Rightarrow> nat \<Rightarrow> nat \<Rightarrow> string \<Rightarrow> ((nat \<times> nat) \<times> string) option" where
  "feeder sim r c d =
     (if d = ''n'' then (if r > 0 then Some ((r - 1, c), ''s'') else None)
      else if d = ''s'' then (if r + 1 < fs_R sim then Some ((r + 1, c), ''n'') else None)
      else if d = ''e'' then (if c + 1 < fs_C sim then Some ((r, c + 1), ''w'') else None)
      else (if c > 0 then Some ((r, c - 1), ''e'') else None))"

definition track :: "nat \<times> nat \<Rightarrow> string \<Rightarrow> nat \<Rightarrow> node" where
  "track cell d t = Out (int (fst cell)) (int (snd cell)) d t"

definition cb_source :: "fabric_sim \<Rightarrow> nat \<Rightarrow> nat \<Rightarrow> nat \<Rightarrow> string \<times> nat" where
  "cb_source sim r c i =
     (let cb = tm_cb (fs_tiles sim ! r ! c); p = nat (pool_index cb i (cb_sel cb ! i))
      in (DIRS ! (p div cb_W cb), p mod cb_W cb))"

definition sel_ordered :: "fabric_sim \<Rightarrow> (node \<Rightarrow> nat) \<Rightarrow> nat \<Rightarrow> nat \<Rightarrow> (nat \<times> nat) \<times> int \<Rightarrow> bool" where
  "sel_ordered sim rank r c = (\<lambda>((d, t), sel).
     let sb = tm_sb (fs_tiles sim ! r ! c); src = the (SOURCES (DIRS ! d)) ! nat (sel - 1) in
     sel = 0 \<or> injected sb d t
     \<or> (case feeder sim r c src of None \<Rightarrow> True
        | Some (cell, src') \<Rightarrow> rank (track cell src' (wilton_track (DIRS ! d) src t (sb_W sb))) < rank (track (r, c) (DIRS ! d) t)))"

definition pin_ordered ::
  "fabric_sim \<Rightarrow> (string \<rightharpoonup> int) \<Rightarrow> (node \<Rightarrow> nat) \<Rightarrow> nat \<Rightarrow> nat \<Rightarrow> tile_logic \<Rightarrow> nat \<Rightarrow> string \<times> int \<Rightarrow> bool" where
  "pin_ordered sim pi_values rank r c tile gi = (\<lambda>(kind, idx).
     if kind = ''clb.I'' then
       (if idx < int CLB_EXT_IN \<and> Option.bind (get_opt (tl_inputs tile) (nat idx)) pi_values = None
        then rank (case_prod (track (r, c)) (cb_source sim r c (nat idx))) < rank (ClbOut (int r) (int c) gi) else True)
     else rank (ClbOut (int r) (int c) (nat idx)) < rank (ClbOut (int r) (int c) gi))"

definition logic_ordered :: "fabric_sim \<Rightarrow> (string \<rightharpoonup> int) \<Rightarrow> (node \<Rightarrow> nat) \<Rightarrow> nat \<Rightarrow> nat \<Rightarrow> tile_logic \<Rightarrow> bool" where
  "logic_ordered sim pi_values rank r c tile \<longleftrightarrow>
     list_all (\<lambda>(gi, ec). ec_ff_en ec \<or>
       list_all (\<lambda>gk. reads_pin (ec_tt ec) gk \<longrightarrow> pin_ordered sim pi_values rank r c tile gi (iib_decode (sel_of tile gi gk) gk)) [0..<CLB_K])
       (tl_eluts tile)"

definition tile_ordered :: "fabric_sim \<Rightarrow> (string \<rightharpoonup> int) \<Rightarrow> (node \<Rightarrow> nat) \<Rightarrow> nat \<Rightarrow> nat \<Rightarrow> bool" where
  "tile_ordered sim pi_values rank r c \<longleftrightarrow>
     (let tm = fs_tiles sim ! r ! c in
      list_all (sel_ordered sim rank r c) (sb_sel (tm_sb tm))
      \<and> list_all (\<lambda>(j, d). rank (ClbOut (int r) (int c) j) < rank (track (r, c) (DIRS ! d) j)) (sb_inject (tm_sb tm))
      \<and> (case tm_logic tm of None \<Rightarrow> True | Some tile \<Rightarrow> logic_ordered sim pi_values rank r c tile))"

definition loop_free :: "fabric_sim \<Rightarrow> (string \<rightharpoonup> int) \<Rightarrow> (node \<Rightarrow> nat) \<Rightarrow> bool" where
  "loop_free sim pi_values rank \<longleftrightarrow> (\<forall>r < fs_R sim. \<forall>c < fs_C sim. tile_ordered sim pi_values rank r c)"

lemma logic_orderedD:
  assumes "logic_ordered sim pi_values rank r c tile" and "(gi, ec) \<in> set (tl_eluts tile)" and "\<not> ec_ff_en ec"
    and "gk < CLB_K" and "reads_pin (ec_tt ec) gk"
  shows "pin_ordered sim pi_values rank r c tile gi (iib_decode (sel_of tile gi gk) gk)"
proof -
  from assms(1,2) have "ec_ff_en ec \<or>
      list_all (\<lambda>gk. reads_pin (ec_tt ec) gk \<longrightarrow> pin_ordered sim pi_values rank r c tile gi (iib_decode (sel_of tile gi gk) gk)) [0..<CLB_K]"
    unfolding logic_ordered_def list_all_iff by (auto dest: bspec)
  with assms(3-5) show ?thesis by (simp add: list_all_iff)
qed

lemma logic_fb_ordered:
  assumes "logic_ordered sim pi_values rank r c tile"
  shows "fb_ordered tile (\<lambda>j. rank (ClbOut (int r) (int c) j))"
  unfolding fb_ordered_def
proof (clarify)
  fix gi ec gk j assume a: "(gi, ec) \<in> set (tl_eluts tile)" "\<not> ec_ff_en ec" "gk < CLB_K" "reads_pin (ec_tt ec) gk"
    and d: "iib_decode (sel_of tile gi gk) gk = (''fle'', int j)"
  from logic_orderedD [OF assms a] show "rank (ClbOut (int r) (int c) j) < rank (ClbOut (int r) (int c) gi)"
    by (simp add: d pin_ordered_def)
qed

section \<open>A tile from the tracks around it\<close>

definition cluster_mask ::
  "fabric_sim \<Rightarrow> (string \<rightharpoonup> int) \<Rightarrow> ((nat \<times> nat \<times> nat) \<times> int) list option \<Rightarrow> mask4 list list \<Rightarrow> nat \<Rightarrow> nat \<Rightarrow> int" where
  "cluster_mask sim pi_values ff out r c =
     (case tm_logic (fs_tiles sim ! r ! c) of None \<Rightarrow> 0
      | Some tile \<Rightarrow>
          (case clb_eval_bits tile (inject_inputs tile pi_values [0..<fs_EXT_IN sim] (cluster_pins sim out r c)) (ff_of ff r c) of
             Inl _ \<Rightarrow> 0
           | Inr bits \<Rightarrow> (case pack_outputs (fs_N sim) bits of Inl _ \<Rightarrow> 0 | Inr packed \<Rightarrow> packed)))"

definition out_of :: "fabric_sim \<Rightarrow> (nat \<times> nat \<Rightarrow> mask4) \<Rightarrow> mask4 list list" where
  "out_of sim m = map (\<lambda>r. map (\<lambda>c. m (r, c)) [0..<fs_C sim]) [0..<fs_R sim]"

definition cell_step ::
  "fabric_sim \<Rightarrow> (string \<rightharpoonup> int) \<Rightarrow> ((nat \<times> nat \<times> nat) \<times> int) list option \<Rightarrow> nat \<times> nat \<Rightarrow> (nat \<times> nat \<Rightarrow> mask4) \<Rightarrow> mask4" where
  "cell_step sim pi_values ff = (\<lambda>(r, c) m.
     sides (sb_outputs (tm_sb (fs_tiles sim ! r ! c)) (gather sim (out_of sim m) r c) (cluster_mask sim pi_values ff (out_of sim m) r c)))"

definition in_tracks :: "nat \<Rightarrow> mask4 \<Rightarrow> bool" where
  "in_tracks W m \<longleftrightarrow> (\<forall>d \<in> set DIRS. \<forall>t \<ge> W. \<not> bit (side m d) t)"

definition agree_below :: "(node \<Rightarrow> nat) \<Rightarrow> nat \<Rightarrow> nat \<times> nat \<Rightarrow> mask4 \<Rightarrow> mask4 \<Rightarrow> bool" where
  "agree_below rank k = (\<lambda>cell m m'.
     \<forall>d \<in> set DIRS. \<forall>t. rank (track cell d t) < k \<longrightarrow> bit (side m d) t = bit (side m' d) t)"

lemma out_of_nth: "r < fs_R sim \<Longrightarrow> c < fs_C sim \<Longrightarrow> out_of sim m ! r ! c = m (r, c)"
  by (simp add: out_of_def)

lemma gather_feeder:
  assumes "r < fs_R sim" and "c < fs_C sim"
  shows "gather sim (out_of sim m) r c d = (case feeder sim r c d of None \<Rightarrow> 0 | Some (cell, d') \<Rightarrow> side (m cell) d')"
proof -
  have "r - 1 < fs_R sim" "c - 1 < fs_C sim" using assms by simp_all
  then show ?thesis using assms by (simp add: gather_def feeder_def out_of_nth)
qed

lemma feeder_cell:
  assumes "feeder sim r c d = Some (cell, d')" and "r < fs_R sim" and "c < fs_C sim"
  shows "cell \<in> set (cells sim) \<and> d' \<in> set DIRS"
proof -
  have "r - 1 < fs_R sim" "c - 1 < fs_C sim" using assms by simp_all
  then show ?thesis using assms by (auto simp: feeder_def DIRS_def in_cells split: if_splits)
qed

lemma pin_bit_source:
  assumes ready: "tile_ready (fs_W sim) (fs_N sim) (fs_tiles sim ! r ! c)" and rc: "r < fs_R sim" "c < fs_C sim"
    and low: "in_tracks (fs_W sim) (m (r, c))" and i: "i < CLB_EXT_IN"
  shows "cluster_pins sim (out_of sim m) r c ! i = of_bool (case cb_source sim r c i of (d, t) \<Rightarrow> bit (side (m (r, c)) d) t)"
    and "fst (cb_source sim r c i) \<in> set DIRS"
proof -
  let ?cb = "tm_cb (fs_tiles sim ! r ! c)" and ?W = "fs_W sim"
  note tr = tile_readyD [OF ready]
  define p where "p = nat (pool_index ?cb i (cb_sel ?cb ! i))"
  have "int i mod 2 < 2" "0 \<le> int i mod 2" by simp_all
  with tr(9) [OF i] have "0 \<le> pool_index ?cb i (cb_sel ?cb ! i)" "pool_index ?cb i (cb_sel ?cb ! i) < 4 * int ?W"
    unfolding pool_index_def tr(6) of_nat_numeral by linarith+
  then have p: "p < 4 * ?W" by (simp add: p_def nat_less_iff)
  have k: "p div ?W < 4" using p by (simp add: less_mult_imp_div_less mult.commute)
  have w: "0 < ?W" using tr(7) by simp
  have src: "cb_source sim r c i = (DIRS ! (p div ?W), p mod ?W)"
    by (simp add: cb_source_def Let_def tr(4) p_def)
  with k show "fst (cb_source sim r c i) \<in> set DIRS" by simp
  have hi: "\<not> bit (side (m (r, c)) d) t" if "d \<in> set DIRS" "?W \<le> t" for d t using low that by (simp add: in_tracks_def)
  have "bit (push_bit (3 * ?W) (side (m (r, c)) ''w'') OR push_bit (2 * ?W) (side (m (r, c)) ''e'') OR push_bit ?W (side (m (r, c)) ''s'')
      OR side (m (r, c)) ''n'') (p div ?W * ?W + p mod ?W) \<longleftrightarrow> bit (side (m (r, c)) (DIRS ! (p div ?W))) (p mod ?W)"
    by (rule pool_bit_at [OF hi DIR_IDX_DIRS [OF k]]) (use w in simp_all)
  then show "cluster_pins sim (out_of sim m) r c ! i = of_bool (case cb_source sim r c i of (d, t) \<Rightarrow> bit (side (m (r, c)) d) t)"
    using i by (simp add: cluster_pins_def cb_clb_in_def Let_def tr(4,5) bit_at_of_bool out_of_nth [OF rc] src flip: p_def)
qed

section \<open>Agreement is carried on\<close>

definition cluster_ins :: "fabric_sim \<Rightarrow> (string \<rightharpoonup> int) \<Rightarrow> tile_logic \<Rightarrow> mask4 list list \<Rightarrow> nat \<Rightarrow> nat \<Rightarrow> int list" where
  "cluster_ins sim pi_values tile out r c = inject_inputs tile pi_values [0..<fs_EXT_IN sim] (cluster_pins sim out r c)"

lemma loop_freeD:
  assumes "loop_free sim pi_values rank" and "r < fs_R sim" and "c < fs_C sim"
  shows "list_all (sel_ordered sim rank r c) (sb_sel (tm_sb (fs_tiles sim ! r ! c)))"
    and "(j, d) \<in> set (sb_inject (tm_sb (fs_tiles sim ! r ! c))) \<Longrightarrow> rank (ClbOut (int r) (int c) j) < rank (track (r, c) (DIRS ! d) j)"
    and "tm_logic (fs_tiles sim ! r ! c) = Some tile \<Longrightarrow> logic_ordered sim pi_values rank r c tile"
proof -
  let ?tm = "fs_tiles sim ! r ! c"
  from assms have t: "tile_ordered sim pi_values rank r c" by (simp add: loop_free_def)
  then show "list_all (sel_ordered sim rank r c) (sb_sel (tm_sb ?tm))" by (simp add: tile_ordered_def Let_def)
  from t have "list_all (\<lambda>(j, d). rank (ClbOut (int r) (int c) j) < rank (track (r, c) (DIRS ! d) j)) (sb_inject (tm_sb ?tm))"
    by (simp add: tile_ordered_def Let_def)
  then show "(j, d) \<in> set (sb_inject (tm_sb ?tm)) \<Longrightarrow> rank (ClbOut (int r) (int c) j) < rank (track (r, c) (DIRS ! d) j)"
    unfolding list_all_iff by (auto dest: bspec)
  from t show "tm_logic ?tm = Some tile \<Longrightarrow> logic_ordered sim pi_values rank r c tile"
    by (simp add: tile_ordered_def Let_def)
qed

lemma cluster_total:
  assumes "sim_ready sim" and "logic_ordered sim pi_values rank r c tile" and "r < fs_R sim" and "c < fs_C sim"
    and "tm_logic (fs_tiles sim ! r ! c) = Some tile"
  shows "\<exists>bits packed. clb_eval_bits tile (cluster_ins sim pi_values tile out r c) f = Inr bits
    \<and> clb_solved tile (cluster_ins sim pi_values tile out r c) f bits \<and> pack_outputs (fs_N sim) bits = Inr packed"
proof -
  note tr = tile_readyD [OF sim_readyD(4) [OF assms(1,3,4)]]
  have len: "length (cluster_ins sim pi_values tile out r c) = CLB_EXT_IN"
    using tr(5) by (simp add: cluster_ins_def cluster_pins_def cb_clb_in_def Let_def)
  from clb_solution [OF tr(10) [OF assms(5)] logic_fb_ordered [OF assms(2)] len, of f] obtain bits where
    b: "clb_eval_bits tile (cluster_ins sim pi_values tile out r c) f = Inr bits"
      "clb_solved tile (cluster_ins sim pi_values tile out r c) f bits" by blast
  from b(2) sim_readyD(2) [OF assms(1)] have "\<exists>packed. pack_outputs (fs_N sim) bits = Inr packed"
    by (simp add: pack_outputs_def clb_solved_def)
  with b show ?thesis by blast
qed

lemma cluster_mask_agree:
  assumes ready: "sim_ready sim" and free: "loop_free sim pi_values rank" and rc: "r < fs_R sim" "c < fs_C sim"
    and low: "in_tracks (fs_W sim) (x (r, c))" "in_tracks (fs_W sim) (y (r, c))"
    and agree: "agree_below rank k (r, c) (x (r, c)) (y (r, c))" and j: "rank (ClbOut (int r) (int c) j) \<le> k"
  shows "bit (cluster_mask sim pi_values ff (out_of sim x) r c) j = bit (cluster_mask sim pi_values ff (out_of sim y) r c) j"
proof (cases "tm_logic (fs_tiles sim ! r ! c)")
  case None
  then show ?thesis by (simp add: cluster_mask_def)
next
  case (Some tile)
  note lo = loop_freeD(3) [OF free rc Some] and tr = sim_readyD(4) [OF ready rc]
  let ?in = "\<lambda>m. cluster_ins sim pi_values tile (out_of sim m) r c"
  from cluster_total [OF ready lo rc Some, of "out_of sim x" "ff_of ff r c"] obtain bx px where
    x: "clb_eval_bits tile (?in x) (ff_of ff r c) = Inr bx" "clb_solved tile (?in x) (ff_of ff r c) bx" "pack_outputs (fs_N sim) bx = Inr px" by blast
  from cluster_total [OF ready lo rc Some, of "out_of sim y" "ff_of ff r c"] obtain by' py where
    y: "clb_eval_bits tile (?in y) (ff_of ff r c) = Inr by'" "clb_solved tile (?in y) (ff_of ff r c) by'" "pack_outputs (fs_N sim) by' = Inr py" by blast
  have masks: "cluster_mask sim pi_values ff (out_of sim x) r c = px" "cluster_mask sim pi_values ff (out_of sim y) r c = py"
    using x(1,3) y(1,3) Some by (simp_all add: cluster_mask_def cluster_ins_def)
  have pins: "odd (?in x ! i) = odd (?in y ! i)"
    if e: "(gi, ec) \<in> set (tl_eluts tile)" "\<not> ec_ff_en ec" "gk < CLB_K" "reads_pin (ec_tt ec) gk"
      and dec: "iib_decode (sel_of tile gi gk) gk = (''clb.I'', int i)" and i: "i < CLB_EXT_IN"
      and gi: "rank (ClbOut (int r) (int c) gi) \<le> k" for gi ec gk i
  proof -
    have len: "i < length (cluster_pins sim (out_of sim m) r c)" for m
      using i tile_readyD(5) [OF tr] by (simp add: cluster_pins_def cb_clb_in_def Let_def)
    have mem: "i \<in> set [0..<fs_EXT_IN sim]" using i sim_readyD(1) [OF ready] by simp
    show ?thesis
    proof (cases "Option.bind (get_opt (tl_inputs tile) i) pi_values")
      case (Some b)
      with mem show ?thesis by (simp only: cluster_ins_def inject_nth [OF len] option.simps if_True)
    next
      case None
      obtain d t where src: "cb_source sim r c i = (d, t)" by fastforce
      from logic_orderedD [OF lo e] None i have "rank (track (r, c) d t) < k"
        using gi by (simp add: dec pin_ordered_def src)
      moreover have "d \<in> set DIRS" using pin_bit_source(2) [OF tr rc, where m = x, OF low(1) i] by (simp add: src)
      ultimately have "bit (side (x (r, c)) d) t = bit (side (y (r, c)) d) t" using agree by (simp add: agree_below_def)
      then have "cluster_pins sim (out_of sim x) r c ! i = cluster_pins sim (out_of sim y) r c ! i"
        using pin_bit_source(1) [OF tr rc, where m = x, OF low(1) i] pin_bit_source(1) [OF tr rc, where m = y, OF low(2) i] by (simp add: src)
      then show ?thesis by (simp add: cluster_ins_def inject_nth [OF len] None)
    qed
  qed
  have "j < CLB_N \<Longrightarrow> bx ! j = by' ! j"
    by (rule solved_agree [OF x(2) y(2) tile_readyD(10) [OF tr Some] logic_fb_ordered [OF lo] pins _ j])
  then show ?thesis using sim_readyD(2) [OF ready] by (auto simp: masks pack_bit [OF x(3)] pack_bit [OF y(3)])
qed

lemma step_bit:
  assumes ready: "sim_ready sim" and rc: "r < fs_R sim" "c < fs_C sim" and d: "d < 4"
  shows "bit (side (cell_step sim pi_values ff (r, c) m) (DIRS ! d)) t \<longleftrightarrow>
    (let sb = tm_sb (fs_tiles sim ! r ! c) in
     if injected sb d t then bit (cluster_mask sim pi_values ff (out_of sim m) r c) t
     else case map_of (sb_sel sb) (d, t) of None \<Rightarrow> False | Some sel \<Rightarrow> sel_bit sb (gather sim (out_of sim m) r c) d t sel)"
proof -
  have mem: "DIRS ! d \<in> set DIRS" using d by simp
  show ?thesis
    unfolding cell_step_def prod.case side_sides [OF mem]
      sb_outputs_bit [OF tile_readyD(1) [OF sim_readyD(4) [OF ready rc]] d] Let_def by (rule refl)
qed

lemma step_in_tracks:
  assumes ready: "sim_ready sim" and rc: "r < fs_R sim" "c < fs_C sim"
  shows "in_tracks (fs_W sim) (cell_step sim pi_values ff (r, c) m)"
  unfolding in_tracks_def
proof (intro ballI allI impI)
  fix D t assume "D \<in> set DIRS" and t: "fs_W sim \<le> t"
  then obtain d where d: "d < 4" "D = DIRS ! d" by (metis in_set_conv_nth length_DIRS)
  let ?sb = "tm_sb (fs_tiles sim ! r ! c)"
  note tr = tile_readyD [OF sim_readyD(4) [OF ready rc]]
  have "\<not> injected ?sb d t" using tr(3,8) t by (simp add: injected_def)
  moreover have "map_of (sb_sel ?sb) (d, t) = None"
  proof (rule ccontr)
    assume "map_of (sb_sel ?sb) (d, t) \<noteq> None"
    then obtain sel where "((d, t), sel) \<in> set (sb_sel ?sb)" by (auto dest: map_of_SomeD)
    with tr(1,2) t show False by (auto simp: switch_box_ok_def list_all_iff)
  qed
  ultimately show "\<not> bit (side (cell_step sim pi_values ff (r, c) m) D) t" by (simp add: d(2) step_bit [OF ready rc d(1)] Let_def)
qed

lemma step_agrees:
  assumes ready: "sim_ready sim" and free: "loop_free sim pi_values rank" and rc: "r < fs_R sim" "c < fs_C sim"
    and xy: "\<And>cell. cell \<in> set (cells sim) \<Longrightarrow>
      in_tracks (fs_W sim) (x cell) \<and> in_tracks (fs_W sim) (y cell) \<and> agree_below rank k cell (x cell) (y cell)"
  shows "agree_below rank (Suc k) (r, c) (cell_step sim pi_values ff (r, c) x) (cell_step sim pi_values ff (r, c) y)"
  unfolding agree_below_def
proof (intro ballI allI impI)
  fix D t assume "D \<in> set DIRS" and lt: "rank (track (r, c) D t) < Suc k"
  then obtain d where d: "d < 4" "D = DIRS ! d" by (metis in_set_conv_nth length_DIRS)
  let ?sb = "tm_sb (fs_tiles sim ! r ! c)"
  have here: "(r, c) \<in> set (cells sim)" using rc by (simp add: in_cells)
  have inj: "bit (cluster_mask sim pi_values ff (out_of sim x) r c) t = bit (cluster_mask sim pi_values ff (out_of sim y) r c) t"
    if "injected ?sb d t"
  proof -
    from that have "(t, d) \<in> set (sb_inject ?sb)" by (auto simp: injected_def dest: map_of_SomeD)
    from loop_freeD(2) [OF free rc this] lt have "rank (ClbOut (int r) (int c) t) \<le> k" by (simp add: d(2))
    with xy [OF here] show ?thesis by (intro cluster_mask_agree [OF ready free rc]) blast+
  qed
  have sel: "sel_bit ?sb (gather sim (out_of sim x) r c) d t sel = sel_bit ?sb (gather sim (out_of sim y) r c) d t sel"
    if n: "\<not> injected ?sb d t" and s: "map_of (sb_sel ?sb) (d, t) = Some sel" for sel
  proof (cases "sel = 0")
    case True
    then show ?thesis by (simp add: sel_bit_def)
  next
    case False
    define src where "src = the (SOURCES (DIRS ! d)) ! nat (sel - 1)"
    define st where "st = wilton_track (DIRS ! d) src t (sb_W ?sb)"
    from loop_freeD(1) [OF free rc] map_of_SomeD [OF s] have "sel_ordered sim rank r c ((d, t), sel)" by (auto simp: list_all_iff)
    then have o: "case feeder sim r c src of None \<Rightarrow> True | Some (cell, src') \<Rightarrow> rank (track cell src' st) < rank (track (r, c) (DIRS ! d) t)"
      unfolding src_def st_def using False n by (simp add: sel_ordered_def Let_def)
    have "bit (gather sim (out_of sim x) r c src) st = bit (gather sim (out_of sim y) r c src) st"
    proof (cases "feeder sim r c src")
      case None
      then show ?thesis by (simp add: gather_feeder [OF rc])
    next
      case (Some f)
      obtain cell src' where f: "f = (cell, src')" by (cases f)
      from o lt Some have "rank (track cell src' st) < k" by (simp add: f d(2))
      with xy feeder_cell [OF Some [unfolded f] rc] have "bit (side (x cell) src') st = bit (side (y cell) src') st"
        by (simp add: agree_below_def)
      then show ?thesis by (simp add: gather_feeder [OF rc] Some f)
    qed
    then show ?thesis by (simp add: sel_bit_def src_def st_def)
  qed
  show "bit (side (cell_step sim pi_values ff (r, c) x) D) t = bit (side (cell_step sim pi_values ff (r, c) y) D) t"
    unfolding d(2) step_bit [OF ready rc d(1)] Let_def using inj sel by (simp split: option.split)
qed

lemma masks_eq:
  assumes "\<And>d t. d \<in> set DIRS \<Longrightarrow> bit (side m d) t = bit (side m' d) t"
  shows "m = m'"
proof -
  have "side m d = side m' d" if "d \<in> set DIRS" for d by (rule bit_eqI) (use assms that in blast)
  then have "side m ''n'' = side m' ''n''" "side m ''s'' = side m' ''s''" "side m ''e'' = side m' ''e''" "side m ''w'' = side m' ''w''"
    by (simp_all add: DIRS_def)
  then show ?thesis by (cases m; cases m') simp
qed

section \<open>The passes as a ranked iteration\<close>

text \<open>The cells of a simulator whose ranks are in order and below \<open>K\<close>\<close>

definition ranked_cells :: "fabric_sim \<Rightarrow> (string \<rightharpoonup> int) \<Rightarrow> (node \<Rightarrow> nat) \<Rightarrow> nat \<Rightarrow> (nat \<times> nat) list" where
  "ranked_cells sim pi_values rank K =
     (if sim_ready sim \<and> loop_free sim pi_values rank \<and> (\<forall>n. rank n < K) then cells sim else [])"

lemma ranked_cellsD:
  assumes "cell \<in> set (ranked_cells sim pi_values rank K)"
  shows "sim_ready sim" and "loop_free sim pi_values rank" and "rank n < K" and "ranked_cells sim pi_values rank K = cells sim"
    and "fst cell < fs_R sim" and "snd cell < fs_C sim"
  using assms in_cells [of "fst cell" "snd cell" sim] by (auto simp: ranked_cells_def split: if_splits)

interpretation fabric_pass: ranked_iteration "ranked_cells sim pi_values rank K" "cell_step sim pi_values ff" "in_tracks (fs_W sim)"
  "agree_below rank" K "(0, 0, 0, 0)" for sim pi_values rank K ff
proof
  show "in_tracks (fs_W sim) (0, 0, 0, 0)" by (simp add: in_tracks_def)
next
  fix cell m assume c: "cell \<in> set (ranked_cells sim pi_values rank K)"
  from step_in_tracks [OF ranked_cellsD(1,5,6) [OF c]] show "in_tracks (fs_W sim) (cell_step sim pi_values ff cell m)" by simp
next
  show "agree_below rank 0 c a b" for c a b by (simp add: agree_below_def)
  show "agree_below rank (Suc k) c a b \<Longrightarrow> agree_below rank k c a b" for k c a b by (simp add: agree_below_def)
next
  fix cell a b assume c: "cell \<in> set (ranked_cells sim pi_values rank K)" and ag: "agree_below rank K cell a b"
  show "a = b" by (rule masks_eq) (use ag ranked_cellsD(3) [OF c] in \<open>simp add: agree_below_def\<close>)
next
  fix x y :: "nat \<times> nat \<Rightarrow> mask4" and k cell
  assume xy: "\<And>c'. c' \<in> set (ranked_cells sim pi_values rank K) \<Longrightarrow>
      in_tracks (fs_W sim) (x c') \<and> in_tracks (fs_W sim) (y c') \<and> agree_below rank k c' (x c') (y c')"
    and c: "cell \<in> set (ranked_cells sim pi_values rank K)"
  note rcs = ranked_cellsD [OF c]
  from step_agrees [OF rcs(1,2,5,6), of x y k ff, OF xy [unfolded rcs(4)]]
  show "agree_below rank (Suc k) cell (cell_step sim pi_values ff cell x) (cell_step sim pi_values ff cell y)" by simp
qed

end
