(* ===== verification/Fabric_Converge.thy ===== *)
theory Fabric_Converge
  imports Fabric_Order
begin

text \<open>
  A fabric without a combinational loop settles: with ranks below \<open>K\<close>, the passes of the simulator raise
  nothing and end, by themselves, within \<open>K + 1\<close> passes, and the evaluation returns.
\<close>

section \<open>A pass as steps of its cells\<close>

definition cell_masks :: "pass_state \<Rightarrow> nat \<times> nat \<Rightarrow> mask4" where
  "cell_masks s = (\<lambda>(r, c). ps_out s ! r ! c)"

lemma out_of_masks: "shaped sim s \<Longrightarrow> out_of sim (cell_masks s) = ps_out s"
proof -
  assume "shaped sim s"
  then have g: "grid (fs_R sim) (fs_C sim) (ps_out s)" by (simp add: shaped_def)
  show ?thesis
  proof (rule nth_equalityI)
    show "length (out_of sim (cell_masks s)) = length (ps_out s)" using gridD(1) [OF g] by (simp add: out_of_def)
    fix r assume "r < length (out_of sim (cell_masks s))"
    then have r: "r < fs_R sim" by (simp add: out_of_def)
    show "out_of sim (cell_masks s) ! r = ps_out s ! r"
      by (rule nth_equalityI) (use r gridD(2) [OF g r] in \<open>simp_all add: out_of_def cell_masks_def\<close>)
  qed
qed

lemma eval_clb_total:
  assumes "sim_ready sim" and "loop_free sim pi_values rank" and "r < fs_R sim" and "c < fs_C sim"
  shows "\<exists>s'. eval_clb sim pi_values ff (r, c) s = Inr (cluster_mask sim pi_values ff (ps_out s) r c, s')"
proof (cases "tm_logic (fs_tiles sim ! r ! c)")
  case None
  then show ?thesis by (simp add: eval_clb_def cluster_mask_def)
next
  case (Some tile)
  from cluster_total [OF assms(1) loop_freeD(3) [OF assms(2,3,4) Some] assms(3,4) Some, of "ps_out s" "ff_of ff r c"]
  obtain bits packed where "clb_eval_bits tile (cluster_ins sim pi_values tile (ps_out s) r c) (ff_of ff r c) = Inr bits"
    "pack_outputs (fs_N sim) bits = Inr packed" by blast
  with Some show ?thesis
    by (simp add: eval_clb_def cluster_mask_def cluster_ins_def cluster_pins_def ff_of_def lift_tile_def Let_def)
qed

lemma visit_step:
  assumes ready: "sim_ready sim" and free: "loop_free sim pi_values rank" and sh: "shaped sim s" and rc: "r < fs_R sim" "c < fs_C sim"
  shows "\<exists>s'. visit_tile sim pi_values ff (r, c) s = Inr s' \<and> shaped sim s'
    \<and> cell_masks s' = (cell_masks s)((r, c) := cell_step sim pi_values ff (r, c) (cell_masks s))
    \<and> (cell_step sim pi_values ff (r, c) (cell_masks s) = cell_masks s (r, c) \<longrightarrow> ps_changed s' = ps_changed s)"
proof -
  from eval_clb_total [OF ready free rc, of ff s] obtain s1 where
    e: "eval_clb sim pi_values ff (r, c) s = Inr (cluster_mask sim pi_values ff (ps_out s) r c, s1)" by blast
  note ev = eval_clb_ok [OF e sh rc]
  let ?new = "cell_step sim pi_values ff (r, c) (cell_masks s)"
  have new: "?new = sides (sb_outputs (tm_sb (fs_tiles sim ! r ! c)) (gather sim (ps_out s) r c) (cluster_mask sim pi_values ff (ps_out s) r c))"
    by (simp add: cell_step_def out_of_masks [OF sh])
  have here: "cell_masks s (r, c) = ps_out s ! r ! c" by (simp add: cell_masks_def)
  let ?s = "if ?new \<noteq> ps_out s1 ! r ! c then s1\<lparr>ps_out := grid_update r c ?new (ps_out s1), ps_changed := True\<rparr> else s1"
  have v: "visit_tile sim pi_values ff (r, c) s = Inr ?s" by (simp add: visit_tile_def Let_def e new)
  have g: "grid (fs_R sim) (fs_C sim) (ps_out s)" using sh by (simp add: shaped_def)
  have "cell_masks ?s = (cell_masks s)((r, c) := ?new)"
  proof
    fix cell :: "nat \<times> nat"
    obtain r' c' where cell: "cell = (r', c')" by (cases cell)
    show "cell_masks ?s cell = ((cell_masks s)((r, c) := ?new)) cell"
    proof (cases "r' = r \<and> c' = c")
      case True
      then show ?thesis using grid_update_nth [OF g rc] ev(2) by (auto simp: cell cell_masks_def)
    next
      case False
      then show ?thesis using grid_update_other [of r' r c' c ?new "ps_out s1"] ev(2) by (auto simp: cell cell_masks_def)
    qed
  qed
  moreover have "shaped sim ?s" using visit_tile_ok(1) [OF v sh rc] .
  moreover have "ps_changed ?s = ps_changed s" if "?new = cell_masks s (r, c)" using that ev(2,3) by (simp add: here)
  ultimately show ?thesis using v by blast
qed

lemma fold_steps:
  assumes ready: "sim_ready sim" and free: "loop_free sim pi_values rank"
  shows "shaped sim s \<Longrightarrow> set xs \<subseteq> set (cells sim) \<Longrightarrow>
    \<exists>s'. res_fold (visit_tile sim pi_values ff) xs s = Inr s' \<and> shaped sim s'
      \<and> cell_masks s' = foldl (\<lambda>m c. m(c := cell_step sim pi_values ff c m)) (cell_masks s) xs
      \<and> ((\<forall>c \<in> set xs. cell_step sim pi_values ff c (cell_masks s) = cell_masks s c) \<longrightarrow>
           cell_masks s' = cell_masks s \<and> ps_changed s' = ps_changed s)"
proof (induction xs arbitrary: s)
  case Nil
  then show ?case by simp
next
  case (Cons x xs)
  obtain r c where x: "x = (r, c)" by (cases x)
  with Cons.prems(2) have rc: "r < fs_R sim" "c < fs_C sim" by (simp_all add: in_cells)
  from visit_step [OF ready free Cons.prems(1) rc, of ff] obtain s1 where
    v: "visit_tile sim pi_values ff (r, c) s = Inr s1" "shaped sim s1"
      "cell_masks s1 = (cell_masks s)((r, c) := cell_step sim pi_values ff (r, c) (cell_masks s))"
    and same: "cell_step sim pi_values ff (r, c) (cell_masks s) = cell_masks s (r, c) \<Longrightarrow> ps_changed s1 = ps_changed s" by blast
  have "set xs \<subseteq> set (cells sim)" using Cons.prems(2) by simp
  from Cons.IH [OF v(2) this] obtain s' where
    ih: "res_fold (visit_tile sim pi_values ff) xs s1 = Inr s'" "shaped sim s'"
      "cell_masks s' = foldl (\<lambda>m c. m(c := cell_step sim pi_values ff c m)) (cell_masks s1) xs"
    and quiet: "\<forall>c \<in> set xs. cell_step sim pi_values ff c (cell_masks s1) = cell_masks s1 c \<Longrightarrow>
           cell_masks s' = cell_masks s1 \<and> ps_changed s' = ps_changed s1" by blast
  have "cell_masks s' = cell_masks s \<and> ps_changed s' = ps_changed s"
    if q: "\<forall>c \<in> set (x # xs). cell_step sim pi_values ff c (cell_masks s) = cell_masks s c"
  proof -
    from q have here: "cell_step sim pi_values ff (r, c) (cell_masks s) = cell_masks s (r, c)" by (simp add: x)
    then have "cell_masks s1 = cell_masks s" using v(3) by (simp add: fun_upd_idem)
    with quiet q same [OF here] show ?thesis by simp
  qed
  moreover have "cell_masks s' = foldl (\<lambda>m c. m(c := cell_step sim pi_values ff c m)) (cell_masks s) (x # xs)"
    by (simp only: foldl.simps ih(3) v(3) x)
  moreover have "res_fold (visit_tile sim pi_values ff) (x # xs) s = Inr s'" by (simp add: x v(1) ih(1))
  ultimately show ?case using ih(2) by blast
qed

section \<open>The passes end\<close>

lemma passes_converge:
  assumes ready: "sim_ready sim" and free: "loop_free sim pi_values rank" and bound: "\<forall>n. rank n < K"
  shows "shaped sim s \<Longrightarrow> fabric_pass.close sim pi_values rank K ff k (cell_masks s) \<Longrightarrow> k \<le> K \<Longrightarrow> K < k + fuel \<Longrightarrow>
    \<exists>i s'. passes sim pi_values ff fuel iters s = Inr (i, True, s') \<and> shaped sim s' \<and> i + k \<le> iters + K + 1"
proof (induction fuel arbitrary: iters s k)
  case 0
  then show ?case by simp
next
  case (Suc fuel)
  have rcs: "ranked_cells sim pi_values rank K = cells sim" using ready free bound by (simp add: ranked_cells_def)
  let ?s = "s\<lparr>ps_changed := False\<rparr>"
  have m: "cell_masks ?s = cell_masks s" and sh: "shaped sim ?s" using Suc.prems(1) by (simp_all add: cell_masks_def shaped_def)
  from fold_steps [OF ready free sh subset_refl, of ff] obtain s1 where
      f: "res_fold (visit_tile sim pi_values ff) (cells sim) ?s = Inr s1" "shaped sim s1"
        "cell_masks s1 = foldl (\<lambda>m c. m(c := cell_step sim pi_values ff c m)) (cell_masks s) (cells sim)"
    and quiet: "\<forall>c \<in> set (cells sim). cell_step sim pi_values ff c (cell_masks s) = cell_masks s c \<Longrightarrow> \<not> ps_changed s1"
    unfolding m by auto
  have p: "passes sim pi_values ff (Suc fuel) iters s =
      (if ps_changed s1 then passes sim pi_values ff fuel (iters + 1) s1 else Inr (iters + 1, True, s1))" by (simp add: f(1))
  have close: "fabric_pass.close sim pi_values rank K ff (Suc k) (cell_masks s1)"
    using fabric_pass.pass_close [OF Suc.prems(2)] by (simp only: f(3) rcs)
  show ?case
  proof (cases "ps_changed s1")
    case False
    with p f(2) Suc.prems(3) show ?thesis by simp
  next
    case True
    have "k < K"
    proof (rule ccontr)
      assume "\<not> k < K"
      then have "cell_step sim pi_values ff c (cell_masks s) = cell_masks s c" if "c \<in> set (cells sim)" for c
        using fabric_pass.close_bound [OF Suc.prems(2) _ that [folded rcs]] by simp
      with quiet True show False by blast
    qed
    with Suc.IH [OF f(2) close] Suc.prems(4) obtain i s' where
      "passes sim pi_values ff fuel (iters + 1) s1 = Inr (i, True, s')" "shaped sim s'" "i + Suc k \<le> iters + 1 + K + 1" by fastforce
    with p True show ?thesis by auto
  qed
qed

lemma start_close: "fabric_pass.close sim pi_values rank K ff 0 (cell_masks (start_state sim))"
proof (rule fabric_pass.close_0)
  fix cell assume "cell \<in> set (ranked_cells sim pi_values rank K)"
  from ranked_cellsD(5,6) [OF this] show "in_tracks (fs_W sim) (cell_masks (start_state sim) cell)"
    by (simp add: cell_masks_def start_state_def in_tracks_def split_def)
qed

section \<open>The evaluation returns\<close>

lemma captured_total:
  assumes "\<And>r c inb outb. ((r, c), inb, outb) \<in> set io \<Longrightarrow> length inb = CLB_EXT_IN \<and> length outb = CLB_N"
  shows "\<exists>nxt. captured sim io d = Inr nxt"
  using assms
proof (induction io arbitrary: d)
  case Nil
  then show ?case by simp
next
  case (Cons x io)
  obtain r c inb outb where x: "x = ((r, c), inb, outb)" by (metis prod.exhaust)
  from Cons.prems have rest: "\<And>r c inb outb. ((r, c), inb, outb) \<in> set io \<Longrightarrow> length inb = CLB_EXT_IN \<and> length outb = CLB_N"
    by (meson list.set_intros(2))
  show ?case
  proof (cases "tm_logic (fs_tiles sim ! r ! c)")
    case None
    with Cons.IH [OF rest] show ?thesis by (simp add: x)
  next
    case (Some tile)
    from Cons.prems [of r c inb outb] x ff_next_total obtain n where "clb_ff_next tile inb outb = Inr n" by fastforce
    with Cons.IH [OF rest] Some show ?thesis by (simp add: x lift_tile_def)
  qed
qed

lemma taps_total:
  assumes "\<And>r c gi po. (r, c, gi, po) \<in> set taps \<Longrightarrow> 0 \<le> r \<and> nat r < length clb \<and> 0 \<le> c \<and> nat c < length (clb ! nat r)
      \<and> gi < length (clb ! nat r ! nat c)"
  shows "\<exists>result. res_fold (read_tap clb) taps d = Inr result"
  using assms
proof (induction taps arbitrary: d)
  case Nil
  then show ?case by simp
next
  case (Cons x taps)
  obtain r c gi po where x: "x = (r, c, gi, po)" by (metis prod.exhaust)
  from Cons.prems [of r c gi po] x have "0 \<le> r" "nat r < length clb" "0 \<le> c" "nat c < length (clb ! nat r)" "gi < length (clb ! nat r ! nat c)"
    by simp_all
  then have "\<exists>d'. read_tap clb x d = Inr d'" by (simp add: x read_tap_def py_nth_nat)
  with Cons.IH Cons.prems show ?case by (metis list.set_intros(2) res_bind.simps(2) res_fold.simps(2))
qed

lemma evaluate_returns:
  assumes ready: "sim_ready sim" and free: "loop_free sim pi_values rank" and bound: "\<forall>n. rank n < K" and fuel: "K < fuel"
  shows "\<exists>result sim'. evaluate sim pi_values fuel ff = Inr (result, sim') \<and> fs_converged sim' \<and> fs_last_iters sim' \<le> K + 1"
proof -
  from passes_converge [OF ready free bound start_shaped start_close le0, of fuel ff 0] fuel obtain i s where
    p: "passes sim pi_values ff fuel 0 (start_state sim) = Inr (i, True, s)" and sh: "shaped sim s" and i: "i \<le> K + 1" by auto
  have settled: "settled_cell sim pi_values ff (ps_out s) (ps_clb s) r c" if "r < fs_R sim" "c < fs_C sim" for r c
    using passes_settled [OF p start_shaped] that by blast
  have outs: "length (ps_clb s ! r ! c) = CLB_N" if rc: "r < fs_R sim" "c < fs_C sim" and l: "tm_logic (fs_tiles sim ! r ! c) = Some tile" for r c tile
  proof -
    from cluster_total [OF ready loop_freeD(3) [OF free rc l] rc l, of "ps_out s" "ff_of ff r c"] obtain bits where
      "clb_eval_bits tile (cluster_ins sim pi_values tile (ps_out s) r c) (ff_of ff r c) = Inr bits" "length bits = CLB_N"
      by (auto simp: clb_solved_def)
    with settled [OF rc] l show ?thesis by (auto simp: settled_cell_def clb_ok_at_def cluster_ins_def)
  qed
  have "\<exists>nxt. (case ff of None \<Rightarrow> Inr [] | Some _ \<Rightarrow> captured sim (ps_io s) []) = Inr nxt"
  proof (cases ff)
    case None
    then show ?thesis by simp
  next
    case (Some f)
    from passes_io [OF p [unfolded Some] start_shaped start_io] have io: "io_shape sim s"
      and at: "\<And>r c. r < fs_R sim \<Longrightarrow> c < fs_C sim \<Longrightarrow> map_of (ps_io s) (r, c) = io_at sim pi_values (ps_out s) (ps_clb s) r c" by blast+
    have "length inb = CLB_EXT_IN \<and> length outb = CLB_N" if e: "((r, c), inb, outb) \<in> set (ps_io s)" for r c inb outb
    proof -
      from io e have rc: "r < fs_R sim" "c < fs_C sim" and d: "distinct (map fst (ps_io s))" and "tm_logic (fs_tiles sim ! r ! c) \<noteq> None"
        by (auto simp: io_shape_def list_all_iff)
      then obtain tile where l: "tm_logic (fs_tiles sim ! r ! c) = Some tile" by blast
      from e d have "map_of (ps_io s) (r, c) = Some (inb, outb)" by simp
      with at [OF rc] l have "inb = cluster_ins sim pi_values tile (ps_out s) r c" "outb = ps_clb s ! r ! c"
        by (simp_all add: io_at_def cluster_ins_def)
      with outs [OF rc l] tile_readyD(5) [OF sim_readyD(4) [OF ready rc]] show ?thesis
        by (simp add: cluster_ins_def cluster_pins_def cb_clb_in_def Let_def)
    qed
    from captured_total [OF this] Some show ?thesis by simp
  qed
  then obtain nxt where n: "(case ff of None \<Rightarrow> Inr [] | Some _ \<Rightarrow> captured sim (ps_io s) []) = Inr nxt" by blast
  have "\<exists>result. res_fold (read_tap (ps_clb s)) (fs_po_taps sim) [] = Inr result"
  proof (rule taps_total)
    fix r c gi po assume t: "(r, c, gi, po) \<in> set (fs_po_taps sim)"
    from sim_readyD(3) [OF ready] t have "tap_ready sim (r, c, gi, po)" by (auto simp: list_all_iff)
    then have tr: "gi < CLB_N" "0 \<le> r" "nat r < fs_R sim" "0 \<le> c" "nat c < fs_C sim" "tm_logic (fs_tiles sim ! nat r ! nat c) \<noteq> None"
      by (simp_all add: tap_ready_def nat_less_iff)
    from tr(6) obtain tile where "tm_logic (fs_tiles sim ! nat r ! nat c) = Some tile" by blast
    from outs [OF tr(3,5) this] have "length (ps_clb s ! nat r ! nat c) = CLB_N" .
    moreover have "grid (fs_R sim) (fs_C sim) (ps_clb s)" using sh by (simp add: shaped_def)
    ultimately show "0 \<le> r \<and> nat r < length (ps_clb s) \<and> 0 \<le> c \<and> nat c < length (ps_clb s ! nat r) \<and> gi < length (ps_clb s ! nat r ! nat c)"
      using tr gridD(1) [of "fs_R sim" "fs_C sim" "ps_clb s"] gridD(2) [of "fs_R sim" "fs_C sim" "ps_clb s" "nat r"] by simp
  qed
  then obtain result where "res_fold (read_tap (ps_clb s)) (fs_po_taps sim) [] = Inr result" by blast
  with p n i show ?thesis by (simp add: evaluate_def)
qed

end
