(* ===== verification/Fabric_Levels.thy ===== *)
theory Fabric_Levels
  imports Fabric_Netlist Fabric_Converge
begin

text \<open>
  A routed design whose LUTs have no combinational loop: with a level for every net that grows from
  the inputs of a LUT to its output, the tracks and cluster outputs of the fabric have ranks,
  first by the level of the net they carry, then by their place in the tree of the net.
\<close>

section \<open>Trees\<close>

lemma same_root:
  assumes uniq: "\<And>u v w. (u, v) \<in> L \<Longrightarrow> (w, v) \<in> L \<Longrightarrow> u = w" and r: "\<And>u. (u, w) \<notin> L" and r': "\<And>u. (u, w') \<notin> L"
    and "(w, v) \<in> L\<^sup>*"
  shows "(w', v) \<in> L\<^sup>* \<Longrightarrow> w = w'"
  using assms(4)
proof (induction rule: rtrancl_induct)
  case base
  then show ?case using r by (auto elim: rtranclE)
next
  case (step y z)
  from step.prems show ?case
  proof (cases rule: rtranclE)
    case base
    with step(2) r' show ?thesis by simp
  next
    case (step y')
    with uniq \<open>(y, z) \<in> L\<close> have "y' = y" by blast
    with step.IH step show ?thesis by simp
  qed
qed

lemma rooted_acyclic:
  assumes uniq: "\<And>u v w. (u, v) \<in> L \<Longrightarrow> (w, v) \<in> L \<Longrightarrow> u = w"
    and rooted: "\<And>u v. (u, v) \<in> L \<Longrightarrow> \<exists>w. (\<forall>x. (x, w) \<notin> L) \<and> (w, u) \<in> L\<^sup>*"
  shows "(v, v) \<notin> L\<^sup>+"
proof
  assume v: "(v, v) \<in> L\<^sup>+"
  then obtain u where "(u, v) \<in> L" by (meson tranclE)
  with rooted obtain w where w: "\<forall>x. (x, w) \<notin> L" "(w, u) \<in> L\<^sup>*" by blast
  with \<open>(u, v) \<in> L\<close> have "(w, v) \<in> L\<^sup>*" by (meson rtrancl.rtrancl_into_rtrancl)
  then have "(w, w) \<in> L\<^sup>+"
  proof (induction rule: converse_rtrancl_induct)
    case base
    show ?case by (rule v)
  next
    case (step x y)
    from step.IH obtain z where z: "(y, z) \<in> L\<^sup>*" "(z, y) \<in> L" by (meson tranclD2)
    with uniq step(1) have "z = x" by blast
    with z(1) step(1) show ?case by (meson rtrancl_into_trancl2)
  qed
  then obtain x where "(x, w) \<in> L" by (meson tranclE)
  with w(1) show False by blast
qed

text \<open>The number of nodes before a node in its tree\<close>

definition depth_in :: "edge list \<Rightarrow> node \<Rightarrow> nat" where
  "depth_in es v = card {u. (u, v) \<in> (links es)\<^sup>+}"

definition depth_bound :: "edge list \<Rightarrow> nat" where
  "depth_bound es = Suc (card (Domain (links es)))"

lemma finite_links: "finite (links es)"
proof -
  have "links es \<subseteq> (\<lambda>(u, v, m). (u, v)) ` set es" by (force simp: links_def)
  then show ?thesis by (rule finite_subset) simp
qed

lemma before_finite: "finite {u. (u, v) \<in> (links es)\<^sup>+}" and depth_less: "depth_in es v < depth_bound es"
proof -
  have sub: "{u. (u, v) \<in> (links es)\<^sup>+} \<subseteq> Domain (links es)" by (auto dest: tranclD)
  have fin: "finite (Domain (links es))" using finite_links by (rule finite_Domain)
  show "finite {u. (u, v) \<in> (links es)\<^sup>+}" by (rule finite_subset [OF sub fin])
  show "depth_in es v < depth_bound es" using card_mono [OF fin sub] by (simp add: depth_in_def depth_bound_def)
qed

lemma depth_grows:
  assumes "\<And>x. (x, x) \<notin> (links es)\<^sup>+" and "(u, v) \<in> links es"
  shows "depth_in es u < depth_in es v"
  unfolding depth_in_def
proof (rule psubset_card_mono [OF before_finite])
  have "{x. (x, u) \<in> (links es)\<^sup>+} \<subseteq> {x. (x, v) \<in> (links es)\<^sup>+}" using assms(2) by (auto intro: trancl_into_trancl)
  moreover have "u \<in> {x. (x, v) \<in> (links es)\<^sup>+}" "u \<notin> {x. (x, u) \<in> (links es)\<^sup>+}" using assms by auto
  ultimately show "{x. (x, u) \<in> (links es)\<^sup>+} \<subset> {x. (x, v) \<in> (links es)\<^sup>+}" by blast
qed

section \<open>The nets of a routing\<close>

text \<open>The edges of a full routing: trees that start at the drivers of the nets and reach all their sinks\<close>

definition net_trees :: "fabric_db \<Rightarrow> int \<Rightarrow> int \<Rightarrow> nat \<Rightarrow> nat \<Rightarrow> nat \<Rightarrow> nat \<Rightarrow> edge list \<Rightarrow> bool" where
  "net_trees db x0 y0 R C W N es \<longleftrightarrow>
     (\<forall>e \<in> set es. routable_edge R C W N e) \<and> single_target es \<and> agreeing W es
     \<and> (\<forall>u v. (u, v) \<in> links es \<longrightarrow> (\<exists>n w. w \<in> set (net_drivers db x0 y0 n) \<and> (w, u) \<in> (links es)\<^sup>*))
     \<and> (\<forall>n w s. w \<in> set (net_drivers db x0 y0 n) \<longrightarrow> s \<in> set (net_sinks db x0 y0 n) \<longrightarrow> (w, s) \<in> (links es)\<^sup>*)"

lemma net_treesD:
  assumes "net_trees db x0 y0 R C W N es"
  shows "\<forall>e \<in> set es. routable_edge R C W N e" and "single_target es" and "agreeing W es"
    and "(u, v, m) \<in> set es \<Longrightarrow> routable_edge R C W N (u, v, m)"
    and "(u, v) \<in> links es \<Longrightarrow> \<exists>n w. w \<in> set (net_drivers db x0 y0 n) \<and> (w, u) \<in> (links es)\<^sup>*"
    and "w \<in> set (net_drivers db x0 y0 n) \<Longrightarrow> s \<in> set (net_sinks db x0 y0 n) \<Longrightarrow> (w, s) \<in> (links es)\<^sup>*"
  using assms unfolding net_trees_def by blast+

lemma driver_is_output: "w \<in> set (net_drivers db x0 y0 n) \<Longrightarrow> \<exists>r c j. w = ClbOut r c j"
  unfolding in_drivers by blast

lemma driver_root:
  assumes "net_trees db x0 y0 R C W N es" and "w \<in> set (net_drivers db x0 y0 n)"
  shows "(u, w) \<notin> links es"
proof
  assume "(u, w) \<in> links es"
  then obtain m where "(u, w, m) \<in> set es" by (auto simp: links_def)
  with net_treesD(4) [OF assms(1)] have "routable_edge R C W N (u, w, m)" .
  with driver_is_output [OF assms(2)] show False by (auto elim: routable_into_clb_out)
qed

lemma links_uniq: "single_target es \<Longrightarrow> (u, v) \<in> links es \<Longrightarrow> (w, v) \<in> links es \<Longrightarrow> u = w"
  by (auto simp: single_target_def links_def)

lemma trees_acyclic: "net_trees db x0 y0 R C W N es \<Longrightarrow> (x, x) \<notin> (links es)\<^sup>+"
proof (rule rooted_acyclic)
  assume t: "net_trees db x0 y0 R C W N es"
  show "u = w" if "(u, v) \<in> links es" "(w, v) \<in> links es" for u v w by (rule links_uniq [OF net_treesD(2) [OF t] that])
  show "\<exists>w. (\<forall>x. (x, w) \<notin> links es) \<and> (w, u) \<in> (links es)\<^sup>*" if "(u, v) \<in> links es" for u v
    using net_treesD(5) [OF t that] driver_root [OF t] by blast
qed

text \<open>The routing of a database whose nets are all routed\<close>

lemma routed_trees:
  assumes perm: "permutes_nets shuffle" and box: "db_grid_bounds db = Inr (x0, y0, x1, y1)"
    and run: "route shuffle db max_iters W N ext = Some (Inr rc)" and full: "fully_routed rc"
    and dicts: "db_dicts ext db" and single: "single_drivers db x0 y0" and dims: "1 \<le> W" "N \<le> W" "1 \<le> ext"
  obtains es sim where "net_trees db x0 y0 (nat (y1 - y0 + 1)) (nat (x1 - x0 + 1)) W N es"
    and "populate W es [] = Inr (rc_tiles rc)" and "sinks_below ext es"
    and "fabric_sim_init db (rc_tiles rc) x0 y0 W N ext = Inr sim"
    and "built_sim db (rc_tiles rc) (x0, y0) (nat (y1 - y0 + 1)) (nat (x1 - x0 + 1)) W N ext sim"
proof -
  let ?R = "nat (y1 - y0 + 1)" and ?C = "nat (x1 - x0 + 1)"
  obtain es where es: "\<forall>e \<in> set es. routable_edge ?R ?C W N e" and one: "single_target es" and ag: "agreeing W es"
    and pop: "populate W es [] = Inr (rc_tiles rc)"
    and sinks: "\<And>u v m. (u, v, m) \<in> set es \<Longrightarrow> (\<exists>r c i. v = ClbIn r c i) \<Longrightarrow> \<exists>n. v \<in> set (net_sinks db x0 y0 n)"
    and reach: "\<And>n r c j rest s. net_drivers db x0 y0 n = ClbOut r c j # rest \<Longrightarrow> s \<in> set (net_sinks db x0 y0 n)
      \<Longrightarrow> j < N \<and> (ClbOut r c j, s) \<in> (links es)\<^sup>*"
    and start: "\<And>u v m. (u, v, m) \<in> set es \<Longrightarrow> \<exists>n w. w \<in> set (net_drivers db x0 y0 n) \<and> (w, u) \<in> (links es)\<^sup>*"
    by (rule routed_edges [OF perm box run full]) (rule that; assumption)
  have below: "sinks_below ext es"
    unfolding sinks_below_def
  proof (intro allI impI)
    fix u r c i m assume "(u, ClbIn r c i, m) \<in> set es"
    from sinks [OF this] obtain n where "ClbIn r c i \<in> set (net_sinks db x0 y0 n)" by blast
    then obtain x y tile where "((x, y), tile) \<in> set (db_tiles db)" "(i, Some n) \<in> set (tl_inputs tile)" by (auto simp: in_sinks)
    then show "i < ext" by (rule db_dictsD(2) [OF dicts])
  qed
  have "(w, s) \<in> (links es)\<^sup>*" if "w \<in> set (net_drivers db x0 y0 n)" "s \<in> set (net_sinks db x0 y0 n)" for n w s
    using reach single_driver [OF single that(1)] driver_is_output [OF that(1)] that(2) by fastforce
  moreover have "\<exists>n w. w \<in> set (net_drivers db x0 y0 n) \<and> (w, u) \<in> (links es)\<^sup>*" if "(u, v) \<in> links es" for u v
    using start that unfolding links_def by blast
  ultimately have trees: "net_trees db x0 y0 ?R ?C W N es" unfolding net_trees_def using es one ag by blast
  have dist: "distinct (map fst (db_tiles db))" using dicts by (simp add: db_dicts_def)
  from fabric_sim_built [OF box dist dims refl refl es ag pop below] obtain sim where
      "fabric_sim_init db (rc_tiles rc) x0 y0 W N ext = Inr sim" "built_sim db (rc_tiles rc) (x0, y0) ?R ?C W N ext sim" by blast
  then show thesis by (rule that [OF trees pop below])
qed

section \<open>Ranks from levels\<close>

text \<open>\<open>net_order\<close>: the netlist has no combinational loop. Every LUT without a register has an output of a higher level
  than its inputs that clusters drive.\<close>

definition net_order ::
  "(string \<times> cover) list \<Rightarrow> (string \<Rightarrow> string) \<Rightarrow> placed_cluster list \<Rightarrow> fabric_db \<Rightarrow> int \<Rightarrow> int \<Rightarrow> (string \<Rightarrow> nat) \<Rightarrow> bool" where
  "net_order names canon clusters db x0 y0 level \<longleftrightarrow>
     list_all (\<lambda>(_, _, fles, _). list_all (\<lambda>(gi, fl). fle_ff_used fl \<or>
        list_all (\<lambda>m. net_drivers db x0 y0 m = [] \<or> (case get_opt (fle_outputs fles) gi of None \<Rightarrow> True | Some n \<Rightarrow> level m < level n))
          (cover_inputs canon (tile_cover names fles gi fl))) fles) clusters"

definition top_level :: "fabric_db \<Rightarrow> (string \<Rightarrow> nat) \<Rightarrow> nat" where
  "top_level db level = Suc (sum_list (map level (net_names db)))"

definition node_level :: "fabric_db \<Rightarrow> int \<Rightarrow> int \<Rightarrow> (string \<Rightarrow> nat) \<Rightarrow> edge list \<Rightarrow> node \<Rightarrow> nat" where
  "node_level db x0 y0 level es v =
     (if \<exists>n w. w \<in> set (net_drivers db x0 y0 n) \<and> (w, v) \<in> (links es)\<^sup>*
      then LEAST l. \<exists>n w. w \<in> set (net_drivers db x0 y0 n) \<and> (w, v) \<in> (links es)\<^sup>* \<and> l = level n else top_level db level)"

definition node_key :: "fabric_db \<Rightarrow> int \<Rightarrow> int \<Rightarrow> (string \<Rightarrow> nat) \<Rightarrow> edge list \<Rightarrow> node \<Rightarrow> nat" where
  "node_key db x0 y0 level es v = node_level db x0 y0 level es v * depth_bound es + depth_in es v"

definition fabric_nodes :: "nat \<Rightarrow> nat \<Rightarrow> nat \<Rightarrow> node list" where
  "fabric_nodes R C W = concat (map (\<lambda>r. concat (map (\<lambda>c.
     concat (map (\<lambda>d. map (Out (int r) (int c) d) [0..<W]) DIRS) @ map (ClbOut (int r) (int c)) [0..<CLB_N]) [0..<C])) [0..<R])"

definition node_rank :: "fabric_db \<Rightarrow> int \<Rightarrow> int \<Rightarrow> (string \<Rightarrow> nat) \<Rightarrow> nat \<Rightarrow> nat \<Rightarrow> nat \<Rightarrow> edge list \<Rightarrow> node \<Rightarrow> nat" where
  "node_rank db x0 y0 level R C W es = place_of (set (fabric_nodes R C W)) (node_key db x0 y0 level es)"

lemma length_fabric_nodes: "length (fabric_nodes R C W) = R * (C * (4 * W + CLB_N))"
proof -
  have "sum_list (map (\<lambda>_. k) [0..<n]) = n * k" for n k :: nat by (simp add: sum_list_triv)
  then show ?thesis by (simp add: fabric_nodes_def length_concat comp_def DIRS_def)
qed

lemma fabric_nodes_mem:
  assumes "r < R" and "c < C"
  shows "d \<in> set DIRS \<Longrightarrow> t < W \<Longrightarrow> Out (int r) (int c) d t \<in> set (fabric_nodes R C W)"
    and "j < CLB_N \<Longrightarrow> ClbOut (int r) (int c) j \<in> set (fabric_nodes R C W)"
  using assms by (fastforce simp: fabric_nodes_def)+

lemma rank_bound: "node_rank db x0 y0 level R C W es v < Suc (R * (C * (4 * W + CLB_N)))"
proof -
  let ?S = "set (fabric_nodes R C W)"
  have "node_rank db x0 y0 level R C W es v \<le> card ?S"
    unfolding node_rank_def place_of_def by (rule card_mono) auto
  with card_length [of "fabric_nodes R C W"] show ?thesis by (simp add: length_fabric_nodes)
qed

lemma rank_less:
  "u \<in> set (fabric_nodes R C W) \<Longrightarrow> node_key db x0 y0 level es u < node_key db x0 y0 level es v
     \<Longrightarrow> node_rank db x0 y0 level R C W es u < node_rank db x0 y0 level R C W es v"
  unfolding node_rank_def by (rule place_of_less) simp_all

lemma key_levels:
  assumes "node_level db x0 y0 level es u < node_level db x0 y0 level es v"
  shows "node_key db x0 y0 level es u < node_key db x0 y0 level es v"
proof -
  let ?l = "node_level db x0 y0 level es" and ?M = "depth_bound es"
  have "?l u * ?M + depth_in es u < Suc (?l u) * ?M" using depth_less [of es u] by simp
  also have "\<dots> \<le> ?l v * ?M" by (rule mult_le_mono1) (use assms in simp)
  finally show ?thesis by (simp add: node_key_def)
qed

text \<open>One net for every output, as the code keeps dicts\<close>

definition one_net :: "fabric_db \<Rightarrow> bool" where
  "one_net db \<longleftrightarrow> distinct (map fst (db_tiles db)) \<and> list_all (\<lambda>(_, tile). distinct (map fst (tl_outputs tile))) (db_tiles db)"

lemma one_net_driver:
  assumes "one_net db" and "w \<in> set (net_drivers db x0 y0 n)" and "w \<in> set (net_drivers db x0 y0 m)"
  shows "n = m"
proof -
  from assms(2) obtain x y tile j where a: "((x, y), tile) \<in> set (db_tiles db)" "(j, Some n) \<in> set (tl_outputs tile)"
      "w = ClbOut (y - y0) (x - x0) j" unfolding in_drivers by blast
  from assms(3) obtain x' y' tile' j' where b: "((x', y'), tile') \<in> set (db_tiles db)" "(j', Some m) \<in> set (tl_outputs tile')"
      "w = ClbOut (y' - y0) (x' - x0) j'" unfolding in_drivers by blast
  from a(3) b(3) have "x' = x" "y' = y" "j' = j" by auto
  moreover from assms(1) have "distinct (map fst (db_tiles db))" by (simp add: one_net_def)
  ultimately have "tile' = tile" using a(1) b(1) eq_key_imp_eq_value by metis
  moreover have "distinct (map fst (tl_outputs tile))" using assms(1) a(1) by (auto simp: one_net_def list_all_iff)
  ultimately show ?thesis using a(2) b(2) \<open>j' = j\<close> eq_key_imp_eq_value by (metis option.inject)
qed

lemma node_level_eq:
  assumes t: "net_trees db x0 y0 R C W N es" and one: "one_net db" and w: "w \<in> set (net_drivers db x0 y0 n)" "(w, v) \<in> (links es)\<^sup>*"
  shows "node_level db x0 y0 level es v = level n"
proof -
  have "m = n" if m: "w' \<in> set (net_drivers db x0 y0 m)" "(w', v) \<in> (links es)\<^sup>*" for m w'
  proof -
    have "w' = w"
      by (rule same_root [OF links_uniq [OF net_treesD(2) [OF t]] driver_root [OF t m(1)] driver_root [OF t w(1)] m(2) w(2)])
    with one_net_driver [OF one m(1)] w(1) show ?thesis by simp
  qed
  then have "(\<exists>m w'. w' \<in> set (net_drivers db x0 y0 m) \<and> (w', v) \<in> (links es)\<^sup>* \<and> l = level m) = (l = level n)" for l
    using w by metis
  with w show ?thesis unfolding node_level_def by (simp add: Least_equality) blast
qed

lemma link_keys:
  assumes t: "net_trees db x0 y0 R C W N es" and one: "one_net db" and uv: "(u, v) \<in> links es"
  shows "node_key db x0 y0 level es u < node_key db x0 y0 level es v"
proof -
  from net_treesD(5) [OF t uv] obtain n w where w: "w \<in> set (net_drivers db x0 y0 n)" "(w, u) \<in> (links es)\<^sup>*" by blast
  then have "(w, v) \<in> (links es)\<^sup>*" using uv by (meson rtrancl.rtrancl_into_rtrancl)
  with node_level_eq [OF t one w(1)] w(2) depth_grows [OF trees_acyclic [OF t] uv] show ?thesis by (simp add: node_key_def)
qed

end
