(* ===== verification/Fabric_Total.thy ===== *)
theory Fabric_Total
  imports Fabric_Levels
begin

text \<open>
  The simulator of a routed design without a combinational loop meets what its passes rely on, so
  the evaluation returns and converges.
\<close>

section \<open>The simulator is ready\<close>

lemma top_level_above: "n \<in> set (net_names db) \<Longrightarrow> level n < top_level db level"
  using member_le_sum_list [of "level n" "map level (net_names db)"] by (simp add: top_level_def)

lemma ready_built:
  assumes "cluster_ready names canon clb fles rank tile"
  shows "tile_built names canon fles tile" and "distinct (map fst fles)" and "list_all (\<lambda>(gi, fl). gi < CLB_N) fles"
    and "tl_outputs tile = fle_outputs fles" and "eluts_ok tile"
proof -
  from assms have ok: "clb_ok names canon clb fles" and b: "build_tile names canon clb = Inr tile" by (simp_all add: cluster_ready_def)
  show tb: "tile_built names canon fles tile"
    using ok by (cases rule: build_tile_cases) (use b in auto)
  show d: "distinct (map fst fles)" and s: "list_all (\<lambda>(gi, fl). gi < CLB_N) fles" using ok by (simp_all add: clb_ok_def)
  show "tl_outputs tile = fle_outputs fles" using tb by (simp add: tile_built_def)
  have keys: "map fst (tl_eluts tile) = map fst fles" using tb by (simp add: tile_built_def)
  have small: "list_all (\<lambda>(gi, _). gi < CLB_N) xs = list_all (\<lambda>gi. gi < CLB_N) (map fst xs)" for xs :: "(nat \<times> 'a) list"
    by (simp add: list.pred_map comp_def case_prod_unfold)
  show "eluts_ok tile" using d s unfolding eluts_ok_def small keys by (rule conjI)
qed

lemma fle_outputs_distinct: "distinct (map fst (fle_outputs fles))"
proof -
  have "distinct (map fst outs) \<Longrightarrow> distinct (map fst (foldl (\<lambda>outs (gi, fl). AList.update gi (fle_out_net fl) outs) outs fles))" for outs
    by (induction fles arbitrary: outs) (auto simp: distinct_update)
  moreover have "distinct (map fst (map (\<lambda>k. (k, None :: string option)) [0..<8]))" by (simp add: comp_def)
  ultimately show ?thesis by (simp only: fle_outputs_def)
qed

lemma design_one_net: "design_ready names canon clusters db \<Longrightarrow> one_net db"
proof -
  assume r: "design_ready names canon clusters db"
  have "distinct (map fst (tl_outputs tile))" if "((x, y), tile) \<in> set (db_tiles db)" for x y tile
    using design_tiles(2) [OF r that] ready_built(4) fle_outputs_distinct by metis
  moreover have "distinct (map fst (db_tiles db))" using r design_tiles(1) [OF r] by (simp add: design_ready_def)
  ultimately show ?thesis by (auto simp: one_net_def list_all_iff)
qed

lemma configured_select:
  assumes es: "\<forall>e \<in> set es. routable_edge R C W N e" and ag: "agreeing W es" and pop: "populate W es [] = Inr tiles"
    and cf: "configured W N ext (cfg_at tiles p) tm" and i: "i < ext" and w: "1 \<le> W"
  shows "0 \<le> cb_sel (tm_cb tm) ! i \<and> cb_sel (tm_cb tm) ! i < 2 * int W"
proof -
  note pd = populated [OF es ag pop]
  have sel: "cb_sel (tm_cb tm) ! i = (case cfg_at tiles p (KCb i) of Some (VNum k) \<Rightarrow> k | _ \<Rightarrow> 0)"
    using cf i by (simp add: configured_def)
  show ?thesis
  proof (cases "cfg_at tiles p (KCb i)")
    case None
    with sel w show ?thesis by simp
  next
    case (Some x)
    from pd(4) [OF this] obtain u v m where e: "(u, v, m) \<in> set es" and m: "edge_key m = Some (KCb i)" "x = edge_val W m" by blast
    then obtain d t where mc: "m = Cb i d t" by (cases m) auto
    have "routable_edge R C W N (u, v, Cb i d t)" using bspec [OF es e] by (simp only: mc)
    then obtain k where k: "DIR_IDX d = Some k" "t < W" by (auto elim: routable_cb)
    have "cb_sel (tm_cb tm) ! i = int ((k * W + t) div CB_DIV)" using sel Some m(2) mc k by simp
    moreover have "int ((k * W + t) div CB_DIV) < int (2 * W)" unfolding of_nat_less_iff by (rule subset_index [OF k])
    ultimately show ?thesis by simp
  qed
qed

lemma design_sim_ready:
  assumes ready: "design_ready names canon clusters db" and box: "db_grid_bounds db = Inr (x0, y0, x1, y1)"
    and trees: "net_trees db x0 y0 R C W N es" and pop: "populate W es [] = Inr tiles"
    and built: "built_sim db tiles (x0, y0) R C W N CLB_EXT_IN sim"
    and R: "R = nat (y1 - y0 + 1)" and C: "C = nat (x1 - x0 + 1)" and w: "1 \<le> W" and N: "N \<le> CLB_N"
  shows "sim_ready sim"
proof -
  have dims: "fs_R sim = R" "fs_C sim = C" "fs_W sim = W" "fs_N sim = N" "fs_EXT_IN sim = CLB_EXT_IN" "fs_po_taps sim = po_taps_of db (x0, y0)"
    using built by (simp_all add: built_sim_def)
  have tile: "tile_ready W N (fs_tiles sim ! r ! c)" if rc: "r < R" "c < C" for r c
  proof -
    let ?tm = "fs_tiles sim ! r ! c"
    note cf = built_cell(1) [OF built rc]
    have sh: "tile_shape W N CLB_EXT_IN ?tm" using cf by (simp add: configured_def)
    then have "length (cb_sel (tm_cb ?tm)) = CLB_EXT_IN" by (simp add: tile_shape_def)
    with configured_select [OF net_treesD(1,3) [OF trees] pop cf _ w]
    have "list_all (\<lambda>k. 0 \<le> k \<and> k < 2 * int W) (cb_sel (tm_cb ?tm))" by (simp add: list_all_length)
    moreover have "eluts_ok tile" if "tm_logic ?tm = Some tile" for tile
    proof -
      from that built_cell(2) [OF built rc] have "((int c + x0, int r + y0), tile) \<in> set (db_tiles db)" by (simp add: map_of_SomeD)
      from design_tiles(2) [OF ready this] ready_built(5) show ?thesis by blast
    qed
    ultimately show ?thesis using sh by (simp add: tile_ready_def split: option.split)
  qed
  have tap: "tap_ready sim (r, c, gi, po)" if "(r, c, gi, po) \<in> set (po_taps_of db (x0, y0))" for r c gi po
    using that
  proof (rule tap_source)
    fix x y tile n assume t: "((x, y), tile) \<in> set (db_tiles db)" and rc: "r = y - y0" "c = x - x0" and o: "(gi, Some n) \<in> set (tl_outputs tile)"
    from grid_member [OF box t] rc have g: "0 \<le> r" "r < int R" "0 \<le> c" "c < int C" by (simp_all add: R C)
    from design_tiles(2) [OF ready t] obtain clb fles rank where cr: "cluster_ready names canon clb fles rank tile" by blast
    from o ready_built(4) [OF cr] have "gi \<in> fst ` set (fle_outputs fles)" by force
    then have "gi < CLB_N" using ready_built(3) [OF cr] by (auto simp: fle_outputs_keys list_all_iff)
    moreover have "tm_logic (fs_tiles sim ! nat r ! nat c) = Some tile"
    proof -
      have "nat r < R" "nat c < C" using g by (simp_all add: nat_less_iff)
      from built_cell(2) [OF built this] g rc db_dictsD(3) [OF design_dicts [OF ready] t] show ?thesis by simp
    qed
    ultimately show "tap_ready sim (r, c, gi, po)" using g by (simp add: tap_ready_def dims)
  qed
  show ?thesis unfolding sim_ready_def dims using N tile tap by (auto simp: list_all_iff)
qed

section \<open>The selects and injections follow the trees\<close>

inductive_cases routable_into_in: "routable_edge R C W N (u, In r c d t, m)"
inductive_cases routable_into_clb_in: "routable_edge R C W N (u, ClbIn r c i, m)"

lemma tree_before:
  assumes trees: "net_trees db x0 y0 R C W N es" and uv: "(u, v) \<in> links es" and u: "\<And>r c j. u \<noteq> ClbOut r c j"
  obtains y m where "(y, u, m) \<in> set es"
proof -
  from net_treesD(5) [OF trees uv] obtain n w where w: "w \<in> set (net_drivers db x0 y0 n)" "(w, u) \<in> (links es)\<^sup>*" by blast
  from driver_is_output [OF w(1)] u have "w \<noteq> u" by blast
  with w(2) obtain y where "(y, u) \<in> links es" by (auto elim: rtranclE)
  then show thesis using that by (auto simp: links_def)
qed

lemma chan_feeder:
  assumes "(od, (dr, dc), ind) \<in> set CHAN_MAP" and "r1 < fs_R sim" and "c1 < fs_C sim"
    and "int r1 + dr = int r" and "int c1 + dc = int c"
  shows "feeder sim r c ind = Some ((r1, c1), od)"
proof -
  from assms(1) consider "od = ''n''" "dr = -1" "dc = 0" "ind = ''s''" | "od = ''s''" "dr = 1" "dc = 0" "ind = ''n''"
    | "od = ''e''" "dr = 0" "dc = 1" "ind = ''w''" | "od = ''w''" "dr = 0" "dc = -1" "ind = ''e''"
    by (auto simp: CHAN_MAP_def)
  then show ?thesis
  proof cases
    case 1
    with assms(4,5) have "r1 = r + 1" "c1 = c" by linarith+
    with 1 assms(2) show ?thesis by (simp add: feeder_def)
  next
    case 2
    with assms(4,5) have "r = r1 + 1" "c1 = c" by linarith+
    with 2 show ?thesis by (simp add: feeder_def)
  next
    case 3
    with assms(4,5) have "c = c1 + 1" "r1 = r" by linarith+
    with 3 show ?thesis by (simp add: feeder_def)
  next
    case 4
    with assms(4,5) have "c1 = c + 1" "r1 = r" by linarith+
    with 4 assms(3) show ?thesis by (simp add: feeder_def)
  qed
qed

lemma design_sel_ordered:
  assumes trees: "net_trees db x0 y0 R C W N es" and one: "one_net db" and pop: "populate W es [] = Inr tiles"
    and built: "built_sim db tiles corner R C W N ext sim" and rc: "r < R" "c < C"
    and s: "((d, t), sel) \<in> set (sb_sel (tm_sb (fs_tiles sim ! r ! c)))"
  shows "sel_ordered sim (node_rank db x0 y0 level R C W es) r c ((d, t), sel)"
proof -
  let ?sb = "tm_sb (fs_tiles sim ! r ! c)"
  note cf = built_cell(1) [OF built rc] and pd = populated [OF net_treesD(1,3) [OF trees] pop]
  have dims: "fs_R sim = R" "fs_C sim = C" using built by (simp_all add: built_sim_def)
  have ok: "switch_box_ok ?sb" "sb_W ?sb = W" using cf by (simp_all add: configured_def tile_shape_def)
  have d4: "d < 4" and m: "map_of (sb_sel ?sb) (d, t) = Some sel"
    using ok(1) s by (auto simp: switch_box_ok_def list_all_iff)
  have "cfg_at tiles (int r, int c) (KSel (DIRS ! d) t) = Some (VNum sel)" using cf d4 m by (simp add: configured_def)
  from pd(4) [OF this] obtain u v me where e: "(u, v, me) \<in> set es" "node_tile v = (int r, int c)"
      and key: "edge_key me = Some (KSel (DIRS ! d) t)" "VNum sel = edge_val W me" by blast
  then obtain sd where me: "me = Sb (DIRS ! d) t sd" by (cases me) auto
  have "routable_edge R C W N (u, v, Sb (DIRS ! d) t sd)" using net_treesD(4) [OF trees e(1)] by (simp only: me)
  then have uv: "u = In (int r) (int c) sd (wilton_track (DIRS ! d) sd t W)" "v = Out (int r) (int c) (DIRS ! d) t"
      and ds: "DIRS ! d \<in> set DIRS" "sd \<in> set DIRS" "sd \<noteq> DIRS ! d"
    using e(2) by (auto elim: routable_sb)
  have src: "the (SOURCES (DIRS ! d)) ! nat (sel - 1) = sd" using src_to_sel_ok(3) [OF ds] key(2) by (simp add: me)
  have link: "(u, v) \<in> links es" using e(1) by (auto simp: links_def)
  obtain y my where y: "(y, u, my) \<in> set es" by (rule tree_before [OF trees link]) (auto simp: uv)
  with net_treesD(4) [OF trees y] obtain od dr dc r1 c1 where ch: "(od, (dr, dc), sd) \<in> set CHAN_MAP" "r1 < R" "c1 < C"
      "int r1 + dr = int r" "int c1 + dc = int c" "wilton_track (DIRS ! d) sd t W < W"
      and ye: "y = Out (int r1) (int c1) od (wilton_track (DIRS ! d) sd t W)"
    unfolding uv(1) by (auto elim!: routable_into_in)
  from chan_feeder [of od dr dc sd r1 sim c1 r c] ch have f: "feeder sim r c sd = Some ((r1, c1), od)" by (simp add: dims)
  have "(y, u) \<in> links es" using y by (auto simp: links_def)
  from link_keys [OF trees one this] link_keys [OF trees one link]
  have k: "node_key db x0 y0 level es y < node_key db x0 y0 level es v" by (rule less_trans)
  have "od \<in> set DIRS" using ch(1) by (auto simp: CHAN_MAP_def DIRS_def)
  from rank_less [OF fabric_nodes_mem(1) [OF ch(2,3) this ch(6)] k [unfolded ye]]
  show ?thesis by (simp add: sel_ordered_def Let_def src f ok(2) track_def uv(2))
qed

lemma design_inject_ordered:
  assumes trees: "net_trees db x0 y0 R C W N es" and one: "one_net db" and pop: "populate W es [] = Inr tiles"
    and built: "built_sim db tiles corner R C W N ext sim" and rc: "r < R" "c < C" and N: "N \<le> CLB_N"
    and i: "(j, d) \<in> set (sb_inject (tm_sb (fs_tiles sim ! r ! c)))"
  shows "node_rank db x0 y0 level R C W es (ClbOut (int r) (int c) j) < node_rank db x0 y0 level R C W es (track (r, c) (DIRS ! d) j)"
proof -
  let ?sb = "tm_sb (fs_tiles sim ! r ! c)"
  note cf = built_cell(1) [OF built rc] and pd = populated [OF net_treesD(1,3) [OF trees] pop]
  have ok: "switch_box_ok ?sb" "sb_NINJ ?sb = N" using cf by (simp_all add: configured_def tile_shape_def)
  then have jN: "j < N" and m: "map_of (sb_inject ?sb) j = Some d" using i by (auto simp: switch_box_ok_def list_all_iff)
  have "cfg_at tiles (int r, int c) (KInj j) = Some (VDir (DIRS ! d))" using cf m by (simp add: configured_def)
  from pd(4) [OF this] obtain u v me where e: "(u, v, me) \<in> set es" "node_tile v = (int r, int c)"
      and key: "edge_key me = Some (KInj j)" "VDir (DIRS ! d) = edge_val W me" by blast
  then have me: "me = Inj j (DIRS ! d)" by (cases me) auto
  have "routable_edge R C W N (u, v, Inj j (DIRS ! d))" using net_treesD(4) [OF trees e(1)] by (simp only: me)
  then have uv: "u = ClbOut (int r) (int c) j" "v = Out (int r) (int c) (DIRS ! d) j" using e(2) by (auto elim: routable_inj)
  have "(u, v) \<in> links es" using e(1) by (auto simp: links_def)
  from rank_less [OF fabric_nodes_mem(2) [OF rc] link_keys [OF trees one this, unfolded uv]] jN N
  show ?thesis by (simp add: track_def)
qed

section \<open>The tables follow the levels\<close>

lemma design_cluster:
  assumes "design_ready names canon clusters db" and "((x, y), tile) \<in> set (db_tiles db)"
  shows "\<exists>clb fles rank. ((x, y), clb, fles, rank) \<in> set clusters \<and> cluster_ready names canon clb fles rank tile"
proof -
  from assms(1) have "list_all2 (\<lambda>(p, clb, fles, rank) (q, tile). q = p \<and> cluster_ready names canon clb fles rank tile) clusters (db_tiles db)"
    by (simp add: design_ready_def)
  then show ?thesis using assms(2) by (induction rule: list_all2_induct) auto
qed

lemma output_driver:
  assumes "((int c + x0, int r + y0), tile) \<in> set (db_tiles db)" and "(j, Some n) \<in> set (tl_outputs tile)"
  shows "ClbOut (int r) (int c) j \<in> set (net_drivers db x0 y0 n)"
  using assms unfolding in_drivers by fastforce

lemma unnamed_level:
  assumes trees: "net_trees db x0 y0 R C W N es" and one: "one_net db" and t: "((int c + x0, int r + y0), tile) \<in> set (db_tiles db)"
    and u: "get_opt (tl_outputs tile) gi = None"
  shows "node_level db x0 y0 level es (ClbOut (int r) (int c) gi) = top_level db level"
proof -
  have no: "(w, ClbOut (int r) (int c) gi) \<notin> (links es)\<^sup>*" if w: "w \<in> set (net_drivers db x0 y0 n)" for n w
  proof
    assume "(w, ClbOut (int r) (int c) gi) \<in> (links es)\<^sup>*"
    moreover have "(v, ClbOut (int r) (int c) gi) \<notin> links es" for v
      using net_treesD(4) [OF trees] by (fastforce simp: links_def elim: routable_into_clb_out)
    ultimately have "w = ClbOut (int r) (int c) gi" by (auto elim: rtranclE)
    with w obtain x y tile' where t': "((x, y), tile') \<in> set (db_tiles db)" "(gi, Some n) \<in> set (tl_outputs tile')"
        "int r = y - y0" "int c = x - x0" unfolding in_drivers by auto
    then have "(x, y) = (int c + x0, int r + y0)" by simp
    moreover have d: "distinct (map fst (db_tiles db))" "distinct (map fst (tl_outputs tile))"
      using one t by (auto simp: one_net_def list_all_iff)
    ultimately have "tile' = tile" using t t'(1) eq_key_imp_eq_value by metis
    with t'(2) d(2) u show False by (simp add: get_opt_def)
  qed
  then have "\<not> (\<exists>n w. w \<in> set (net_drivers db x0 y0 n) \<and> (w, ClbOut (int r) (int c) gi) \<in> (links es)\<^sup>*)" by blast
  then show ?thesis unfolding node_level_def by (rule if_not_P)
qed

text \<open>An input of a LUT without register that a cluster drives has a level below that of the output.\<close>

lemma input_level:
  assumes ready: "design_ready names canon clusters db" and order: "net_order names canon clusters db x0 y0 level"
    and trees: "net_trees db x0 y0 R C W N es" and t: "((int c + x0, int r + y0), tile) \<in> set (db_tiles db)"
    and cl: "((int c + x0, int r + y0), clb, fles, rank) \<in> set clusters" and cr: "cluster_ready names canon clb fles rank tile"
    and gi: "(gi, fl) \<in> set fles" "\<not> fle_ff_used fl" and m: "m \<in> set (cover_inputs canon (tile_cover names fles gi fl))"
    and dr: "net_drivers db x0 y0 m \<noteq> []"
  shows "level m < node_level db x0 y0 level es (ClbOut (int r) (int c) gi)"
proof -
  note one = design_one_net [OF ready] and outs = ready_built(4) [OF cr]
  show ?thesis
  proof (cases "get_opt (fle_outputs fles) gi")
    case None
    from unnamed_level [OF trees one t, of gi] None outs have "node_level db x0 y0 level es (ClbOut (int r) (int c) gi) = top_level db level"
      by simp
    moreover have "m \<in> set (net_names db)" using dr by (simp add: in_net_names [of m db x0 y0])
    ultimately show ?thesis using top_level_above by simp
  next
    case (Some n)
    then have "(gi, Some n) \<in> set (tl_outputs tile)" unfolding outs by (auto simp: get_opt_def dest: map_of_SomeD split: option.splits)
    from node_level_eq [OF trees one output_driver [OF t this]]
    have l: "node_level db x0 y0 level es (ClbOut (int r) (int c) gi) = level n" by simp
    from bspec [OF order [unfolded net_order_def list_all_iff] cl] gi m dr Some have "level m < level n"
      by (auto simp: list_all_iff dest!: bspec)
    with l show ?thesis by simp
  qed
qed

lemma routed_pin_source:
  assumes trees: "net_trees db x0 y0 R C W N es" and pop: "populate W es [] = Inr tiles"
    and built: "built_sim db tiles corner R C W N ext sim" and rc: "r < R" "c < C" and i: "i < ext"
    and w: "w \<in> set (net_drivers db x0 y0 n)" and s: "ClbIn (int r) (int c) i \<in> set (net_sinks db x0 y0 n)"
  obtains d t where "cb_source sim r c i = (d, t)" and "d \<in> set DIRS" and "t < W" and "(w, Out (int r) (int c) d t) \<in> (links es)\<^sup>*"
proof -
  let ?s = "ClbIn (int r) (int c) i" and ?cb = "tm_cb (fs_tiles sim ! r ! c)"
  note cf = built_cell(1) [OF built rc] and pd = populated [OF net_treesD(1,3) [OF trees] pop]
  from driver_is_output [OF w] have "w \<noteq> ?s" by blast
  with net_treesD(6) [OF trees w s] obtain y where y: "(w, y) \<in> (links es)\<^sup>*" "(y, ?s) \<in> links es" by (auto elim: rtranclE)
  then obtain me where e: "(y, ?s, me) \<in> set es" by (auto simp: links_def)
  from net_treesD(4) [OF trees e] obtain d k t where cb: "DIR_IDX d = Some k" "t < W" "(k * W + t) mod CB_DIV = i mod CB_DIV"
      and ye: "y = Out (int r) (int c) d t" "me = Cb i d t" by (auto elim!: routable_into_clb_in)
  have shape: "cb_W ?cb = W" "Fabric_Switch.cb_DIV ?cb = 2" using cf by (simp_all add: configured_def tile_shape_def)
  have "cfg_at tiles (int r, int c) (KCb i) = Some (VNum (int ((k * W + t) div CB_DIV)))" using pd(3) [OF e] cb ye by simp
  with cf i have sel: "cb_sel ?cb ! i = int ((k * W + t) div 2)" by (simp add: configured_def CB_DIV_def)
  have "i mod 2 + 2 * ((k * W + t) div 2) = k * W + t" using cb(3) unfolding CB_DIV_def by presburger
  then have "int i mod 2 + 2 * int ((k * W + t) div 2) = int (k * W + t)" by (metis of_nat_add of_nat_mult of_nat_mod of_nat_numeral)
  then have p: "nat (pool_index ?cb i (cb_sel ?cb ! i)) = k * W + t" unfolding pool_index_def sel shape(2) by (simp only: of_nat_numeral nat_int)
  have "(k * W + t) div W = k" "(k * W + t) mod W = t" using cb(2) by simp_all
  then have "cb_source sim r c i = (DIRS ! k, t)" unfolding cb_source_def Let_def shape(1) p by simp
  moreover from DIR_IDX_Some [OF cb(1)] have "d = DIRS ! k" by blast
  moreover have "d \<in> set DIRS" using cb(1) by (auto simp: in_DIRS)
  ultimately show thesis using that cb(2) y(1) ye(1) by simp
qed

lemma design_logic_ordered:
  assumes ready: "design_ready names canon clusters db" and order: "net_order names canon clusters db x0 y0 level"
    and given: "inputs_given db x0 y0 pi_values" and trees: "net_trees db x0 y0 R C W N es" and pop: "populate W es [] = Inr tiles"
    and built: "built_sim db tiles (x0, y0) R C W N CLB_EXT_IN sim" and rc: "r < R" "c < C"
    and l: "tm_logic (fs_tiles sim ! r ! c) = Some tile"
  shows "logic_ordered sim pi_values (node_rank db x0 y0 level R C W es) r c tile"
proof -
  note one = design_one_net [OF ready]
  let ?out = "\<lambda>j. ClbOut (int r) (int c) j" and ?rank = "node_rank db x0 y0 level R C W es" and ?lev = "node_level db x0 y0 level es"
  from l built_cell(2) [OF built rc] have t: "((int c + x0, int r + y0), tile) \<in> set (db_tiles db)" by (simp add: map_of_SomeD)
  from design_cluster [OF ready t] obtain clb fles rank where cl: "((int c + x0, int r + y0), clb, fles, rank) \<in> set clusters"
    and cr: "cluster_ready names canon clb fles rank tile" by blast
  note rb = ready_built [OF cr]
  have "pin_ordered sim pi_values ?rank r c tile gi (iib_decode (sel_of tile gi gk) gk)"
    if e: "(gi, ec) \<in> set (tl_eluts tile)" "\<not> ec_ff_en ec" "gk < CLB_K" "reads_pin (ec_tt ec) gk" for gi ec gk
  proof -
    have keys: "map fst (tl_eluts tile) = map fst fles" using rb(1) by (simp add: tile_built_def)
    have "gi \<in> set (map fst fles)" unfolding keys [symmetric] using e(1) by force
    then obtain fl where fl: "(gi, fl) \<in> set fles" by auto
    with rb(1) obtain ec' where ec': "map_of (tl_eluts tile) gi = Some ec'" "ec_ff_en ec' = fle_ff_used fl"
        "reads_cover canon (tile_fb fles) (tile_cover names fles gi fl) tile gi ec'" unfolding tile_built_def by blast
    have "map_of (tl_eluts tile) gi = Some ec" using e(1) rb(5) by (simp add: eluts_ok_def)
    with ec' have same: "ec' = ec" by simp
    have ff: "\<not> fle_ff_used fl" using e(2) ec'(2) same by simp
    from ec'(3) e(3,4) obtain net where net: "net \<in> set (cover_inputs canon (tile_cover names fles gi fl))"
      and dec: "case tile_fb fles net of Some j \<Rightarrow> iib_decode (sel_of tile gi gk) gk = (''fle'', int j)
        | None \<Rightarrow> \<exists>i < CLB_EXT_IN. iib_decode (sel_of tile gi gk) gk = (''clb.I'', int i) \<and> get_opt (tl_inputs tile) i = Some net"
      unfolding same reads_cover_def by blast
    have below: "level net < ?lev (?out gi)" if "net_drivers db x0 y0 net \<noteq> []"
      by (rule input_level [OF ready order trees t cl cr fl ff net that])
    show ?thesis
    proof (cases "tile_fb fles net")
      case (Some j)
      have "(j, Some net) \<in> set (tl_outputs tile)" using fb_of_net_mem Some rb(4) by (simp add: tile_fb_def)
      note dr = output_driver [OF t this]
      then have "?lev (?out j) < ?lev (?out gi)" using below node_level_eq [OF trees one dr rtrancl_refl] by fastforce
      from rank_less [OF fabric_nodes_mem(2) [OF rc tile_fb_range [OF rb(3) Some]] key_levels [OF this]] Some dec
      show ?thesis by (simp add: pin_ordered_def)
    next
      case None
      with dec obtain i where i: "i < CLB_EXT_IN" "iib_decode (sel_of tile gi gk) gk = (''clb.I'', int i)" "get_opt (tl_inputs tile) i = Some net"
        by auto
      show ?thesis
      proof (cases "pi_values net")
        case (Some b)
        then show ?thesis by (simp add: pin_ordered_def i)
      next
        case None
        have "(i, Some net) \<in> set (tl_inputs tile)" using i(3) by (auto simp: get_opt_def dest: map_of_SomeD split: option.splits)
        with t have s: "ClbIn (int r) (int c) i \<in> set (net_sinks db x0 y0 net)" unfolding in_sinks by fastforce
        then have "net \<in> set (net_names db)" by (auto simp: in_net_names [of net db x0 y0])
        with given None have dr: "net_drivers db x0 y0 net \<noteq> []" by (auto simp: inputs_given_def list_all_iff)
        then obtain w where w: "w \<in> set (net_drivers db x0 y0 net)" by (cases "net_drivers db x0 y0 net") auto
        obtain d t' where src: "cb_source sim r c i = (d, t')" "d \<in> set DIRS" "t' < W" "(w, Out (int r) (int c) d t') \<in> (links es)\<^sup>*"
          by (rule routed_pin_source [OF trees pop built rc i(1) w s])
        have "?lev (Out (int r) (int c) d t') < ?lev (?out gi)" using below [OF dr] node_level_eq [OF trees one w src(4)] by simp
        from rank_less [OF fabric_nodes_mem(1) [OF rc src(2,3)] key_levels [OF this]]
        show ?thesis by (simp add: pin_ordered_def i src(1) track_def)
      qed
    qed
  qed
  then show ?thesis by (auto simp: logic_ordered_def list_all_iff)
qed

section \<open>The fabric has no loop\<close>

lemma design_loop_free:
  assumes ready: "design_ready names canon clusters db" and order: "net_order names canon clusters db x0 y0 level"
    and given: "inputs_given db x0 y0 pi_values" and trees: "net_trees db x0 y0 R C W N es" and pop: "populate W es [] = Inr tiles"
    and built: "built_sim db tiles (x0, y0) R C W N CLB_EXT_IN sim" and N: "N \<le> CLB_N"
  shows "loop_free sim pi_values (node_rank db x0 y0 level R C W es)"
  unfolding loop_free_def
proof (intro allI impI)
  fix r c assume rc': "r < fs_R sim" "c < fs_C sim"
  have "fs_R sim = R" "fs_C sim = C" using built by (simp_all add: built_sim_def)
  with rc' have rc: "r < R" "c < C" by simp_all
  note one = design_one_net [OF ready]
  let ?rank = "node_rank db x0 y0 level R C W es" and ?sb = "tm_sb (fs_tiles sim ! r ! c)"
  have "list_all (sel_ordered sim ?rank r c) (sb_sel ?sb)"
    unfolding list_all_iff using design_sel_ordered [OF trees one pop built rc] by (metis surj_pair)
  moreover have "list_all (\<lambda>(j, d). ?rank (ClbOut (int r) (int c) j) < ?rank (track (r, c) (DIRS ! d) j)) (sb_inject ?sb)"
    unfolding list_all_iff using design_inject_ordered [OF trees one pop built rc N] by fast
  ultimately show "tile_ordered sim pi_values ?rank r c"
    using design_logic_ordered [OF ready order given trees pop built rc] by (simp add: tile_ordered_def Let_def split: option.split)
qed

section \<open>The evaluation of a routed design converges\<close>

text \<open>One more than the number of tracks and cluster outputs of the fabric\<close>

definition pass_bound :: "int \<times> int \<times> int \<times> int \<Rightarrow> nat \<Rightarrow> nat" where
  "pass_bound = (\<lambda>(x0, y0, x1, y1) W. Suc (nat (y1 - y0 + 1) * (nat (x1 - x0 + 1) * (4 * W + CLB_N))))"

lemma design_converges:
  assumes perm: "permutes_nets shuffle" and box: "db_grid_bounds db = Inr (x0, y0, x1, y1)"
    and run: "route shuffle db max_iters W N CLB_EXT_IN = Some (Inr rc)" and full: "fully_routed rc"
    and ready: "design_ready names canon clusters db" and single: "single_drivers db x0 y0" and dims: "1 \<le> W" "N \<le> W"
    and N: "N \<le> CLB_N" and order: "net_order names canon clusters db x0 y0 level"
  shows "\<exists>sim. fabric_sim_init db (rc_tiles rc) x0 y0 W N CLB_EXT_IN = Inr sim
    \<and> (\<forall>sim1 pi_values fuel ff. after_runs sim sim1 \<longrightarrow> inputs_given db x0 y0 pi_values \<longrightarrow> pass_bound (x0, y0, x1, y1) W < fuel \<longrightarrow>
         (\<exists>result sim'. evaluate sim1 pi_values fuel ff = Inr (result, sim') \<and> fs_converged sim'
            \<and> fs_last_iters sim' \<le> pass_bound (x0, y0, x1, y1) W + 1))"
proof -
  let ?R = "nat (y1 - y0 + 1)" and ?C = "nat (x1 - x0 + 1)" and ?K = "pass_bound (x0, y0, x1, y1) W"
  have ext: "1 \<le> CLB_EXT_IN" by simp
  obtain es sim where trees: "net_trees db x0 y0 ?R ?C W N es" and pop: "populate W es [] = Inr (rc_tiles rc)" and "sinks_below CLB_EXT_IN es"
    and init: "fabric_sim_init db (rc_tiles rc) x0 y0 W N CLB_EXT_IN = Inr sim"
    and built: "built_sim db (rc_tiles rc) (x0, y0) ?R ?C W N CLB_EXT_IN sim"
    by (rule routed_trees [OF perm box run full design_dicts [OF ready] single dims ext])
  have "\<exists>result sim'. evaluate sim1 pi_values fuel ff = Inr (result, sim') \<and> fs_converged sim' \<and> fs_last_iters sim' \<le> ?K + 1"
    if r: "after_runs sim sim1" and g: "inputs_given db x0 y0 pi_values" and f: "?K < fuel" for sim1 pi_values fuel ff
  proof -
    note b = after_runs_built [OF r built]
    have "\<forall>n. node_rank db x0 y0 level ?R ?C W es n < ?K" using rank_bound by (simp add: pass_bound_def)
    from evaluate_returns [OF design_sim_ready [OF ready box trees pop b refl refl dims(1) N]
        design_loop_free [OF ready order g trees pop b N] this f] show ?thesis .
  qed
  with init show ?thesis by blast
qed

section \<open>One solution\<close>

lemma fle_outputs_source: "(j, Some n) \<in> set (fle_outputs fles) \<Longrightarrow> \<exists>fl. (j, fl) \<in> set fles"
proof -
  have "(j, Some n) \<in> set (foldl (\<lambda>outs (gi, fl). AList.update gi (fle_out_net fl) outs) outs fles)
      \<Longrightarrow> (j, Some n) \<in> set outs \<or> (\<exists>fl. (j, fl) \<in> set fles)" for outs
  proof (induction fles arbitrary: outs)
    case Nil
    then show ?case by simp
  next
    case (Cons f fles)
    obtain gi fl where f: "f = (gi, fl)" by (cases f)
    have "set (AList.update gi (fle_out_net fl) outs) \<subseteq> insert (gi, fle_out_net fl) (set outs)" by (induction outs) auto
    with Cons.IH [of "AList.update gi (fle_out_net fl) outs"] Cons.prems show ?case by (auto simp: f)
  qed
  from this [of "map (\<lambda>k. (k, None)) [0..<8]"] show "(j, Some n) \<in> set (fle_outputs fles) \<Longrightarrow> ?thesis"
    by (auto simp: fle_outputs_def)
qed

lemma fb_of_net_defined: "(j, Some n) \<in> set outs \<Longrightarrow> \<exists>j'. fb_of_net outs n = Some j'"
proof -
  let ?step = "\<lambda>d (j, net). case net of None \<Rightarrow> d | Some n \<Rightarrow> d(n \<mapsto> j)"
  have keep: "d n \<noteq> None \<Longrightarrow> foldl ?step d outs n \<noteq> None" for d :: "string \<rightharpoonup> nat" and outs
    by (induction outs arbitrary: d) (auto split: option.split)
  have "(j, Some n) \<in> set outs \<Longrightarrow> foldl ?step d outs n \<noteq> None" for d
  proof (induction outs arbitrary: d)
    case Nil
    then show ?case by simp
  next
    case (Cons x outs)
    show ?case
    proof (cases "x = (j, Some n)")
      case True
      then show ?thesis using keep [of "d(n \<mapsto> j)" outs] by simp
    next
      case False
      with Cons show ?thesis by simp
    qed
  qed
  from this [of Map.empty] show "(j, Some n) \<in> set outs \<Longrightarrow> ?thesis" by (auto simp: fb_of_net_def)
qed

text \<open>The LUT equations of all clusters\<close>

definition netlist_equations ::
  "(string \<times> cover) list \<Rightarrow> (string \<Rightarrow> string) \<Rightarrow> placed_cluster list \<Rightarrow> int \<Rightarrow> int
     \<Rightarrow> ((nat \<times> nat \<times> nat) \<times> int) list option \<Rightarrow> (string \<Rightarrow> bool) \<Rightarrow> bool" where
  "netlist_equations names canon clusters x0 y0 ff v \<longleftrightarrow>
     (\<forall>((x, y), _, fles, _) \<in> set clusters. lut_equations names canon fles (ff_of ff (nat (y - y0)) (nat (x - x0))) v)"

lemma solution_unique:
  assumes ready: "design_ready names canon clusters db" and single: "single_drivers db x0 y0"
    and order: "net_order names canon clusters db x0 y0 level"
    and v: "netlist_equations names canon clusters x0 y0 ff v" and w: "netlist_equations names canon clusters x0 y0 ff w"
    and undriven: "\<And>m. net_drivers db x0 y0 m = [] \<Longrightarrow> w m = v m"
  shows "w n = v n"
proof (induction "level n" arbitrary: n rule: less_induct)
  case less
  show ?case
  proof (cases "net_drivers db x0 y0 n = []")
    case True
    then show ?thesis by (rule undriven)
  next
    case False
    then obtain u where "u \<in> set (net_drivers db x0 y0 n)" by (cases "net_drivers db x0 y0 n") auto
    then obtain x y tile j where t: "((x, y), tile) \<in> set (db_tiles db)" and j: "(j, Some n) \<in> set (tl_outputs tile)"
      unfolding in_drivers by blast
    from design_cluster [OF ready t] obtain clb fles rank where cl: "((x, y), clb, fles, rank) \<in> set clusters"
      and cr: "cluster_ready names canon clb fles rank tile" by blast
    note outs = ready_built(4) [OF cr]
    from fb_of_net_defined [OF j [unfolded outs]] obtain j' where fb: "tile_fb fles n = Some j'" by (auto simp: tile_fb_def)
    then have j': "(j', Some n) \<in> set (fle_outputs fles)" using fb_of_net_mem by (simp add: tile_fb_def)
    from fle_outputs_source [OF this] obtain fl where fl: "(j', fl) \<in> set fles" by blast
    have eq: "u n = (if fle_ff_used fl then (case ff_of ff (nat (y - y0)) (nat (x - x0)) j' of None \<Rightarrow> False | Some b \<Rightarrow> odd b)
        else cover_bit canon (tile_cover names fles j' fl) u)" if "netlist_equations names canon clusters x0 y0 ff u" for u
      using bspec [OF that [unfolded netlist_equations_def] cl] fl fb by (auto simp: lut_equations_def dest!: bspec)
    show ?thesis
    proof (cases "fle_ff_used fl")
      case True
      with eq [OF v] eq [OF w] show ?thesis by simp
    next
      case False
      have "w m = v m" if m: "m \<in> set (cover_inputs canon (tile_cover names fles j' fl))" for m
      proof (cases "net_drivers db x0 y0 m = []")
        case True
        then show ?thesis by (rule undriven)
      next
        case dr: False
        have "get_opt (fle_outputs fles) j' = Some n" using j' fle_outputs_distinct by (simp add: get_opt_def)
        with bspec [OF order [unfolded net_order_def list_all_iff] cl] fl False m dr have "level m < level n"
          by (auto simp: list_all_iff dest!: bspec)
        then show ?thesis by (rule less.hyps)
      qed
      from cover_bit_cong [OF this] eq [OF v] eq [OF w] False show ?thesis by simp
    qed
  qed
qed

end
