(* ===== verification/Bitgen_Deploy.thy ===== *)
theory Bitgen_Deploy
  imports Bitgen_Run Bitgen_Grid
begin

text \<open>
  A database sent through the frames of a target and given its net names again computes what it
  computed before: the eLUTs that the frames drop are constant zero, the others keep their words and
  selects.
\<close>

section \<open>A tile after the frames\<close>

definition deployed :: "tile_logic \<Rightarrow> tile_logic" where
  "deployed tile = frame_tile tile\<lparr>tl_inputs := tl_inputs tile, tl_outputs := tl_outputs tile\<rparr>"

lemma deployed_fields:
  "tl_eluts (deployed tile) = tl_eluts (frame_tile tile)" "tl_inputs (deployed tile) = tl_inputs tile"
  "tl_outputs (deployed tile) = tl_outputs tile" "sel_of (deployed tile) gi gk = sel_of (frame_tile tile) gi gk"
  by (simp_all add: deployed_def sel_of_def)

lemma deployed_vin: "gi < CLB_N \<Longrightarrow> lut_vin (net_pin (deployed tile) ib clb gi) = lut_vin (net_pin tile ib clb gi)"
  unfolding lut_vin_def net_pin_def deployed_fields
  by (rule foldl_cong) (simp_all add: frame_tile_sel)

lemma word_zero:
  assumes "elut_cfg_word ec = 0"
  shows "\<not> ec_ff_en ec" and "take_bit 16 (ec_tt ec) = 0"
proof -
  have e: "elut_from_word 0 = ec\<lparr>ec_tt := take_bit 16 (ec_tt ec)\<rparr>" using elut_from_cfg [of ec] assms by simp
  have z: "ec_ff_en (elut_from_word 0) = False" "ec_tt (elut_from_word 0) = 0" by (simp_all add: elut_from_word_def)
  from z(1) show "\<not> ec_ff_en ec" unfolding e by simp
  from z(2) show "take_bit 16 (ec_tt ec) = 0" unfolding e by simp
qed

lemma bit_at_take: "p < n \<Longrightarrow> bit_at (take_bit n tt) p = bit_at tt p"
  by (simp add: bit_at_of_bool bit_take_bit_iff)

lemma runs_deployed:
  assumes runs: "tile_runs names canon fles tile" and small: "list_all (\<lambda>(gi, fl). gi < CLB_N) fles"
  shows "tile_runs names canon fles (deployed tile)"
proof -
  have keys: "fst ` set (tl_eluts (deployed tile)) \<subseteq> fst ` set (tl_eluts tile)"
  proof
    fix i assume "i \<in> fst ` set (tl_eluts (deployed tile))"
    then have "map_of (tl_eluts (frame_tile tile)) i \<noteq> None" by (simp add: deployed_fields map_of_eq_None_iff)
    then have "map_of (tl_eluts tile) i \<noteq> None" by (auto simp: frame_tile_elut split: if_splits option.splits)
    then show "i \<in> fst ` set (tl_eluts tile)" by (simp add: map_of_eq_None_iff)
  qed
  have each: "case map_of (tl_eluts (deployed tile)) gi of
            None \<Rightarrow> \<not> fle_ff_used fl
              \<and> (\<forall>input_bits clb. \<not> lut_function canon (tile_fb fles) (tile_cover names fles gi fl) input_bits clb)
          | Some ec \<Rightarrow> ec_ff_en ec = fle_ff_used fl \<and> \<not> ec_out_inv ec \<and> \<not> ec_ff_rst_val ec
              \<and> computes canon (tile_fb fles) (tile_cover names fles gi fl) (deployed tile) gi ec"
    if gi: "(gi, fl) \<in> set fles" for gi fl
  proof -
    let ?f = "lut_function canon (tile_fb fles) (tile_cover names fles gi fl)"
    have g8: "gi < 8" using small gi by (auto simp: list_all_iff)
    from runs gi have r: "case map_of (tl_eluts tile) gi of
            None \<Rightarrow> \<not> fle_ff_used fl \<and> (\<forall>input_bits clb. \<not> ?f input_bits clb)
          | Some ec \<Rightarrow> ec_ff_en ec = fle_ff_used fl \<and> \<not> ec_out_inv ec \<and> \<not> ec_ff_rst_val ec
              \<and> computes canon (tile_fb fles) (tile_cover names fles gi fl) tile gi ec"
      unfolding tile_runs_def by blast
    show ?thesis
    proof (cases "map_of (tl_eluts tile) gi")
      case None
      with r show ?thesis by (simp add: deployed_fields frame_tile_elut)
    next
      case (Some ec)
      with r have e: "ec_ff_en ec = fle_ff_used fl" "\<not> ec_out_inv ec" "\<not> ec_ff_rst_val ec"
        and c: "\<And>ib clb. bit_at (ec_tt ec) (nat (lut_vin (net_pin tile ib clb gi))) = of_bool (?f ib clb)"
        by (simp_all add: computes_def)
      have t: "bit_at (take_bit 16 (ec_tt ec)) (nat (lut_vin (net_pin tile ib clb gi))) = of_bool (?f ib clb)" for ib clb
        using lut_vin_range [of "net_pin tile ib clb gi"] c by (simp only: bit_at_take)
      show ?thesis
      proof (cases "elut_cfg_word ec = 0")
        case True
        from word_zero [OF True] e t have "\<not> fle_ff_used fl" "\<not> ?f ib clb" for ib clb
          by (simp_all add: bit_at_of_bool)
        moreover have "map_of (tl_eluts (deployed tile)) gi = None" by (simp add: deployed_fields frame_tile_elut Some True)
        ultimately show ?thesis by simp
      next
        case False
        have "map_of (tl_eluts (deployed tile)) gi = Some (ec\<lparr>ec_tt := take_bit 16 (ec_tt ec)\<rparr>)"
          using g8 False by (simp add: deployed_fields frame_tile_elut Some elut_from_cfg)
        moreover have "computes canon (tile_fb fles) (tile_cover names fles gi fl) (deployed tile) gi (ec\<lparr>ec_tt := take_bit 16 (ec_tt ec)\<rparr>)"
          using t by (simp add: computes_def deployed_vin [OF g8])
        ultimately show ?thesis using e by simp
      qed
    qed
  qed
  from runs have "fst ` set (tl_eluts tile) \<subseteq> fst ` set fles" "tl_outputs tile = fle_outputs fles"
    by (simp_all add: tile_runs_def)
  moreover have "distinct (map fst (tl_eluts (deployed tile)))" by (simp only: deployed_fields frame_tile_keys)
  ultimately show ?thesis
    unfolding tile_runs_def using keys each by (intro conjI ballI) (auto simp only: deployed_fields prod.case)
qed

section \<open>Attaching the nets\<close>

lemma attach_nets_lookup:
  assumes "distinct (map fst db)"
  shows "map_of (foldl (attach_nets (x0, y0)) tiles db) (x, y) =
    (case map_of tiles (x, y) of None \<Rightarrow> None
     | Some dst \<Rightarrow> Some (case map_of db (x + x0, y + y0) of None \<Rightarrow> dst
                         | Some src \<Rightarrow> dst\<lparr>tl_inputs := tl_inputs src, tl_outputs := tl_outputs src\<rparr>))"
  using assms
proof (induction db arbitrary: tiles)
  case Nil
  then show ?case by (simp split: option.split)
next
  case (Cons d db)
  obtain a b src where d: "d = ((a, b), src)" by (metis surj_pair)
  let ?p = "(a - x0, b - y0)"
  have step: "map_of (attach_nets (x0, y0) tiles d) q = (if q = ?p
      then map_option (\<lambda>dst. dst\<lparr>tl_inputs := tl_inputs src, tl_outputs := tl_outputs src\<rparr>) (map_of tiles q) else map_of tiles q)" for q
    by (simp add: attach_nets_def d Let_def update_conv' split: option.split)
  have dist: "distinct (map fst db)" and new: "map_of db (a, b) = None"
    using Cons.prems by (simp_all add: d map_of_eq_None_iff)
  note ih = Cons.IH [OF dist, of "attach_nets (x0, y0) tiles d"]
  show ?case
  proof (cases "(x, y) = ?p")
    case True
    then have "(x + x0, y + y0) = (a, b)" by simp
    with ih True new show ?thesis
      by (simp add: step [unfolded d] d split: option.split)
  next
    case False
    then have "map_of (d # db) (x + x0, y + y0) = map_of db (x + x0, y + y0)" by (auto simp: d)
    moreover have "map_of (attach_nets (x0, y0) tiles d) (x, y) = map_of tiles (x, y)"
      using False by (simp only: step if_False)
    ultimately show ?thesis using ih by (simp only: foldl.simps)
  qed
qed

section \<open>The whole trip\<close>

lemma deploy_tiles:
  assumes packed: "pack_target_frames db routes fm = Inr (frames, offset)" and fm: "clb_frame_map rows cols = Inr fm"
    and fits: "\<forall>p rt. map_of routes p = Some rt \<longrightarrow> route_fits rt" and d: "distinct (map fst (db_tiles db))"
  obtains db2 routes2 where "unpack_attached frames fm db offset = Inr (db2, routes2)"
    and "db_inputs db2 = db_inputs db" and "db_outputs db2 = db_outputs db" and "db_po_aliases db2 = db_po_aliases db"
    and "\<And>x y tile. map_of (db_tiles db) (x, y) = Some tile
      \<Longrightarrow> map_of (db_tiles db2) (x - fst offset, y - snd offset) = Some (deployed tile)"
    and "\<And>r c. r < rows \<Longrightarrow> c < cols \<Longrightarrow> \<exists>tr. map_of routes2 (int r, int c) = Some tr
      \<and> same_route tr (case map_of routes (int r, int c) of None \<Rightarrow> empty_route | Some rt \<Rightarrow> rt)"
proof -
  note fields = clb_frame_map_fields [OF fm]
  from packed obtain x0 y0 x1 y1 where b: "db_grid_bounds db = Inr (x0, y0, x1, y1)"
    and o: "offset = (x0, y0)" and fit: "x1 - x0 + 1 \<le> int cols" "y1 - y0 + 1 \<le> int rows"
    and grid: "pack_grid fm rows cols (full_at db routes x0 y0) = Inr frames"
    by (auto simp: pack_target_frames_def res_bind_Inr_iff fields split: if_splits)
  define cell where "cell c r = projr (full_at db routes x0 y0 c r)" for c r
  let ?tile = "\<lambda>c r. case map_of (db_tiles db) (int c + x0, int r + y0) of None \<Rightarrow> empty_tile | Some t \<Rightarrow> t"
  let ?route = "\<lambda>c r. case map_of routes (int r, int c) of None \<Rightarrow> empty_route | Some rt \<Rightarrow> rt"
  have at: "full_at db routes x0 y0 c r = Inr (cell c r)"
    "config_points_to_tile CLB_N CLB_K (cell c r) = frame_tile (?tile c r)"
    "\<exists>tr. route_of_points fm (normal_tile (tile_points fm) (cell c r)) = Inr tr \<and> same_route tr (?route c r)" for c r
    using full_at_cases [where db = db and ?x0.0 = x0 and ?y0.0 = y0 and routes = routes and c = c and r = r, OF fits] fm by (auto simp: cell_def)
  note un = unpack_grid [OF fm at(1) grid]
  obtain db1 where db1: "frames_to_db frames fm 0 0 = Inr db1"
    and tiles1: "\<And>x y. map_of (db_tiles db1) (x, y) =
      (if 0 \<le> x \<and> x < 0 + int cols \<and> 0 \<le> y \<and> y < 0 + int rows
       then Some (config_points_to_tile CLB_N CLB_K (cell (nat (x - 0)) (nat (y - 0)))) else None)"
    using frames_to_db_grid [OF fm un, of 0 0] by blast
  define tr where "tr c r = projr (route_of_points fm (normal_tile (tile_points fm) (cell c r)))" for c r
  have tr: "route_of_points fm (normal_tile (tile_points fm) (cell c r)) = Inr (tr c r)" "same_route (tr c r) (?route c r)" for c r
    using at(3) [of c r] by (auto simp: tr_def)
  let ?rts = "map (\<lambda>c. map (tr c) [0..<rows]) [0..<cols]"
  have col: "res_map (route_of_points fm) (map (\<lambda>r. normal_tile (tile_points fm) (cell c r)) [0..<rows]) = Inr (map (tr c) [0..<rows])" for c
    by (simp add: res_map_Inr_iff list_all2_conv_all_nth tr)
  have len: "length frames = cols" using un(1) fields by simp
  have "res_map (\<lambda>frame. res_bind (lift_frame (unpack fm frame)) (res_map (route_of_points fm))) frames = Inr ?rts"
  proof (rule res_map_frames [OF len])
    fix c assume "c < cols"
    then show "res_bind (lift_frame (unpack fm (frames ! c))) (res_map (route_of_points fm)) = Inr (map (tr c) [0..<rows])"
      by (simp add: un(2) lift_frame_def col)
  qed
  then have r2: "frames_to_route frames fm = Inr (tabulate (\<lambda>c r. (int r, int c)) (\<lambda>tr. tr) ?rts)"
    using un(1) by (simp add: frames_to_route_def)
  let ?db2 = "db1\<lparr>db_inputs := db_inputs db, db_outputs := db_outputs db, db_po_aliases := db_po_aliases db,
                db_tiles := foldl (attach_nets offset) (db_tiles db1) (db_tiles db)\<rparr>"
  show thesis
  proof (rule that)
    show "unpack_attached frames fm db offset = Inr (?db2, tabulate (\<lambda>c r. (int r, int c)) (\<lambda>tr. tr) ?rts)"
      by (simp add: unpack_attached_def db1 r2)
    fix x y tile assume t: "map_of (db_tiles db) (x, y) = Some tile"
    from grid_bounds(4) [OF b t] fit have box: "0 \<le> x - x0" "x - x0 < int cols" "0 \<le> y - y0" "y - y0 < int rows" by linarith+
    then have "map_of (db_tiles db1) (x - x0, y - y0) = Some (frame_tile tile)"
      using t by (simp add: tiles1 at(2))
    then show "map_of (db_tiles ?db2) (x - fst offset, y - snd offset) = Some (deployed tile)"
      using attach_nets_lookup [OF d, of x0 y0 "db_tiles db1" "x - x0" "y - y0"] t by (simp add: o deployed_def)
  next
    fix r c assume rc: "r < rows" "c < cols"
    have "map_of (tabulate (\<lambda>c r. (int r, int c)) (\<lambda>tr. tr) ?rts) (int r, int c) = Some (?rts ! c ! r)"
      by (rule tabulate_lookup(1)) (use rc in auto)
    with rc tr(2) [of c r] show "\<exists>tr. map_of (tabulate (\<lambda>c r. (int r, int c)) (\<lambda>tr. tr) ?rts) (int r, int c) = Some tr \<and> same_route tr (?route c r)"
      by auto
  qed simp_all
qed

lemma selects_fit_empty: "selects_fit empty_tile"
  by (simp add: selects_fit_def sel_of_def empty_tile_def)

lemma target_frames_ok:
  assumes b: "db_grid_bounds db = Inr (x0, y0, x1, y1)" and fm: "clb_frame_map rows cols = Inr fm"
    and fit: "x1 - x0 < int cols" "y1 - y0 < int rows"
    and routed: "\<forall>p rt. map_of routes p = Some rt \<longrightarrow> route_fits rt"
    and sels: "\<forall>p tile. map_of (db_tiles db) p = Some tile \<longrightarrow> selects_fit tile"
  shows "\<exists>frames. pack_target_frames db routes fm = Inr (frames, (x0, y0))"
proof -
  define cell where "cell c r = projr (full_at db routes x0 y0 c r)" for c r
  have at: "full_at db routes x0 y0 c r = Inr (cell c r)" "points_in_range (cell c r)" for c r
  proof -
    have "selects_fit (case map_of (db_tiles db) (int c + x0, int r + y0) of None \<Rightarrow> empty_tile | Some t \<Rightarrow> t)"
      using sels by (simp add: selects_fit_empty split: option.split)
    then show "full_at db routes x0 y0 c r = Inr (cell c r)" "points_in_range (cell c r)"
      using full_at_cases [where db = db and ?x0.0 = x0 and ?y0.0 = y0 and routes = routes and c = c and r = r, OF routed]
      by (auto simp: cell_def)
  qed
  obtain frames where "pack_grid fm rows cols (full_at db routes x0 y0) = Inr frames"
    using pack_grid_ok_iff [OF fm, of "full_at db routes x0 y0" cell] at by blast
  with b fit show ?thesis
    by (simp add: pack_target_frames_def clb_frame_map_fields [OF fm])
qed

end
