(* ===== verification/Bitgen_Buffers.thy ===== *)
theory Bitgen_Buffers
  imports Bitgen_Net
begin

text \<open>
  The classes of nets joined by buffers: every loop over the parent links ends, path compression
  and linking keep the represented partition, and the classes are those of the reflexive,
  symmetric and transitive closure of the buffers.
\<close>

section \<open>Parent links\<close>

text \<open>A link points to a smaller or equal name, and to a name that has a link.\<close>

definition good :: "links \<Rightarrow> bool" where
  "good parent \<longleftrightarrow> distinct (map fst parent)
     \<and> (\<forall>k p. map_of parent k = Some p \<longrightarrow> p \<le> k \<and> map_of parent p \<noteq> None)"

lemma goodD: "good parent \<Longrightarrow> map_of parent k = Some p \<Longrightarrow> p \<le> k \<and> map_of parent p \<noteq> None"
  unfolding good_def by blast

definition linked :: "links \<Rightarrow> (string \<times> string) set" where
  "linked parent = {(a, b). map_of parent a = Some b}"

definition rep_of :: "links \<Rightarrow> string \<Rightarrow> string \<Rightarrow> bool" where
  "rep_of parent x r \<longleftrightarrow> (x, r) \<in> (linked parent)\<^sup>* \<and> map_of parent r = Some r"

lemma rep_of_dom: "rep_of parent x r \<Longrightarrow> map_of parent x \<noteq> None"
  unfolding rep_of_def by (elim conjE, erule converse_rtranclE) (auto simp: linked_def)

lemma rep_of_step: "map_of parent x = Some p \<Longrightarrow> rep_of parent x r \<longleftrightarrow> rep_of parent p r"
proof
  assume p: "map_of parent x = Some p" and r: "rep_of parent p r"
  then have "(x, p) \<in> linked parent" by (simp add: linked_def)
  with r show "rep_of parent x r" unfolding rep_of_def by (meson converse_rtrancl_into_rtrancl)
next
  assume p: "map_of parent x = Some p" and r: "rep_of parent x r"
  from r have path: "(x, r) \<in> (linked parent)\<^sup>*" and root: "map_of parent r = Some r" by (simp_all add: rep_of_def)
  from path show "rep_of parent p r"
  proof (cases rule: converse_rtranclE)
    case base
    with p root show ?thesis by (simp add: rep_of_def)
  next
    case (step y)
    with p root show ?thesis by (simp add: rep_of_def linked_def)
  qed
qed

lemma rep_of_root: "map_of parent x = Some x \<Longrightarrow> rep_of parent x r \<longleftrightarrow> r = x"
proof
  assume root: "map_of parent x = Some x" and "rep_of parent x r"
  then have "(x, r) \<in> (linked parent)\<^sup>*" by (simp add: rep_of_def)
  then show "r = x" using root by (induction rule: rtrancl_induct) (auto simp: linked_def)
qed (simp add: rep_of_def)

lemma rep_of_unique: "rep_of parent x r \<Longrightarrow> rep_of parent x s \<Longrightarrow> r = s"
proof -
  assume r: "rep_of parent x r" and s: "rep_of parent x s"
  from r have "(x, r) \<in> (linked parent)\<^sup>*" and root: "map_of parent r = Some r" by (simp_all add: rep_of_def)
  then show "r = s" using s
  proof (induction rule: converse_rtrancl_induct)
    case base
    then show ?case using rep_of_root [OF root] by simp
  next
    case (step y z)
    then show ?case using rep_of_step [of parent y z s] by (auto simp: linked_def)
  qed
qed

lemma rep_of_le: "good parent \<Longrightarrow> rep_of parent x r \<Longrightarrow> r \<le> x"
proof -
  assume g: "good parent" and "rep_of parent x r"
  then have "(x, r) \<in> (linked parent)\<^sup>*" by (simp add: rep_of_def)
  then show "r \<le> x"
  proof (induction rule: rtrancl_induct)
    case (step y z)
    then show ?case using goodD [OF g, of y z] by (auto simp: linked_def intro: order.trans [of z y x])
  qed simp
qed

text \<open>The names below a name get fewer along the links.\<close>

definition below :: "links \<Rightarrow> string \<Rightarrow> nat" where
  "below parent x = card {k \<in> fst ` set parent. k < x}"

lemma below_less: "good parent \<Longrightarrow> map_of parent x = Some p \<Longrightarrow> p \<noteq> x \<Longrightarrow> below parent p < below parent x"
proof -
  assume a: "good parent" "map_of parent x = Some p" "p \<noteq> x"
  then have lt: "p < x" and dom: "map_of parent p \<noteq> None" unfolding good_def by (force simp: order_less_le)+
  from dom have "p \<in> fst ` set parent" by (simp add: map_of_eq_None_iff)
  with lt have "{k \<in> fst ` set parent. k < p} \<subset> {k \<in> fst ` set parent. k < x}" by (auto dest: order_less_trans)
  then show ?thesis unfolding below_def by (intro psubset_card_mono) auto
qed

lemma uf_root_ok:
  assumes "good parent" and "map_of parent x \<noteq> None"
  shows "\<exists>r. uf_root parent x = Some (Inr r) \<and> rep_of parent x r"
  using assms(2)
proof (induction "below parent x" arbitrary: x rule: less_induct)
  case less
  then obtain p where p: "map_of parent x = Some p" by auto
  show ?case
  proof (cases "p = x")
    case True
    with p show ?thesis by (simp add: uf_root.simps rep_of_def)
  next
    case False
    have "map_of parent p \<noteq> None" using assms(1) p by (auto simp: good_def)
    from less.hyps [OF below_less [OF assms(1) p False] this] p False rep_of_step [OF p] show ?thesis
      by (simp add: uf_root.simps [of _ x])
  qed
qed

lemma rep_exists: "good parent \<Longrightarrow> map_of parent x \<noteq> None \<Longrightarrow> \<exists>r. rep_of parent x r"
  using uf_root_ok by blast

lemma good_update:
  assumes "good parent" and "r \<le> x" and "map_of parent r \<noteq> None \<or> r = x"
  shows "good (AList.update x r parent)"
  unfolding good_def
proof
  show "distinct (map fst (AList.update x r parent))" using assms(1) by (simp add: good_def distinct_update)
  have "p \<le> k \<and> map_of (AList.update x r parent) p \<noteq> None"
    if k: "map_of (AList.update x r parent) k = Some p" for k p
  proof (cases "k = x")
    case True
    with k assms show ?thesis by (auto simp: update_conv')
  next
    case False
    with k goodD [OF assms(1), of k p] show ?thesis by (auto simp: update_conv')
  qed
  then show "\<forall>k p. map_of (AList.update x r parent) k = Some p
      \<longrightarrow> p \<le> k \<and> map_of (AList.update x r parent) p \<noteq> None" by blast
qed

text \<open>Moving the links of names with a representative keeps representatives if it keeps every one
  of them: the links are functions, so it is enough to show one direction.\<close>

lemma rep_of_transfer:
  assumes "good parent" and "\<And>k. map_of parent' k \<noteq> None \<Longrightarrow> map_of parent k \<noteq> None"
    and "\<And>y t. rep_of parent y t \<Longrightarrow> rep_of parent' y (f t)"
  shows "rep_of parent' y s \<longleftrightarrow> (\<exists>t. rep_of parent y t \<and> s = f t)"
proof
  assume s: "rep_of parent' y s"
  then have "map_of parent y \<noteq> None" using assms(2) rep_of_dom by blast
  then obtain t where t: "rep_of parent y t" using rep_exists [OF assms(1)] by blast
  from rep_of_unique [OF s assms(3) [OF t]] t show "\<exists>t. rep_of parent y t \<and> s = f t" by blast
qed (use assms(3) in blast)

lemma redirect:
  assumes g: "good parent" and x: "rep_of parent x r"
  shows "rep_of (AList.update x r parent) y s \<longleftrightarrow> rep_of parent y s"
proof -
  let ?p = "AList.update x r parent"
  have root: "map_of parent r = Some r" using x by (simp add: rep_of_def)
  then have root': "map_of ?p r = Some r" by (simp add: update_conv')
  have "rep_of ?p y t" if "rep_of parent y t" for y t
  proof -
    from that have "(y, t) \<in> (linked parent)\<^sup>*" and tr: "map_of parent t = Some t" by (simp_all add: rep_of_def)
    then show ?thesis
    proof (induction rule: converse_rtrancl_induct)
      case base
      show ?case
      proof (cases "t = x")
        case True
        with tr x have "r = t" using rep_of_root [OF tr] by simp
        with root' show ?thesis by (simp add: rep_of_def)
      next
        case False
        with tr show ?thesis by (simp add: rep_of_def update_conv')
      qed
    next
      case (step y z)
      show ?case
      proof (cases "y = x")
        case True
        have "rep_of parent y t" unfolding rep_of_def using step(1,2) tr by (meson converse_rtrancl_into_rtrancl)
        with x True have "t = r" by (intro rep_of_unique [of parent x]) simp_all
        moreover have "map_of ?p x = Some r" by (simp add: update_conv')
        ultimately show ?thesis using rep_of_step [of ?p x r t] rep_of_root [OF root', of t] True by simp
      next
        case False
        with step(1) have "map_of ?p y = Some z" by (simp add: update_conv' linked_def)
        with rep_of_step [OF this, of t] step(3) tr show ?thesis by simp
      qed
    qed
  qed
  moreover have "map_of parent k \<noteq> None" if "map_of ?p k \<noteq> None" for k
    using that rep_of_dom [OF x] by (auto simp: update_conv' split: if_splits)
  ultimately show ?thesis using rep_of_transfer [OF g, of ?p "\<lambda>t. t"] by simp
qed

lemma uf_compress_ok:
  assumes "good parent" and "rep_of parent x r"
  shows "\<exists>parent'. uf_compress parent r x = Some (Inr parent') \<and> good parent'
    \<and> map fst parent' = map fst parent \<and> (\<forall>y s. rep_of parent' y s = rep_of parent y s)"
  using assms
proof (induction "below parent x" arbitrary: x parent rule: less_induct)
  case less
  obtain p where p: "map_of parent x = Some p" using rep_of_dom [OF less.prems(2)] by auto
  show ?case
  proof (cases "p = r")
    case True
    with p less.prems show ?thesis by (simp add: uf_compress.simps)
  next
    case False
    let ?p = "AList.update x r parent"
    have px: "p \<noteq> x" using rep_of_root [of parent x r] p less.prems(2) False by auto
    have keys: "map fst ?p = map fst parent" using p by (simp add: update_keys map_of_eq_None_iff [symmetric])
    then have "fst ` set ?p = fst ` set parent" by (metis set_map)
    then have "below ?p p < below parent x" using below_less [OF less.prems(1) p px] by (simp add: below_def)
    moreover have "good ?p"
      using less.prems p rep_of_le by (intro good_update) (auto simp: rep_of_def)
    moreover have "rep_of ?p p r"
      using redirect [OF less.prems] rep_of_step [OF p] less.prems(2) by simp
    ultimately obtain parent' where "uf_compress ?p r p = Some (Inr parent')" "good parent'"
        "map fst parent' = map fst ?p" "\<forall>y s. rep_of parent' y s = rep_of ?p y s"
      using less.hyps by blast
    with p False keys redirect [OF less.prems] show ?thesis
      by (simp add: uf_compress.simps [of parent])
  qed
qed

lemma rep_of_default:
  assumes "good parent"
  shows "good (uf_default parent x)"
    and "rep_of (uf_default parent x) y s \<longleftrightarrow> rep_of parent y s \<or> map_of parent x = None \<and> y = x \<and> s = x"
proof -
  show "good (uf_default parent x)" using assms good_update [OF assms, of x x] by (simp add: uf_default_def)
  show "rep_of (uf_default parent x) y s \<longleftrightarrow> rep_of parent y s \<or> map_of parent x = None \<and> y = x \<and> s = x"
  proof (cases "map_of parent x")
    case (Some p)
    then show ?thesis by (simp add: uf_default_def)
  next
    case None
    let ?p = "AList.update x x parent"
    have x: "rep_of ?p x x" by (simp add: rep_of_def update_conv')
    have keep: "rep_of ?p y t" if "rep_of parent y t" for y t
    proof -
      from that have "(y, t) \<in> (linked parent)\<^sup>*" and tr: "map_of parent t = Some t" by (simp_all add: rep_of_def)
      then show ?thesis
      proof (induction rule: converse_rtrancl_induct)
        case base
        with None show ?case by (auto simp: rep_of_def update_conv')
      next
        case (step y z)
        with None have "map_of ?p y = Some z" by (auto simp: update_conv' linked_def)
        with step tr show ?case by (simp add: rep_of_step)
      qed
    qed
    have "rep_of parent y s \<or> y = x \<and> s = x" if s: "rep_of ?p y s"
    proof (cases "y = x")
      case True
      with rep_of_unique [OF s] x show ?thesis by simp
    next
      case False
      with rep_of_dom [OF s] have "map_of parent y \<noteq> None" by (simp add: update_conv')
      then obtain t where "rep_of parent y t" using rep_exists [OF assms] by blast
      with rep_of_unique [OF s keep [OF this]] show ?thesis by simp
    qed
    with keep x None show ?thesis by (auto simp: uf_default_def)
  qed
qed

lemma uf_find_ok:
  assumes "good parent"
  obtains r parent' where "uf_find parent x = Some (Inr (r, parent'))" and "good parent'" and "rep_of parent' x r"
    and "\<And>y s. rep_of parent' y s \<longleftrightarrow> rep_of parent y s \<or> map_of parent x = None \<and> y = x \<and> s = x"
    and "map fst parent' = (if map_of parent x = None then map fst parent @ [x] else map fst parent)"
proof -
  let ?d = "uf_default parent x"
  note d = rep_of_default [OF assms, where x = x]
  have "map_of ?d x \<noteq> None" by (auto simp: uf_default_def update_conv')
  from uf_root_ok [OF d(1) this] obtain r where r: "uf_root ?d x = Some (Inr r)" "rep_of ?d x r" by blast
  from uf_compress_ok [OF d(1) r(2)] obtain parent' where c: "uf_compress ?d r x = Some (Inr parent')" "good parent'"
      "map fst parent' = map fst ?d" "\<forall>y s. rep_of parent' y s = rep_of ?d y s" by blast
  show thesis
  proof (rule that)
    show "uf_find parent x = Some (Inr (r, parent'))" by (simp add: uf_find_def Let_def r c lp_bind_def)
    show "rep_of parent' x r" using c(4) r(2) by simp
    show "map fst parent' = (if map_of parent x = None then map fst parent @ [x] else map fst parent)"
      using c(3) by (simp add: uf_default_def update_keys map_of_eq_None_iff)
  qed (use c d(2) in simp_all)
qed

lemma link_roots:
  assumes g: "good parent" and m: "map_of parent m = Some m" and M: "map_of parent M = Some M" and lt: "m < M"
  shows "good (AList.update M m parent)"
    and "rep_of (AList.update M m parent) y s \<longleftrightarrow> (\<exists>t. rep_of parent y t \<and> s = (if t = M then m else t))"
proof -
  let ?p = "AList.update M m parent"
  show "good ?p" by (rule good_update [OF g]) (use m M lt in auto)
  have mr: "map_of ?p m = Some m" and MM: "map_of ?p M = Some m" using m lt by (auto simp: update_conv')
  have "rep_of ?p y (if t = M then m else t)" if "rep_of parent y t" for y t
  proof -
    from that have "(y, t) \<in> (linked parent)\<^sup>*" and tr: "map_of parent t = Some t" by (simp_all add: rep_of_def)
    then show ?thesis
    proof (induction rule: converse_rtrancl_induct)
      case base
      show ?case
      proof (cases "t = M")
        case True
        with rep_of_step [OF MM, of m] mr show ?thesis by (simp add: rep_of_def)
      next
        case False
        with tr show ?thesis by (simp add: rep_of_def update_conv')
      qed
    next
      case (step y z)
      show ?case
      proof (cases "y = M")
        case True
        with step(1) M have "z = y" by (simp add: linked_def)
        with step tr show ?thesis by simp
      next
        case False
        with step(1) have "map_of ?p y = Some z" by (simp add: update_conv' linked_def)
        with step tr show ?thesis by (simp add: rep_of_step)
      qed
    qed
  qed
  moreover have "map_of parent k \<noteq> None" if "map_of ?p k \<noteq> None" for k
    using that M by (auto simp: update_conv' split: if_splits)
  ultimately show "rep_of ?p y s \<longleftrightarrow> (\<exists>t. rep_of parent y t \<and> s = (if t = M then m else t))"
    using rep_of_transfer [OF g, of ?p "\<lambda>t. if t = M then m else t" y s] by simp
qed

section \<open>The partition\<close>

definition buffer_pairs :: "(string \<times> cover) list \<Rightarrow> (string \<times> string) list" where
  "buffer_pairs names = map (\<lambda>(out, cov). (out, hd (fst cov))) (filter (\<lambda>(out, cov). is_buffer cov) names)"

definition joins :: "(string \<times> string) list \<Rightarrow> (string \<times> string) set" where
  "joins ps = set ps \<union> (set ps)\<inverse>"

definition same_rep :: "links \<Rightarrow> string \<Rightarrow> string \<Rightarrow> bool" where
  "same_rep parent a b \<longleftrightarrow> (\<exists>r. rep_of parent a r \<and> rep_of parent b r)"

definition ends :: "(string \<times> string) list \<Rightarrow> string set" where
  "ends ps = fst ` set ps \<union> snd ` set ps"

definition partition_ok :: "links \<Rightarrow> string set \<Rightarrow> (string \<times> string) list \<Rightarrow> bool" where
  "partition_ok parent V ps \<longleftrightarrow> good parent \<and> fst ` set parent = V \<and> ends ps \<subseteq> V
     \<and> (\<forall>a b. same_rep parent a b \<longleftrightarrow> a \<in> V \<and> (a, b) \<in> (joins ps)\<^sup>*)"

lemma sym_joins: "(a, b) \<in> (joins ps)\<^sup>* \<Longrightarrow> (b, a) \<in> (joins ps)\<^sup>*"
proof -
  have "sym ((joins ps)\<^sup>*)" by (rule sym_rtrancl) (auto simp: joins_def sym_def)
  then show "(a, b) \<in> (joins ps)\<^sup>* \<Longrightarrow> ?thesis" by (rule symD)
qed

lemma joins_isolated: "a \<notin> ends ps \<Longrightarrow> (a, b) \<in> (joins ps)\<^sup>* \<Longrightarrow> b = a"
  by (erule converse_rtranclE) (force simp: joins_def ends_def)+

lemma joins_snoc:
  "(u, v) \<in> (joins (ps @ [(a, b)]))\<^sup>* \<longleftrightarrow>
     (u, v) \<in> (joins ps)\<^sup>* \<or> (u, a) \<in> (joins ps)\<^sup>* \<and> (b, v) \<in> (joins ps)\<^sup>*
     \<or> (u, b) \<in> (joins ps)\<^sup>* \<and> (a, v) \<in> (joins ps)\<^sup>*"
proof -
  have j: "joins (ps @ [(a, b)]) = insert (a, b) (insert (b, a) (joins ps))" by (auto simp: joins_def)
  show ?thesis
    unfolding j rtrancl_insert by (auto intro: rtrancl_trans dest: sym_joins)
qed

lemma ends_snoc: "ends (ps @ [(a, b)]) = ends ps \<union> {a, b}"
  by (auto simp: ends_def)

lemma same_rep_sym: "same_rep parent a b = same_rep parent b a"
  by (auto simp: same_rep_def)

lemma find_partition:
  assumes ok: "partition_ok parent V ps"
  obtains r parent' where "uf_find parent x = Some (Inr (r, parent'))" and "rep_of parent' x r"
    and "partition_ok parent' (insert x V) ps"
    and "map fst parent' = (if x \<in> V then map fst parent else map fst parent @ [x])"
    and "\<And>y s. rep_of parent y s \<Longrightarrow> rep_of parent' y s"
proof -
  from ok have g: "good parent" and V: "fst ` set parent = V" "ends ps \<subseteq> V"
    and old: "\<And>a b. same_rep parent a b \<longleftrightarrow> a \<in> V \<and> (a, b) \<in> (joins ps)\<^sup>*"
    by (simp_all add: partition_ok_def)
  obtain r parent' where f: "uf_find parent x = Some (Inr (r, parent'))" "good parent'" "rep_of parent' x r"
    and new: "\<And>y s. rep_of parent' y s \<longleftrightarrow> rep_of parent y s \<or> map_of parent x = None \<and> y = x \<and> s = x"
    and keys: "map fst parent' = (if map_of parent x = None then map fst parent @ [x] else map fst parent)"
    using uf_find_ok [OF g] by blast
  have x: "map_of parent x = None \<longleftrightarrow> x \<notin> V" using V(1) by (simp add: map_of_eq_None_iff)
  have same: "same_rep parent' a b \<longleftrightarrow> a \<in> insert x V \<and> (a, b) \<in> (joins ps)\<^sup>*" for a b
  proof (cases "x \<in> V")
    case True
    with x have "same_rep parent' a b = same_rep parent a b" by (simp only: same_rep_def new simp_thms)
    with old True show ?thesis by blast
  next
    case False
    then have none: "\<not> rep_of parent x s" for s using x rep_of_dom by blast
    have "\<not> rep_of parent y x" for y
      using False x unfolding rep_of_def by (metis option.distinct(1))
    with none have "same_rep parent' a b \<longleftrightarrow> same_rep parent a b \<or> a = x \<and> b = x"
      using x False by (auto simp: same_rep_def new)
    moreover have "x \<notin> ends ps" using V(2) False by blast
    ultimately show ?thesis using old False joins_isolated [of x ps] by blast
  qed
  have keys': "map fst parent' = (if x \<in> V then map fst parent else map fst parent @ [x])" using keys x by simp
  have "fst ` set parent' = set (map fst parent')" by simp
  also have "\<dots> = insert x V" using V(1) by (auto simp: keys')
  finally have "partition_ok parent' (insert x V) ps" using f(2) same V(2) by (auto simp: partition_ok_def)
  from that [OF f(1,3) this keys'] new show thesis by blast
qed

lemma partition_roots:
  "partition_ok parent V ps \<Longrightarrow> rep_of parent a ra \<Longrightarrow> rep_of parent b rb \<Longrightarrow>
     ra = rb \<longleftrightarrow> (a, b) \<in> (joins ps)\<^sup>*"
proof -
  assume ok: "partition_ok parent V ps" and r: "rep_of parent a ra" "rep_of parent b rb"
  have "a \<in> V" using ok rep_of_dom [OF r(1)] by (auto simp: partition_ok_def map_of_eq_None_iff)
  then have "(a, b) \<in> (joins ps)\<^sup>* \<longleftrightarrow> same_rep parent a b" using ok by (simp add: partition_ok_def)
  also have "\<dots> \<longleftrightarrow> ra = rb"
  proof
    assume "same_rep parent a b"
    then obtain t where t: "rep_of parent a t" "rep_of parent b t" by (auto simp: same_rep_def)
    from rep_of_unique [OF r(1) t(1)] rep_of_unique [OF r(2) t(2)] show "ra = rb" by simp
  next
    assume "ra = rb"
    with r show "same_rep parent a b" by (auto simp: same_rep_def)
  qed
  finally show ?thesis by simp
qed

lemma link_partition:
  assumes ok: "partition_ok parent V ps" and a: "rep_of parent a ra" and b: "rep_of parent b rb" and ne: "ra \<noteq> rb"
  shows "partition_ok (AList.update (max ra rb) (min ra rb) parent) V (ps @ [(a, b)])"
proof -
  let ?m = "min ra rb" and ?M = "max ra rb" and ?p = "AList.update (max ra rb) (min ra rb) parent"
  from ok have g: "good parent" and V: "fst ` set parent = V" "ends ps \<subseteq> V" by (simp_all add: partition_ok_def)
  have roots: "map_of parent ?m = Some ?m" "map_of parent ?M = Some ?M" "?m < ?M"
    using a b ne by (auto simp: rep_of_def min_def max_def)
  note link = link_roots [OF g roots]
  have ab: "a \<in> V" "b \<in> V" using V(1) rep_of_dom [OF a] rep_of_dom [OF b] by (auto simp: map_of_eq_None_iff)
  have "?M \<in> fst ` set parent" using roots(2) by (metis map_of_eq_None_iff option.distinct(1))
  then have keys: "fst ` set ?p = V" using V(1) by (simp add: dom_update insert_absorb)
  have same: "same_rep ?p u v \<longleftrightarrow> u \<in> V \<and> (u, v) \<in> (joins (ps @ [(a, b)]))\<^sup>*" for u v
  proof (cases "\<exists>tu tv. rep_of parent u tu \<and> rep_of parent v tv")
    case False
    have "u \<in> V \<Longrightarrow> \<exists>tu. rep_of parent u tu" using rep_exists [OF g, of u] V(1) by (simp add: map_of_eq_None_iff)
    moreover have "v \<in> V \<Longrightarrow> \<exists>tv. rep_of parent v tv" using rep_exists [OF g, of v] V(1) by (simp add: map_of_eq_None_iff)
    ultimately have out: "u \<notin> V \<or> v \<notin> V" using False by blast
    have "v = u" if "v \<notin> V" "(u, v) \<in> (joins (ps @ [(a, b)]))\<^sup>*"
      using joins_isolated [of v "ps @ [(a, b)]" u] sym_joins [OF that(2)] that(1) V(2) ab by (auto simp: ends_snoc)
    with out have "\<not> (u \<in> V \<and> (u, v) \<in> (joins (ps @ [(a, b)]))\<^sup>*)" by blast
    moreover have "\<not> same_rep ?p u v" using False by (auto simp: same_rep_def link(2))
    ultimately show ?thesis by blast
  next
    case True
    then obtain tu tv where t: "rep_of parent u tu" "rep_of parent v tv" by blast
    have u: "u \<in> V" using V(1) rep_of_dom [OF t(1)] by (auto simp: map_of_eq_None_iff)
    have "same_rep ?p u v \<longleftrightarrow> (if tu = ?M then ?m else tu) = (if tv = ?M then ?m else tv)"
    proof -
      have "rep_of parent u t \<longleftrightarrow> t = tu" "rep_of parent v t \<longleftrightarrow> t = tv" for t
        using t rep_of_unique by blast+
      then show ?thesis unfolding same_rep_def link(2) by simp
    qed
    also have "\<dots> \<longleftrightarrow> tu = tv \<or> tu = ra \<and> rb = tv \<or> tu = rb \<and> ra = tv"
      using ne by (auto simp: min_def max_def)
    also have "\<dots> \<longleftrightarrow> (u, v) \<in> (joins (ps @ [(a, b)]))\<^sup>*"
      unfolding joins_snoc partition_roots [OF ok t] partition_roots [OF ok t(1) a] partition_roots [OF ok b t(2)]
        partition_roots [OF ok t(1) b] partition_roots [OF ok a t(2)] by (rule refl)
    finally show ?thesis using u by blast
  qed
  show ?thesis unfolding partition_ok_def using link(1) keys same V(2) ab by (auto simp: ends_snoc)
qed

lemma joined_partition:
  assumes ok: "partition_ok parent V ps" and j: "(a, b) \<in> (joins ps)\<^sup>*" and ab: "a \<in> V" "b \<in> V"
  shows "partition_ok parent V (ps @ [(a, b)])"
proof -
  have "(u, v) \<in> (joins (ps @ [(a, b)]))\<^sup>* \<longleftrightarrow> (u, v) \<in> (joins ps)\<^sup>*" for u v
  proof -
    have "(u, a) \<in> (joins ps)\<^sup>* \<Longrightarrow> (b, v) \<in> (joins ps)\<^sup>* \<Longrightarrow> (u, v) \<in> (joins ps)\<^sup>*"
      using rtrancl_trans [OF rtrancl_trans [OF _ j]] by blast
    moreover have "(u, b) \<in> (joins ps)\<^sup>* \<Longrightarrow> (a, v) \<in> (joins ps)\<^sup>* \<Longrightarrow> (u, v) \<in> (joins ps)\<^sup>*"
      using rtrancl_trans [OF rtrancl_trans [OF _ sym_joins [OF j]]] by blast
    ultimately show ?thesis unfolding joins_snoc by blast
  qed
  with ok ab show ?thesis by (simp add: partition_ok_def ends_snoc)
qed

lemma buffer_pairs_Cons:
  "buffer_pairs ((out, cov) # names) = (if is_buffer cov then [(out, hd (fst cov))] else []) @ buffer_pairs names"
  by (simp add: buffer_pairs_def)

lemma uf_union_ok:
  "partition_ok parent (ends ps) ps \<Longrightarrow>
     \<exists>parent'. uf_union names parent = Some (Inr parent')
       \<and> partition_ok parent' (ends (ps @ buffer_pairs names)) (ps @ buffer_pairs names)"
proof (induction names arbitrary: parent ps)
  case Nil
  then show ?case by (simp add: buffer_pairs_def)
next
  case (Cons n names)
  obtain out cov where n: "n = (out, cov)" by (cases n)
  show ?case
  proof (cases "is_buffer cov")
    case False
    with Cons.IH [OF Cons.prems] show ?thesis by (simp add: n buffer_pairs_Cons)
  next
    case True
    let ?b = "hd (fst cov)"
    obtain ra p1 where f1: "uf_find parent out = Some (Inr (ra, p1))" "rep_of p1 out ra" "partition_ok p1 (insert out (ends ps)) ps"
      by (rule find_partition [OF Cons.prems, of out]) (rule that; assumption)
    obtain rb p2 where f2: "uf_find p1 ?b = Some (Inr (rb, p2))" "rep_of p2 ?b rb"
        "partition_ok p2 (insert ?b (insert out (ends ps))) ps"
      "\<And>y s. rep_of p1 y s \<Longrightarrow> rep_of p2 y s"
      by (rule find_partition [OF f1(3), of ?b]) (rule that; assumption)
    have ra: "rep_of p2 out ra" by (rule f2(4) [OF f1(2)])
    let ?p3 = "if ra \<noteq> rb then AList.update (max ra rb) (min ra rb) p2 else p2"
    have step: "uf_union (n # names) parent = uf_union names ?p3"
      by (simp add: n True f1(1) f2(1) lp_bind_def)
    have V: "insert ?b (insert out (ends ps)) = ends (ps @ [(out, ?b)])" by (auto simp: ends_snoc)
    have p3: "partition_ok ?p3 (ends (ps @ [(out, ?b)])) (ps @ [(out, ?b)])"
    proof (cases "ra = rb")
      case False
      with link_partition [OF f2(3) ra f2(2) False] show ?thesis by (simp only: V if_True simp_thms)
    next
      case same: True
      then have "(out, ?b) \<in> (joins ps)\<^sup>*" using partition_roots [OF f2(3) ra f2(2)] by blast
      from joined_partition [OF f2(3) this] same show ?thesis by (simp add: V [symmetric])
    qed
    have pairs: "buffer_pairs (n # names) = (out, ?b) # buffer_pairs names" by (simp add: n buffer_pairs_Cons True)
    from Cons.IH [OF p3] show ?thesis unfolding step pairs by simp
  qed
qed

section \<open>The classes\<close>

definition group_by :: "(string \<Rightarrow> string) \<Rightarrow> string list \<Rightarrow> (string \<times> string list) list \<Rightarrow> (string \<times> string list) list" where
  "group_by rho nets cl =
     foldl (\<lambda>cl net. AList.update (rho net) ((case map_of cl (rho net) of None \<Rightarrow> [] | Some ms \<Rightarrow> ms) @ [net]) cl) cl nets"

lemma uf_classes_ok:
  assumes "partition_ok parent V ps" and "set nets \<subseteq> V" and "\<And>x r. rep_of parent x r \<Longrightarrow> r = rho x"
  shows "uf_classes nets parent cl = Some (Inr (group_by rho nets cl))"
  using assms
proof (induction nets arbitrary: parent cl)
  case Nil
  then show ?case by (simp add: group_by_def)
next
  case (Cons net nets)
  have net: "net \<in> V" and rest: "set nets \<subseteq> V" using Cons.prems(2) by auto
  obtain r parent' where f: "uf_find parent net = Some (Inr (r, parent'))" "rep_of parent' net r"
      "partition_ok parent' (insert net V) ps" "\<And>y s. rep_of parent y s \<Longrightarrow> rep_of parent' y s"
    by (rule find_partition [OF Cons.prems(1), of net]) (rule that; assumption)
  have ok: "partition_ok parent' V ps" using f(3) net by (simp add: insert_absorb)
  have rho: "t = rho x" if t: "rep_of parent' x t" for x t
  proof -
    have "x \<in> V" using ok rep_of_dom [OF t] by (auto simp: partition_ok_def map_of_eq_None_iff)
    then have "map_of parent x \<noteq> None" using Cons.prems(1) by (auto simp: partition_ok_def map_of_eq_None_iff)
    moreover have "good parent" using Cons.prems(1) by (simp add: partition_ok_def)
    ultimately obtain u where u: "rep_of parent x u" using rep_exists by blast
    from rep_of_unique [OF t f(4) [OF u]] Cons.prems(3) [OF u] show ?thesis by simp
  qed
  from Cons.IH [OF ok rest rho] rho [OF f(2)] show ?case
    by (simp add: f(1) lp_bind_def group_by_def)
qed

lemma map_of_group_by:
  "map_of (group_by rho nets cl) r =
     (case filter (\<lambda>n. rho n = r) nets of [] \<Rightarrow> map_of cl r
      | ms \<Rightarrow> Some ((case map_of cl r of None \<Rightarrow> [] | Some xs \<Rightarrow> xs) @ filter (\<lambda>n. rho n = r) nets))"
proof (induction nets arbitrary: cl)
  case Nil
  then show ?case by (simp add: group_by_def)
next
  case (Cons net nets)
  let ?cl = "AList.update (rho net) ((case map_of cl (rho net) of None \<Rightarrow> [] | Some ms \<Rightarrow> ms) @ [net]) cl"
  have e: "group_by rho (net # nets) cl = group_by rho nets ?cl" by (simp add: group_by_def)
  have "map_of (group_by rho (net # nets) cl) r = (case filter (\<lambda>n. rho n = r) nets of [] \<Rightarrow> map_of ?cl r
      | ms \<Rightarrow> Some ((case map_of ?cl r of None \<Rightarrow> [] | Some xs \<Rightarrow> xs) @ filter (\<lambda>n. rho n = r) nets))"
    unfolding e by (rule Cons.IH)
  then show ?case
    by (cases "rho net = r"; cases "filter (\<lambda>n. rho n = r) nets") (simp_all add: update_conv')
qed

lemma group_by_keys: "distinct (map fst cl) \<Longrightarrow> distinct (map fst (group_by rho nets cl))"
  unfolding group_by_def by (induction nets arbitrary: cl) (simp_all add: distinct_update)

lemma map_of_groups:
  "map_of (group_by rho nets []) r = Some ms \<longleftrightarrow> ms \<noteq> [] \<and> ms = filter (\<lambda>n. rho n = r) nets"
  using map_of_group_by [of rho nets "[]" r] by (cases "filter (\<lambda>n. rho n = r) nets") auto

lemma group_members:
  "ms \<in> set (map snd (group_by rho nets [])) \<longleftrightarrow> (\<exists>n \<in> set nets. ms = filter (\<lambda>m. rho m = rho n) nets)"
proof
  assume "ms \<in> set (map snd (group_by rho nets []))"
  then obtain r where "(r, ms) \<in> set (group_by rho nets [])" by auto
  then have "map_of (group_by rho nets []) r = Some ms" using group_by_keys [of "[]" rho nets] by simp
  then have f: "filter (\<lambda>n. rho n = r) nets = ms" "ms \<noteq> []" unfolding map_of_groups by blast+
  from f have "filter (\<lambda>n. rho n = r) nets \<noteq> []" by (simp only: not_False_eq_True)
  then obtain n where "n \<in> set nets" "rho n = r" unfolding filter_empty_conv by blast
  with f show "\<exists>n \<in> set nets. ms = filter (\<lambda>m. rho m = rho n) nets" by blast
next
  assume "\<exists>n \<in> set nets. ms = filter (\<lambda>m. rho m = rho n) nets"
  then obtain n where n: "n \<in> set nets" "ms = filter (\<lambda>m. rho m = rho n) nets" by blast
  then have "ms \<noteq> []" by (auto simp: filter_empty_conv)
  with n have "map_of (group_by rho nets []) (rho n) = Some ms" unfolding map_of_groups by blast
  then show "ms \<in> set (map snd (group_by rho nets []))" by (force dest: map_of_SomeD)
qed

definition spread :: "(string \<rightharpoonup> string list) \<Rightarrow> string list list \<Rightarrow> (string \<rightharpoonup> string list)" where
  "spread d mss = foldl (\<lambda>d ms. foldl (\<lambda>d net. d(net \<mapsto> sort ms)) d ms) d mss"

lemma spread_lookup:
  "spread d mss net = (case filter (\<lambda>ms. net \<in> set ms) mss of [] \<Rightarrow> d net | x # xs \<Rightarrow> Some (sort (last (x # xs))))"
proof (induction mss rule: rev_induct)
  case Nil
  then show ?case by (simp add: spread_def)
next
  case (snoc ms mss)
  have inner: "foldl (\<lambda>d net. d(net \<mapsto> v)) d xs net = (if net \<in> set xs then Some v else d net)" for v d and xs :: "string list"
    by (induction xs arbitrary: d) auto
  have "spread d (mss @ [ms]) net = (if net \<in> set ms then Some (sort ms) else spread d mss net)"
    by (simp add: spread_def inner)
  with snoc show ?case by (auto split: list.splits)
qed

lemma buffer_classes_ok:
  "\<exists>cls. buffer_classes names = Some (Inr cls)
     \<and> (\<forall>net. cls net = (if net \<in> ends (buffer_pairs names)
          then Some (sorted_list_of_set {m. (net, m) \<in> (joins (buffer_pairs names))\<^sup>*}) else None))"
proof -
  let ?ps = "buffer_pairs names"
  have "partition_ok [] (ends []) []"
    by (auto simp: partition_ok_def good_def ends_def same_rep_def rep_of_def)
  from uf_union_ok [OF this, of names] obtain parent where u: "uf_union names [] = Some (Inr parent)"
    and ok: "partition_ok parent (ends ?ps) ?ps" by auto
  define rho where "rho x = (SOME r. rep_of parent x r)" for x
  have rho: "r = rho x" if "rep_of parent x r" for x r
    unfolding rho_def by (rule some_equality [symmetric]) (use that rep_of_unique in blast)+
  let ?nets = "map fst parent" and ?cl = "group_by rho (map fst parent) []"
  from ok have V: "set ?nets = ends ?ps" and dist: "distinct ?nets" and g: "good parent"
    by (auto simp: partition_ok_def good_def)
  have c: "uf_classes ?nets parent [] = Some (Inr ?cl)"
    by (rule uf_classes_ok [OF ok _ rho]) (simp_all add: V [symmetric])
  let ?cls = "spread Map.empty (map snd ?cl)"
  have run: "buffer_classes names = Some (Inr ?cls)"
    by (simp add: buffer_classes_def u c lp_bind_def spread_def)
  have same: "rho m = rho n \<longleftrightarrow> (n, m) \<in> (joins ?ps)\<^sup>*" if "n \<in> ends ?ps" "m \<in> ends ?ps" for n m
  proof -
    have "\<exists>r. rep_of parent n r" "\<exists>r. rep_of parent m r"
      using rep_exists [OF g, of n] rep_exists [OF g, of m] that V by (auto simp: map_of_eq_None_iff)
    then obtain rn rm where "rep_of parent n rn" "rep_of parent m rm" by blast
    with partition_roots [OF ok this] rho show ?thesis by metis
  qed
  have "?cls net = (if net \<in> ends ?ps then Some (sorted_list_of_set {m. (net, m) \<in> (joins ?ps)\<^sup>*}) else None)" for net
  proof (cases "net \<in> ends ?ps")
    case False
    then have "filter (\<lambda>ms. net \<in> set ms) (map snd ?cl) = []"
      using V by (auto simp: filter_empty_conv group_members simp del: set_map dest!: group_members [THEN iffD1])
    with False show ?thesis by (simp add: spread_lookup)
  next
    case True
    let ?ms = "filter (\<lambda>m. rho m = rho net) ?nets"
    have only: "ms = ?ms" if "ms \<in> set (map snd ?cl)" "net \<in> set ms" for ms
      using that unfolding group_members by auto
    have mem: "?ms \<in> set (map snd ?cl)" "net \<in> set ?ms"
      unfolding group_members using True V by auto
    have "filter (\<lambda>ms. net \<in> set ms) (map snd ?cl) \<noteq> []" unfolding filter_empty_conv using mem by blast
    then obtain x xs where f: "filter (\<lambda>ms. net \<in> set ms) (map snd ?cl) = x # xs"
      unfolding neq_Nil_conv by blast
    have "last (x # xs) \<in> set (filter (\<lambda>ms. net \<in> set ms) (map snd ?cl))" unfolding f by (rule last_in_set) simp
    then have "last (x # xs) = ?ms" using only by (simp only: set_filter mem_Collect_eq)
    then have "?cls net = Some (sort ?ms)" by (simp add: spread_lookup f)
    moreover have "set ?ms = {m. (net, m) \<in> (joins ?ps)\<^sup>*}"
    proof -
      have "m \<in> ends ?ps" if "(net, m) \<in> (joins ?ps)\<^sup>*" for m
        using joins_isolated [OF _ sym_joins [OF that]] True by blast
      with same [OF True] V show ?thesis by auto
    qed
    moreover have "sort ?ms = sorted_list_of_set (set ?ms)"
      using dist by (metis distinct_filter distinct_sort set_sort sorted_list_of_set.idem_if_sorted_distinct sorted_sort)
    ultimately show ?thesis using True by simp
  qed
  with run show ?thesis by blast
qed

end
