(* ===== verification/Bitgen_Props.thy ===== *)
theory Bitgen_Props
  imports Bitgen_Deploy Bitgen_Next Bitgen_Buffers
begin

text \<open>
  The properties of the bitstream mapper: the solver, the tiles it builds and what they compute, the
  frames, the buffer classes and the errors. The witnesses use a cluster with three LUTs: an AND of
  two external nets, an OR of its output and a third external net, and a register that toggles
  with the OR.
\<close>

section \<open>A cluster\<close>

definition sample_lut :: "string \<Rightarrow> xml" where
  "sample_lut n = Elem ''block'' [(''name'', n), (''instance'', ''lut[0]'')] None
     [Elem ''outputs'' [] None [Elem ''port'' [(''name'', ''out'')] (Some (n @ '' '')) []]]"

definition sample_fle :: "string \<Rightarrow> xml list \<Rightarrow> xml" where
  "sample_fle i kids = Elem ''block'' [(''instance'', i), (''mode'', ''n1_lut4'')] None
     [Elem ''block'' [(''instance'', ''ble4[0]'')] None kids]"

definition sample_ff :: xml where
  "sample_ff = Elem ''block'' [(''name'', ''q''), (''instance'', ''ff[0]'')] None
     [Elem ''outputs'' [] None [Elem ''port'' [(''name'', ''Q'')] (Some ''q'') []]]"

definition sample_fles :: "(nat \<times> xml) list" where
  "sample_fles = [(0, sample_fle ''fle[0]'' [sample_lut ''x'']), (1, sample_fle ''fle[1]'' [sample_lut ''y'']),
     (2, sample_fle ''fle[2]'' [sample_lut ''d'', sample_ff])]"

definition sample_clb :: xml where
  "sample_clb = Elem ''block'' [(''name'', ''y''), (''instance'', ''clb[0]''), (''mode'', ''default'')] None
     (map snd sample_fles)"

definition sample_names :: "(string \<times> cover) list" where
  "sample_names = [(''x'', ([''a'', ''b''], [(''11'', 1)])), (''y'', ([''x'', ''c''], [(''1-'', 1), (''-1'', 1)])),
     (''d'', ([''y'', ''q''], [(''10'', 1), (''01'', 1)]))]"

definition sample_choice :: "nat \<Rightarrow> string \<Rightarrow> nat" where
  "sample_choice gi net = (if net = ''b'' then 1 else 0)"

lemma sample_ok: "clb_ok sample_names (\<lambda>n. n) sample_clb sample_fles"
  by code_simp

lemma sample_ext: "tile_ext sample_names (\<lambda>n. n) sample_fles = [(0, [''a'', ''b'']), (1, [''c''])]"
  by code_simp

lemma sample_order: "lut_order sample_names (\<lambda>n. n) sample_fles (\<lambda>gi. gi)"
  by code_simp

lemma card_of_list: "A \<subseteq> set xs \<Longrightarrow> length xs \<le> n \<Longrightarrow> card A \<le> n"
  by (meson List.finite_set card_length card_mono order_trans)

lemma slots_small:
  assumes "\<forall>(gi, nets) \<in> set luts. length nets \<le> 2 \<and> (\<forall>net \<in> set nets. cls gi net < 2)"
  shows "slots_ok 2 luts cls"
  unfolding slots_ok_def
proof (clarify, intro conjI allI impI)
  fix gi nets c assume l: "(gi, nets) \<in> set luts"
  with assms show "\<forall>net \<in> set nets. cls gi net < 2" by blast
  from l assms have "length nets \<le> 2" by blast
  then show "card {net \<in> set nets. cls gi net = c} \<le> 2" by (intro card_of_list [of _ nets]) auto
qed

lemma sample_solution: "solution 9 2 (tile_ext sample_names (\<lambda>n. n) sample_fles) sample_choice"
proof -
  have "slots_ok 2 [(0, [''a'', ''b'']), (1, [''c''])] sample_choice"
    by (rule slots_small) (simp add: sample_choice_def)
  moreover have "card (class_nets [(0, [''a'', ''b'']), (1, [''c''])] sample_choice cl) \<le> 9" for cl
    by (rule card_of_list [of _ "[''a'', ''b'', ''c'']"]) (auto simp: class_nets_def)
  ultimately show ?thesis by (simp add: solution_def sample_ext)
qed

section \<open>The solver\<close>

text \<open>C16: \<open>_solve_iib_classes\<close> is exact. It never raises: what the search undoes is always there. It
  returns \<open>None\<close> only when no choice of pin classes keeps the slots of every LUT and the pins of every
  class; otherwise it returns such a choice, for exactly the nets of the LUTs, with the nets of
  the cluster recorded under the classes they are chosen in.\<close>

theorem solver_exact:
  assumes "lut_keys_ok luts"
  shows "case solve_iib_classes luts pb slots of
      Inl e \<Rightarrow> False
    | Inr None \<Rightarrow> \<nexists>cls. solution pb slots luts cls
    | Inr (Some (classes, ncs)) \<Rightarrow>
        \<exists>cls. solution pb slots luts cls \<and> classes = chosen luts cls \<and> (\<forall>c < 2. held ncs c = class_nets luts cls c)"
  using assms by (cases rule: solve_cases [where pb = pb and slots = slots]) auto

text \<open>Three nets of a LUT do not fit one slot of either class.\<close>

theorem solver_exact_witness:
  "\<nexists>cls. solution 1 1 [(0, [''a'', ''b'', ''c''])] cls"
proof -
  have k: "lut_keys_ok [(0, [''a'', ''b'', ''c''])]" by (simp add: lut_keys_ok_def)
  have "case solve_iib_classes [(0, [''a'', ''b'', ''c''])] 1 1 of Inl e \<Rightarrow> False | Inr r \<Rightarrow> Option.is_none r" by code_simp
  with solver_exact [OF k, of 1 1] show ?thesis by (auto split: sum.splits option.splits)
qed

section \<open>Building and running a tile\<close>

text \<open>C38: for a cluster whose LUTs have at most four inputs that stay distinct nets, the pin-class
  assignment is the only thing that can fail in \<open>_build_tile\<close>: it raises \<open>RuntimeError\<close> exactly when
  the external nets of the cluster have no assignment to nine pins of either class and two slots of
  either class in every LUT, and builds a tile otherwise.\<close>

theorem build_tile_exact:
  assumes "clb_ok names canon clb fles"
  shows "case build_tile names canon clb of
      Inl e \<Rightarrow> e = Infeasible \<and> (\<nexists>cls. solution 9 2 (tile_ext names canon fles) cls)
    | Inr tile \<Rightarrow> \<exists>cls. solution 9 2 (tile_ext names canon fles) cls"
  using assms by (cases rule: build_tile_cases) auto

theorem build_tile_exact_witness: "\<exists>tile. build_tile sample_names (\<lambda>n. n) sample_clb = Inr tile"
  using build_tile_exact [OF sample_ok] sample_solution by (auto split: sum.splits)

text \<open>C15: a tile that \<open>_build_tile\<close> builds computes its netlist. When the LUTs without a register can
  be ordered so that each reads earlier ones only, \<open>simulate_tile\<close> returns a value for
  every net the cluster drives, and the values solve the equations: a registered net has the stored
  bit, any other net has its BLIF cover evaluated at the values of the input nets, the driven
  ones as computed and the external ones as given. As many sweeps as the longest chain are enough.\<close>

theorem built_tile_solves_netlist:
  assumes "clb_ok names canon clb fles" and "build_tile names canon clb = Inr tile"
    and "lut_order names canon fles r" and "\<forall>gi \<in> fst ` set fles. r gi < sweeps"
  shows "\<exists>out. simulate_tile tile input_bits ff_state sweeps = Inr out
    \<and> solves names canon fles input_bits ff_state out"
proof -
  have small: "list_all (\<lambda>(gi, fl). gi < CLB_N) fles" and d: "distinct (map fst fles)"
    using assms(1) by (simp_all add: clb_ok_def)
  from assms(1) have "tile_built names canon fles tile"
    by (cases rule: build_tile_cases) (use assms(2) in auto)
  from runs_solves [OF tile_built_runs [OF this d] assms(3) small assms(4)] show ?thesis .
qed

lemma sample_built: obtains tile where "build_tile sample_names (\<lambda>n. n) sample_clb = Inr tile"
  using sample_ok sample_solution by (cases rule: build_tile_cases) auto

lemma sample_ranks: "\<forall>gi \<in> fst ` set sample_fles. gi < (3::nat)"
  by code_simp

abbreviation sample_ins :: "string \<rightharpoonup> int" where "sample_ins \<equiv> [''a'' \<mapsto> 1, ''b'' \<mapsto> 1]"

theorem built_tile_solves_netlist_witness:
  "\<exists>tile out. build_tile sample_names (\<lambda>n. n) sample_clb = Inr tile
    \<and> simulate_tile tile sample_ins [2 \<mapsto> 1] 3 = Inr out \<and> solves sample_names (\<lambda>n. n) sample_fles sample_ins [2 \<mapsto> 1] out"
proof -
  obtain tile where b: "build_tile sample_names (\<lambda>n. n) sample_clb = Inr tile" by (rule sample_built)
  from built_tile_solves_netlist [OF sample_ok b sample_order sample_ranks, of sample_ins "[2 \<mapsto> 1]"] b
  show ?thesis by blast
qed

section \<open>The two evaluators\<close>

lemma settled_bits:
  assumes "same_outputs (settled tile ib ff n) bits" and "\<forall>gi \<in> fst ` set (tl_eluts tile). gi < CLB_N"
  shows "settled tile ib ff n = (\<lambda>g. if g < length bits then Some (bits ! g) else None)"
proof
  fix g
  show "settled tile ib ff n g = (if g < length bits then Some (bits ! g) else None)"
  proof (cases "g < 8")
    case True
    with assms(1) show ?thesis by (simp add: same_outputs_def)
  next
    case False
    with assms(2) have "g \<notin> fst ` set (tl_eluts tile)" by auto
    from settled_other [OF this] False assms(1) show ?thesis by (simp add: same_outputs_def)
  qed
qed

text \<open>The two evaluators of a tile agree. On input bits that match the values of the input
  nets, \<open>clb_eval_bits\<close> of the fabric simulator raises nothing and returns eight output bits, and
  \<open>simulate_tile\<close> of the tile simulator returns those bits under the names of the driven nets.\<close>

theorem evaluators_agree:
  assumes "inputs_match tile input_bits clb_in" and "\<forall>gi \<in> fst ` set (tl_eluts tile). gi < CLB_N"
  shows "\<exists>bits. clb_eval_bits tile clb_in ff_state = Inr bits \<and> length bits = CLB_N
    \<and> simulate_tile tile input_bits ff_state (CLB_N + 2)
      = driven_nets (\<lambda>g. if g < length bits then Some (bits ! g) else None) (tl_outputs tile) Map.empty"
proof -
  from clb_eval_bits_eq [OF assms] obtain bits where b: "clb_eval_bits tile clb_in ff_state = Inr bits"
    and s: "same_outputs (settled tile input_bits ff_state (CLB_N + 2)) bits" by blast
  have "simulate_tile tile input_bits ff_state (CLB_N + 2)
      = driven_nets (\<lambda>g. if g < length bits then Some (bits ! g) else None) (tl_outputs tile) Map.empty"
    unfolding simulate_tile_def settled_bits [OF s assms(2)] by (rule refl)
  with b s show ?thesis by (auto simp: same_outputs_def)
qed

definition inverter_tile :: tile_logic where
  "inverter_tile = \<lparr>tl_eluts = [(0, new_elut 0x5555 False), (1, new_elut 0xAAAA True)], tl_iib_mux = [(0, 0) \<mapsto> 16, (1, 0) \<mapsto> 0],
     tl_inputs = map (\<lambda>i. (i, if i = 0 then Some ''a'' else None)) [0..<18], tl_outputs = [(0, Some ''x''), (1, Some ''y'')]\<rparr>"

definition inverter_ins :: "int list" where
  "inverter_ins = 0 # replicate 17 0"

lemma inverter_match: "inputs_match inverter_tile [''a'' \<mapsto> 0] inverter_ins"
  by code_simp

lemma inverter_keys: "\<forall>gi \<in> fst ` set (tl_eluts inverter_tile). gi < CLB_N"
  by code_simp

theorem evaluators_agree_witness:
  "clb_eval_bits inverter_tile inverter_ins [1 \<mapsto> 1] = Inr [1, 1, 0, 0, 0, 0, 0, 0]
   \<and> simulate_tile inverter_tile [''a'' \<mapsto> 0] [1 \<mapsto> 1] 10
     = driven_nets (\<lambda>g. if g < 8 then Some ([1, 1, 0, 0, 0, 0, 0, 0] ! g) else None) (tl_outputs inverter_tile) Map.empty"
proof -
  have b: "clb_eval_bits inverter_tile inverter_ins [1 \<mapsto> 1] = Inr [1, 1, 0, 0, 0, 0, 0, 0]" by code_simp
  with evaluators_agree [OF inverter_match inverter_keys, of "[1 \<mapsto> 1]"] show ?thesis by (simp add: eval_nat_numeral)
qed

text \<open>C36: on a built tile \<open>clb_ff_next\<close> captures the netlist. After \<open>clb_eval_bits\<close>, every
  registered LUT has as its next bit its BLIF cover at the values of the nets, those the
  cluster drives as \<open>simulate_tile\<close> reports them and the others as given.\<close>

theorem next_registers_are_covers:
  assumes ok: "clb_ok names canon clb fles" and built: "build_tile names canon clb = Inr tile"
    and ins: "inputs_match tile input_bits clb_in"
  shows "\<exists>bits nxt out. clb_eval_bits tile clb_in ff_state = Inr bits \<and> clb_ff_next tile clb_in bits = Inr nxt
    \<and> simulate_tile tile input_bits ff_state (CLB_N + 2) = Inr out
    \<and> (\<forall>(gi, fl) \<in> set fles. map_of nxt gi =
         (if fle_ff_used fl then Some (of_bool (cover_bit canon (tile_cover names fles gi fl) (net_bit input_bits out)))
          else None))"
proof -
  from ok have small: "list_all (\<lambda>(gi, fl). gi < CLB_N) fles" and d: "distinct (map fst fles)"
    by (simp_all add: clb_ok_def)
  from ok have tb: "tile_built names canon fles tile"
    by (cases rule: build_tile_cases) (use built in auto)
  from clb_eval_bits_eq [OF ins built_eluts [OF tb small]] obtain bits where b: "clb_eval_bits tile clb_in ff_state = Inr bits"
    and s: "same_outputs (settled tile input_bits ff_state (CLB_N + 2)) bits" by blast
  let ?out = "driven_out fles (settled tile input_bits ff_state (CLB_N + 2))"
  have sim: "simulate_tile tile input_bits ff_state (CLB_N + 2) = Inr ?out"
    unfolding driven_out_def by (rule simulate_runs [OF tile_built_runs [OF tb d] small])
  obtain nxt where nxt: "clb_ff_next tile clb_in bits = Inr nxt" and "distinct (map fst nxt)"
    and covers: "\<And>gi fl. (gi, fl) \<in> set fles \<Longrightarrow> map_of nxt gi =
      (if fle_ff_used fl then Some (of_bool (cover_bit canon (tile_cover names fles gi fl) (net_bit input_bits ?out))) else None)"
    by (rule built_next_bits [OF tb d small ins s]) (rule that; assumption)
  have "\<forall>(gi, fl) \<in> set fles. map_of nxt gi =
         (if fle_ff_used fl then Some (of_bool (cover_bit canon (tile_cover names fles gi fl) (net_bit input_bits ?out)))
          else None)"
    using covers by blast
  with b nxt sim show ?thesis by blast
qed

definition sample_pins :: "int list" where
  "sample_pins = replicate 18 0"

theorem next_registers_are_covers_witness:
  "\<exists>tile bits nxt. build_tile sample_names (\<lambda>n. n) sample_clb = Inr tile
    \<and> clb_eval_bits tile sample_pins Map.empty = Inr bits \<and> clb_ff_next tile sample_pins bits = Inr nxt"
proof -
  obtain tile where b: "build_tile sample_names (\<lambda>n. n) sample_clb = Inr tile" by (rule sample_built)
  have "length (tl_inputs tile) = 18"
    using sample_ok by (cases rule: build_tile_cases) (use b in \<open>auto simp: tile_built_def\<close>)
  then have "inputs_match tile Map.empty sample_pins"
    by (auto simp: inputs_match_def sample_pins_def list_all_iff split: option.split)
  from next_registers_are_covers [OF sample_ok b this, of Map.empty] b show ?thesis by blast
qed

section \<open>Nets joined by buffers\<close>

text \<open>C39: \<open>_buffer_classes\<close> always ends, although its loops follow parent links that are rewritten as
  they go, and raises nothing. A net that some buffer touches gets the sorted list of the nets
  that a chain of buffers, read in either direction, joins to it; any other net has no class.\<close>

theorem buffer_classes_are_components:
  "\<exists>cls. buffer_classes names = Some (Inr cls)
     \<and> (\<forall>net. cls net = (if net \<in> ends (buffer_pairs names)
          then Some (sorted_list_of_set {m. (net, m) \<in> (joins (buffer_pairs names))\<^sup>*}) else None))"
  by (rule buffer_classes_ok)

section \<open>Frames\<close>

text \<open>What a tile read from frames has in common with the tile packed: every select, and every
  eLUT with a word that is not zero, its table cut to 16 bits; no net names.\<close>

definition carried :: "tile_logic \<Rightarrow> tile_logic \<Rightarrow> bool" where
  "carried tile tile' \<longleftrightarrow>
     (\<forall>gi < CLB_N. \<forall>gk < CLB_K. sel_of tile' gi gk = sel_of tile gi gk)
     \<and> (\<forall>i. map_of (tl_eluts tile') i =
          (if i < CLB_N then (case map_of (tl_eluts tile) i of None \<Rightarrow> None
             | Some ec \<Rightarrow> if elut_cfg_word ec = 0 then None else Some (ec\<lparr>ec_tt := take_bit 16 (ec_tt ec)\<rparr>))
           else None))
     \<and> tl_inputs tile' = [] \<and> tl_outputs tile' = []"

lemma carried_frame_tile: "carried tile (frame_tile tile)"
  unfolding carried_def
  by (auto simp: frame_tile_sel frame_tile_elut elut_from_cfg split: option.split)
    (simp_all add: frame_tile_def read_tile_nets)

lemma frame_tile_empty: "frame_tile empty_tile = empty_tile"
proof -
  have "frame_tile empty_tile = config_points_to_tile CLB_N CLB_K Map.empty"
    unfolding frame_tile_def by (rule read_tile_cong) (simp_all only: empty_config_points, simp_all add: point_or_0_def)
  then show ?thesis by (simp only: read_empty)
qed

text \<open>C37: \<open>db_to_frames\<close> succeeds exactly for a database with tiles whose selects fit five bits, and
  \<open>frames_to_db\<close> at the corner of the box inverts it: over the whole bounding box, and nowhere else,
  there is a tile, it carries the tile that was packed there, and it is empty where there was none.\<close>

theorem frames_carry_the_database:
  "if db_tiles db = [] \<or> (\<exists>p tile. map_of (db_tiles db) p = Some tile \<and> \<not> selects_fit tile)
   then \<exists>e. db_to_frames db = Inl e
   else \<exists>frames fm x0 y0 x1 y1 db'. db_to_frames db = Inr (frames, fm)
     \<and> db_grid_bounds db = Inr (x0, y0, x1, y1) \<and> frames_to_db frames fm x0 y0 = Inr db'
     \<and> (\<forall>x y. case map_of (db_tiles db') (x, y) of
          None \<Rightarrow> x < x0 \<or> x1 < x \<or> y < y0 \<or> y1 < y
        | Some tile' \<Rightarrow> x0 \<le> x \<and> x \<le> x1 \<and> y0 \<le> y \<and> y \<le> y1
            \<and> (case map_of (db_tiles db) (x, y) of None \<Rightarrow> tile' = empty_tile | Some tile \<Rightarrow> carried tile tile'))"
proof (cases "db_tiles db = []")
  case True
  then show ?thesis by (simp add: db_to_frames_def db_grid_bounds_def)
next
  case False
  then obtain x0 y0 x1 y1 where b: "db_grid_bounds db = Inr (x0, y0, x1, y1)" using grid_bounds_ok by blast
  from b show ?thesis
  proof (cases rule: db_to_frames_cases)
    case (bad e)
    then show ?thesis by auto
  next
    case (packed frames fm db')
    have "case map_of (db_tiles db') (x, y) of
          None \<Rightarrow> x < x0 \<or> x1 < x \<or> y < y0 \<or> y1 < y
        | Some tile' \<Rightarrow> x0 \<le> x \<and> x \<le> x1 \<and> y0 \<le> y \<and> y \<le> y1
            \<and> (case map_of (db_tiles db) (x, y) of None \<Rightarrow> tile' = empty_tile | Some tile \<Rightarrow> carried tile tile')" for x y
      using grid_bounds(2,3) [OF b]
      by (auto simp: packed(4) logic_cell_def read_empty carried_frame_tile simp flip: frame_tile_def split: option.split)
    with packed(1-3) b False show ?thesis by auto
  qed
qed

text \<open>C6: the whole trip of a demo image. When the placed box fits the target, the selects and
  routes of the database fit their points, and the tile at \<open>(x, y)\<close> was built from a cluster with
  ordered LUTs, then \<open>pack_target_frames\<close> succeeds, \<open>unpack_attached\<close> reads its frames back, and
  the tile at the translated position still computes the netlist of the cluster.\<close>

theorem deployed_tile_solves_netlist:
  assumes fm: "clb_frame_map rows cols = Inr fm" and box: "db_grid_bounds db = Inr (x0, y0, x1, y1)"
    and fit: "x1 - x0 < int cols" "y1 - y0 < int rows"
    and sels: "\<forall>p tile. map_of (db_tiles db) p = Some tile \<longrightarrow> selects_fit tile"
    and routed: "\<forall>p rt. map_of routes p = Some rt \<longrightarrow> route_fits rt" and d: "distinct (map fst (db_tiles db))"
    and ok: "clb_ok names canon clb fles" and built: "build_tile names canon clb = Inr tile"
    and placed: "map_of (db_tiles db) (x, y) = Some tile"
    and order: "lut_order names canon fles r" "\<forall>gi \<in> fst ` set fles. r gi < sweeps"
  shows "\<exists>frames db2 routes2 tile2 out. pack_target_frames db routes fm = Inr (frames, (x0, y0))
    \<and> unpack_attached frames fm db (x0, y0) = Inr (db2, routes2)
    \<and> map_of (db_tiles db2) (x - x0, y - y0) = Some tile2
    \<and> simulate_tile tile2 input_bits ff_state sweeps = Inr out
    \<and> solves names canon fles input_bits ff_state out"
proof -
  from target_frames_ok [OF box fm fit routed sels] obtain frames
    where p: "pack_target_frames db routes fm = Inr (frames, (x0, y0))" by blast
  obtain db2 routes2 where u: "unpack_attached frames fm db (x0, y0) = Inr (db2, routes2)"
    and at: "map_of (db_tiles db2) (x - x0, y - y0) = Some (deployed tile)"
    using deploy_tiles [OF p fm routed d] placed by (metis fst_conv snd_conv)
  have small: "list_all (\<lambda>(gi, fl). gi < CLB_N) fles" and df: "distinct (map fst fles)"
    using ok by (simp_all add: clb_ok_def)
  from ok have "tile_built names canon fles tile"
    by (cases rule: build_tile_cases) (use built in auto)
  from runs_deployed [OF tile_built_runs [OF this df] small]
  have "tile_runs names canon fles (deployed tile)" .
  from runs_solves [OF this order(1) small order(2)] p u at show ?thesis by blast
qed

lemma built_selects_fit: "tile_built names canon fles tile \<Longrightarrow> selects_fit tile"
proof -
  assume "tile_built names canon fles tile"
  then have "\<forall>gi gk. gk < CLB_K \<longrightarrow> 0 \<le> sel_of tile gi gk \<and> sel_of tile gi gk \<le> IIB_SEL_MAX" by (simp add: tile_built_def)
  then have le: "gk < 4 \<Longrightarrow> 0 \<le> sel_of tile gi gk \<and> sel_of tile gi gk \<le> 16 OR 8" for gi gk by blast
  have "(16 OR 8 :: int) < 32" by code_simp
  with le show ?thesis unfolding selects_fit_def by (meson order_le_less_trans)
qed

theorem deployed_tile_solves_netlist_witness:
  "\<exists>fm tile frames db2 routes2 tile2 out. clb_frame_map 2 2 = Inr fm \<and> build_tile sample_names (\<lambda>n. n) sample_clb = Inr tile
    \<and> pack_target_frames (empty_db\<lparr>db_tiles := [((1, 1), tile)]\<rparr>) [] fm = Inr (frames, (1, 1))
    \<and> unpack_attached frames fm (empty_db\<lparr>db_tiles := [((1, 1), tile)]\<rparr>) (1, 1) = Inr (db2, routes2)
    \<and> map_of (db_tiles db2) (0, 0) = Some tile2
    \<and> simulate_tile tile2 sample_ins [2 \<mapsto> 1] 3 = Inr out \<and> solves sample_names (\<lambda>n. n) sample_fles sample_ins [2 \<mapsto> 1] out"
proof -
  obtain fm where fm: "clb_frame_map 2 2 = Inr fm" using clb_frame_map_ok by blast
  obtain tile where b: "build_tile sample_names (\<lambda>n. n) sample_clb = Inr tile" by (rule sample_built)
  let ?db = "empty_db\<lparr>db_tiles := [((1, 1), tile)]\<rparr>"
  have box: "db_grid_bounds ?db = Inr (1, 1, 1, 1)" by (simp add: db_grid_bounds_def)
  have "tile_built sample_names (\<lambda>n. n) sample_fles tile"
    using sample_ok by (cases rule: build_tile_cases) (use b in auto)
  then have sels: "\<forall>p t. map_of (db_tiles ?db) p = Some t \<longrightarrow> selects_fit t" by (auto dest: built_selects_fit split: if_splits)
  have at: "map_of (db_tiles ?db) (1, 1) = Some tile" and d: "distinct (map fst (db_tiles ?db))" by simp_all
  have fit: "(1 :: int) - 1 < int 2" by simp
  have routed: "\<forall>p rt. map_of ([] :: routes) p = Some rt \<longrightarrow> route_fits rt" by simp
  from deployed_tile_solves_netlist [OF fm box fit fit sels routed d sample_ok b at sample_order sample_ranks, of sample_ins "[2 \<mapsto> 1]"]
    fm b show ?thesis by simp
qed

section \<open>Blocks that cannot be read\<close>

lemma hard_cell_prefix: "hard_cell_name pre s \<Longrightarrow> take (length pre) s = pre"
  by (simp add: hard_cell_name_def bracket_index_def prefixed_def split: if_splits)

lemma add_blocks_mem:
  "e \<in> set es \<Longrightarrow> hard_cell_name ''mem_2Kx32['' (el_get_or e ''instance'' [])
     \<Longrightarrow> el_get e ''name'' = Some n \<Longrightarrow> map_of cluster_pos n = Some p
     \<Longrightarrow> add_blocks names canon cluster_pos es db \<noteq> Inr db'"
proof (induction es arbitrary: db)
  case Nil
  then show ?case by simp
next
  case (Cons x es)
  show ?case
  proof (cases "x = e")
    case True
    from hard_cell_prefix [OF Cons.prems(2)] obtain t where t: "el_get_or e ''instance'' [] = ''mem_2Kx32['' @ t"
      by (metis append_take_drop_id)
    then have "\<not> is_clb e" by (simp add: is_clb_def prefixed_def)
    moreover have "\<not> hard_cell_name ''mult_27x18['' (el_get_or e ''instance'' [])"
      using hard_cell_prefix [of "''mult_27x18[''" "el_get_or e ''instance'' []"] by (auto simp: t)
    ultimately show ?thesis
      using Cons.prems(2-4) by (simp add: True parse_mem_def Let_def)
  next
    case False
    with Cons.prems(1) have "e \<in> set es" by simp
    from Cons.IH [OF this Cons.prems(2-4)] show ?thesis
      by (auto simp: Let_def res_bind_Inr_iff split: option.splits)
  qed
qed

text \<open>A netlist with a placed memory block has no database. \<open>build_db\<close> raises on the block
  whatever the block holds and whatever surrounds it, because the path its reader searches is not
  one that the XML library accepts.\<close>

theorem memory_block_rejected:
  assumes "e \<in> set (el_kids root)" and "hard_cell_name ''mem_2Kx32['' (el_get_or e ''instance'' [])"
    and "el_get e ''name'' = Some n" and "map_of (parse_place place_text) n = Some p"
  shows "build_db root place_text blif_text \<noteq> Some (Inr db)"
proof -
  have "add_blocks names canon (parse_place place_text) (el_kids root) db0 \<noteq> Inr db" for names canon db0
    by (rule add_blocks_mem [OF assms])
  then show ?thesis
    by (auto simp: build_db_def lp_bind_def Let_def split: sum.splits option.splits prod.splits)
qed

definition sample_mem :: xml where
  "sample_mem = Elem ''block'' [(''name'', ''m''), (''instance'', ''mem_2Kx32[1]'')] None []"

theorem memory_block_rejected_witness:
  "build_db (Elem ''block'' [] None [sample_mem]) ''m 2 3'' ''.names a b'' \<noteq> Some (Inr empty_db)"
proof -
  have "hard_cell_name ''mem_2Kx32['' (el_get_or sample_mem ''instance'' [])"
    "el_get sample_mem ''name'' = Some ''m''" "map_of (parse_place ''m 2 3'') ''m'' = Some (2, 3)" by code_simp+
  from memory_block_rejected [OF _ this, of "Elem ''block'' [] None [sample_mem]"] show ?thesis by simp
qed

text \<open>A LUT two of whose inputs are joined by a buffer: the demand keeps one position of the net, and
  the table is expanded as if the other input were 0. The AND of a net with its own copy reads 0
  where the cover is 1.\<close>

definition twin_fles :: "(nat \<times> xml) list" where
  "twin_fles = [(0, sample_fle ''fle[0]'' [sample_lut ''x''])]"

definition twin_clb :: xml where
  "twin_clb = Elem ''block'' [(''name'', ''x''), (''instance'', ''clb[0]''), (''mode'', ''default'')] None (map snd twin_fles)"

definition twin_names :: "(string \<times> cover) list" where
  "twin_names = [(''x'', ([''a'', ''a2''], [(''11'', 1)])), (''a2'', ([''a''], [(''1'', 1)]))]"

lemma joined_inputs_lost:
  "case build_tile twin_names (\<lambda>n. if n = ''a2'' then ''a'' else n) twin_clb of
     Inl e \<Rightarrow> False
   | Inr tile \<Rightarrow> (case simulate_tile tile [''a'' \<mapsto> 1, ''a2'' \<mapsto> 1] Map.empty 10 of
       Inl e \<Rightarrow> False | Inr out \<Rightarrow> out ''x'' = Some 0)"
  "cover_bit (\<lambda>n. if n = ''a2'' then ''a'' else n) (Some ([''a'', ''a2''], [(''11'', 1)])) (\<lambda>n. True)"
  by code_simp+

end
