(* ===== verification/Fabric_Run_Props.thy ===== *)
theory Fabric_Run_Props
  imports Fabric_Total Bitgen_Props
begin

text \<open>
  The properties of the router and of the fabric simulator. The witnesses use two clusters side by
  side: an AND of two inputs, and a register that captures the inverse of its output.
\<close>

section \<open>A design of two clusters\<close>

definition pair_fles :: "nat \<Rightarrow> (nat \<times> xml) list" where
  "pair_fles k = [(0, sample_fle ''fle[0]'' (if k = 0 then [sample_lut ''x''] else [sample_lut ''d'', sample_ff]))]"

definition pair_clb :: "nat \<Rightarrow> xml" where
  "pair_clb k = Elem ''block'' [(''name'', ''c''), (''instance'', ''clb[0]''), (''mode'', ''default'')] None (map snd (pair_fles k))"

definition pair_names :: "(string \<times> cover) list" where
  "pair_names = [(''x'', ([''a'', ''b''], [(''11'', 1)])), (''d'', ([''x''], [(''0'', 1)]))]"

definition pair_tile :: "nat \<Rightarrow> tile_logic" where
  "pair_tile k = (case build_tile pair_names (\<lambda>n. n) (pair_clb k) of Inl _ \<Rightarrow> empty_tile | Inr tile \<Rightarrow> tile)"

definition pair_db :: fabric_db where
  "pair_db = empty_db\<lparr>db_tiles := [((0, 0), pair_tile 0), ((1, 0), pair_tile 1)], db_outputs := [''q'']\<rparr>"

definition pair_clusters :: "placed_cluster list" where
  "pair_clusters = [((0, 0), pair_clb 0, pair_fles 0, \<lambda>_. 0), ((1, 0), pair_clb 1, pair_fles 1, \<lambda>_. 0)]"

definition no_shuffle :: "nat \<Rightarrow> route_net_t list \<Rightarrow> route_net_t list" where
  "no_shuffle it ns = ns"

lemma no_shuffle_permutes: "permutes_nets no_shuffle"
  by (simp add: permutes_nets_def no_shuffle_def)

definition pair_rc :: route_config where
  "pair_rc = (case route no_shuffle pair_db 5 1 1 CLB_EXT_IN of Some (Inr rc) \<Rightarrow> rc | _ \<Rightarrow> route_start [] (0, 0, 0, 0, 0))"

definition pair_sim :: fabric_sim where
  "pair_sim = (case fabric_sim_init pair_db (rc_tiles pair_rc) 0 0 1 1 CLB_EXT_IN of Inr sim \<Rightarrow> sim
     | Inl _ \<Rightarrow> \<lparr>fs_db = pair_db, fs_rc = [], fs_min = (0, 0), fs_W = 0, fs_N = 0, fs_EXT_IN = 0, fs_R = 0, fs_C = 0, fs_tiles = [],
                fs_po_taps = [], fs_last_iters = 0, fs_converged = False, fs_last_ff_next = []\<rparr>)"

abbreviation pair_ins :: "string \<rightharpoonup> int" where
  "pair_ins \<equiv> [''a'' \<mapsto> 1, ''b'' \<mapsto> 0]"

lemma pair_built: "\<exists>tile. build_tile pair_names (\<lambda>n. n) (pair_clb k) = Inr tile" if "k < 2" for k
proof -
  have "case build_tile pair_names (\<lambda>n. n) (pair_clb 0) of Inl _ \<Rightarrow> False | Inr _ \<Rightarrow> True"
    "case build_tile pair_names (\<lambda>n. n) (pair_clb 1) of Inl _ \<Rightarrow> False | Inr _ \<Rightarrow> True" by code_simp+
  with that show ?thesis by (auto simp: less_2 split: sum.splits)
qed

lemma pair_ready: "design_ready pair_names (\<lambda>n. n) pair_clusters pair_db"
proof -
  have "clb_ok pair_names (\<lambda>n. n) (pair_clb 0) (pair_fles 0)" "clb_ok pair_names (\<lambda>n. n) (pair_clb 1) (pair_fles 1)"
    "lut_order pair_names (\<lambda>n. n) (pair_fles 0) (\<lambda>_. 0)" "lut_order pair_names (\<lambda>n. n) (pair_fles 1) (\<lambda>_. 0)"
    by code_simp+
  moreover have "build_tile pair_names (\<lambda>n. n) (pair_clb k) = Inr (pair_tile k)" if "k < 2" for k
    using pair_built [OF that] by (auto simp: pair_tile_def)
  ultimately show ?thesis by (simp add: design_ready_def pair_clusters_def pair_db_def cluster_ready_def list_all_iff)
qed

lemma pair_box: "db_grid_bounds pair_db = Inr (0, 0, 1, 0)"
  by code_simp

lemma pair_route: "route no_shuffle pair_db 5 1 1 CLB_EXT_IN = Some (Inr pair_rc)"
proof -
  have "case route no_shuffle pair_db 5 1 1 CLB_EXT_IN of Some (Inr rc) \<Rightarrow> True | _ \<Rightarrow> False" by code_simp
  then show ?thesis by (auto simp: pair_rc_def split: option.splits sum.splits)
qed

lemma pair_full: "fully_routed pair_rc"
  by code_simp

lemma pair_single: "single_drivers pair_db 0 0"
  by code_simp

lemma pair_given: "inputs_given pair_db 0 0 pair_ins"
  by code_simp

lemma pair_init: "fabric_sim_init pair_db (rc_tiles pair_rc) 0 0 1 1 CLB_EXT_IN = Inr pair_sim"
proof -
  have "case fabric_sim_init pair_db (rc_tiles pair_rc) 0 0 1 1 CLB_EXT_IN of Inr _ \<Rightarrow> True | Inl _ \<Rightarrow> False" by code_simp
  then show ?thesis by (auto simp: pair_sim_def split: sum.splits)
qed

section \<open>The design on the fabric\<close>

text \<open>\<open>fabric_solves\<close>: the values \<open>v\<close> of the nets are those of the inputs, solve the equations of every LUT of
  every cluster, with the register bits of its place, and give the result, which has every output
  of the design that a cluster drives.\<close>

definition fabric_solves ::
  "(string \<times> cover) list \<Rightarrow> (string \<Rightarrow> string) \<Rightarrow> placed_cluster list \<Rightarrow> fabric_db \<Rightarrow> int \<Rightarrow> int \<Rightarrow> (string \<rightharpoonup> int)
     \<Rightarrow> ((nat \<times> nat \<times> nat) \<times> int) list option \<Rightarrow> (string \<times> int) list \<Rightarrow> (string \<Rightarrow> bool) \<Rightarrow> bool" where
  "fabric_solves names canon clusters db x0 y0 pi_values ff result v \<longleftrightarrow>
     (\<forall>n b. pi_values n = Some b \<longrightarrow> v n = odd b)
     \<and> (\<forall>((x, y), _, fles, _) \<in> set clusters. lut_equations names canon fles (ff_of ff (nat (y - y0)) (nat (x - x0))) v)
     \<and> (\<forall>(po, b) \<in> set result. \<exists>n. b = of_bool (v n) \<and> (n = po \<and> po \<in> set (db_outputs db) \<or> alias_of db n = Some po))
     \<and> (\<forall>n \<in> set (db_outputs db). net_drivers db x0 y0 n \<noteq> [] \<longrightarrow> n \<in> fst ` set result)"

definition next_state ::
  "(string \<times> cover) list \<Rightarrow> (string \<Rightarrow> string) \<Rightarrow> placed_cluster list \<Rightarrow> int \<Rightarrow> int \<Rightarrow> (string \<Rightarrow> bool)
     \<Rightarrow> ((nat \<times> nat \<times> nat) \<times> int) list \<Rightarrow> bool" where
  "next_state names canon clusters x0 y0 v nxt \<longleftrightarrow>
     (\<forall>((x, y), _, fles, _) \<in> set clusters. captures names canon fles v (\<lambda>gi. map_of nxt (nat (y - y0), nat (x - x0), gi)))"

lemma design_solves:
  assumes perm: "permutes_nets shuffle" and box: "db_grid_bounds db = Inr (x0, y0, x1, y1)"
    and run: "route shuffle db max_iters W N CLB_EXT_IN = Some (Inr rc)" and full: "fully_routed rc"
    and ready: "design_ready names canon clusters db" and single: "single_drivers db x0 y0" and dims: "1 \<le> W" "N \<le> W"
  shows "\<exists>sim. fabric_sim_init db (rc_tiles rc) x0 y0 W N CLB_EXT_IN = Inr sim
    \<and> (\<forall>sim1 pi_values fuel ff result sim'. after_runs sim sim1 \<longrightarrow> inputs_given db x0 y0 pi_values \<longrightarrow>
         evaluate sim1 pi_values fuel ff = Inr (result, sim') \<longrightarrow> fs_converged sim' \<longrightarrow>
         (\<exists>v. fabric_solves names canon clusters db x0 y0 pi_values ff result v
            \<and> (ff \<noteq> None \<longrightarrow> next_state names canon clusters x0 y0 v (fs_last_ff_next sim'))))"
proof -
  have ext: "1 \<le> CLB_EXT_IN" by simp
  from routed_fabric [OF perm box run full design_dicts [OF ready] single dims ext] obtain sim where
      init: "fabric_sim_init db (rc_tiles rc) x0 y0 W N CLB_EXT_IN = Inr sim"
    and del: "\<And>sim1 pi_values fuel ff result sim'. after_runs sim sim1 \<Longrightarrow> inputs_undriven db x0 y0 pi_values \<Longrightarrow>
         evaluate sim1 pi_values fuel ff = Inr (result, sim') \<Longrightarrow> fs_converged sim' \<Longrightarrow>
         \<exists>v. delivered db x0 y0 CLB_EXT_IN pi_values ff result sim' v" by blast
  have "\<exists>v. fabric_solves names canon clusters db x0 y0 pi_values ff result v
      \<and> (ff \<noteq> None \<longrightarrow> next_state names canon clusters x0 y0 v (fs_last_ff_next sim'))"
    if r: "after_runs sim sim1" and g: "inputs_given db x0 y0 pi_values"
      and e: "evaluate sim1 pi_values fuel ff = Inr (result, sim')" "fs_converged sim'" for sim1 pi_values fuel ff result sim'
  proof -
    from del [OF r given_undriven [OF g] e] obtain v where d: "delivered db x0 y0 CLB_EXT_IN pi_values ff result sim' v" by blast
    have "fabric_solves names canon clusters db x0 y0 pi_values ff result v"
      unfolding fabric_solves_def using design_runs(1) [OF ready g d] d unfolding delivered_def by blast
    moreover have "next_state names canon clusters x0 y0 v (fs_last_ff_next sim')" if "ff \<noteq> None"
      unfolding next_state_def using design_runs(2) [OF ready g d _ that] by blast
    ultimately show ?thesis by blast
  qed
  with init show ?thesis by blast
qed

text \<open>C1: a placed design runs on the fabric as its netlist says. Take clusters whose LUTs have an
  order, build their tiles with \<open>_build_tile\<close>, and route them with \<open>route\<close> so that it converges
  with every net routed. Then \<open>FabricSim\<close> accepts the database and the routes, and whenever
  \<open>evaluate\<close> converges there are values of all nets that agree with the primary inputs, solve the
  equation of every LUT in every cluster, and are what the result reports for the outputs. The route
  from a net's driver to each of its sinks, through switch boxes, channels and input selects, is
  the only thing that connects the clusters.\<close>

theorem fabric_runs_netlist:
  assumes "permutes_nets shuffle" and "db_grid_bounds db = Inr (x0, y0, x1, y1)"
    and "route shuffle db max_iters W N CLB_EXT_IN = Some (Inr rc)" and "fully_routed rc"
    and "design_ready names canon clusters db" and "single_drivers db x0 y0" and "1 \<le> W" and "N \<le> W"
  shows "\<exists>sim. fabric_sim_init db (rc_tiles rc) x0 y0 W N CLB_EXT_IN = Inr sim
    \<and> (\<forall>pi_values fuel ff result sim'. inputs_given db x0 y0 pi_values \<longrightarrow>
         evaluate sim pi_values fuel ff = Inr (result, sim') \<longrightarrow> fs_converged sim' \<longrightarrow>
         (\<exists>v. fabric_solves names canon clusters db x0 y0 pi_values ff result v))"
proof -
  from design_solves [OF assms] obtain sim where init: "fabric_sim_init db (rc_tiles rc) x0 y0 W N CLB_EXT_IN = Inr sim"
    and all: "\<forall>sim1 pi_values fuel ff result sim'. after_runs sim sim1 \<longrightarrow> inputs_given db x0 y0 pi_values \<longrightarrow>
         evaluate sim1 pi_values fuel ff = Inr (result, sim') \<longrightarrow> fs_converged sim' \<longrightarrow>
         (\<exists>v. fabric_solves names canon clusters db x0 y0 pi_values ff result v
            \<and> (ff \<noteq> None \<longrightarrow> next_state names canon clusters x0 y0 v (fs_last_ff_next sim')))" by blast
  from all after_runs_refl have "\<exists>v. fabric_solves names canon clusters db x0 y0 pi_values ff result v"
    if "inputs_given db x0 y0 pi_values" "evaluate sim pi_values fuel ff = Inr (result, sim')" "fs_converged sim'"
    for pi_values fuel ff result sim' using that by blast
  with init show ?thesis by blast
qed

theorem fabric_runs_netlist_witness:
  "\<exists>sim' v. evaluate pair_sim pair_ins 5 (Some [((0, 1, 0), 1)]) = Inr ([(''q'', 1)], sim')
     \<and> fabric_solves pair_names (\<lambda>n. n) pair_clusters pair_db 0 0 pair_ins (Some [((0, 1, 0), 1)]) [(''q'', 1)] v"
proof -
  have "case evaluate pair_sim pair_ins 5 (Some [((0, 1, 0), 1)]) of
      Inl _ \<Rightarrow> False | Inr (result, sim') \<Rightarrow> result = [(''q'', 1)] \<and> fs_converged sim'" by code_simp
  then obtain sim' where e: "evaluate pair_sim pair_ins 5 (Some [((0, 1, 0), 1)]) = Inr ([(''q'', 1)], sim')" "fs_converged sim'"
    by (auto split: sum.splits)
  from fabric_runs_netlist [OF no_shuffle_permutes pair_box pair_route pair_full pair_ready pair_single le_refl le_refl]
    pair_init pair_given e show ?thesis by auto
qed

text \<open>C7: a clock tick of the fabric is a clock step of the netlist. Start from register bits \<open>ff\<close>: when the
  evaluation before the edge and the one after it converge, \<open>tick\<close> returns as next state the cover of
  every registered LUT at net values that solve the netlist with the old bits, and as result the
  outputs of net values that solve it with the new bits.\<close>

theorem fabric_clock_step:
  assumes "permutes_nets shuffle" and "db_grid_bounds db = Inr (x0, y0, x1, y1)"
    and "route shuffle db max_iters W N CLB_EXT_IN = Some (Inr rc)" and "fully_routed rc"
    and "design_ready names canon clusters db" and "single_drivers db x0 y0" and "1 \<le> W" and "N \<le> W"
    and init: "fabric_sim_init db (rc_tiles rc) x0 y0 W N CLB_EXT_IN = Inr sim" and given: "inputs_given db x0 y0 pi_values"
    and before: "evaluate sim pi_values fuel (Some ff) = Inr (po0, sim1)" "fs_converged sim1"
    and tick: "tick sim pi_values ff fuel = Inr ((po, nxt), sim2)" "fs_converged sim2"
  shows "\<exists>v w. fabric_solves names canon clusters db x0 y0 pi_values (Some ff) po0 v
    \<and> next_state names canon clusters x0 y0 v nxt
    \<and> fabric_solves names canon clusters db x0 y0 pi_values (Some nxt) po w"
proof -
  from design_solves [OF assms(1-8)] init have
    all: "\<And>s1 f po' s2. after_runs sim s1 \<Longrightarrow> evaluate s1 pi_values fuel (Some f) = Inr (po', s2) \<Longrightarrow> fs_converged s2 \<Longrightarrow>
         \<exists>v. fabric_solves names canon clusters db x0 y0 pi_values (Some f) po' v
            \<and> next_state names canon clusters x0 y0 v (fs_last_ff_next s2)"
    using given by fastforce
  from tick(1) before(1) have n: "nxt = fs_last_ff_next sim1" and after: "evaluate sim1 pi_values fuel (Some nxt) = Inr (po, sim2)"
    by (auto simp: tick_def Let_def res_bind_Inr_iff)
  from all [OF after_runs_refl before] all [OF after_runs_evaluate [OF after_runs_refl before(1)] after tick(2)] n
  show ?thesis by blast
qed

definition pair_one :: fabric_sim where
  "pair_one = (case evaluate pair_sim pair_ins 5 (Some [((0, 1, 0), 0)]) of Inl _ \<Rightarrow> pair_sim | Inr (_, sim) \<Rightarrow> sim)"

theorem fabric_clock_step_witness:
  "\<exists>sim2 v w. tick pair_sim pair_ins [((0, 1, 0), 0)] 5 = Inr (([(''q'', 1)], [((0, 1, 0), 1)]), sim2)
     \<and> fabric_solves pair_names (\<lambda>n. n) pair_clusters pair_db 0 0 pair_ins (Some [((0, 1, 0), 0)]) [(''q'', 0)] v
     \<and> next_state pair_names (\<lambda>n. n) pair_clusters 0 0 v [((0, 1, 0), 1)]
     \<and> fabric_solves pair_names (\<lambda>n. n) pair_clusters pair_db 0 0 pair_ins (Some [((0, 1, 0), 1)]) [(''q'', 1)] w"
proof -
  have "case evaluate pair_sim pair_ins 5 (Some [((0, 1, 0), 0)]) of
      Inl _ \<Rightarrow> False | Inr (result, sim') \<Rightarrow> result = [(''q'', 0)] \<and> fs_converged sim'" by code_simp
  then obtain sim1 where e: "evaluate pair_sim pair_ins 5 (Some [((0, 1, 0), 0)]) = Inr ([(''q'', 0)], sim1)" "fs_converged sim1"
    by (auto split: sum.splits)
  have "case tick pair_sim pair_ins [((0, 1, 0), 0)] 5 of
      Inl _ \<Rightarrow> False | Inr (r, sim') \<Rightarrow> r = ([(''q'', 1)], [((0, 1, 0), 1)]) \<and> fs_converged sim'" by code_simp
  then obtain sim2 where t: "tick pair_sim pair_ins [((0, 1, 0), 0)] 5 = Inr (([(''q'', 1)], [((0, 1, 0), 1)]), sim2)" "fs_converged sim2"
    by (auto split: sum.splits)
  from fabric_clock_step [OF no_shuffle_permutes pair_box pair_route pair_full pair_ready pair_single le_refl le_refl pair_init pair_given e t] t
  show ?thesis by blast
qed

text \<open>C2: a fully routed design without a combinational loop (\<open>net_order\<close>: some level of the nets rises from the
  inputs of every unregistered LUT to its output) is computed by the fabric, whatever the primary
  inputs and the register bits. Once the fuel exceeds \<open>pass_bound\<close>, one more than the tracks and
  cluster outputs of the box, \<open>evaluate\<close> returns, reports convergence within that number of passes,
  and its outputs are read off net values that solve every LUT of the netlist; these values are the
  only solution with the same values on the nets no cluster drives. A clock tick with that fuel
  returns and converges as well, and its next state is the cover of every registered LUT at the
  solution for the old register bits.\<close>

theorem fabric_computes_netlist:
  assumes route: "permutes_nets shuffle" "db_grid_bounds db = Inr (x0, y0, x1, y1)"
      "route shuffle db max_iters W N CLB_EXT_IN = Some (Inr rc)" "fully_routed rc"
    and design: "design_ready names canon clusters db" "single_drivers db x0 y0" and dims: "1 \<le> W" "N \<le> W" "N \<le> CLB_N"
    and order: "net_order names canon clusters db x0 y0 level"
    and init: "fabric_sim_init db (rc_tiles rc) x0 y0 W N CLB_EXT_IN = Inr sim" and given: "inputs_given db x0 y0 pi_values"
    and fuel: "pass_bound (x0, y0, x1, y1) W < fuel"
  shows "\<exists>result sim' v. evaluate sim pi_values fuel ff = Inr (result, sim') \<and> fs_converged sim'
      \<and> fs_last_iters sim' \<le> pass_bound (x0, y0, x1, y1) W + 1
      \<and> fabric_solves names canon clusters db x0 y0 pi_values ff result v
      \<and> (\<forall>w. (\<forall>m. net_drivers db x0 y0 m = [] \<longrightarrow> w m = v m) \<longrightarrow> netlist_equations names canon clusters x0 y0 ff w \<longrightarrow> w = v)
      \<and> (\<forall>bits. ff = Some bits \<longrightarrow>
           (\<exists>po nxt sim2. tick sim pi_values bits fuel = Inr ((po, nxt), sim2) \<and> fs_converged sim2
              \<and> next_state names canon clusters x0 y0 v nxt))"
proof -
  note solved = design_solves [OF route design dims(1,2)] and ends = design_converges [OF route design dims order]
  have run: "\<exists>result sim'. evaluate s pi_values fuel f = Inr (result, sim') \<and> fs_converged sim'
      \<and> fs_last_iters sim' \<le> pass_bound (x0, y0, x1, y1) W + 1" if "after_runs sim s" for s f
    using ends init given fuel that by auto
  from run [OF after_runs_refl] obtain result sim' where e: "evaluate sim pi_values fuel ff = Inr (result, sim')" "fs_converged sim'"
    and n: "fs_last_iters sim' \<le> pass_bound (x0, y0, x1, y1) W + 1" by blast
  from solved init given e obtain v where v: "fabric_solves names canon clusters db x0 y0 pi_values ff result v"
    and nx: "ff \<noteq> None \<longrightarrow> next_state names canon clusters x0 y0 v (fs_last_ff_next sim')"
    using after_runs_refl by fastforce
  from v have eqs: "netlist_equations names canon clusters x0 y0 ff v" by (simp add: fabric_solves_def netlist_equations_def)
  have "w = v" if "\<forall>m. net_drivers db x0 y0 m = [] \<longrightarrow> w m = v m" "netlist_equations names canon clusters x0 y0 ff w" for w
    using solution_unique [OF design order eqs that(2)] that(1) by blast
  moreover have "\<exists>po nxt sim2. tick sim pi_values bits fuel = Inr ((po, nxt), sim2) \<and> fs_converged sim2
      \<and> next_state names canon clusters x0 y0 v nxt" if ff: "ff = Some bits" for bits
  proof -
    from run [OF after_runs_evaluate [OF after_runs_refl e(1)]] obtain po sim2
      where "evaluate sim' pi_values fuel (Some (fs_last_ff_next sim')) = Inr (po, sim2)" "fs_converged sim2" by blast
    with e(1) nx ff show ?thesis by (simp add: tick_def Let_def)
  qed
  ultimately show ?thesis using e n v by blast
qed

theorem fabric_computes_netlist_witness:
  "\<exists>result sim' v. evaluate pair_sim pair_ins 26 (Some [((0, 1, 0), 0)]) = Inr (result, sim') \<and> fs_converged sim'
     \<and> fabric_solves pair_names (\<lambda>n. n) pair_clusters pair_db 0 0 pair_ins (Some [((0, 1, 0), 0)]) result v
     \<and> (\<exists>po nxt sim2. tick pair_sim pair_ins [((0, 1, 0), 0)] 26 = Inr ((po, nxt), sim2) \<and> fs_converged sim2
          \<and> next_state pair_names (\<lambda>n. n) pair_clusters 0 0 v nxt)"
proof -
  have order: "net_order pair_names (\<lambda>n. n) pair_clusters pair_db 0 0 (\<lambda>_. 0)" by code_simp
  have fuel: "pass_bound (0, 0, 1, 0) 1 < 26" by (simp add: pass_bound_def)
  from fabric_computes_netlist [OF no_shuffle_permutes pair_box pair_route pair_full pair_ready pair_single le_refl le_refl _ order
      pair_init pair_given fuel, of "Some [((0, 1, 0), 0)]"] show ?thesis by auto
qed

section \<open>The router\<close>

definition grid_size :: "fabric_db \<Rightarrow> nat \<Rightarrow> nat \<Rightarrow> nat \<Rightarrow> nat \<times> nat \<times> nat \<times> nat \<times> nat" where
  "grid_size db W N_INJ EXT_IN =
     (case db_grid_bounds db of Inl _ \<Rightarrow> (0, 0, W, N_INJ, EXT_IN)
      | Inr (x0, y0, x1, y1) \<Rightarrow> (nat (y1 - y0 + 1), nat (x1 - x0 + 1), W, N_INJ, EXT_IN))"

lemma finish_dims: "finish_route rc active pf m W = Inr rc' \<Longrightarrow> rc_grid_dims rc' = rc_grid_dims rc"
  by (auto simp: finish_route_def Let_def split: sum.splits if_splits)

lemma route_dims:
  assumes "db_grid_bounds db = Inr (x0, y0, x1, y1)" and "route shuffle db max_iters W N_INJ EXT_IN = Some (Inr rc)"
  shows "rc_grid_dims rc = grid_size db W N_INJ EXT_IN"
  using assms by (auto simp: route_def grid_size_def Let_def route_start_def dest!: finish_dims split: if_splits option.splits)

text \<open>C14: \<open>route\<close> ends on every database, for every permutation of the nets, number of iterations and size of
  the fabric: the search, the walk back from a sink and the congestion loop all stop. It raises
  exactly on a database without tiles; in particular the translation of the chosen edges into
  selects never meets a direction it does not know. Otherwise it returns a configuration for the
  bounding box of the tiles.\<close>

theorem route_ends:
  "case route shuffle db max_iters W N_INJ EXT_IN of
     None \<Rightarrow> False
   | Some (Inl e) \<Rightarrow> db_tiles db = [] \<and> e = RoutePack NoTiles
   | Some (Inr rc) \<Rightarrow> db_tiles db \<noteq> [] \<and> rc_grid_dims rc = grid_size db W N_INJ EXT_IN"
proof (cases "db_tiles db = []")
  case True
  then show ?thesis by (simp add: route_def db_grid_bounds_def)
next
  case False
  then obtain x0 y0 x1 y1 where box: "db_grid_bounds db = Inr (x0, y0, x1, y1)" using grid_bounds_ok by blast
  from route_total [of shuffle db max_iters W N_INJ EXT_IN] False obtain rc where
    r: "route shuffle db max_iters W N_INJ EXT_IN = Some (Inr rc)" by blast
  with False route_dims [OF box r] show ?thesis by simp
qed

text \<open>C13: \<open>_dijkstra\<close> is exact. It ends on every graph, and the distance it has for a node is the least cost
  of a path from the source, present exactly for the nodes that a path reaches; a step onto a node
  costs one plus the product of its history and its present occupation.\<close>

theorem dijkstra_exact:
  "\<exists>dist prev. dijkstra (adj_of graph) src hist occ = Some (dist, prev)
     \<and> (\<forall>v. dist v = (if \<exists>c. path_cost (adj_of graph) (edge_cost hist occ) src v c
                     then Some (LEAST c. path_cost (adj_of graph) (edge_cost hist occ) src v c) else None))"
proof -
  let ?p = "path_cost (adj_of graph) (edge_cost hist occ) src"
  obtain dist prev where d: "dijkstra (adj_of graph) src hist occ = Some (dist, prev)"
    and some: "\<And>v d. dist v = Some d \<longleftrightarrow> ?p v d \<and> (\<forall>c. ?p v c \<longrightarrow> d \<le> c)" and none: "\<And>v. dist v = None \<longleftrightarrow> (\<nexists>c. ?p v c)"
    by (rule dijkstra_back_links [of graph src hist occ]) (rule that; assumption)
  have "dist v = (if \<exists>c. ?p v c then Some (LEAST c. ?p v c) else None)" for v
  proof (cases "\<exists>c. ?p v c")
    case True
    then have "?p v (LEAST c. ?p v c)" by (rule LeastI_ex)
    moreover have "\<forall>c. ?p v c \<longrightarrow> (LEAST c. ?p v c) \<le> c" using Least_le by metis
    ultimately show ?thesis using True some by simp
  next
    case False
    with none show ?thesis by simp
  qed
  with d show ?thesis by blast
qed

text \<open>C12: a converged run has no conflict, and it routes what one exit can reach. There is one tree for
  every net that is routed: from the driver through one injection to all its sinks, along edges
  of the possibility graph, every node entered once; no two trees share a node; the selects of
  the tiles are those of the trees. The routed nets are the nets that pass the checks before the
  loop and have an exit direction from which every sink can be reached.\<close>

theorem converged_routes:
  assumes "permutes_nets shuffle" and "db_grid_bounds db = Inr (x0, y0, x1, y1)"
    and "route shuffle db max_iters W N_INJ EXT_IN = Some (Inr rc)" and "rc_converged rc"
  shows "\<exists>rn. clean_routing (route_graph db (x0, y0, x1, y1) W N_INJ) N_INJ rn
    \<and> populate W (all_edges rn) [] = Inr (rc_tiles rc) \<and> rc_n_routed rc = length rn
    \<and> fst ` set rn = set (filter (can_route (route_graph db (x0, y0, x1, y1) W N_INJ) N_INJ)
         (filter (reached (route_graph db (x0, y0, x1, y1) W N_INJ)) (routable_nets db x0 y0 N_INJ)))"
  using route_clean [OF assms] by metis

theorem converged_routes_witness:
  "\<exists>rn. clean_routing (route_graph pair_db (0, 0, 1, 0) 1 1) 1 rn \<and> length rn = 1
     \<and> populate 1 (all_edges rn) [] = Inr (rc_tiles pair_rc)"
proof -
  have "rc_converged pair_rc" "rc_n_routed pair_rc = 1" by code_simp+
  with converged_routes [OF no_shuffle_permutes pair_box pair_route] show ?thesis by auto
qed

text \<open>C40: \<open>rc.unrouted\<close> lists, in this order, the nets between clusters with several drivers or a driver that
  cannot be injected, the nets with a sink that no path reaches, and, when the loop has not
  converged, all the others.\<close>

theorem unrouted_exact:
  assumes "db_grid_bounds db = Inr (x0, y0, x1, y1)" and "route shuffle db max_iters W N_INJ EXT_IN = Some (Inr rc)"
  shows "map fst (rc_unrouted rc) =
      map nt_name (filter (\<lambda>n. 1 < nt_n_drivers n \<or> \<not> driver_index n < N_INJ) (inter_nets db x0 y0))
      @ map nt_name (filter (\<lambda>n. \<not> reached (route_graph db (x0, y0, x1, y1) W N_INJ) n) (routable_nets db x0 y0 N_INJ))
      @ (if rc_converged rc then []
         else map nt_name (filter (reached (route_graph db (x0, y0, x1, y1) W N_INJ)) (routable_nets db x0 y0 N_INJ)))"
proof -
  have pre: "(\<lambda>n. preflight_reason N_INJ n \<noteq> None) = (\<lambda>n. 1 < nt_n_drivers n \<or> \<not> driver_index n < N_INJ)"
    by (auto simp: preflight_reason_def fun_eq_iff)
  show ?thesis
    unfolding pre [symmetric]
    by (cases rule: route_cases [OF assms(1), of shuffle max_iters W N_INJ EXT_IN]) (use assms(2) in simp_all)
qed

theorem unrouted_exact_witness:
  "\<exists>rc. route no_shuffle pair_db 5 1 0 CLB_EXT_IN = Some (Inr rc) \<and> map fst (rc_unrouted rc) = [''x'']"
proof -
  have "case route no_shuffle pair_db 5 1 0 CLB_EXT_IN of Some (Inr rc) \<Rightarrow> rc_converged rc | _ \<Rightarrow> False" by code_simp
  then obtain rc where r: "route no_shuffle pair_db 5 1 0 CLB_EXT_IN = Some (Inr rc)" "rc_converged rc"
    by (auto split: option.splits sum.splits)
  have n: "map nt_name (inter_nets pair_db 0 0) = [''x'']" "routable_nets pair_db 0 0 0 = []" by code_simp+
  from unrouted_exact [OF pair_box r(1)] r show ?thesis by (simp add: n)
qed

section \<open>What is lost\<close>

text \<open>A net with sinks on both sides of its driver in a row of tiles: every sink is reached, each from
  another exit, so no exit reaches both. \<open>_route_net\<close> returns \<open>None\<close> and the loop goes on without the
  net: \<open>route\<close> converges, lists nothing as unrouted and leaves the net without a route.\<close>

definition row_tile :: "string option \<Rightarrow> string option \<Rightarrow> tile_logic" where
  "row_tile i j = \<lparr>tl_eluts = [], tl_iib_mux = Map.empty, tl_inputs = [(0, i)], tl_outputs = [(0, j)]\<rparr>"

definition row_db :: fabric_db where
  "row_db = empty_db\<lparr>db_tiles := [((0, 0), row_tile (Some ''n'') None), ((1, 0), row_tile None (Some ''n'')), ((2, 0), row_tile (Some ''n'') None)]\<rparr>"

lemma two_sided_net_dropped:
  "case route no_shuffle row_db 5 1 1 CLB_EXT_IN of
     Some (Inr rc) \<Rightarrow> rc_converged rc \<and> rc_unrouted rc = [] \<and> rc_n_nets rc = 1 \<and> rc_n_routed rc = 0 \<and> rc_tiles rc = []
   | _ \<Rightarrow> False"
  by code_simp

text \<open>Two outputs that buffers join to one net: the inverted dict keeps one of them, and the other has no
  tap and no entry in the result of \<open>evaluate\<close>. An output that is itself driven hides its aliases.\<close>

lemma joined_outputs_lost:
  "po_taps_of (row_db\<lparr>db_outputs := [''p'', ''q''], db_po_aliases := [(''p'', ''n''), (''q'', ''n'')]\<rparr>) (0, 0) = [(0, 1, 0, ''q'')]"
  "po_taps_of (row_db\<lparr>db_outputs := [''n'', ''p''], db_po_aliases := [(''p'', ''n'')]\<rparr>) (0, 0) = [(0, 1, 0, ''n'')]"
  by code_simp+

end
