(* ===== verification/Spec2Isabelle.thy ===== *)
theory Spec2Isabelle
  imports Emri Frame_Props Fabric_Props Capcheck_Props Efp_Control Efp_Frames Efp_Image_Props Rv_Dut_Props Fabric_Run_Props
begin

text \<open>
  Verification of the Python tools of the Ethereal platform: the tools that turn a netlist into
  configuration frames of an FPGA-like fabric, pack and sign images, deploy them on the board
  daemon, and compare a RISC-V core with a golden simulator. Paths are relative to src/; the
  mapper files are under ethereal-tools/tools/mapper/bitgen, the harness files under
  ethereal-shell/verif/eth_rv.

  \<^bold>\<open>How the parts work together.\<close> A synthesized and placed netlist goes through bitgen_db.py, which
  chooses the truth tables and input selects of every cluster, and bitgen_route.py, which connects
  the clusters; bitgen_pack.py lays the result out over the frame map of frame_map.py, and
  fabric_sim.py evaluates it. The frames, a capability declaration (capcheck.py) and a manifest
  become an image (ethimg.py); efp_client.py checks the image again and deploys it by writing the
  registers of emri_constants.py, which the daemon model of the same file executes. Apart from
  this, the DiffTest harness (rv_*.py) runs a core step by step and compares its commits with the
  log of the Spike simulator.

  \<^bold>\<open>Conventions.\<close> A Python integer is an \<open>int\<close>, or a \<open>nat\<close> where the code checks or constructs it
  non-negative; operations on fixed widths are written with the masks of the code, and the
  instruction set they implement with \<open>word\<close>. A dict is an association list where its order
  matters (\<open>AList.update\<close> keeps the position of a key, as Python does) and a map where it does not.
  A raised exception is the left value of a sum, with one error type per component; messages are
  reduced to the check that failed. A loop whose end is a result and not obvious is a
  \<open>partial_function\<close> with \<open>None\<close> for not ending, and a lemma shows that it ends.

  \<^bold>\<open>Base.\<close> \<open>Prelude\<close> holds the sums, the bit lists and the JSON values; \<open>Py_Text\<close> the operations on
  text; \<open>Crc\<close> the checksum of the frames, with the locale \<open>injective_register\<close> (a register whose step
  is injective in state and byte keeps a single changed byte visible) and its interpretation on
  \<open>crc_byte\<close>; \<open>Sha256\<close> the digest of the images; \<open>Emri\<close> the register constants.

  \<^bold>\<open>Frame map and fabric generator.\<close> \<open>Frame_Map\<close> models frame_map.py, both the homogeneous packer and
  the one for columns of different tile types; \<open>Frame_Codec\<close> proves them correct, over the locale
  \<open>frame_codec\<close> that is interpreted once for each. \<open>Frame_Props\<close> states the round trips, when packing
  succeeds and which flipped bits of a frame are refused. \<open>Fabric_Gen\<close> and \<open>Fabric_Props\<close> cover the descriptor
  checks, the manifest and the self check of fabric_gen.py.

  \<^bold>\<open>Capabilities and images.\<close> \<open>Capcheck\<close> models ethereal-runtime/security/capcheck.py on parsed YAML;
  \<open>Capcheck_Props\<close> shows that a granted declaration stays inside the platform masks and says exactly
  what was declared. \<open>Ethimg\<close> models the manifest, the packer and the verifier of
  ethereal-tools/tools/ethimg.py; \<open>Ethimg_Props\<close> shows that the verifier is fail-closed, that the signed
  digest determines the content unless two named texts collide under SHA-256, and that a packed image verifies. The
  YAML and Ed25519 packages are arguments; what a theorem needs of them is a hypothesis of it.

  \<^bold>\<open>Deployment.\<close> \<open>Efp_Wire\<close>, \<open>Efp_Session\<close>, \<open>Efp_Daemon\<close> and \<open>Efp_Image\<close> model
  ethereal-tools/tools/efp_client.py: frames and addresses, the builder of the operation lists, the
  daemon as a state machine over register writes and ticks with the execution of a list against
  it, and the image loader with the client. \<open>Efp_Lemmas\<close> and \<open>Efp_Run\<close> execute whole sessions;
  \<open>Efp_Control\<close> has the invariant that only a verified region runs, over every interleaving of
  writes and ticks; \<open>Efp_Frames\<close> the wire; \<open>Efp_Image_Props\<close> the way from an archive to a running
  region. Polls have the limits of the code, and the theorems on sessions show that the limits
  are enough for the daemon.

  \<^bold>\<open>The mapper.\<close> \<open>Bitgen_Db\<close> and \<open>Bitgen_Net\<close> model bitgen_db.py: the truth tables, the backtracking
  solver of the pin classes, the readers, the buffer classes and the tile builder. \<open>Bitgen_Sim\<close> holds
  the tile evaluators of bitgen_sim.py and fabric_sim.py, \<open>Bitgen_Pack\<close> bitgen_pack.py. \<open>Bitgen_Solver\<close>
  shows the solver exact; \<open>Bitgen_Tt\<close>, \<open>Bitgen_Pins\<close>, \<open>Bitgen_Tile\<close> and \<open>Bitgen_Build\<close> that a built tile
  computes the covers of its netlist; \<open>Bitgen_Settle\<close>, \<open>Bitgen_Bits\<close>, \<open>Bitgen_Run\<close> and \<open>Bitgen_Next\<close> that
  the \<open>CLB_N + 2\<close> sweeps of the evaluators are enough for LUTs that have an order, that the two
  evaluators agree, and what the registers capture; \<open>Bitgen_Reads\<close> and \<open>Bitgen_Order\<close> which pins a truth table depends
  on, and that an output depends only on the input bits read on the way to it; \<open>Bitgen_Frames\<close>, \<open>Bitgen_Grid\<close> and
  \<open>Bitgen_Deploy\<close> that the frames carry all of it; \<open>Bitgen_Buffers\<close> that the buffer classes are the
  connected components. \<open>Bitgen_Props\<close> states the properties.

  \<^bold>\<open>The router.\<close> \<open>Route_Graph\<close> and \<open>Route_Find\<close> model bitgen_route.py from the nets to the selects of the
  tiles. The shuffle of the seeded generator is an argument \<open>shuffle\<close>, and the theorems hold for
  every permutation. \<open>Route_Paths\<close> shows the search total and exact, in the locale \<open>search_graph\<close>
  (finitely many nodes, positive costs) that is interpreted on the graphs of the router; its
  measure counts the improvements that are still possible. \<open>Route_Nets\<close> has the tree of one net,
  \<open>Route_All\<close> the trees of a converged iteration, \<open>Route_Config\<close> the selects they give, and
  \<open>Route_Result\<close> the whole of \<open>route\<close>.

  \<^bold>\<open>The fabric.\<close> \<open>Fabric_Switch\<close> models the switch box and the connection block
  (ethereal-fabric/tests/interconnect/sb_model.py, cb_model.py), \<open>Fabric_Sim\<close> the simulator class of
  fabric_sim.py, whose passes take \<open>max_iters\<close> as fuel as the code does. \<open>Fabric_Config\<close> shows what
  the construction puts into every tile, \<open>Fabric_Fix\<close> what holds when the passes converge,
  \<open>Fabric_Deliver\<close> that the pins of the clusters then carry their nets, and \<open>Fabric_Netlist\<close> that the
  clusters together solve the netlist. That the passes converge is shown over the locale
  \<open>ranked_iteration\<close> of \<open>Ranked_Iteration\<close> (visits of cells whose values are decided, rank by rank, by
  lower ranks), interpreted on the passes of the simulator in \<open>Fabric_Order\<close>; \<open>Fabric_Converge\<close> turns
  it into the end of \<open>evaluate\<close>. \<open>Fabric_Levels\<close> gets the ranks from levels of the nets and the trees of
  the router, and \<open>Fabric_Total\<close> concludes that a routed design without a combinational loop
  converges within \<open>pass_bound\<close>, one more than the tracks and cluster outputs of the box, to the only
  solution of its netlist. \<open>Fabric_Run_Props\<close> states the properties of router and fabric.

  \<^bold>\<open>The harness.\<close> \<open>Rv_Memory\<close>, \<open>Rv_Exec\<close> and \<open>Rv_Run\<close> model rv_model.py, the interpreter of RV64IMC; the
  locale \<open>byte_store\<close> gives its multi-byte accesses from the laws of a byte memory. \<open>Rv_Isa\<close>,
  \<open>Rv_Decode\<close> and \<open>Rv_Compressed\<close> hold the instruction set on machine words and show that the
  interpreter refines it; \<open>Rv_Props\<close> states this, the invariant, and that a run ends within its
  budget. \<open>Rv_Commit\<close> and \<open>Rv_Text\<close> model rv_trace.py, \<open>Rv_Spike\<close> rv_spike.py, \<open>Rv_Diff\<close>
  rv_difftest.py and \<open>Rv_Dut\<close> rv_dut.py; their \<open>_Props\<close> theories show the round trip of the trace
  text, that the comparator reports exactly the first disagreement, and what a captured trace and
  an injected fault give.

  \<^bold>\<open>Not modelled.\<close> The command line tools and the registry client (ethctl.py, oci_registry.py) are
  argument parsing, HTTP and files around the modelled parts. Of the router, the application to a
  \<open>FabricGrid\<close> is left out, and of the mapper the memory and multiplier columns (bitgen_het.py,
  fabric_sim_het.py). The scripts that build firmware, boot images and test vectors, or drive
  compilers and simulators as subprocesses, have no state of their own. The firmware in C and the
  hardware in SystemVerilog are other programs; the Python models of hardware that only the
  hardware tests use are left out with them.
\<close>

end
